(* ===== verification/Rust_Prelude.thy ===== *)
theory Rust_Prelude
  imports Main "HOL-Library.Word"
begin

text \<open>
  Shared vocabulary of the development: the machine types of the Rust sources, the
  \<open>Result\<close> type with its early return, the two loop shapes the sources use (a fallible
  fold over a slice and a fallible counted loop), the checked arithmetic of the standard
  library, and the generic lemmas the component theories rest on.

  A Rust \<open>Result<T, E>\<close> is \<open>'e + 't\<close> with \<open>Inl\<close> for \<open>Err\<close>. A mutating method returns the
  new state; a method that leaves \<open>self\<close> unchanged on \<open>Err\<close> returns no state with the error.
\<close>

named_theorems result_simps
  \<open>inversion of \<open>Ok\<close> results of guard chains, \<open>?\<close> and loops\<close>

named_theorems codec_simps
  \<open>evaluation of readers on encodings\<close>

section \<open>Machine types\<close>

type_synonym u8 = "8 word"
type_synonym u16 = "16 word"
type_synonym u32 = "32 word"
type_synonym u64 = "64 word"
type_synonym u128 = "128 word"

text \<open>
  \<open>[u8; 32]\<close> and \<open>[u8; 64]\<close> are words of 256 and 512 bits, read big-endian: the array's
  lexicographic order is then the word's numeric order (shown in \<open>Byte_Codec\<close>).
\<close>

type_synonym array32 = "256 word"
type_synonym array64 = "512 word"
type_synonym bytes = "u8 list"

section \<open>Results and early return\<close>

definition bindR :: "'e + 'a \<Rightarrow> ('a \<Rightarrow> 'e + 'b) \<Rightarrow> 'e + 'b" where
  "bindR r f = (case r of Inl e \<Rightarrow> Inl e | Inr x \<Rightarrow> f x)"

definition ok_or :: "'e \<Rightarrow> 'a option \<Rightarrow> 'e + 'a" where
  "ok_or e x = (case x of None \<Rightarrow> Inl e | Some v \<Rightarrow> Inr v)"

definition map_err :: "('e \<Rightarrow> 'f) \<Rightarrow> 'e + 'a \<Rightarrow> 'f + 'a" where
  "map_err h r = (case r of Inl e \<Rightarrow> Inl (h e) | Inr x \<Rightarrow> Inr x)"

definition is_ok :: "'e + 'a \<Rightarrow> bool" where
  "is_ok r = (case r of Inl _ \<Rightarrow> False | Inr _ \<Rightarrow> True)"

lemma bindR_simps [simp]:
  "bindR (Inl e) f = Inl e"
  "bindR (Inr x) f = f x"
  by (simp_all add: bindR_def)

lemma bindR_eq_Inr [simp, result_simps]:
  "bindR r f = Inr y \<longleftrightarrow> (\<exists>x. r = Inr x \<and> f x = Inr y)"
  by (cases r) auto

lemma bindR_eq_Inl:
  "bindR r f = Inl e \<longleftrightarrow> r = Inl e \<or> (\<exists>x. r = Inr x \<and> f x = Inl e)"
  by (cases r) auto

lemma bindR_assoc: "bindR (bindR r f) g = bindR r (\<lambda>x. bindR (f x) g)"
  by (cases r) auto

lemma guard_eq_Inr [simp, result_simps]:
  "(if c then Inl e else r) = Inr y \<longleftrightarrow> \<not> c \<and> r = Inr y"
  by simp

lemma ok_or_simps [simp]:
  "ok_or e None = Inl e"
  "ok_or e (Some x) = Inr x"
  by (simp_all add: ok_or_def)

lemma ok_or_eq_Inr [simp, result_simps]: "ok_or e x = Inr y \<longleftrightarrow> x = Some y"
  by (cases x) auto

lemma map_err_simps [simp]:
  "map_err h (Inl e) = Inl (h e)"
  "map_err h (Inr x) = Inr x"
  by (simp_all add: map_err_def)

lemma map_err_eq_Inr [simp, result_simps]: "map_err h r = Inr y \<longleftrightarrow> r = Inr y"
  by (cases r) auto

lemma is_ok_simps [simp]:
  "is_ok (Inl e) = False"
  "is_ok (Inr x) = True"
  by (simp_all add: is_ok_def)

lemma is_ok_iff: "is_ok r \<longleftrightarrow> (\<exists>x. r = Inr x)"
  by (cases r) auto

section \<open>Loops\<close>

text \<open>\<open>for x in xs { s = step(s, x)?; }\<close>\<close>

fun foldR :: "('s \<Rightarrow> 'a \<Rightarrow> 'e + 's) \<Rightarrow> 's \<Rightarrow> 'a list \<Rightarrow> 'e + 's" where
  "foldR step s [] = Inr s"
| "foldR step s (x # xs) = bindR (step s x) (\<lambda>s'. foldR step s' xs)"

text \<open>\<open>for x in xs { check(x)?; }\<close>\<close>

fun allR :: "('a \<Rightarrow> 'e + unit) \<Rightarrow> 'a list \<Rightarrow> 'e + unit" where
  "allR check [] = Inr ()"
| "allR check (x # xs) = bindR (check x) (\<lambda>_. allR check xs)"

text \<open>\<open>for x in xs { out.push(f(x)?); }\<close>\<close>

fun mapR :: "('a \<Rightarrow> 'e + 'b) \<Rightarrow> 'a list \<Rightarrow> 'e + 'b list" where
  "mapR f [] = Inr []"
| "mapR f (x # xs) = bindR (f x) (\<lambda>y. bindR (mapR f xs) (\<lambda>ys. Inr (y # ys)))"

lemma foldR_append:
  "foldR step s (xs @ ys) = bindR (foldR step s xs) (\<lambda>s'. foldR step s' ys)"
  by (induction xs arbitrary: s) (auto simp: bindR_assoc)

lemma foldR_snoc: "foldR step s (xs @ [x]) = bindR (foldR step s xs) (\<lambda>s'. step s' x)"
proof -
  have "(\<lambda>s'. foldR step s' [x]) = (\<lambda>s'. step s' x)"
    by (rule ext) (simp add: bindR_def split: sum.split)
  then show ?thesis by (simp add: foldR_append)
qed

lemma foldR_invariant:
  assumes "foldR step s xs = Inr s'" and "I s"
    and "\<And>s x s'. I s \<Longrightarrow> x \<in> set xs \<Longrightarrow> step s x = Inr s' \<Longrightarrow> I s'"
  shows "I s'"
  using assms
proof (induction xs arbitrary: s)
  case Nil
  then show ?case by simp
next
  case (Cons x xs)
  from Cons.prems(1) obtain t where t: "step s x = Inr t" "foldR step t xs = Inr s'" by auto
  have "I t" by (rule Cons.prems(3) [OF Cons.prems(2) _ t(1)]) simp
  then show ?case by (rule Cons.IH [OF t(2)]) (rule Cons.prems(3), simp_all)
qed

lemma allR_eq_Inr [simp, result_simps]:
  "allR check xs = Inr u \<longleftrightarrow> (\<forall>x\<in>set xs. check x = Inr ())"
  by (induction xs) auto

lemma mapR_eq_Inr: "mapR f xs = Inr ys \<longleftrightarrow> list_all2 (\<lambda>x y. f x = Inr y) xs ys"
  by (induction xs arbitrary: ys) (auto simp: list_all2_Cons1)

lemma mapR_length: "mapR f xs = Inr ys \<Longrightarrow> length ys = length xs"
  by (induction xs arbitrary: ys) auto

section \<open>Checked arithmetic\<close>

definition checked_add :: "'a::len word \<Rightarrow> 'a word \<Rightarrow> 'a word option" where
  "checked_add a b = (if unat a + unat b < 2 ^ LENGTH('a) then Some (a + b) else None)"

lemma checked_add_eq_Some:
  "checked_add a b = Some c \<longleftrightarrow> unat c = unat a + unat b"
proof
  assume "checked_add a b = Some c"
  then show "unat c = unat a + unat b"
    by (auto simp: checked_add_def unat_word_ariths split: if_splits)
next
  assume *: "unat c = unat a + unat b"
  have lt: "unat c < 2 ^ LENGTH('a)" by (rule unsigned_less)
  with * have "unat (a + b) = unat c"
    by (simp add: unat_word_ariths)
  then have "c = a + b" by (simp add: word_unat_eq_iff)
  with * lt show "checked_add a b = Some c"
    by (simp add: checked_add_def)
qed

lemma checked_add_one:
  "checked_add a 1 = Some c \<longleftrightarrow> unat (c :: 'a::len word) = Suc (unat a)"
  by (simp add: checked_add_eq_Some)

lemma checked_add_one_None:
  "checked_add a 1 = None \<longleftrightarrow> (a :: 'a::len word) = - 1"
proof -
  have lt: "unat a < 2 ^ LENGTH('a)" by (rule unsigned_less)
  have "checked_add a 1 = None \<longleftrightarrow> \<not> Suc (unat a) < 2 ^ LENGTH('a)"
    by (simp add: checked_add_def)
  also have "\<dots> \<longleftrightarrow> unat a = 2 ^ LENGTH('a) - 1"
    using lt by arith
  also have "\<dots> \<longleftrightarrow> a = - 1"
    by (simp add: word_unat_eq_iff unsigned_minus_1_eq_mask mask_eq_exp_minus_1)
  finally show ?thesis .
qed

lemma unat_plus_noloss:
  "unat a + unat b < 2 ^ LENGTH('a) \<Longrightarrow> unat (a + b :: 'a::len word) = unat a + unat b"
  by (simp add: unat_word_ariths)

lemma unat_times_noloss:
  "unat a * unat b < 2 ^ LENGTH('a) \<Longrightarrow> unat (a * b :: 'a::len word) = unat a * unat b"
  by (simp add: unat_word_ariths)

lemma unat_minus_noloss:
  "b \<le> a \<Longrightarrow> unat (a - b :: 'a::len word) = unat a - unat b"
  by (rule unat_sub)

section \<open>Canonical key order\<close>

text \<open>
  \<open>keys.windows(2).any(|pair| pair[0] >= pair[1])\<close> refuses exactly the lists that are not
  strictly ascending; \<open>binary_search\<close> on such a list decides membership.
\<close>

fun ascending :: "'a::linorder list \<Rightarrow> bool" where
  "ascending (x # y # zs) = (x < y \<and> ascending (y # zs))"
| "ascending _ = True"

lemma ascending_iff: "ascending xs \<longleftrightarrow> sorted_wrt (<) xs"
proof (induction xs rule: ascending.induct)
  case (1 x y zs)
  then show ?case by (auto simp del: sorted_wrt.simps simp: sorted_wrt2)
qed auto

lemma ascending_distinct: "ascending xs \<Longrightarrow> distinct xs"
  by (simp add: ascending_iff strict_sorted_iff)

lemma ascending_tl: "ascending (x # xs) \<Longrightarrow> ascending xs"
  by (simp add: ascending_iff)

text \<open>
  The standard library's binary search. On a strictly ascending slice the position it
  reports is the only one that can hold the key.
\<close>

function bsearch_from :: "'a::linorder list \<Rightarrow> 'a \<Rightarrow> nat \<Rightarrow> nat \<Rightarrow> nat option" where
  "bsearch_from xs k lo hi =
     (if lo \<ge> hi then None
      else let mid = lo + (hi - lo) div 2 in
        if xs ! mid = k then Some mid
        else if xs ! mid < k then bsearch_from xs k (Suc mid) hi
        else bsearch_from xs k lo mid)"
  by pat_completeness auto
termination
  by (relation "measure (\<lambda>(xs, k, lo, hi). hi - lo)") (auto simp: Let_def)

declare bsearch_from.simps [simp del]

definition binary_search :: "'a::linorder list \<Rightarrow> 'a \<Rightarrow> nat option" where
  "binary_search xs k = bsearch_from xs k 0 (length xs)"

lemma bsearch_from_Some:
  "bsearch_from xs k lo hi = Some i \<Longrightarrow> hi \<le> length xs \<Longrightarrow> i < length xs \<and> xs ! i = k"
proof (induction xs k lo hi rule: bsearch_from.induct)
  case (1 xs k lo hi)
  define mid where "mid = lo + (hi - lo) div 2"
  from "1.prems" have lt: "lo < hi"
    by (subst (asm) bsearch_from.simps) (auto split: if_splits)
  then have mid: "lo \<le> mid" "mid < hi" by (auto simp: mid_def)
  have unf: "bsearch_from xs k lo hi =
      (if xs ! mid = k then Some mid
       else if xs ! mid < k then bsearch_from xs k (Suc mid) hi else bsearch_from xs k lo mid)"
    using lt by (subst bsearch_from.simps) (simp add: Let_def mid_def)
  show ?case
    using "1.IH" [of mid] "1.prems" lt mid unf
    by (auto simp: mid_def split: if_splits)
qed

lemma bsearch_from_None:
  assumes "sorted_wrt (<) xs"
  shows "bsearch_from xs k lo hi = None \<Longrightarrow> hi \<le> length xs \<Longrightarrow> lo \<le> i \<Longrightarrow> i < hi \<Longrightarrow> xs ! i \<noteq> k"
  using assms
proof (induction xs k lo hi arbitrary: i rule: bsearch_from.induct)
  case (1 xs k lo hi)
  define mid where "mid = lo + (hi - lo) div 2"
  from "1.prems" have lt: "lo < hi" by auto
  then have mid: "lo \<le> mid" "mid < hi" by (auto simp: mid_def)
  have unf: "bsearch_from xs k lo hi =
      (if xs ! mid = k then Some mid
       else if xs ! mid < k then bsearch_from xs k (Suc mid) hi else bsearch_from xs k lo mid)"
    using lt by (subst bsearch_from.simps) (simp add: Let_def mid_def)
  have mono: "a < b \<Longrightarrow> b < length xs \<Longrightarrow> xs ! a < xs ! b" for a b
    using "1.prems"(5) by (simp add: sorted_wrt_iff_nth_less)
  from "1.prems"(1) unf have ne: "xs ! mid \<noteq> k" by (auto split: if_splits)
  consider "i = mid" | "i < mid" "xs ! mid < k" | "i < mid" "\<not> xs ! mid < k"
    | "mid < i" "xs ! mid < k" | "mid < i" "\<not> xs ! mid < k"
    by (meson linorder_neqE_nat)
  then show ?case
  proof cases
    case 1
    with ne show ?thesis by simp
  next
    case 2
    with mono [of i mid] mid "1.prems" show ?thesis by auto
  next
    case 3
    with "1.prems" unf ne have "bsearch_from xs k lo mid = None" by auto
    with 3 "1.IH"(2) [OF _ mid_def ne] lt mid "1.prems" show ?thesis by auto
  next
    case 4
    with "1.prems" unf ne have "bsearch_from xs k (Suc mid) hi = None" by auto
    with 4 "1.IH"(1) [OF _ mid_def ne] lt mid "1.prems" show ?thesis by auto
  next
    case 5
    with mono [of mid i] mid "1.prems" ne show ?thesis by auto
  qed
qed

lemma binary_search_Some:
  "binary_search xs k = Some i \<Longrightarrow> i < length xs \<and> xs ! i = k"
  by (simp add: binary_search_def bsearch_from_Some)

lemma binary_search_mem:
  "ascending xs \<Longrightarrow> binary_search xs k \<noteq> None \<longleftrightarrow> k \<in> set xs"
proof
  assume "binary_search xs k \<noteq> None"
  then obtain i where "binary_search xs k = Some i" by blast
  then show "k \<in> set xs" using binary_search_Some [of xs k i] by auto
next
  assume asc: "ascending xs" and "k \<in> set xs"
  then obtain i where "i < length xs" "xs ! i = k" by (auto simp: in_set_conv_nth)
  with asc bsearch_from_None [of xs k 0 "length xs" i] show "binary_search xs k \<noteq> None"
    by (auto simp: binary_search_def ascending_iff)
qed

lemma binary_search_eq:
  assumes "ascending xs" and "i < length xs" and "xs ! i = k"
  shows "binary_search xs k = Some i"
proof -
  from assms have "binary_search xs k \<noteq> None" by (subst binary_search_mem) auto
  then obtain j where j: "binary_search xs k = Some j" by blast
  then have "j < length xs" "xs ! j = k" using binary_search_Some [of xs k j] by auto
  with assms have "j = i" using ascending_distinct [of xs] by (auto simp: nth_eq_iff_index_eq)
  with j show ?thesis by simp
qed

end
