(* ===== verification/Byte_Codec.thy ===== *)
theory Byte_Codec
  imports Rust_Prelude
begin

text \<open>
  Byte-level encodings shared by every wire format of the repository: big-endian integers
  and fixed arrays (\<open>to_be_bytes\<close>, \<open>from_be_bytes\<close>, \<open>try_into\<close> on exact slices), readers that
  consume a prefix and return the rest, and the interface a reader/writer pair promises.
  The locale \<open>prefix_codec\<close> is that interface; it is interpreted for every width the formats
  use and for the composite fields of the component theories.
\<close>

section \<open>Big-endian integers\<close>

primrec be_nat :: "nat \<Rightarrow> nat \<Rightarrow> bytes" where
  "be_nat 0 v = []"
| "be_nat (Suc n) v = be_nat n (v div 256) @ [word_of_nat v]"

definition nat_be :: "bytes \<Rightarrow> nat" where
  "nat_be bs = foldl (\<lambda>acc b. acc * 256 + unat b) 0 bs"

definition to_be :: "'a::len word \<Rightarrow> bytes" where
  "to_be w = be_nat (LENGTH('a) div 8) (unat w)"

definition from_be :: "bytes \<Rightarrow> 'a::len word" where
  "from_be bs = word_of_nat (nat_be bs)"

lemma length_be_nat [simp]: "length (be_nat n v) = n"
  by (induction n arbitrary: v) auto

lemma length_to_be [simp]: "length (to_be (w :: 'a::len word)) = LENGTH('a) div 8"
  by (simp add: to_be_def)

lemma nat_be_Nil [simp]: "nat_be [] = 0"
  by (simp add: nat_be_def)

lemma nat_be_snoc [simp]: "nat_be (bs @ [b]) = nat_be bs * 256 + unat b"
  by (simp add: nat_be_def)

lemma unat_u8_lt: "unat (b :: u8) < 256"
  using unsigned_less [where 'a = nat, of b] by simp

lemma nat_be_bound: "nat_be bs < 256 ^ length bs"
proof (induction bs rule: rev_induct)
  case Nil
  then show ?case by simp
next
  case (snoc b bs)
  then have "nat_be bs * 256 + unat b < (nat_be bs + 1) * 256"
    using unat_u8_lt [of b] by simp
  also have "\<dots> \<le> 256 ^ length bs * 256"
    using snoc by (intro mult_right_mono) auto
  finally show ?case by (simp add: mult.commute)
qed

lemma nat_be_be_nat: "nat_be (be_nat n v) = v mod 256 ^ n"
proof (induction n arbitrary: v)
  case 0
  then show ?case by simp
next
  case (Suc n)
  have "unat (word_of_nat v :: u8) = v mod 256"
    by (simp add: unat_of_nat)
  with Suc show ?case
    by (simp add: mod_mult2_eq [of v 256] algebra_simps)
qed

lemma be_nat_nat_be: "be_nat (length bs) (nat_be bs) = bs"
proof (induction bs rule: rev_induct)
  case Nil
  then show ?case by simp
next
  case (snoc b bs)
  have "(nat_be bs * 256 + unat b) div 256 = nat_be bs"
    using unat_u8_lt [of b] by simp
  moreover have "(word_of_nat (nat_be bs * 256 + unat b) :: u8) = b"
  proof -
    have "unat (word_of_nat (nat_be bs * 256 + unat b) :: u8) = (nat_be bs * 256 + unat b) mod 2 ^ 8"
      by (rule trans [OF unat_of_nat]) simp
    then have "unat (word_of_nat (nat_be bs * 256 + unat b) :: u8) = unat b"
      using unat_u8_lt [of b] by simp
    then show ?thesis by (simp add: word_unat_eq_iff)
  qed
  ultimately show ?case using snoc by simp
qed

lemma two_power_width: "LENGTH('a::len) = 8 * n \<Longrightarrow> (2::nat) ^ LENGTH('a) = 256 ^ n"
  by (simp add: power_mult)

lemma from_be_to_be:
  assumes "8 dvd LENGTH('a::len)"
  shows "from_be (to_be (w :: 'a word)) = w"
proof -
  from assms obtain n where n: "LENGTH('a) = 8 * n" by blast
  have lt: "unat w < 2 ^ LENGTH('a)" by (rule unsigned_less)
  with n have "unat w < 256 ^ n" by (simp add: power_mult)
  with n show ?thesis
    by (simp add: from_be_def to_be_def nat_be_be_nat)
qed

lemma to_be_from_be:
  assumes "LENGTH('a::len) = 8 * length bs"
  shows "to_be (from_be bs :: 'a word) = bs"
proof -
  have "nat_be bs < 2 ^ LENGTH('a)"
    using nat_be_bound [of bs] two_power_width [OF assms] by simp
  then have "unat (from_be bs :: 'a word) = nat_be bs"
    by (simp add: from_be_def unat_of_nat)
  with assms show ?thesis by (simp add: to_be_def be_nat_nat_be)
qed

lemma to_be_inject:
  assumes "8 dvd LENGTH('a::len)"
  shows "to_be (v :: 'a word) = to_be w \<longleftrightarrow> v = w"
  using from_be_to_be [OF assms] by metis

text \<open>
  Arrays are compared lexicographically in Rust and numerically in the model: for equal
  lengths the two orders agree.
\<close>

lemma nat_be_Cons: "nat_be (b # bs) = unat b * 256 ^ length bs + nat_be bs"
  by (induction bs rule: rev_induct)
     (auto simp: nat_be_def algebra_simps)

lemma nat_be_less_lexord:
  "length xs = length ys \<Longrightarrow>
   (xs, ys) \<in> lexord {(a, b :: u8). a < b} \<longleftrightarrow> nat_be xs < nat_be ys"
proof (induction xs ys rule: list_induct2)
  case Nil
  then show ?case by simp
next
  case (Cons x xs y ys)
  define p :: nat where "p = 256 ^ length xs"
  have b: "nat_be xs < p" "nat_be ys < p"
    using nat_be_bound [of xs] nat_be_bound [of ys] Cons.hyps by (simp_all add: p_def)
  have e: "nat_be (x # xs) = unat x * p + nat_be xs" "nat_be (y # ys) = unat y * p + nat_be ys"
    using Cons.hyps by (simp_all add: nat_be_Cons p_def)
  consider "unat x < unat y" | "unat x = unat y" | "unat y < unat x" by linarith
  then show ?case
  proof cases
    case 1
    then have "unat x * p + p \<le> unat y * p"
      using mult_right_mono [of "Suc (unat x)" "unat y" p] by simp
    with b e have "nat_be (x # xs) < nat_be (y # ys)" by linarith
    with 1 show ?thesis by (simp add: word_less_nat_alt)
  next
    case 2
    then have "x = y" by (simp add: word_unat_eq_iff)
    with Cons.IH e show ?thesis by simp
  next
    case 3
    then have "unat y * p + p \<le> unat x * p"
      using mult_right_mono [of "Suc (unat y)" "unat x" p] by simp
    with b e have "\<not> nat_be (x # xs) < nat_be (y # ys)" by linarith
    with 3 show ?thesis by (auto simp: word_less_nat_alt)
  qed
qed

lemma to_be_lexord:
  assumes "8 dvd LENGTH('a::len)"
  shows "(to_be v, to_be w) \<in> lexord {(a, b). a < b} \<longleftrightarrow> (v :: 'a word) < w"
proof -
  from assms obtain n where n: "LENGTH('a) = 8 * n" by blast
  have "unat u < 256 ^ (LENGTH('a) div 8)" for u :: "'a word"
  proof -
    have "unat u < 2 ^ LENGTH('a)" by (rule unsigned_less)
    with n show ?thesis by (simp add: power_mult)
  qed
  then show ?thesis
    by (simp add: nat_be_less_lexord word_less_nat_alt [of v] to_be_def nat_be_be_nat)
qed

section \<open>Readers\<close>

text \<open>
  A reader consumes a prefix of the remaining input. \<open>rd_take e n\<close> is \<open>get(..n).ok_or(e)\<close>
  followed by advancing; \<open>rd_word e\<close> is the same for an array or integer of fixed width.
\<close>

type_synonym ('e, 'a) reader = "bytes \<Rightarrow> 'e + ('a \<times> bytes)"

definition rd_take :: "'e \<Rightarrow> nat \<Rightarrow> ('e, bytes) reader" where
  "rd_take e n bs = (if n \<le> length bs then Inr (take n bs, drop n bs) else Inl e)"

definition rd_word :: "'e \<Rightarrow> ('e, 'a::len word) reader" where
  "rd_word e bs = bindR (rd_take e (LENGTH('a) div 8) bs) (\<lambda>(v, rest). Inr (from_be v, rest))"

text \<open>\<open>for _ in 0..count { out.push(read(reader)?); }\<close>\<close>

fun rd_many :: "('e, 'a) reader \<Rightarrow> nat \<Rightarrow> ('e, 'a list) reader" where
  "rd_many rd 0 bs = Inr ([], bs)"
| "rd_many rd (Suc n) bs =
     bindR (rd bs) (\<lambda>(x, bs1). bindR (rd_many rd n bs1) (\<lambda>(xs, bs2). Inr (x # xs, bs2)))"

lemma rd_take_append [simp, codec_simps]:
  "n = length xs \<Longrightarrow> rd_take e n (xs @ rest) = Inr (xs, rest)"
  by (simp add: rd_take_def)

lemma rd_take_eq_Inr:
  "rd_take e n bs = Inr (v, rest) \<longleftrightarrow> length v = n \<and> bs = v @ rest"
  by (auto simp: rd_take_def)

lemma rd_word_to_be [codec_simps]:
  assumes "8 dvd LENGTH('a::len)"
  shows "rd_word e (to_be (w :: 'a word) @ rest) = Inr (w, rest)"
  using assms by (simp add: rd_word_def from_be_to_be)

lemma rd_word_eq_Inr:
  assumes "8 dvd LENGTH('a::len)"
  shows "rd_word e bs = Inr (w :: 'a word, rest) \<longleftrightarrow> bs = to_be w @ rest"
proof
  assume "rd_word e bs = Inr (w, rest)"
  then obtain v where v: "rd_take e (LENGTH('a) div 8) bs = Inr (v, rest)" "w = from_be v"
    by (auto simp: rd_word_def)
  then have "length v = LENGTH('a) div 8" "bs = v @ rest"
    by (simp_all add: rd_take_eq_Inr)
  with assms v(2) show "bs = to_be w @ rest"
    using to_be_from_be [where 'a = 'a, of v] by auto
next
  assume "bs = to_be w @ rest"
  with assms show "rd_word e bs = Inr (w, rest)" by (simp add: rd_word_to_be)
qed

section \<open>The codec interface\<close>

locale prefix_codec =
  fixes put :: "'a \<Rightarrow> bytes"
    and get :: "bytes \<Rightarrow> 'e + ('a \<times> bytes)"
    and ok :: "'a \<Rightarrow> bool"
  assumes get_put: "ok x \<Longrightarrow> get (put x @ rest) = Inr (x, rest)"
    and put_get: "get bs = Inr (x, rest) \<Longrightarrow> ok x \<and> bs = put x @ rest"
begin

lemma get_iff: "get bs = Inr (x, rest) \<longleftrightarrow> ok x \<and> bs = put x @ rest"
  using get_put put_get by blast

lemma put_unambiguous:
  assumes "ok x" and "ok y" and "put x @ xs = put y @ ys"
  shows "x = y \<and> xs = ys"
  by (metis assms get_put prod.inject sum.inject(2))

lemma rd_many_put:
  "\<forall>x\<in>set xs. ok x \<Longrightarrow> n = length xs \<Longrightarrow>
   rd_many get n (concat (map put xs) @ rest) = Inr (xs, rest)"
proof (induction xs arbitrary: n)
  case Nil
  then show ?case by simp
next
  case (Cons x xs)
  from Cons.prems have "rd_many get (length xs) (concat (map put xs) @ rest) = Inr (xs, rest)"
    by (intro Cons.IH) simp_all
  with Cons.prems show ?case by (simp add: get_put)
qed

lemma rd_many_iff:
  "rd_many get n bs = Inr (xs, rest) \<longleftrightarrow>
   length xs = n \<and> (\<forall>x\<in>set xs. ok x) \<and> bs = concat (map put xs) @ rest"
proof (induction n arbitrary: bs xs)
  case 0
  then show ?case by auto
next
  case (Suc n)
  show ?case
  proof
    assume "rd_many get (Suc n) bs = Inr (xs, rest)"
    then show "length xs = Suc n \<and> (\<forall>x\<in>set xs. ok x) \<and> bs = concat (map put xs) @ rest"
      by (auto simp: get_iff Suc.IH)
  next
    assume "length xs = Suc n \<and> (\<forall>x\<in>set xs. ok x) \<and> bs = concat (map put xs) @ rest"
    then show "rd_many get (Suc n) bs = Inr (xs, rest)"
      using rd_many_put [of xs "Suc n" rest] by simp
  qed
qed

end

text \<open>
  A whole-frame codec: the decoder accepts exactly the canonical encodings of the values that
  satisfy \<open>ok\<close>, so encoding is injective on them and no two frames decode to one value.
\<close>

locale frame_codec =
  fixes enc :: "'a \<Rightarrow> bytes"
    and dec :: "bytes \<Rightarrow> 'e + 'a"
    and ok :: "'a \<Rightarrow> bool"
  assumes dec_enc: "ok x \<Longrightarrow> dec (enc x) = Inr x"
    and enc_dec: "dec bs = Inr x \<Longrightarrow> ok x \<and> enc x = bs"
begin

lemma dec_iff: "dec bs = Inr x \<longleftrightarrow> ok x \<and> enc x = bs"
  using dec_enc enc_dec by blast

lemma enc_inject: "ok x \<Longrightarrow> ok y \<Longrightarrow> enc x = enc y \<longleftrightarrow> x = y"
  by (metis dec_enc sum.inject(2))

lemma dec_inject: "dec bs = Inr x \<Longrightarrow> dec bs' = Inr x \<Longrightarrow> bs = bs'"
  using enc_dec by blast

end

text \<open>A prefix codec that must consume its whole input is a frame codec.\<close>

definition dec_all :: "'e \<Rightarrow> ('e, 'a) reader \<Rightarrow> bytes \<Rightarrow> 'e + 'a" where
  "dec_all e get bs = bindR (get bs) (\<lambda>(x, rest). if rest = [] then Inr x else Inl e)"

sublocale prefix_codec \<subseteq> whole: frame_codec put "dec_all e get" ok for e
proof
  show "dec_all e get (put x) = Inr x" if "ok x" for x
    using get_put [OF that, of "[]"] by (simp add: dec_all_def)
  show "ok x \<and> put x = bs" if "dec_all e get bs = Inr x" for bs x
    using that by (auto simp: dec_all_def get_iff split: if_splits)
qed

lemma width_dvd [simp]:
  "8 dvd LENGTH(8)" "8 dvd LENGTH(16)" "8 dvd LENGTH(32)" "8 dvd LENGTH(64)"
  "8 dvd LENGTH(128)" "8 dvd LENGTH(256)" "8 dvd LENGTH(512)"
  by simp_all

lemma prefix_codec_word:
  "8 dvd LENGTH('a::len) \<Longrightarrow> prefix_codec (to_be :: 'a word \<Rightarrow> bytes) (rd_word e) (\<lambda>_. True)"
  by unfold_locales (simp_all add: rd_word_to_be rd_word_eq_Inr)

interpretation u8_codec: prefix_codec "to_be :: u8 \<Rightarrow> bytes" "rd_word e" "\<lambda>_. True" for e :: 'e
  by (rule prefix_codec_word) simp

interpretation u16_codec: prefix_codec "to_be :: u16 \<Rightarrow> bytes" "rd_word e" "\<lambda>_. True" for e :: 'e
  by (rule prefix_codec_word) simp

interpretation u32_codec: prefix_codec "to_be :: u32 \<Rightarrow> bytes" "rd_word e" "\<lambda>_. True" for e :: 'e
  by (rule prefix_codec_word) simp

interpretation u64_codec: prefix_codec "to_be :: u64 \<Rightarrow> bytes" "rd_word e" "\<lambda>_. True" for e :: 'e
  by (rule prefix_codec_word) simp

interpretation u128_codec: prefix_codec "to_be :: u128 \<Rightarrow> bytes" "rd_word e" "\<lambda>_. True" for e :: 'e
  by (rule prefix_codec_word) simp

interpretation array32_codec: prefix_codec "to_be :: array32 \<Rightarrow> bytes" "rd_word e" "\<lambda>_. True" for e :: 'e
  by (rule prefix_codec_word) simp

interpretation array64_codec: prefix_codec "to_be :: array64 \<Rightarrow> bytes" "rd_word e" "\<lambda>_. True" for e :: 'e
  by (rule prefix_codec_word) simp

lemmas word_get_iff =
  u8_codec.get_iff u16_codec.get_iff u32_codec.get_iff u64_codec.get_iff
  u128_codec.get_iff array32_codec.get_iff array64_codec.get_iff

lemmas word_get_put [codec_simps] =
  u8_codec.get_put [OF TrueI] u16_codec.get_put [OF TrueI] u32_codec.get_put [OF TrueI]
  u64_codec.get_put [OF TrueI] u128_codec.get_put [OF TrueI] array32_codec.get_put [OF TrueI]
  array64_codec.get_put [OF TrueI]

text \<open>A length that fits its field survives the cast to the field's width.\<close>

lemma unat_of_length:
  "length xs < 2 ^ LENGTH('a::len) \<Longrightarrow> unat (word_of_nat (length xs) :: 'a word) = length xs"
  by (simp add: unat_of_nat)

text \<open>Fixed-width fields at the front of a slice.\<close>

lemma split_word:
  assumes "8 dvd LENGTH('a::len)" and "LENGTH('a) div 8 \<le> length xs"
  shows "to_be (from_be (take (LENGTH('a) div 8) xs) :: 'a word) @ drop (LENGTH('a) div 8) xs = xs"
  using assms by (subst to_be_from_be) auto

lemma raw_frame_parts: "length raw \<ge> 5 \<Longrightarrow> raw = take 4 raw @ [raw ! 4] @ drop 5 raw"
  using Cons_nth_drop_Suc [of 4 raw] append_take_drop_id [of 4 raw] by simp

end
