(* ===== verification/Crypto_Params.thy ===== *)
theory Crypto_Params
  imports Byte_Codec
begin

text \<open>
  The cryptography the repository calls (\<open>ed25519-dalek\<close>, \<open>sha2\<close>) is a parameter of the model:
  a record of functions every definition that hashes, checks a key, verifies or signs takes
  as its first argument. What a theorem relies on is one of the named predicates below.
  SHA-256 maps unbounded inputs to 32 bytes, so it is never assumed injective: the collision
  hypotheses name the finite set of transcripts that are compared.
\<close>

record crypto =
  sha256 :: "bytes \<Rightarrow> array32"
  key_point :: "array32 \<Rightarrow> bool" \<comment> \<open>\<open>VerifyingKey::from_bytes\<close> succeeds\<close>
  key_weak :: "array32 \<Rightarrow> bool" \<comment> \<open>\<open>VerifyingKey::is_weak\<close>\<close>
  verify_strict :: "array32 \<Rightarrow> bytes \<Rightarrow> array64 \<Rightarrow> bool"
  public_of :: "array32 \<Rightarrow> array32" \<comment> \<open>\<open>SigningKey::verifying_key\<close> of a secret\<close>
  sign_bytes :: "array32 \<Rightarrow> bytes \<Rightarrow> array64" \<comment> \<open>\<open>SigningKey::sign\<close>\<close>

text \<open>A signature made with a secret verifies strictly under its public key.\<close>

definition sign_correct :: "crypto \<Rightarrow> bool" where
  "sign_correct C = (\<forall>sk m. verify_strict C (public_of C sk) m (sign_bytes C sk m))"

lemma sign_correctD: "sign_correct C \<Longrightarrow> public_of C sk = k \<Longrightarrow> verify_strict C k m (sign_bytes C sk m)"
  by (auto simp: sign_correct_def)

text \<open>No two of the listed transcripts have the same digest.\<close>

definition collision_free :: "crypto \<Rightarrow> bytes set \<Rightarrow> bool" where
  "collision_free C S = inj_on (sha256 C) S"

lemma collision_freeD:
  "collision_free C S \<Longrightarrow> a \<in> S \<Longrightarrow> b \<in> S \<Longrightarrow> sha256 C a = sha256 C b \<Longrightarrow> a = b"
  by (auto simp: collision_free_def dest: inj_onD)

lemma collision_free_mono: "collision_free C S \<Longrightarrow> T \<subseteq> S \<Longrightarrow> collision_free C T"
  by (auto simp: collision_free_def intro: inj_on_subset)

text \<open>
  Concrete instances the witnesses evaluate: keys that are points unless zero, signatures
  that bind a key to the length of its message, and two digests, one that is cheap to
  evaluate and one that tells short distinct transcripts apart.
\<close>

definition toy_crypto :: crypto where
  "toy_crypto = \<lparr>
     sha256 = (\<lambda>m. word_of_nat (length m)),
     key_point = (\<lambda>k. k \<noteq> 0),
     key_weak = (\<lambda>k. k = 1),
     verify_strict = (\<lambda>k m s. s = ucast k + word_of_nat (length m)),
     public_of = (\<lambda>sk. sk),
     sign_bytes = (\<lambda>sk m. ucast sk + word_of_nat (length m))\<rparr>"

definition poly_crypto :: crypto where
  "poly_crypto = toy_crypto\<lparr>sha256 := (\<lambda>m. word_of_nat (foldl (\<lambda>a b. a * 257 + unat b + 1) 0 m))\<rparr>"

lemma toy_sign_correct: "sign_correct toy_crypto"
  by (simp add: sign_correct_def toy_crypto_def)

text \<open>Byte string literals \<open>b"..."\<close>.\<close>

definition ascii :: "string \<Rightarrow> bytes" where
  "ascii s = map of_char s"

end
