(* ===== verification/Direct_Records.thy ===== *)
theory Direct_Records
  imports Crypto_Params Rust_Text
begin

text \<open>
  \<open>crates/vhalla-direct-room\<close>: the signed records of a public room. The claims of the three
  record types (genesis, owner policy, author event) with their structural checks and
  canonical encodings (\<open>records.rs\<close>, \<open>codec.rs\<close>), and the type-state chain
  unsigned - signed - verified that the \<open>record!\<close> macro generates for each of them.

  The macro's parameters (claims codec, signer field, signing domain, size bound) are the
  fields of \<open>record_kind\<close>; \<open>genesis_kind\<close>, \<open>policy_kind\<close> and \<open>event_kind\<close> are its three
  instantiations. The locale \<open>signed_record\<close> states what the macro needs of its arguments;
  it is interpreted for all three, and the frame round trips come from it.
\<close>

section \<open>Errors and bounds\<close>

datatype dr_error =
    Bounds | Capacity | Encoding | Protocol | Key | Signer | Signature | Scope | Owner
  | Policy | PolicyPending | Author | Sequence | Duplicate | Gap | Fork | Replay
  | Exhausted | StaleBase | StalePolicy

definition MAX_WRITERS :: nat where [simp]: "MAX_WRITERS = 64"
definition MAX_TEXT_BYTES :: nat where [simp]: "MAX_TEXT_BYTES = 4096"

definition MAX_GENESIS_BYTES :: nat where [simp]:
  "MAX_GENESIS_BYTES = 5 + 32 + 32 + 2 + 32 * MAX_WRITERS + 64"

definition MAX_POLICY_BYTES :: nat where [simp]:
  "MAX_POLICY_BYTES =
     5 + 32 + 32 + 8 + 32 + 2 + 32 * MAX_WRITERS + 2 + 72 * MAX_WRITERS + 64"

definition MAX_EVENT_BYTES :: nat where [simp]:
  "MAX_EVENT_BYTES = 5 + 32 + 32 + 32 + 8 + 32 + 8 + 4 + MAX_TEXT_BYTES + 64"

definition GENESIS_MAGIC :: bytes where "GENESIS_MAGIC = ascii ''VHDG'' @ [1]"
definition POLICY_MAGIC :: bytes where "POLICY_MAGIC = ascii ''VHDP'' @ [1]"
definition EVENT_MAGIC :: bytes where "EVENT_MAGIC = ascii ''VHDE'' @ [1]"

definition GENESIS_DOMAIN :: bytes where
  "GENESIS_DOMAIN = ascii ''vhalla/direct-room/genesis/v1'' @ [0]"
definition POLICY_DOMAIN :: bytes where
  "POLICY_DOMAIN = ascii ''vhalla/direct-room/policy/v1'' @ [0]"
definition EVENT_DOMAIN :: bytes where
  "EVENT_DOMAIN = ascii ''vhalla/direct-room/event/v1'' @ [0]"

text \<open>\<open>RoomId\<close>, \<open>PolicyId\<close> and \<open>EventId\<close> are 32-byte commitments; \<open>ZERO\<close> is the zero word.\<close>

type_synonym room_id = array32
type_synonym policy_id = array32
type_synonym event_id = array32

definition initial_policy :: "crypto \<Rightarrow> room_id \<Rightarrow> policy_id" where
  "initial_policy C room = sha256 C (ascii ''vhalla/direct-room/policy-root/v1'' @ [0] @ to_be room)"

section \<open>Keys and the bounded reader (codec.rs)\<close>

definition checked_key :: "crypto \<Rightarrow> array32 \<Rightarrow> dr_error + array32" where
  "checked_key C key =
     (if \<not> key_point C key then Inl Key
      else if key_weak C key then Inl Key
      else Inr key)"

definition reader_new :: "bytes \<Rightarrow> bytes \<Rightarrow> dr_error + bytes" where
  "reader_new bs magic =
     bindR (rd_take Encoding (length magic) bs) (\<lambda>(m, rest).
       if m \<noteq> magic then Inl Protocol else Inr rest)"

definition reader_array :: "(dr_error, 'a::len word) reader" where
  "reader_array = rd_word Encoding"

definition reader_count :: "nat \<Rightarrow> (dr_error, nat) reader" where
  "reader_count mx bs =
     bindR (reader_array bs) (\<lambda>(n :: u16, rest).
       if unat n > mx then Inl Bounds else Inr (unat n, rest))"

definition reader_finish :: "bytes \<Rightarrow> dr_error + unit" where
  "reader_finish bs = (if bs = [] then Inr () else Inl Encoding)"

section \<open>Text\<close>

text \<open>Text is validated as in \<open>Rust_Text\<close>.\<close>

definition from_utf8 :: "bytes \<Rightarrow> dr_error + bytes" where
  "from_utf8 bs = (case utf8_chars bs of None \<Rightarrow> Inl Encoding | Some _ \<Rightarrow> Inr bs)"

datatype room_text = Text (as_str: bytes)

definition text_new :: "bytes \<Rightarrow> dr_error + room_text" where
  "text_new s =
     (if s = [] \<or> length s > MAX_TEXT_BYTES then Inl Bounds
      else if \<exists>c\<in>set (str_chars s). is_control c \<and> c \<noteq> 10 \<and> c \<noteq> 9 then Inl Encoding
      else Inr (Text s))"

text \<open>What every value of the source's \<open>Text\<close> type satisfies: valid UTF-8 that \<open>new\<close> accepted.\<close>

definition text_ok :: "room_text \<Rightarrow> bool" where
  "text_ok t = (utf8_chars (as_str t) \<noteq> None \<and> text_new (as_str t) = Inr t)"

section \<open>Claims\<close>

record genesis_claims =
  gc_owner :: array32
  gc_nonce :: array32
  gc_writers :: "array32 list"

record seal_head =
  sh_author :: array32
  sh_sequence :: u64
  sh_event :: event_id

record policy_claims =
  pc_room :: room_id
  pc_owner :: array32
  pc_revision :: u64
  pc_previous :: policy_id
  pc_writers :: "array32 list"
  pc_sealed_heads :: "seal_head list"

record event_claims =
  ec_room :: room_id
  ec_policy :: policy_id
  ec_author :: array32
  ec_sequence :: u64
  ec_previous :: event_id
  ec_created_at :: u64
  ec_text :: room_text

definition writers_check :: "crypto \<Rightarrow> array32 list \<Rightarrow> array32 \<Rightarrow> dr_error + unit" where
  "writers_check C writers owner =
     bindR (checked_key C owner) (\<lambda>_.
       if writers = [] \<or> length writers > MAX_WRITERS then Inl Bounds
       else bindR (allR (\<lambda>key. bindR (checked_key C key) (\<lambda>_. Inr ())) writers) (\<lambda>_.
         if \<not> ascending writers then Inl Encoding
         else if binary_search writers owner = None then Inl Owner
         else Inr ()))"

definition write_writers :: "array32 list \<Rightarrow> bytes" where
  "write_writers writers = to_be (word_of_nat (length writers) :: u16) @ concat (map to_be writers)"

definition read_writers :: "(dr_error, array32 list) reader" where
  "read_writers bs =
     bindR (reader_count MAX_WRITERS bs) (\<lambda>(count, rest). rd_many reader_array count rest)"

subsection \<open>Genesis\<close>

definition genesis_check :: "crypto \<Rightarrow> genesis_claims \<Rightarrow> dr_error + unit" where
  "genesis_check C g =
     (if gc_nonce g = 0 then Inl Encoding else writers_check C (gc_writers g) (gc_owner g))"

definition genesis_encode :: "genesis_claims \<Rightarrow> bytes" where
  "genesis_encode g =
     GENESIS_MAGIC @ to_be (gc_owner g) @ to_be (gc_nonce g) @ write_writers (gc_writers g)"

definition genesis_decode :: "bytes \<Rightarrow> dr_error + genesis_claims" where
  "genesis_decode bs =
     bindR (reader_new bs GENESIS_MAGIC) (\<lambda>bs.
     bindR (reader_array bs) (\<lambda>(owner, bs).
     bindR (reader_array bs) (\<lambda>(nonce, bs).
     bindR (read_writers bs) (\<lambda>(writers, bs).
     bindR (reader_finish bs) (\<lambda>_.
       Inr \<lparr>gc_owner = owner, gc_nonce = nonce, gc_writers = writers\<rparr>)))))"

subsection \<open>Owner policy\<close>

definition seal_check :: "crypto \<Rightarrow> seal_head \<Rightarrow> dr_error + unit" where
  "seal_check C head =
     bindR (checked_key C (sh_author head)) (\<lambda>_.
       if sh_sequence head = 0 \<or> sh_event head = 0 then Inl Sequence else Inr ())"

definition policy_check :: "crypto \<Rightarrow> policy_claims \<Rightarrow> dr_error + unit" where
  "policy_check C p =
     (if pc_room p = 0 \<or> pc_previous p = 0 then Inl Scope
      else if pc_revision p = 0 then Inl Sequence
      else bindR (writers_check C (pc_writers p) (pc_owner p)) (\<lambda>_.
        if length (pc_sealed_heads p) > MAX_WRITERS then Inl Bounds
        else bindR (allR (seal_check C) (pc_sealed_heads p)) (\<lambda>_.
          if \<not> ascending (map sh_author (pc_sealed_heads p)) then Inl Encoding
          else Inr ())))"

definition seal_encode :: "seal_head \<Rightarrow> bytes" where
  "seal_encode head = to_be (sh_author head) @ to_be (sh_sequence head) @ to_be (sh_event head)"

definition policy_encode :: "policy_claims \<Rightarrow> bytes" where
  "policy_encode p =
     POLICY_MAGIC @ to_be (pc_room p) @ to_be (pc_owner p) @ to_be (pc_revision p)
     @ to_be (pc_previous p) @ write_writers (pc_writers p)
     @ to_be (word_of_nat (length (pc_sealed_heads p)) :: u16)
     @ concat (map seal_encode (pc_sealed_heads p))"

definition seal_decode :: "(dr_error, seal_head) reader" where
  "seal_decode bs =
     bindR (reader_array bs) (\<lambda>(author, bs).
     bindR (reader_array bs) (\<lambda>(sequence, bs).
     bindR (reader_array bs) (\<lambda>(event, bs).
       Inr (\<lparr>sh_author = author, sh_sequence = sequence, sh_event = event\<rparr>, bs))))"

definition policy_decode :: "bytes \<Rightarrow> dr_error + policy_claims" where
  "policy_decode bs =
     bindR (reader_new bs POLICY_MAGIC) (\<lambda>bs.
     bindR (reader_array bs) (\<lambda>(room, bs).
     bindR (reader_array bs) (\<lambda>(owner, bs).
     bindR (reader_array bs) (\<lambda>(revision, bs).
     bindR (reader_array bs) (\<lambda>(previous, bs).
     bindR (read_writers bs) (\<lambda>(writers, bs).
     bindR (reader_count MAX_WRITERS bs) (\<lambda>(count, bs).
     bindR (rd_many seal_decode count bs) (\<lambda>(sealed_heads, bs).
     bindR (reader_finish bs) (\<lambda>_.
       Inr \<lparr>pc_room = room, pc_owner = owner, pc_revision = revision, pc_previous = previous,
            pc_writers = writers, pc_sealed_heads = sealed_heads\<rparr>)))))))))"

subsection \<open>Author events\<close>

definition event_check :: "crypto \<Rightarrow> event_claims \<Rightarrow> dr_error + unit" where
  "event_check C e =
     (if ec_room e = 0 \<or> ec_policy e = 0 then Inl Scope
      else bindR (checked_key C (ec_author e)) (\<lambda>_.
        if ec_sequence e = 0 \<or> (ec_sequence e = 1) \<noteq> (ec_previous e = 0) then Inl Sequence
        else Inr ()))"

definition event_encode :: "event_claims \<Rightarrow> bytes" where
  "event_encode e =
     EVENT_MAGIC @ to_be (ec_room e) @ to_be (ec_policy e) @ to_be (ec_author e)
     @ to_be (ec_sequence e) @ to_be (ec_previous e) @ to_be (ec_created_at e)
     @ to_be (word_of_nat (length (as_str (ec_text e))) :: u32) @ as_str (ec_text e)"

definition event_decode :: "bytes \<Rightarrow> dr_error + event_claims" where
  "event_decode bs =
     bindR (reader_new bs EVENT_MAGIC) (\<lambda>bs.
     bindR (reader_array bs) (\<lambda>(room, bs).
     bindR (reader_array bs) (\<lambda>(policy, bs).
     bindR (reader_array bs) (\<lambda>(author, bs).
     bindR (reader_array bs) (\<lambda>(sequence, bs).
     bindR (reader_array bs) (\<lambda>(previous, bs).
     bindR (reader_array bs) (\<lambda>(created_at, bs).
     bindR (reader_array bs) (\<lambda>(len :: u32, bs).
       if unat len > MAX_TEXT_BYTES then Inl Bounds
       else
     bindR (rd_take Encoding (unat len) bs) (\<lambda>(raw, bs).
     bindR (from_utf8 raw) (\<lambda>s.
     bindR (text_new s) (\<lambda>text.
     bindR (reader_finish bs) (\<lambda>_.
       Inr \<lparr>ec_room = room, ec_policy = policy, ec_author = author, ec_sequence = sequence,
            ec_previous = previous, ec_created_at = created_at, ec_text = text\<rparr>))))))))))))"

section \<open>The record macro\<close>

record 'c record_kind =
  rk_check :: "crypto \<Rightarrow> 'c \<Rightarrow> dr_error + unit"
  rk_encode :: "'c \<Rightarrow> bytes"
  rk_decode :: "bytes \<Rightarrow> dr_error + 'c"
  rk_signer :: "'c \<Rightarrow> array32"
  rk_domain :: bytes
  rk_max :: nat

record 'c unsigned =
  un_claims :: 'c
  un_id :: array32

record 'c signed =
  sg_unsigned :: "'c unsigned"
  sg_signature :: array64

datatype 'c verified = Verified (ver_signed: "'c signed")

definition unsigned_new :: "crypto \<Rightarrow> 'c record_kind \<Rightarrow> 'c \<Rightarrow> dr_error + 'c unsigned" where
  "unsigned_new C K claims =
     bindR (rk_check K C claims) (\<lambda>_.
       Inr \<lparr>un_claims = claims, un_id = sha256 C (rk_domain K @ rk_encode K claims)\<rparr>)"

definition unsigned_decode :: "crypto \<Rightarrow> 'c record_kind \<Rightarrow> bytes \<Rightarrow> dr_error + 'c unsigned" where
  "unsigned_decode C K bs =
     (if length bs > rk_max K - 64 then Inl Bounds
      else bindR (rk_decode K bs) (unsigned_new C K))"

definition unsigned_encode :: "'c record_kind \<Rightarrow> 'c unsigned \<Rightarrow> bytes" where
  "unsigned_encode K u = rk_encode K (un_claims u)"

definition signing_bytes :: "'c record_kind \<Rightarrow> 'c unsigned \<Rightarrow> bytes" where
  "signing_bytes K u = rk_domain K @ unsigned_encode K u"

definition attach_signature ::
    "crypto \<Rightarrow> 'c record_kind \<Rightarrow> 'c unsigned \<Rightarrow> array64 \<Rightarrow> dr_error + 'c signed" where
  "attach_signature C K u signature =
     bindR (checked_key C (rk_signer K (un_claims u))) (\<lambda>key.
       if \<not> verify_strict C key (signing_bytes K u) signature then Inl Signature
       else Inr \<lparr>sg_unsigned = u, sg_signature = signature\<rparr>)"

definition sign_with_key ::
    "crypto \<Rightarrow> 'c record_kind \<Rightarrow> 'c unsigned \<Rightarrow> array32 \<Rightarrow> dr_error + 'c signed" where
  "sign_with_key C K u key =
     (if public_of C key \<noteq> rk_signer K (un_claims u) then Inl Signer
      else attach_signature C K u (sign_bytes C key (signing_bytes K u)))"

definition signed_decode :: "crypto \<Rightarrow> 'c record_kind \<Rightarrow> bytes \<Rightarrow> dr_error + 'c signed" where
  "signed_decode C K bs =
     (if length bs > rk_max K then Inl Bounds
      else if length bs < 64 then Inl Encoding
      else let split = length bs - 64 in
        bindR (unsigned_decode C K (take split bs)) (\<lambda>u.
          Inr \<lparr>sg_unsigned = u, sg_signature = from_be (drop split bs)\<rparr>))"

definition signed_encode :: "'c record_kind \<Rightarrow> 'c signed \<Rightarrow> bytes" where
  "signed_encode K s = unsigned_encode K (sg_unsigned s) @ to_be (sg_signature s)"

definition signed_verify :: "crypto \<Rightarrow> 'c record_kind \<Rightarrow> 'c signed \<Rightarrow> dr_error + 'c verified" where
  "signed_verify C K s =
     bindR (checked_key C (rk_signer K (un_claims (sg_unsigned s)))) (\<lambda>key.
       if \<not> verify_strict C key (signing_bytes K (sg_unsigned s)) (sg_signature s)
       then Inl Signature
       else Inr (Verified s))"

definition ver_claims :: "'c verified \<Rightarrow> 'c" where
  "ver_claims v = un_claims (sg_unsigned (ver_signed v))"

definition ver_id :: "'c verified \<Rightarrow> array32" where
  "ver_id v = un_id (sg_unsigned (ver_signed v))"

definition ver_encode :: "'c record_kind \<Rightarrow> 'c verified \<Rightarrow> bytes" where
  "ver_encode K v = signed_encode K (ver_signed v)"

definition genesis_kind :: "genesis_claims record_kind" where
  "genesis_kind = \<lparr>rk_check = genesis_check, rk_encode = genesis_encode,
     rk_decode = genesis_decode, rk_signer = gc_owner, rk_domain = GENESIS_DOMAIN,
     rk_max = MAX_GENESIS_BYTES\<rparr>"

definition policy_kind :: "policy_claims record_kind" where
  "policy_kind = \<lparr>rk_check = policy_check, rk_encode = policy_encode,
     rk_decode = policy_decode, rk_signer = pc_owner, rk_domain = POLICY_DOMAIN,
     rk_max = MAX_POLICY_BYTES\<rparr>"

definition event_kind :: "event_claims record_kind" where
  "event_kind = \<lparr>rk_check = event_check, rk_encode = event_encode,
     rk_decode = event_decode, rk_signer = ec_author, rk_domain = EVENT_DOMAIN,
     rk_max = MAX_EVENT_BYTES\<rparr>"

type_synonym signed_genesis = "genesis_claims signed"
type_synonym signed_policy = "policy_claims signed"
type_synonym signed_event = "event_claims signed"
type_synonym verified_genesis = "genesis_claims verified"
type_synonym verified_policy = "policy_claims verified"
type_synonym verified_event = "event_claims verified"

section \<open>The pinned genesis\<close>

datatype pinned_genesis = PinnedGenesis (pinned: verified_genesis)

definition verify_pin :: "crypto \<Rightarrow> signed_genesis \<Rightarrow> room_id \<Rightarrow> dr_error + pinned_genesis" where
  "verify_pin C s expected =
     bindR (signed_verify C genesis_kind s) (\<lambda>v.
       if ver_id v \<noteq> expected then Inl Scope else Inr (PinnedGenesis v))"

definition pin_id :: "pinned_genesis \<Rightarrow> room_id" where
  "pin_id g = ver_id (pinned g)"

definition pin_claims :: "pinned_genesis \<Rightarrow> genesis_claims" where
  "pin_claims g = ver_claims (pinned g)"

definition pin_encode :: "pinned_genesis \<Rightarrow> bytes" where
  "pin_encode g = ver_encode genesis_kind (pinned g)"

section \<open>Field codecs\<close>

lemma reader_array_iff [simp, codec_simps]:
  "8 dvd LENGTH('a::len) \<Longrightarrow> reader_array bs = Inr (w :: 'a word, rest) \<longleftrightarrow> bs = to_be w @ rest"
  by (simp add: reader_array_def rd_word_eq_Inr)

lemma reader_array_put [simp, codec_simps]:
  "8 dvd LENGTH('a::len) \<Longrightarrow> reader_array (to_be (w :: 'a word) @ rest) = Inr (w, rest)"
  by simp

lemma prefix_codec_reader_array:
  "8 dvd LENGTH('a::len) \<Longrightarrow>
   prefix_codec (to_be :: 'a word \<Rightarrow> bytes) reader_array (\<lambda>_. True)"
  by unfold_locales simp_all

interpretation key_codec: prefix_codec "to_be :: array32 \<Rightarrow> bytes" reader_array "\<lambda>_. True"
  by (rule prefix_codec_reader_array) simp

text \<open>The two-byte element count that precedes both tables.\<close>

definition write_count :: "nat \<Rightarrow> bytes" where
  "write_count n = to_be (word_of_nat n :: u16)"

lemma reader_count_iff:
  assumes "mx < 65536"
  shows "reader_count mx bs = Inr (n, rest) \<longleftrightarrow> n \<le> mx \<and> bs = write_count n @ rest"
proof
  assume "reader_count mx bs = Inr (n, rest)"
  then show "n \<le> mx \<and> bs = write_count n @ rest"
    by (auto simp: reader_count_def write_count_def split: if_splits)
next
  assume "n \<le> mx \<and> bs = write_count n @ rest"
  moreover from this assms have "unat (word_of_nat n :: u16) = n"
    by (simp add: unat_of_nat)
  ultimately show "reader_count mx bs = Inr (n, rest)"
    by (simp add: reader_count_def write_count_def)
qed

interpretation count_codec: prefix_codec write_count "reader_count MAX_WRITERS" "\<lambda>n. n \<le> MAX_WRITERS"
  by unfold_locales (simp_all add: reader_count_iff)

interpretation writers_codec:
  prefix_codec write_writers read_writers "\<lambda>ws. length ws \<le> MAX_WRITERS"
proof
  fix ws :: "array32 list" and rest
  assume ws: "length ws \<le> MAX_WRITERS"
  have "write_writers ws @ rest = write_count (length ws) @ concat (map to_be ws) @ rest"
    by (simp add: write_writers_def write_count_def)
  with ws show "read_writers (write_writers ws @ rest) = Inr (ws, rest)"
    by (simp add: read_writers_def count_codec.get_put [OF ws] key_codec.rd_many_put
             del: MAX_WRITERS_def)
next
  fix bs ws rest
  assume "read_writers bs = Inr (ws, rest)"
  then show "length ws \<le> MAX_WRITERS \<and> bs = write_writers ws @ rest"
    by (auto simp: read_writers_def reader_count_iff key_codec.rd_many_iff write_writers_def
          write_count_def)
qed

interpretation seal_codec: prefix_codec seal_encode seal_decode "\<lambda>_. True"
proof
  show "seal_decode (seal_encode h @ rest) = Inr (h, rest)" for h rest
    by (simp add: seal_decode_def seal_encode_def)
  show "True \<and> bs = seal_encode h @ rest" if "seal_decode bs = Inr (h, rest)" for bs h rest
    using that by (auto simp: seal_decode_def seal_encode_def)
qed

lemma reader_new_iff: "reader_new bs magic = Inr rest \<longleftrightarrow> bs = magic @ rest"
  by (auto simp: reader_new_def rd_take_eq_Inr)

lemma reader_new_append [simp, codec_simps]: "reader_new (magic @ rest) magic = Inr rest"
  by (simp add: reader_new_iff)

lemma reader_finish_iff [simp]: "reader_finish bs = Inr u \<longleftrightarrow> bs = []"
  by (simp add: reader_finish_def)

lemma from_utf8_iff: "from_utf8 bs = Inr s \<longleftrightarrow> s = bs \<and> utf8_chars bs \<noteq> None"
  by (auto simp: from_utf8_def split: option.splits)

lemma text_new_as_str: "text_new s = Inr t \<Longrightarrow> as_str t = s \<and> s \<noteq> [] \<and> length s \<le> MAX_TEXT_BYTES"
  by (auto simp: text_new_def split: if_splits)

lemma text_new_iff:
  "text_new s = Inr t \<longleftrightarrow> s = as_str t \<and> s \<noteq> [] \<and> length s \<le> MAX_TEXT_BYTES \<and>
     (\<forall>c\<in>set (str_chars s). is_control c \<longrightarrow> c = 10 \<or> c = 9)"
  by (cases t) (auto simp: text_new_def)

lemma text_ok_bounds:
  "text_ok t \<Longrightarrow> as_str t \<noteq> [] \<and> length (as_str t) \<le> MAX_TEXT_BYTES"
  using text_new_as_str by (auto simp: text_ok_def)

section \<open>Claims codecs\<close>

definition genesis_fits :: "genesis_claims \<Rightarrow> bool" where
  "genesis_fits g = (length (gc_writers g) \<le> MAX_WRITERS)"

definition policy_fits :: "policy_claims \<Rightarrow> bool" where
  "policy_fits p =
     (length (pc_writers p) \<le> MAX_WRITERS \<and> length (pc_sealed_heads p) \<le> MAX_WRITERS)"

definition event_fits :: "event_claims \<Rightarrow> bool" where
  "event_fits e = text_ok (ec_text e)"

interpretation genesis_codec: frame_codec genesis_encode genesis_decode genesis_fits
proof
  show "genesis_decode (genesis_encode g) = Inr g" if "genesis_fits g" for g
    using that writers_codec.get_put [of "gc_writers g" "[]"]
    by (simp add: genesis_decode_def genesis_encode_def genesis_fits_def reader_new_iff)
  show "genesis_fits g \<and> genesis_encode g = bs" if "genesis_decode bs = Inr g" for bs g
    using that
    by (auto simp: genesis_decode_def genesis_encode_def genesis_fits_def reader_new_iff
          writers_codec.get_iff)
qed

interpretation policy_codec: frame_codec policy_encode policy_decode policy_fits
proof
  fix p
  assume p: "policy_fits p"
  let ?sealed = "concat (map seal_encode (pc_sealed_heads p))"
  have "policy_encode p = POLICY_MAGIC @ to_be (pc_room p) @ to_be (pc_owner p)
      @ to_be (pc_revision p) @ to_be (pc_previous p) @ write_writers (pc_writers p)
      @ write_count (length (pc_sealed_heads p)) @ ?sealed"
    by (simp add: policy_encode_def write_count_def)
  moreover have "read_writers (write_writers (pc_writers p) @ rest) = Inr (pc_writers p, rest)" for rest
    using p by (intro writers_codec.get_put) (simp add: policy_fits_def)
  moreover have "reader_count MAX_WRITERS (write_count (length (pc_sealed_heads p)) @ rest) =
      Inr (length (pc_sealed_heads p), rest)" for rest
    using p by (intro count_codec.get_put) (simp add: policy_fits_def)
  moreover have "rd_many seal_decode (length (pc_sealed_heads p)) ?sealed = Inr (pc_sealed_heads p, [])"
    using seal_codec.rd_many_put [of "pc_sealed_heads p" "length (pc_sealed_heads p)" "[]"] by simp
  ultimately show "policy_decode (policy_encode p) = Inr p"
    by (simp add: policy_decode_def del: MAX_WRITERS_def)
next
  show "policy_fits p \<and> policy_encode p = bs" if "policy_decode bs = Inr p" for bs p
    using that
    by (auto simp: policy_decode_def policy_encode_def policy_fits_def reader_new_iff
          writers_codec.get_iff reader_count_iff seal_codec.rd_many_iff write_count_def)
qed

interpretation event_codec: frame_codec event_encode event_decode event_fits
proof
  fix e
  assume "event_fits e"
  then have t: "text_ok (ec_text e)" by (simp add: event_fits_def)
  then have len: "length (as_str (ec_text e)) \<le> MAX_TEXT_BYTES" by (rule text_ok_bounds [THEN conjunct2])
  then have "unat (word_of_nat (length (as_str (ec_text e))) :: u32) = length (as_str (ec_text e))"
    by (intro unat_of_length) simp
  moreover from t have "from_utf8 (as_str (ec_text e)) = Inr (as_str (ec_text e))"
    "text_new (as_str (ec_text e)) = Inr (ec_text e)"
    by (simp_all add: text_ok_def from_utf8_iff)
  ultimately show "event_decode (event_encode e) = Inr e"
    using len by (simp add: event_decode_def event_encode_def rd_take_def reader_finish_def)
next
  show "event_fits e \<and> event_encode e = bs" if "event_decode bs = Inr e" for bs e
    using that
    by (auto simp: event_decode_def event_encode_def event_fits_def reader_new_iff text_ok_def
          from_utf8_iff rd_take_eq_Inr text_new_iff)
qed

section \<open>What the structural checks establish\<close>

lemma checked_key_iff [simp]:
  "checked_key C k = Inr k' \<longleftrightarrow> k' = k \<and> key_point C k \<and> \<not> key_weak C k"
  by (auto simp: checked_key_def)

lemma writers_check_iff:
  "writers_check C ws owner = Inr u \<longleftrightarrow>
   owner \<in> set ws \<and> length ws \<le> MAX_WRITERS \<and> ascending ws \<and>
   (\<forall>k\<in>set ws. key_point C k \<and> \<not> key_weak C k)"
  by (auto simp: writers_check_def binary_search_mem [symmetric] simp del: not_None_eq)

lemma policy_check_iff:
  "policy_check C p = Inr u \<longleftrightarrow>
   pc_room p \<noteq> 0 \<and> pc_previous p \<noteq> 0 \<and> pc_revision p \<noteq> 0 \<and>
   writers_check C (pc_writers p) (pc_owner p) = Inr () \<and>
   length (pc_sealed_heads p) \<le> MAX_WRITERS \<and>
   (\<forall>h\<in>set (pc_sealed_heads p). key_point C (sh_author h) \<and> \<not> key_weak C (sh_author h)
      \<and> sh_sequence h \<noteq> 0 \<and> sh_event h \<noteq> 0) \<and>
   ascending (map sh_author (pc_sealed_heads p))"
  by (auto simp: policy_check_def seal_check_def)

lemma event_check_iff:
  "event_check C e = Inr u \<longleftrightarrow>
   ec_room e \<noteq> 0 \<and> ec_policy e \<noteq> 0 \<and> key_point C (ec_author e) \<and> \<not> key_weak C (ec_author e)
   \<and> ec_sequence e \<noteq> 0 \<and> (ec_sequence e = 1 \<longleftrightarrow> ec_previous e = 0)"
  by (auto simp: event_check_def)

section \<open>Invariants of the record types\<close>

text \<open>
  The source's constructors are private: an unsigned record holds checked claims and their
  commitment, a signed one wraps it, a verified one also carries a valid signature.
\<close>

definition wf_unsigned :: "crypto \<Rightarrow> 'c record_kind \<Rightarrow> ('c \<Rightarrow> bool) \<Rightarrow> 'c unsigned \<Rightarrow> bool" where
  "wf_unsigned C K typed u \<longleftrightarrow>
     typed (un_claims u) \<and> rk_check K C (un_claims u) = Inr ()
     \<and> un_id u = sha256 C (rk_domain K @ rk_encode K (un_claims u))"

definition wf_signed :: "crypto \<Rightarrow> 'c record_kind \<Rightarrow> ('c \<Rightarrow> bool) \<Rightarrow> 'c signed \<Rightarrow> bool" where
  "wf_signed C K typed s \<longleftrightarrow> wf_unsigned C K typed (sg_unsigned s)"

definition wf_verified :: "crypto \<Rightarrow> 'c record_kind \<Rightarrow> ('c \<Rightarrow> bool) \<Rightarrow> 'c verified \<Rightarrow> bool" where
  "wf_verified C K typed v \<longleftrightarrow>
     wf_signed C K typed (ver_signed v)
     \<and> verify_strict C (rk_signer K (ver_claims v))
         (signing_bytes K (sg_unsigned (ver_signed v))) (sg_signature (ver_signed v))"

section \<open>The contract of the record macro\<close>

text \<open>
  \<open>typed\<close> is the invariant of the claims' Rust type, \<open>fits\<close> what the claims codec needs.
  The record macro relies on: the codec is canonical, checked claims fit and name a usable
  signer key, and an encoding that fits stays within the frame bound.
\<close>

locale signed_record =
  fixes C :: crypto
    and K :: "'c record_kind"
    and typed :: "'c \<Rightarrow> bool"
    and fits :: "'c \<Rightarrow> bool"
  assumes claims_decode_encode: "fits c \<Longrightarrow> rk_decode K (rk_encode K c) = Inr c"
    and claims_encode_decode: "rk_decode K bs = Inr c \<Longrightarrow> fits c \<and> typed c \<and> rk_encode K c = bs"
    and checked_fits: "typed c \<Longrightarrow> rk_check K C c = Inr () \<Longrightarrow> fits c"
    and frame_bound: "fits c \<Longrightarrow> length (rk_encode K c) + 64 \<le> rk_max K"
    and checked_signer: "typed c \<Longrightarrow> rk_check K C c = Inr () \<Longrightarrow>
      checked_key C (rk_signer K c) = Inr (rk_signer K c)"
begin

abbreviation unsigned_ok :: "'c unsigned \<Rightarrow> bool" where
  "unsigned_ok \<equiv> wf_unsigned C K typed"

abbreviation signed_ok :: "'c signed \<Rightarrow> bool" where
  "signed_ok \<equiv> wf_signed C K typed"

abbreviation verified_ok :: "'c verified \<Rightarrow> bool" where
  "verified_ok \<equiv> wf_verified C K typed"

lemma unsigned_new_ok: "typed c \<Longrightarrow> unsigned_new C K c = Inr u \<Longrightarrow> unsigned_ok u \<and> un_claims u = c"
  by (auto simp: unsigned_new_def wf_unsigned_def)

lemma unsigned_new_claims: "unsigned_ok u \<Longrightarrow> unsigned_new C K (un_claims u) = Inr u"
  by (simp add: unsigned_new_def wf_unsigned_def)

sublocale unsigned: frame_codec "unsigned_encode K" "unsigned_decode C K" unsigned_ok
proof
  fix u assume u: "unsigned_ok u"
  then have f: "fits (un_claims u)" using checked_fits by (auto simp: wf_unsigned_def)
  then show "unsigned_decode C K (unsigned_encode K u) = Inr u"
    using frame_bound [OF f] claims_decode_encode [OF f] unsigned_new_claims [OF u]
    by (simp add: unsigned_decode_def unsigned_encode_def)
next
  fix bs u assume "unsigned_decode C K bs = Inr u"
  then show "unsigned_ok u \<and> unsigned_encode K u = bs"
    using claims_encode_decode unsigned_new_ok
    by (fastforce simp: unsigned_decode_def unsigned_encode_def)
qed

lemma unsigned_bound: "unsigned_ok u \<Longrightarrow> length (unsigned_encode K u) + 64 \<le> rk_max K"
  using checked_fits frame_bound by (auto simp: wf_unsigned_def unsigned_encode_def)

sublocale signed: frame_codec "signed_encode K" "signed_decode C K" signed_ok
proof
  fix s assume s: "signed_ok s"
  then have u: "unsigned_ok (sg_unsigned s)" by (simp add: wf_signed_def)
  show "signed_decode C K (signed_encode K s) = Inr s"
    using unsigned_bound [OF u] unsigned.dec_enc [OF u]
    by (simp add: signed_decode_def signed_encode_def from_be_to_be)
next
  fix bs s assume *: "signed_decode C K bs = Inr s"
  let ?n = "length bs - 64"
  from * have len: "64 \<le> length bs"
    and u: "unsigned_decode C K (take ?n bs) = Inr (sg_unsigned s)"
    and sig: "sg_signature s = from_be (drop ?n bs)"
    by (auto simp: signed_decode_def Let_def split: if_splits)
  have "to_be (sg_signature s) = drop ?n bs"
    using len sig to_be_from_be [where 'a = 512, of "drop ?n bs"] by simp
  with unsigned.enc_dec [OF u] show "signed_ok s \<and> signed_encode K s = bs"
    by (simp add: wf_signed_def signed_encode_def)
qed

lemma signed_bound: "signed_ok s \<Longrightarrow> length (signed_encode K s) \<le> rk_max K"
  using unsigned_bound by (simp add: wf_signed_def signed_encode_def)

lemma verify_ok: "signed_ok s \<Longrightarrow> signed_verify C K s = Inr v \<Longrightarrow> verified_ok v \<and> ver_signed v = s"
  by (auto simp: signed_verify_def wf_verified_def ver_claims_def)

lemma verify_iff: "signed_ok s \<Longrightarrow> signed_verify C K s = Inr v \<longleftrightarrow> verified_ok v \<and> ver_signed v = s"
  using checked_signer [of "un_claims (sg_unsigned s)"]
  by (cases v) (auto simp: signed_verify_def wf_verified_def ver_claims_def wf_signed_def wf_unsigned_def)

text \<open>Opening a frame: exactly the frames of verified records, and the record it was made from.\<close>

lemma open_iff:
  "bindR (signed_decode C K bs) (signed_verify C K) = Inr v \<longleftrightarrow> verified_ok v \<and> ver_encode K v = bs"
proof
  assume "bindR (signed_decode C K bs) (signed_verify C K) = Inr v"
  then obtain s where "signed_decode C K bs = Inr s" "signed_verify C K s = Inr v" by auto
  with signed.enc_dec verify_iff show "verified_ok v \<and> ver_encode K v = bs"
    by (auto simp: ver_encode_def)
next
  assume v: "verified_ok v \<and> ver_encode K v = bs"
  then have s: "signed_ok (ver_signed v)" by (simp add: wf_verified_def)
  with v show "bindR (signed_decode C K bs) (signed_verify C K) = Inr v"
    using signed.dec_enc [OF s] verify_iff [OF s] by (auto simp: ver_encode_def)
qed

lemma encode_inject: "verified_ok v \<Longrightarrow> verified_ok w \<Longrightarrow> ver_encode K v = ver_encode K w \<Longrightarrow> v = w"
  using open_iff by (metis sum.inject(2))

lemma verified_bound: "verified_ok v \<Longrightarrow> length (ver_encode K v) \<le> rk_max K"
  using signed_bound by (simp add: wf_verified_def ver_encode_def)

lemma attach_ok:
  "unsigned_ok u \<Longrightarrow> attach_signature C K u sig = Inr s \<Longrightarrow>
   signed_ok s \<and> signed_verify C K s = Inr (Verified s)"
  by (auto simp: attach_signature_def wf_signed_def signed_verify_def)

lemma verified_id: "verified_ok v \<Longrightarrow> ver_id v = sha256 C (rk_domain K @ rk_encode K (ver_claims v))"
  by (simp add: wf_verified_def wf_signed_def wf_unsigned_def ver_id_def ver_claims_def)

lemma verified_check: "verified_ok v \<Longrightarrow> typed (ver_claims v) \<and> rk_check K C (ver_claims v) = Inr ()"
  by (simp add: wf_verified_def wf_signed_def wf_unsigned_def ver_claims_def)

text \<open>
  Content identifiers identify content: two verified records with one identifier make the
  same claims unless the two signing transcripts collide.
\<close>

lemma verified_id_claims:
  assumes "verified_ok v" and "verified_ok w" and "ver_id v = ver_id w"
    and "collision_free C {rk_domain K @ rk_encode K (ver_claims v), rk_domain K @ rk_encode K (ver_claims w)}"
  shows "ver_claims v = ver_claims w"
proof -
  have "rk_domain K @ rk_encode K (ver_claims v) = rk_domain K @ rk_encode K (ver_claims w)"
    using assms(3) verified_id [OF assms(1)] verified_id [OF assms(2)]
    by (intro collision_freeD [OF assms(4)]) auto
  then have "rk_encode K (ver_claims v) = rk_encode K (ver_claims w)" by simp
  moreover have "fits (ver_claims v)" "fits (ver_claims w)"
    using assms(1,2) verified_check checked_fits by blast+
  ultimately show ?thesis
    using claims_decode_encode by (metis sum.inject(2))
qed

end

lemma length_concat_const: "\<forall>x\<in>set xs. length (f x) = k \<Longrightarrow> length (concat (map f xs)) = k * length xs"
  by (induction xs) auto

lemma length_ascii [simp]: "length (ascii s) = length s"
  by (simp add: ascii_def)

lemma length_magic [simp]:
  "length GENESIS_MAGIC = 5" "length POLICY_MAGIC = 5" "length EVENT_MAGIC = 5"
  by (simp_all add: GENESIS_MAGIC_def POLICY_MAGIC_def EVENT_MAGIC_def)

lemma length_write_writers [simp]: "length (write_writers ws) = 2 + 32 * length ws"
  by (simp add: write_writers_def length_concat_const [where k = 32])

lemma length_genesis_encode: "length (genesis_encode g) = 71 + 32 * length (gc_writers g)"
  by (simp add: genesis_encode_def)

lemma length_policy_encode:
  "length (policy_encode p) = 113 + 32 * length (pc_writers p) + 72 * length (pc_sealed_heads p)"
  by (simp add: policy_encode_def seal_encode_def length_concat_const [where k = 72])

lemma length_event_encode: "length (event_encode e) = 153 + length (as_str (ec_text e))"
  by (simp add: event_encode_def)

interpretation genesis_record: signed_record C genesis_kind "\<lambda>_. True" genesis_fits for C
proof
  show "genesis_fits c" if "rk_check genesis_kind C c = Inr ()" for c
    using that by (auto simp: genesis_kind_def genesis_check_def writers_check_iff genesis_fits_def)
  show "checked_key C (rk_signer genesis_kind c) = Inr (rk_signer genesis_kind c)"
    if "rk_check genesis_kind C c = Inr ()" for c
    using that by (auto simp: genesis_kind_def genesis_check_def writers_check_iff)
qed (use genesis_codec.dec_enc genesis_codec.enc_dec in
      \<open>auto simp: genesis_kind_def length_genesis_encode genesis_fits_def\<close>)

interpretation policy_record: signed_record C policy_kind "\<lambda>_. True" policy_fits for C
proof
  show "policy_fits c" if "rk_check policy_kind C c = Inr ()" for c
    using that by (auto simp: policy_kind_def policy_check_iff writers_check_iff policy_fits_def)
  show "checked_key C (rk_signer policy_kind c) = Inr (rk_signer policy_kind c)"
    if "rk_check policy_kind C c = Inr ()" for c
    using that by (auto simp: policy_kind_def policy_check_iff writers_check_iff)
qed (use policy_codec.dec_enc policy_codec.enc_dec in
      \<open>auto simp: policy_kind_def length_policy_encode policy_fits_def\<close>)

interpretation event_record: signed_record C event_kind "\<lambda>e. text_ok (ec_text e)" event_fits for C
proof
  show "length (rk_encode event_kind c) + 64 \<le> rk_max event_kind" if "event_fits c" for c
    using that text_ok_bounds by (auto simp: event_kind_def length_event_encode event_fits_def)
  show "checked_key C (rk_signer event_kind c) = Inr (rk_signer event_kind c)"
    if "rk_check event_kind C c = Inr ()" for c
    using that by (auto simp: event_kind_def event_check_iff)
qed (use event_codec.dec_enc event_codec.enc_dec in \<open>auto simp: event_kind_def event_fits_def\<close>)

end
