(* ===== verification/BTree_Map.thy ===== *)
theory BTree_Map
  imports Rust_Prelude
begin

text \<open>
  The ordered maps of the sources (\<open>alloc::collections::BTreeMap\<close>). A map is its sequence of
  entries in ascending key order, which is what iteration yields and what equality compares.
  The locale \<open>ordered_map\<close> states what the clients rely on; it is interpreted on the
  operations below, and every client fact about lookups, sizes and removal comes from it.
\<close>

type_synonym ('k, 'v) btree_map = "('k \<times> 'v) list"

definition bt_new :: "('k, 'v) btree_map" where
  "bt_new = []"

definition bt_get :: "('k, 'v) btree_map \<Rightarrow> 'k \<Rightarrow> 'v option" where
  "bt_get m k = map_of m k"

definition bt_contains :: "('k, 'v) btree_map \<Rightarrow> 'k \<Rightarrow> bool" where
  "bt_contains m k = (bt_get m k \<noteq> None)"

fun bt_insert :: "'k::linorder \<Rightarrow> 'v \<Rightarrow> ('k, 'v) btree_map \<Rightarrow> ('k, 'v) btree_map" where
  "bt_insert k v [] = [(k, v)]"
| "bt_insert k v (e # m) =
     (if fst e < k then e # bt_insert k v m
      else if fst e = k then (k, v) # m
      else (k, v) # e # m)"

definition bt_remove :: "'k \<Rightarrow> ('k, 'v) btree_map \<Rightarrow> ('k, 'v) btree_map" where
  "bt_remove k m = filter (\<lambda>e. fst e \<noteq> k) m"

text \<open>\<open>last_key_value\<close>: the entry with the greatest key.\<close>

definition bt_last :: "('k, 'v) btree_map \<Rightarrow> ('k \<times> 'v) option" where
  "bt_last m = (if m = [] then None else Some (last m))"

definition bt_ok :: "('k::linorder, 'v) btree_map \<Rightarrow> bool" where
  "bt_ok m = ascending (map fst m)"

section \<open>The interface\<close>

locale ordered_map =
  fixes empty :: "'m"
    and get :: "'m \<Rightarrow> 'k::linorder \<Rightarrow> 'v option"
    and insert :: "'k \<Rightarrow> 'v \<Rightarrow> 'm \<Rightarrow> 'm"
    and remove :: "'k \<Rightarrow> 'm \<Rightarrow> 'm"
    and entries :: "'m \<Rightarrow> ('k \<times> 'v) list"
    and ok :: "'m \<Rightarrow> bool"
  assumes ok_empty: "ok empty"
    and ok_insert: "ok m \<Longrightarrow> ok (insert k v m)"
    and ok_remove: "ok m \<Longrightarrow> ok (remove k m)"
    and get_empty: "get empty k = None"
    and get_insert: "ok m \<Longrightarrow> get (insert k v m) k' = (if k' = k then Some v else get m k')"
    and get_remove: "ok m \<Longrightarrow> get (remove k m) k' = (if k' = k then None else get m k')"
    and entries_ascending: "ok m \<Longrightarrow> ascending (map fst (entries m))"
    and entries_get: "ok m \<Longrightarrow> get m k = Some v \<longleftrightarrow> (k, v) \<in> set (entries m)"
    and entries_inject: "entries m = entries m' \<Longrightarrow> m = m'"
begin

lemma keys_get: "ok m \<Longrightarrow> k \<in> fst ` set (entries m) \<longleftrightarrow> get m k \<noteq> None"
  using entries_get by (auto intro: rev_image_eqI)

lemma length_entries: "ok m \<Longrightarrow> length (entries m) = card {k. get m k \<noteq> None}"
proof -
  assume "ok m"
  then have "distinct (map fst (entries m))"
    using entries_ascending ascending_distinct by blast
  then have "length (entries m) = card (fst ` set (entries m))"
    by (metis distinct_card length_map list.set_map)
  also have "fst ` set (entries m) = {k. get m k \<noteq> None}"
    using keys_get [OF \<open>ok m\<close>] by auto
  finally show ?thesis .
qed

lemma finite_keys: "ok m \<Longrightarrow> finite {k. get m k \<noteq> None}"
proof -
  assume "ok m"
  then have "{k. get m k \<noteq> None} = fst ` set (entries m)"
    using keys_get by auto
  then show ?thesis by simp
qed

lemma length_insert:
  assumes "ok m"
  shows "length (entries (insert k v m)) =
    (if get m k = None then Suc (length (entries m)) else length (entries m))"
proof -
  have "{k'. get (insert k v m) k' \<noteq> None} = Set.insert k {k'. get m k' \<noteq> None}"
    using assms by (auto simp: get_insert)
  then show ?thesis
    using assms ok_insert [OF assms, of k v] finite_keys [OF assms]
    by (auto simp: length_entries card_insert_if)
qed

lemma length_remove_le: "ok m \<Longrightarrow> length (entries (remove k m)) \<le> length (entries m)"
proof -
  assume m: "ok m"
  have "{k'. get (remove k m) k' \<noteq> None} \<subseteq> {k'. get m k' \<noteq> None}"
    using m by (auto simp: get_remove split: if_splits)
  then show ?thesis
    using m ok_remove [OF m] finite_keys [OF m] by (simp add: length_entries card_mono)
qed

lemma map_eqI:
  assumes "ok m" and "ok m'" and "\<And>k. get m k = get m' k"
  shows "m = m'"
proof (rule entries_inject)
  have s: "set (entries m) = set (entries m')"
    using assms entries_get by (metis (no_types, opaque_lifting) surj_pair subsetI subset_antisym)
  have *: "sorted (map fst (entries n)) \<and> distinct (map fst (entries n))" if "ok n" for n
    using entries_ascending [OF that] by (simp add: ascending_iff strict_sorted_iff)
  show "entries m = entries m'"
    using s * [OF assms(1)] * [OF assms(2)] map_sorted_distinct_set_unique
    by (metis (no_types, lifting) distinct_map inj_on_Un inf_sup_aci(5) sup.idem)
qed

end

section \<open>The sorted-entries implementation\<close>

lemma fst_set_bt_insert: "fst ` set (bt_insert k v m) = insert k (fst ` set m)"
  by (induction m) auto

lemma bt_ok_Cons:
  "bt_ok (e # m) \<longleftrightarrow> (\<forall>k\<in>fst ` set m. fst e < k) \<and> bt_ok m"
  by (auto simp: bt_ok_def ascending_iff)

lemma bt_ok_insert: "bt_ok m \<Longrightarrow> bt_ok (bt_insert k v m)"
proof (induction m)
  case Nil
  then show ?case by (simp add: bt_ok_def)
next
  case (Cons e m)
  then show ?case by (fastforce simp: bt_ok_Cons fst_set_bt_insert)
qed

lemma bt_ok_remove: "bt_ok m \<Longrightarrow> bt_ok (bt_remove k m)"
  unfolding bt_ok_def bt_remove_def ascending_iff
  by (induction m) auto

lemma bt_get_insert:
  "bt_ok m \<Longrightarrow> bt_get (bt_insert k v m) k' = (if k' = k then Some v else bt_get m k')"
proof (induction m)
  case Nil
  then show ?case by (simp add: bt_get_def)
next
  case (Cons e m)
  then show ?case by (cases e) (auto simp: bt_get_def bt_ok_Cons)
qed

lemma bt_get_remove: "bt_get (bt_remove k m) k' = (if k' = k then None else bt_get m k')"
  by (induction m) (auto simp: bt_get_def bt_remove_def)

interpretation btree: ordered_map bt_new bt_get bt_insert bt_remove "\<lambda>m. m" bt_ok
proof
  show "bt_ok bt_new" by (simp add: bt_ok_def bt_new_def)
  show "bt_get bt_new k = None" for k by (simp add: bt_get_def bt_new_def)
  show "ascending (map fst m)" if "bt_ok m" for m :: "('a \<times> 'b) list"
    using that by (simp add: bt_ok_def)
  show "bt_get m k = Some v \<longleftrightarrow> (k, v) \<in> set m" if "bt_ok m" for m :: "('a \<times> 'b) list" and k v
    using that ascending_distinct [of "map fst m"] by (simp add: bt_get_def bt_ok_def)
qed (simp_all add: bt_ok_insert bt_ok_remove bt_get_insert bt_get_remove)

lemmas bt_laws [simp] =
  btree.ok_empty btree.get_empty btree.ok_insert btree.ok_remove btree.get_insert btree.get_remove

lemma bt_last_greatest:
  assumes "bt_ok m" and "bt_last m = Some (k, v)"
  shows "bt_get m k = Some v \<and> (\<forall>k'. bt_get m k' \<noteq> None \<longrightarrow> k' \<le> k)"
proof -
  from assms(2) have ne: "m \<noteq> []" and kv: "last m = (k, v)"
    by (auto simp: bt_last_def split: if_splits)
  then obtain ys where m: "m = ys @ [(k, v)]"
    by (metis append_butlast_last_id)
  have "k' \<le> k" if "bt_get m k' \<noteq> None" for k'
  proof -
    from that assms(1) obtain v' where "(k', v') \<in> set m"
      using btree.entries_get by (metis option.exhaust)
    with assms(1) m show ?thesis
      by (force simp: bt_ok_def ascending_iff sorted_wrt_append)
  qed
  moreover have "bt_get m k = Some v"
    using assms(1) m btree.entries_get [of m k v] by simp
  ultimately show ?thesis by blast
qed

lemma bt_last_None: "bt_last m = None \<longleftrightarrow> m = []"
  by (simp add: bt_last_def)

lemma bt_empty_iff: "bt_ok m \<Longrightarrow> m = [] \<longleftrightarrow> (\<forall>k. bt_get m k = None)"
  by (cases m) (auto simp: bt_get_def)

text \<open>Inserting a batch of entries with distinct keys.\<close>

lemma bt_ok_fold_insert: "bt_ok m \<Longrightarrow> bt_ok (fold (\<lambda>x. bt_insert (k x) (v x)) xs m)"
  by (induction xs arbitrary: m) simp_all

lemma bt_get_fold_insert_other:
  "bt_ok m \<Longrightarrow> key \<notin> k ` set xs \<Longrightarrow>
   bt_get (fold (\<lambda>x. bt_insert (k x) (v x)) xs m) key = bt_get m key"
  by (induction xs arbitrary: m) simp_all

lemma bt_get_fold_insert:
  "bt_ok m \<Longrightarrow> distinct (map k xs) \<Longrightarrow> x \<in> set xs \<Longrightarrow>
   bt_get (fold (\<lambda>x. bt_insert (k x) (v x)) xs m) (k x) = Some (v x)"
  by (induction xs arbitrary: m) (auto simp: bt_get_fold_insert_other)

lemma length_fold_insert:
  "bt_ok m \<Longrightarrow> distinct (map k xs) \<Longrightarrow>
   length (fold (\<lambda>x. bt_insert (k x) (v x)) xs m) =
   length m + length (filter (\<lambda>x. \<not> bt_contains m (k x)) xs)"
proof (induction xs arbitrary: m)
  case Nil
  then show ?case by simp
next
  case (Cons x xs)
  from Cons.prems(2) have "k x \<notin> k ` set xs" by simp
  then have "k y \<noteq> k x" if "y \<in> set xs" for y using that by (metis imageI)
  then have "filter (\<lambda>y. \<not> bt_contains (bt_insert (k x) (v x) m) (k y)) xs =
      filter (\<lambda>y. \<not> bt_contains m (k y)) xs"
    using Cons.prems(1) by (intro filter_cong) (simp_all add: bt_contains_def)
  then show ?case
    using Cons by (simp add: btree.length_insert bt_contains_def)
qed

text \<open>Keeping the entries that satisfy a predicate.\<close>

lemma bt_ok_filter: "bt_ok m \<Longrightarrow> bt_ok (filter P m)"
  by (simp add: bt_ok_def ascending_iff sorted_wrt_map sorted_wrt_filter)

lemma bt_get_filter: "bt_ok m \<Longrightarrow> bt_get (filter P m) k = Some v \<longleftrightarrow> bt_get m k = Some v \<and> P (k, v)"
  using btree.entries_get [of m k v] btree.entries_get [of "filter P m" k v] bt_ok_filter by auto

end
