(* ===== verification/Direct_State.thy ===== *)
theory Direct_State
  imports Direct_Records BTree_Map
begin

text \<open>
  \<open>crates/vhalla-direct-room/src/state.rs\<close>: the owner-policy replica of a pinned room
  (\<open>PolicyState\<close>), the per-author continuity chain (\<open>AuthorChain\<close>) and the tokens that carry a
  prepared transition from its check to its commit (\<open>PreparedPolicy\<close> with its seal proofs,
  \<open>PreparedEvent\<close>, \<open>PreparedContinuity\<close>, \<open>AnchorReconciliation\<close>).

  Methods that take \<open>&mut self\<close> and change it on an error path as well (observation of a fork)
  return the new state beside the result; the others return it inside \<open>Ok\<close>.
\<close>

definition MAX_SEALED_AUTHORS :: nat where [simp]: "MAX_SEALED_AUTHORS = 4096"
definition MAX_OBSERVED_POLICIES :: nat where [simp]: "MAX_OBSERVED_POLICIES = 256"
definition MAX_CHAIN_PAGE :: nat where [simp]: "MAX_CHAIN_PAGE = 32"

section \<open>State\<close>

record policy_position =
  pp_revision :: u64
  pp_id :: policy_id

record author_head =
  ah_sequence :: u64
  ah_event :: event_id

definition EMPTY :: author_head where
  "EMPTY = \<lparr>ah_sequence = 0, ah_event = 0\<rparr>"

record policy_state =
  ps_genesis :: pinned_genesis
  ps_current :: "verified_policy option"
  ps_sealed :: "(array32, author_head) btree_map"
  ps_observed :: "(u64, policy_id) btree_map"
  ps_overflow :: bool
  ps_forked :: bool

record author_chain =
  ac_room :: room_id
  ac_author :: array32
  ac_head :: author_head
  ac_checked_seal :: "author_head option"

record seal_proof =
  sp_chain :: author_chain
  sp_target :: seal_head
  sp_policy :: policy_id

record closed_policy =
  cp_room :: room_id
  cp_policy :: policy_id
  cp_closing :: policy_id
  cp_writers :: "array32 list"
  cp_seals :: "seal_head list"

record prepared_policy =
  pr_room :: room_id
  pr_base :: policy_position
  pr_update :: verified_policy
  pr_closed :: closed_policy
  pr_proofs :: "seal_proof list"

record prepared_continuity =
  pt_room :: room_id
  pt_author :: array32
  pt_base :: author_head
  pt_event :: verified_event

record prepared_event =
  pe_step :: prepared_continuity
  pe_policy :: policy_position

record anchor_reconciliation =
  an_room :: room_id
  an_author :: array32
  an_policy :: policy_position
  an_seal :: author_head
  an_target :: author_head
  an_progress :: author_head

definition event_head :: "verified_event \<Rightarrow> author_head" where
  "event_head e = \<lparr>ah_sequence = ec_sequence (ver_claims e), ah_event = ver_id e\<rparr>"

section \<open>PolicyState: reading\<close>

definition policy_new :: "pinned_genesis \<Rightarrow> policy_state" where
  "policy_new g = \<lparr>ps_genesis = g, ps_current = None, ps_sealed = bt_new, ps_observed = bt_new,
     ps_overflow = False, ps_forked = False\<rparr>"

definition policy_room :: "policy_state \<Rightarrow> room_id" where
  "policy_room ps = pin_id (ps_genesis ps)"

definition policy_owner :: "policy_state \<Rightarrow> array32" where
  "policy_owner ps = gc_owner (pin_claims (ps_genesis ps))"

definition policy_head :: "crypto \<Rightarrow> policy_state \<Rightarrow> policy_position" where
  "policy_head C ps =
     (case ps_current ps of
        Some current \<Rightarrow> \<lparr>pp_revision = pc_revision (ver_claims current), pp_id = ver_id current\<rparr>
      | None \<Rightarrow> \<lparr>pp_revision = 0, pp_id = initial_policy C (policy_room ps)\<rparr>)"

definition policy_writers :: "policy_state \<Rightarrow> array32 list" where
  "policy_writers ps =
     (case ps_current ps of
        Some current \<Rightarrow> pc_writers (ver_claims current)
      | None \<Rightarrow> gc_writers (pin_claims (ps_genesis ps)))"

definition allows :: "policy_state \<Rightarrow> array32 \<Rightarrow> bool" where
  "allows ps author = (binary_search (policy_writers ps) author \<noteq> None)"

definition sealed_head :: "policy_state \<Rightarrow> array32 \<Rightarrow> author_head option" where
  "sealed_head ps author = bt_get (ps_sealed ps) author"

definition pending :: "policy_state \<Rightarrow> policy_position option" where
  "pending ps =
     map_option (\<lambda>(revision, i). \<lparr>pp_revision = revision, pp_id = i\<rparr>) (bt_last (ps_observed ps))"

definition fresh_admission :: "policy_state \<Rightarrow> dr_error + unit" where
  "fresh_admission ps =
     (if ps_forked ps then Inl Fork
      else if ps_overflow ps then Inl Capacity
      else if ps_observed ps \<noteq> [] then Inl PolicyPending
      else Inr ())"

definition check_owner :: "policy_state \<Rightarrow> verified_policy \<Rightarrow> dr_error + unit" where
  "check_owner ps update =
     (if pc_room (ver_claims update) \<noteq> policy_room ps then Inl Scope
      else if pc_owner (ver_claims update) \<noteq> policy_owner ps then Inl Owner
      else Inr ())"

section \<open>PolicyState: observation\<close>

definition observe_after_persist ::
    "crypto \<Rightarrow> policy_state \<Rightarrow> verified_policy \<Rightarrow> policy_state \<times> (dr_error + unit)" where
  "observe_after_persist C ps update =
     (case check_owner ps update of
        Inl e \<Rightarrow> (ps, Inl e)
      | Inr _ \<Rightarrow>
        let offered = \<lparr>pp_revision = pc_revision (ver_claims update), pp_id = ver_id update\<rparr>;
            head = policy_head C ps
        in if pp_revision offered < pp_revision head then (ps, Inl Replay)
           else if pp_revision offered = pp_revision head then
             (if pp_id offered = pp_id head then (ps, Inl Duplicate)
              else (ps\<lparr>ps_forked := True\<rparr>, Inl Fork))
           else (case bt_get (ps_observed ps) (pp_revision offered) of
               Some observed \<Rightarrow>
                 if pp_id offered \<noteq> observed then (ps\<lparr>ps_forked := True\<rparr>, Inl Fork)
                 else (ps, Inr ())
             | None \<Rightarrow>
                 if length (ps_observed ps) = MAX_OBSERVED_POLICIES
                 then (ps\<lparr>ps_overflow := True\<rparr>, Inl Capacity)
                 else (ps\<lparr>ps_observed := bt_insert (pp_revision offered) (pp_id offered)
                                           (ps_observed ps)\<rparr>, Inr ())))"

definition compare_retained ::
    "crypto \<Rightarrow> policy_state \<Rightarrow> verified_policy \<Rightarrow> signed_policy \<Rightarrow> dr_error + unit" where
  "compare_retained C ps retained offered =
     bindR (signed_verify C policy_kind offered) (\<lambda>offered.
     bindR (check_owner ps retained) (\<lambda>_.
     bindR (check_owner ps offered) (\<lambda>_.
       if pc_revision (ver_claims retained) \<noteq> pc_revision (ver_claims offered) then Inl Sequence
       else Inl (if ver_id retained = ver_id offered then Duplicate else Fork))))"

definition observe_retained_after_persist ::
    "crypto \<Rightarrow> policy_state \<Rightarrow> verified_policy \<Rightarrow> signed_policy \<Rightarrow> policy_state \<times> (dr_error + unit)" where
  "observe_retained_after_persist C ps retained offered =
     (let result = compare_retained C ps retained offered
      in (if result = Inl Fork then ps\<lparr>ps_forked := True\<rparr> else ps, result))"

section \<open>PolicyState: owner updates\<close>

definition prepare_proof ::
    "crypto \<Rightarrow> policy_state \<Rightarrow> seal_head \<Rightarrow> dr_error + seal_proof" where
  "prepare_proof C ps seal =
     (let prior = (case sealed_head ps (sh_author seal) of Some h \<Rightarrow> h | None \<Rightarrow> EMPTY)
      in if sh_sequence seal < ah_sequence prior
            \<or> sh_sequence seal = ah_sequence prior \<and> sh_event seal \<noteq> ah_event prior
         then Inl Fork
         else if sh_sequence seal = ah_sequence prior then Inl Policy
         else Inr \<lparr>sp_chain = \<lparr>ac_room = policy_room ps, ac_author = sh_author seal,
                                  ac_head = prior, ac_checked_seal = None\<rparr>,
                   sp_target = seal, sp_policy = pp_id (policy_head C ps)\<rparr>)"

definition prepare_update ::
    "crypto \<Rightarrow> policy_state \<Rightarrow> signed_policy \<Rightarrow> dr_error + prepared_policy" where
  "prepare_update C ps sp =
     (if ps_forked ps then Inl Fork
      else
     bindR (signed_verify C policy_kind sp) (\<lambda>update.
     bindR (check_owner ps update) (\<lambda>_.
       let claims = ver_claims update; head = policy_head C ps in
       if (case bt_get (ps_observed ps) (pc_revision claims) of
             Some i \<Rightarrow> i \<noteq> ver_id update | None \<Rightarrow> False) then Inl Fork
       else if pc_revision claims < pp_revision head then Inl Replay
       else if pc_revision claims = pp_revision head then
         Inl (if ver_id update = pp_id head then Duplicate else Fork)
       else
     bindR (ok_or Exhausted (checked_add (pp_revision head) 1)) (\<lambda>nxt.
       if pc_revision claims \<noteq> nxt then Inl Gap
       else if pc_previous claims \<noteq> pp_id head then Inl Fork
       else if \<exists>seal\<in>set (pc_sealed_heads claims). \<not> allows ps (sh_author seal) then Inl Author
       else
         let added = length (filter (\<lambda>seal. \<not> bt_contains (ps_sealed ps) (sh_author seal))
                               (pc_sealed_heads claims))
         in if length (ps_sealed ps) + added > MAX_SEALED_AUTHORS then Inl Capacity
            else
     bindR (mapR (prepare_proof C ps) (pc_sealed_heads claims)) (\<lambda>proofs.
       Inr \<lparr>pr_room = policy_room ps, pr_base = head, pr_update = update,
            pr_closed = \<lparr>cp_room = policy_room ps, cp_policy = pp_id head,
                          cp_closing = ver_id update, cp_writers = policy_writers ps,
                          cp_seals = pc_sealed_heads claims\<rparr>,
            pr_proofs = proofs\<rparr>)))))"

definition proof_complete :: "seal_proof \<Rightarrow> bool" where
  "proof_complete p =
     (ah_sequence (ac_head (sp_chain p)) = sh_sequence (sp_target p)
      \<and> ah_event (ac_head (sp_chain p)) = sh_event (sp_target p))"

definition update_ready :: "prepared_policy \<Rightarrow> bool" where
  "update_ready p = list_all proof_complete (pr_proofs p)"

definition commit_update ::
    "crypto \<Rightarrow> policy_state \<Rightarrow> prepared_policy \<Rightarrow> dr_error + (policy_state \<times> closed_policy)" where
  "commit_update C ps prepared =
     (if ps_forked ps then Inl Fork
      else if pr_room prepared \<noteq> policy_room ps \<or> pr_base prepared \<noteq> policy_head C ps
      then Inl StaleBase
      else if \<not> update_ready prepared then Inl Gap
      else if (case bt_get (ps_observed ps) (pc_revision (ver_claims (pr_update prepared))) of
                 Some i \<Rightarrow> i \<noteq> ver_id (pr_update prepared) | None \<Rightarrow> False) then Inl Fork
      else
        let sealed = fold (\<lambda>p m. bt_insert (sh_author (sp_target p)) (ac_head (sp_chain p)) m)
                       (pr_proofs prepared) (ps_sealed ps);
            ps1 = ps\<lparr>ps_sealed := sealed, ps_current := Some (pr_update prepared)\<rparr>;
            ps2 = ps1\<lparr>ps_observed := bt_remove (pp_revision (policy_head C ps1)) (ps_observed ps1)\<rparr>
        in Inr (ps2, pr_closed prepared))"

section \<open>AuthorChain\<close>

definition chain_new :: "crypto \<Rightarrow> room_id \<Rightarrow> array32 \<Rightarrow> dr_error + author_chain" where
  "chain_new C room author =
     (if room = 0 then Inl Scope
      else bindR (checked_key C author) (\<lambda>_.
        Inr \<lparr>ac_room = room, ac_author = author, ac_head = EMPTY, ac_checked_seal = None\<rparr>))"

definition check_next :: "author_chain \<Rightarrow> verified_event \<Rightarrow> dr_error + unit" where
  "check_next c event =
     (let claims = ver_claims event in
      if ec_room claims \<noteq> ac_room c then Inl Scope
      else if ec_author claims \<noteq> ac_author c then Inl Author
      else if ec_sequence claims < ah_sequence (ac_head c) then Inl Replay
      else if ec_sequence claims = ah_sequence (ac_head c) then
        Inl (if ver_id event = ah_event (ac_head c) then Duplicate else Fork)
      else bindR (ok_or Exhausted (checked_add (ah_sequence (ac_head c)) 1)) (\<lambda>nxt.
        if ec_sequence claims \<noteq> nxt then Inl Gap
        else if ec_previous claims \<noteq> ah_event (ac_head c) then Inl Fork
        else Inr ()))"

definition check_fresh_anchor :: "author_chain \<Rightarrow> policy_state \<Rightarrow> dr_error + unit" where
  "check_fresh_anchor c ps =
     (case sealed_head ps (ac_author c) of
        None \<Rightarrow> Inr ()
      | Some seal \<Rightarrow>
          if ah_sequence (ac_head c) < ah_sequence seal then Inl Gap
          else if ah_sequence (ac_head c) = ah_sequence seal then
            (if ac_head c \<noteq> seal then Inl Fork else Inr ())
          else if ac_checked_seal c \<noteq> Some seal then Inl Gap
          else Inr ())"

definition checked_anchor_after ::
    "author_chain \<Rightarrow> verified_event \<Rightarrow> policy_state \<Rightarrow> dr_error + author_head option" where
  "checked_anchor_after c event ps =
     (if policy_room ps \<noteq> ac_room c then Inl Scope
      else case sealed_head ps (ac_author c) of
        None \<Rightarrow> Inr None
      | Some seal \<Rightarrow>
          if ah_sequence (ac_head c) < ah_sequence seal then
            (if ec_sequence (ver_claims event) = ah_sequence seal then
               (if ver_id event \<noteq> ah_event seal then Inl Fork else Inr (Some seal))
             else Inr None)
          else bindR (check_fresh_anchor c ps) (\<lambda>_. Inr (Some seal)))"

definition authoring_head :: "author_chain \<Rightarrow> policy_state \<Rightarrow> dr_error + author_head" where
  "authoring_head c ps =
     bindR (fresh_admission ps) (\<lambda>_.
       if policy_room ps \<noteq> ac_room c then Inl Scope
       else if \<not> allows ps (ac_author c) then Inl Author
       else bindR (check_fresh_anchor c ps) (\<lambda>_. Inr (ac_head c)))"

definition prepare_next ::
    "crypto \<Rightarrow> author_chain \<Rightarrow> verified_event \<Rightarrow> policy_state \<Rightarrow> dr_error + prepared_event" where
  "prepare_next C c event ps =
     bindR (fresh_admission ps) (\<lambda>_.
       if policy_room ps \<noteq> ac_room c then Inl Scope
       else if ec_policy (ver_claims event) \<noteq> pp_id (policy_head C ps) then Inl Policy
       else bindR (authoring_head c ps) (\<lambda>_.
            bindR (check_next c event) (\<lambda>_.
              Inr \<lparr>pe_step = \<lparr>pt_room = ac_room c, pt_author = ac_author c,
                               pt_base = ac_head c, pt_event = event\<rparr>,
                   pe_policy = policy_head C ps\<rparr>)))"

definition prepare_continuity ::
    "author_chain \<Rightarrow> verified_event \<Rightarrow> policy_state \<Rightarrow> dr_error + prepared_continuity" where
  "prepare_continuity c event ps =
     bindR (check_next c event) (\<lambda>_.
     bindR (checked_anchor_after c event ps) (\<lambda>_.
       Inr \<lparr>pt_room = ac_room c, pt_author = ac_author c, pt_base = ac_head c, pt_event = event\<rparr>))"

definition commit_continuity ::
    "author_chain \<Rightarrow> prepared_continuity \<Rightarrow> policy_state \<Rightarrow> dr_error + author_chain" where
  "commit_continuity c prepared ps =
     (if pt_room prepared \<noteq> ac_room c \<or> pt_author prepared \<noteq> ac_author c
         \<or> pt_base prepared \<noteq> ac_head c then Inl StaleBase
      else bindR (checked_anchor_after c (pt_event prepared) ps) (\<lambda>checked.
        Inr (c\<lparr>ac_head := event_head (pt_event prepared), ac_checked_seal := checked\<rparr>)))"

definition commit_event ::
    "crypto \<Rightarrow> author_chain \<Rightarrow> prepared_event \<Rightarrow> policy_state \<Rightarrow> dr_error + author_chain" where
  "commit_event C c prepared ps =
     bindR (fresh_admission ps) (\<lambda>_.
       if policy_room ps \<noteq> ac_room c \<or> pe_policy prepared \<noteq> policy_head C ps then Inl StalePolicy
       else bindR (check_fresh_anchor c ps) (\<lambda>_.
         commit_continuity c (pe_step prepared) ps))"

section \<open>Anchor reconciliation\<close>

definition prepare_anchor_reconciliation ::
    "crypto \<Rightarrow> author_chain \<Rightarrow> policy_state \<Rightarrow> dr_error + anchor_reconciliation" where
  "prepare_anchor_reconciliation C c ps =
     (if policy_room ps \<noteq> ac_room c then Inl Scope
      else bindR (ok_or Policy (sealed_head ps (ac_author c))) (\<lambda>seal.
        if ah_sequence (ac_head c) < ah_sequence seal then Inl Gap
        else if ah_sequence (ac_head c) = ah_sequence seal \<and> ac_head c \<noteq> seal then Inl Fork
        else Inr \<lparr>an_room = ac_room c, an_author = ac_author c, an_policy = policy_head C ps,
                  an_seal = seal, an_target = ac_head c, an_progress = seal\<rparr>))"

definition anchor_ready :: "anchor_reconciliation \<Rightarrow> bool" where
  "anchor_ready a = (an_progress a = an_target a)"

definition reconcile_anchor ::
    "crypto \<Rightarrow> author_chain \<Rightarrow> anchor_reconciliation \<Rightarrow> policy_state \<Rightarrow> dr_error + author_chain" where
  "reconcile_anchor C c a ps =
     (if an_room a \<noteq> ac_room c \<or> an_author a \<noteq> ac_author c \<or> an_target a \<noteq> ac_head c
      then Inl StaleBase
      else if policy_room ps \<noteq> ac_room c \<or> policy_head C ps \<noteq> an_policy a
              \<or> sealed_head ps (ac_author c) \<noteq> Some (an_seal a) then Inl StalePolicy
      else if \<not> anchor_ready a then Inl Gap
      else Inr (c\<lparr>ac_checked_seal := Some (an_seal a)\<rparr>))"

text \<open>
  One iteration of the two page loops. Each works on a private copy of the chain, which
  replaces the proof's state only after the whole page was accepted.
\<close>

definition anchor_step ::
    "author_head \<Rightarrow> author_chain \<Rightarrow> verified_event \<Rightarrow> dr_error + author_chain" where
  "anchor_step target c event =
     (if ec_sequence (ver_claims event) > ah_sequence target then Inl Bounds
      else bindR (check_next c event) (\<lambda>_.
        let c' = c\<lparr>ac_head := event_head event\<rparr> in
        if ah_sequence (ac_head c') = ah_sequence target \<and> ac_head c' \<noteq> target then Inl Fork
        else Inr c'))"

definition anchor_push ::
    "anchor_reconciliation \<Rightarrow> verified_event list \<Rightarrow> dr_error + anchor_reconciliation" where
  "anchor_push a page =
     (if page = [] \<or> length page > MAX_CHAIN_PAGE then Inl Bounds
      else bindR (foldR (anchor_step (an_target a))
                   \<lparr>ac_room = an_room a, ac_author = an_author a, ac_head = an_progress a,
                    ac_checked_seal = None\<rparr> page) (\<lambda>c.
        Inr (a\<lparr>an_progress := ac_head c\<rparr>)))"

definition seal_step ::
    "seal_head \<Rightarrow> policy_id \<Rightarrow> author_chain \<Rightarrow> verified_event \<Rightarrow> dr_error + author_chain" where
  "seal_step target policy c event =
     (if ec_sequence (ver_claims event) > sh_sequence target then Inl Bounds
      else bindR (check_next c event) (\<lambda>_.
        if ec_sequence (ver_claims event) = sh_sequence target \<and> ver_id event \<noteq> sh_event target
        then Inl Fork
        else if ec_sequence (ver_claims event) = sh_sequence target
                \<and> ec_policy (ver_claims event) \<noteq> policy
        then Inl Policy
        else Inr (c\<lparr>ac_head := event_head event\<rparr>)))"

definition proof_push :: "seal_proof \<Rightarrow> verified_event list \<Rightarrow> dr_error + seal_proof" where
  "proof_push p page =
     (if page = [] \<or> length page > MAX_CHAIN_PAGE then Inl Bounds
      else bindR (foldR (seal_step (sp_target p) (sp_policy p)) (sp_chain p) page) (\<lambda>c.
        Inr (p\<lparr>sp_chain := c\<rparr>)))"

fun push_proofs ::
    "array32 \<Rightarrow> verified_event list \<Rightarrow> seal_proof list \<Rightarrow> dr_error + seal_proof list" where
  "push_proofs author page [] = Inl Author"
| "push_proofs author page (p # ps) =
     (if sh_author (sp_target p) = author
      then bindR (proof_push p page) (\<lambda>p'. Inr (p' # ps))
      else bindR (push_proofs author page ps) (\<lambda>ps'. Inr (p # ps')))"

definition push_seal ::
    "prepared_policy \<Rightarrow> array32 \<Rightarrow> verified_event list \<Rightarrow> dr_error + prepared_policy" where
  "push_seal prepared author page =
     bindR (push_proofs author page (pr_proofs prepared)) (\<lambda>proofs.
       Inr (prepared\<lparr>pr_proofs := proofs\<rparr>))"

section \<open>Signed ancestry\<close>

text \<open>
  What the page loops prove: a list of verified events of one author in one room, each the
  numeric successor of the one before and naming its content identifier as predecessor.
\<close>

definition extends :: "room_id \<Rightarrow> array32 \<Rightarrow> author_head \<Rightarrow> verified_event \<Rightarrow> bool" where
  "extends room author h e \<longleftrightarrow>
     ec_room (ver_claims e) = room \<and> ec_author (ver_claims e) = author
     \<and> unat (ec_sequence (ver_claims e)) = Suc (unat (ah_sequence h))
     \<and> ec_previous (ver_claims e) = ah_event h"

fun ancestry :: "room_id \<Rightarrow> array32 \<Rightarrow> author_head \<Rightarrow> verified_event list \<Rightarrow> bool" where
  "ancestry room author h [] \<longleftrightarrow> True"
| "ancestry room author h (e # es) \<longleftrightarrow> extends room author h e \<and> ancestry room author (event_head e) es"

definition chain_end :: "author_head \<Rightarrow> verified_event list \<Rightarrow> author_head" where
  "chain_end h es = (if es = [] then h else event_head (last es))"

lemma event_head_sel [simp]:
  "ah_sequence (event_head e) = ec_sequence (ver_claims e)"
  "ah_event (event_head e) = ver_id e"
  by (simp_all add: event_head_def)

lemma chain_end_simps [simp]:
  "chain_end h [] = h"
  "chain_end h (e # es) = chain_end (event_head e) es"
  by (simp_all add: chain_end_def)

lemma chain_end_append [simp]: "chain_end h (es @ fs) = chain_end (chain_end h es) fs"
  by (simp add: chain_end_def)

lemma ancestry_append [simp]:
  "ancestry room author h (es @ fs) \<longleftrightarrow>
   ancestry room author h es \<and> ancestry room author (chain_end h es) fs"
  by (induction es arbitrary: h) auto

lemma ancestry_sequence:
  "ancestry room author h es \<Longrightarrow> unat (ah_sequence (chain_end h es)) = unat (ah_sequence h) + length es"
  by (induction es arbitrary: h) (auto simp: extends_def)

lemma ancestry_nth_sequence:
  "ancestry room author h es \<Longrightarrow> i < length es \<Longrightarrow>
   unat (ec_sequence (ver_claims (es ! i))) = unat (ah_sequence h) + Suc i"
proof (induction es arbitrary: h i)
  case Nil
  then show ?case by simp
next
  case (Cons e es)
  then show ?case by (cases i) (auto simp: extends_def)
qed

lemma ancestry_scope:
  "ancestry room author h es \<Longrightarrow> e \<in> set es \<Longrightarrow>
   ec_room (ver_claims e) = room \<and> ec_author (ver_claims e) = author"
  by (induction es arbitrary: h) (auto simp: extends_def)

lemma check_next_iff: "check_next c e = Inr u \<longleftrightarrow> extends (ac_room c) (ac_author c) (ac_head c) e"
proof -
  have "checked_add (ah_sequence (ac_head c)) 1 = Some (ec_sequence (ver_claims e)) \<longleftrightarrow>
      unat (ec_sequence (ver_claims e)) = Suc (unat (ah_sequence (ac_head c)))"
    by (rule checked_add_one)
  then show ?thesis
    by (auto simp: check_next_def extends_def Let_def word_less_nat_alt)
qed

text \<open>
  The contract of a page loop: every accepted iteration consumes the event that extends the
  current position, and moves the position to it. Accepting any number of pages therefore
  accepts exactly an ancestry, and the position is where that ancestry ends.
\<close>

locale chain_pages =
  fixes step :: "'s \<Rightarrow> verified_event \<Rightarrow> dr_error + 's"
    and pos :: "'s \<Rightarrow> author_head"
    and room :: "'s \<Rightarrow> room_id"
    and author :: "'s \<Rightarrow> array32"
  assumes step_extends: "step s e = Inr s' \<Longrightarrow> extends (room s) (author s) (pos s) e"
    and step_pos: "step s e = Inr s' \<Longrightarrow> pos s' = event_head e"
    and step_frame: "step s e = Inr s' \<Longrightarrow> room s' = room s \<and> author s' = author s"
begin

lemma loop_frame: "foldR step s es = Inr s' \<Longrightarrow> room s' = room s \<and> author s' = author s"
  by (induction es arbitrary: s) (use step_frame in fastforce)+

lemma loop_ancestry:
  "foldR step s es = Inr s' \<Longrightarrow>
   ancestry (room s) (author s) (pos s) es \<and> pos s' = chain_end (pos s) es"
proof (induction es arbitrary: s)
  case Nil
  then show ?case by simp
next
  case (Cons e es)
  then obtain t where t: "step s e = Inr t" "foldR step t es = Inr s'" by auto
  from Cons.IH [OF t(2)] step_extends [OF t(1)] step_pos [OF t(1)] step_frame [OF t(1)]
  show ?case by simp
qed

lemma loop_advances:
  "foldR step s es = Inr s' \<Longrightarrow> unat (ah_sequence (pos s')) = unat (ah_sequence (pos s)) + length es"
  using loop_ancestry ancestry_sequence by fastforce

end

interpretation anchor_pages: chain_pages "anchor_step target" ac_head ac_room ac_author for target
  by unfold_locales (auto simp: anchor_step_def check_next_iff Let_def split: if_splits)

interpretation seal_pages: chain_pages "seal_step target policy" ac_head ac_room ac_author
  for target policy
  by unfold_locales (auto simp: seal_step_def check_next_iff split: if_splits)

lemma seal_step_target:
  "seal_step target policy c e = Inr c' \<Longrightarrow> ah_sequence (ac_head c') \<le> sh_sequence target \<and>
   (ah_sequence (ac_head c') = sh_sequence target \<longrightarrow>
      ver_id e = sh_event target \<and> ec_policy (ver_claims e) = policy)"
  by (auto simp: seal_step_def split: if_splits)

section \<open>Seal proofs\<close>

text \<open>
  A seal proof that started at \<open>h\<close> has consumed an ancestry from \<open>h\<close> to its position, made of
  events of \<open>E\<close>; if it moved and stands at its target, the last event is the target and names
  the closing policy.
\<close>

definition proof_ok :: "verified_event set \<Rightarrow> room_id \<Rightarrow> author_head \<Rightarrow> seal_proof \<Rightarrow> bool" where
  "proof_ok E room h p \<longleftrightarrow>
     ac_room (sp_chain p) = room \<and> ac_author (sp_chain p) = sh_author (sp_target p) \<and>
     ah_sequence h < sh_sequence (sp_target p) \<and>
     (\<exists>es. set es \<subseteq> E \<and> ancestry room (sh_author (sp_target p)) h es \<and>
        ac_head (sp_chain p) = chain_end h es \<and>
        ah_sequence (chain_end h es) \<le> sh_sequence (sp_target p) \<and>
        (es \<noteq> [] \<longrightarrow> ah_sequence (chain_end h es) = sh_sequence (sp_target p) \<longrightarrow>
           ver_id (last es) = sh_event (sp_target p) \<and>
           ec_policy (ver_claims (last es)) = sp_policy p))"

lemma seal_loop_target:
  "foldR (seal_step target policy) c es = Inr c' \<Longrightarrow> es \<noteq> [] \<Longrightarrow>
   ah_sequence (ac_head c') \<le> sh_sequence target \<and>
   (ah_sequence (ac_head c') = sh_sequence target \<longrightarrow>
      ver_id (last es) = sh_event target \<and> ec_policy (ver_claims (last es)) = policy)"
proof (induction es rule: rev_induct)
  case Nil
  then show ?case by simp
next
  case (snoc e es)
  then obtain d where "seal_step target policy d e = Inr c'" by (auto simp: foldR_snoc)
  then show ?case using seal_step_target by simp
qed

lemma proof_push_ok:
  assumes "proof_ok E room h p" and "set page \<subseteq> E" and "proof_push p page = Inr p'"
  shows "proof_ok E room h p' \<and> sp_target p' = sp_target p \<and> sp_policy p' = sp_policy p"
proof -
  from assms(3) obtain c where ne: "page \<noteq> []"
    and c: "foldR (seal_step (sp_target p) (sp_policy p)) (sp_chain p) page = Inr c"
    and p': "p' = p\<lparr>sp_chain := c\<rparr>"
    by (auto simp: proof_push_def split: if_splits)
  from assms(1) obtain es where es: "set es \<subseteq> E" "ancestry room (sh_author (sp_target p)) h es"
    "ac_head (sp_chain p) = chain_end h es" "ac_room (sp_chain p) = room"
    "ac_author (sp_chain p) = sh_author (sp_target p)" "ah_sequence h < sh_sequence (sp_target p)"
    by (auto simp: proof_ok_def)
  have "ancestry room (sh_author (sp_target p)) h (es @ page)"
    "ac_head c = chain_end h (es @ page)"
    using seal_pages.loop_ancestry [OF c] es by simp_all
  then show ?thesis
    using seal_loop_target [OF c ne] seal_pages.loop_frame [OF c] es ne p' assms(2)
    by (auto simp: proof_ok_def intro!: exI [of _ "es @ page"])
qed

lemma proof_complete_ancestry:
  assumes "proof_ok E room h p" and "proof_complete p"
  shows "\<exists>es. es \<noteq> [] \<and> set es \<subseteq> E \<and> ancestry room (sh_author (sp_target p)) h es
    \<and> ac_head (sp_chain p) = event_head (last es)
    \<and> event_head (last es) = \<lparr>ah_sequence = sh_sequence (sp_target p), ah_event = sh_event (sp_target p)\<rparr>
    \<and> ec_policy (ver_claims (last es)) = sp_policy p"
proof -
  from assms(1) obtain es where es: "ancestry room (sh_author (sp_target p)) h es"
    "set es \<subseteq> E" "ac_head (sp_chain p) = chain_end h es" "ah_sequence h < sh_sequence (sp_target p)"
    "es \<noteq> [] \<longrightarrow> ah_sequence (chain_end h es) = sh_sequence (sp_target p) \<longrightarrow>
       ver_id (last es) = sh_event (sp_target p) \<and> ec_policy (ver_claims (last es)) = sp_policy p"
    by (auto simp: proof_ok_def)
  from assms(2) es(3) have seq: "ah_sequence (chain_end h es) = sh_sequence (sp_target p)"
    by (simp add: proof_complete_def)
  with es(4) have ne: "es \<noteq> []" by auto
  with es seq show ?thesis
    by (intro exI [of _ es]) (auto simp: chain_end_def event_head_def)
qed

lemma prepare_proof_ok:
  assumes "prepare_proof C ps seal = Inr p"
  shows "proof_ok E (policy_room ps) (case sealed_head ps (sh_author seal) of Some h \<Rightarrow> h | None \<Rightarrow> EMPTY) p
    \<and> sp_target p = seal \<and> sp_policy p = pp_id (policy_head C ps)"
proof -
  have "p = \<lparr>sp_chain = \<lparr>ac_room = policy_room ps, ac_author = sh_author seal,
      ac_head = (case sealed_head ps (sh_author seal) of Some h \<Rightarrow> h | None \<Rightarrow> EMPTY),
      ac_checked_seal = None\<rparr>, sp_target = seal, sp_policy = pp_id (policy_head C ps)\<rparr>"
    and "ah_sequence (case sealed_head ps (sh_author seal) of Some h \<Rightarrow> h | None \<Rightarrow> EMPTY) < sh_sequence seal"
    using assms by (auto simp: prepare_proof_def Let_def)
  then show ?thesis
    by (auto simp: proof_ok_def intro!: exI [of _ "[]"])
qed

section \<open>The policy replica's invariant\<close>

abbreviation wf_genesis :: "crypto \<Rightarrow> verified_genesis \<Rightarrow> bool" where
  "wf_genesis C \<equiv> wf_verified C genesis_kind (\<lambda>_. True)"

abbreviation wf_policy :: "crypto \<Rightarrow> verified_policy \<Rightarrow> bool" where
  "wf_policy C \<equiv> wf_verified C policy_kind (\<lambda>_. True)"

abbreviation wf_event :: "crypto \<Rightarrow> verified_event \<Rightarrow> bool" where
  "wf_event C \<equiv> wf_verified C event_kind (\<lambda>e. text_ok (ec_text e))"

definition policy_ok :: "crypto \<Rightarrow> policy_state \<Rightarrow> bool" where
  "policy_ok C ps \<longleftrightarrow>
     wf_genesis C (pinned (ps_genesis ps)) \<and>
     (\<forall>p. ps_current ps = Some p \<longrightarrow> wf_policy C p \<and> check_owner ps p = Inr ()) \<and>
     bt_ok (ps_sealed ps) \<and> length (ps_sealed ps) \<le> MAX_SEALED_AUTHORS \<and>
     bt_ok (ps_observed ps) \<and> length (ps_observed ps) \<le> MAX_OBSERVED_POLICIES \<and>
     (\<forall>r i. bt_get (ps_observed ps) r = Some i \<longrightarrow> pp_revision (policy_head C ps) < r) \<and>
     (\<forall>a h. bt_get (ps_sealed ps) a = Some h \<longrightarrow> 0 < ah_sequence h)"

text \<open>The terminal a new seal of this author must extend.\<close>

definition prior_seal :: "policy_state \<Rightarrow> array32 \<Rightarrow> author_head" where
  "prior_seal ps a = (case sealed_head ps a of Some h \<Rightarrow> h | None \<Rightarrow> EMPTY)"

definition unsealed_count :: "policy_state \<Rightarrow> seal_head list \<Rightarrow> nat" where
  "unsealed_count ps seals = length (filter (\<lambda>seal. \<not> bt_contains (ps_sealed ps) (sh_author seal)) seals)"

text \<open>A token whose base is the current head: what preparation checked and pushing kept.\<close>

definition token_for :: "crypto \<Rightarrow> verified_event set \<Rightarrow> policy_state \<Rightarrow> prepared_policy \<Rightarrow> bool" where
  "token_for C E ps t \<longleftrightarrow>
     pr_room t = policy_room ps \<and> pr_base t = policy_head C ps \<and>
     wf_policy C (pr_update t) \<and> check_owner ps (pr_update t) = Inr () \<and>
     unat (pc_revision (ver_claims (pr_update t))) = Suc (unat (pp_revision (policy_head C ps))) \<and>
     pc_previous (ver_claims (pr_update t)) = pp_id (policy_head C ps) \<and>
     pr_closed t = \<lparr>cp_room = policy_room ps, cp_policy = pp_id (policy_head C ps),
       cp_closing = ver_id (pr_update t), cp_writers = policy_writers ps,
       cp_seals = pc_sealed_heads (ver_claims (pr_update t))\<rparr> \<and>
     (\<forall>a\<in>set (map sh_author (pc_sealed_heads (ver_claims (pr_update t)))). allows ps a) \<and>
     length (ps_sealed ps) + unsealed_count ps (pc_sealed_heads (ver_claims (pr_update t)))
       \<le> MAX_SEALED_AUTHORS \<and>
     map sp_target (pr_proofs t) = pc_sealed_heads (ver_claims (pr_update t)) \<and>
     (\<forall>p\<in>set (pr_proofs t). sp_policy p = pp_id (policy_head C ps) \<and>
        proof_ok E (policy_room ps) (prior_seal ps (sh_author (sp_target p))) p)"

lemma proof_ok_mono: "proof_ok E room h p \<Longrightarrow> E \<subseteq> F \<Longrightarrow> proof_ok F room h p"
  unfolding proof_ok_def by (elim conjE exE, intro conjI exI) auto

lemma token_for_mono: "token_for C E ps t \<Longrightarrow> E \<subseteq> F \<Longrightarrow> token_for C F ps t"
  using proof_ok_mono unfolding token_for_def by blast

lemma policy_writers_ok:
  assumes "policy_ok C ps"
  shows "ascending (policy_writers ps) \<and> policy_owner ps \<in> set (policy_writers ps)
    \<and> length (policy_writers ps) \<le> MAX_WRITERS"
proof (cases "ps_current ps")
  case None
  have "genesis_check C (pin_claims (ps_genesis ps)) = Inr ()"
    using assms genesis_record.verified_check [of C "pinned (ps_genesis ps)"]
    by (simp add: policy_ok_def pin_claims_def genesis_kind_def)
  with None show ?thesis
    by (auto simp: genesis_check_def writers_check_iff policy_writers_def policy_owner_def)
next
  case (Some p)
  then have "wf_policy C p" "check_owner ps p = Inr ()"
    using assms by (auto simp: policy_ok_def)
  then show ?thesis
    using Some policy_record.verified_check [of C p]
    by (auto simp: policy_kind_def policy_check_iff writers_check_iff policy_writers_def check_owner_def)
qed

lemma allows_iff: "policy_ok C ps \<Longrightarrow> allows ps a \<longleftrightarrow> a \<in> set (policy_writers ps)"
  using binary_search_mem [OF policy_writers_ok [THEN conjunct1], of C ps a]
  by (simp add: allows_def)

lemma policy_new_ok: "wf_genesis C (pinned g) \<Longrightarrow> policy_ok C (policy_new g)"
  by (simp add: policy_ok_def policy_new_def) (simp add: bt_new_def)

subsection \<open>Observation\<close>

text \<open>Observation changes only the observed revisions and the two latches.\<close>

lemma observe_frame:
  "fst (observe_after_persist C ps u) = ps' \<Longrightarrow>
   ps_genesis ps' = ps_genesis ps \<and> ps_current ps' = ps_current ps \<and> ps_sealed ps' = ps_sealed ps
   \<and> (ps_forked ps \<longrightarrow> ps_forked ps') \<and> (ps_overflow ps \<longrightarrow> ps_overflow ps')"
  by (auto simp: observe_after_persist_def Let_def split: sum.splits if_splits option.splits)

lemma head_cong:
  "ps_genesis ps' = ps_genesis ps \<Longrightarrow> ps_current ps' = ps_current ps \<Longrightarrow>
   policy_head C ps' = policy_head C ps \<and> policy_room ps' = policy_room ps
   \<and> policy_owner ps' = policy_owner ps \<and> policy_writers ps' = policy_writers ps
   \<and> check_owner ps' u = check_owner ps u \<and> allows ps' a = allows ps a"
  by (cases "ps_current ps")
     (simp_all add: policy_head_def policy_room_def policy_owner_def policy_writers_def
        check_owner_def allows_def)

lemma sealed_cong:
  "ps_sealed ps' = ps_sealed ps \<Longrightarrow>
   sealed_head ps' a = sealed_head ps a \<and> prior_seal ps' a = prior_seal ps a
   \<and> unsealed_count ps' ss = unsealed_count ps ss"
  by (simp add: sealed_head_def prior_seal_def unsealed_count_def)

lemma policy_ok_cong:
  assumes "policy_ok C ps" and "ps_genesis ps' = ps_genesis ps" "ps_current ps' = ps_current ps"
    "ps_sealed ps' = ps_sealed ps" "ps_observed ps' = ps_observed ps"
  shows "policy_ok C ps'"
  using assms head_cong [OF assms(2,3)] by (simp add: policy_ok_def)

lemma observe_ok:
  assumes "policy_ok C ps"
  shows "policy_ok C (fst (observe_after_persist C ps u))"
proof -
  let ?ps' = "fst (observe_after_persist C ps u)"
  let ?rev = "pc_revision (ver_claims u)"
  show ?thesis
  proof (cases "ps_observed ?ps' = ps_observed ps")
    case True
    then show ?thesis
      using assms observe_frame [of C ps u ?ps'] by (auto intro: policy_ok_cong)
  next
    case False
    then have new: "?ps' = ps\<lparr>ps_observed := bt_insert ?rev (ver_id u) (ps_observed ps)\<rparr>"
      "pp_revision (policy_head C ps) < ?rev" "length (ps_observed ps) \<noteq> MAX_OBSERVED_POLICIES"
      by (auto simp: observe_after_persist_def Let_def split: sum.splits if_splits option.splits)
    have len: "length (bt_insert ?rev (ver_id u) (ps_observed ps)) \<le> MAX_OBSERVED_POLICIES"
      using assms new(3) btree.length_insert [of "ps_observed ps" ?rev "ver_id u"]
      by (auto simp: policy_ok_def split: if_splits)
    have head: "policy_head C ?ps' = policy_head C ps" "check_owner ?ps' p = check_owner ps p" for p
      using head_cong [of ?ps' ps] new(1) by simp_all
    show ?thesis
      using assms new(2) len unfolding policy_ok_def head
      by (auto simp: new(1) split: if_splits)
  qed
qed

lemma observe_retained_frame:
  "fst (observe_retained_after_persist C ps r o') = ps' \<Longrightarrow>
   ps_genesis ps' = ps_genesis ps \<and> ps_current ps' = ps_current ps \<and> ps_sealed ps' = ps_sealed ps
   \<and> ps_observed ps' = ps_observed ps \<and> ps_overflow ps' = ps_overflow ps
   \<and> (ps_forked ps \<longrightarrow> ps_forked ps')"
  by (auto simp: observe_retained_after_persist_def Let_def split: if_splits)

lemma token_for_cong:
  assumes "token_for C E ps t" and "ps_genesis ps' = ps_genesis ps" "ps_current ps' = ps_current ps"
    "ps_sealed ps' = ps_sealed ps"
  shows "token_for C E ps' t"
  using assms head_cong [OF assms(2,3)] sealed_cong [OF assms(4)]
  by (simp add: token_for_def)

subsection \<open>Preparing, proving and committing an update\<close>

lemma prepare_update_token:
  assumes "wf_signed C policy_kind (\<lambda>_. True) sp" and "prepare_update C ps sp = Inr t"
  shows "token_for C E ps t \<and> \<not> ps_forked ps"
proof -
  from assms(2) obtain u nxt proofs where v: "signed_verify C policy_kind sp = Inr u"
    and own: "check_owner ps u = Inr ()"
    and rev: "checked_add (pp_revision (policy_head C ps)) 1 = Some nxt"
      "pc_revision (ver_claims u) = nxt"
    and rest: "pc_previous (ver_claims u) = pp_id (policy_head C ps)"
      "\<forall>seal\<in>set (pc_sealed_heads (ver_claims u)). allows ps (sh_author seal)"
      "length (ps_sealed ps) + unsealed_count ps (pc_sealed_heads (ver_claims u)) \<le> MAX_SEALED_AUTHORS"
    and pr: "mapR (prepare_proof C ps) (pc_sealed_heads (ver_claims u)) = Inr proofs"
    and t: "t = \<lparr>pr_room = policy_room ps, pr_base = policy_head C ps, pr_update = u,
      pr_closed = \<lparr>cp_room = policy_room ps, cp_policy = pp_id (policy_head C ps),
        cp_closing = ver_id u, cp_writers = policy_writers ps,
        cp_seals = pc_sealed_heads (ver_claims u)\<rparr>, pr_proofs = proofs\<rparr>"
    and nf: "\<not> ps_forked ps"
    by (auto simp: prepare_update_def Let_def unsealed_count_def linorder_not_less)
  have all2: "list_all2 (\<lambda>s p. prepare_proof C ps s = Inr p) (pc_sealed_heads (ver_claims u)) proofs"
    using pr by (simp add: mapR_eq_Inr)
  then have targets: "map sp_target proofs = pc_sealed_heads (ver_claims u)"
    by (induction rule: list_all2_induct) (auto dest: prepare_proof_ok)
  have "\<forall>p\<in>set proofs. \<exists>s. prepare_proof C ps s = Inr p"
    using all2 by (fastforce simp: list_all2_conv_all_nth in_set_conv_nth)
  then have ok: "\<forall>p\<in>set proofs. sp_policy p = pp_id (policy_head C ps) \<and>
      proof_ok E (policy_room ps) (prior_seal ps (sh_author (sp_target p))) p"
    using prepare_proof_ok by (fastforce simp: prior_seal_def)
  have "wf_policy C u" using policy_record.verify_ok [OF assms(1) v] by simp
  then show ?thesis
    using own rev rest targets ok nf t by (simp add: token_for_def checked_add_one)
qed

lemma push_proofs_shape:
  assumes "push_proofs a page ps = Inr ps'" and "set page \<subseteq> E"
    and "\<forall>p\<in>set ps. proof_ok E room (prior (sh_author (sp_target p))) p \<and> sp_policy p = pol"
  shows "map sp_target ps' = map sp_target ps \<and>
    (\<forall>p\<in>set ps'. proof_ok E room (prior (sh_author (sp_target p))) p \<and> sp_policy p = pol)"
  using assms
proof (induction ps arbitrary: ps')
  case Nil
  then show ?case by simp
next
  case (Cons p ps)
  show ?case
  proof (cases "sh_author (sp_target p) = a")
    case True
    with Cons.prems(1) obtain q where q: "proof_push p page = Inr q" "ps' = q # ps" by auto
    have "proof_ok E room (prior (sh_author (sp_target p))) p" using Cons.prems(3) by simp
    from proof_push_ok [OF this _ q(1)] q(2) Cons.prems(2,3) show ?thesis by simp
  next
    case False
    with Cons.prems(1) obtain qs where qs: "push_proofs a page ps = Inr qs" "ps' = p # qs" by auto
    from Cons.IH [OF qs(1) Cons.prems(2)] qs(2) Cons.prems(3) show ?thesis by simp
  qed
qed

lemma push_seal_token:
  assumes "token_for C E ps t" and "set page \<subseteq> E" and "push_seal t a page = Inr t'"
  shows "token_for C E ps t'"
proof -
  from assms(3) obtain prs where prs: "push_proofs a page (pr_proofs t) = Inr prs"
    and t': "t' = t\<lparr>pr_proofs := prs\<rparr>"
    by (auto simp: push_seal_def)
  have "map sp_target prs = map sp_target (pr_proofs t) \<and>
    (\<forall>p\<in>set prs. proof_ok E (policy_room ps) (prior_seal ps (sh_author (sp_target p))) p
       \<and> sp_policy p = pp_id (policy_head C ps))"
    using assms(1) by (intro push_proofs_shape [OF prs assms(2)]) (auto simp: token_for_def)
  with assms(1) t' show ?thesis by (simp add: token_for_def)
qed

lemma push_seal_base: "push_seal t a page = Inr t' \<Longrightarrow> pr_base t' = pr_base t"
  by (auto simp: push_seal_def)

lemma proof_keys:
  "map sp_target ps = seals \<Longrightarrow> map (\<lambda>p. sh_author (sp_target p)) ps = map sh_author seals"
  by (auto simp: comp_def)

lemma proof_filter:
  "map sp_target ps = seals \<Longrightarrow>
   length (filter (\<lambda>p. Q (sh_author (sp_target p))) ps) = length (filter (\<lambda>s. Q (sh_author s)) seals)"
  by (induction ps arbitrary: seals) auto

lemma commit_update_state:
  assumes "commit_update C ps t = Inr (ps', closed)"
  shows "\<not> ps_forked ps \<and> pr_base t = policy_head C ps \<and> update_ready t \<and> closed = pr_closed t
    \<and> ps_genesis ps' = ps_genesis ps \<and> ps_current ps' = Some (pr_update t)
    \<and> ps_sealed ps' = fold (\<lambda>p. bt_insert (sh_author (sp_target p)) (ac_head (sp_chain p)))
                        (pr_proofs t) (ps_sealed ps)
    \<and> ps_observed ps' = bt_remove (pc_revision (ver_claims (pr_update t))) (ps_observed ps)
    \<and> ps_overflow ps' = ps_overflow ps \<and> \<not> ps_forked ps'"
  using assms by (auto simp: commit_update_def Let_def policy_head_def split: if_splits)

lemma commit_update_head:
  assumes "commit_update C ps t = Inr (ps', closed)"
  shows "policy_head C ps' =
    \<lparr>pp_revision = pc_revision (ver_claims (pr_update t)), pp_id = ver_id (pr_update t)\<rparr>"
  using commit_update_state [OF assms] by (simp add: policy_head_def)

text \<open>
  The owner seal of an author after a commit: unchanged if the update does not seal the
  author, otherwise the target, reached from the old seal by signed events the last of which
  names the policy being closed.
\<close>

lemma token_seal_cases:
  assumes "token_for C E ps t" and "policy_ok C ps" and "commit_update C ps t = Inr (ps', closed)"
  shows "a \<notin> set (map sh_author (pc_sealed_heads (ver_claims (pr_update t)))) \<Longrightarrow>
      sealed_head ps' a = sealed_head ps a"
    and "seal \<in> set (pc_sealed_heads (ver_claims (pr_update t))) \<Longrightarrow>
      \<exists>es. es \<noteq> [] \<and> set es \<subseteq> E \<and> ancestry (policy_room ps) (sh_author seal) (prior_seal ps (sh_author seal)) es
        \<and> sealed_head ps' (sh_author seal) = Some (event_head (last es))
        \<and> event_head (last es) = \<lparr>ah_sequence = sh_sequence seal, ah_event = sh_event seal\<rparr>
        \<and> ec_policy (ver_claims (last es)) = pp_id (policy_head C ps)"
proof -
  let ?key = "\<lambda>p. sh_author (sp_target p)" and ?val = "\<lambda>p. ac_head (sp_chain p)"
  let ?seals = "pc_sealed_heads (ver_claims (pr_update t))"
  note st = commit_update_state [OF assms(3)]
  have m: "bt_ok (ps_sealed ps)" using assms(2) by (simp add: policy_ok_def)
  have tg: "map sp_target (pr_proofs t) = ?seals" using assms(1) by (simp add: token_for_def)
  then have keys: "map ?key (pr_proofs t) = map sh_author ?seals" by (rule proof_keys)
  have "policy_check C (ver_claims (pr_update t)) = Inr ()"
    using assms(1) policy_record.verified_check [of C "pr_update t"]
    by (simp add: token_for_def policy_kind_def)
  then have dist: "distinct (map ?key (pr_proofs t))"
    by (simp add: keys policy_check_iff ascending_distinct)
  show "sealed_head ps' a = sealed_head ps a" if "a \<notin> set (map sh_author ?seals)"
  proof -
    have "a \<notin> ?key ` set (pr_proofs t)" using that keys by (metis list.set_map)
    with st m show ?thesis by (simp add: sealed_head_def bt_get_fold_insert_other)
  qed
  show "\<exists>es. es \<noteq> [] \<and> set es \<subseteq> E \<and> ancestry (policy_room ps) (sh_author seal) (prior_seal ps (sh_author seal)) es
      \<and> sealed_head ps' (sh_author seal) = Some (event_head (last es))
      \<and> event_head (last es) = \<lparr>ah_sequence = sh_sequence seal, ah_event = sh_event seal\<rparr>
      \<and> ec_policy (ver_claims (last es)) = pp_id (policy_head C ps)" if "seal \<in> set ?seals"
  proof -
    from that tg obtain p where p: "p \<in> set (pr_proofs t)" "sp_target p = seal"
      by (metis (no_types, lifting) imageE list.set_map)
    then have ok: "proof_ok E (policy_room ps) (prior_seal ps (sh_author seal)) p"
      and pol: "sp_policy p = pp_id (policy_head C ps)"
      using assms(1) by (auto simp: token_for_def)
    have "proof_complete p" using st p(1) by (auto simp: update_ready_def list_all_iff)
    from proof_complete_ancestry [OF ok this] p(2) pol obtain es where es: "es \<noteq> []" "set es \<subseteq> E"
      "ancestry (policy_room ps) (sh_author seal) (prior_seal ps (sh_author seal)) es"
      "ac_head (sp_chain p) = event_head (last es)"
      "event_head (last es) = \<lparr>ah_sequence = sh_sequence seal, ah_event = sh_event seal\<rparr>"
      "ec_policy (ver_claims (last es)) = pp_id (policy_head C ps)"
      by auto
    have "sealed_head ps' (sh_author seal) = Some (ac_head (sp_chain p))"
      using st bt_get_fold_insert [OF m dist p(1), of ?val] p(2) by (simp add: sealed_head_def)
    with es show ?thesis by auto
  qed
qed

lemma commit_update_ok:
  assumes "token_for C E ps t" and "policy_ok C ps" and "commit_update C ps t = Inr (ps', closed)"
  shows "policy_ok C ps'"
proof -
  let ?seals = "pc_sealed_heads (ver_claims (pr_update t))"
  let ?rev = "pc_revision (ver_claims (pr_update t))"
  note st = commit_update_state [OF assms(3)] and tk = assms(1)[unfolded token_for_def]
    and ok = assms(2)[unfolded policy_ok_def]
  have room: "policy_room ps' = policy_room ps" "policy_owner ps' = policy_owner ps"
    using st by (simp_all add: policy_room_def policy_owner_def)
  have keys: "map (\<lambda>p. sh_author (sp_target p)) (pr_proofs t) = map sh_author ?seals"
    using tk by (intro proof_keys) blast
  have chk: "policy_check C (ver_claims (pr_update t)) = Inr ()"
    using tk policy_record.verified_check [of C "pr_update t"] by (simp add: policy_kind_def)
  then have dist: "distinct (map (\<lambda>p. sh_author (sp_target p)) (pr_proofs t))"
    by (simp add: keys policy_check_iff ascending_distinct)
  have fl: "length (filter (\<lambda>p. \<not> bt_contains m (sh_author (sp_target p))) (pr_proofs t)) =
      length (filter (\<lambda>s. \<not> bt_contains m (sh_author s)) ?seals)" for m :: "(array32, author_head) btree_map"
    using tk by (intro proof_filter) blast
  have "length (ps_sealed ps') \<le> MAX_SEALED_AUTHORS"
    using st ok tk length_fold_insert [OF _ dist, of "ps_sealed ps"]
    by (simp add: fl unsealed_count_def)
  moreover have "bt_ok (ps_sealed ps')" using st ok by (simp add: bt_ok_fold_insert)
  moreover have "bt_ok (ps_observed ps')" "length (ps_observed ps') \<le> MAX_OBSERVED_POLICIES"
    using st ok btree.length_remove_le [of "ps_observed ps" ?rev] by auto
  moreover have "pp_revision (policy_head C ps') < r" if "bt_get (ps_observed ps') r = Some i" for r i
  proof -
    from that st ok have "r \<noteq> ?rev" "bt_get (ps_observed ps) r = Some i" by (auto split: if_splits)
    with ok have "unat (pp_revision (policy_head C ps)) < unat r" by (simp add: word_less_nat_alt)
    with tk \<open>r \<noteq> ?rev\<close> show ?thesis
      using commit_update_head [OF assms(3)] by (auto simp: word_less_nat_alt word_unat_eq_iff)
  qed
  moreover have "0 < ah_sequence h" if "bt_get (ps_sealed ps') a = Some h" for a h
  proof (cases "a \<in> set (map sh_author ?seals)")
    case True
    then obtain s where s: "s \<in> set ?seals" "sh_author s = a" by auto
    with token_seal_cases(2) [OF assms s(1)] that have "ah_sequence h = sh_sequence s"
      by (auto simp: sealed_head_def)
    with chk s(1) show ?thesis by (auto simp: policy_check_iff word_neq_0_conv)
  next
    case False
    with token_seal_cases(1) [OF assms False] that ok show ?thesis by (auto simp: sealed_head_def)
  qed
  moreover have "check_owner ps' p = check_owner ps p" for p
    using room by (simp add: check_owner_def)
  ultimately show ?thesis
    using st ok tk by (simp add: policy_ok_def)
qed

end
