(* ===== verification/Direct_History.thy ===== *)
theory Direct_History
  imports Direct_State
begin

text \<open>
  \<open>crates/vhalla-direct-room/src/history.rs\<close>: deciding what a closed policy demands of a
  historical event, and the constant-memory verifier that walks the author's signed events
  from the first one to the owner's seal. The verifier's page loop is an instance of
  \<open>chain_pages\<close>; together with the acceptance condition of one event this gives an exact
  characterisation of the histories for which \<open>finish\<close> returns the event.
\<close>

record sealed_history_verifier =
  hv_room :: room_id
  hv_policy :: policy_id
  hv_closing :: policy_id
  hv_seal :: seal_head
  hv_candidate :: verified_event
  hv_head :: author_head
  hv_encountered :: bool
  hv_terminal :: "policy_id option"

datatype history_requirement = ContinuityOnly | Verify sealed_history_verifier

record verified_historical_event =
  he_event :: verified_event
  he_closing :: policy_id

definition history_requirement ::
    "closed_policy \<Rightarrow> verified_event \<Rightarrow> dr_error + history_requirement" where
  "history_requirement cp candidate =
     (let claims = ver_claims candidate in
      if ec_room claims \<noteq> cp_room cp then Inl Scope
      else if ec_policy claims \<noteq> cp_policy cp then Inl Policy
      else if binary_search (cp_writers cp) (ec_author claims) = None then Inr ContinuityOnly
      else case binary_search (map sh_author (cp_seals cp)) (ec_author claims) of
        None \<Rightarrow> Inr ContinuityOnly
      | Some index \<Rightarrow>
          let seal = cp_seals cp ! index in
          if ec_sequence claims > sh_sequence seal then Inr ContinuityOnly
          else Inr (Verify \<lparr>hv_room = cp_room cp, hv_policy = cp_policy cp,
                            hv_closing = cp_closing cp, hv_seal = seal, hv_candidate = candidate,
                            hv_head = EMPTY, hv_encountered = False, hv_terminal = None\<rparr>))"

definition history_step ::
    "sealed_history_verifier \<Rightarrow> verified_event \<Rightarrow> dr_error + sealed_history_verifier" where
  "history_step v event =
     (let claims = ver_claims event in
      if ec_room claims \<noteq> hv_room v then Inl Scope
      else if ec_author claims \<noteq> sh_author (hv_seal v) then Inl Author
      else if ec_sequence claims > sh_sequence (hv_seal v) then Inl Bounds
      else bindR (ok_or Exhausted (checked_add (ah_sequence (hv_head v)) 1)) (\<lambda>nxt.
        if ec_sequence claims \<noteq> nxt then Inl Gap
        else if ec_previous claims \<noteq> ah_event (hv_head v) then Inl Fork
        else if ec_sequence claims = ec_sequence (ver_claims (hv_candidate v))
                \<and> ver_id event \<noteq> ver_id (hv_candidate v) then Inl Fork
        else
          let v1 = (if ec_sequence claims = ec_sequence (ver_claims (hv_candidate v))
                    then v\<lparr>hv_encountered := True\<rparr> else v);
              v2 = v1\<lparr>hv_head := event_head event\<rparr>
          in if ec_sequence claims = sh_sequence (hv_seal v) then
               (if ver_id event \<noteq> sh_event (hv_seal v) then Inl Fork
                else if ec_policy claims \<noteq> hv_policy v then Inl Policy
                else Inr (v2\<lparr>hv_terminal := Some (ec_policy claims)\<rparr>))
             else Inr v2))"

definition history_push ::
    "sealed_history_verifier \<Rightarrow> verified_event list \<Rightarrow> dr_error + sealed_history_verifier" where
  "history_push v page =
     (if page = [] \<or> length page > MAX_CHAIN_PAGE then Inl Bounds
      else foldR history_step v page)"

definition history_finish ::
    "sealed_history_verifier \<Rightarrow> dr_error + verified_historical_event" where
  "history_finish v =
     (if \<not> hv_encountered v
         \<or> ah_sequence (hv_head v) \<noteq> sh_sequence (hv_seal v)
         \<or> ah_event (hv_head v) \<noteq> sh_event (hv_seal v)
         \<or> hv_terminal v \<noteq> Some (hv_policy v)
      then Inl Gap
      else Inr \<lparr>he_event = hv_candidate v, he_closing = hv_closing v\<rparr>)"

section \<open>What one event must satisfy\<close>

text \<open>The verifier's conditions on one event beyond extending the position.\<close>

definition admissible :: "sealed_history_verifier \<Rightarrow> verified_event \<Rightarrow> bool" where
  "admissible v e \<longleftrightarrow>
     ec_sequence (ver_claims e) \<le> sh_sequence (hv_seal v) \<and>
     (ec_sequence (ver_claims e) = ec_sequence (ver_claims (hv_candidate v)) \<longrightarrow>
        ver_id e = ver_id (hv_candidate v)) \<and>
     (ec_sequence (ver_claims e) = sh_sequence (hv_seal v) \<longrightarrow>
        ver_id e = sh_event (hv_seal v) \<and> ec_policy (ver_claims e) = hv_policy v)"

definition walk :: "sealed_history_verifier \<Rightarrow> verified_event \<Rightarrow> sealed_history_verifier" where
  "walk v e = v\<lparr>hv_head := event_head e,
     hv_encountered := hv_encountered v
       \<or> ec_sequence (ver_claims e) = ec_sequence (ver_claims (hv_candidate v)),
     hv_terminal := (if ec_sequence (ver_claims e) = sh_sequence (hv_seal v)
                     then Some (hv_policy v) else hv_terminal v)\<rparr>"

lemma history_step_iff:
  "history_step v e = Inr v' \<longleftrightarrow>
   extends (hv_room v) (sh_author (hv_seal v)) (hv_head v) e \<and> admissible v e \<and> v' = walk v e"
  by (auto simp: history_step_def extends_def admissible_def walk_def Let_def checked_add_one
      split: if_splits)

interpretation history_pages:
  chain_pages history_step hv_head hv_room "\<lambda>v. sh_author (hv_seal v)"
  by unfold_locales (auto simp: history_step_iff walk_def)

lemma walk_static [simp]:
  "hv_room (walk v e) = hv_room v" "hv_seal (walk v e) = hv_seal v"
  "hv_policy (walk v e) = hv_policy v" "hv_candidate (walk v e) = hv_candidate v"
  "hv_closing (walk v e) = hv_closing v" "hv_head (walk v e) = event_head e"
  by (simp_all add: walk_def)

lemma admissible_walk [simp]: "admissible (walk v e) = admissible v"
  by (rule ext) (simp add: admissible_def)

lemma history_loop_iff:
  "foldR history_step v es = Inr v' \<longleftrightarrow>
   ancestry (hv_room v) (sh_author (hv_seal v)) (hv_head v) es \<and> (\<forall>e\<in>set es. admissible v e)
   \<and> v' = foldl walk v es"
  by (induction es arbitrary: v) (auto simp: history_step_iff)

lemma foldl_walk_static:
  "hv_seal (foldl walk v es) = hv_seal v" "hv_policy (foldl walk v es) = hv_policy v"
  "hv_candidate (foldl walk v es) = hv_candidate v" "hv_closing (foldl walk v es) = hv_closing v"
  "hv_head (foldl walk v es) = chain_end (hv_head v) es"
  by (induction es arbitrary: v) simp_all

lemma foldl_walk_encountered:
  "hv_encountered (foldl walk v es) \<longleftrightarrow> hv_encountered v \<or>
   (\<exists>e\<in>set es. ec_sequence (ver_claims e) = ec_sequence (ver_claims (hv_candidate v)))"
  by (induction es arbitrary: v) (auto simp: walk_def)

lemma foldl_walk_terminal:
  "hv_terminal (foldl walk v es) =
   (if \<exists>e\<in>set es. ec_sequence (ver_claims e) = sh_sequence (hv_seal v)
    then Some (hv_policy v) else hv_terminal v)"
  by (induction es arbitrary: v) (auto simp: walk_def)

lemma history_pages_concat:
  "\<forall>p\<in>set pages. p \<noteq> [] \<and> length p \<le> MAX_CHAIN_PAGE \<Longrightarrow>
   foldR history_push v pages = foldR history_step v (concat pages)"
proof (induction pages arbitrary: v)
  case Nil
  then show ?case by simp
next
  case (Cons p pages)
  then have "(\<lambda>v'. foldR history_push v' pages) = (\<lambda>v'. foldR history_step v' (concat pages))"
    by (intro ext Cons.IH) simp
  with Cons.prems show ?case by (simp add: history_push_def [of v p] foldR_append)
qed

section \<open>The exact histories that are accepted\<close>

text \<open>
  The owner-endorsed history of a sealed author under a policy, as the specification sees
  it: all signed events from the first to the seal, the seal naming the policy, and the
  candidate in its place.
\<close>

definition endorsed_history ::
    "sealed_history_verifier \<Rightarrow> verified_event list \<Rightarrow> bool" where
  "endorsed_history v es \<longleftrightarrow>
     ancestry (hv_room v) (sh_author (hv_seal v)) EMPTY es \<and>
     length es = unat (sh_sequence (hv_seal v)) \<and> es \<noteq> [] \<and>
     ver_id (last es) = sh_event (hv_seal v) \<and> ec_policy (ver_claims (last es)) = hv_policy v \<and>
     (let i = unat (ec_sequence (ver_claims (hv_candidate v))) in
        0 < i \<and> i \<le> length es \<and> ver_id (es ! (i - 1)) = ver_id (hv_candidate v))"

lemma ancestry_EMPTY_nth:
  "ancestry room author EMPTY es \<Longrightarrow> i < length es \<Longrightarrow>
   unat (ec_sequence (ver_claims (es ! i))) = Suc i"
  using ancestry_nth_sequence [of room author EMPTY es i] by (simp add: EMPTY_def)

lemma ancestry_EMPTY_index:
  "ancestry room author EMPTY es \<Longrightarrow> e \<in> set es \<Longrightarrow>
   0 < unat (ec_sequence (ver_claims e)) \<and> unat (ec_sequence (ver_claims e)) \<le> length es
   \<and> es ! (unat (ec_sequence (ver_claims e)) - 1) = e"
  by (metis Suc_leI diff_Suc_1 ancestry_EMPTY_nth in_set_conv_nth zero_less_Suc)

lemma ancestry_EMPTY_has:
  "ancestry room author EMPTY es \<Longrightarrow> 0 < unat n \<Longrightarrow> unat n \<le> length es \<Longrightarrow>
   es ! (unat n - 1) \<in> set es \<and> ec_sequence (ver_claims (es ! (unat n - 1))) = n"
  using ancestry_EMPTY_nth [of room author es "unat n - 1"] by (simp add: word_unat_eq_iff)

lemma ancestry_EMPTY_last:
  "ancestry room author EMPTY es \<Longrightarrow> es \<noteq> [] \<Longrightarrow> unat (ec_sequence (ver_claims (last es))) = length es"
  using ancestry_EMPTY_nth [of room author es "length es - 1"] by (simp add: last_conv_nth)

lemma endorsed_admissible:
  assumes "endorsed_history v es"
  shows "\<forall>e\<in>set es. admissible v e"
proof
  fix e assume "e \<in> set es"
  note hist = assms[unfolded endorsed_history_def Let_def]
  have i: "0 < unat (ec_sequence (ver_claims e))" "unat (ec_sequence (ver_claims e)) \<le> length es"
    "es ! (unat (ec_sequence (ver_claims e)) - 1) = e"
    using ancestry_EMPTY_index [OF hist [THEN conjunct1] \<open>e \<in> set es\<close>] by auto
  have "e = last es" if "ec_sequence (ver_claims e) = sh_sequence (hv_seal v)"
    using that i hist by (simp add: last_conv_nth)
  with i hist show "admissible v e"
    by (auto simp: admissible_def word_le_nat_alt)
qed

lemma history_accepts_iff:
  assumes start: "hv_head v = EMPTY" "\<not> hv_encountered v" "hv_terminal v = None"
    and cand: "0 < ec_sequence (ver_claims (hv_candidate v))"
    and seal: "ec_sequence (ver_claims (hv_candidate v)) \<le> sh_sequence (hv_seal v)"
  shows "(\<exists>v'. foldR history_step v es = Inr v' \<and> history_finish v' = Inr r) \<longleftrightarrow>
    endorsed_history v es \<and> r = \<lparr>he_event = hv_candidate v, he_closing = hv_closing v\<rparr>"
proof
  assume "\<exists>v'. foldR history_step v es = Inr v' \<and> history_finish v' = Inr r"
  then have loop: "ancestry (hv_room v) (sh_author (hv_seal v)) EMPTY es"
    "\<forall>e\<in>set es. admissible v e" and fin: "history_finish (foldl walk v es) = Inr r"
    using start by (auto simp: history_loop_iff)
  from fin have enc: "\<exists>e\<in>set es. ec_sequence (ver_claims e) = ec_sequence (ver_claims (hv_candidate v))"
    and stop: "ah_sequence (chain_end EMPTY es) = sh_sequence (hv_seal v)"
    and r: "r = \<lparr>he_event = hv_candidate v, he_closing = hv_closing v\<rparr>"
    using start
    by (auto simp: history_finish_def foldl_walk_static foldl_walk_encountered split: if_splits)
  from enc have ne: "es \<noteq> []" by auto
  have len: "length es = unat (sh_sequence (hv_seal v))"
    using ancestry_sequence [OF loop(1)] stop by (simp add: EMPTY_def)
  have last: "admissible v (last es)" using loop(2) ne by simp
  obtain e where e: "e \<in> set es" "ec_sequence (ver_claims e) = ec_sequence (ver_claims (hv_candidate v))"
    using enc by blast
  then have "ver_id e = ver_id (hv_candidate v)" using loop(2) by (auto simp: admissible_def)
  with ancestry_EMPTY_index [OF loop(1) e(1)] e(2) loop(1) len ne last
    ancestry_EMPTY_last [OF loop(1) ne]
  show "endorsed_history v es \<and> r = \<lparr>he_event = hv_candidate v, he_closing = hv_closing v\<rparr>"
    by (auto simp: endorsed_history_def admissible_def word_unat_eq_iff r)
next
  assume "endorsed_history v es \<and> r = \<lparr>he_event = hv_candidate v, he_closing = hv_closing v\<rparr>"
  then have hist: "endorsed_history v es"
    and r: "r = \<lparr>he_event = hv_candidate v, he_closing = hv_closing v\<rparr>" by auto
  note hist' = hist[unfolded endorsed_history_def Let_def]
  have loop: "foldR history_step v es = Inr (foldl walk v es)"
    using hist' endorsed_admissible [OF hist] start by (simp add: history_loop_iff)
  have ce: "chain_end EMPTY es = event_head (last es)" using hist' by (simp add: chain_end_def)
  have "unat (ec_sequence (ver_claims (last es))) = length es"
    using hist' ancestry_EMPTY_last by blast
  then have seq: "ec_sequence (ver_claims (last es)) = sh_sequence (hv_seal v)"
    using hist' by (simp add: word_unat_eq_iff)
  then have trm: "\<exists>e\<in>set es. ec_sequence (ver_claims e) = sh_sequence (hv_seal v)"
    using hist' by (meson last_in_set)
  have "\<exists>e\<in>set es. ec_sequence (ver_claims e) = ec_sequence (ver_claims (hv_candidate v))"
    using hist' ancestry_EMPTY_has [of "hv_room v" "sh_author (hv_seal v)" es
        "ec_sequence (ver_claims (hv_candidate v))"] by blast
  then have "history_finish (foldl walk v es) = Inr r"
    using start hist' seq trm ce r
    by (simp add: history_finish_def foldl_walk_static foldl_walk_encountered foldl_walk_terminal)
  with loop show "\<exists>v'. foldR history_step v es = Inr v' \<and> history_finish v' = Inr r" by blast
qed

end
