(* ===== verification/Direct_Machine.thy ===== *)
theory Direct_Machine
  imports Direct_History
begin

text \<open>
  The public-room replica as a state machine: one policy replica, one author chain, and every
  prepared token a controller may still hold. One rule per public method of \<open>PolicyState\<close>,
  \<open>PreparedPolicy\<close>, \<open>AuthorChain\<close> and \<open>AnchorReconciliation\<close> that changes one of them. Tokens can
  be committed in any later state, in any order, so the rules cover every interleaving of
  preparation, proof and commit. Two ghost logs record the events whose continuity was
  committed and those admitted to the feed, and a ghost set every event a caller handed over:
  the ancestries that justify seals and anchors are lists of its members.

  A token is consumed by its commit in the source (it is moved); here it may also be kept
  and committed later, so the step relation has every behaviour of the source and more.

  Values of the verified types enter only through their invariants (\<open>wf_event\<close>, \<open>wf_policy\<close>,
  \<open>wf_signed\<close>): the source has no other constructors.
\<close>

record room_sys =
  rs_policy :: policy_state
  rs_chain :: author_chain
  rs_updates :: "prepared_policy set"
  rs_events :: "prepared_event set"
  rs_steps :: "prepared_continuity set"
  rs_anchors :: "anchor_reconciliation set"
  rs_seen :: "verified_event set"
  rs_log :: "verified_event list"
  rs_feed :: "(policy_position \<times> verified_event) list"

definition room_init :: "pinned_genesis \<Rightarrow> author_chain \<Rightarrow> room_sys" where
  "room_init g c = \<lparr>rs_policy = policy_new g, rs_chain = c, rs_updates = {}, rs_events = {},
     rs_steps = {}, rs_anchors = {}, rs_seen = {}, rs_log = [], rs_feed = []\<rparr>"

inductive room_step :: "crypto \<Rightarrow> room_sys \<Rightarrow> room_sys \<Rightarrow> bool" for C :: crypto where
  observe: "wf_policy C u \<Longrightarrow>
     room_step C s (s\<lparr>rs_policy := fst (observe_after_persist C (rs_policy s) u)\<rparr>)"
| observe_retained: "wf_policy C r \<Longrightarrow> wf_signed C policy_kind (\<lambda>_. True) sp \<Longrightarrow>
     room_step C s (s\<lparr>rs_policy := fst (observe_retained_after_persist C (rs_policy s) r sp)\<rparr>)"
| prepare_policy: "wf_signed C policy_kind (\<lambda>_. True) sp \<Longrightarrow>
     prepare_update C (rs_policy s) sp = Inr t \<Longrightarrow>
     room_step C s (s\<lparr>rs_updates := insert t (rs_updates s)\<rparr>)"
| prove_seal: "t \<in> rs_updates s \<Longrightarrow> \<forall>e\<in>set page. wf_event C e \<Longrightarrow> push_seal t a page = Inr t' \<Longrightarrow>
     room_step C s (s\<lparr>rs_updates := insert t' (rs_updates s), rs_seen := rs_seen s \<union> set page\<rparr>)"
| commit_policy: "t \<in> rs_updates s \<Longrightarrow> commit_update C (rs_policy s) t = Inr (ps', closed) \<Longrightarrow>
     room_step C s (s\<lparr>rs_policy := ps', rs_updates := rs_updates s - {t}\<rparr>)"
| prepare_event: "wf_event C e \<Longrightarrow> prepare_next C (rs_chain s) e (rs_policy s) = Inr t \<Longrightarrow>
     room_step C s (s\<lparr>rs_events := insert t (rs_events s), rs_seen := insert e (rs_seen s)\<rparr>)"
| commit_fresh: "t \<in> rs_events s \<Longrightarrow> commit_event C (rs_chain s) t (rs_policy s) = Inr c' \<Longrightarrow>
     room_step C s (s\<lparr>rs_chain := c', rs_events := rs_events s - {t},
       rs_log := rs_log s @ [pt_event (pe_step t)],
       rs_feed := rs_feed s @ [(policy_head C (rs_policy s), pt_event (pe_step t))]\<rparr>)"
| prepare_step: "wf_event C e \<Longrightarrow> prepare_continuity (rs_chain s) e (rs_policy s) = Inr t \<Longrightarrow>
     room_step C s (s\<lparr>rs_steps := insert t (rs_steps s), rs_seen := insert e (rs_seen s)\<rparr>)"
| commit_step: "t \<in> rs_steps s \<Longrightarrow> commit_continuity (rs_chain s) t (rs_policy s) = Inr c' \<Longrightarrow>
     room_step C s (s\<lparr>rs_chain := c', rs_steps := rs_steps s - {t},
       rs_log := rs_log s @ [pt_event t]\<rparr>)"
| prepare_anchor: "prepare_anchor_reconciliation C (rs_chain s) (rs_policy s) = Inr a \<Longrightarrow>
     room_step C s (s\<lparr>rs_anchors := insert a (rs_anchors s)\<rparr>)"
| prove_anchor: "a \<in> rs_anchors s \<Longrightarrow> \<forall>e\<in>set page. wf_event C e \<Longrightarrow> anchor_push a page = Inr a' \<Longrightarrow>
     room_step C s (s\<lparr>rs_anchors := insert a' (rs_anchors s), rs_seen := rs_seen s \<union> set page\<rparr>)"
| install_anchor: "a \<in> rs_anchors s \<Longrightarrow> reconcile_anchor C (rs_chain s) a (rs_policy s) = Inr c' \<Longrightarrow>
     room_step C s (s\<lparr>rs_chain := c', rs_anchors := rs_anchors s - {a}\<rparr>)"

inductive room_reach :: "crypto \<Rightarrow> pinned_genesis \<Rightarrow> array32 \<Rightarrow> room_sys \<Rightarrow> bool"
  for C :: crypto and g :: pinned_genesis and author :: array32 where
  start: "wf_genesis C (pinned g) \<Longrightarrow> chain_new C (pin_id g) author = Inr c \<Longrightarrow>
     room_reach C g author (room_init g c)"
| step: "room_reach C g author s \<Longrightarrow> room_step C s s' \<Longrightarrow> room_reach C g author s'"

section \<open>The invariant\<close>

definition update_token_ok :: "crypto \<Rightarrow> verified_event set \<Rightarrow> policy_state \<Rightarrow> prepared_policy \<Rightarrow> bool" where
  "update_token_ok C E ps t \<longleftrightarrow>
     pp_revision (pr_base t) < pp_revision (policy_head C ps) \<or> token_for C E ps t"

definition step_token_ok :: "verified_event set \<Rightarrow> prepared_continuity \<Rightarrow> bool" where
  "step_token_ok E t \<longleftrightarrow> pt_event t \<in> E \<and> extends (pt_room t) (pt_author t) (pt_base t) (pt_event t)"

definition event_token_ok :: "crypto \<Rightarrow> verified_event set \<Rightarrow> policy_state \<Rightarrow> prepared_event \<Rightarrow> bool" where
  "event_token_ok C E ps t \<longleftrightarrow>
     step_token_ok E (pe_step t) \<and>
     (pp_revision (pe_policy t) < pp_revision (policy_head C ps) \<or>
      pe_policy t = policy_head C ps \<and> allows ps (pt_author (pe_step t))
      \<and> ec_policy (ver_claims (pt_event (pe_step t))) = pp_id (pe_policy t))"

definition descends :: "verified_event set \<Rightarrow> room_id \<Rightarrow> array32 \<Rightarrow> author_head \<Rightarrow> author_head \<Rightarrow> bool" where
  "descends E room author h h' \<longleftrightarrow>
     (\<exists>es. set es \<subseteq> E \<and> ancestry room author h es \<and> chain_end h es = h')"

definition anchor_token_ok :: "verified_event set \<Rightarrow> anchor_reconciliation \<Rightarrow> bool" where
  "anchor_token_ok E a \<longleftrightarrow> descends E (an_room a) (an_author a) (an_seal a) (an_progress a)"

definition chain_ok :: "verified_event set \<Rightarrow> author_chain \<Rightarrow> verified_event list \<Rightarrow> bool" where
  "chain_ok E c log \<longleftrightarrow>
     set log \<subseteq> E \<and> ancestry (ac_room c) (ac_author c) EMPTY log
     \<and> ac_head c = chain_end EMPTY log
     \<and> (\<forall>seal. ac_checked_seal c = Some seal \<longrightarrow> descends E (ac_room c) (ac_author c) seal (ac_head c))"

definition room_inv :: "crypto \<Rightarrow> pinned_genesis \<Rightarrow> array32 \<Rightarrow> room_sys \<Rightarrow> bool" where
  "room_inv C g author s \<longleftrightarrow>
     policy_ok C (rs_policy s) \<and> ps_genesis (rs_policy s) = g \<and>
     ac_room (rs_chain s) = pin_id g \<and> ac_author (rs_chain s) = author \<and>
     (\<forall>e\<in>rs_seen s. wf_event C e) \<and>
     chain_ok (rs_seen s) (rs_chain s) (rs_log s) \<and>
     (\<forall>t\<in>rs_updates s. update_token_ok C (rs_seen s) (rs_policy s) t) \<and>
     (\<forall>t\<in>rs_events s. event_token_ok C (rs_seen s) (rs_policy s) t) \<and>
     (\<forall>t\<in>rs_steps s. step_token_ok (rs_seen s) t) \<and>
     (\<forall>a\<in>rs_anchors s. anchor_token_ok (rs_seen s) a) \<and>
     (\<forall>x\<in>set (rs_feed s). snd x \<in> set (rs_log s) \<and> ec_policy (ver_claims (snd x)) = pp_id (fst x))"

text \<open>Handing over more events keeps everything that is justified by the events already seen.\<close>

lemma descends_mono: "descends E room author h h' \<Longrightarrow> E \<subseteq> F \<Longrightarrow> descends F room author h h'"
  unfolding descends_def by (elim exE conjE, intro exI conjI) auto

lemma seen_mono:
  assumes "E \<subseteq> F"
  shows "update_token_ok C E ps u \<Longrightarrow> update_token_ok C F ps u"
    and "event_token_ok C E ps e \<Longrightarrow> event_token_ok C F ps e"
    and "step_token_ok E t \<Longrightarrow> step_token_ok F t"
    and "anchor_token_ok E a \<Longrightarrow> anchor_token_ok F a"
    and "chain_ok E c log \<Longrightarrow> chain_ok F c log"
  using assms token_for_mono [OF _ assms] descends_mono [OF _ assms]
  by (auto simp: update_token_ok_def event_token_ok_def step_token_ok_def
      anchor_token_ok_def chain_ok_def)

lemma room_inv_see:
  assumes "room_inv C g author s" and "\<forall>e\<in>X. wf_event C e"
  shows "room_inv C g author (s\<lparr>rs_seen := rs_seen s \<union> X\<rparr>)"
  using assms seen_mono [of "rs_seen s" "rs_seen s \<union> X"] by (auto simp: room_inv_def)

subsection \<open>Author-chain operations\<close>

lemma descends_refl [simp]: "descends E room author h h"
  unfolding descends_def by (intro exI [of _ "[]"]) simp

lemma descends_snoc:
  assumes "descends E room author h h'" and "e \<in> E" and "extends room author h' e"
  shows "descends E room author h (event_head e)"
proof -
  from assms(1) obtain es where "set es \<subseteq> E" "ancestry room author h es" "chain_end h es = h'"
    by (auto simp: descends_def)
  with assms(2,3) show ?thesis
    unfolding descends_def by (intro exI [of _ "es @ [e]"]) auto
qed

lemma check_fresh_anchor_iff:
  "check_fresh_anchor c ps = Inr u \<longleftrightarrow>
   (\<forall>seal. sealed_head ps (ac_author c) = Some seal \<longrightarrow>
      ac_head c = seal \<or> ah_sequence seal < ah_sequence (ac_head c) \<and> ac_checked_seal c = Some seal)"
  by (auto simp: check_fresh_anchor_def split: option.splits)

lemma checked_anchor_descends:
  assumes "chain_ok E c log" and "e \<in> E" and "extends (ac_room c) (ac_author c) (ac_head c) e"
    and "checked_anchor_after c e ps = Inr (Some seal)"
  shows "sealed_head ps (ac_author c) = Some seal
    \<and> descends E (ac_room c) (ac_author c) seal (event_head e)"
proof -
  from assms(4) have sealed: "sealed_head ps (ac_author c) = Some seal"
    by (auto simp: checked_anchor_after_def split: option.splits if_splits)
  show ?thesis
  proof (cases "ah_sequence (ac_head c) < ah_sequence seal")
    case True
    with assms(4) sealed have "event_head e = seal"
      by (auto simp: checked_anchor_after_def event_head_def split: if_splits)
    with sealed show ?thesis by simp
  next
    case False
    with assms(4) sealed have "check_fresh_anchor c ps = Inr ()"
      by (auto simp: checked_anchor_after_def split: if_splits)
    with sealed assms(1) have "descends E (ac_room c) (ac_author c) seal (ac_head c)"
      by (auto simp: check_fresh_anchor_iff chain_ok_def)
    with sealed assms(2,3) show ?thesis by (auto intro: descends_snoc)
  qed
qed

lemma commit_continuity_ok:
  assumes "chain_ok E c log" and "step_token_ok E t" and "commit_continuity c t ps = Inr c'"
  shows "chain_ok E c' (log @ [pt_event t]) \<and> ac_room c' = ac_room c \<and> ac_author c' = ac_author c
    \<and> ac_head c' = event_head (pt_event t) \<and> extends (ac_room c) (ac_author c) (ac_head c) (pt_event t)"
proof -
  from assms(3) obtain ck where ck: "checked_anchor_after c (pt_event t) ps = Inr ck"
    and c': "c' = c\<lparr>ac_head := event_head (pt_event t), ac_checked_seal := ck\<rparr>"
    and tk: "pt_room t = ac_room c" "pt_author t = ac_author c" "pt_base t = ac_head c"
    by (auto simp: commit_continuity_def split: if_splits)
  with assms(2) have e: "pt_event t \<in> E" "extends (ac_room c) (ac_author c) (ac_head c) (pt_event t)"
    by (auto simp: step_token_ok_def)
  have "descends E (ac_room c) (ac_author c) seal (event_head (pt_event t))" if "ck = Some seal" for seal
    using checked_anchor_descends [OF assms(1) e] ck that by blast
  with e c' assms(1) show ?thesis by (auto simp: chain_ok_def)
qed

lemma commit_event_state:
  "commit_event C c t ps = Inr c' \<longleftrightarrow>
   fresh_admission ps = Inr () \<and> policy_room ps = ac_room c \<and> pe_policy t = policy_head C ps
   \<and> check_fresh_anchor c ps = Inr () \<and> commit_continuity c (pe_step t) ps = Inr c'"
  by (auto simp: commit_event_def)

lemma reconcile_anchor_ok:
  assumes "chain_ok E c log" and "anchor_token_ok E a" and "reconcile_anchor C c a ps = Inr c'"
  shows "chain_ok E c' log \<and> ac_room c' = ac_room c \<and> ac_author c' = ac_author c \<and> ac_head c' = ac_head c"
  using assms
  by (fastforce simp: reconcile_anchor_def chain_ok_def anchor_token_ok_def descends_def anchor_ready_def
      split: if_splits)

lemma anchor_push_ok:
  assumes "anchor_token_ok E a" and "set page \<subseteq> E" and "anchor_push a page = Inr a'"
  shows "anchor_token_ok E a'"
proof -
  from assms(3) obtain c where c: "foldR (anchor_step (an_target a))
      \<lparr>ac_room = an_room a, ac_author = an_author a, ac_head = an_progress a, ac_checked_seal = None\<rparr>
      page = Inr c" and a': "a' = a\<lparr>an_progress := ac_head c\<rparr>"
    by (auto simp: anchor_push_def split: if_splits)
  from assms(1) obtain es where es: "set es \<subseteq> E"
    "ancestry (an_room a) (an_author a) (an_seal a) es" "an_progress a = chain_end (an_seal a) es"
    by (auto simp: anchor_token_ok_def descends_def)
  with anchor_pages.loop_ancestry [OF c] assms(2) a' show ?thesis
    unfolding anchor_token_ok_def descends_def by (intro exI [of _ "es @ page"]) auto
qed

subsection \<open>Policy operations and outstanding tokens\<close>

text \<open>Steps that keep genesis, current policy and seals keep every token's status.\<close>

lemma tokens_frame:
  assumes "ps_genesis ps' = ps_genesis ps" "ps_current ps' = ps_current ps" "ps_sealed ps' = ps_sealed ps"
  shows "update_token_ok C E ps t \<Longrightarrow> update_token_ok C E ps' t"
    and "event_token_ok C E ps e \<Longrightarrow> event_token_ok C E ps' e"
  using head_cong [OF assms(1,2)] token_for_cong [OF _ assms]
  by (auto simp: update_token_ok_def event_token_ok_def)

lemma committed_token_for:
  assumes "update_token_ok C E ps t" and "commit_update C ps t = Inr (ps', closed)"
  shows "token_for C E ps t"
  using assms commit_update_state [OF assms(2)] by (auto simp: update_token_ok_def)

lemma commit_update_revision:
  assumes "token_for C E ps t" and "commit_update C ps t = Inr (ps', closed)"
  shows "unat (pp_revision (policy_head C ps')) = Suc (unat (pp_revision (policy_head C ps)))"
  using assms commit_update_head [OF assms(2)] by (simp add: token_for_def)

text \<open>A commit advances the revision, so every other outstanding token becomes stale.\<close>

lemma tokens_after_commit:
  assumes "unat (pp_revision (policy_head C ps')) = Suc (unat (pp_revision (policy_head C ps)))"
  shows "update_token_ok C E ps t \<Longrightarrow> update_token_ok C E ps' t"
    and "event_token_ok C E ps e \<Longrightarrow> event_token_ok C E ps' e"
  using assms by (auto simp: update_token_ok_def event_token_ok_def token_for_def word_less_nat_alt)

lemma prepare_next_token:
  assumes "e \<in> E" and "prepare_next C c e ps = Inr t"
  shows "event_token_ok C E ps t"
  using assms
  by (auto simp: prepare_next_def authoring_head_def event_token_ok_def step_token_ok_def check_next_iff)

lemma prepare_continuity_token:
  assumes "e \<in> E" and "prepare_continuity c e ps = Inr t"
  shows "step_token_ok E t"
  using assms by (auto simp: prepare_continuity_def step_token_ok_def check_next_iff)

lemma prepare_anchor_token:
  assumes "prepare_anchor_reconciliation C c ps = Inr a"
  shows "anchor_token_ok E a"
  using assms
  by (auto simp: prepare_anchor_reconciliation_def anchor_token_ok_def)

subsection \<open>Every step keeps the invariant\<close>

lemma room_inv_init:
  assumes "wf_genesis C (pinned g)" and "chain_new C (pin_id g) author = Inr c"
  shows "room_inv C g author (room_init g c)"
proof -
  from assms(2) have "c = \<lparr>ac_room = pin_id g, ac_author = author, ac_head = EMPTY, ac_checked_seal = None\<rparr>"
    by (auto simp: chain_new_def)
  then show ?thesis
    using policy_new_ok [OF assms(1)]
    by (simp add: room_inv_def room_init_def chain_ok_def) (simp add: policy_new_def)
qed

lemma room_inv_policy_frame:
  assumes "room_inv C g author s" and "policy_ok C ps'"
    and "ps_genesis ps' = ps_genesis (rs_policy s)" "ps_current ps' = ps_current (rs_policy s)"
    "ps_sealed ps' = ps_sealed (rs_policy s)"
  shows "room_inv C g author (s\<lparr>rs_policy := ps'\<rparr>)"
  using assms(1,2,3) tokens_frame [OF assms(3-5)] by (simp add: room_inv_def)

lemma room_inv_commit_policy:
  assumes "room_inv C g author s" and "t \<in> rs_updates s"
    and "commit_update C (rs_policy s) t = Inr (ps', closed)"
  shows "room_inv C g author (s\<lparr>rs_policy := ps', rs_updates := rs_updates s - {t}\<rparr>)"
proof -
  have tk: "token_for C (rs_seen s) (rs_policy s) t"
    using assms committed_token_for by (auto simp: room_inv_def)
  have "policy_ok C ps'"
    using assms(1) commit_update_ok [OF tk _ assms(3)] by (simp add: room_inv_def)
  then show ?thesis
    using assms(1) commit_update_state [OF assms(3)]
      tokens_after_commit [OF commit_update_revision [OF tk assms(3)]]
    by (simp add: room_inv_def)
qed

lemma room_inv_commit_fresh:
  assumes "room_inv C g author s" and "t \<in> rs_events s"
    and "commit_event C (rs_chain s) t (rs_policy s) = Inr c'"
  shows "room_inv C g author (s\<lparr>rs_chain := c', rs_events := rs_events s - {t},
       rs_log := rs_log s @ [pt_event (pe_step t)],
       rs_feed := rs_feed s @ [(policy_head C (rs_policy s), pt_event (pe_step t))]\<rparr>)"
proof -
  have tk: "event_token_ok C (rs_seen s) (rs_policy s) t" and ch: "chain_ok (rs_seen s) (rs_chain s) (rs_log s)"
    using assms(1,2) by (auto simp: room_inv_def)
  have step: "commit_continuity (rs_chain s) (pe_step t) (rs_policy s) = Inr c'"
    and pol: "pe_policy t = policy_head C (rs_policy s)"
    using assms(3) by (auto simp: commit_event_state)
  have "step_token_ok (rs_seen s) (pe_step t)" using tk by (simp add: event_token_ok_def)
  note c' = commit_continuity_ok [OF ch this step]
  have "ec_policy (ver_claims (pt_event (pe_step t))) = pp_id (policy_head C (rs_policy s))"
    using tk pol by (auto simp: event_token_ok_def)
  with assms(1) c' show ?thesis by (auto simp: room_inv_def)
qed

lemma room_step_inv:
  assumes "room_step C s s'" and "room_inv C g author s"
  shows "room_inv C g author s'"
  using assms
proof (induction rule: room_step.induct)
  case (observe u s)
  then show ?case
    using observe_frame [OF refl, of C "rs_policy s" u] observe_ok [of C "rs_policy s" u]
    by (intro room_inv_policy_frame) (auto simp: room_inv_def)
next
  case (observe_retained r sp s)
  let ?ps' = "fst (observe_retained_after_persist C (rs_policy s) r sp)"
  note fr = observe_retained_frame [OF refl, of C "rs_policy s" r sp]
  have "policy_ok C (rs_policy s)" using observe_retained.prems by (simp add: room_inv_def)
  then have "policy_ok C ?ps'" by (rule policy_ok_cong) (use fr in blast)+
  then show ?case by (rule room_inv_policy_frame [OF observe_retained.prems]) (use fr in blast)+
next
  case (prepare_policy sp s t)
  then show ?case
    using prepare_update_token [of C sp "rs_policy s" t] by (auto simp: room_inv_def update_token_ok_def)
next
  case (prove_seal t s page a t')
  let ?E = "rs_seen s \<union> set page"
  note inv = room_inv_see [OF prove_seal.prems prove_seal(2)]
  have "update_token_ok C ?E (rs_policy s) t" using inv prove_seal(1) by (simp add: room_inv_def)
  then have "update_token_ok C ?E (rs_policy s) t'"
    using push_seal_token [OF _ _ prove_seal(3)] push_seal_base [OF prove_seal(3)]
    by (auto simp: update_token_ok_def)
  with inv show ?case by (simp add: room_inv_def)
next
  case (commit_policy t s ps' closed)
  then show ?case by (intro room_inv_commit_policy)
next
  case (prepare_event e s t)
  note inv = room_inv_see [OF prepare_event.prems, of "{e}"]
  have "event_token_ok C (rs_seen s \<union> {e}) (rs_policy s) t"
    by (rule prepare_next_token [OF _ prepare_event(2)]) simp
  with inv prepare_event(1) show ?case by (simp add: room_inv_def)
next
  case (commit_fresh t s c')
  then show ?case by (intro room_inv_commit_fresh)
next
  case (prepare_step e s t)
  note inv = room_inv_see [OF prepare_step.prems, of "{e}"]
  have "step_token_ok (rs_seen s \<union> {e}) t"
    by (rule prepare_continuity_token [OF _ prepare_step(2)]) simp
  with inv prepare_step(1) show ?case by (simp add: room_inv_def)
next
  case (commit_step t s c')
  then have "chain_ok (rs_seen s) (rs_chain s) (rs_log s)" "step_token_ok (rs_seen s) t" by (auto simp: room_inv_def)
  from commit_continuity_ok [OF this commit_step(2)] commit_step show ?case
    by (auto simp: room_inv_def)
next
  case (prepare_anchor s a)
  then show ?case using prepare_anchor_token by (auto simp: room_inv_def)
next
  case (prove_anchor a s page a')
  note inv = room_inv_see [OF prove_anchor.prems prove_anchor(2)]
  have "anchor_token_ok (rs_seen s \<union> set page) a" using inv prove_anchor(1) by (simp add: room_inv_def)
  then have "anchor_token_ok (rs_seen s \<union> set page) a'"
    by (rule anchor_push_ok [OF _ _ prove_anchor(3)]) simp
  with inv show ?case by (simp add: room_inv_def)
next
  case (install_anchor a s c')
  then have "chain_ok (rs_seen s) (rs_chain s) (rs_log s)" "anchor_token_ok (rs_seen s) a" by (auto simp: room_inv_def)
  from reconcile_anchor_ok [OF this install_anchor(2)] install_anchor show ?case
    by (auto simp: room_inv_def)
qed

lemma room_reach_inv: "room_reach C g author s \<Longrightarrow> room_inv C g author s"
  by (induction rule: room_reach.induct) (auto intro: room_inv_init room_step_inv)

section \<open>Consequences for reachable replicas\<close>

lemma reach_policy_ok: "room_reach C g author s \<Longrightarrow> policy_ok C (rs_policy s) \<and> ps_genesis (rs_policy s) = g"
  using room_reach_inv by (auto simp: room_inv_def)

lemma reach_room: "room_reach C g author s \<Longrightarrow> policy_room (rs_policy s) = pin_id g"
  using reach_policy_ok by (auto simp: policy_room_def)

lemma reach_chain:
  "room_reach C g author s \<Longrightarrow> chain_ok (rs_seen s) (rs_chain s) (rs_log s)
   \<and> ac_room (rs_chain s) = pin_id g \<and> ac_author (rs_chain s) = author"
  using room_reach_inv by (auto simp: room_inv_def)

lemma ancestry_nth_previous:
  "ancestry room author h es \<Longrightarrow> i < length es \<Longrightarrow>
   ec_previous (ver_claims (es ! i)) = (if i = 0 then ah_event h else ver_id (es ! (i - 1)))"
proof (induction es arbitrary: h i)
  case Nil
  then show ?case by simp
next
  case (Cons e es)
  show ?case
  proof (cases i)
    case 0
    with Cons.prems show ?thesis by (simp add: extends_def)
  next
    case (Suc j)
    with Cons.prems Cons.IH [of "event_head e" j] show ?thesis
      by (cases j) (auto simp: extends_def)
  qed
qed

lemma fresh_admission_iff:
  "fresh_admission ps = Inr u \<longleftrightarrow> \<not> ps_forked ps \<and> \<not> ps_overflow ps \<and> pending ps = None"
  by (auto simp: fresh_admission_def pending_def bt_last_None)

lemma room_step_policy_cases:
  assumes "room_step C s s'" and "room_reach C g author s"
  obtains (frame) "ps_genesis (rs_policy s') = ps_genesis (rs_policy s)"
      "ps_current (rs_policy s') = ps_current (rs_policy s)"
      "ps_sealed (rs_policy s') = ps_sealed (rs_policy s)"
      "ps_forked (rs_policy s) \<longrightarrow> ps_forked (rs_policy s')"
  | (commit) t closed where "t \<in> rs_updates s" "token_for C (rs_seen s) (rs_policy s) t"
      "commit_update C (rs_policy s) t = Inr (rs_policy s', closed)"
  using assms(1)
proof cases
  case (observe u)
  then show ?thesis using observe_frame [OF refl, of C "rs_policy s" u] frame by simp
next
  case (observe_retained r sp)
  then show ?thesis using observe_retained_frame [OF refl, of C "rs_policy s" r sp] frame by simp
next
  case (commit_policy t ps' closed)
  moreover have "token_for C (rs_seen s) (rs_policy s) t"
    using room_reach_inv [OF assms(2)] commit_policy by (auto simp: room_inv_def intro: committed_token_for)
  ultimately show ?thesis using commit by auto
qed (use frame in auto)

text \<open>
  Two chains of verified events of one author that end at one head agree backwards as far
  as the shorter one reaches, unless two of their transcripts collide.
\<close>

definition transcripts :: "verified_event set \<Rightarrow> bytes set" where
  "transcripts E = (\<lambda>e. EVENT_DOMAIN @ event_encode (ver_claims e)) ` E"

lemma same_head_same_claims:
  assumes "wf_event C x" and "wf_event C y" and "event_head x = event_head y"
    and "collision_free C (transcripts {x, y})"
  shows "ver_claims x = ver_claims y"
proof (rule event_record.verified_id_claims [OF assms(1,2)])
  show "ver_id x = ver_id y" using assms(3) by (simp add: event_head_def)
  show "collision_free C {rk_domain event_kind @ rk_encode event_kind (ver_claims x),
      rk_domain event_kind @ rk_encode event_kind (ver_claims y)}"
    using assms(4) by (simp add: transcripts_def event_kind_def)
qed

lemma chains_meet:
  assumes "ancestry room author h es" and "ancestry room author k fs"
    and "chain_end h es = chain_end k fs" and "length es \<le> length fs"
    and "\<forall>e\<in>set es \<union> set fs. wf_event C e" and "collision_free C (transcripts (set es \<union> set fs))"
  shows "\<exists>pre suf. fs = pre @ suf \<and> chain_end k pre = h \<and> map ver_claims suf = map ver_claims es"
  using assms
proof (induction es arbitrary: fs rule: rev_induct)
  case Nil
  then show ?case by (intro exI [of _ fs] exI [of _ "[]"]) simp
next
  case (snoc x xs)
  from snoc.prems(4) have "fs \<noteq> []" by auto
  then obtain ys y where fs: "fs = ys @ [y]" by (metis append_butlast_last_id)
  with snoc.prems(3) have heads: "event_head x = event_head y" by simp
  have claims: "ver_claims x = ver_claims y"
    using snoc.prems fs by (intro same_head_same_claims heads)
      (auto simp: transcripts_def intro: collision_free_mono)
  have "extends room author (chain_end h xs) x" "extends room author (chain_end k ys) y"
    using snoc.prems(1,2) fs by auto
  then have "chain_end h xs = chain_end k ys"
    using claims by (auto simp: extends_def word_unat_eq_iff intro!: author_head.equality)
  then obtain pre suf where "ys = pre @ suf" "chain_end k pre = h" "map ver_claims suf = map ver_claims xs"
    using snoc.IH [of ys] snoc.prems fs
    by (auto simp: transcripts_def intro: collision_free_mono)
  with fs claims show ?case by (intro exI [of _ pre] exI [of _ "suf @ [y]"]) simp
qed

end
