(* ===== verification/Direct_Examples.thy ===== *)
theory Direct_Examples
  imports Direct_Machine
begin

text \<open>
  A small public room under the concrete cryptography of \<open>Crypto_Params\<close>, for the witnesses:
  the owner (key 2) pins a genesis with writers 2 and 3, admits an event, closes the first
  policy with a seal on it, reconciles its anchor, and finally sees a conflicting policy.
\<close>

text \<open>Signing checked claims with the signer's secret gives a verified record.\<close>

definition issue :: "crypto \<Rightarrow> 'c record_kind \<Rightarrow> 'c \<Rightarrow> array32 \<Rightarrow> 'c verified" where
  "issue C K c sk =
     (let u = \<lparr>un_claims = c, un_id = sha256 C (rk_domain K @ rk_encode K c)\<rparr>
      in Verified \<lparr>sg_unsigned = u, sg_signature = sign_bytes C sk (signing_bytes K u)\<rparr>)"

lemma issue_sel [simp]:
  "ver_claims (issue C K c sk) = c"
  "ver_id (issue C K c sk) = sha256 C (rk_domain K @ rk_encode K c)"
  by (simp_all add: issue_def ver_claims_def ver_id_def Let_def)

lemma issue_wf:
  assumes "sign_correct C" and "typed c" and "rk_check K C c = Inr ()" and "public_of C sk = rk_signer K c"
  shows "wf_verified C K typed (issue C K c sk)"
  using assms by (auto simp: issue_def wf_verified_def wf_signed_def wf_unsigned_def Let_def
      sign_correctD ver_claims_def)

lemma verified_signed: "wf_verified C K typed v \<Longrightarrow> wf_signed C K typed (ver_signed v)"
  by (simp add: wf_verified_def)

lemma issue_verify:
  assumes "sign_correct C" and "public_of C sk = rk_signer K c" and "checked_key C (rk_signer K c) = Inr (rk_signer K c)"
  shows "signed_verify C K (ver_signed (issue C K c sk)) = Inr (issue C K c sk)"
  using assms by (simp add: issue_def signed_verify_def Let_def sign_correctD)

section \<open>The records\<close>

definition ex_genesis_claims :: genesis_claims where
  "ex_genesis_claims = \<lparr>gc_owner = 2, gc_nonce = 1, gc_writers = [2, 3]\<rparr>"

definition ex_genesis :: pinned_genesis where
  "ex_genesis = PinnedGenesis (issue toy_crypto genesis_kind ex_genesis_claims 2)"

definition ex_event_claims :: "u64 \<Rightarrow> event_id \<Rightarrow> bytes \<Rightarrow> event_claims" where
  "ex_event_claims n prev s = \<lparr>ec_room = 165, ec_policy = 66, ec_author = 2, ec_sequence = n,
     ec_previous = prev, ec_created_at = 0, ec_text = Text s\<rparr>"

definition ex_event :: "u64 \<Rightarrow> event_id \<Rightarrow> bytes \<Rightarrow> verified_event" where
  "ex_event n prev s = issue toy_crypto event_kind (ex_event_claims n prev s) 2"

definition ex_policy :: "array32 list \<Rightarrow> seal_head list \<Rightarrow> verified_policy" where
  "ex_policy writers seals = issue toy_crypto policy_kind
     \<lparr>pc_room = 165, pc_owner = 2, pc_revision = 1, pc_previous = 66, pc_writers = writers,
      pc_sealed_heads = seals\<rparr> 2"

abbreviation "ex_e1 \<equiv> ex_event 1 0 [97]"
abbreviation "ex_seal \<equiv> \<lparr>sh_author = 2, sh_sequence = 1, sh_event = 182\<rparr>"
abbreviation "ex_p1 \<equiv> ex_policy [2] [ex_seal]"
abbreviation "ex_fork \<equiv> ex_policy [2, 3] [ex_seal]"

lemma toy_simps [simp]:
  "sha256 toy_crypto m = word_of_nat (length m)" "key_point toy_crypto k \<longleftrightarrow> k \<noteq> 0"
  "key_weak toy_crypto k \<longleftrightarrow> k = 1" "public_of toy_crypto k = k"
  by (simp_all add: toy_crypto_def)

lemma kind_simps [simp]:
  "rk_check genesis_kind = genesis_check" "rk_encode genesis_kind = genesis_encode"
  "rk_signer genesis_kind = gc_owner" "rk_domain genesis_kind = GENESIS_DOMAIN"
  "rk_check policy_kind = policy_check" "rk_encode policy_kind = policy_encode"
  "rk_signer policy_kind = pc_owner" "rk_domain policy_kind = POLICY_DOMAIN"
  "rk_check event_kind = event_check" "rk_encode event_kind = event_encode"
  "rk_signer event_kind = ec_author" "rk_domain event_kind = EVENT_DOMAIN"
  by (simp_all add: genesis_kind_def policy_kind_def event_kind_def)

lemma length_domains [simp]:
  "length GENESIS_DOMAIN = 30" "length POLICY_DOMAIN = 29" "length EVENT_DOMAIN = 28"
  by (simp_all add: GENESIS_DOMAIN_def POLICY_DOMAIN_def EVENT_DOMAIN_def)

lemma ex_genesis_wf [simp]: "wf_genesis toy_crypto (pinned ex_genesis)"
  by (simp add: ex_genesis_def ex_genesis_claims_def issue_wf toy_sign_correct genesis_check_def
      writers_check_iff)

lemma ex_genesis_id [simp]: "pin_id ex_genesis = 165" "pin_claims ex_genesis = ex_genesis_claims"
  by (simp_all add: ex_genesis_def pin_id_def pin_claims_def ex_genesis_claims_def length_genesis_encode)

lemma ex_event_sel [simp]:
  "ver_claims (ex_event n prev s) = ex_event_claims n prev s"
  "ver_id (ex_event n prev s) = word_of_nat (181 + length s)"
  by (simp_all add: ex_event_def length_event_encode ex_event_claims_def)

lemma ex_text_ok [simp]: "text_ok (Text [97])" "text_ok (Text [97, 98])" "text_ok (Text [97, 98, 99])"
  by (simp_all add: text_ok_def text_new_def str_chars_def is_control_def)

lemma ex_event_wf [simp]:
  "text_ok (Text s) \<Longrightarrow> n \<noteq> 0 \<Longrightarrow> n = 1 \<longleftrightarrow> prev = 0 \<Longrightarrow> wf_event toy_crypto (ex_event n prev s)"
  unfolding ex_event_def
  by (rule issue_wf) (simp_all add: toy_sign_correct event_check_iff ex_event_claims_def)

lemma ex_policy_wf:
  "wf_policy toy_crypto ex_p1" "wf_policy toy_crypto ex_fork"
  unfolding ex_policy_def
  by (rule issue_wf, simp_all add: toy_sign_correct policy_check_iff writers_check_iff)+

lemma ex_policy_sel [simp]:
  "ver_claims (ex_policy writers seals) = \<lparr>pc_room = 165, pc_owner = 2, pc_revision = 1, pc_previous = 66,
     pc_writers = writers, pc_sealed_heads = seals\<rparr>"
  "ver_id (ex_policy writers seals) = word_of_nat (142 + 32 * length writers + 72 * length seals)"
  by (simp_all add: ex_policy_def length_policy_encode)

lemma ex_policy_verify [simp]:
  "signed_verify toy_crypto policy_kind (ver_signed (ex_policy writers seals)) = Inr (ex_policy writers seals)"
  unfolding ex_policy_def by (rule issue_verify) (simp_all add: toy_sign_correct)

section \<open>The run\<close>

definition ex_chain0 :: author_chain where
  "ex_chain0 = \<lparr>ac_room = 165, ac_author = 2, ac_head = EMPTY, ac_checked_seal = None\<rparr>"

definition ex_s0 :: room_sys where "ex_s0 = room_init ex_genesis ex_chain0"

definition ex_t1 :: prepared_event where
  "ex_t1 = \<lparr>pe_step = \<lparr>pt_room = 165, pt_author = 2, pt_base = EMPTY, pt_event = ex_e1\<rparr>,
     pe_policy = \<lparr>pp_revision = 0, pp_id = 66\<rparr>\<rparr>"

definition ex_s1 :: room_sys where "ex_s1 = ex_s0\<lparr>rs_events := {ex_t1}, rs_seen := {ex_e1}\<rparr>"

definition ex_chain1 :: author_chain where
  "ex_chain1 = ex_chain0\<lparr>ac_head := event_head ex_e1\<rparr>"

definition ex_s2 :: room_sys where
  "ex_s2 = ex_s1\<lparr>rs_chain := ex_chain1, rs_events := {}, rs_log := [ex_e1],
     rs_feed := [(\<lparr>pp_revision = 0, pp_id = 66\<rparr>, ex_e1)]\<rparr>"

definition ex_u0 :: prepared_policy where
  "ex_u0 = \<lparr>pr_room = 165, pr_base = \<lparr>pp_revision = 0, pp_id = 66\<rparr>, pr_update = ex_p1,
     pr_closed = \<lparr>cp_room = 165, cp_policy = 66, cp_closing = 246, cp_writers = [2, 3], cp_seals = [ex_seal]\<rparr>,
     pr_proofs = [\<lparr>sp_chain = ex_chain0, sp_target = ex_seal, sp_policy = 66\<rparr>]\<rparr>"

definition ex_u1 :: prepared_policy where
  "ex_u1 = ex_u0\<lparr>pr_proofs := [\<lparr>sp_chain = ex_chain1, sp_target = ex_seal, sp_policy = 66\<rparr>]\<rparr>"

definition ex_s3 :: room_sys where "ex_s3 = ex_s2\<lparr>rs_updates := {ex_u0}\<rparr>"
definition ex_s4 :: room_sys where "ex_s4 = ex_s3\<lparr>rs_updates := {ex_u0, ex_u1}\<rparr>"

definition ex_ps1 :: policy_state where
  "ex_ps1 = (policy_new ex_genesis)\<lparr>ps_current := Some ex_p1, ps_sealed := [(2, event_head ex_e1)]\<rparr>"

definition ex_s5 :: room_sys where "ex_s5 = ex_s4\<lparr>rs_policy := ex_ps1, rs_updates := {ex_u0}\<rparr>"

definition ex_a :: anchor_reconciliation where
  "ex_a = \<lparr>an_room = 165, an_author = 2, an_policy = \<lparr>pp_revision = 1, pp_id = 246\<rparr>,
     an_seal = event_head ex_e1, an_target = event_head ex_e1, an_progress = event_head ex_e1\<rparr>"

definition ex_s6 :: room_sys where "ex_s6 = ex_s5\<lparr>rs_anchors := {ex_a}\<rparr>"

definition ex_s7 :: room_sys where
  "ex_s7 = ex_s6\<lparr>rs_chain := ex_chain1\<lparr>ac_checked_seal := Some (event_head ex_e1)\<rparr>, rs_anchors := {}\<rparr>"

definition ex_s8 :: room_sys where
  "ex_s8 = ex_s7\<lparr>rs_policy := ex_ps1\<lparr>ps_forked := True\<rparr>\<rparr>"

lemma ex_policy_facts [simp]:
  "policy_room (policy_new ex_genesis) = 165" "policy_owner (policy_new ex_genesis) = 2"
  "policy_head toy_crypto (policy_new ex_genesis) = \<lparr>pp_revision = 0, pp_id = 66\<rparr>"
  "policy_writers (policy_new ex_genesis) = [2, 3]" "fresh_admission (policy_new ex_genesis) = Inr ()"
  "sealed_head (policy_new ex_genesis) a = None" "ps_forked (policy_new ex_genesis) = False"
  "ps_observed (policy_new ex_genesis) = []" "ps_sealed (policy_new ex_genesis) = []"
  by (simp_all add: policy_new_def policy_room_def policy_owner_def policy_head_def policy_writers_def
      fresh_admission_def sealed_head_def ex_genesis_claims_def initial_policy_def bt_new_def bt_get_def)

lemma ex_ps1_facts [simp]:
  "policy_room ex_ps1 = 165" "policy_owner ex_ps1 = 2"
  "policy_head toy_crypto ex_ps1 = \<lparr>pp_revision = 1, pp_id = 246\<rparr>"
  "sealed_head ex_ps1 2 = Some (event_head ex_e1)"
  by (simp_all add: ex_ps1_def policy_new_def policy_room_def policy_owner_def policy_head_def
      sealed_head_def ex_genesis_claims_def bt_get_def)

lemma ex_allows [simp]: "allows (policy_new ex_genesis) 2"
  using binary_search_mem [of "[2, 3 :: array32]" 2] by (simp add: allows_def)

lemma ex_chain_new: "chain_new toy_crypto (pin_id ex_genesis) 2 = Inr ex_chain0"
  by (simp add: chain_new_def ex_chain0_def)

lemma ex_reach0: "room_reach toy_crypto ex_genesis 2 ex_s0"
  unfolding ex_s0_def by (rule room_reach.start [OF ex_genesis_wf ex_chain_new])

lemma ex_prepare_event: "prepare_next toy_crypto ex_chain0 ex_e1 (policy_new ex_genesis) = Inr ex_t1"
  by (simp add: prepare_next_def authoring_head_def check_fresh_anchor_def ex_chain0_def ex_t1_def
      ex_event_claims_def check_next_def Let_def EMPTY_def checked_add_def)

lemma ex_reach1: "room_reach toy_crypto ex_genesis 2 ex_s1"
proof -
  have "room_step toy_crypto ex_s0
      (ex_s0\<lparr>rs_events := insert ex_t1 (rs_events ex_s0), rs_seen := insert ex_e1 (rs_seen ex_s0)\<rparr>)"
    by (rule room_step.prepare_event) (simp_all add: ex_s0_def room_init_def ex_prepare_event)
  then show ?thesis
    using ex_reach0 room_reach.step by (fastforce simp: ex_s1_def ex_s0_def room_init_def)
qed

lemma ex_commit_event: "commit_event toy_crypto ex_chain0 ex_t1 (policy_new ex_genesis) = Inr ex_chain1"
  by (simp add: commit_event_def check_fresh_anchor_def commit_continuity_def checked_anchor_after_def
      ex_chain0_def ex_t1_def ex_chain1_def)

lemma ex_step:
  "room_reach toy_crypto ex_genesis 2 s \<Longrightarrow> room_step toy_crypto s s' \<Longrightarrow> s' = t \<Longrightarrow>
   room_reach toy_crypto ex_genesis 2 t"
  by (auto intro: room_reach.step)

lemma ex_reach2: "room_reach toy_crypto ex_genesis 2 ex_s2"
proof (rule ex_step [OF ex_reach1 room_step.commit_fresh])
  show "ex_t1 \<in> rs_events ex_s1" by (simp add: ex_s1_def)
  show "commit_event toy_crypto (rs_chain ex_s1) ex_t1 (rs_policy ex_s1) = Inr ex_chain1"
    using ex_commit_event by (simp add: ex_s1_def ex_s0_def room_init_def)
qed (simp add: ex_s2_def ex_s1_def ex_s0_def room_init_def, simp add: ex_t1_def)

lemma ex_prepare_policy:
  "prepare_update toy_crypto (policy_new ex_genesis) (ver_signed ex_p1) = Inr ex_u0"
  by (simp add: prepare_update_def check_owner_def Let_def checked_add_def prepare_proof_def
      ex_u0_def ex_chain0_def bt_get_def bt_contains_def EMPTY_def)

lemma ex_reach3: "room_reach toy_crypto ex_genesis 2 ex_s3"
proof (rule ex_step [OF ex_reach2 room_step.prepare_policy])
  show "wf_signed toy_crypto policy_kind (\<lambda>_. True) (ver_signed ex_p1)"
    by (rule verified_signed) (rule ex_policy_wf)
  show "prepare_update toy_crypto (rs_policy ex_s2) (ver_signed ex_p1) = Inr ex_u0"
    using ex_prepare_policy by (simp add: ex_s2_def ex_s1_def ex_s0_def room_init_def)
qed (simp add: ex_s3_def ex_s2_def ex_s1_def ex_s0_def room_init_def)

lemma ex_push_seal: "push_seal ex_u0 2 [ex_e1] = Inr ex_u1"
  by (simp add: push_seal_def ex_u0_def ex_u1_def proof_push_def seal_step_def check_next_def Let_def
      ex_chain0_def ex_chain1_def ex_event_claims_def EMPTY_def checked_add_def)

lemma ex_reach4: "room_reach toy_crypto ex_genesis 2 ex_s4"
proof (rule ex_step [OF ex_reach3 room_step.prove_seal])
  show "ex_u0 \<in> rs_updates ex_s3" by (simp add: ex_s3_def)
  show "\<forall>e\<in>set [ex_e1]. wf_event toy_crypto e" by simp
  show "push_seal ex_u0 2 [ex_e1] = Inr ex_u1" by (rule ex_push_seal)
qed (simp add: ex_s4_def ex_s3_def ex_s2_def ex_s1_def ex_s0_def room_init_def insert_commute)

lemma ex_commit_policy:
  "commit_update toy_crypto (policy_new ex_genesis) ex_u1 = Inr (ex_ps1, pr_closed ex_u0)"
  by (simp add: commit_update_def update_ready_def proof_complete_def ex_u1_def ex_u0_def ex_chain1_def
      ex_ps1_def ex_event_claims_def event_head_def bt_get_def bt_remove_def Let_def policy_new_def)
     (simp add: policy_head_def bt_new_def policy_room_def initial_policy_def)

lemma ex_reach5: "room_reach toy_crypto ex_genesis 2 ex_s5"
proof (rule ex_step [OF ex_reach4 room_step.commit_policy])
  show "ex_u1 \<in> rs_updates ex_s4" by (simp add: ex_s4_def)
  show "commit_update toy_crypto (rs_policy ex_s4) ex_u1 = Inr (ex_ps1, pr_closed ex_u0)"
    using ex_commit_policy by (simp add: ex_s4_def ex_s3_def ex_s2_def ex_s1_def ex_s0_def room_init_def)
  have "ex_u0 \<noteq> ex_u1"
    by (simp add: ex_u0_def ex_u1_def ex_chain0_def ex_chain1_def EMPTY_def event_head_def ex_event_claims_def)
  then have "{ex_u0, ex_u1} - {ex_u1} = {ex_u0}" by auto
  then show "ex_s4\<lparr>rs_policy := ex_ps1, rs_updates := rs_updates ex_s4 - {ex_u1}\<rparr> = ex_s5"
    by (simp add: ex_s5_def ex_s4_def)
qed

lemma ex_prepare_anchor: "prepare_anchor_reconciliation toy_crypto ex_chain1 ex_ps1 = Inr ex_a"
  by (simp add: prepare_anchor_reconciliation_def ex_chain1_def ex_chain0_def ex_a_def)

lemma ex_reach6: "room_reach toy_crypto ex_genesis 2 ex_s6"
proof (rule ex_step [OF ex_reach5 room_step.prepare_anchor])
  show "prepare_anchor_reconciliation toy_crypto (rs_chain ex_s5) (rs_policy ex_s5) = Inr ex_a"
    using ex_prepare_anchor by (simp add: ex_s5_def ex_s4_def ex_s3_def ex_s2_def)
qed (simp add: ex_s6_def ex_s5_def ex_s4_def ex_s3_def ex_s2_def ex_s1_def ex_s0_def room_init_def)

lemma ex_reconcile:
  "reconcile_anchor toy_crypto ex_chain1 ex_a ex_ps1 = Inr (ex_chain1\<lparr>ac_checked_seal := Some (event_head ex_e1)\<rparr>)"
  by (simp add: reconcile_anchor_def ex_a_def ex_chain1_def ex_chain0_def anchor_ready_def)

lemma ex_reach7: "room_reach toy_crypto ex_genesis 2 ex_s7"
proof (rule ex_step [OF ex_reach6 room_step.install_anchor])
  show "ex_a \<in> rs_anchors ex_s6" by (simp add: ex_s6_def)
  show "reconcile_anchor toy_crypto (rs_chain ex_s6) ex_a (rs_policy ex_s6) =
      Inr (ex_chain1\<lparr>ac_checked_seal := Some (event_head ex_e1)\<rparr>)"
    using ex_reconcile by (simp add: ex_s6_def ex_s5_def ex_s4_def ex_s3_def ex_s2_def)
qed (simp add: ex_s7_def ex_s6_def)

lemma ex_observe_fork:
  "fst (observe_after_persist toy_crypto ex_ps1 ex_fork) = ex_ps1\<lparr>ps_forked := True\<rparr>"
  by (simp add: observe_after_persist_def check_owner_def Let_def)

lemma ex_fork_step: "room_step toy_crypto ex_s7 ex_s8"
proof -
  have "rs_policy ex_s7 = ex_ps1" by (simp add: ex_s7_def ex_s6_def ex_s5_def)
  with room_step.observe [OF ex_policy_wf(2), of ex_s7] show ?thesis
    by (simp add: ex_observe_fork ex_s8_def)
qed

lemma ex_reach8: "room_reach toy_crypto ex_genesis 2 ex_s8"
  using ex_reach7 ex_fork_step by (rule room_reach.step)

lemmas ex_states =
  ex_s0_def ex_s1_def ex_s2_def ex_s3_def ex_s4_def ex_s5_def ex_s6_def ex_s7_def ex_s8_def room_init_def

text \<open>Even a forked replica goes on preparing anchors; it admits nothing.\<close>

definition ex_s9 :: room_sys where "ex_s9 = ex_s8\<lparr>rs_anchors := {ex_a}\<rparr>"

lemma ex_after_fork: "room_step toy_crypto ex_s8 ex_s9"
proof -
  have "prepare_anchor_reconciliation toy_crypto (rs_chain ex_s8) (rs_policy ex_s8) = Inr ex_a"
    by (simp add: prepare_anchor_reconciliation_def ex_states ex_chain1_def ex_chain0_def ex_a_def
        policy_room_def sealed_head_def policy_head_def ex_ps1_def policy_new_def bt_get_def)
  from room_step.prepare_anchor [OF this] show ?thesis by (simp add: ex_s9_def ex_states)
qed

end
