(* ===== verification/Direct_Safety.thy ===== *)
theory Direct_Safety
  imports Direct_Examples
begin

text \<open>
  What a public-room replica guarantees, whatever sequence of method calls its controller
  makes and whatever signed records it is given. Every statement ranges over all reachable
  states of \<open>room_step\<close>; the run of \<open>Direct_Examples\<close> shows the hypotheses can hold.
\<close>

text \<open>
  C1. Fresh admission is safe. When an event is admitted to the feed, it is a verified event
  of this author in this room, it names the policy in force, the author is a listed writer of
  that policy, the replica is not forked, not saturated and waits for no newer policy, the
  event extends the author's head, and that head descends from the owner's seal of the author
  through events the replica was given.
\<close>

theorem fresh_admission_safe:
  assumes "room_reach C g author s" and "t \<in> rs_events s"
    and "commit_event C (rs_chain s) t (rs_policy s) = Inr c'"
  shows "wf_event C (pt_event (pe_step t))
    \<and> extends (pin_id g) author (ac_head (rs_chain s)) (pt_event (pe_step t))
    \<and> ec_policy (ver_claims (pt_event (pe_step t))) = pp_id (policy_head C (rs_policy s))
    \<and> author \<in> set (policy_writers (rs_policy s))
    \<and> \<not> ps_forked (rs_policy s) \<and> \<not> ps_overflow (rs_policy s) \<and> pending (rs_policy s) = None
    \<and> (\<forall>seal. sealed_head (rs_policy s) author = Some seal \<longrightarrow>
         descends (rs_seen s) (pin_id g) author seal (ac_head (rs_chain s)))
    \<and> ac_head c' = event_head (pt_event (pe_step t))"
proof -
  note inv = room_reach_inv [OF assms(1), unfolded room_inv_def]
  have chain: "ac_room (rs_chain s) = pin_id g" "ac_author (rs_chain s) = author"
    "chain_ok (rs_seen s) (rs_chain s) (rs_log s)" using inv by auto
  have tk: "event_token_ok C (rs_seen s) (rs_policy s) t" using inv assms(2) by blast
  from assms(3) have st: "fresh_admission (rs_policy s) = Inr ()" "pe_policy t = policy_head C (rs_policy s)"
    "check_fresh_anchor (rs_chain s) (rs_policy s) = Inr ()"
    "commit_continuity (rs_chain s) (pe_step t) (rs_policy s) = Inr c'"
    by (auto simp: commit_event_state)
  have "step_token_ok (rs_seen s) (pe_step t)" using tk by (simp add: event_token_ok_def)
  note cc = commit_continuity_ok [OF chain(3) this st(4)]
  have "pt_author (pe_step t) = author"
    using st(4) chain by (auto simp: commit_continuity_def split: if_splits)
  with tk st(2) have "allows (rs_policy s) author"
    "ec_policy (ver_claims (pt_event (pe_step t))) = pp_id (policy_head C (rs_policy s))"
    by (auto simp: event_token_ok_def)
  moreover have "wf_event C (pt_event (pe_step t))"
    using tk inv by (auto simp: event_token_ok_def step_token_ok_def)
  moreover have "descends (rs_seen s) (pin_id g) author seal (ac_head (rs_chain s))"
    if "sealed_head (rs_policy s) author = Some seal" for seal
    using that st(3) chain by (auto simp: check_fresh_anchor_iff chain_ok_def)
  ultimately show ?thesis
    using inv cc st(1) chain allows_iff [of C "rs_policy s" author] by (auto simp: fresh_admission_iff)
qed

theorem fresh_admission_safe_witness:
  "room_reach toy_crypto ex_genesis 2 ex_s1 \<and> ex_t1 \<in> rs_events ex_s1
   \<and> commit_event toy_crypto (rs_chain ex_s1) ex_t1 (rs_policy ex_s1) = Inr ex_chain1
   \<and> wf_event toy_crypto (pt_event (pe_step ex_t1)) \<and> (2::array32) \<in> set (policy_writers (rs_policy ex_s1))"
proof -
  have "ex_t1 \<in> rs_events ex_s1"
    and "commit_event toy_crypto (rs_chain ex_s1) ex_t1 (rs_policy ex_s1) = Inr ex_chain1"
    using ex_commit_event by (simp_all add: ex_states)
  with fresh_admission_safe [OF ex_reach1 this] ex_reach1 show ?thesis by blast
qed

text \<open>
  C2. The committed history of an author is one contiguous hash-linked chain: the i-th event
  has sequence i + 1, names the identifier of the one before it, is a verified event of this
  room and author, and the chain head is the last one.
\<close>

theorem room_log_contiguous:
  assumes "room_reach C g author s"
  shows "(\<forall>i<length (rs_log s).
       wf_event C (rs_log s ! i)
       \<and> ec_room (ver_claims (rs_log s ! i)) = pin_id g
       \<and> ec_author (ver_claims (rs_log s ! i)) = author
       \<and> unat (ec_sequence (ver_claims (rs_log s ! i))) = Suc i
       \<and> ec_previous (ver_claims (rs_log s ! i)) = (if i = 0 then 0 else ver_id (rs_log s ! (i - 1))))
    \<and> ac_head (rs_chain s) = (if rs_log s = [] then EMPTY else event_head (last (rs_log s)))
    \<and> unat (ah_sequence (ac_head (rs_chain s))) = length (rs_log s)"
proof -
  note inv = room_reach_inv [OF assms, unfolded room_inv_def chain_ok_def]
  then have anc: "ancestry (pin_id g) author EMPTY (rs_log s)" by auto
  have "ec_previous (ver_claims (rs_log s ! i)) = (if i = 0 then 0 else ver_id (rs_log s ! (i - 1)))"
    if "i < length (rs_log s)" for i
    using ancestry_nth_previous [OF anc that] by (simp add: EMPTY_def)
  moreover have "wf_event C (rs_log s ! i)" if "i < length (rs_log s)" for i
    using inv nth_mem [OF that] by blast
  ultimately show ?thesis
    using ancestry_EMPTY_nth [OF anc] ancestry_scope [OF anc] ancestry_sequence [OF anc] inv
    by (auto simp: chain_end_def EMPTY_def)
qed

theorem room_log_contiguous_witness:
  "room_reach toy_crypto ex_genesis 2 ex_s2 \<and> length (rs_log ex_s2) = 1
   \<and> unat (ec_sequence (ver_claims (rs_log ex_s2 ! 0))) = 1"
  using room_log_contiguous [OF ex_reach2] ex_reach2 by (simp add: ex_s2_def)

lemma seal_step_descends:
  assumes "room_reach C g author s" and "room_step C s s'" and "sealed_head (rs_policy s) a = Some h"
  shows "\<exists>h'. sealed_head (rs_policy s') a = Some h' \<and> descends (rs_seen s') (pin_id g) a h h'"
  using assms(2,1)
proof (cases rule: room_step_policy_cases)
  case frame
  then show ?thesis using assms(3) by (auto simp: sealed_head_def)
next
  case (commit t closed)
  have seen: "rs_seen s \<subseteq> rs_seen s'" using assms(2) by cases auto
  have ok: "policy_ok C (rs_policy s)" and room: "policy_room (rs_policy s) = pin_id g"
    using reach_policy_ok reach_room assms(1) by blast+
  let ?seals = "pc_sealed_heads (ver_claims (pr_update t))"
  show ?thesis
  proof (cases "a \<in> set (map sh_author ?seals)")
    case False
    then show ?thesis using token_seal_cases(1) [OF commit(2) ok commit(3)] assms(3) by auto
  next
    case True
    then obtain seal where seal: "seal \<in> set ?seals" "sh_author seal = a" by auto
    from token_seal_cases(2) [OF commit(2) ok commit(3) seal(1)] seal(2) obtain es where es: "es \<noteq> []"
      "set es \<subseteq> rs_seen s" "ancestry (policy_room (rs_policy s)) a (prior_seal (rs_policy s) a) es"
      "sealed_head (rs_policy s') a = Some (event_head (last es))"
      by auto
    moreover have "prior_seal (rs_policy s) a = h" using assms(3) by (simp add: prior_seal_def)
    ultimately show ?thesis
      using seen room by (auto simp: descends_def chain_end_def)
  qed
qed

lemma descends_trans:
  assumes "descends E room a h h'" and "descends E room a h' h''"
  shows "descends E room a h h''"
proof -
  from assms obtain es fs where "set es \<subseteq> E" "ancestry room a h es" "chain_end h es = h'"
    "set fs \<subseteq> E" "ancestry room a h' fs" "chain_end h' fs = h''" by (auto simp: descends_def)
  then show ?thesis unfolding descends_def by (intro exI [of _ "es @ fs"]) auto
qed

lemma room_steps_reach: "room_reach C g author s \<Longrightarrow> (room_step C)\<^sup>*\<^sup>* s s' \<Longrightarrow> room_reach C g author s'"
  by (rotate_tac, induction rule: rtranclp_induct) (auto intro: room_reach.step)

text \<open>
  Owner seals only advance. Along any continuation of a reachable run, a seal the owner
  made is never dropped or moved sideways: the later seal of the same author is reached from
  the earlier one by a chain of verified events of that author in this room.
\<close>

theorem seal_monotone:
  assumes "room_reach C g author s" and "(room_step C)\<^sup>*\<^sup>* s s'"
    and "sealed_head (rs_policy s) a = Some h"
  shows "\<exists>h' es. sealed_head (rs_policy s') a = Some h' \<and> (\<forall>e\<in>set es. wf_event C e)
    \<and> ancestry (pin_id g) a h es \<and> chain_end h es = h'
    \<and> unat (ah_sequence h') = unat (ah_sequence h) + length es"
proof -
  have "\<exists>h'. sealed_head (rs_policy s') a = Some h' \<and> descends (rs_seen s') (pin_id g) a h h'"
    using assms(2,1,3)
  proof (induction rule: rtranclp_induct)
    case base
    then show ?case by auto
  next
    case (step t u)
    then obtain k where k: "sealed_head (rs_policy t) a = Some k" "descends (rs_seen t) (pin_id g) a h k"
      by auto
    have "rs_seen t \<subseteq> rs_seen u" using step(2) by cases auto
    with k step seal_step_descends [OF room_steps_reach step(2) k(1)] show ?case
      by (meson descends_mono descends_trans)
  qed
  moreover have "\<forall>e\<in>rs_seen s'. wf_event C e"
    using room_reach_inv [OF room_steps_reach [OF assms(1,2)]] by (simp add: room_inv_def)
  ultimately show ?thesis
    using ancestry_sequence unfolding descends_def by (metis subsetD)
qed

theorem seal_monotone_witness:
  "room_reach toy_crypto ex_genesis 2 ex_s7 \<and> (room_step toy_crypto)\<^sup>*\<^sup>* ex_s7 ex_s8
   \<and> sealed_head (rs_policy ex_s7) 2 = Some (event_head ex_e1)
   \<and> (\<exists>h'. sealed_head (rs_policy ex_s8) 2 = Some h' \<and> unat (ah_sequence h') \<ge> 1)"
proof -
  have sealed: "sealed_head (rs_policy ex_s7) 2 = Some (event_head ex_e1)"
    by (simp add: ex_s7_def ex_s6_def ex_s5_def)
  have step: "(room_step toy_crypto)\<^sup>*\<^sup>* ex_s7 ex_s8" using ex_fork_step by blast
  from seal_monotone [OF ex_reach7 step sealed] sealed step ex_reach7 show ?thesis
    by (auto simp: ex_event_claims_def)
qed

lemma forked_step:
  assumes "room_reach C g author s" and "room_step C s s'" and "ps_forked (rs_policy s)"
  shows "ps_forked (rs_policy s') \<and> policy_head C (rs_policy s') = policy_head C (rs_policy s)
    \<and> rs_feed s' = rs_feed s"
proof -
  have "ps_forked (rs_policy s') \<and> policy_head C (rs_policy s') = policy_head C (rs_policy s)"
    using assms(2,1)
  proof (cases rule: room_step_policy_cases)
    case frame
    then show ?thesis using head_cong [OF frame(1,2), of C] assms(3) by simp
  next
    case (commit t closed)
    then show ?thesis using commit_update_state assms(3) by blast
  qed
  moreover have "rs_feed s' = rs_feed s"
    using assms(2,3) by cases (auto simp: commit_event_state fresh_admission_iff)
  ultimately show ?thesis by simp
qed

text \<open>
  C3. A detected fork is final. Once a replica has seen two owner policies for one revision,
  no continuation clears the latch, moves the policy head, or admits another event to the feed.
\<close>

theorem fork_is_final:
  assumes "room_reach C g author s" and "(room_step C)\<^sup>*\<^sup>* s s'" and "ps_forked (rs_policy s)"
  shows "ps_forked (rs_policy s') \<and> policy_head C (rs_policy s') = policy_head C (rs_policy s)
    \<and> rs_feed s' = rs_feed s"
  using assms(2,1,3)
proof (induction rule: rtranclp_induct)
  case base
  then show ?case by simp
next
  case (step t u)
  then show ?case using forked_step [OF room_steps_reach step(2)] by simp
qed

theorem fork_is_final_witness:
  "room_reach toy_crypto ex_genesis 2 ex_s8 \<and> ps_forked (rs_policy ex_s8)
   \<and> (room_step toy_crypto)\<^sup>*\<^sup>* ex_s8 ex_s9 \<and> ex_s9 \<noteq> ex_s8 \<and> rs_feed ex_s9 = rs_feed ex_s8"
proof -
  have fork: "ps_forked (rs_policy ex_s8)" by (simp add: ex_s8_def)
  have step: "(room_step toy_crypto)\<^sup>*\<^sup>* ex_s8 ex_s9" using ex_after_fork by blast
  have "ex_s9 \<noteq> ex_s8" by (simp add: ex_s9_def ex_states)
  with fork_is_final [OF ex_reach8 step fork] fork step ex_reach8 show ?thesis by blast
qed

text \<open>
  The policy replica stays well-formed and bounded: the writers in force are strictly
  ascending, contain the owner and number at most 64, all of them usable keys; at most 4096
  authors are sealed and 256 newer policies observed; every observed revision lies beyond the
  head; the policy in force is one the room's owner signed.
\<close>

theorem policy_replica_bounded:
  assumes "room_reach C g author s"
  shows "ascending (policy_writers (rs_policy s))
    \<and> gc_owner (pin_claims g) \<in> set (policy_writers (rs_policy s))
    \<and> length (policy_writers (rs_policy s)) \<le> 64
    \<and> length (ps_sealed (rs_policy s)) \<le> 4096 \<and> bt_ok (ps_sealed (rs_policy s))
    \<and> length (ps_observed (rs_policy s)) \<le> 256 \<and> bt_ok (ps_observed (rs_policy s))
    \<and> (\<forall>r i. bt_get (ps_observed (rs_policy s)) r = Some i \<longrightarrow>
          pp_revision (policy_head C (rs_policy s)) < r)
    \<and> (\<forall>p. ps_current (rs_policy s) = Some p \<longrightarrow>
          wf_policy C p \<and> pc_room (ver_claims p) = pin_id g
          \<and> pc_owner (ver_claims p) = gc_owner (pin_claims g))"
proof -
  have ok: "policy_ok C (rs_policy s)" and g: "ps_genesis (rs_policy s) = g"
    using reach_policy_ok [OF assms] by auto
  show ?thesis
    using policy_writers_ok [OF ok] ok g
    by (auto simp: policy_ok_def policy_owner_def check_owner_def policy_room_def)
qed

theorem policy_replica_bounded_witness:
  "room_reach toy_crypto ex_genesis 2 ex_s5 \<and> (2::array32) \<in> set (policy_writers (rs_policy ex_s5))
   \<and> ps_current (rs_policy ex_s5) = Some ex_p1"
  using policy_replica_bounded [OF ex_reach5] ex_reach5
  by (simp add: ex_genesis_claims_def ex_s5_def ex_ps1_def)

text \<open>
  C4. Committing an owner policy. From a reachable state, a successful commit advances the
  revision by exactly one along the owner's hash chain, every author the new policy seals was
  a writer of the policy it closes and gets exactly the seal the owner named, proven by
  verified events from the author's previous seal whose last names the closed policy; every
  other seal is kept; and the returned closure describes the policy that was in force.
\<close>

theorem policy_commit_seals:
  assumes "room_reach C g author s" and "t \<in> rs_updates s"
    and "commit_update C (rs_policy s) t = Inr (ps', closed)"
  shows "unat (pp_revision (policy_head C ps')) = Suc (unat (pp_revision (policy_head C (rs_policy s))))
    \<and> pc_previous (ver_claims (pr_update t)) = pp_id (policy_head C (rs_policy s))
    \<and> ps_current ps' = Some (pr_update t)
    \<and> (\<forall>seal\<in>set (pc_sealed_heads (ver_claims (pr_update t))).
         sh_author seal \<in> set (policy_writers (rs_policy s))
         \<and> sealed_head ps' (sh_author seal) = Some \<lparr>ah_sequence = sh_sequence seal, ah_event = sh_event seal\<rparr>
         \<and> (\<exists>es. es \<noteq> [] \<and> (\<forall>e\<in>set es. wf_event C e)
              \<and> ancestry (pin_id g) (sh_author seal) (prior_seal (rs_policy s) (sh_author seal)) es
              \<and> event_head (last es) = \<lparr>ah_sequence = sh_sequence seal, ah_event = sh_event seal\<rparr>
              \<and> ec_policy (ver_claims (last es)) = pp_id (policy_head C (rs_policy s))))
    \<and> (\<forall>a. a \<notin> sh_author ` set (pc_sealed_heads (ver_claims (pr_update t))) \<longrightarrow>
         sealed_head ps' a = sealed_head (rs_policy s) a)
    \<and> closed = \<lparr>cp_room = pin_id g, cp_policy = pp_id (policy_head C (rs_policy s)),
         cp_closing = pp_id (policy_head C ps'), cp_writers = policy_writers (rs_policy s),
         cp_seals = pc_sealed_heads (ver_claims (pr_update t))\<rparr>"
proof -
  have tk: "token_for C (rs_seen s) (rs_policy s) t"
    using room_reach_inv [OF assms(1)] assms(2,3) by (auto simp: room_inv_def intro: committed_token_for)
  have ok: "policy_ok C (rs_policy s)" and room: "policy_room (rs_policy s) = pin_id g"
    using reach_policy_ok reach_room assms(1) by blast+
  have seen: "\<forall>e\<in>rs_seen s. wf_event C e" using room_reach_inv [OF assms(1)] by (simp add: room_inv_def)
  note st = commit_update_state [OF assms(3)] and hd = commit_update_head [OF assms(3)]
  let ?seals = "pc_sealed_heads (ver_claims (pr_update t))"
  have sealed: "sh_author seal \<in> set (policy_writers (rs_policy s))
         \<and> sealed_head ps' (sh_author seal) = Some \<lparr>ah_sequence = sh_sequence seal, ah_event = sh_event seal\<rparr>
         \<and> (\<exists>es. es \<noteq> [] \<and> (\<forall>e\<in>set es. wf_event C e)
              \<and> ancestry (pin_id g) (sh_author seal) (prior_seal (rs_policy s) (sh_author seal)) es
              \<and> event_head (last es) = \<lparr>ah_sequence = sh_sequence seal, ah_event = sh_event seal\<rparr>
              \<and> ec_policy (ver_claims (last es)) = pp_id (policy_head C (rs_policy s)))"
    if "seal \<in> set ?seals" for seal
  proof -
    have "sh_author seal \<in> set (policy_writers (rs_policy s))"
      using tk that allows_iff [OF ok] by (auto simp: token_for_def)
    with token_seal_cases(2) [OF tk ok assms(3) that] room seen show ?thesis by (metis subsetD)
  qed
  have "closed = pr_closed t" using st by blast
  then show ?thesis
    using sealed token_seal_cases(1) [OF tk ok assms(3)] commit_update_revision [OF tk assms(3)]
      tk st hd room
    by (simp add: token_for_def)
qed

theorem policy_commit_seals_witness:
  "room_reach toy_crypto ex_genesis 2 ex_s4 \<and> ex_u1 \<in> rs_updates ex_s4
   \<and> commit_update toy_crypto (rs_policy ex_s4) ex_u1 = Inr (ex_ps1, pr_closed ex_u0)
   \<and> unat (pp_revision (policy_head toy_crypto ex_ps1)) = 1
   \<and> pr_closed ex_u0 = \<lparr>cp_room = 165, cp_policy = 66, cp_closing = 246, cp_writers = [2, 3], cp_seals = [ex_seal]\<rparr>"
proof -
  have t: "ex_u1 \<in> rs_updates ex_s4"
    and c: "commit_update toy_crypto (rs_policy ex_s4) ex_u1 = Inr (ex_ps1, pr_closed ex_u0)"
    using ex_commit_policy by (simp_all add: ex_states)
  show ?thesis
    using policy_commit_seals [OF ex_reach4 t c] ex_reach4 t c by (simp add: ex_states ex_u0_def)
qed

text \<open>
  C5. The constant-memory verifier is exact. For a candidate a closed policy does not reject,
  walking the author's events in pages of any admissible sizes and then finishing succeeds
  precisely on the endorsed histories: all signed events of that author from the first to the
  owner's seal, the seal naming the closed policy, the candidate in its place. The result is
  the candidate with the policy that closed it.
\<close>

theorem history_verifier_exact:
  assumes "wf_event C candidate" and "history_requirement cp candidate = Inr (Verify v)"
    and "\<forall>page\<in>set pages. page \<noteq> [] \<and> length page \<le> MAX_CHAIN_PAGE"
  shows "(\<exists>v'. foldR history_push v pages = Inr v' \<and> history_finish v' = Inr r) \<longleftrightarrow>
    endorsed_history v (concat pages) \<and> r = \<lparr>he_event = candidate, he_closing = cp_closing cp\<rparr>"
proof -
  from assms(2) have v: "hv_head v = EMPTY" "\<not> hv_encountered v" "hv_terminal v = None"
    "hv_candidate v = candidate" "hv_closing v = cp_closing cp"
    "ec_sequence (ver_claims candidate) \<le> sh_sequence (hv_seal v)"
    by (auto simp: history_requirement_def Let_def split: if_splits option.splits)
  have "0 < ec_sequence (ver_claims candidate)"
    using event_record.verified_check [OF assms(1)] by (simp add: event_check_iff word_neq_0_conv)
  with v show ?thesis
    using history_accepts_iff [of v "concat pages" r] history_pages_concat [OF assms(3), of v] by simp
qed

definition ex_closed :: closed_policy where "ex_closed = pr_closed ex_u0"

definition ex_verifier :: sealed_history_verifier where
  "ex_verifier = \<lparr>hv_room = 165, hv_policy = 66, hv_closing = 246, hv_seal = ex_seal, hv_candidate = ex_e1,
     hv_head = EMPTY, hv_encountered = False, hv_terminal = None\<rparr>"

lemma ex_requirement: "history_requirement ex_closed ex_e1 = Inr (Verify ex_verifier)"
proof -
  have "binary_search [2, 3 :: array32] 2 \<noteq> None"
    using binary_search_mem [of "[2, 3 :: array32]" 2] by simp
  moreover have "binary_search [2 :: array32] 2 = Some 0"
    using binary_search_mem [of "[2 :: array32]" 2] binary_search_Some [of "[2 :: array32]" 2] by fastforce
  ultimately show ?thesis
    by (simp add: history_requirement_def ex_closed_def ex_u0_def ex_verifier_def ex_event_claims_def Let_def)
qed

theorem history_verifier_exact_witness:
  "wf_event toy_crypto ex_e1 \<and> history_requirement ex_closed ex_e1 = Inr (Verify ex_verifier)
   \<and> endorsed_history ex_verifier (concat [[ex_e1]])
   \<and> (\<exists>v'. foldR history_push ex_verifier [[ex_e1]] = Inr v'
        \<and> history_finish v' = Inr \<lparr>he_event = ex_e1, he_closing = 246\<rparr>)"
proof -
  have wf: "wf_event toy_crypto ex_e1" by simp
  have hist: "endorsed_history ex_verifier (concat [[ex_e1]])"
    by (simp add: endorsed_history_def ex_verifier_def extends_def ex_event_claims_def EMPTY_def Let_def)
  have "cp_closing ex_closed = 246" by (simp add: ex_closed_def ex_u0_def)
  then show ?thesis
    using history_verifier_exact [OF wf ex_requirement, of "[[ex_e1]]"] wf ex_requirement hist by simp
qed

text \<open>
  A checked anchor is a prefix. If no two of the event transcripts the replica was given
  collide, the owner's seal it has checked its own chain against is the position of that very
  chain at the seal's sequence: nothing the owner sealed is missing from the committed log.
\<close>

theorem checked_seal_in_log:
  assumes "room_reach C g author s" and "ac_checked_seal (rs_chain s) = Some seal"
    and "collision_free C (transcripts (rs_seen s))"
  shows "unat (ah_sequence seal) \<le> length (rs_log s)
    \<and> seal = chain_end EMPTY (take (unat (ah_sequence seal)) (rs_log s))"
proof -
  note inv = room_reach_inv [OF assms(1), unfolded room_inv_def chain_ok_def]
  then have anc: "ancestry (pin_id g) author EMPTY (rs_log s)" and head: "ac_head (rs_chain s) = chain_end EMPTY (rs_log s)"
    and logs: "set (rs_log s) \<subseteq> rs_seen s" and wf: "\<forall>e\<in>rs_seen s. wf_event C e" by auto
  from inv assms(2) obtain es where es: "set es \<subseteq> rs_seen s" "ancestry (pin_id g) author seal es"
    "chain_end seal es = chain_end EMPTY (rs_log s)"
    by (auto simp: descends_def)
  have len: "unat (ah_sequence seal) + length es = length (rs_log s)"
    using ancestry_sequence [OF es(2)] ancestry_sequence [OF anc] es(3) by (simp add: EMPTY_def)
  obtain pre suf where split: "rs_log s = pre @ suf" "chain_end EMPTY pre = seal"
    "map ver_claims suf = map ver_claims es"
  proof -
    have "\<forall>e\<in>set es \<union> set (rs_log s). wf_event C e" using es(1) logs wf by blast
    moreover have "collision_free C (transcripts (set es \<union> set (rs_log s)))"
      using assms(3) es(1) logs by (auto simp: transcripts_def intro: collision_free_mono)
    ultimately show ?thesis
      using chains_meet [OF es(2) anc es(3)] len that by fastforce
  qed
  have "length suf = length es" using split(3) by (metis length_map)
  with split len have "take (unat (ah_sequence seal)) (rs_log s) = pre" by simp
  with split(2) len show ?thesis by simp
qed

theorem checked_seal_in_log_witness:
  "room_reach toy_crypto ex_genesis 2 ex_s7 \<and> ac_checked_seal (rs_chain ex_s7) = Some (event_head ex_e1)
   \<and> collision_free toy_crypto (transcripts (rs_seen ex_s7))
   \<and> event_head ex_e1 = chain_end EMPTY (take (unat (ah_sequence (event_head ex_e1))) (rs_log ex_s7))"
proof -
  have c: "ac_checked_seal (rs_chain ex_s7) = Some (event_head ex_e1)" by (simp add: ex_s7_def)
  have f: "collision_free toy_crypto (transcripts (rs_seen ex_s7))"
    by (simp add: ex_states transcripts_def collision_free_def)
  from checked_seal_in_log [OF ex_reach7 c f] c f ex_reach7 show ?thesis by blast
qed

text \<open>
  C6. The frames of all three record types are canonical and bounded: decoding accepts
  exactly the encodings of well-formed signed records, returns the record encoded, and no
  frame exceeds its type's limit.
\<close>

theorem signed_frames_canonical:
  "(signed_decode C genesis_kind bs = Inr sg \<longleftrightarrow>
      wf_signed C genesis_kind (\<lambda>_. True) sg \<and> signed_encode genesis_kind sg = bs)
   \<and> (signed_decode C policy_kind bs = Inr sp \<longleftrightarrow>
      wf_signed C policy_kind (\<lambda>_. True) sp \<and> signed_encode policy_kind sp = bs)
   \<and> (signed_decode C event_kind bs = Inr se \<longleftrightarrow>
      wf_signed C event_kind (\<lambda>e. text_ok (ec_text e)) se \<and> signed_encode event_kind se = bs)
   \<and> (length bs > MAX_EVENT_BYTES \<longrightarrow> signed_decode C event_kind bs = Inl Bounds)"
proof -
  have "rk_max event_kind = MAX_EVENT_BYTES" by (simp add: event_kind_def)
  then show ?thesis
    using genesis_record.signed.dec_iff [of C bs sg] policy_record.signed.dec_iff [of C bs sp]
      event_record.signed.dec_iff [of C bs se]
    by (simp add: signed_decode_def del: MAX_EVENT_BYTES_def)
qed

theorem signed_frames_canonical_witness:
  "signed_decode toy_crypto event_kind (signed_encode event_kind (ver_signed ex_e1)) = Inr (ver_signed ex_e1)"
proof -
  have "wf_signed toy_crypto event_kind (\<lambda>e. text_ok (ec_text e)) (ver_signed ex_e1)"
    by (rule verified_signed) simp
  then show ?thesis
    using signed_frames_canonical [of toy_crypto "signed_encode event_kind (ver_signed ex_e1)" _ _
        "ver_signed ex_e1"] by blast
qed

text \<open>
  A signature of one record type never counts for another: whatever their claims, the
  byte strings signed for a genesis, a policy and an event differ.
\<close>

lemma domain_differ: "take 20 x \<noteq> take 20 y \<Longrightarrow> 20 \<le> length x \<Longrightarrow> 20 \<le> length y \<Longrightarrow> x @ a \<noteq> y @ b"
  by (metis append_Nil2 diff_is_0_eq' take0 take_append)

theorem signing_domains_disjoint:
  "signing_bytes genesis_kind ug \<noteq> signing_bytes policy_kind up
   \<and> signing_bytes genesis_kind ug \<noteq> signing_bytes event_kind ue
   \<and> signing_bytes policy_kind up \<noteq> signing_bytes event_kind ue"
proof -
  have "take 20 GENESIS_DOMAIN \<noteq> take 20 POLICY_DOMAIN" "take 20 GENESIS_DOMAIN \<noteq> take 20 EVENT_DOMAIN"
    "take 20 POLICY_DOMAIN \<noteq> take 20 EVENT_DOMAIN"
    by (simp_all add: GENESIS_DOMAIN_def POLICY_DOMAIN_def EVENT_DOMAIN_def ascii_def)
  then show ?thesis by (simp add: signing_bytes_def domain_differ)
qed

text \<open>
  Honest signing succeeds end to end. When signatures verify under their own key, claims
  that pass the event check can be signed by the author's secret, and the frame that is sent
  decodes and verifies to the same claims with the same identifier; a different secret is
  refused.
\<close>

theorem sign_send_verify:
  assumes "sign_correct C" and "text_ok (ec_text c)" and "event_check C c = Inr ()"
  shows "\<exists>u. unsigned_new C event_kind c = Inr u
    \<and> (\<forall>sk. public_of C sk \<noteq> ec_author c \<longrightarrow> sign_with_key C event_kind u sk = Inl Signer)
    \<and> (\<forall>sk. public_of C sk = ec_author c \<longrightarrow>
        (\<exists>s v. sign_with_key C event_kind u sk = Inr s
          \<and> bindR (signed_decode C event_kind (signed_encode event_kind s)) (signed_verify C event_kind) = Inr v
          \<and> ver_claims v = c \<and> ver_id v = un_id u))"
proof -
  define u where "u = \<lparr>un_claims = c, un_id = sha256 C (EVENT_DOMAIN @ event_encode c)\<rparr>"
  have u: "unsigned_new C event_kind c = Inr u" "un_claims u = c"
    using assms(3) by (simp_all add: unsigned_new_def u_def)
  have wf: "wf_unsigned C event_kind (\<lambda>e. text_ok (ec_text e)) u"
    using event_record.unsigned_new_ok [OF assms(2) u(1)] by simp
  have "\<exists>s v. sign_with_key C event_kind u sk = Inr s
      \<and> bindR (signed_decode C event_kind (signed_encode event_kind s)) (signed_verify C event_kind) = Inr v
      \<and> ver_claims v = c \<and> ver_id v = un_id u" if sk: "public_of C sk = ec_author c" for sk
  proof -
    let ?s = "\<lparr>sg_unsigned = u, sg_signature = sign_bytes C sk (signing_bytes event_kind u)\<rparr>"
    have "attach_signature C event_kind u (sign_bytes C sk (signing_bytes event_kind u)) = Inr ?s"
      using assms(1,3) sk u(2) by (auto simp: attach_signature_def event_check_iff sign_correctD)
    then show ?thesis
      using event_record.attach_ok [OF wf] sk u(2)
      by (auto simp: sign_with_key_def event_record.signed.dec_enc ver_claims_def ver_id_def)
  qed
  then show ?thesis using u by (auto simp: sign_with_key_def)
qed

theorem sign_send_verify_witness:
  "sign_correct toy_crypto \<and> event_check toy_crypto (ex_event_claims 1 0 [97]) = Inr ()
   \<and> (\<exists>u s v. sign_with_key toy_crypto event_kind u 2 = Inr s
        \<and> bindR (signed_decode toy_crypto event_kind (signed_encode event_kind s)) (signed_verify toy_crypto event_kind) = Inr v
        \<and> ver_claims v = ex_event_claims 1 0 [97])"
proof -
  have t: "text_ok (ec_text (ex_event_claims 1 0 [97]))"
    and chk: "event_check toy_crypto (ex_event_claims 1 0 [97]) = Inr ()"
    and p: "public_of toy_crypto 2 = ec_author (ex_event_claims 1 0 [97])"
    by (simp_all add: ex_event_claims_def event_check_iff)
  obtain u s v where "sign_with_key toy_crypto event_kind u 2 = Inr s"
    "bindR (signed_decode toy_crypto event_kind (signed_encode event_kind s)) (signed_verify toy_crypto event_kind) = Inr v"
    "ver_claims v = ex_event_claims 1 0 [97]"
    using sign_send_verify [OF toy_sign_correct t chk] p by (elim exE conjE) blast
  then show ?thesis using chk toy_sign_correct by (intro conjI exI)
qed

lemma seal_step_iff:
  "seal_step target policy c e = Inr c' \<longleftrightarrow>
   extends (ac_room c) (ac_author c) (ac_head c) e \<and> ec_sequence (ver_claims e) \<le> sh_sequence target
   \<and> (ec_sequence (ver_claims e) = sh_sequence target \<longrightarrow>
        ver_id e = sh_event target \<and> ec_policy (ver_claims e) = policy)
   \<and> c' = c\<lparr>ac_head := event_head e\<rparr>"
  by (auto simp: seal_step_def check_next_iff)

lemma seal_loop_iff:
  "foldR (seal_step target policy) c es = Inr c' \<longleftrightarrow>
   ancestry (ac_room c) (ac_author c) (ac_head c) es
   \<and> (\<forall>e\<in>set es. ec_sequence (ver_claims e) \<le> sh_sequence target
        \<and> (ec_sequence (ver_claims e) = sh_sequence target \<longrightarrow>
             ver_id e = sh_event target \<and> ec_policy (ver_claims e) = policy))
   \<and> c' = c\<lparr>ac_head := chain_end (ac_head c) es\<rparr>"
  by (induction es arbitrary: c) (auto simp: seal_step_iff)

lemma proof_pages_concat:
  "\<forall>page\<in>set pages. page \<noteq> [] \<and> length page \<le> MAX_CHAIN_PAGE \<Longrightarrow>
   foldR proof_push p pages = Inr p' \<longleftrightarrow>
   (\<exists>c. foldR (seal_step (sp_target p) (sp_policy p)) (sp_chain p) (concat pages) = Inr c
      \<and> p' = p\<lparr>sp_chain := c\<rparr>)"
  by (induction pages arbitrary: p) (auto simp: proof_push_def foldR_append)

lemma ancestry_below_end:
  assumes "ancestry room author h es" and "e \<in> set es"
  shows "ec_sequence (ver_claims e) \<le> ah_sequence (chain_end h es)
    \<and> (ec_sequence (ver_claims e) = ah_sequence (chain_end h es) \<longrightarrow> e = last es)"
proof -
  from assms(2) obtain i where i: "i < length es" "es ! i = e" by (auto simp: in_set_conv_nth)
  have "unat (ec_sequence (ver_claims e)) = unat (ah_sequence h) + Suc i"
    using ancestry_nth_sequence [OF assms(1) i(1)] i(2) by simp
  moreover have "i = length es - 1 \<Longrightarrow> e = last es" 
    using i by (cases "es = []") (auto simp: last_conv_nth)
  ultimately show ?thesis
    using ancestry_sequence [OF assms(1)] i(1) by (auto simp: word_le_nat_alt word_unat_eq_iff)
qed

text \<open>
  Seal proofs are exact. Feeding the author's events in admissible pages to a freshly
  prepared seal proof completes it precisely when they form the signed chain from the
  author's previous seal to the owner's target and the last one names the policy being
  closed. In particular an honest owner's seal can always be proven, in any paging.
\<close>

theorem seal_proof_exact:
  assumes "prepare_proof C ps seal = Inr p"
    and "\<forall>page\<in>set pages. page \<noteq> [] \<and> length page \<le> MAX_CHAIN_PAGE"
  shows "(\<exists>p'. foldR proof_push p pages = Inr p' \<and> proof_complete p') \<longleftrightarrow>
    pages \<noteq> [] \<and> ancestry (policy_room ps) (sh_author seal) (prior_seal ps (sh_author seal)) (concat pages)
    \<and> event_head (last (concat pages)) = \<lparr>ah_sequence = sh_sequence seal, ah_event = sh_event seal\<rparr>
    \<and> ec_policy (ver_claims (last (concat pages))) = pp_id (policy_head C ps)"
    (is "?accepts \<longleftrightarrow> ?honest")
proof -
  let ?h = "prior_seal ps (sh_author seal)" and ?es = "concat pages"
  let ?c = "\<lparr>ac_room = policy_room ps, ac_author = sh_author seal, ac_head = ?h, ac_checked_seal = None\<rparr>"
  from assms(1) have p: "p = \<lparr>sp_chain = ?c, sp_target = seal, sp_policy = pp_id (policy_head C ps)\<rparr>"
    and less: "ah_sequence ?h < sh_sequence seal"
    by (auto simp: prepare_proof_def Let_def prior_seal_def)
  have ne: "?es \<noteq> [] \<longleftrightarrow> pages \<noteq> []" using assms(2) by (cases pages) auto
  have acc: "?accepts \<longleftrightarrow> (ancestry (policy_room ps) (sh_author seal) ?h ?es
      \<and> (\<forall>e\<in>set ?es. ec_sequence (ver_claims e) \<le> sh_sequence seal
           \<and> (ec_sequence (ver_claims e) = sh_sequence seal \<longrightarrow>
                ver_id e = sh_event seal \<and> ec_policy (ver_claims e) = pp_id (policy_head C ps)))
      \<and> chain_end ?h ?es = \<lparr>ah_sequence = sh_sequence seal, ah_event = sh_event seal\<rparr>)"
    by (auto simp: proof_pages_concat [OF assms(2)] seal_loop_iff p proof_complete_def
        simp del: set_concat intro!: author_head.equality)
  show ?thesis
  proof
    assume ?accepts
    then have a: "ancestry (policy_room ps) (sh_author seal) ?h ?es"
      "chain_end ?h ?es = \<lparr>ah_sequence = sh_sequence seal, ah_event = sh_event seal\<rparr>"
      "\<forall>e\<in>set ?es. ec_sequence (ver_claims e) = sh_sequence seal \<longrightarrow>
         ec_policy (ver_claims e) = pp_id (policy_head C ps)"
      using acc by (auto simp del: set_concat)
    have nonempty: "?es \<noteq> []" using a(2) less by (metis author_head.select_convs(1) chain_end_simps(1) less_irrefl)
    have last: "event_head (last ?es) = \<lparr>ah_sequence = sh_sequence seal, ah_event = sh_event seal\<rparr>"
      using a(2) nonempty by (simp only: chain_end_def if_False)
    then have "ec_sequence (ver_claims (last ?es)) = sh_sequence seal" by (simp add: event_head_def)
    with a(1,3) last nonempty last_in_set [OF nonempty] ne show ?honest by blast
  next
    assume h: ?honest
    then have ce: "chain_end ?h ?es = \<lparr>ah_sequence = sh_sequence seal, ah_event = sh_event seal\<rparr>"
      using ne unfolding chain_end_def by (metis (mono_tags))
    have "ver_id (last ?es) = sh_event seal" using h by (simp add: event_head_def)
    with h ce ancestry_below_end [of "policy_room ps" "sh_author seal" ?h ?es] show ?accepts
      unfolding acc by (auto simp del: set_concat)
  qed
qed

theorem seal_proof_exact_witness:
  "prepare_proof toy_crypto (policy_new ex_genesis) ex_seal = Inr \<lparr>sp_chain = ex_chain0, sp_target = ex_seal, sp_policy = 66\<rparr>
   \<and> (\<exists>p'. foldR proof_push \<lparr>sp_chain = ex_chain0, sp_target = ex_seal, sp_policy = 66\<rparr> [[ex_e1]] = Inr p'
        \<and> proof_complete p')"
proof -
  have p: "prepare_proof toy_crypto (policy_new ex_genesis) ex_seal =
      Inr \<lparr>sp_chain = ex_chain0, sp_target = ex_seal, sp_policy = 66\<rparr>"
    by (simp add: prepare_proof_def ex_chain0_def EMPTY_def)
  show ?thesis
    using seal_proof_exact [OF p, of "[[ex_e1]]"] p
    by (simp add: extends_def ex_event_claims_def prior_seal_def EMPTY_def event_head_def)
qed

end
