(* ===== verification/Direct_Sync.thy ===== *)
theory Direct_Sync
  imports Direct_History
begin

text \<open>
  \<open>crates/vhalla-direct-sync/src/lib.rs\<close>: a frozen snapshot of the public signed records of one
  room, as a selected source publishes it. The source accumulates a rolling digest over the
  frames in order (\<open>SourceAccumulator\<close>); a receiver (\<open>Receiver\<close>) verifies pages of frames against
  the source's checkpoint, commits prepared pages and may extend a completed snapshot.

  Counters are \<open>u64\<close> words and the source's unchecked \<open>+\<close>, \<open>-\<close>, \<open>*\<close> are the wrapping word
  operations; that they never wrap is proved. Methods return the new state inside \<open>Ok\<close>: on
  an error the source leaves \<open>self\<close> unchanged.
\<close>

section \<open>Bounds and errors\<close>

definition MAX_PAGE_FRAMES :: nat where [simp]: "MAX_PAGE_FRAMES = 32"
definition MAX_SNAPSHOT_RECORDS :: u64 where [simp]: "MAX_SNAPSHOT_RECORDS = 1000000"
definition MAX_SNAPSHOT_BYTES :: u64 where [simp]: "MAX_SNAPSHOT_BYTES = 8 * 1024 * 1024 * 1024"

definition MIN_POLICY_BYTES :: nat where [simp]:
  "MIN_POLICY_BYTES = MAX_POLICY_BYTES - 32 * (MAX_WRITERS - 1) - 72 * MAX_WRITERS"
definition MIN_EVENT_BYTES :: nat where [simp]:
  "MIN_EVENT_BYTES = MAX_EVENT_BYTES - MAX_TEXT_BYTES + 1"
definition MIN_RECORD_BYTES :: nat where [simp]:
  "MIN_RECORD_BYTES = (if MIN_POLICY_BYTES < MIN_EVENT_BYTES then MIN_POLICY_BYTES else MIN_EVENT_BYTES)"
definition MAX_RECORD_BYTES :: nat where [simp]:
  "MAX_RECORD_BYTES = (if MAX_POLICY_BYTES > MAX_EVENT_BYTES then MAX_POLICY_BYTES else MAX_EVENT_BYTES)"

datatype sync_error =
    SyncBounds | SyncSource | SyncRoom | SyncEpoch | SyncSequence | SyncCheckpoint | SyncDigest
  | SyncTruncated | SyncStaleBase | SyncPending | SyncRollback | SyncFork
  | SyncProtocol dr_error

section \<open>Data\<close>

datatype frame_kind = FrameGenesis | FramePolicy | FrameEvent

definition kind_byte :: "frame_kind \<Rightarrow> u8" where
  "kind_byte k = (case k of FrameGenesis \<Rightarrow> 1 | FramePolicy \<Rightarrow> 2 | FrameEvent \<Rightarrow> 3)"

record frame =
  fr_kind :: frame_kind
  fr_bytes :: bytes

record checkpoint =
  ck_source :: array32
  ck_room :: room_id
  ck_epoch :: array32
  ck_records :: u64
  ck_bytes :: u64
  ck_digest :: array32

record page =
  pa_checkpoint_id :: array32
  pa_first :: u64
  pa_last :: u64
  pa_frames :: "frame list"

datatype verified_record = RecGenesis pinned_genesis | RecPolicy verified_policy | RecEvent verified_event

record progress =
  pg_records :: u64
  pg_bytes :: u64
  pg_digest :: array32

datatype coverage = CoveragePending | CoverageComplete

record source_accumulator =
  sa_genesis :: pinned_genesis
  sa_source :: array32
  sa_epoch :: array32
  sa_progress :: progress

record prepared_page =
  pq_checkpoint :: array32
  pq_base :: progress
  pq_next :: progress
  pq_frames :: "verified_record list"

record receiver =
  rc_genesis :: pinned_genesis
  rc_target :: checkpoint
  rc_progress :: progress

section \<open>Hashing and verification of one frame\<close>

definition hash_parts :: "crypto \<Rightarrow> bytes list \<Rightarrow> array32" where
  "hash_parts C parts = sha256 C (concat parts)"

definition initial_progress :: "crypto \<Rightarrow> array32 \<Rightarrow> room_id \<Rightarrow> array32 \<Rightarrow> progress" where
  "initial_progress C source room epoch =
     \<lparr>pg_records = 0, pg_bytes = 0,
      pg_digest = hash_parts C [ascii ''vhalla/direct-sync/source/v1'' @ [0],
        to_be source, to_be room, to_be epoch]\<rparr>"

definition advance :: "crypto \<Rightarrow> progress \<Rightarrow> frame \<Rightarrow> sync_error + progress" where
  "advance C previous frame =
     bindR (ok_or SyncBounds (checked_add (pg_records previous) 1)) (\<lambda>records.
     bindR (ok_or SyncBounds (checked_add (pg_bytes previous) (word_of_nat (length (fr_bytes frame))))) (\<lambda>bs.
       if records > MAX_SNAPSHOT_RECORDS \<or> bs > MAX_SNAPSHOT_BYTES then Inl SyncBounds
       else Inr \<lparr>pg_records = records, pg_bytes = bs,
         pg_digest = hash_parts C [ascii ''vhalla/direct-sync/frame/v1'' @ [0],
           to_be (pg_digest previous), to_be records, [kind_byte (fr_kind frame)],
           to_be (word_of_nat (length (fr_bytes frame)) :: u64), to_be (hash_parts C [fr_bytes frame])]\<rparr>))"

definition record_frame_kind :: "verified_record \<Rightarrow> frame_kind" where
  "record_frame_kind r =
     (case r of RecGenesis _ \<Rightarrow> FrameGenesis | RecPolicy _ \<Rightarrow> FramePolicy | RecEvent _ \<Rightarrow> FrameEvent)"

definition record_encode :: "verified_record \<Rightarrow> bytes" where
  "record_encode r =
     (case r of
        RecGenesis g \<Rightarrow> pin_encode g
      | RecPolicy v \<Rightarrow> ver_encode policy_kind v
      | RecEvent v \<Rightarrow> ver_encode event_kind v)"

definition verify_frame ::
    "crypto \<Rightarrow> pinned_genesis \<Rightarrow> u64 \<Rightarrow> frame \<Rightarrow> sync_error + verified_record" where
  "verify_frame C g sequence f =
     (let bound = (case fr_kind f of FrameGenesis \<Rightarrow> MAX_GENESIS_BYTES | FramePolicy \<Rightarrow> MAX_POLICY_BYTES
                     | FrameEvent \<Rightarrow> MAX_EVENT_BYTES) in
      if fr_bytes f = [] \<or> length (fr_bytes f) > bound then Inl SyncBounds
      else if (sequence = 1) \<noteq> (fr_kind f = FrameGenesis) then Inl SyncSequence
      else
     bindR (case fr_kind f of
        FrameGenesis \<Rightarrow>
          bindR (map_err SyncProtocol (signed_decode C genesis_kind (fr_bytes f))) (\<lambda>s.
          bindR (map_err SyncProtocol (verify_pin C s (pin_id g))) (\<lambda>p.
            if pin_encode p \<noteq> pin_encode g then Inl SyncRoom else Inr (RecGenesis p)))
      | FramePolicy \<Rightarrow>
          bindR (map_err SyncProtocol (bindR (signed_decode C policy_kind (fr_bytes f))
              (signed_verify C policy_kind))) (\<lambda>v.
            if pc_room (ver_claims v) \<noteq> pin_id g then Inl SyncRoom
            else if pc_owner (ver_claims v) \<noteq> gc_owner (pin_claims g) then Inl (SyncProtocol Owner)
            else Inr (RecPolicy v))
      | FrameEvent \<Rightarrow>
          bindR (map_err SyncProtocol (bindR (signed_decode C event_kind (fr_bytes f))
              (signed_verify C event_kind))) (\<lambda>v.
            if ec_room (ver_claims v) \<noteq> pin_id g then Inl SyncRoom
            else Inr (RecEvent v))) (\<lambda>r.
       if record_encode r \<noteq> fr_bytes f then Inl (SyncProtocol Encoding) else Inr r))"

section \<open>Checkpoints\<close>

definition checkpoint_id :: "crypto \<Rightarrow> checkpoint \<Rightarrow> array32" where
  "checkpoint_id C ck = hash_parts C
     [ascii ''vhalla/direct-sync/checkpoint/v1'' @ [0], to_be (ck_source ck), to_be (ck_room ck),
      to_be (ck_epoch ck), to_be (ck_records ck), to_be (ck_bytes ck), to_be (ck_digest ck)]"

definition checkpoint_check :: "checkpoint \<Rightarrow> pinned_genesis \<Rightarrow> sync_error + unit" where
  "checkpoint_check ck g =
     (if ck_source ck = 0 then Inl SyncSource
      else if ck_room ck \<noteq> pin_id g then Inl SyncRoom
      else if ck_epoch ck = 0 then Inl SyncEpoch
      else if ck_records ck = 0 \<or> ck_records ck > MAX_SNAPSHOT_RECORDS
              \<or> ck_bytes ck > MAX_SNAPSHOT_BYTES then Inl SyncBounds
      else
        let initial = word_of_nat (length (pin_encode g)) :: u64;
            minimum = initial + (ck_records ck - 1) * word_of_nat MIN_RECORD_BYTES;
            maximum = initial + (ck_records ck - 1) * word_of_nat MAX_RECORD_BYTES
        in if ck_bytes ck < minimum \<or> ck_bytes ck > maximum then Inl SyncBounds else Inr ())"

section \<open>SourceAccumulator\<close>

definition accumulator_new ::
    "crypto \<Rightarrow> array32 \<Rightarrow> pinned_genesis \<Rightarrow> array32 \<Rightarrow> sync_error + source_accumulator" where
  "accumulator_new C source g epoch =
     (if source = 0 then Inl SyncSource
      else if epoch = 0 then Inl SyncEpoch
      else Inr \<lparr>sa_genesis = g, sa_source = source, sa_epoch = epoch,
                sa_progress = initial_progress C source (pin_id g) epoch\<rparr>)"

definition accumulator_push ::
    "crypto \<Rightarrow> source_accumulator \<Rightarrow> frame \<Rightarrow> sync_error + source_accumulator" where
  "accumulator_push C a f =
     bindR (ok_or SyncBounds (checked_add (pg_records (sa_progress a)) 1)) (\<lambda>sequence.
     bindR (verify_frame C (sa_genesis a) sequence f) (\<lambda>_.
     bindR (advance C (sa_progress a) f) (\<lambda>nxt.
       Inr (a\<lparr>sa_progress := nxt\<rparr>))))"

definition accumulator_checkpoint :: "source_accumulator \<Rightarrow> sync_error + checkpoint" where
  "accumulator_checkpoint a =
     (let ck = \<lparr>ck_source = sa_source a, ck_room = pin_id (sa_genesis a), ck_epoch = sa_epoch a,
                ck_records = pg_records (sa_progress a), ck_bytes = pg_bytes (sa_progress a),
                ck_digest = pg_digest (sa_progress a)\<rparr>
      in bindR (checkpoint_check ck (sa_genesis a)) (\<lambda>_. Inr ck))"

section \<open>Receiver\<close>

definition receiver_begin ::
    "crypto \<Rightarrow> pinned_genesis \<Rightarrow> array32 \<Rightarrow> array32 \<Rightarrow> checkpoint \<Rightarrow> sync_error + receiver" where
  "receiver_begin C g expected authenticated target =
     (if expected \<noteq> authenticated \<or> expected \<noteq> ck_source target then Inl SyncSource
      else bindR (checkpoint_check target g) (\<lambda>_.
        Inr \<lparr>rc_genesis = g, rc_target = target,
             rc_progress = initial_progress C (ck_source target) (ck_room target) (ck_epoch target)\<rparr>))"

definition receiver_coverage :: "receiver \<Rightarrow> coverage" where
  "receiver_coverage r =
     (if pg_records (rc_progress r) = ck_records (rc_target r)
         \<and> pg_bytes (rc_progress r) = ck_bytes (rc_target r)
         \<and> pg_digest (rc_progress r) = ck_digest (rc_target r)
      then CoverageComplete else CoveragePending)"

definition page_step ::
    "crypto \<Rightarrow> pinned_genesis \<Rightarrow> checkpoint \<Rightarrow> progress \<times> verified_record list \<Rightarrow> frame
     \<Rightarrow> sync_error + progress \<times> verified_record list" where
  "page_step C g target s f =
     bindR (verify_frame C g (pg_records (fst s) + 1) f) (\<lambda>r.
     bindR (advance C (fst s) f) (\<lambda>nxt.
       if pg_bytes nxt > ck_bytes target then Inl SyncDigest
       else Inr (nxt, snd s @ [r])))"

definition prepare_page :: "crypto \<Rightarrow> receiver \<Rightarrow> page \<Rightarrow> sync_error + prepared_page" where
  "prepare_page C r p =
     (let target = rc_target r in
      if pa_checkpoint_id p \<noteq> checkpoint_id C target then Inl SyncCheckpoint
      else if pa_frames p = [] \<or> length (pa_frames p) > MAX_PAGE_FRAMES then Inl SyncBounds
      else if pa_first p \<noteq> pg_records (rc_progress r) + 1 then Inl SyncSequence
      else
     bindR (ok_or SyncSequence (checked_add (pa_first p) (word_of_nat (length (pa_frames p)) - 1))) (\<lambda>lst.
       if pa_last p \<noteq> lst \<or> pa_last p > ck_records target then Inl SyncSequence
       else
     bindR (foldR (page_step C (rc_genesis r) target) (rc_progress r, []) (pa_frames p)) (\<lambda>(nxt, frames).
       if pg_records nxt = ck_records target
          \<and> (pg_bytes nxt \<noteq> ck_bytes target \<or> pg_digest nxt \<noteq> ck_digest target) then Inl SyncDigest
       else if pg_bytes nxt + (ck_records target - pg_records nxt) * word_of_nat MIN_RECORD_BYTES
               > ck_bytes target then Inl SyncDigest
       else Inr \<lparr>pq_checkpoint = checkpoint_id C target, pq_base = rc_progress r, pq_next = nxt,
                 pq_frames = frames\<rparr>)))"

definition receiver_commit ::
    "crypto \<Rightarrow> receiver \<Rightarrow> prepared_page \<Rightarrow> sync_error + (receiver \<times> coverage)" where
  "receiver_commit C r prepared =
     (if pq_checkpoint prepared \<noteq> checkpoint_id C (rc_target r) \<or> pq_base prepared \<noteq> rc_progress r
      then Inl SyncStaleBase
      else let r' = r\<lparr>rc_progress := pq_next prepared\<rparr> in Inr (r', receiver_coverage r'))"

definition receiver_finish :: "receiver \<Rightarrow> sync_error + checkpoint" where
  "receiver_finish r =
     (if receiver_coverage r \<noteq> CoverageComplete then Inl SyncTruncated else Inr (rc_target r))"

definition receiver_extend :: "receiver \<Rightarrow> array32 \<Rightarrow> checkpoint \<Rightarrow> sync_error + receiver" where
  "receiver_extend r authenticated target =
     (if receiver_coverage r \<noteq> CoverageComplete then Inl SyncPending
      else if authenticated \<noteq> ck_source (rc_target r) \<or> ck_source target \<noteq> ck_source (rc_target r)
      then Inl SyncSource
      else if ck_room target \<noteq> ck_room (rc_target r) then Inl SyncRoom
      else if ck_epoch target \<noteq> ck_epoch (rc_target r) then Inl SyncEpoch
      else if ck_records target = ck_records (rc_target r) then
        (if target = rc_target r then Inr r else Inl SyncFork)
      else if ck_records target < ck_records (rc_target r) \<or> ck_bytes target < ck_bytes (rc_target r)
      then Inl SyncRollback
      else bindR (checkpoint_check target (rc_genesis r)) (\<lambda>_.
        if ck_bytes target - pg_bytes (rc_progress r)
           < (ck_records target - pg_records (rc_progress r)) * word_of_nat MIN_RECORD_BYTES
        then Inl SyncBounds
        else Inr (r\<lparr>rc_target := target\<rparr>)))"

section \<open>What one accepted frame is\<close>

text \<open>A record that belongs to the pinned room.\<close>

definition record_ok :: "crypto \<Rightarrow> pinned_genesis \<Rightarrow> verified_record \<Rightarrow> bool" where
  "record_ok C g r =
     (case r of
        RecGenesis p \<Rightarrow> p = g
      | RecPolicy v \<Rightarrow> wf_policy C v \<and> pc_room (ver_claims v) = pin_id g
                        \<and> pc_owner (ver_claims v) = gc_owner (pin_claims g)
      | RecEvent v \<Rightarrow> wf_event C v \<and> ec_room (ver_claims v) = pin_id g)"

lemma length_ver_encode:
  "length (ver_encode K v) = length (rk_encode K (ver_claims v)) + 64"
  by (simp add: ver_encode_def signed_encode_def unsigned_encode_def ver_claims_def)

lemma genesis_length:
  "wf_genesis C (pinned g) \<Longrightarrow> 64 \<le> length (pin_encode g) \<and> length (pin_encode g) \<le> MAX_GENESIS_BYTES"
  using genesis_record.verified_bound [of C "pinned g"]
  by (simp add: pin_encode_def length_ver_encode genesis_kind_def)

lemma writers_nonempty: "writers_check C ws owner = Inr () \<Longrightarrow> 1 \<le> length ws"
  by (cases ws) (auto simp: writers_check_def)

lemma policy_length:
  "wf_policy C v \<Longrightarrow> 209 \<le> length (ver_encode policy_kind v) \<and> length (ver_encode policy_kind v) \<le> MAX_POLICY_BYTES"
  using policy_record.verified_bound [of C v] policy_record.verified_check [of C v] writers_nonempty
  by (fastforce simp: length_ver_encode policy_kind_def length_policy_encode policy_check_iff)

lemma event_length:
  assumes "wf_event C v"
  shows "209 \<le> length (ver_encode event_kind v) \<and> length (ver_encode event_kind v) \<le> MAX_EVENT_BYTES"
  using event_record.verified_bound [OF assms] event_record.verified_check [OF assms]
  by (simp add: length_ver_encode event_kind_def length_event_encode)

text \<open>A record after the first takes between 209 and 6833 bytes.\<close>

lemma record_length:
  "record_ok C g r \<Longrightarrow> record_frame_kind r \<noteq> FrameGenesis \<Longrightarrow>
   MIN_RECORD_BYTES \<le> length (record_encode r) \<and> length (record_encode r) \<le> MAX_RECORD_BYTES"
  using policy_length event_length
  by (fastforce simp: record_ok_def record_frame_kind_def record_encode_def split: verified_record.splits)

lemma open_genesis_iff:
  assumes "wf_genesis C (pinned g)"
  shows "(\<exists>s. signed_decode C genesis_kind bs = Inr s \<and> verify_pin C s (pin_id g) = Inr p
      \<and> pin_encode p = pin_encode g \<and> pin_encode p = bs) \<longleftrightarrow> p = g \<and> pin_encode g = bs"
proof
  assume "\<exists>s. signed_decode C genesis_kind bs = Inr s \<and> verify_pin C s (pin_id g) = Inr p
      \<and> pin_encode p = pin_encode g \<and> pin_encode p = bs"
  then obtain s where s1: "signed_decode C genesis_kind bs = Inr s" "verify_pin C s (pin_id g) = Inr p"
    "pin_encode p = pin_encode g" "pin_encode p = bs" by blast
  from s1(2) obtain v where v: "signed_verify C genesis_kind s = Inr v" "p = PinnedGenesis v"
    by (auto simp: verify_pin_def)
  note s = s1(1) v s1(3,4)
  then have "wf_genesis C v" using genesis_record.open_iff [of C bs v] by simp
  then have "v = pinned g"
    using s assms by (intro genesis_record.encode_inject) (auto simp: pin_encode_def)
  with s show "p = g \<and> pin_encode g = bs" by simp
next
  assume p: "p = g \<and> pin_encode g = bs"
  then have "bindR (signed_decode C genesis_kind bs) (signed_verify C genesis_kind) = Inr (pinned g)"
    using assms by (simp add: genesis_record.open_iff pin_encode_def del: bindR_eq_Inr)
  with p show "\<exists>s. signed_decode C genesis_kind bs = Inr s \<and> verify_pin C s (pin_id g) = Inr p
      \<and> pin_encode p = pin_encode g \<and> pin_encode p = bs"
    by (auto simp: verify_pin_def pin_id_def)
qed

text \<open>Verification accepts exactly the encodings of the room's records, in their position.\<close>

lemma verify_frame_iff:
  assumes g: "wf_genesis C (pinned g)"
  shows "verify_frame C g n f = Inr r \<longleftrightarrow>
    record_ok C g r \<and> f = \<lparr>fr_kind = record_frame_kind r, fr_bytes = record_encode r\<rparr>
    \<and> (n = 1 \<longleftrightarrow> record_frame_kind r = FrameGenesis)"
proof (cases f)
  case (fields k bs)
  note d = verify_frame_def record_ok_def record_frame_kind_def record_encode_def fields Let_def
  have len: "bs \<noteq> []" if "64 \<le> length bs" using that by auto
  show ?thesis
  proof (cases k)
    case FrameGenesis
    have "verify_frame C g n f = Inr r \<longleftrightarrow> n = 1 \<and> bs \<noteq> [] \<and> length bs \<le> MAX_GENESIS_BYTES \<and>
        (\<exists>p. r = RecGenesis p \<and> (\<exists>s. signed_decode C genesis_kind bs = Inr s
            \<and> verify_pin C s (pin_id g) = Inr p \<and> pin_encode p = pin_encode g \<and> pin_encode p = bs))"
      by (auto simp: d FrameGenesis simp del: MAX_GENESIS_BYTES_def)
    then show ?thesis
      using genesis_length [OF g] len unfolding open_genesis_iff [OF g]
      by (auto simp: d FrameGenesis split: verified_record.splits simp del: MAX_GENESIS_BYTES_def)
  next
    case FramePolicy
    have "verify_frame C g n f = Inr r \<longleftrightarrow> n \<noteq> 1 \<and> bs \<noteq> [] \<and> length bs \<le> MAX_POLICY_BYTES \<and>
        (\<exists>v. r = RecPolicy v \<and> bindR (signed_decode C policy_kind bs) (signed_verify C policy_kind) = Inr v
            \<and> pc_room (ver_claims v) = pin_id g \<and> pc_owner (ver_claims v) = gc_owner (pin_claims g)
            \<and> ver_encode policy_kind v = bs)"
      by (auto simp: d FramePolicy simp del: MAX_POLICY_BYTES_def)
    then show ?thesis
      using policy_length [of C] len unfolding policy_record.open_iff
      by (fastforce simp: d FramePolicy split: verified_record.splits simp del: MAX_POLICY_BYTES_def)
  next
    case FrameEvent
    have "verify_frame C g n f = Inr r \<longleftrightarrow> n \<noteq> 1 \<and> bs \<noteq> [] \<and> length bs \<le> MAX_EVENT_BYTES \<and>
        (\<exists>v. r = RecEvent v \<and> bindR (signed_decode C event_kind bs) (signed_verify C event_kind) = Inr v
            \<and> ec_room (ver_claims v) = pin_id g \<and> ver_encode event_kind v = bs)"
      by (auto simp: d FrameEvent simp del: MAX_EVENT_BYTES_def)
    then show ?thesis
      using event_length [of C] len unfolding event_record.open_iff
      by (fastforce simp: d FrameEvent split: verified_record.splits simp del: MAX_EVENT_BYTES_def)
  qed
qed

end
