(* ===== verification/Sync_Rolling.thy ===== *)
theory Sync_Rolling
  imports Direct_Sync
begin

text \<open>
  The rolling digest of a snapshot as a function of the list of frames, in natural numbers:
  the abstract log that source and receiver refine. The word counters of both sides are the
  length and the byte total of their logs, and two logs with one digest are equal unless two
  of their transcripts collide.
\<close>

section \<open>The abstract log\<close>

definition log_bytes :: "frame list \<Rightarrow> nat" where
  "log_bytes fs = sum_list (map (\<lambda>f. length (fr_bytes f)) fs)"

definition frame_transcript :: "crypto \<Rightarrow> progress \<Rightarrow> frame \<Rightarrow> bytes" where
  "frame_transcript C p f =
     ascii ''vhalla/direct-sync/frame/v1'' @ [0] @ to_be (pg_digest p) @ to_be (pg_records p + 1)
     @ [kind_byte (fr_kind f)] @ to_be (word_of_nat (length (fr_bytes f)) :: u64)
     @ to_be (sha256 C (fr_bytes f))"

definition roll :: "crypto \<Rightarrow> progress \<Rightarrow> frame \<Rightarrow> progress" where
  "roll C p f = \<lparr>pg_records = pg_records p + 1, pg_bytes = pg_bytes p + word_of_nat (length (fr_bytes f)),
     pg_digest = sha256 C (frame_transcript C p f)\<rparr>"

lemma roll_digest: "pg_digest (roll C p f) = sha256 C (frame_transcript C p f)"
  by (simp add: roll_def)

abbreviation rolled :: "crypto \<Rightarrow> progress \<Rightarrow> frame list \<Rightarrow> progress" where
  "rolled C \<equiv> foldl (roll C)"

text \<open>A log the room accepts: every frame verifies in its position, within the limits.\<close>

definition source_log :: "crypto \<Rightarrow> pinned_genesis \<Rightarrow> frame list \<Rightarrow> bool" where
  "source_log C g fs \<longleftrightarrow>
     (\<forall>i<length fs. is_ok (verify_frame C g (word_of_nat (Suc i)) (fs ! i)))
     \<and> length fs \<le> 1000000 \<and> log_bytes fs \<le> 2 ^ 33"

lemma log_bytes_simps [simp]:
  "log_bytes [] = 0" "log_bytes (f # fs) = length (fr_bytes f) + log_bytes fs" "log_bytes (fs @ gs) = log_bytes fs + log_bytes gs"
  by (simp_all add: log_bytes_def)

lemma verify_frame_length:
  assumes "wf_genesis C (pinned g)" and "is_ok (verify_frame C g n f)"
  shows "n = 1 \<Longrightarrow> fr_bytes f = pin_encode g"
    and "n \<noteq> 1 \<Longrightarrow> 209 \<le> length (fr_bytes f) \<and> length (fr_bytes f) \<le> 6833"
    and "length (fr_bytes f) \<le> 6833"
proof -
  from assms(2) obtain r where "verify_frame C g n f = Inr r" by (auto simp: is_ok_iff)
  then have r: "record_ok C g r" "f = \<lparr>fr_kind = record_frame_kind r, fr_bytes = record_encode r\<rparr>"
    "n = 1 \<longleftrightarrow> record_frame_kind r = FrameGenesis"
    using verify_frame_iff [OF assms(1)] by blast+
  show first: "fr_bytes f = pin_encode g" if "n = 1"
    using r that by (auto simp: record_ok_def record_frame_kind_def record_encode_def split: verified_record.splits)
  show rest: "209 \<le> length (fr_bytes f) \<and> length (fr_bytes f) \<le> 6833" if "n \<noteq> 1"
    using record_length [OF r(1)] r that by simp
  show "length (fr_bytes f) \<le> 6833"
    using first rest genesis_length [OF assms(1)] by (cases "n = 1") auto
qed

lemma unat_position: "i < 1000000 \<Longrightarrow> word_of_nat (Suc i) = (1 :: u64) \<longleftrightarrow> i = 0"
  by (auto simp: word_unat_eq_iff unat_of_nat simp del: of_nat_Suc)

lemma log_frame_length:
  assumes "wf_genesis C (pinned g)" and "source_log C g fs" and "i < length fs"
  shows "i = 0 \<Longrightarrow> fr_bytes (fs ! i) = pin_encode g"
    and "i \<noteq> 0 \<Longrightarrow> 209 \<le> length (fr_bytes (fs ! i)) \<and> length (fr_bytes (fs ! i)) \<le> 6833"
proof -
  have ok: "is_ok (verify_frame C g (word_of_nat (Suc i)) (fs ! i))" and i: "i < 1000000"
    using assms(2,3) by (auto simp: source_log_def)
  show "i = 0 \<Longrightarrow> fr_bytes (fs ! i) = pin_encode g"
    using verify_frame_length(1) [OF assms(1) ok] by simp
  show "i \<noteq> 0 \<Longrightarrow> 209 \<le> length (fr_bytes (fs ! i)) \<and> length (fr_bytes (fs ! i)) \<le> 6833"
    using verify_frame_length(2) [OF assms(1) ok] unat_position [OF i] by simp
qed

lemma total_bounds:
  "\<forall>f\<in>set fs. a \<le> length (fr_bytes f) \<and> length (fr_bytes f) \<le> b \<Longrightarrow>
   length fs * a \<le> log_bytes fs \<and> log_bytes fs \<le> length fs * b"
  by (induction fs) auto

lemma log_suffix_total:
  assumes "wf_genesis C (pinned g)" and "source_log C g (fs @ gs)" and "fs \<noteq> []"
  shows "length gs * 209 \<le> log_bytes gs \<and> log_bytes gs \<le> length gs * 6833"
proof (rule total_bounds, rule ballI)
  fix f assume "f \<in> set gs"
  then obtain j where "j < length gs" "f = gs ! j" by (auto simp: in_set_conv_nth)
  moreover have "(fs @ gs) ! (length fs + j) = gs ! j" by (simp add: nth_append)
  ultimately show "209 \<le> length (fr_bytes f) \<and> length (fr_bytes f) \<le> 6833"
    using log_frame_length(2) [OF assms(1,2), of "length fs + j"] assms(3) by simp
qed

lemma log_total:
  assumes "wf_genesis C (pinned g)" and "source_log C g fs" and "fs \<noteq> []"
  shows "length (pin_encode g) + (length fs - 1) * 209 \<le> log_bytes fs
    \<and> log_bytes fs \<le> length (pin_encode g) + (length fs - 1) * 6833"
proof -
  from assms(3) obtain f gs where fs: "fs = [f] @ gs" by (cases fs) auto
  have "fr_bytes f = pin_encode g" using log_frame_length(1) [OF assms(1,2), of 0] fs by simp
  with log_suffix_total [OF assms(1), of "[f]" gs] assms(2) fs show ?thesis by simp
qed

lemma rolled_counts:
  assumes "unat (pg_records p) + length fs < 2 ^ 64" and "unat (pg_bytes p) + log_bytes fs < 2 ^ 64"
  shows "unat (pg_records (rolled C p fs)) = unat (pg_records p) + length fs
    \<and> unat (pg_bytes (rolled C p fs)) = unat (pg_bytes p) + log_bytes fs"
  using assms
proof (induction fs arbitrary: p)
  case Nil
  then show ?case by simp
next
  case (Cons f fs)
  have "unat (pg_records (roll C p f)) = Suc (unat (pg_records p))"
    using Cons.prems(1) by (simp add: roll_def unat_plus_noloss)
  moreover have "unat (pg_bytes (roll C p f)) = unat (pg_bytes p) + length (fr_bytes f)"
    using Cons.prems(2) by (simp add: roll_def unat_plus_noloss unat_of_nat)
  ultimately show ?case using Cons.IH [of "roll C p f"] Cons.prems by simp
qed

lemma log_counts:
  assumes "source_log C g fs"
  shows "unat (pg_records (rolled C (initial_progress C' a b c) fs)) = length fs"
    and "unat (pg_bytes (rolled C (initial_progress C' a b c) fs)) = log_bytes fs"
  using rolled_counts [of "initial_progress C' a b c" fs] assms
  by (simp_all add: source_log_def initial_progress_def)

section \<open>One step of either side\<close>

lemma advance_iff:
  assumes "length (fr_bytes f) < 2 ^ 32"
  shows "advance C p f = Inr q \<longleftrightarrow>
    q = roll C p f \<and> unat (pg_records p) < 1000000 \<and> unat (pg_bytes p) + length (fr_bytes f) \<le> 2 ^ 33"
proof -
  let ?n = "word_of_nat (length (fr_bytes f)) :: u64"
  have n: "unat ?n = length (fr_bytes f)" using assms by (simp add: unat_of_nat)
  have rec: "checked_add (pg_records p) 1 = Some r \<and> \<not> MAX_SNAPSHOT_RECORDS < r \<longleftrightarrow>
      r = pg_records p + 1 \<and> unat (pg_records p) < 1000000" for r
    by (auto simp: checked_add_def word_less_nat_alt unat_plus_noloss split: if_splits)
  have byt: "checked_add (pg_bytes p) ?n = Some b \<and> \<not> MAX_SNAPSHOT_BYTES < b \<longleftrightarrow>
      b = pg_bytes p + ?n \<and> unat (pg_bytes p) + length (fr_bytes f) \<le> 2 ^ 33" for b
    by (auto simp: checked_add_def word_less_nat_alt unat_plus_noloss n split: if_splits)
  have "advance C p f = Inr q \<longleftrightarrow> (\<exists>r b. (checked_add (pg_records p) 1 = Some r \<and> \<not> MAX_SNAPSHOT_RECORDS < r)
      \<and> (checked_add (pg_bytes p) ?n = Some b \<and> \<not> MAX_SNAPSHOT_BYTES < b)
      \<and> q = \<lparr>pg_records = r, pg_bytes = b, pg_digest = hash_parts C [ascii ''vhalla/direct-sync/frame/v1'' @ [0],
           to_be (pg_digest p), to_be r, [kind_byte (fr_kind f)], to_be ?n, to_be (hash_parts C [fr_bytes f])]\<rparr>)"
    by (auto simp: advance_def simp del: MAX_SNAPSHOT_RECORDS_def MAX_SNAPSHOT_BYTES_def)
  also have "\<dots> \<longleftrightarrow> q = roll C p f \<and> unat (pg_records p) < 1000000 \<and> unat (pg_bytes p) + length (fr_bytes f) \<le> 2 ^ 33"
    unfolding rec byt by (auto simp: roll_def frame_transcript_def hash_parts_def)
  finally show ?thesis .
qed

text \<open>Appending a frame to a log, as both sides do it.\<close>

lemma log_snoc_iff:
  assumes g: "wf_genesis C (pinned g)" and log: "source_log C g fs"
    and p: "p = rolled C (initial_progress C a b c) fs"
  shows "is_ok (verify_frame C g (pg_records p + 1) f) \<and> advance C p f = Inr q \<longleftrightarrow>
    source_log C g (fs @ [f]) \<and> q = rolled C (initial_progress C a b c) (fs @ [f])"
proof -
  have cnt: "unat (pg_records p) = length fs" "unat (pg_bytes p) = log_bytes fs"
    using log_counts [OF log] p by simp_all
  then have "pg_records p = word_of_nat (length fs)"
    using log by (simp add: word_unat_eq_iff unat_of_nat source_log_def)
  then have pos: "pg_records p + 1 = word_of_nat (Suc (length fs))" by simp
  have nth: "(\<forall>i<length (fs @ [f]). is_ok (verify_frame C g (word_of_nat (Suc i)) ((fs @ [f]) ! i))) \<longleftrightarrow>
      is_ok (verify_frame C g (pg_records p + 1) f)"
    using log unfolding pos by (auto simp: source_log_def nth_append less_Suc_eq)
  show ?thesis
  proof (cases "is_ok (verify_frame C g (pg_records p + 1) f)")
    case True
    then have "length (fr_bytes f) \<le> 6833" by (rule verify_frame_length(3) [OF g])
    then have "advance C p f = Inr q \<longleftrightarrow> q = roll C p f \<and> length fs < 1000000 \<and> log_bytes fs + length (fr_bytes f) \<le> 2 ^ 33"
      using advance_iff [of f C p q] cnt by simp
    with True nth p show ?thesis by (auto simp: source_log_def)
  next
    case False
    with nth show ?thesis by (auto simp: source_log_def)
  qed
qed

lemma source_log_Nil [simp]: "source_log C g []"
  by (simp add: source_log_def)

lemma source_log_append: "source_log C g (fs @ gs) \<Longrightarrow> source_log C g fs"
  by (auto simp: source_log_def nth_append split: if_splits dest: spec [where x = "_ :: nat"])

section \<open>Equal digests, equal logs\<close>

text \<open>All byte strings hashed while rolling over a log.\<close>

fun log_transcripts :: "crypto \<Rightarrow> progress \<Rightarrow> frame list \<Rightarrow> bytes set" where
  "log_transcripts C p [] = {}"
| "log_transcripts C p (f # fs) = {frame_transcript C p f, fr_bytes f} \<union> log_transcripts C (roll C p f) fs"

lemma log_transcripts_snoc:
  "log_transcripts C p (fs @ [f]) =
   log_transcripts C p fs \<union> {frame_transcript C (rolled C p fs) f, fr_bytes f}"
  by (induction fs arbitrary: p) auto

lemma frame_transcript_inject:
  assumes "frame_transcript C p f = frame_transcript C' q h"
  shows "pg_digest p = pg_digest q \<and> kind_byte (fr_kind f) = kind_byte (fr_kind h)
    \<and> sha256 C (fr_bytes f) = sha256 C' (fr_bytes h)"
  using assms
  by (simp add: frame_transcript_def append_eq_append_conv to_be_inject)

lemma kind_byte_inject [simp]: "kind_byte k = kind_byte k' \<longleftrightarrow> k = k'"
  by (cases k; cases k') (simp_all add: kind_byte_def)

lemma rolled_inject:
  assumes "length fs = length hs" and "pg_digest (rolled C p fs) = pg_digest (rolled C q hs)"
    and "collision_free C (log_transcripts C p fs \<union> log_transcripts C q hs)"
  shows "fs = hs"
  using assms
proof (induction fs arbitrary: hs rule: rev_induct)
  case Nil
  then show ?case by simp
next
  case (snoc f fs)
  then obtain h ks where hs: "hs = ks @ [h]" "length fs = length ks"
    by (metis length_append_singleton length_Suc_conv_rev)
  let ?S = "log_transcripts C p (fs @ [f]) \<union> log_transcripts C q hs"
  have "frame_transcript C (rolled C p fs) f = frame_transcript C (rolled C q ks) h"
    using snoc.prems(2) hs
    by (intro collision_freeD [OF snoc.prems(3)]) (auto simp: log_transcripts_snoc roll_digest)
  note inj = frame_transcript_inject [OF this]
  then have "fr_bytes f = fr_bytes h"
    using hs by (intro collision_freeD [OF snoc.prems(3)]) (auto simp: log_transcripts_snoc)
  moreover have "fs = ks"
    using snoc.IH [OF hs(2)] inj snoc.prems(3) hs
    by (auto simp: log_transcripts_snoc intro: collision_free_mono)
  ultimately show ?case using inj hs(1) by (auto intro: frame.equality)
qed

section \<open>Checkpoints in natural numbers\<close>

lemma checkpoint_check_iff:
  assumes "length (pin_encode g) \<le> MAX_GENESIS_BYTES"
  shows "checkpoint_check ck g = Inr u \<longleftrightarrow>
    ck_source ck \<noteq> 0 \<and> ck_room ck = pin_id g \<and> ck_epoch ck \<noteq> 0
    \<and> 0 < unat (ck_records ck) \<and> unat (ck_records ck) \<le> 1000000 \<and> unat (ck_bytes ck) \<le> 2 ^ 33
    \<and> length (pin_encode g) + (unat (ck_records ck) - 1) * 209 \<le> unat (ck_bytes ck)
    \<and> unat (ck_bytes ck) \<le> length (pin_encode g) + (unat (ck_records ck) - 1) * 6833"
proof (cases "ck_records ck \<noteq> 0 \<and> unat (ck_records ck) \<le> 1000000")
  case True
  let ?L = "word_of_nat (length (pin_encode g)) :: u64" and ?n = "ck_records ck - 1"
  have L: "unat ?L = length (pin_encode g)" using assms by (simp add: unat_of_nat)
  have n: "unat ?n = unat (ck_records ck) - 1"
    using True by (simp add: unat_minus_one)
  have mul: "unat (?n * word_of_nat k) = (unat (ck_records ck) - 1) * k" if "k \<le> 6833" for k
  proof -
    have k: "unat (word_of_nat k :: u64) = k" using that by (simp add: unat_of_nat)
    have "(unat (ck_records ck) - 1) * k \<le> 1000000 * 6833" using True that by (intro mult_mono) auto
    then show ?thesis using k n by (subst unat_times_noloss) simp_all
  qed
  have bound: "unat (?L + ?n * word_of_nat k) = length (pin_encode g) + (unat (ck_records ck) - 1) * k"
    if "k \<le> 6833" for k
  proof -
    have "(unat (ck_records ck) - 1) * k \<le> 1000000 * 6833" using True that by (intro mult_mono) auto
    then show ?thesis using mul [OF that] L assms by (subst unat_plus_noloss) simp_all
  qed
  show ?thesis
    using True bound [of 209] bound [of 6833]
    by (auto simp: checkpoint_check_def Let_def word_less_nat_alt word_unat_eq_iff)
next
  case False
  then show ?thesis
    by (auto simp: checkpoint_check_def word_less_nat_alt word_unat_eq_iff)
qed

end
