(* ===== verification/Sync_Machine.thy ===== *)
theory Sync_Machine
  imports Sync_Rolling
begin

text \<open>
  Source and receiver of a snapshot as refinements of the abstract log. The receiver is a
  state machine: pages may be prepared, committed in any later state, and a completed
  snapshot extended; a ghost log records the frames of the committed pages.
\<close>

section \<open>The source\<close>

lemma accumulator_push_iff:
  assumes g: "wf_genesis C (pinned (sa_genesis a))" and log: "source_log C (sa_genesis a) fs"
    and p: "sa_progress a = rolled C (initial_progress C x y z) fs"
  shows "accumulator_push C a f = Inr a' \<longleftrightarrow>
    source_log C (sa_genesis a) (fs @ [f])
    \<and> a' = a\<lparr>sa_progress := rolled C (initial_progress C x y z) (fs @ [f])\<rparr>"
proof -
  have "unat (pg_records (sa_progress a)) = length fs" using log_counts [OF log] p by simp
  then have "checked_add (pg_records (sa_progress a)) 1 = Some (pg_records (sa_progress a) + 1)"
    using log by (simp add: checked_add_def source_log_def)
  then have "accumulator_push C a f = Inr a' \<longleftrightarrow>
      (\<exists>q. (is_ok (verify_frame C (sa_genesis a) (pg_records (sa_progress a) + 1) f) \<and> advance C (sa_progress a) f = Inr q)
         \<and> a' = a\<lparr>sa_progress := q\<rparr>)"
    by (auto simp: accumulator_push_def is_ok_iff)
  then show ?thesis using log_snoc_iff [OF g log p] by auto
qed

lemma accumulated_iff:
  assumes "wf_genesis C (pinned g)" and "accumulator_new C src g ep = Inr a0"
  shows "foldR (accumulator_push C) a0 fs = Inr a \<longleftrightarrow>
    source_log C g fs \<and> a = a0\<lparr>sa_progress := rolled C (initial_progress C src (pin_id g) ep) fs\<rparr>"
proof (induction fs arbitrary: a rule: rev_induct)
  case Nil
  then show ?case using assms(2) by (auto simp: accumulator_new_def split: if_splits)
next
  case (snoc f fs)
  have g: "sa_genesis a0 = g" using assms(2) by (auto simp: accumulator_new_def split: if_splits)
  let ?a = "a0\<lparr>sa_progress := rolled C (initial_progress C src (pin_id g) ep) fs\<rparr>"
  show ?case
  proof (cases "source_log C g fs")
    case True
    then have "foldR (accumulator_push C) a0 (fs @ [f]) = accumulator_push C ?a f"
      using snoc.IH [of ?a] by (simp add: foldR_snoc)
    then show ?thesis
      using accumulator_push_iff [of C ?a fs src "pin_id g" ep f a] assms(1) g True by simp
  next
    case False
    then show ?thesis using snoc.IH source_log_append by (auto simp: foldR_snoc)
  qed
qed

lemma accumulator_checkpoint_iff:
  assumes "wf_genesis C (pinned g)" and "accumulator_new C src g ep = Inr a0" and "source_log C g fs"
  shows "accumulator_checkpoint (a0\<lparr>sa_progress := rolled C (initial_progress C src (pin_id g) ep) fs\<rparr>) = Inr ck \<longleftrightarrow>
    fs \<noteq> [] \<and> ck = \<lparr>ck_source = src, ck_room = pin_id g, ck_epoch = ep, ck_records = word_of_nat (length fs),
      ck_bytes = word_of_nat (log_bytes fs),
      ck_digest = pg_digest (rolled C (initial_progress C src (pin_id g) ep) fs)\<rparr>"
proof -
  let ?p = "rolled C (initial_progress C src (pin_id g) ep) fs"
  have a0: "sa_genesis a0 = g" "sa_source a0 = src" "sa_epoch a0 = ep" "src \<noteq> 0" "ep \<noteq> 0"
    using assms(2) by (auto simp: accumulator_new_def split: if_splits)
  have n: "unat (pg_records ?p) = length fs" "unat (pg_bytes ?p) = log_bytes fs"
    using log_counts [OF assms(3)] by simp_all
  then have w: "word_of_nat (length fs) = pg_records ?p" "word_of_nat (log_bytes fs) = pg_bytes ?p"
    by (metis of_nat_unat word_of_nat_eq_iff unsigned_of_nat ucast_id word_unat_eq_iff)+
  have "fs \<noteq> [] \<Longrightarrow> length (pin_encode g) + (length fs - 1) * 209 \<le> log_bytes fs
      \<and> log_bytes fs \<le> length (pin_encode g) + (length fs - 1) * 6833"
    by (rule log_total [OF assms(1,3)])
  moreover have "length fs \<le> 1000000" "log_bytes fs \<le> 2 ^ 33" using assms(3) by (auto simp: source_log_def)
  moreover have "length (pin_encode g) \<le> MAX_GENESIS_BYTES" using genesis_length [OF assms(1)] by simp
  ultimately show ?thesis
    unfolding w
    by (auto simp: accumulator_checkpoint_def Let_def a0 checkpoint_check_iff n)
qed

section \<open>The receiver\<close>

record recv_sys =
  rv_receiver :: receiver
  rv_tokens :: "(prepared_page \<times> frame list) set"
  rv_log :: "frame list"

inductive recv_step :: "crypto \<Rightarrow> recv_sys \<Rightarrow> recv_sys \<Rightarrow> bool" for C :: crypto where
  prepare: "prepare_page C (rv_receiver s) p = Inr t \<Longrightarrow>
     recv_step C s (s\<lparr>rv_tokens := insert (t, pa_frames p) (rv_tokens s)\<rparr>)"
| commit: "(t, fs) \<in> rv_tokens s \<Longrightarrow> receiver_commit C (rv_receiver s) t = Inr (r', cov) \<Longrightarrow>
     recv_step C s (s\<lparr>rv_receiver := r', rv_tokens := rv_tokens s - {(t, fs)}, rv_log := rv_log s @ fs\<rparr>)"
| extend: "receiver_extend (rv_receiver s) authenticated target = Inr r' \<Longrightarrow>
     recv_step C s (s\<lparr>rv_receiver := r'\<rparr>)"

inductive recv_reach :: "crypto \<Rightarrow> pinned_genesis \<Rightarrow> recv_sys \<Rightarrow> bool"
  for C :: crypto and g :: pinned_genesis where
  start: "wf_genesis C (pinned g) \<Longrightarrow> receiver_begin C g expected authenticated target = Inr r \<Longrightarrow>
     recv_reach C g \<lparr>rv_receiver = r, rv_tokens = {}, rv_log = []\<rparr>"
| step: "recv_reach C g s \<Longrightarrow> recv_step C s s' \<Longrightarrow> recv_reach C g s'"

definition start_progress :: "crypto \<Rightarrow> checkpoint \<Rightarrow> progress" where
  "start_progress C ck = initial_progress C (ck_source ck) (ck_room ck) (ck_epoch ck)"

definition page_token_ok :: "crypto \<Rightarrow> pinned_genesis \<Rightarrow> progress \<Rightarrow> prepared_page \<times> frame list \<Rightarrow> bool" where
  "page_token_ok C g p0 t \<longleftrightarrow>
     (\<exists>log. source_log C g (log @ snd t) \<and> pq_base (fst t) = rolled C p0 log
        \<and> pq_next (fst t) = rolled C p0 (log @ snd t))"

definition recv_inv :: "crypto \<Rightarrow> pinned_genesis \<Rightarrow> recv_sys \<Rightarrow> bool" where
  "recv_inv C g s \<longleftrightarrow>
     wf_genesis C (pinned g) \<and> rc_genesis (rv_receiver s) = g
     \<and> checkpoint_check (rc_target (rv_receiver s)) g = Inr ()
     \<and> source_log C g (rv_log s)
     \<and> rc_progress (rv_receiver s) = rolled C (start_progress C (rc_target (rv_receiver s))) (rv_log s)
     \<and> (\<forall>t\<in>rv_tokens s. page_token_ok C g (start_progress C (rc_target (rv_receiver s))) t)"

text \<open>One iteration of the page loop, and the loop: it appends to the log.\<close>

definition encodes :: "crypto \<Rightarrow> pinned_genesis \<Rightarrow> frame \<Rightarrow> verified_record \<Rightarrow> bool" where
  "encodes C g f r \<longleftrightarrow> record_ok C g r \<and> f = \<lparr>fr_kind = record_frame_kind r, fr_bytes = record_encode r\<rparr>"

lemma page_step_iff:
  assumes g: "wf_genesis C (pinned g)" and log: "source_log C g log" and p0: "p0 = start_progress C ck"
  shows "page_step C g target (rolled C p0 log, rs) f = Inr s \<longleftrightarrow>
    source_log C g (log @ [f]) \<and> log_bytes (log @ [f]) \<le> unat (ck_bytes target)
    \<and> (\<exists>r. encodes C g f r \<and> s = (rolled C p0 (log @ [f]), rs @ [r]))"
proof -
  let ?p = "rolled C p0 log" and ?q = "rolled C p0 (log @ [f])"
  have snoc: "is_ok (verify_frame C g (pg_records ?p + 1) f) \<and> advance C ?p f = Inr q' \<longleftrightarrow>
      source_log C g (log @ [f]) \<and> q' = ?q" for q'
    using log_snoc_iff [OF g log] p0 by (simp add: start_progress_def)
  have cnt: "source_log C g (log @ [f]) \<Longrightarrow> \<not> ck_bytes target < pg_bytes ?q \<longleftrightarrow>
      log_bytes (log @ [f]) \<le> unat (ck_bytes target)"
    using log_counts(2) [of C g "log @ [f]"] p0 unfolding start_progress_def
    by (simp add: word_less_nat_alt linorder_not_less)
  have same: "encodes C g f r \<longleftrightarrow> verify_frame C g (pg_records ?p + 1) f = Inr r"
    if "is_ok (verify_frame C g (pg_records ?p + 1) f)" for r
    using that by (auto simp: encodes_def is_ok_iff verify_frame_iff [OF g])
  have "page_step C g target (?p, rs) f = Inr s \<longleftrightarrow>
      (\<exists>r q'. (is_ok (verify_frame C g (pg_records ?p + 1) f) \<and> advance C ?p f = Inr q')
         \<and> encodes C g f r \<and> \<not> ck_bytes target < pg_bytes q' \<and> s = (q', rs @ [r]))"
    using same by (auto simp: page_step_def is_ok_iff)
  then show ?thesis unfolding snoc using cnt by blast
qed

lemma page_loop_iff:
  assumes g: "wf_genesis C (pinned g)" and "source_log C g log" and p0: "p0 = start_progress C ck"
  shows "foldR (page_step C g target) (rolled C p0 log, rs) fs = Inr (q, rs') \<longleftrightarrow>
    source_log C g (log @ fs) \<and> q = rolled C p0 (log @ fs)
    \<and> (fs \<noteq> [] \<longrightarrow> log_bytes (log @ fs) \<le> unat (ck_bytes target))
    \<and> (\<exists>new. rs' = rs @ new \<and> list_all2 (encodes C g) fs new)"
  using assms(2)
proof (induction fs arbitrary: log rs)
  case Nil
  then show ?case by auto
next
  case (Cons f fs)
  note step = page_step_iff [OF g Cons.prems p0, of target rs f]
  show ?case
  proof (cases "source_log C g (log @ [f])")
    case True
    have IH: "foldR (page_step C g target) (rolled C p0 (log @ [f]), rs @ [r]) fs = Inr (q, rs') \<longleftrightarrow>
      source_log C g (log @ f # fs) \<and> q = rolled C p0 (log @ f # fs)
      \<and> (fs \<noteq> [] \<longrightarrow> log_bytes (log @ f # fs) \<le> unat (ck_bytes target))
      \<and> (\<exists>new. rs' = rs @ r # new \<and> list_all2 (encodes C g) fs new)" for r
      using Cons.IH [OF True, of "rs @ [r]"] by simp
    have "foldR (page_step C g target) (rolled C p0 log, rs) (f # fs) = Inr (q, rs') \<longleftrightarrow>
      (\<exists>r. encodes C g f r \<and> log_bytes (log @ [f]) \<le> unat (ck_bytes target) \<and>
         foldR (page_step C g target) (rolled C p0 (log @ [f]), rs @ [r]) fs = Inr (q, rs'))"
      using step True by fastforce
    then show ?thesis
      unfolding IH by (cases "fs = []") (auto simp: list_all2_Cons1)
  next
    case False
    then have "\<not> source_log C g (log @ f # fs)" using source_log_append [of C g "log @ [f]" fs] by auto
    with False step show ?thesis by auto
  qed
qed

text \<open>The final page check in natural numbers: none of its unchecked operations wraps.\<close>

lemma remaining_exact:
  assumes "unat (b :: u64) \<le> 2 ^ 33" and "unat n \<le> unat m" and "unat m \<le> 1000000"
  shows "unat (b + (m - n) * word_of_nat MIN_RECORD_BYTES) = unat b + (unat m - unat n) * 209"
proof -
  have d: "unat (m - n) = unat m - unat n" using assms(2) by (simp add: unat_minus_noloss word_le_nat_alt)
  have "(unat m - unat n) * 209 \<le> 1000000 * 209" using assms(3) by (intro mult_mono) auto
  moreover from this have "unat ((m - n) * 209) = (unat m - unat n) * 209"
    using d by (subst unat_times_noloss) simp_all
  ultimately show ?thesis using assms(1) by (subst unat_plus_noloss) simp_all
qed

lemma last_exact:
  assumes "fs \<noteq> []" and "length fs \<le> 32" and "unat (first :: u64) \<le> 1000001"
  shows "checked_add first (word_of_nat (length fs) - 1) = Some l \<longleftrightarrow> unat l = unat first + (length fs - 1)"
proof -
  have n: "unat (word_of_nat (length fs) :: u64) = length fs" using assms(2) by (simp add: unat_of_nat)
  have "(1 :: u64) \<le> word_of_nat (length fs)" using assms(1) n by (simp add: word_le_nat_alt Suc_leI)
  then have "unat (word_of_nat (length fs) - 1 :: u64) = length fs - 1"
    using n by (simp add: unat_minus_noloss)
  then show ?thesis by (simp add: checked_add_eq_Some)
qed

text \<open>Which pages a receiver with this log prepares, and the token it returns.\<close>

definition page_accepts :: "crypto \<Rightarrow> pinned_genesis \<Rightarrow> checkpoint \<Rightarrow> frame list \<Rightarrow> page \<Rightarrow> bool" where
  "page_accepts C g target log p \<longleftrightarrow>
     (let log' = log @ pa_frames p in
      pa_checkpoint_id p = checkpoint_id C target \<and> pa_frames p \<noteq> [] \<and> length (pa_frames p) \<le> 32
      \<and> unat (pa_first p) = Suc (length log) \<and> unat (pa_last p) = length log'
      \<and> length log' \<le> unat (ck_records target) \<and> source_log C g log'
      \<and> log_bytes log' + (unat (ck_records target) - length log') * 209 \<le> unat (ck_bytes target)
      \<and> (length log' = unat (ck_records target) \<longrightarrow> log_bytes log' = unat (ck_bytes target)
           \<and> pg_digest (rolled C (start_progress C target) log') = ck_digest target))"

lemma prepare_page_iff:
  assumes g: "wf_genesis C (pinned (rc_genesis r))" and log: "source_log C (rc_genesis r) log"
    and p: "rc_progress r = rolled C (start_progress C (rc_target r)) log"
    and ck: "unat (ck_records (rc_target r)) \<le> 1000000"
  shows "prepare_page C r pg = Inr t \<longleftrightarrow>
    page_accepts C (rc_genesis r) (rc_target r) log pg
    \<and> (\<exists>recs. list_all2 (encodes C (rc_genesis r)) (pa_frames pg) recs
        \<and> t = \<lparr>pq_checkpoint = checkpoint_id C (rc_target r), pq_base = rc_progress r,
               pq_next = rolled C (start_progress C (rc_target r)) (log @ pa_frames pg), pq_frames = recs\<rparr>)"
proof -
  let ?target = "rc_target r" and ?fs = "pa_frames pg" and ?p0 = "start_progress C (rc_target r)"
  let ?log' = "log @ ?fs" and ?q = "rolled C ?p0 (log @ ?fs)" and ?g = "rc_genesis r"
  have n: "unat (pg_records (rc_progress r)) = length log" "length log \<le> 1000000"
    using log_counts [OF log] p log by (simp_all add: start_progress_def source_log_def)
  then have first: "pa_first pg = pg_records (rc_progress r) + 1 \<longleftrightarrow> unat (pa_first pg) = Suc (length log)"
    by (simp add: word_unat_eq_iff unat_plus_noloss)
  show ?thesis
  proof (cases "pa_checkpoint_id pg = checkpoint_id C ?target \<and> ?fs \<noteq> [] \<and> length ?fs \<le> 32
      \<and> unat (pa_first pg) = Suc (length log)")
    case False
    then show ?thesis using first by (auto simp: prepare_page_def page_accepts_def Let_def)
  next
    case True
    have lst: "checked_add (pa_first pg) (word_of_nat (length ?fs) - 1) = Some l \<longleftrightarrow> unat l = length ?log'" for l
      using True n last_exact [of ?fs "pa_first pg" l] by (cases ?fs) auto
    have loop: "foldR (page_step C ?g ?target) (rc_progress r, []) ?fs = Inr (q, recs) \<longleftrightarrow>
        source_log C ?g ?log' \<and> q = ?q \<and> log_bytes ?log' \<le> unat (ck_bytes ?target)
        \<and> list_all2 (encodes C ?g) ?fs recs" for q recs
      using page_loop_iff [OF g log refl, of ?target] True unfolding p by auto
    have fin: "unat (pg_records ?q) = length ?log'" "unat (pg_bytes ?q) = log_bytes ?log'"
      "log_bytes ?log' \<le> 2 ^ 33" if "source_log C ?g ?log'"
      using log_counts [OF that] that by (simp_all add: start_progress_def source_log_def del: foldl_append)
    have "prepare_page C r pg = Inr t \<longleftrightarrow>
        (\<exists>l q recs. (checked_add (pa_first pg) (word_of_nat (length ?fs) - 1) = Some l)
          \<and> pa_last pg = l \<and> unat l \<le> unat (ck_records ?target)
          \<and> (foldR (page_step C ?g ?target) (rc_progress r, []) ?fs = Inr (q, recs))
          \<and> (pg_records q = ck_records ?target \<longrightarrow> pg_bytes q = ck_bytes ?target \<and> pg_digest q = ck_digest ?target)
          \<and> unat (pg_bytes q + (ck_records ?target - pg_records q) * word_of_nat MIN_RECORD_BYTES)
              \<le> unat (ck_bytes ?target)
          \<and> t = \<lparr>pq_checkpoint = checkpoint_id C ?target, pq_base = rc_progress r, pq_next = q, pq_frames = recs\<rparr>)"
      using True first
      by (auto simp: prepare_page_def Let_def word_less_nat_alt linorder_not_less split: prod.splits simp del: MIN_RECORD_BYTES_def)
    also have "\<dots> \<longleftrightarrow> (\<exists>recs. unat (pa_last pg) = length ?log' \<and> length ?log' \<le> unat (ck_records ?target)
          \<and> source_log C ?g ?log' \<and> log_bytes ?log' \<le> unat (ck_bytes ?target)
          \<and> list_all2 (encodes C ?g) ?fs recs
          \<and> (pg_records ?q = ck_records ?target \<longrightarrow> pg_bytes ?q = ck_bytes ?target \<and> pg_digest ?q = ck_digest ?target)
          \<and> unat (pg_bytes ?q + (ck_records ?target - pg_records ?q) * word_of_nat MIN_RECORD_BYTES)
              \<le> unat (ck_bytes ?target)
          \<and> t = \<lparr>pq_checkpoint = checkpoint_id C ?target, pq_base = rc_progress r, pq_next = ?q, pq_frames = recs\<rparr>)"
      unfolding lst loop by (auto simp del: foldl_append MIN_RECORD_BYTES_def)
    also have "\<dots> \<longleftrightarrow> page_accepts C ?g ?target log pg
        \<and> (\<exists>recs. list_all2 (encodes C ?g) ?fs recs
          \<and> t = \<lparr>pq_checkpoint = checkpoint_id C ?target, pq_base = rc_progress r, pq_next = ?q, pq_frames = recs\<rparr>)"
    proof (cases "source_log C ?g ?log' \<and> length ?log' \<le> unat (ck_records ?target)")
      case sl: True
      have "unat (pg_bytes ?q + (ck_records ?target - pg_records ?q) * word_of_nat MIN_RECORD_BYTES)
          = log_bytes ?log' + (unat (ck_records ?target) - length ?log') * 209"
        using fin sl ck by (subst remaining_exact) (simp_all del: foldl_append)
      then show ?thesis
        using True sl fin unfolding page_accepts_def Let_def word_unat_eq_iff
        by (auto simp del: foldl_append MIN_RECORD_BYTES_def)
    next
      case False
      then show ?thesis by (auto simp: page_accepts_def Let_def)
    qed
    finally show ?thesis .
  qed
qed

end
