(* ===== verification/Sync_Safety.thy ===== *)
theory Sync_Safety
  imports Sync_Machine Direct_Examples
begin

text \<open>
  What a snapshot exchange guarantees: every reachable receiver refines the abstract log, a
  finished receiver has exactly the source's records, an honest source's pages are always
  accepted, and completed snapshots never roll back.
\<close>

section \<open>The receiver's invariant\<close>

text \<open>A page prepared at one log may be committed at another with the same progress.\<close>

lemma log_swap:
  assumes "source_log C g log" and "source_log C g (log0 @ fs)"
    and "length log = length log0" and "log_bytes log = log_bytes log0"
  shows "source_log C g (log @ fs)"
  unfolding source_log_def
proof (intro conjI allI impI)
  fix i assume i: "i < length (log @ fs)"
  show "is_ok (verify_frame C g (word_of_nat (Suc i)) ((log @ fs) ! i))"
  proof (cases "i < length log")
    case True
    then show ?thesis using assms(1) by (simp add: source_log_def nth_append)
  next
    case False
    then have "(log @ fs) ! i = (log0 @ fs) ! i" using assms(3) by (simp add: nth_append)
    then show ?thesis using assms(2,3) i by (simp add: source_log_def)
  qed
qed (use assms in \<open>simp_all add: source_log_def\<close>)

lemma recv_inv_records: "recv_inv C g s \<Longrightarrow> unat (ck_records (rc_target (rv_receiver s))) \<le> 1000000"
  using checkpoint_check_iff [of g "rc_target (rv_receiver s)" "()"] genesis_length
  by (auto simp: recv_inv_def)

lemma extend_frame:
  assumes "receiver_extend r authenticated target = Inr r'"
  shows "rc_genesis r' = rc_genesis r \<and> rc_progress r' = rc_progress r
    \<and> start_progress C (rc_target r') = start_progress C (rc_target r)
    \<and> receiver_coverage r = CoverageComplete
    \<and> (r' = r \<or> r' = r\<lparr>rc_target := target\<rparr> \<and> checkpoint_check target (rc_genesis r) = Inr ()
         \<and> ck_records (rc_target r) < ck_records target \<and> ck_bytes (rc_target r) \<le> ck_bytes target)
    \<and> ck_source (rc_target r') = authenticated
    \<and> ck_source (rc_target r') = ck_source (rc_target r) \<and> ck_room (rc_target r') = ck_room (rc_target r)
    \<and> ck_epoch (rc_target r') = ck_epoch (rc_target r)"
  using assms by (auto simp: receiver_extend_def start_progress_def split: if_splits)

lemma recv_inv_commit:
  assumes inv: "recv_inv C g s" and tok: "(t, fs) \<in> rv_tokens s"
    and commit: "receiver_commit C (rv_receiver s) t = Inr (r', cov)"
  shows "recv_inv C g (s\<lparr>rv_receiver := r', rv_tokens := rv_tokens s - {(t, fs)}, rv_log := rv_log s @ fs\<rparr>)"
proof -
  let ?p0 = "start_progress C (rc_target (rv_receiver s))"
  from inv tok have "page_token_ok C g ?p0 (t, fs)" and sl: "source_log C g (rv_log s)"
    and pr: "rc_progress (rv_receiver s) = rolled C ?p0 (rv_log s)" by (auto simp: recv_inv_def)
  then obtain log where log: "source_log C g (log @ fs)" "pq_base t = rolled C ?p0 log"
    "pq_next t = rolled C ?p0 (log @ fs)" by (auto simp: page_token_ok_def)
  from commit have r': "r' = (rv_receiver s)\<lparr>rc_progress := pq_next t\<rparr>" "pq_base t = rc_progress (rv_receiver s)"
    by (auto simp: receiver_commit_def Let_def split: if_splits)
  have same: "rolled C ?p0 log = rolled C ?p0 (rv_log s)" using log(2) r'(2) pr by simp
  have "source_log C g (rv_log s @ fs)"
  proof (rule log_swap [OF sl log(1)])
    show "length (rv_log s) = length log" "log_bytes (rv_log s) = log_bytes log"
      using log_counts [OF sl] log_counts [OF source_log_append [OF log(1)]] same
      unfolding start_progress_def by metis+
  qed
  moreover have "pq_next t = rolled C ?p0 (rv_log s @ fs)" using log(3) same by simp
  ultimately show ?thesis using inv r'(1) by (simp add: recv_inv_def)
qed

lemma recv_step_inv:
  assumes "recv_step C s s'" and inv: "recv_inv C g s"
  shows "recv_inv C g s'"
  using assms(1)
proof cases
  case (prepare p t)
  have i: "rc_genesis (rv_receiver s) = g" "wf_genesis C (pinned g)" "source_log C g (rv_log s)"
    "rc_progress (rv_receiver s) = rolled C (start_progress C (rc_target (rv_receiver s))) (rv_log s)"
    using inv by (auto simp: recv_inv_def)
  have "page_token_ok C g (start_progress C (rc_target (rv_receiver s))) (t, pa_frames p)"
    using prepare_page_iff [of C "rv_receiver s" "rv_log s" p t] i recv_inv_records [OF inv] prepare(2)
    unfolding page_token_ok_def by (auto simp: page_accepts_def Let_def)
  with prepare inv show ?thesis by (simp add: recv_inv_def)
next
  case (commit t fs r' cov)
  with recv_inv_commit [OF inv] show ?thesis by blast
next
  case (extend authenticated target r')
  note fr = extend_frame [OF extend(2), of C]
  have "checkpoint_check (rc_target r') g = Inr ()" using fr inv by (elim conjE disjE) (simp_all add: recv_inv_def)
  moreover have "rc_genesis r' = rc_genesis (rv_receiver s)" "rc_progress r' = rc_progress (rv_receiver s)"
    "start_progress C (rc_target r') = start_progress C (rc_target (rv_receiver s))" using fr by blast+
  ultimately show ?thesis using inv extend(1) by (simp add: recv_inv_def)
qed

lemma recv_reach_inv: "recv_reach C g s \<Longrightarrow> recv_inv C g s"
proof (induction rule: recv_reach.induct)
  case (start expected authenticated target r)
  then show ?case
    by (auto simp: receiver_begin_def recv_inv_def start_progress_def split: if_splits)
next
  case (step s s')
  then show ?case by (blast intro: recv_step_inv)
qed

lemma covers:
  assumes "recv_reach C g s" and "receiver_finish (rv_receiver s) = Inr ck"
  shows "source_log C g (rv_log s)
    \<and> (\<forall>f\<in>set (rv_log s). \<exists>r. encodes C g f r)
    \<and> length (rv_log s) = unat (ck_records ck) \<and> log_bytes (rv_log s) = unat (ck_bytes ck)
    \<and> pg_digest (rolled C (start_progress C ck) (rv_log s)) = ck_digest ck
    \<and> ck_room ck = pin_id g"
proof -
  have inv: "recv_inv C g s" by (rule recv_reach_inv [OF assms(1)])
  then have sl: "source_log C g (rv_log s)" and g: "wf_genesis C (pinned g)"
    and pr: "rc_progress (rv_receiver s) = rolled C (start_progress C (rc_target (rv_receiver s))) (rv_log s)"
    by (auto simp: recv_inv_def)
  have ck: "ck = rc_target (rv_receiver s)" "receiver_coverage (rv_receiver s) = CoverageComplete"
    using assms(2) by (auto simp: receiver_finish_def split: if_splits)
  have "\<exists>r. encodes C g f r" if "f \<in> set (rv_log s)" for f
    using that sl verify_frame_iff [OF g] by (fastforce simp: source_log_def in_set_conv_nth is_ok_iff encodes_def)
  moreover have "ck_room ck = pin_id g"
    using inv ck(1) checkpoint_check_iff [of g ck "()"] genesis_length [OF g] by (auto simp: recv_inv_def)
  moreover have "unat (pg_records (rolled C (start_progress C ck) (rv_log s))) = length (rv_log s)"
    "unat (pg_bytes (rolled C (start_progress C ck) (rv_log s))) = log_bytes (rv_log s)"
    using log_counts [OF sl] by (simp_all add: start_progress_def)
  moreover have "ck_records ck = pg_records (rolled C (start_progress C ck) (rv_log s))"
    "ck_bytes ck = pg_bytes (rolled C (start_progress C ck) (rv_log s))"
    "ck_digest ck = pg_digest (rolled C (start_progress C ck) (rv_log s))"
    using ck pr by (auto simp: receiver_coverage_def split: if_splits)
  ultimately show ?thesis using sl by auto
qed

section \<open>Honest delivery\<close>

text \<open>The next page of a source, as the protocol shapes it, prepared and committed.\<close>

definition honest_page :: "crypto \<Rightarrow> receiver \<Rightarrow> frame list \<Rightarrow> page" where
  "honest_page C r fs = \<lparr>pa_checkpoint_id = checkpoint_id C (rc_target r), pa_first = pg_records (rc_progress r) + 1,
     pa_last = pg_records (rc_progress r) + word_of_nat (length fs), pa_frames = fs\<rparr>"

definition deliver :: "crypto \<Rightarrow> receiver \<Rightarrow> frame list \<Rightarrow> sync_error + receiver" where
  "deliver C r fs =
     bindR (prepare_page C r (honest_page C r fs)) (\<lambda>t.
     bindR (receiver_commit C r t) (\<lambda>(r', _). Inr r'))"

lemma log_encodes:
  assumes "wf_genesis C (pinned g)" and "source_log C g (log @ fs)"
  shows "\<exists>recs. list_all2 (encodes C g) fs recs"
proof -
  have "\<exists>r. encodes C g f r" if "f \<in> set fs" for f
  proof -
    from that obtain i where "i < length (log @ fs)" "(log @ fs) ! i = f"
      by (metis in_set_conv_nth in_set_conv_decomp set_append Un_iff)
    with assms(2) verify_frame_iff [OF assms(1)] show ?thesis
      unfolding source_log_def encodes_def is_ok_iff by metis
  qed
  then have "list_all2 (encodes C g) fs (map (\<lambda>f. SOME r. encodes C g f r) fs)"
    by (auto simp: list_all2_conv_all_nth intro: someI_ex)
  then show ?thesis ..
qed

lemma deliver_step:
  assumes g: "wf_genesis C (pinned (rc_genesis r))" and sl: "source_log C (rc_genesis r) (log @ fs @ rest)"
    and p: "rc_progress r = rolled C (start_progress C (rc_target r)) log"
    and ck: "ck_records (rc_target r) = word_of_nat (length (log @ fs @ rest))"
      "ck_bytes (rc_target r) = word_of_nat (log_bytes (log @ fs @ rest))"
      "ck_digest (rc_target r) = pg_digest (rolled C (start_progress C (rc_target r)) (log @ fs @ rest))"
    and fs: "fs \<noteq> []" "length fs \<le> 32"
  shows "deliver C r fs = Inr (r\<lparr>rc_progress := rolled C (start_progress C (rc_target r)) (log @ fs)\<rparr>)"
proof -
  have bounds: "length (log @ fs @ rest) \<le> 1000000" "log_bytes (log @ fs @ rest) \<le> 2 ^ 33"
    using sl by (auto simp: source_log_def)
  then have n: "unat (ck_records (rc_target r)) = length (log @ fs @ rest)"
    "unat (ck_bytes (rc_target r)) = log_bytes (log @ fs @ rest)"
    unfolding ck(1,2) by (simp_all only: unat_of_nat) simp_all
  have sl': "source_log C (rc_genesis r) (log @ fs)" "source_log C (rc_genesis r) log"
    using sl source_log_append [of C "rc_genesis r" "log @ fs" rest] source_log_append [of C "rc_genesis r" log]
    by auto
  have rec: "unat (pg_records (rc_progress r)) = length log"
    using log_counts [OF sl'(2)] p by (simp add: start_progress_def)
  then have pos: "unat (pg_records (rc_progress r) + 1) = Suc (length log)"
    "unat (pg_records (rc_progress r) + word_of_nat (length fs)) = length log + length fs"
    using bounds fs(2) by (subst unat_plus_noloss; simp add: unat_of_nat)+
  have "length rest * 209 \<le> log_bytes rest"
    using log_suffix_total [OF g, of "log @ fs" rest] sl fs(1) by simp
  then have "page_accepts C (rc_genesis r) (rc_target r) log (honest_page C r fs)"
    using pos fs n sl'(1) ck(3) unfolding page_accepts_def honest_page_def Let_def by auto
  moreover obtain recs where "list_all2 (encodes C (rc_genesis r)) fs recs"
    using log_encodes [OF g sl'(1)] by blast
  ultimately have "prepare_page C r (honest_page C r fs) = Inr
      \<lparr>pq_checkpoint = checkpoint_id C (rc_target r), pq_base = rc_progress r,
       pq_next = rolled C (start_progress C (rc_target r)) (log @ fs), pq_frames = recs\<rparr>"
    using prepare_page_iff [OF g sl'(2) p] n(1) bounds(1) by (simp add: honest_page_def)
  then show ?thesis by (simp add: deliver_def receiver_commit_def Let_def)
qed

lemma deliver_all:
  assumes "wf_genesis C (pinned (rc_genesis r))" and "source_log C (rc_genesis r) (log @ concat pages)"
    and "rc_progress r = rolled C (start_progress C (rc_target r)) log"
    and "ck_records (rc_target r) = word_of_nat (length (log @ concat pages))"
      "ck_bytes (rc_target r) = word_of_nat (log_bytes (log @ concat pages))"
      "ck_digest (rc_target r) = pg_digest (rolled C (start_progress C (rc_target r)) (log @ concat pages))"
    and "\<forall>fs\<in>set pages. fs \<noteq> [] \<and> length fs \<le> 32"
  shows "foldR (deliver C) r pages =
    Inr (r\<lparr>rc_progress := rolled C (start_progress C (rc_target r)) (log @ concat pages)\<rparr>)"
  using assms
proof (induction pages arbitrary: r log)
  case Nil
  then show ?case by simp
next
  case (Cons fs pages)
  let ?r = "r\<lparr>rc_progress := rolled C (start_progress C (rc_target r)) (log @ fs)\<rparr>"
  have "deliver C r fs = Inr ?r"
    using Cons.prems by (intro deliver_step [where rest = "concat pages"]) auto
  moreover have "foldR (deliver C) ?r pages =
      Inr (?r\<lparr>rc_progress := rolled C (start_progress C (rc_target ?r)) ((log @ fs) @ concat pages)\<rparr>)"
    using Cons.prems by (intro Cons.IH) auto
  ultimately show ?case by simp
qed

section \<open>A concrete exchange\<close>

definition ex_gf :: frame where "ex_gf = \<lparr>fr_kind = FrameGenesis, fr_bytes = pin_encode ex_genesis\<rparr>"
definition ex_ef :: frame where "ex_ef = \<lparr>fr_kind = FrameEvent, fr_bytes = ver_encode event_kind ex_e1\<rparr>"

lemma ex_frame_length [simp]: "length (fr_bytes ex_gf) = 199" "length (fr_bytes ex_ef) = 218"
  using ex_genesis_id(2) unfolding pin_claims_def
  by (simp_all add: ex_gf_def ex_ef_def pin_encode_def length_ver_encode length_genesis_encode
      length_event_encode ex_event_claims_def ex_genesis_claims_def)

lemma ex_verify_frames:
  "verify_frame toy_crypto ex_genesis 1 ex_gf = Inr (RecGenesis ex_genesis)"
  "verify_frame toy_crypto ex_genesis 2 ex_ef = Inr (RecEvent ex_e1)"
  by (simp_all add: verify_frame_iff record_ok_def record_frame_kind_def record_encode_def
      ex_gf_def ex_ef_def ex_event_claims_def)

lemma ex_source_log: "source_log toy_crypto ex_genesis [ex_gf]" "source_log toy_crypto ex_genesis [ex_gf, ex_ef]"
  using ex_verify_frames by (auto simp: source_log_def less_Suc_eq nth_Cons' is_ok_iff)

definition ex_acc :: source_accumulator where
  "ex_acc = \<lparr>sa_genesis = ex_genesis, sa_source = 7, sa_epoch = 5,
     sa_progress = initial_progress toy_crypto 7 165 5\<rparr>"

lemma ex_acc_new: "accumulator_new toy_crypto 7 ex_genesis 5 = Inr ex_acc"
  by (simp add: accumulator_new_def ex_acc_def)

definition ex_ck :: "frame list \<Rightarrow> checkpoint" where
  "ex_ck fs = \<lparr>ck_source = 7, ck_room = 165, ck_epoch = 5, ck_records = word_of_nat (length fs),
     ck_bytes = word_of_nat (log_bytes fs),
     ck_digest = pg_digest (rolled toy_crypto (initial_progress toy_crypto 7 165 5) fs)\<rparr>"

lemma ex_pushed:
  "source_log toy_crypto ex_genesis fs \<Longrightarrow> foldR (accumulator_push toy_crypto) ex_acc fs =
     Inr (ex_acc\<lparr>sa_progress := rolled toy_crypto (initial_progress toy_crypto 7 165 5) fs\<rparr>)"
  by (simp add: accumulated_iff [OF ex_genesis_wf ex_acc_new])

lemma ex_checkpoint:
  "source_log toy_crypto ex_genesis fs \<Longrightarrow> fs \<noteq> [] \<Longrightarrow>
   accumulator_checkpoint (ex_acc\<lparr>sa_progress := rolled toy_crypto (initial_progress toy_crypto 7 165 5) fs\<rparr>) =
     Inr (ex_ck fs)"
  using accumulator_checkpoint_iff [OF ex_genesis_wf ex_acc_new, of fs "ex_ck fs"] by (simp add: ex_ck_def)

text \<open>The receiver's run over the one-record snapshot.\<close>

lemma ex_begin:
  assumes "source_log toy_crypto ex_genesis fs" and "fs \<noteq> []"
  shows "receiver_begin toy_crypto ex_genesis 7 7 (ex_ck fs) = Inr \<lparr>rc_genesis = ex_genesis,
    rc_target = ex_ck fs, rc_progress = start_progress toy_crypto (ex_ck fs)\<rparr>"
proof -
  have "checkpoint_check (ex_ck fs) ex_genesis = Inr ()"
    using ex_checkpoint [OF assms] by (auto simp: accumulator_checkpoint_def Let_def ex_acc_def)
  then show ?thesis by (simp add: receiver_begin_def start_progress_def ex_ck_def)
qed

definition ex_r0 :: receiver where
  "ex_r0 = \<lparr>rc_genesis = ex_genesis, rc_target = ex_ck [ex_gf],
     rc_progress = start_progress toy_crypto (ex_ck [ex_gf])\<rparr>"

definition ex_r1 :: receiver where
  "ex_r1 = ex_r0\<lparr>rc_progress := rolled toy_crypto (start_progress toy_crypto (ex_ck [ex_gf])) [ex_gf]\<rparr>"

definition ex_page_token :: prepared_page where
  "ex_page_token = \<lparr>pq_checkpoint = checkpoint_id toy_crypto (ex_ck [ex_gf]), pq_base = rc_progress ex_r0,
     pq_next = rc_progress ex_r1, pq_frames = [RecGenesis ex_genesis]\<rparr>"

definition ex_v1 :: recv_sys where "ex_v1 = \<lparr>rv_receiver = ex_r0, rv_tokens = {}, rv_log = []\<rparr>"
definition ex_v2 :: recv_sys where "ex_v2 = ex_v1\<lparr>rv_tokens := {(ex_page_token, [ex_gf])}\<rparr>"
definition ex_v3 :: recv_sys where "ex_v3 = \<lparr>rv_receiver = ex_r1, rv_tokens = {}, rv_log = [ex_gf]\<rparr>"

lemma ex_recv1: "recv_reach toy_crypto ex_genesis ex_v1"
  unfolding ex_v1_def ex_r0_def
  by (rule recv_reach.start [OF ex_genesis_wf ex_begin]) (simp_all add: ex_source_log)

lemma ex_prepare_page:
  "prepare_page toy_crypto ex_r0 (honest_page toy_crypto ex_r0 [ex_gf]) = Inr ex_page_token"
proof -
  have pos: "pg_records (start_progress toy_crypto ck) = 0" for ck
    by (simp add: start_progress_def initial_progress_def)
  have acc: "page_accepts toy_crypto ex_genesis (ex_ck [ex_gf]) [] (honest_page toy_crypto ex_r0 [ex_gf])"
    using ex_source_log by (simp add: page_accepts_def honest_page_def ex_r0_def pos)
      (simp add: ex_ck_def start_progress_def)
  have enc: "list_all2 (encodes toy_crypto ex_genesis) [ex_gf] [RecGenesis ex_genesis]"
    by (simp add: encodes_def record_ok_def record_frame_kind_def record_encode_def ex_gf_def)
  have "unat (ck_records (rc_target ex_r0)) \<le> 1000000" by (simp add: ex_r0_def ex_ck_def)
  then show ?thesis
    using prepare_page_iff [of toy_crypto ex_r0 "[]" "honest_page toy_crypto ex_r0 [ex_gf]" ex_page_token] acc enc
    by (simp add: ex_r0_def ex_page_token_def ex_r1_def honest_page_def)
qed

lemma ex_recv2: "recv_reach toy_crypto ex_genesis ex_v2"
proof -
  have "prepare_page toy_crypto (rv_receiver ex_v1) (honest_page toy_crypto ex_r0 [ex_gf]) = Inr ex_page_token"
    using ex_prepare_page by (simp add: ex_v1_def)
  from recv_step.prepare [OF this] have "recv_step toy_crypto ex_v1 ex_v2"
    by (simp add: ex_v2_def ex_v1_def honest_page_def)
  with ex_recv1 show ?thesis by (rule recv_reach.step)
qed

lemma ex_commit_step: "recv_step toy_crypto ex_v2 ex_v3"
proof -
  have c: "receiver_commit toy_crypto (rv_receiver ex_v2) ex_page_token = Inr (ex_r1, receiver_coverage ex_r1)"
    by (simp add: receiver_commit_def ex_v2_def ex_v1_def ex_page_token_def Let_def)
       (simp add: ex_r0_def ex_r1_def)
  have "(ex_page_token, [ex_gf]) \<in> rv_tokens ex_v2" by (simp add: ex_v2_def)
  from recv_step.commit [OF this c] show ?thesis by (simp add: ex_v3_def ex_v2_def ex_v1_def)
qed

lemma ex_recv3: "recv_reach toy_crypto ex_genesis ex_v3"
  using ex_recv2 ex_commit_step by (rule recv_reach.step)

lemma ex_finish: "receiver_finish (rv_receiver ex_v3) = Inr (ex_ck [ex_gf])"
proof -
  have "pg_records (rc_progress ex_r1) = 1" "pg_bytes (rc_progress ex_r1) = 199"
    by (simp_all add: ex_r1_def roll_def start_progress_def initial_progress_def)
  then have "receiver_coverage ex_r1 = CoverageComplete"
    by (simp add: receiver_coverage_def) (simp add: ex_r1_def ex_r0_def ex_ck_def start_progress_def)
  then show ?thesis by (simp add: receiver_finish_def ex_v3_def) (simp add: ex_r1_def ex_r0_def)
qed

lemma ex_extend_step:
  "receiver_extend ex_r1 7 (ex_ck [ex_gf, ex_ef]) = Inr (ex_r1\<lparr>rc_target := ex_ck [ex_gf, ex_ef]\<rparr>)"
proof -
  have "receiver_coverage ex_r1 = CoverageComplete"
    using ex_finish by (auto simp: receiver_finish_def ex_v3_def split: if_splits)
  moreover have "checkpoint_check (ex_ck [ex_gf, ex_ef]) ex_genesis = Inr ()"
    using ex_checkpoint [OF ex_source_log(2)] by (auto simp: accumulator_checkpoint_def Let_def ex_acc_def)
  ultimately show ?thesis
    by (simp add: receiver_extend_def)
       (simp add: ex_r1_def ex_r0_def ex_ck_def roll_def start_progress_def initial_progress_def)
qed

definition ex_v4 :: recv_sys where
  "ex_v4 = ex_v3\<lparr>rv_receiver := ex_r1\<lparr>rc_target := ex_ck [ex_gf, ex_ef]\<rparr>\<rparr>"

lemma ex_recv_extend: "recv_step toy_crypto ex_v3 ex_v4"
proof -
  have "receiver_extend (rv_receiver ex_v3) 7 (ex_ck [ex_gf, ex_ef]) = Inr (ex_r1\<lparr>rc_target := ex_ck [ex_gf, ex_ef]\<rparr>)"
    using ex_extend_step by (simp add: ex_v3_def)
  from recv_step.extend [OF this] show ?thesis by (simp add: ex_v4_def)
qed

section \<open>Properties\<close>

text \<open>
  C7. A finished receiver covers its target. Whatever pages and extensions it was given, the
  frames it committed are verified records of the pinned room in valid order (the genesis
  first and only first), their number and byte total are those of the authenticated
  checkpoint it returns, and its digest is the rolling digest of exactly those frames.
\<close>

theorem receiver_covers:
  assumes "recv_reach C g s" and "receiver_finish (rv_receiver s) = Inr ck"
  shows "source_log C g (rv_log s)
    \<and> (\<forall>f\<in>set (rv_log s). \<exists>r. encodes C g f r)
    \<and> length (rv_log s) = unat (ck_records ck) \<and> log_bytes (rv_log s) = unat (ck_bytes ck)
    \<and> pg_digest (rolled C (start_progress C ck) (rv_log s)) = ck_digest ck
    \<and> ck_room ck = pin_id g"
  using covers [OF assms] .

theorem receiver_covers_witness:
  "recv_reach toy_crypto ex_genesis ex_v3 \<and> receiver_finish (rv_receiver ex_v3) = Inr (ex_ck [ex_gf])
   \<and> length (rv_log ex_v3) = unat (ck_records (ex_ck [ex_gf])) \<and> ck_room (ex_ck [ex_gf]) = pin_id ex_genesis"
  using receiver_covers [OF ex_recv3 ex_finish] ex_recv3 ex_finish by blast

text \<open>
  C8. Receiver and source agree. If an honest source built the checkpoint by pushing frames
  and the receiver finished on that checkpoint, then, unless two of the byte strings hashed
  on the way collide, the receiver has committed exactly the source's frames in order.
\<close>

theorem snapshot_agreement:
  assumes "recv_reach C g s" and "receiver_finish (rv_receiver s) = Inr ck"
    and "accumulator_new C src g ep = Inr a0" and "foldR (accumulator_push C) a0 fs = Inr a"
    and "accumulator_checkpoint a = Inr ck"
    and "collision_free C (log_transcripts C (start_progress C ck) (rv_log s)
           \<union> log_transcripts C (start_progress C ck) fs)"
  shows "rv_log s = fs"
proof -
  have g: "wf_genesis C (pinned g)" using recv_reach_inv [OF assms(1)] by (simp add: recv_inv_def)
  have fs: "source_log C g fs" "a = a0\<lparr>sa_progress := rolled C (initial_progress C src (pin_id g) ep) fs\<rparr>"
    using accumulated_iff [OF g assms(3)] assms(4) by auto
  have ck: "ck = \<lparr>ck_source = src, ck_room = pin_id g, ck_epoch = ep, ck_records = word_of_nat (length fs),
      ck_bytes = word_of_nat (log_bytes fs),
      ck_digest = pg_digest (rolled C (initial_progress C src (pin_id g) ep) fs)\<rparr>"
    using accumulator_checkpoint_iff [OF g assms(3) fs(1)] assms(5) fs(2) by simp
  then have "length fs = unat (ck_records ck)"
    using fs(1) by (simp add: unat_of_nat source_log_def)
  moreover have "pg_digest (rolled C (start_progress C ck) fs) = ck_digest ck"
    using ck by (simp add: start_progress_def)
  ultimately show ?thesis
    using covers [OF assms(1,2)] rolled_inject [OF _ _ assms(6)] by simp
qed

theorem snapshot_agreement_witness:
  "recv_reach toy_crypto ex_genesis ex_v3 \<and> accumulator_new toy_crypto 7 ex_genesis 5 = Inr ex_acc
   \<and> collision_free toy_crypto (log_transcripts toy_crypto (start_progress toy_crypto (ex_ck [ex_gf])) [ex_gf])
   \<and> rv_log ex_v3 = [ex_gf]"
proof -
  have free: "collision_free toy_crypto (log_transcripts toy_crypto (start_progress toy_crypto (ex_ck [ex_gf])) [ex_gf])"
  proof -
    have "length (frame_transcript toy_crypto p f) = 109" for p f by (simp add: frame_transcript_def)
    then show ?thesis by (auto simp: collision_free_def inj_on_def)
  qed
  have log: "rv_log ex_v3 = [ex_gf]" by (simp add: ex_v3_def)
  have "rv_log ex_v3 = [ex_gf]"
    by (rule snapshot_agreement [OF ex_recv3 ex_finish ex_acc_new ex_pushed ex_checkpoint])
       (use free log ex_source_log in simp_all)
  then show ?thesis using free ex_recv3 ex_acc_new by blast
qed

text \<open>
  C9. An honest exchange always completes. Whatever nonempty list of frames a source was
  able to push, its checkpoint is well-formed, a receiver configured for that source accepts
  it, every paging of the frames into pages of at most 32 is accepted page by page, and the
  receiver then finishes with the source's checkpoint.
\<close>

theorem honest_snapshot_completes:
  assumes "wf_genesis C (pinned g)" and "accumulator_new C src g ep = Inr a0"
    and "foldR (accumulator_push C) a0 (concat pages) = Inr a"
    and "pages \<noteq> []" and "\<forall>fs\<in>set pages. fs \<noteq> [] \<and> length fs \<le> MAX_PAGE_FRAMES"
  shows "\<exists>ck r0 r. accumulator_checkpoint a = Inr ck \<and> receiver_begin C g src src ck = Inr r0
    \<and> foldR (deliver C) r0 pages = Inr r \<and> receiver_finish r = Inr ck"
proof -
  define fs where "fs = concat pages"
  define p0 where "p0 = initial_progress C src (pin_id g) ep"
  define ck where "ck = \<lparr>ck_source = src, ck_room = pin_id g, ck_epoch = ep, ck_records = word_of_nat (length fs),
      ck_bytes = word_of_nat (log_bytes fs), ck_digest = pg_digest (rolled C p0 fs)\<rparr>"
  define r0 where "r0 = \<lparr>rc_genesis = g, rc_target = ck, rc_progress = p0\<rparr>"
  have sp: "start_progress C ck = p0" by (simp add: start_progress_def ck_def p0_def)
  have log: "source_log C g fs" "a = a0\<lparr>sa_progress := rolled C p0 fs\<rparr>"
    using accumulated_iff [OF assms(1,2)] assms(3) by (auto simp: fs_def p0_def)
  have ne: "fs \<noteq> []" using assms(4,5) by (cases pages) (auto simp: fs_def)
  have a0: "sa_genesis a0 = g" "sa_source a0 = src" "sa_epoch a0 = ep"
    using assms(2) by (auto simp: accumulator_new_def split: if_splits)
  have ck: "accumulator_checkpoint a = Inr ck"
    using accumulator_checkpoint_iff [OF assms(1,2) log(1)] log(2) ne by (simp add: ck_def p0_def)
  then have "checkpoint_check ck g = Inr ()" using a0 log(2) by (auto simp: accumulator_checkpoint_def Let_def)
  then have r0: "receiver_begin C g src src ck = Inr r0"
    using sp by (simp add: receiver_begin_def r0_def start_progress_def) (simp add: ck_def)
  let ?r = "r0\<lparr>rc_progress := rolled C p0 fs\<rparr>"
  have "foldR (deliver C) r0 pages = Inr (r0\<lparr>rc_progress := rolled C (start_progress C (rc_target r0)) ([] @ concat pages)\<rparr>)"
    by (rule deliver_all) (use assms(1,5) log(1) sp in \<open>auto simp: r0_def ck_def fs_def\<close>)
  then have "foldR (deliver C) r0 pages = Inr ?r" using sp by (simp add: r0_def fs_def)
  moreover have "receiver_finish ?r = Inr ck"
  proof -
    have "pg_records (rolled C p0 fs) = word_of_nat (length fs)" "pg_bytes (rolled C p0 fs) = word_of_nat (log_bytes fs)"
      using log_counts [OF log(1)] log(1) unfolding p0_def source_log_def
      by (simp_all add: word_unat_eq_iff unat_of_nat)
    then show ?thesis by (simp add: receiver_finish_def receiver_coverage_def r0_def ck_def)
  qed
  ultimately show ?thesis using ck r0 by blast
qed

theorem honest_snapshot_completes_witness:
  "wf_genesis toy_crypto (pinned ex_genesis) \<and> accumulator_new toy_crypto 7 ex_genesis 5 = Inr ex_acc
   \<and> (\<exists>a. foldR (accumulator_push toy_crypto) ex_acc (concat [[ex_gf], [ex_ef]]) = Inr a
        \<and> (\<exists>ck r0 r. accumulator_checkpoint a = Inr ck \<and> receiver_begin toy_crypto ex_genesis 7 7 ck = Inr r0
             \<and> foldR (deliver toy_crypto) r0 [[ex_gf], [ex_ef]] = Inr r \<and> receiver_finish r = Inr ck))"
proof -
  have push: "foldR (accumulator_push toy_crypto) ex_acc (concat [[ex_gf], [ex_ef]]) =
      Inr (ex_acc\<lparr>sa_progress := rolled toy_crypto (initial_progress toy_crypto 7 165 5) [ex_gf, ex_ef]\<rparr>)"
    using ex_pushed [OF ex_source_log(2)] by simp
  have pages: "[[ex_gf], [ex_ef]] \<noteq> []" "\<forall>fs\<in>set [[ex_gf], [ex_ef]]. fs \<noteq> [] \<and> length fs \<le> MAX_PAGE_FRAMES"
    by simp_all
  from honest_snapshot_completes [OF ex_genesis_wf ex_acc_new push pages] push ex_acc_new ex_genesis_wf
  show ?thesis by blast
qed

text \<open>How one target may replace another.\<close>

definition supersedes :: "checkpoint \<Rightarrow> checkpoint \<Rightarrow> bool" where
  "supersedes new old \<longleftrightarrow>
     ck_source new = ck_source old \<and> ck_room new = ck_room old \<and> ck_epoch new = ck_epoch old
     \<and> (new = old \<or> ck_records old < ck_records new \<and> ck_bytes old \<le> ck_bytes new)"

lemma supersedes_trans: "supersedes c b \<Longrightarrow> supersedes b a \<Longrightarrow> supersedes c a"
  unfolding supersedes_def by (elim conjE disjE) (auto intro: order.strict_trans order.trans)

lemma recv_step_target:
  assumes "recv_step C s s'"
  shows "(\<exists>fs. rv_log s' = rv_log s @ fs)
    \<and> supersedes (rc_target (rv_receiver s')) (rc_target (rv_receiver s))"
  using assms
proof cases
  case (prepare p tok)
  then show ?thesis by (simp add: supersedes_def)
next
  case (commit tok fs r' cov)
  then have "rc_target r' = rc_target (rv_receiver s)"
    by (auto simp: receiver_commit_def Let_def split: if_splits)
  with commit(1) show ?thesis by (simp add: supersedes_def)
next
  case (extend authenticated target r')
  from extend_frame [OF extend(2), of C] have "supersedes (rc_target r') (rc_target (rv_receiver s))"
    unfolding supersedes_def by (elim conjE disjE) simp_all
  with extend(1) show ?thesis by simp
qed

lemma recv_steps_target:
  assumes "(recv_step C)\<^sup>*\<^sup>* s s'"
  shows "(\<exists>fs. rv_log s' = rv_log s @ fs)
    \<and> supersedes (rc_target (rv_receiver s')) (rc_target (rv_receiver s))"
  using assms
proof (induction rule: rtranclp_induct)
  case base
  then show ?case by (simp add: supersedes_def)
next
  case (step t u)
  then show ?case using recv_step_target [OF step(2)] supersedes_trans by fastforce
qed

text \<open>
  A receiver never rolls back. Along any continuation, the committed log only grows, the
  target keeps its source, room and epoch, and a changed target covers strictly more records
  and no fewer bytes: two different checkpoints of one count are never both accepted.
\<close>

theorem target_never_rolls_back:
  assumes "(recv_step C)\<^sup>*\<^sup>* s s'"
  shows "(\<exists>fs. rv_log s' = rv_log s @ fs)
    \<and> ck_source (rc_target (rv_receiver s')) = ck_source (rc_target (rv_receiver s))
    \<and> ck_room (rc_target (rv_receiver s')) = ck_room (rc_target (rv_receiver s))
    \<and> ck_epoch (rc_target (rv_receiver s')) = ck_epoch (rc_target (rv_receiver s))
    \<and> (rc_target (rv_receiver s') = rc_target (rv_receiver s)
       \<or> ck_records (rc_target (rv_receiver s)) < ck_records (rc_target (rv_receiver s'))
         \<and> ck_bytes (rc_target (rv_receiver s)) \<le> ck_bytes (rc_target (rv_receiver s')))"
  using recv_steps_target [OF assms] unfolding supersedes_def .

theorem target_never_rolls_back_witness:
  "(recv_step toy_crypto)\<^sup>*\<^sup>* ex_v3 ex_v4
   \<and> rc_target (rv_receiver ex_v4) \<noteq> rc_target (rv_receiver ex_v3)
   \<and> ck_records (rc_target (rv_receiver ex_v3)) < ck_records (rc_target (rv_receiver ex_v4))"
proof -
  have run: "(recv_step toy_crypto)\<^sup>*\<^sup>* ex_v3 ex_v4" using ex_recv_extend by blast
  have "rc_target (rv_receiver ex_v4) \<noteq> rc_target (rv_receiver ex_v3)"
    by (simp add: ex_v4_def ex_v3_def ex_r1_def ex_r0_def ex_ck_def)
  with target_never_rolls_back [OF run] run show ?thesis by blast
qed

text \<open>
  The source accumulator implements the abstract log: pushing a list of frames succeeds
  exactly when they are verified records of the room in valid order within the limits, and
  its checkpoint then exists exactly when the log is not empty and states its number, byte
  total and rolling digest. No byte bound of the checkpoint check can refuse it.
\<close>

theorem accumulator_implements_log:
  assumes "wf_genesis C (pinned g)" and "accumulator_new C src g ep = Inr a0"
  shows "bindR (foldR (accumulator_push C) a0 fs) accumulator_checkpoint = Inr ck \<longleftrightarrow>
    source_log C g fs \<and> fs \<noteq> []
    \<and> ck = \<lparr>ck_source = src, ck_room = pin_id g, ck_epoch = ep, ck_records = word_of_nat (length fs),
        ck_bytes = word_of_nat (log_bytes fs),
        ck_digest = pg_digest (rolled C (initial_progress C src (pin_id g) ep) fs)\<rparr>"
  using accumulated_iff [OF assms, of fs] accumulator_checkpoint_iff [OF assms, of fs ck] by auto

theorem accumulator_implements_log_witness:
  "wf_genesis toy_crypto (pinned ex_genesis) \<and> accumulator_new toy_crypto 7 ex_genesis 5 = Inr ex_acc
   \<and> bindR (foldR (accumulator_push toy_crypto) ex_acc [ex_gf, ex_ef]) accumulator_checkpoint = Inr (ex_ck [ex_gf, ex_ef])"
  using accumulator_implements_log [OF ex_genesis_wf ex_acc_new, of "[ex_gf, ex_ef]" "ex_ck [ex_gf, ex_ef]"]
    ex_source_log(2) ex_acc_new ex_genesis_wf by (simp add: ex_ck_def)

text \<open>
  Page admission is exact and never overflows. In every reachable receiver state, a page
  is prepared precisely when it names the frozen target, holds 1 to 32 frames placed directly
  after the committed log, extends that log by verified records of the room, does not pass
  the target, leaves room for the remaining records, and, if it is the last page, matches the
  target's byte total and digest. All arithmetic in this condition is exact.
\<close>

theorem prepare_page_exact:
  assumes "recv_reach C g s"
  shows "is_ok (prepare_page C (rv_receiver s) p) \<longleftrightarrow>
    page_accepts C g (rc_target (rv_receiver s)) (rv_log s) p"
proof -
  have inv: "recv_inv C g s" by (rule recv_reach_inv [OF assms])
  then have i: "rc_genesis (rv_receiver s) = g" "wf_genesis C (pinned g)" "source_log C g (rv_log s)"
    "rc_progress (rv_receiver s) = rolled C (start_progress C (rc_target (rv_receiver s))) (rv_log s)"
    by (auto simp: recv_inv_def)
  have "\<exists>recs. list_all2 (encodes C g) (pa_frames p) recs"
    if "page_accepts C g (rc_target (rv_receiver s)) (rv_log s) p"
    using that log_encodes [OF i(2)] unfolding page_accepts_def Let_def by blast
  then show ?thesis
    using prepare_page_iff [of C "rv_receiver s" "rv_log s" p] i recv_inv_records [OF inv]
    by (auto simp: is_ok_iff)
qed

theorem prepare_page_exact_witness:
  "recv_reach toy_crypto ex_genesis ex_v1
   \<and> page_accepts toy_crypto ex_genesis (rc_target (rv_receiver ex_v1)) (rv_log ex_v1)
       (honest_page toy_crypto ex_r0 [ex_gf])"
  using prepare_page_exact [OF ex_recv1, of "honest_page toy_crypto ex_r0 [ex_gf]"] ex_prepare_page ex_recv1
  by (simp add: ex_v1_def is_ok_iff)

end
