(* ===== verification/Ledger.thy ===== *)
theory Ledger
  imports Crypto_Params BTree_Map
begin

text \<open>
  \<open>crates/vhalla-ledger/src/lib.rs\<close>: a bounded, single-tip event history of one realm and epoch
  with content-addressed events, derived checkpoint roots and a canonical snapshot encoding.

  The snapshot reader is a cursor \<open>(raw, offset)\<close>; it is represented by the bytes that remain,
  \<open>drop offset raw\<close>, which the readers of \<open>Byte_Codec\<close> consume. \<open>hash_event\<close> and \<open>state_root\<close> take
  the digest from the cryptography parameter.
\<close>

section \<open>Constants and errors\<close>

definition LEDGER_EVENT_DOMAIN :: bytes where "LEDGER_EVENT_DOMAIN = ascii ''vhalla/ledger/event/v1''"
definition LEDGER_ROOT_DOMAIN :: bytes where "LEDGER_ROOT_DOMAIN = ascii ''vhalla/ledger/root/v1''"
definition LEDGER_SNAPSHOT_DOMAIN :: bytes where
  "LEDGER_SNAPSHOT_DOMAIN = ascii ''vhalla/ledger/snapshot/v1''"
definition SNAPSHOT_VERSION :: u8 where "SNAPSHOT_VERSION = 1"
definition MAX_PAYLOAD :: nat where [simp]: "MAX_PAYLOAD = 1024"
definition MAX_EVENTS :: nat where [simp]: "MAX_EVENTS = 4096"
definition LEDGER_MAX_SNAPSHOT_BYTES :: nat where [simp]: "LEDGER_MAX_SNAPSHOT_BYTES = 16 * 1024 * 1024"

datatype ledger_error =
    PayloadTooLarge | InvalidEventId | WrongContext | UnknownOrForkedParent | DuplicateEvent
  | NonMonotonicSequence | LedgerCapacity | UnknownHead | RootMismatch | HeightMismatch
  | StaleCheckpoint | ConflictingCheckpoint | SnapshotTooLarge | TruncatedSnapshot
  | InvalidSnapshotHeader | TrailingSnapshot | InvalidSnapshotBounds | SnapshotSequenceMismatch
  | NonCanonicalSnapshot

section \<open>State\<close>

record ledger_event =
  le_id :: array32
  le_parent :: "array32 option"
  le_realm :: u128
  le_epoch :: u64
  le_actor :: u128
  le_sequence :: u64
  le_payload :: bytes

record ledger_checkpoint =
  lc_realm :: u128
  lc_epoch :: u64
  lc_head :: array32
  lc_state_root :: array32
  lc_height :: u64

record ledger =
  lg_realm :: u128
  lg_epoch :: u64
  lg_max_events :: nat
  lg_events :: "(array32, ledger_event) btree_map"
  lg_head :: "array32 option"
  lg_checkpoint :: "ledger_checkpoint option"
  lg_last_sequences :: "(u128, u64) btree_map"

section \<open>Operations\<close>

definition put_option :: "array32 option \<Rightarrow> bytes" where
  "put_option o' = (case o' of Some d \<Rightarrow> 1 # to_be d | None \<Rightarrow> [0])"

definition hash_event ::
    "crypto \<Rightarrow> array32 option \<Rightarrow> u128 \<Rightarrow> u64 \<Rightarrow> u128 \<Rightarrow> u64 \<Rightarrow> bytes \<Rightarrow> array32" where
  "hash_event C parent realm epoch actor sequence payload =
     sha256 C (LEDGER_EVENT_DOMAIN @ put_option parent @ to_be realm @ to_be epoch @ to_be actor
       @ to_be sequence @ to_be (word_of_nat (length payload) :: u64) @ payload)"

definition ledger_event_new ::
    "crypto \<Rightarrow> array32 option \<Rightarrow> u128 \<Rightarrow> u64 \<Rightarrow> u128 \<Rightarrow> u64 \<Rightarrow> bytes \<Rightarrow> ledger_event" where
  "ledger_event_new C parent realm epoch actor sequence payload =
     \<lparr>le_id = hash_event C parent realm epoch actor sequence payload, le_parent = parent,
      le_realm = realm, le_epoch = epoch, le_actor = actor, le_sequence = sequence,
      le_payload = payload\<rparr>"

definition ledger_new :: "u128 \<Rightarrow> u64 \<Rightarrow> nat \<Rightarrow> ledger" where
  "ledger_new realm epoch max_events =
     \<lparr>lg_realm = realm, lg_epoch = epoch, lg_max_events = min max_events MAX_EVENTS, lg_events = bt_new,
      lg_head = None, lg_checkpoint = None, lg_last_sequences = bt_new\<rparr>"

definition ledger_append :: "crypto \<Rightarrow> ledger \<Rightarrow> ledger_event \<Rightarrow> ledger_error + ledger" where
  "ledger_append C l event =
     (if length (le_payload event) > MAX_PAYLOAD then Inl PayloadTooLarge
      else if le_realm event \<noteq> lg_realm l \<or> le_epoch event \<noteq> lg_epoch l then Inl WrongContext
      else if le_id event \<noteq> hash_event C (le_parent event) (le_realm event) (le_epoch event)
                (le_actor event) (le_sequence event) (le_payload event) then Inl InvalidEventId
      else if bt_contains (lg_events l) (le_id event) then Inl DuplicateEvent
      else if (case bt_get (lg_last_sequences l) (le_actor event) of
                 Some lst \<Rightarrow> le_sequence event \<le> lst | None \<Rightarrow> False) then Inl NonMonotonicSequence
      else if le_parent event \<noteq> lg_head l then Inl UnknownOrForkedParent
      else if length (lg_events l) \<ge> lg_max_events l then Inl LedgerCapacity
      else Inr (l\<lparr>lg_last_sequences := bt_insert (le_actor event) (le_sequence event) (lg_last_sequences l),
                   lg_head := Some (le_id event),
                   lg_events := bt_insert (le_id event) event (lg_events l)\<rparr>))"

text \<open>The \<open>while let\<close> loop of \<open>chain\<close>: it gives up once it holds more events than are retained.\<close>

function chain_loop ::
    "(array32, ledger_event) btree_map \<Rightarrow> array32 option \<Rightarrow> ledger_event list
     \<Rightarrow> ledger_error + ledger_event list" where
  "chain_loop events current reverse =
     (case current of
        None \<Rightarrow> Inr (rev reverse)
      | Some i \<Rightarrow>
          (case bt_get events i of
             None \<Rightarrow> Inl UnknownHead
           | Some event \<Rightarrow>
               if length (reverse @ [event]) > length events then Inl UnknownHead
               else chain_loop events (le_parent event) (reverse @ [event])))"
  by pat_completeness auto
termination
  by (relation "measure (\<lambda>(events, current, reverse). Suc (length events) - length reverse)") auto

declare chain_loop.simps [simp del]

definition ledger_chain :: "ledger \<Rightarrow> array32 \<Rightarrow> ledger_error + ledger_event list" where
  "ledger_chain l head = chain_loop (lg_events l) (Some head) []"

definition state_root :: "crypto \<Rightarrow> ledger \<Rightarrow> array32 \<Rightarrow> ledger_error + array32" where
  "state_root C l head =
     bindR (ledger_chain l head) (\<lambda>chain.
       Inr (sha256 C (LEDGER_ROOT_DOMAIN @ to_be (lg_realm l) @ to_be (lg_epoch l)
              @ to_be (word_of_nat (length chain) :: u64) @ concat (map (\<lambda>e. to_be (le_id e)) chain))))"

definition validate_retained_checkpoint ::
    "crypto \<Rightarrow> ledger \<Rightarrow> ledger_checkpoint \<Rightarrow> ledger_error + unit" where
  "validate_retained_checkpoint C l ck =
     (if lc_realm ck \<noteq> lg_realm l \<or> lc_epoch ck \<noteq> lg_epoch l then Inl WrongContext
      else bindR (state_root C l (lc_head ck)) (\<lambda>root.
        if root \<noteq> lc_state_root ck then Inl RootMismatch
        else bindR (ledger_chain l (lc_head ck)) (\<lambda>chain.
          if lc_height ck \<noteq> word_of_nat (length chain - 1) then Inl HeightMismatch else Inr ())))"

definition accept_checkpoint :: "crypto \<Rightarrow> ledger \<Rightarrow> ledger_checkpoint \<Rightarrow> ledger_error + ledger" where
  "accept_checkpoint C l ck =
     (if lc_realm ck \<noteq> lg_realm l \<or> lc_epoch ck \<noteq> lg_epoch l then Inl WrongContext
      else if lg_head l \<noteq> Some (lc_head ck) then Inl StaleCheckpoint
      else bindR (validate_retained_checkpoint C l ck) (\<lambda>_.
        case lg_checkpoint l of
          Some previous \<Rightarrow>
            if previous = ck then Inr l
            else if lc_height ck \<le> lc_height previous then Inl ConflictingCheckpoint
            else Inr (l\<lparr>lg_checkpoint := Some ck\<rparr>)
        | None \<Rightarrow> Inr (l\<lparr>lg_checkpoint := Some ck\<rparr>)))"

section \<open>Snapshots\<close>

definition put_event :: "ledger_event \<Rightarrow> bytes" where
  "put_event e = to_be (le_id e) @ put_option (le_parent e) @ to_be (le_realm e) @ to_be (le_epoch e)
     @ to_be (le_actor e) @ to_be (le_sequence e)
     @ to_be (word_of_nat (length (le_payload e)) :: u32) @ le_payload e"

definition put_checkpoint :: "ledger_checkpoint option \<Rightarrow> bytes" where
  "put_checkpoint c =
     (case c of
        Some ck \<Rightarrow> 1 # to_be (lc_realm ck) @ to_be (lc_epoch ck) @ to_be (lc_head ck)
                    @ to_be (lc_state_root ck) @ to_be (lc_height ck)
      | None \<Rightarrow> [0])"

definition put_sequence :: "u128 \<times> u64 \<Rightarrow> bytes" where
  "put_sequence p = to_be (fst p) @ to_be (snd p)"

definition snapshot_chain :: "ledger \<Rightarrow> ledger_event list" where
  "snapshot_chain l =
     (case lg_head l of
        None \<Rightarrow> []
      | Some head \<Rightarrow> (case ledger_chain l head of Inr chain \<Rightarrow> chain | Inl _ \<Rightarrow> []))"

definition ledger_snapshot :: "ledger \<Rightarrow> bytes" where
  "ledger_snapshot l =
     LEDGER_SNAPSHOT_DOMAIN @ [SNAPSHOT_VERSION] @ to_be (lg_realm l) @ to_be (lg_epoch l)
     @ to_be (word_of_nat (length (snapshot_chain l)) :: u32)
     @ concat (map put_event (snapshot_chain l))
     @ put_option (lg_head l) @ put_checkpoint (lg_checkpoint l)
     @ to_be (word_of_nat (length (lg_last_sequences l)) :: u32)
     @ concat (map put_sequence (lg_last_sequences l))"

definition snap_word :: "(ledger_error, 'a::len word) reader" where
  "snap_word = rd_word TruncatedSnapshot"

definition snap_option :: "(ledger_error, array32 option) reader" where
  "snap_option bs =
     bindR (snap_word bs) (\<lambda>(tag :: u8, bs).
       if tag = 0 then Inr (None, bs)
       else if tag = 1 then bindR (snap_word bs) (\<lambda>(d, bs). Inr (Some d, bs))
       else Inl InvalidSnapshotBounds)"

definition snap_event :: "(ledger_error, ledger_event) reader" where
  "snap_event bs =
     bindR (snap_word bs) (\<lambda>(i, bs).
     bindR (snap_option bs) (\<lambda>(parent, bs).
     bindR (snap_word bs) (\<lambda>(realm, bs).
     bindR (snap_word bs) (\<lambda>(epoch, bs).
     bindR (snap_word bs) (\<lambda>(actor, bs).
     bindR (snap_word bs) (\<lambda>(sequence, bs).
     bindR (snap_word bs) (\<lambda>(payload_len :: u32, bs).
       if unat payload_len > MAX_PAYLOAD then Inl InvalidSnapshotBounds
       else
     bindR (rd_take TruncatedSnapshot (unat payload_len) bs) (\<lambda>(payload, bs).
       Inr (\<lparr>le_id = i, le_parent = parent, le_realm = realm, le_epoch = epoch, le_actor = actor,
             le_sequence = sequence, le_payload = payload\<rparr>, bs)))))))))"

definition snap_checkpoint :: "(ledger_error, ledger_checkpoint option) reader" where
  "snap_checkpoint bs =
     bindR (snap_word bs) (\<lambda>(tag :: u8, bs).
       if tag = 0 then Inr (None, bs)
       else if tag = 1 then
     bindR (snap_word bs) (\<lambda>(realm, bs).
     bindR (snap_word bs) (\<lambda>(epoch, bs).
     bindR (snap_word bs) (\<lambda>(head, bs).
     bindR (snap_word bs) (\<lambda>(root, bs).
     bindR (snap_word bs) (\<lambda>(height, bs).
       Inr (Some \<lparr>lc_realm = realm, lc_epoch = epoch, lc_head = head, lc_state_root = root,
                  lc_height = height\<rparr>, bs))))))
       else Inl InvalidSnapshotBounds)"

primrec restore_events :: "crypto \<Rightarrow> nat \<Rightarrow> ledger \<Rightarrow> (ledger_error, ledger) reader" where
  "restore_events C 0 l bs = Inr (l, bs)"
| "restore_events C (Suc n) l bs =
     bindR (snap_event bs) (\<lambda>(e, bs).
     bindR (ledger_append C l e) (\<lambda>l. restore_events C n l bs))"

primrec restore_sequences ::
    "nat \<Rightarrow> u128 option \<Rightarrow> (u128, u64) btree_map \<Rightarrow> (ledger_error, (u128, u64) btree_map) reader" where
  "restore_sequences 0 previous m bs = Inr (m, bs)"
| "restore_sequences (Suc n) previous m bs =
     bindR (snap_word bs) (\<lambda>(actor :: u128, bs).
     bindR (snap_word bs) (\<lambda>(sequence :: u64, bs).
       if (case previous of Some p \<Rightarrow> actor \<le> p | None \<Rightarrow> False) then Inl NonCanonicalSnapshot
       else if bt_contains m actor then Inl SnapshotSequenceMismatch
       else restore_sequences n (Some actor) (bt_insert actor sequence m) bs))"

definition ledger_restore :: "crypto \<Rightarrow> bytes \<Rightarrow> nat \<Rightarrow> ledger_error + ledger" where
  "ledger_restore C raw max_events =
     (if length raw > LEDGER_MAX_SNAPSHOT_BYTES then Inl SnapshotTooLarge
      else
     bindR (rd_take TruncatedSnapshot (length LEDGER_SNAPSHOT_DOMAIN) raw) (\<lambda>(domain, bs).
       if domain \<noteq> LEDGER_SNAPSHOT_DOMAIN then Inl InvalidSnapshotHeader
       else
     bindR (snap_word bs) (\<lambda>(version, bs).
       if version \<noteq> SNAPSHOT_VERSION then Inl InvalidSnapshotHeader
       else
     bindR (snap_word bs) (\<lambda>(realm, bs).
     bindR (snap_word bs) (\<lambda>(epoch, bs).
     bindR (snap_word bs) (\<lambda>(event_count :: u32, bs).
       let effective_max = min max_events MAX_EVENTS in
       if unat event_count > effective_max \<or> unat event_count > MAX_EVENTS
       then Inl InvalidSnapshotBounds
       else
     bindR (restore_events C (unat event_count) (ledger_new realm epoch effective_max) bs) (\<lambda>(l, bs).
     bindR (snap_option bs) (\<lambda>(encoded_head, bs).
       if encoded_head \<noteq> lg_head l then Inl UnknownHead
       else
     bindR (snap_checkpoint bs) (\<lambda>(encoded_checkpoint, bs).
     bindR (case encoded_checkpoint of
              None \<Rightarrow> Inr l
            | Some ck \<Rightarrow> bindR (validate_retained_checkpoint C l ck) (\<lambda>_.
                Inr (l\<lparr>lg_checkpoint := Some ck\<rparr>))) (\<lambda>l.
     bindR (snap_word bs) (\<lambda>(sequence_count :: u32, bs).
       if unat sequence_count > unat event_count \<or> unat sequence_count > MAX_EVENTS
       then Inl InvalidSnapshotBounds
       else
     bindR (restore_sequences (unat sequence_count) None bt_new bs) (\<lambda>(encoded_sequences, bs).
       if encoded_sequences \<noteq> lg_last_sequences l then Inl SnapshotSequenceMismatch
       else if bs \<noteq> [] then Inl TrailingSnapshot
       else Inr l))))))))))))"

end
