(* ===== verification/Ledger_Log.thy ===== *)
theory Ledger_Log
  imports Ledger
begin

text \<open>
  The ledger as a refinement of an abstract append-only log. \<open>ledger_log C l xs\<close> says that the
  maps, the head and the checkpoint of \<open>l\<close> represent the event list \<open>xs\<close>; the loops of the source
  (the parent walk, the snapshot reader) are characterised over that list.
\<close>

section \<open>The abstract log\<close>

definition tip :: "ledger_event list \<Rightarrow> array32 option" where
  "tip xs = (if xs = [] then None else Some (le_id (last xs)))"

definition last_sequence :: "ledger_event list \<Rightarrow> u128 \<Rightarrow> u64 option" where
  "last_sequence xs a = (let ys = filter (\<lambda>e. le_actor e = a) xs in
     if ys = [] then None else Some (le_sequence (last ys)))"

definition entry_ok :: "crypto \<Rightarrow> u128 \<Rightarrow> u64 \<Rightarrow> ledger_event \<Rightarrow> bool" where
  "entry_ok C realm epoch e \<longleftrightarrow>
     length (le_payload e) \<le> MAX_PAYLOAD \<and> le_realm e = realm \<and> le_epoch e = epoch
     \<and> le_id e = hash_event C (le_parent e) realm epoch (le_actor e) (le_sequence e) (le_payload e)"

definition admits :: "crypto \<Rightarrow> u128 \<Rightarrow> u64 \<Rightarrow> ledger_event list \<Rightarrow> ledger_event \<Rightarrow> bool" where
  "admits C realm epoch xs e \<longleftrightarrow>
     entry_ok C realm epoch e \<and> le_id e \<notin> le_id ` set xs
     \<and> (\<forall>s. last_sequence xs (le_actor e) = Some s \<longrightarrow> s < le_sequence e)
     \<and> le_parent e = tip xs"

definition valid_log :: "crypto \<Rightarrow> u128 \<Rightarrow> u64 \<Rightarrow> ledger_event list \<Rightarrow> bool" where
  "valid_log C realm epoch xs \<longleftrightarrow> (\<forall>i<length xs. admits C realm epoch (take i xs) (xs ! i))"

lemma last_sequence_snoc:
  "last_sequence (xs @ [e]) a = (if le_actor e = a then Some (le_sequence e) else last_sequence xs a)"
  by (simp add: last_sequence_def)

lemma tip_snoc [simp]: "tip (xs @ [e]) = Some (le_id e)"
  by (simp add: tip_def)

lemma valid_log_Nil [simp]: "valid_log C realm epoch []"
  by (simp add: valid_log_def)

lemma valid_log_snoc:
  "valid_log C realm epoch (xs @ [e]) \<longleftrightarrow> valid_log C realm epoch xs \<and> admits C realm epoch xs e"
  by (auto simp: valid_log_def nth_append less_Suc_eq)

lemma valid_log_distinct: "valid_log C realm epoch xs \<Longrightarrow> distinct (map le_id xs)"
  by (induction xs rule: rev_induct) (auto simp: valid_log_snoc admits_def)

lemma id_index_eq:
  assumes "valid_log C realm epoch xs" and "j < length xs" and "k < length xs" and "le_id (xs ! j) = le_id (xs ! k)"
  shows "j = k"
  using valid_log_distinct [OF assms(1)] assms(2-4) by (auto simp: distinct_conv_nth)

lemma valid_log_entry: "valid_log C realm epoch xs \<Longrightarrow> e \<in> set xs \<Longrightarrow> entry_ok C realm epoch e"
  by (auto simp: valid_log_def admits_def in_set_conv_nth)

lemma valid_log_parent:
  "valid_log C realm epoch xs \<Longrightarrow> k < length xs \<Longrightarrow>
   le_parent (xs ! k) = (if k = 0 then None else Some (le_id (xs ! (k - 1))))"
  by (auto simp: valid_log_def admits_def tip_def last_conv_nth dest!: spec [where x = k])

section \<open>What a ledger represents\<close>

definition event_at :: "ledger_event list \<Rightarrow> array32 \<Rightarrow> ledger_event option" where
  "event_at xs i = find (\<lambda>e. le_id e = i) xs"

definition root_of :: "crypto \<Rightarrow> u128 \<Rightarrow> u64 \<Rightarrow> ledger_event list \<Rightarrow> array32" where
  "root_of C realm epoch xs =
     sha256 C (LEDGER_ROOT_DOMAIN @ to_be realm @ to_be epoch @ to_be (word_of_nat (length xs) :: u64)
       @ concat (map (\<lambda>e. to_be (le_id e)) xs))"

definition checkpoint_at :: "crypto \<Rightarrow> u128 \<Rightarrow> u64 \<Rightarrow> ledger_event list \<Rightarrow> nat \<Rightarrow> ledger_checkpoint" where
  "checkpoint_at C realm epoch xs k =
     \<lparr>lc_realm = realm, lc_epoch = epoch, lc_head = le_id (xs ! k),
      lc_state_root = root_of C realm epoch (take (Suc k) xs), lc_height = word_of_nat k\<rparr>"

definition ledger_core :: "crypto \<Rightarrow> ledger \<Rightarrow> ledger_event list \<Rightarrow> bool" where
  "ledger_core C l xs \<longleftrightarrow>
     valid_log C (lg_realm l) (lg_epoch l) xs
     \<and> length xs \<le> lg_max_events l \<and> lg_max_events l \<le> MAX_EVENTS
     \<and> bt_ok (lg_events l) \<and> (\<forall>i. bt_get (lg_events l) i = event_at xs i)
     \<and> bt_ok (lg_last_sequences l) \<and> (\<forall>a. bt_get (lg_last_sequences l) a = last_sequence xs a)
     \<and> lg_head l = tip xs"

definition ledger_log :: "crypto \<Rightarrow> ledger \<Rightarrow> ledger_event list \<Rightarrow> bool" where
  "ledger_log C l xs \<longleftrightarrow>
     ledger_core C l xs
     \<and> (\<forall>ck. lg_checkpoint l = Some ck \<longrightarrow>
          (\<exists>k<length xs. ck = checkpoint_at C (lg_realm l) (lg_epoch l) xs k))"

lemma event_at_None: "event_at xs i = None \<longleftrightarrow> i \<notin> le_id ` set xs"
  by (auto simp: event_at_def find_None_iff)

lemma event_at_nth: "distinct (map le_id xs) \<Longrightarrow> k < length xs \<Longrightarrow> event_at xs (le_id (xs ! k)) = Some (xs ! k)"
  by (auto simp: event_at_def find_Some_iff distinct_conv_nth)

lemma event_at_snoc:
  "le_id e \<notin> le_id ` set xs \<Longrightarrow>
   event_at (xs @ [e]) i = (if i = le_id e then Some e else event_at xs i)"
  by (induction xs) (auto simp: event_at_def)

lemma core_length:
  assumes "ledger_core C l xs"
  shows "length (lg_events l) = length xs"
proof -
  have "distinct (map le_id xs)" using assms valid_log_distinct by (auto simp: ledger_core_def)
  then have "card (le_id ` set xs) = length xs" by (metis distinct_card length_map list.set_map)
  moreover have "{i. bt_get (lg_events l) i \<noteq> None} = le_id ` set xs"
    using assms event_at_None [of xs] by (auto simp: ledger_core_def)
  ultimately show ?thesis using assms btree.length_entries [of "lg_events l"] by (simp add: ledger_core_def)
qed

lemma core_empty: "ledger_core C (ledger_new realm epoch m) []"
  by (simp add: ledger_core_def ledger_new_def tip_def event_at_def last_sequence_def)

text \<open>A ledger is determined by its log, its bound and its checkpoint.\<close>

lemma core_unique:
  assumes "ledger_core C l xs" and "ledger_core C l' xs" and "lg_realm l = lg_realm l'"
    and "lg_epoch l = lg_epoch l'" and "lg_max_events l = lg_max_events l'" and "lg_checkpoint l = lg_checkpoint l'"
  shows "l = l'"
proof -
  have "lg_events l = lg_events l'"
    using assms(1,2) by (intro btree.map_eqI) (simp_all add: ledger_core_def)
  moreover have "lg_last_sequences l = lg_last_sequences l'"
    using assms(1,2) by (intro btree.map_eqI) (simp_all add: ledger_core_def)
  ultimately show ?thesis using assms by (intro ledger.equality) (simp_all add: ledger_core_def)
qed

section \<open>Appending\<close>

definition appended :: "ledger \<Rightarrow> ledger_event \<Rightarrow> ledger" where
  "appended l e = l\<lparr>lg_last_sequences := bt_insert (le_actor e) (le_sequence e) (lg_last_sequences l),
      lg_head := Some (le_id e), lg_events := bt_insert (le_id e) e (lg_events l)\<rparr>"

lemma append_iff:
  assumes "ledger_core C l xs"
  shows "ledger_append C l e = Inr l' \<longleftrightarrow>
    admits C (lg_realm l) (lg_epoch l) xs e \<and> length xs < lg_max_events l \<and> l' = appended l e"
proof -
  note c = assms[unfolded ledger_core_def] and len = core_length [OF assms]
  have dup: "bt_contains (lg_events l) i \<longleftrightarrow> i \<in> le_id ` set xs" for i
    using c event_at_None [of xs i] by (simp add: bt_contains_def)
  have seq: "bt_get (lg_last_sequences l) a = last_sequence xs a" for a using c by simp
  show ?thesis
    using c by (auto simp: ledger_append_def admits_def entry_ok_def appended_def len dup seq
        split: if_splits option.splits)
qed

lemma append_ok:
  assumes "ledger_core C l xs" and "ledger_append C l e = Inr l'"
  shows "ledger_core C l' (xs @ [e]) \<and> lg_checkpoint l' = lg_checkpoint l
      \<and> lg_realm l' = lg_realm l \<and> lg_epoch l' = lg_epoch l \<and> lg_max_events l' = lg_max_events l"
proof -
  have a: "admits C (lg_realm l) (lg_epoch l) xs e" "length xs < lg_max_events l" "l' = appended l e"
    using append_iff [OF assms(1)] assms(2) by auto
  then have "le_id e \<notin> le_id ` set xs" by (simp add: admits_def)
  with a assms(1) show ?thesis
    by (simp add: ledger_core_def valid_log_snoc last_sequence_snoc event_at_snoc appended_def)
qed

lemma checkpoint_at_append: "k < length xs \<Longrightarrow> checkpoint_at C realm epoch (xs @ ys) k = checkpoint_at C realm epoch xs k"
  by (simp add: checkpoint_at_def nth_append)

lemma append_log:
  assumes "ledger_log C l xs" and "ledger_append C l e = Inr l'"
  shows "ledger_log C l' (xs @ [e])"
proof -
  note ok = append_ok [OF _ assms(2), of xs]
  have "\<exists>k<length (xs @ [e]). ck = checkpoint_at C (lg_realm l) (lg_epoch l) (xs @ [e]) k"
    if "lg_checkpoint l = Some ck" for ck
    using assms(1) that checkpoint_at_append less_SucI unfolding ledger_log_def
    by (metis length_append_singleton)
  with ok assms(1) show ?thesis by (simp add: ledger_log_def)
qed

section \<open>The parent walk\<close>

lemma chain_loop_walk:
  assumes "valid_log C realm epoch xs" and "\<forall>i. bt_get events i = event_at xs i"
  shows "k < length xs \<Longrightarrow> Suc k + length acc \<le> length events \<Longrightarrow>
    chain_loop events (Some (le_id (xs ! k))) acc = Inr (take (Suc k) xs @ rev acc)"
proof (induction k arbitrary: acc)
  case 0
  have "bt_get events (le_id (xs ! 0)) = Some (xs ! 0)"
    using 0 assms(2) event_at_nth [OF valid_log_distinct [OF assms(1)]] by simp
  with 0 valid_log_parent [OF assms(1), of 0] show ?case
    by (simp add: chain_loop.simps take_Suc_conv_app_nth)
next
  case (Suc k)
  have "bt_get events (le_id (xs ! Suc k)) = Some (xs ! Suc k)"
    using Suc.prems(1) assms(2) event_at_nth [OF valid_log_distinct [OF assms(1)]] by simp
  moreover have "le_parent (xs ! Suc k) = Some (le_id (xs ! k))"
    using valid_log_parent [OF assms(1) Suc.prems(1)] by simp
  ultimately show ?case
    using Suc.IH [of "acc @ [xs ! Suc k]"] Suc.prems
    by (subst chain_loop.simps) (simp add: take_Suc_conv_app_nth)
qed

lemma chain_exact:
  assumes "ledger_core C l xs"
  shows "ledger_chain l h = Inr ys \<longleftrightarrow> (\<exists>k<length xs. h = le_id (xs ! k) \<and> ys = take (Suc k) xs)"
    and "h \<notin> le_id ` set xs \<Longrightarrow> ledger_chain l h = Inl UnknownHead"
proof -
  note c = assms[unfolded ledger_core_def] and len = core_length [OF assms]
  have walk: "ledger_chain l (le_id (xs ! k)) = Inr (take (Suc k) xs)" if "k < length xs" for k
    using chain_loop_walk [of C _ _ xs "lg_events l" k "[]"] c len that by (auto simp: ledger_chain_def)
  show unknown: "ledger_chain l h = Inl UnknownHead" if "h \<notin> le_id ` set xs"
    using that c event_at_None [of xs h] by (simp add: ledger_chain_def chain_loop.simps)
  show "ledger_chain l h = Inr ys \<longleftrightarrow> (\<exists>k<length xs. h = le_id (xs ! k) \<and> ys = take (Suc k) xs)"
  proof (cases "h \<in> le_id ` set xs")
    case True
    then obtain k where k: "k < length xs" "h = le_id (xs ! k)" by (auto simp: in_set_conv_nth)
    have "j = k" if "j < length xs" "le_id (xs ! j) = h" for j
      using id_index_eq [OF c [THEN conjunct1] that(1) k(1)] that(2) k(2) by simp
    have "ledger_chain l h = Inr (take (Suc k) xs)" using walk [OF k(1)] k(2) by simp
    with k \<open>\<And>j. j < length xs \<Longrightarrow> le_id (xs ! j) = h \<Longrightarrow> j = k\<close> show ?thesis by (metis sum.inject(2))
  next
    case False
    with unknown show ?thesis using nth_mem by fastforce
  qed
qed

section \<open>Checkpoints\<close>

lemma validate_exact:
  assumes "ledger_core C l xs"
  shows "validate_retained_checkpoint C l ck = Inr u \<longleftrightarrow>
    (\<exists>k<length xs. ck = checkpoint_at C (lg_realm l) (lg_epoch l) xs k)"
proof -
  have "validate_retained_checkpoint C l ck = Inr u \<longleftrightarrow>
      lc_realm ck = lg_realm l \<and> lc_epoch ck = lg_epoch l
      \<and> (\<exists>ys. ledger_chain l (lc_head ck) = Inr ys \<and> lc_state_root ck = root_of C (lg_realm l) (lg_epoch l) ys
           \<and> lc_height ck = word_of_nat (length ys - 1))"
    by (auto simp: validate_retained_checkpoint_def state_root_def root_of_def)
  also have "\<dots> \<longleftrightarrow> (\<exists>k<length xs. ck = checkpoint_at C (lg_realm l) (lg_epoch l) xs k)"
    unfolding chain_exact(1) [OF assms] by (cases ck) (auto simp: checkpoint_at_def min_absorb2)
  finally show ?thesis .
qed

text \<open>Admission accepts exactly the derived checkpoint of the tip.\<close>

lemma accept_exact:
  assumes log: "ledger_log C l xs"
  shows "accept_checkpoint C l ck = Inr l' \<longleftrightarrow>
    xs \<noteq> [] \<and> ck = checkpoint_at C (lg_realm l) (lg_epoch l) xs (length xs - 1)
    \<and> l' = l\<lparr>lg_checkpoint := Some ck\<rparr>"
proof -
  let ?at = "checkpoint_at C (lg_realm l) (lg_epoch l) xs"
  have core: "ledger_core C l xs" using log by (simp add: ledger_log_def)
  then have small: "length xs \<le> 4096" and head: "lg_head l = tip xs" by (simp_all add: ledger_core_def)
  have tipped: "ck = ?at k \<and> k < length xs \<and> lg_head l = Some (lc_head ck) \<longleftrightarrow>
      ck = ?at k \<and> k < length xs \<and> k = length xs - 1" for k
  proof -
    have "le_id (xs ! k) = le_id (last xs) \<longleftrightarrow> k = length xs - 1" if "k < length xs"
    proof -
      have "last xs = xs ! (length xs - 1)" "length xs - 1 < length xs"
        using that by (cases "xs = []"; simp add: last_conv_nth)+
      then show ?thesis using that core id_index_eq [of C "lg_realm l" "lg_epoch l" xs k "length xs - 1"]
        by (auto simp: ledger_core_def)
    qed
    then show ?thesis using head by (auto simp: checkpoint_at_def tip_def)
  qed
  have prev: "ck' = ?at (length xs - 1) \<or> lc_height ck' < lc_height (?at (length xs - 1))"
    if "lg_checkpoint l = Some ck'" for ck'
  proof -
    from that log obtain k where k: "k < length xs" "ck' = ?at k" by (auto simp: ledger_log_def)
    have "lc_height (?at k) < lc_height (?at (length xs - 1))" if "k \<noteq> length xs - 1"
    proof -
      have "k < length xs - 1" "length xs - 1 < 2 ^ 64" using that k(1) small by simp_all
      then have "unat (word_of_nat k :: u64) < unat (word_of_nat (length xs - 1) :: u64)"
        by (simp only: unat_of_nat) simp
      then show ?thesis unfolding checkpoint_at_def ledger_checkpoint.simps word_less_nat_alt .
    qed
    then show ?thesis using k(2) by blast
  qed
  have "accept_checkpoint C l ck = Inr l' \<longleftrightarrow>
      lg_head l = Some (lc_head ck) \<and> (\<exists>k<length xs. ck = ?at k)
      \<and> (\<forall>ck'. lg_checkpoint l = Some ck' \<longrightarrow> ck' = ck \<or> lc_height ck' < lc_height ck)
      \<and> l' = l\<lparr>lg_checkpoint := Some ck\<rparr>"
  proof -
    have "(\<exists>k<length xs. ck = ?at k) \<Longrightarrow> lc_realm ck = lg_realm l \<and> lc_epoch ck = lg_epoch l"
      by (auto simp: checkpoint_at_def)
    then show ?thesis
      using validate_exact [OF core, of ck] 
      by (auto simp: accept_checkpoint_def linorder_not_le split: option.splits if_splits)
  qed
  also have "\<dots> \<longleftrightarrow> xs \<noteq> [] \<and> ck = ?at (length xs - 1) \<and> l' = l\<lparr>lg_checkpoint := Some ck\<rparr>"
  proof
    assume a: "lg_head l = Some (lc_head ck) \<and> (\<exists>k<length xs. ck = ?at k)
      \<and> (\<forall>ck'. lg_checkpoint l = Some ck' \<longrightarrow> ck' = ck \<or> lc_height ck' < lc_height ck)
      \<and> l' = l\<lparr>lg_checkpoint := Some ck\<rparr>"
    then obtain k where "k < length xs" "ck = ?at k" by blast
    with a tipped [of k] show "xs \<noteq> [] \<and> ck = ?at (length xs - 1) \<and> l' = l\<lparr>lg_checkpoint := Some ck\<rparr>"
      by auto
  next
    assume a: "xs \<noteq> [] \<and> ck = ?at (length xs - 1) \<and> l' = l\<lparr>lg_checkpoint := Some ck\<rparr>"
    then have "length xs - 1 < length xs" by simp
    with a tipped [of "length xs - 1"] prev show "lg_head l = Some (lc_head ck) \<and> (\<exists>k<length xs. ck = ?at k)
      \<and> (\<forall>ck'. lg_checkpoint l = Some ck' \<longrightarrow> ck' = ck \<or> lc_height ck' < lc_height ck)
      \<and> l' = l\<lparr>lg_checkpoint := Some ck\<rparr>" by blast
  qed
  finally show ?thesis .
qed

end
