(* ===== verification/Ledger_Snapshot.thy ===== *)
theory Ledger_Snapshot
  imports Ledger_Log
begin

text \<open>
  The snapshot encoding is canonical: the field codecs are prefix codecs, the two read loops
  of \<open>restore\<close> are characterised over lists, and together they give exactly the byte strings
  that restore, namely the snapshots of well-formed ledgers.
\<close>

section \<open>Field codecs\<close>

lemma snap_word_iff [simp]:
  "8 dvd LENGTH('a::len) \<Longrightarrow> snap_word bs = Inr (w :: 'a word, rest) \<longleftrightarrow> bs = to_be w @ rest"
  by (simp add: snap_word_def rd_word_eq_Inr)

lemma snap_word_put [simp]:
  "8 dvd LENGTH('a::len) \<Longrightarrow> snap_word (to_be (w :: 'a word) @ rest) = Inr (w, rest)"
  by simp

lemma to_be_u8 [simp]: "to_be (b :: u8) = [b]"
  by (simp add: to_be_def)

lemma snap_word_u8 [simp]: "snap_word ((b :: u8) # rest) = Inr (b, rest)"
  using snap_word_put [of b rest] by simp

interpretation option_codec: prefix_codec put_option snap_option "\<lambda>_. True"
proof
  show "snap_option (put_option x @ rest) = Inr (x, rest)" for x rest
    by (cases x) (simp_all add: snap_option_def put_option_def)
  show "True \<and> bs = put_option x @ rest" if "snap_option bs = Inr (x, rest)" for bs x rest
    using that by (auto simp: snap_option_def put_option_def split: if_splits)
qed

interpretation event_entry: prefix_codec put_event snap_event "\<lambda>e. length (le_payload e) \<le> MAX_PAYLOAD"
proof
  fix e :: ledger_event and rest
  assume "length (le_payload e) \<le> MAX_PAYLOAD"
  then have n: "unat (word_of_nat (length (le_payload e)) :: u32) = length (le_payload e)"
    "length (le_payload e) \<le> 1024" by (simp_all add: unat_of_nat)
  show "snap_event (put_event e @ rest) = Inr (e, rest)"
    using n by (simp add: snap_event_def put_event_def option_codec.get_put)
next
  fix bs e rest
  assume "snap_event bs = Inr (e, rest)"
  then show "length (le_payload e) \<le> MAX_PAYLOAD \<and> bs = put_event e @ rest"
    by (auto simp: snap_event_def put_event_def option_codec.get_iff rd_take_eq_Inr)
qed

interpretation checkpoint_entry: prefix_codec put_checkpoint snap_checkpoint "\<lambda>_. True"
proof
  show "snap_checkpoint (put_checkpoint x @ rest) = Inr (x, rest)" for x rest
    by (cases x) (simp_all add: snap_checkpoint_def put_checkpoint_def)
  show "True \<and> bs = put_checkpoint x @ rest" if "snap_checkpoint bs = Inr (x, rest)" for bs x rest
    using that by (auto simp: snap_checkpoint_def put_checkpoint_def split: if_splits)
qed

section \<open>The read loops\<close>

lemma restore_events_read:
  "restore_events C n l bs = Inr (l', rest) \<Longrightarrow>
   \<exists>xs. length xs = n \<and> (\<forall>e\<in>set xs. length (le_payload e) \<le> MAX_PAYLOAD)
      \<and> bs = concat (map put_event xs) @ rest \<and> foldR (ledger_append C) l xs = Inr l'"
proof (induction n arbitrary: l bs)
  case 0
  then show ?case by auto
next
  case (Suc n)
  then obtain e bs1 l1 where e: "snap_event bs = Inr (e, bs1)" "ledger_append C l e = Inr l1"
    and tl: "restore_events C n l1 bs1 = Inr (l', rest)" by auto
  from Suc.IH [OF tl] obtain xs where "length xs = n" "\<forall>e\<in>set xs. length (le_payload e) \<le> MAX_PAYLOAD"
    "bs1 = concat (map put_event xs) @ rest" "foldR (ledger_append C) l1 xs = Inr l'" by auto
  moreover have "length (le_payload e) \<le> MAX_PAYLOAD" "bs = put_event e @ bs1"
    using e(1) by (simp_all only: event_entry.get_iff)
  ultimately show ?case using e(2) by (intro exI [of _ "e # xs"]) simp
qed

lemma restore_events_write:
  "\<forall>e\<in>set xs. length (le_payload e) \<le> MAX_PAYLOAD \<Longrightarrow> foldR (ledger_append C) l xs = Inr l' \<Longrightarrow>
   restore_events C (length xs) l (concat (map put_event xs) @ rest) = Inr (l', rest)"
proof (induction xs arbitrary: l)
  case Nil
  then show ?case by simp
next
  case (Cons e xs)
  then obtain l1 where "ledger_append C l e = Inr l1" "foldR (ledger_append C) l1 xs = Inr l'" by auto
  with Cons event_entry.get_put [of e "concat (map put_event xs) @ rest"] show ?case by simp
qed

lemma bt_insert_end: "bt_ok (m @ [(a, s)]) \<Longrightarrow> bt_insert a s m = m @ [(a, s)]"
  by (induction m) (auto simp: bt_ok_Cons)

lemma bt_ok_snoc:
  "bt_ok (m @ [(a, s)]) \<longleftrightarrow> bt_ok m \<and> (m = [] \<or> fst (last m) < a)"
proof (induction m)
  case Nil
  then show ?case by (simp add: bt_ok_def)
next
  case (Cons e m)
  show ?case
  proof (cases m rule: rev_cases)
    case Nil
    then show ?thesis by (auto simp: bt_ok_def)
  next
    case (snoc m' f)
    with Cons show ?thesis by (auto simp: bt_ok_Cons)
  qed
qed

lemma bt_ok_prefix: "bt_ok (m @ ps) \<Longrightarrow> bt_ok m"
  by (simp add: bt_ok_def ascending_iff sorted_wrt_append)

lemma restore_sequences_Suc:
  assumes "bt_ok m" and "previous = (if m = [] then None else Some (fst (last m)))"
  shows "restore_sequences (Suc n) previous m (put_sequence (a, s) @ bs) =
    (if bt_ok (m @ [(a, s)]) then restore_sequences n (Some a) (m @ [(a, s)]) bs else Inl NonCanonicalSnapshot)"
proof -
  have "\<not> bt_contains m a" if "bt_ok (m @ [(a, s)])"
  proof -
    have "distinct (map fst (m @ [(a, s)]))" using that unfolding bt_ok_def by (rule ascending_distinct)
    then show ?thesis using btree.keys_get [OF assms(1), of a] by (auto simp: bt_contains_def)
  qed
  moreover have "\<not> (case previous of Some p \<Rightarrow> a \<le> p | None \<Rightarrow> False) \<longleftrightarrow> bt_ok (m @ [(a, s)])"
    using assms by (auto simp: bt_ok_snoc)
  ultimately show ?thesis using bt_insert_end [of m a s] by (auto simp: put_sequence_def)
qed

lemma restore_sequences_read:
  "bt_ok m \<Longrightarrow> previous = (if m = [] then None else Some (fst (last m))) \<Longrightarrow>
   restore_sequences n previous m bs = Inr (m', rest) \<Longrightarrow>
   \<exists>ps. length ps = n \<and> bs = concat (map put_sequence ps) @ rest \<and> m' = m @ ps"
proof (induction n arbitrary: m previous bs)
  case 0
  then show ?case by auto
next
  case (Suc n)
  from Suc.prems(3) obtain a :: u128 and s :: u64 and bs1 where bs: "bs = put_sequence (a, s) @ bs1"
    by (auto simp: put_sequence_def)
  then have "bt_ok (m @ [(a, s)])" "restore_sequences n (Some a) (m @ [(a, s)]) bs1 = Inr (m', rest)"
    using Suc.prems(3) unfolding bs restore_sequences_Suc [OF Suc.prems(1,2)] by (auto split: if_splits)
  then obtain ps where "length ps = n" "bs1 = concat (map put_sequence ps) @ rest" "m' = (m @ [(a, s)]) @ ps"
    using Suc.IH [of "m @ [(a, s)]" "Some a" bs1] by auto
  with bs show ?case by (intro exI [of _ "(a, s) # ps"]) simp
qed

lemma restore_sequences_write:
  "bt_ok (m @ ps) \<Longrightarrow> previous = (if m = [] then None else Some (fst (last m))) \<Longrightarrow>
   restore_sequences (length ps) previous m (concat (map put_sequence ps) @ rest) = Inr (m @ ps, rest)"
proof (induction ps arbitrary: m previous)
  case Nil
  then show ?case by simp
next
  case (Cons p ps)
  obtain a s where p: "p = (a, s)" by fastforce
  have ok: "bt_ok m" "bt_ok (m @ [(a, s)])"
    using Cons.prems(1) bt_ok_prefix [of m "p # ps"] bt_ok_prefix [of "m @ [(a, s)]" ps] p by auto
  show ?case
    using Cons.IH [of "m @ [(a, s)]" "Some a"] Cons.prems(1) ok
      restore_sequences_Suc [OF ok(1) Cons.prems(2), of "length ps" a s "concat (map put_sequence ps) @ rest"] p
    by simp
qed

section \<open>What restores\<close>

lemma replay_core:
  assumes "ledger_core C l ys" and "foldR (ledger_append C) l xs = Inr l'"
  shows "ledger_core C l' (ys @ xs) \<and> lg_checkpoint l' = lg_checkpoint l
    \<and> lg_realm l' = lg_realm l \<and> lg_epoch l' = lg_epoch l \<and> lg_max_events l' = lg_max_events l"
  using assms
proof (induction xs arbitrary: l ys)
  case Nil
  then show ?case by simp
next
  case (Cons e xs)
  then obtain l1 where l1: "ledger_append C l e = Inr l1" "foldR (ledger_append C) l1 xs = Inr l'" by auto
  have "ledger_core C l1 (ys @ [e])" using append_ok [OF Cons.prems(1) l1(1)] by blast
  from Cons.IH [OF this l1(2)] append_ok [OF Cons.prems(1) l1(1)] show ?case by simp
qed

lemma replay_log:
  assumes "valid_log C realm epoch xs" and "length xs \<le> m" and "m \<le> MAX_EVENTS"
  shows "\<exists>l. foldR (ledger_append C) (ledger_new realm epoch m) xs = Inr l"
  using assms
proof (induction xs rule: rev_induct)
  case Nil
  then show ?case by simp
next
  case (snoc e xs)
  then obtain l where l: "foldR (ledger_append C) (ledger_new realm epoch m) xs = Inr l"
    by (auto simp: valid_log_snoc)
  have core: "ledger_core C l xs" "lg_realm l = realm" "lg_epoch l = epoch" "lg_max_events l = m"
    using replay_core [OF core_empty l] snoc.prems(3) by (simp_all add: ledger_new_def)
  then have "ledger_append C l e = Inr (appended l e)"
    using append_iff [OF core(1)] snoc.prems by (simp add: valid_log_snoc)
  with l show ?case by (simp add: foldR_snoc)
qed

lemma snapshot_chain_log: "ledger_core C l xs \<Longrightarrow> snapshot_chain l = xs"
  using chain_exact(1) [of C l xs "le_id (last xs)" xs]
  by (cases "xs = []") (auto simp: snapshot_chain_def ledger_core_def tip_def last_conv_nth
      intro!: exI [of _ "length xs - 1"])

lemma log_payloads: "ledger_core C l xs \<Longrightarrow> \<forall>e\<in>set xs. length (le_payload e) \<le> MAX_PAYLOAD"
  using valid_log_entry by (fastforce simp: ledger_core_def entry_ok_def)

lemma core_checkpoint [simp]: "ledger_core C (l\<lparr>lg_checkpoint := c\<rparr>) xs \<longleftrightarrow> ledger_core C l xs"
  by (simp add: ledger_core_def)

text \<open>There are no more remembered actors than events.\<close>

lemma sequences_length:
  assumes "ledger_core C l xs"
  shows "length (lg_last_sequences l) \<le> length xs"
proof -
  have "{a. bt_get (lg_last_sequences l) a \<noteq> None} \<subseteq> le_actor ` set xs"
    using assms by (auto simp: ledger_core_def last_sequence_def Let_def filter_empty_conv split: if_splits)
  moreover have "card (le_actor ` set xs) \<le> length xs" by (metis card_image_le card_length finite_set order.trans)
  ultimately show ?thesis
    using btree.length_entries [of "lg_last_sequences l"] card_mono [OF finite_imageI [OF finite_set]] assms
    by (fastforce simp: ledger_core_def)
qed

lemma sum_list_bound: "\<forall>x\<in>set xs. f x \<le> b \<Longrightarrow> sum_list (map f xs) \<le> length xs * (b :: nat)"
  by (induction xs) auto

lemma length_put:
  "length (put_option x) \<le> 33" "length (put_checkpoint c) \<le> 97" "length (put_sequence p) = 24"
  by (simp_all add: put_option_def put_checkpoint_def put_sequence_def split: option.splits)

lemma snapshot_length:
  assumes "ledger_core C l xs"
  shows "length (ledger_snapshot l) \<le> LEDGER_MAX_SNAPSHOT_BYTES"
proof -
  have n: "length xs \<le> 4096" "length (lg_last_sequences l) \<le> 4096"
    using assms sequences_length [OF assms] by (simp_all add: ledger_core_def)
  have "length (put_event e) \<le> 1141" if "e \<in> set xs" for e
  proof -
    have "length (le_payload e) \<le> 1024" using log_payloads [OF assms] that by simp
    with length_put(1) [of "le_parent e"] show ?thesis by (simp add: put_event_def)
  qed
  then have "length (concat (map put_event xs)) \<le> length xs * 1141"
    by (auto simp: length_concat comp_def intro!: sum_list_bound)
  also have "\<dots> \<le> 4096 * 1141" using n by (intro mult_mono) auto
  finally have events: "length (concat (map put_event xs)) \<le> 4673536" by simp
  have "length (concat (map put_sequence (lg_last_sequences l))) = length (lg_last_sequences l) * 24"
    by (simp add: length_concat comp_def sum_list_triv length_put)
  with n events length_put(1) [of "lg_head l"] length_put(2) [of "lg_checkpoint l"] show ?thesis
    by (simp add: ledger_snapshot_def snapshot_chain_log [OF assms] LEDGER_SNAPSHOT_DOMAIN_def ascii_def)
qed

lemma restore_read:
  assumes "ledger_restore C raw m = Inr l"
  shows "(\<exists>xs. ledger_log C l xs) \<and> lg_max_events l = min m MAX_EVENTS \<and> raw = ledger_snapshot l"
proof -
  from assms obtain realm epoch count l0 ck scount bs1 bs2 where
    raw: "raw = LEDGER_SNAPSHOT_DOMAIN @ to_be SNAPSHOT_VERSION @ to_be (realm :: u128) @ to_be (epoch :: u64)
      @ to_be (count :: u32) @ bs1"
    and small: "unat count \<le> min m MAX_EVENTS"
    and ev: "restore_events C (unat count) (ledger_new realm epoch (min m MAX_EVENTS)) bs1 =
      Inr (l0, put_option (lg_head l0) @ put_checkpoint ck @ to_be (scount :: u32) @ bs2)"
    and ckl: "(case ck of None \<Rightarrow> Inr l0 | Some ck \<Rightarrow> bindR (validate_retained_checkpoint C l0 ck) (\<lambda>_.
        Inr (l0\<lparr>lg_checkpoint := Some ck\<rparr>))) = Inr l"
    and sq: "restore_sequences (unat scount) None bt_new bs2 = Inr (lg_last_sequences l, [])"
    by (auto simp: ledger_restore_def Let_def rd_take_eq_Inr option_codec.get_iff checkpoint_entry.get_iff
        simp del: to_be_u8)
  obtain xs where xs: "length xs = unat count"
    "bs1 = concat (map put_event xs) @ put_option (lg_head l0) @ put_checkpoint ck @ to_be scount @ bs2"
    "foldR (ledger_append C) (ledger_new realm epoch (min m MAX_EVENTS)) xs = Inr l0"
    using restore_events_read [OF ev] by blast
  note r = replay_core [OF core_empty xs(3)]
  then have core: "ledger_core C l0 xs" "lg_checkpoint l0 = None" "lg_realm l0 = realm" "lg_epoch l0 = epoch"
    "lg_max_events l0 = min m MAX_EVENTS" by (simp_all add: ledger_new_def)
  have l: "l = l0\<lparr>lg_checkpoint := ck\<rparr>"
    using ckl core(2) by (cases ck) auto
  have log: "ledger_log C l xs"
    using core l ckl validate_exact [OF core(1)] by (cases ck) (auto simp: ledger_log_def)
  obtain ps where ps: "length ps = unat scount" "bs2 = concat (map put_sequence ps)" "lg_last_sequences l = ps"
    using restore_sequences_read [OF _ _ sq] by (auto simp: bt_new_def bt_ok_def)
  have w: "word_of_nat (length xs) = count" "word_of_nat (length ps) = scount"
    using xs(1) ps(1) by simp_all
  have chain: "snapshot_chain l = xs" using log by (auto simp: ledger_log_def intro: snapshot_chain_log)
  have "raw = ledger_snapshot l"
    unfolding raw xs(2) ps(2) ledger_snapshot_def chain w ps(3) using l core w by simp
  then show ?thesis using log l core(5) by auto
qed

lemma restore_write:
  assumes log: "ledger_log C l xs" and max: "lg_max_events l = min m MAX_EVENTS"
  shows "ledger_restore C (ledger_snapshot l) m = Inr l"
proof -
  have core: "ledger_core C l xs" using log by (simp add: ledger_log_def)
  let ?new = "ledger_new (lg_realm l) (lg_epoch l) (min m MAX_EVENTS)"
  have n: "length xs \<le> min m MAX_EVENTS" "length (lg_last_sequences l) \<le> length xs"
    using core max sequences_length [OF core] by (auto simp: ledger_core_def)
  obtain l0 where l0: "foldR (ledger_append C) ?new xs = Inr l0"
    using replay_log [of C "lg_realm l" "lg_epoch l" xs "min m MAX_EVENTS"] core n(1)
    by (auto simp: ledger_core_def)
  have "l0 = l\<lparr>lg_checkpoint := None\<rparr>"
    using replay_core [OF core_empty l0] core max
    by (intro core_unique [of C l0 xs]) (simp_all add: ledger_new_def)
  then have l: "l = l0\<lparr>lg_checkpoint := lg_checkpoint l\<rparr>" and l0core: "ledger_core C l0 xs"
    using core by simp_all
  let ?tail = "put_option (lg_head l) @ put_checkpoint (lg_checkpoint l)
     @ to_be (word_of_nat (length (lg_last_sequences l)) :: u32) @ concat (map put_sequence (lg_last_sequences l))"
  have w: "unat (word_of_nat (length xs) :: u32) = length xs"
    "unat (word_of_nat (length (lg_last_sequences l)) :: u32) = length (lg_last_sequences l)"
    using n by (simp_all add: unat_of_nat)
  have ev: "restore_events C (length xs) ?new (concat (map put_event xs) @ ?tail) = Inr (l0, ?tail)"
    by (rule restore_events_write [OF log_payloads [OF core] l0])
  have sq: "restore_sequences (length (lg_last_sequences l)) None bt_new
      (concat (map put_sequence (lg_last_sequences l))) = Inr (lg_last_sequences l, [])"
    using restore_sequences_write [of "[]" "lg_last_sequences l" None "[]"] core
    by (simp add: ledger_core_def bt_new_def)
  have ck: "(case lg_checkpoint l of None \<Rightarrow> Inr l0 | Some ck \<Rightarrow> bindR (validate_retained_checkpoint C l0 ck) (\<lambda>_.
        Inr (l0\<lparr>lg_checkpoint := Some ck\<rparr>))) = Inr l"
  proof (cases "lg_checkpoint l")
    case None
    then show ?thesis using l \<open>l0 = l\<lparr>lg_checkpoint := None\<rparr>\<close> by simp
  next
    case (Some c)
    then have "\<exists>k<length xs. c = checkpoint_at C (lg_realm l0) (lg_epoch l0) xs k"
      using log \<open>l0 = l\<lparr>lg_checkpoint := None\<rparr>\<close> by (auto simp: ledger_log_def)
    then have "validate_retained_checkpoint C l0 c = Inr ()" by (simp add: validate_exact [OF l0core])
    then show ?thesis using Some l by simp
  qed
  have head: "lg_head l0 = lg_head l" using \<open>l0 = l\<lparr>lg_checkpoint := None\<rparr>\<close> by simp
  have snap: "ledger_snapshot l = LEDGER_SNAPSHOT_DOMAIN @ to_be SNAPSHOT_VERSION @ to_be (lg_realm l)
      @ to_be (lg_epoch l) @ to_be (word_of_nat (length xs) :: u32) @ concat (map put_event xs) @ ?tail"
    by (simp add: ledger_snapshot_def snapshot_chain_log [OF core])
  show ?thesis
    using snapshot_length [OF core] n w ev sq ck head unfolding ledger_restore_def snap
    by (simp add: Let_def option_codec.get_put checkpoint_entry.get_put linorder_not_less del: to_be_u8 MAX_EVENTS_def
        LEDGER_MAX_SNAPSHOT_BYTES_def split del: if_split)
qed

end
