(* ===== verification/Ledger_Safety.thy ===== *)
theory Ledger_Safety
  imports Ledger_Snapshot
begin

text \<open>
  What a ledger guarantees in every state it can reach by creation, appending, checkpoint
  admission and restoring of arbitrary bytes.
\<close>

inductive ledger_step :: "crypto \<Rightarrow> ledger \<Rightarrow> ledger \<Rightarrow> bool" for C :: crypto where
  append: "ledger_append C l e = Inr l' \<Longrightarrow> ledger_step C l l'"
| accept: "accept_checkpoint C l ck = Inr l' \<Longrightarrow> ledger_step C l l'"

inductive ledger_reach :: "crypto \<Rightarrow> ledger \<Rightarrow> bool" for C :: crypto where
  create: "ledger_reach C (ledger_new realm epoch m)"
| restore: "ledger_restore C raw m = Inr l \<Longrightarrow> ledger_reach C l"
| step: "ledger_reach C l \<Longrightarrow> ledger_step C l l' \<Longrightarrow> ledger_reach C l'"

lemma accept_log:
  assumes "ledger_log C l xs" and "accept_checkpoint C l ck = Inr l'"
  shows "ledger_log C l' xs"
proof -
  from accept_exact [OF assms(1)] assms(2) have "length xs - 1 < length xs"
    "l' = l\<lparr>lg_checkpoint := Some (checkpoint_at C (lg_realm l) (lg_epoch l) xs (length xs - 1))\<rparr>" by auto
  with assms(1) show ?thesis by (auto simp: ledger_log_def simp del: diff_Suc_less One_nat_def)
qed

lemma step_log: "ledger_log C l xs \<Longrightarrow> ledger_step C l l' \<Longrightarrow> \<exists>ys. ledger_log C l' (xs @ ys)"
proof (erule ledger_step.cases)
  fix k e k' assume "ledger_log C l xs" "l = k" "l' = k'" "ledger_append C k e = Inr k'"
  then show ?thesis using append_log by blast
next
  fix k ck k' assume "ledger_log C l xs" "l = k" "l' = k'" "accept_checkpoint C k ck = Inr k'"
  then show ?thesis using accept_log by (metis append_Nil2)
qed

lemma reach_log: "ledger_reach C l \<Longrightarrow> \<exists>xs. ledger_log C l xs"
proof (induction rule: ledger_reach.induct)
  case (create realm epoch m)
  then show ?case using core_empty by (fastforce simp: ledger_log_def ledger_new_def)
next
  case (restore raw m l)
  then show ?case using restore_read by blast
next
  case (step l l')
  then show ?case using step_log by blast
qed

lemma log_unique:
  assumes "ledger_core C l xs" and "ledger_core C l ys"
  shows "xs = ys"
  using snapshot_chain_log assms by metis

lemma chain_loop_error: "chain_loop events current acc = Inl e \<Longrightarrow> e = UnknownHead"
proof (induction events current acc rule: chain_loop.induct)
  case (1 events current acc)
  then show ?case
    by (subst (asm) chain_loop.simps) (auto split: option.splits if_splits)
qed

lemma ledger_chain_error: "ledger_chain l h = Inl e \<Longrightarrow> e = UnknownHead"
  unfolding ledger_chain_def by (rule chain_loop_error)

section \<open>A concrete ledger\<close>

definition ex_le1 :: ledger_event where "ex_le1 = ledger_event_new toy_crypto None 1 2 7 1 []"
definition ex_le2 :: ledger_event where "ex_le2 = ledger_event_new toy_crypto (Some 79) 1 2 7 2 []"
definition ex_ledger0 :: ledger where "ex_ledger0 = ledger_new 1 2 10"
definition ex_ledger1 :: ledger where "ex_ledger1 = appended ex_ledger0 ex_le1"
definition ex_ledger2 :: ledger where
  "ex_ledger2 = ex_ledger1\<lparr>lg_checkpoint := Some (checkpoint_at toy_crypto 1 2 [ex_le1] 0)\<rparr>"
definition ex_ledger3 :: ledger where "ex_ledger3 = appended ex_ledger2 ex_le2"

lemma toy_length [simp]: "sha256 toy_crypto m = word_of_nat (length m)"
  by (simp add: toy_crypto_def)

lemma ex_le_ids [simp]: "le_id ex_le1 = 79" "le_id ex_le2 = 111"
  by (simp_all add: ex_le1_def ex_le2_def ledger_event_new_def hash_event_def put_option_def
      LEDGER_EVENT_DOMAIN_def ascii_def)

lemma ex_admits1: "admits toy_crypto 1 2 [] ex_le1"
  by (simp add: admits_def entry_ok_def ex_le1_def ledger_event_new_def tip_def last_sequence_def)

lemma ex_admits2: "admits toy_crypto 1 2 [ex_le1] ex_le2"
proof -
  have "le_id ex_le2 \<notin> le_id ` set [ex_le1]" "tip [ex_le1] = Some 79" by (simp_all add: tip_def)
  then show ?thesis
    by (simp add: admits_def) (simp add: entry_ok_def ex_le1_def ex_le2_def ledger_event_new_def last_sequence_def)
qed

lemma ex_log0: "ledger_log toy_crypto ex_ledger0 []"
  using core_empty [of toy_crypto 1 2 10] by (simp add: ledger_log_def ex_ledger0_def) (simp add: ledger_new_def)

lemma ex_ledger_context [simp]:
  "lg_realm ex_ledger0 = 1" "lg_epoch ex_ledger0 = 2" "lg_max_events ex_ledger0 = 10"
  by (simp_all add: ex_ledger0_def ledger_new_def)

lemma ex_append1: "ledger_append toy_crypto ex_ledger0 ex_le1 = Inr ex_ledger1"
  using append_iff [of toy_crypto ex_ledger0 "[]" ex_le1 ex_ledger1] ex_log0 ex_admits1
  by (simp add: ledger_log_def ex_ledger1_def)

lemma ex_log1: "ledger_log toy_crypto ex_ledger1 [ex_le1]"
  using append_log [OF ex_log0 ex_append1] by simp

lemma ex_reach_ledger1: "ledger_reach toy_crypto ex_ledger1"
  using ledger_reach.create [of toy_crypto 1 2 10] ex_append1
  by (auto simp: ex_ledger0_def intro: ledger_reach.step ledger_step.append)

lemma ex_accept:
  "accept_checkpoint toy_crypto ex_ledger1 (checkpoint_at toy_crypto 1 2 [ex_le1] 0) = Inr ex_ledger2"
  using accept_exact [OF ex_log1, of "checkpoint_at toy_crypto 1 2 [ex_le1] 0" ex_ledger2]
  by (simp add: ex_ledger2_def ex_ledger1_def appended_def)

lemma ex_reach_ledger2: "ledger_reach toy_crypto ex_ledger2"
  using ex_reach_ledger1 ex_accept by (auto intro: ledger_reach.step ledger_step.accept)

lemma ex_log2: "ledger_log toy_crypto ex_ledger2 [ex_le1]"
  by (rule accept_log [OF ex_log1 ex_accept])

lemma ex_append2: "ledger_append toy_crypto ex_ledger2 ex_le2 = Inr ex_ledger3"
  using append_iff [of toy_crypto ex_ledger2 "[ex_le1]" ex_le2 ex_ledger3] ex_log2 ex_admits2
  by (simp add: ledger_log_def ex_ledger3_def) (simp add: ex_ledger2_def ex_ledger1_def appended_def)

section \<open>Properties\<close>

text \<open>
  C10. A reachable ledger implements a bounded append-only log. It represents exactly one
  list of events; appending succeeds precisely when the event is content-addressed, of this
  realm and epoch, not a duplicate, newer than the actor's last one, a child of the tip and
  within the bound, and then represents the list with the event at its end.
\<close>

theorem ledger_implements_log:
  assumes "ledger_reach C l"
  shows "\<exists>xs. ledger_log C l xs
    \<and> (\<forall>e. is_ok (ledger_append C l e) \<longleftrightarrow>
           admits C (lg_realm l) (lg_epoch l) xs e \<and> length xs < lg_max_events l)
    \<and> (\<forall>e l'. ledger_append C l e = Inr l' \<longrightarrow> ledger_log C l' (xs @ [e]))
    \<and> length (lg_events l) = length xs \<and> length xs \<le> MAX_EVENTS"
proof -
  obtain xs where log: "ledger_log C l xs" using reach_log [OF assms] by blast
  then have core: "ledger_core C l xs" by (simp add: ledger_log_def)
  have "is_ok (ledger_append C l e) \<longleftrightarrow>
      admits C (lg_realm l) (lg_epoch l) xs e \<and> length xs < lg_max_events l" for e
    using append_iff [OF core, of e] by (auto simp: is_ok_iff)
  moreover have "length xs \<le> MAX_EVENTS" using core by (auto simp: ledger_core_def)
  ultimately show ?thesis using log append_log [OF log] core_length [OF core] by blast
qed

theorem ledger_implements_log_witness:
  "ledger_reach toy_crypto ex_ledger2 \<and> ledger_append toy_crypto ex_ledger2 ex_le2 = Inr ex_ledger3
   \<and> (\<exists>xs. ledger_log toy_crypto ex_ledger3 (xs @ [ex_le2]))"
  using ledger_implements_log [OF ex_reach_ledger2] ex_reach_ledger2 ex_append2 by blast

text \<open>
  C11. Snapshots are canonical. Restoring a byte string succeeds exactly when it is the
  snapshot of a ledger that represents some log under the effective bound, and gives that
  ledger back: every reachable ledger round-trips, and no other bytes are accepted.
\<close>

theorem snapshot_restore_exact:
  "ledger_restore C raw m = Inr l \<longleftrightarrow>
   (\<exists>xs. ledger_log C l xs) \<and> lg_max_events l = min m MAX_EVENTS \<and> raw = ledger_snapshot l"
  using restore_read restore_write by blast

text \<open>
  Admission accepts exactly the checkpoint derived from the whole retained history: its
  head is the tip, its root commits to every event identifier in order, its height is the
  number of parent links. The error for a conflicting checkpoint is unreachable.
\<close>

theorem checkpoint_admission_exact:
  assumes "ledger_reach C l"
  shows "\<exists>xs. ledger_log C l xs
    \<and> (\<forall>ck l'. accept_checkpoint C l ck = Inr l' \<longleftrightarrow>
         xs \<noteq> [] \<and> ck = checkpoint_at C (lg_realm l) (lg_epoch l) xs (length xs - 1)
         \<and> l' = l\<lparr>lg_checkpoint := Some ck\<rparr>)
    \<and> (\<forall>ck. accept_checkpoint C l ck \<noteq> Inl ConflictingCheckpoint)"
proof -
  obtain xs where log: "ledger_log C l xs" using reach_log [OF assms] by blast
  then have core: "ledger_core C l xs" by (simp add: ledger_log_def)
  have "accept_checkpoint C l ck \<noteq> Inl ConflictingCheckpoint" for ck
  proof
    assume c: "accept_checkpoint C l ck = Inl ConflictingCheckpoint"
    then have v: "validate_retained_checkpoint C l ck = Inr ()" and h: "lg_head l = Some (lc_head ck)"
      by (auto simp: accept_checkpoint_def validate_retained_checkpoint_def state_root_def bindR_eq_Inl
          split: if_splits option.splits dest: ledger_chain_error)
    from v obtain k where k: "k < length xs" "ck = checkpoint_at C (lg_realm l) (lg_epoch l) xs k"
      by (auto simp: validate_exact [OF core])
    have "xs \<noteq> []" "le_id (xs ! k) = le_id (xs ! (length xs - 1))"
      using h k core by (auto simp: ledger_core_def tip_def checkpoint_at_def last_conv_nth split: if_splits)
    moreover have "valid_log C (lg_realm l) (lg_epoch l) xs" using core by (simp add: ledger_core_def)
    ultimately have "k = length xs - 1" using k(1) id_index_eq by (metis diff_less length_greater_0_conv zero_less_one)
    with k(2) \<open>xs \<noteq> []\<close> have "accept_checkpoint C l ck = Inr (l\<lparr>lg_checkpoint := Some ck\<rparr>)"
      using accept_exact [OF log] by blast
    with c show False by simp
  qed
  then show ?thesis using log accept_exact [OF log] by blast
qed

theorem checkpoint_admission_exact_witness:
  "ledger_reach toy_crypto ex_ledger1
   \<and> accept_checkpoint toy_crypto ex_ledger1 (checkpoint_at toy_crypto 1 2 [ex_le1] 0) = Inr ex_ledger2
   \<and> accept_checkpoint toy_crypto ex_ledger1 (checkpoint_at toy_crypto 1 2 [ex_le1] 0) \<noteq> Inl ConflictingCheckpoint"
  using checkpoint_admission_exact [OF ex_reach_ledger1] ex_reach_ledger1 ex_accept by blast

lemma height_less:
  assumes "ledger_core C l xs" and "j \<le> k" and "k < length xs"
  shows "lc_height (checkpoint_at C r ep ys j) \<le> lc_height (checkpoint_at C r ep ys' k)"
    and "lc_height (checkpoint_at C r ep ys j) = lc_height (checkpoint_at C r ep ys' k) \<longleftrightarrow> j = k"
proof -
  have "length xs \<le> 4096" using assms(1) by (auto simp: ledger_core_def)
  then have "unat (word_of_nat j :: u64) = j" "unat (word_of_nat k :: u64) = k"
    using assms(2,3) by (simp_all add: unat_of_nat)
  then show "lc_height (checkpoint_at C r ep ys j) \<le> lc_height (checkpoint_at C r ep ys' k)"
    "lc_height (checkpoint_at C r ep ys j) = lc_height (checkpoint_at C r ep ys' k) \<longleftrightarrow> j = k"
    using assms(2) by (simp_all add: checkpoint_at_def word_le_nat_alt word_unat_eq_iff)
qed

text \<open>A later ledger \<open>l'\<close> with log \<open>zs\<close>: the log has grown and the checkpoint has not moved back.\<close>

definition grown :: "crypto \<Rightarrow> ledger \<Rightarrow> ledger_event list \<Rightarrow> ledger \<Rightarrow> ledger_event list \<Rightarrow> bool" where
  "grown C l xs l' zs \<longleftrightarrow>
     (\<exists>ys. zs = xs @ ys) \<and> ledger_log C l' zs \<and> lg_realm l' = lg_realm l \<and> lg_epoch l' = lg_epoch l
     \<and> (\<forall>j<length xs. lg_checkpoint l = Some (checkpoint_at C (lg_realm l) (lg_epoch l) xs j) \<longrightarrow>
          (\<exists>k. j \<le> k \<and> k < length zs \<and> lg_checkpoint l' = Some (checkpoint_at C (lg_realm l) (lg_epoch l) zs k)))"

lemma step_grown:
  assumes log: "ledger_log C l xs" and "ledger_step C l l'"
  shows "\<exists>zs. grown C l xs l' zs"
  using assms(2)
proof cases
  case (append e)
  have core: "ledger_core C l xs" using log by (simp add: ledger_log_def)
  note ok = append_ok [OF core append]
  have "\<exists>k. j \<le> k \<and> k < length (xs @ [e]) \<and> lg_checkpoint l' =
      Some (checkpoint_at C (lg_realm l) (lg_epoch l) (xs @ [e]) k)"
    if "j < length xs" "lg_checkpoint l = Some (checkpoint_at C (lg_realm l) (lg_epoch l) xs j)" for j
    using that ok checkpoint_at_append [OF that(1), of C "lg_realm l" "lg_epoch l" "[e]"]
    by (intro exI [of _ j]) simp
  then have "grown C l xs l' (xs @ [e])" using append_log [OF log append] ok by (simp add: grown_def)
  then show ?thesis ..
next
  case (accept ck)
  then have l': "xs \<noteq> []" "l' = l\<lparr>lg_checkpoint := Some (checkpoint_at C (lg_realm l) (lg_epoch l) xs (length xs - 1))\<rparr>"
    using accept_exact [OF log] by auto
  have "\<exists>k. j \<le> k \<and> k < length xs \<and> lg_checkpoint l' = Some (checkpoint_at C (lg_realm l) (lg_epoch l) xs k)"
    if "j < length xs" for j
    using that l' by (intro exI [of _ "length xs - 1"]) auto
  then have "grown C l xs l' xs" using accept_log [OF log accept] l'(2) by (simp add: grown_def)
  then show ?thesis ..
qed

lemma grown_trans:
  assumes "grown C a xs b ys" and "grown C b ys c zs"
  shows "grown C a xs c zs"
proof -
  have "\<exists>k. j \<le> k \<and> k < length zs \<and> lg_checkpoint c = Some (checkpoint_at C (lg_realm a) (lg_epoch a) zs k)"
    if j: "j < length xs" "lg_checkpoint a = Some (checkpoint_at C (lg_realm a) (lg_epoch a) xs j)" for j
  proof -
    from assms(1) j obtain k where k: "j \<le> k" "k < length ys"
      "lg_checkpoint b = Some (checkpoint_at C (lg_realm b) (lg_epoch b) ys k)" by (auto simp: grown_def)
    with assms obtain n where "k \<le> n" "n < length zs"
      "lg_checkpoint c = Some (checkpoint_at C (lg_realm a) (lg_epoch a) zs n)" unfolding grown_def by metis
    with k(1) show ?thesis by (intro exI [of _ n]) simp
  qed
  with assms show ?thesis by (auto simp: grown_def)
qed

lemma steps_grown:
  assumes "(ledger_step C)\<^sup>*\<^sup>* l l'" and "ledger_log C l xs"
  shows "\<exists>zs. grown C l xs l' zs"
  using assms
proof (induction rule: rtranclp_induct)
  case base
  then show ?case by (intro exI [of _ xs]) (auto simp: grown_def)
next
  case (step k l')
  then obtain ys where ys: "grown C l xs k ys" by blast
  then have "ledger_log C k ys" by (simp add: grown_def)
  with step(2) obtain zs where "grown C k ys l' zs" using step_grown by blast
  with ys show ?case using grown_trans by blast
qed

text \<open>
  Accepted checkpoints only advance. Along any run an accepted checkpoint is never lost;
  a later one is at least as high, and equal in height only if it is the same checkpoint; the
  earlier checkpoint keeps validating against the grown history.
\<close>

theorem checkpoints_advance:
  assumes "ledger_reach C l" and "(ledger_step C)\<^sup>*\<^sup>* l l'" and "lg_checkpoint l = Some ck"
  shows "\<exists>ck'. lg_checkpoint l' = Some ck' \<and> lc_height ck \<le> lc_height ck'
    \<and> (lc_height ck = lc_height ck' \<longrightarrow> ck = ck')
    \<and> validate_retained_checkpoint C l' ck = Inr ()"
proof -
  obtain xs where log: "ledger_log C l xs" using reach_log [OF assms(1)] by blast
  then obtain zs where g: "grown C l xs l' zs" using steps_grown [OF assms(2)] by blast
  let ?at = "checkpoint_at C (lg_realm l) (lg_epoch l)"
  from log assms(3) obtain j where j: "j < length xs" "ck = ?at xs j" by (auto simp: ledger_log_def)
  with g assms(3) obtain k where k: "j \<le> k" "k < length zs" "lg_checkpoint l' = Some (?at zs k)"
    by (auto simp: grown_def)
  have core: "ledger_core C l' zs" and ctx: "lg_realm l' = lg_realm l" "lg_epoch l' = lg_epoch l"
    using g by (simp_all add: grown_def ledger_log_def)
  have at: "ck = ?at zs j" using g j checkpoint_at_append by (auto simp: grown_def)
  have "\<exists>k<length zs. ck = checkpoint_at C (lg_realm l') (lg_epoch l') zs k"
    using at ctx k by (metis le_less_trans)
  then have "validate_retained_checkpoint C l' ck = Inr ()" by (simp add: validate_exact [OF core])
  then show ?thesis using k(3) at height_less [OF core k(1,2)] by auto
qed

theorem checkpoints_advance_witness:
  "ledger_reach toy_crypto ex_ledger2 \<and> (ledger_step toy_crypto)\<^sup>*\<^sup>* ex_ledger2 ex_ledger3
   \<and> lg_checkpoint ex_ledger2 = Some (checkpoint_at toy_crypto 1 2 [ex_le1] 0)
   \<and> validate_retained_checkpoint toy_crypto ex_ledger3 (checkpoint_at toy_crypto 1 2 [ex_le1] 0) = Inr ()"
proof -
  have run: "(ledger_step toy_crypto)\<^sup>*\<^sup>* ex_ledger2 ex_ledger3" using ex_append2 by (blast intro: ledger_step.append)
  have ck: "lg_checkpoint ex_ledger2 = Some (checkpoint_at toy_crypto 1 2 [ex_le1] 0)" by (simp add: ex_ledger2_def)
  from checkpoints_advance [OF ex_reach_ledger2 run ck] run ck ex_reach_ledger2 show ?thesis by blast
qed

definition event_transcript :: "ledger_event \<Rightarrow> bytes" where
  "event_transcript e = LEDGER_EVENT_DOMAIN @ put_option (le_parent e) @ to_be (le_realm e) @ to_be (le_epoch e)
     @ to_be (le_actor e) @ to_be (le_sequence e) @ to_be (word_of_nat (length (le_payload e)) :: u64) @ le_payload e"

definition root_transcript :: "u128 \<Rightarrow> u64 \<Rightarrow> ledger_event list \<Rightarrow> bytes" where
  "root_transcript realm epoch xs = LEDGER_ROOT_DOMAIN @ to_be realm @ to_be epoch
     @ to_be (word_of_nat (length xs) :: u64) @ concat (map (\<lambda>e. to_be (le_id e)) xs)"

lemma entry_digest: "entry_ok C realm epoch e \<Longrightarrow> le_id e = sha256 C (event_transcript e)"
  by (auto simp: entry_ok_def hash_event_def event_transcript_def)

lemma event_transcript_inject:
  assumes "event_transcript e = event_transcript f" and "le_id e = le_id f"
  shows "e = f"
proof -
  from assms(1) have "put_option (le_parent e) @ (to_be (le_realm e) @ to_be (le_epoch e) @ to_be (le_actor e)
      @ to_be (le_sequence e) @ to_be (word_of_nat (length (le_payload e)) :: u64) @ le_payload e) =
    put_option (le_parent f) @ (to_be (le_realm f) @ to_be (le_epoch f) @ to_be (le_actor f)
      @ to_be (le_sequence f) @ to_be (word_of_nat (length (le_payload f)) :: u64) @ le_payload f)"
    by (simp add: event_transcript_def)
  from option_codec.put_unambiguous [OF _ _ this] assms(2) show ?thesis
    by (auto simp: to_be_inject intro: ledger_event.equality)
qed

lemma root_ids:
  assumes "root_transcript r ep xs = root_transcript r' ep' ys" and "length xs \<le> 4096" and "length ys \<le> 4096"
  shows "map le_id xs = map le_id ys"
proof -
  have "word_of_nat (length xs) = (word_of_nat (length ys) :: u64)"
    and c: "concat (map (\<lambda>e. to_be (le_id e)) xs) = concat (map (\<lambda>e. to_be (le_id e)) ys)"
    using assms(1) by (simp_all add: root_transcript_def to_be_inject)
  then have len: "length xs = length ys" using assms(2,3) by (simp add: word_unat_eq_iff unat_of_nat)
  from len c show ?thesis
    by (induction xs ys rule: list_induct2) (auto simp: to_be_inject)
qed

text \<open>
  C12. A checkpoint fixes the history. If two reachable ledgers validate the same checkpoint
  and none of the event and root transcripts involved collide, they agree on every event up
  to the checkpoint's head.
\<close>

theorem checkpoint_fixes_history:
  assumes "ledger_reach C l" and "ledger_reach C l'"
    and "validate_retained_checkpoint C l ck = Inr ()" and "validate_retained_checkpoint C l' ck = Inr ()"
    and "ledger_chain l (lc_head ck) = Inr xs" and "ledger_chain l' (lc_head ck) = Inr ys"
    and "collision_free C (event_transcript ` (set xs \<union> set ys)
           \<union> {root_transcript (lc_realm ck) (lc_epoch ck) xs, root_transcript (lc_realm ck) (lc_epoch ck) ys})"
  shows "xs = ys"
proof -
  have parts: "sha256 C (root_transcript (lc_realm ck) (lc_epoch ck) zs) = lc_state_root ck \<and> length zs \<le> 4096
      \<and> (\<forall>e\<in>set zs. le_id e = sha256 C (event_transcript e))"
    if k: "ledger_reach C k" "validate_retained_checkpoint C k ck = Inr ()" "ledger_chain k (lc_head ck) = Inr zs" for k zs
  proof -
    obtain log where log: "ledger_core C k log" using reach_log [OF k(1)] by (auto simp: ledger_log_def)
    from k(3) obtain n where "zs = take (Suc n) log" by (auto simp: chain_exact(1) [OF log])
    then have zs: "set zs \<subseteq> set log" "length zs \<le> 4096"
      using log by (auto simp: ledger_core_def dest: in_set_takeD)
    have "\<forall>e\<in>set log. le_id e = sha256 C (event_transcript e)"
      using log valid_log_entry entry_digest by (fastforce simp: ledger_core_def)
    moreover have "sha256 C (root_transcript (lc_realm ck) (lc_epoch ck) zs) = lc_state_root ck"
      using k(2,3) by (auto simp: validate_retained_checkpoint_def state_root_def root_transcript_def)
    ultimately show ?thesis using zs by blast
  qed
  note px = parts [OF assms(1,3,5)] and py = parts [OF assms(2,4,6)]
  have "root_transcript (lc_realm ck) (lc_epoch ck) xs = root_transcript (lc_realm ck) (lc_epoch ck) ys"
    by (rule collision_freeD [OF assms(7)]) (use px py in auto)
  then have ids: "map le_id xs = map le_id ys" using root_ids px py by blast
  have "x = y" if "x \<in> set xs" "y \<in> set ys" "le_id x = le_id y" for x y
  proof (rule event_transcript_inject [OF _ that(3)])
    show "event_transcript x = event_transcript y"
      by (rule collision_freeD [OF assms(7)]) (use that px py in auto)
  qed
  then show ?thesis using ids by (metis list_eq_iff_nth_eq length_map nth_map nth_mem)
qed

theorem checkpoint_fixes_history_witness:
  "ledger_reach toy_crypto ex_ledger1 \<and> ledger_reach toy_crypto ex_ledger2
   \<and> ledger_chain ex_ledger1 79 = Inr [ex_le1] \<and> (\<exists>ys. ledger_chain ex_ledger2 79 = Inr ys \<and> [ex_le1] = ys)"
proof -
  let ?ck = "checkpoint_at toy_crypto 1 2 [ex_le1] 0"
  have core: "ledger_core toy_crypto ex_ledger1 [ex_le1]" "ledger_core toy_crypto ex_ledger2 [ex_le1]"
    using ex_log1 ex_log2 by (simp_all add: ledger_log_def)
  have ctx: "lg_realm ex_ledger1 = 1" "lg_epoch ex_ledger1 = 2" "lg_realm ex_ledger2 = 1" "lg_epoch ex_ledger2 = 2"
    by (simp_all add: ex_ledger1_def ex_ledger2_def appended_def)
  have v: "validate_retained_checkpoint toy_crypto ex_ledger1 ?ck = Inr ()"
    "validate_retained_checkpoint toy_crypto ex_ledger2 ?ck = Inr ()"
    using validate_exact [OF core(1)] validate_exact [OF core(2)] ctx by auto
  have h: "lc_head ?ck = 79" by (simp add: checkpoint_at_def)
  have ch: "ledger_chain ex_ledger1 (lc_head ?ck) = Inr [ex_le1]" "ledger_chain ex_ledger2 (lc_head ?ck) = Inr [ex_le1]"
    unfolding h by (simp_all add: chain_exact(1) [OF core(1)] chain_exact(1) [OF core(2)])
  have free: "collision_free toy_crypto (event_transcript ` (set [ex_le1] \<union> set [ex_le1])
      \<union> {root_transcript (lc_realm ?ck) (lc_epoch ?ck) [ex_le1], root_transcript (lc_realm ?ck) (lc_epoch ?ck) [ex_le1]})"
  proof -
    have "length (root_transcript r ep [ex_le1]) = 85" for r ep
      by (simp add: root_transcript_def LEDGER_ROOT_DOMAIN_def ascii_def)
    moreover have "length (event_transcript ex_le1) = 79"
      by (simp add: event_transcript_def ex_le1_def ledger_event_new_def put_option_def LEDGER_EVENT_DOMAIN_def ascii_def)
    ultimately show ?thesis by (auto simp: collision_free_def inj_on_def)
  qed
  have "[ex_le1] = [ex_le1]"
    by (rule checkpoint_fixes_history [OF ex_reach_ledger1 ex_reach_ledger2 v ch free])
  then show ?thesis using ch ex_reach_ledger1 ex_reach_ledger2 unfolding h by blast
qed

end
