(* ===== verification/Relay.thy ===== *)
theory Relay
  imports Crypto_Params
begin

text \<open>
  \<open>crates/vhalla-private-relay\<close>: the opaque items a relay retains (\<open>lib.rs\<close>) and the canonical
  framing shared by its native and browser adapters (\<open>codec.rs\<close>): requests, retention receipts
  and mailbox pages.

  Cursors into a byte slice are the bytes that remain. The two identifier types of
  \<open>vhalla-private-kernel\<close> that the items carry (\<open>OperationId\<close>, \<open>OutboxKind\<close>) are modelled from that
  crate's \<open>lib.rs\<close>.
\<close>

section \<open>Kinds, errors, bounds\<close>

datatype outbox_kind =
    ContactOffer | ContactRequest | ContactInvitation | KeyPackage | Invitation | Application
  | Removal | OwnerUpdate | Succession

datatype relay_kind = Outbox outbox_kind | Control

datatype relay_error =
    RelayBounds | RelayScope | RelayConflict | RelayConfidential | RelayCapacity | RelayStorage

datatype net_error =
    NetConnect | NetTimeout | NetDenied | NetConflict | NetCapacity | NetBounds | NetScope
  | NetMalformed | NetUnavailable

definition RELAY_MAGIC :: bytes where "RELAY_MAGIC = ascii ''VHPRELAY'' @ [1]"
definition RELAY_DIGEST_DOMAIN :: bytes where "RELAY_DIGEST_DOMAIN = ascii ''vhalla/private/relay-item/v1''"
definition MAX_RELAY_PAYLOAD :: nat where [simp]: "MAX_RELAY_PAYLOAD = 2 * 128 * 1024 + 4096"
definition MAX_RELAY_PAGE :: nat where [simp]: "MAX_RELAY_PAGE = 64"
definition MAX_RELAY_ITEMS :: nat where [simp]: "MAX_RELAY_ITEMS = 4096"
definition MAX_PUT_BODY :: nat where [simp]:
  "MAX_PUT_BODY = 32 + 9 + 32 + 8 + 16 + 1 + 4 + MAX_RELAY_PAYLOAD + 32"
definition MAX_REQUEST :: nat where [simp]: "MAX_REQUEST = 1 + MAX_PUT_BODY"
definition MAX_PAGE_BODY :: nat where [simp]: "MAX_PAGE_BODY = 4 * 1024 * 1024"
definition MAX_RESPONSE :: nat where [simp]: "MAX_RESPONSE = 1 + MAX_PAGE_BODY"

section \<open>Identifiers\<close>

text \<open>\<open>OperationId::from_bytes\<close>; its only failure is mapped by every caller here.\<close>

definition operation_from_bytes :: "u128 \<Rightarrow> unit + u128" where
  "operation_from_bytes b = (if b = 0 then Inl () else Inr b)"

definition namespace_from_bytes :: "array32 \<Rightarrow> relay_error + array32" where
  "namespace_from_bytes b = (if b = 0 then Inl RelayBounds else Inr b)"

section \<open>Items\<close>

record relay_item =
  ri_namespace :: array32
  ri_sequence :: u64
  ri_operation :: u128
  ri_kind :: relay_kind
  ri_payload :: bytes
  ri_digest :: array32

record relay_receipt =
  rr_position :: u64
  rr_digest :: array32
  rr_duplicate :: bool

record positioned_item =
  po_position :: u64
  po_item :: relay_item

record relay_page =
  rp_head :: u64
  rp_next :: "u64 option"
  rp_records :: "positioned_item list"

definition is_relay_kind :: "relay_kind \<Rightarrow> bool" where
  "is_relay_kind k \<longleftrightarrow> k \<in> {Control, Outbox ContactRequest, Outbox ContactInvitation, Outbox Application,
     Outbox Removal, Outbox OwnerUpdate, Outbox Succession}"

definition relay_kind_byte :: "relay_kind \<Rightarrow> u8" where
  "relay_kind_byte k =
     (case k of
        Control \<Rightarrow> 9
      | Outbox o' \<Rightarrow> (case o' of ContactOffer \<Rightarrow> 0 | ContactRequest \<Rightarrow> 1 | ContactInvitation \<Rightarrow> 2
          | KeyPackage \<Rightarrow> 3 | Invitation \<Rightarrow> 4 | Application \<Rightarrow> 5 | Removal \<Rightarrow> 6 | OwnerUpdate \<Rightarrow> 7
          | Succession \<Rightarrow> 8))"

definition kind_from_byte :: "u8 \<Rightarrow> relay_error + relay_kind" where
  "kind_from_byte b =
     (if b = 9 then Inr Control
      else if b = 1 then Inr (Outbox ContactRequest)
      else if b = 2 then Inr (Outbox ContactInvitation)
      else if b = 3 then Inr (Outbox KeyPackage)
      else if b = 4 then Inr (Outbox Invitation)
      else if b = 5 then Inr (Outbox Application)
      else if b = 6 then Inr (Outbox Removal)
      else if b = 7 then Inr (Outbox OwnerUpdate)
      else if b = 8 then Inr (Outbox Succession)
      else Inl RelayConfidential)"

definition relay_digest :: "crypto \<Rightarrow> array32 \<Rightarrow> u64 \<Rightarrow> u128 \<Rightarrow> relay_kind \<Rightarrow> bytes \<Rightarrow> array32" where
  "relay_digest C namespace sequence operation kind payload =
     sha256 C (RELAY_DIGEST_DOMAIN @ to_be namespace @ to_be sequence @ to_be operation
       @ [relay_kind_byte kind] @ payload)"

definition relay_item_new ::
    "crypto \<Rightarrow> array32 \<Rightarrow> u64 \<Rightarrow> u128 \<Rightarrow> relay_kind \<Rightarrow> bytes \<Rightarrow> relay_error + relay_item" where
  "relay_item_new C namespace sequence operation kind payload =
     (if sequence = 0 \<or> \<not> is_relay_kind kind \<or> payload = [] \<or> length payload > MAX_RELAY_PAYLOAD
      then Inl (if is_relay_kind kind then RelayBounds else RelayConfidential)
      else Inr \<lparr>ri_namespace = namespace, ri_sequence = sequence, ri_operation = operation, ri_kind = kind,
                ri_payload = payload, ri_digest = relay_digest C namespace sequence operation kind payload\<rparr>)"

text \<open>What the two constructors read of a committed control and of a committed outbox entry.\<close>

record committed_control =
  cc_sequence :: u64
  cc_bytes :: bytes

record committed_outbox =
  co_sequence :: u64
  co_operation :: u128
  co_kind :: outbox_kind
  co_bytes :: bytes

definition relay_from_control :: "crypto \<Rightarrow> array32 \<Rightarrow> committed_control \<Rightarrow> relay_error + relay_item" where
  "relay_from_control C namespace control =
     (let d = sha256 C (ascii ''vhalla/private/relay-control-operation/v1'' @ [0] @ cc_bytes control) in
      bindR (map_err (\<lambda>_. RelayBounds) (operation_from_bytes (from_be (take 16 (to_be d))))) (\<lambda>operation.
        relay_item_new C namespace (cc_sequence control) operation Control (cc_bytes control)))"

definition relay_from_artifact :: "crypto \<Rightarrow> array32 \<Rightarrow> committed_outbox \<Rightarrow> relay_error + relay_item" where
  "relay_from_artifact C namespace artifact =
     (if \<not> is_relay_kind (Outbox (co_kind artifact)) then Inl RelayConfidential
      else relay_item_new C namespace (co_sequence artifact) (co_operation artifact)
             (Outbox (co_kind artifact)) (co_bytes artifact))"

definition item_encode :: "relay_item \<Rightarrow> relay_error + bytes" where
  "item_encode it =
     (if length (ri_payload it) \<ge> 2 ^ 32 then Inl RelayBounds
      else Inr (RELAY_MAGIC @ to_be (ri_namespace it) @ to_be (ri_sequence it) @ to_be (ri_operation it)
             @ [relay_kind_byte (ri_kind it)] @ to_be (word_of_nat (length (ri_payload it)) :: u32)
             @ ri_payload it @ to_be (ri_digest it)))"

definition relay_take :: "(relay_error, 'a::len word) reader" where
  "relay_take = rd_word RelayBounds"

definition item_decode :: "crypto \<Rightarrow> bytes \<Rightarrow> relay_error + relay_item" where
  "item_decode C raw =
     (let header = length RELAY_MAGIC + 32 + 8 + 16 + 1 + 4 in
      if length raw < header + 32 \<or> take (length RELAY_MAGIC) raw \<noteq> RELAY_MAGIC then Inl RelayBounds
      else
     bindR (relay_take (drop (length RELAY_MAGIC) raw)) (\<lambda>(ns, bs).
     bindR (namespace_from_bytes ns) (\<lambda>namespace.
     bindR (relay_take bs) (\<lambda>(sequence, bs).
     bindR (relay_take bs) (\<lambda>(op, bs).
     bindR (map_err (\<lambda>_. RelayBounds) (operation_from_bytes op)) (\<lambda>operation.
     bindR (relay_take bs) (\<lambda>(tag, bs).
     bindR (kind_from_byte tag) (\<lambda>kind.
     bindR (relay_take bs) (\<lambda>(len :: u32, bs).
       if len = 0 \<or> unat len > MAX_RELAY_PAYLOAD then Inl RelayBounds
       else if unat len + 32 \<noteq> length bs then Inl RelayBounds
       else
         let payload = take (unat len) bs in
     bindR (relay_take (drop (unat len) bs)) (\<lambda>(expected, bs).
     bindR (relay_item_new C namespace sequence operation kind payload) (\<lambda>item.
       if ri_digest item \<noteq> expected then Inl RelayConflict else Inr item)))))))))))"

section \<open>Status and frames\<close>

definition OP_PUT :: u8 where "OP_PUT = 1"
definition OP_PAGE :: u8 where "OP_PAGE = 2"
definition STATUS_OK :: u8 where "STATUS_OK = 0"
definition STATUS_CONFLICT :: u8 where "STATUS_CONFLICT = 2"
definition STATUS_CAPACITY :: u8 where "STATUS_CAPACITY = 3"
definition STATUS_BOUNDS :: u8 where "STATUS_BOUNDS = 4"
definition STATUS_SCOPE :: u8 where "STATUS_SCOPE = 5"
definition STATUS_DENIED :: u8 where "STATUS_DENIED = 6"
definition STATUS_UNAVAILABLE :: u8 where "STATUS_UNAVAILABLE = 7"

lemmas status_defs = STATUS_OK_def STATUS_CONFLICT_def STATUS_CAPACITY_def STATUS_BOUNDS_def
  STATUS_SCOPE_def STATUS_DENIED_def STATUS_UNAVAILABLE_def

definition relay_status :: "relay_error \<Rightarrow> u8" where
  "relay_status e =
     (case e of RelayConflict \<Rightarrow> STATUS_CONFLICT | RelayCapacity \<Rightarrow> STATUS_CAPACITY
      | RelayScope \<Rightarrow> STATUS_SCOPE | RelayStorage \<Rightarrow> STATUS_UNAVAILABLE
      | RelayBounds \<Rightarrow> STATUS_BOUNDS | RelayConfidential \<Rightarrow> STATUS_BOUNDS)"

definition decode_status :: "u8 \<Rightarrow> bytes \<Rightarrow> net_error + bytes" where
  "decode_status code body =
     (if code \<noteq> STATUS_OK \<and> body \<noteq> [] then Inl NetMalformed
      else if code = STATUS_OK then Inr body
      else if code = STATUS_CONFLICT then Inl NetConflict
      else if code = STATUS_CAPACITY then Inl NetCapacity
      else if code = STATUS_BOUNDS then Inl NetBounds
      else if code = STATUS_SCOPE then Inl NetScope
      else if code = STATUS_DENIED then Inl NetDenied
      else if code = STATUS_UNAVAILABLE then Inl NetUnavailable
      else Inl NetMalformed)"

text \<open>\<open>frame\<close> panics on a body that does not fit its length field: \<open>None\<close>.\<close>

definition relay_frame :: "u8 \<Rightarrow> bytes \<Rightarrow> bytes option" where
  "relay_frame op body =
     (if 1 + length body \<ge> 2 ^ 32 then None
      else Some (to_be (word_of_nat (1 + length body) :: u32) @ [op] @ body))"

definition decode_frame :: "bytes \<Rightarrow> nat \<Rightarrow> net_error + (u8 \<times> bytes)" where
  "decode_frame raw mx =
     (if length raw < 5 \<or> length raw > mx + 4 then Inl NetMalformed
      else let len = unat (from_be (take 4 raw) :: u32) in
        if len = 0 \<or> len \<noteq> length raw - 4 then Inl NetMalformed
        else Inr (raw ! 4, drop 5 raw))"

section \<open>Receipts and requests\<close>

definition encode_receipt :: "relay_receipt \<Rightarrow> bytes" where
  "encode_receipt r = to_be (rr_position r) @ to_be (rr_digest r) @ [if rr_duplicate r then 1 else 0]"

definition decode_receipt :: "bytes \<Rightarrow> relay_item \<Rightarrow> net_error + relay_receipt" where
  "decode_receipt body item =
     (if length body \<noteq> 41 then Inl NetMalformed
      else let position = from_be (take 8 body); dg = from_be (take 32 (drop 8 body)) in
        if position = 0 \<or> dg \<noteq> ri_digest item \<or> body ! 40 > 1 then Inl NetMalformed
        else Inr \<lparr>rr_position = position, rr_digest = dg, rr_duplicate = (body ! 40 \<noteq> 0)\<rparr>)"

definition page_request :: "u64 \<Rightarrow> nat \<Rightarrow> net_error + bytes" where
  "page_request after limit =
     (if \<not> (1 \<le> limit \<and> limit \<le> MAX_RELAY_PAGE) then Inl NetBounds
      else Inr (to_be after @ to_be (word_of_nat limit :: u16)))"

definition page_wait_request :: "u64 \<Rightarrow> nat \<Rightarrow> nat \<Rightarrow> net_error + bytes" where
  "page_wait_request after limit wait_ms =
     (if wait_ms \<ge> 2 ^ 16 then Inl NetBounds
      else bindR (page_request after limit) (\<lambda>request.
        Inr (request @ to_be (word_of_nat wait_ms :: u16))))"

section \<open>Pages\<close>

fun validate_records :: "u64 \<Rightarrow> u64 \<Rightarrow> positioned_item list \<Rightarrow> net_error + u64" where
  "validate_records head previous [] = Inr previous"
| "validate_records head previous (r # rs) =
     (if Some (po_position r) \<noteq> checked_add previous 1 \<or> po_position r > head then Inl NetMalformed
      else validate_records head (po_position r) rs)"

definition validate_page :: "relay_page \<Rightarrow> u64 \<Rightarrow> nat \<Rightarrow> net_error + unit" where
  "validate_page page after limit =
     (if limit = 0 \<or> limit > MAX_RELAY_PAGE \<or> length (rp_records page) > limit then Inl NetMalformed
      else if rp_head page < after then
        (if rp_records page = [] \<and> rp_next page = None then Inr () else Inl NetMalformed)
      else bindR (validate_records (rp_head page) after (rp_records page)) (\<lambda>previous.
        if previous < rp_head page \<and> (rp_records page = [] \<or> rp_next page \<noteq> Some previous)
           \<or> previous = rp_head page \<and> rp_next page \<noteq> None
        then Inl NetMalformed
        else Inr ()))"

definition net_word :: "(net_error, 'a::len word) reader" where
  "net_word = rd_word NetMalformed"

definition decode_record :: "crypto \<Rightarrow> (net_error, positioned_item) reader" where
  "decode_record C bs =
     bindR (net_word bs) (\<lambda>(position, bs).
       if position = 0 then Inl NetMalformed
       else
     bindR (net_word bs) (\<lambda>(len :: u32, bs).
     bindR (rd_take NetMalformed (unat len) bs) (\<lambda>(raw, bs).
     bindR (map_err (\<lambda>_. NetMalformed) (item_decode C raw)) (\<lambda>item.
       Inr (\<lparr>po_position = position, po_item = item\<rparr>, bs)))))"

definition decode_page :: "crypto \<Rightarrow> bytes \<Rightarrow> u64 \<Rightarrow> nat \<Rightarrow> net_error + relay_page" where
  "decode_page C body after limit =
     (if length body < 11 \<or> length body > MAX_PAGE_BODY \<or> \<not> (1 \<le> limit \<and> limit \<le> MAX_RELAY_PAGE)
      then Inl NetMalformed
      else
     bindR (net_word body) (\<lambda>(head, bs).
     bindR (net_word bs) (\<lambda>(tag :: u8, bs).
       if tag \<noteq> 0 \<and> tag \<noteq> 1 then Inl NetMalformed
       else let more = (tag = 1) in
     bindR (net_word bs) (\<lambda>(count :: u16, bs).
       if unat count > limit then Inl NetMalformed
       else
     bindR (rd_many (decode_record C) (unat count) bs) (\<lambda>(records, bs).
       if bs \<noteq> [] \<or> (more \<and> records = []) \<or> \<not> ascending (map po_position records) then Inl NetMalformed
       else
         let page = \<lparr>rp_head = head, rp_next = (if more then Some (po_position (last records)) else None),
                     rp_records = records\<rparr> in
     bindR (validate_page page after limit) (\<lambda>_. Inr page))))))"

text \<open>The truncating loop of \<open>encode_page\<close>: the records taken, their bytes, and whether it broke off.\<close>

fun page_items :: "nat \<Rightarrow> bytes \<Rightarrow> positioned_item list \<Rightarrow> net_error + (nat \<times> bytes \<times> bool)" where
  "page_items count items [] = Inr (count, items, False)"
| "page_items count items (r # rs) =
     bindR (map_err (\<lambda>_. NetUnavailable) (item_encode (po_item r))) (\<lambda>encoded.
       if 11 + length items + 12 + length encoded > MAX_PAGE_BODY \<and> count > 0 then Inr (count, items, True)
       else page_items (Suc count)
              (items @ to_be (po_position r) @ to_be (word_of_nat (length encoded) :: u32) @ encoded) rs)"

definition encode_page :: "relay_page \<Rightarrow> net_error + bytes" where
  "encode_page page =
     (if length (rp_records page) > MAX_RELAY_PAGE then Inl NetBounds
      else bindR (page_items 0 [] (rp_records page)) (\<lambda>(count, items, broke).
        Inr (to_be (rp_head page) @ [if rp_next page \<noteq> None \<or> broke then 1 else 0]
          @ to_be (word_of_nat count :: u16) @ items)))"

end
