(* ===== verification/Relay_Safety.thy ===== *)
theory Relay_Safety
  imports Relay
begin

text \<open>
  Canonical relay items and mailbox pages: the item codec as a frame codec, the record codec
  of pages as a prefix codec, and what a client that follows validated pages has received.
\<close>

section \<open>Items\<close>

definition wf_item :: "crypto \<Rightarrow> relay_item \<Rightarrow> bool" where
  "wf_item C it \<longleftrightarrow>
     ri_namespace it \<noteq> 0 \<and> ri_operation it \<noteq> 0 \<and> ri_sequence it \<noteq> 0 \<and> is_relay_kind (ri_kind it)
     \<and> ri_payload it \<noteq> [] \<and> length (ri_payload it) \<le> MAX_RELAY_PAYLOAD
     \<and> ri_digest it = relay_digest C (ri_namespace it) (ri_sequence it) (ri_operation it) (ri_kind it) (ri_payload it)"

definition item_bytes :: "relay_item \<Rightarrow> bytes" where
  "item_bytes it = RELAY_MAGIC @ to_be (ri_namespace it) @ to_be (ri_sequence it) @ to_be (ri_operation it)
     @ [relay_kind_byte (ri_kind it)] @ to_be (word_of_nat (length (ri_payload it)) :: u32)
     @ ri_payload it @ to_be (ri_digest it)"

lemma length_relay_magic [simp]: "length RELAY_MAGIC = 9"
  by (simp add: RELAY_MAGIC_def ascii_def)

lemma length_item_bytes: "length (item_bytes it) = 102 + length (ri_payload it)"
  by (simp add: item_bytes_def)

lemma item_encode_wf: "wf_item C it \<Longrightarrow> item_encode it = Inr (item_bytes it)"
  by (simp add: item_encode_def item_bytes_def wf_item_def)

lemma relay_take_iff [simp]:
  "8 dvd LENGTH('a::len) \<Longrightarrow> relay_take bs = Inr (w :: 'a word, rest) \<longleftrightarrow> bs = to_be w @ rest"
  by (simp add: relay_take_def rd_word_eq_Inr)

lemma relay_take_put [simp]:
  "8 dvd LENGTH('a::len) \<Longrightarrow> relay_take (to_be (w :: 'a word) @ rest) = Inr (w, rest)"
  by simp

lemma to_be_byte: "to_be (b :: u8) = [b]"
  by (simp add: to_be_def)

lemma relay_take_byte [simp]: "relay_take ((b :: u8) # rest) = Inr (b, rest)"
  using relay_take_put [of b rest] by (simp add: to_be_byte)

lemma kind_byte_roundtrip:
  "kind_from_byte b = Inr k \<longleftrightarrow> b = relay_kind_byte k \<and> k \<noteq> Outbox ContactOffer"
proof -
  have "kind_from_byte (relay_kind_byte k) = Inr k" if "k \<noteq> Outbox ContactOffer" for k
    using that by (cases k) (auto simp: kind_from_byte_def relay_kind_byte_def split: outbox_kind.splits)
  moreover have "b = relay_kind_byte k \<and> k \<noteq> Outbox ContactOffer" if "kind_from_byte b = Inr k"
    using that by (auto simp: kind_from_byte_def relay_kind_byte_def split: if_splits)
  ultimately show ?thesis by blast
qed

lemma relay_kind_not_offer: "is_relay_kind k \<Longrightarrow> k \<noteq> Outbox ContactOffer"
  by (auto simp: is_relay_kind_def)

lemma relay_item_new_iff:
  "relay_item_new C ns sq op k pl = Inr it \<longleftrightarrow>
   sq \<noteq> 0 \<and> is_relay_kind k \<and> pl \<noteq> [] \<and> length pl \<le> MAX_RELAY_PAYLOAD
   \<and> it = \<lparr>ri_namespace = ns, ri_sequence = sq, ri_operation = op, ri_kind = k, ri_payload = pl,
           ri_digest = relay_digest C ns sq op k pl\<rparr>"
  by (auto simp: relay_item_new_def simp del: MAX_RELAY_PAYLOAD_def)

interpretation item_codec: frame_codec item_bytes "item_decode C" "wf_item C" for C
proof
  fix it
  assume wf: "wf_item C it"
  then have n: "unat (word_of_nat (length (ri_payload it)) :: u32) = length (ri_payload it)"
    "(word_of_nat (length (ri_payload it)) :: u32) \<noteq> 0"
    by (auto simp: wf_item_def unat_of_nat word_unat_eq_iff)
  have "relay_item_new C (ri_namespace it) (ri_sequence it) (ri_operation it) (ri_kind it) (ri_payload it) = Inr it"
    using wf by (auto simp: relay_item_new_iff wf_item_def intro: relay_item.equality)
  moreover have "kind_from_byte (relay_kind_byte (ri_kind it)) = Inr (ri_kind it)"
    using wf relay_kind_not_offer by (auto simp: kind_byte_roundtrip wf_item_def)
  moreover have "relay_take (to_be (ri_digest it)) = Inr (ri_digest it, [])"
    using relay_take_put [of "ri_digest it" "[]"] by simp
  ultimately show "item_decode C (item_bytes it) = Inr it"
    using wf n
    by (simp add: item_decode_def item_bytes_def Let_def namespace_from_bytes_def operation_from_bytes_def wf_item_def)
next
  fix bs it
  assume d: "item_decode C bs = Inr it"
  then have "bs = RELAY_MAGIC @ drop 9 bs"
    by (auto simp: item_decode_def Let_def split: if_splits) (metis append_take_drop_id)
  moreover from d obtain ns sq op tag k and len :: u32 and tl rest
    where parts: "drop 9 bs = to_be ns @ to_be sq @ to_be op @ to_be tag @ to_be len @ tl" "ns \<noteq> 0" "op \<noteq> 0"
      "kind_from_byte tag = Inr k" "unat len \<le> MAX_RELAY_PAYLOAD" "unat len + 32 = length tl"
      and item: "relay_item_new C ns sq op k (take (unat len) tl) = Inr it"
        "drop (unat len) tl = to_be (ri_digest it) @ rest"
    by (auto simp: item_decode_def Let_def namespace_from_bytes_def operation_from_bytes_def to_be_inject
        split: if_splits simp del: MAX_RELAY_PAYLOAD_def)
  moreover have "rest = []" using arg_cong [OF item(2), of length] parts(6) by (cases rest) auto
  moreover have "tl = take (unat len) tl @ to_be (ri_digest it)"
    using item(2) \<open>rest = []\<close> by (metis append_take_drop_id append_Nil2)
  moreover have "len = word_of_nat (length (take (unat len) tl))" using parts(6) by simp
  ultimately show "wf_item C it \<and> item_bytes it = bs"
    by (auto simp: relay_item_new_iff wf_item_def item_bytes_def kind_byte_roundtrip to_be_byte)
qed

section \<open>Records of a page\<close>

definition put_record :: "positioned_item \<Rightarrow> bytes" where
  "put_record r = to_be (po_position r)
     @ to_be (word_of_nat (length (item_bytes (po_item r))) :: u32) @ item_bytes (po_item r)"

definition wf_record :: "crypto \<Rightarrow> positioned_item \<Rightarrow> bool" where
  "wf_record C r \<longleftrightarrow> po_position r \<noteq> 0 \<and> wf_item C (po_item r)"

lemma item_bytes_bound: "wf_item C it \<Longrightarrow> length (item_bytes it) \<le> 102 + MAX_RELAY_PAYLOAD"
  by (simp add: length_item_bytes wf_item_def)

lemma unat_item_length:
  "wf_item C it \<Longrightarrow> unat (word_of_nat (length (item_bytes it)) :: u32) = length (item_bytes it)"
  using item_bytes_bound [of C it] by (intro unat_of_length) simp

interpretation record_codec: prefix_codec put_record "decode_record C" "wf_record C" for C
proof
  fix r rest
  assume "wf_record C r"
  then show "decode_record C (put_record r @ rest) = Inr (r, rest)"
    using unat_item_length [of C "po_item r"]
    by (simp add: decode_record_def net_word_def put_record_def wf_record_def word_get_put item_codec.dec_enc)
next
  fix bs r rest
  assume "decode_record C bs = Inr (r, rest)"
  then obtain pos and len :: u32 and raw it
    where d: "bs = to_be pos @ to_be len @ raw @ rest" "pos \<noteq> 0" "length raw = unat len"
      "item_decode C raw = Inr it" "r = \<lparr>po_position = pos, po_item = it\<rparr>"
    by (auto simp: decode_record_def net_word_def word_get_iff rd_take_eq_Inr split: if_splits)
  then have "wf_item C it" "item_bytes it = raw" by (simp_all add: item_codec.dec_iff)
  moreover have "len = word_of_nat (length raw)" using d(3) by simp
  ultimately show "wf_record C r \<and> bs = put_record r @ rest"
    using d by (simp add: wf_record_def put_record_def)
qed

lemma length_put_record: "length (put_record r) = 12 + length (item_bytes (po_item r))"
  by (simp add: put_record_def)

section \<open>Validated pages\<close>

lemma validate_records_iff:
  "validate_records head previous rs = Inr final \<longleftrightarrow>
   map (unat \<circ> po_position) rs = [Suc (unat previous)..<Suc (unat previous) + length rs]
   \<and> (\<forall>r\<in>set rs. po_position r \<le> head)
   \<and> unat final = unat previous + length rs"
proof (induction rs arbitrary: previous)
  case Nil
  then show ?case by (auto simp: word_unat_eq_iff)
next
  case (Cons r rs)
  have up: "[Suc (unat previous)..<Suc (unat previous) + length (r # rs)]
      = Suc (unat previous) # [Suc (Suc (unat previous))..<Suc (Suc (unat previous)) + length rs]"
    by (simp add: upt_conv_Cons del: upt_Suc)
  have "Some (po_position r) = checked_add previous 1 \<longleftrightarrow> unat (po_position r) = Suc (unat previous)"
    by (metis checked_add_one)
  then show ?case
    unfolding up by (auto simp: Cons.IH not_le)
qed

text \<open>What \<open>validate_page\<close> promises, over numbers.\<close>

definition page_ok :: "relay_page \<Rightarrow> u64 \<Rightarrow> nat \<Rightarrow> bool" where
  "page_ok page after limit \<longleftrightarrow>
     1 \<le> limit \<and> limit \<le> MAX_RELAY_PAGE \<and> length (rp_records page) \<le> limit
     \<and> (if unat (rp_head page) < unat after then rp_records page = [] \<and> rp_next page = None
        else
          let n = length (rp_records page) in
          map (unat \<circ> po_position) (rp_records page) = [Suc (unat after)..<Suc (unat after) + n]
          \<and> unat after + n \<le> unat (rp_head page)
          \<and> (if unat after + n = unat (rp_head page) then rp_next page = None
             else n > 0 \<and> rp_next page = Some (po_position (last (rp_records page)))))"

lemma last_position:
  assumes "map (unat \<circ> po_position) rs = [Suc a..<Suc a + length rs]" and "rs \<noteq> []"
  shows "unat (po_position (last rs)) = a + length rs"
proof -
  have "unat (po_position (last rs)) = last (map (unat \<circ> po_position) rs)"
    using assms(2) by (simp add: last_map)
  also have "\<dots> = a + length rs" using assms(2) unfolding assms(1) by (cases "length rs") auto
  finally show ?thesis .
qed

lemma positions_bounded:
  assumes "map (unat \<circ> po_position) rs = [Suc a..<Suc a + length rs]"
  shows "(\<forall>r\<in>set rs. po_position r \<le> head) \<longleftrightarrow> rs = [] \<or> a + length rs \<le> unat head"
proof -
  have "(\<forall>r\<in>set rs. unat (po_position r) \<le> unat head) \<longleftrightarrow> (\<forall>p\<in>set (map (unat \<circ> po_position) rs). p \<le> unat head)"
    by simp
  also have "\<dots> \<longleftrightarrow> (\<forall>p\<in>{Suc a..<Suc a + length rs}. p \<le> unat head)"
    unfolding assms by (simp only: set_upt)
  also have "\<dots> \<longleftrightarrow> rs = [] \<or> a + length rs \<le> unat head"
    by (cases rs) auto
  finally show ?thesis by (simp add: word_le_nat_alt)
qed

lemma validate_page_iff: "validate_page page after limit = Inr () \<longleftrightarrow> page_ok page after limit"
proof (cases "unat (rp_head page) < unat after")
  case True
  then show ?thesis by (auto simp: validate_page_def page_ok_def word_less_nat_alt)
next
  case False
  let ?rs = "rp_records page" and ?n = "length (rp_records page)"
  let ?run = "map (unat \<circ> po_position) ?rs = [Suc (unat after)..<Suc (unat after) + ?n]"
  have v: "validate_records (rp_head page) after ?rs = Inr p \<longleftrightarrow>
      ?run \<and> unat after + ?n \<le> unat (rp_head page) \<and> unat p = unat after + ?n" for p
    using False positions_bounded [of ?rs "unat after" "rp_head page"] unfolding validate_records_iff by auto
  have last: "p = po_position (last ?rs) \<longleftrightarrow> unat p = unat after + ?n" if "?run" "?rs \<noteq> []" for p
    using last_position [OF that] by (simp add: word_unat_eq_iff)
  have ex: "\<exists>p :: u64. unat p = unat after + ?n" if "unat after + ?n \<le> unat (rp_head page)"
    using that unsigned_less [where 'a = nat, of "rp_head page"]
    by (intro exI [of _ "word_of_nat (unat after + ?n)"]) (simp only: unat_of_nat, simp)
  have "validate_page page after limit = Inr () \<longleftrightarrow>
      1 \<le> limit \<and> limit \<le> MAX_RELAY_PAGE \<and> ?n \<le> limit
      \<and> (\<exists>p. validate_records (rp_head page) after ?rs = Inr p
           \<and> (p < rp_head page \<longrightarrow> ?rs \<noteq> [] \<and> rp_next page = Some p)
           \<and> (p = rp_head page \<longrightarrow> rp_next page = None))"
    using False by (auto simp: validate_page_def word_less_nat_alt)
  also have "\<dots> \<longleftrightarrow> page_ok page after limit"
    using False ex last unfolding v page_ok_def Let_def word_less_nat_alt word_unat_eq_iff [of _ "rp_head page"]
    by (auto simp: word_less_nat_alt) metis+
  finally show ?thesis .
qed

text \<open>The canonical bytes of a page.\<close>

definition page_bytes :: "relay_page \<Rightarrow> bytes" where
  "page_bytes page = to_be (rp_head page) @ to_be (if rp_next page = None then 0 else 1 :: u8)
     @ to_be (word_of_nat (length (rp_records page)) :: u16) @ concat (map put_record (rp_records page))"

definition page_wf :: "crypto \<Rightarrow> u64 \<Rightarrow> nat \<Rightarrow> relay_page \<Rightarrow> bool" where
  "page_wf C after limit page \<longleftrightarrow>
     page_ok page after limit \<and> (\<forall>r\<in>set (rp_records page). wf_item C (po_item r))
     \<and> length (page_bytes page) \<le> MAX_PAGE_BODY"

lemma page_ok_records:
  assumes "page_ok page after limit"
  shows "\<forall>r\<in>set (rp_records page). po_position r \<noteq> 0"
    and "ascending (map po_position (rp_records page))"
    and "rp_next page = (if rp_next page = None then None else Some (po_position (last (rp_records page))))"
    and "rp_next page \<noteq> None \<Longrightarrow> rp_records page \<noteq> []"
proof -
  let ?rs = "rp_records page"
  have run: "?rs = [] \<or> map (unat \<circ> po_position) ?rs = [Suc (unat after)..<Suc (unat after) + length ?rs]"
    using assms by (auto simp: page_ok_def Let_def split: if_splits)
  then have "set (map (unat \<circ> po_position) ?rs) \<subseteq> {Suc (unat after)..}"
    by (elim disjE) (simp, simp only: set_upt, auto)
  then show "\<forall>r\<in>set ?rs. po_position r \<noteq> 0" by fastforce
  have "sorted_wrt (<) (map (unat \<circ> po_position) ?rs)"
    using run sorted_wrt_upt [of "Suc (unat after)" "Suc (unat after) + length ?rs"] by auto
  then show "ascending (map po_position ?rs)"
    by (simp add: ascending_iff sorted_wrt_map word_less_nat_alt)
  show "rp_next page = (if rp_next page = None then None else Some (po_position (last ?rs)))"
    and "rp_next page \<noteq> None \<Longrightarrow> ?rs \<noteq> []"
    using assms by (auto simp: page_ok_def Let_def split: if_splits)
qed

lemma page_ok_count: "page_ok page after limit \<Longrightarrow> length (rp_records page) \<le> limit \<and> 1 \<le> limit \<and> limit \<le> 64"
  by (simp add: page_ok_def)

interpretation page_codec: frame_codec page_bytes "\<lambda>body. decode_page C body after limit" "page_wf C after limit"
  for C after limit
proof
  fix page
  assume wf: "page_wf C after limit page"
  then have ok: "page_ok page after limit" by (simp add: page_wf_def)
  note rec = page_ok_records [OF ok] and n = page_ok_count [OF ok]
  have u: "unat (word_of_nat (length (rp_records page)) :: u16) = length (rp_records page)"
    using n by (intro unat_of_length) simp
  have "rd_many (decode_record C) (length (rp_records page)) (concat (map put_record (rp_records page)))
      = Inr (rp_records page, [])"
    using wf rec(1) by (simp add: record_codec.rd_many_iff wf_record_def page_wf_def)
  moreover have "page_ok \<lparr>rp_head = rp_head page, rp_next = rp_next page, rp_records = rp_records page\<rparr> after limit"
    using ok by (cases page) simp
  ultimately show "decode_page C (page_bytes page) after limit = Inr page"
    using wf ok rec n u
    by (auto simp: decode_page_def page_bytes_def net_word_def word_get_put page_wf_def validate_page_iff Let_def)
next
  fix body page
  assume "decode_page C body after limit = Inr page"
  then obtain head and tag :: u8 and count :: u16 and records bs1 bs2 bs3
    where bound: "length body \<le> MAX_PAGE_BODY"
      and rd: "net_word body = Inr (head, bs1)" "net_word bs1 = Inr (tag, bs2)" "net_word bs2 = Inr (count, bs3)"
        "rd_many (decode_record C) (unat count) bs3 = Inr (records, [])"
      and tag: "tag = 0 \<or> tag = 1" "tag = 1 \<longrightarrow> records \<noteq> []"
      and page: "page = \<lparr>rp_head = head, rp_next = (if tag = 1 then Some (po_position (last records)) else None),
              rp_records = records\<rparr>"
        "\<exists>u. validate_page page after limit = Inr u"
    unfolding decode_page_def Let_def
    by (simp only: guard_eq_Inr bindR_eq_Inr split_paired_Ex prod.case sum.inject de_Morgan_disj de_Morgan_conj
        not_less not_not) blast
  then have "body = to_be head @ to_be tag @ to_be count @ concat (map put_record records)"
    "length records = unat count" "\<forall>r\<in>set records. wf_record C r"
    by (simp_all add: net_word_def word_get_iff record_codec.rd_many_iff)
  moreover have "word_of_nat (length records) = count" using calculation(2) by simp
  moreover have "rp_head page = head" "rp_records page = records"
    and n: "(if rp_next page = None then 0 else 1 :: u8) = tag"
    using tag(1) by (auto simp: page(1))
  ultimately have "page_bytes page = body" "\<forall>r\<in>set (rp_records page). wf_item C (po_item r)"
    unfolding page_bytes_def n by (simp_all add: wf_record_def)
  then show "page_wf C after limit page \<and> page_bytes page = body"
    using bound page(2) by (simp add: page_wf_def validate_page_iff)
qed

section \<open>Encoding a page, truncated by the byte cap\<close>

definition page_prefix :: "nat \<Rightarrow> relay_page \<Rightarrow> relay_page" where
  "page_prefix k page = page\<lparr>
     rp_next := (if k < length (rp_records page) then Some (po_position (rp_records page ! (k - 1))) else rp_next page),
     rp_records := take k (rp_records page)\<rparr>"

lemma put_record_fits: "wf_item C (po_item r) \<Longrightarrow> 11 + length (put_record r) \<le> MAX_PAGE_BODY"
  using item_bytes_bound [of C "po_item r"] by (simp add: length_put_record)

lemma page_items_wf:
  assumes "\<forall>r\<in>set rs. wf_item C (po_item r)"
    and "count = 0 \<longrightarrow> items = []" and "11 + length items \<le> MAX_PAGE_BODY"
  shows "\<exists>k\<le>length rs. page_items count items rs
           = Inr (count + k, items @ concat (map put_record (take k rs)), k < length rs)
         \<and> (count = 0 \<longrightarrow> rs \<noteq> [] \<longrightarrow> k > 0)
         \<and> 11 + length (items @ concat (map put_record (take k rs))) \<le> MAX_PAGE_BODY"
  using assms
proof (induction rs arbitrary: count items)
  case Nil
  then show ?case by simp
next
  case (Cons r rs)
  have wf: "wf_item C (po_item r)" using Cons.prems by simp
  note enc = item_encode_wf [OF wf]
  show ?case
  proof (cases "11 + length items + length (put_record r) > MAX_PAGE_BODY \<and> count > 0")
    case True
    then show ?thesis
      using Cons.prems enc by (intro exI [of _ 0]) (auto simp: length_put_record simp del: MAX_PAGE_BODY_def)
  next
    case False
    then have "11 + length (items @ put_record r) \<le> MAX_PAGE_BODY"
      using Cons.prems put_record_fits [OF wf] by (cases "count = 0") (auto simp del: MAX_PAGE_BODY_def)
    then obtain k where k: "k \<le> length rs"
      "page_items (Suc count) (items @ put_record r) rs
         = Inr (Suc count + k, (items @ put_record r) @ concat (map put_record (take k rs)), k < length rs)"
      "11 + length ((items @ put_record r) @ concat (map put_record (take k rs))) \<le> MAX_PAGE_BODY"
      using Cons.IH [of "Suc count" "items @ put_record r"] Cons.prems by auto
    have "page_items count items (r # rs) = page_items (Suc count) (items @ put_record r) rs"
      using False enc by (auto simp: length_put_record put_record_def simp del: MAX_PAGE_BODY_def)
    with k show ?thesis
      by (intro exI [of _ "Suc k"]) (simp del: MAX_PAGE_BODY_def)
  qed
qed

lemma page_prefix_ok:
  assumes ok: "page_ok page after limit" and k: "k \<le> length (rp_records page)" "rp_records page \<noteq> [] \<longrightarrow> k > 0"
  shows "page_ok (page_prefix k page) after limit"
proof (cases "k = length (rp_records page)")
  case True
  then show ?thesis using ok by (cases page) (simp add: page_prefix_def)
next
  case False
  then have lt: "k < length (rp_records page)" "k > 0" using k by auto
  let ?rs = "rp_records page"
  have run: "map (unat \<circ> po_position) ?rs = [Suc (unat after)..<Suc (unat after) + length ?rs]"
    and h: "unat after + length ?rs \<le> unat (rp_head page)" "\<not> unat (rp_head page) < unat after"
    and lim: "1 \<le> limit" "limit \<le> MAX_RELAY_PAGE" "length ?rs \<le> limit"
    using ok lt by (auto simp: page_ok_def Let_def split: if_splits)
  have "map (unat \<circ> po_position) (take k ?rs) = [Suc (unat after)..<Suc (unat after) + k]"
    using lt unfolding take_map [symmetric] run by (subst take_upt) simp_all
  moreover have "last (take k ?rs) = ?rs ! (k - 1)"
    using lt by (subst last_conv_nth) auto
  ultimately show ?thesis
    using lt h lim by (auto simp: page_prefix_def page_ok_def Let_def simp del: MAX_RELAY_PAGE_def)
qed

lemma encode_page_prefix:
  assumes ok: "page_ok page after limit" and wf: "\<forall>r\<in>set (rp_records page). wf_item C (po_item r)"
  shows "\<exists>k\<le>length (rp_records page). (rp_records page \<noteq> [] \<longrightarrow> k > 0)
           \<and> encode_page page = Inr (page_bytes (page_prefix k page)) \<and> page_wf C after limit (page_prefix k page)"
proof -
  obtain k where k: "k \<le> length (rp_records page)" "rp_records page \<noteq> [] \<longrightarrow> k > 0"
    "page_items 0 [] (rp_records page)
       = Inr (k, concat (map put_record (take k (rp_records page))), k < length (rp_records page))"
    "11 + length (concat (map put_record (take k (rp_records page)))) \<le> MAX_PAGE_BODY"
    using page_items_wf [OF wf, of 0 "[]"] by auto
  have bytes: "encode_page page = Inr (page_bytes (page_prefix k page))"
    using k page_ok_count [OF ok] by (auto simp: encode_page_def page_bytes_def page_prefix_def to_be_byte)
  have "page_wf C after limit (page_prefix k page)"
    using page_prefix_ok [OF ok k(1,2)] k(4) wf
    by (auto simp: page_wf_def page_bytes_def page_prefix_def dest: in_set_takeD)
  with bytes k show ?thesis by blast
qed

lemma page_items_all:
  assumes "\<forall>r\<in>set rs. wf_item C (po_item r)"
    and "11 + length items + length (concat (map put_record rs)) \<le> MAX_PAGE_BODY"
  shows "page_items count items rs = Inr (count + length rs, items @ concat (map put_record rs), False)"
  using assms
proof (induction rs arbitrary: count items)
  case Nil
  then show ?case by simp
next
  case (Cons r rs)
  then have "item_encode (po_item r) = Inr (item_bytes (po_item r))" by (intro item_encode_wf [of C]) simp
  then have "page_items count items (r # rs) = page_items (Suc count) (items @ put_record r) rs"
    using Cons.prems(2) by (simp add: put_record_def)
  also have "\<dots> = Inr (Suc count + length rs, (items @ put_record r) @ concat (map put_record rs), False)"
    using Cons.prems by (intro Cons.IH) simp_all
  finally show ?case by simp
qed

lemma page_bytes_eq: "page_wf C after limit page \<Longrightarrow> encode_page page = Inr (page_bytes page)"
  using page_items_all [of "rp_records page" C "[]" 0] page_ok_count [of page after limit]
  by (auto simp: page_wf_def encode_page_def page_bytes_def to_be_byte)

section \<open>Properties\<close>

text \<open>
  C13. Relay items are canonical. Decoding accepts a byte string exactly when it is the encoding
  of a well-formed item: nonzero namespace, operation and sequence, a kind that may pass a relay,
  a payload of 1 to 266240 bytes and the digest recomputed over all of them. No byte string has
  two readings and no item two encodings.
\<close>

theorem relay_item_canonical:
  "item_decode C raw = Inr it \<longleftrightarrow> wf_item C it \<and> item_encode it = Inr raw"
  unfolding item_codec.dec_iff using item_encode_wf [of C it] by auto

text \<open>
  C14. Confidential artifacts never pass a relay. The two constructors answer on every branch as
  listed: a contact offer, key package or invitation is refused as confidential whatever its other
  fields are, an empty or oversized payload and a zero sequence are refused as out of bounds,
  and everything else becomes an item whose encoding decodes to it. The decoder returns no
  confidential kind for any input.
\<close>

theorem confidential_never_relayed:
  assumes "ns \<noteq> 0" and "co_operation a \<noteq> 0"
  shows "relay_from_artifact C ns a =
     (if co_kind a \<in> {ContactOffer, KeyPackage, Invitation} then Inl RelayConfidential
      else if co_sequence a = 0 \<or> co_bytes a = [] \<or> length (co_bytes a) > 266240 then Inl RelayBounds
      else Inr \<lparr>ri_namespace = ns, ri_sequence = co_sequence a, ri_operation = co_operation a,
                ri_kind = Outbox (co_kind a), ri_payload = co_bytes a,
                ri_digest = relay_digest C ns (co_sequence a) (co_operation a) (Outbox (co_kind a)) (co_bytes a)\<rparr>)
    \<and> (\<forall>it. relay_from_artifact C ns a = Inr it \<longrightarrow> bindR (item_encode it) (item_decode C) = Inr it)
    \<and> (\<forall>raw it. item_decode C raw = Inr it \<longrightarrow> ri_kind it \<notin> Outbox ` {ContactOffer, KeyPackage, Invitation})"
proof (intro conjI allI impI)
  show "relay_from_artifact C ns a =
     (if co_kind a \<in> {ContactOffer, KeyPackage, Invitation} then Inl RelayConfidential
      else if co_sequence a = 0 \<or> co_bytes a = [] \<or> length (co_bytes a) > 266240 then Inl RelayBounds
      else Inr \<lparr>ri_namespace = ns, ri_sequence = co_sequence a, ri_operation = co_operation a,
                ri_kind = Outbox (co_kind a), ri_payload = co_bytes a,
                ri_digest = relay_digest C ns (co_sequence a) (co_operation a) (Outbox (co_kind a)) (co_bytes a)\<rparr>)"
    by (cases "co_kind a") (simp_all add: relay_from_artifact_def relay_item_new_def is_relay_kind_def)
  fix it
  assume "relay_from_artifact C ns a = Inr it"
  then have "wf_item C it"
    using assms by (auto simp: relay_from_artifact_def relay_item_new_iff wf_item_def)
  then show "bindR (item_encode it) (item_decode C) = Inr it" by (simp add: item_encode_wf item_codec.dec_enc)
next
  fix raw it
  assume "item_decode C raw = Inr it"
  then show "ri_kind it \<notin> Outbox ` {ContactOffer, KeyPackage, Invitation}"
    by (auto simp: item_codec.dec_iff wf_item_def is_relay_kind_def)
qed

definition ex_outbox :: committed_outbox where
  "ex_outbox = \<lparr>co_sequence = 3, co_operation = 9, co_kind = Application, co_bytes = [1, 2]\<rparr>"

definition ex_item :: relay_item where
  "ex_item = \<lparr>ri_namespace = 7, ri_sequence = 3, ri_operation = 9, ri_kind = Outbox Application,
     ri_payload = [1, 2], ri_digest = 87\<rparr>"

lemma ex_item_digest: "relay_digest toy_crypto 7 3 9 (Outbox Application) [1, 2] = 87"
  by (simp add: relay_digest_def toy_crypto_def RELAY_DIGEST_DOMAIN_def ascii_def)

lemma ex_item_wf: "wf_item toy_crypto ex_item"
  by (simp add: wf_item_def ex_item_def ex_item_digest is_relay_kind_def)

theorem confidential_never_relayed_witness:
  "relay_from_artifact toy_crypto 7 ex_outbox = Inr ex_item
   \<and> bindR (item_encode ex_item) (item_decode toy_crypto) = Inr ex_item"
proof -
  have h: "(7 :: array32) \<noteq> 0" "co_operation ex_outbox \<noteq> 0" by (simp_all add: ex_outbox_def)
  note c = confidential_never_relayed [OF h, of toy_crypto]
  have 1: "relay_from_artifact toy_crypto 7 ex_outbox = Inr ex_item"
    unfolding conjunct1 [OF c] by (simp add: ex_outbox_def ex_item_def ex_item_digest)
  then show ?thesis using c by blast
qed

text \<open>
  An item's digest names it: two well-formed items of one digest are the same item, in
  every field, unless SHA-256 collides on the two transcripts the code hashes. A retention
  receipt is accepted exactly when it is the encoding of a receipt with a nonzero position for
  that digest, so an accepted receipt acknowledges this item and no other.
\<close>

lemma relay_kind_byte_inject: "relay_kind_byte k = relay_kind_byte k' \<longleftrightarrow> k = k'"
proof
  assume e: "relay_kind_byte k = relay_kind_byte k'"
  have "kind_from_byte (relay_kind_byte k) = Inr k \<or> k = Outbox ContactOffer" for k
    by (simp add: kind_byte_roundtrip)
  moreover have "relay_kind_byte k = 0 \<longleftrightarrow> k = Outbox ContactOffer" for k
    by (cases k) (auto simp: relay_kind_byte_def split: outbox_kind.splits)
  ultimately show "k = k'" using e by (metis sum.inject(2))
qed simp

definition relay_transcript :: "relay_item \<Rightarrow> bytes" where
  "relay_transcript it = RELAY_DIGEST_DOMAIN @ to_be (ri_namespace it) @ to_be (ri_sequence it)
     @ to_be (ri_operation it) @ [relay_kind_byte (ri_kind it)] @ ri_payload it"

lemma relay_transcript_inject:
  "relay_transcript a = relay_transcript b \<Longrightarrow> ri_digest a = ri_digest b \<Longrightarrow> a = b"
  by (auto simp: relay_transcript_def to_be_inject relay_kind_byte_inject intro: relay_item.equality)

lemma encode_receipt_length: "length (encode_receipt r) = 41"
  by (simp add: encode_receipt_def)

lemma decode_receipt_iff:
  "decode_receipt body item = Inr r \<longleftrightarrow>
   body = encode_receipt r \<and> rr_position r \<noteq> 0 \<and> rr_digest r = ri_digest item"
proof
  assume "body = encode_receipt r \<and> rr_position r \<noteq> 0 \<and> rr_digest r = ri_digest item"
  then show "decode_receipt body item = Inr r"
    by (auto simp: decode_receipt_def encode_receipt_def Let_def from_be_to_be nth_append)
next
  assume d: "decode_receipt body item = Inr r"
  define p q b where "p = take 8 body" and "q = take 32 (drop 8 body)" and "b = body ! 40"
  have len: "length body = 41" using d by (auto simp: decode_receipt_def split: if_splits)
  have "drop 40 body = [b]" using len Cons_nth_drop_Suc [of 40 body] by (simp add: b_def)
  moreover have "body = take 8 body @ take 32 (drop 8 body) @ drop 32 (drop 8 body)"
    by (simp only: append_take_drop_id)
  ultimately have "body = p @ q @ [b]" by (simp add: p_def q_def)
  moreover have "to_be (from_be p :: u64) = p" "to_be (from_be q :: array32) = q"
    using len by (simp_all add: to_be_from_be p_def q_def)
  moreover have "r = \<lparr>rr_position = from_be p, rr_digest = from_be q, rr_duplicate = (b \<noteq> 0)\<rparr>"
    and "from_be p \<noteq> (0 :: u64)" "from_be q = ri_digest item" "\<not> b > 1"
    using d by (auto simp: decode_receipt_def Let_def p_def q_def b_def split: if_splits)
  moreover have "b = (if b \<noteq> 0 then 1 else 0)"
    using \<open>\<not> b > 1\<close> by (auto simp: word_less_nat_alt word_unat_eq_iff)
  ultimately show "body = encode_receipt r \<and> rr_position r \<noteq> 0 \<and> rr_digest r = ri_digest item"
    by (simp add: encode_receipt_def)
qed

theorem digest_names_item:
  assumes "wf_item C it" and "wf_item C it'" and "collision_free C {relay_transcript it, relay_transcript it'}"
  shows "(ri_digest it = ri_digest it' \<longleftrightarrow> it = it')
    \<and> (decode_receipt body it = Inr r \<longleftrightarrow>
        body = encode_receipt r \<and> rr_position r \<noteq> 0 \<and> rr_digest r = ri_digest it)
    \<and> (decode_receipt body it = Inr r \<and> decode_receipt body it' = Inr r \<longrightarrow> it = it')"
proof -
  have d: "ri_digest i = sha256 C (relay_transcript i)" if "wf_item C i" for i
    using that by (simp add: wf_item_def relay_digest_def relay_transcript_def)
  have same: "it = it'" if "ri_digest it = ri_digest it'"
  proof (rule relay_transcript_inject [OF _ that])
    show "relay_transcript it = relay_transcript it'"
      using that d [OF assms(1)] d [OF assms(2)] by (intro collision_freeD [OF assms(3)]) simp_all
  qed
  then show ?thesis by (auto simp: decode_receipt_iff)
qed

theorem digest_names_item_witness:
  "decode_receipt (encode_receipt \<lparr>rr_position = 4, rr_digest = 87, rr_duplicate = True\<rparr>) ex_item
     = Inr \<lparr>rr_position = 4, rr_digest = 87, rr_duplicate = True\<rparr>"
proof -
  have "collision_free toy_crypto {relay_transcript ex_item, relay_transcript ex_item}"
    by (simp add: collision_free_def)
  from digest_names_item [OF ex_item_wf ex_item_wf this,
      of "encode_receipt \<lparr>rr_position = 4, rr_digest = 87, rr_duplicate = True\<rparr>"
         "\<lparr>rr_position = 4, rr_digest = 87, rr_duplicate = True\<rparr>"]
  show ?thesis by (simp add: ex_item_def)
qed

text \<open>
  A mailbox page is accepted for a cursor and a limit exactly when its body is the canonical
  encoding, of at most 4 MiB, of a page of well-formed items that satisfies the page contract: a
  head behind the cursor comes with nothing; otherwise the positions are the cursor's immediate
  successors without a gap, none beyond the head, and the continuation is absent exactly when the
  last one is the head and is otherwise that last position, after at least one record. A client that
  follows continuations therefore skips no retained position and always advances.
\<close>

theorem page_decode_exact:
  "decode_page C body after limit = Inr page \<longleftrightarrow>
   page_bytes page = body \<and> length body \<le> MAX_PAGE_BODY
   \<and> list_all (\<lambda>r. wf_item C (po_item r)) (rp_records page) \<and> page_ok page after limit"
  unfolding page_codec.dec_iff page_wf_def list_all_iff by blast

text \<open>
  The byte cap truncates a page without losing it. Encoding a page that satisfies the contract
  always succeeds within 4 MiB; the client decodes exactly a prefix of the page for the same cursor
  and limit, with at least one record when the page has any, and with the position of the last kept
  record as its continuation when records were cut. A page that fits is not cut.
\<close>

theorem page_truncation:
  assumes "validate_page page after limit = Inr ()" and "\<forall>r\<in>set (rp_records page). wf_item C (po_item r)"
  shows "\<exists>k body. k \<le> length (rp_records page) \<and> (rp_records page \<noteq> [] \<longrightarrow> k > 0)
     \<and> encode_page page = Inr body \<and> length body \<le> MAX_PAGE_BODY
     \<and> decode_page C body after limit = Inr (page_prefix k page)
     \<and> (length (page_bytes page) \<le> MAX_PAGE_BODY \<longrightarrow> page_prefix k page = page)"
proof -
  have ok: "page_ok page after limit" using assms(1) by (simp add: validate_page_iff)
  obtain k where k: "k \<le> length (rp_records page)" "rp_records page \<noteq> [] \<longrightarrow> k > 0"
    "encode_page page = Inr (page_bytes (page_prefix k page))" "page_wf C after limit (page_prefix k page)"
    using encode_page_prefix [OF ok assms(2)] by blast
  have dec: "decode_page C (page_bytes (page_prefix k page)) after limit = Inr (page_prefix k page)"
    by (rule page_codec.dec_enc [OF k(4)])
  have "page_prefix k page = page" if "length (page_bytes page) \<le> MAX_PAGE_BODY"
  proof -
    have wf: "page_wf C after limit page" using ok assms(2) that by (simp only: page_wf_def)
    then have "page_bytes (page_prefix k page) = page_bytes page"
      using k(3) page_bytes_eq [OF wf] by simp
    then show ?thesis using page_codec.enc_inject [OF k(4) wf] by blast
  qed
  with k dec show ?thesis by (auto simp only: page_wf_def)
qed

definition ex_page :: relay_page where
  "ex_page = \<lparr>rp_head = 5, rp_next = None, rp_records = [\<lparr>po_position = 5, po_item = ex_item\<rparr>]\<rparr>"

theorem page_truncation_witness:
  "validate_page ex_page 4 1 = Inr () \<and> (\<exists>body. encode_page ex_page = Inr body
   \<and> decode_page toy_crypto body 4 1 = Inr ex_page)"
proof -
  have v: "validate_page ex_page 4 1 = Inr ()"
    by (simp add: validate_page_iff page_ok_def ex_page_def Let_def)
  have wf: "\<forall>r\<in>set (rp_records ex_page). wf_item toy_crypto (po_item r)"
    by (simp add: ex_page_def ex_item_wf)
  have "length (page_bytes ex_page) \<le> MAX_PAGE_BODY"
    by (simp add: page_bytes_def ex_page_def length_put_record length_item_bytes ex_item_def)
  with page_truncation [OF v wf] v show ?thesis by auto
qed

text \<open>
  Frames and statuses are exact. A frame decodes to an operation and a body, under a bound,
  exactly when it is their framing and operation and body together are within the bound, so
  there are no trailing or missing bytes. A refusal is told apart from every other answer: the
  status of each relay error decodes to its network error and a refusal with a body is malformed.
\<close>

theorem relay_frames_exact:
  "(decode_frame raw mx = Inr (op, body) \<longleftrightarrow> relay_frame op body = Some raw \<and> length body < mx)
   \<and> decode_status STATUS_OK body = Inr body
   \<and> decode_status (relay_status e) body
     = Inl (if body \<noteq> [] then NetMalformed
            else case e of RelayConflict \<Rightarrow> NetConflict | RelayCapacity \<Rightarrow> NetCapacity | RelayScope \<Rightarrow> NetScope
              | RelayStorage \<Rightarrow> NetUnavailable | RelayBounds \<Rightarrow> NetBounds | RelayConfidential \<Rightarrow> NetBounds)"
proof (intro conjI)
  show "decode_frame raw mx = Inr (op, body) \<longleftrightarrow> relay_frame op body = Some raw \<and> length body < mx"
  proof
    assume d: "decode_frame raw mx = Inr (op, body)"
    then have "5 \<le> length raw" "length raw \<le> mx + 4" "op = raw ! 4" "body = drop 5 raw"
      and n: "unat (from_be (take 4 raw) :: u32) = length raw - 4"
      by (auto simp: decode_frame_def Let_def split: if_splits)
    moreover have "word_of_nat (length raw - 4) = (from_be (take 4 raw) :: u32)" "length raw - 4 < 2 ^ 32"
      using n unsigned_less [where 'a = nat, of "from_be (take 4 raw) :: u32"] by (simp_all flip: n)
    moreover have "1 + length (drop 5 raw) = length raw - 4" using calculation(1) by simp
    moreover have "to_be (from_be (take 4 raw) :: u32) = take 4 raw"
      using calculation(1) by (intro to_be_from_be) simp
    ultimately show "relay_frame op body = Some raw \<and> length body < mx"
      using raw_frame_parts [of raw] by (auto simp: relay_frame_def)
  next
    assume "relay_frame op body = Some raw \<and> length body < mx"
    then have "raw = to_be (word_of_nat (1 + length body) :: u32) @ [op] @ body" "1 + length body < 2 ^ 32"
      "length body < mx"
      by (auto simp: relay_frame_def split: if_splits)
    moreover have "unat (word_of_nat (1 + length body) :: u32) = 1 + length body"
      using calculation(2) by (simp only: unat_of_nat) simp
    ultimately show "decode_frame raw mx = Inr (op, body)"
      by (simp add: decode_frame_def Let_def from_be_to_be nth_append del: of_nat_Suc of_nat_add)
  qed
  show "decode_status STATUS_OK body = Inr body"
    by (simp add: decode_status_def)
  show "decode_status (relay_status e) body
     = Inl (if body \<noteq> [] then NetMalformed
            else case e of RelayConflict \<Rightarrow> NetConflict | RelayCapacity \<Rightarrow> NetCapacity | RelayScope \<Rightarrow> NetScope
              | RelayStorage \<Rightarrow> NetUnavailable | RelayBounds \<Rightarrow> NetBounds | RelayConfidential \<Rightarrow> NetBounds)"
    by (cases e) (simp_all add: decode_status_def relay_status_def status_defs)
qed

end
