(* ===== verification/Wire.thy ===== *)
theory Wire
  imports Crypto_Params
begin

text \<open>
  The bounded parser boundary of \<open>crates/vhalla-core\<close> and the canonical unsigned envelope of
  \<open>crates/vhalla-wire\<close>. The identifier newtypes of \<open>vhalla-core\<close> (\<open>PeerId\<close>, \<open>RealmId\<close>, \<open>RoomId\<close>,
  \<open>EventId\<close>, \<open>Sequence\<close>, \<open>Epoch\<close>) are the integers they wrap. The envelope decoder reads at fixed
  offsets of the whole input, as the code does; \<open>envelope_codec\<close> shows that this is exactly the
  inverse of the sequential encoder.
\<close>

section \<open>The parser boundary\<close>

definition MAX_ENVELOPE_BYTES :: nat where [simp]: "MAX_ENVELOPE_BYTES = 64 * 1024"

datatype parse_error = ParseTooLarge nat nat

definition parse_untrusted :: "bytes \<Rightarrow> parse_error + bytes" where
  "parse_untrusted raw =
     (if length raw > MAX_ENVELOPE_BYTES then Inl (ParseTooLarge (length raw) MAX_ENVELOPE_BYTES) else Inr raw)"

section \<open>Envelopes\<close>

definition WIRE_VERSION :: u8 where [simp]: "WIRE_VERSION = 1"
definition KIND_CHAT :: u8 where [simp]: "KIND_CHAT = 1"
definition HEADER_BYTES :: nat where [simp]: "HEADER_BYTES = 78"
definition MAX_BODY_BYTES :: nat where [simp]: "MAX_BODY_BYTES = MAX_ENVELOPE_BYTES - HEADER_BYTES"

record envelope =
  en_kind :: u8
  en_author :: u128
  en_realm :: u128
  en_room :: u128
  en_event :: u128
  en_sequence :: u64
  en_body :: bytes

datatype decode_field =
    FieldVersion | FieldKind | FieldAuthor | FieldRealm | FieldRoom | FieldEvent | FieldSequence
  | FieldBodyLength | FieldBody

datatype wire_error =
    WireTooLarge nat nat
  | WireTruncated decode_field
  | WireUnsupportedVersion u8
  | WireInvalidKind
  | WireBodyTooLarge nat nat
  | WireTrailingBytes nat

definition encoded_len :: "envelope \<Rightarrow> nat" where
  "encoded_len e = HEADER_BYTES + length (en_body e)"

definition envelope_new :: "u8 \<Rightarrow> u128 \<Rightarrow> u128 \<Rightarrow> u128 \<Rightarrow> u128 \<Rightarrow> u64 \<Rightarrow> bytes \<Rightarrow> envelope option" where
  "envelope_new kind author realm room event sq body =
     (if kind = 0 \<or> length body > MAX_BODY_BYTES then None
      else Some \<lparr>en_kind = kind, en_author = author, en_realm = realm, en_room = room, en_event = event,
                 en_sequence = sq, en_body = body\<rparr>)"

definition envelope_chat :: "u128 \<Rightarrow> u128 \<Rightarrow> u128 \<Rightarrow> u128 \<Rightarrow> u64 \<Rightarrow> bytes \<Rightarrow> envelope option" where
  "envelope_chat author realm room event sq body = envelope_new KIND_CHAT author realm room event sq body"

definition envelope_encode :: "envelope \<Rightarrow> bytes" where
  "envelope_encode e =
     [WIRE_VERSION] @ [en_kind e] @ to_be (en_author e) @ to_be (en_realm e) @ to_be (en_room e)
     @ to_be (en_event e) @ to_be (en_sequence e) @ to_be (word_of_nat (length (en_body e)) :: u32) @ en_body e"

text \<open>\<open>read_u128\<close>, \<open>read_u64\<close> and \<open>read_u32\<close>: \<open>raw.get(start..end)\<close> at a fixed offset.\<close>

definition wire_read :: "bytes \<Rightarrow> nat \<Rightarrow> decode_field \<Rightarrow> wire_error + 'a::len word" where
  "wire_read raw start field =
     (if start + LENGTH('a) div 8 \<le> length raw then Inr (from_be (take (LENGTH('a) div 8) (drop start raw)))
      else Inl (WireTruncated field))"

text \<open>\<open>HEADER_BYTES.checked_add(body_len)\<close> cannot overflow below the bound just checked.\<close>

definition decode_bounded :: "bytes \<Rightarrow> wire_error + envelope" where
  "decode_bounded raw =
     (if raw = [] then Inl (WireTruncated FieldVersion)
      else if raw ! 0 \<noteq> WIRE_VERSION then Inl (WireUnsupportedVersion (raw ! 0))
      else if length raw < 2 then Inl (WireTruncated FieldKind)
      else if raw ! 1 = 0 then Inl WireInvalidKind
      else
     bindR (wire_read raw 2 FieldAuthor) (\<lambda>author.
     bindR (wire_read raw 18 FieldRealm) (\<lambda>realm.
     bindR (wire_read raw 34 FieldRoom) (\<lambda>room.
     bindR (wire_read raw 50 FieldEvent) (\<lambda>event.
     bindR (wire_read raw 66 FieldSequence) (\<lambda>sq.
     bindR (wire_read raw 74 FieldBodyLength) (\<lambda>len :: u32.
       let body_len = unat len; end' = HEADER_BYTES + body_len in
       if body_len > MAX_BODY_BYTES then Inl (WireBodyTooLarge body_len MAX_BODY_BYTES)
       else if length raw < end' then Inl (WireTruncated FieldBody)
       else if length raw > end' then Inl (WireTrailingBytes (length raw - end'))
       else Inr \<lparr>en_kind = raw ! 1, en_author = author, en_realm = realm, en_room = room, en_event = event,
                 en_sequence = sq, en_body = take body_len (drop HEADER_BYTES raw)\<rparr>)))))))"

definition envelope_decode :: "bytes \<Rightarrow> wire_error + envelope" where
  "envelope_decode raw =
     (if length raw > MAX_ENVELOPE_BYTES then Inl (WireTooLarge (length raw) MAX_ENVELOPE_BYTES)
      else decode_bounded raw)"

section \<open>The codec is exact\<close>

text \<open>The invariant the private fields of \<open>Envelope\<close> and its two constructors keep.\<close>

definition envelope_ok :: "envelope \<Rightarrow> bool" where
  "envelope_ok e \<longleftrightarrow> en_kind e \<noteq> 0 \<and> length (en_body e) \<le> MAX_BODY_BYTES"

lemma envelope_new_ok: "envelope_new k a r m v s b = Some e \<Longrightarrow> envelope_ok e"
  by (auto simp: envelope_new_def envelope_ok_def simp del: MAX_BODY_BYTES_def split: if_splits)

lemma length_envelope_encode: "length (envelope_encode e) = encoded_len e"
  by (simp add: envelope_encode_def encoded_len_def)

lemma wire_read_iff:
  assumes "8 dvd LENGTH('a::len)"
  shows "wire_read raw n field = Inr (w :: 'a word) \<longleftrightarrow> drop n raw = to_be w @ drop (n + LENGTH('a) div 8) raw"
proof -
  have "wire_read raw n field = Inr w \<longleftrightarrow> n + LENGTH('a) div 8 \<le> length raw \<and> take (LENGTH('a) div 8) (drop n raw) = to_be w"
    using assms to_be_from_be [where 'a = 'a, of "take (LENGTH('a) div 8) (drop n raw)"]
    by (auto simp: wire_read_def from_be_to_be)
  also have "\<dots> \<longleftrightarrow> drop n raw = to_be w @ drop (n + LENGTH('a) div 8) raw"
  proof
    assume "n + LENGTH('a) div 8 \<le> length raw \<and> take (LENGTH('a) div 8) (drop n raw) = to_be w"
    then show "drop n raw = to_be w @ drop (n + LENGTH('a) div 8) raw"
      by (metis append_take_drop_id drop_drop add.commute)
  next
    assume e: "drop n raw = to_be w @ drop (n + LENGTH('a) div 8) raw"
    have "0 < LENGTH('a) div 8" using assms by (metis dvd_div_eq_0_iff gr0I len_not_eq_0)
    moreover have "length raw - n = LENGTH('a) div 8 + (length raw - (n + LENGTH('a) div 8))"
      using arg_cong [OF e, of length] by simp
    ultimately have "n + LENGTH('a) div 8 \<le> length raw" by linarith
    moreover have "take (LENGTH('a) div 8) (drop n raw) = to_be w" by (subst e) simp
    ultimately show "n + LENGTH('a) div 8 \<le> length raw \<and> take (LENGTH('a) div 8) (drop n raw) = to_be w" by simp
  qed
  finally show ?thesis .
qed

lemma first_two: "raw \<noteq> [] \<Longrightarrow> \<not> length raw < 2 \<Longrightarrow> raw = raw ! 0 # raw ! 1 # drop 2 raw"
  by (cases raw; cases "tl raw") auto

lemma decode_bounded_encode:
  assumes "envelope_ok e"
  shows "decode_bounded (envelope_encode e) = Inr e"
proof -
  have "unat (word_of_nat (length (en_body e)) :: u32) = length (en_body e)"
    using assms by (intro unat_of_length) (simp add: envelope_ok_def)
  with assms show ?thesis
    by (simp add: decode_bounded_def wire_read_iff envelope_encode_def envelope_ok_def wire_read_def from_be_to_be)
qed

lemma decode_bounded_Inr:
  assumes "decode_bounded raw = Inr e"
  shows "envelope_ok e \<and> envelope_encode e = raw"
proof -
  from assms obtain len :: u32 where h: "raw \<noteq> []" "raw ! 0 = 1" "\<not> length raw < 2" "en_kind e = raw ! 1" "raw ! 1 \<noteq> 0"
    and r: "wire_read raw 2 FieldAuthor = Inr (en_author e)" "wire_read raw 18 FieldRealm = Inr (en_realm e)"
      "wire_read raw 34 FieldRoom = Inr (en_room e)" "wire_read raw 50 FieldEvent = Inr (en_event e)"
      "wire_read raw 66 FieldSequence = Inr (en_sequence e)" "wire_read raw 74 FieldBodyLength = Inr len"
    and b: "unat len \<le> MAX_BODY_BYTES" "length raw = 78 + unat len" "en_body e = take (unat len) (drop 78 raw)"
    by (auto simp: decode_bounded_def Let_def simp del: MAX_BODY_BYTES_def)
  have body: "en_body e = drop 78 raw" "word_of_nat (length (en_body e)) = len" using b by simp_all
  have "drop 2 raw = to_be (en_author e) @ to_be (en_realm e) @ to_be (en_room e) @ to_be (en_event e)
      @ to_be (en_sequence e) @ to_be len @ drop 78 raw"
    using r by (simp add: wire_read_iff)
  then show ?thesis
    using first_two [OF h(1,3)] h b body by (simp add: envelope_ok_def envelope_encode_def)
qed

interpretation envelope_codec: frame_codec envelope_encode envelope_decode envelope_ok
proof
  fix e
  assume "envelope_ok e"
  then show "envelope_decode (envelope_encode e) = Inr e"
    using decode_bounded_encode [of e]
    by (simp add: envelope_decode_def length_envelope_encode encoded_len_def envelope_ok_def)
next
  fix raw e
  assume "envelope_decode raw = Inr e"
  then show "envelope_ok e \<and> envelope_encode e = raw"
    by (intro decode_bounded_Inr) (simp add: envelope_decode_def split: if_splits)
qed

end
