(* ===== verification/Replay_Guard.thy ===== *)
theory Replay_Guard
  imports BTree_Map "HOL-Library.Product_Lexorder"
begin

text \<open>
  The contract the repository's replay guards share: a guard remembers, per scope, the rank of
  the last message it admitted, admits a message of a known scope only at a higher rank, changes
  nothing else and changes nothing when it refuses. The locale \<open>replay_guard\<close> states it; its
  lemmas say what any sequence of deliveries to such a guard admits. It is interpreted on the
  envelope replay window, on the signed-claim window and on the spent-nonce set.
\<close>

text \<open>Deliver messages one after the other; refused ones leave the state as it was.\<close>

fun guard_run :: "('s \<Rightarrow> 'm \<Rightarrow> 'e + 's) \<Rightarrow> 's \<Rightarrow> 'm list \<Rightarrow> 's \<times> 'm list" where
  "guard_run admit s [] = (s, [])"
| "guard_run admit s (m # ms) =
     (case admit s m of
        Inl _ \<Rightarrow> guard_run admit s ms
      | Inr s' \<Rightarrow> (let (t, acc) = guard_run admit s' ms in (t, m # acc)))"

lemma guard_run_append:
  "guard_run admit s (xs @ ys) =
   (let (t, a) = guard_run admit s xs; (u, b) = guard_run admit t ys in (u, a @ b))"
  by (induction xs arbitrary: s) (auto split: sum.splits prod.splits)

lemma guard_run_subset: "set (snd (guard_run admit s ms)) \<subseteq> set ms"
  by (induction ms arbitrary: s) (auto split: sum.splits prod.splits, metis snd_conv subsetD)

lemma guard_run_invariant:
  assumes "\<And>s m s'. I s \<Longrightarrow> admit s m = Inr s' \<Longrightarrow> I s'" and "I s"
  shows "I (fst (guard_run admit s ms))"
  using assms(2)
proof (induction ms arbitrary: s)
  case Nil
  then show ?case by simp
next
  case (Cons m ms)
  then show ?case
    using Cons.IH assms(1) by (auto split: sum.splits prod.splits) (metis fst_conv)
qed

locale replay_guard =
  fixes admit :: "'s \<Rightarrow> 'm \<Rightarrow> 'e + 's"
    and scope :: "'m \<Rightarrow> 'k"
    and rank :: "'m \<Rightarrow> 'r::order"
    and top :: "'s \<Rightarrow> 'k \<Rightarrow> 'r option"
    and inv :: "'s \<Rightarrow> bool"
  assumes keep: "inv s \<Longrightarrow> admit s m = Inr s' \<Longrightarrow> inv s'"
    and advance: "inv s \<Longrightarrow> admit s m = Inr s' \<Longrightarrow> top s (scope m) = Some r \<Longrightarrow> r < rank m"
    and recorded: "inv s \<Longrightarrow> admit s m = Inr s' \<Longrightarrow> top s' = (top s)(scope m \<mapsto> rank m)"
begin

lemma run_inv: "inv s \<Longrightarrow> inv (fst (guard_run admit s ms))"
  by (rule guard_run_invariant [of inv]) (use keep in auto)

lemma run_above:
  assumes "inv s" and "m \<in> set (snd (guard_run admit s ms))" and "top s (scope m) = Some r"
  shows "r < rank m"
  using assms
proof (induction ms arbitrary: s r)
  case Nil
  then show ?case by simp
next
  case (Cons x ms)
  show ?case
  proof (cases "admit s x")
    case (Inl e)
    then show ?thesis using Cons by simp
  next
    case (Inr s')
    note s' = keep [OF Cons.prems(1) Inr] recorded [OF Cons.prems(1) Inr]
    consider "m = x" | "m \<in> set (snd (guard_run admit s' ms))"
      using Cons.prems(2) Inr by (auto split: prod.splits)
    then show ?thesis
    proof cases
      case 1
      then show ?thesis using advance [OF Cons.prems(1) Inr] Cons.prems(3) by simp
    next
      case 2
      show ?thesis
      proof (cases "scope m = scope x")
        case True
        then have "r < rank x" using advance [OF Cons.prems(1) Inr] Cons.prems(3) by simp
        also have "\<dots> < rank m" using Cons.IH [OF s'(1) 2, of "rank x"] s'(2) True by simp
        finally show ?thesis .
      next
        case False
        then show ?thesis using Cons.IH [OF s'(1) 2] s'(2) Cons.prems(3) by simp
      qed
    qed
  qed
qed

text \<open>Per scope, admitted messages come in strictly increasing rank.\<close>

lemma run_increasing:
  assumes "inv s"
  shows "sorted_wrt (\<lambda>a b. scope a = scope b \<longrightarrow> rank a < rank b) (snd (guard_run admit s ms))"
  using assms
proof (induction ms arbitrary: s)
  case Nil
  then show ?case by simp
next
  case (Cons x ms)
  show ?case
  proof (cases "admit s x")
    case (Inl e)
    then show ?thesis using Cons by simp
  next
    case (Inr s')
    note s' = keep [OF Cons.prems Inr] recorded [OF Cons.prems Inr]
    have "rank x < rank m" if "m \<in> set (snd (guard_run admit s' ms))" "scope x = scope m" for m
      using run_above [OF s'(1) that(1), of "rank x"] s'(2) that(2) by simp
    then show ?thesis using Cons.IH [OF s'(1)] Inr by (auto split: prod.splits)
  qed
qed

text \<open>No message is admitted twice.\<close>

lemma run_distinct: "inv s \<Longrightarrow> distinct (snd (guard_run admit s ms))"
proof -
  assume "inv s"
  have "distinct xs" if "sorted_wrt (\<lambda>a b. scope a = scope b \<longrightarrow> rank a < rank b) xs" for xs
    using that by (induction xs) auto
  then show ?thesis using run_increasing [OF \<open>inv s\<close>] by blast
qed

text \<open>What was admitted before is never admitted again, however much happens in between.\<close>

lemma no_second_admission:
  assumes "inv s" and "admit s m = Inr s'"
  shows "m' \<in> set (snd (guard_run admit s' ms)) \<Longrightarrow> scope m' = scope m \<Longrightarrow> rank m < rank m'"
  using run_above [OF keep [OF assms], of m' ms "rank m"] recorded [OF assms] by simp

end

end
