(* ===== verification/Signed_Envelope.thy ===== *)
theory Signed_Envelope
  imports Wire Replay_Guard
begin

text \<open>
  \<open>crates/vhalla-crypto/src/lib.rs\<close>: context-bound signed envelopes and the bounded replay window
  that turns them into verified evidence. A \<open>VerifyingKey\<close> is its 32 bytes, which
  \<open>VerifyingKey::to_bytes\<close> gives back; a \<open>SigningKey\<close> is its seed.
\<close>

section \<open>Data\<close>

definition SIGNED_DOMAIN :: bytes where "SIGNED_DOMAIN = ascii ''vhalla/signed-envelope/v2''"
definition SIGNED_VERSION :: u8 where [simp]: "SIGNED_VERSION = 2"
definition MAX_SIGNED_BYTES :: nat where [simp]: "MAX_SIGNED_BYTES = MAX_ENVELOPE_BYTES"
definition SIGNED_OVERHEAD_BYTES :: nat where [simp]: "SIGNED_OVERHEAD_BYTES = 1 + 4 + 16 + 8 + 16 + 8 + 64"
definition MAX_SIGNED_BODY_BYTES :: nat where [simp]:
  "MAX_SIGNED_BODY_BYTES = MAX_SIGNED_BYTES - SIGNED_OVERHEAD_BYTES - HEADER_BYTES"
definition MAX_REPLAY_AUTHORS :: nat where [simp]: "MAX_REPLAY_AUTHORS = 256"

record verification_context =
  vc_audience :: u128
  vc_realm :: u128
  vc_room :: u128
  vc_epoch :: u64
  vc_session :: u128

record signed_envelope =
  se_envelope :: envelope
  se_audience :: u128
  se_epoch :: u64
  se_session :: u128
  se_expires_at :: u64
  se_signature :: array64

record verified_envelope =
  ve_envelope :: envelope
  ve_signer_key :: array32
  ve_context :: verification_context
  ve_expires_at :: u64

datatype sign_error = SignTooLarge | SignAuthorMismatch

datatype signed_decode_error =
    SignedTooLarge | SignedUnsupportedVersion | SignedWire wire_error | SignedTruncated | SignedTrailingBytes

datatype verify_error =
    VInvalidBound | VTooLarge | VWeakKey | VAuthorMismatch | VAudienceMismatch | VRealmMismatch
  | VRoomMismatch | VEpochMismatch | VSessionMismatch | VExpired | VInvalidSignature | VReplay | VCapacity

record replay_window =
  rw_context :: verification_context
  rw_max_authors :: nat
  rw_last :: "(array32, u64) btree_map"

section \<open>Framing\<close>

definition validate_size :: "signed_envelope \<Rightarrow> sign_error + unit" where
  "validate_size s =
     (if encoded_len (se_envelope s) > MAX_SIGNED_BYTES - SIGNED_OVERHEAD_BYTES then Inl SignTooLarge else Inr ())"

definition encode_unsigned :: "signed_envelope \<Rightarrow> bytes" where
  "encode_unsigned s =
     [SIGNED_VERSION] @ to_be (word_of_nat (encoded_len (se_envelope s)) :: u32)
     @ envelope_encode (se_envelope s) @ to_be (se_audience s) @ to_be (se_epoch s) @ to_be (se_session s)
     @ to_be (se_expires_at s)"

definition signed_envelope_encode :: "signed_envelope \<Rightarrow> sign_error + bytes" where
  "signed_envelope_encode s = bindR (validate_size s) (\<lambda>_. Inr (encode_unsigned s @ to_be (se_signature s)))"

definition signed_envelope_decode :: "bytes \<Rightarrow> signed_decode_error + signed_envelope" where
  "signed_envelope_decode raw =
     (if length raw > MAX_SIGNED_BYTES then Inl SignedTooLarge
      else if raw = [] then Inl SignedTruncated
      else if raw ! 0 \<noteq> SIGNED_VERSION then Inl SignedUnsupportedVersion
      else if length raw < 5 then Inl SignedTruncated
      else
        let envelope_len = unat (from_be (take 4 (drop 1 raw)) :: u32) in
        if envelope_len > MAX_SIGNED_BYTES - SIGNED_OVERHEAD_BYTES then Inl SignedTooLarge
        else
          let envelope_end = 5 + envelope_len; end' = envelope_len + SIGNED_OVERHEAD_BYTES in
          if length raw < end' then Inl SignedTruncated
          else if length raw > end' then Inl SignedTrailingBytes
          else bindR (map_err SignedWire (envelope_decode (take envelope_len (drop 5 raw)))) (\<lambda>e.
            let context = drop envelope_end raw in
            Inr \<lparr>se_envelope = e, se_audience = from_be (take 16 context),
                 se_epoch = from_be (take 8 (drop 16 context)), se_session = from_be (take 16 (drop 24 context)),
                 se_expires_at = from_be (take 8 (drop 40 context)),
                 se_signature = from_be (take 64 (drop 48 context))\<rparr>))"

definition signed_transcript :: "signed_envelope \<Rightarrow> sign_error + bytes" where
  "signed_transcript s = bindR (validate_size s) (\<lambda>_. Inr (SIGNED_DOMAIN @ encode_unsigned s))"

section \<open>Signing\<close>

definition peer_id_from_key :: "crypto \<Rightarrow> array32 \<Rightarrow> u128" where
  "peer_id_from_key C key = from_be (take 16 (to_be (sha256 C (to_be key))))"

definition peer_id_from_seed :: "crypto \<Rightarrow> array32 \<Rightarrow> u128" where
  "peer_id_from_seed C seed = peer_id_from_key C (public_of C seed)"

definition verifying_key_from_seed :: "crypto \<Rightarrow> array32 \<Rightarrow> array32" where
  "verifying_key_from_seed C seed = public_of C seed"

definition sign_envelope_with_key ::
    "crypto \<Rightarrow> envelope \<Rightarrow> u128 \<Rightarrow> u64 \<Rightarrow> u128 \<Rightarrow> u64 \<Rightarrow> array32 \<Rightarrow> sign_error + signed_envelope" where
  "sign_envelope_with_key C e audience epoch session expires_at key =
     (let s = \<lparr>se_envelope = e, se_audience = audience, se_epoch = epoch, se_session = session,
               se_expires_at = expires_at, se_signature = 0\<rparr> in
      bindR (validate_size s) (\<lambda>_.
        if en_author e \<noteq> peer_id_from_key C (public_of C key) then Inl SignAuthorMismatch
        else bindR (signed_transcript s) (\<lambda>t. Inr (s\<lparr>se_signature := sign_bytes C key t\<rparr>))))"

definition sign :: "crypto \<Rightarrow> envelope \<Rightarrow> u128 \<Rightarrow> u64 \<Rightarrow> u128 \<Rightarrow> u64 \<Rightarrow> array32 \<Rightarrow> sign_error + signed_envelope" where
  "sign C e audience epoch session expires_at seed = sign_envelope_with_key C e audience epoch session expires_at seed"

section \<open>Replay admission\<close>

definition replay_new :: "verification_context \<Rightarrow> nat \<Rightarrow> verify_error + replay_window" where
  "replay_new context max_authors =
     (if \<not> (1 \<le> max_authors \<and> max_authors \<le> MAX_REPLAY_AUTHORS) then Inl VInvalidBound
      else Inr \<lparr>rw_context = context, rw_max_authors = max_authors, rw_last = bt_new\<rparr>)"

definition verify_and_accept ::
    "crypto \<Rightarrow> replay_window \<Rightarrow> signed_envelope \<Rightarrow> array32 \<Rightarrow> u64
     \<Rightarrow> verify_error + (replay_window \<times> verified_envelope)" where
  "verify_and_accept C w s key now =
     bindR (map_err (\<lambda>_. VTooLarge) (validate_size s)) (\<lambda>_.
     if key_weak C key then Inl VWeakKey
     else if peer_id_from_key C key \<noteq> en_author (se_envelope s) then Inl VAuthorMismatch
     else if se_audience s \<noteq> vc_audience (rw_context w) then Inl VAudienceMismatch
     else if en_realm (se_envelope s) \<noteq> vc_realm (rw_context w) then Inl VRealmMismatch
     else if en_room (se_envelope s) \<noteq> vc_room (rw_context w) then Inl VRoomMismatch
     else if se_epoch s \<noteq> vc_epoch (rw_context w) then Inl VEpochMismatch
     else if se_session s \<noteq> vc_session (rw_context w) then Inl VSessionMismatch
     else if now > se_expires_at s then Inl VExpired
     else
     bindR (map_err (\<lambda>_. VTooLarge) (signed_transcript s)) (\<lambda>t.
     if \<not> verify_strict C key t (se_signature s) then Inl VInvalidSignature
     else
       let accepted = Inr (w\<lparr>rw_last := bt_insert key (en_sequence (se_envelope s)) (rw_last w)\<rparr>,
             \<lparr>ve_envelope = se_envelope s, ve_signer_key = key, ve_context = rw_context w,
              ve_expires_at = se_expires_at s\<rparr>) in
       case bt_get (rw_last w) key of
         Some previous \<Rightarrow> if en_sequence (se_envelope s) \<le> previous then Inl VReplay else accepted
       | None \<Rightarrow> if length (rw_last w) \<ge> rw_max_authors w then Inl VCapacity else accepted))"

section \<open>The frame codec\<close>

definition signed_envelope_ok :: "signed_envelope \<Rightarrow> bool" where
  "signed_envelope_ok s \<longleftrightarrow> envelope_ok (se_envelope s) \<and> encoded_len (se_envelope s) \<le> MAX_SIGNED_BYTES - SIGNED_OVERHEAD_BYTES"

definition signed_bytes :: "signed_envelope \<Rightarrow> bytes" where
  "signed_bytes s = encode_unsigned s @ to_be (se_signature s)"

lemma validate_size_iff [simp]:
  "validate_size s = Inr u \<longleftrightarrow> encoded_len (se_envelope s) \<le> MAX_SIGNED_BYTES - SIGNED_OVERHEAD_BYTES"
  by (auto simp: validate_size_def)

lemma signed_envelope_encode_iff:
  "signed_envelope_encode s = Inr raw \<longleftrightarrow>
   encoded_len (se_envelope s) \<le> MAX_SIGNED_BYTES - SIGNED_OVERHEAD_BYTES \<and> raw = signed_bytes s"
  by (auto simp: signed_envelope_encode_def signed_bytes_def simp del: MAX_SIGNED_BYTES_def SIGNED_OVERHEAD_BYTES_def)

text \<open>The fixed-width fields of an exact slice.\<close>

lemma context_fields:
  assumes "length xs = 112"
  shows "to_be (from_be (take 16 xs) :: u128) @ to_be (from_be (take 8 (drop 16 xs)) :: u64)
     @ to_be (from_be (take 16 (drop 24 xs)) :: u128) @ to_be (from_be (take 8 (drop 40 xs)) :: u64)
     @ to_be (from_be (take 64 (drop 48 xs)) :: array64) = xs"
proof -
  have 1: "to_be (from_be (take 16 xs) :: u128) @ drop 16 xs = xs"
    using split_word [where 'a = 128, of xs] assms by simp
  have 2: "to_be (from_be (take 8 (drop 16 xs)) :: u64) @ drop 24 xs = drop 16 xs"
    using split_word [where 'a = 64, of "drop 16 xs"] assms by simp
  have 3: "to_be (from_be (take 16 (drop 24 xs)) :: u128) @ drop 40 xs = drop 24 xs"
    using split_word [where 'a = 128, of "drop 24 xs"] assms by simp
  have 4: "to_be (from_be (take 8 (drop 40 xs)) :: u64) @ drop 48 xs = drop 40 xs"
    using split_word [where 'a = 64, of "drop 40 xs"] assms by simp
  have 5: "to_be (from_be (take 64 (drop 48 xs)) :: array64) = drop 48 xs"
    using split_word [where 'a = 512, of "drop 48 xs"] assms by simp
  show ?thesis by (simp only: 5 4 3 2 1)
qed

lemma header_split: "5 \<le> length raw \<Longrightarrow> [raw ! 0] @ to_be (from_be (take 4 (drop 1 raw)) :: u32) @ drop 5 raw = raw"
proof -
  assume "5 \<le> length raw"
  then obtain b bs where raw: "raw = b # bs" "4 \<le> length bs" by (cases raw) auto
  have "to_be (from_be (take 4 bs) :: u32) @ drop 4 bs = bs"
    using split_word [where 'a = 32, of bs] raw(2) by simp
  with raw show ?thesis by simp
qed

interpretation signed_codec: frame_codec signed_bytes signed_envelope_decode signed_envelope_ok
proof
  fix s
  assume ok: "signed_envelope_ok s"
  let ?e = "se_envelope s"
  have n: "unat (word_of_nat (encoded_len ?e) :: u32) = encoded_len ?e"
    using ok by (simp add: signed_envelope_ok_def unat_of_nat)
  have e: "envelope_decode (envelope_encode ?e) = Inr ?e"
    using ok by (intro envelope_codec.dec_enc) (simp add: signed_envelope_ok_def)
  have "length (signed_bytes s) = encoded_len ?e + 117" "signed_bytes s ! 0 = 2" "signed_bytes s \<noteq> []"
    "take 4 (drop 1 (signed_bytes s)) = to_be (word_of_nat (encoded_len ?e) :: u32)"
    "take (encoded_len ?e) (drop 5 (signed_bytes s)) = envelope_encode ?e"
    by (simp_all add: signed_bytes_def encode_unsigned_def length_envelope_encode)
  moreover have "drop (encoded_len ?e) (drop 5 (signed_bytes s))
       = to_be (se_audience s) @ to_be (se_epoch s) @ to_be (se_session s) @ to_be (se_expires_at s) @ to_be (se_signature s)"
    by (simp add: signed_bytes_def encode_unsigned_def length_envelope_encode del: drop_drop)
  then have "drop (5 + encoded_len ?e) (signed_bytes s)
       = to_be (se_audience s) @ to_be (se_epoch s) @ to_be (se_session s) @ to_be (se_expires_at s) @ to_be (se_signature s)"
    by (simp only: drop_drop add.commute)
  ultimately show "signed_envelope_decode (signed_bytes s) = Inr s"
    using ok n e by (simp add: signed_envelope_decode_def signed_envelope_ok_def from_be_to_be Let_def del: drop_drop)
next
  fix raw s
  assume d: "signed_envelope_decode raw = Inr s"
  define len where "len = (from_be (take 4 (drop 1 raw)) :: u32)"
  define ctx where "ctx = drop (5 + unat len) raw"
  from d [unfolded signed_envelope_decode_def Let_def guard_eq_Inr bindR_eq_Inr map_err_eq_Inr sum.inject not_not, folded len_def, folded ctx_def]
  obtain e where b: "raw ! 0 = SIGNED_VERSION" "\<not> length raw < 5"
      "\<not> unat len > MAX_SIGNED_BYTES - SIGNED_OVERHEAD_BYTES"
      "\<not> length raw < unat len + SIGNED_OVERHEAD_BYTES" "\<not> length raw > unat len + SIGNED_OVERHEAD_BYTES"
    and dec: "envelope_decode (take (unat len) (drop 5 raw)) = Inr e"
    and rec: "\<lparr>se_envelope = e, se_audience = from_be (take 16 ctx), se_epoch = from_be (take 8 (drop 16 ctx)),
        se_session = from_be (take 16 (drop 24 ctx)), se_expires_at = from_be (take 8 (drop 40 ctx)),
        se_signature = from_be (take 64 (drop 48 ctx))\<rparr> = s"
    by (elim conjE exE) (rule that)
  have h: "5 \<le> length raw" "raw ! 0 = 2" "unat len \<le> MAX_SIGNED_BYTES - SIGNED_OVERHEAD_BYTES" "length raw = unat len + 117"
    using b by simp_all
  have s: "se_audience s = from_be (take 16 ctx)" "se_epoch s = from_be (take 8 (drop 16 ctx))"
      "se_session s = from_be (take 16 (drop 24 ctx))" "se_expires_at s = from_be (take 8 (drop 40 ctx))"
      "se_signature s = from_be (take 64 (drop 48 ctx))"
    and e: "envelope_decode (take (unat len) (drop 5 raw)) = Inr (se_envelope s)"
    using dec by (simp_all flip: rec)
  have ee: "envelope_ok (se_envelope s)" "envelope_encode (se_envelope s) = take (unat len) (drop 5 raw)"
    using e by (simp_all add: envelope_codec.dec_iff)
  then have n: "encoded_len (se_envelope s) = unat len"
    using h(4) by (simp flip: length_envelope_encode)
  have "length ctx = 112" using h(4) by (simp add: ctx_def)
  note c = context_fields [OF this, folded s]
  have "drop 5 raw = take (unat len) (drop 5 raw) @ ctx"
    using append_take_drop_id [of "unat len" "drop 5 raw"] by (simp add: ctx_def add.commute)
  then have "raw = [2] @ to_be len @ envelope_encode (se_envelope s) @ ctx"
    using header_split [OF h(1)] h(2) ee(2) by (simp add: len_def)
  moreover have "(word_of_nat (encoded_len (se_envelope s)) :: u32) = len" by (simp add: n)
  ultimately show "signed_envelope_ok s \<and> signed_bytes s = raw"
    using ee(1) n h(3) c by (simp add: signed_envelope_ok_def signed_bytes_def encode_unsigned_def)
qed

section \<open>The replay window as a guard\<close>

text \<open>The transcript a signature covers, for envelopes within the size bound.\<close>

definition signed_message :: "signed_envelope \<Rightarrow> bytes" where
  "signed_message s = SIGNED_DOMAIN @ encode_unsigned s"

text \<open>Every check of \<open>verify_and_accept\<close> before it looks at the window's memory.\<close>

definition envelope_authentic :: "crypto \<Rightarrow> verification_context \<Rightarrow> signed_envelope \<Rightarrow> array32 \<Rightarrow> u64 \<Rightarrow> bool" where
  "envelope_authentic C ctx s key now \<longleftrightarrow>
     encoded_len (se_envelope s) \<le> MAX_SIGNED_BYTES - SIGNED_OVERHEAD_BYTES
     \<and> \<not> key_weak C key \<and> en_author (se_envelope s) = peer_id_from_key C key
     \<and> ctx = \<lparr>vc_audience = se_audience s, vc_realm = en_realm (se_envelope s), vc_room = en_room (se_envelope s),
             vc_epoch = se_epoch s, vc_session = se_session s\<rparr>
     \<and> now \<le> se_expires_at s \<and> verify_strict C key (signed_message s) (se_signature s)"

definition accepted_window :: "replay_window \<Rightarrow> signed_envelope \<Rightarrow> array32 \<Rightarrow> replay_window" where
  "accepted_window w s key = w\<lparr>rw_last := bt_insert key (en_sequence (se_envelope s)) (rw_last w)\<rparr>"

definition evidence_of :: "replay_window \<Rightarrow> signed_envelope \<Rightarrow> array32 \<Rightarrow> verified_envelope" where
  "evidence_of w s key = \<lparr>ve_envelope = se_envelope s, ve_signer_key = key, ve_context = rw_context w,
     ve_expires_at = se_expires_at s\<rparr>"

definition window_ok :: "replay_window \<Rightarrow> bool" where
  "window_ok w \<longleftrightarrow> bt_ok (rw_last w) \<and> length (rw_last w) \<le> rw_max_authors w \<and> rw_max_authors w \<le> MAX_REPLAY_AUTHORS"

lemma verify_and_accept_iff:
  "verify_and_accept C w s key now = Inr (w', ev) \<longleftrightarrow>
   envelope_authentic C (rw_context w) s key now
   \<and> (case bt_get (rw_last w) key of
        Some q \<Rightarrow> q < en_sequence (se_envelope s)
      | None \<Rightarrow> length (rw_last w) < rw_max_authors w)
   \<and> w' = accepted_window w s key \<and> ev = evidence_of w s key"
  unfolding verify_and_accept_def envelope_authentic_def signed_transcript_def signed_message_def accepted_window_def
    evidence_of_def
  by (cases "rw_context w"; cases "bt_get (rw_last w) key")
     (auto simp: Let_def not_le simp del: MAX_SIGNED_BYTES_def SIGNED_OVERHEAD_BYTES_def)

text \<open>A delivery is a frame with the key it is checked under and the clock reading.\<close>

type_synonym delivery = "signed_envelope \<times> array32 \<times> u64"

definition window_admit :: "crypto \<Rightarrow> replay_window \<Rightarrow> delivery \<Rightarrow> verify_error + replay_window" where
  "window_admit C w d = bindR (verify_and_accept C w (fst d) (fst (snd d)) (snd (snd d))) (\<lambda>(w', _). Inr w')"

lemma window_admit_iff:
  "window_admit C w d = Inr w' \<longleftrightarrow> (\<exists>ev. verify_and_accept C w (fst d) (fst (snd d)) (snd (snd d)) = Inr (w', ev))"
  by (auto simp: window_admit_def)

lemma window_ok_new: "replay_new ctx n = Inr w \<Longrightarrow> window_ok w \<and> rw_context w = ctx \<and> rw_last w = bt_new"
  by (auto simp: replay_new_def window_ok_def bt_new_def bt_ok_def split: if_splits)

lemma window_ok_step: "window_ok w \<Longrightarrow> window_admit C w d = Inr w' \<Longrightarrow> window_ok w'"
  by (auto simp: window_admit_iff verify_and_accept_iff window_ok_def accepted_window_def btree.length_insert
      split: option.splits)

interpretation replay: replay_guard "window_admit C" "\<lambda>d. fst (snd d)" "\<lambda>d. en_sequence (se_envelope (fst d))"
  "\<lambda>w. bt_get (rw_last w)" window_ok for C
proof
  fix w w' d
  assume ok: "window_ok w" and admit: "window_admit C w d = Inr w'"
  then show "window_ok w'" by (rule window_ok_step)
  show "r < en_sequence (se_envelope (fst d))" if "bt_get (rw_last w) (fst (snd d)) = Some r" for r
    using that admit by (auto simp: window_admit_iff verify_and_accept_iff)
  show "bt_get (rw_last w') = (bt_get (rw_last w))(fst (snd d) \<mapsto> en_sequence (se_envelope (fst d)))"
    using ok admit
    by (auto simp: window_admit_iff verify_and_accept_iff window_ok_def accepted_window_def fun_eq_iff)
qed

end
