(* ===== verification/Claims.thy ===== *)
theory Claims
  imports Signed_Envelope
begin

text \<open>
  \<open>crates/vhalla-crypto/src/claims.rs\<close>: typed signed claims, their canonical length-prefixed
  encoding, context verification, and the bounded window that admits a claim once per scope and
  sequence and tells a replay from an equivocation. \<open>read_u64\<close>, \<open>read_u128\<close> and \<open>read_exact\<close> on a
  moving offset are readers of the bytes that remain.
\<close>

section \<open>Data\<close>

definition CLAIM_TRANSCRIPT_DOMAIN :: bytes where "CLAIM_TRANSCRIPT_DOMAIN = ascii ''vhalla/signed-claim/v1''"
definition CLAIM_VERSION :: u8 where [simp]: "CLAIM_VERSION = 1"
definition MAX_SIGNED_CLAIM_BYTES :: nat where [simp]: "MAX_SIGNED_CLAIM_BYTES = 256"
definition DEFAULT_REPLAY_LIMIT :: nat where [simp]: "DEFAULT_REPLAY_LIMIT = 1024"

datatype claim_domain = DomSession | DomProvenance | DomCapability | DomReceipt

fun domain_byte :: "claim_domain \<Rightarrow> u8" where
  "domain_byte DomSession = 1"
| "domain_byte DomProvenance = 2"
| "domain_byte DomCapability = 3"
| "domain_byte DomReceipt = 4"

fun domain_label :: "claim_domain \<Rightarrow> bytes" where
  "domain_label DomSession = ascii ''session''"
| "domain_label DomProvenance = ascii ''provenance''"
| "domain_label DomCapability = ascii ''capability''"
| "domain_label DomReceipt = ascii ''receipt''"

definition domain_from_wire :: "u8 \<Rightarrow> claim_domain option" where
  "domain_from_wire b =
     (if b = 1 then Some DomSession else if b = 2 then Some DomProvenance
      else if b = 3 then Some DomCapability else if b = 4 then Some DomReceipt else None)"

text \<open>The derived order of the enum is the order of its discriminants.\<close>

lemma domain_byte_inject: "domain_byte a = domain_byte b \<longleftrightarrow> a = b"
  by (cases a; cases b) simp_all

instantiation claim_domain :: linorder
begin

definition less_eq_claim_domain :: "claim_domain \<Rightarrow> claim_domain \<Rightarrow> bool" where
  "less_eq_claim_domain a b \<longleftrightarrow> domain_byte a \<le> domain_byte b"

definition less_claim_domain :: "claim_domain \<Rightarrow> claim_domain \<Rightarrow> bool" where
  "less_claim_domain a b \<longleftrightarrow> domain_byte a < domain_byte b"

instance
  by standard (auto simp: less_eq_claim_domain_def less_claim_domain_def simp flip: domain_byte_inject)

end

record claim_context =
  cx_domain :: claim_domain
  cx_realm :: u128
  cx_session :: u128
  cx_audience :: u128
  cx_epoch :: u64

record claim =
  cl_domain :: claim_domain
  cl_realm :: u128
  cl_session :: u128
  cl_subject :: array32
  cl_sequence :: u64
  cl_epoch :: u64
  cl_issued_at :: u64
  cl_expires_at :: u64
  cl_audience :: u128

record signed_claim =
  sc_claim :: claim
  sc_issuer :: u128
  sc_signature :: array64

datatype claim_build_error = BuildInvalidLifetime

datatype claim_decode_error =
    ClaimTooLarge | ClaimTruncated | ClaimUnsupportedVersion | ClaimUnknownDomain | ClaimInvalidLength
  | ClaimInvalidLifetime | ClaimTrailingBytes

datatype claim_verify_error =
    CWeakKey | CIssuerMismatch | CDomainMismatch | CRealmMismatch | CSessionMismatch | CAudienceMismatch
  | CEpochMismatch | CNotYetValid | CInvalidLifetime | CExpired | CInvalidSignature | CReplay | CEquivocation
  | CCapacity

text \<open>\<open>ReplayScope\<close> is a map key, ordered field by field: a tuple under the lexicographic order.\<close>

type_synonym replay_scope = "claim_domain \<times> u128 \<times> u128 \<times> u128 \<times> array32"

record accepted_claim =
  ac_epoch :: u64
  ac_sequence :: u64
  ac_digest :: array32

record claim_window =
  cw_accepted :: "(replay_scope, accepted_claim) btree_map"
  cw_limit :: nat

section \<open>Encoding\<close>

definition claim_new :: "claim_context \<Rightarrow> array32 \<Rightarrow> u64 \<Rightarrow> u64 \<Rightarrow> u64 \<Rightarrow> claim_build_error + claim" where
  "claim_new cx subject sq issued_at expires_at =
     (if expires_at \<le> issued_at then Inl BuildInvalidLifetime
      else Inr \<lparr>cl_domain = cx_domain cx, cl_realm = cx_realm cx, cl_session = cx_session cx, cl_subject = subject,
                cl_sequence = sq, cl_epoch = cx_epoch cx, cl_issued_at = issued_at, cl_expires_at = expires_at,
                cl_audience = cx_audience cx\<rparr>)"

definition claim_encode :: "claim \<Rightarrow> bytes" where
  "claim_encode c =
     [CLAIM_VERSION] @ [domain_byte (cl_domain c)] @ to_be (word_of_nat (length (domain_label (cl_domain c))) :: u16)
     @ domain_label (cl_domain c) @ to_be (cl_realm c) @ to_be (cl_session c) @ to_be (cl_subject c)
     @ to_be (cl_sequence c) @ to_be (cl_epoch c) @ to_be (cl_issued_at c) @ to_be (cl_expires_at c)
     @ to_be (cl_audience c)"

definition claim_read :: "(claim_decode_error, 'a::len word) reader" where
  "claim_read = rd_word ClaimTruncated"

definition claim_decode :: "bytes \<Rightarrow> claim_decode_error + claim" where
  "claim_decode raw =
     (if length raw > MAX_SIGNED_CLAIM_BYTES \<or> length raw < 1 + 1 + 2 + 16 + 16 + 32 + 8 + 8 + 8 + 8 + 16
      then Inl (if length raw > MAX_SIGNED_CLAIM_BYTES then ClaimTooLarge else ClaimTruncated)
      else if raw ! 0 \<noteq> CLAIM_VERSION then Inl ClaimUnsupportedVersion
      else
     bindR (ok_or ClaimUnknownDomain (domain_from_wire (raw ! 1))) (\<lambda>domain.
       let label_len = unat (from_be [raw ! 2, raw ! 3] :: u16) in
       if label_len \<noteq> length (domain_label domain) then Inl ClaimInvalidLength
       else if 4 + label_len > length raw \<or> take label_len (drop 4 raw) \<noteq> domain_label domain
       then Inl ClaimInvalidLength
       else
     bindR (claim_read (drop (4 + label_len) raw)) (\<lambda>(realm, bs).
     bindR (claim_read bs) (\<lambda>(session, bs).
     bindR (claim_read bs) (\<lambda>(subject, bs).
     bindR (claim_read bs) (\<lambda>(sq, bs).
     bindR (claim_read bs) (\<lambda>(epoch, bs).
     bindR (claim_read bs) (\<lambda>(issued_at, bs).
     bindR (claim_read bs) (\<lambda>(expires_at, bs).
     bindR (claim_read bs) (\<lambda>(audience, bs).
       if bs \<noteq> [] then Inl ClaimTrailingBytes
       else map_err (\<lambda>_. ClaimInvalidLifetime)
         (claim_new \<lparr>cx_domain = domain, cx_realm = realm, cx_session = session, cx_audience = audience,
                     cx_epoch = epoch\<rparr> subject sq issued_at expires_at)))))))))))"

definition signed_claim_encode :: "signed_claim \<Rightarrow> bytes" where
  "signed_claim_encode s =
     to_be (word_of_nat (length (claim_encode (sc_claim s))) :: u32) @ claim_encode (sc_claim s)
     @ to_be (sc_issuer s) @ to_be (sc_signature s)"

definition signed_claim_decode :: "bytes \<Rightarrow> claim_decode_error + signed_claim" where
  "signed_claim_decode raw =
     (if length raw > MAX_SIGNED_CLAIM_BYTES then Inl ClaimTooLarge
      else if length raw < 4 then Inl ClaimTruncated
      else
        let claim_len = unat (from_be (take 4 raw) :: u32); claim_end = 4 + claim_len; fixed_end = claim_end + (16 + 64) in
        if length raw < fixed_end then Inl ClaimTruncated
        else if length raw > fixed_end then Inl ClaimTrailingBytes
        else bindR (claim_decode (take claim_len (drop 4 raw))) (\<lambda>c.
          Inr \<lparr>sc_claim = c, sc_issuer = from_be (take 16 (drop claim_end raw)),
               sc_signature = from_be (take 64 (drop (claim_end + 16) raw))\<rparr>))"

section \<open>Signing and verification\<close>

definition claim_transcript :: "signed_claim \<Rightarrow> bytes" where
  "claim_transcript s =
     CLAIM_TRANSCRIPT_DOMAIN @ to_be (word_of_nat (length (claim_encode (sc_claim s))) :: u32)
     @ claim_encode (sc_claim s) @ to_be (sc_issuer s)"

definition claim_digest :: "crypto \<Rightarrow> signed_claim \<Rightarrow> array32" where
  "claim_digest C s = sha256 C (claim_transcript s)"

definition sign_claim :: "crypto \<Rightarrow> claim \<Rightarrow> array32 \<Rightarrow> signed_claim" where
  "sign_claim C c seed =
     (let s = \<lparr>sc_claim = c, sc_issuer = peer_id_from_key C (public_of C seed), sc_signature = 0\<rparr> in
      s\<lparr>sc_signature := sign_bytes C seed (claim_transcript s)\<rparr>)"

definition verify_context :: "crypto \<Rightarrow> signed_claim \<Rightarrow> array32 \<Rightarrow> claim_context \<Rightarrow> u64 \<Rightarrow> claim_verify_error + unit" where
  "verify_context C s key cx now =
     (let c = sc_claim s in
      if key_weak C key then Inl CWeakKey
      else if cl_expires_at c \<le> cl_issued_at c then Inl CInvalidLifetime
      else if peer_id_from_key C key \<noteq> sc_issuer s then Inl CIssuerMismatch
      else if cl_domain c \<noteq> cx_domain cx then Inl CDomainMismatch
      else if cl_realm c \<noteq> cx_realm cx then Inl CRealmMismatch
      else if cl_session c \<noteq> cx_session cx then Inl CSessionMismatch
      else if cl_audience c \<noteq> cx_audience cx then Inl CAudienceMismatch
      else if cl_epoch c \<noteq> cx_epoch cx then Inl CEpochMismatch
      else if now < cl_issued_at c then Inl CNotYetValid
      else if now > cl_expires_at c then Inl CExpired
      else Inr ())"

definition claim_verify :: "crypto \<Rightarrow> signed_claim \<Rightarrow> array32 \<Rightarrow> claim_context \<Rightarrow> u64 \<Rightarrow> claim_verify_error + unit" where
  "claim_verify C s key cx now =
     bindR (verify_context C s key cx now) (\<lambda>_.
       if verify_strict C key (claim_transcript s) (sc_signature s) then Inr () else Inl CInvalidSignature)"

section \<open>The window\<close>

definition claim_window_new :: claim_window where
  "claim_window_new = \<lparr>cw_accepted = bt_new, cw_limit = DEFAULT_REPLAY_LIMIT\<rparr>"

definition claim_window_with_limit :: "nat \<Rightarrow> claim_window" where
  "claim_window_with_limit limit = \<lparr>cw_accepted = bt_new, cw_limit = min limit DEFAULT_REPLAY_LIMIT\<rparr>"

definition claim_scope :: "signed_claim \<Rightarrow> array32 \<Rightarrow> replay_scope" where
  "claim_scope s key =
     (cl_domain (sc_claim s), cl_realm (sc_claim s), cl_session (sc_claim s), cl_audience (sc_claim s), key)"

definition claim_accept ::
    "crypto \<Rightarrow> claim_window \<Rightarrow> signed_claim \<Rightarrow> array32 \<Rightarrow> claim_context \<Rightarrow> u64 \<Rightarrow> claim_verify_error + claim_window" where
  "claim_accept C w s key cx now =
     bindR (claim_verify C s key cx now) (\<lambda>_.
       let sc = claim_scope s key;
           acc = \<lparr>ac_epoch = cl_epoch (sc_claim s), ac_sequence = cl_sequence (sc_claim s), ac_digest = claim_digest C s\<rparr>;
           insert = Inr (w\<lparr>cw_accepted := bt_insert sc acc (cw_accepted w)\<rparr>) in
       case bt_get (cw_accepted w) sc of
         None \<Rightarrow> if length (cw_accepted w) \<ge> cw_limit w then Inl CCapacity else insert
       | Some previous \<Rightarrow>
           if ac_epoch acc < ac_epoch previous then Inl CReplay
           else if ac_epoch acc > ac_epoch previous then insert
           else if ac_sequence acc < ac_sequence previous then Inl CReplay
           else if ac_sequence acc > ac_sequence previous then insert
           else if ac_digest acc = ac_digest previous then Inl CReplay
           else Inl CEquivocation)"

section \<open>The codecs are exact\<close>

definition claim_ok :: "claim \<Rightarrow> bool" where
  "claim_ok c \<longleftrightarrow> cl_issued_at c < cl_expires_at c"

lemma domain_from_wire_iff: "domain_from_wire b = Some d \<longleftrightarrow> b = domain_byte d"
  by (cases d) (auto simp: domain_from_wire_def)

lemma domain_label_length: "length (domain_label d) = (if d \<in> {DomProvenance, DomCapability} then 10 else 7)"
  by (cases d) (simp_all add: ascii_def)

lemma domain_label_u16: "unat (word_of_nat (length (domain_label d)) :: u16) = length (domain_label d)"
  by (simp add: domain_label_length)

lemma length_claim_encode: "length (claim_encode c) = 116 + length (domain_label (cl_domain c))"
  by (simp add: claim_encode_def)

definition claim_fields :: "claim \<Rightarrow> bytes" where
  "claim_fields c = to_be (cl_realm c) @ to_be (cl_session c) @ to_be (cl_subject c)
     @ to_be (cl_sequence c) @ to_be (cl_epoch c) @ to_be (cl_issued_at c) @ to_be (cl_expires_at c) @ to_be (cl_audience c)"

lemma header4:
  assumes "4 \<le> length raw"
  shows "raw = [raw ! 0, raw ! 1] @ to_be (from_be [raw ! 2, raw ! 3] :: u16) @ drop 4 raw"
proof -
  have ne: "raw \<noteq> []" using assms by auto
  have "to_be (from_be [raw ! 2, raw ! 3] :: u16) = [raw ! 2, raw ! 3]" by (intro to_be_from_be) simp
  moreover have "raw = raw ! 0 # raw ! 1 # raw ! 2 # raw ! 3 # drop 4 raw"
    using assms ne Cons_nth_drop_Suc [of 0 raw] Cons_nth_drop_Suc [of 1 raw] Cons_nth_drop_Suc [of 2 raw]
      Cons_nth_drop_Suc [of 3 raw] by (simp add: numeral_2_eq_2 numeral_3_eq_3 eval_nat_numeral)
  ultimately show ?thesis by simp
qed

lemma pair_of_length: "length xs = 2 \<Longrightarrow> \<exists>x y. xs = [x, y]"
  by (cases xs; cases "tl xs") auto

lemma claim_decode_encode:
  assumes ok: "claim_ok c"
  shows "claim_decode (claim_encode c) = Inr c"
proof -
  define l raw where "l = domain_label (cl_domain c)" and "raw = claim_encode c"
  obtain x y where xy: "to_be (word_of_nat (length l) :: u16) = [x, y]"
    using pair_of_length [of "to_be (word_of_nat (length l) :: u16)"] by auto
  have n: "unat (from_be [x, y] :: u16) = length l"
    using from_be_to_be [where 'a = 16, of "word_of_nat (length l)"] domain_label_u16 [of "cl_domain c", folded l_def]
    by (simp add: xy)
  have raw: "raw = [1, domain_byte (cl_domain c), x, y] @ l @ claim_fields c"
    by (simp add: raw_def claim_encode_def claim_fields_def l_def [symmetric] xy)
  have "length l \<le> 10" by (simp add: l_def domain_label_length)
  then have "116 \<le> length raw" "length raw \<le> 256" "4 + length l \<le> length raw"
    by (simp_all add: raw claim_fields_def)
  moreover have "raw ! 0 = 1" "raw ! 1 = domain_byte (cl_domain c)" "raw ! 2 = x" "raw ! 3 = y"
    "take (length l) (drop 4 raw) = l" "drop (4 + length l) raw = claim_fields c"
    by (simp_all add: raw drop_Cons split: nat.splits)
  moreover have "rd_word ClaimTruncated (to_be (cl_audience c)) = Inr (cl_audience c, [])"
    using rd_word_to_be [where 'a = 128, of ClaimTruncated "cl_audience c" "[]"] by simp
  ultimately show ?thesis
    using ok n unfolding raw_def [symmetric] claim_decode_def claim_read_def claim_fields_def
    by (simp add: l_def domain_from_wire_iff domain_byte_inject word_get_put claim_new_def claim_ok_def Let_def)
qed

lemma claim_decode_Inr:
  assumes "claim_decode raw = Inr c"
  shows "claim_ok c \<and> claim_encode c = raw"
proof -
  define len where "len = (from_be [raw ! 2, raw ! 3] :: u16)"
  from assms [unfolded claim_decode_def Let_def guard_eq_Inr bindR_eq_Inr ok_or_eq_Inr map_err_eq_Inr split_paired_Ex
      prod.case claim_read_def word_get_iff not_not de_Morgan_disj, folded len_def]
  obtain d realm session subject sq epoch issued expires audience bs1 bs2 bs3 bs4 bs5 bs6 bs7 bs8
    where h: "\<not> length raw < 1 + 1 + 2 + 16 + 16 + 32 + 8 + 8 + 8 + 8 + 16" "raw ! 0 = CLAIM_VERSION"
    and dom: "domain_from_wire (raw ! 1) = Some d"
    and lab: "unat len = length (domain_label d)" "take (unat len) (drop 4 raw) = domain_label d"
    and rest: "drop (4 + unat len) raw = to_be (realm :: u128) @ bs1" "bs1 = to_be (session :: u128) @ bs2"
      "bs2 = to_be (subject :: array32) @ bs3" "bs3 = to_be (sq :: u64) @ bs4" "bs4 = to_be (epoch :: u64) @ bs5"
      "bs5 = to_be (issued :: u64) @ bs6" "bs6 = to_be (expires :: u64) @ bs7" "bs7 = to_be (audience :: u128) @ bs8" "bs8 = []"
    and new: "claim_new \<lparr>cx_domain = d, cx_realm = realm, cx_session = session, cx_audience = audience, cx_epoch = epoch\<rparr>
        subject sq issued expires = Inr c"
    by (elim conjE exE) (rule that)
  have c: "claim_ok c" "cl_domain c = d" "drop (4 + unat len) raw = claim_fields c"
    using new rest by (auto simp: claim_new_def claim_ok_def claim_fields_def split: if_splits)
  have "drop 4 raw = domain_label d @ claim_fields c"
    using append_take_drop_id [of "unat len" "drop 4 raw"] lab(2) c(3) by (simp add: add.commute)
  moreover have "raw = [1, domain_byte d] @ to_be len @ drop 4 raw"
    using header4 [of raw] h dom by (simp add: len_def domain_from_wire_iff)
  moreover have "word_of_nat (length (domain_label d)) = len" by (simp flip: lab(1))
  ultimately show ?thesis using c by (simp add: claim_encode_def claim_fields_def)
qed

interpretation claim_codec: frame_codec claim_encode claim_decode claim_ok
  using claim_decode_encode claim_decode_Inr by unfold_locales

definition signed_claim_ok :: "signed_claim \<Rightarrow> bool" where
  "signed_claim_ok s = claim_ok (sc_claim s)"

interpretation signed_claim_codec: frame_codec signed_claim_encode signed_claim_decode signed_claim_ok
proof
  fix s
  assume ok: "signed_claim_ok s"
  let ?c = "claim_encode (sc_claim s)" and ?raw = "signed_claim_encode s"
  have len: "length ?c \<le> 126" by (simp add: length_claim_encode domain_label_length)
  then have n: "unat (word_of_nat (length ?c) :: u32) = length ?c" by (simp add: unat_of_nat)
  have "length ?raw = length ?c + 84" "take 4 ?raw = to_be (word_of_nat (length ?c) :: u32)"
    "take (length ?c) (drop 4 ?raw) = ?c"
    by (simp_all add: signed_claim_encode_def)
  moreover have t: "drop (4 + length ?c) ?raw = to_be (sc_issuer s) @ to_be (sc_signature s)"
    by (simp add: signed_claim_encode_def)
  moreover have "drop (4 + length ?c + 16) ?raw = to_be (sc_signature s)"
    using arg_cong [OF t, of "drop 16"] by (simp add: add.commute)
  ultimately show "signed_claim_decode ?raw = Inr s"
    using len n claim_decode_encode ok by (simp add: signed_claim_decode_def Let_def from_be_to_be signed_claim_ok_def)
next
  fix raw s
  assume d: "signed_claim_decode raw = Inr s"
  define len where "len = (from_be (take 4 raw) :: u32)"
  from d [unfolded signed_claim_decode_def Let_def guard_eq_Inr bindR_eq_Inr sum.inject, folded len_def]
  obtain c where h: "\<not> length raw < 4" "\<not> length raw < 4 + unat len + (16 + 64)" "\<not> length raw > 4 + unat len + (16 + 64)"
    and c: "claim_decode (take (unat len) (drop 4 raw)) = Inr c"
    and rec: "\<lparr>sc_claim = c, sc_issuer = from_be (take 16 (drop (4 + unat len) raw)),
        sc_signature = from_be (take 64 (drop (4 + unat len + 16) raw))\<rparr> = s"
    by (elim conjE exE) (rule that)
  define tl where "tl = drop (4 + unat len) raw"
  have l: "length tl = 80" using h by (simp add: tl_def)
  have "drop (4 + unat len + 16) raw = drop 16 tl" by (simp add: tl_def add.commute)
  moreover have "to_be (from_be (take 64 (drop 16 tl)) :: array64) = drop 16 tl"
    using split_word [where 'a = 512, of "drop 16 tl"] l by simp
  ultimately have tl: "to_be (sc_issuer s) @ to_be (sc_signature s) = tl"
    using split_word [where 'a = 128, of tl] l by (simp flip: rec tl_def)
  have cc: "claim_ok (sc_claim s)" "claim_encode (sc_claim s) = take (unat len) (drop 4 raw)"
    using c by (simp_all add: claim_codec.dec_iff flip: rec)
  then have n: "word_of_nat (length (claim_encode (sc_claim s))) = len" using h by simp
  have "raw = to_be len @ drop 4 raw" using split_word [where 'a = 32, of raw] h by (simp add: len_def)
  also have "drop 4 raw = claim_encode (sc_claim s) @ tl"
    using append_take_drop_id [of "unat len" "drop 4 raw"] cc(2) by (simp add: tl_def add.commute)
  finally show "signed_claim_ok s \<and> signed_claim_encode s = raw"
    using cc(1) n tl by (simp add: signed_claim_encode_def signed_claim_ok_def)
qed

section \<open>The window as a guard\<close>

definition claim_authentic :: "crypto \<Rightarrow> signed_claim \<Rightarrow> array32 \<Rightarrow> claim_context \<Rightarrow> u64 \<Rightarrow> bool" where
  "claim_authentic C s key cx now \<longleftrightarrow>
     \<not> key_weak C key \<and> claim_ok (sc_claim s) \<and> sc_issuer s = peer_id_from_key C key
     \<and> cx = \<lparr>cx_domain = cl_domain (sc_claim s), cx_realm = cl_realm (sc_claim s), cx_session = cl_session (sc_claim s),
            cx_audience = cl_audience (sc_claim s), cx_epoch = cl_epoch (sc_claim s)\<rparr>
     \<and> cl_issued_at (sc_claim s) \<le> now \<and> now \<le> cl_expires_at (sc_claim s)
     \<and> verify_strict C key (claim_transcript s) (sc_signature s)"

lemma claim_verify_iff: "claim_verify C s key cx now = Inr u \<longleftrightarrow> claim_authentic C s key cx now"
  by (cases cx) (auto simp: claim_verify_def verify_context_def claim_authentic_def claim_ok_def Let_def)

definition claim_rank :: "signed_claim \<Rightarrow> u64 \<times> u64" where
  "claim_rank s = (cl_epoch (sc_claim s), cl_sequence (sc_claim s))"

definition claim_entry :: "crypto \<Rightarrow> signed_claim \<Rightarrow> accepted_claim" where
  "claim_entry C s =
     \<lparr>ac_epoch = cl_epoch (sc_claim s), ac_sequence = cl_sequence (sc_claim s), ac_digest = claim_digest C s\<rparr>"

definition entry_rank :: "accepted_claim \<Rightarrow> u64 \<times> u64" where
  "entry_rank a = (ac_epoch a, ac_sequence a)"

lemma claim_accept_iff:
  "claim_accept C w s key cx now = Inr w' \<longleftrightarrow>
   claim_authentic C s key cx now
   \<and> (case bt_get (cw_accepted w) (claim_scope s key) of
        None \<Rightarrow> length (cw_accepted w) < cw_limit w
      | Some previous \<Rightarrow> entry_rank previous < claim_rank s)
   \<and> w' = w\<lparr>cw_accepted := bt_insert (claim_scope s key) (claim_entry C s) (cw_accepted w)\<rparr>"
  unfolding claim_accept_def bindR_eq_Inr claim_verify_iff
  by (cases "bt_get (cw_accepted w) (claim_scope s key)")
     (auto simp: Let_def claim_entry_def entry_rank_def claim_rank_def less_prod_def)

text \<open>What happens to an authentic claim is decided by its rank, and by its digest at an equal rank.\<close>

lemma claim_accept_authentic:
  assumes "claim_authentic C s key cx now"
  shows "claim_accept C w s key cx now =
    (let accepted = w\<lparr>cw_accepted := bt_insert (claim_scope s key) (claim_entry C s) (cw_accepted w)\<rparr> in
     case bt_get (cw_accepted w) (claim_scope s key) of
       None \<Rightarrow> if length (cw_accepted w) < cw_limit w then Inr accepted else Inl CCapacity
     | Some previous \<Rightarrow>
         if entry_rank previous < claim_rank s then Inr accepted
         else if entry_rank previous = claim_rank s \<and> ac_digest previous \<noteq> claim_digest C s then Inl CEquivocation
         else Inl CReplay)"
  using assms claim_verify_iff [of C s key cx now "()"]
  by (cases "bt_get (cw_accepted w) (claim_scope s key)")
     (auto simp: claim_accept_def claim_entry_def entry_rank_def claim_rank_def less_prod_def Let_def)

definition claim_window_ok :: "claim_window \<Rightarrow> bool" where
  "claim_window_ok w \<longleftrightarrow> bt_ok (cw_accepted w) \<and> length (cw_accepted w) \<le> cw_limit w \<and> cw_limit w \<le> DEFAULT_REPLAY_LIMIT"

lemma claim_window_ok_new: "claim_window_ok claim_window_new" "claim_window_ok (claim_window_with_limit n)"
  by (simp_all add: claim_window_ok_def claim_window_new_def claim_window_with_limit_def bt_new_def bt_ok_def)

type_synonym claim_delivery = "signed_claim \<times> array32 \<times> claim_context \<times> u64"

definition claim_admit :: "crypto \<Rightarrow> claim_window \<Rightarrow> claim_delivery \<Rightarrow> claim_verify_error + claim_window" where
  "claim_admit C w d = (case d of (s, key, cx, now) \<Rightarrow> claim_accept C w s key cx now)"

interpretation claims: replay_guard "claim_admit C" "\<lambda>(s, key, _). claim_scope s key" "\<lambda>(s, _). claim_rank s"
  "\<lambda>w k. map_option entry_rank (bt_get (cw_accepted w) k)" claim_window_ok for C
proof
  fix w w' d
  assume ok: "claim_window_ok w" and "claim_admit C w d = Inr w'"
  moreover obtain s key cx now where d: "d = (s, key, cx, now)" by (cases d)
  ultimately have a: "claim_accept C w s key cx now = Inr w'" by (simp add: claim_admit_def)
  show "claim_window_ok w'"
    using ok a by (auto simp: claim_accept_iff claim_window_ok_def btree.length_insert split: option.splits)
  show "r < (case d of (s, _) \<Rightarrow> claim_rank s)"
    if "map_option entry_rank (bt_get (cw_accepted w) (case d of (s, key, _) \<Rightarrow> claim_scope s key)) = Some r" for r
    using that a by (auto simp: claim_accept_iff d)
  have "entry_rank (claim_entry C s) = claim_rank s" by (simp add: entry_rank_def claim_entry_def claim_rank_def)
  then show "(\<lambda>k. map_option entry_rank (bt_get (cw_accepted w') k))
      = (\<lambda>k. map_option entry_rank (bt_get (cw_accepted w) k))
          (case d of (s, key, _) \<Rightarrow> claim_scope s key \<mapsto> case d of (s, _) \<Rightarrow> claim_rank s)"
    using ok a by (auto simp: claim_accept_iff claim_window_ok_def d fun_eq_iff)
qed

section \<open>Property\<close>

lemma claim_run_authentic:
  "(s, key, cx, now) \<in> set (snd (guard_run (claim_admit C) w ds)) \<Longrightarrow> claim_authentic C s key cx now"
proof (induction ds arbitrary: w)
  case Nil
  then show ?case by simp
next
  case (Cons d ds)
  then show ?case
  proof (cases "claim_admit C w d")
    case (Inr w')
    obtain s0 key0 cx0 now0 where d: "d = (s0, key0, cx0, now0)" by (cases d)
    then have "claim_authentic C s0 key0 cx0 now0" using Inr by (simp add: claim_admit_def claim_accept_iff)
    then show ?thesis using Cons.prems Cons.IH [of w'] Inr d by (auto split: prod.splits)
  qed simp
qed

text \<open>
  C16. The claim window admits a claim once and names an equivocation. Signed claims are canonical: a
  byte string decodes exactly when it is the encoding of a claim with a nonempty lifetime. Present any
  claims to a new window: those admitted are authentic for the context they were checked under, per scope
  (domain, realm, session, audience and full issuer key) in strictly increasing epoch and sequence, hence
  never twice, and at most the limit, itself at most 1024, of scopes is retained. The next authentic
  claim is admitted exactly when its epoch and sequence lie beyond the retained ones of its scope, or the
  scope is new and the limit not reached; the retained epoch and sequence with another digest is reported
  as an equivocation and everything else as a replay.
\<close>

theorem claims_admitted_once:
  assumes "guard_run (claim_admit C) (claim_window_with_limit n) ds = (w, acc)"
  shows "(signed_claim_decode raw = Inr s \<longleftrightarrow> cl_issued_at (sc_claim s) < cl_expires_at (sc_claim s) \<and> signed_claim_encode s = raw)
    \<and> (\<forall>(s, key, cx, now)\<in>set acc. claim_authentic C s key cx now)
    \<and> sorted_wrt (\<lambda>(s, k, _) (s', k', _). claim_scope s k = claim_scope s' k' \<longrightarrow> claim_rank s < claim_rank s') acc
    \<and> distinct acc \<and> length (cw_accepted w) \<le> min n DEFAULT_REPLAY_LIMIT
    \<and> (\<forall>key cx now. claim_authentic C s key cx now \<longrightarrow>
         claim_accept C w s key cx now =
         (let accepted = w\<lparr>cw_accepted := bt_insert (claim_scope s key) (claim_entry C s) (cw_accepted w)\<rparr> in
          case bt_get (cw_accepted w) (claim_scope s key) of
            None \<Rightarrow> if length (cw_accepted w) < cw_limit w then Inr accepted else Inl CCapacity
          | Some previous \<Rightarrow>
              if entry_rank previous < claim_rank s then Inr accepted
              else if entry_rank previous = claim_rank s \<and> ac_digest previous \<noteq> claim_digest C s then Inl CEquivocation
              else Inl CReplay))"
proof -
  have limit: "cw_limit (fst (guard_run (claim_admit C) (claim_window_with_limit n) ds)) = min n DEFAULT_REPLAY_LIMIT"
    by (rule guard_run_invariant [where I = "\<lambda>v. cw_limit v = min n DEFAULT_REPLAY_LIMIT"])
       (auto simp: claim_admit_def claim_accept_iff claim_window_with_limit_def split: prod.splits)
  have "claim_window_ok w" using claims.run_inv [OF claim_window_ok_new(2), of C n ds] assms by simp
  then have "length (cw_accepted w) \<le> min n DEFAULT_REPLAY_LIMIT" using limit assms by (simp add: claim_window_ok_def)
  moreover have "sorted_wrt (\<lambda>(s, k, _) (s', k', _). claim_scope s k = claim_scope s' k' \<longrightarrow> claim_rank s < claim_rank s') acc"
    using claims.run_increasing [OF claim_window_ok_new(2), of C n ds] assms
    by (auto elim!: sorted_wrt_mono_rel [rotated])
  moreover have "distinct acc" using claims.run_distinct [OF claim_window_ok_new(2), of C n ds] assms by simp
  moreover have "\<forall>(s, key, cx, now)\<in>set acc. claim_authentic C s key cx now"
    using claim_run_authentic [of _ _ _ _ C "claim_window_with_limit n" ds] assms by fastforce
  moreover have "signed_claim_decode raw = Inr s \<longleftrightarrow>
      cl_issued_at (sc_claim s) < cl_expires_at (sc_claim s) \<and> signed_claim_encode s = raw"
    unfolding signed_claim_codec.dec_iff signed_claim_ok_def claim_ok_def ..
  ultimately show ?thesis using claim_accept_authentic by blast
qed

definition ex_claim :: claim where
  "ex_claim = \<lparr>cl_domain = DomReceipt, cl_realm = 1, cl_session = 2, cl_subject = 3, cl_sequence = 4, cl_epoch = 5,
     cl_issued_at = 10, cl_expires_at = 20, cl_audience = 6\<rparr>"

definition ex_context :: claim_context where
  "ex_context = \<lparr>cx_domain = DomReceipt, cx_realm = 1, cx_session = 2, cx_audience = 6, cx_epoch = 5\<rparr>"

lemma ex_claim_authentic: "claim_authentic toy_crypto (sign_claim toy_crypto ex_claim 5) 5 ex_context 15"
  by (simp add: claim_authentic_def sign_claim_def ex_claim_def ex_context_def claim_ok_def Let_def claim_transcript_def) (simp add: toy_crypto_def)

theorem claims_admitted_once_witness:
  "\<exists>w. guard_run (claim_admit toy_crypto) (claim_window_with_limit 8) [(sign_claim toy_crypto ex_claim 5, 5, ex_context, 15)]
      = (w, [(sign_claim toy_crypto ex_claim 5, 5, ex_context, 15)])
   \<and> length (cw_accepted w) = 1 \<and> claim_accept toy_crypto w (sign_claim toy_crypto ex_claim 5) 5 ex_context 15 = Inl CReplay"
proof -
  let ?s = "sign_claim toy_crypto ex_claim 5"
  let ?w = "(claim_window_with_limit 8)\<lparr>cw_accepted := [(claim_scope ?s 5, claim_entry toy_crypto ?s)]\<rparr>"
  have "claim_accept toy_crypto (claim_window_with_limit 8) ?s 5 ex_context 15 = Inr ?w"
    unfolding claim_accept_iff using ex_claim_authentic
    by (simp add: claim_window_with_limit_def bt_new_def bt_get_def DEFAULT_REPLAY_LIMIT_def)
  then have run: "guard_run (claim_admit toy_crypto) (claim_window_with_limit 8) [(?s, 5, ex_context, 15)] = (?w, [(?s, 5, ex_context, 15)])"
    by (simp add: claim_admit_def)
  have rank: "entry_rank (claim_entry toy_crypto ?s) = claim_rank ?s" "ac_digest (claim_entry toy_crypto ?s) = claim_digest toy_crypto ?s"
    by (simp_all add: entry_rank_def claim_entry_def claim_rank_def)
  have "claim_accept toy_crypto ?w ?s 5 ex_context 15 = Inl CReplay"
    using claims_admitted_once [OF run, of "[]" ?s] ex_claim_authentic by (simp add: bt_get_def rank)
  then show ?thesis using run by (intro exI [of _ ?w]) simp
qed

end
