(* ===== verification/Session.thy ===== *)
theory Session
  imports Signed_Envelope
begin

text \<open>
  \<open>crates/vhalla-session\<close>: the three-message handshake of two explicitly paired peers and the chat
  session it establishes (\<open>lib.rs\<close>), owner-signed invitations (\<open>invitation.rs\<close>) and the spent-nonce
  guard (\<open>spent_nonce.rs\<close>). Fresh nonces, observed transport keys and clock readings are arguments, as
  in the code. Methods that consume their receiver return an error or their result; methods on a
  live session return the session, which may have been closed, with the result.
\<close>

section \<open>Pairing\<close>

datatype role = Initiator | Responder

record pairing =
  pr_initiator :: array32
  pr_responder :: array32
  pr_initiator_transport :: array32
  pr_responder_transport :: array32
  pr_realm :: u128
  pr_room :: u128
  pr_epoch :: u64
  pr_expires_at :: u64

datatype session_reject =
    RejMalformed | RejKey | RejLocalKey | RejTransport | RejContext | RejSignature | RejExpired
  | RejClockRollback | RejClosed | RejKind | RejVerify verify_error | RejCapacity

definition SESSION_MAGIC :: bytes where "SESSION_MAGIC = ascii ''VHS1''"
definition HELLO :: u8 where [simp]: "HELLO = 1"
definition RESPONSE :: u8 where [simp]: "RESPONSE = 2"
definition CONFIRM :: u8 where [simp]: "CONFIRM = 3"
definition HELLO_BYTES :: nat where [simp]: "HELLO_BYTES = 133"
definition MAX_HANDSHAKE_BYTES :: nat where [simp]: "MAX_HANDSHAKE_BYTES = 165"
definition HANDSHAKE_DOMAIN :: bytes where "HANDSHAKE_DOMAIN = ascii ''vhalla/paired-chat/handshake/v1''"

definition session_checked_key :: "crypto \<Rightarrow> array32 \<Rightarrow> session_reject + array32" where
  "session_checked_key C b = (if \<not> key_point C b then Inl RejKey else if key_weak C b then Inl RejKey else Inr b)"

definition fresh_nonce :: "array32 \<Rightarrow> session_reject + unit" where
  "fresh_nonce n = (if n = 0 then Inl RejMalformed else Inr ())"

definition pairing_validate :: "crypto \<Rightarrow> pairing \<Rightarrow> session_reject + unit" where
  "pairing_validate C p =
     (if pr_initiator p = pr_responder p then Inl RejKey
      else allR (\<lambda>b. bindR (session_checked_key C b) (\<lambda>_. Inr ()))
        [pr_initiator p, pr_responder p, pr_initiator_transport p, pr_responder_transport p])"

definition pairing_digest :: "crypto \<Rightarrow> pairing \<Rightarrow> array32" where
  "pairing_digest C p = sha256 C (ascii ''vhalla/paired-chat/config/v1'' @ to_be (pr_initiator p) @ to_be (pr_responder p)
     @ to_be (pr_initiator_transport p) @ to_be (pr_responder_transport p) @ to_be (pr_realm p) @ to_be (pr_room p)
     @ to_be (pr_epoch p) @ to_be (pr_expires_at p))"

definition pairing_local :: "pairing \<Rightarrow> role \<Rightarrow> array32" where
  "pairing_local p r = (case r of Initiator \<Rightarrow> pr_initiator p | Responder \<Rightarrow> pr_responder p)"

definition pairing_remote :: "pairing \<Rightarrow> role \<Rightarrow> array32" where
  "pairing_remote p r = (case r of Initiator \<Rightarrow> pr_responder p | Responder \<Rightarrow> pr_initiator p)"

definition check_local :: "crypto \<Rightarrow> pairing \<Rightarrow> role \<Rightarrow> array32 \<Rightarrow> array32 \<Rightarrow> array32 \<Rightarrow> session_reject + unit" where
  "check_local C p r key observed_local observed_remote =
     bindR (pairing_validate C p) (\<lambda>_.
       if public_of C key \<noteq> pairing_local p r then Inl RejLocalKey
       else
         let expected = (case r of Initiator \<Rightarrow> (pr_initiator_transport p, pr_responder_transport p)
                         | Responder \<Rightarrow> (pr_responder_transport p, pr_initiator_transport p)) in
         if (observed_local, observed_remote) \<noteq> expected then Inl RejTransport else Inr ())"

section \<open>Handshake packets\<close>

record packet =
  pk_kind :: u8
  pk_pairing :: array32
  pk_initiator_nonce :: array32
  pk_responder_nonce :: array32
  pk_signature :: array64

definition packet_unsigned :: "packet \<Rightarrow> bytes" where
  "packet_unsigned p =
     SESSION_MAGIC @ [pk_kind p] @ to_be (pk_pairing p) @ to_be (pk_initiator_nonce p)
     @ (if pk_kind p \<noteq> HELLO then to_be (pk_responder_nonce p) else [])"

definition packet_transcript :: "packet \<Rightarrow> bytes" where
  "packet_transcript p = HANDSHAKE_DOMAIN @ packet_unsigned p"

definition packet_signed :: "crypto \<Rightarrow> packet \<Rightarrow> array32 \<Rightarrow> bytes" where
  "packet_signed C p key = packet_unsigned p @ to_be (sign_bytes C key (packet_transcript p))"

definition packet_decode :: "bytes \<Rightarrow> u8 \<Rightarrow> session_reject + packet" where
  "packet_decode raw kind =
     (let len = (if kind = HELLO then HELLO_BYTES else MAX_HANDSHAKE_BYTES) in
      if length raw \<noteq> len \<or> take 4 raw \<noteq> SESSION_MAGIC \<or> raw ! 4 \<noteq> kind then Inl RejMalformed
      else
        let initiator_nonce = from_be (take 32 (drop 37 raw));
            responder_nonce = (if kind = HELLO then 0 else from_be (take 32 (drop 69 raw))) in
        bindR (fresh_nonce initiator_nonce) (\<lambda>_.
        bindR (if kind \<noteq> HELLO then fresh_nonce responder_nonce else Inr ()) (\<lambda>_.
          Inr \<lparr>pk_kind = kind, pk_pairing = from_be (take 32 (drop 5 raw)), pk_initiator_nonce = initiator_nonce,
               pk_responder_nonce = responder_nonce, pk_signature = from_be (drop (len - 64) raw)\<rparr>)))"

definition packet_verify :: "crypto \<Rightarrow> packet \<Rightarrow> array32 \<Rightarrow> session_reject + unit" where
  "packet_verify C p key =
     bindR (session_checked_key C key) (\<lambda>k.
       if verify_strict C k (packet_transcript p) (pk_signature p) then Inr () else Inl RejSignature)"

definition packet_session_id :: "crypto \<Rightarrow> packet \<Rightarrow> u128" where
  "packet_session_id C p =
     from_be (take 16 (to_be (sha256 C (ascii ''vhalla/paired-chat/session/v1'' @ to_be (pk_pairing p)
       @ to_be (pk_initiator_nonce p) @ to_be (pk_responder_nonce p)))))"

section \<open>The chat session\<close>

record chat_session =
  cs_pairing :: pairing
  cs_peer :: array32
  cs_inbound :: replay_window
  cs_outbound :: verification_context
  cs_next_sequence :: u64
  cs_last_now :: u64
  cs_closed :: bool

definition establish :: "crypto \<Rightarrow> pairing \<Rightarrow> role \<Rightarrow> u128 \<Rightarrow> u64 \<Rightarrow> session_reject + chat_session" where
  "establish C p r session now =
     bindR (session_checked_key C (pairing_local p r)) (\<lambda>local_key.
     bindR (session_checked_key C (pairing_remote p r)) (\<lambda>peer.
       let context = \<lparr>vc_audience = peer_id_from_key C local_key, vc_realm = pr_realm p, vc_room = pr_room p,
                      vc_epoch = pr_epoch p, vc_session = session\<rparr> in
     bindR (map_err RejVerify (replay_new context 1)) (\<lambda>w.
       Inr \<lparr>cs_pairing = p, cs_peer = peer, cs_inbound = w,
            cs_outbound = context\<lparr>vc_audience := peer_id_from_key C peer\<rparr>, cs_next_sequence = 1, cs_last_now = now,
            cs_closed = False\<rparr>)))"

definition session_close :: "chat_session \<Rightarrow> chat_session" where
  "session_close cs = cs\<lparr>cs_closed := True\<rparr>"

definition check_live :: "chat_session \<Rightarrow> u64 \<Rightarrow> chat_session \<times> (session_reject + unit)" where
  "check_live cs now =
     (if cs_closed cs then (cs, Inl RejClosed)
      else if now < cs_last_now cs then (session_close cs, Inl RejClockRollback)
      else if now > pr_expires_at (cs_pairing cs) then (session_close cs, Inl RejExpired)
      else (cs\<lparr>cs_last_now := now\<rparr>, Inr ()))"

definition chat_event_id :: "crypto \<Rightarrow> chat_session \<Rightarrow> u64 \<Rightarrow> u128" where
  "chat_event_id C cs sq =
     from_be (take 16 (to_be (sha256 C (ascii ''vhalla/paired-chat/event/v1'' @ to_be (vc_session (cs_outbound cs))
       @ to_be (vc_audience (rw_context (cs_inbound cs))) @ to_be sq))))"

definition prepare_chat :: "crypto \<Rightarrow> chat_session \<Rightarrow> bytes \<Rightarrow> u64 \<Rightarrow> chat_session \<times> (session_reject + envelope)" where
  "prepare_chat C cs body now =
     (case check_live cs now of
        (cs, Inl e) \<Rightarrow> (cs, Inl e)
      | (cs, Inr _) \<Rightarrow>
        if length body > MAX_SIGNED_BODY_BYTES then (cs, Inl RejCapacity)
        else
          let sq = cs_next_sequence cs in
          (case checked_add sq 1 of
             None \<Rightarrow> (cs, Inl RejCapacity)
           | Some nxt \<Rightarrow>
             (case envelope_chat (vc_audience (rw_context (cs_inbound cs))) (pr_realm (cs_pairing cs))
                     (pr_room (cs_pairing cs)) (chat_event_id C cs sq) sq body of
                None \<Rightarrow> (cs, Inl RejCapacity)
              | Some e \<Rightarrow> (cs\<lparr>cs_next_sequence := nxt\<rparr>, Inr e))))"

definition chat_receive :: "crypto \<Rightarrow> chat_session \<Rightarrow> bytes \<Rightarrow> u64 \<Rightarrow> chat_session \<times> (session_reject + verified_envelope)" where
  "chat_receive C cs raw now =
     (case check_live cs now of
        (cs, Inl e) \<Rightarrow> (cs, Inl e)
      | (cs, Inr _) \<Rightarrow>
        (case signed_envelope_decode raw of
           Inl _ \<Rightarrow> (cs, Inl RejMalformed)
         | Inr s \<Rightarrow>
           if en_kind (se_envelope s) \<noteq> KIND_CHAT then (cs, Inl RejKind)
           else if se_expires_at s > pr_expires_at (cs_pairing cs) then (cs, Inl RejExpired)
           else
             (case verify_and_accept C (cs_inbound cs) s (cs_peer cs) now of
                Inl e \<Rightarrow> (cs, Inl (RejVerify e))
              | Inr (w, v) \<Rightarrow> (cs\<lparr>cs_inbound := w\<rparr>, Inr v))))"

section \<open>The handshake\<close>

record handshake_pending =
  pd_pairing :: pairing
  pd_role :: role
  pd_packet :: packet
  pd_started_at :: u64
  pd_deadline :: u64

definition check_deadline :: "pairing \<Rightarrow> u64 \<Rightarrow> u64 \<Rightarrow> session_reject + u64" where
  "check_deadline p now deadline =
     (if now \<ge> deadline \<or> now > pr_expires_at p then Inl RejExpired else Inr (min deadline (pr_expires_at p)))"

definition check_time :: "handshake_pending \<Rightarrow> u64 \<Rightarrow> session_reject + unit" where
  "check_time pd now =
     (if now < pd_started_at pd then Inl RejClockRollback
      else if now > pd_deadline pd then Inl RejExpired
      else Inr ())"

definition initiate ::
    "crypto \<Rightarrow> pairing \<Rightarrow> array32 \<Rightarrow> array32 \<Rightarrow> array32 \<Rightarrow> array32 \<Rightarrow> u64 \<Rightarrow> u64 \<Rightarrow> session_reject + (handshake_pending \<times> bytes)" where
  "initiate C p key observed_local observed_remote nonce now deadline =
     bindR (check_local C p Initiator key observed_local observed_remote) (\<lambda>_.
     bindR (check_deadline p now deadline) (\<lambda>deadline.
     bindR (fresh_nonce nonce) (\<lambda>_.
       let pk = \<lparr>pk_kind = HELLO, pk_pairing = pairing_digest C p, pk_initiator_nonce = nonce, pk_responder_nonce = 0,
                 pk_signature = 0\<rparr> in
       Inr (\<lparr>pd_pairing = p, pd_role = Initiator, pd_packet = pk, pd_started_at = now, pd_deadline = deadline\<rparr>,
            packet_signed C pk key))))"

definition respond ::
    "crypto \<Rightarrow> pairing \<Rightarrow> array32 \<Rightarrow> array32 \<Rightarrow> array32 \<Rightarrow> bytes \<Rightarrow> array32 \<Rightarrow> u64 \<Rightarrow> u64
     \<Rightarrow> session_reject + (handshake_pending \<times> bytes)" where
  "respond C p key observed_local observed_remote hello nonce now deadline =
     bindR (check_local C p Responder key observed_local observed_remote) (\<lambda>_.
     bindR (check_deadline p now deadline) (\<lambda>deadline.
     bindR (fresh_nonce nonce) (\<lambda>_.
     bindR (packet_decode hello HELLO) (\<lambda>pk.
       if pk_pairing pk \<noteq> pairing_digest C p then Inl RejContext
       else
     bindR (packet_verify C pk (pr_initiator p)) (\<lambda>_.
       let pk = pk\<lparr>pk_kind := RESPONSE, pk_responder_nonce := nonce\<rparr> in
       Inr (\<lparr>pd_pairing = p, pd_role = Responder, pd_packet = pk, pd_started_at = now, pd_deadline = deadline\<rparr>,
            packet_signed C pk key))))))"

definition confirm :: "crypto \<Rightarrow> handshake_pending \<Rightarrow> bytes \<Rightarrow> array32 \<Rightarrow> u64 \<Rightarrow> session_reject + (chat_session \<times> bytes)" where
  "confirm C pd response key now =
     bindR (check_time pd now) (\<lambda>_.
       if pd_role pd \<noteq> Initiator \<or> public_of C key \<noteq> pr_initiator (pd_pairing pd) then Inl RejLocalKey
       else
     bindR (packet_decode response RESPONSE) (\<lambda>pk.
       if pk_pairing pk \<noteq> pk_pairing (pd_packet pd) \<or> pk_initiator_nonce pk \<noteq> pk_initiator_nonce (pd_packet pd)
       then Inl RejContext
       else
     bindR (packet_verify C pk (pr_responder (pd_pairing pd))) (\<lambda>_.
       let pk = pk\<lparr>pk_kind := CONFIRM\<rparr> in
     bindR (establish C (pd_pairing pd) (pd_role pd) (packet_session_id C pk) now) (\<lambda>cs.
       Inr (cs, packet_signed C pk key)))))"

definition finish :: "crypto \<Rightarrow> handshake_pending \<Rightarrow> bytes \<Rightarrow> u64 \<Rightarrow> session_reject + chat_session" where
  "finish C pd confirmation now =
     bindR (check_time pd now) (\<lambda>_.
       if pd_role pd \<noteq> Responder then Inl RejContext
       else
     bindR (packet_decode confirmation CONFIRM) (\<lambda>pk.
       if pk_pairing pk \<noteq> pk_pairing (pd_packet pd) \<or> pk_initiator_nonce pk \<noteq> pk_initiator_nonce (pd_packet pd)
         \<or> pk_responder_nonce pk \<noteq> pk_responder_nonce (pd_packet pd)
       then Inl RejContext
       else
     bindR (packet_verify C pk (pr_initiator (pd_pairing pd))) (\<lambda>_.
       establish C (pd_pairing pd) (pd_role pd) (packet_session_id C pk) now)))"

section \<open>Invitations\<close>

definition INVITATION_MAGIC :: bytes where "INVITATION_MAGIC = ascii ''VHIN''"
definition INVITATION_VERSION :: u8 where [simp]: "INVITATION_VERSION = 1"
definition INVITATION_DOMAIN :: bytes where "INVITATION_DOMAIN = ascii ''vhalla/owner-invitation/v1''"
definition NONCE_BYTES :: nat where [simp]: "NONCE_BYTES = 32"
definition UNSIGNED_BYTES :: nat where [simp]: "UNSIGNED_BYTES = 4 + 1 + 32 + 32 + 16 + 16 + 8 + 8 + NONCE_BYTES"
definition INVITATION_BYTES :: nat where [simp]: "INVITATION_BYTES = UNSIGNED_BYTES + 64"

datatype invitation_error = InvMalformed | InvKey | InvIssuer | InvSignature | InvExpired

record invitation_claims =
  ic_owner :: array32
  ic_invitee :: array32
  ic_realm :: u128
  ic_room :: u128
  ic_epoch :: u64
  ic_expires_at :: u64
  ic_nonce :: array32

record invitation =
  iv_claims :: invitation_claims
  iv_signature :: array64

definition invitation_key :: "crypto \<Rightarrow> array32 \<Rightarrow> invitation_error + array32" where
  "invitation_key C b = (if \<not> key_point C b then Inl InvKey else if key_weak C b then Inl InvKey else Inr b)"

definition validate_keys :: "crypto \<Rightarrow> array32 \<Rightarrow> array32 \<Rightarrow> invitation_error + unit" where
  "validate_keys C owner invitee =
     (if owner = invitee then Inl InvKey
      else bindR (invitation_key C owner) (\<lambda>_. bindR (invitation_key C invitee) (\<lambda>_. Inr ())))"

definition invitation_unsigned :: "invitation_claims \<Rightarrow> bytes" where
  "invitation_unsigned c =
     INVITATION_MAGIC @ [INVITATION_VERSION] @ to_be (ic_owner c) @ to_be (ic_invitee c) @ to_be (ic_realm c)
     @ to_be (ic_room c) @ to_be (ic_epoch c) @ to_be (ic_expires_at c) @ to_be (ic_nonce c)"

definition invitation_transcript :: "invitation_claims \<Rightarrow> bytes" where
  "invitation_transcript c = INVITATION_DOMAIN @ invitation_unsigned c"

definition invitation_issue ::
    "crypto \<Rightarrow> array32 \<Rightarrow> array32 \<Rightarrow> u128 \<Rightarrow> u128 \<Rightarrow> u64 \<Rightarrow> u64 \<Rightarrow> array32 \<Rightarrow> invitation_error + invitation" where
  "invitation_issue C owner invitee realm room epoch expires_at nonce =
     bindR (validate_keys C (public_of C owner) invitee) (\<lambda>_.
       if expires_at = 0 \<or> nonce = 0 then Inl InvMalformed
       else
         let c = \<lparr>ic_owner = public_of C owner, ic_invitee = invitee, ic_realm = realm, ic_room = room, ic_epoch = epoch,
                  ic_expires_at = expires_at, ic_nonce = nonce\<rparr> in
         Inr \<lparr>iv_claims = c, iv_signature = sign_bytes C owner (invitation_transcript c)\<rparr>)"

definition invitation_encode :: "invitation \<Rightarrow> bytes" where
  "invitation_encode iv = invitation_unsigned (iv_claims iv) @ to_be (iv_signature iv)"

definition invitation_decode :: "crypto \<Rightarrow> bytes \<Rightarrow> invitation_error + invitation" where
  "invitation_decode C raw =
     (if length raw \<noteq> INVITATION_BYTES \<or> take 4 raw \<noteq> INVITATION_MAGIC \<or> raw ! 4 \<noteq> INVITATION_VERSION then Inl InvMalformed
      else
        let c = \<lparr>ic_owner = from_be (take 32 (drop 5 raw)), ic_invitee = from_be (take 32 (drop 37 raw)),
                 ic_realm = from_be (take 16 (drop 69 raw)), ic_room = from_be (take 16 (drop 85 raw)),
                 ic_epoch = from_be (take 8 (drop 101 raw)), ic_expires_at = from_be (take 8 (drop 109 raw)),
                 ic_nonce = from_be (take 32 (drop 117 raw))\<rparr> in
        if ic_expires_at c = 0 \<or> ic_nonce c = 0 then Inl InvMalformed
        else bindR (validate_keys C (ic_owner c) (ic_invitee c)) (\<lambda>_.
          Inr \<lparr>iv_claims = c, iv_signature = from_be (drop UNSIGNED_BYTES raw)\<rparr>))"

definition verify_for :: "crypto \<Rightarrow> invitation \<Rightarrow> array32 \<Rightarrow> invitation_error + invitation_claims" where
  "verify_for C iv expected_owner =
     (if ic_owner (iv_claims iv) \<noteq> expected_owner then Inl InvIssuer
      else bindR (invitation_key C expected_owner) (\<lambda>k.
        if verify_strict C k (invitation_transcript (iv_claims iv)) (iv_signature iv) then Inr (iv_claims iv)
        else Inl InvSignature))"

definition verify_at :: "crypto \<Rightarrow> invitation \<Rightarrow> array32 \<Rightarrow> u64 \<Rightarrow> invitation_error + invitation_claims" where
  "verify_at C iv expected_owner now =
     bindR (verify_for C iv expected_owner) (\<lambda>c. if now \<ge> ic_expires_at c then Inl InvExpired else Inr c)"

section \<open>Spent nonces\<close>

text \<open>A \<open>BTreeSet\<close> is the ordered map to unit.\<close>

record spent_nonces =
  sn_capacity :: nat
  sn_spent :: "(array32, unit) btree_map"

datatype spend_error = SpendMalformed | SpendAlreadySpent | SpendCapacity

definition spent_new :: "nat \<Rightarrow> spent_nonces" where
  "spent_new capacity = \<lparr>sn_capacity = capacity, sn_spent = bt_new\<rparr>"

definition spent_contains :: "spent_nonces \<Rightarrow> array32 \<Rightarrow> bool" where
  "spent_contains g nonce = bt_contains (sn_spent g) nonce"

definition consume :: "spent_nonces \<Rightarrow> array32 \<Rightarrow> spend_error + spent_nonces" where
  "consume g nonce =
     (if nonce = 0 then Inl SpendMalformed
      else if bt_contains (sn_spent g) nonce then Inl SpendAlreadySpent
      else if length (sn_spent g) \<ge> sn_capacity g then Inl SpendCapacity
      else Inr (g\<lparr>sn_spent := bt_insert nonce () (sn_spent g)\<rparr>))"

end
