(* ===== verification/Witness_Model.thy ===== *)
theory Witness_Model
  imports Rust_Prelude "HOL-Library.Product_Lexorder"
begin

unbundle bit_operations_syntax

text \<open>
  The data of the witness platform (\<open>vhalla-witness\<close>): the static bounds (\<open>bounds.rs\<close>), the
  finite-rule language (\<open>model.rs\<close>), and the validated world, case and assignment
  (\<open>world.rs\<close>). The Rust newtypes \<open>Slot\<close>, \<open>Port\<close> and \<open>ValveId\<close> are the integers they wrap; what
  their constructors guarantee is \<open>program_ok\<close> here and \<open>spec_typed\<close> in \<open>Witness_World\<close>, which also
  shows what validation establishes.
\<close>

section \<open>Bounds (\<open>bounds.rs\<close>)\<close>

abbreviation MIN_RULES :: nat where "MIN_RULES \<equiv> 1"
abbreviation MAX_RULES :: nat where "MAX_RULES \<equiv> 32"
abbreviation MAX_CONDITIONS :: nat where "MAX_CONDITIONS \<equiv> 8"
abbreviation MEMORY_SLOTS :: u8 where "MEMORY_SLOTS \<equiv> 4"
abbreviation PORTS :: u8 where "PORTS \<equiv> 4"
abbreviation MIN_SIDE :: u8 where "MIN_SIDE \<equiv> 3"
abbreviation MAX_SIDE :: u8 where "MAX_SIDE \<equiv> 32"
abbreviation MAX_WALLS :: nat where "MAX_WALLS \<equiv> 512"
abbreviation MIN_CELLS :: nat where "MIN_CELLS \<equiv> 1"
abbreviation MAX_CELLS :: nat where "MAX_CELLS \<equiv> 16"
abbreviation MAX_SOURCES :: nat where "MAX_SOURCES \<equiv> 8"
abbreviation MAX_DEPOTS :: nat where "MAX_DEPOTS \<equiv> 8"
abbreviation MIN_BEACONS :: nat where "MIN_BEACONS \<equiv> 1"
abbreviation MAX_BEACONS :: nat where "MAX_BEACONS \<equiv> 8"
abbreviation MAX_VALVES :: nat where "MAX_VALVES \<equiv> 8"
abbreviation MAX_LINKS :: nat where "MAX_LINKS \<equiv> 32"
abbreviation MAX_WORLD_EVENTS :: nat where "MAX_WORLD_EVENTS \<equiv> 64"
abbreviation MAX_INITIAL_SPARKS :: nat where "MAX_INITIAL_SPARKS \<equiv> 128"
abbreviation MAX_PENDING :: nat where "MAX_PENDING \<equiv> 128"
abbreviation MIN_TICKS :: u32 where "MIN_TICKS \<equiv> 1"
abbreviation MAX_TICKS :: u32 where "MAX_TICKS \<equiv> 128"
abbreviation MAX_FUEL :: u64 where "MAX_FUEL \<equiv> 2000000"
abbreviation MIN_ACTIVATION_FUEL :: u32 where "MIN_ACTIVATION_FUEL \<equiv> 1"
abbreviation MAX_ACTIVATION_FUEL :: u32 where "MAX_ACTIVATION_FUEL \<equiv> 1024"
abbreviation MAX_LOADING_WORK :: u64 where "MAX_LOADING_WORK \<equiv> 65536"
abbreviation MIN_DEPOT_CAPACITY :: u8 where "MIN_DEPOT_CAPACITY \<equiv> 1"
abbreviation MAX_DEPOT_CAPACITY :: u8 where "MAX_DEPOT_CAPACITY \<equiv> 128"
abbreviation MIN_BEACON_CHARGE :: u32 where "MIN_BEACON_CHARGE \<equiv> 1"
abbreviation MAX_BEACON_CHARGE :: u32 where "MAX_BEACON_CHARGE \<equiv> 10000"
abbreviation MIN_DRAIN_EVERY :: u32 where "MIN_DRAIN_EVERY \<equiv> 1"
abbreviation MAX_DRAIN_EVERY :: u32 where "MAX_DRAIN_EVERY \<equiv> MAX_TICKS"
abbreviation MIN_DRAIN_AMOUNT :: u32 where "MIN_DRAIN_AMOUNT \<equiv> 1"
abbreviation MAX_DRAIN_AMOUNT :: u32 where "MAX_DRAIN_AMOUNT \<equiv> 1024"
abbreviation MIN_SPARK_CHARGE :: u32 where "MIN_SPARK_CHARGE \<equiv> 1"
abbreviation MAX_SPARK_CHARGE :: u32 where "MAX_SPARK_CHARGE \<equiv> 64"
abbreviation MAX_REQUIRED_DELIVERIES :: u32 where "MAX_REQUIRED_DELIVERIES \<equiv> 128"
abbreviation MIN_LINK_DELAY :: u32 where "MIN_LINK_DELAY \<equiv> 1"
abbreviation MAX_LINK_DELAY :: u32 where "MAX_LINK_DELAY \<equiv> 16"
abbreviation CLEAR_MEMORY_WRITES :: u64 where "CLEAR_MEMORY_WRITES \<equiv> 4"

section \<open>The application language (\<open>model.rs\<close>)\<close>

type_synonym slot = u8
type_synonym port = u8
type_synonym valve_id = u16

definition slot_new :: "u8 \<Rightarrow> slot option" where
  "slot_new index = (if index < MEMORY_SLOTS then Some index else None)"

definition port_new :: "u8 \<Rightarrow> port option" where
  "port_new index = (if index < PORTS then Some index else None)"

datatype direction = North | East | South | West

datatype relative = Forward | Left | Right | Back

datatype condition =
    Carrying bool
  | AtSource bool
  | AtDepot bool
  | AtBeacon bool
  | AtReceiver bool
  | Blocked relative bool
  | HasMessage port bool
  | MessageBit port bool
  | Memory slot u8
  | Heading direction

datatype bit_source = BitConstant bool | BitMemory slot | BitMessage port

datatype action =
    Move relative
  | Turn relative
  | Pickup
  | Drop
  | Wait
  | WriteMemory slot u8
  | TakeMessage port slot
  | Send port bit_source
  | Route valve_id bit_source

record memory_write =
  mw_slot :: slot
  mw_value :: u8

datatype model_error = NoRules | TooManyRules | TooManyConditions

record rule =
  ru_when :: "condition list"
  ru_action :: action
  ru_remember :: "memory_write option"

definition rule_new :: "condition list \<Rightarrow> action \<Rightarrow> memory_write option \<Rightarrow> model_error + rule" where
  "rule_new when action remember =
     (if length when > MAX_CONDITIONS then Inl TooManyConditions
      else Inr \<lparr>ru_when = when, ru_action = action, ru_remember = remember\<rparr>)"

record program =
  pg_rules :: "rule list"

definition program_new :: "rule list \<Rightarrow> model_error + program" where
  "program_new rules =
     (if length rules < MIN_RULES then Inl NoRules
      else if length rules > MAX_RULES then Inl TooManyRules
      else Inr \<lparr>pg_rules = rules\<rparr>)"

definition heading_index :: "direction \<Rightarrow> nat" where
  "heading_index heading = (case heading of North \<Rightarrow> 0 | East \<Rightarrow> 1 | South \<Rightarrow> 2 | West \<Rightarrow> 3)"

definition relative_offset :: "relative \<Rightarrow> nat" where
  "relative_offset r = (case r of Forward \<Rightarrow> 0 | Right \<Rightarrow> 1 | Back \<Rightarrow> 2 | Left \<Rightarrow> 3)"

definition face :: "direction \<Rightarrow> relative \<Rightarrow> direction" where
  "face heading r = [North, East, South, West] ! ((heading_index heading + relative_offset r) mod 4)"

text \<open>What \<open>Slot::new\<close>, \<open>Port::new\<close>, \<open>Rule::new\<close> and \<open>Program::new\<close> guarantee of every program.\<close>

fun bit_source_ok :: "bit_source \<Rightarrow> bool" where
  "bit_source_ok (BitConstant _) = True"
| "bit_source_ok (BitMemory s) = (s < MEMORY_SLOTS)"
| "bit_source_ok (BitMessage p) = (p < PORTS)"

fun condition_ok :: "condition \<Rightarrow> bool" where
  "condition_ok (HasMessage p _) = (p < PORTS)"
| "condition_ok (MessageBit p _) = (p < PORTS)"
| "condition_ok (Memory s _) = (s < MEMORY_SLOTS)"
| "condition_ok _ = True"

fun action_ok :: "action \<Rightarrow> bool" where
  "action_ok (WriteMemory s _) = (s < MEMORY_SLOTS)"
| "action_ok (TakeMessage p s) = (p < PORTS \<and> s < MEMORY_SLOTS)"
| "action_ok (Send p b) = (p < PORTS \<and> bit_source_ok b)"
| "action_ok (Route _ b) = bit_source_ok b"
| "action_ok _ = True"

definition rule_ok :: "rule \<Rightarrow> bool" where
  "rule_ok r \<longleftrightarrow> length (ru_when r) \<le> MAX_CONDITIONS \<and> list_all condition_ok (ru_when r)
     \<and> action_ok (ru_action r) \<and> (case ru_remember r of None \<Rightarrow> True | Some w \<Rightarrow> mw_slot w < MEMORY_SLOTS)"

definition program_ok :: "program \<Rightarrow> bool" where
  "program_ok p \<longleftrightarrow> MIN_RULES \<le> length (pg_rules p) \<and> length (pg_rules p) \<le> MAX_RULES \<and> list_all rule_ok (pg_rules p)"

section \<open>The world (\<open>world.rs\<close>)\<close>

record point =
  pt_x :: u8
  pt_y :: u8

definition abs_diff :: "u8 \<Rightarrow> u8 \<Rightarrow> u8" where
  "abs_diff a b = (if a < b then b - a else a - b)"

definition distance :: "point \<Rightarrow> point \<Rightarrow> u16" where
  "distance p q = ucast (abs_diff (pt_x p) (pt_x q)) + ucast (abs_diff (pt_y p) (pt_y q))"

record spark =
  sp_id :: u32
  sp_bit :: bool

record cell_body =
  cb_id :: u16
  cb_position :: point
  cb_heading :: direction
  cb_mobile :: bool
  cb_memory :: "u8 list"

record source =
  so_id :: u16
  so_position :: point
  so_sparks :: "spark list"

record depot =
  dp_id :: u16
  dp_position :: point
  dp_capacity :: u8

record beacon =
  bc_id :: u16
  bc_position :: point
  bc_accepts :: bool
  bc_initial_charge :: u32
  bc_drain_every :: u32
  bc_drain_amount :: u32
  bc_spark_charge :: u32
  bc_required_deliveries :: u32

record valve =
  va_id :: u16
  va_position :: point
  va_depot :: u16
  va_beacon_zero :: u16
  va_beacon_one :: u16
  va_enabled :: bool

datatype endpoint = EndCell u16 port | EndDepot u16

record link =
  lk_id :: u16
  lk_from :: endpoint
  lk_to_cell :: u16
  lk_to_port :: port
  lk_delay :: u32
  lk_enabled :: bool

datatype world_event_kind = LinkEnabled u16 bool | ValveEnabled u16 bool | ClearMemory u16

record world_event =
  we_tick :: u32
  we_event :: world_event_kind

record world_spec =
  ws_width :: u8
  ws_height :: u8
  ws_walls :: "point list"
  ws_sources :: "source list"
  ws_depots :: "depot list"
  ws_beacons :: "beacon list"
  ws_valves :: "valve list"
  ws_cells :: "cell_body list"
  ws_links :: "link list"

datatype world_error =
    GridDimensions | Budget | LoadingWork | EntityLimits | Walls | DuplicateId | CellPosition | StationPosition
  | DuplicateSpark | TooManySparks | DepotCapacity | BeaconParameters | ValveTarget | ValveGeometry
  | LinkTarget | LinkGeometry | EventTick | EventTarget | AssignmentCells | WUnknownValve

text \<open>\<open>iter().position(p)\<close>.\<close>

fun position_where :: "('a \<Rightarrow> bool) \<Rightarrow> 'a list \<Rightarrow> nat option" where
  "position_where p [] = None"
| "position_where p (x # xs) = (if p x then Some 0 else map_option Suc (position_where p xs))"

fun unique_from :: "u16 list \<Rightarrow> u16 list \<Rightarrow> bool" where
  "unique_from seen [] = True"
| "unique_from seen (i # is) = (if i \<in> set seen then False else unique_from (seen @ [i]) is)"

definition unique :: "u16 list \<Rightarrow> bool" where
  "unique is = unique_from [] is"

record world =
  wd_spec :: world_spec
  wd_wall_rows :: "u32 list"

definition on_grid :: "world_spec \<Rightarrow> point \<Rightarrow> bool" where
  "on_grid ws p \<longleftrightarrow> pt_x p < ws_width ws \<and> pt_y p < ws_height ws"

definition wall_bit :: "point \<Rightarrow> u32" where
  "wall_bit p = push_bit (unat (pt_x p)) 1"

definition wall_step :: "world_spec \<Rightarrow> u32 list \<Rightarrow> point \<Rightarrow> world_error + u32 list" where
  "wall_step ws rows p =
     (if \<not> on_grid ws p then Inl Walls
      else let y = unat (pt_y p) in
        if (rows ! y) AND wall_bit p \<noteq> 0 then Inl Walls
        else Inr (rows[y := (rows ! y) OR wall_bit p]))"

definition usable :: "world_spec \<Rightarrow> u32 list \<Rightarrow> point \<Rightarrow> bool" where
  "usable ws rows p \<longleftrightarrow> on_grid ws p \<and> (rows ! unat (pt_y p)) AND wall_bit p = 0"

definition place_step :: "world_error \<Rightarrow> world_spec \<Rightarrow> u32 list \<Rightarrow> point list \<Rightarrow> point \<Rightarrow> world_error + point list" where
  "place_step e ws rows seen p = (if \<not> usable ws rows p \<or> p \<in> set seen then Inl e else Inr (seen @ [p]))"

definition spark_step :: "u32 list \<Rightarrow> spark \<Rightarrow> world_error + u32 list" where
  "spark_step seen s =
     (if sp_id s \<in> set seen then Inl DuplicateSpark
      else if length seen \<ge> MAX_INITIAL_SPARKS then Inl TooManySparks
      else Inr (seen @ [sp_id s]))"

definition check_depot :: "depot \<Rightarrow> world_error + unit" where
  "check_depot d =
     (if \<not> (MIN_DEPOT_CAPACITY \<le> dp_capacity d \<and> dp_capacity d \<le> MAX_DEPOT_CAPACITY) then Inl DepotCapacity else Inr ())"

definition check_beacon :: "beacon \<Rightarrow> world_error + unit" where
  "check_beacon b =
     (if \<not> (MIN_BEACON_CHARGE \<le> bc_initial_charge b \<and> bc_initial_charge b \<le> MAX_BEACON_CHARGE
          \<and> MIN_DRAIN_EVERY \<le> bc_drain_every b \<and> bc_drain_every b \<le> MAX_DRAIN_EVERY
          \<and> MIN_DRAIN_AMOUNT \<le> bc_drain_amount b \<and> bc_drain_amount b \<le> MAX_DRAIN_AMOUNT
          \<and> MIN_SPARK_CHARGE \<le> bc_spark_charge b \<and> bc_spark_charge b \<le> MAX_SPARK_CHARGE
          \<and> bc_required_deliveries b \<le> MAX_REQUIRED_DELIVERIES)
      then Inl BeaconParameters else Inr ())"

definition check_valve :: "world_spec \<Rightarrow> valve \<Rightarrow> world_error + unit" where
  "check_valve ws v =
     bindR (ok_or ValveTarget (find (\<lambda>d. dp_id d = va_depot v) (ws_depots ws))) (\<lambda>depot.
     bindR (ok_or ValveTarget (find (\<lambda>b. bc_id b = va_beacon_zero v) (ws_beacons ws))) (\<lambda>zero.
     bindR (ok_or ValveTarget (find (\<lambda>b. bc_id b = va_beacon_one v) (ws_beacons ws))) (\<lambda>one.
       if \<not> (distance (va_position v) (dp_position depot) = 1
            \<and> distance (va_position v) (bc_position zero) = 1
            \<and> distance (va_position v) (bc_position one) = 1
            \<and> \<not> bc_accepts zero \<and> bc_accepts one)
       then Inl ValveGeometry else Inr ())))"

definition check_link :: "world_spec \<Rightarrow> link \<Rightarrow> world_error + unit" where
  "check_link ws l =
     bindR (ok_or LinkTarget (find (\<lambda>c. cb_id c = lk_to_cell l) (ws_cells ws))) (\<lambda>target.
     bindR (case lk_from l of
              EndCell i _ \<Rightarrow> bindR (ok_or LinkTarget (find (\<lambda>c. cb_id c = i) (ws_cells ws))) (\<lambda>c. Inr (cb_position c))
            | EndDepot i \<Rightarrow> bindR (ok_or LinkTarget (find (\<lambda>d. dp_id d = i) (ws_depots ws))) (\<lambda>d. Inr (dp_position d)))
       (\<lambda>origin.
       if \<not> (MIN_LINK_DELAY \<le> lk_delay l \<and> lk_delay l \<le> MAX_LINK_DELAY \<and> distance origin (cb_position target) = 1)
       then Inl LinkGeometry else Inr ()))"

definition world_new :: "world_spec \<Rightarrow> world_error + world" where
  "world_new ws =
     (if \<not> (MIN_SIDE \<le> ws_width ws \<and> ws_width ws \<le> MAX_SIDE) \<or> \<not> (MIN_SIDE \<le> ws_height ws \<and> ws_height ws \<le> MAX_SIDE)
      then Inl GridDimensions
      else if length (ws_walls ws) > MAX_WALLS \<or> length (ws_cells ws) < MIN_CELLS \<or> length (ws_cells ws) > MAX_CELLS
        \<or> length (ws_sources ws) > MAX_SOURCES \<or> length (ws_depots ws) > MAX_DEPOTS
        \<or> length (ws_beacons ws) < MIN_BEACONS \<or> length (ws_beacons ws) > MAX_BEACONS
        \<or> length (ws_valves ws) > MAX_VALVES \<or> length (ws_links ws) > MAX_LINKS
      then Inl EntityLimits
      else
     bindR (foldR (wall_step ws) (replicate 32 0) (ws_walls ws)) (\<lambda>rows.
       if \<not> (unique (map cb_id (ws_cells ws)) \<and> unique (map so_id (ws_sources ws)) \<and> unique (map dp_id (ws_depots ws))
            \<and> unique (map bc_id (ws_beacons ws)) \<and> unique (map va_id (ws_valves ws)) \<and> unique (map lk_id (ws_links ws)))
       then Inl DuplicateId
       else
     bindR (foldR (place_step CellPosition ws rows) [] (map cb_position (ws_cells ws))) (\<lambda>_.
     bindR (foldR (place_step StationPosition ws rows) []
              (map so_position (ws_sources ws) @ map dp_position (ws_depots ws)
               @ map bc_position (ws_beacons ws) @ map va_position (ws_valves ws))) (\<lambda>_.
     bindR (foldR spark_step [] (concat (map so_sparks (ws_sources ws)))) (\<lambda>_.
     bindR (allR check_depot (ws_depots ws)) (\<lambda>_.
     bindR (allR check_beacon (ws_beacons ws)) (\<lambda>_.
     bindR (allR (check_valve ws) (ws_valves ws)) (\<lambda>_.
     bindR (allR (check_link ws) (ws_links ws)) (\<lambda>_.
       Inr \<lparr>wd_spec = ws, wd_wall_rows = rows\<rparr>)))))))))"

definition is_wall :: "world \<Rightarrow> point \<Rightarrow> bool" where
  "is_wall W p \<longleftrightarrow> pt_y p < MAX_SIDE \<and> pt_x p < MAX_SIDE
     \<and> (wd_wall_rows W ! unat (pt_y p)) AND wall_bit p \<noteq> 0"

definition saturating_inc :: "u32 \<Rightarrow> u32" where
  "saturating_inc v = (if v = - 1 then v else v + 1)"

definition world_initial_sparks :: "world \<Rightarrow> u32" where
  "world_initial_sparks W =
     foldl (\<lambda>count src. foldl (\<lambda>count _. saturating_inc count) count (so_sparks src)) 0 (ws_sources (wd_spec W))"

abbreviation wd_width where "wd_width W \<equiv> ws_width (wd_spec W)"
abbreviation wd_height where "wd_height W \<equiv> ws_height (wd_spec W)"
abbreviation wd_walls where "wd_walls W \<equiv> ws_walls (wd_spec W)"
abbreviation wd_sources where "wd_sources W \<equiv> ws_sources (wd_spec W)"
abbreviation wd_depots where "wd_depots W \<equiv> ws_depots (wd_spec W)"
abbreviation wd_beacons where "wd_beacons W \<equiv> ws_beacons (wd_spec W)"
abbreviation wd_valves where "wd_valves W \<equiv> ws_valves (wd_spec W)"
abbreviation wd_cells where "wd_cells W \<equiv> ws_cells (wd_spec W)"
abbreviation wd_links where "wd_links W \<equiv> ws_links (wd_spec W)"

section \<open>Cases and assignments\<close>

record case_spec =
  ca_seed :: u64
  ca_ticks :: u32
  ca_fuel :: u64
  ca_activation_fuel :: u32
  ca_events :: "world_event list"
  ca_loading_work :: u64

definition event_exists :: "world \<Rightarrow> world_event_kind \<Rightarrow> bool" where
  "event_exists W e =
     (case e of
        LinkEnabled i _ \<Rightarrow> list_ex (\<lambda>l. lk_id l = i) (wd_links W)
      | ValveEnabled i _ \<Rightarrow> list_ex (\<lambda>v. va_id v = i) (wd_valves W)
      | ClearMemory c \<Rightarrow> list_ex (\<lambda>b. cb_id b = c) (wd_cells W))"

definition check_event :: "world \<Rightarrow> u32 \<Rightarrow> world_event \<Rightarrow> world_error + unit" where
  "check_event W ticks e =
     (if \<not> (MIN_TICKS \<le> we_tick e \<and> we_tick e \<le> ticks) then Inl EventTick
      else if \<not> event_exists W (we_event e) then Inl EventTarget
      else Inr ())"

text \<open>A validated \<open>Case\<close> is its specification.\<close>

definition case_new :: "world \<Rightarrow> case_spec \<Rightarrow> world_error + case_spec" where
  "case_new W c =
     (if \<not> (MIN_TICKS \<le> ca_ticks c \<and> ca_ticks c \<le> MAX_TICKS) \<or> ca_fuel c > MAX_FUEL
        \<or> \<not> (MIN_ACTIVATION_FUEL \<le> ca_activation_fuel c \<and> ca_activation_fuel c \<le> MAX_ACTIVATION_FUEL)
      then Inl Budget
      else if ca_loading_work c > MAX_LOADING_WORK then Inl LoadingWork
      else if length (ca_events c) > MAX_WORLD_EVENTS then Inl EntityLimits
      else bindR (allR (check_event W (ca_ticks c)) (ca_events c)) (\<lambda>_. Inr c))"

record assignment =
  as_programs :: "program list"
  as_cells :: "u16 list"

definition check_rule :: "world \<Rightarrow> rule \<Rightarrow> world_error + unit" where
  "check_rule W r =
     (case ru_action r of
        Route v _ \<Rightarrow> if \<not> list_ex (\<lambda>e. va_id e = v) (wd_valves W) then Inl WUnknownValve else Inr ()
      | _ \<Rightarrow> Inr ())"

definition bind_cell :: "world \<Rightarrow> (u16 \<times> program) list \<Rightarrow> assignment \<Rightarrow> cell_body \<Rightarrow> world_error + assignment" where
  "bind_cell W programs a c =
     bindR (ok_or AssignmentCells (find (\<lambda>(i, _). i = cb_id c) programs)) (\<lambda>(_, p).
     bindR (allR (check_rule W) (pg_rules p)) (\<lambda>_.
       Inr \<lparr>as_programs = as_programs a @ [p], as_cells = as_cells a @ [cb_id c]\<rparr>))"

definition assignment_validate :: "world \<Rightarrow> (u16 \<times> program) list \<Rightarrow> world_error + assignment" where
  "assignment_validate W programs =
     (if length programs \<noteq> length (wd_cells W) \<or> \<not> ascending (map fst programs) then Inl AssignmentCells
      else foldR (bind_cell W programs) \<lparr>as_programs = [], as_cells = []\<rparr> (wd_cells W))"

end
