(* ===== verification/Fault_State.thy ===== *)
theory Fault_State
  imports Rust_Prelude
begin

text \<open>
  Fallible code that mutates what it borrows: a computation takes the borrowed state and
  returns a \<open>Result\<close> together with the state as it is left, also on \<open>Err\<close>, because an early
  return does not undo the writes made before it. The section after the combinators is a
  weakest-precondition calculus with one postcondition for \<open>Ok\<close> and one for \<open>Err\<close>; its
  equations (\<open>wp_simps\<close>) and loop rules carry the proofs about the witness machine.
\<close>

type_synonym ('f, 's, 'a) fallible = "'s \<Rightarrow> ('f + 'a) \<times> 's"

definition retM :: "'a \<Rightarrow> ('f, 's, 'a) fallible" where
  "retM x = (\<lambda>s. (Inr x, s))"

definition raiseM :: "'f \<Rightarrow> ('f, 's, 'a) fallible" where
  "raiseM f = (\<lambda>s. (Inl f, s))"

definition bindM :: "('f, 's, 'a) fallible \<Rightarrow> ('a \<Rightarrow> ('f, 's, 'b) fallible) \<Rightarrow> ('f, 's, 'b) fallible" where
  "bindM m k = (\<lambda>s. case m s of (Inl f, s') \<Rightarrow> (Inl f, s') | (Inr x, s') \<Rightarrow> k x s')"

definition readM :: "('s \<Rightarrow> 'a) \<Rightarrow> ('f, 's, 'a) fallible" where
  "readM g = (\<lambda>s. (Inr (g s), s))"

definition modifyM :: "('s \<Rightarrow> 's) \<Rightarrow> ('f, 's, unit) fallible" where
  "modifyM g = (\<lambda>s. (Inr (), g s))"

text \<open>\<open>option.ok_or(f)?\<close> and \<open>result.map_err(h)?\<close>.\<close>

definition okM :: "'f \<Rightarrow> 'a option \<Rightarrow> ('f, 's, 'a) fallible" where
  "okM f x = (case x of None \<Rightarrow> raiseM f | Some v \<Rightarrow> retM v)"

definition liftM :: "('e \<Rightarrow> 'f) \<Rightarrow> 'e + 'a \<Rightarrow> ('f, 's, 'a) fallible" where
  "liftM h r = (case r of Inl e \<Rightarrow> raiseM (h e) | Inr x \<Rightarrow> retM x)"

definition requireM :: "bool \<Rightarrow> 'f \<Rightarrow> ('f, 's, unit) fallible" where
  "requireM c f = (if c then retM () else raiseM f)"

text \<open>\<open>xs[i]\<close>: an index out of range is a panic, given as a fault of its own.\<close>

definition atM :: "'f \<Rightarrow> 'a list \<Rightarrow> nat \<Rightarrow> ('f, 's, 'a) fallible" where
  "atM panic xs i = (if i < length xs then retM (xs ! i) else raiseM panic)"

text \<open>\<open>for x in xs { body(x)?; }\<close>\<close>

fun forM :: "'a list \<Rightarrow> ('a \<Rightarrow> ('f, 's, unit) fallible) \<Rightarrow> ('f, 's, unit) fallible" where
  "forM [] body = retM ()"
| "forM (x # xs) body = bindM (body x) (\<lambda>_. forM xs body)"

lemma bind_at: "i < length xs \<Longrightarrow> bindM (atM f xs i) k = k (xs ! i)"
  by (simp add: fun_eq_iff bindM_def atM_def retM_def)

section \<open>Weakest preconditions\<close>

named_theorems wp_simps \<open>weakest preconditions of the combinators\<close>

definition wp :: "('f, 's, 'a) fallible \<Rightarrow> ('a \<Rightarrow> 's \<Rightarrow> bool) \<Rightarrow> ('f \<Rightarrow> 's \<Rightarrow> bool) \<Rightarrow> 's \<Rightarrow> bool" where
  "wp m Q E s = (case m s of (Inl f, s') \<Rightarrow> E f s' | (Inr x, s') \<Rightarrow> Q x s')"

lemma wp_ret [wp_simps]: "wp (retM x) Q E s = Q x s"
  by (simp add: wp_def retM_def)

lemma wp_raise [wp_simps]: "wp (raiseM f) Q E s = E f s"
  by (simp add: wp_def raiseM_def)

lemma wp_read [wp_simps]: "wp (readM g) Q E s = Q (g s) s"
  by (simp add: wp_def readM_def)

lemma wp_modify [wp_simps]: "wp (modifyM g) Q E s = Q () (g s)"
  by (simp add: wp_def modifyM_def)

lemma wp_bind [wp_simps]: "wp (bindM m k) Q E s = wp m (\<lambda>x. wp (k x) Q E) E s"
  by (simp add: wp_def bindM_def split: prod.split sum.split)

lemma wp_ok [wp_simps]: "wp (okM f x) Q E s = (case x of None \<Rightarrow> E f s | Some v \<Rightarrow> Q v s)"
  by (simp add: okM_def wp_ret wp_raise split: option.split)

lemma wp_lift [wp_simps]: "wp (liftM h r) Q E s = (case r of Inl e \<Rightarrow> E (h e) s | Inr v \<Rightarrow> Q v s)"
  by (simp add: liftM_def wp_ret wp_raise split: sum.split)

lemma wp_require [wp_simps]: "wp (requireM c f) Q E s = (if c then Q () s else E f s)"
  by (simp add: requireM_def wp_ret wp_raise)

lemma wp_at [wp_simps]: "wp (atM f xs i) Q E s = (if i < length xs then Q (xs ! i) s else E f s)"
  by (simp add: atM_def wp_ret wp_raise)

lemma wp_if [wp_simps]: "wp (if c then m else n) Q E s = (if c then wp m Q E s else wp n Q E s)"
  by simp

lemma wp_mono:
  assumes "wp m Q E s" and "\<And>x s'. Q x s' \<Longrightarrow> Q' x s'" and "\<And>f s'. E f s' \<Longrightarrow> E' f s'"
  shows "wp m Q' E' s"
  using assms by (auto simp: wp_def split: prod.splits sum.splits)

lemma wp_conj: "wp m Q E s \<Longrightarrow> wp m Q' E' s \<Longrightarrow> wp m (\<lambda>x s'. Q x s' \<and> Q' x s') (\<lambda>f s'. E f s' \<and> E' f s') s"
  by (auto simp: wp_def split: prod.splits sum.splits)

lemma wpD: "wp m Q E s \<Longrightarrow> m s = (Inr x, s') \<Longrightarrow> Q x s'"
  by (simp add: wp_def)

lemma wpD_err: "wp m Q E s \<Longrightarrow> m s = (Inl f, s') \<Longrightarrow> E f s'"
  by (simp add: wp_def)

text \<open>A loop keeps what every turn of it keeps; the body may use that its element is in the list.\<close>

lemma wp_forM:
  assumes "I s"
    and "\<And>x s. x \<in> set xs \<Longrightarrow> I s \<Longrightarrow> wp (body x) (\<lambda>_. I) E s"
  shows "wp (forM xs body) (\<lambda>_. I) E s"
  using assms
proof (induction xs arbitrary: s)
  case Nil
  then show ?case by (simp add: wp_simps)
next
  case (Cons x xs)
  have "wp (body x) (\<lambda>_. wp (forM xs body) (\<lambda>_. I) E) E s"
    by (rule wp_mono [OF Cons.prems(2) [OF _ Cons.prems(1)]]) (use Cons in auto)
  then show ?case by (simp add: wp_simps)
qed

text \<open>The same with an invariant that counts the turns already made.\<close>

lemma wp_forM_indexed:
  assumes "I k s"
    and "\<And>i s. i < length xs \<Longrightarrow> I (k + i) s \<Longrightarrow> wp (body (xs ! i)) (\<lambda>_. I (Suc (k + i))) E s"
  shows "wp (forM xs body) (\<lambda>_. I (k + length xs)) E s"
  using assms
proof (induction xs arbitrary: s k)
  case Nil
  then show ?case by (simp add: wp_simps)
next
  case (Cons x xs)
  have rest: "wp (forM xs body) (\<lambda>_. I (Suc k + length xs)) E s'" if "I (Suc k) s'" for s'
    by (rule Cons.IH [OF that]) (use Cons.prems(2) [of "Suc _"] in force)
  have "wp (body x) (\<lambda>_. I (Suc k)) E s" using Cons.prems(2) [of 0 s] Cons.prems(1) by simp
  then have "wp (body x) (\<lambda>_. wp (forM xs body) (\<lambda>_. I (Suc k + length xs)) E) E s"
    by (rule wp_mono) (use rest in simp_all)
  then show ?case by (simp add: wp_simps)
qed

end
