(* ===== verification/Witness_Ledger.thy ===== *)
theory Witness_Ledger
  imports Fault_State
begin

text \<open>
  The work ledger of the witness platform (\<open>ledger.rs\<close>): thirteen \<open>u64\<close> counters, the meter with
  its total fuel and activation window, and the batched charge. \<open>charge_effect\<close> is the closed
  form of a charge on a meter within its bounds; \<open>charge_loop_eq\<close> shows it equal to the
  loop that charges one unit at a time, which the batched code replaces.
\<close>

section \<open>Operations\<close>

datatype stop = StopFuel | StopActivation

datatype meter_error = MStop stop | MArithmetic

datatype category =
    Loading | Scheduling | Conditions | Sensors | MemoryReads | MemoryWrites | Actions | Messages
  | Transfers | Checking | Draining

record work_ledger =
  wl_loading :: u64
  wl_scheduling :: u64
  wl_conditions :: u64
  wl_sensors :: u64
  wl_memory_reads :: u64
  wl_memory_writes :: u64
  wl_actions :: u64
  wl_messages :: u64
  wl_transfers :: u64
  wl_checking :: u64
  wl_draining :: u64
  wl_copying :: u64
  wl_construction :: u64

definition ledger_fields :: "work_ledger \<Rightarrow> u64 list" where
  "ledger_fields l =
     [wl_loading l, wl_scheduling l, wl_conditions l, wl_sensors l, wl_memory_reads l, wl_memory_writes l,
      wl_actions l, wl_messages l, wl_transfers l, wl_checking l, wl_draining l, wl_copying l, wl_construction l]"

definition ledger_total :: "work_ledger \<Rightarrow> unit + u64" where
  "ledger_total l = foldR (\<lambda>sum value. ok_or () (checked_add sum value)) 0 (ledger_fields l)"

definition ledger_counter :: "category \<Rightarrow> work_ledger \<Rightarrow> u64" where
  "ledger_counter c l =
     (case c of Loading \<Rightarrow> wl_loading l | Scheduling \<Rightarrow> wl_scheduling l | Conditions \<Rightarrow> wl_conditions l
      | Sensors \<Rightarrow> wl_sensors l | MemoryReads \<Rightarrow> wl_memory_reads l | MemoryWrites \<Rightarrow> wl_memory_writes l
      | Actions \<Rightarrow> wl_actions l | Messages \<Rightarrow> wl_messages l | Transfers \<Rightarrow> wl_transfers l
      | Checking \<Rightarrow> wl_checking l | Draining \<Rightarrow> wl_draining l)"

definition set_counter :: "category \<Rightarrow> u64 \<Rightarrow> work_ledger \<Rightarrow> work_ledger" where
  "set_counter c v l =
     (case c of Loading \<Rightarrow> l\<lparr>wl_loading := v\<rparr> | Scheduling \<Rightarrow> l\<lparr>wl_scheduling := v\<rparr> | Conditions \<Rightarrow> l\<lparr>wl_conditions := v\<rparr>
      | Sensors \<Rightarrow> l\<lparr>wl_sensors := v\<rparr> | MemoryReads \<Rightarrow> l\<lparr>wl_memory_reads := v\<rparr> | MemoryWrites \<Rightarrow> l\<lparr>wl_memory_writes := v\<rparr>
      | Actions \<Rightarrow> l\<lparr>wl_actions := v\<rparr> | Messages \<Rightarrow> l\<lparr>wl_messages := v\<rparr> | Transfers \<Rightarrow> l\<lparr>wl_transfers := v\<rparr>
      | Checking \<Rightarrow> l\<lparr>wl_checking := v\<rparr> | Draining \<Rightarrow> l\<lparr>wl_draining := v\<rparr>)"

record meter =
  me_ledger :: work_ledger
  me_fuel :: u64
  me_activation :: "(u64 \<times> u32) option"

definition meter_new :: "u64 \<Rightarrow> meter" where
  "meter_new fuel =
     \<lparr>me_ledger = \<lparr>wl_loading = 0, wl_scheduling = 0, wl_conditions = 0, wl_sensors = 0, wl_memory_reads = 0,
        wl_memory_writes = 0, wl_actions = 0, wl_messages = 0, wl_transfers = 0, wl_checking = 0, wl_draining = 0,
        wl_copying = 0, wl_construction = 0\<rparr>,
      me_fuel = fuel, me_activation = None\<rparr>"

definition saturating_sub :: "u64 \<Rightarrow> u64 \<Rightarrow> u64" where
  "saturating_sub a b = (if a < b then 0 else a - b)"

definition checked_sub :: "'a::len word \<Rightarrow> 'a word \<Rightarrow> 'a word option" where
  "checked_sub a b = (if a < b then None else Some (a - b))"

definition meter_total :: "meter \<Rightarrow> unit + u64" where
  "meter_total m = ledger_total (me_ledger m)"

definition activation_room :: "meter \<Rightarrow> u64 \<Rightarrow> unit + u64" where
  "activation_room m tot =
     (case me_activation m of
        None \<Rightarrow> Inr (- 1)
      | Some (start, limit) \<Rightarrow>
          bindR (ok_or () (checked_sub tot start)) (\<lambda>spent. Inr (saturating_sub (ucast limit) spent)))"

definition meter_charge :: "category \<Rightarrow> u64 \<Rightarrow> (meter_error, meter, unit) fallible" where
  "meter_charge c amount m =
     (case bindR (meter_total m) (\<lambda>tot. bindR (activation_room m tot) (\<lambda>room. Inr (tot, room))) of
        Inl _ \<Rightarrow> (Inl MArithmetic, m)
      | Inr (tot, room) \<Rightarrow>
          let allowed = min (min amount (saturating_sub (me_fuel m) tot)) room in
          case checked_add (ledger_counter c (me_ledger m)) allowed of
            None \<Rightarrow> (Inl MArithmetic, m)
          | Some v \<Rightarrow>
              let m' = m\<lparr>me_ledger := set_counter c v (me_ledger m)\<rparr> in
              if allowed = amount then (Inr (), m')
              else case meter_total m' of
                     Inl _ \<Rightarrow> (Inl MArithmetic, m')
                   | Inr tot \<Rightarrow> (Inl (MStop (if tot \<ge> me_fuel m' then StopFuel else StopActivation)), m'))"

definition begin_activation :: "u32 \<Rightarrow> (unit, meter, unit) fallible" where
  "begin_activation limit m =
     (case meter_total m of Inl e \<Rightarrow> (Inl e, m) | Inr tot \<Rightarrow> (Inr (), m\<lparr>me_activation := Some (tot, limit)\<rparr>))"

definition end_activation :: "meter \<Rightarrow> meter" where
  "end_activation m = m\<lparr>me_activation := None\<rparr>"

section \<open>Totals\<close>

definition ledger_sum :: "work_ledger \<Rightarrow> nat" where
  "ledger_sum l = sum_list (map unat (ledger_fields l))"

lemma checked_sum:
  assumes "unat s + sum_list (map unat vs) < 2 ^ LENGTH('a)"
  shows "foldR (\<lambda>sum (value :: 'a::len word). ok_or () (checked_add sum value)) s vs
       = Inr (s + sum_list vs) \<and> unat (s + sum_list vs) = unat s + sum_list (map unat vs)"
  using assms
proof (induction vs arbitrary: s)
  case (Cons v vs)
  then have "unat (s + v) = unat s + unat v" by (intro unat_plus_noloss) simp
  then show ?case using Cons.IH [of "s + v"] Cons.prems by (simp add: checked_add_def add.assoc)
qed simp

lemma ledger_total_ok:
  assumes "ledger_sum l < 2 ^ 64"
  obtains t where "ledger_total l = Inr t" "unat t = ledger_sum l"
  using checked_sum [of 0 "ledger_fields l"] assms by (auto simp: ledger_total_def ledger_sum_def)

lemma ledger_sum_set: "ledger_sum (set_counter c v l) + unat (ledger_counter c l) = ledger_sum l + unat v"
  by (cases c) (simp_all add: ledger_sum_def ledger_fields_def set_counter_def ledger_counter_def)

lemma counter_le_sum: "unat (ledger_counter c l) \<le> ledger_sum l"
  by (cases c) (simp_all add: ledger_sum_def ledger_fields_def ledger_counter_def)

lemma counter_set: "ledger_counter d (set_counter c v l) = (if d = c then v else ledger_counter d l)"
  by (cases c; cases d) (simp_all add: set_counter_def ledger_counter_def)

section \<open>A meter within its bounds\<close>

definition meter_ok :: "meter \<Rightarrow> bool" where
  "meter_ok m \<longleftrightarrow> ledger_sum (me_ledger m) \<le> unat (me_fuel m) \<and> unat (me_fuel m) \<le> 2000000
     \<and> (case me_activation m of None \<Rightarrow> True
        | Some (start, limit) \<Rightarrow> unat start \<le> ledger_sum (me_ledger m)
            \<and> ledger_sum (me_ledger m) \<le> unat start + unat limit)"

lemma meter_ok_new: "unat fuel \<le> 2000000 \<Longrightarrow> meter_ok (meter_new fuel)"
  by (simp add: meter_ok_def meter_new_def ledger_sum_def ledger_fields_def)

definition meter_room :: "meter \<Rightarrow> nat" where
  "meter_room m =
     min (unat (me_fuel m) - ledger_sum (me_ledger m))
         (case me_activation m of None \<Rightarrow> 2 ^ 64 - 1
          | Some (start, limit) \<Rightarrow> unat limit - (ledger_sum (me_ledger m) - unat start))"

definition charged :: "category \<Rightarrow> nat \<Rightarrow> meter \<Rightarrow> meter" where
  "charged c n m = m\<lparr>me_ledger := set_counter c (ledger_counter c (me_ledger m) + word_of_nat n) (me_ledger m)\<rparr>"

lemma charged_select [simp]:
  "me_fuel (charged c n m) = me_fuel m" "me_activation (charged c n m) = me_activation m"
  by (simp_all add: charged_def)

lemma charged_counter:
  assumes "meter_ok m" and "n \<le> meter_room m"
  shows "unat (ledger_counter d (me_ledger (charged c n m)))
    = unat (ledger_counter d (me_ledger m)) + (if d = c then n else 0)"
proof -
  have "unat (ledger_counter c (me_ledger m)) + n < 2 ^ 64"
    using assms counter_le_sum [of c "me_ledger m"] by (auto simp: meter_ok_def meter_room_def)
  then show ?thesis by (simp add: charged_def counter_set unat_word_ariths unat_of_nat)
qed

lemma charged_sum:
  assumes "meter_ok m" and "n \<le> meter_room m"
  shows "ledger_sum (me_ledger (charged c n m)) = ledger_sum (me_ledger m) + n"
  using ledger_sum_set [of c "ledger_counter c (me_ledger m) + word_of_nat n" "me_ledger m"]
    charged_counter [OF assms, of c c]
  by (simp add: charged_def counter_set)

lemma charged_ok:
  assumes "meter_ok m" and "n \<le> meter_room m"
  shows "meter_ok (charged c n m)"
  using assms charged_sum [OF assms, of c]
  by (auto simp: meter_ok_def meter_room_def split: option.splits)

lemma meter_room_charged:
  assumes "meter_ok m" and "n \<le> meter_room m"
  shows "meter_room (charged c n m) = meter_room m - n \<or> me_activation m = None"
  using assms charged_sum [OF assms, of c]
  by (auto simp: meter_ok_def meter_room_def split: option.splits)

lemma activation_room_ok:
  assumes "meter_ok m" and "unat t = ledger_sum (me_ledger m)"
  obtains r where "activation_room m t = Inr r"
    "unat r = (case me_activation m of None \<Rightarrow> 2 ^ 64 - 1 | Some (start, limit) \<Rightarrow> unat limit - (ledger_sum (me_ledger m) - unat start))"
proof (cases "me_activation m")
  case None
  show ?thesis
    by (rule that [of "- 1"]) (simp_all add: activation_room_def None unsigned_minus_1_eq_mask mask_eq_exp_minus_1)
next
  case (Some w)
  obtain start limit where w: "w = (start, limit)" by (cases w)
  have le: "start \<le> t" using assms by (simp add: meter_ok_def Some w word_le_nat_alt)
  have u: "unat (ucast limit :: u64) = unat limit" 
    using unsigned_less [where 'a = nat, of limit] by (simp add: unsigned_ucast_eq take_bit_nat_eq_self)
  have d: "unat (t - start) = ledger_sum (me_ledger m) - unat start" using le assms(2) by (simp add: unat_sub)
  show ?thesis
    by (rule that [of "saturating_sub (ucast limit) (t - start)"])
       (use le u d in \<open>auto simp: activation_room_def Some w checked_sub_def saturating_sub_def word_less_nat_alt
          word_le_nat_alt unat_sub not_less\<close>)
qed

text \<open>A charge takes as many units as both bounds leave and stops with fuel taking precedence.\<close>

lemma charge_effect:
  assumes ok: "meter_ok m"
  shows "meter_charge c amount m =
    (let n = min (unat amount) (meter_room m); m' = charged c n m in
     (if n = unat amount then Inr ()
      else Inl (MStop (if ledger_sum (me_ledger m) + n \<ge> unat (me_fuel m) then StopFuel else StopActivation)), m'))"
proof -
  define n where "n = min (unat amount) (meter_room m)"
  have small: "ledger_sum (me_ledger m) < 2 ^ 64" using ok by (simp add: meter_ok_def)
  obtain t where t: "ledger_total (me_ledger m) = Inr t" "unat t = ledger_sum (me_ledger m)"
    by (rule ledger_total_ok [OF small])
  obtain r where r: "activation_room m t = Inr r" and ur: "unat r = (case me_activation m of None \<Rightarrow> 2 ^ 64 - 1
      | Some (start, limit) \<Rightarrow> unat limit - (ledger_sum (me_ledger m) - unat start))"
    by (rule activation_room_ok [OF ok t(2)])
  define allowed where "allowed = min (min amount (saturating_sub (me_fuel m) t)) r"
  have "unat (saturating_sub (me_fuel m) t) = unat (me_fuel m) - ledger_sum (me_ledger m)"
    using t(2) by (auto simp: saturating_sub_def word_less_nat_alt unat_sub word_le_nat_alt not_less)
  then have ua: "unat allowed = n"
    using ur by (simp add: allowed_def min_def word_le_nat_alt meter_room_def n_def)
  then have aw: "allowed = word_of_nat n" by (simp flip: ua)
  have room: "n \<le> meter_room m" by (simp add: n_def)
  have fit: "unat (ledger_counter c (me_ledger m)) + n < 2 ^ 64"
    using ok counter_le_sum [of c "me_ledger m"] room by (auto simp: meter_ok_def meter_room_def)
  then have add: "checked_add (ledger_counter c (me_ledger m)) allowed = Some (ledger_counter c (me_ledger m) + allowed)"
    using ua by (simp add: checked_add_def)
  have m': "m\<lparr>me_ledger := set_counter c (ledger_counter c (me_ledger m) + allowed) (me_ledger m)\<rparr> = charged c n m"
    by (simp add: charged_def aw)
  have "ledger_sum (me_ledger (charged c n m)) < 2 ^ 64"
    using charged_ok [OF ok room, of c] by (simp add: meter_ok_def)
  then obtain t' where t': "ledger_total (me_ledger (charged c n m)) = Inr t'"
    "unat t' = ledger_sum (me_ledger (charged c n m))" by (rule ledger_total_ok)
  have eq: "allowed = amount \<longleftrightarrow> n = unat amount" using ua by (simp add: word_unat_eq_iff)
  have "unat t' = ledger_sum (me_ledger m) + n" using t'(2) charged_sum [OF ok room] by simp
  then show ?thesis
    using t r add eq t'(1)
    by (simp add: meter_charge_def meter_total_def m' Let_def word_le_nat_alt flip: allowed_def n_def)
qed

section \<open>The unit loop\<close>

text \<open>One unit at a time, as the engine this ledger restates charges.\<close>

fun charge_units :: "nat \<Rightarrow> category \<Rightarrow> meter \<Rightarrow> (stop + unit) \<times> meter" where
  "charge_units 0 c m = (Inr (), m)"
| "charge_units (Suc n) c m =
     (if ledger_sum (me_ledger m) \<ge> unat (me_fuel m) then (Inl StopFuel, m)
      else if (case me_activation m of None \<Rightarrow> False
               | Some (start, limit) \<Rightarrow> ledger_sum (me_ledger m) - unat start \<ge> unat limit) then (Inl StopActivation, m)
      else charge_units n c (m\<lparr>me_ledger := set_counter c (ledger_counter c (me_ledger m) + 1) (me_ledger m)\<rparr>))"

lemma charged_0 [simp]: "charged c 0 m = m"
  by (cases c; cases m) (simp_all add: charged_def set_counter_def ledger_counter_def)

lemma set_counter_twice: "set_counter c v (set_counter c w l) = set_counter c v l"
  by (cases c) (simp_all add: set_counter_def)

lemma charged_Suc: "charged c n (charged c 1 m) = charged c (Suc n) m"
  by (simp add: charged_def counter_set set_counter_twice ac_simps)

lemma charge_units_effect:
  assumes "meter_ok m"
  shows "charge_units n c m =
    (let k = min n (meter_room m) in
     (if k = n then Inr () else Inl (if ledger_sum (me_ledger m) + k \<ge> unat (me_fuel m) then StopFuel else StopActivation),
      charged c k m))"
  using assms
proof (induction n arbitrary: m)
  case (Suc n)
  have bounds: "ledger_sum (me_ledger m) \<le> unat (me_fuel m)" "unat (me_fuel m) \<le> 2000000" using Suc.prems by (auto simp: meter_ok_def)
  show ?case
  proof (cases "meter_room m = 0")
    case True
    then show ?thesis using bounds by (auto simp: meter_room_def Let_def split: option.splits)
  next
    case False
    then have one: "1 \<le> meter_room m" by simp
    note ok = charged_ok [OF Suc.prems one, of c] and sum = charged_sum [OF Suc.prems one, of c]
    have units: "charge_units (Suc n) c m = charge_units n c (charged c 1 m)"
      using False by (auto simp: meter_room_def charged_def split: option.splits)
    have room: "meter_room (charged c 1 m) = meter_room m - 1"
    proof (cases "me_activation m")
      case None
      then show ?thesis using bounds sum by (simp add: meter_room_def)
    next
      case (Some w)
      then show ?thesis using Suc.prems sum by (cases w) (simp add: meter_room_def meter_ok_def)
    qed
    define k where "k = min n (meter_room m - 1)"
    have k: "min (Suc n) (meter_room m) = Suc k" using one by (simp add: k_def)
    show ?thesis
      unfolding units Suc.IH [OF ok] Let_def room k_def [symmetric] charged_Suc k using sum by simp
  qed
qed simp

lemma charge_loop_eq:
  assumes "meter_ok m"
  shows "meter_charge c amount m = apfst (map_err MStop) (charge_units (unat amount) c m)"
  unfolding charge_effect [OF assms] charge_units_effect [OF assms] by (simp add: Let_def)

section \<open>Charging as a computation\<close>

lemma wp_charge:
  assumes "meter_ok m"
    and "\<And>m'. \<lbrakk>m' = charged c (unat amount) m; unat amount \<le> meter_room m; meter_ok m'\<rbrakk> \<Longrightarrow> Q () m'"
    and "\<And>m' st. \<lbrakk>m' = charged c (meter_room m) m; meter_ok m'; meter_room m < unat amount;
           st = StopFuel \<longleftrightarrow> ledger_sum (me_ledger m') = unat (me_fuel m)\<rbrakk> \<Longrightarrow> E (MStop st) m'"
  shows "wp (meter_charge c amount) Q E m"
proof (cases "unat amount \<le> meter_room m")
  case True
  then show ?thesis
    using assms(2) charged_ok [OF assms(1) True, of c] by (simp add: wp_def charge_effect [OF assms(1)] Let_def)
next
  case False
  then have n: "min (unat amount) (meter_room m) = meter_room m" "meter_room m \<noteq> unat amount" by auto
  have ok: "meter_ok (charged c (meter_room m) m)" by (rule charged_ok [OF assms(1)]) simp
  have "ledger_sum (me_ledger m) + meter_room m \<ge> unat (me_fuel m)
      \<longleftrightarrow> ledger_sum (me_ledger (charged c (meter_room m) m)) = unat (me_fuel m)"
    using ok charged_sum [OF assms(1), of "meter_room m" c] by (auto simp: meter_ok_def)
  then show ?thesis
    using assms(3) [OF refl ok] False n by (auto simp: wp_def charge_effect [OF assms(1)] Let_def)
qed

end
