(* ===== verification/Witness_VM.thy ===== *)
theory Witness_VM
  imports Witness_Model Witness_Ledger
begin

unbundle bit_operations_syntax

text \<open>
  The witness machine (\<open>vm.rs\<close>): its state, the activation of one cell, the tick, and the run of a
  case. Every function that borrows mutable state is a \<open>fallible\<close> computation over what it
  borrows, so a fuel stop in the middle of a tick leaves the partial state the source leaves.
  \<open>RPanic\<close> stands for an index out of range, which in the source is a panic. The observer of a run
  is the list of frames it is shown.
\<close>

section \<open>State\<close>

record signal =
  sg_id :: u64
  sg_link :: u16
  sg_from :: endpoint
  sg_to_cell :: u16
  sg_to_port :: port
  sg_bit :: bool
  sg_sent_tick :: u32
  sg_deliver_tick :: u32
  sg_receipt_spark :: "u32 option"

datatype signal_outcome = SigQueued | SigDisabled | SigNotAdjacent | SigFull | SigDelivered | SigExpired | SigConsumed

record signal_event =
  ev_signal :: signal
  ev_outcome :: signal_outcome

record cell_state =
  cs_id :: u16
  cs_position :: point
  cs_heading :: direction
  cs_memory :: "u8 list"
  cs_evidence :: "u32 option list"
  cs_cargo :: "spark option"
  cs_inbox :: "signal option list"

record source_state =
  ss_id :: u16
  ss_sparks :: "spark list"

record depot_state =
  ds_id :: u16
  ds_sparks :: "spark list"

record beacon_state =
  bs_id :: u16
  bs_charge :: u32
  bs_delivered :: u32
  bs_drained :: u32
  bs_exhausted :: bool

record enabled_state =
  es_id :: u16
  es_enabled :: bool

record delivery =
  dl_tick :: u32
  dl_spark :: spark
  dl_beacon :: u16

record vm_state =
  st_tick :: u32
  st_cells :: "cell_state list"
  st_sources :: "source_state list"
  st_depots :: "depot_state list"
  st_beacons :: "beacon_state list"
  st_valves :: "enabled_state list"
  st_links :: "enabled_state list"
  st_pending :: "signal list"
  st_delivered :: "delivery list"
  st_next_signal :: u64

definition state_allocated :: "world \<Rightarrow> vm_state" where
  "state_allocated W =
     \<lparr>st_tick = 0, st_cells = [],
      st_sources = map (\<lambda>s. \<lparr>ss_id = so_id s, ss_sparks = []\<rparr>) (wd_sources W),
      st_depots = map (\<lambda>d. \<lparr>ds_id = dp_id d, ds_sparks = []\<rparr>) (wd_depots W),
      st_beacons = [], st_valves = [], st_links = [], st_pending = [], st_delivered = [], st_next_signal = 1\<rparr>"

definition state_initial :: "world \<Rightarrow> vm_state" where
  "state_initial W = (state_allocated W)
     \<lparr>st_cells := map (\<lambda>c. \<lparr>cs_id = cb_id c, cs_position = cb_position c, cs_heading = cb_heading c,
         cs_memory = cb_memory c, cs_evidence = replicate 4 None, cs_cargo = None, cs_inbox = replicate 4 None\<rparr>) (wd_cells W),
      st_sources := map2 (\<lambda>e s. e\<lparr>ss_sparks := ss_sparks e @ so_sparks s\<rparr>) (st_sources (state_allocated W)) (wd_sources W),
      st_beacons := map (\<lambda>b. \<lparr>bs_id = bc_id b, bs_charge = bc_initial_charge b, bs_delivered = 0, bs_drained = 0,
         bs_exhausted = False\<rparr>) (wd_beacons W),
      st_valves := map (\<lambda>v. \<lparr>es_id = va_id v, es_enabled = va_enabled v\<rparr>) (wd_valves W),
      st_links := map (\<lambda>l. \<lparr>es_id = lk_id l, es_enabled = lk_enabled l\<rparr>) (wd_links W)\<rparr>"

fun copy_entries :: "'a list \<Rightarrow> 'a list \<Rightarrow> 'a list" where
  "copy_entries (x # xs) (y # ys) = y # copy_entries xs ys"
| "copy_entries xs _ = xs"

definition copy_from :: "vm_state \<Rightarrow> vm_state \<Rightarrow> vm_state" where
  "copy_from self other =
     self\<lparr>st_tick := st_tick other, st_cells := st_cells other,
       st_sources := copy_entries (st_sources self) (st_sources other),
       st_depots := copy_entries (st_depots self) (st_depots other),
       st_beacons := st_beacons other, st_valves := st_valves other, st_links := st_links other,
       st_pending := st_pending other, st_delivered := st_delivered other, st_next_signal := st_next_signal other\<rparr>"

datatype action_error =
    MovementBlocked | CargoFull | NotAtSource | SourceEmpty | CargoEmpty | DepotFull | BeaconRejectsBit | NotAtReceiver
  | NoMessage | NoSignalQueued | UnknownValve | ValveNotAdjacent | ValveDisabled | DepotEmpty

datatype activation_error = AFuelExhausted | AActivationLimit | AAction action_error

record activation =
  av_cell :: u16
  av_rule :: "u8 option"
  av_action :: action
  av_success :: bool
  av_error :: "activation_error option"
  av_position_before :: point
  av_position_after :: point
  av_work_before :: u64
  av_work_after :: u64

datatype run_status = Complete | FuelExhausted | ActivationLimit

record outcome =
  oc_all_beacons_positive :: bool
  oc_quotas_met :: bool
  oc_conserved :: bool
  oc_passed :: bool

record run_result =
  rr_status :: run_status
  rr_ticks_completed :: u32
  rr_initial_sparks :: u32
  rr_ledger :: work_ledger
  rr_outcome :: outcome
  rr_final_state :: vm_state

datatype run_error = RArithmetic | RInvariant | RAssignmentMismatch | RPanic

record frame_view =
  fv_tick :: u32
  fv_complete :: bool
  fv_events :: "world_event_kind list"
  fv_signals :: "signal_event list"
  fv_activations :: "activation list"
  fv_state :: vm_state
  fv_ledger :: work_ledger

datatype fault = FStop stop | FAction action_error | FInternal run_error

definition fault_of_meter :: "meter_error \<Rightarrow> fault" where
  "fault_of_meter e = (case e of MStop s \<Rightarrow> FStop s | MArithmetic \<Rightarrow> FInternal RArithmetic)"

abbreviation arithmetic :: fault where "arithmetic \<equiv> FInternal RArithmetic"
abbreviation invariant :: fault where "invariant \<equiv> FInternal RInvariant"
abbreviation panic :: fault where "panic \<equiv> FInternal RPanic"

section \<open>Geometry and order\<close>

definition count :: "nat \<Rightarrow> run_error + u64" where
  "count len = (if len < 2 ^ 64 then Inr (word_of_nat len) else Inl RArithmetic)"

definition mix :: "u64 \<Rightarrow> u64" where
  "mix v0 =
     (let v1 = v0 + 0x9e3779b97f4a7c15;
          v2 = (v1 XOR drop_bit 30 v1) * 0xbf58476d1ce4e5b9;
          v3 = (v2 XOR drop_bit 27 v2) * 0x94d049bb133111eb
      in v3 XOR drop_bit 31 v3)"

definition destination :: "point \<Rightarrow> direction \<Rightarrow> relative \<Rightarrow> point option" where
  "destination p heading d =
     (case face heading d of
        North \<Rightarrow> map_option (\<lambda>y. \<lparr>pt_x = pt_x p, pt_y = y\<rparr>) (checked_sub (pt_y p) 1)
      | East \<Rightarrow> map_option (\<lambda>x. \<lparr>pt_x = x, pt_y = pt_y p\<rparr>) (checked_add (pt_x p) 1)
      | South \<Rightarrow> map_option (\<lambda>y. \<lparr>pt_x = pt_x p, pt_y = y\<rparr>) (checked_add (pt_y p) 1)
      | West \<Rightarrow> map_option (\<lambda>x. \<lparr>pt_x = x, pt_y = pt_y p\<rparr>) (checked_sub (pt_x p) 1))"

definition blocked :: "world \<Rightarrow> vm_state \<Rightarrow> nat \<Rightarrow> relative \<Rightarrow> (fault, 's, bool) fallible" where
  "blocked W S index d =
     bindM (atM panic (st_cells S) index) (\<lambda>actor.
       retM (case destination (cs_position actor) (cs_heading actor) d of
               None \<Rightarrow> True
             | Some p \<Rightarrow> pt_x p \<ge> wd_width W \<or> pt_y p \<ge> wd_height W \<or> is_wall W p
                 \<or> list_ex (\<lambda>other. cs_id other \<noteq> cs_id actor \<and> cs_position other = p) (st_cells S)))"

definition origin_position :: "world \<Rightarrow> vm_state \<Rightarrow> endpoint \<Rightarrow> (fault, 's, point) fallible" where
  "origin_position W S e =
     (case e of
        EndCell i _ \<Rightarrow> okM invariant (map_option cs_position (find (\<lambda>c. cs_id c = i) (st_cells S)))
      | EndDepot i \<Rightarrow> okM invariant (map_option dp_position (find (\<lambda>d. dp_id d = i) (wd_depots W))))"

section \<open>Effects of an activation\<close>

text \<open>\<open>Ctx\<close> and the state borrowed beside it.\<close>

record vm_ctx =
  vx_meter :: meter
  vx_signals :: "signal_event list"
  vx_state :: vm_state

definition charge :: "category \<Rightarrow> u64 \<Rightarrow> (fault, 'x vm_ctx_scheme, unit) fallible" where
  "charge c amount x =
     (case meter_charge c amount (vx_meter x) of (r, m) \<Rightarrow> (map_err fault_of_meter r, x\<lparr>vx_meter := m\<rparr>))"

definition update :: "(vm_state \<Rightarrow> vm_state) \<Rightarrow> (fault, 'x vm_ctx_scheme, unit) fallible" where
  "update f = modifyM (\<lambda>x. x\<lparr>vx_state := f (vx_state x)\<rparr>)"

definition note_signal :: "signal \<Rightarrow> signal_outcome \<Rightarrow> (fault, 'x vm_ctx_scheme, unit) fallible" where
  "note_signal sg out = modifyM (\<lambda>x. x\<lparr>vx_signals := vx_signals x @ [\<lparr>ev_signal = sg, ev_outcome = out\<rparr>]\<rparr>)"

definition with_cell :: "nat \<Rightarrow> (cell_state \<Rightarrow> cell_state) \<Rightarrow> vm_state \<Rightarrow> vm_state" where
  "with_cell i f S = S\<lparr>st_cells := (st_cells S)[i := f (st_cells S ! i)]\<rparr>"

definition emit_link ::
    "world \<Rightarrow> endpoint \<Rightarrow> bool \<Rightarrow> u32 option \<Rightarrow> nat \<Rightarrow> link \<Rightarrow> u32 \<Rightarrow> (fault, 'x vm_ctx_scheme, u32) fallible" where
  "emit_link W e b evidence index l accepted =
     bindM (charge Messages 1) (\<lambda>_.
     bindM (charge Checking 1) (\<lambda>_.
     bindM (readM vx_state) (\<lambda>S.
     bindM (okM invariant (map_option cs_position (find (\<lambda>c. cs_id c = lk_to_cell l) (st_cells S)))) (\<lambda>recipient.
     bindM (okM arithmetic (checked_add (st_tick S) (lk_delay l))) (\<lambda>deliver.
     let sg = \<lparr>sg_id = st_next_signal S, sg_link = lk_id l, sg_from = e, sg_to_cell = lk_to_cell l,
               sg_to_port = lk_to_port l, sg_bit = b, sg_sent_tick = st_tick S, sg_deliver_tick = deliver,
               sg_receipt_spark = evidence\<rparr> in
     bindM (okM arithmetic (checked_add (st_next_signal S) 1)) (\<lambda>next_signal.
     bindM (update (\<lambda>S. S\<lparr>st_next_signal := next_signal\<rparr>)) (\<lambda>_.
     bindM (atM panic (st_links S) index) (\<lambda>entry.
     bindM (if \<not> es_enabled entry then retM (SigDisabled, accepted)
            else bindM (origin_position W S e) (\<lambda>origin.
              if distance origin recipient \<noteq> 1 then retM (SigNotAdjacent, accepted)
              else if length (st_pending S) \<ge> MAX_PENDING then retM (SigFull, accepted)
              else bindM (update (\<lambda>S. S\<lparr>st_pending := st_pending S @ [sg]\<rparr>)) (\<lambda>_.
                   bindM (okM arithmetic (checked_add accepted 1)) (\<lambda>accepted. retM (SigQueued, accepted))))) (\<lambda>(out, accepted).
     bindM (note_signal sg out) (\<lambda>_. retM accepted))))))))))"

fun emit_links ::
    "world \<Rightarrow> endpoint \<Rightarrow> bool \<Rightarrow> u32 option \<Rightarrow> (nat \<times> link) list \<Rightarrow> u32 \<Rightarrow> (fault, 'x vm_ctx_scheme, u32) fallible" where
  "emit_links W e b evidence [] accepted = retM accepted"
| "emit_links W e b evidence ((index, l) # ls) accepted =
     bindM (emit_link W e b evidence index l accepted) (\<lambda>accepted. emit_links W e b evidence ls accepted)"

definition emit :: "world \<Rightarrow> endpoint \<Rightarrow> bool \<Rightarrow> u32 option \<Rightarrow> (fault, 'x vm_ctx_scheme, u32) fallible" where
  "emit W e b evidence =
     emit_links W e b evidence (filter (\<lambda>(_, l). lk_from l = e) (enumerate 0 (wd_links W))) 0"

definition at_depot :: "world \<Rightarrow> cell_state \<Rightarrow> bool" where
  "at_depot W cell = list_ex (\<lambda>d. dp_position d = cs_position cell) (wd_depots W)"

definition at_beacon :: "world \<Rightarrow> cell_state \<Rightarrow> bool" where
  "at_beacon W cell = list_ex (\<lambda>b. bc_position b = cs_position cell) (wd_beacons W)"

definition sense :: "world \<Rightarrow> vm_state \<Rightarrow> nat \<Rightarrow> cell_state \<Rightarrow> condition \<Rightarrow> (fault, 's, bool) fallible" where
  "sense W S index cell cond =
     (case cond of
        Carrying v \<Rightarrow> retM ((cs_cargo cell \<noteq> None) = v)
      | AtSource v \<Rightarrow> retM (list_ex (\<lambda>s. so_position s = cs_position cell) (wd_sources W) = v)
      | AtDepot v \<Rightarrow> retM (at_depot W cell = v)
      | AtBeacon v \<Rightarrow> retM (at_beacon W cell = v)
      | AtReceiver v \<Rightarrow> retM ((at_depot W cell \<or> at_beacon W cell) = v)
      | Blocked d v \<Rightarrow> bindM (blocked W S index d) (\<lambda>b. retM (b = v))
      | HasMessage p v \<Rightarrow> bindM (atM panic (cs_inbox cell) (unat p)) (\<lambda>m. retM ((m \<noteq> None) = v))
      | MessageBit p v \<Rightarrow> bindM (atM panic (cs_inbox cell) (unat p)) (\<lambda>m.
          retM (case m of None \<Rightarrow> False | Some sg \<Rightarrow> sg_bit sg = v))
      | Heading d \<Rightarrow> retM (cs_heading cell = d)
      | Memory _ _ \<Rightarrow> raiseM invariant)"

definition check_condition :: "world \<Rightarrow> vm_state \<Rightarrow> nat \<Rightarrow> condition \<Rightarrow> (fault, 'x vm_ctx_scheme, bool) fallible" where
  "check_condition W S index cond =
     bindM (charge Conditions 1) (\<lambda>_.
     bindM (atM panic (st_cells S) index) (\<lambda>cell.
       case cond of
         Memory s v \<Rightarrow> bindM (charge MemoryReads 1) (\<lambda>_. bindM (atM panic (cs_memory cell) (unat s)) (\<lambda>m. retM (m = v)))
       | _ \<Rightarrow> bindM (charge Sensors 1) (\<lambda>_. sense W S index cell cond)))"

definition read_bit :: "cell_state \<Rightarrow> bit_source \<Rightarrow> (fault, 'x vm_ctx_scheme, bool \<times> u32 option) fallible" where
  "read_bit cell src =
     (case src of
        BitConstant v \<Rightarrow> bindM (charge Checking 1) (\<lambda>_. retM (v, None))
      | BitMemory s \<Rightarrow> bindM (charge MemoryReads 1) (\<lambda>_.
          bindM (atM panic (cs_memory cell) (unat s)) (\<lambda>m.
          bindM (atM panic (cs_evidence cell) (unat s)) (\<lambda>e. retM (m \<noteq> 0, e))))
      | BitMessage p \<Rightarrow> bindM (charge Sensors 1) (\<lambda>_.
          bindM (atM panic (cs_inbox cell) (unat p)) (\<lambda>m.
            okM (FAction NoMessage) (map_option (\<lambda>sg. (sg_bit sg, sg_receipt_spark sg)) m))))"

definition with_beacon :: "nat \<Rightarrow> (beacon_state \<Rightarrow> beacon_state) \<Rightarrow> vm_state \<Rightarrow> vm_state" where
  "with_beacon i f S = S\<lparr>st_beacons := (st_beacons S)[i := f (st_beacons S ! i)]\<rparr>"

definition credit :: "world \<Rightarrow> nat \<Rightarrow> spark \<Rightarrow> (fault, 'x vm_ctx_scheme, unit) fallible" where
  "credit W beacon spark =
     bindM (charge Transfers 1) (\<lambda>_.
     bindM (atM panic (wd_beacons W) beacon) (\<lambda>spec.
     bindM (readM vx_state) (\<lambda>S.
     bindM (atM panic (st_beacons S) beacon) (\<lambda>entry.
     bindM (okM arithmetic (checked_add (bs_charge entry) (bc_spark_charge spec))) (\<lambda>charge'.
     bindM (update (with_beacon beacon (\<lambda>b. b\<lparr>bs_charge := charge'\<rparr>))) (\<lambda>_.
     bindM (okM arithmetic (checked_add (bs_delivered entry) 1)) (\<lambda>delivered.
     bindM (update (with_beacon beacon (\<lambda>b. b\<lparr>bs_delivered := delivered\<rparr>))) (\<lambda>_.
       update (\<lambda>S. S\<lparr>st_delivered := st_delivered S @ [\<lparr>dl_tick = st_tick S, dl_spark = spark, dl_beacon = bc_id spec\<rparr>]\<rparr>)))))))))"

definition with_source :: "nat \<Rightarrow> (spark list \<Rightarrow> spark list) \<Rightarrow> vm_state \<Rightarrow> vm_state" where
  "with_source i f S = S\<lparr>st_sources := (st_sources S)[i := (st_sources S ! i)\<lparr>ss_sparks := f (ss_sparks (st_sources S ! i))\<rparr>]\<rparr>"

definition with_depot :: "nat \<Rightarrow> (spark list \<Rightarrow> spark list) \<Rightarrow> vm_state \<Rightarrow> vm_state" where
  "with_depot i f S = S\<lparr>st_depots := (st_depots S)[i := (st_depots S ! i)\<lparr>ds_sparks := f (ds_sparks (st_depots S ! i))\<rparr>]\<rparr>"

definition exec_move :: "world \<Rightarrow> nat \<Rightarrow> relative \<Rightarrow> (fault, 'x vm_ctx_scheme, unit) fallible" where
  "exec_move W index d =
     bindM (charge Checking 1) (\<lambda>_.
     bindM (atM panic (wd_cells W) index) (\<lambda>body.
     bindM (readM vx_state) (\<lambda>S.
     bindM (if \<not> cb_mobile body then retM True else blocked W S index d) (\<lambda>stopped.
     if stopped then raiseM (FAction MovementBlocked)
     else
     bindM (charge Transfers 1) (\<lambda>_.
     bindM (atM panic (st_cells S) index) (\<lambda>cell.
     bindM (okM invariant (destination (cs_position cell) (cs_heading cell) d)) (\<lambda>p.
       update (with_cell index (\<lambda>c. c\<lparr>cs_position := p, cs_heading := face (cs_heading cell) d\<rparr>)))))))))"

definition exec_pickup :: "world \<Rightarrow> nat \<Rightarrow> (fault, 'x vm_ctx_scheme, unit) fallible" where
  "exec_pickup W index =
     bindM (charge Checking 1) (\<lambda>_.
     bindM (readM vx_state) (\<lambda>S.
     bindM (atM panic (st_cells S) index) (\<lambda>cell.
     if cs_cargo cell \<noteq> None then raiseM (FAction CargoFull)
     else
     bindM (okM (FAction NotAtSource) (position_where (\<lambda>s. so_position s = cs_position cell) (wd_sources W))) (\<lambda>src.
     bindM (atM panic (st_sources S) src) (\<lambda>entry.
     case ss_sparks entry of
       [] \<Rightarrow> raiseM (FAction SourceEmpty)
     | spark # _ \<Rightarrow>
     bindM (charge Transfers 1) (\<lambda>_.
       update (\<lambda>S. with_cell index (\<lambda>c. c\<lparr>cs_cargo := Some spark\<rparr>) (with_source src tl S))))))))"

definition drop_at_depot :: "world \<Rightarrow> nat \<Rightarrow> nat \<Rightarrow> spark \<Rightarrow> (fault, 'x vm_ctx_scheme, unit) fallible" where
  "drop_at_depot W index depot spark =
     bindM (atM panic (wd_depots W) depot) (\<lambda>spec.
     bindM (readM vx_state) (\<lambda>S.
     bindM (atM panic (st_depots S) depot) (\<lambda>entry.
     if length (ds_sparks entry) \<ge> unat (dp_capacity spec) then raiseM (FAction DepotFull)
     else
     bindM (charge Transfers 1) (\<lambda>_.
     bindM (update (with_cell index (\<lambda>c. c\<lparr>cs_cargo := None\<rparr>))) (\<lambda>_.
     bindM (update (with_depot depot (\<lambda>ss. ss @ [spark]))) (\<lambda>_.
     bindM (emit W (EndDepot (dp_id spec)) (sp_bit spark) (Some (sp_id spark))) (\<lambda>_. retM ())))))))"

definition drop_at_beacon :: "world \<Rightarrow> nat \<Rightarrow> nat \<Rightarrow> spark \<Rightarrow> (fault, 'x vm_ctx_scheme, unit) fallible" where
  "drop_at_beacon W index beacon spark =
     bindM (atM panic (wd_beacons W) beacon) (\<lambda>spec.
     if bc_accepts spec \<noteq> sp_bit spark then raiseM (FAction BeaconRejectsBit)
     else
     bindM (credit W beacon spark) (\<lambda>_.
       update (with_cell index (\<lambda>c. c\<lparr>cs_cargo := None\<rparr>))))"

definition exec_drop :: "world \<Rightarrow> nat \<Rightarrow> (fault, 'x vm_ctx_scheme, unit) fallible" where
  "exec_drop W index =
     bindM (charge Checking 1) (\<lambda>_.
     bindM (readM vx_state) (\<lambda>S.
     bindM (atM panic (st_cells S) index) (\<lambda>cell.
     bindM (okM (FAction CargoEmpty) (cs_cargo cell)) (\<lambda>spark.
     case position_where (\<lambda>d. dp_position d = cs_position cell) (wd_depots W) of
       Some depot \<Rightarrow> drop_at_depot W index depot spark
     | None \<Rightarrow>
         (case position_where (\<lambda>b. bc_position b = cs_position cell) (wd_beacons W) of
            Some beacon \<Rightarrow> drop_at_beacon W index beacon spark
          | None \<Rightarrow> raiseM (FAction NotAtReceiver))))))"

definition exec_take :: "nat \<Rightarrow> port \<Rightarrow> slot \<Rightarrow> (fault, 'x vm_ctx_scheme, unit) fallible" where
  "exec_take index p s =
     bindM (charge Sensors 1) (\<lambda>_.
     bindM (readM vx_state) (\<lambda>S.
     bindM (atM panic (st_cells S) index) (\<lambda>cell.
     bindM (atM panic (cs_inbox cell) (unat p)) (\<lambda>m.
     bindM (okM (FAction NoMessage) m) (\<lambda>sg.
     bindM (charge MemoryWrites 1) (\<lambda>_.
     bindM (charge Messages 1) (\<lambda>_.
     bindM (atM panic (cs_memory cell) (unat s)) (\<lambda>_.
     bindM (atM panic (cs_evidence cell) (unat s)) (\<lambda>_.
     bindM (update (with_cell index (\<lambda>c. c\<lparr>cs_memory := (cs_memory c)[unat s := (if sg_bit sg then 1 else 0)],
              cs_evidence := (cs_evidence c)[unat s := sg_receipt_spark sg],
              cs_inbox := (cs_inbox c)[unat p := None]\<rparr>))) (\<lambda>_.
       note_signal sg SigConsumed))))))))))"

definition write_memory :: "nat \<Rightarrow> slot \<Rightarrow> u8 \<Rightarrow> (fault, 'x vm_ctx_scheme, unit) fallible" where
  "write_memory index s v =
     bindM (charge MemoryWrites 1) (\<lambda>_.
     bindM (readM vx_state) (\<lambda>S.
     bindM (atM panic (st_cells S) index) (\<lambda>cell.
     bindM (atM panic (cs_memory cell) (unat s)) (\<lambda>_.
     bindM (atM panic (cs_evidence cell) (unat s)) (\<lambda>_.
       update (with_cell index (\<lambda>c. c\<lparr>cs_memory := (cs_memory c)[unat s := v],
         cs_evidence := (cs_evidence c)[unat s := None]\<rparr>)))))))"

definition exec_send :: "world \<Rightarrow> nat \<Rightarrow> port \<Rightarrow> bit_source \<Rightarrow> (fault, 'x vm_ctx_scheme, unit) fallible" where
  "exec_send W index p b =
     bindM (readM vx_state) (\<lambda>S.
     bindM (atM panic (st_cells S) index) (\<lambda>cell.
     bindM (read_bit cell b) (\<lambda>(v, evidence).
     bindM (emit W (EndCell (cs_id cell) p) v evidence) (\<lambda>accepted.
       requireM (accepted \<noteq> 0) (FAction NoSignalQueued)))))"

definition route_valve :: "world \<Rightarrow> vm_state \<Rightarrow> valve \<Rightarrow> bool \<Rightarrow> (fault, 'x vm_ctx_scheme, unit) fallible" where
  "route_valve W S spec value =
     bindM (okM invariant (position_where (\<lambda>d. dp_id d = va_depot spec) (wd_depots W))) (\<lambda>depot.
     bindM (atM panic (st_depots S) depot) (\<lambda>entry.
     case ds_sparks entry of
       [] \<Rightarrow> raiseM (FAction DepotEmpty)
     | spark # _ \<Rightarrow>
     let target = (if value then va_beacon_one spec else va_beacon_zero spec) in
     bindM (okM invariant (position_where (\<lambda>bc. bc_id bc = target) (wd_beacons W))) (\<lambda>beacon.
     bindM (atM panic (wd_beacons W) beacon) (\<lambda>bspec.
     bindM (requireM (bc_accepts bspec = sp_bit spark) (FAction BeaconRejectsBit)) (\<lambda>_.
     bindM (credit W beacon spark) (\<lambda>_.
       update (with_depot depot tl)))))))"

definition exec_route :: "world \<Rightarrow> nat \<Rightarrow> valve_id \<Rightarrow> bit_source \<Rightarrow> (fault, 'x vm_ctx_scheme, unit) fallible" where
  "exec_route W index v b =
     bindM (readM vx_state) (\<lambda>S.
     bindM (atM panic (st_cells S) index) (\<lambda>cell.
     bindM (read_bit cell b) (\<lambda>(value, _).
     bindM (charge Checking 1) (\<lambda>_.
     bindM (okM (FAction UnknownValve) (position_where (\<lambda>e. va_id e = v) (wd_valves W))) (\<lambda>vi.
     bindM (atM panic (wd_valves W) vi) (\<lambda>spec.
     bindM (requireM (distance (cs_position cell) (va_position spec) = 1) (FAction ValveNotAdjacent)) (\<lambda>_.
     bindM (atM panic (st_valves S) vi) (\<lambda>valve.
     bindM (requireM (es_enabled valve) (FAction ValveDisabled)) (\<lambda>_.
       route_valve W S spec value)))))))))"

definition execute :: "world \<Rightarrow> nat \<Rightarrow> action \<Rightarrow> (fault, 'x vm_ctx_scheme, unit) fallible" where
  "execute W index a =
     bindM (charge Actions 1) (\<lambda>_.
       case a of
         Wait \<Rightarrow> retM ()
       | Move d \<Rightarrow> exec_move W index d
       | Turn d \<Rightarrow>
           bindM (charge Transfers 1) (\<lambda>_.
           bindM (readM vx_state) (\<lambda>S.
           bindM (atM panic (st_cells S) index) (\<lambda>cell.
             update (with_cell index (\<lambda>c. c\<lparr>cs_heading := face (cs_heading cell) d\<rparr>)))))
       | Pickup \<Rightarrow> exec_pickup W index
       | Drop \<Rightarrow> exec_drop W index
       | WriteMemory s v \<Rightarrow> write_memory index s v
       | TakeMessage p s \<Rightarrow> exec_take index p s
       | Send p b \<Rightarrow> exec_send W index p b
       | Route v b \<Rightarrow> exec_route W index v b)"

section \<open>Activation of one cell\<close>

record act_ctx = vm_ctx +
  ax_record :: activation

text \<open>The conditions of one rule, left to right until one fails; the first rule all of whose conditions hold.\<close>

fun rule_matches :: "world \<Rightarrow> vm_state \<Rightarrow> nat \<Rightarrow> condition list \<Rightarrow> (fault, 'x vm_ctx_scheme, bool) fallible" where
  "rule_matches W S index [] = retM True"
| "rule_matches W S index (c # cs) =
     bindM (check_condition W S index c) (\<lambda>b. if \<not> b then retM False else rule_matches W S index cs)"

fun select_rule :: "world \<Rightarrow> vm_state \<Rightarrow> nat \<Rightarrow> nat \<Rightarrow> rule list \<Rightarrow> (fault, 'x vm_ctx_scheme, (nat \<times> rule) option) fallible" where
  "select_rule W S index i [] = retM None"
| "select_rule W S index i (r # rs) =
     bindM (charge Checking 1) (\<lambda>_.
     bindM (rule_matches W S index (ru_when r)) (\<lambda>b.
       if b then retM (Some (i, r)) else select_rule W S index (Suc i) rs))"

text \<open>\<open>matches!(result, Err(Stop | Internal))\<close> returns at once; an action error is kept for later.\<close>

definition attempt :: "(fault, 's, unit) fallible \<Rightarrow> (fault, 's, action_error option) fallible" where
  "attempt m s =
     (case m s of
        (Inl (FAction e), s') \<Rightarrow> (Inr (Some e), s')
      | (Inl f, s') \<Rightarrow> (Inl f, s')
      | (Inr _, s') \<Rightarrow> (Inr None, s'))"

definition run_activation :: "world \<Rightarrow> program \<Rightarrow> vm_state \<Rightarrow> nat \<Rightarrow> (fault, act_ctx, unit) fallible" where
  "run_activation W p S index =
     bindM (charge Scheduling 1) (\<lambda>_.
     bindM (select_rule W S index 0 (pg_rules p)) (\<lambda>selected.
     bindM (case selected of
              None \<Rightarrow> retM None
            | Some (i, _) \<Rightarrow> if i < 256 then retM (Some (word_of_nat i)) else raiseM arithmetic) (\<lambda>rule.
     bindM (modifyM (\<lambda>x. x\<lparr>ax_record := (ax_record x)\<lparr>av_rule := rule\<rparr>\<rparr>)) (\<lambda>_.
     let a = (case selected of None \<Rightarrow> Wait | Some (_, r) \<Rightarrow> ru_action r) in
     bindM (modifyM (\<lambda>x. x\<lparr>ax_record := (ax_record x)\<lparr>av_action := a\<rparr>\<rparr>)) (\<lambda>_.
     bindM (attempt (execute W index a)) (\<lambda>failed.
     bindM (case Option.bind selected (\<lambda>(_, r). ru_remember r) of
              None \<Rightarrow> retM ()
            | Some w \<Rightarrow> write_memory index (mw_slot w) (mw_value w)) (\<lambda>_.
       case failed of None \<Rightarrow> retM () | Some e \<Rightarrow> raiseM (FAction e))))))))"

record machine = vm_ctx +
  mc_scratch :: vm_state
  mc_activations :: "activation list"
  mc_events :: "world_event_kind list"
  mc_order :: "u16 list"
  mc_initial_sparks :: u32
  mc_cell_count :: u64
  mc_beacon_count :: u64
  mc_status :: run_status

definition new_record :: "cell_state \<Rightarrow> u64 \<Rightarrow> activation" where
  "new_record cell work =
     \<lparr>av_cell = cs_id cell, av_rule = None, av_action = Wait, av_success = False, av_error = None,
      av_position_before = cs_position cell, av_position_after = cs_position cell, av_work_before = work, av_work_after = work\<rparr>"

definition conclude ::
    "nat \<Rightarrow> nat \<Rightarrow> fault + unit \<Rightarrow> activation \<Rightarrow> (fault, machine, activation \<times> stop option) fallible" where
  "conclude index signal_start r rec mc =
     (let keep = (\<lambda>rec. bindM (atM panic (st_cells (mc_scratch mc)) index) (\<lambda>cell. \<lambda>mc.
            (Inr (rec\<lparr>av_position_after := cs_position cell\<rparr>, None),
             mc\<lparr>vx_state := mc_scratch mc, mc_scratch := vx_state mc\<rparr>))) in
      case r of
        Inl (FInternal e) \<Rightarrow> (Inl (FInternal e), mc)
      | Inl (FStop s) \<Rightarrow>
          (Inr (rec\<lparr>av_error := Some (case s of StopFuel \<Rightarrow> AFuelExhausted | StopActivation \<Rightarrow> AActivationLimit)\<rparr>, Some s),
           mc\<lparr>vx_signals := take signal_start (vx_signals mc)\<rparr>)
      | Inr _ \<Rightarrow> keep (rec\<lparr>av_success := True\<rparr>) mc
      | Inl (FAction e) \<Rightarrow> keep (rec\<lparr>av_error := Some (AAction e)\<rparr>) mc)"

definition activate :: "world \<Rightarrow> case_spec \<Rightarrow> program \<Rightarrow> nat \<Rightarrow> (fault, machine, activation \<times> stop option) fallible" where
  "activate W c p index =
     bindM (readM vx_state) (\<lambda>S.
     bindM (atM panic (st_cells S) index) (\<lambda>cell.
     bindM (readM (\<lambda>mc. meter_total (vx_meter mc))) (\<lambda>t.
     bindM (liftM (\<lambda>_. arithmetic) t) (\<lambda>work_before.
     bindM (\<lambda>mc. case begin_activation (ca_activation_fuel c) (vx_meter mc) of
                   (r, m) \<Rightarrow> (map_err (\<lambda>_. arithmetic) r, mc\<lparr>vx_meter := m\<rparr>)) (\<lambda>_. \<lambda>mc.
       case run_activation W p S index
              \<lparr>vx_meter = vx_meter mc, vx_signals = vx_signals mc, vx_state = copy_from (mc_scratch mc) S,
               ax_record = new_record cell work_before\<rparr> of
         (r, x) \<Rightarrow>
           let mc1 = mc\<lparr>vx_meter := end_activation (vx_meter x), vx_signals := vx_signals x, mc_scratch := vx_state x\<rparr> in
           case meter_total (vx_meter mc1) of
             Inl _ \<Rightarrow> (Inl arithmetic, mc1)
           | Inr work_after \<Rightarrow>
               conclude index (length (vx_signals mc)) r ((ax_record x)\<lparr>av_work_after := work_after\<rparr>) mc1)))))"

section \<open>The tick\<close>

definition expire_port :: "nat \<Rightarrow> nat \<Rightarrow> (fault, 'x vm_ctx_scheme, unit) fallible" where
  "expire_port i p =
     bindM (readM vx_state) (\<lambda>S.
       case cs_inbox (st_cells S ! i) ! p of
         None \<Rightarrow> retM ()
       | Some sg \<Rightarrow>
           bindM (charge Messages 1) (\<lambda>_.
           bindM (note_signal sg SigExpired) (\<lambda>_.
             update (with_cell i (\<lambda>c. c\<lparr>cs_inbox := (cs_inbox c)[p := None]\<rparr>)))))"

definition expire_inboxes :: "(fault, 'x vm_ctx_scheme, unit) fallible" where
  "expire_inboxes =
     bindM (readM vx_state) (\<lambda>S.
       forM [0..<length (st_cells S)] (\<lambda>i. forM [0..<length (cs_inbox (st_cells S ! i))] (expire_port i)))"

definition set_enabled :: "bool \<Rightarrow> nat \<Rightarrow> enabled_state list \<Rightarrow> enabled_state list" where
  "set_enabled b i es = es[i := (es ! i)\<lparr>es_enabled := b\<rparr>]"

definition apply_event :: "world_event_kind \<Rightarrow> (fault, machine, unit) fallible" where
  "apply_event e =
     bindM (charge Checking 1) (\<lambda>_.
     bindM (case e of
         LinkEnabled i b \<Rightarrow>
           bindM (charge Actions 1) (\<lambda>_.
           bindM (readM (\<lambda>x. position_where (\<lambda>l. es_id l = i) (st_links (vx_state x)))) (\<lambda>found.
           bindM (okM invariant found) (\<lambda>k. update (\<lambda>S. S\<lparr>st_links := set_enabled b k (st_links S)\<rparr>))))
       | ValveEnabled i b \<Rightarrow>
           bindM (charge Actions 1) (\<lambda>_.
           bindM (readM (\<lambda>x. position_where (\<lambda>v. es_id v = i) (st_valves (vx_state x)))) (\<lambda>found.
           bindM (okM invariant found) (\<lambda>k. update (\<lambda>S. S\<lparr>st_valves := set_enabled b k (st_valves S)\<rparr>))))
       | ClearMemory i \<Rightarrow>
           bindM (charge MemoryWrites CLEAR_MEMORY_WRITES) (\<lambda>_.
           bindM (readM (\<lambda>x. position_where (\<lambda>c. cs_id c = i) (st_cells (vx_state x)))) (\<lambda>found.
           bindM (okM invariant found) (\<lambda>k.
             update (with_cell k (\<lambda>c. c\<lparr>cs_memory := replicate 4 0, cs_evidence := replicate 4 None\<rparr>)))))) (\<lambda>_.
       modifyM (\<lambda>x. x\<lparr>mc_events := mc_events x @ [e]\<rparr>)))"

definition remove_at :: "nat \<Rightarrow> 'a list \<Rightarrow> 'a list" where
  "remove_at i xs = take i xs @ drop (Suc i) xs"

definition deliver_signal :: "world \<Rightarrow> nat \<Rightarrow> (fault, 'x vm_ctx_scheme, unit) fallible" where
  "deliver_signal W index =
     bindM (charge Messages 1) (\<lambda>_.
     bindM (charge Checking 1) (\<lambda>_.
     bindM (readM (\<lambda>x. st_pending (vx_state x))) (\<lambda>pend.
     bindM (atM panic pend index) (\<lambda>sg.
     bindM (update (\<lambda>S. S\<lparr>st_pending := remove_at index (st_pending S)\<rparr>)) (\<lambda>_.
     bindM (readM vx_state) (\<lambda>S.
     bindM (okM invariant (map_option es_enabled (find (\<lambda>l. es_id l = sg_link sg) (st_links S)))) (\<lambda>enabled.
     bindM (okM invariant (position_where (\<lambda>c. cs_id c = sg_to_cell sg) (st_cells S))) (\<lambda>recipient.
     bindM (origin_position W S (sg_from sg)) (\<lambda>origin.
     bindM (atM panic (st_cells S) recipient) (\<lambda>cell.
     bindM (if \<not> enabled then retM SigDisabled
            else if distance origin (cs_position cell) \<noteq> 1 then retM SigNotAdjacent
            else bindM (atM panic (cs_inbox cell) (unat (sg_to_port sg))) (\<lambda>held.
              if held \<noteq> None then retM SigFull
              else bindM (update (with_cell recipient (\<lambda>c. c\<lparr>cs_inbox := (cs_inbox c)[unat (sg_to_port sg) := Some sg]\<rparr>))) (\<lambda>_.
                retM SigDelivered))) (\<lambda>out.
       note_signal sg out)))))))))))"

text \<open>
  \<open>while index < pending.len()\<close>: every turn either advances the index or shortens the queue, so as many
  turns as the queue is long reach its end.
\<close>

fun deliver_due :: "world \<Rightarrow> u32 \<Rightarrow> nat \<Rightarrow> nat \<Rightarrow> (fault, 'x vm_ctx_scheme, unit) fallible" where
  "deliver_due W tick 0 index = retM ()"
| "deliver_due W tick (Suc turns) index =
     bindM (readM (\<lambda>x. st_pending (vx_state x))) (\<lambda>pend.
       if index < length pend then
         (if sg_deliver_tick (pend ! index) > tick then deliver_due W tick turns (Suc index)
          else bindM (deliver_signal W index) (\<lambda>_. deliver_due W tick turns index))
       else retM ())"

definition take_turn :: "world \<Rightarrow> assignment \<Rightarrow> case_spec \<Rightarrow> u16 \<Rightarrow> (fault, machine, unit) fallible" where
  "take_turn W a c i =
     bindM (readM (\<lambda>x. position_where (\<lambda>cell. cs_id cell = i) (st_cells (vx_state x)))) (\<lambda>found.
     bindM (okM invariant found) (\<lambda>index.
     bindM (okM invariant (if index < length (as_programs a) then Some (as_programs a ! index) else None)) (\<lambda>p.
     bindM (activate W c p index) (\<lambda>(rec, limit).
     bindM (modifyM (\<lambda>x. x\<lparr>mc_activations := mc_activations x @ [rec]\<rparr>)) (\<lambda>_.
       case limit of
         None \<Rightarrow> retM ()
       | Some StopFuel \<Rightarrow> raiseM (FStop StopFuel)
       | Some StopActivation \<Rightarrow> modifyM (\<lambda>x. x\<lparr>mc_status := ActivationLimit\<rparr>))))))"

definition drain_beacon :: "u32 \<Rightarrow> nat \<times> beacon \<Rightarrow> (fault, 'x vm_ctx_scheme, unit) fallible" where
  "drain_beacon tick ib =
     (case ib of (index, spec) \<Rightarrow>
     bindM (charge Checking 1) (\<lambda>_.
     bindM (okM arithmetic (if bc_drain_every spec = 0 then None else Some (tick mod bc_drain_every spec))) (\<lambda>rem.
     if rem \<noteq> 0 then retM ()
     else
     bindM (charge Draining 1) (\<lambda>_.
     bindM (readM vx_state) (\<lambda>S.
     bindM (atM panic (st_beacons S) index) (\<lambda>entry.
     let drained = min (bs_charge entry) (bc_drain_amount spec) in
     bindM (okM arithmetic (checked_sub (bs_charge entry) drained)) (\<lambda>charge'.
     bindM (okM arithmetic (checked_add (bs_drained entry) drained)) (\<lambda>drained'.
       update (with_beacon index (\<lambda>b. b\<lparr>bs_charge := charge', bs_drained := drained',
         bs_exhausted := (if charge' = 0 then True else bs_exhausted b)\<rparr>))))))))))"

definition machine_tick :: "world \<Rightarrow> assignment \<Rightarrow> case_spec \<Rightarrow> u32 \<Rightarrow> (fault, machine, unit) fallible" where
  "machine_tick W a c tick =
     bindM (charge Scheduling 1) (\<lambda>_.
     bindM expire_inboxes (\<lambda>_.
     bindM (forM (filter (\<lambda>e. we_tick e = tick) (ca_events c)) (\<lambda>e. apply_event (we_event e))) (\<lambda>_.
     bindM (readM (\<lambda>x. length (st_pending (vx_state x)))) (\<lambda>queued.
     bindM (deliver_due W tick queued 0) (\<lambda>_.
     bindM (readM mc_order) (\<lambda>order.
     bindM (forM order (take_turn W a c)) (\<lambda>_.
     bindM (forM (enumerate 0 (wd_beacons W)) (drain_beacon tick)) (\<lambda>_.
     bindM (readM (\<lambda>x. Option.bind (checked_add (mc_cell_count x) (mc_beacon_count x))
                         (\<lambda>sum. checked_add sum (ucast (mc_initial_sparks x))))) (\<lambda>total_checks.
     bindM (okM arithmetic total_checks) (\<lambda>end_checking.
       charge Checking end_checking))))))))))"

section \<open>The run\<close>

definition machine_new :: "world \<Rightarrow> assignment \<Rightarrow> case_spec \<Rightarrow> run_error + machine" where
  "machine_new W a c =
     (if length (as_cells a) \<noteq> length (wd_cells W)
        \<or> list_ex (\<lambda>(i, cell). i \<noteq> cb_id cell) (zip (as_cells a) (wd_cells W))
      then Inl RAssignmentMismatch
      else
     bindR (count (length (wd_cells W))) (\<lambda>cell_count.
     bindR (count (length (wd_beacons W))) (\<lambda>beacon_count.
       Inr \<lparr>vx_meter = meter_new (ca_fuel c), vx_signals = [], vx_state = state_initial W,
            mc_scratch = copy_from (state_allocated W) (state_initial W), mc_activations = [], mc_events = [], mc_order = [],
            mc_initial_sparks = world_initial_sparks W, mc_cell_count = cell_count, mc_beacon_count = beacon_count,
            mc_status = Complete\<rparr>)))"

definition initial_checking :: "world \<Rightarrow> case_spec \<Rightarrow> machine \<Rightarrow> run_error + u64" where
  "initial_checking W c mc =
     bindR (foldR (\<lambda>sum len. bindR (count len) (\<lambda>n. ok_or RArithmetic (checked_add sum n))) 0
       [length (wd_walls W), length (wd_cells W), length (wd_sources W), length (wd_depots W), length (wd_beacons W),
        length (wd_valves W), length (wd_links W), length (ca_events c)]) (\<lambda>entities.
     ok_or RArithmetic (checked_add entities (ucast (mc_initial_sparks mc))))"

definition turn_key :: "u64 \<Rightarrow> u32 \<Rightarrow> u16 \<Rightarrow> u64 \<times> u16" where
  "turn_key seed tick i = (mix (seed XOR push_bit 32 (ucast tick) XOR ucast i), i)"

definition schedule :: "case_spec \<Rightarrow> u32 \<Rightarrow> machine \<Rightarrow> machine" where
  "schedule c tick mc = mc\<lparr>mc_order := sort_key (turn_key (ca_seed c) tick) (map cs_id (st_cells (vx_state mc)))\<rparr>"

definition machine_outcome :: "world \<Rightarrow> machine \<Rightarrow> run_error + outcome" where
  "machine_outcome W mc =
     (let S = vx_state mc in
      bindR (foldR (\<lambda>present len. bindR (count len) (\<lambda>n. ok_or RArithmetic (checked_add present n))) 0
        (map (\<lambda>s. length (ss_sparks s)) (st_sources S) @ map (\<lambda>d. length (ds_sparks d)) (st_depots S)
         @ [length (filter (\<lambda>c. cs_cargo c \<noteq> None) (st_cells S))] @ [length (st_delivered S)])) (\<lambda>present.
      let positive = list_all (\<lambda>b. bs_charge b > 0 \<and> \<not> bs_exhausted b) (st_beacons S);
          quotas = list_all (\<lambda>(goal, result). bs_delivered result \<ge> bc_required_deliveries goal) (zip (wd_beacons W) (st_beacons S));
          conserved = (present = ucast (mc_initial_sparks mc))
      in Inr \<lparr>oc_all_beacons_positive = positive, oc_quotas_met = quotas, oc_conserved = conserved,
              oc_passed = (mc_status mc = Complete \<and> positive \<and> quotas \<and> conserved)\<rparr>))"

definition frame_of :: "u32 \<Rightarrow> bool \<Rightarrow> machine \<Rightarrow> frame_view" where
  "frame_of tick done mc =
     \<lparr>fv_tick = tick, fv_complete = done, fv_events = mc_events mc, fv_signals = vx_signals mc,
      fv_activations = mc_activations mc, fv_state = vx_state mc, fv_ledger = me_ledger (vx_meter mc)\<rparr>"

definition begin_tick :: "case_spec \<Rightarrow> u32 \<Rightarrow> machine \<Rightarrow> machine" where
  "begin_tick c tick mc =
     (schedule c tick mc)\<lparr>vx_state := (vx_state mc)\<lparr>st_tick := tick\<rparr>, vx_signals := [], mc_activations := [], mc_events := []\<rparr>"

text \<open>\<open>for tick in 1..=ticks\<close> with its \<open>break\<close>; the loop is over the ticks still to run.\<close>

fun run_ticks ::
    "world \<Rightarrow> assignment \<Rightarrow> case_spec \<Rightarrow> u32 list \<Rightarrow> machine \<Rightarrow> frame_view list \<Rightarrow> u32
     \<Rightarrow> run_error + machine \<times> frame_view list \<times> u32" where
  "run_ticks W a c [] mc frames completed = Inr (mc, frames, completed)"
| "run_ticks W a c (tick # ticks) mc frames completed =
     (case machine_tick W a c tick (begin_tick c tick mc) of
        (Inl (FInternal e), _) \<Rightarrow> Inl e
      | (Inl (FAction _), _) \<Rightarrow> Inl RInvariant
      | (Inl (FStop _), mc') \<Rightarrow> Inr (mc'\<lparr>mc_status := FuelExhausted\<rparr>, frames @ [frame_of tick False mc'], completed)
      | (Inr _, mc') \<Rightarrow>
          bindR (ok_or RArithmetic (checked_add completed 1)) (\<lambda>completed.
            run_ticks W a c ticks mc' (frames @ [frame_of tick True mc']) completed))"

definition tick_range :: "u32 \<Rightarrow> u32 list" where
  "tick_range n = map word_of_nat [1..<Suc (unat n)]"

definition load :: "case_spec \<Rightarrow> u64 \<Rightarrow> (fault, machine, unit) fallible" where
  "load c checking = bindM (charge Loading (ca_loading_work c)) (\<lambda>_. charge Checking checking)"

definition finish_run :: "world \<Rightarrow> case_spec \<Rightarrow> machine \<Rightarrow> frame_view list \<Rightarrow> u32 \<Rightarrow> run_error + frame_view list \<times> run_result" where
  "finish_run W c mc frames completed =
     bindR (machine_outcome W mc) (\<lambda>out.
       Inr (frames,
         \<lparr>rr_status = mc_status mc, rr_ticks_completed = completed, rr_initial_sparks = mc_initial_sparks mc,
          rr_ledger = me_ledger (vx_meter mc),
          rr_outcome = out\<lparr>oc_passed := oc_passed out \<and> completed = ca_ticks c\<rparr>,
          rr_final_state = vx_state mc\<rparr>))"

definition machine_run :: "world \<Rightarrow> assignment \<Rightarrow> case_spec \<Rightarrow> machine \<Rightarrow> run_error + frame_view list \<times> run_result" where
  "machine_run W a c mc =
     bindR (initial_checking W c mc) (\<lambda>checking.
       case load c checking mc of
         (Inl (FStop _), mc') \<Rightarrow>
           finish_run W c (mc'\<lparr>mc_status := FuelExhausted\<rparr>) [frame_of 0 False mc'] 0
       | (Inl _, _) \<Rightarrow> Inl RArithmetic
       | (Inr _, mc') \<Rightarrow>
           bindR (run_ticks W a c (tick_range (ca_ticks c)) (mc'\<lparr>mc_status := Complete\<rparr>) [frame_of 0 True mc'] 0)
             (\<lambda>(mc, frames, completed). finish_run W c mc frames completed))"

definition vm_run :: "world \<Rightarrow> assignment \<Rightarrow> case_spec \<Rightarrow> run_error + frame_view list \<times> run_result" where
  "vm_run W a c = bindR (machine_new W a c) (machine_run W a c)"

end
