(* ===== verification/Witness_Codec.thy ===== *)
theory Witness_Codec
  imports Witness_VM Crypto_Params
begin

text \<open>
  The canonical encodings of the witness platform (\<open>codec.rs\<close>), with the data of a task manifest
  (\<open>manifest.rs\<close>) and of a case result (\<open>platform.rs\<close>) they encode. A \<open>Reader\<close> is the list of the
  bytes left to read; a \<open>Writer\<close> is the list of the bytes written.
\<close>

section \<open>Bounds and errors\<close>

abbreviation WITNESS_VERSION :: u8 where "WITNESS_VERSION \<equiv> 1"
abbreviation LANGUAGE_FINITE_RULE_V1 :: u8 where "LANGUAGE_FINITE_RULE_V1 \<equiv> 1"

definition MAX_CONDITION_BYTES :: nat where "MAX_CONDITION_BYTES = 3"
definition MAX_ACTION_BYTES :: nat where "MAX_ACTION_BYTES = 5"
definition MAX_RULE_BYTES :: nat where
  "MAX_RULE_BYTES = 1 + MAX_CONDITIONS * MAX_CONDITION_BYTES + MAX_ACTION_BYTES + 3"
definition MAX_PROGRAM_BODY_BYTES :: nat where "MAX_PROGRAM_BODY_BYTES = 1 + MAX_RULES * MAX_RULE_BYTES"
definition MAX_PROGRAM_BYTES :: nat where "MAX_PROGRAM_BYTES = 2 + MAX_PROGRAM_BODY_BYTES"
definition MAX_ASSIGNMENT_BYTES :: nat where "MAX_ASSIGNMENT_BYTES = 3 + MAX_CELLS * (2 + MAX_PROGRAM_BODY_BYTES)"
definition MAX_SPARK_BYTES :: nat where "MAX_SPARK_BYTES = 5"
definition MAX_WORLD_BYTES :: nat where
  "MAX_WORLD_BYTES = 2 + (2 + MAX_WALLS * 2) + (1 + MAX_SOURCES * 5 + MAX_INITIAL_SPARKS * MAX_SPARK_BYTES)
     + (1 + MAX_DEPOTS * 5) + (1 + MAX_BEACONS * 25) + (1 + MAX_VALVES * 11) + (1 + MAX_CELLS * 10) + (1 + MAX_LINKS * 14)"
definition MAX_WORLD_EVENT_BYTES :: nat where "MAX_WORLD_EVENT_BYTES = 4 + 1 + 3"
definition MAX_CASE_BYTES :: nat where "MAX_CASE_BYTES = 8 + 4 + 8 + 4 + 1 + MAX_WORLD_EVENTS * MAX_WORLD_EVENT_BYTES + 8"
definition MAX_CASES :: nat where "MAX_CASES = 8"
definition MAX_MANIFEST_BYTES :: nat where
  "MAX_MANIFEST_BYTES = 2 + MAX_WORLD_BYTES + (1 + MAX_CELLS * (3 + MAX_PROGRAM_BODY_BYTES)) + (1 + MAX_CASES * MAX_CASE_BYTES) + 17"
definition SIGNAL_BYTES :: nat where "SIGNAL_BYTES = 8 + 2 + 4 + 2 + 1 + 1 + 4 + 4 + 5"
definition MAX_DELIVERIES :: nat where "MAX_DELIVERIES = MAX_INITIAL_SPARKS"
definition MAX_STATE_BYTES :: nat where
  "MAX_STATE_BYTES = 4 + (1 + MAX_CELLS * (2 + 2 + 1 + 4 + 4 * 5 + 6 + 4 * (1 + SIGNAL_BYTES)))
     + (1 + MAX_SOURCES * 3 + MAX_INITIAL_SPARKS * MAX_SPARK_BYTES) + (1 + MAX_DEPOTS * 3 + MAX_INITIAL_SPARKS * MAX_SPARK_BYTES)
     + (1 + MAX_BEACONS * 15) + (1 + MAX_VALVES * 3) + (1 + MAX_LINKS * 3) + (1 + MAX_PENDING * SIGNAL_BYTES)
     + (1 + MAX_DELIVERIES * 11) + 8"
definition LEDGER_BYTES :: nat where "LEDGER_BYTES = 13 * 8"
definition CASE_RESULT_BYTES :: nat where "CASE_RESULT_BYTES = 1 + 4 + 4 + 32 + LEDGER_BYTES + 8"

lemmas bound_defs =
  MAX_CONDITION_BYTES_def MAX_ACTION_BYTES_def MAX_RULE_BYTES_def MAX_PROGRAM_BODY_BYTES_def MAX_PROGRAM_BYTES_def
  MAX_ASSIGNMENT_BYTES_def MAX_SPARK_BYTES_def MAX_WORLD_BYTES_def MAX_WORLD_EVENT_BYTES_def MAX_CASE_BYTES_def MAX_CASES_def
  MAX_MANIFEST_BYTES_def SIGNAL_BYTES_def MAX_DELIVERIES_def MAX_STATE_BYTES_def LEDGER_BYTES_def CASE_RESULT_BYTES_def

datatype codec_field =
    FldVersion | FldLanguage | FldCount | FldBool | FldSlot | FldPort | FldValve | FldValue | FldDirection | FldRelative
  | FldCondition | FldAction | FldBitSource | FldRemember | FldCellId | FldPoint | FldSpark | FldSource | FldDepot
  | FldBeacon | FldValveSpec | FldCell | FldLink | FldEndpoint | FldEvent | FldCase | FldContract | FldStatus | FldHash
  | FldLedger

datatype codec_error =
    CETooLarge nat nat
  | CETruncated codec_field
  | CETrailing nat
  | CEVersion u8
  | CELanguage u8
  | CEDiscriminant codec_field u8
  | CEBound codec_field
  | CEUnsorted codec_field
  | CEModel model_error

section \<open>Data of manifests and results\<close>

record program_slot =
  ps_cell :: u16
  ps_fixed :: "program option"

record work_contract =
  wc_useful_floor :: u64
  wc_total_ceiling :: u64
  wc_require_passed :: bool

record task_manifest =
  tm_world :: world_spec
  tm_slots :: "program_slot list"
  tm_cases :: "case_spec list"
  tm_contract :: work_contract

record case_result =
  cr_status :: run_status
  cr_ticks_completed :: u32
  cr_outcome :: outcome
  cr_final_state :: array32
  cr_ledger :: work_ledger
  cr_useful :: u64

section \<open>Readers\<close>

type_synonym 'a wire_reader = "(codec_error, 'a) reader"

definition rret :: "'a \<Rightarrow> 'a wire_reader" where
  "rret x bs = Inr (x, bs)"

definition rfail :: "codec_error \<Rightarrow> 'a wire_reader" where
  "rfail e bs = Inl e"

definition rbind :: "'a wire_reader \<Rightarrow> ('a \<Rightarrow> 'b wire_reader) \<Rightarrow> 'b wire_reader" where
  "rbind r k bs = bindR (r bs) (\<lambda>(x, bs'). k x bs')"

definition rlift :: "model_error + 'a \<Rightarrow> 'a wire_reader" where
  "rlift r bs = bindR (map_err CEModel r) (\<lambda>x. Inr (x, bs))"

abbreviation rdr_u8 :: "codec_field \<Rightarrow> u8 wire_reader" where "rdr_u8 f \<equiv> rd_word (CETruncated f)"
abbreviation rdr_u16 :: "codec_field \<Rightarrow> u16 wire_reader" where "rdr_u16 f \<equiv> rd_word (CETruncated f)"
abbreviation rdr_u32 :: "codec_field \<Rightarrow> u32 wire_reader" where "rdr_u32 f \<equiv> rd_word (CETruncated f)"
abbreviation rdr_u64 :: "codec_field \<Rightarrow> u64 wire_reader" where "rdr_u64 f \<equiv> rd_word (CETruncated f)"
abbreviation rdr_hash :: "array32 wire_reader" where "rdr_hash \<equiv> rd_word (CETruncated FldHash)"

definition rdr_bool :: "codec_field \<Rightarrow> bool wire_reader" where
  "rdr_bool f = rbind (rdr_u8 f) (\<lambda>v. if v = 0 then rret False else if v = 1 then rret True else rfail (CEDiscriminant f v))"

definition rdr_count :: "nat \<Rightarrow> codec_field \<Rightarrow> nat wire_reader" where
  "rdr_count limit f = rbind (rdr_u8 f) (\<lambda>n. if unat n > limit then rfail (CEBound f) else rret (unat n))"

definition rdr_list :: "nat \<Rightarrow> 'a wire_reader \<Rightarrow> 'a list wire_reader" where
  "rdr_list limit rd = rbind (rdr_count limit FldCount) (rd_many rd)"

text \<open>\<open>Reader::bounded\<close>, the whole value, and \<open>Reader::finish\<close>.\<close>

definition decode_within :: "nat \<Rightarrow> 'a wire_reader \<Rightarrow> bytes \<Rightarrow> codec_error + 'a" where
  "decode_within limit rd raw =
     (if length raw > limit then Inl (CETooLarge (length raw) limit)
      else bindR (rd raw) (\<lambda>(x, rest). if length rest > 0 then Inl (CETrailing (length rest)) else Inr x))"

definition wire_header :: "unit wire_reader" where
  "wire_header =
     rbind (rdr_u8 FldVersion) (\<lambda>v. if v \<noteq> WITNESS_VERSION then rfail (CEVersion v)
     else rbind (rdr_u8 FldLanguage) (\<lambda>l. if l \<noteq> LANGUAGE_FINITE_RULE_V1 then rfail (CELanguage l) else rret ()))"

definition w_bool :: "bool \<Rightarrow> bytes" where
  "w_bool b = [if b then 1 else 0]"

definition w_list :: "('a \<Rightarrow> bytes) \<Rightarrow> 'a list \<Rightarrow> bytes" where
  "w_list put xs = word_of_nat (length xs) # concat (map put xs)"

definition w_option :: "('a \<Rightarrow> bytes) \<Rightarrow> 'a option \<Rightarrow> bytes" where
  "w_option put x = (case x of None \<Rightarrow> [0] | Some v \<Rightarrow> 1 # put v)"

section \<open>Programs\<close>

definition direction_tag :: "direction \<Rightarrow> u8" where
  "direction_tag d = (case d of North \<Rightarrow> 1 | East \<Rightarrow> 2 | South \<Rightarrow> 3 | West \<Rightarrow> 4)"

definition get_direction :: "direction wire_reader" where
  "get_direction = rbind (rdr_u8 FldDirection) (\<lambda>t.
     if t = 1 then rret North else if t = 2 then rret East else if t = 3 then rret South else if t = 4 then rret West
     else rfail (CEDiscriminant FldDirection t))"

definition relative_tag :: "relative \<Rightarrow> u8" where
  "relative_tag r = (case r of Forward \<Rightarrow> 1 | Left \<Rightarrow> 2 | Right \<Rightarrow> 3 | Back \<Rightarrow> 4)"

definition get_relative :: "relative wire_reader" where
  "get_relative = rbind (rdr_u8 FldRelative) (\<lambda>t.
     if t = 1 then rret Forward else if t = 2 then rret Left else if t = 3 then rret Right else if t = 4 then rret Back
     else rfail (CEDiscriminant FldRelative t))"

definition get_slot :: "slot wire_reader" where
  "get_slot = rbind (rdr_u8 FldSlot) (\<lambda>i. case slot_new i of None \<Rightarrow> rfail (CEBound FldSlot) | Some s \<Rightarrow> rret s)"

definition get_port :: "port wire_reader" where
  "get_port = rbind (rdr_u8 FldPort) (\<lambda>i. case port_new i of None \<Rightarrow> rfail (CEBound FldPort) | Some p \<Rightarrow> rret p)"

definition put_condition :: "condition \<Rightarrow> bytes" where
  "put_condition c =
     (case c of
        Carrying v \<Rightarrow> 1 # w_bool v
      | AtSource v \<Rightarrow> 2 # w_bool v
      | AtDepot v \<Rightarrow> 3 # w_bool v
      | AtBeacon v \<Rightarrow> 4 # w_bool v
      | AtReceiver v \<Rightarrow> 5 # w_bool v
      | Blocked d v \<Rightarrow> [6, relative_tag d] @ w_bool v
      | HasMessage p v \<Rightarrow> [7, p] @ w_bool v
      | MessageBit p v \<Rightarrow> [8, p] @ w_bool v
      | Memory s v \<Rightarrow> [9, s, v]
      | Heading d \<Rightarrow> [10, direction_tag d])"

definition get_condition :: "condition wire_reader" where
  "get_condition = rbind (rdr_u8 FldCondition) (\<lambda>t.
     if t = 1 then rbind (rdr_bool FldBool) (\<lambda>v. rret (Carrying v))
     else if t = 2 then rbind (rdr_bool FldBool) (\<lambda>v. rret (AtSource v))
     else if t = 3 then rbind (rdr_bool FldBool) (\<lambda>v. rret (AtDepot v))
     else if t = 4 then rbind (rdr_bool FldBool) (\<lambda>v. rret (AtBeacon v))
     else if t = 5 then rbind (rdr_bool FldBool) (\<lambda>v. rret (AtReceiver v))
     else if t = 6 then rbind get_relative (\<lambda>d. rbind (rdr_bool FldBool) (\<lambda>v. rret (Blocked d v)))
     else if t = 7 then rbind get_port (\<lambda>p. rbind (rdr_bool FldBool) (\<lambda>v. rret (HasMessage p v)))
     else if t = 8 then rbind get_port (\<lambda>p. rbind (rdr_bool FldBool) (\<lambda>v. rret (MessageBit p v)))
     else if t = 9 then rbind get_slot (\<lambda>s. rbind (rdr_u8 FldValue) (\<lambda>v. rret (Memory s v)))
     else if t = 10 then rbind get_direction (\<lambda>d. rret (Heading d))
     else rfail (CEDiscriminant FldCondition t))"

definition put_bit_source :: "bit_source \<Rightarrow> bytes" where
  "put_bit_source b = (case b of BitConstant v \<Rightarrow> 1 # w_bool v | BitMemory s \<Rightarrow> [2, s] | BitMessage p \<Rightarrow> [3, p])"

definition get_bit_source :: "bit_source wire_reader" where
  "get_bit_source = rbind (rdr_u8 FldBitSource) (\<lambda>t.
     if t = 1 then rbind (rdr_bool FldBool) (\<lambda>v. rret (BitConstant v))
     else if t = 2 then rbind get_slot (\<lambda>s. rret (BitMemory s))
     else if t = 3 then rbind get_port (\<lambda>p. rret (BitMessage p))
     else rfail (CEDiscriminant FldBitSource t))"

definition put_action :: "action \<Rightarrow> bytes" where
  "put_action a =
     (case a of
        Move d \<Rightarrow> [1, relative_tag d]
      | Turn d \<Rightarrow> [2, relative_tag d]
      | Pickup \<Rightarrow> [3]
      | Drop \<Rightarrow> [4]
      | Wait \<Rightarrow> [5]
      | WriteMemory s v \<Rightarrow> [6, s, v]
      | TakeMessage p s \<Rightarrow> [7, p, s]
      | Send p b \<Rightarrow> [8, p] @ put_bit_source b
      | Route v b \<Rightarrow> 9 # to_be v @ put_bit_source b)"

definition get_action :: "action wire_reader" where
  "get_action = rbind (rdr_u8 FldAction) (\<lambda>t.
     if t = 1 then rbind get_relative (\<lambda>d. rret (Move d))
     else if t = 2 then rbind get_relative (\<lambda>d. rret (Turn d))
     else if t = 3 then rret Pickup
     else if t = 4 then rret Drop
     else if t = 5 then rret Wait
     else if t = 6 then rbind get_slot (\<lambda>s. rbind (rdr_u8 FldValue) (\<lambda>v. rret (WriteMemory s v)))
     else if t = 7 then rbind get_port (\<lambda>p. rbind get_slot (\<lambda>s. rret (TakeMessage p s)))
     else if t = 8 then rbind get_port (\<lambda>p. rbind get_bit_source (\<lambda>b. rret (Send p b)))
     else if t = 9 then rbind (rdr_u16 FldValve) (\<lambda>v. rbind get_bit_source (\<lambda>b. rret (Route v b)))
     else rfail (CEDiscriminant FldAction t))"

definition put_remember :: "memory_write \<Rightarrow> bytes" where
  "put_remember w = [mw_slot w, mw_value w]"

definition get_remember :: "memory_write option wire_reader" where
  "get_remember = rbind (rdr_u8 FldRemember) (\<lambda>t.
     if t = 0 then rret None
     else if t = 1 then rbind get_slot (\<lambda>s. rbind (rdr_u8 FldValue) (\<lambda>v. rret (Some \<lparr>mw_slot = s, mw_value = v\<rparr>)))
     else rfail (CEDiscriminant FldRemember t))"

definition put_rule :: "rule \<Rightarrow> bytes" where
  "put_rule r = w_list put_condition (ru_when r) @ put_action (ru_action r) @ w_option put_remember (ru_remember r)"

definition get_rule :: "rule wire_reader" where
  "get_rule =
     rbind (rdr_list MAX_CONDITIONS get_condition) (\<lambda>when.
     rbind get_action (\<lambda>action.
     rbind get_remember (\<lambda>remember. rlift (rule_new when action remember))))"

definition put_program_body :: "program \<Rightarrow> bytes" where
  "put_program_body p = w_list put_rule (pg_rules p)"

definition get_program_body :: "program wire_reader" where
  "get_program_body = rbind (rdr_list MAX_RULES get_rule) (\<lambda>rules. rlift (program_new rules))"

definition encode_program :: "program \<Rightarrow> bytes" where
  "encode_program p = [WITNESS_VERSION, LANGUAGE_FINITE_RULE_V1] @ put_program_body p"

definition decode_program :: "bytes \<Rightarrow> codec_error + program" where
  "decode_program = decode_within MAX_PROGRAM_BYTES (rbind wire_header (\<lambda>_. get_program_body))"

definition put_pair :: "u16 \<times> program \<Rightarrow> bytes" where
  "put_pair ip = (case ip of (i, p) \<Rightarrow> to_be i @ put_program_body p)"

definition encode_candidate :: "(u16 \<times> program) list \<Rightarrow> bytes" where
  "encode_candidate programs = [WITNESS_VERSION, LANGUAGE_FINITE_RULE_V1] @ w_list put_pair programs"

definition encode_assignment :: "assignment \<Rightarrow> bytes" where
  "encode_assignment a = encode_candidate (zip (as_cells a) (as_programs a))"

fun get_pairs :: "nat \<Rightarrow> u16 option \<Rightarrow> (u16 \<times> program) list wire_reader" where
  "get_pairs 0 previous = rret []"
| "get_pairs (Suc n) previous =
     rbind (rdr_u16 FldCellId) (\<lambda>cell.
       if (case previous of None \<Rightarrow> False | Some before \<Rightarrow> cell \<le> before) then rfail (CEUnsorted FldCellId)
       else rbind get_program_body (\<lambda>p. rbind (get_pairs n (Some cell)) (\<lambda>rest. rret ((cell, p) # rest))))"

definition get_pair_list :: "(u16 \<times> program) list wire_reader" where
  "get_pair_list = rbind (rdr_count MAX_CELLS FldCount) (\<lambda>n. get_pairs n None)"

definition decode_candidate :: "bytes \<Rightarrow> codec_error + (u16 \<times> program) list" where
  "decode_candidate = decode_within MAX_ASSIGNMENT_BYTES
     (rbind wire_header (\<lambda>_. get_pair_list))"

section \<open>Worlds and cases\<close>

definition put_point :: "point \<Rightarrow> bytes" where
  "put_point p = [pt_x p, pt_y p]"

definition get_point :: "point wire_reader" where
  "get_point = rbind (rdr_u8 FldPoint) (\<lambda>x. rbind (rdr_u8 FldPoint) (\<lambda>y. rret \<lparr>pt_x = x, pt_y = y\<rparr>))"

definition put_spark :: "spark \<Rightarrow> bytes" where
  "put_spark s = to_be (sp_id s) @ w_bool (sp_bit s)"

definition get_spark :: "spark wire_reader" where
  "get_spark = rbind (rdr_u32 FldSpark) (\<lambda>i. rbind (rdr_bool FldSpark) (\<lambda>b. rret \<lparr>sp_id = i, sp_bit = b\<rparr>))"

definition put_endpoint :: "endpoint \<Rightarrow> bytes" where
  "put_endpoint e = (case e of EndCell i p \<Rightarrow> 1 # to_be i @ [p] | EndDepot i \<Rightarrow> 2 # to_be i)"

definition get_endpoint :: "endpoint wire_reader" where
  "get_endpoint = rbind (rdr_u8 FldEndpoint) (\<lambda>t.
     if t = 1 then rbind (rdr_u16 FldCellId) (\<lambda>i. rbind get_port (\<lambda>p. rret (EndCell i p)))
     else if t = 2 then rbind (rdr_u16 FldDepot) (\<lambda>i. rret (EndDepot i))
     else rfail (CEDiscriminant FldEndpoint t))"

definition put_source :: "source \<Rightarrow> bytes" where
  "put_source s = to_be (so_id s) @ put_point (so_position s) @ w_list put_spark (so_sparks s)"

text \<open>The sources share one bound on their sparks; \<open>spark_total\<close> runs through the loop.\<close>

fun get_sources :: "nat \<Rightarrow> nat \<Rightarrow> source list wire_reader" where
  "get_sources 0 spark_total = rret []"
| "get_sources (Suc n) spark_total =
     rbind (rdr_u16 FldSource) (\<lambda>i.
     rbind get_point (\<lambda>position.
     rbind (rdr_count MAX_INITIAL_SPARKS FldCount) (\<lambda>spark_count.
       if spark_total + spark_count > MAX_INITIAL_SPARKS then rfail (CEBound FldSpark)
       else
     rbind (rd_many get_spark spark_count) (\<lambda>sparks.
     rbind (get_sources n (spark_total + spark_count)) (\<lambda>rest.
       rret (\<lparr>so_id = i, so_position = position, so_sparks = sparks\<rparr> # rest))))))"

definition get_source_list :: "source list wire_reader" where
  "get_source_list = rbind (rdr_count MAX_SOURCES FldCount) (\<lambda>n. get_sources n 0)"

definition put_depot :: "depot \<Rightarrow> bytes" where
  "put_depot d = to_be (dp_id d) @ put_point (dp_position d) @ [dp_capacity d]"

definition get_depot :: "depot wire_reader" where
  "get_depot = rbind (rdr_u16 FldDepot) (\<lambda>i. rbind get_point (\<lambda>p. rbind (rdr_u8 FldDepot) (\<lambda>c.
     rret \<lparr>dp_id = i, dp_position = p, dp_capacity = c\<rparr>)))"

definition put_beacon :: "beacon \<Rightarrow> bytes" where
  "put_beacon b = to_be (bc_id b) @ put_point (bc_position b) @ w_bool (bc_accepts b) @ to_be (bc_initial_charge b)
     @ to_be (bc_drain_every b) @ to_be (bc_drain_amount b) @ to_be (bc_spark_charge b) @ to_be (bc_required_deliveries b)"

definition get_beacon :: "beacon wire_reader" where
  "get_beacon =
     rbind (rdr_u16 FldBeacon) (\<lambda>i. rbind get_point (\<lambda>p. rbind (rdr_bool FldBeacon) (\<lambda>a.
     rbind (rdr_u32 FldBeacon) (\<lambda>charge. rbind (rdr_u32 FldBeacon) (\<lambda>every. rbind (rdr_u32 FldBeacon) (\<lambda>amount.
     rbind (rdr_u32 FldBeacon) (\<lambda>per. rbind (rdr_u32 FldBeacon) (\<lambda>required.
       rret \<lparr>bc_id = i, bc_position = p, bc_accepts = a, bc_initial_charge = charge, bc_drain_every = every,
         bc_drain_amount = amount, bc_spark_charge = per, bc_required_deliveries = required\<rparr>))))))))"

definition put_valve :: "valve \<Rightarrow> bytes" where
  "put_valve v = to_be (va_id v) @ put_point (va_position v) @ to_be (va_depot v) @ to_be (va_beacon_zero v)
     @ to_be (va_beacon_one v) @ w_bool (va_enabled v)"

definition get_valve :: "valve wire_reader" where
  "get_valve =
     rbind (rdr_u16 FldValveSpec) (\<lambda>i. rbind get_point (\<lambda>p. rbind (rdr_u16 FldValveSpec) (\<lambda>d.
     rbind (rdr_u16 FldValveSpec) (\<lambda>zero. rbind (rdr_u16 FldValveSpec) (\<lambda>one. rbind (rdr_bool FldValveSpec) (\<lambda>e.
       rret \<lparr>va_id = i, va_position = p, va_depot = d, va_beacon_zero = zero, va_beacon_one = one, va_enabled = e\<rparr>))))))"

definition put_cell :: "cell_body \<Rightarrow> bytes" where
  "put_cell c = to_be (cb_id c) @ put_point (cb_position c) @ [direction_tag (cb_heading c)] @ w_bool (cb_mobile c) @ cb_memory c"

definition get_cell :: "cell_body wire_reader" where
  "get_cell =
     rbind (rdr_u16 FldCell) (\<lambda>i. rbind get_point (\<lambda>p. rbind get_direction (\<lambda>h. rbind (rdr_bool FldCell) (\<lambda>m.
     rbind (rd_many (rdr_u8 FldCell) 4) (\<lambda>memory.
       rret \<lparr>cb_id = i, cb_position = p, cb_heading = h, cb_mobile = m, cb_memory = memory\<rparr>)))))"

definition put_link :: "link \<Rightarrow> bytes" where
  "put_link l = to_be (lk_id l) @ put_endpoint (lk_from l) @ to_be (lk_to_cell l) @ [lk_to_port l] @ to_be (lk_delay l)
     @ w_bool (lk_enabled l)"

definition get_link :: "link wire_reader" where
  "get_link =
     rbind (rdr_u16 FldLink) (\<lambda>i. rbind get_endpoint (\<lambda>e. rbind (rdr_u16 FldLink) (\<lambda>c. rbind get_port (\<lambda>p.
     rbind (rdr_u32 FldLink) (\<lambda>d. rbind (rdr_bool FldLink) (\<lambda>b.
       rret \<lparr>lk_id = i, lk_from = e, lk_to_cell = c, lk_to_port = p, lk_delay = d, lk_enabled = b\<rparr>))))))"

definition put_world :: "world_spec \<Rightarrow> bytes" where
  "put_world ws = [ws_width ws, ws_height ws]
     @ to_be (word_of_nat (length (ws_walls ws)) :: u16) @ concat (map put_point (ws_walls ws))
     @ w_list put_source (ws_sources ws) @ w_list put_depot (ws_depots ws) @ w_list put_beacon (ws_beacons ws)
     @ w_list put_valve (ws_valves ws) @ w_list put_cell (ws_cells ws) @ w_list put_link (ws_links ws)"

definition get_walls :: "point list wire_reader" where
  "get_walls = rbind (rdr_u16 FldCount) (\<lambda>n.
     if unat n > MAX_WALLS then rfail (CEBound FldCount) else rd_many get_point (unat n))"

definition get_world :: "world_spec wire_reader" where
  "get_world =
     rbind (rdr_u8 FldPoint) (\<lambda>width. rbind (rdr_u8 FldPoint) (\<lambda>height. rbind get_walls (\<lambda>walls.
     rbind get_source_list (\<lambda>sources.
     rbind (rdr_list MAX_DEPOTS get_depot) (\<lambda>depots. rbind (rdr_list MAX_BEACONS get_beacon) (\<lambda>beacons.
     rbind (rdr_list MAX_VALVES get_valve) (\<lambda>valves. rbind (rdr_list MAX_CELLS get_cell) (\<lambda>cells.
     rbind (rdr_list MAX_LINKS get_link) (\<lambda>links.
       rret \<lparr>ws_width = width, ws_height = height, ws_walls = walls, ws_sources = sources, ws_depots = depots,
         ws_beacons = beacons, ws_valves = valves, ws_cells = cells, ws_links = links\<rparr>)))))))))"

definition put_world_event :: "world_event \<Rightarrow> bytes" where
  "put_world_event e = to_be (we_tick e)
     @ (case we_event e of
          LinkEnabled i b \<Rightarrow> 1 # to_be i @ w_bool b
        | ValveEnabled i b \<Rightarrow> 2 # to_be i @ w_bool b
        | ClearMemory c \<Rightarrow> 3 # to_be c)"

definition get_event_kind :: "world_event_kind wire_reader" where
  "get_event_kind = rbind (rdr_u8 FldEvent) (\<lambda>t.
     if t = 1 then rbind (rdr_u16 FldEvent) (\<lambda>i. rbind (rdr_bool FldEvent) (\<lambda>b. rret (LinkEnabled i b)))
     else if t = 2 then rbind (rdr_u16 FldEvent) (\<lambda>i. rbind (rdr_bool FldEvent) (\<lambda>b. rret (ValveEnabled i b)))
     else if t = 3 then rbind (rdr_u16 FldEvent) (\<lambda>c. rret (ClearMemory c))
     else rfail (CEDiscriminant FldEvent t))"

definition get_event :: "world_event wire_reader" where
  "get_event = rbind (rdr_u32 FldEvent) (\<lambda>t. rbind get_event_kind (\<lambda>k. rret \<lparr>we_tick = t, we_event = k\<rparr>))"

definition put_case :: "case_spec \<Rightarrow> bytes" where
  "put_case c = to_be (ca_seed c) @ to_be (ca_ticks c) @ to_be (ca_fuel c) @ to_be (ca_activation_fuel c)
     @ w_list put_world_event (ca_events c) @ to_be (ca_loading_work c)"

definition get_case :: "case_spec wire_reader" where
  "get_case =
     rbind (rdr_u64 FldCase) (\<lambda>seed. rbind (rdr_u32 FldCase) (\<lambda>ticks. rbind (rdr_u64 FldCase) (\<lambda>fuel.
     rbind (rdr_u32 FldCase) (\<lambda>window. rbind (rdr_list MAX_WORLD_EVENTS get_event) (\<lambda>events.
     rbind (rdr_u64 FldCase) (\<lambda>loading.
       rret \<lparr>ca_seed = seed, ca_ticks = ticks, ca_fuel = fuel, ca_activation_fuel = window, ca_events = events,
         ca_loading_work = loading\<rparr>))))))"

section \<open>Manifests\<close>

definition put_program_slot :: "program_slot \<Rightarrow> bytes" where
  "put_program_slot s = to_be (ps_cell s) @ w_option put_program_body (ps_fixed s)"

definition put_contract :: "work_contract \<Rightarrow> bytes" where
  "put_contract k = to_be (wc_useful_floor k) @ to_be (wc_total_ceiling k) @ w_bool (wc_require_passed k)"

definition encode_manifest :: "task_manifest \<Rightarrow> bytes" where
  "encode_manifest m = [WITNESS_VERSION, LANGUAGE_FINITE_RULE_V1] @ put_world (tm_world m)
     @ w_list put_program_slot (tm_slots m) @ w_list put_case (tm_cases m) @ put_contract (tm_contract m)"

definition get_fixed :: "program option wire_reader" where
  "get_fixed = rbind (rdr_u8 FldRemember) (\<lambda>t.
     if t = 0 then rret None
     else if t = 1 then rbind get_program_body (\<lambda>p. rret (Some p))
     else rfail (CEDiscriminant FldRemember t))"

fun get_program_slots :: "nat \<Rightarrow> u16 option \<Rightarrow> program_slot list wire_reader" where
  "get_program_slots 0 previous = rret []"
| "get_program_slots (Suc n) previous =
     rbind (rdr_u16 FldCellId) (\<lambda>cell.
       if (case previous of None \<Rightarrow> False | Some before \<Rightarrow> cell \<le> before) then rfail (CEUnsorted FldCellId)
       else rbind get_fixed (\<lambda>f. rbind (get_program_slots n (Some cell)) (\<lambda>rest.
         rret (\<lparr>ps_cell = cell, ps_fixed = f\<rparr> # rest))))"

definition get_slot_list :: "program_slot list wire_reader" where
  "get_slot_list = rbind (rdr_count MAX_CELLS FldCount) (\<lambda>n. get_program_slots n None)"

definition get_contract :: "work_contract wire_reader" where
  "get_contract = rbind (rdr_u64 FldContract) (\<lambda>f. rbind (rdr_u64 FldContract) (\<lambda>c. rbind (rdr_bool FldContract) (\<lambda>p.
     rret \<lparr>wc_useful_floor = f, wc_total_ceiling = c, wc_require_passed = p\<rparr>)))"

definition get_manifest :: "task_manifest wire_reader" where
  "get_manifest =
     rbind wire_header (\<lambda>_. rbind get_world (\<lambda>world.
     rbind get_slot_list (\<lambda>slots.
     rbind (rdr_list MAX_CASES get_case) (\<lambda>cases. rbind get_contract (\<lambda>contract.
       rret \<lparr>tm_world = world, tm_slots = slots, tm_cases = cases, tm_contract = contract\<rparr>)))))"

definition decode_manifest :: "bytes \<Rightarrow> codec_error + task_manifest" where
  "decode_manifest = decode_within MAX_MANIFEST_BYTES get_manifest"

section \<open>States\<close>

definition put_signal :: "signal \<Rightarrow> bytes" where
  "put_signal sg = to_be (sg_id sg) @ to_be (sg_link sg) @ put_endpoint (sg_from sg) @ to_be (sg_to_cell sg)
     @ [sg_to_port sg] @ w_bool (sg_bit sg) @ to_be (sg_sent_tick sg) @ to_be (sg_deliver_tick sg)
     @ w_option to_be (sg_receipt_spark sg)"

definition put_cell_state :: "cell_state \<Rightarrow> bytes" where
  "put_cell_state c = to_be (cs_id c) @ put_point (cs_position c) @ [direction_tag (cs_heading c)] @ cs_memory c
     @ concat (map (w_option to_be) (cs_evidence c)) @ w_option put_spark (cs_cargo c)
     @ concat (map (w_option put_signal) (cs_inbox c))"

definition put_source_state :: "source_state \<Rightarrow> bytes" where
  "put_source_state s = to_be (ss_id s) @ w_list put_spark (ss_sparks s)"

definition put_depot_state :: "depot_state \<Rightarrow> bytes" where
  "put_depot_state d = to_be (ds_id d) @ w_list put_spark (ds_sparks d)"

definition put_beacon_state :: "beacon_state \<Rightarrow> bytes" where
  "put_beacon_state b = to_be (bs_id b) @ to_be (bs_charge b) @ to_be (bs_delivered b) @ to_be (bs_drained b) @ w_bool (bs_exhausted b)"

definition put_enabled :: "enabled_state \<Rightarrow> bytes" where
  "put_enabled e = to_be (es_id e) @ w_bool (es_enabled e)"

definition put_delivery :: "delivery \<Rightarrow> bytes" where
  "put_delivery d = to_be (dl_tick d) @ put_spark (dl_spark d) @ to_be (dl_beacon d)"

definition encode_state :: "vm_state \<Rightarrow> bytes" where
  "encode_state S = to_be (st_tick S) @ w_list put_cell_state (st_cells S) @ w_list put_source_state (st_sources S)
     @ w_list put_depot_state (st_depots S) @ w_list put_beacon_state (st_beacons S) @ w_list put_enabled (st_valves S)
     @ w_list put_enabled (st_links S) @ w_list put_signal (st_pending S) @ w_list put_delivery (st_delivered S)
     @ to_be (st_next_signal S)"

section \<open>Results\<close>

definition put_ledger :: "work_ledger \<Rightarrow> bytes" where
  "put_ledger l = concat (map to_be (ledger_fields l))"

definition get_ledger :: "work_ledger wire_reader" where
  "get_ledger =
     rbind (rdr_u64 FldLedger) (\<lambda>a. rbind (rdr_u64 FldLedger) (\<lambda>b. rbind (rdr_u64 FldLedger) (\<lambda>c.
     rbind (rdr_u64 FldLedger) (\<lambda>d. rbind (rdr_u64 FldLedger) (\<lambda>e. rbind (rdr_u64 FldLedger) (\<lambda>f.
     rbind (rdr_u64 FldLedger) (\<lambda>g. rbind (rdr_u64 FldLedger) (\<lambda>h. rbind (rdr_u64 FldLedger) (\<lambda>i.
     rbind (rdr_u64 FldLedger) (\<lambda>j. rbind (rdr_u64 FldLedger) (\<lambda>k. rbind (rdr_u64 FldLedger) (\<lambda>l.
     rbind (rdr_u64 FldLedger) (\<lambda>m.
       rret \<lparr>wl_loading = a, wl_scheduling = b, wl_conditions = c, wl_sensors = d, wl_memory_reads = e,
         wl_memory_writes = f, wl_actions = g, wl_messages = h, wl_transfers = i, wl_checking = j, wl_draining = k,
         wl_copying = l, wl_construction = m\<rparr>)))))))))))))"

definition status_tag :: "run_status \<Rightarrow> u8" where
  "status_tag s = (case s of Complete \<Rightarrow> 1 | FuelExhausted \<Rightarrow> 2 | ActivationLimit \<Rightarrow> 3)"

definition get_status :: "run_status wire_reader" where
  "get_status = rbind (rdr_u8 FldStatus) (\<lambda>t.
     if t = 1 then rret Complete else if t = 2 then rret FuelExhausted else if t = 3 then rret ActivationLimit
     else rfail (CEDiscriminant FldStatus t))"

definition put_outcome :: "outcome \<Rightarrow> bytes" where
  "put_outcome out = w_bool (oc_all_beacons_positive out) @ w_bool (oc_quotas_met out) @ w_bool (oc_conserved out)
     @ w_bool (oc_passed out)"

definition get_outcome :: "outcome wire_reader" where
  "get_outcome =
     rbind (rdr_bool FldBool) (\<lambda>a. rbind (rdr_bool FldBool) (\<lambda>b. rbind (rdr_bool FldBool) (\<lambda>c. rbind (rdr_bool FldBool) (\<lambda>d.
       rret \<lparr>oc_all_beacons_positive = a, oc_quotas_met = b, oc_conserved = c, oc_passed = d\<rparr>))))"

definition put_case_result :: "case_result \<Rightarrow> bytes" where
  "put_case_result r = [status_tag (cr_status r)] @ to_be (cr_ticks_completed r) @ put_outcome (cr_outcome r)
     @ to_be (cr_final_state r) @ put_ledger (cr_ledger r) @ to_be (cr_useful r)"

definition get_case_result :: "case_result wire_reader" where
  "get_case_result =
     rbind get_status (\<lambda>s. rbind (rdr_u32 FldStatus) (\<lambda>t. rbind get_outcome (\<lambda>out. rbind rdr_hash (\<lambda>h.
     rbind get_ledger (\<lambda>l. rbind (rdr_u64 FldLedger) (\<lambda>u.
       rret \<lparr>cr_status = s, cr_ticks_completed = t, cr_outcome = out, cr_final_state = h, cr_ledger = l, cr_useful = u\<rparr>))))))"

definition encode_output :: "case_result list \<Rightarrow> bytes" where
  "encode_output results = w_list put_case_result results"

definition decode_output :: "bytes \<Rightarrow> codec_error + case_result list" where
  "decode_output = decode_within (1 + MAX_CASES * CASE_RESULT_BYTES) (rdr_list MAX_CASES get_case_result)"

end
