(* ===== verification/Witness_Wire.thy ===== *)
theory Witness_Wire
  imports Witness_Codec
begin

text \<open>
  The readers of the witness platform invert its writers. \<open>wire_iffs\<close> collects, for every type, when
  a reader returns a value: exactly when the value is well formed and the input starts with its
  encoding. Each such fact makes the pair a \<open>prefix_codec\<close>.
\<close>

named_theorems wire_iffs \<open>when a reader returns a value\<close>
named_theorems wire_sizes \<open>how long an encoding is\<close>

section \<open>Combinators\<close>

lemma byte_be: "to_be (b :: u8) = [b]"
  by (simp add: to_be_def)

lemma rret_iff [wire_iffs]: "rret x bs = Inr (y, rest) \<longleftrightarrow> x = y \<and> bs = rest"
  by (auto simp: rret_def)

lemma rfail_iff [wire_iffs]: "rfail e bs = Inr (y, rest) \<longleftrightarrow> False"
  by (simp add: rfail_def)

lemma rbind_iff [wire_iffs]: "rbind r k bs = Inr (y, rest) \<longleftrightarrow> (\<exists>x bs'. r bs = Inr (x, bs') \<and> k x bs' = Inr (y, rest))"
  by (auto simp: rbind_def)

lemma rlift_iff [wire_iffs]: "rlift r bs = Inr (y, rest) \<longleftrightarrow> r = Inr y \<and> bs = rest"
  by (auto simp: rlift_def)

lemma rdr_words [wire_iffs]:
  "rdr_u8 f bs = Inr (b, rest) \<longleftrightarrow> bs = b # rest"
  "rdr_u16 f bs = Inr (h, rest) \<longleftrightarrow> bs = to_be h @ rest"
  "rdr_u32 f bs = Inr (w, rest) \<longleftrightarrow> bs = to_be w @ rest"
  "rdr_u64 f bs = Inr (q, rest) \<longleftrightarrow> bs = to_be q @ rest"
  "rdr_hash bs = Inr (d, rest) \<longleftrightarrow> bs = to_be d @ rest"
  by (simp_all add: word_get_iff byte_be)

lemma rbind_u8 [wire_iffs]:
  "rbind (rdr_u8 f) k (b # bs) = k b bs" "rbind (rdr_u8 f) k [] = Inl (CETruncated f)"
  using rdr_words(1) [of f "b # bs" b bs] by (simp_all add: rbind_def rd_word_def rd_take_def)

lemma rdr_bool_iff [wire_iffs]: "rdr_bool f bs = Inr (v, rest) \<longleftrightarrow> bs = w_bool v @ rest"
  by (cases bs) (auto simp: rdr_bool_def w_bool_def wire_iffs)

lemma rdr_count_iff [wire_iffs]:
  assumes "limit < 256"
  shows "rdr_count limit f bs = Inr (n, rest) \<longleftrightarrow> n \<le> limit \<and> bs = word_of_nat n # rest"
proof -
  have "unat (word_of_nat n :: u8) = n" if "n \<le> limit" using that assms by (simp add: unat_of_nat)
  then show ?thesis by (cases bs) (auto simp: rdr_count_def wire_iffs not_less)
qed

lemma rd_many_reads:
  assumes "\<And>bs x rest. rd bs = Inr (x, rest) \<longleftrightarrow> ok x \<and> bs = put x @ rest"
  shows "rd_many rd n bs = Inr (xs, rest) \<longleftrightarrow> length xs = n \<and> (\<forall>x\<in>set xs. ok x) \<and> bs = concat (map put xs) @ rest"
  by (rule prefix_codec.rd_many_iff) (unfold_locales, simp_all add: assms)

lemma rdr_list_iff:
  assumes "\<And>bs x rest. rd bs = Inr (x, rest) \<longleftrightarrow> ok x \<and> bs = put x @ rest" and "limit < 256"
  shows "rdr_list limit rd bs = Inr (xs, rest) \<longleftrightarrow> length xs \<le> limit \<and> (\<forall>x\<in>set xs. ok x) \<and> bs = w_list put xs @ rest"
  by (auto simp: rdr_list_def w_list_def rbind_iff rdr_count_iff [OF assms(2)] rd_many_reads [of rd ok put, OF assms(1)])

lemma decode_within_iff:
  "decode_within limit rd raw = Inr x \<longleftrightarrow> length raw \<le> limit \<and> rd raw = Inr (x, [])"
  by (auto simp: decode_within_def)

lemma wire_header_iff [wire_iffs]: "wire_header bs = Inr (u, rest) \<longleftrightarrow> bs = [1, 1] @ rest"
  by (auto simp: wire_header_def wire_iffs)

section \<open>Programs\<close>

lemma get_direction_iff [wire_iffs]: "get_direction bs = Inr (d, rest) \<longleftrightarrow> bs = direction_tag d # rest"
  by (cases d; cases bs) (auto simp: get_direction_def direction_tag_def wire_iffs split: if_splits)

lemma get_relative_iff [wire_iffs]: "get_relative bs = Inr (r, rest) \<longleftrightarrow> bs = relative_tag r # rest"
  by (cases r; cases bs) (auto simp: get_relative_def relative_tag_def wire_iffs split: if_splits)

lemma get_slot_iff [wire_iffs]: "get_slot bs = Inr (s, rest) \<longleftrightarrow> s < MEMORY_SLOTS \<and> bs = s # rest"
  by (auto simp: get_slot_def slot_new_def wire_iffs split: if_splits)

lemma get_port_iff [wire_iffs]: "get_port bs = Inr (p, rest) \<longleftrightarrow> p < PORTS \<and> bs = p # rest"
  by (auto simp: get_port_def port_new_def wire_iffs split: if_splits)

lemma get_condition_iff [wire_iffs]: "get_condition bs = Inr (c, rest) \<longleftrightarrow> condition_ok c \<and> bs = put_condition c @ rest"
  by (cases c; cases bs) (auto simp: get_condition_def put_condition_def wire_iffs split: if_splits)

lemma get_bit_source_iff [wire_iffs]: "get_bit_source bs = Inr (b, rest) \<longleftrightarrow> bit_source_ok b \<and> bs = put_bit_source b @ rest"
  by (cases b; cases bs) (auto simp: get_bit_source_def put_bit_source_def wire_iffs split: if_splits)

lemma get_action_iff [wire_iffs]: "get_action bs = Inr (a, rest) \<longleftrightarrow> action_ok a \<and> bs = put_action a @ rest"
  by (cases a; cases bs) (auto simp: get_action_def put_action_def wire_iffs split: if_splits)

lemma get_remember_iff [wire_iffs]:
  "get_remember bs = Inr (m, rest) \<longleftrightarrow> (\<forall>w. m = Some w \<longrightarrow> mw_slot w < MEMORY_SLOTS) \<and> bs = w_option put_remember m @ rest"
proof (cases m)
  case None
  then show ?thesis by (cases bs) (auto simp: get_remember_def w_option_def wire_iffs split: if_splits)
next
  case (Some w)
  then show ?thesis by (cases w; cases bs) (auto simp: get_remember_def w_option_def put_remember_def wire_iffs split: if_splits)
qed

lemma get_rule_iff [wire_iffs]: "get_rule bs = Inr (r, rest) \<longleftrightarrow> rule_ok r \<and> bs = put_rule r @ rest"
  by (cases r)
     (auto simp: get_rule_def put_rule_def rule_new_def rule_ok_def list_all_iff wire_iffs
       rdr_list_iff [of get_condition condition_ok put_condition, OF get_condition_iff] split: option.split)

lemma get_program_body_iff [wire_iffs]: "get_program_body bs = Inr (p, rest) \<longleftrightarrow> program_ok p \<and> bs = put_program_body p @ rest"
  by (cases p)
     (auto simp: get_program_body_def put_program_body_def program_new_def program_ok_def list_all_iff wire_iffs Suc_le_eq not_less
       rdr_list_iff [of get_rule rule_ok put_rule, OF get_rule_iff])

definition pair_ok :: "u16 \<times> program \<Rightarrow> bool" where
  "pair_ok ip \<longleftrightarrow> program_ok (snd ip)"

definition after_opt :: "u16 option \<Rightarrow> u16 list \<Rightarrow> bool" where
  "after_opt previous is \<longleftrightarrow> sorted_wrt (<) is \<and> (\<forall>last. previous = Some last \<longrightarrow> (\<forall>i\<in>set is. last < i))"

lemma after_opt_Cons:
  "after_opt previous (i # is) \<longleftrightarrow> \<not> (case previous of None \<Rightarrow> False | Some before \<Rightarrow> i \<le> before) \<and> after_opt (Some i) is"
  by (auto simp: after_opt_def not_le split: option.split)

lemma get_pairs_iff:
  "get_pairs n previous bs = Inr (ps, rest) \<longleftrightarrow>
   length ps = n \<and> (\<forall>p\<in>set ps. pair_ok p) \<and> after_opt previous (map fst ps) \<and> bs = concat (map put_pair ps) @ rest"
proof (induction n arbitrary: previous bs ps)
  case 0
  then show ?case by (auto simp: wire_iffs after_opt_def)
next
  case (Suc n)
  show ?case
  proof (cases ps)
    case Nil
    then show ?thesis by (auto simp: wire_iffs split: if_splits)
  next
    case (Cons p qs)
    then show ?thesis
      by (cases p) (auto simp: wire_iffs Suc.IH pair_ok_def put_pair_def after_opt_Cons)
  qed
qed

section \<open>Worlds, cases and manifests\<close>

lemma get_point_iff [wire_iffs]: "get_point bs = Inr (p, rest) \<longleftrightarrow> bs = put_point p @ rest"
  by (cases p) (auto simp: get_point_def put_point_def wire_iffs)

lemma get_spark_iff [wire_iffs]: "get_spark bs = Inr (s, rest) \<longleftrightarrow> bs = put_spark s @ rest"
  by (cases s) (auto simp: get_spark_def put_spark_def wire_iffs)

definition endpoint_ok :: "endpoint \<Rightarrow> bool" where
  "endpoint_ok e = (case e of EndCell i p \<Rightarrow> p < PORTS | EndDepot i \<Rightarrow> True)"

lemma get_endpoint_iff [wire_iffs]: "get_endpoint bs = Inr (e, rest) \<longleftrightarrow> endpoint_ok e \<and> bs = put_endpoint e @ rest"
  by (cases e; cases bs) (auto simp: get_endpoint_def put_endpoint_def endpoint_ok_def wire_iffs split: if_splits)

lemma get_depot_iff [wire_iffs]: "get_depot bs = Inr (d, rest) \<longleftrightarrow> bs = put_depot d @ rest"
  by (cases d) (auto simp: get_depot_def put_depot_def wire_iffs)

lemma get_beacon_iff [wire_iffs]: "get_beacon bs = Inr (b, rest) \<longleftrightarrow> bs = put_beacon b @ rest"
  by (cases b) (auto simp: get_beacon_def put_beacon_def wire_iffs)

lemma get_valve_iff [wire_iffs]: "get_valve bs = Inr (v, rest) \<longleftrightarrow> bs = put_valve v @ rest"
  by (cases v) (auto simp: get_valve_def put_valve_def wire_iffs)

lemma concat_bytes: "concat (map (\<lambda>b. [b]) bs) = bs"
  by (induction bs) simp_all

lemma rd_bytes_iff [wire_iffs]: "rd_many (rdr_u8 f) n bs = Inr (xs, rest) \<longleftrightarrow> length xs = n \<and> bs = xs @ rest"
  using rd_many_reads [of "rdr_u8 f" "\<lambda>_. True" "\<lambda>b. [b]" n bs xs rest] by (simp add: wire_iffs concat_bytes)

lemma get_cell_iff [wire_iffs]: "get_cell bs = Inr (c, rest) \<longleftrightarrow> length (cb_memory c) = 4 \<and> bs = put_cell c @ rest"
  by (cases c) (auto simp: get_cell_def put_cell_def wire_iffs)

definition wire_link_ok :: "link \<Rightarrow> bool" where
  "wire_link_ok l \<longleftrightarrow> endpoint_ok (lk_from l) \<and> lk_to_port l < PORTS"

lemma get_link_iff [wire_iffs]: "get_link bs = Inr (l, rest) \<longleftrightarrow> wire_link_ok l \<and> bs = put_link l @ rest"
  by (cases l) (auto simp: get_link_def put_link_def wire_link_ok_def wire_iffs)

lemma get_sources_iff:
  "get_sources n t bs = Inr (ss, rest) \<longleftrightarrow>
   length ss = n \<and> (ss = [] \<or> t + length (concat (map so_sparks ss)) \<le> 128) \<and> bs = concat (map put_source ss) @ rest"
proof (induction n arbitrary: t bs ss)
  case 0
  then show ?case by (auto simp: wire_iffs)
next
  case (Suc n)
  have many: "rd_many get_spark k bs = Inr (xs, r) \<longleftrightarrow> length xs = k \<and> bs = concat (map put_spark xs) @ r" for k bs xs r
    using rd_many_reads [of get_spark "\<lambda>_. True" put_spark] get_spark_iff by simp
  show ?case
  proof (cases ss)
    case Nil
    then show ?thesis by (auto simp: wire_iffs split: if_splits)
  next
    case (Cons s qs)
    obtain i p xs where s: "s = \<lparr>so_id = i, so_position = p, so_sparks = xs\<rparr>" by (cases s)
    show ?thesis
      unfolding Cons s
      by (auto simp: wire_iffs many Suc.IH put_source_def w_list_def not_less
          intro!: exI [of _ i] exI [of _ p] exI [of _ "length xs"])
  qed
qed

definition world_codable :: "world_spec \<Rightarrow> bool" where
  "world_codable ws \<longleftrightarrow> length (ws_walls ws) \<le> MAX_WALLS \<and> length (ws_sources ws) \<le> MAX_SOURCES
     \<and> length (concat (map so_sparks (ws_sources ws))) \<le> MAX_INITIAL_SPARKS \<and> length (ws_depots ws) \<le> MAX_DEPOTS
     \<and> length (ws_beacons ws) \<le> MAX_BEACONS \<and> length (ws_valves ws) \<le> MAX_VALVES
     \<and> length (ws_cells ws) \<le> MAX_CELLS \<and> (\<forall>c\<in>set (ws_cells ws). length (cb_memory c) = 4)
     \<and> length (ws_links ws) \<le> MAX_LINKS \<and> (\<forall>l\<in>set (ws_links ws). wire_link_ok l)"

lemma get_walls_iff [wire_iffs]:
  "get_walls bs = Inr (ps, rest) \<longleftrightarrow>
   length ps \<le> MAX_WALLS \<and> bs = to_be (word_of_nat (length ps) :: u16) @ concat (map put_point ps) @ rest"
proof -
  have many: "rd_many get_point k bs = Inr (xs, r) \<longleftrightarrow> length xs = k \<and> bs = concat (map put_point xs) @ r" for k bs xs r
    using rd_many_reads [of get_point "\<lambda>_. True" put_point] get_point_iff by simp
  have "unat (word_of_nat (length ps) :: u16) = length ps" if "length ps \<le> 512" using that by (simp add: unat_of_nat)
  then show ?thesis
    by (auto simp: get_walls_def wire_iffs many not_less intro!: exI [of _ "word_of_nat (length ps) :: u16"])
qed

lemmas world_list_iffs =
  rdr_list_iff [of get_depot "\<lambda>_. True" put_depot, simplified, OF get_depot_iff]
  rdr_list_iff [of get_beacon "\<lambda>_. True" put_beacon, simplified, OF get_beacon_iff]
  rdr_list_iff [of get_valve "\<lambda>_. True" put_valve, simplified, OF get_valve_iff]
  rdr_list_iff [of get_cell "\<lambda>c. length (cb_memory c) = 4" put_cell, OF get_cell_iff]
  rdr_list_iff [of get_link wire_link_ok put_link, OF get_link_iff]

lemma get_source_list_iff [wire_iffs]:
  "get_source_list bs = Inr (ss, rest) \<longleftrightarrow>
   length ss \<le> MAX_SOURCES \<and> length (concat (map so_sparks ss)) \<le> MAX_INITIAL_SPARKS \<and> bs = w_list put_source ss @ rest"
  by (auto simp: get_source_list_def rbind_iff rdr_count_iff get_sources_iff w_list_def)

lemma get_world_iff [wire_iffs]: "get_world bs = Inr (ws, rest) \<longleftrightarrow> world_codable ws \<and> bs = put_world ws @ rest"
  by (cases ws) (auto simp: get_world_def put_world_def world_codable_def wire_iffs world_list_iffs)

lemma get_event_kind_iff [wire_iffs]:
  "get_event_kind bs = Inr (k, rest) \<longleftrightarrow> bs = (case k of LinkEnabled i b \<Rightarrow> 1 # to_be i @ w_bool b
     | ValveEnabled i b \<Rightarrow> 2 # to_be i @ w_bool b | ClearMemory c \<Rightarrow> 3 # to_be c) @ rest"
  by (cases k; cases bs) (auto simp: get_event_kind_def wire_iffs split: if_splits)

lemma get_event_iff [wire_iffs]: "get_event bs = Inr (e, rest) \<longleftrightarrow> bs = put_world_event e @ rest"
  by (cases e) (auto simp: get_event_def put_world_event_def wire_iffs)

lemma get_case_iff [wire_iffs]:
  "get_case bs = Inr (c, rest) \<longleftrightarrow> length (ca_events c) \<le> MAX_WORLD_EVENTS \<and> bs = put_case c @ rest"
  using rdr_list_iff [of get_event "\<lambda>_. True" put_world_event MAX_WORLD_EVENTS] get_event_iff
  by (cases c) (auto simp: get_case_def put_case_def wire_iffs)

lemma get_fixed_iff [wire_iffs]:
  "get_fixed bs = Inr (f, rest) \<longleftrightarrow> (\<forall>p. f = Some p \<longrightarrow> program_ok p) \<and> bs = w_option put_program_body f @ rest"
  by (cases f; cases bs) (auto simp: get_fixed_def w_option_def wire_iffs split: if_splits)

definition slot_ok :: "program_slot \<Rightarrow> bool" where
  "slot_ok s \<longleftrightarrow> (\<forall>p. ps_fixed s = Some p \<longrightarrow> program_ok p)"

lemma get_program_slots_iff:
  "get_program_slots n previous bs = Inr (ss, rest) \<longleftrightarrow>
   length ss = n \<and> (\<forall>s\<in>set ss. slot_ok s) \<and> after_opt previous (map ps_cell ss) \<and> bs = concat (map put_program_slot ss) @ rest"
proof (induction n arbitrary: previous bs ss)
  case 0
  then show ?case by (auto simp: wire_iffs after_opt_def)
next
  case (Suc n)
  show ?case
  proof (cases ss)
    case Nil
    then show ?thesis by (auto simp: wire_iffs split: if_splits)
  next
    case (Cons s qs)
    then show ?thesis
      by (cases s) (auto simp: wire_iffs Suc.IH slot_ok_def put_program_slot_def after_opt_Cons)
  qed
qed

lemma get_slot_list_iff [wire_iffs]:
  "get_slot_list bs = Inr (ss, rest) \<longleftrightarrow>
   length ss \<le> MAX_CELLS \<and> (\<forall>s\<in>set ss. slot_ok s) \<and> sorted_wrt (<) (map ps_cell ss) \<and> bs = w_list put_program_slot ss @ rest"
  by (auto simp: get_slot_list_def rbind_iff rdr_count_iff get_program_slots_iff w_list_def after_opt_def)

lemma get_pair_list_iff [wire_iffs]:
  "get_pair_list bs = Inr (ps, rest) \<longleftrightarrow>
   length ps \<le> MAX_CELLS \<and> (\<forall>p\<in>set ps. pair_ok p) \<and> sorted_wrt (<) (map fst ps) \<and> bs = w_list put_pair ps @ rest"
  by (auto simp: get_pair_list_def rbind_iff rdr_count_iff get_pairs_iff w_list_def after_opt_def)

lemma get_contract_iff [wire_iffs]: "get_contract bs = Inr (k, rest) \<longleftrightarrow> bs = put_contract k @ rest"
  by (cases k) (auto simp: get_contract_def put_contract_def wire_iffs)

definition manifest_codable :: "task_manifest \<Rightarrow> bool" where
  "manifest_codable m \<longleftrightarrow> world_codable (tm_world m) \<and> length (tm_slots m) \<le> MAX_CELLS \<and> (\<forall>s\<in>set (tm_slots m). slot_ok s)
     \<and> sorted_wrt (<) (map ps_cell (tm_slots m)) \<and> length (tm_cases m) \<le> MAX_CASES
     \<and> (\<forall>c\<in>set (tm_cases m). length (ca_events c) \<le> MAX_WORLD_EVENTS)"

lemma get_manifest_iff: "get_manifest bs = Inr (m, rest) \<longleftrightarrow> manifest_codable m \<and> bs = encode_manifest m @ rest"
  using rdr_list_iff [of get_case "\<lambda>c. length (ca_events c) \<le> MAX_WORLD_EVENTS" put_case MAX_CASES, OF get_case_iff]
  by (cases m) (auto simp: get_manifest_def encode_manifest_def manifest_codable_def wire_iffs MAX_CASES_def)

section \<open>Results\<close>

lemma get_ledger_iff [wire_iffs]: "get_ledger bs = Inr (l, rest) \<longleftrightarrow> bs = put_ledger l @ rest"
  by (cases l) (auto simp: get_ledger_def put_ledger_def ledger_fields_def wire_iffs)

lemma get_status_iff [wire_iffs]: "get_status bs = Inr (s, rest) \<longleftrightarrow> bs = status_tag s # rest"
  by (cases s; cases bs) (auto simp: get_status_def status_tag_def wire_iffs split: if_splits)

lemma get_outcome_iff [wire_iffs]: "get_outcome bs = Inr (r, rest) \<longleftrightarrow> bs = put_outcome r @ rest"
  by (cases r) (auto simp: get_outcome_def put_outcome_def wire_iffs)

lemma get_case_result_iff [wire_iffs]: "get_case_result bs = Inr (r, rest) \<longleftrightarrow> bs = put_case_result r @ rest"
  by (cases r) (auto simp: get_case_result_def put_case_result_def wire_iffs)

section \<open>Sizes\<close>

lemma length_w_bool [simp, wire_sizes]: "length (w_bool b) = 1"
  by (simp add: w_bool_def)

lemma sum_bound: "(\<And>x. x \<in> set xs \<Longrightarrow> length (put x) \<le> k) \<Longrightarrow> length (concat (map put xs)) \<le> length xs * k"
  by (induction xs) (auto intro: add_mono)

lemma w_list_bound:
  assumes "\<And>x. x \<in> set xs \<Longrightarrow> length (put x) \<le> k" and "length xs \<le> n"
  shows "length (w_list put xs) \<le> 1 + n * k"
proof -
  have "length (concat (map put xs)) \<le> length xs * k" by (rule sum_bound [OF assms(1)])
  also have "\<dots> \<le> n * k" using assms(2) by (rule mult_le_mono1)
  finally show ?thesis by (simp add: w_list_def)
qed

lemma w_option_bound: "(\<And>v. x = Some v \<Longrightarrow> length (put v) \<le> k) \<Longrightarrow> length (w_option put x) \<le> 1 + k"
  by (cases x) (auto simp: w_option_def)

lemma size_condition: "length (put_condition c) \<le> MAX_CONDITION_BYTES"
  by (cases c) (simp_all add: put_condition_def MAX_CONDITION_BYTES_def)

lemma size_bit_source: "length (put_bit_source b) = 2"
  by (cases b) (simp_all add: put_bit_source_def)

lemma size_action: "length (put_action a) \<le> MAX_ACTION_BYTES"
  by (cases a) (simp_all add: put_action_def MAX_ACTION_BYTES_def size_bit_source)

lemma size_rule: "rule_ok r \<Longrightarrow> length (put_rule r) \<le> MAX_RULE_BYTES"
  using w_list_bound [of "ru_when r" put_condition MAX_CONDITION_BYTES MAX_CONDITIONS] size_condition size_action [of "ru_action r"]
    w_option_bound [of "ru_remember r" put_remember 2]
  by (simp add: put_rule_def MAX_RULE_BYTES_def rule_ok_def put_remember_def)

lemma size_program_body: "program_ok p \<Longrightarrow> length (put_program_body p) \<le> MAX_PROGRAM_BODY_BYTES"
  unfolding put_program_body_def MAX_PROGRAM_BODY_BYTES_def
  by (rule w_list_bound [OF size_rule]) (auto simp: program_ok_def list_all_iff)

lemma size_program: "program_ok p \<Longrightarrow> length (encode_program p) \<le> MAX_PROGRAM_BYTES"
  using size_program_body [of p] by (simp add: encode_program_def MAX_PROGRAM_BYTES_def)

lemma size_candidate:
  assumes "\<forall>p\<in>set ps. pair_ok p" and "length ps \<le> MAX_CELLS"
  shows "length (encode_candidate ps) \<le> MAX_ASSIGNMENT_BYTES"
proof -
  have "length (put_pair p) \<le> 2 + MAX_PROGRAM_BODY_BYTES" if "p \<in> set ps" for p
    using size_program_body [of "snd p"] assms(1) that by (cases p) (auto simp: put_pair_def pair_ok_def)
  from w_list_bound [of ps, OF this assms(2)] show ?thesis by (simp add: encode_candidate_def MAX_ASSIGNMENT_BYTES_def)
qed

lemma size_point: "length (put_point p) = 2"
  by (simp add: put_point_def)

lemma size_spark: "length (put_spark s) = 5"
  by (simp add: put_spark_def)

lemma size_endpoint: "length (put_endpoint e) \<le> 4"
  by (cases e) (simp_all add: put_endpoint_def)

lemma size_sparks: "length (concat (map put_spark xs)) = 5 * length xs"
  by (induction xs) (simp_all add: size_spark)

lemma size_world:
  assumes ok: "world_codable ws"
  shows "length (put_world ws) \<le> MAX_WORLD_BYTES"
proof -
  have "length (concat (map put_source ss)) = 5 * length ss + 5 * length (concat (map so_sparks ss))" for ss
    by (induction ss) (simp_all add: put_source_def w_list_def size_sparks size_point)
  then have sources: "length (w_list put_source (ws_sources ws)) \<le> 1 + MAX_SOURCES * 5 + MAX_INITIAL_SPARKS * 5"
    using ok by (simp add: w_list_def world_codable_def)
  have walls: "length (concat (map put_point ps)) = 2 * length ps" for ps by (induction ps) (simp_all add: size_point)
  have cells: "length (w_list put_cell (ws_cells ws)) \<le> 1 + MAX_CELLS * 10"
    using ok by (intro w_list_bound) (auto simp: put_cell_def size_point world_codable_def)
  have links: "length (w_list put_link (ws_links ws)) \<le> 1 + MAX_LINKS * 14"
    using ok size_endpoint by (intro w_list_bound) (auto simp: put_link_def world_codable_def)
  have depots: "length (w_list put_depot (ws_depots ws)) \<le> 1 + MAX_DEPOTS * 5"
    using ok by (intro w_list_bound) (auto simp: put_depot_def size_point world_codable_def)
  have beacons: "length (w_list put_beacon (ws_beacons ws)) \<le> 1 + MAX_BEACONS * 25"
    using ok by (intro w_list_bound) (auto simp: put_beacon_def size_point world_codable_def)
  have valves: "length (w_list put_valve (ws_valves ws)) \<le> 1 + MAX_VALVES * 11"
    using ok by (intro w_list_bound) (auto simp: put_valve_def size_point world_codable_def)
  show ?thesis
    using sources cells links depots beacons valves ok
    by (simp add: put_world_def walls MAX_WORLD_BYTES_def MAX_SPARK_BYTES_def world_codable_def)
qed

lemma size_case: "length (ca_events c) \<le> MAX_WORLD_EVENTS \<Longrightarrow> length (put_case c) \<le> MAX_CASE_BYTES"
proof -
  assume n: "length (ca_events c) \<le> MAX_WORLD_EVENTS"
  have "length (put_world_event e) \<le> MAX_WORLD_EVENT_BYTES" for e
    by (auto simp: put_world_event_def MAX_WORLD_EVENT_BYTES_def split: world_event_kind.split)
  from w_list_bound [of "ca_events c", OF this n] show ?thesis by (simp add: put_case_def MAX_CASE_BYTES_def)
qed

lemma size_manifest:
  assumes ok: "manifest_codable m"
  shows "length (encode_manifest m) \<le> MAX_MANIFEST_BYTES"
proof -
  have "length (put_program_slot s) \<le> 3 + MAX_PROGRAM_BODY_BYTES" if "slot_ok s" for s
    using w_option_bound [of "ps_fixed s" put_program_body MAX_PROGRAM_BODY_BYTES] size_program_body that
    by (auto simp: put_program_slot_def slot_ok_def)
  then have "length (w_list put_program_slot (tm_slots m)) \<le> 1 + MAX_CELLS * (3 + MAX_PROGRAM_BODY_BYTES)"
    using ok by (intro w_list_bound) (auto simp: manifest_codable_def)
  moreover have "length (w_list put_case (tm_cases m)) \<le> 1 + MAX_CASES * MAX_CASE_BYTES"
    using ok size_case by (intro w_list_bound) (auto simp: manifest_codable_def)
  ultimately show ?thesis
    using size_world [of "tm_world m"] ok by (simp add: encode_manifest_def MAX_MANIFEST_BYTES_def put_contract_def manifest_codable_def)
qed

lemma size_ledger: "length (put_ledger l) = LEDGER_BYTES"
  by (simp add: put_ledger_def ledger_fields_def LEDGER_BYTES_def)

lemma size_case_result: "length (put_case_result r) = CASE_RESULT_BYTES"
  by (simp add: put_case_result_def CASE_RESULT_BYTES_def put_outcome_def size_ledger)

lemma size_output: "length rs \<le> MAX_CASES \<Longrightarrow> length (encode_output rs) \<le> 1 + MAX_CASES * CASE_RESULT_BYTES"
  unfolding encode_output_def by (rule w_list_bound) (simp_all add: size_case_result)

section \<open>Whole encodings\<close>

lemma decode_program_iff: "decode_program raw = Inr p \<longleftrightarrow> program_ok p \<and> encode_program p = raw"
  using size_program [of p] by (auto simp: decode_program_def decode_within_iff wire_iffs encode_program_def)

lemma decode_candidate_iff:
  "decode_candidate raw = Inr ps \<longleftrightarrow>
   length ps \<le> MAX_CELLS \<and> (\<forall>p\<in>set ps. pair_ok p) \<and> sorted_wrt (<) (map fst ps) \<and> encode_candidate ps = raw"
  using size_candidate [of ps] by (auto simp: decode_candidate_def decode_within_iff wire_iffs encode_candidate_def)

lemma decode_manifest_iff: "decode_manifest raw = Inr m \<longleftrightarrow> manifest_codable m \<and> encode_manifest m = raw"
  using size_manifest [of m] by (auto simp: decode_manifest_def decode_within_iff get_manifest_iff)

lemma decode_output_iff: "decode_output raw = Inr rs \<longleftrightarrow> length rs \<le> MAX_CASES \<and> encode_output rs = raw"
  using rdr_list_iff [of get_case_result "\<lambda>_. True" put_case_result MAX_CASES] get_case_result_iff size_output [of rs]
  by (auto simp: decode_output_def decode_within_iff encode_output_def MAX_CASES_def)

text \<open>The decoders accept exactly the canonical encodings of well-formed values.\<close>

interpretation program_codec: frame_codec encode_program decode_program program_ok
  by unfold_locales (simp_all add: decode_program_iff)

interpretation candidate_codec: frame_codec encode_candidate decode_candidate
    "\<lambda>ps. length ps \<le> MAX_CELLS \<and> (\<forall>p\<in>set ps. pair_ok p) \<and> sorted_wrt (<) (map fst ps)"
  by unfold_locales (simp_all add: decode_candidate_iff)

interpretation manifest_codec: frame_codec encode_manifest decode_manifest manifest_codable
  by unfold_locales (simp_all add: decode_manifest_iff)

interpretation output_codec: frame_codec encode_output decode_output "\<lambda>rs. length rs \<le> MAX_CASES"
  by unfold_locales (simp_all add: decode_output_iff)

end
