(* ===== verification/Witness_World.thy ===== *)
theory Witness_World
  imports Witness_Model
begin

text \<open>
  What validation of a world, a case and an assignment establishes. The wall bitmap answers
  exactly membership in the declared walls; entities have distinct identifiers and usable
  distinct positions; every reference resolves; an assignment holds one validated program per
  cell in world order.
\<close>

section \<open>Searches\<close>

lemma position_where_Some:
  "position_where p xs = Some i \<longleftrightarrow> i < length xs \<and> p (xs ! i) \<and> (\<forall>j<i. \<not> p (xs ! j))"
proof (induction xs arbitrary: i)
  case (Cons x xs)
  then show ?case
    by (cases i) (auto simp: less_Suc_eq_0_disj)
qed simp

lemma position_where_None: "position_where p xs = None \<longleftrightarrow> (\<forall>x\<in>set xs. \<not> p x)"
  by (induction xs) auto

lemma position_where_lt: "position_where p xs = Some i \<Longrightarrow> i < length xs"
  by (simp add: position_where_Some)

lemma position_where_sat: "position_where p xs = Some i \<Longrightarrow> p (xs ! i)"
  by (simp add: position_where_Some)

lemma unique_from_iff: "unique_from seen is \<longleftrightarrow> distinct is \<and> set is \<inter> set seen = {}"
  by (induction "is" arbitrary: seen) auto

lemma unique_iff [simp]: "unique is = distinct is"
  by (simp add: unique_def unique_from_iff)

lemma find_mem: "find p xs = Some x \<Longrightarrow> x \<in> set xs \<and> p x"
  by (auto simp: find_Some_iff)

lemma find_SomeI: "x \<in> set xs \<Longrightarrow> p x \<Longrightarrow> \<exists>y. find p xs = Some y"
  by (cases "find p xs") (auto simp: find_None_iff)

section \<open>The wall bitmap\<close>

lemma wall_bit_test: "unat (pt_x p) < 32 \<Longrightarrow> (r AND wall_bit p \<noteq> 0) = bit r (unat (pt_x p))"
  by (auto simp: wall_bit_def bit_eq_iff [of "_ :: u32"] bit_and_iff bit_exp_iff)

lemma bit_or_wall_bit:
  "n < 32 \<Longrightarrow> bit (r OR wall_bit p) n \<longleftrightarrow> bit r n \<or> n = unat (pt_x p)"
  by (auto simp: wall_bit_def bit_or_iff bit_exp_iff)

definition rows_hold :: "u32 list \<Rightarrow> point set \<Rightarrow> bool" where
  "rows_hold rows ps \<longleftrightarrow> length rows = 32
     \<and> (\<forall>x y. x < 32 \<longrightarrow> y < 32 \<longrightarrow> bit (rows ! unat y) (unat x) = (\<lparr>pt_x = x, pt_y = y\<rparr> \<in> ps))"

lemma u8_lt_32: "(x :: u8) < 32 \<longleftrightarrow> unat x < 32"
  by (simp add: word_less_nat_alt)

lemma wall_step_holds:
  assumes "rows_hold rows ps" and "wall_step ws rows p = Inr rows'"
    and "ws_width ws \<le> MAX_SIDE" and "ws_height ws \<le> MAX_SIDE"
  shows "rows_hold rows' (insert p ps) \<and> on_grid ws p \<and> p \<notin> ps"
proof -
  obtain px py where p: "p = \<lparr>pt_x = px, pt_y = py\<rparr>" by (cases p)
  have g: "on_grid ws p" using assms(2) by (simp add: wall_step_def)
  then have s: "px < 32" "py < 32" using assms(3,4) by (auto simp: on_grid_def p)
  then have n: "unat px < 32" "unat py < 32" by (simp_all add: u8_lt_32)
  have l: "length rows = 32" using assms(1) by (simp add: rows_hold_def)
  have nb: "\<not> bit (rows ! unat py) (unat px)"
    using assms(2) n wall_bit_test [of p "rows ! unat py"] by (auto simp: wall_step_def Let_def p)
  then have fresh: "p \<notin> ps" using assms(1) s by (auto simp: rows_hold_def p)
  have r': "rows' = rows[unat py := (rows ! unat py) OR wall_bit p]"
    using assms(2) by (simp add: wall_step_def Let_def p)
  have "bit (rows' ! unat y) (unat x) = (\<lparr>pt_x = x, pt_y = y\<rparr> \<in> insert p ps)" if "x < 32" "y < 32" for x y
  proof -
    have "bit (rows ! unat y) (unat x) = (\<lparr>pt_x = x, pt_y = y\<rparr> \<in> ps)"
      using assms(1) that by (simp add: rows_hold_def)
    moreover have "unat x < 32" "unat y < 32" using that by (simp_all add: u8_lt_32)
    moreover have "unat x = unat px \<longleftrightarrow> x = px" "unat y = unat py \<longleftrightarrow> y = py" by (simp_all add: word_unat_eq_iff)
    ultimately show ?thesis
      using n l by (auto simp: r' p bit_or_wall_bit nth_list_update)
  qed
  then show ?thesis using g fresh l by (auto simp: rows_hold_def r')
qed

lemma wall_fold_holds:
  assumes "foldR (wall_step ws) rows ps = Inr rows'" and "rows_hold rows qs"
    and "ws_width ws \<le> MAX_SIDE" and "ws_height ws \<le> MAX_SIDE"
  shows "rows_hold rows' (qs \<union> set ps) \<and> list_all (on_grid ws) ps \<and> distinct ps \<and> set ps \<inter> qs = {}"
  using assms(1,2)
proof (induction ps arbitrary: rows qs)
  case (Cons p ps)
  then obtain r where r: "wall_step ws rows p = Inr r" "foldR (wall_step ws) r ps = Inr rows'" by auto
  note w = wall_step_holds [OF Cons.prems(2) r(1) assms(3,4)]
  show ?case using Cons.IH [OF r(2), of "insert p qs"] w by auto
qed simp

lemma rows_hold_empty: "rows_hold (replicate 32 0) {}"
  by (auto simp: rows_hold_def u8_lt_32)

section \<open>Placement\<close>

lemma place_fold:
  "foldR (place_step e ws rows) seen ps = Inr out \<longleftrightarrow>
   list_all (usable ws rows) ps \<and> distinct ps \<and> set ps \<inter> set seen = {} \<and> out = seen @ ps"
proof (induction ps arbitrary: seen)
  case (Cons p ps)
  then show ?case by (auto simp: place_step_def)
qed auto

lemma spark_fold:
  assumes "foldR spark_step seen ss = Inr out" and "length seen \<le> MAX_INITIAL_SPARKS" and "distinct seen"
  shows "distinct (seen @ map sp_id ss) \<and> length seen + length ss \<le> MAX_INITIAL_SPARKS"
  using assms
proof (induction ss arbitrary: seen)
  case (Cons s ss)
  then have "sp_id s \<notin> set seen" "length seen < 128" "foldR spark_step (seen @ [sp_id s]) ss = Inr out"
    by (auto simp: spark_step_def [of seen])
  then show ?case using Cons.IH [of "seen @ [sp_id s]"] Cons.prems by auto
qed auto

section \<open>A valid world\<close>

definition world_sparks :: "world \<Rightarrow> spark list" where
  "world_sparks W = concat (map so_sparks (wd_sources W))"

definition valve_ok :: "world \<Rightarrow> valve \<Rightarrow> bool" where
  "valve_ok W v \<longleftrightarrow> (\<exists>d\<in>set (wd_depots W). dp_id d = va_depot v \<and> distance (va_position v) (dp_position d) = 1)
     \<and> (\<exists>b\<in>set (wd_beacons W). bc_id b = va_beacon_zero v \<and> \<not> bc_accepts b)
     \<and> (\<exists>b\<in>set (wd_beacons W). bc_id b = va_beacon_one v \<and> bc_accepts b)"

definition origin_ok :: "world \<Rightarrow> endpoint \<Rightarrow> bool" where
  "origin_ok W e \<longleftrightarrow>
     (case e of EndCell i _ \<Rightarrow> i \<in> cb_id ` set (wd_cells W) | EndDepot i \<Rightarrow> i \<in> dp_id ` set (wd_depots W))"

definition link_ok :: "world \<Rightarrow> link \<Rightarrow> bool" where
  "link_ok W l \<longleftrightarrow> lk_to_cell l \<in> cb_id ` set (wd_cells W) \<and> origin_ok W (lk_from l)
     \<and> 1 \<le> unat (lk_delay l) \<and> unat (lk_delay l) \<le> 16"

definition beacon_ok :: "beacon \<Rightarrow> bool" where
  "beacon_ok b \<longleftrightarrow> 1 \<le> unat (bc_initial_charge b) \<and> unat (bc_initial_charge b) \<le> 10000
     \<and> 1 \<le> unat (bc_drain_every b) \<and> unat (bc_spark_charge b) \<le> 64"

text \<open>What the types of the source already guarantee: arrays of four and validated ports.\<close>

definition spec_typed :: "world_spec \<Rightarrow> bool" where
  "spec_typed ws \<longleftrightarrow> list_all (\<lambda>c. length (cb_memory c) = 4) (ws_cells ws)
     \<and> list_all (\<lambda>l. lk_to_port l < PORTS) (ws_links ws)"

definition world_ok :: "world \<Rightarrow> bool" where
  "world_ok W \<longleftrightarrow> spec_typed (wd_spec W)
     \<and> unat (wd_width W) \<le> 32 \<and> unat (wd_height W) \<le> 32
     \<and> 1 \<le> length (wd_cells W) \<and> length (wd_walls W) \<le> 512 \<and> length (wd_cells W) \<le> 16 \<and> length (wd_sources W) \<le> 8
     \<and> length (wd_depots W) \<le> 8 \<and> length (wd_beacons W) \<le> 8 \<and> length (wd_valves W) \<le> 8 \<and> length (wd_links W) \<le> 32
     \<and> distinct (map cb_id (wd_cells W)) \<and> distinct (map dp_id (wd_depots W)) \<and> distinct (map bc_id (wd_beacons W))
     \<and> distinct (map va_id (wd_valves W)) \<and> distinct (map lk_id (wd_links W))
     \<and> (\<forall>c\<in>set (wd_cells W). on_grid (wd_spec W) (cb_position c) \<and> cb_position c \<notin> set (wd_walls W))
     \<and> distinct (map cb_position (wd_cells W))
     \<and> distinct (map sp_id (world_sparks W)) \<and> length (world_sparks W) \<le> 128
     \<and> (\<forall>b\<in>set (wd_beacons W). beacon_ok b)
     \<and> (\<forall>v\<in>set (wd_valves W). valve_ok W v) \<and> (\<forall>l\<in>set (wd_links W). link_ok W l)
     \<and> (\<forall>p. is_wall W p \<longleftrightarrow> p \<in> set (wd_walls W))"

lemma check_link_ok: "check_link (wd_spec W) l = Inr () \<Longrightarrow> link_ok W l"
  by (auto simp: check_link_def link_ok_def origin_ok_def word_le_nat_alt image_iff Bex_def
      split: endpoint.splits dest!: find_mem)

lemma check_valve_ok: "check_valve (wd_spec W) v = Inr () \<Longrightarrow> valve_ok W v"
  by (auto simp: check_valve_def valve_ok_def dest!: find_mem)

lemma check_beacon_ok: "check_beacon b = Inr () \<Longrightarrow> beacon_ok b"
  by (auto simp: check_beacon_def beacon_ok_def word_le_nat_alt)

lemma is_wall_iff:
  assumes "rows_hold (wd_wall_rows W) ps" and "\<forall>p\<in>ps. pt_x p < 32 \<and> pt_y p < 32"
  shows "is_wall W p \<longleftrightarrow> p \<in> ps"
proof (cases "pt_x p < 32 \<and> pt_y p < 32")
  case True
  moreover obtain x y where "p = \<lparr>pt_x = x, pt_y = y\<rparr>" by (cases p)
  ultimately show ?thesis
    using assms(1) wall_bit_test [of p "wd_wall_rows W ! unat (pt_y p)"]
    by (simp add: is_wall_def rows_hold_def u8_lt_32)
next
  case False
  then show ?thesis using assms(2) by (auto simp: is_wall_def)
qed

lemma world_new_ok:
  assumes "world_new ws = Inr W" and typed: "spec_typed ws"
  shows "world_ok W \<and> wd_spec W = ws"
proof -
  from assms(1) [unfolded world_new_def Let_def guard_eq_Inr bindR_eq_Inr]
  obtain rows cs st sk where
    dims: "ws_width ws \<le> MAX_SIDE" "ws_height ws \<le> MAX_SIDE"
    and lens: "length (ws_walls ws) \<le> 512" "1 \<le> length (ws_cells ws)" "length (ws_cells ws) \<le> 16"
      "length (ws_sources ws) \<le> 8" "length (ws_depots ws) \<le> 8"
      "length (ws_beacons ws) \<le> 8" "length (ws_valves ws) \<le> 8" "length (ws_links ws) \<le> 32"
    and rows: "foldR (wall_step ws) (replicate 32 0) (ws_walls ws) = Inr rows"
    and ids: "distinct (map cb_id (ws_cells ws))" "distinct (map dp_id (ws_depots ws))"
      "distinct (map bc_id (ws_beacons ws))" "distinct (map va_id (ws_valves ws))" "distinct (map lk_id (ws_links ws))"
    and cells: "foldR (place_step CellPosition ws rows) [] (map cb_position (ws_cells ws)) = Inr cs"
    and sparks: "foldR spark_step [] (concat (map so_sparks (ws_sources ws))) = Inr sk"
    and checks: "\<forall>b\<in>set (ws_beacons ws). check_beacon b = Inr ()" "\<forall>v\<in>set (ws_valves ws). check_valve ws v = Inr ()"
      "\<forall>l\<in>set (ws_links ws). check_link ws l = Inr ()"
    and W: "W = \<lparr>wd_spec = ws, wd_wall_rows = rows\<rparr>"
    unfolding unique_iff by (auto simp: Suc_le_eq not_less)
  have hold: "rows_hold rows (set (ws_walls ws))" and grid: "list_all (on_grid ws) (ws_walls ws)"
    using wall_fold_holds [OF rows rows_hold_empty dims] by auto
  have walls: "is_wall W p \<longleftrightarrow> p \<in> set (ws_walls ws)" for p
    by (rule is_wall_iff) (use hold grid dims in \<open>auto simp: W list_all_iff on_grid_def\<close>)
  have pos: "\<forall>c\<in>set (ws_cells ws). usable ws rows (cb_position c)" "distinct (map cb_position (ws_cells ws))"
    using cells by (auto simp: place_fold list_all_iff)
  have "on_grid ws (cb_position c) \<and> cb_position c \<notin> set (ws_walls ws)" if "c \<in> set (ws_cells ws)" for c
  proof -
    have "usable ws rows (cb_position c)" using pos that by blast
    then show ?thesis using walls [of "cb_position c"] by (auto simp: usable_def is_wall_def W)
  qed
  moreover have "distinct (map sp_id (world_sparks W)) \<and> length (world_sparks W) \<le> 128"
    using spark_fold [OF sparks] by (simp add: world_sparks_def W)
  moreover have "unat (ws_width ws) \<le> 32" "unat (ws_height ws) \<le> 32"
    using dims by (simp_all add: word_le_nat_alt)
  moreover have "\<forall>v\<in>set (ws_valves ws). valve_ok W v" "\<forall>l\<in>set (ws_links ws). link_ok W l" "\<forall>b\<in>set (ws_beacons ws). beacon_ok b"
    using checks check_valve_ok [of W] check_link_ok [of W] check_beacon_ok by (auto simp: W)
  ultimately show ?thesis using walls lens ids pos(2) typed by (simp add: world_ok_def W)
qed

section \<open>Valid cases and assignments\<close>

definition case_ok :: "world \<Rightarrow> case_spec \<Rightarrow> bool" where
  "case_ok W c \<longleftrightarrow> 1 \<le> unat (ca_ticks c) \<and> unat (ca_ticks c) \<le> 128 \<and> unat (ca_fuel c) \<le> 2000000
     \<and> 1 \<le> unat (ca_activation_fuel c) \<and> unat (ca_activation_fuel c) \<le> 1024
     \<and> unat (ca_loading_work c) \<le> 65536 \<and> length (ca_events c) \<le> 64
     \<and> (\<forall>e\<in>set (ca_events c). event_exists W (we_event e))"

lemma case_new_ok: "case_new W c = Inr c' \<Longrightarrow> c' = c \<and> case_ok W c"
  by (auto simp: case_new_def case_ok_def check_event_def word_le_nat_alt not_less)

definition assignment_ok :: "world \<Rightarrow> assignment \<Rightarrow> bool" where
  "assignment_ok W a \<longleftrightarrow> as_cells a = map cb_id (wd_cells W) \<and> length (as_programs a) = length (wd_cells W)
     \<and> (\<forall>p\<in>set (as_programs a). program_ok p)"

lemma bind_cells:
  assumes "foldR (bind_cell W ps) a cs = Inr a'" and "\<forall>(i, p)\<in>set ps. program_ok p"
  shows "as_cells a' = as_cells a @ map cb_id cs
    \<and> (\<exists>qs. as_programs a' = as_programs a @ qs \<and> list_all2 (\<lambda>c q. (cb_id c, q) \<in> set ps) cs qs)"
  using assms(1)
proof (induction cs arbitrary: a)
  case (Cons c cs)
  from Cons.prems obtain i p where f: "find (\<lambda>(i, _). i = cb_id c) ps = Some (i, p)"
    and r: "foldR (bind_cell W ps) \<lparr>as_programs = as_programs a @ [p], as_cells = as_cells a @ [cb_id c]\<rparr> cs = Inr a'"
    by (auto simp only: foldR.simps bindR_eq_Inr bind_cell_def [of _ _ a] ok_or_eq_Inr split: prod.splits)
  have "(cb_id c, p) \<in> set ps" using find_mem [OF f] by auto
  then show ?case using Cons.IH [OF r] by force
qed simp

lemma assignment_validate_ok:
  assumes "assignment_validate W ps = Inr a" and "\<forall>(i, p)\<in>set ps. program_ok p"
  shows "assignment_ok W a \<and> list_all2 (\<lambda>c q. (cb_id c, q) \<in> set ps) (wd_cells W) (as_programs a)"
proof -
  have "foldR (bind_cell W ps) \<lparr>as_programs = [], as_cells = []\<rparr> (wd_cells W) = Inr a"
    using assms(1) by (simp add: assignment_validate_def)
  from bind_cells [OF this assms(2)]
  have c: "as_cells a = map cb_id (wd_cells W)"
    and q: "list_all2 (\<lambda>c q. (cb_id c, q) \<in> set ps) (wd_cells W) (as_programs a)" by auto
  have "\<forall>p\<in>set (as_programs a). program_ok p"
  proof
    fix q
    assume "q \<in> set (as_programs a)"
    then obtain i where "i < length (as_programs a)" "q = as_programs a ! i" by (auto simp: in_set_conv_nth)
    then have "(cb_id (wd_cells W ! i), q) \<in> set ps" using list_all2_nthD2 [OF q] by simp
    then show "program_ok q" using assms(2) by auto
  qed
  then show ?thesis using c q by (simp add: assignment_ok_def list_all2_lengthD)
qed

end
