(* ===== verification/Witness_Invariant.thy ===== *)
theory Witness_Invariant
  imports Witness_World Witness_VM "HOL-Library.Multiset"
begin

text \<open>
  The invariant of the machine's state and the pure part of its preservation. A state that
  satisfies \<open>state_ok\<close> has the shape of its world, cells on distinct usable squares, every spark of
  the world in exactly one place, beacons whose energy is accounted for, and signals and memory
  whose evidence names a spark that was really deposited with that bit.
\<close>

section \<open>The invariant\<close>

definition deposited :: "vm_state \<Rightarrow> spark set" where
  "deposited S = (\<Union>d\<in>set (st_depots S). set (ds_sparks d)) \<union> dl_spark ` set (st_delivered S)"

definition backed :: "spark set \<Rightarrow> bool \<Rightarrow> u32 option \<Rightarrow> bool" where
  "backed D b evidence \<longleftrightarrow> (\<forall>i. evidence = Some i \<longrightarrow> \<lparr>sp_id = i, sp_bit = b\<rparr> \<in> D)"

definition signal_ok :: "world \<Rightarrow> spark set \<Rightarrow> nat \<Rightarrow> signal \<Rightarrow> bool" where
  "signal_ok W D t sg \<longleftrightarrow>
     (\<exists>l\<in>set (wd_links W). lk_id l = sg_link sg \<and> lk_from l = sg_from sg \<and> lk_to_cell l = sg_to_cell sg
        \<and> lk_to_port l = sg_to_port sg \<and> unat (sg_deliver_tick sg) = unat (sg_sent_tick sg) + unat (lk_delay l))
     \<and> unat (sg_sent_tick sg) \<le> t \<and> backed D (sg_bit sg) (sg_receipt_spark sg)"

definition cell_ok :: "world \<Rightarrow> spark set \<Rightarrow> nat \<Rightarrow> cell_body \<Rightarrow> cell_state \<Rightarrow> bool" where
  "cell_ok W D t body c \<longleftrightarrow> cs_id c = cb_id body
     \<and> length (cs_memory c) = 4 \<and> length (cs_evidence c) = 4 \<and> length (cs_inbox c) = 4
     \<and> on_grid (wd_spec W) (cs_position c) \<and> cs_position c \<notin> set (wd_walls W)
     \<and> (cb_mobile body \<or> cs_position c = cb_position body)
     \<and> (\<forall>i<4. backed D (cs_memory c ! i \<noteq> 0) (cs_evidence c ! i))
     \<and> (\<forall>sg. Some sg \<in> set (cs_inbox c) \<longrightarrow> signal_ok W D t sg)"

definition cells_ok :: "world \<Rightarrow> spark set \<Rightarrow> nat \<Rightarrow> cell_state list \<Rightarrow> bool" where
  "cells_ok W D t cs \<longleftrightarrow> list_all2 (cell_ok W D t) (wd_cells W) cs \<and> distinct (map cs_position cs)"

definition queue_ok :: "world \<Rightarrow> spark set \<Rightarrow> nat \<Rightarrow> signal list \<Rightarrow> bool" where
  "queue_ok W D t q \<longleftrightarrow> length q \<le> MAX_PENDING \<and> (\<forall>sg\<in>set q. signal_ok W D t sg)"

definition cargo_list :: "cell_state \<Rightarrow> spark list" where
  "cargo_list c = (case cs_cargo c of None \<Rightarrow> [] | Some s \<Rightarrow> [s])"

definition present_sparks :: "vm_state \<Rightarrow> spark multiset" where
  "present_sparks S = mset (concat (map ss_sparks (st_sources S))) + mset (concat (map ds_sparks (st_depots S)))
     + mset (concat (map cargo_list (st_cells S))) + mset (map dl_spark (st_delivered S))"

definition stores_ok :: "world \<Rightarrow> vm_state \<Rightarrow> bool" where
  "stores_ok W S \<longleftrightarrow> present_sparks S = mset (world_sparks W)
     \<and> map ss_id (st_sources S) = map so_id (wd_sources W)
     \<and> list_all2 (\<lambda>d e. ds_id e = dp_id d \<and> length (ds_sparks e) \<le> unat (dp_capacity d)) (wd_depots W) (st_depots S)"

definition beacon_state_ok :: "delivery list \<Rightarrow> beacon \<Rightarrow> beacon_state \<Rightarrow> bool" where
  "beacon_state_ok ds b e \<longleftrightarrow> bs_id e = bc_id b
     \<and> unat (bs_charge e) + unat (bs_drained e) = unat (bc_initial_charge b) + unat (bs_delivered e) * unat (bc_spark_charge b)
     \<and> unat (bs_delivered e) = length (filter (\<lambda>d. dl_beacon d = bc_id b) ds)"

definition energy_ok :: "world \<Rightarrow> beacon_state list \<Rightarrow> delivery list \<Rightarrow> bool" where
  "energy_ok W bs ds \<longleftrightarrow> list_all2 (beacon_state_ok ds) (wd_beacons W) bs
     \<and> (\<forall>d\<in>set ds. \<exists>b\<in>set (wd_beacons W). bc_id b = dl_beacon d \<and> bc_accepts b = sp_bit (dl_spark d))"

definition switches_ok :: "world \<Rightarrow> vm_state \<Rightarrow> bool" where
  "switches_ok W S \<longleftrightarrow> map es_id (st_valves S) = map va_id (wd_valves W) \<and> map es_id (st_links S) = map lk_id (wd_links W)"

definition state_ok :: "world \<Rightarrow> nat \<Rightarrow> vm_state \<Rightarrow> bool" where
  "state_ok W n S \<longleftrightarrow> cells_ok W (deposited S) (unat (st_tick S)) (st_cells S)
     \<and> queue_ok W (deposited S) (unat (st_tick S)) (st_pending S)
     \<and> stores_ok W S \<and> energy_ok W (st_beacons S) (st_delivered S) \<and> switches_ok W S
     \<and> unat (st_tick S) \<le> 128 \<and> unat (st_next_signal S) \<le> n + 1"

lemma state_okD:
  assumes "state_ok W n S"
  shows "cells_ok W (deposited S) (unat (st_tick S)) (st_cells S)" "queue_ok W (deposited S) (unat (st_tick S)) (st_pending S)"
    "stores_ok W S" "energy_ok W (st_beacons S) (st_delivered S)" "switches_ok W S" "unat (st_tick S) \<le> 128"
    "unat (st_next_signal S) \<le> n + 1"
  using assms by (simp_all add: state_ok_def)

section \<open>Monotonicity\<close>

lemma backed_mono: "backed D b e \<Longrightarrow> D \<subseteq> D' \<Longrightarrow> backed D' b e"
  by (auto simp: backed_def)

lemma signal_ok_mono: "signal_ok W D t sg \<Longrightarrow> D \<subseteq> D' \<Longrightarrow> t \<le> t' \<Longrightarrow> signal_ok W D' t' sg"
  by (auto simp: signal_ok_def intro: backed_mono)

lemma cell_ok_mono: "cell_ok W D t b c \<Longrightarrow> D \<subseteq> D' \<Longrightarrow> t \<le> t' \<Longrightarrow> cell_ok W D' t' b c"
  by (auto simp: cell_ok_def intro: backed_mono signal_ok_mono)

lemma cells_ok_mono: "cells_ok W D t cs \<Longrightarrow> D \<subseteq> D' \<Longrightarrow> t \<le> t' \<Longrightarrow> cells_ok W D' t' cs"
  by (auto simp: cells_ok_def elim!: list_all2_mono intro: cell_ok_mono)

lemma queue_ok_mono: "queue_ok W D t q \<Longrightarrow> D \<subseteq> D' \<Longrightarrow> t \<le> t' \<Longrightarrow> queue_ok W D' t' q"
  by (auto simp: queue_ok_def intro: signal_ok_mono)

lemma state_ok_later: "state_ok W n S \<Longrightarrow> n \<le> n' \<Longrightarrow> state_ok W n' S"
  by (auto simp: state_ok_def)

section \<open>Updates of one entry\<close>

lemma list_all2_update:
  assumes "list_all2 P xs ys" and "i < length ys" and "P (xs ! i) y"
  shows "list_all2 P xs (ys[i := y])"
  using list_all2_update_cong [OF assms(1,3), of i] by simp

lemma mset_concat_update:
  "i < length xs \<Longrightarrow> mset (concat (map g (xs[i := y]))) + mset (g (xs ! i)) = mset (concat (map g xs)) + mset (g y)"
proof (induction xs arbitrary: i)
  case (Cons x xs)
  show ?case
  proof (cases i)
    case (Suc j)
    then show ?thesis using Cons.IH [of j] Cons.prems by (simp add: ac_simps)
  qed simp
qed simp

lemma cells_length: "cells_ok W D t cs \<Longrightarrow> length cs = length (wd_cells W)"
  by (auto simp: cells_ok_def dest: list_all2_lengthD)

lemma cells_nth: "cells_ok W D t cs \<Longrightarrow> i < length cs \<Longrightarrow> cell_ok W D t (wd_cells W ! i) (cs ! i)"
  by (simp add: cells_ok_def list_all2_nthD2)

lemma cells_ids: "cells_ok W D t cs \<Longrightarrow> map cs_id cs = map cb_id (wd_cells W)"
  by (auto simp: cells_ok_def list_all2_conv_all_nth cell_ok_def intro: nth_equalityI)

lemma cells_ok_update:
  assumes "cells_ok W D t cs" and "i < length cs" and "cell_ok W D t (wd_cells W ! i) c"
    and "\<And>j. j < length cs \<Longrightarrow> j \<noteq> i \<Longrightarrow> cs_position (cs ! j) \<noteq> cs_position c"
  shows "cells_ok W D t (cs[i := c])"
proof -
  have "list_all2 (cell_ok W D t) (wd_cells W) (cs[i := c])"
    using assms by (intro list_all2_update) (simp_all add: cells_ok_def)
  moreover have "distinct (map cs_position (cs[i := c]))"
    using assms(1,2) assms(4) [THEN not_sym] assms(4) by (auto simp: cells_ok_def distinct_conv_nth nth_list_update)
  ultimately show ?thesis by (simp add: cells_ok_def)
qed

text \<open>A cell that keeps its place.\<close>

lemma cells_ok_update_same:
  assumes "cells_ok W D t cs" and "i < length cs" and "cell_ok W D t (wd_cells W ! i) c"
    and "cs_position c = cs_position (cs ! i)"
  shows "cells_ok W D t (cs[i := c])"
  using assms by (intro cells_ok_update) (auto simp: cells_ok_def distinct_conv_nth)

lemma with_cell_select [simp]:
  "st_tick (with_cell i f S) = st_tick S" "st_sources (with_cell i f S) = st_sources S"
  "st_depots (with_cell i f S) = st_depots S" "st_beacons (with_cell i f S) = st_beacons S"
  "st_valves (with_cell i f S) = st_valves S" "st_links (with_cell i f S) = st_links S"
  "st_pending (with_cell i f S) = st_pending S" "st_delivered (with_cell i f S) = st_delivered S"
  "st_next_signal (with_cell i f S) = st_next_signal S"
  "st_cells (with_cell i f S) = (st_cells S)[i := f (st_cells S ! i)]"
  "deposited (with_cell i f S) = deposited S"
  by (simp_all add: with_cell_def deposited_def)

lemma present_with_cell:
  "i < length (st_cells S) \<Longrightarrow> present_sparks (with_cell i f S) + mset (cargo_list (st_cells S ! i))
     = present_sparks S + mset (cargo_list (f (st_cells S ! i)))"
  using mset_concat_update [of i "st_cells S" cargo_list "f (st_cells S ! i)"]
  by (simp add: present_sparks_def ac_simps)

lemma state_ok_with_cell:
  assumes ok: "state_ok W n S" and i: "i < length (st_cells S)"
    and c: "cell_ok W (deposited S) (unat (st_tick S)) (wd_cells W ! i) (f (st_cells S ! i))"
    and pos: "\<And>j. j < length (st_cells S) \<Longrightarrow> j \<noteq> i \<Longrightarrow> cs_position (st_cells S ! j) \<noteq> cs_position (f (st_cells S ! i))"
    and cargo: "cs_cargo (f (st_cells S ! i)) = cs_cargo (st_cells S ! i)"
  shows "state_ok W n (with_cell i f S)"
proof -
  note k = state_okD [OF ok]
  have "cells_ok W (deposited S) (unat (st_tick S)) ((st_cells S)[i := f (st_cells S ! i)])"
    by (rule cells_ok_update [OF k(1) i c pos])
  moreover have "stores_ok W (with_cell i f S)"
    using k(3) present_with_cell [OF i, of f] cargo by (simp add: stores_ok_def cargo_list_def)
  ultimately show ?thesis using k by (simp add: state_ok_def switches_ok_def)
qed

lemma state_ok_with_cell_same:
  assumes ok: "state_ok W n S" and i: "i < length (st_cells S)"
    and c: "cell_ok W (deposited S) (unat (st_tick S)) (wd_cells W ! i) (f (st_cells S ! i))"
    and pos: "cs_position (f (st_cells S ! i)) = cs_position (st_cells S ! i)"
    and cargo: "cs_cargo (f (st_cells S ! i)) = cs_cargo (st_cells S ! i)"
  shows "state_ok W n (with_cell i f S)"
proof (rule state_ok_with_cell [of W n S i f, OF ok i c _ cargo])
  fix j
  assume "j < length (st_cells S)" "j \<noteq> i"
  then show "cs_position (st_cells S ! j) \<noteq> cs_position (f (st_cells S ! i))"
    using state_okD(1) [OF ok] i pos by (auto simp: cells_ok_def distinct_conv_nth)
qed

section \<open>Memory, messages and headings\<close>

lemma write_cell_ok:
  assumes "cell_ok W D t b c" and "s < 4"
  shows "cell_ok W D t b (c\<lparr>cs_memory := (cs_memory c)[s := v], cs_evidence := (cs_evidence c)[s := None]\<rparr>)"
  using assms by (auto simp: cell_ok_def nth_list_update backed_def)

lemma inbox_signal_ok: "cell_ok W D t b c \<Longrightarrow> p < 4 \<Longrightarrow> cs_inbox c ! p = Some sg \<Longrightarrow> signal_ok W D t sg"
  by (metis cell_ok_def nth_mem)

lemma take_cell_ok:
  assumes ok: "cell_ok W D t b c" and "s < 4" and p: "p < 4" and sg: "cs_inbox c ! p = Some sg"
  shows "cell_ok W D t b (c\<lparr>cs_memory := (cs_memory c)[s := (if sg_bit sg then 1 else 0)],
    cs_evidence := (cs_evidence c)[s := sg_receipt_spark sg], cs_inbox := (cs_inbox c)[p := None]\<rparr>)"
proof -
  have "backed D (sg_bit sg) (sg_receipt_spark sg)"
    using inbox_signal_ok [OF ok p sg] by (simp add: signal_ok_def)
  then show ?thesis
    using assms by (auto simp: cell_ok_def nth_list_update dest!: set_update_subset_insert [THEN subsetD])
qed

lemma clear_inbox_ok: "cell_ok W D t b c \<Longrightarrow> cell_ok W D t b (c\<lparr>cs_inbox := (cs_inbox c)[p := None]\<rparr>)"
  by (auto simp: cell_ok_def dest!: set_update_subset_insert [THEN subsetD])

lemma fill_inbox_ok:
  "cell_ok W D t b c \<Longrightarrow> signal_ok W D t sg \<Longrightarrow> cell_ok W D t b (c\<lparr>cs_inbox := (cs_inbox c)[p := Some sg]\<rparr>)"
  by (auto simp: cell_ok_def dest!: set_update_subset_insert [THEN subsetD])

lemma clear_memory_ok:
  "cell_ok W D t b c \<Longrightarrow> cell_ok W D t b (c\<lparr>cs_memory := replicate 4 0, cs_evidence := replicate 4 None\<rparr>)"
  by (auto simp: cell_ok_def backed_def)

section \<open>Sparks\<close>

lemma with_source_select [simp]:
  "st_tick (with_source i f S) = st_tick S" "st_cells (with_source i f S) = st_cells S"
  "st_depots (with_source i f S) = st_depots S" "st_beacons (with_source i f S) = st_beacons S"
  "st_valves (with_source i f S) = st_valves S" "st_links (with_source i f S) = st_links S"
  "st_pending (with_source i f S) = st_pending S" "st_delivered (with_source i f S) = st_delivered S"
  "st_next_signal (with_source i f S) = st_next_signal S" "deposited (with_source i f S) = deposited S"
  by (simp_all add: with_source_def deposited_def)

lemma with_depot_select [simp]:
  "st_tick (with_depot i f S) = st_tick S" "st_cells (with_depot i f S) = st_cells S"
  "st_sources (with_depot i f S) = st_sources S" "st_beacons (with_depot i f S) = st_beacons S"
  "st_valves (with_depot i f S) = st_valves S" "st_links (with_depot i f S) = st_links S"
  "st_pending (with_depot i f S) = st_pending S" "st_delivered (with_depot i f S) = st_delivered S"
  "st_next_signal (with_depot i f S) = st_next_signal S"
  by (simp_all add: with_depot_def)

lemma present_with_source:
  "i < length (st_sources S) \<Longrightarrow> present_sparks (with_source i f S) + mset (ss_sparks (st_sources S ! i))
     = present_sparks S + mset (f (ss_sparks (st_sources S ! i)))"
  using mset_concat_update [of i "st_sources S" ss_sparks
      "(st_sources S ! i)\<lparr>ss_sparks := f (ss_sparks (st_sources S ! i))\<rparr>"]
  by (simp add: present_sparks_def with_source_def ac_simps)

lemma present_with_depot:
  "i < length (st_depots S) \<Longrightarrow> present_sparks (with_depot i f S) + mset (ds_sparks (st_depots S ! i))
     = present_sparks S + mset (f (ds_sparks (st_depots S ! i)))"
  using mset_concat_update [of i "st_depots S" ds_sparks
      "(st_depots S ! i)\<lparr>ds_sparks := f (ds_sparks (st_depots S ! i))\<rparr>"]
  by (simp add: present_sparks_def with_depot_def ac_simps)

lemma source_ids_update: "map ss_id (st_sources (with_source i f S)) = map ss_id (st_sources S)"
  by (cases "i < length (st_sources S)") (auto simp: with_source_def nth_list_update intro!: nth_equalityI)

lemma cargo_cell_ok: "cell_ok W D t b c \<Longrightarrow> cell_ok W D t b (c\<lparr>cs_cargo := x\<rparr>)"
  by (simp add: cell_ok_def)

lemma cargo_cells_ok:
  "cells_ok W D t cs \<Longrightarrow> i < length cs \<Longrightarrow> cells_ok W D t (cs[i := (cs ! i)\<lparr>cs_cargo := x\<rparr>])"
  by (rule cells_ok_update_same) (auto intro: cargo_cell_ok cells_nth)

lemma pickup_ok:
  assumes ok: "state_ok W n S" and i: "i < length (st_cells S)" and j: "j < length (st_sources S)"
    and cargo: "cs_cargo (st_cells S ! i) = None" and s: "ss_sparks (st_sources S ! j) = spark # rest"
  shows "state_ok W n (with_cell i (\<lambda>c. c\<lparr>cs_cargo := Some spark\<rparr>) (with_source j tl S))"
proof -
  note k = state_okD [OF ok]
  let ?S = "with_source j tl S"
  have i': "i < length (st_cells ?S)" using i by simp
  have "present_sparks ?S + {#spark#} = present_sparks S" using present_with_source [OF j, of tl] s by simp
  moreover have "present_sparks (with_cell i (\<lambda>c. c\<lparr>cs_cargo := Some spark\<rparr>) ?S) = present_sparks ?S + {#spark#}"
    using present_with_cell [OF i', of "\<lambda>c. c\<lparr>cs_cargo := Some spark\<rparr>"] cargo by (simp add: cargo_list_def)
  ultimately have "stores_ok W (with_cell i (\<lambda>c. c\<lparr>cs_cargo := Some spark\<rparr>) ?S)"
    using k(3) by (simp add: stores_ok_def source_ids_update)
  then show ?thesis using k cargo_cells_ok [OF k(1) i] by (simp add: state_ok_def switches_ok_def)
qed

lemma deposited_mset: "deposited S = set_mset (mset (concat (map ds_sparks (st_depots S))) + mset (map dl_spark (st_delivered S)))"
  by (auto simp: deposited_def)

lemma depots_with_depot:
  "i < length (st_depots S) \<Longrightarrow> mset (concat (map ds_sparks (st_depots (with_depot i f S)))) + mset (ds_sparks (st_depots S ! i))
     = mset (concat (map ds_sparks (st_depots S))) + mset (f (ds_sparks (st_depots S ! i)))"
  using mset_concat_update [of i "st_depots S" ds_sparks
      "(st_depots S ! i)\<lparr>ds_sparks := f (ds_sparks (st_depots S ! i))\<rparr>"]
  by (simp add: with_depot_def)

lemma deposited_push:
  assumes "d < length (st_depots S)"
  shows "deposited (with_depot d (\<lambda>ss. ss @ [spark]) S) = insert spark (deposited S)"
proof -
  have "mset (concat (map ds_sparks (st_depots (with_depot d (\<lambda>ss. ss @ [spark]) S))))
      = add_mset spark (mset (concat (map ds_sparks (st_depots S))))"
    using depots_with_depot [OF assms, of "\<lambda>ss. ss @ [spark]"] by simp
  then show ?thesis unfolding deposited_mset by simp
qed

lemma depots_update:
  assumes "list_all2 (\<lambda>d e. ds_id e = dp_id d \<and> length (ds_sparks e) \<le> unat (dp_capacity d)) (wd_depots W) (st_depots S)"
    and "d < length (st_depots S)" and "length (f (ds_sparks (st_depots S ! d))) \<le> unat (dp_capacity (wd_depots W ! d))"
  shows "list_all2 (\<lambda>d e. ds_id e = dp_id d \<and> length (ds_sparks e) \<le> unat (dp_capacity d)) (wd_depots W)
    (st_depots (with_depot d f S))"
  using assms list_all2_nthD2 [OF assms(1,2)] unfolding with_depot_def
  by (simp, intro list_all2_update) simp_all

lemma drop_depot_ok:
  assumes ok: "state_ok W n S" and i: "i < length (st_cells S)" and d: "d < length (st_depots S)"
    and cargo: "cs_cargo (st_cells S ! i) = Some spark"
    and room: "length (ds_sparks (st_depots S ! d)) < unat (dp_capacity (wd_depots W ! d))"
  shows "state_ok W n (with_depot d (\<lambda>ss. ss @ [spark]) (with_cell i (\<lambda>c. c\<lparr>cs_cargo := None\<rparr>) S))"
proof -
  note k = state_okD [OF ok]
  let ?T = "with_cell i (\<lambda>c. c\<lparr>cs_cargo := None\<rparr>) S"
  let ?S = "with_depot d (\<lambda>ss. ss @ [spark]) ?T"
  have d': "d < length (st_depots ?T)" using d by simp
  have dep: "deposited ?S = insert spark (deposited S)" using deposited_push [OF d'] by simp
  have "present_sparks ?T + {#spark#} = present_sparks S"
    using present_with_cell [OF i, of "\<lambda>c. c\<lparr>cs_cargo := None\<rparr>"] cargo by (simp add: cargo_list_def)
  moreover have "present_sparks ?S = present_sparks ?T + {#spark#}"
    using present_with_depot [OF d', of "\<lambda>ss. ss @ [spark]"] by simp
  ultimately have "present_sparks ?S = mset (world_sparks W)" using k(3) by (simp add: stores_ok_def)
  moreover have "list_all2 (\<lambda>d e. ds_id e = dp_id d \<and> length (ds_sparks e) \<le> unat (dp_capacity d)) (wd_depots W) (st_depots ?S)"
    by (rule depots_update) (use k(3) d room in \<open>simp_all add: stores_ok_def\<close>)
  ultimately have "stores_ok W ?S" using k(3) by (simp add: stores_ok_def)
  moreover have "cells_ok W (deposited ?S) (unat (st_tick S)) (st_cells ?S)"
    using cells_ok_mono [OF cargo_cells_ok [OF k(1) i], of "deposited ?S"] dep by auto
  moreover have "queue_ok W (deposited ?S) (unat (st_tick S)) (st_pending S)"
    using queue_ok_mono [OF k(2)] dep by blast
  ultimately show ?thesis using k by (simp add: state_ok_def switches_ok_def)
qed

section \<open>Beacons\<close>

lemma delivered_bound:
  assumes "stores_ok W S" and "world_ok W"
  shows "length (st_delivered S) \<le> 128"
proof -
  have "size (present_sparks S) = length (world_sparks W)" using assms(1) by (simp add: stores_ok_def)
  moreover have "length (st_delivered S) \<le> size (present_sparks S)" by (simp add: present_sparks_def)
  ultimately show ?thesis using assms(2) by (simp add: world_ok_def)
qed

lemma beacon_bounds:
  assumes "beacon_state_ok ds b e" and "beacon_ok b" and "length ds \<le> 128"
  shows "unat (bs_delivered e) \<le> 128" "unat (bs_charge e) + unat (bs_drained e) \<le> 18192"
proof -
  show d: "unat (bs_delivered e) \<le> 128"
    using assms(1) order_trans [OF length_filter_le [of "\<lambda>d. dl_beacon d = bc_id b" ds] assms(3)]
    by (simp add: beacon_state_ok_def)
  have "unat (bs_delivered e) * unat (bc_spark_charge b) \<le> 128 * 64"
    using d assms(2) by (intro mult_mono) (simp_all add: beacon_ok_def)
  then show "unat (bs_charge e) + unat (bs_drained e) \<le> 18192"
    using assms(1,2) by (simp add: beacon_state_ok_def beacon_ok_def)
qed

definition credited :: "world \<Rightarrow> nat \<Rightarrow> spark \<Rightarrow> vm_state \<Rightarrow> vm_state" where
  "credited W b spark S =
     (with_beacon b (\<lambda>e. e\<lparr>bs_charge := bs_charge e + bc_spark_charge (wd_beacons W ! b), bs_delivered := bs_delivered e + 1\<rparr>) S)
       \<lparr>st_delivered := st_delivered S @ [\<lparr>dl_tick = st_tick S, dl_spark = spark, dl_beacon = bc_id (wd_beacons W ! b)\<rparr>]\<rparr>"

lemma with_beacon_select [simp]:
  "st_tick (with_beacon i f S) = st_tick S" "st_cells (with_beacon i f S) = st_cells S"
  "st_sources (with_beacon i f S) = st_sources S" "st_depots (with_beacon i f S) = st_depots S"
  "st_valves (with_beacon i f S) = st_valves S" "st_links (with_beacon i f S) = st_links S"
  "st_pending (with_beacon i f S) = st_pending S" "st_delivered (with_beacon i f S) = st_delivered S"
  "st_next_signal (with_beacon i f S) = st_next_signal S"
  "st_beacons (with_beacon i f S) = (st_beacons S)[i := f (st_beacons S ! i)]"
  "deposited (with_beacon i f S) = deposited S" "present_sparks (with_beacon i f S) = present_sparks S"
  by (simp_all add: with_beacon_def deposited_def present_sparks_def)

lemma credited_select [simp]:
  "st_tick (credited W b spark S) = st_tick S" "st_cells (credited W b spark S) = st_cells S"
  "st_sources (credited W b spark S) = st_sources S" "st_depots (credited W b spark S) = st_depots S"
  "st_valves (credited W b spark S) = st_valves S" "st_links (credited W b spark S) = st_links S"
  "st_pending (credited W b spark S) = st_pending S" "st_next_signal (credited W b spark S) = st_next_signal S"
  "deposited (credited W b spark S) = insert spark (deposited S)"
  "present_sparks (credited W b spark S) = present_sparks S + {#spark#}"
  by (auto simp: credited_def deposited_def present_sparks_def)

lemma credited_energy:
  assumes W: "world_ok W" and e: "energy_ok W (st_beacons S) (st_delivered S)" and len: "length (st_delivered S) \<le> 128"
    and b: "b < length (wd_beacons W)" and bit: "bc_accepts (wd_beacons W ! b) = sp_bit spark"
  shows "energy_ok W (st_beacons (credited W b spark S)) (st_delivered (credited W b spark S))"
proof -
  let ?spec = "wd_beacons W ! b" and ?ds = "st_delivered (credited W b spark S)"
  have each: "beacon_state_ok (st_delivered S) (wd_beacons W ! j) (st_beacons S ! j)" if "j < length (wd_beacons W)" for j
    using e that by (simp add: energy_ok_def list_all2_nthD)
  have lenb: "length (st_beacons S) = length (wd_beacons W)" using e by (auto simp: energy_ok_def dest: list_all2_lengthD)
  have spec: "beacon_ok ?spec" using W b by (auto simp: world_ok_def)
  note bound = beacon_bounds [OF each [OF b] spec len]
  have "unat (bs_charge (st_beacons S ! b) + bc_spark_charge ?spec) = unat (bs_charge (st_beacons S ! b)) + unat (bc_spark_charge ?spec)"
    using bound spec by (intro unat_plus_noloss) (simp add: beacon_ok_def)
  moreover have "unat (bs_delivered (st_beacons S ! b) + 1) = unat (bs_delivered (st_beacons S ! b)) + 1"
    using bound by (simp add: unat_plus_noloss)
  moreover have ids: "bc_id (wd_beacons W ! j) = bc_id ?spec \<longleftrightarrow> j = b" if "j < length (wd_beacons W)" for j
    using W b that by (auto simp: world_ok_def distinct_conv_nth)
  ultimately have "beacon_state_ok ?ds (wd_beacons W ! j) (st_beacons (credited W b spark S) ! j)"
    if "j < length (wd_beacons W)" for j
    using each [OF that] b lenb ids [OF that]
    by (cases "j = b") (simp_all add: credited_def beacon_state_ok_def algebra_simps)
  then have "list_all2 (beacon_state_ok ?ds) (wd_beacons W) (st_beacons (credited W b spark S))"
    using lenb by (simp add: list_all2_conv_all_nth credited_def)
  moreover have "\<forall>d\<in>set ?ds. \<exists>b\<in>set (wd_beacons W). bc_id b = dl_beacon d \<and> bc_accepts b = sp_bit (dl_spark d)"
    using e b bit by (auto simp: credited_def energy_ok_def)
  ultimately show ?thesis by (simp add: energy_ok_def)
qed

lemma drop_beacon_ok:
  assumes W: "world_ok W" and ok: "state_ok W n S" and i: "i < length (st_cells S)" and b: "b < length (wd_beacons W)"
    and cargo: "cs_cargo (st_cells S ! i) = Some spark" and bit: "bc_accepts (wd_beacons W ! b) = sp_bit spark"
  shows "state_ok W n (with_cell i (\<lambda>c. c\<lparr>cs_cargo := None\<rparr>) (credited W b spark S))"
proof -
  note k = state_okD [OF ok]
  let ?T = "credited W b spark S"
  let ?S = "with_cell i (\<lambda>c. c\<lparr>cs_cargo := None\<rparr>) ?T"
  have i': "i < length (st_cells ?T)" using i by simp
  have "present_sparks ?S + {#spark#} = present_sparks S + {#spark#}"
    using present_with_cell [OF i', of "\<lambda>c. c\<lparr>cs_cargo := None\<rparr>"] cargo by (simp add: cargo_list_def)
  then have "stores_ok W ?S" using k(3) by (simp add: stores_ok_def)
  moreover have "energy_ok W (st_beacons ?S) (st_delivered ?S)"
    using credited_energy [OF W k(4) delivered_bound [OF k(3) W] b bit] by simp
  moreover have "cells_ok W (deposited ?S) (unat (st_tick S)) (st_cells ?S)"
    using cells_ok_mono [OF cargo_cells_ok [OF k(1) i], of "deposited ?S"] by auto
  moreover have "queue_ok W (deposited ?S) (unat (st_tick S)) (st_pending S)"
    by (rule queue_ok_mono [OF k(2)]) auto
  ultimately show ?thesis using k by (simp add: state_ok_def switches_ok_def)
qed

lemma route_ok:
  assumes W: "world_ok W" and ok: "state_ok W n S" and d: "d < length (st_depots S)" and b: "b < length (wd_beacons W)"
    and sparks: "ds_sparks (st_depots S ! d) = spark # rest" and bit: "bc_accepts (wd_beacons W ! b) = sp_bit spark"
  shows "state_ok W n (with_depot d tl (credited W b spark S))"
proof -
  note k = state_okD [OF ok]
  let ?T = "credited W b spark S"
  let ?S = "with_depot d tl ?T"
  have d': "d < length (st_depots ?T)" using d by simp
  have "length (ds_sparks (st_depots S ! d)) \<le> unat (dp_capacity (wd_depots W ! d))"
    using k(3) list_all2_nthD2 [OF _ d] unfolding stores_ok_def by fast
  then have cap: "length rest \<le> unat (dp_capacity (wd_depots W ! d))" using sparks by simp
  have "present_sparks ?S + {#spark#} = present_sparks S + {#spark#}"
    using present_with_depot [OF d', of tl] sparks by simp
  moreover have "list_all2 (\<lambda>d e. ds_id e = dp_id d \<and> length (ds_sparks e) \<le> unat (dp_capacity d)) (wd_depots W) (st_depots ?S)"
    by (rule depots_update) (use k(3) d sparks cap in \<open>simp_all add: stores_ok_def\<close>)
  ultimately have "stores_ok W ?S" using k(3) by (simp add: stores_ok_def)
  moreover have "mset (concat (map ds_sparks (st_depots ?S))) + {#spark#} = mset (concat (map ds_sparks (st_depots S)))"
    using depots_with_depot [OF d', of tl] sparks by simp
  then have dep: "deposited ?S = deposited S"
    unfolding deposited_mset by (simp add: credited_def flip: \<open>_ = mset (concat (map ds_sparks (st_depots S)))\<close>)
  moreover have "energy_ok W (st_beacons ?S) (st_delivered ?S)"
    using credited_energy [OF W k(4) delivered_bound [OF k(3) W] b bit] by simp
  ultimately show ?thesis using k by (simp add: state_ok_def switches_ok_def)
qed

lemma drain_ok:
  assumes ok: "state_ok W n S" and b: "b < length (st_beacons S)" and le: "amount \<le> bs_charge (st_beacons S ! b)"
    and fit: "unat (bs_drained (st_beacons S ! b)) + unat amount < 2 ^ 32"
    and f: "f (st_beacons S ! b) = (st_beacons S ! b)\<lparr>bs_charge := bs_charge (st_beacons S ! b) - amount,
      bs_drained := bs_drained (st_beacons S ! b) + amount, bs_exhausted := x\<rparr>"
  shows "state_ok W n (with_beacon b f S)"
proof -
  note k = state_okD [OF ok]
  have e: "list_all2 (beacon_state_ok (st_delivered S)) (wd_beacons W) (st_beacons S)" using k(4) by (simp add: energy_ok_def)
  have "unat (bs_charge (st_beacons S ! b) - amount) = unat (bs_charge (st_beacons S ! b)) - unat amount"
    "unat (bs_drained (st_beacons S ! b) + amount) = unat (bs_drained (st_beacons S ! b)) + unat amount"
    "unat amount \<le> unat (bs_charge (st_beacons S ! b))"
    using le fit by (simp_all add: unat_sub unat_plus_noloss word_le_nat_alt)
  then have "beacon_state_ok (st_delivered S) (wd_beacons W ! b) (f (st_beacons S ! b))"
    using list_all2_nthD2 [OF e b] by (simp add: f beacon_state_ok_def)
  then have "energy_ok W ((st_beacons S)[b := f (st_beacons S ! b)]) (st_delivered S)"
    using k(4) list_all2_update [OF e b] by (simp add: energy_ok_def)
  then show ?thesis using k by (simp add: state_ok_def stores_ok_def switches_ok_def)
qed

section \<open>Signals, switches and time\<close>

lemma next_signal_ok:
  "state_ok W n S \<Longrightarrow> unat v \<le> n' + 1 \<Longrightarrow> state_ok W n' (S\<lparr>st_next_signal := v\<rparr>)"
  by (simp add: state_ok_def deposited_def stores_ok_def present_sparks_def switches_ok_def)

lemma push_pending_ok:
  "state_ok W n S \<Longrightarrow> length (st_pending S) < 128 \<Longrightarrow> signal_ok W (deposited S) (unat (st_tick S)) sg
   \<Longrightarrow> state_ok W n (S\<lparr>st_pending := st_pending S @ [sg]\<rparr>)"
  by (auto simp: state_ok_def deposited_def stores_ok_def present_sparks_def switches_ok_def queue_ok_def)

lemma set_remove_at: "set (remove_at i xs) \<subseteq> set xs"
  by (auto simp: remove_at_def dest: in_set_takeD in_set_dropD)

lemma length_remove_at: "i < length xs \<Longrightarrow> Suc (length (remove_at i xs)) = length xs"
  by (simp add: remove_at_def)

lemma remove_pending_ok:
  assumes "state_ok W n S"
  shows "state_ok W n (S\<lparr>st_pending := remove_at i (st_pending S)\<rparr>)"
proof -
  have "length (remove_at i (st_pending S)) \<le> length (st_pending S)" by (simp add: remove_at_def)
  then have "queue_ok W (deposited S) (unat (st_tick S)) (remove_at i (st_pending S))"
    using state_okD(2) [OF assms] set_remove_at [of i "st_pending S"] by (auto simp: queue_ok_def)
  then show ?thesis
    using assms by (simp add: state_ok_def deposited_def stores_ok_def present_sparks_def switches_ok_def)
qed

lemma set_enabled_ids: "map es_id (set_enabled b k es) = map es_id es"
  by (cases "k < length es") (auto simp: set_enabled_def nth_list_update intro!: nth_equalityI)

lemma switch_link_ok: "state_ok W n S \<Longrightarrow> state_ok W n (S\<lparr>st_links := set_enabled b k (st_links S)\<rparr>)"
  by (simp add: state_ok_def deposited_def stores_ok_def present_sparks_def switches_ok_def set_enabled_ids)

lemma switch_valve_ok: "state_ok W n S \<Longrightarrow> state_ok W n (S\<lparr>st_valves := set_enabled b k (st_valves S)\<rparr>)"
  by (simp add: state_ok_def deposited_def stores_ok_def present_sparks_def switches_ok_def set_enabled_ids)

lemma advance_tick_ok:
  assumes "state_ok W n S" and "st_tick S \<le> t" and "unat t \<le> 128"
  shows "state_ok W n (S\<lparr>st_tick := t\<rparr>)"
proof -
  have "unat (st_tick S) \<le> unat t" using assms(2) by (simp add: word_le_nat_alt)
  then show ?thesis
    using assms(1,3) cells_ok_mono [OF state_okD(1) [OF assms(1)] subset_refl] queue_ok_mono [OF state_okD(2) [OF assms(1)] subset_refl]
    by (simp add: state_ok_def deposited_def stores_ok_def present_sparks_def switches_ok_def)
qed

section \<open>Initial state and scratch copy\<close>

lemma copy_entries_same: "length xs = length ys \<Longrightarrow> copy_entries xs ys = ys"
  by (induction xs ys rule: list_induct2) simp_all

definition shape_ok :: "world \<Rightarrow> vm_state \<Rightarrow> bool" where
  "shape_ok W S \<longleftrightarrow> length (st_sources S) = length (wd_sources W) \<and> length (st_depots S) = length (wd_depots W)"

text \<open>The copy into the preallocated scratch state is the whole state.\<close>

lemma copy_from_eq: "shape_ok W self \<Longrightarrow> shape_ok W other \<Longrightarrow> copy_from self other = other"
  by (cases other) (simp add: copy_from_def shape_ok_def copy_entries_same)

lemma state_ok_shape: "state_ok W n S \<Longrightarrow> shape_ok W S"
  by (auto simp: state_ok_def stores_ok_def shape_ok_def dest: list_all2_lengthD map_eq_imp_length_eq)

lemma initial_sources:
  "map2 (\<lambda>e s. e\<lparr>ss_sparks := ss_sparks e @ so_sparks s\<rparr>) (map (\<lambda>s. \<lparr>ss_id = so_id s, ss_sparks = []\<rparr>) xs) xs
   = map (\<lambda>s. \<lparr>ss_id = so_id s, ss_sparks = so_sparks s\<rparr>) xs"
  by (induction xs) simp_all

lemma concat_map_Nil: "(\<And>x. x \<in> set xs \<Longrightarrow> f x = []) \<Longrightarrow> concat (map f xs) = []"
  by (induction xs) simp_all

lemma state_initial_ok:
  assumes W: "world_ok W"
  shows "state_ok W 0 (state_initial W)"
proof -
  let ?S = "state_initial W"
  have cells: "cells_ok W (deposited ?S) 0 (st_cells ?S)"
    using W by (auto simp: cells_ok_def state_initial_def list_all2_conv_all_nth cell_ok_def world_ok_def spec_typed_def
        list_all_iff backed_def o_def)
  have "present_sparks ?S = mset (world_sparks W)"
    by (simp add: present_sparks_def state_initial_def state_allocated_def initial_sources world_sparks_def o_def
        concat_map_Nil cargo_list_def)
  then have "stores_ok W ?S"
    by (simp add: stores_ok_def state_initial_def state_allocated_def initial_sources list_all2_conv_all_nth)
  moreover have "energy_ok W (st_beacons ?S) (st_delivered ?S)"
    by (simp add: energy_ok_def state_initial_def state_allocated_def list_all2_conv_all_nth beacon_state_ok_def)
  ultimately show ?thesis
    using cells by (simp add: state_ok_def switches_ok_def queue_ok_def) (simp add: state_initial_def state_allocated_def)
qed

lemma state_allocated_shape: "shape_ok W (state_allocated W)"
  by (simp add: shape_ok_def state_allocated_def)

end
