(* ===== verification/Witness_Steps.thy ===== *)
theory Witness_Steps
  imports Witness_Invariant
begin

text \<open>
  Every operation of the witness machine keeps the meter within its bounds and the state within
  its invariant, on success and on every fault, and never ends in an internal fault. \<open>ctx_ok\<close> is
  that invariant for what an operation borrows and \<open>fault_ok\<close> what holds when it stops.
\<close>

section \<open>The contract of an operation\<close>

definition msgs :: "meter \<Rightarrow> nat" where
  "msgs m = unat (ledger_counter Messages (me_ledger m))"

definition ctx_ok :: "world \<Rightarrow> u64 \<Rightarrow> (u64 \<times> u32) option \<Rightarrow> 'x vm_ctx_scheme \<Rightarrow> bool" where
  "ctx_ok W F A s \<longleftrightarrow> me_fuel (vx_meter s) = F \<and> me_activation (vx_meter s) = A \<and> meter_ok (vx_meter s)
     \<and> state_ok W (msgs (vx_meter s)) (vx_state s)"

definition fault_ok :: "world \<Rightarrow> u64 \<Rightarrow> (u64 \<times> u32) option \<Rightarrow> fault \<Rightarrow> 'x vm_ctx_scheme \<Rightarrow> bool" where
  "fault_ok W F A f s \<longleftrightarrow> ctx_ok W F A s
     \<and> (case f of
          FStop StopFuel \<Rightarrow> ledger_sum (me_ledger (vx_meter s)) = unat F
        | FStop StopActivation \<Rightarrow> A \<noteq> None
        | FAction _ \<Rightarrow> True
        | FInternal _ \<Rightarrow> False)"

lemma fault_ok_action: "fault_ok W F A (FAction e) s \<longleftrightarrow> ctx_ok W F A s"
  by (simp add: fault_ok_def)

lemma ctx_ok_state: "ctx_ok W F A s \<Longrightarrow> state_ok W (msgs (vx_meter s)) (vx_state s)"
  by (simp add: ctx_ok_def)

lemma ctx_ok_update:
  "ctx_ok W F A s \<Longrightarrow> state_ok W (msgs (vx_meter s)) S \<Longrightarrow> ctx_ok W F A (s\<lparr>vx_state := S\<rparr>)"
  by (simp add: ctx_ok_def)

lemma ctx_ok_signals [simp]: "ctx_ok W F A (s\<lparr>vx_signals := x\<rparr>) = ctx_ok W F A s"
  by (simp add: ctx_ok_def)

lemma wp_update [wp_simps]: "wp (update f) Q E s = Q () (s\<lparr>vx_state := f (vx_state s)\<rparr>)"
  by (simp add: update_def wp_simps)

lemma wp_note [wp_simps]:
  "wp (note_signal sg out) Q E s = Q () (s\<lparr>vx_signals := vx_signals s @ [\<lparr>ev_signal = sg, ev_outcome = out\<rparr>]\<rparr>)"
  by (simp add: note_signal_def wp_simps)

lemma wp_lift_charge:
  "wp (charge c n) Q E s =
   wp (meter_charge c n) (\<lambda>_ m. Q () (s\<lparr>vx_meter := m\<rparr>)) (\<lambda>e m. E (fault_of_meter e) (s\<lparr>vx_meter := m\<rparr>)) (vx_meter s)"
  by (simp add: wp_def charge_def split: prod.split sum.split)

lemma charged_msgs:
  assumes "meter_ok m" and "k \<le> meter_room m"
  shows "msgs (charged c k m) = msgs m + (if c = Messages then k else 0)"
  using charged_counter [OF assms, of Messages c] by (simp add: msgs_def)

lemma wp_chg:
  assumes ok: "ctx_ok W F A s"
    and good: "\<And>m. \<lbrakk>ctx_ok W F A (s\<lparr>vx_meter := m\<rparr>); msgs m = msgs (vx_meter s) + (if c = Messages then unat n else 0)\<rbrakk>
      \<Longrightarrow> Q () (s\<lparr>vx_meter := m\<rparr>)"
    and bad: "\<And>st m. fault_ok W F A (FStop st) (s\<lparr>vx_meter := m\<rparr>) \<Longrightarrow> E (FStop st) (s\<lparr>vx_meter := m\<rparr>)"
  shows "wp (charge c n) Q E s"
  unfolding wp_lift_charge
proof (rule wp_charge)
  show m: "meter_ok (vx_meter s)" using ok by (simp add: ctx_ok_def)
  have keep: "ctx_ok W F A (s\<lparr>vx_meter := charged c k (vx_meter s)\<rparr>)" if "k \<le> meter_room (vx_meter s)" for k
    using ok charged_ok [OF m that, of c] charged_msgs [OF m that, of c] by (auto simp: ctx_ok_def intro: state_ok_later)
  show "Q () (s\<lparr>vx_meter := m'\<rparr>)"
    if "m' = charged c (unat n) (vx_meter s)" "unat n \<le> meter_room (vx_meter s)" "meter_ok m'" for m'
    using good [of m'] keep [OF that(2)] charged_msgs [OF m that(2), of c] that(1) by simp
  show "E (fault_of_meter (MStop st)) (s\<lparr>vx_meter := m'\<rparr>)"
    if h: "m' = charged c (meter_room (vx_meter s)) (vx_meter s)" "meter_ok m'" "meter_room (vx_meter s) < unat n"
      "st = StopFuel \<longleftrightarrow> ledger_sum (me_ledger m') = unat (me_fuel (vx_meter s))" for m' st
  proof -
    have F: "me_fuel (vx_meter s) = F" "me_activation (vx_meter s) = A" using ok by (simp_all add: ctx_ok_def)
    have "A \<noteq> None" if "st = StopActivation"
    proof
      assume "A = None"
      moreover have "unat (me_fuel (vx_meter s)) \<le> 2000000" "ledger_sum (me_ledger (vx_meter s)) \<le> unat (me_fuel (vx_meter s))"
        using m by (simp_all add: meter_ok_def)
      ultimately have "meter_room (vx_meter s) = unat (me_fuel (vx_meter s)) - ledger_sum (me_ledger (vx_meter s))"
        using F by (simp add: meter_room_def)
      then show False
        using h(4) that charged_sum [OF m, of "meter_room (vx_meter s)" c] m by (simp add: h(1) meter_ok_def)
    qed
    then have "fault_ok W F A (FStop st) (s\<lparr>vx_meter := m'\<rparr>)"
      using keep [of "meter_room (vx_meter s)"] h F by (cases st) (auto simp: fault_ok_def)
    then show ?thesis using bad by (simp add: fault_of_meter_def)
  qed
qed

text \<open>A computation that keeps the contract from every context that satisfies it.\<close>

definition keeps :: "world \<Rightarrow> u64 \<Rightarrow> (u64 \<times> u32) option \<Rightarrow> (fault, 'x vm_ctx_scheme, 'a) fallible \<Rightarrow> bool" where
  "keeps W F A m \<longleftrightarrow> (\<forall>s. ctx_ok W F A s \<longrightarrow> wp m (\<lambda>_. ctx_ok W F A) (fault_ok W F A) s)"

lemma keepsI: "(\<And>s. ctx_ok W F A s \<Longrightarrow> wp m (\<lambda>_. ctx_ok W F A) (fault_ok W F A) s) \<Longrightarrow> keeps W F A m"
  by (simp add: keeps_def)

lemma keepsD: "keeps W F A m \<Longrightarrow> ctx_ok W F A s \<Longrightarrow> wp m (\<lambda>_. ctx_ok W F A) (fault_ok W F A) s"
  by (simp add: keeps_def)

lemma keeps_wp:
  assumes "keeps W F A m" and "ctx_ok W F A s" and "\<And>x s'. ctx_ok W F A s' \<Longrightarrow> Q x s'"
  shows "wp m Q (fault_ok W F A) s"
  by (rule wp_mono [OF keepsD [OF assms(1,2)]]) (simp_all add: assms(3))

lemma keeps_charge: "keeps W F A (charge c n)"
  by (rule keepsI, rule wp_chg)

lemma keeps_ret: "keeps W F A (retM x)"
  by (rule keepsI) (simp add: wp_simps)

lemma keeps_action: "keeps W F A (raiseM (FAction e))"
  by (rule keepsI) (simp add: wp_simps fault_ok_action)

lemma keeps_bind: "keeps W F A m \<Longrightarrow> (\<And>x. keeps W F A (k x)) \<Longrightarrow> keeps W F A (bindM m k)"
  by (rule keepsI) (auto simp: wp_simps intro: keeps_wp keepsD)

lemma keeps_pay: "keeps W F A m \<Longrightarrow> keeps W F A (bindM (charge c n) (\<lambda>_. m))"
  by (rule keeps_bind [OF keeps_charge])

lemma keeps_require: "keeps W F A (requireM c (FAction e))"
  by (rule keepsI) (simp add: wp_simps fault_ok_action)

lemma keeps_forM: "(\<And>x. x \<in> set xs \<Longrightarrow> keeps W F A (body x)) \<Longrightarrow> keeps W F A (forM xs body)"
  by (rule keepsI, rule wp_forM) (auto intro: keepsD)

section \<open>Lookups that cannot fail\<close>

lemma ctx_cells:
  assumes "ctx_ok W F A s"
  shows "length (st_cells (vx_state s)) = length (wd_cells W)"
    "i < length (wd_cells W) \<Longrightarrow>
       cell_ok W (deposited (vx_state s)) (unat (st_tick (vx_state s))) (wd_cells W ! i) (st_cells (vx_state s) ! i)"
    "map cs_id (st_cells (vx_state s)) = map cb_id (wd_cells W)"
  using state_okD(1) [OF ctx_ok_state [OF assms]] by (auto simp: cells_length cells_ids intro: cells_nth)

lemma ctx_lengths:
  assumes "ctx_ok W F A s"
  shows "length (st_sources (vx_state s)) = length (wd_sources W)" "length (st_depots (vx_state s)) = length (wd_depots W)"
    "length (st_beacons (vx_state s)) = length (wd_beacons W)" "length (st_valves (vx_state s)) = length (wd_valves W)"
    "length (st_links (vx_state s)) = length (wd_links W)"
  using state_okD [OF ctx_ok_state [OF assms]] state_ok_shape [OF ctx_ok_state [OF assms]]
  by (auto simp: shape_ok_def energy_ok_def switches_ok_def dest: list_all2_lengthD map_eq_imp_length_eq)

lemma find_cell:
  assumes "cells_ok W D t cs" and "i \<in> cb_id ` set (wd_cells W)"
  obtains c where "find (\<lambda>c. cs_id c = i) cs = Some c"
proof -
  have "i \<in> set (map cs_id cs)" using assms cells_ids [OF assms(1)] by simp
  then obtain c where "c \<in> set cs" "cs_id c = i" by auto
  then show ?thesis using find_SomeI [of c cs "\<lambda>c. cs_id c = i"] that by blast
qed

lemma wp_origin:
  assumes "cells_ok W D t (st_cells S)" and "origin_ok W e" and "\<And>p. Q p s"
  shows "wp (origin_position W S e) Q E s"
proof (cases e)
  case (EndCell i p)
  then have "i \<in> cb_id ` set (wd_cells W)" using assms(2) by (simp add: origin_ok_def)
  then obtain c where "find (\<lambda>c. cs_id c = i) (st_cells S) = Some c" by (rule find_cell [OF assms(1)])
  then show ?thesis using assms(3) EndCell by (simp add: origin_position_def wp_simps)
next
  case (EndDepot i)
  then obtain d where "d \<in> set (wd_depots W)" "dp_id d = i" using assms(2) by (auto simp: origin_ok_def)
  then obtain d' where "find (\<lambda>d. dp_id d = i) (wd_depots W) = Some d'"
    using find_SomeI [of d "wd_depots W" "\<lambda>d. dp_id d = i"] by auto
  then show ?thesis using assms(3) EndDepot by (simp add: origin_position_def wp_simps)
qed

section \<open>Emission\<close>

lemma emit_link_ok:
  assumes W: "world_ok W" and ok: "ctx_ok W F A s" and l: "index < length (wd_links W)" "wd_links W ! index = l"
    and e: "lk_from l = e" and b: "backed (deposited (vx_state s)) b evidence" and a: "unat accepted < 2 ^ 32 - 1"
  shows "wp (emit_link W e b evidence index l accepted)
    (\<lambda>acc s'. ctx_ok W F A s' \<and> deposited (vx_state s') = deposited (vx_state s) \<and> unat acc \<le> unat accepted + 1)
    (fault_ok W F A) s"
proof -
  let ?S = "vx_state s"
  have mem: "l \<in> set (wd_links W)" using l by auto
  then have lk: "link_ok W l" using W by (simp add: world_ok_def)
  note k = state_okD [OF ctx_ok_state [OF ok]]
  obtain cell where cell: "find (\<lambda>c. cs_id c = lk_to_cell l) (st_cells ?S) = Some cell"
    using lk find_cell [OF k(1)] by (auto simp: link_ok_def)
  obtain deliver where deliver: "checked_add (st_tick ?S) (lk_delay l) = Some deliver"
    "unat deliver = unat (st_tick ?S) + unat (lk_delay l)"
  proof -
    have "unat (st_tick ?S) + unat (lk_delay l) < 2 ^ 32" using k(6) lk by (simp add: link_ok_def)
    then show ?thesis using that [of "st_tick ?S + lk_delay l"] by (simp add: checked_add_def unat_plus_noloss)
  qed
  have small: "msgs m \<le> 2000000" if "meter_ok m" for m
    using that counter_le_sum [of Messages "me_ledger m"] by (simp add: msgs_def meter_ok_def)
  have nxt: "checked_add (st_next_signal ?S) 1 = Some (st_next_signal ?S + 1)"
    "unat (st_next_signal ?S + 1) = unat (st_next_signal ?S) + 1"
  proof -
    have "unat (st_next_signal ?S) + 1 < 2 ^ 64" using k(7) small [of "vx_meter s"] ok by (simp add: ctx_ok_def)
    then show "checked_add (st_next_signal ?S) 1 = Some (st_next_signal ?S + 1)"
      "unat (st_next_signal ?S + 1) = unat (st_next_signal ?S) + 1"
      by (simp_all add: checked_add_def unat_plus_noloss)
  qed
  have acc: "checked_add accepted 1 = Some (accepted + 1)" "unat (accepted + 1) = unat accepted + 1"
    using a by (simp_all add: checked_add_def unat_plus_noloss)
  have orig: "origin_ok W e" using lk e by (simp add: link_ok_def)
  define sg where "sg = \<lparr>sg_id = st_next_signal ?S, sg_link = lk_id l, sg_from = e, sg_to_cell = lk_to_cell l,
    sg_to_port = lk_to_port l, sg_bit = b, sg_sent_tick = st_tick ?S, sg_deliver_tick = deliver, sg_receipt_spark = evidence\<rparr>"
  have sgok: "signal_ok W (deposited ?S) (unat (st_tick ?S)) sg"
    using mem e b deliver(2) by (auto simp: signal_ok_def sg_def)
  let ?S1 = "?S\<lparr>st_next_signal := st_next_signal ?S + 1\<rparr>"
  let ?S2 = "?S1\<lparr>st_pending := st_pending ?S @ [sg]\<rparr>"
  have dep: "deposited ?S1 = deposited ?S" "deposited ?S2 = deposited ?S" by (simp_all add: deposited_def)
  show ?thesis
    unfolding emit_link_def wp_bind
  proof (rule wp_chg [OF ok], goal_cases)
    case (1 m)
    show ?case
    proof (rule wp_chg [OF 1(1)], goal_cases)
      case (1 m')
      then have c: "ctx_ok W F A (s\<lparr>vx_meter := m'\<rparr>)" and n: "msgs m' = msgs (vx_meter s) + 1"
        using \<open>msgs m = _\<close> by simp_all
      have st: "state_ok W (msgs m') ?S1" using ctx_ok_state [OF ok] k(7) n nxt(2) by (auto intro: next_signal_ok)
      have c1: "ctx_ok W F A (s\<lparr>vx_meter := m', vx_state := ?S1\<rparr>)"
        using ctx_ok_update [OF c] st by simp
      have c2: "ctx_ok W F A (s\<lparr>vx_meter := m', vx_state := ?S2\<rparr>)" if "length (st_pending ?S) < 128"
        using ctx_ok_update [OF c] push_pending_ok [OF st, of sg] sgok that dep by simp
      show ?case
        using c1 c2 dep acc l(1) ctx_lengths(5) [OF ok]
        by (auto simp: wp_simps cell deliver(1) nxt(1) Let_def not_less simp flip: sg_def
            intro!: wp_origin [OF k(1) orig])
    qed
  qed
qed

lemma emit_links_ok:
  assumes W: "world_ok W" and ls: "\<forall>(i, l)\<in>set ls. i < length (wd_links W) \<and> wd_links W ! i = l \<and> lk_from l = e"
  shows "ctx_ok W F A s \<Longrightarrow> backed (deposited (vx_state s)) b evidence \<Longrightarrow> unat accepted + length ls < 2 ^ 32 \<Longrightarrow>
    wp (emit_links W e b evidence ls accepted) (\<lambda>_. ctx_ok W F A) (fault_ok W F A) s"
  using ls
proof (induction ls arbitrary: accepted s)
  case Nil
  then show ?case by (simp add: wp_simps)
next
  case (Cons il ls)
  obtain i l where il: "il = (i, l)" by (cases il)
  have h: "i < length (wd_links W)" "wd_links W ! i = l" "lk_from l = e" "unat accepted < 2 ^ 32 - 1"
    using Cons.prems il by auto
  show ?case
    unfolding il emit_links.simps wp_bind
  proof (rule wp_mono [OF emit_link_ok [OF W Cons.prems(1) h(1-3) Cons.prems(2) h(4)]], goal_cases)
    case (1 acc s')
    then show ?case using Cons.prems by (intro Cons.IH) auto
  qed
qed

lemma emit_ok:
  assumes W: "world_ok W" and "ctx_ok W F A s" and "backed (deposited (vx_state s)) b evidence"
  shows "wp (emit W e b evidence) (\<lambda>_. ctx_ok W F A) (fault_ok W F A) s"
  unfolding emit_def
proof (rule emit_links_ok [OF W _ assms(2,3)])
  let ?ls = "filter (\<lambda>(_, l). lk_from l = e) (enumerate 0 (wd_links W))"
  show "\<forall>(i, l)\<in>set ?ls. i < length (wd_links W) \<and> wd_links W ! i = l \<and> lk_from l = e"
    by (auto simp: in_set_enumerate_eq)
  have "length ?ls \<le> length (wd_links W)" by (rule order_trans [OF length_filter_le]) simp
  then show "unat (0 :: u32) + length ?ls < 2 ^ 32" using W by (simp add: world_ok_def)
qed

lemma emit_wp:
  assumes "world_ok W" and "ctx_ok W F A s" and "backed (deposited (vx_state s)) b evidence"
    and "\<And>accepted s'. ctx_ok W F A s' \<Longrightarrow> Q accepted s'"
  shows "wp (emit W e b evidence) Q (fault_ok W F A) s"
  by (rule wp_mono [OF emit_ok [OF assms(1-3)]]) (simp_all add: assms(4))

section \<open>Reading\<close>

lemma index_lt: "(x :: u8) < 4 \<Longrightarrow> unat x < 4"
  by (simp add: word_less_nat_alt)

lemma keeps_sense:
  assumes "cell_ok W D t body cell" and "index < length (st_cells S)" and "condition_ok c"
    and "\<And>s v. c \<noteq> Memory s v"
  shows "keeps W F A (sense W S index cell c)"
  by (rule keepsI)
     (use assms in \<open>auto simp: sense_def blocked_def wp_simps cell_ok_def index_lt split: condition.splits\<close>)

lemma keeps_check:
  assumes "cells_ok W D t (st_cells S)" and i: "index < length (st_cells S)" and c: "condition_ok c"
  shows "keeps W F A (check_condition W S index c)"
proof -
  note cell = cells_nth [OF assms(1) i] and at = bind_at [OF i]
  show ?thesis
  proof (cases "\<exists>s v. c = Memory s v")
    case True
    then obtain s v where m: "c = Memory s v" by blast
    have "keeps W F A (bindM (atM panic (cs_memory (st_cells S ! index)) (unat s)) (\<lambda>m. retM (m = v)))"
      by (rule keepsI) (use cell c in \<open>simp add: m wp_simps cell_ok_def index_lt\<close>)
    then have "keeps W F A (bindM (charge Conditions 1) (\<lambda>_. bindM (charge MemoryReads 1) (\<lambda>_.
        bindM (atM panic (cs_memory (st_cells S ! index)) (unat s)) (\<lambda>m. retM (m = v)))))"
      by (intro keeps_pay)
    then show ?thesis by (simp add: check_condition_def m at)
  next
    case False
    then have "keeps W F A (sense W S index (st_cells S ! index) c)" using keeps_sense [OF cell i c] by blast
    then have "keeps W F A (bindM (charge Conditions 1) (\<lambda>_. bindM (charge Sensors 1) (\<lambda>_.
        sense W S index (st_cells S ! index) c)))"
      by (intro keeps_pay)
    then show ?thesis using False by (cases c) (simp_all add: check_condition_def at)
  qed
qed

lemma keeps_matches:
  assumes "cells_ok W D t (st_cells S)" and "index < length (st_cells S)" and "list_all condition_ok cs"
  shows "keeps W F A (rule_matches W S index cs)"
  using assms(3)
proof (induction cs)
  case (Cons c cs)
  then show ?case
    using keeps_check [OF assms(1,2)] by (auto intro!: keeps_bind keeps_ret split: if_split simp: keeps_ret)
qed (simp add: keeps_ret)

text \<open>A read bit comes with evidence for that bit.\<close>

lemma read_bit_ok:
  assumes ok: "ctx_ok W F A s" and i: "index < length (wd_cells W)" and b: "bit_source_ok b"
    and cell: "cell = st_cells (vx_state s) ! index"
    and post: "\<And>v ev m. ctx_ok W F A (s\<lparr>vx_meter := m\<rparr>) \<Longrightarrow> backed (deposited (vx_state s)) v ev \<Longrightarrow> Q (v, ev) (s\<lparr>vx_meter := m\<rparr>)"
  shows "wp (read_bit cell b) Q (fault_ok W F A) s"
proof (cases b)
  case (BitConstant v)
  then show ?thesis by (auto simp: read_bit_def wp_simps backed_def intro!: wp_chg [OF ok] post)
next
  case (BitMemory sl)
  have "unat sl < 4" using b BitMemory by (simp add: index_lt)
  then show ?thesis
    using ctx_cells(2) [OF ok i] BitMemory
    by (auto simp: read_bit_def wp_simps cell cell_ok_def intro!: wp_chg [OF ok] post)
next
  case (BitMessage p)
  have p: "unat p < 4" using b BitMessage by (simp add: index_lt)
  have len: "length (cs_inbox cell) = 4" using ctx_cells(2) [OF ok i] by (simp add: cell cell_ok_def)
  have "backed (deposited (vx_state s)) (sg_bit sg) (sg_receipt_spark sg)" if "cs_inbox cell ! unat p = Some sg" for sg
    using inbox_signal_ok [OF ctx_cells(2) [OF ok i] p] that by (simp add: cell signal_ok_def)
  then show ?thesis
    using p len BitMessage
    by (auto simp: read_bit_def wp_simps fault_ok_action split: option.split intro!: wp_chg [OF ok] post)
qed

section \<open>Actions\<close>

lemma write_memory_ok:
  assumes i: "index < length (wd_cells W)" and sl: "sl < MEMORY_SLOTS"
  shows "keeps W F A (write_memory index sl v)"
  unfolding write_memory_def
proof (rule keepsI, simp only: wp_bind, rule wp_chg, assumption, goal_cases)
  case (1 s m)
  have n: "unat sl < 4" using sl by (rule index_lt)
  note c = ctx_cells [OF 1(2)]
  have "state_ok W (msgs m) (with_cell index (\<lambda>c. c\<lparr>cs_memory := (cs_memory c)[unat sl := v],
      cs_evidence := (cs_evidence c)[unat sl := None]\<rparr>) (vx_state s))"
    using ctx_ok_state [OF 1(2)] c i write_cell_ok [OF c(2) [OF i] n]
    by (intro state_ok_with_cell_same) simp_all
  then show ?case
    using c(1) c(2) [OF i] i n ctx_ok_update [OF 1(2)] by (simp add: wp_simps cell_ok_def)
qed

lemma exec_take_ok:
  assumes i: "index < length (wd_cells W)" and p: "p < PORTS" and sl: "sl < MEMORY_SLOTS"
  shows "keeps W F A (exec_take index p sl)"
  unfolding exec_take_def
proof (rule keepsI, simp only: wp_bind, rule wp_chg, assumption, goal_cases)
  case (1 s m)
  have n: "unat sl < 4" "unat p < 4" using sl p by (simp_all add: index_lt)
  note c = ctx_cells [OF 1(2)]
  let ?cell = "st_cells (vx_state s) ! index"
  have len: "length (cs_inbox ?cell) = 4" "length (cs_memory ?cell) = 4" "length (cs_evidence ?cell) = 4"
    using c(2) [OF i] by (simp_all add: cell_ok_def)
  show ?case
  proof (cases "cs_inbox ?cell ! unat p")
    case None
    then show ?thesis using 1 c(1) i len n by (simp add: wp_simps fault_ok_action)
  next
    case (Some sg)
    have upd: "ctx_ok W F A (s\<lparr>vx_meter := m', vx_state := with_cell index (\<lambda>c. c\<lparr>
        cs_memory := (cs_memory c)[unat sl := (if sg_bit sg then 1 else 0)],
        cs_evidence := (cs_evidence c)[unat sl := sg_receipt_spark sg],
        cs_inbox := (cs_inbox c)[unat p := None]\<rparr>) (vx_state s)\<rparr>)" if "ctx_ok W F A (s\<lparr>vx_meter := m'\<rparr>)" for m'
    proof -
      have "state_ok W (msgs m') (with_cell index (\<lambda>c. c\<lparr>
        cs_memory := (cs_memory c)[unat sl := (if sg_bit sg then 1 else 0)],
        cs_evidence := (cs_evidence c)[unat sl := sg_receipt_spark sg],
        cs_inbox := (cs_inbox c)[unat p := None]\<rparr>) (vx_state s))"
        using ctx_ok_state [OF that] c(1) i take_cell_ok [OF c(2) [OF i], of "unat sl" "unat p" sg] n Some
        by (intro state_ok_with_cell_same) simp_all
      then show ?thesis using ctx_ok_update [OF that] by simp
    qed
    then show ?thesis
      using 1 c(1) i len n Some by (auto simp: wp_simps intro!: wp_chg)
  qed
qed

lemma exec_turn_ok:
  assumes ok: "ctx_ok W F A s" and i: "index < length (wd_cells W)"
  shows "ctx_ok W F A (s\<lparr>vx_state := with_cell index (\<lambda>c. c\<lparr>cs_heading := h\<rparr>) (vx_state s)\<rparr>)"
proof -
  note c = ctx_cells [OF ok]
  have "state_ok W (msgs (vx_meter s)) (with_cell index (\<lambda>c. c\<lparr>cs_heading := h\<rparr>) (vx_state s))"
    using ctx_ok_state [OF ok] c(1) i c(2) [OF i] by (intro state_ok_with_cell_same) (simp_all add: cell_ok_def)
  then show ?thesis by (rule ctx_ok_update [OF ok])
qed

text \<open>A move that is not blocked ends on a free square of the grid.\<close>

lemma move_ok:
  assumes W: "world_ok W" and ok: "state_ok W n S" and i: "index < length (st_cells S)" and mobile: "cb_mobile (wd_cells W ! index)"
    and free: "\<not> (pt_x p \<ge> wd_width W \<or> pt_y p \<ge> wd_height W \<or> is_wall W p
      \<or> list_ex (\<lambda>other. cs_id other \<noteq> cs_id (st_cells S ! index) \<and> cs_position other = p) (st_cells S))"
  shows "state_ok W n (with_cell index (\<lambda>c. c\<lparr>cs_position := p, cs_heading := h\<rparr>) S)"
proof (rule state_ok_with_cell [OF ok i])
  note cells = state_okD(1) [OF ok]
  have grid: "on_grid (wd_spec W) p" "p \<notin> set (wd_walls W)"
    using free W by (auto simp: on_grid_def world_ok_def)
  then show "cell_ok W (deposited S) (unat (st_tick S)) (wd_cells W ! index) ((st_cells S ! index)\<lparr>cs_position := p, cs_heading := h\<rparr>)"
    using cells_nth [OF cells i] mobile by (simp add: cell_ok_def)
  have ids: "distinct (map cs_id (st_cells S))" using cells_ids [OF cells] W by (simp add: world_ok_def)
  show "cs_position (st_cells S ! j) \<noteq> cs_position ((st_cells S ! index)\<lparr>cs_position := p, cs_heading := h\<rparr>)"
    if j: "j < length (st_cells S)" "j \<noteq> index" for j
  proof -
    have "cs_id (st_cells S ! j) \<noteq> cs_id (st_cells S ! index)" using ids i j by (simp add: distinct_conv_nth)
    then show ?thesis using free nth_mem [OF j(1)] by (auto simp: list_ex_iff)
  qed
qed simp

lemma exec_move_ok:
  assumes W: "world_ok W" and i: "index < length (wd_cells W)"
  shows "keeps W F A (exec_move W index d)"
  unfolding exec_move_def
proof (rule keepsI, simp only: wp_bind, rule wp_chg, assumption, goal_cases)
  case (1 s m)
  note c = ctx_cells [OF 1(2)]
  let ?cell = "st_cells (vx_state s) ! index"
  show ?case
  proof (cases "destination (cs_position ?cell) (cs_heading ?cell) d")
    case None
    then show ?thesis using 1 c(1) i by (simp add: wp_simps blocked_def fault_ok_action)
  next
    case (Some p)
    have "ctx_ok W F A (s\<lparr>vx_meter := m', vx_state := with_cell index (\<lambda>c. c\<lparr>cs_position := p, cs_heading := h\<rparr>) (vx_state s)\<rparr>)"
      if "ctx_ok W F A (s\<lparr>vx_meter := m'\<rparr>)" "cb_mobile (wd_cells W ! index)"
        "\<not> (pt_x p \<ge> wd_width W \<or> pt_y p \<ge> wd_height W \<or> is_wall W p
          \<or> list_ex (\<lambda>other. cs_id other \<noteq> cs_id ?cell \<and> cs_position other = p) (st_cells (vx_state s)))" for m' h
      using move_ok [OF W ctx_ok_state [OF that(1)] _ that(2), of p h] that(3) c(1) i ctx_ok_update [OF that(1)] by simp
    then show ?thesis
      using 1 c(1) i Some by (auto simp: wp_simps blocked_def fault_ok_action intro!: wp_chg)
  qed
qed

lemma exec_pickup_ok:
  assumes i: "index < length (wd_cells W)"
  shows "keeps W F A (exec_pickup W index)"
  unfolding exec_pickup_def
proof (rule keepsI, simp only: wp_bind, rule wp_chg, assumption, goal_cases)
  case (1 s m)
  note c = ctx_cells [OF 1(2)] and len = ctx_lengths [OF 1(2)]
  have "ctx_ok W F A (s\<lparr>vx_meter := m', vx_state := with_cell index (\<lambda>c. c\<lparr>cs_cargo := Some spark\<rparr>) (with_source j tl (vx_state s))\<rparr>)"
    if "ctx_ok W F A (s\<lparr>vx_meter := m'\<rparr>)" "j < length (wd_sources W)" "cs_cargo (st_cells (vx_state s) ! index) = None"
      "ss_sparks (st_sources (vx_state s) ! j) = spark # rest" for m' j spark rest
    using pickup_ok [OF ctx_ok_state [OF that(1)], of index j spark rest] that c(1) i len ctx_ok_update [OF that(1)] by simp
  then show ?case
    using 1 c(1) i len
    by (auto simp: wp_simps fault_ok_action split: option.split list.split intro!: wp_chg dest: position_where_lt)
qed

text \<open>The exact effect of crediting a beacon.\<close>

lemma credit_effect:
  assumes W: "world_ok W" and ok: "ctx_ok W F A s" and b: "b < length (wd_beacons W)"
    and post: "\<And>m. ctx_ok W F A (s\<lparr>vx_meter := m\<rparr>) \<Longrightarrow> Q () (s\<lparr>vx_meter := m, vx_state := credited W b spark (vx_state s)\<rparr>)"
  shows "wp (credit W b spark) Q (fault_ok W F A) s"
  unfolding credit_def wp_bind
proof (rule wp_chg [OF ok], goal_cases)
  case (1 m)
  let ?S = "vx_state s"
  note k = state_okD [OF ctx_ok_state [OF ok]]
  have spec: "beacon_ok (wd_beacons W ! b)" using W b by (auto simp: world_ok_def)
  have lenb: "b < length (st_beacons ?S)" using ctx_lengths(3) [OF ok] b by simp
  have "beacon_state_ok (st_delivered ?S) (wd_beacons W ! b) (st_beacons ?S ! b)"
    using k(4) b by (simp add: energy_ok_def list_all2_nthD)
  note bound = beacon_bounds [OF this spec delivered_bound [OF k(3) W]]
  have "checked_add (bs_charge (st_beacons ?S ! b)) (bc_spark_charge (wd_beacons W ! b))
      = Some (bs_charge (st_beacons ?S ! b) + bc_spark_charge (wd_beacons W ! b))"
    "checked_add (bs_delivered (st_beacons ?S ! b)) 1 = Some (bs_delivered (st_beacons ?S ! b) + 1)"
    using bound spec by (simp_all add: checked_add_def beacon_ok_def)
  then show ?case
    using post [OF 1(1)] b lenb by (simp add: wp_simps credited_def with_beacon_def)
qed

lemma drop_at_depot_ok:
  assumes W: "world_ok W" and ok: "ctx_ok W F A s" and i: "index < length (wd_cells W)" and d: "d < length (wd_depots W)"
    and cargo: "cs_cargo (st_cells (vx_state s) ! index) = Some spark"
  shows "wp (drop_at_depot W index d spark) (\<lambda>_. ctx_ok W F A) (fault_ok W F A) s"
proof -
  note c = ctx_cells [OF ok] and len = ctx_lengths [OF ok]
  let ?S' = "with_depot d (\<lambda>ss. ss @ [spark]) (with_cell index (\<lambda>c. c\<lparr>cs_cargo := None\<rparr>) (vx_state s))"
  have dep: "backed (deposited ?S') (sp_bit spark) (Some (sp_id spark))"
    using deposited_push [of d "with_cell index (\<lambda>c. c\<lparr>cs_cargo := None\<rparr>) (vx_state s)" spark] d len(2)
    by (simp add: backed_def)
  have "ctx_ok W F A (s\<lparr>vx_meter := m, vx_state := ?S'\<rparr>)"
    if "ctx_ok W F A (s\<lparr>vx_meter := m\<rparr>)" "length (ds_sparks (st_depots (vx_state s) ! d)) < unat (dp_capacity (wd_depots W ! d))" for m
    using drop_depot_ok [OF ctx_ok_state [OF that(1)], of index d spark] that c(1) i len d cargo ctx_ok_update [OF that(1)] by simp
  then show ?thesis
    using ok d len dep
    by (auto simp: drop_at_depot_def wp_simps fault_ok_action not_le intro!: wp_chg emit_wp [OF W])
qed

lemma drop_at_beacon_ok:
  assumes W: "world_ok W" and ok: "ctx_ok W F A s" and i: "index < length (wd_cells W)" and b: "b < length (wd_beacons W)"
    and cargo: "cs_cargo (st_cells (vx_state s) ! index) = Some spark"
  shows "wp (drop_at_beacon W index b spark) (\<lambda>_. ctx_ok W F A) (fault_ok W F A) s"
proof -
  have "ctx_ok W F A (s\<lparr>vx_meter := m, vx_state := with_cell index (\<lambda>c. c\<lparr>cs_cargo := None\<rparr>) (credited W b spark (vx_state s))\<rparr>)"
    if "ctx_ok W F A (s\<lparr>vx_meter := m\<rparr>)" "bc_accepts (wd_beacons W ! b) = sp_bit spark" for m
    using drop_beacon_ok [OF W ctx_ok_state [OF that(1)], of index b spark] that ctx_cells(1) [OF ok] i b cargo
      ctx_ok_update [OF that(1)] by simp
  then show ?thesis
    using ok b by (auto simp: drop_at_beacon_def wp_simps fault_ok_action intro!: credit_effect [OF W])
qed

lemma exec_drop_ok:
  assumes W: "world_ok W" and i: "index < length (wd_cells W)"
  shows "keeps W F A (exec_drop W index)"
  unfolding exec_drop_def
proof (rule keepsI, simp only: wp_bind, rule wp_chg, assumption, goal_cases)
  case (1 s m)
  have len: "index < length (st_cells (vx_state s))" using ctx_cells(1) [OF 1(2)] i by simp
  show ?case
  proof (cases "cs_cargo (st_cells (vx_state s) ! index)")
    case None
    then show ?thesis using 1 len by (simp add: wp_simps fault_ok_action)
  next
    case (Some spark)
    have "wp (drop_at_depot W index d spark) (\<lambda>_. ctx_ok W F A) (fault_ok W F A) (s\<lparr>vx_meter := m\<rparr>)"
      if "d < length (wd_depots W)" for d
      by (rule drop_at_depot_ok [OF W 1(2) i that]) (simp add: Some)
    moreover have "wp (drop_at_beacon W index b spark) (\<lambda>_. ctx_ok W F A) (fault_ok W F A) (s\<lparr>vx_meter := m\<rparr>)"
      if "b < length (wd_beacons W)" for b
      by (rule drop_at_beacon_ok [OF W 1(2) i that]) (simp add: Some)
    ultimately show ?thesis
      using 1 len Some by (auto simp: wp_simps fault_ok_action split: option.split dest: position_where_lt)
  qed
qed

lemma exec_send_ok:
  assumes W: "world_ok W" and i: "index < length (wd_cells W)" and b: "bit_source_ok b"
  shows "keeps W F A (exec_send W index p b)"
proof (rule keepsI)
  fix s
  assume ok: "ctx_ok W F A s"
  have em: "wp (emit W e v ev) (\<lambda>acc. wp (requireM (acc \<noteq> 0) (FAction NoSignalQueued)) (\<lambda>_. ctx_ok W F A) (fault_ok W F A))
      (fault_ok W F A) (s\<lparr>vx_meter := m\<rparr>)"
    if "ctx_ok W F A (s\<lparr>vx_meter := m\<rparr>)" "backed (deposited (vx_state s)) v ev" for e v ev m
    by (rule emit_wp [OF W that(1)]) (use that in \<open>simp_all add: wp_simps fault_ok_action\<close>)
  show "wp (exec_send W index p b) (\<lambda>_. ctx_ok W F A) (fault_ok W F A) s"
    unfolding exec_send_def wp_bind wp_read wp_at using ctx_cells(1) [OF ok] i
    by (auto simp: wp_bind intro!: read_bit_ok [OF ok i b refl] em)
qed

lemma valve_targets:
  assumes "world_ok W" and "v \<in> set (wd_valves W)"
  obtains d b where "position_where (\<lambda>e. dp_id e = va_depot v) (wd_depots W) = Some d" "d < length (wd_depots W)"
    "position_where (\<lambda>e. bc_id e = (if value then va_beacon_one v else va_beacon_zero v)) (wd_beacons W) = Some b"
    "b < length (wd_beacons W)"
proof -
  have v: "valve_ok W v" using assms by (simp add: world_ok_def)
  then have "position_where (\<lambda>e. dp_id e = va_depot v) (wd_depots W) \<noteq> None"
    "position_where (\<lambda>e. bc_id e = (if value then va_beacon_one v else va_beacon_zero v)) (wd_beacons W) \<noteq> None"
    by (auto simp: valve_ok_def position_where_None)
  then obtain d b where "position_where (\<lambda>e. dp_id e = va_depot v) (wd_depots W) = Some d"
    "position_where (\<lambda>e. bc_id e = (if value then va_beacon_one v else va_beacon_zero v)) (wd_beacons W) = Some b" by auto
  then show ?thesis by (intro that) (auto dest: position_where_lt)
qed

lemma route_valve_ok:
  assumes W: "world_ok W" and ok: "ctx_ok W F A s" and spec: "spec \<in> set (wd_valves W)"
  shows "wp (route_valve W (vx_state s) spec value) (\<lambda>_. ctx_ok W F A) (fault_ok W F A) s"
proof -
  note len = ctx_lengths [OF ok]
  have credit: "wp (credit W b spark) (\<lambda>_. wp (update (with_depot d tl)) (\<lambda>_. ctx_ok W F A) (fault_ok W F A)) (fault_ok W F A) s"
    if h: "d < length (wd_depots W)" "b < length (wd_beacons W)" "ds_sparks (st_depots (vx_state s) ! d) = spark # rest"
      "bc_accepts (wd_beacons W ! b) = sp_bit spark" for d b spark rest
  proof (rule credit_effect [OF W ok h(2)], goal_cases)
    case (1 m)
    then show ?case
      using route_ok [OF W ctx_ok_state [OF 1], of d b spark rest] h len ctx_ok_update [OF 1] by (simp add: wp_simps)
  qed
  obtain d b where "position_where (\<lambda>e. dp_id e = va_depot spec) (wd_depots W) = Some d" "d < length (wd_depots W)"
    "position_where (\<lambda>e. bc_id e = (if value then va_beacon_one spec else va_beacon_zero spec)) (wd_beacons W) = Some b"
    "b < length (wd_beacons W)" by (rule valve_targets [OF W spec])
  then show ?thesis
    using ok len credit
    by (auto simp: route_valve_def wp_ok wp_at wp_require wp_bind wp_raise Let_def fault_ok_action split: list.split)
qed

lemma exec_route_ok:
  assumes W: "world_ok W" and i: "index < length (wd_cells W)" and b: "bit_source_ok bs"
  shows "keeps W F A (exec_route W index v bs)"
proof (rule keepsI)
  fix s :: "'x vm_ctx_scheme"
  assume ok: "ctx_ok W F A s"
  have "wp (route_valve W (vx_state s) spec bit) (\<lambda>_. ctx_ok W F A) (fault_ok W F A) (s\<lparr>vx_meter := m\<rparr>)"
    if "ctx_ok W F A (s\<lparr>vx_meter := m\<rparr>)" "spec \<in> set (wd_valves W)" for spec bit m
    using route_valve_ok [OF W that] by simp
  then show "wp (exec_route W index v bs) (\<lambda>_. ctx_ok W F A) (fault_ok W F A) s"
    unfolding exec_route_def wp_bind wp_read wp_at using ctx_cells(1) [OF ok] i ctx_lengths [OF ok]
    by (auto simp: wp_ok wp_bind wp_at wp_require fault_ok_action split: option.split
        intro!: read_bit_ok [OF ok i b refl] wp_chg dest!: position_where_lt)
qed

lemma execute_ok:
  assumes W: "world_ok W" and i: "index < length (wd_cells W)" and a: "action_ok a"
  shows "keeps W F A (execute W index a)"
proof -
  have turn: "keeps W F A (bindM (charge Transfers 1) (\<lambda>_. bindM (readM vx_state) (\<lambda>S.
      bindM (atM panic (st_cells S) index) (\<lambda>cell. update (with_cell index (\<lambda>c. c\<lparr>cs_heading := face (cs_heading cell) d\<rparr>))))))" for d
  proof (rule keeps_pay, rule keepsI)
    fix s :: "'x vm_ctx_scheme"
    assume ok: "ctx_ok W F A s"
    then show "wp (bindM (readM vx_state) (\<lambda>S. bindM (atM panic (st_cells S) index) (\<lambda>cell.
        update (with_cell index (\<lambda>c. c\<lparr>cs_heading := face (cs_heading cell) d\<rparr>))))) (\<lambda>_. ctx_ok W F A) (fault_ok W F A) s"
      using ctx_cells(1) [OF ok] i exec_turn_ok [OF ok i] by (simp add: wp_simps)
  qed
  show ?thesis
    unfolding execute_def
    by (rule keeps_pay, cases a)
       (use a turn in \<open>simp_all add: keeps_ret exec_move_ok [OF W i] exec_pickup_ok [OF i] exec_drop_ok [OF W i]
          write_memory_ok [OF i] exec_take_ok [OF i] exec_send_ok [OF W i] exec_route_ok [OF W i]\<close>)
qed

section \<open>What an operation leaves alone\<close>

text \<open>
  Operations on the borrowed context change nothing beside it, keep the tick, only append to the
  signals and never lower a counter.
\<close>

named_theorems leaves_intros \<open>operations that change only the borrowed context\<close>

definition ctx_grown :: "'x vm_ctx_scheme \<Rightarrow> 'x vm_ctx_scheme \<Rightarrow> bool" where
  "ctx_grown s s' \<longleftrightarrow> vm_ctx.more s' = vm_ctx.more s \<and> (\<exists>g. vx_signals s' = vx_signals s @ g)
     \<and> msgs (vx_meter s) \<le> msgs (vx_meter s') \<and> st_tick (vx_state s') = st_tick (vx_state s)"

lemma ctx_grown_refl [simp]: "ctx_grown s s"
  by (simp add: ctx_grown_def)

lemma ctx_grown_trans: "ctx_grown s s' \<Longrightarrow> ctx_grown s' s'' \<Longrightarrow> ctx_grown s s''"
  by (auto simp: ctx_grown_def)

definition leaves :: "(fault, 'x vm_ctx_scheme, 'a) fallible \<Rightarrow> bool" where
  "leaves m \<longleftrightarrow> (\<forall>s. ctx_grown s (snd (m s)))"

lemma charge_counter_le:
  "unat (ledger_counter d (me_ledger m)) \<le> unat (ledger_counter d (me_ledger (snd (meter_charge c n m))))"
  by (auto simp: meter_charge_def Let_def checked_add_def counter_set unat_plus_noloss split: sum.split option.split)

lemma leaves_charge [leaves_intros]: "leaves (charge c n)"
  by (auto simp: leaves_def ctx_grown_def charge_def msgs_def split: prod.split) (metis charge_counter_le snd_conv)

lemma leaves_update [leaves_intros]: "(\<And>S. st_tick (h S) = st_tick S) \<Longrightarrow> leaves (update h)"
  by (simp add: leaves_def ctx_grown_def update_def modifyM_def)

lemma leaves_basic [leaves_intros]:
  "leaves (retM x)" "leaves (raiseM f)" "leaves (readM g)" "leaves (note_signal sg out)"
  "leaves (okM f v)" "leaves (atM f xs i)" "leaves (requireM b f)"
  by (auto simp: leaves_def ctx_grown_def retM_def raiseM_def readM_def update_def note_signal_def modifyM_def okM_def atM_def
      requireM_def split: prod.split option.split)

end
