(* ===== verification/Witness_Machine.thy ===== *)
theory Witness_Machine
  imports Witness_Steps
begin

text \<open>
  One activation of a cell, and the phases of a tick that touch only the meter, the signals and
  the state. \<open>leaves\<close> says what an operation does not touch; \<open>steady\<close> is the contract of a phase
  outside activations, where the only possible stop is that the run's fuel is spent.
\<close>

section \<open>What operations leave alone\<close>

lemma leaves_bind [leaves_intros]: "leaves m \<Longrightarrow> (\<And>x. leaves (k x)) \<Longrightarrow> leaves (bindM m k)"
  by (auto simp: leaves_def bindM_def split: prod.split sum.split) (metis snd_conv ctx_grown_trans)+

lemma leaves_forM [leaves_intros]: "(\<And>x. leaves (body x)) \<Longrightarrow> leaves (forM xs body)"
  by (induction xs) (auto intro: leaves_intros)

lemma leaves_if [leaves_intros]: "leaves m \<Longrightarrow> leaves n \<Longrightarrow> leaves (if b then m else n)"
  by simp

lemma leaves_option [leaves_intros]: "leaves m \<Longrightarrow> (\<And>x. leaves (k x)) \<Longrightarrow> leaves (case v of None \<Rightarrow> m | Some x \<Rightarrow> k x)"
  by (cases v) simp_all

lemma leaves_list [leaves_intros]: "leaves m \<Longrightarrow> (\<And>x xs. leaves (k x xs)) \<Longrightarrow> leaves (case v of [] \<Rightarrow> m | x # xs \<Rightarrow> k x xs)"
  by (cases v) simp_all

lemma leaves_let [leaves_intros]: "(\<And>x. leaves (k x)) \<Longrightarrow> leaves (let x = v in k x)"
  by (simp add: Let_def)

lemma leaves_pair [leaves_intros]: "(\<And>x y. leaves (k x y)) \<Longrightarrow> leaves (case v of (x, y) \<Rightarrow> k x y)"
  by (cases v) simp

lemma leaves_blocked [leaves_intros]: "leaves (blocked W S i d)"
  unfolding blocked_def by (intro leaves_intros; simp)

lemma leaves_origin [leaves_intros]: "leaves (origin_position W S e)"
  by (cases e) (simp_all add: origin_position_def leaves_intros)

lemma leaves_emit_link [leaves_intros]: "leaves (emit_link W e b ev index l acc)"
  unfolding emit_link_def by (intro leaves_intros; simp)

lemma leaves_emit_links [leaves_intros]: "leaves (emit_links W e b ev ls acc)"
  by (induction ls arbitrary: acc) (auto intro!: leaves_intros)

lemma leaves_emit [leaves_intros]: "leaves (emit W e b ev)"
  by (simp add: emit_def leaves_intros)

lemma leaves_sense [leaves_intros]: "leaves (sense W S i cell c)"
  by (cases c) (simp_all add: sense_def leaves_intros)

lemma leaves_check [leaves_intros]: "leaves (check_condition W S i c)"
  unfolding check_condition_def by (cases c; simp; intro leaves_intros)

lemma leaves_read_bit [leaves_intros]: "leaves (read_bit cell b)"
  by (cases b) (simp_all add: read_bit_def leaves_intros)

lemma leaves_actions [leaves_intros]:
  "leaves (credit W b spark)" "leaves (exec_move W i d)" "leaves (exec_pickup W i)" "leaves (write_memory i sl v)"
  "leaves (exec_take i p sl)" "leaves (exec_send W i p bs)"
  unfolding credit_def exec_move_def exec_pickup_def write_memory_def exec_take_def exec_send_def
  by (intro leaves_intros; simp)+

lemma leaves_drops [leaves_intros]: "leaves (exec_drop W i)" "leaves (exec_route W i v bs)"
  unfolding exec_drop_def drop_at_depot_def drop_at_beacon_def exec_route_def route_valve_def
  by (intro leaves_intros; simp)+

lemma leaves_execute [leaves_intros]: "leaves (execute W i a)"
  unfolding execute_def by (cases a) (simp_all add: leaves_intros)

lemma leaves_select [leaves_intros]: "leaves (select_rule W S i k rs)"
proof (induction rs arbitrary: k)
  case (Cons r rs)
  have "leaves (rule_matches W S i cs)" for cs by (induction cs) (auto intro!: leaves_intros)
  then show ?case using Cons by (auto intro!: leaves_intros)
qed (simp add: leaves_intros)

lemma leaves_phases [leaves_intros]:
  "leaves (expire_port i p)" "leaves (deliver_signal W k)" "leaves (drain_beacon tick ib)"
  unfolding expire_port_def deliver_signal_def drain_beacon_def by (intro leaves_intros; simp)+

lemma leaves_expire [leaves_intros]: "leaves expire_inboxes"
  unfolding expire_inboxes_def by (intro leaves_intros; simp)

lemma leaves_deliver [leaves_intros]: "leaves (deliver_due W tick turns index)"
  by (induction turns arbitrary: index) (auto intro!: leaves_intros)

section \<open>One activation\<close>

lemma wp_attempt [wp_simps]:
  "wp (attempt m) Q E s =
   wp m (\<lambda>_. Q None) (\<lambda>f s'. case f of FAction e \<Rightarrow> Q (Some e) s' | _ \<Rightarrow> E f s') s"
  by (simp add: wp_def attempt_def split: prod.split sum.split fault.split)

lemma ctx_ok_record [simp]: "ctx_ok W F A (s\<lparr>ax_record := r\<rparr>) = ctx_ok W F A s"
  by (simp add: ctx_ok_def)

lemma select_rule_ok:
  fixes s :: "'x vm_ctx_scheme"
  assumes "cells_ok W D t (st_cells S)" and "index < length (st_cells S)" and "list_all rule_ok rs" and "ctx_ok W F A s"
  shows "wp (select_rule W S index k rs)
    (\<lambda>sel s'. ctx_ok W F A s' \<and> (\<forall>i r. sel = Some (i, r) \<longrightarrow> i < k + length rs \<and> r \<in> set rs)) (fault_ok W F A) s"
  using assms(3,4)
proof (induction rs arbitrary: k s)
  case Nil
  then show ?case by (simp add: wp_simps)
next
  case (Cons r rs)
  have m: "keeps W F A (rule_matches W S index (ru_when r))"
    using Cons.prems(1) by (intro keeps_matches [OF assms(1,2)]) (simp add: rule_ok_def)
  have ih: "wp (select_rule W S index (Suc k) rs)
      (\<lambda>sel s'. ctx_ok W F A s' \<and> (\<forall>i q. sel = Some (i, q) \<longrightarrow> i < k + length (r # rs) \<and> q \<in> set (r # rs))) (fault_ok W F A) s'"
    if "ctx_ok W F A s'" for s' :: "'x vm_ctx_scheme"
    by (rule wp_mono [OF Cons.IH [OF _ that]]) (use Cons.prems in auto)
  show ?case
    unfolding select_rule.simps wp_bind
    by (rule wp_chg [OF Cons.prems(2)], rule keeps_wp [OF m]) (auto simp: wp_simps intro: ih [simplified])
qed

lemma run_activation_ok:
  assumes W: "world_ok W" and cells: "cells_ok W D t (st_cells S)" and i: "index < length (st_cells S)" and p: "program_ok p"
    and ok: "ctx_ok W F A x"
  shows "wp (run_activation W p S index) (\<lambda>_. ctx_ok W F A) (fault_ok W F A) x"
proof -
  have rules: "list_all rule_ok (pg_rules p)" "length (pg_rules p) \<le> 32" using p by (simp_all add: program_ok_def)
  have i': "index < length (wd_cells W)" using cells_length [OF cells] i by simp
  have body: "wp (attempt (execute W index a)) (\<lambda>failed. wp (bindM (case rem of
              None \<Rightarrow> retM () | Some w \<Rightarrow> write_memory index (mw_slot w) (mw_value w)) (\<lambda>_.
       case failed of None \<Rightarrow> retM () | Some e \<Rightarrow> raiseM (FAction e))) (\<lambda>_. ctx_ok W F A) (fault_ok W F A)) (fault_ok W F A) s"
    if s: "ctx_ok W F A s" and a: "action_ok a" and sel: "\<And>w. rem = Some w \<Longrightarrow> mw_slot w < MEMORY_SLOTS" for s a rem
  proof -
    have post: "wp (bindM (case rem of
              None \<Rightarrow> retM () | Some w \<Rightarrow> write_memory index (mw_slot w) (mw_value w)) (\<lambda>_.
       case failed of None \<Rightarrow> retM () | Some e \<Rightarrow> raiseM (FAction e))) (\<lambda>_. ctx_ok W F A) (fault_ok W F A) s'"
      if "ctx_ok W F A s'" for failed s'
    proof (rule keepsD [OF _ that], rule keeps_bind)
      show "keeps W F A (case rem of
          None \<Rightarrow> retM () | Some w \<Rightarrow> write_memory index (mw_slot w) (mw_value w))"
        using write_memory_ok [OF i'] sel by (auto simp: keeps_ret split: option.split)
    qed (auto simp: keeps_ret keeps_action split: option.split)
    show ?thesis
      unfolding wp_attempt
    proof (rule wp_mono [OF keepsD [OF execute_ok [OF W i' a] s]], goal_cases)
      case (1 u s')
      then show ?case by (rule post)
    next
      case (2 f s')
      then show ?case by (cases f) (simp_all only: fault.case fault_ok_action post)
    qed
  qed
  note none = body [of _ _ None, simplified option.case] and some = body [of _ _ "Some w" for w, simplified option.case]
  show ?thesis
    unfolding run_activation_def wp_bind
  proof (rule wp_chg [OF ok], goal_cases)
    case (1 m)
    show ?case
    proof (rule wp_mono [OF select_rule_ok [OF cells i rules(1) 1(1)]], goal_cases)
      case (1 sel s')
      have r: "rule_ok r" if "sel = Some (k, r)" for k r using 1 rules(1) that by (auto simp: list_all_iff)
      then have "action_ok (case sel of None \<Rightarrow> Wait | Some (_, r) \<Rightarrow> ru_action r)"
        by (auto simp: rule_ok_def split: option.split)
      moreover have "k < 256" if "sel = Some (k, r)" for k r using 1 rules(2) that by fastforce
      moreover have "mw_slot w < MEMORY_SLOTS" if "sel = Some (k, r)" "ru_remember r = Some w" for k r w
        using r [OF that(1)] that(2) by (simp add: rule_ok_def)
      ultimately show ?case
        using 1 by (auto simp: wp_ret wp_modify wp_if Let_def wp_bind [of "modifyM _"] wp_bind [of "attempt _"] wp_bind [of "retM _"]
            split: option.split intro!: none some)
    qed
  qed
qed

section \<open>Phases of a tick that only touch the context\<close>

definition strict :: "world \<Rightarrow> u64 \<Rightarrow> fault \<Rightarrow> 'x vm_ctx_scheme \<Rightarrow> bool" where
  "strict W F f s \<longleftrightarrow> ctx_ok W F None s \<and> f = FStop StopFuel \<and> ledger_sum (me_ledger (vx_meter s)) = unat F"

lemma strict_stop: "fault_ok W F None (FStop st) s \<Longrightarrow> strict W F (FStop st) s"
  by (cases st) (auto simp: fault_ok_def strict_def)

definition steady :: "world \<Rightarrow> u64 \<Rightarrow> (fault, 'x vm_ctx_scheme, 'a) fallible \<Rightarrow> bool" where
  "steady W F m \<longleftrightarrow> (\<forall>s. ctx_ok W F None s \<longrightarrow> wp m (\<lambda>_. ctx_ok W F None) (strict W F) s)"

lemma steadyI: "(\<And>s. ctx_ok W F None s \<Longrightarrow> wp m (\<lambda>_. ctx_ok W F None) (strict W F) s) \<Longrightarrow> steady W F m"
  by (simp add: steady_def)

lemma steady_wp:
  assumes "steady W F m" and "ctx_ok W F None s" and "\<And>x s'. ctx_ok W F None s' \<Longrightarrow> Q x s'"
  shows "wp m Q (strict W F) s"
  by (rule wp_mono [of m "\<lambda>_. ctx_ok W F None" "strict W F"]) (use assms in \<open>auto simp: steady_def\<close>)

lemmas steady_chg = wp_chg [where A = None and E = "strict W F" for W F, OF _ _ strict_stop]

lemma steady_charge: "steady W F (charge c n)"
  by (rule steadyI, rule steady_chg)

lemma steady_bind: "steady W F m \<Longrightarrow> (\<And>x. steady W F (k x)) \<Longrightarrow> steady W F (bindM m k)"
  by (rule steadyI) (auto simp: wp_bind intro: steady_wp)

lemma steady_ret: "steady W F (retM x)"
  by (rule steadyI) (simp add: wp_simps)

lemma steady_forM: "(\<And>x. x \<in> set xs \<Longrightarrow> steady W F (body x)) \<Longrightarrow> steady W F (forM xs body)"
  by (rule steadyI, rule wp_forM) (auto simp: steady_def)

lemma expire_port_ok:
  assumes i: "i < length (wd_cells W)"
  shows "steady W F (expire_port i p)"
proof (rule steadyI)
  fix s :: "'x vm_ctx_scheme"
  assume ok: "ctx_ok W F None s"
  have clear: "ctx_ok W F None (s\<lparr>vx_meter := m, vx_signals := g,
      vx_state := with_cell i (\<lambda>c. c\<lparr>cs_inbox := (cs_inbox c)[p := None]\<rparr>) (vx_state s)\<rparr>)"
    if "ctx_ok W F None (s\<lparr>vx_meter := m\<rparr>)" for m g
  proof -
    note c = ctx_cells [OF that]
    have "state_ok W (msgs m) (with_cell i (\<lambda>c. c\<lparr>cs_inbox := (cs_inbox c)[p := None]\<rparr>) (vx_state s))"
      using ctx_ok_state [OF that] c(1) i clear_inbox_ok [OF c(2) [OF i]] by (intro state_ok_with_cell_same) simp_all
    then show ?thesis using that by (simp add: ctx_ok_def)
  qed
  show "wp (expire_port i p) (\<lambda>_. ctx_ok W F None) (strict W F) s"
    using ok by (auto simp: expire_port_def wp_simps split: option.split intro!: steady_chg clear)
qed

lemma expire_inboxes_ok: "steady W F expire_inboxes"
proof (rule steadyI)
  fix s :: "'x vm_ctx_scheme"
  assume ok: "ctx_ok W F None s"
  have "steady W F (forM [0..<length (st_cells (vx_state s))] (\<lambda>i.
      forM [0..<length (cs_inbox (st_cells (vx_state s) ! i))] (expire_port i)) :: (fault, 'x vm_ctx_scheme, unit) fallible)"
    using ctx_cells(1) [OF ok] by (intro steady_forM expire_port_ok) auto
  then show "wp expire_inboxes (\<lambda>_. ctx_ok W F None) (strict W F) s"
    using ok by (auto simp: expire_inboxes_def wp_simps intro: steady_wp)
qed

lemma deliver_signal_ok:
  assumes W: "world_ok W" and ok: "ctx_ok W F None s" and i: "index < length (st_pending (vx_state s))"
  shows "wp (deliver_signal W index)
    (\<lambda>_ s'. ctx_ok W F None s' \<and> st_pending (vx_state s') = remove_at index (st_pending (vx_state s))) (strict W F) s"
proof -
  let ?S = "vx_state s" and ?sg = "st_pending (vx_state s) ! index"
  let ?S1 = "?S\<lparr>st_pending := remove_at index (st_pending ?S)\<rparr>"
  note k = state_okD [OF ctx_ok_state [OF ok]]
  have sg: "signal_ok W (deposited ?S) (unat (st_tick ?S)) ?sg" using k(2) i by (simp add: queue_ok_def)
  then obtain l where l: "l \<in> set (wd_links W)" "lk_id l = sg_link ?sg" "lk_from l = sg_from ?sg" "lk_to_cell l = sg_to_cell ?sg"
    "lk_to_port l = sg_to_port ?sg" by (auto simp: signal_ok_def)
  have lk: "link_ok W l" using W l(1) by (simp add: world_ok_def)
  have port: "unat (sg_to_port ?sg) < 4"
    using W l(1,5) by (intro index_lt) (auto simp: world_ok_def spec_typed_def list_all_iff)
  have "sg_link ?sg \<in> set (map es_id (st_links ?S))" using k(5) imageI [OF l(1), of lk_id] l(2) by (auto simp: switches_ok_def)
  then obtain en where en: "find (\<lambda>l. es_id l = sg_link ?sg) (st_links ?S) = Some en"
    using find_SomeI [of _ "st_links ?S" "\<lambda>l. es_id l = sg_link ?sg"] by (metis (mono_tags, lifting) imageE list.set_map)
  have "sg_to_cell ?sg \<in> set (map cs_id (st_cells ?S))" using ctx_cells(3) [OF ok] lk l(4) by (simp add: link_ok_def)
  then have "position_where (\<lambda>c. cs_id c = sg_to_cell ?sg) (st_cells ?S) \<noteq> None" by (auto simp: position_where_None)
  then obtain r where r: "position_where (\<lambda>c. cs_id c = sg_to_cell ?sg) (st_cells ?S) = Some r" "r < length (st_cells ?S)"
    using position_where_lt by blast
  have orig: "origin_ok W (sg_from ?sg)" using lk l(3) by (simp add: link_ok_def)
  have rw: "r < length (wd_cells W)" using r(2) ctx_cells(1) [OF ok] by simp
  have inbox: "length (cs_inbox (st_cells ?S ! r)) = 4" using ctx_cells(2) [OF ok rw] by (simp add: cell_ok_def)
  have c1: "ctx_ok W F None (s\<lparr>vx_meter := m, vx_state := ?S1\<rparr>)" if "ctx_ok W F None (s\<lparr>vx_meter := m\<rparr>)" for m
    using ctx_ok_update [OF that remove_pending_ok [OF ctx_ok_state [OF that], of index]] by simp
  have dep: "deposited ?S1 = deposited ?S" by (simp add: deposited_def)
  have cells1: "cells_ok W (deposited ?S) (unat (st_tick ?S)) (st_cells ?S1)" using k(1) by simp
  have c2: "ctx_ok W F None (s\<lparr>vx_meter := m, vx_state := with_cell r (\<lambda>c. c\<lparr>cs_inbox := (cs_inbox c)[unat (sg_to_port ?sg) := Some ?sg]\<rparr>) ?S1\<rparr>)"
    if "ctx_ok W F None (s\<lparr>vx_meter := m\<rparr>)" for m
  proof -
    note s1 = ctx_ok_state [OF c1 [OF that]]
    have "state_ok W (msgs m) (with_cell r (\<lambda>c. c\<lparr>cs_inbox := (cs_inbox c)[unat (sg_to_port ?sg) := Some ?sg]\<rparr>) ?S1)"
      using s1 r(2) fill_inbox_ok [OF ctx_cells(2) [OF ok rw] sg] dep by (intro state_ok_with_cell_same) simp_all
    then show ?thesis using ctx_ok_update [OF that] by simp
  qed
  show ?thesis
    unfolding deliver_signal_def wp_bind
  proof (rule steady_chg [OF ok], goal_cases)
    case (1 m)
    show ?case
    proof (rule steady_chg [OF 1(1)], goal_cases)
      case (1 m')
      then have c: "ctx_ok W F None (s\<lparr>vx_meter := m'\<rparr>)" by simp
      show ?case
        using i c1 [OF c] c2 [OF c] r inbox port
        by (auto simp: wp_simps en intro!: wp_origin [OF cells1 orig])
    qed
  qed
qed

text \<open>The delivery loop keeps the invariant and leaves no due signal in the queue.\<close>

lemma deliver_due_ok:
  assumes W: "world_ok W"
  shows "ctx_ok W F None s \<Longrightarrow> length (st_pending (vx_state s)) \<le> index + turns \<Longrightarrow>
    \<forall>sg\<in>set (take index (st_pending (vx_state s))). sg_deliver_tick sg > tick \<Longrightarrow>
    wp (deliver_due W tick turns index)
      (\<lambda>_ s'. ctx_ok W F None s' \<and> (\<forall>sg\<in>set (st_pending (vx_state s')). sg_deliver_tick sg > tick)) (strict W F) s"
proof (induction turns arbitrary: index s)
  case 0
  then show ?case by (simp add: wp_simps)
next
  case (Suc turns)
  let ?q = "st_pending (vx_state s)"
  show ?case
  proof (cases "index < length ?q")
    case False
    then show ?thesis using Suc.prems by (simp add: wp_simps)
  next
    case True
    have skip: "wp (deliver_due W tick turns (Suc index))
        (\<lambda>_ s'. ctx_ok W F None s' \<and> (\<forall>sg\<in>set (st_pending (vx_state s')). sg_deliver_tick sg > tick)) (strict W F) s"
      if "sg_deliver_tick (?q ! index) > tick"
      using Suc.prems True that by (intro Suc.IH) (auto simp: take_Suc_conv_app_nth)
    have go: "wp (deliver_signal W index) (\<lambda>_. wp (deliver_due W tick turns index)
        (\<lambda>_ s'. ctx_ok W F None s' \<and> (\<forall>sg\<in>set (st_pending (vx_state s')). sg_deliver_tick sg > tick)) (strict W F)) (strict W F) s"
      by (rule wp_mono [OF deliver_signal_ok [OF W Suc.prems(1) True]], rule Suc.IH)
         (use Suc.prems True in \<open>auto simp: remove_at_def\<close>)
    show ?thesis using True skip go by (auto simp: wp_simps)
  qed
qed

lemma drain_beacon_ok:
  assumes W: "world_ok W" and b: "(index, spec) \<in> set (enumerate 0 (wd_beacons W))"
  shows "steady W F (drain_beacon tick (index, spec))"
proof (rule steadyI)
  fix s :: "'x vm_ctx_scheme"
  assume ok: "ctx_ok W F None s"
  have i: "index < length (wd_beacons W)" "wd_beacons W ! index = spec" using b by (auto simp: in_set_enumerate_eq)
  let ?e = "st_beacons (vx_state s) ! index" and ?amt = "min (bs_charge (st_beacons (vx_state s) ! index)) (bc_drain_amount spec)"
  note k = state_okD [OF ctx_ok_state [OF ok]]
  have spec: "beacon_ok spec" using W i by (auto simp: world_ok_def)
  then have every: "bc_drain_every spec \<noteq> 0" by (auto simp: beacon_ok_def)
  have lenb: "index < length (st_beacons (vx_state s))" using ctx_lengths(3) [OF ok] i by simp
  have "beacon_state_ok (st_delivered (vx_state s)) spec ?e"
    using k(4) i by (auto simp: energy_ok_def dest: list_all2_nthD)
  note bound = beacon_bounds [OF this spec delivered_bound [OF k(3) W]]
  have le: "?amt \<le> bs_charge ?e" by simp
  then have "unat ?amt \<le> unat (bs_charge ?e)" by (simp only: word_le_nat_alt)
  then have fit: "unat (bs_drained ?e) + unat ?amt < 2 ^ 32" using bound(2) by simp
  have "ctx_ok W F None (s\<lparr>vx_meter := m, vx_state := with_beacon index (\<lambda>b. b\<lparr>bs_charge := bs_charge ?e - ?amt,
      bs_drained := bs_drained ?e + ?amt, bs_exhausted := (if bs_charge ?e - ?amt = 0 then True else bs_exhausted b)\<rparr>) (vx_state s)\<rparr>)"
    if "ctx_ok W F None (s\<lparr>vx_meter := m\<rparr>)" for m
  proof -
    have "state_ok W (msgs m) (with_beacon index (\<lambda>b. b\<lparr>bs_charge := bs_charge ?e - ?amt,
      bs_drained := bs_drained ?e + ?amt, bs_exhausted := (if bs_charge ?e - ?amt = 0 then True else bs_exhausted b)\<rparr>) (vx_state s))"
      by (rule drain_ok [OF _ lenb le fit]) (use ctx_ok_state [OF that] in simp_all)
    then show ?thesis using ctx_ok_update [OF that] by simp
  qed
  moreover have "checked_sub (bs_charge ?e) ?amt = Some (bs_charge ?e - ?amt)" using le by (simp add: checked_sub_def)
  moreover have "checked_add (bs_drained ?e) ?amt = Some (bs_drained ?e + ?amt)" using fit by (simp add: checked_add_def)
  ultimately show "wp (drain_beacon tick (index, spec)) (\<lambda>_. ctx_ok W F None) (strict W F) s"
    using ok every lenb by (auto simp: drain_beacon_def wp_simps Let_def intro!: steady_chg)
qed

end
