(* ===== verification/Witness_Run.thy ===== *)
theory Witness_Run
  imports Witness_Machine
begin

text \<open>
  Whole runs of the witness machine. \<open>mach_ok\<close> is the invariant between the phases of a tick and
  \<open>mfault\<close> what a fuel stop leaves behind; every phase keeps it, so a run on validated inputs
  always returns a result, and the result satisfies the invariant.
\<close>

section \<open>The invariant of the machine\<close>

definition work_ok :: "case_spec \<Rightarrow> activation \<Rightarrow> bool" where
  "work_ok c r \<longleftrightarrow> unat (av_work_before r) \<le> unat (av_work_after r)
     \<and> unat (av_work_after r) \<le> unat (av_work_before r) + unat (ca_activation_fuel c)"

definition mach_ok :: "world \<Rightarrow> case_spec \<Rightarrow> u32 \<Rightarrow> machine \<Rightarrow> bool" where
  "mach_ok W c t mc \<longleftrightarrow> ctx_ok W (ca_fuel c) None mc \<and> st_tick (vx_state mc) = t \<and> shape_ok W (mc_scratch mc)
     \<and> mc_cell_count mc = word_of_nat (length (wd_cells W)) \<and> mc_beacon_count mc = word_of_nat (length (wd_beacons W))
     \<and> mc_initial_sparks mc = word_of_nat (length (world_sparks W))
     \<and> set (mc_order mc) \<subseteq> cb_id ` set (wd_cells W) \<and> (\<forall>r\<in>set (mc_activations mc). work_ok c r)
     \<and> mc_status mc \<noteq> FuelExhausted"

definition mfault :: "world \<Rightarrow> case_spec \<Rightarrow> u32 \<Rightarrow> fault \<Rightarrow> machine \<Rightarrow> bool" where
  "mfault W c t f mc \<longleftrightarrow> mach_ok W c t mc \<and> f = FStop StopFuel \<and> ledger_sum (me_ledger (vx_meter mc)) = unat (ca_fuel c)"

definition mkeeps :: "world \<Rightarrow> case_spec \<Rightarrow> u32 \<Rightarrow> (fault, machine, 'a) fallible \<Rightarrow> bool" where
  "mkeeps W c t m \<longleftrightarrow> (\<forall>s. mach_ok W c t s \<longrightarrow> wp m (\<lambda>_. mach_ok W c t) (mfault W c t) s)"

lemma mkeepsI: "(\<And>s. mach_ok W c t s \<Longrightarrow> wp m (\<lambda>_. mach_ok W c t) (mfault W c t) s) \<Longrightarrow> mkeeps W c t m"
  by (simp add: mkeeps_def)

lemma mkeeps_wp:
  assumes "mkeeps W c t m" and "mach_ok W c t s" and "\<And>x s'. mach_ok W c t s' \<Longrightarrow> Q x s'"
  shows "wp m Q (mfault W c t) s"
  by (rule wp_mono [of m "\<lambda>_. mach_ok W c t" "mfault W c t"]) (use assms in \<open>auto simp: mkeeps_def\<close>)

lemma mkeeps_bind: "mkeeps W c t m \<Longrightarrow> (\<And>x. mkeeps W c t (k x)) \<Longrightarrow> mkeeps W c t (bindM m k)"
  by (rule mkeepsI) (auto simp: wp_bind mkeeps_def intro: mkeeps_wp)

lemma mkeeps_forM: "(\<And>x. x \<in> set xs \<Longrightarrow> mkeeps W c t (body x)) \<Longrightarrow> mkeeps W c t (forM xs body)"
  by (rule mkeepsI, rule wp_forM) (auto simp: mkeeps_def)

lemma mach_ctx: "mach_ok W c t s \<Longrightarrow> ctx_ok W (ca_fuel c) None s"
  by (simp add: mach_ok_def)

lemma mach_tick: "mach_ok W c t s \<Longrightarrow> st_tick (vx_state s) = t"
  by (simp add: mach_ok_def)

lemma mach_ok_grown:
  fixes s s' :: machine
  assumes "mach_ok W c t s" and "ctx_grown s s'" and "ctx_ok W (ca_fuel c) None s'"
  shows "mach_ok W c t s'"
  using assms by (cases s; cases s') (auto simp: mach_ok_def ctx_grown_def)

text \<open>A phase that works on the borrowed context only keeps the machine's invariant.\<close>

lemma mkeeps_lift:
  fixes m :: "(fault, machine, 'a) fallible"
  assumes "wp m Q (strict W (ca_fuel c)) s" and "leaves m" and "mach_ok W c t s"
    and "\<And>x s'. Q x s' \<Longrightarrow> ctx_ok W (ca_fuel c) None s'"
  shows "wp m (\<lambda>_. mach_ok W c t) (mfault W c t) s"
proof -
  have "ctx_grown s (snd (m s))" using assms(2) by (simp add: leaves_def)
  then show ?thesis
    using assms(1,3,4) mach_ok_grown by (auto simp: wp_def strict_def mfault_def split: prod.splits sum.splits)
qed

lemma mkeeps_steady:
  fixes m :: "(fault, machine, 'a) fallible"
  assumes "steady W (ca_fuel c) m" and "leaves m"
  shows "mkeeps W c t m"
  by (rule mkeepsI, rule mkeeps_lift [of m "\<lambda>_. ctx_ok W (ca_fuel c) None"]) (use assms in \<open>auto simp: steady_def mach_ok_def\<close>)

lemma mkeeps_charge: "mkeeps W c t (charge k n)"
  by (intro mkeeps_steady steady_charge leaves_intros)

section \<open>One activation\<close>

definition logged :: "act_ctx \<Rightarrow> act_ctx \<Rightarrow> bool" where
  "logged s s' \<longleftrightarrow> av_work_before (ax_record s') = av_work_before (ax_record s)
     \<and> (\<exists>g. vx_signals s' = vx_signals s @ g) \<and> msgs (vx_meter s) \<le> msgs (vx_meter s')
     \<and> st_tick (vx_state s') = st_tick (vx_state s)"

definition logs :: "(fault, act_ctx, 'a) fallible \<Rightarrow> bool" where
  "logs m \<longleftrightarrow> (\<forall>s. logged s (snd (m s)))"

lemma logged_trans: "logged s s' \<Longrightarrow> logged s' s'' \<Longrightarrow> logged s s''"
  by (auto simp: logged_def)

lemma logs_leaves: "leaves m \<Longrightarrow> logs m"
proof -
  have "ax_record x = ax_record y" if "vm_ctx.more x = vm_ctx.more y" for x y :: act_ctx
    using that by (cases x; cases y) simp
  then have "ctx_grown s s' \<Longrightarrow> logged s s'" for s s' :: act_ctx
    unfolding ctx_grown_def logged_def by metis
  then show "leaves m \<Longrightarrow> logs m" by (simp add: leaves_def logs_def)
qed

lemma logs_bind: "logs m \<Longrightarrow> (\<And>x. logs (k x)) \<Longrightarrow> logs (bindM m k)"
  by (auto simp: logs_def bindM_def split: prod.split sum.split) (metis snd_conv logged_trans)+

lemma logs_attempt: "logs m \<Longrightarrow> logs (attempt m)"
  by (auto simp: logs_def attempt_def split: prod.split sum.split fault.split) (metis snd_conv)+

lemma run_activation_logs: "logs (run_activation W p S index)"
proof -
  have m: "logs (modifyM (\<lambda>x. x\<lparr>ax_record := (ax_record x)\<lparr>av_rule := r\<rparr>\<rparr>))"
    "logs (modifyM (\<lambda>x. x\<lparr>ax_record := (ax_record x)\<lparr>av_action := a\<rparr>\<rparr>))" for r a
    by (simp_all add: logs_def logged_def modifyM_def)
  show ?thesis
    unfolding run_activation_def Let_def
    by (intro logs_bind logs_attempt m; rule logs_leaves; intro leaves_intros)
qed

text \<open>
  An activation always concludes. A limited one is rolled back: it leaves the state and the signals
  as they were, and the work it spent stays charged.
\<close>

lemma activate_ok:
  assumes W: "world_ok W" and p: "program_ok p" and i: "index < length (wd_cells W)" and ok: "mach_ok W c t mc"
  shows "wp (activate W c p index)
    (\<lambda>(r, lim) mc'. mach_ok W c t mc' \<and> work_ok c r \<and> (lim = Some StopFuel \<longrightarrow> ledger_sum (me_ledger (vx_meter mc')) = unat (ca_fuel c))
       \<and> (lim \<noteq> None \<longrightarrow> vx_state mc' = vx_state mc \<and> vx_signals mc' = vx_signals mc)) (\<lambda>_ _. False) mc"
proof -
  note c = mach_ctx [OF ok]
  let ?S = "vx_state mc" and ?F = "ca_fuel c"
  have meter: "meter_ok (vx_meter mc)" "me_activation (vx_meter mc) = None" "me_fuel (vx_meter mc) = ?F"
    using c by (simp_all add: ctx_ok_def)
  have index: "index < length (st_cells ?S)" using ctx_cells(1) [OF c] i by simp
  have "ledger_sum (me_ledger (vx_meter mc)) < 2 ^ 64" using meter(1) by (simp add: meter_ok_def)
  then obtain u where u: "meter_total (vx_meter mc) = Inr u" "unat u = ledger_sum (me_ledger (vx_meter mc))"
    unfolding meter_total_def by (rule ledger_total_ok)
  let ?A = "Some (u, ca_activation_fuel c)"
  have copy: "copy_from (mc_scratch mc) ?S = ?S"
    using ok state_ok_shape [OF ctx_ok_state [OF c]] by (intro copy_from_eq) (simp_all add: mach_ok_def)
  define x0 where "x0 = \<lparr>vx_meter = (vx_meter mc)\<lparr>me_activation := ?A\<rparr>, vx_signals = vx_signals mc, vx_state = ?S,
    ax_record = new_record (st_cells ?S ! index) u\<rparr>"
  have c0: "ctx_ok W ?F ?A x0" using c u(2) by (auto simp: ctx_ok_def x0_def meter_ok_def msgs_def)
  obtain r x where x: "run_activation W p ?S index x0 = (r, x)" by (cases "run_activation W p ?S index x0")
  have run: "wp (run_activation W p ?S index) (\<lambda>_. ctx_ok W ?F ?A) (fault_ok W ?F ?A) x0"
    by (rule run_activation_ok [OF W state_okD(1) [OF ctx_ok_state [OF c]] index p c0])
  have cx: "ctx_ok W ?F ?A x" and int: "r \<noteq> Inl (FInternal e)"
    and stop: "r = Inl (FStop StopFuel) \<Longrightarrow> ledger_sum (me_ledger (vx_meter x)) = unat ?F" for e
    using run x by (auto simp: wp_def fault_ok_def split: sum.splits)
  have lg: "logged x0 x" using run_activation_logs [of W p ?S index] x by (auto simp: logs_def) (metis snd_conv)
  have mx: "meter_ok (vx_meter x)" "me_activation (vx_meter x) = ?A" "me_fuel (vx_meter x) = ?F" using cx by (simp_all add: ctx_ok_def)
  define mc1 where "mc1 = mc\<lparr>vx_meter := end_activation (vx_meter x), vx_signals := vx_signals x, mc_scratch := vx_state x\<rparr>"
  have "ledger_sum (me_ledger (vx_meter x)) < 2 ^ 64" using mx by (simp add: meter_ok_def)
  then obtain t' where t': "meter_total (vx_meter mc1) = Inr t'" "unat t' = ledger_sum (me_ledger (vx_meter x))"
    using ledger_total_ok [of "me_ledger (vx_meter x)"] by (auto simp: meter_total_def mc1_def end_activation_def)
  have work: "work_ok c r'" if "av_work_before r' = u" "av_work_after r' = t'" for r'
    using mx t' that by (simp add: work_ok_def meter_ok_def)
  have before: "av_work_before (ax_record x) = u" using lg by (simp add: logged_def x0_def new_record_def)
  obtain g where g: "vx_signals x = vx_signals mc @ g" using lg by (auto simp: logged_def x0_def)
  have msgs: "msgs (vx_meter mc) \<le> msgs (end_activation (vx_meter x))"
    using lg by (simp add: logged_def x0_def msgs_def end_activation_def)
  have old: "mach_ok W c t (mc1\<lparr>vx_signals := sgs\<rparr>)" for sgs
    using ok mx msgs state_ok_shape [OF ctx_ok_state [OF cx]] state_ok_later [OF ctx_ok_state [OF c] msgs]
    by (simp add: mach_ok_def ctx_ok_def mc1_def end_activation_def meter_ok_def)
  have new: "mach_ok W c t (mc1\<lparr>vx_state := vx_state x, mc_scratch := ?S\<rparr>)"
    using ok mx state_ok_shape [OF ctx_ok_state [OF c]] ctx_ok_state [OF cx] lg
    by (simp add: mach_ok_def ctx_ok_def mc1_def end_activation_def meter_ok_def msgs_def logged_def x0_def)
  have index': "index < length (st_cells (vx_state x))" using ctx_cells(1) [OF cx] i by simp
  have "activate W c p index mc = conclude index (length (vx_signals mc)) r ((ax_record x)\<lparr>av_work_after := t'\<rparr>) mc1"
    using index u(1) x t'(1) copy
    by (simp add: activate_def bindM_def readM_def atM_def retM_def liftM_def begin_activation_def x0_def mc1_def Let_def)
  moreover have "wp (\<lambda>mc. conclude index n r q mc1) Q E mc = wp (conclude index n r q) Q E mc1" for n q Q E
    by (simp add: wp_def)
  moreover have "wp (conclude index (length (vx_signals mc)) r ((ax_record x)\<lparr>av_work_after := t'\<rparr>))
    (\<lambda>(r, lim) mc'. mach_ok W c t mc' \<and> work_ok c r \<and> (lim = Some StopFuel \<longrightarrow> ledger_sum (me_ledger (vx_meter mc')) = unat (ca_fuel c))
       \<and> (lim \<noteq> None \<longrightarrow> vx_state mc' = vx_state mc \<and> vx_signals mc' = vx_signals mc)) (\<lambda>_ _. False) mc1"
    using int stop work before g old [of "vx_signals mc"] new index'
    by (auto simp: wp_def conclude_def Let_def bindM_def atM_def retM_def mc1_def end_activation_def split: sum.split fault.split)
  ultimately show ?thesis by (simp add: wp_def)
qed

section \<open>The phases of a tick\<close>

lemma position_of_id:
  assumes "map f xs = map g ys" and "i \<in> g ` set ys"
  obtains k where "position_where (\<lambda>x. f x = i) xs = Some k" "k < length xs" "f (xs ! k) = i"
proof -
  have "i \<in> set (map f xs)" using assms by simp
  then have "position_where (\<lambda>x. f x = i) xs \<noteq> None" by (auto simp: position_where_None)
  then show ?thesis using that position_where_lt position_where_sat by blast
qed

lemma mach_ok_events [simp]: "mach_ok W c t (s\<lparr>mc_events := es\<rparr>) = mach_ok W c t s"
  by (simp add: mach_ok_def ctx_ok_def)

lemma mach_ok_state:
  "mach_ok W c t s \<Longrightarrow> state_ok W (msgs (vx_meter s)) S \<Longrightarrow> st_tick S = t \<Longrightarrow> mach_ok W c t (s\<lparr>vx_state := S\<rparr>)"
  by (simp add: mach_ok_def ctx_ok_def)

text \<open>An update of the entry with a known identifier finds its entry.\<close>

lemma mkeeps_found:
  assumes "\<And>s. mach_ok W c t s \<Longrightarrow> map f (sel (vx_state s)) = map g ys" and i: "i \<in> g ` set ys"
    and "\<And>s k. mach_ok W c t s \<Longrightarrow> k < length (sel (vx_state s)) \<Longrightarrow> state_ok W (msgs (vx_meter s)) (upd k (vx_state s))"
    and "\<And>k S. st_tick (upd k S) = st_tick S"
  shows "mkeeps W c t (bindM (readM (\<lambda>x. position_where (\<lambda>l. f l = i) (sel (vx_state x)))) (\<lambda>found.
      bindM (okM invariant found) (\<lambda>k. update (upd k))))"
proof (rule mkeepsI)
  fix s assume ok: "mach_ok W c t s"
  obtain k where "position_where (\<lambda>l. f l = i) (sel (vx_state s)) = Some k" "k < length (sel (vx_state s))"
    by (rule position_of_id [OF assms(1) [OF ok] i])
  then show "wp (bindM (readM (\<lambda>x. position_where (\<lambda>l. f l = i) (sel (vx_state x)))) (\<lambda>found.
      bindM (okM invariant found) (\<lambda>k. update (upd k)))) (\<lambda>_. mach_ok W c t) (mfault W c t) s"
    using mach_ok_state [OF ok assms(3) [OF ok]] assms(4) mach_tick [OF ok] by (simp add: wp_simps)
qed

lemma apply_event_ok:
  assumes e: "event_exists W e"
  shows "mkeeps W c t (apply_event e)"
  unfolding apply_event_def
proof (rule mkeeps_bind [OF mkeeps_charge], rule mkeeps_bind)
  show "mkeeps W c t (modifyM (\<lambda>x. x\<lparr>mc_events := mc_events x @ [e]\<rparr>))"
    by (rule mkeepsI) (simp add: wp_modify)
  note st = ctx_ok_state [OF mach_ctx] and switches = state_okD(5) [OF ctx_ok_state [OF mach_ctx]]
  have link: "mkeeps W c t (bindM (readM (\<lambda>x. position_where (\<lambda>l. es_id l = i) (st_links (vx_state x)))) (\<lambda>found.
      bindM (okM invariant found) (\<lambda>k. update (\<lambda>S. S\<lparr>st_links := set_enabled b k (st_links S)\<rparr>))))"
    if "i \<in> lk_id ` set (wd_links W)" for i b
    by (rule mkeeps_found [OF _ that]) (use switches st in \<open>auto simp: switches_ok_def intro: switch_link_ok\<close>)
  have valve: "mkeeps W c t (bindM (readM (\<lambda>x. position_where (\<lambda>l. es_id l = i) (st_valves (vx_state x)))) (\<lambda>found.
      bindM (okM invariant found) (\<lambda>k. update (\<lambda>S. S\<lparr>st_valves := set_enabled b k (st_valves S)\<rparr>))))"
    if "i \<in> va_id ` set (wd_valves W)" for i b
    by (rule mkeeps_found [OF _ that]) (use switches st in \<open>auto simp: switches_ok_def intro: switch_valve_ok\<close>)
  have clear: "mkeeps W c t (bindM (readM (\<lambda>x. position_where (\<lambda>c. cs_id c = i) (st_cells (vx_state x)))) (\<lambda>found.
      bindM (okM invariant found) (\<lambda>k. update (with_cell k (\<lambda>c. c\<lparr>cs_memory := replicate 4 0, cs_evidence := replicate 4 None\<rparr>)))))"
    if "i \<in> cb_id ` set (wd_cells W)" for i
    by (rule mkeeps_found [OF _ that])
       (use ctx_cells [OF mach_ctx] st in \<open>auto intro!: state_ok_with_cell_same clear_memory_ok\<close>)
  show "mkeeps W c t (case e of
         LinkEnabled i b \<Rightarrow>
           bindM (charge Actions 1) (\<lambda>_.
           bindM (readM (\<lambda>x. position_where (\<lambda>l. es_id l = i) (st_links (vx_state x)))) (\<lambda>found.
           bindM (okM invariant found) (\<lambda>k. update (\<lambda>S. S\<lparr>st_links := set_enabled b k (st_links S)\<rparr>))))
       | ValveEnabled i b \<Rightarrow>
           bindM (charge Actions 1) (\<lambda>_.
           bindM (readM (\<lambda>x. position_where (\<lambda>v. es_id v = i) (st_valves (vx_state x)))) (\<lambda>found.
           bindM (okM invariant found) (\<lambda>k. update (\<lambda>S. S\<lparr>st_valves := set_enabled b k (st_valves S)\<rparr>))))
       | ClearMemory i \<Rightarrow>
           bindM (charge MemoryWrites CLEAR_MEMORY_WRITES) (\<lambda>_.
           bindM (readM (\<lambda>x. position_where (\<lambda>c. cs_id c = i) (st_cells (vx_state x)))) (\<lambda>found.
           bindM (okM invariant found) (\<lambda>k.
             update (with_cell k (\<lambda>c. c\<lparr>cs_memory := replicate 4 0, cs_evidence := replicate 4 None\<rparr>))))))"
    by (cases e) (use e in \<open>auto simp: event_exists_def list_ex_iff intro!: mkeeps_bind [OF mkeeps_charge] link valve clear\<close>)
qed

lemma take_turn_ok:
  assumes W: "world_ok W" and a: "assignment_ok W a" and i: "i \<in> cb_id ` set (wd_cells W)"
  shows "mkeeps W c t (take_turn W a c i)"
proof (rule mkeepsI)
  fix s assume ok: "mach_ok W c t s"
  note cells = ctx_cells [OF mach_ctx [OF ok]]
  obtain k where k: "position_where (\<lambda>l. cs_id l = i) (st_cells (vx_state s)) = Some k" "k < length (wd_cells W)"
    using position_of_id [OF cells(3) i] cells(1) by metis
  have p: "program_ok (as_programs a ! k)" "k < length (as_programs a)" using a k(2) by (auto simp: assignment_ok_def)
  show "wp (take_turn W a c i) (\<lambda>_. mach_ok W c t) (mfault W c t) s"
    unfolding take_turn_def wp_bind [of "readM _"] wp_read k(1) wp_bind [of "okM _ _"] wp_ok option.case if_P [OF p(2)] wp_bind [of "activate _ _ _ _"]
  proof (rule wp_mono [OF activate_ok [OF W p(1) k(2) ok]], goal_cases)
    case (1 r s')
    obtain r1 lim where r: "r = (r1, lim)" by (cases r)
    then have s': "mach_ok W c t (s'\<lparr>mc_activations := mc_activations s' @ [r1]\<rparr>)"
      "mach_ok W c t (s'\<lparr>mc_activations := mc_activations s' @ [r1], mc_status := ActivationLimit\<rparr>)"
      using 1 by (auto simp: mach_ok_def ctx_ok_def)
    then show ?case using 1 r by (auto simp: wp_simps mfault_def split: option.split stop.split)
  qed auto
qed

lemma mkeeps_deliver:
  assumes W: "world_ok W"
  shows "mkeeps W c t (bindM (readM (\<lambda>x. length (st_pending (vx_state x)))) (\<lambda>queued. deliver_due W tick queued 0))"
proof (rule mkeepsI)
  fix s assume ok: "mach_ok W c t s"
  have "wp (deliver_due W tick (length (st_pending (vx_state s))) 0) (\<lambda>_. mach_ok W c t) (mfault W c t) s"
    by (rule mkeeps_lift [OF deliver_due_ok [OF W mach_ctx [OF ok]]]) (use ok in \<open>auto intro: leaves_intros\<close>)
  then show "wp (bindM (readM (\<lambda>x. length (st_pending (vx_state x)))) (\<lambda>queued. deliver_due W tick queued 0))
      (\<lambda>_. mach_ok W c t) (mfault W c t) s"
    by (simp add: wp_simps)
qed

lemma mkeeps_turns:
  assumes W: "world_ok W" and a: "assignment_ok W a"
  shows "mkeeps W c t (bindM (readM mc_order) (\<lambda>order. forM order (take_turn W a c)))"
proof (rule mkeepsI)
  fix s assume ok: "mach_ok W c t s"
  then have "mkeeps W c t (forM (mc_order s) (take_turn W a c))"
    by (intro mkeeps_forM take_turn_ok [OF W a]) (auto simp: mach_ok_def)
  then show "wp (bindM (readM mc_order) (\<lambda>order. forM order (take_turn W a c))) (\<lambda>_. mach_ok W c t) (mfault W c t) s"
    using ok by (simp add: wp_simps mkeeps_def)
qed

lemma mkeeps_end_check:
  assumes W: "world_ok W"
  shows "mkeeps W c t (bindM (readM (\<lambda>x. Option.bind (checked_add (mc_cell_count x) (mc_beacon_count x))
      (\<lambda>sum. checked_add sum (ucast (mc_initial_sparks x))))) (\<lambda>total_checks.
     bindM (okM arithmetic total_checks) (\<lambda>end_checking. charge Checking end_checking)))"
proof (rule mkeepsI)
  fix s assume ok: "mach_ok W c t s"
  have n: "length (wd_cells W) \<le> 16" "length (wd_beacons W) \<le> 8" "length (world_sparks W) \<le> 128"
    using W by (simp_all add: world_ok_def)
  then have u: "unat (mc_cell_count s) \<le> 16" "unat (mc_beacon_count s) \<le> 8" "unat (ucast (mc_initial_sparks s) :: u64) \<le> 128"
    using ok by (simp_all add: mach_ok_def unat_of_nat unsigned_ucast_eq take_bit_eq_mod)
  then have s1: "unat (mc_cell_count s + mc_beacon_count s) = unat (mc_cell_count s) + unat (mc_beacon_count s)"
    by (intro unat_plus_noloss) simp
  have "Option.bind (checked_add (mc_cell_count s) (mc_beacon_count s)) (\<lambda>sum. checked_add sum (ucast (mc_initial_sparks s)))
      = Some (mc_cell_count s + mc_beacon_count s + ucast (mc_initial_sparks s))"
    using u s1 by (simp add: checked_add_def)
  then show "wp (bindM (readM (\<lambda>x. Option.bind (checked_add (mc_cell_count x) (mc_beacon_count x))
      (\<lambda>sum. checked_add sum (ucast (mc_initial_sparks x))))) (\<lambda>total_checks.
     bindM (okM arithmetic total_checks) (\<lambda>end_checking. charge Checking end_checking))) (\<lambda>_. mach_ok W c t) (mfault W c t) s"
    using mkeeps_charge [of W c t] ok by (simp add: wp_simps mkeeps_def)
qed

lemma bind_assoc: "bindM (bindM m k) h = bindM m (\<lambda>x. bindM (k x) h)"
  by (simp add: bindM_def fun_eq_iff split: prod.split sum.split)

lemma machine_tick_ok:
  assumes W: "world_ok W" and a: "assignment_ok W a" and c: "case_ok W c"
  shows "mkeeps W c t (machine_tick W a c tick)"
proof -
  have "mkeeps W c t (forM (filter (\<lambda>e. we_tick e = tick) (ca_events c)) (\<lambda>e. apply_event (we_event e)))"
    using c by (intro mkeeps_forM apply_event_ok) (simp add: case_ok_def)
  moreover have "mkeeps W c t (forM (enumerate 0 (wd_beacons W)) (drain_beacon tick))"
    using drain_beacon_ok [OF W] by (intro mkeeps_forM mkeeps_steady leaves_intros) auto
  moreover have "mkeeps W c t expire_inboxes" by (intro mkeeps_steady expire_inboxes_ok leaves_intros)
  ultimately have "mkeeps W c t (bindM (charge Scheduling 1) (\<lambda>_. bindM expire_inboxes (\<lambda>_.
     bindM (forM (filter (\<lambda>e. we_tick e = tick) (ca_events c)) (\<lambda>e. apply_event (we_event e))) (\<lambda>_.
     bindM (bindM (readM (\<lambda>x. length (st_pending (vx_state x)))) (\<lambda>queued. deliver_due W tick queued 0)) (\<lambda>_.
     bindM (bindM (readM mc_order) (\<lambda>order. forM order (take_turn W a c))) (\<lambda>_.
     bindM (forM (enumerate 0 (wd_beacons W)) (drain_beacon tick)) (\<lambda>_.
     bindM (readM (\<lambda>x. Option.bind (checked_add (mc_cell_count x) (mc_beacon_count x))
                         (\<lambda>sum. checked_add sum (ucast (mc_initial_sparks x))))) (\<lambda>total_checks.
     bindM (okM arithmetic total_checks) (\<lambda>end_checking.
       charge Checking end_checking)))))))))"
    by (intro mkeeps_bind [of W c t "charge _ _"] mkeeps_bind [of W c t "expire_inboxes"] mkeeps_bind [of W c t "forM _ _"]
        mkeeps_bind [of W c t "bindM _ _"] mkeeps_charge mkeeps_deliver [OF W] mkeeps_turns [OF W a] mkeeps_end_check [OF W])
  then show ?thesis unfolding bind_assoc machine_tick_def .
qed

section \<open>The loop over ticks\<close>

definition frame_ok :: "world \<Rightarrow> case_spec \<Rightarrow> frame_view \<Rightarrow> bool" where
  "frame_ok W c f \<longleftrightarrow> state_ok W (unat (wl_messages (fv_ledger f))) (fv_state f)
     \<and> ledger_sum (fv_ledger f) \<le> unat (ca_fuel c) \<and> (\<forall>r\<in>set (fv_activations f). work_ok c r)"

definition spent :: "world \<Rightarrow> case_spec \<Rightarrow> machine \<Rightarrow> bool" where
  "spent W c mc \<longleftrightarrow> (\<exists>t. mach_ok W c t (mc\<lparr>mc_status := Complete\<rparr>))
     \<and> (mc_status mc = FuelExhausted \<longrightarrow> ledger_sum (me_ledger (vx_meter mc)) = unat (ca_fuel c))"

lemma frame_of_ok: "mach_ok W c t mc \<Longrightarrow> frame_ok W c (frame_of tick b mc)"
  by (auto simp: frame_ok_def frame_of_def mach_ok_def ctx_ok_def meter_ok_def msgs_def ledger_counter_def)

lemma mach_ok_status: "mach_ok W c t mc \<Longrightarrow> mach_ok W c t (mc\<lparr>mc_status := Complete\<rparr>)"
  by (simp add: mach_ok_def ctx_ok_def)

lemma spentI: "mach_ok W c t mc \<Longrightarrow> spent W c mc"
  unfolding spent_def by (rule conjI, rule exI, erule mach_ok_status) (simp add: mach_ok_def)

lemma spent_fuel: "mfault W c t f mc \<Longrightarrow> spent W c (mc\<lparr>mc_status := FuelExhausted\<rparr>)"
  using mach_ok_status [of W c t mc] by (auto simp: spent_def mfault_def intro!: exI [of _ t])

lemma begin_tick_ok:
  assumes ok: "mach_ok W c t mc" and t: "t < tick" "unat tick \<le> 128"
  shows "mach_ok W c tick (begin_tick c tick mc)"
proof -
  note k = mach_ctx [OF ok]
  have "state_ok W (msgs (vx_meter mc)) ((vx_state mc)\<lparr>st_tick := tick\<rparr>)"
    using advance_tick_ok [OF ctx_ok_state [OF k]] mach_tick [OF ok] t by simp
  moreover have "set (map cs_id (st_cells (vx_state mc))) = cb_id ` set (wd_cells W)" unfolding ctx_cells(3) [OF k] by simp
  ultimately show ?thesis using ok by (simp add: mach_ok_def ctx_ok_def begin_tick_def schedule_def)
qed

lemma run_ticks_ok:
  assumes "world_ok W" and "assignment_ok W a" and "case_ok W c"
  shows "mach_ok W c t mc \<Longrightarrow> sorted_wrt (<) (t # ticks) \<Longrightarrow> \<forall>x\<in>set ticks. unat x \<le> 128 \<Longrightarrow> \<forall>f\<in>set frames. frame_ok W c f \<Longrightarrow>
    unat completed + length ticks < 2 ^ 32 \<Longrightarrow>
    \<exists>mc' frames' completed'. run_ticks W a c ticks mc frames completed = Inr (mc', frames', completed') \<and> spent W c mc'
      \<and> (\<forall>f\<in>set frames'. frame_ok W c f) \<and> unat completed' \<le> unat completed + length ticks
      \<and> (mc_status mc' \<noteq> FuelExhausted \<longrightarrow> unat completed' = unat completed + length ticks)"
proof (induction ticks arbitrary: t mc frames completed)
  case Nil
  then show ?case by (auto intro: spentI)
next
  case (Cons tick ticks)
  have "mach_ok W c tick (begin_tick c tick mc)" using Cons.prems by (intro begin_tick_ok) auto
  then have w: "wp (machine_tick W a c tick) (\<lambda>_. mach_ok W c tick) (mfault W c tick) (begin_tick c tick mc)"
    using machine_tick_ok [OF assms, of tick tick] by (simp add: mkeeps_def)
  obtain r mc' where r: "machine_tick W a c tick (begin_tick c tick mc) = (r, mc')" by (rule prod.exhaust)
  show ?case
  proof (cases r)
    case (Inl f)
    then have m: "mfault W c tick f mc'" using w r by (simp add: wp_def)
    then have "f = FStop StopFuel" "frame_ok W c (frame_of tick False mc')"
      by (auto simp: mfault_def intro: frame_of_ok)
    then show ?thesis using r Inl Cons.prems spent_fuel [OF m] by auto
  next
    case (Inr u)
    then have m: "mach_ok W c tick mc'" using w r by (simp add: wp_def)
    have add: "checked_add completed 1 = Some (completed + 1)" "unat (completed + 1) = unat completed + 1"
      using Cons.prems(5) by (simp_all add: checked_add_def unat_plus_noloss)
    have "\<exists>mc'' frames' completed'. run_ticks W a c ticks mc' (frames @ [frame_of tick True mc']) (completed + 1) = Inr (mc'', frames', completed')
      \<and> spent W c mc'' \<and> (\<forall>f\<in>set frames'. frame_ok W c f) \<and> unat completed' \<le> unat (completed + 1) + length ticks
      \<and> (mc_status mc'' \<noteq> FuelExhausted \<longrightarrow> unat completed' = unat (completed + 1) + length ticks)"
      by (rule Cons.IH [OF m]) (use Cons.prems add frame_of_ok [OF m] in auto)
    then show ?thesis using r Inr add by auto
  qed
qed

section \<open>The outcome\<close>

lemma count_sum:
  assumes "unat s + sum_list lens < 2 ^ 64"
  shows "foldR (\<lambda>present len. bindR (Witness_VM.count len) (\<lambda>n. ok_or RArithmetic (checked_add present n))) s lens
       = Inr (s + word_of_nat (sum_list lens))"
  using assms
proof (induction lens arbitrary: s)
  case (Cons n lens)
  have n: "unat (word_of_nat n :: u64) = n" using Cons.prems by (simp add: unat_of_nat)
  then have "unat (s + word_of_nat n) = unat s + n" using Cons.prems by (subst unat_plus_noloss) simp_all
  then show ?case using Cons.IH [of "s + word_of_nat n"] Cons.prems n by (simp add: Witness_VM.count_def checked_add_def add.assoc)
qed simp

lemma cargo_count: "(\<Sum>c\<leftarrow>cs. length (cargo_list c)) = length (filter (\<lambda>c. cs_cargo c \<noteq> None) cs)"
  by (induction cs) (auto simp: cargo_list_def split: option.split)

lemma present_size:
  "size (present_sparks S) = sum_list (map (\<lambda>s. length (ss_sparks s)) (st_sources S) @ map (\<lambda>d. length (ds_sparks d)) (st_depots S)
     @ [length (filter (\<lambda>c. cs_cargo c \<noteq> None) (st_cells S))] @ [length (st_delivered S)])"
  by (simp add: present_sparks_def cargo_count length_concat o_def del: not_None_eq)

lemma saturating_count:
  "k + length xs < 2 ^ 32 \<Longrightarrow> foldl (\<lambda>count _. saturating_inc count) (word_of_nat k) xs = word_of_nat (k + length xs)"
proof (induction xs arbitrary: k)
  case (Cons x xs)
  have "(word_of_nat k :: u32) \<noteq> - 1" using Cons.prems by (auto simp: word_unat_eq_iff unat_of_nat unsigned_minus_1_eq_mask mask_eq_exp_minus_1)
  then show ?case using Cons.IH [of "Suc k"] Cons.prems by (simp add: saturating_inc_def add.commute)
qed simp

lemma initial_sparks_count:
  assumes "length (world_sparks W) < 2 ^ 32"
  shows "world_initial_sparks W = word_of_nat (length (world_sparks W))"
proof -
  have "foldl (\<lambda>count src. foldl (\<lambda>count _. saturating_inc count) count (so_sparks src)) (word_of_nat k) srcs
      = word_of_nat (k + length (concat (map so_sparks srcs)))" if "k + length (concat (map so_sparks srcs)) < 2 ^ 32" for k srcs
    using that
  proof (induction srcs arbitrary: k)
    case (Cons x xs)
    then show ?case using saturating_count [of k "so_sparks x"] Cons.IH [of "k + length (so_sparks x)"] by (simp add: add.assoc)
  qed simp
  from this [of 0 "wd_sources W"] show ?thesis using assms by (simp add: world_initial_sparks_def world_sparks_def)
qed

text \<open>The conservation test of the outcome always succeeds.\<close>

lemma machine_outcome_ok:
  assumes W: "world_ok W" and ok: "spent W c mc"
  obtains out where "machine_outcome W mc = Inr out" "oc_conserved out"
    "oc_passed out \<longleftrightarrow> mc_status mc = Complete \<and> oc_all_beacons_positive out \<and> oc_quotas_met out"
    "oc_all_beacons_positive out \<longleftrightarrow> (\<forall>b\<in>set (st_beacons (vx_state mc)). bs_charge b > 0 \<and> \<not> bs_exhausted b)"
    "oc_quotas_met out \<longleftrightarrow> list_all2 (\<lambda>goal b. bc_required_deliveries goal \<le> bs_delivered b) (wd_beacons W) (st_beacons (vx_state mc))"
proof -
  let ?n = "length (world_sparks W)"
  obtain t where m: "mach_ok W c t (mc\<lparr>mc_status := Complete\<rparr>)" using ok by (auto simp: spent_def)
  have k: "ctx_ok W (ca_fuel c) None mc" using mach_ctx [OF m] by (simp add: ctx_ok_def)
  have n: "?n \<le> 128" using W by (simp add: world_ok_def)
  have "size (present_sparks (vx_state mc)) = ?n" using state_okD(3) [OF ctx_ok_state [OF k]] by (simp add: stores_ok_def)
  note sum = this [unfolded present_size]
  have i: "(word_of_nat ?n :: u64) = ucast (mc_initial_sparks mc)"
    using m n by (simp add: mach_ok_def word_unat_eq_iff unat_of_nat unsigned_ucast_eq take_bit_eq_mod)
  have len: "length (wd_beacons W) = length (st_beacons (vx_state mc))" using ctx_lengths(3) [OF k] by simp
  have "machine_outcome W mc = Inr \<lparr>oc_all_beacons_positive = list_all (\<lambda>b. bs_charge b > 0 \<and> \<not> bs_exhausted b) (st_beacons (vx_state mc)),
      oc_quotas_met = list_all (\<lambda>(goal, result). bs_delivered result \<ge> bc_required_deliveries goal) (zip (wd_beacons W) (st_beacons (vx_state mc))),
      oc_conserved = True, oc_passed = (mc_status mc = Complete \<and> list_all (\<lambda>b. bs_charge b > 0 \<and> \<not> bs_exhausted b) (st_beacons (vx_state mc))
        \<and> list_all (\<lambda>(goal, result). bs_delivered result \<ge> bc_required_deliveries goal) (zip (wd_beacons W) (st_beacons (vx_state mc))))\<rparr>"
    unfolding machine_outcome_def Let_def
    using count_sum [of 0, OF _] sum n i by (simp del: sum_list_append map_append list.map)
  then show ?thesis by (rule that) (use len in \<open>auto simp: list_all_iff list_all2_iff\<close>)
qed

section \<open>The run\<close>

definition result_ok :: "world \<Rightarrow> case_spec \<Rightarrow> run_result \<Rightarrow> bool" where
  "result_ok W c r \<longleftrightarrow> state_ok W (unat (wl_messages (rr_ledger r))) (rr_final_state r)
     \<and> ledger_sum (rr_ledger r) \<le> unat (ca_fuel c) \<and> (rr_status r = FuelExhausted \<longrightarrow> ledger_sum (rr_ledger r) = unat (ca_fuel c))
     \<and> rr_ticks_completed r \<le> ca_ticks c \<and> (rr_status r \<noteq> FuelExhausted \<longrightarrow> rr_ticks_completed r = ca_ticks c)
     \<and> unat (rr_initial_sparks r) = length (world_sparks W) \<and> oc_conserved (rr_outcome r)
     \<and> (oc_all_beacons_positive (rr_outcome r) \<longleftrightarrow> (\<forall>b\<in>set (st_beacons (rr_final_state r)). bs_charge b > 0 \<and> \<not> bs_exhausted b))
     \<and> (oc_quotas_met (rr_outcome r) \<longleftrightarrow>
          list_all2 (\<lambda>goal b. bc_required_deliveries goal \<le> bs_delivered b) (wd_beacons W) (st_beacons (rr_final_state r)))
     \<and> (oc_passed (rr_outcome r) \<longleftrightarrow>
          rr_status r = Complete \<and> oc_all_beacons_positive (rr_outcome r) \<and> oc_quotas_met (rr_outcome r))"

lemma finish_run_ok:
  assumes W: "world_ok W" and ok: "spent W c mc" and compl: "unat completed \<le> unat (ca_ticks c)"
    "mc_status mc \<noteq> FuelExhausted \<longrightarrow> unat completed = unat (ca_ticks c)"
  shows "\<exists>r. finish_run W c mc frames completed = Inr (frames, r) \<and> result_ok W c r"
proof -
  obtain out where out: "machine_outcome W mc = Inr out" "oc_conserved out"
    "oc_passed out \<longleftrightarrow> mc_status mc = Complete \<and> oc_all_beacons_positive out \<and> oc_quotas_met out"
    "oc_all_beacons_positive out \<longleftrightarrow> (\<forall>b\<in>set (st_beacons (vx_state mc)). bs_charge b > 0 \<and> \<not> bs_exhausted b)"
    "oc_quotas_met out \<longleftrightarrow> list_all2 (\<lambda>goal b. bc_required_deliveries goal \<le> bs_delivered b) (wd_beacons W) (st_beacons (vx_state mc))"
    by (rule machine_outcome_ok [OF W ok])
  obtain t where m: "mach_ok W c t (mc\<lparr>mc_status := Complete\<rparr>)" using ok by (auto simp: spent_def)
  then have k: "ctx_ok W (ca_fuel c) None mc" "unat (mc_initial_sparks mc) = length (world_sparks W)"
    using W by (simp_all add: mach_ok_def ctx_ok_def world_ok_def unat_of_nat)
  have "state_ok W (unat (wl_messages (me_ledger (vx_meter mc)))) (vx_state mc)"
    using ctx_ok_state [OF k(1)] by (simp add: msgs_def ledger_counter_def)
  moreover have "ledger_sum (me_ledger (vx_meter mc)) \<le> unat (ca_fuel c)" using k(1) by (auto simp: ctx_ok_def meter_ok_def)
  ultimately show ?thesis
    using out k(2) ok compl
    by (auto simp: finish_run_def result_ok_def spent_def word_le_nat_alt word_unat_eq_iff)
qed

lemma tick_range_sorted:
  assumes "unat n \<le> 128"
  shows "sorted_wrt (<) (0 # tick_range n)" "\<forall>x\<in>set (tick_range n). unat x \<le> 128" "length (tick_range n) = unat n"
proof -
  have u: "unat (word_of_nat k :: u32) = k" if "k \<le> 128" for k using that by (simp add: unat_of_nat)
  have "sorted_wrt (\<lambda>x y. (word_of_nat x :: u32) < word_of_nat y) [1..<Suc (unat n)]"
    using assms u by (intro sorted_wrt_mono_rel [OF _ sorted_wrt_upt]) (auto simp: word_less_nat_alt)
  moreover have "(0 :: u32) < word_of_nat k" if "1 \<le> k" "k \<le> 128" for k using that u [of k] by (simp add: word_less_nat_alt)
  ultimately show "sorted_wrt (<) (0 # tick_range n)" using assms by (auto simp: tick_range_def sorted_wrt_map)
  show "\<forall>x\<in>set (tick_range n). unat x \<le> 128" using u assms by (auto simp: tick_range_def)
qed (simp add: tick_range_def)

lemma machine_new_ok:
  assumes W: "world_ok W" and a: "assignment_ok W a" and c: "case_ok W c"
  obtains mc where "machine_new W a c = Inr mc" "mach_ok W c 0 mc"
proof -
  have "\<not> list_ex (\<lambda>(i, cell). i \<noteq> cb_id cell) (zip (map cb_id cells) cells)" for cells
    by (induction cells) simp_all
  moreover have n: "length (wd_cells W) \<le> 16" "length (wd_beacons W) \<le> 8" "length (world_sparks W) \<le> 128"
    using W by (simp_all add: world_ok_def)
  moreover have st: "state_ok W 0 (state_initial W)" by (rule state_initial_ok [OF W])
  moreover have "copy_from (state_allocated W) (state_initial W) = state_initial W"
    by (rule copy_from_eq [OF state_allocated_shape state_ok_shape [OF st]])
  ultimately have "machine_new W a c = Inr \<lparr>vx_meter = meter_new (ca_fuel c), vx_signals = [], vx_state = state_initial W,
      mc_scratch = state_initial W, mc_activations = [], mc_events = [], mc_order = [],
      mc_initial_sparks = word_of_nat (length (world_sparks W)), mc_cell_count = word_of_nat (length (wd_cells W)),
      mc_beacon_count = word_of_nat (length (wd_beacons W)), mc_status = Complete\<rparr>"
    using a initial_sparks_count [of W] by (simp add: machine_new_def assignment_ok_def Witness_VM.count_def)
  moreover have "msgs (meter_new (ca_fuel c)) = 0" by (simp add: msgs_def meter_new_def ledger_counter_def)
  moreover have "meter_ok (meter_new (ca_fuel c))" using c by (intro meter_ok_new) (simp add: case_ok_def)
  moreover have "st_tick (state_initial W) = 0" by (simp add: state_initial_def state_allocated_def)
  ultimately show ?thesis
    using st state_ok_shape [OF st] by (intro that) (auto simp: mach_ok_def ctx_ok_def meter_new_def)
qed

lemma initial_checking_ok:
  assumes W: "world_ok W" and c: "case_ok W c" and ok: "mach_ok W c t mc"
  shows "\<exists>n. initial_checking W c mc = Inr n"
proof -
  let ?lens = "[length (wd_walls W), length (wd_cells W), length (wd_sources W), length (wd_depots W), length (wd_beacons W),
        length (wd_valves W), length (wd_links W), length (ca_events c)]"
  have n: "sum_list ?lens \<le> 1000" using W c by (simp add: world_ok_def case_ok_def)
  have "unat (ucast (mc_initial_sparks mc) :: u64) \<le> 128"
    using ok W by (simp add: mach_ok_def world_ok_def unat_of_nat unsigned_ucast_eq take_bit_eq_mod)
  moreover have "unat (word_of_nat (sum_list ?lens) :: u64) \<le> 1000" using n by (simp only: unat_of_nat) simp
  moreover have "foldR (\<lambda>sum len. bindR (Witness_VM.count len) (\<lambda>n. ok_or RArithmetic (checked_add sum n))) 0 ?lens
      = Inr (0 + word_of_nat (sum_list ?lens))"
    using n by (intro count_sum) simp
  ultimately show ?thesis
    unfolding initial_checking_def by (simp only: bindR_simps checked_add_def) simp
qed

theorem run_returns:
  assumes W: "world_ok W" and a: "assignment_ok W a" and c: "case_ok W c"
  shows "\<exists>frames r. vm_run W a c = Inr (frames, r) \<and> (\<forall>f\<in>set frames. frame_ok W c f) \<and> result_ok W c r"
proof -
  obtain mc where mc: "machine_new W a c = Inr mc" "mach_ok W c 0 mc" by (rule machine_new_ok [OF W a c])
  obtain n where n: "initial_checking W c mc = Inr n" using initial_checking_ok [OF W c mc(2)] by blast
  have "mkeeps W c 0 (load c n)" unfolding load_def by (intro mkeeps_bind mkeeps_charge)
  then have w: "wp (load c n) (\<lambda>_. mach_ok W c 0) (mfault W c 0) mc" using mc(2) by (simp add: mkeeps_def)
  obtain r mc' where r: "load c n mc = (r, mc')" by (rule prod.exhaust)
  note ticks = tick_range_sorted [of "ca_ticks c"]
  have bound: "unat (ca_ticks c) \<le> 128" using c by (simp add: case_ok_def)
  show ?thesis
  proof (cases r)
    case (Inl f)
    then have m: "mfault W c 0 f mc'" using w r by (simp add: wp_def)
    then have "f = FStop StopFuel" "frame_ok W c (frame_of 0 False mc')" by (auto simp: mfault_def intro: frame_of_ok)
    then show ?thesis
      using finish_run_ok [OF W spent_fuel [OF m], of 0 "[frame_of 0 False mc']"] mc(1) n r Inl
      by (auto simp: vm_run_def machine_run_def)
  next
    case (Inr u)
    then have m: "mach_ok W c 0 mc'" using w r by (simp add: wp_def)
    from run_ticks_ok [OF W a c mach_ok_status [OF m] ticks(1,2) [OF bound], of "[frame_of 0 True mc']" 0]
    obtain mc'' frames completed where t: "run_ticks W a c (tick_range (ca_ticks c)) (mc'\<lparr>mc_status := Complete\<rparr>) [frame_of 0 True mc'] 0
        = Inr (mc'', frames, completed)" "spent W c mc''" "\<forall>f\<in>set frames. frame_ok W c f" "unat completed \<le> unat (ca_ticks c)"
        "mc_status mc'' \<noteq> FuelExhausted \<longrightarrow> unat completed = unat (ca_ticks c)"
      using frame_of_ok [OF m, of 0 True] ticks(3) [OF bound] bound by auto
    then show ?thesis
      using finish_run_ok [OF W t(2,4,5), of frames] mc(1) n r Inr by (auto simp: vm_run_def machine_run_def)
  qed
qed

end
