(* ===== verification/Witness_Platform.thy ===== *)
theory Witness_Platform
  imports Witness_Wire Witness_Run
begin

text \<open>
  The platform around the witness machine: domain-separated digests (\<open>hash.rs\<close>), the validated task
  manifest and the binding of candidate programs (\<open>manifest.rs\<close>), and the capability, the run of
  every case, and the receipt (\<open>platform.rs\<close>). The move-only capability is an argument that the run
  does not return.
\<close>

section \<open>Digests\<close>

definition ASSIGNMENT_DOMAIN :: bytes where "ASSIGNMENT_DOMAIN = ascii ''vhalla/witness/assignment/v1''"
definition MANIFEST_DOMAIN :: bytes where "MANIFEST_DOMAIN = ascii ''vhalla/witness/manifest/v1''"
definition STATE_DOMAIN :: bytes where "STATE_DOMAIN = ascii ''vhalla/witness/state/v1''"
definition OUTPUT_DOMAIN :: bytes where "OUTPUT_DOMAIN = ascii ''vhalla/witness/output/v1''"
definition RECEIPT_DOMAIN :: bytes where "RECEIPT_DOMAIN = ascii ''vhalla/witness/receipt/v1''"

definition digest_input :: "bytes \<Rightarrow> bytes \<Rightarrow> bytes" where
  "digest_input domain bs = domain @ to_be (if length bs < 2 ^ 32 then word_of_nat (length bs) else (- 1 :: u32)) @ bs"

definition witness_digest :: "crypto \<Rightarrow> bytes \<Rightarrow> bytes \<Rightarrow> array32" where
  "witness_digest C domain bs = sha256 C (digest_input domain bs)"

section \<open>Manifests\<close>

datatype manifest_error = MEWorld world_error | MESlots | MECases | MEContract | METooLarge | MELoadingWork | MECandidate

record valid_manifest =
  va_manifest :: task_manifest
  va_world :: world
  va_cases :: "case_spec list"
  va_hash :: array32
  va_encoded_len :: nat

definition manifest_validate :: "crypto \<Rightarrow> task_manifest \<Rightarrow> manifest_error + valid_manifest" where
  "manifest_validate C m =
     bindR (map_err MEWorld (world_new (tm_world m))) (\<lambda>world.
     if tm_cases m = [] \<or> length (tm_cases m) > MAX_CASES then Inl MECases
     else
     bindR (mapR (\<lambda>spec. map_err MEWorld (case_new world spec)) (tm_cases m)) (\<lambda>cases.
     let expected = sort (map cb_id (wd_cells world));
         named = map ps_cell (tm_slots m) in
     if named \<noteq> expected \<or> length named > MAX_CELLS then Inl MESlots
     else
     bindR (foldR (\<lambda>fuel c. ok_or MEContract (checked_add fuel (ca_fuel c))) 0 cases) (\<lambda>fuel.
     let max_useful = word_of_nat (MAX_INITIAL_SPARKS * MAX_CASES) in
     if wc_total_ceiling (tm_contract m) > fuel \<or> wc_useful_floor (tm_contract m) > max_useful then Inl MEContract
     else
     let encoded = encode_manifest m in
     if length encoded > MAX_MANIFEST_BYTES then Inl METooLarge
     else
     let floor = word_of_nat (length encoded) in
     if list_ex (\<lambda>c. ca_loading_work c < floor) cases then Inl MELoadingWork
     else Inr \<lparr>va_manifest = m, va_world = world, va_cases = cases,
            va_hash = witness_digest C MANIFEST_DOMAIN encoded, va_encoded_len = length encoded\<rparr>)))"

definition open_slots :: "valid_manifest \<Rightarrow> u16 list" where
  "open_slots vm = map ps_cell (filter (\<lambda>s. ps_fixed s = None) (tm_slots (va_manifest vm)))"

text \<open>\<open>sum()\<close> over the fuels, which validation has already added up without overflow.\<close>

definition fuel_total :: "valid_manifest \<Rightarrow> u64" where
  "fuel_total vm = sum_list (map ca_fuel (va_cases vm))"

fun merge_slots :: "program_slot list \<Rightarrow> (u16 \<times> program) list \<Rightarrow> manifest_error + (u16 \<times> program) list" where
  "merge_slots [] candidate = Inr []"
| "merge_slots (s # ss) candidate =
     (case ps_fixed s of
        Some p \<Rightarrow> bindR (merge_slots ss candidate) (\<lambda>rest. Inr ((ps_cell s, p) # rest))
      | None \<Rightarrow>
          (case candidate of
             [] \<Rightarrow> Inl MECandidate
           | (_, p) # candidate' \<Rightarrow> bindR (merge_slots ss candidate') (\<lambda>rest. Inr ((ps_cell s, p) # rest))))"

definition manifest_assign :: "valid_manifest \<Rightarrow> (u16 \<times> program) list \<Rightarrow> manifest_error + assignment" where
  "manifest_assign vm candidate =
     (if map fst candidate \<noteq> open_slots vm then Inl MECandidate
      else bindR (merge_slots (tm_slots (va_manifest vm)) candidate) (\<lambda>merged.
        map_err MEWorld (assignment_validate (va_world vm) merged)))"

section \<open>Runs\<close>

datatype run_role = Prove | Replay

record run_capability =
  rc_manifest :: array32
  rc_program :: array32
  rc_max_total :: u64
  rc_role :: run_role

datatype run_refused = RefusedManifest | RefusedProgram | RefusedAllowance | RefusedEngine run_error

record witness_run =
  wr_manifest :: array32
  wr_program :: array32
  wr_role :: run_role
  wr_cases :: "case_result list"
  wr_useful :: u64
  wr_total :: u64

definition delivered_total :: "vm_state \<Rightarrow> run_refused + u64" where
  "delivered_total S = foldR (\<lambda>sum b. ok_or (RefusedEngine RArithmetic) (checked_add sum (ucast (bs_delivered b)))) 0 (st_beacons S)"

type_synonym run_acc = "frame_view list \<times> case_result list \<times> u64 \<times> u64"

definition run_case :: "crypto \<Rightarrow> world \<Rightarrow> assignment \<Rightarrow> run_acc \<Rightarrow> case_spec \<Rightarrow> run_refused + run_acc" where
  "run_case C W a acc c =
     (case acc of (frames, results, useful, tot) \<Rightarrow>
     bindR (map_err RefusedEngine (vm_run W a c)) (\<lambda>(shown, result).
     bindR (delivered_total (rr_final_state result)) (\<lambda>delivered.
     bindR (ok_or (RefusedEngine RArithmetic) (checked_add useful delivered)) (\<lambda>useful.
     bindR (map_err (\<lambda>_. RefusedEngine RArithmetic) (ledger_total (rr_ledger result))) (\<lambda>work.
     bindR (ok_or (RefusedEngine RArithmetic) (checked_add tot work)) (\<lambda>tot.
       Inr (frames @ shown,
         results @ [\<lparr>cr_status = rr_status result, cr_ticks_completed = rr_ticks_completed result, cr_outcome = rr_outcome result,
           cr_final_state = witness_digest C STATE_DOMAIN (encode_state (rr_final_state result)),
           cr_ledger = rr_ledger result, cr_useful = delivered\<rparr>],
         useful, tot)))))))"

definition run_observed ::
    "crypto \<Rightarrow> valid_manifest \<Rightarrow> assignment \<Rightarrow> run_capability \<Rightarrow> run_refused + frame_view list \<times> witness_run" where
  "run_observed C vm a cap =
     (if rc_manifest cap \<noteq> va_hash vm then Inl RefusedManifest
      else
      let program = witness_digest C ASSIGNMENT_DOMAIN (encode_assignment a) in
      if rc_program cap \<noteq> program then Inl RefusedProgram
      else if fuel_total vm > rc_max_total cap then Inl RefusedAllowance
      else bindR (foldR (run_case C (va_world vm) a) ([], [], 0, 0) (va_cases vm)) (\<lambda>(frames, results, useful, tot).
        Inr (frames, \<lparr>wr_manifest = rc_manifest cap, wr_program = program, wr_role = rc_role cap, wr_cases = results,
          wr_useful = useful, wr_total = tot\<rparr>)))"

definition platform_run :: "crypto \<Rightarrow> valid_manifest \<Rightarrow> assignment \<Rightarrow> run_capability \<Rightarrow> run_refused + witness_run" where
  "platform_run C vm a cap = bindR (run_observed C vm a cap) (\<lambda>(_, w). Inr w)"

definition run_passed :: "witness_run \<Rightarrow> bool" where
  "run_passed w = list_all (\<lambda>c. oc_passed (cr_outcome c)) (wr_cases w)"

definition run_output :: "witness_run \<Rightarrow> bytes" where
  "run_output w = encode_output (wr_cases w)"

definition run_output_hash :: "crypto \<Rightarrow> witness_run \<Rightarrow> array32" where
  "run_output_hash C w = witness_digest C OUTPUT_DOMAIN (run_output w)"

section \<open>Receipts\<close>

record receipt_binding =
  rb_challenge_id :: array32
  rb_subject_key :: array32

record witness_receipt =
  wc_challenge_id :: array32
  wc_subject_key :: array32
  wc_manifest :: array32
  wc_program :: array32
  wc_output :: array32
  wc_useful :: u64
  wc_total :: u64
  wc_passed :: bool
  wc_case_count :: u8

definition into_receipt :: "crypto \<Rightarrow> witness_run \<Rightarrow> receipt_binding \<Rightarrow> witness_receipt" where
  "into_receipt C w binding =
     \<lparr>wc_challenge_id = rb_challenge_id binding, wc_subject_key = rb_subject_key binding, wc_manifest = wr_manifest w,
      wc_program = wr_program w, wc_output = run_output_hash C w, wc_useful = wr_useful w, wc_total = wr_total w,
      wc_passed = run_passed w, wc_case_count = word_of_nat (length (wr_cases w))\<rparr>"

definition RECEIPT_BYTES :: nat where "RECEIPT_BYTES = 2 + 32 + 32 + 32 + 32 + 32 + 8 + 8 + 1 + 1"

definition receipt_encode :: "witness_receipt \<Rightarrow> bytes" where
  "receipt_encode r = [WITNESS_VERSION, LANGUAGE_FINITE_RULE_V1] @ to_be (wc_challenge_id r) @ to_be (wc_subject_key r)
     @ to_be (wc_manifest r) @ to_be (wc_program r) @ to_be (wc_output r) @ to_be (wc_useful r) @ to_be (wc_total r)
     @ w_bool (wc_passed r) @ [wc_case_count r]"

definition receipt_hash :: "crypto \<Rightarrow> witness_receipt \<Rightarrow> array32" where
  "receipt_hash C r = witness_digest C RECEIPT_DOMAIN (receipt_encode r)"

record claimed_receipt =
  cl_challenge_id :: array32
  cl_subject_key :: array32
  cl_manifest :: array32
  cl_program :: array32
  cl_output :: array32
  cl_useful :: u64
  cl_total :: u64
  cl_passed :: bool
  cl_case_count :: u8

definition claimed_encode :: "claimed_receipt \<Rightarrow> bytes" where
  "claimed_encode c = receipt_encode
     \<lparr>wc_challenge_id = cl_challenge_id c, wc_subject_key = cl_subject_key c, wc_manifest = cl_manifest c,
      wc_program = cl_program c, wc_output = cl_output c, wc_useful = cl_useful c, wc_total = cl_total c,
      wc_passed = cl_passed c, wc_case_count = cl_case_count c\<rparr>"

definition get_claimed :: "claimed_receipt wire_reader" where
  "get_claimed =
     rbind wire_header (\<lambda>_. rbind rdr_hash (\<lambda>challenge. rbind rdr_hash (\<lambda>subject. rbind rdr_hash (\<lambda>manifest.
     rbind rdr_hash (\<lambda>program. rbind rdr_hash (\<lambda>output. rbind (rdr_u64 FldLedger) (\<lambda>useful. rbind (rdr_u64 FldLedger) (\<lambda>tot.
     rbind (rdr_bool FldBool) (\<lambda>passed. rbind (rdr_u8 FldCount) (\<lambda>n.
       rret \<lparr>cl_challenge_id = challenge, cl_subject_key = subject, cl_manifest = manifest, cl_program = program,
         cl_output = output, cl_useful = useful, cl_total = tot, cl_passed = passed, cl_case_count = n\<rparr>))))))))))"

definition claimed_decode :: "bytes \<Rightarrow> codec_error + claimed_receipt" where
  "claimed_decode = decode_within RECEIPT_BYTES get_claimed"

definition claimed_matches :: "claimed_receipt \<Rightarrow> witness_receipt \<Rightarrow> bool" where
  "claimed_matches c r \<longleftrightarrow> claimed_encode c = receipt_encode r"

end
