(* ===== verification/Witness_Safety.thy ===== *)
theory Witness_Safety
  imports Witness_Run
begin

text \<open>
  The properties of the witness machine, over the checked constructors of worlds, cases and
  assignments and the whole run. The example at the start is a world with every kind of entity.
\<close>

section \<open>Validated inputs\<close>

definition validated :: "world_spec \<Rightarrow> (u16 \<times> program) list \<Rightarrow> case_spec \<Rightarrow> world \<Rightarrow> assignment \<Rightarrow> bool" where
  "validated ws ps c W a \<longleftrightarrow> spec_typed ws \<and> list_all (\<lambda>(_, p). program_ok p) ps
     \<and> world_new ws = Inr W \<and> assignment_validate W ps = Inr a \<and> case_new W c = Inr c"

lemma validatedD:
  assumes "validated ws ps c W a"
  shows "world_ok W" "assignment_ok W a" "case_ok W c" "wd_spec W = ws"
  using assms world_new_ok [of ws W] assignment_validate_ok [of W ps a] case_new_ok [of W c c]
  by (auto simp: validated_def list_all_iff)

text \<open>A validated run returns, and its final state and every state it shows satisfy the invariant.\<close>

lemma validated_run:
  assumes "validated ws ps c W a"
  obtains frames r where "vm_run W a c = Inr (frames, r)" "result_ok W c r" "\<forall>f\<in>set frames. frame_ok W c f"
    "\<And>S. S \<in> insert (rr_final_state r) (fv_state ` set frames) \<Longrightarrow> \<exists>n. state_ok W n S"
proof -
  obtain frames r where run: "vm_run W a c = Inr (frames, r)" "\<forall>f\<in>set frames. frame_ok W c f" "result_ok W c r"
    using run_returns [OF validatedD(1-3) [OF assms]] by blast
  have "\<exists>n. state_ok W n (rr_final_state r)" using run(3) unfolding result_ok_def by blast
  moreover have "\<exists>n. state_ok W n (fv_state f)" if "f \<in> set frames" for f using run(2) that unfolding frame_ok_def by blast
  ultimately show ?thesis using that [OF run(1,3,2)] by blast
qed

definition pt :: "u8 \<Rightarrow> u8 \<Rightarrow> point" where
  "pt x y = \<lparr>pt_x = x, pt_y = y\<rparr>"

definition demo_spec :: world_spec where
  "demo_spec =
     \<lparr>ws_width = 4, ws_height = 4, ws_walls = [pt 3 0],
      ws_sources = [\<lparr>so_id = 1, so_position = pt 1 0, so_sparks = [\<lparr>sp_id = 7, sp_bit = True\<rparr>]\<rparr>],
      ws_depots = [\<lparr>dp_id = 1, dp_position = pt 1 1, dp_capacity = 2\<rparr>],
      ws_beacons = [\<lparr>bc_id = 1, bc_position = pt 0 2, bc_accepts = False, bc_initial_charge = 9, bc_drain_every = 1,
          bc_drain_amount = 2, bc_spark_charge = 5, bc_required_deliveries = 0\<rparr>,
        \<lparr>bc_id = 2, bc_position = pt 2 2, bc_accepts = True, bc_initial_charge = 9, bc_drain_every = 1,
          bc_drain_amount = 2, bc_spark_charge = 5, bc_required_deliveries = 1\<rparr>],
      ws_valves = [\<lparr>va_id = 1, va_position = pt 1 2, va_depot = 1, va_beacon_zero = 1, va_beacon_one = 2, va_enabled = True\<rparr>],
      ws_cells = [\<lparr>cb_id = 1, cb_position = pt 1 0, cb_heading = South, cb_mobile = True, cb_memory = [0, 0, 0, 0]\<rparr>],
      ws_links = [\<lparr>lk_id = 1, lk_from = EndDepot 1, lk_to_cell = 1, lk_to_port = 0, lk_delay = 1, lk_enabled = True\<rparr>]\<rparr>"

definition demo_world :: world where
  "demo_world = \<lparr>wd_spec = demo_spec, wd_wall_rows = (replicate 32 0)[0 := 8]\<rparr>"

definition demo_program :: program where
  "demo_program = \<lparr>pg_rules =
     [\<lparr>ru_when = [Carrying False, AtSource True], ru_action = Pickup, ru_remember = None\<rparr>,
      \<lparr>ru_when = [Carrying True, AtDepot False], ru_action = Move Forward, ru_remember = None\<rparr>,
      \<lparr>ru_when = [Carrying True, AtDepot True], ru_action = Drop, ru_remember = Some \<lparr>mw_slot = 3, mw_value = 1\<rparr>\<rparr>,
      \<lparr>ru_when = [], ru_action = Route 1 (BitConstant True), ru_remember = None\<rparr>]\<rparr>"

definition demo_case :: case_spec where
  "demo_case = \<lparr>ca_seed = 5, ca_ticks = 4, ca_fuel = 1000, ca_activation_fuel = 100, ca_events = [], ca_loading_work = 0\<rparr>"

definition demo_assignment :: assignment where
  "demo_assignment = \<lparr>as_programs = [demo_program], as_cells = [1]\<rparr>"

lemmas demo_defs = demo_spec_def demo_world_def demo_program_def demo_case_def demo_assignment_def pt_def

lemma demo_typed: "spec_typed demo_spec \<and> list_all (\<lambda>(_, p). program_ok p) [(1, demo_program)]"
  by (simp add: demo_defs spec_typed_def program_ok_def rule_ok_def)

lemma demo_world_new: "world_new demo_spec = Inr demo_world"
  by code_simp

lemma demo_validates: "assignment_validate demo_world [(1, demo_program)] = Inr demo_assignment \<and> case_new demo_world demo_case = Inr demo_case"
  by code_simp

lemma demo_validated: "validated demo_spec [(1, demo_program)] demo_case demo_world demo_assignment"
  using demo_typed demo_world_new demo_validates by (simp add: validated_def)

section \<open>Totals over the checked sum\<close>

lemma ledger_total_le:
  assumes "ledger_sum l \<le> unat fuel"
  shows "\<exists>t\<le>fuel. ledger_total l = Inr t" "ledger_sum l = unat fuel \<Longrightarrow> ledger_total l = Inr fuel"
proof -
  have "ledger_sum l < 2 ^ 64" using assms unsigned_less [where 'a = nat, of fuel] by simp
  then obtain t where t: "ledger_total l = Inr t" "unat t = ledger_sum l" by (rule ledger_total_ok)
  then show "\<exists>t\<le>fuel. ledger_total l = Inr t" using assms by (auto simp: word_le_nat_alt)
  show "ledger_sum l = unat fuel \<Longrightarrow> ledger_total l = Inr fuel" using t by (simp add: word_unat_eq_iff)
qed

lemma deposited_sparks:
  assumes "stores_ok W S" and "x \<in> deposited S"
  shows "x \<in> set (world_sparks W)"
proof -
  have "x \<in># present_sparks S" using assms(2) by (auto simp: deposited_def present_sparks_def)
  then show ?thesis using assms(1) by (simp add: stores_ok_def)
qed

section \<open>What a frame satisfies\<close>

definition well_formed :: "world_spec \<Rightarrow> vm_state \<Rightarrow> bool" where
  "well_formed ws S \<longleftrightarrow>
     list_all2 (\<lambda>b e. cs_id e = cb_id b \<and> length (cs_memory e) = 4 \<and> length (cs_evidence e) = 4 \<and> length (cs_inbox e) = 4
       \<and> on_grid ws (cs_position e) \<and> cs_position e \<notin> set (ws_walls ws)
       \<and> (cb_mobile b \<or> cs_position e = cb_position b)) (ws_cells ws) (st_cells S)
     \<and> distinct (map cs_position (st_cells S)) \<and> length (st_pending S) \<le> 128
     \<and> map ss_id (st_sources S) = map so_id (ws_sources ws)
     \<and> list_all2 (\<lambda>d e. ds_id e = dp_id d \<and> length (ds_sparks e) \<le> unat (dp_capacity d)) (ws_depots ws) (st_depots S)
     \<and> list_all2 (\<lambda>b e. bs_id e = bc_id b) (ws_beacons ws) (st_beacons S)
     \<and> map es_id (st_valves S) = map va_id (ws_valves ws) \<and> map es_id (st_links S) = map lk_id (ws_links ws)"

definition balanced :: "world_spec \<Rightarrow> vm_state \<Rightarrow> bool" where
  "balanced ws S \<longleftrightarrow> present_sparks S = mset (concat (map so_sparks (ws_sources ws)))
     \<and> list_all2 (\<lambda>b e. unat (bs_charge e) + unat (bs_drained e)
           = unat (bc_initial_charge b) + unat (bs_delivered e) * unat (bc_spark_charge b)
         \<and> unat (bs_delivered e) = length (filter (\<lambda>d. dl_beacon d = bc_id b) (st_delivered S)))
       (ws_beacons ws) (st_beacons S)"

text \<open>A signal of the queue or of an inbox, or a memory slot, that carries a receipt for a bit.\<close>

definition carries :: "vm_state \<Rightarrow> u32 \<Rightarrow> bool \<Rightarrow> bool" where
  "carries S spark b \<longleftrightarrow>
     (\<exists>sg\<in>set (st_pending S). sg_receipt_spark sg = Some spark \<and> sg_bit sg = b)
     \<or> (\<exists>e\<in>set (st_cells S). \<exists>sg. Some sg \<in> set (cs_inbox e) \<and> sg_receipt_spark sg = Some spark \<and> sg_bit sg = b)
     \<or> (\<exists>e\<in>set (st_cells S). \<exists>k<4. cs_evidence e ! k = Some spark \<and> (cs_memory e ! k \<noteq> 0) = b)"

lemma state_well_formed:
  assumes "state_ok W n S" and "wd_spec W = ws"
  shows "well_formed ws S"
proof -
  note k = state_okD [OF assms(1)]
  have "list_all2 (\<lambda>b e. cs_id e = cb_id b \<and> length (cs_memory e) = 4 \<and> length (cs_evidence e) = 4 \<and> length (cs_inbox e) = 4
       \<and> on_grid ws (cs_position e) \<and> cs_position e \<notin> set (ws_walls ws)
       \<and> (cb_mobile b \<or> cs_position e = cb_position b)) (ws_cells ws) (st_cells S)"
    by (rule list_all2_mono [of "cell_ok W (deposited S) (unat (st_tick S))"])
       (use k(1) assms(2) in \<open>simp_all add: cells_ok_def cell_ok_def\<close>)
  moreover have "list_all2 (\<lambda>b e. bs_id e = bc_id b) (ws_beacons ws) (st_beacons S)"
    by (rule list_all2_mono [of "beacon_state_ok (st_delivered S)"]) (use k(4) assms(2) in \<open>simp_all add: energy_ok_def beacon_state_ok_def\<close>)
  ultimately show ?thesis
    using k(1,2,3,5) assms(2) by (simp add: well_formed_def cells_ok_def queue_ok_def stores_ok_def switches_ok_def)
qed

lemma state_balanced:
  assumes "state_ok W n S" and "wd_spec W = ws"
  shows "balanced ws S"
proof -
  note k = state_okD(3,4) [OF assms(1)]
  have "list_all2 (\<lambda>b e. unat (bs_charge e) + unat (bs_drained e)
           = unat (bc_initial_charge b) + unat (bs_delivered e) * unat (bc_spark_charge b)
         \<and> unat (bs_delivered e) = length (filter (\<lambda>d. dl_beacon d = bc_id b) (st_delivered S)))
       (ws_beacons ws) (st_beacons S)"
    by (rule list_all2_mono [of "beacon_state_ok (st_delivered S)"]) (use k(2) assms(2) in \<open>simp_all add: energy_ok_def beacon_state_ok_def\<close>)
  then show ?thesis using k(1) assms(2) by (simp add: balanced_def stores_ok_def world_sparks_def)
qed

lemma state_carries:
  assumes "state_ok W n S" and "carries S spark b"
  shows "\<lparr>sp_id = spark, sp_bit = b\<rparr> \<in> deposited S"
proof -
  note k = state_okD(1,2) [OF assms(1)]
  have cell: "\<exists>b. cell_ok W (deposited S) (unat (st_tick S)) b e" if "e \<in> set (st_cells S)" for e
    using that cells_nth [OF k(1)] by (metis in_set_conv_nth)
  have queue: "backed (deposited S) (sg_bit sg) (sg_receipt_spark sg)" if "sg \<in> set (st_pending S)" for sg
    using that k(2) by (simp add: queue_ok_def signal_ok_def)
  have inbox: "backed (deposited S) (sg_bit sg) (sg_receipt_spark sg)" if "e \<in> set (st_cells S)" "Some sg \<in> set (cs_inbox e)" for e sg
    using cell [OF that(1)] that(2) by (auto simp: cell_ok_def signal_ok_def)
  have slot: "backed (deposited S) (cs_memory e ! i \<noteq> 0) (cs_evidence e ! i)" if "e \<in> set (st_cells S)" "i < 4" for e i
    using cell [OF that(1)] that(2) by (auto simp: cell_ok_def)
  have "backed (deposited S) b (Some spark)"
    using assms(2) unfolding carries_def by (elim disjE bexE exE conjE) (use queue inbox slot in fastforce)+
  then show ?thesis by (simp add: backed_def)
qed

section \<open>Properties\<close>

text \<open>
  C21. A run on a validated world, assignment and case always returns. It never ends in a run error
  or an index out of range, whatever the programs do; it stops short only when the work done equals
  the fuel of the case, and it passes exactly when it was complete, every beacon kept a positive
  charge and every quota was met.
\<close>

theorem witness_run_returns:
  assumes "validated ws ps c W a"
  shows "\<exists>frames r. vm_run W a c = Inr (frames, r)
    \<and> (rr_status r = FuelExhausted \<longrightarrow> ledger_total (rr_ledger r) = Inr (ca_fuel c))
    \<and> (rr_status r \<noteq> FuelExhausted \<longrightarrow> rr_ticks_completed r = ca_ticks c)
    \<and> (oc_passed (rr_outcome r) \<longleftrightarrow> rr_status r = Complete
        \<and> (\<forall>b\<in>set (st_beacons (rr_final_state r)). bs_charge b > 0 \<and> \<not> bs_exhausted b)
        \<and> list_all2 (\<lambda>goal b. bc_required_deliveries goal \<le> bs_delivered b) (ws_beacons ws) (st_beacons (rr_final_state r)))"
proof -
  obtain frames r where run: "vm_run W a c = Inr (frames, r)" and ok: "result_ok W c r" and fr: "\<forall>f\<in>set frames. frame_ok W c f"
    and states: "\<And>S. S \<in> insert (rr_final_state r) (fv_state ` set frames) \<Longrightarrow> \<exists>n. state_ok W n S"
    by (rule validated_run [OF assms]) blast
  then show ?thesis
    using ledger_total_le(2) [of "rr_ledger r" "ca_fuel c"] validatedD(4) [OF assms] by (auto simp: result_ok_def)
qed

theorem witness_run_returns_witness:
  "validated demo_spec [(1, demo_program)] demo_case demo_world demo_assignment
   \<and> (\<exists>frames r. vm_run demo_world demo_assignment demo_case = Inr (frames, r)
      \<and> (rr_status r \<noteq> FuelExhausted \<longrightarrow> rr_ticks_completed r = 4))"
  using demo_validated witness_run_returns [OF demo_validated] by (auto simp: demo_case_def)

text \<open>
  C22. Nothing is lost or made up during a run. In every frame the sparks in sources, depots,
  cargo and deliveries are together exactly the sparks of the world; every beacon's charge and drain
  balance its initial charge and its deliveries; and the outcome's own conservation test holds.
\<close>

theorem witness_run_conserves:
  assumes "validated ws ps c W a"
  shows "\<exists>frames r. vm_run W a c = Inr (frames, r) \<and> oc_conserved (rr_outcome r)
    \<and> (\<forall>S\<in>insert (rr_final_state r) (fv_state ` set frames). balanced ws S)"
proof -
  obtain frames r where run: "vm_run W a c = Inr (frames, r)" and ok: "result_ok W c r" and fr: "\<forall>f\<in>set frames. frame_ok W c f"
    and states: "\<And>S. S \<in> insert (rr_final_state r) (fv_state ` set frames) \<Longrightarrow> \<exists>n. state_ok W n S"
    by (rule validated_run [OF assms]) blast
  have "\<forall>S\<in>insert (rr_final_state r) (fv_state ` set frames). balanced ws S"
    using states state_balanced [OF _ validatedD(4) [OF assms]] by blast
  then show ?thesis using run ok unfolding result_ok_def by blast
qed

theorem witness_run_conserves_witness:
  "validated demo_spec [(1, demo_program)] demo_case demo_world demo_assignment
   \<and> (\<exists>frames r. vm_run demo_world demo_assignment demo_case = Inr (frames, r) \<and> oc_conserved (rr_outcome r)
      \<and> present_sparks (rr_final_state r) = {#\<lparr>sp_id = 7, sp_bit = True\<rparr>#})"
  using demo_validated witness_run_conserves [OF demo_validated] by (auto simp: balanced_def demo_spec_def)

text \<open>
  C23. Every frame of a run is well formed. Cells, stations, valves and links are those of the
  world in its order; memory, evidence and inbox have four places; cells stand on distinct squares
  of the grid that are no walls and an immobile cell never leaves its place; depots stay within their
  capacity and at most 128 signals are pending.
\<close>

theorem witness_frames_well_formed:
  assumes "validated ws ps c W a"
  shows "\<exists>frames r. vm_run W a c = Inr (frames, r)
    \<and> (\<forall>S\<in>insert (rr_final_state r) (fv_state ` set frames). well_formed ws S)"
proof -
  obtain frames r where run: "vm_run W a c = Inr (frames, r)" and ok: "result_ok W c r" and fr: "\<forall>f\<in>set frames. frame_ok W c f"
    and states: "\<And>S. S \<in> insert (rr_final_state r) (fv_state ` set frames) \<Longrightarrow> \<exists>n. state_ok W n S"
    by (rule validated_run [OF assms]) blast
  have "\<forall>S\<in>insert (rr_final_state r) (fv_state ` set frames). well_formed ws S"
    using states state_well_formed [OF _ validatedD(4) [OF assms]] by blast
  then show ?thesis using run by blast
qed

theorem witness_frames_well_formed_witness:
  "validated demo_spec [(1, demo_program)] demo_case demo_world demo_assignment
   \<and> (\<exists>frames r. vm_run demo_world demo_assignment demo_case = Inr (frames, r)
      \<and> map ss_id (st_sources (rr_final_state r)) = [1] \<and> length (st_pending (rr_final_state r)) \<le> 128)"
  using demo_validated witness_frames_well_formed [OF demo_validated] by (auto simp: well_formed_def demo_spec_def)

text \<open>
  C24. Evidence is never forged. Whenever a pending or delivered signal or a memory slot of a cell
  carries a receipt, the receipt names a spark of the world with exactly the recorded bit, and that
  spark has really been deposited: it lies in a depot or has been delivered to a beacon.
\<close>

theorem witness_evidence_authentic:
  assumes "validated ws ps c W a"
  shows "\<exists>frames r. vm_run W a c = Inr (frames, r)
    \<and> (\<forall>S\<in>insert (rr_final_state r) (fv_state ` set frames). \<forall>spark b. carries S spark b
        \<longrightarrow> \<lparr>sp_id = spark, sp_bit = b\<rparr> \<in> set (concat (map so_sparks (ws_sources ws)))
          \<and> \<lparr>sp_id = spark, sp_bit = b\<rparr> \<in> (\<Union>d\<in>set (st_depots S). set (ds_sparks d)) \<union> dl_spark ` set (st_delivered S))"
proof -
  obtain frames r where run: "vm_run W a c = Inr (frames, r)" and ok: "result_ok W c r" and fr: "\<forall>f\<in>set frames. frame_ok W c f"
    and states: "\<And>S. S \<in> insert (rr_final_state r) (fv_state ` set frames) \<Longrightarrow> \<exists>n. state_ok W n S"
    by (rule validated_run [OF assms]) blast
  have "\<lparr>sp_id = spark, sp_bit = b\<rparr> \<in> set (concat (map so_sparks (ws_sources ws))) \<and> \<lparr>sp_id = spark, sp_bit = b\<rparr> \<in> deposited S"
    if "S \<in> insert (rr_final_state r) (fv_state ` set frames)" "carries S spark b" for S spark b
    using states [OF that(1)] state_carries [OF _ that(2)] deposited_sparks [OF state_okD(3)] validatedD(4) [OF assms]
    unfolding world_sparks_def by metis
  then show ?thesis using run unfolding deposited_def by blast
qed

theorem witness_evidence_authentic_witness:
  "validated demo_spec [(1, demo_program)] demo_case demo_world demo_assignment
   \<and> (\<exists>frames r. vm_run demo_world demo_assignment demo_case = Inr (frames, r)
      \<and> (\<forall>spark b. carries (rr_final_state r) spark b \<longrightarrow> spark = 7 \<and> b))"
proof -
  obtain frames r where "vm_run demo_world demo_assignment demo_case = Inr (frames, r)"
    "\<And>spark b. carries (rr_final_state r) spark b \<Longrightarrow>
      \<lparr>sp_id = spark, sp_bit = b\<rparr> \<in> set (concat (map so_sparks (ws_sources demo_spec)))"
    using witness_evidence_authentic [OF demo_validated] by blast
  then show ?thesis using demo_validated by (auto simp: demo_spec_def)
qed

text \<open>
  C25. Work is bounded. In every frame the ledger's total is defined and at most the fuel of the
  case, and no activation, successful or not, is charged more than the activation fuel.
\<close>

theorem witness_work_bounded:
  assumes "validated ws ps c W a"
  shows "\<exists>frames r. vm_run W a c = Inr (frames, r)
    \<and> (\<forall>l\<in>insert (rr_ledger r) (fv_ledger ` set frames). \<exists>t\<le>ca_fuel c. ledger_total l = Inr t)
    \<and> (\<forall>f\<in>set frames. \<forall>v\<in>set (fv_activations f). av_work_before v \<le> av_work_after v
        \<and> unat (av_work_after v) - unat (av_work_before v) \<le> unat (ca_activation_fuel c))"
proof -
  obtain frames r where run: "vm_run W a c = Inr (frames, r)" and ok: "result_ok W c r" and fr: "\<forall>f\<in>set frames. frame_ok W c f"
    and states: "\<And>S. S \<in> insert (rr_final_state r) (fv_state ` set frames) \<Longrightarrow> \<exists>n. state_ok W n S"
    by (rule validated_run [OF assms]) blast
  have "\<exists>t\<le>ca_fuel c. ledger_total l = Inr t" if "l \<in> insert (rr_ledger r) (fv_ledger ` set frames)" for l
    using that ok fr by (intro ledger_total_le(1)) (auto simp: result_ok_def frame_ok_def)
  moreover have "av_work_before v \<le> av_work_after v \<and> unat (av_work_after v) - unat (av_work_before v) \<le> unat (ca_activation_fuel c)"
    if "f \<in> set frames" "v \<in> set (fv_activations f)" for f v
    using that fr by (force simp: frame_ok_def work_ok_def word_le_nat_alt)
  ultimately show ?thesis using run by blast
qed

theorem witness_work_bounded_witness:
  "validated demo_spec [(1, demo_program)] demo_case demo_world demo_assignment
   \<and> (\<exists>frames r. vm_run demo_world demo_assignment demo_case = Inr (frames, r) \<and> (\<exists>t\<le>1000. ledger_total (rr_ledger r) = Inr t))"
  using demo_validated witness_work_bounded [OF demo_validated] by (auto simp: demo_case_def)

text \<open>
  The batched charge of the meter is the loop that charges one unit at a time: on a meter
  within its bounds both leave the same ledger, whether they succeed or stop, and both name the fuel
  when it and the activation window run out together.
\<close>

theorem batched_charge_is_unit_loop:
  assumes "meter_ok m"
  shows "meter_charge c amount m = apfst (map_err MStop) (charge_units (unat amount) c m)"
  by (rule charge_loop_eq [OF assms])

theorem batched_charge_is_unit_loop_witness:
  "meter_ok (meter_new 5) \<and> meter_charge Actions 9 (meter_new 5) = apfst (map_err MStop) (charge_units 9 Actions (meter_new 5))"
proof -
  have "meter_ok (meter_new 5)" by (rule meter_ok_new) simp
  then show ?thesis using batched_charge_is_unit_loop [of "meter_new 5" Actions 9] by simp
qed

text \<open>
  An activation always concludes, and one that hits a limit is rolled back. From every machine
  between two phases, activating a cell under a checked program never ends in a run error; it is
  charged at most the activation fuel; and when it is stopped by a limit the state and the signals
  are exactly as before it, while the machine's invariant holds either way.
\<close>

theorem limited_activation_rolls_back:
  assumes "validated ws ps c W a" and "p \<in> set (as_programs a)" and "index < length (ws_cells ws)" and "mach_ok W c t mc"
  shows "\<exists>r lim mc'. activate W c p index mc = (Inr (r, lim), mc') \<and> mach_ok W c t mc' \<and> work_ok c r
    \<and> (lim = Some StopFuel \<longrightarrow> ledger_total (me_ledger (vx_meter mc')) = Inr (ca_fuel c))
    \<and> (lim \<noteq> None \<longrightarrow> vx_state mc' = vx_state mc \<and> vx_signals mc' = vx_signals mc)"
proof -
  note v = validatedD [OF assms(1)]
  have p: "program_ok p" "index < length (wd_cells W)" using v(2,4) assms(2,3) by (auto simp: assignment_ok_def)
  have w: "wp (activate W c p index)
    (\<lambda>(r, lim) mc'. mach_ok W c t mc' \<and> work_ok c r \<and> (lim = Some StopFuel \<longrightarrow> ledger_sum (me_ledger (vx_meter mc')) = unat (ca_fuel c))
       \<and> (lim \<noteq> None \<longrightarrow> vx_state mc' = vx_state mc \<and> vx_signals mc' = vx_signals mc)) (\<lambda>_ _. False) mc"
    by (rule activate_ok [OF v(1) p assms(4)])
  obtain out mc' where out: "activate W c p index mc = (out, mc')" by (rule prod.exhaust)
  then obtain r lim where "out = Inr (r, lim)" using w by (cases out) (auto simp: wp_def)
  then show ?thesis
    using w out ledger_total_le(2) [of "me_ledger (vx_meter mc')" "ca_fuel c"] by (auto simp: wp_def)
qed

theorem limited_activation_rolls_back_witness:
  "\<exists>mc r lim mc'. mach_ok demo_world demo_case 0 mc
   \<and> activate demo_world demo_case demo_program 0 mc = (Inr (r, lim), mc') \<and> mach_ok demo_world demo_case 0 mc'
   \<and> (lim \<noteq> None \<longrightarrow> vx_state mc' = vx_state mc)"
proof -
  obtain mc where mc: "mach_ok demo_world demo_case 0 mc"
    using machine_new_ok [OF validatedD(1-3) [OF demo_validated]] by blast
  have "demo_program \<in> set (as_programs demo_assignment)" "0 < length (ws_cells demo_spec)"
    by (simp_all add: demo_assignment_def demo_spec_def)
  from limited_activation_rolls_back [OF demo_validated this mc] mc show ?thesis by blast
qed

end
