(* ===== verification/Witness_Replay.thy ===== *)
theory Witness_Replay
  imports Witness_Platform Witness_Safety
begin

text \<open>
  The platform's promises: what validation of a manifest and the binding of a candidate establish,
  the exact result of a run under a capability, and what a matching receipt proves to a verifier
  that replays the run.
\<close>

section \<open>Validated manifests\<close>

definition manifest_typed :: "task_manifest \<Rightarrow> bool" where
  "manifest_typed m \<longleftrightarrow> spec_typed (tm_world m) \<and> (\<forall>l\<in>set (ws_links (tm_world m)). endpoint_ok (lk_from l))
     \<and> (\<forall>s\<in>set (tm_slots m). slot_ok s)"

definition manifest_ok :: "crypto \<Rightarrow> valid_manifest \<Rightarrow> bool" where
  "manifest_ok C vm \<longleftrightarrow> manifest_typed (va_manifest vm) \<and> world_new (tm_world (va_manifest vm)) = Inr (va_world vm)
     \<and> va_cases vm = tm_cases (va_manifest vm) \<and> va_cases vm \<noteq> [] \<and> length (va_cases vm) \<le> 8
     \<and> (\<forall>c\<in>set (va_cases vm). case_new (va_world vm) c = Inr c)
     \<and> map ps_cell (tm_slots (va_manifest vm)) = sort (map cb_id (wd_cells (va_world vm)))
     \<and> va_hash vm = witness_digest C MANIFEST_DOMAIN (encode_manifest (va_manifest vm))"

lemma manifest_validate_ok:
  assumes "manifest_validate C m = Inr vm" and "manifest_typed m"
  shows "manifest_ok C vm" "va_manifest vm = m"
proof -
  from assms(1) [unfolded manifest_validate_def Let_def bindR_eq_Inr]
  obtain world cases where w: "world_new (tm_world m) = Inr world"
    and cs: "mapR (\<lambda>spec. map_err MEWorld (case_new world spec)) (tm_cases m) = Inr cases"
    and n: "tm_cases m \<noteq> []" "length (tm_cases m) \<le> 8"
    and named: "map ps_cell (tm_slots m) = sort (map cb_id (wd_cells world))"
    and vm: "vm = \<lparr>va_manifest = m, va_world = world, va_cases = cases,
      va_hash = witness_digest C MANIFEST_DOMAIN (encode_manifest m), va_encoded_len = length (encode_manifest m)\<rparr>"
    by (auto simp: MAX_CASES_def not_less split: if_splits)
  have all: "list_all2 (\<lambda>spec c. case_new world spec = Inr c) (tm_cases m) cases"
    using cs by (auto simp: mapR_eq_Inr elim!: list_all2_mono)
  then have same: "cases = tm_cases m"
    by (auto simp: list_all2_conv_all_nth dest!: case_new_ok intro!: nth_equalityI)
  then have "\<forall>c\<in>set cases. case_new world c = Inr c" using all by (auto simp: list_all2_conv_all_nth in_set_conv_nth)
  then show "manifest_ok C vm" "va_manifest vm = m"
    using w n named same assms(2) by (simp_all add: manifest_ok_def vm)
qed

lemma manifest_okD:
  assumes "manifest_ok C vm"
  shows "world_ok (va_world vm)" "wd_spec (va_world vm) = tm_world (va_manifest vm)" "\<And>c. c \<in> set (va_cases vm) \<Longrightarrow> case_ok (va_world vm) c"
  using assms world_new_ok [of "tm_world (va_manifest vm)" "va_world vm"] case_new_ok [of "va_world vm"]
  by (auto simp: manifest_ok_def manifest_typed_def)

text \<open>Summing the fuels of a valid manifest never overflows.\<close>

lemma fuel_sum:
  assumes "\<And>c. c \<in> set cs \<Longrightarrow> unat (ca_fuel c) \<le> 2000000" and "length cs \<le> 8"
  shows "unat (sum_list (map ca_fuel cs)) = sum_list (map (\<lambda>c. unat (ca_fuel c)) cs) \<and> sum_list (map (\<lambda>c. unat (ca_fuel c)) cs) \<le> 2000000 * length cs"
  using assms
proof (induction cs)
  case (Cons c cs)
  then have "unat (ca_fuel c + sum_list (map ca_fuel cs)) = unat (ca_fuel c) + unat (sum_list (map ca_fuel cs))"
    by (intro unat_plus_noloss) fastforce
  then show ?case using Cons by (simp add: add_mono)
qed simp

lemma world_codable_ok:
  assumes "world_ok W" and "\<forall>l\<in>set (wd_links W). endpoint_ok (lk_from l)"
  shows "world_codable (wd_spec W)"
  using assms by (auto simp: world_codable_def world_ok_def spec_typed_def list_all_iff world_sparks_def wire_link_ok_def)

lemma manifest_codable_ok:
  assumes "manifest_ok C vm"
  shows "manifest_codable (va_manifest vm)"
proof -
  note W = manifest_okD [OF assms]
  have "sorted_wrt (<) (map ps_cell (tm_slots (va_manifest vm)))"
    using assms W(1) by (simp add: manifest_ok_def world_ok_def strict_sorted_iff)
  moreover have "length (tm_slots (va_manifest vm)) \<le> 16"
    using assms W(1) unfolding manifest_ok_def world_ok_def by (metis length_map length_sort)
  moreover have "world_codable (tm_world (va_manifest vm))"
    using world_codable_ok [OF W(1)] assms W(2) by (simp add: manifest_ok_def manifest_typed_def)
  moreover have "\<forall>c\<in>set (tm_cases (va_manifest vm)). length (ca_events c) \<le> 64"
    using W(3) assms by (auto simp: manifest_ok_def case_ok_def)
  moreover have "length (tm_cases (va_manifest vm)) \<le> 8" using assms by (auto simp: manifest_ok_def)
  moreover have "\<forall>s\<in>set (tm_slots (va_manifest vm)). slot_ok s" using assms by (simp add: manifest_ok_def manifest_typed_def)
  ultimately show ?thesis by (simp add: manifest_codable_def MAX_CASES_def)
qed

section \<open>Bound candidates\<close>

definition bound_to :: "valid_manifest \<Rightarrow> (u16 \<times> program) list \<Rightarrow> cell_body \<Rightarrow> program \<Rightarrow> bool" where
  "bound_to vm candidate cell p \<longleftrightarrow>
     (\<exists>s\<in>set (tm_slots (va_manifest vm)). ps_cell s = cb_id cell
        \<and> (case ps_fixed s of Some q \<Rightarrow> p = q | None \<Rightarrow> (cb_id cell, p) \<in> set candidate))"

lemma merge_slots_ok:
  assumes "merge_slots ss candidate = Inr merged" and "map fst candidate = map ps_cell (filter (\<lambda>s. ps_fixed s = None) ss)"
  shows "list_all2 (\<lambda>s ip. fst ip = ps_cell s \<and> (case ps_fixed s of Some q \<Rightarrow> snd ip = q | None \<Rightarrow> ip \<in> set candidate)) ss merged"
  using assms
proof (induction ss candidate arbitrary: merged rule: merge_slots.induct)
  case (1 candidate)
  then show ?case by simp
next
  case (2 s ss candidate)
  show ?case
  proof (cases "ps_fixed s")
    case (Some p)
    then obtain rest where "merge_slots ss candidate = Inr rest" "merged = (ps_cell s, p) # rest"
      using 2(3) by auto
    then show ?thesis using 2(2) [OF Some] 2(4) Some by simp
  next
    case None
    then obtain i p candidate' rest where c: "candidate = (i, p) # candidate'" "merge_slots ss candidate' = Inr rest"
      "merged = (ps_cell s, p) # rest" using 2(3) by (auto split: list.splits)
    have "list_all2 (\<lambda>s ip. fst ip = ps_cell s \<and> (case ps_fixed s of Some q \<Rightarrow> snd ip = q | None \<Rightarrow> ip \<in> set candidate')) ss rest"
      using 2(1) [OF None c(1) refl c(2)] 2(4) None c(1) by auto
    then have "list_all2 (\<lambda>s ip. fst ip = ps_cell s \<and> (case ps_fixed s of Some q \<Rightarrow> snd ip = q | None \<Rightarrow> ip \<in> set candidate)) ss rest"
      by (rule list_all2_mono) (auto simp: c(1) split: option.splits)
    then show ?thesis using c None 2(4) by auto
  qed
qed

lemma manifest_assign_ok:
  assumes vm: "manifest_ok C vm" and a: "manifest_assign vm candidate = Inr a" and ps: "\<forall>p\<in>set candidate. pair_ok p"
  shows "assignment_ok (va_world vm) a" "list_all2 (bound_to vm candidate) (wd_cells (va_world vm)) (as_programs a)"
proof -
  obtain merged where m: "merge_slots (tm_slots (va_manifest vm)) candidate = Inr merged"
    and v: "assignment_validate (va_world vm) merged = Inr a" and o: "map fst candidate = open_slots vm"
    using a by (auto simp: manifest_assign_def split: if_splits)
  note all = merge_slots_ok [OF m o [unfolded open_slots_def]]
  have ok: "\<forall>(i, p)\<in>set merged. program_ok p \<and> (\<exists>s\<in>set (tm_slots (va_manifest vm)). ps_cell s = i
      \<and> (case ps_fixed s of Some q \<Rightarrow> p = q | None \<Rightarrow> (i, p) \<in> set candidate))"
  proof (clarify, goal_cases)
    case (1 i p)
    then obtain k where "k < length merged" "merged ! k = (i, p)" by (auto simp: in_set_conv_nth)
    then have s: "tm_slots (va_manifest vm) ! k \<in> set (tm_slots (va_manifest vm))"
      "ps_cell (tm_slots (va_manifest vm) ! k) = i"
      "case ps_fixed (tm_slots (va_manifest vm) ! k) of Some q \<Rightarrow> p = q | None \<Rightarrow> (i, p) \<in> set candidate"
      using list_all2_nthD2 [OF all, of k] list_all2_lengthD [OF all] by (auto split: option.splits)
    have "slot_ok (tm_slots (va_manifest vm) ! k)" using vm s(1) by (simp add: manifest_ok_def manifest_typed_def)
    then have "program_ok p" using s(3) ps by (auto simp: slot_ok_def pair_ok_def split: option.splits)
    then show ?case using s by blast
  qed
  have "\<forall>(i, p)\<in>set merged. program_ok p" using ok by fast
  from assignment_validate_ok [OF v this]
  show "assignment_ok (va_world vm) a" "list_all2 (bound_to vm candidate) (wd_cells (va_world vm)) (as_programs a)"
    using ok by (auto simp: bound_to_def elim!: list_all2_mono)
qed

section \<open>Runs\<close>

lemma checked_fold:
  assumes "unat s + sum_list (map (\<lambda>x. unat (g x)) xs) < 2 ^ LENGTH('a)"
  shows "\<exists>t. foldR (\<lambda>sum x. ok_or e (checked_add sum (g x :: 'a::len word))) s xs = Inr t
    \<and> unat t = unat s + sum_list (map (\<lambda>x. unat (g x)) xs)"
  using assms
proof (induction xs arbitrary: s)
  case (Cons x xs)
  then have "unat (s + g x) = unat s + unat (g x)" by (intro unat_plus_noloss) simp
  then show ?case using Cons.IH [of "s + g x"] Cons.prems by (simp add: checked_add_def add.assoc)
qed simp

lemma count_split:
  assumes "distinct (map f bs)" and "\<forall>d\<in>set ds. \<exists>b\<in>set bs. f b = g d"
  shows "(\<Sum>b\<leftarrow>bs. length (filter (\<lambda>d. g d = f b) ds)) = length ds"
  using assms(2)
proof (induction ds)
  case Nil
  then show ?case by (induction bs) simp_all
next
  case (Cons d ds)
  have one: "(\<Sum>b\<leftarrow>bs. if g d = f b then 1 else 0 :: nat) = 1" if "g d \<in> f ` set bs" "distinct (map f bs)" for bs
    using that
  proof (induction bs)
    case (Cons b bs)
    have "(\<Sum>b\<leftarrow>bs. if g d = f b then 1 else 0 :: nat) = 0" if "g d \<notin> f ` set bs"
      using that by (induction bs) auto
    then show ?case using Cons by auto
  qed simp
  have "(\<Sum>b\<leftarrow>bs. length (filter (\<lambda>x. g x = f b) (d # ds)))
      = (\<Sum>b\<leftarrow>bs. (if g d = f b then 1 else 0) + length (filter (\<lambda>x. g x = f b) ds))"
    by (rule arg_cong [where f = sum_list], rule map_cong) auto
  also have "\<dots> = (\<Sum>b\<leftarrow>bs. if g d = f b then 1 else 0) + (\<Sum>b\<leftarrow>bs. length (filter (\<lambda>x. g x = f b) ds))"
    by (rule sum_list_addf)
  also have "(\<Sum>b\<leftarrow>bs. if g d = f b then 1 else 0 :: nat) = 1"
    by (rule one [OF _ assms(1)]) (use Cons.prems in force)
  finally show ?case using Cons by simp
qed

text \<open>The useful quantity of a case is the number of sparks it delivered.\<close>

lemma delivered_total_ok:
  assumes W: "world_ok W" and ok: "state_ok W n S"
  obtains d where "delivered_total S = Inr d" "unat d = length (st_delivered S)" "unat d \<le> 128"
proof -
  note k = state_okD(3,4) [OF ok]
  have del: "list_all2 (\<lambda>b e. unat (bs_delivered e) = length (filter (\<lambda>d. dl_beacon d = bc_id b) (st_delivered S))) (wd_beacons W) (st_beacons S)"
    by (rule list_all2_mono [of "beacon_state_ok (st_delivered S)"]) (use k(2) in \<open>simp_all add: energy_ok_def beacon_state_ok_def\<close>)
  have "map (\<lambda>e. unat (bs_delivered e)) (st_beacons S) = map (\<lambda>b. length (filter (\<lambda>d. dl_beacon d = bc_id b) (st_delivered S))) (wd_beacons W)"
    using del by (auto simp: list_all2_conv_all_nth intro: nth_equalityI)
  moreover have "(\<Sum>b\<leftarrow>wd_beacons W. length (filter (\<lambda>d. dl_beacon d = bc_id b) (st_delivered S))) = length (st_delivered S)"
    using k(2) W by (intro count_split) (auto simp: energy_ok_def world_ok_def)
  ultimately have sum: "(\<Sum>e\<leftarrow>st_beacons S. unat (bs_delivered e)) = length (st_delivered S)" by simp
  have "length (st_delivered S) \<le> size (present_sparks S)" by (simp add: present_sparks_def)
  also have "\<dots> \<le> 128" using k(1) W by (simp add: stores_ok_def world_ok_def)
  finally have bound: "length (st_delivered S) \<le> 128" .
  have u: "unat (ucast (v :: u32) :: u64) = unat v" for v
    using unsigned_less [where 'a = nat, of v] by (simp add: unsigned_ucast_eq take_bit_nat_eq_self)
  have "\<exists>t. delivered_total S = Inr t \<and> unat t = unat (0 :: u64) + (\<Sum>e\<leftarrow>st_beacons S. unat (ucast (bs_delivered e) :: u64))"
    unfolding delivered_total_def by (rule checked_fold) (use sum bound u in simp)
  then show ?thesis using that sum u bound by auto
qed

definition replays :: "crypto \<Rightarrow> world \<Rightarrow> assignment \<Rightarrow> case_spec \<Rightarrow> case_result \<Rightarrow> bool" where
  "replays C W a c r \<longleftrightarrow> (\<exists>frames res. vm_run W a c = Inr (frames, res) \<and> result_ok W c res
     \<and> cr_status r = rr_status res \<and> cr_ticks_completed r = rr_ticks_completed res \<and> cr_outcome r = rr_outcome res
     \<and> cr_final_state r = witness_digest C STATE_DOMAIN (encode_state (rr_final_state res)) \<and> cr_ledger r = rr_ledger res
     \<and> unat (cr_useful r) = length (st_delivered (rr_final_state res)))"

lemma replays_bounds:
  assumes "world_ok W" and "replays C W a c r"
  shows "unat (cr_useful r) \<le> 128" "ledger_sum (cr_ledger r) \<le> unat (ca_fuel c)"
proof -
  obtain frames res n where r: "result_ok W c res" "cr_ledger r = rr_ledger res"
    "unat (cr_useful r) = length (st_delivered (rr_final_state res))" "state_ok W n (rr_final_state res)"
    using assms(2) unfolding replays_def result_ok_def by blast
  then show "unat (cr_useful r) \<le> 128" using delivered_total_ok [OF assms(1) r(4)] by metis
  show "ledger_sum (cr_ledger r) \<le> unat (ca_fuel c)" using r(1,2) by (simp only: result_ok_def)
qed

lemma run_case_ok:
  assumes W: "world_ok W" and a: "assignment_ok W a" and c: "case_ok W c"
    and room: "unat useful + 128 < 2 ^ 64" "unat tot + 2000000 < 2 ^ 64"
  obtains shown r useful' tot' where "run_case C W a (frames, results, useful, tot) c = Inr (frames @ shown, results @ [r], useful', tot')"
    "replays C W a c r" "unat useful' = unat useful + unat (cr_useful r)" "unat tot' = unat tot + ledger_sum (cr_ledger r)"
proof -
  obtain shown res where run: "vm_run W a c = Inr (shown, res)" and ok: "result_ok W c res"
    using run_returns [OF W a c] by blast
  obtain n where "state_ok W n (rr_final_state res)" using ok by (auto simp only: result_ok_def)
  then obtain d where d: "delivered_total (rr_final_state res) = Inr d" "unat d = length (st_delivered (rr_final_state res))" "unat d \<le> 128"
    by (rule delivered_total_ok [OF W])
  have fuel: "ledger_sum (rr_ledger res) \<le> 2000000" using ok c by (auto simp only: result_ok_def case_ok_def)
  then have "ledger_sum (rr_ledger res) < 2 ^ 64" by simp
  then obtain t where t: "ledger_total (rr_ledger res) = Inr t" "unat t = ledger_sum (rr_ledger res)" by (rule ledger_total_ok)
  have "checked_add useful d = Some (useful + d)" "unat (useful + d) = unat useful + unat d"
    "checked_add tot t = Some (tot + t)" "unat (tot + t) = unat tot + unat t"
    using room d(3) t(2) fuel by (simp_all add: checked_add_def unat_plus_noloss)
  moreover define r where "r = \<lparr>cr_status = rr_status res, cr_ticks_completed = rr_ticks_completed res, cr_outcome = rr_outcome res,
      cr_final_state = witness_digest C STATE_DOMAIN (encode_state (rr_final_state res)), cr_ledger = rr_ledger res, cr_useful = d\<rparr>"
  moreover have "replays C W a c r" using run ok d(2) by (simp add: replays_def r_def)
  ultimately show ?thesis
    using that [of shown r "useful + d" "tot + t"] run d(1) t by (simp add: run_case_def)
qed

lemma run_cases_ok:
  assumes W: "world_ok W" and a: "assignment_ok W a"
  shows "\<forall>c\<in>set cs. case_ok W c \<Longrightarrow> unat useful + 128 * length cs < 2 ^ 64 \<Longrightarrow> unat tot + 2000000 * length cs < 2 ^ 64 \<Longrightarrow>
    \<exists>shown rs useful' tot'. foldR (run_case C W a) (frames, results, useful, tot) cs = Inr (frames @ shown, results @ rs, useful', tot')
      \<and> list_all2 (replays C W a) cs rs \<and> unat useful' = unat useful + (\<Sum>r\<leftarrow>rs. unat (cr_useful r))
      \<and> unat tot' = unat tot + (\<Sum>r\<leftarrow>rs. ledger_sum (cr_ledger r))"
proof (induction cs arbitrary: frames results useful tot)
  case (Cons c cs)
  then have "case_ok W c" "unat useful + 128 < 2 ^ 64" "unat tot + 2000000 < 2 ^ 64" by simp_all
  then obtain shown r useful' tot' where s: "run_case C W a (frames, results, useful, tot) c = Inr (frames @ shown, results @ [r], useful', tot')"
    "replays C W a c r" "unat useful' = unat useful + unat (cr_useful r)" "unat tot' = unat tot + ledger_sum (cr_ledger r)"
    by (rule run_case_ok [OF W a])
  have "unat (cr_useful r) \<le> 128" "ledger_sum (cr_ledger r) \<le> 2000000"
    using replays_bounds [OF W s(2)] Cons.prems(1) by (auto simp: case_ok_def)
  then have "\<exists>shown' rs useful'' tot''. foldR (run_case C W a) (frames @ shown, results @ [r], useful', tot') cs
        = Inr ((frames @ shown) @ shown', (results @ [r]) @ rs, useful'', tot'')
      \<and> list_all2 (replays C W a) cs rs \<and> unat useful'' = unat useful' + (\<Sum>r\<leftarrow>rs. unat (cr_useful r))
      \<and> unat tot'' = unat tot' + (\<Sum>r\<leftarrow>rs. ledger_sum (cr_ledger r))"
    using Cons.prems s(3,4) by (intro Cons.IH) auto
  then obtain shown' rs useful'' tot'' where "foldR (run_case C W a) (frames @ shown, results @ [r], useful', tot') cs
        = Inr ((frames @ shown) @ shown', (results @ [r]) @ rs, useful'', tot'')"
      "list_all2 (replays C W a) cs rs" "unat useful'' = unat useful' + (\<Sum>r\<leftarrow>rs. unat (cr_useful r))"
      "unat tot'' = unat tot' + (\<Sum>r\<leftarrow>rs. ledger_sum (cr_ledger r))" by blast
  then show ?case
    using s by (intro exI [of _ "shown @ shown'"] exI [of _ "r # rs"] exI [of _ useful''] exI [of _ tot'']) simp
qed simp

lemma total_within_fuel:
  assumes "world_ok W"
  shows "list_all2 (replays C W a) cs rs \<Longrightarrow> (\<Sum>r\<leftarrow>rs. ledger_sum (cr_ledger r)) \<le> (\<Sum>c\<leftarrow>cs. unat (ca_fuel c))"
  by (induction rule: list_all2_induct) (auto dest: replays_bounds(2) [OF assms])

text \<open>A run under a matching capability with enough allowance never fails.\<close>

lemma run_observed_ok:
  assumes vm: "manifest_ok C vm" and a: "assignment_ok (va_world vm) a"
    and cap: "rc_manifest cap = va_hash vm" "rc_program cap = witness_digest C ASSIGNMENT_DOMAIN (encode_assignment a)"
      "fuel_total vm \<le> rc_max_total cap"
  obtains frames w where "run_observed C vm a cap = Inr (frames, w)" "platform_run C vm a cap = Inr w"
    "wr_manifest w = va_hash vm" "wr_program w = rc_program cap" "wr_role w = rc_role cap"
    "list_all2 (replays C (va_world vm) a) (va_cases vm) (wr_cases w)"
    "unat (wr_useful w) = (\<Sum>r\<leftarrow>wr_cases w. unat (cr_useful r))"
    "unat (wr_total w) = (\<Sum>r\<leftarrow>wr_cases w. ledger_sum (cr_ledger r))" "wr_total w \<le> fuel_total vm"
proof -
  note W = manifest_okD [OF vm]
  have n: "length (va_cases vm) \<le> 8" using vm by (auto simp: manifest_ok_def)
  have fuels: "unat (fuel_total vm) = (\<Sum>c\<leftarrow>va_cases vm. unat (ca_fuel c))"
    using fuel_sum [of "va_cases vm"] W(3) n by (simp add: fuel_total_def case_ok_def)
  have "\<forall>c\<in>set (va_cases vm). case_ok (va_world vm) c" using W(3) by blast
  from run_cases_ok [OF W(1) a this, of 0 0 C "[]" "[]"]
  obtain shown rs useful tot where f: "foldR (run_case C (va_world vm) a) ([], [], 0, 0) (va_cases vm) = Inr (shown, rs, useful, tot)"
    "list_all2 (replays C (va_world vm) a) (va_cases vm) rs" "unat useful = (\<Sum>r\<leftarrow>rs. unat (cr_useful r))"
    "unat tot = (\<Sum>r\<leftarrow>rs. ledger_sum (cr_ledger r))" using n by auto
  have "tot \<le> fuel_total vm"
    using total_within_fuel [OF W(1) f(2)] fuels f(4) by (simp add: word_le_nat_alt)
  then show ?thesis
    using f cap
    by (intro that [of shown "\<lparr>wr_manifest = va_hash vm, wr_program = rc_program cap, wr_role = rc_role cap, wr_cases = rs,
        wr_useful = useful, wr_total = tot\<rparr>"]) (simp_all add: run_observed_def platform_run_def not_less Let_def)
qed

section \<open>Sizes of states\<close>

lemma size_signal: "length (put_signal sg) \<le> SIGNAL_BYTES"
  using size_endpoint [of "sg_from sg"] w_option_bound [of "sg_receipt_spark sg" to_be 4]
  by (simp add: put_signal_def SIGNAL_BYTES_def)

lemma size_cell_state:
  assumes "cell_ok W D t b c"
  shows "length (put_cell_state c) \<le> 2 + 2 + 1 + 4 + 4 * 5 + 6 + 4 * (1 + SIGNAL_BYTES)"
proof -
  have n: "length (cs_memory c) = 4" "length (cs_evidence c) = 4" "length (cs_inbox c) = 4" using assms by (simp_all add: cell_ok_def)
  have "length (concat (map (w_option to_be) (cs_evidence c))) \<le> 4 * 5"
    using sum_bound [of "cs_evidence c" "w_option to_be" 5] w_option_bound [of _ "to_be :: u32 \<Rightarrow> bytes" 4] n by simp
  moreover have "length (concat (map (w_option put_signal) (cs_inbox c))) \<le> 4 * (1 + SIGNAL_BYTES)"
    using sum_bound [of "cs_inbox c" "w_option put_signal" "1 + SIGNAL_BYTES"] w_option_bound [of _ put_signal, OF size_signal] n by simp
  moreover have "length (w_option put_spark (cs_cargo c)) \<le> 1 + 5" by (rule w_option_bound) (simp add: size_spark)
  ultimately show ?thesis using n(1) by (simp add: put_cell_state_def size_point)
qed

lemma size_stores: "length (w_list (\<lambda>x. to_be (f x :: u16) @ w_list put_spark (g x)) xs) = 1 + 3 * length xs + 5 * length (concat (map g xs))"
  by (induction xs) (simp_all add: w_list_def size_sparks)

lemma size_state:
  assumes W: "world_ok W" and ok: "state_ok W n S"
  shows "length (encode_state S) \<le> MAX_STATE_BYTES"
proof -
  note k = state_okD [OF ok] and len = ctx_lengths [of W]
  have sizes: "size (present_sparks S) \<le> 128" using k(3) W by (simp add: stores_ok_def world_ok_def)
  have lens: "length (st_cells S) = length (wd_cells W)" "length (st_sources S) = length (wd_sources W)"
    "length (st_depots S) = length (wd_depots W)" "length (st_beacons S) = length (wd_beacons W)"
    "length (st_valves S) = length (wd_valves W)" "length (st_links S) = length (wd_links W)"
    using cells_length [OF k(1)] k(3,4,5)
    by (auto simp: stores_ok_def energy_ok_def switches_ok_def dest: list_all2_lengthD map_eq_imp_length_eq)
  have cells: "length (w_list put_cell_state (st_cells S)) \<le> 1 + MAX_CELLS * (2 + 2 + 1 + 4 + 4 * 5 + 6 + 4 * (1 + SIGNAL_BYTES))"
  proof (rule w_list_bound)
    fix c assume "c \<in> set (st_cells S)"
    then show "length (put_cell_state c) \<le> 2 + 2 + 1 + 4 + 4 * 5 + 6 + 4 * (1 + SIGNAL_BYTES)"
      using cells_nth [OF k(1)] size_cell_state by (metis in_set_conv_nth)
  qed (use W lens(1) in \<open>simp add: world_ok_def\<close>)
  have sources: "length (w_list put_source_state (st_sources S)) \<le> 1 + 3 * 8 + 5 * 128"
    using size_stores [of ss_id ss_sparks "st_sources S"] sizes lens(2) W
    by (simp add: put_source_state_def [abs_def] present_sparks_def world_ok_def)
  have depots: "length (w_list put_depot_state (st_depots S)) \<le> 1 + 3 * 8 + 5 * 128"
    using size_stores [of ds_id ds_sparks "st_depots S"] sizes lens(3) W
    by (simp add: put_depot_state_def [abs_def] present_sparks_def world_ok_def)
  have beacons: "length (w_list put_beacon_state (st_beacons S)) \<le> 1 + 8 * 15"
    using W lens(4) by (intro w_list_bound) (simp_all add: put_beacon_state_def world_ok_def)
  have valves: "length (w_list put_enabled (st_valves S)) \<le> 1 + 8 * 3"
    using W lens(5) by (intro w_list_bound) (simp_all add: put_enabled_def world_ok_def)
  have links: "length (w_list put_enabled (st_links S)) \<le> 1 + 32 * 3"
    using W lens(6) by (intro w_list_bound) (simp_all add: put_enabled_def world_ok_def)
  have pending: "length (w_list put_signal (st_pending S)) \<le> 1 + 128 * SIGNAL_BYTES"
    using k(2) by (intro w_list_bound size_signal) (simp add: queue_ok_def)
  have delivered: "length (w_list put_delivery (st_delivered S)) \<le> 1 + 128 * 11"
    using sizes by (intro w_list_bound) (simp_all add: put_delivery_def size_spark present_sparks_def)
  show ?thesis
    using cells sources depots beacons valves links pending delivered
    by (simp add: encode_state_def MAX_STATE_BYTES_def MAX_DELIVERIES_def MAX_SPARK_BYTES_def)
qed

section \<open>Receipts\<close>

lemma claimed_decode_iff: "claimed_decode raw = Inr c \<longleftrightarrow> claimed_encode c = raw"
proof -
  have "get_claimed bs = Inr (c, rest) \<longleftrightarrow> bs = claimed_encode c @ rest" for bs rest
    by (cases c) (auto simp: get_claimed_def claimed_encode_def receipt_encode_def wire_iffs)
  moreover have "length (claimed_encode c) = RECEIPT_BYTES" by (simp add: claimed_encode_def receipt_encode_def RECEIPT_BYTES_def)
  ultimately show ?thesis by (auto simp: claimed_decode_def decode_within_iff)
qed

interpretation claimed_codec: frame_codec claimed_encode claimed_decode "\<lambda>_. True"
  by unfold_locales (simp_all add: claimed_decode_iff)

text \<open>The claim a prover makes by sending a receipt.\<close>

definition claim_of :: "witness_receipt \<Rightarrow> claimed_receipt" where
  "claim_of r = \<lparr>cl_challenge_id = wc_challenge_id r, cl_subject_key = wc_subject_key r, cl_manifest = wc_manifest r,
      cl_program = wc_program r, cl_output = wc_output r, cl_useful = wc_useful r, cl_total = wc_total r,
      cl_passed = wc_passed r, cl_case_count = wc_case_count r\<rparr>"

lemma claim_of_encode: "claimed_encode (claim_of r) = receipt_encode r"
  by (cases r) (simp add: claimed_encode_def claim_of_def)

lemma claim_of_inject: "claim_of r = claim_of r' \<longleftrightarrow> r = r'"
  by (cases r; cases r') (simp add: claim_of_def)

lemma matches_iff: "claimed_matches c r \<longleftrightarrow> c = claim_of r"
  unfolding claimed_matches_def claim_of_encode [symmetric] by (rule claimed_codec.enc_inject) simp_all

lemma receipt_encode_inject: "receipt_encode r = receipt_encode r' \<longleftrightarrow> r = r'"
  using matches_iff [of "claim_of r" r'] by (simp add: claimed_matches_def claim_of_encode claim_of_inject)

text \<open>Encodings of assignments are injective even when the cells are not ascending.\<close>

definition get_pair :: "(u16 \<times> program) wire_reader" where
  "get_pair = rbind (rdr_u16 FldCellId) (\<lambda>i. rbind get_program_body (\<lambda>p. rret (i, p)))"

lemma get_pair_iff: "get_pair bs = Inr (ip, rest) \<longleftrightarrow> pair_ok ip \<and> bs = put_pair ip @ rest"
  by (cases ip) (auto simp: get_pair_def put_pair_def pair_ok_def wire_iffs)

lemma encode_candidate_inject:
  assumes "length ps \<le> 16" "length qs \<le> 16" "\<forall>p\<in>set ps. pair_ok p" "\<forall>p\<in>set qs. pair_ok p" "encode_candidate ps = encode_candidate qs"
  shows "ps = qs"
proof -
  have "rdr_list 16 get_pair (w_list put_pair xs) = Inr (xs, [])" if "length xs \<le> 16" "\<forall>p\<in>set xs. pair_ok p" for xs
    by (rule iffD2 [OF rdr_list_iff [of get_pair pair_ok put_pair, OF get_pair_iff]]) (use that in simp_all)
  note read = this
  have "w_list put_pair ps = w_list put_pair qs" using assms(5) by (simp add: encode_candidate_def)
  from read [OF assms(1,3), unfolded this] read [OF assms(2,4)] show ?thesis by simp
qed

lemma assignment_pairs:
  assumes "world_ok W" and "assignment_ok W a"
  shows "length (zip (as_cells a) (as_programs a)) \<le> 16" "\<forall>p\<in>set (zip (as_cells a) (as_programs a)). pair_ok p"
  using assms by (auto simp: assignment_ok_def world_ok_def pair_ok_def dest: set_zip_rightD)

lemma encode_assignment_inject:
  assumes "assignment_ok W a" "assignment_ok W a'" "world_ok W" "encode_assignment a = encode_assignment a'"
  shows "a = a'"
proof -
  note ok = assignment_pairs [OF assms(3)]
  have "zip (as_cells a) (as_programs a) = zip (as_cells a') (as_programs a')"
    using encode_candidate_inject [OF ok(1) ok(1) ok(2) ok(2)] assms by (simp add: encode_assignment_def)
  then have "map snd (zip (as_cells a) (as_programs a)) = map snd (zip (as_cells a') (as_programs a'))" by simp
  then have "as_programs a = as_programs a'" using assms by (simp add: assignment_ok_def)
  then show ?thesis using assms by (cases a; cases a') (simp add: assignment_ok_def)
qed

lemma digest_input_inject: "digest_input d x = digest_input d y \<longleftrightarrow> x = y"
  by (auto simp: digest_input_def)

text \<open>What a run that returned says about its capability, and what it does not depend on.\<close>

lemma run_returns_names:
  assumes "platform_run C vm a cap = Inr w"
  shows "wr_manifest w = va_hash vm" "wr_program w = witness_digest C ASSIGNMENT_DOMAIN (encode_assignment a)"
  using assms by (auto simp: platform_run_def run_observed_def Let_def bindR_eq_Inr split: if_splits)

lemma run_ignores_capability:
  assumes "platform_run C vm a cap = Inr w" and "platform_run C vm a cap' = Inr w'"
  shows "w' = w\<lparr>wr_role := wr_role w'\<rparr>"
  using assms by (auto simp: platform_run_def run_observed_def Let_def bindR_eq_Inr split: if_splits)

section \<open>Bounds that validation never meets\<close>

lemma world_errors: "map_err MEWorld r = Inl e \<Longrightarrow> \<exists>w. e = MEWorld w"
  by (cases r) (auto simp: map_err_def)

lemma case_errors: "mapR (\<lambda>spec. map_err MEWorld (case_new world spec)) cs = Inl e \<Longrightarrow> \<exists>w. e = MEWorld w"
  by (induction cs) (auto simp: bindR_eq_Inl map_err_def split: sum.splits)

lemma fuel_errors: "foldR (\<lambda>fuel c. ok_or MEContract (checked_add fuel (ca_fuel c))) s cs = Inl e \<Longrightarrow> e = MEContract"
  by (induction cs arbitrary: s) (auto simp: bindR_eq_Inl ok_or_def split: option.splits)

lemma never_too_large:
  assumes "manifest_typed m"
  shows "manifest_validate C m \<noteq> Inl METooLarge"
proof
  assume e: "manifest_validate C m = Inl METooLarge"
  then obtain world cases where w: "world_new (tm_world m) = Inr world"
    and cs: "mapR (\<lambda>spec. map_err MEWorld (case_new world spec)) (tm_cases m) = Inr cases"
    and named: "map ps_cell (tm_slots m) = sort (map cb_id (wd_cells world))" "length (tm_cases m) \<le> 8"
    and large: "length (encode_manifest m) > MAX_MANIFEST_BYTES"
    by (auto simp: manifest_validate_def Let_def bindR_eq_Inl MAX_CASES_def not_less
        split: if_splits dest: world_errors case_errors fuel_errors)
  have W: "world_ok world" "wd_spec world = tm_world m" using world_new_ok [OF w] assms by (simp_all add: manifest_typed_def)
  have "\<forall>c\<in>set (tm_cases m). length (ca_events c) \<le> 64"
  proof
    fix c assume "c \<in> set (tm_cases m)"
    then obtain i where "i < length (tm_cases m)" "tm_cases m ! i = c" by (auto simp: in_set_conv_nth)
    then have "case_new world c = Inr (cases ! i)" using cs by (auto simp: mapR_eq_Inr list_all2_conv_all_nth)
    then show "length (ca_events c) \<le> 64" using case_new_ok by (auto simp: case_ok_def)
  qed
  moreover have "length (tm_slots m) \<le> 16" using named(1) W(1) unfolding world_ok_def by (metis length_map length_sort)
  ultimately have "manifest_codable m"
    using world_codable_ok [OF W(1)] W assms named
    by (simp add: manifest_codable_def manifest_typed_def MAX_CASES_def world_ok_def strict_sorted_iff)
  then show False using size_manifest large by (meson not_less)
qed

lemma run_states:
  assumes "world_ok W" and "assignment_ok W a" and "case_ok W c"
  obtains frames r where "vm_run W a c = Inr (frames, r)"
    "\<And>S. S \<in> insert (rr_final_state r) (fv_state ` set frames) \<Longrightarrow> \<exists>n. state_ok W n S"
proof -
  obtain frames r where run: "vm_run W a c = Inr (frames, r)" "\<forall>f\<in>set frames. frame_ok W c f" "result_ok W c r"
    using run_returns [OF assms] by blast
  have "\<exists>n. state_ok W n (rr_final_state r)" using run(3) unfolding result_ok_def by blast
  moreover have "\<exists>n. state_ok W n (fv_state f)" if "f \<in> set frames" for f using run(2) that unfolding frame_ok_def by blast
  ultimately show ?thesis using that [OF run(1)] by blast
qed

end
