(* ===== verification/One_Use_Window.thy ===== *)
theory One_Use_Window
  imports BTree_Map
begin

text \<open>
  The one-use window of \<open>vhalla-botcaptcha\<close> (\<open>window.rs\<close>): which scope was consumed by which response
  until when, and how many open entries each subject holds. Both maps are ordered maps; pruning walks
  the entries in key order and releases the counters as it goes.
\<close>

definition MAX_OPEN_CHALLENGES :: nat where "MAX_OPEN_CHALLENGES = 4096"
definition MAX_OPEN_PER_SUBJECT :: nat where "MAX_OPEN_PER_SUBJECT = 64"

datatype window_error = WindowReplay | WindowEquivocation | WindowCapacity | WindowSubjectCapacity

record window_entry =
  ne_response_hash :: array32
  ne_expires_at :: u64
  ne_subject_key :: array32

record one_use_window =
  ow_entries :: "(array32, window_entry) btree_map"
  ow_per_subject :: "(array32, nat) btree_map"

definition window_new :: one_use_window where
  "window_new = \<lparr>ow_entries = bt_new, ow_per_subject = bt_new\<rparr>"

definition window_peek :: "one_use_window \<Rightarrow> array32 \<Rightarrow> array32 \<Rightarrow> window_error option" where
  "window_peek w scope response =
     (case bt_get (ow_entries w) scope of
        Some entry \<Rightarrow> if ne_response_hash entry = response then Some WindowReplay else Some WindowEquivocation
      | None \<Rightarrow> None)"

definition held_by :: "one_use_window \<Rightarrow> array32 \<Rightarrow> nat" where
  "held_by w subject = (case bt_get (ow_per_subject w) subject of Some n \<Rightarrow> n | None \<Rightarrow> 0)"

definition window_consume :: "one_use_window \<Rightarrow> array32 \<Rightarrow> array32 \<Rightarrow> array32 \<Rightarrow> u64 \<Rightarrow> window_error + one_use_window" where
  "window_consume w scope subject response expires =
     (case window_peek w scope response of
        Some e \<Rightarrow> Inl e
      | None \<Rightarrow>
          if length (ow_entries w) \<ge> MAX_OPEN_CHALLENGES then Inl WindowCapacity
          else
          let held = held_by w subject in
          if held \<ge> MAX_OPEN_PER_SUBJECT then Inl WindowSubjectCapacity
          else Inr \<lparr>ow_entries = bt_insert scope
                 \<lparr>ne_response_hash = response, ne_expires_at = expires, ne_subject_key = subject\<rparr> (ow_entries w),
               ow_per_subject = bt_insert subject (held + 1) (ow_per_subject w)\<rparr>)"

text \<open>\<open>*count = count.saturating_sub(1)\<close>, and the counter is removed at zero.\<close>

definition release :: "array32 \<Rightarrow> (array32, nat) btree_map \<Rightarrow> (array32, nat) btree_map" where
  "release subject per =
     (case bt_get per subject of
        None \<Rightarrow> per
      | Some n \<Rightarrow> if n - 1 = 0 then bt_remove subject per else bt_insert subject (n - 1) per)"

fun retain_open :: "u64 \<Rightarrow> (array32, window_entry) btree_map \<Rightarrow> (array32, nat) btree_map
    \<Rightarrow> (array32, window_entry) btree_map \<times> (array32, nat) btree_map" where
  "retain_open now [] per = ([], per)"
| "retain_open now (e # es) per =
     (if ne_expires_at (snd e) \<ge> now then (case retain_open now es per of (kept, per') \<Rightarrow> (e # kept, per'))
      else retain_open now es (release (ne_subject_key (snd e)) per))"

definition window_prune :: "one_use_window \<Rightarrow> u64 \<Rightarrow> one_use_window" where
  "window_prune w now = (case retain_open now (ow_entries w) (ow_per_subject w) of
     (kept, per) \<Rightarrow> \<lparr>ow_entries = kept, ow_per_subject = per\<rparr>)"

definition consumed :: "one_use_window \<Rightarrow> array32 \<Rightarrow> array32 option" where
  "consumed w scope = map_option ne_response_hash (bt_get (ow_entries w) scope)"

section \<open>The invariant\<close>

definition held_in :: "(array32, window_entry) btree_map \<Rightarrow> array32 \<Rightarrow> nat" where
  "held_in es subject = length (filter (\<lambda>e. ne_subject_key (snd e) = subject) es)"

definition counters_ok :: "(array32, window_entry) btree_map \<Rightarrow> (array32, nat) btree_map \<Rightarrow> bool" where
  "counters_ok es per \<longleftrightarrow> bt_ok per \<and> (\<forall>k. bt_get per k = (if held_in es k = 0 then None else Some (held_in es k)))"

definition one_use_ok :: "one_use_window \<Rightarrow> bool" where
  "one_use_ok w \<longleftrightarrow> bt_ok (ow_entries w) \<and> counters_ok (ow_entries w) (ow_per_subject w)
     \<and> length (ow_entries w) \<le> MAX_OPEN_CHALLENGES \<and> (\<forall>k. held_in (ow_entries w) k \<le> MAX_OPEN_PER_SUBJECT)"

lemma held_in_simps [simp]:
  "held_in [] k = 0"
  "held_in (e # es) k = (if ne_subject_key (snd e) = k then Suc (held_in es k) else held_in es k)"
  by (simp_all add: held_in_def)

lemma held_by_ok: "one_use_ok w \<Longrightarrow> held_by w k = held_in (ow_entries w) k"
  by (simp add: one_use_ok_def counters_ok_def held_by_def)

lemma window_new_ok: "one_use_ok window_new"
  by (simp add: one_use_ok_def counters_ok_def window_new_def bt_new_def bt_ok_def bt_get_def)

lemma held_in_insert: "bt_get es scope = None \<Longrightarrow> held_in (bt_insert scope x es) k = (if ne_subject_key x = k then Suc (held_in es k) else held_in es k)"
  by (induction es) (auto simp: bt_get_def split: if_splits)

lemma consume_eq_Inr:
  "window_consume w scope subject response expires = Inr w' \<longleftrightarrow>
     bt_get (ow_entries w) scope = None \<and> length (ow_entries w) < MAX_OPEN_CHALLENGES \<and> held_by w subject < MAX_OPEN_PER_SUBJECT
     \<and> w' = \<lparr>ow_entries = bt_insert scope \<lparr>ne_response_hash = response, ne_expires_at = expires, ne_subject_key = subject\<rparr> (ow_entries w),
          ow_per_subject = bt_insert subject (held_by w subject + 1) (ow_per_subject w)\<rparr>"
  by (auto simp: window_consume_def window_peek_def Let_def split: option.splits)

lemma consume_ok:
  assumes "one_use_ok w" and "window_consume w scope subject response expires = Inr w'"
  shows "one_use_ok w'"
  using assms unfolding consume_eq_Inr one_use_ok_def counters_ok_def
  by (auto simp: held_in_insert btree.length_insert held_by_ok [OF assms(1)] intro: less_imp_le)

lemma release_ok:
  assumes "counters_ok (e # es) per"
  shows "counters_ok es (release (ne_subject_key (snd e)) per)"
  using assms unfolding counters_ok_def by (auto simp: release_def)

text \<open>What the walk has passed over and what it still has to pass over add up to the counters.\<close>

lemma retain_open_ok:
  assumes "\<forall>k. bt_get per k = (let n = seen k + held_in es k in if n = 0 then None else Some n)" and "bt_ok per"
  shows "fst (retain_open now es per) = filter (\<lambda>e. now \<le> ne_expires_at (snd e)) es
    \<and> bt_ok (snd (retain_open now es per))
    \<and> (\<forall>k. bt_get (snd (retain_open now es per)) k =
        (let n = seen k + held_in (filter (\<lambda>e. now \<le> ne_expires_at (snd e)) es) k in if n = 0 then None else Some n))"
  using assms
proof (induction es arbitrary: per seen)
  case (Cons e es)
  show ?case
  proof (cases "now \<le> ne_expires_at (snd e)")
    case True
    have "\<forall>k. bt_get per k = (let n = (seen k + (if ne_subject_key (snd e) = k then 1 else 0)) + held_in es k in if n = 0 then None else Some n)"
      using Cons.prems(1) by auto
    from Cons.IH [OF this Cons.prems(2)] show ?thesis using True by (auto simp: Let_def split: prod.split)
  next
    case False
    have "\<forall>k. bt_get (release (ne_subject_key (snd e)) per) k = (let n = seen k + held_in es k in if n = 0 then None else Some n)"
      using Cons.prems by (auto simp: release_def Let_def)
    moreover have "bt_ok (release (ne_subject_key (snd e)) per)" using Cons.prems(2) by (auto simp: release_def split: option.split)
    ultimately show ?thesis using Cons.IH [of "release (ne_subject_key (snd e)) per" seen] False by simp
  qed
qed simp

lemma prune_entries: "one_use_ok w \<Longrightarrow> ow_entries (window_prune w now) = filter (\<lambda>e. now \<le> ne_expires_at (snd e)) (ow_entries w)"
  using retain_open_ok [of "ow_per_subject w" "\<lambda>_. 0" "ow_entries w" now]
  by (auto simp: one_use_ok_def counters_ok_def window_prune_def split: prod.split)

lemma prune_ok:
  assumes "one_use_ok w"
  shows "one_use_ok (window_prune w now)"
proof -
  have "snd (retain_open now (ow_entries w) (ow_per_subject w)) = ow_per_subject (window_prune w now)"
    by (auto simp: window_prune_def split: prod.split)
  moreover have le: "held_in (filter P es) k \<le> held_in es k" for P es k by (induction es) auto
  have "held_in (filter P (ow_entries w)) k \<le> MAX_OPEN_PER_SUBJECT" for P k
    using order_trans [OF le] assms by (auto simp: one_use_ok_def)
  ultimately show ?thesis
    using retain_open_ok [of "ow_per_subject w" "\<lambda>_. 0" "ow_entries w" now] assms prune_entries [OF assms, of now]
    by (auto simp: one_use_ok_def counters_ok_def bt_ok_filter intro: order_trans [OF length_filter_le])
qed

lemma prune_get:
  "one_use_ok w \<Longrightarrow> bt_get (ow_entries (window_prune w now)) scope = Some e \<longleftrightarrow> bt_get (ow_entries w) scope = Some e \<and> now \<le> ne_expires_at e"
  by (simp add: prune_entries bt_get_filter one_use_ok_def)

end
