(* ===== verification/Botcaptcha.thy ===== *)
theory Botcaptcha
  imports Witness_Replay One_Use_Window
begin

text \<open>
  The challenge and response of \<open>vhalla-botcaptcha\<close>: the signed challenge, its issuer and its
  verification (\<open>challenge.rs\<close>), the prover (\<open>response.rs\<close>) and the Hashcash mode
  (\<open>hashcash.rs\<close>), with the domains of \<open>lib.rs\<close>. Entropy, clocks and signing keys are arguments.
\<close>

section \<open>Domains\<close>

definition BOT_VERSION :: u8 where "BOT_VERSION = 1"
definition MAX_CHALLENGE_LIFETIME :: u64 where "MAX_CHALLENGE_LIFETIME = 15 * 60"
definition CHALLENGE_DOMAIN :: bytes where "CHALLENGE_DOMAIN = ascii ''vhalla/botcaptcha/challenge/v1''"
definition RESPONSE_DOMAIN :: bytes where "RESPONSE_DOMAIN = ascii ''vhalla/botcaptcha/response/v1''"
definition DEDUP_DOMAIN :: bytes where "DEDUP_DOMAIN = ascii ''vhalla/botcaptcha/dedup/v1''"
definition REWARD_DOMAIN :: bytes where "REWARD_DOMAIN = ascii ''vhalla/botcaptcha/reward/v1''"
definition WORK_DOMAIN :: bytes where "WORK_DOMAIN = ascii ''vhalla/botcaptcha/pow/v1''"
definition HASHCASH_RESPONSE_DOMAIN :: bytes where "HASHCASH_RESPONSE_DOMAIN = ascii ''vhalla/botcaptcha/hashcash-response/v1''"

definition bot_transcript :: "bytes \<Rightarrow> bytes \<Rightarrow> bytes" where
  "bot_transcript domain body = domain @ to_be (if length body < 2 ^ 32 then word_of_nat (length body) else (- 1 :: u32)) @ body"

section \<open>Challenges\<close>

datatype algorithm = AlgHashcash | AlgWitness

datatype purpose = RateLimitRelief | GameQualification

record challenge_context =
  ct_issuer_key :: array32
  ct_subject_key :: array32
  ct_realm :: u128
  ct_room :: u128
  ct_purpose :: purpose

definition MAX_DIFFICULTY :: u8 where "MAX_DIFFICULTY = 48"

definition difficulty_new :: "u8 \<Rightarrow> u8 option" where
  "difficulty_new bits = (if bits \<ge> 1 \<and> bits \<le> MAX_DIFFICULTY then Some bits else None)"

datatype requirement = ReqWitness work_contract | ReqHashcash u8

definition CHALLENGE_BYTES :: nat where
  "CHALLENGE_BYTES = 1 + 1 + 32 + 32 + 32 + 16 + 16 + 1 + 32 + 8 + 8 + 8 + 8 + 1 + 64"

record challenge =
  ch_version :: u8
  ch_algorithm :: algorithm
  ch_id :: array32
  ch_issuer_key :: array32
  ch_subject_key :: array32
  ch_realm :: u128
  ch_room :: u128
  ch_purpose :: purpose
  ch_manifest :: array32
  ch_issued_at :: u64
  ch_expires_at :: u64
  ch_requirement :: requirement
  ch_signature :: array64

definition algorithm_tag :: "algorithm \<Rightarrow> u8" where
  "algorithm_tag a = (case a of AlgHashcash \<Rightarrow> 1 | AlgWitness \<Rightarrow> 2)"

definition purpose_tag :: "purpose \<Rightarrow> u8" where
  "purpose_tag p = (case p of RateLimitRelief \<Rightarrow> 1 | GameQualification \<Rightarrow> 2)"

definition put_requirement :: "requirement \<Rightarrow> bytes" where
  "put_requirement r =
     (case r of
        ReqWitness c \<Rightarrow> to_be (wc_useful_floor c) @ to_be (wc_total_ceiling c) @ w_bool (wc_require_passed c)
      | ReqHashcash d \<Rightarrow> to_be (ucast d :: u64) @ to_be (0 :: u64) @ w_bool False)"

definition challenge_body :: "challenge \<Rightarrow> bytes" where
  "challenge_body c = [ch_version c, algorithm_tag (ch_algorithm c)] @ to_be (ch_id c) @ to_be (ch_issuer_key c)
     @ to_be (ch_subject_key c) @ to_be (ch_realm c) @ to_be (ch_room c) @ [purpose_tag (ch_purpose c)]
     @ to_be (ch_manifest c) @ to_be (ch_issued_at c) @ to_be (ch_expires_at c) @ put_requirement (ch_requirement c)"

definition challenge_transcript :: "challenge \<Rightarrow> bytes" where
  "challenge_transcript c = bot_transcript CHALLENGE_DOMAIN (challenge_body c)"

definition challenge_encode :: "challenge \<Rightarrow> bytes" where
  "challenge_encode c = challenge_body c @ to_be (ch_signature c)"

definition read_u128 :: "u128 wire_reader" where
  "read_u128 = rbind (rdr_u64 FldContract) (\<lambda>hi. rbind (rdr_u64 FldContract) (\<lambda>lo.
     rret (or (push_bit 64 (ucast hi)) (ucast lo))))"

definition read_signature :: "array64 wire_reader" where
  "read_signature = rbind rdr_hash (\<lambda>a. rbind rdr_hash (\<lambda>b. rret (word_cat a b)))"

definition get_algorithm :: "algorithm wire_reader" where
  "get_algorithm = rbind (rdr_u8 FldLanguage) (\<lambda>t.
     if t = 1 then rret AlgHashcash else if t = 2 then rret AlgWitness else rfail (CEDiscriminant FldLanguage t))"

definition get_purpose :: "purpose wire_reader" where
  "get_purpose = rbind (rdr_u8 FldContract) (\<lambda>t.
     if t = 1 then rret RateLimitRelief else if t = 2 then rret GameQualification else rfail (CEDiscriminant FldContract t))"

definition requirement_of :: "algorithm \<Rightarrow> u64 \<Rightarrow> u64 \<Rightarrow> bool \<Rightarrow> codec_error + requirement" where
  "requirement_of a first second third =
     (case a of
        AlgWitness \<Rightarrow> Inr (ReqWitness \<lparr>wc_useful_floor = first, wc_total_ceiling = second, wc_require_passed = third\<rparr>)
      | AlgHashcash \<Rightarrow>
          (case (if first < 256 then difficulty_new (ucast first) else None) of
             Some d \<Rightarrow> if second = 0 \<and> \<not> third then Inr (ReqHashcash d) else Inl (CEBound FldContract)
           | None \<Rightarrow> Inl (CEBound FldContract)))"

text \<open>A result inside a reader: \<open>?\<close>.\<close>

definition rtry :: "codec_error + 'a \<Rightarrow> 'a wire_reader" where
  "rtry r bs = bindR r (\<lambda>x. Inr (x, bs))"

definition get_requirement :: "algorithm \<Rightarrow> requirement wire_reader" where
  "get_requirement a = rbind (rdr_u64 FldContract) (\<lambda>first. rbind (rdr_u64 FldContract) (\<lambda>second.
     rbind (rdr_bool FldContract) (\<lambda>third. rtry (requirement_of a first second third))))"

definition get_challenge :: "challenge wire_reader" where
  "get_challenge =
     rbind (rdr_u8 FldVersion) (\<lambda>version. if version \<noteq> BOT_VERSION then rfail (CEVersion version)
     else rbind get_algorithm (\<lambda>algorithm. rbind rdr_hash (\<lambda>challenge_id. rbind rdr_hash (\<lambda>issuer. rbind rdr_hash (\<lambda>subject.
     rbind read_u128 (\<lambda>realm. rbind read_u128 (\<lambda>room. rbind get_purpose (\<lambda>purpose. rbind rdr_hash (\<lambda>manifest.
     rbind (rdr_u64 FldContract) (\<lambda>issued. rbind (rdr_u64 FldContract) (\<lambda>expires. rbind (get_requirement algorithm) (\<lambda>requirement.
     rbind read_signature (\<lambda>signature.
       rret \<lparr>ch_version = version, ch_algorithm = algorithm, ch_id = challenge_id, ch_issuer_key = issuer, ch_subject_key = subject,
         ch_realm = realm, ch_room = room, ch_purpose = purpose, ch_manifest = manifest, ch_issued_at = issued,
         ch_expires_at = expires, ch_requirement = requirement, ch_signature = signature\<rparr>)))))))))))))"

definition challenge_decode :: "bytes \<Rightarrow> codec_error + challenge" where
  "challenge_decode = decode_within CHALLENGE_BYTES get_challenge"

definition challenge_contract :: "challenge \<Rightarrow> work_contract option" where
  "challenge_contract c = (case ch_requirement c of ReqWitness w \<Rightarrow> Some w | ReqHashcash _ \<Rightarrow> None)"

definition challenge_difficulty :: "challenge \<Rightarrow> u8 option" where
  "challenge_difficulty c = (case ch_requirement c of ReqWitness _ \<Rightarrow> None | ReqHashcash d \<Rightarrow> Some d)"

definition challenge_hash :: "crypto \<Rightarrow> challenge \<Rightarrow> array32" where
  "challenge_hash C c = witness_digest C CHALLENGE_DOMAIN (challenge_body c)"

definition context_of :: "challenge \<Rightarrow> challenge_context" where
  "context_of c = \<lparr>ct_issuer_key = ch_issuer_key c, ct_subject_key = ch_subject_key c, ct_realm = ch_realm c,
     ct_room = ch_room c, ct_purpose = ch_purpose c\<rparr>"

definition scope_key :: "crypto \<Rightarrow> challenge \<Rightarrow> array32" where
  "scope_key C c = witness_digest C DEDUP_DOMAIN (to_be (ch_issuer_key c) @ to_be (ch_id c) @ to_be (ch_subject_key c))"

datatype issue_error = IssueLifetime | IssueClock

definition issue_with :: "crypto \<Rightarrow> array32 \<Rightarrow> algorithm \<Rightarrow> array32 \<Rightarrow> u64 \<Rightarrow> u64 \<Rightarrow> array32 \<Rightarrow> u128 \<Rightarrow> u128 \<Rightarrow> purpose
    \<Rightarrow> array32 \<Rightarrow> requirement \<Rightarrow> issue_error + challenge" where
  "issue_with C key algorithm entropy now lifetime subject realm room purpose manifest requirement =
     (if lifetime = 0 \<or> lifetime > MAX_CHALLENGE_LIFETIME then Inl IssueLifetime
      else bindR (ok_or IssueClock (checked_add now lifetime)) (\<lambda>expires.
        let unsigned = \<lparr>ch_version = BOT_VERSION, ch_algorithm = algorithm, ch_id = entropy, ch_issuer_key = public_of C key,
              ch_subject_key = subject, ch_realm = realm, ch_room = room, ch_purpose = purpose, ch_manifest = manifest,
              ch_issued_at = now, ch_expires_at = expires, ch_requirement = requirement, ch_signature = 0\<rparr> in
        Inr (unsigned\<lparr>ch_signature := sign_bytes C key (challenge_transcript unsigned)\<rparr>)))"

definition issue_challenge :: "crypto \<Rightarrow> array32 \<Rightarrow> array32 \<Rightarrow> u64 \<Rightarrow> u64 \<Rightarrow> array32 \<Rightarrow> u128 \<Rightarrow> u128 \<Rightarrow> purpose
    \<Rightarrow> array32 \<Rightarrow> work_contract \<Rightarrow> issue_error + challenge" where
  "issue_challenge C key entropy now lifetime subject realm room purpose manifest contract =
     issue_with C key AlgWitness entropy now lifetime subject realm room purpose manifest (ReqWitness contract)"

definition issue_hashcash :: "crypto \<Rightarrow> array32 \<Rightarrow> array32 \<Rightarrow> u64 \<Rightarrow> u64 \<Rightarrow> array32 \<Rightarrow> u128 \<Rightarrow> u128 \<Rightarrow> purpose
    \<Rightarrow> u8 \<Rightarrow> issue_error + challenge" where
  "issue_hashcash C key entropy now lifetime subject realm room purpose difficulty =
     issue_with C key AlgHashcash entropy now lifetime subject realm room purpose 0 (ReqHashcash difficulty)"

datatype witness_error =
    BCodec codec_error | BAlgorithm | BWeakIssuerKey | BIssuerSignature | BContext | BNotYetValid | BExpired
  | BBeforeVerifierStart | BLifetime | BManifest | BWeakSubjectKey | BSubjectSignature | BBinding | BClaim
  | BCandidate | BProgram | BAllowance | BRun | BReceipt | BFloor | BCeiling | BNotPassed | BReplay
  | BEquivocation | BCapacity | BSubjectCapacity | BInsufficientWork

record verified_challenge =
  vh_challenge :: challenge
  vh_scope_key :: array32

definition challenge_verify :: "crypto \<Rightarrow> challenge \<Rightarrow> challenge_context \<Rightarrow> u64 \<Rightarrow> u64 \<Rightarrow> witness_error + verified_challenge" where
  "challenge_verify C c expected started_at now =
     (if \<not> key_point C (ch_issuer_key c) then Inl BIssuerSignature
      else if key_weak C (ch_issuer_key c) then Inl BWeakIssuerKey
      else if \<not> verify_strict C (ch_issuer_key c) (challenge_transcript c) (ch_signature c) then Inl BIssuerSignature
      else if context_of c \<noteq> expected then Inl BContext
      else bindR (ok_or BLifetime (checked_sub (ch_expires_at c) (ch_issued_at c))) (\<lambda>lifetime.
        if lifetime = 0 \<or> lifetime > MAX_CHALLENGE_LIFETIME then Inl BLifetime
        else if now < ch_issued_at c then Inl BNotYetValid
        else if now > ch_expires_at c then Inl BExpired
        else if ch_issued_at c < started_at then Inl BBeforeVerifierStart
        else Inr \<lparr>vh_challenge = c, vh_scope_key = scope_key C c\<rparr>))"

definition run_capability_for :: "verified_challenge \<Rightarrow> array32 \<Rightarrow> u64 \<Rightarrow> run_role \<Rightarrow> run_capability" where
  "run_capability_for v program allowance role =
     \<lparr>rc_manifest = ch_manifest (vh_challenge v), rc_program = program, rc_max_total = allowance, rc_role = role\<rparr>"

definition receipt_binding_for :: "verified_challenge \<Rightarrow> receipt_binding" where
  "receipt_binding_for v = \<lparr>rb_challenge_id = ch_id (vh_challenge v), rb_subject_key = ch_subject_key (vh_challenge v)\<rparr>"

section \<open>Responses\<close>

datatype proof_profile = TransparentReceipt

record measured_work =
  mw_useful :: u64
  mw_total :: u64

definition RESPONSE_FIXED_BYTES :: nat where "RESPONSE_FIXED_BYTES = 1 + 1 + 32 * 7 + 8 + 8 + 9 + 2"
definition MAX_RESPONSE_BYTES :: nat where
  "MAX_RESPONSE_BYTES = RESPONSE_FIXED_BYTES + MAX_ASSIGNMENT_BYTES + RECEIPT_BYTES + 64"

record witness_response =
  re_version :: u8
  re_profile :: proof_profile
  re_challenge_id :: array32
  re_challenge_hash :: array32
  re_subject_key :: array32
  re_manifest :: array32
  re_program :: array32
  re_output :: array32
  re_receipt :: array32
  re_work :: measured_work
  re_nonce :: "u64 option"
  re_candidate :: bytes
  re_claimed :: claimed_receipt
  re_signature :: array64

definition response_body :: "witness_response \<Rightarrow> bytes" where
  "response_body r = [re_version r, case re_profile r of TransparentReceipt \<Rightarrow> 1] @ to_be (re_challenge_id r) @ to_be (re_challenge_hash r)
     @ to_be (re_subject_key r) @ to_be (re_manifest r) @ to_be (re_program r) @ to_be (re_output r) @ to_be (re_receipt r)
     @ to_be (mw_useful (re_work r)) @ to_be (mw_total (re_work r)) @ w_option to_be (re_nonce r)
     @ to_be (word_of_nat (length (re_candidate r)) :: u16) @ re_candidate r @ claimed_encode (re_claimed r)"

definition response_transcript :: "witness_response \<Rightarrow> bytes" where
  "response_transcript r = bot_transcript RESPONSE_DOMAIN (response_body r)"

definition response_hash :: "crypto \<Rightarrow> witness_response \<Rightarrow> array32" where
  "response_hash C r = witness_digest C RESPONSE_DOMAIN (response_body r)"

definition response_encode :: "witness_response \<Rightarrow> bytes" where
  "response_encode r = response_body r @ to_be (re_signature r)"

definition get_profile :: "proof_profile wire_reader" where
  "get_profile = rbind (rdr_u8 FldLanguage) (\<lambda>t. if t = 1 then rret TransparentReceipt else rfail (CEDiscriminant FldLanguage t))"

definition get_nonce :: "u64 option wire_reader" where
  "get_nonce = rbind (rdr_u8 FldRemember) (\<lambda>t. if t = 0 then rret None
     else if t = 1 then rbind (rdr_u64 FldValue) (\<lambda>n. rret (Some n)) else rfail (CEDiscriminant FldRemember t))"

definition get_candidate_bytes :: "bytes wire_reader" where
  "get_candidate_bytes = rbind (rdr_u16 FldCount) (\<lambda>n.
     if unat n > MAX_ASSIGNMENT_BYTES then rfail (CEBound FldCount) else rd_many (rdr_u8 FldCell) (unat n))"

definition get_response :: "witness_response wire_reader" where
  "get_response =
     rbind (rdr_u8 FldVersion) (\<lambda>version. if version \<noteq> BOT_VERSION then rfail (CEVersion version)
     else rbind get_profile (\<lambda>profile. rbind rdr_hash (\<lambda>challenge_id. rbind rdr_hash (\<lambda>challenge_hash. rbind rdr_hash (\<lambda>subject.
     rbind rdr_hash (\<lambda>manifest. rbind rdr_hash (\<lambda>program. rbind rdr_hash (\<lambda>output. rbind rdr_hash (\<lambda>receipt.
     rbind (rdr_u64 FldLedger) (\<lambda>useful. rbind (rdr_u64 FldLedger) (\<lambda>tot. rbind get_nonce (\<lambda>nonce.
     rbind get_candidate_bytes (\<lambda>candidate. rbind (rd_many (rdr_u8 FldHash) RECEIPT_BYTES) (\<lambda>receipt_bytes.
     rbind (rtry (claimed_decode receipt_bytes)) (\<lambda>claimed. rbind read_signature (\<lambda>signature.
       rret \<lparr>re_version = version, re_profile = profile, re_challenge_id = challenge_id, re_challenge_hash = challenge_hash,
         re_subject_key = subject, re_manifest = manifest, re_program = program, re_output = output, re_receipt = receipt,
         re_work = \<lparr>mw_useful = useful, mw_total = tot\<rparr>, re_nonce = nonce, re_candidate = candidate, re_claimed = claimed,
         re_signature = signature\<rparr>))))))))))))))))"

definition response_decode :: "bytes \<Rightarrow> codec_error + witness_response" where
  "response_decode = decode_within MAX_RESPONSE_BYTES get_response"

datatype prove_error = ProveSubject | ProveAlgorithm | ProveManifest | ProveCandidate manifest_error | ProveRun run_refused

definition respond_witness :: "crypto \<Rightarrow> verified_challenge \<Rightarrow> valid_manifest \<Rightarrow> (u16 \<times> program) list \<Rightarrow> u64 \<Rightarrow> array32 \<Rightarrow> prove_error + witness_response" where
  "respond_witness C v vm candidate allowance key =
     (if public_of C key \<noteq> ch_subject_key (vh_challenge v) then Inl ProveSubject
      else if ch_algorithm (vh_challenge v) \<noteq> AlgWitness then Inl ProveAlgorithm
      else if va_hash vm \<noteq> ch_manifest (vh_challenge v) then Inl ProveManifest
      else bindR (map_err ProveCandidate (manifest_assign vm candidate)) (\<lambda>assignment.
        let program = witness_digest C ASSIGNMENT_DOMAIN (encode_assignment assignment) in
        bindR (map_err ProveRun (platform_run C vm assignment (run_capability_for v program allowance Prove))) (\<lambda>run.
        let receipt = into_receipt C run (receipt_binding_for v);
            unsigned = \<lparr>re_version = BOT_VERSION, re_profile = TransparentReceipt, re_challenge_id = ch_id (vh_challenge v),
              re_challenge_hash = challenge_hash C (vh_challenge v), re_subject_key = public_of C key,
              re_manifest = wc_manifest receipt, re_program = wc_program receipt, re_output = wc_output receipt,
              re_receipt = receipt_hash C receipt, re_work = \<lparr>mw_useful = wc_useful receipt, mw_total = wc_total receipt\<rparr>,
              re_nonce = None, re_candidate = encode_candidate candidate, re_claimed = claim_of receipt, re_signature = 0\<rparr> in
        Inr (unsigned\<lparr>re_signature := sign_bytes C key (response_transcript unsigned)\<rparr>))))"

section \<open>Hashcash\<close>

definition work_digest :: "crypto \<Rightarrow> array32 \<Rightarrow> array32 \<Rightarrow> u64 \<Rightarrow> array32" where
  "work_digest C challenge subject nonce = witness_digest C WORK_DOMAIN (to_be challenge @ to_be subject @ to_be nonce)"

definition byte_leading_zeros :: "u8 \<Rightarrow> nat" where
  "byte_leading_zeros b = length (takeWhile (\<lambda>i. \<not> bit b i) [7, 6, 5, 4, 3, 2, 1, 0])"

fun leading_zero_bits :: "bytes \<Rightarrow> nat" where
  "leading_zero_bits [] = 0"
| "leading_zero_bits (b # bs) = (if b = 0 then 8 + leading_zero_bits bs else byte_leading_zeros b)"

definition meets_target :: "crypto \<Rightarrow> challenge \<Rightarrow> u8 \<Rightarrow> u64 \<Rightarrow> bool" where
  "meets_target C c d nonce \<longleftrightarrow>
     leading_zero_bits (to_be (work_digest C (challenge_hash C c) (ch_subject_key c) nonce)) \<ge> unat d"

datatype solve_error = SolveAlgorithm | SolveExhausted

text \<open>\<open>(0..max_attempts).find(..)\<close>: the nonces in ascending order, at most \<open>left\<close> more of them.\<close>

fun find_nonce :: "(u64 \<Rightarrow> bool) \<Rightarrow> u64 \<Rightarrow> nat \<Rightarrow> u64 option" where
  "find_nonce good nonce 0 = None"
| "find_nonce good nonce (Suc left) = (if good nonce then Some nonce else find_nonce good (nonce + 1) left)"

definition solve :: "crypto \<Rightarrow> verified_challenge \<Rightarrow> u64 \<Rightarrow> solve_error + u64" where
  "solve C v max_attempts =
     bindR (ok_or SolveAlgorithm (challenge_difficulty (vh_challenge v))) (\<lambda>d.
       ok_or SolveExhausted (find_nonce (meets_target C (vh_challenge v) d) 0 (unat max_attempts)))"

definition HASHCASH_RESPONSE_BYTES :: nat where "HASHCASH_RESPONSE_BYTES = 1 + 32 + 32 + 32 + 8 + 64"

record hashcash_response =
  hx_version :: u8
  hx_challenge_id :: array32
  hx_challenge_hash :: array32
  hx_subject_key :: array32
  hx_nonce :: u64
  hx_signature :: array64

definition hashcash_body :: "hashcash_response \<Rightarrow> bytes" where
  "hashcash_body r = [hx_version r] @ to_be (hx_challenge_id r) @ to_be (hx_challenge_hash r) @ to_be (hx_subject_key r) @ to_be (hx_nonce r)"

definition hashcash_transcript :: "hashcash_response \<Rightarrow> bytes" where
  "hashcash_transcript r = bot_transcript HASHCASH_RESPONSE_DOMAIN (hashcash_body r)"

definition hashcash_hash :: "crypto \<Rightarrow> hashcash_response \<Rightarrow> array32" where
  "hashcash_hash C r = witness_digest C HASHCASH_RESPONSE_DOMAIN (hashcash_body r)"

definition hashcash_encode :: "hashcash_response \<Rightarrow> bytes" where
  "hashcash_encode r = hashcash_body r @ to_be (hx_signature r)"

definition get_hashcash :: "hashcash_response wire_reader" where
  "get_hashcash =
     rbind (rdr_u8 FldVersion) (\<lambda>version. if version \<noteq> BOT_VERSION then rfail (CEVersion version)
     else rbind rdr_hash (\<lambda>challenge_id. rbind rdr_hash (\<lambda>challenge_hash. rbind rdr_hash (\<lambda>subject.
     rbind (rdr_u64 FldValue) (\<lambda>nonce. rbind read_signature (\<lambda>signature.
       rret \<lparr>hx_version = version, hx_challenge_id = challenge_id, hx_challenge_hash = challenge_hash, hx_subject_key = subject,
         hx_nonce = nonce, hx_signature = signature\<rparr>))))))"

definition hashcash_decode :: "bytes \<Rightarrow> codec_error + hashcash_response" where
  "hashcash_decode = decode_within HASHCASH_RESPONSE_BYTES get_hashcash"

datatype respond_error = RespondSubject | RespondAlgorithm

definition respond_hashcash :: "crypto \<Rightarrow> verified_challenge \<Rightarrow> u64 \<Rightarrow> array32 \<Rightarrow> respond_error + hashcash_response" where
  "respond_hashcash C v nonce key =
     (if public_of C key \<noteq> ch_subject_key (vh_challenge v) then Inl RespondSubject
      else if ch_algorithm (vh_challenge v) \<noteq> AlgHashcash then Inl RespondAlgorithm
      else
      let unsigned = \<lparr>hx_version = BOT_VERSION, hx_challenge_id = ch_id (vh_challenge v),
            hx_challenge_hash = challenge_hash C (vh_challenge v), hx_subject_key = public_of C key, hx_nonce = nonce, hx_signature = 0\<rparr> in
      Inr (unsigned\<lparr>hx_signature := sign_bytes C key (hashcash_transcript unsigned)\<rparr>))"

end
