(* ===== verification/Session_Safety.thy ===== *)
theory Session_Safety
  imports Session Effects_Safety
begin

text \<open>
  The handshake packets as exact codecs, what a completed handshake proves to each side, that
  honest peers complete it with mirrored contexts, that the session then delivers chat in order,
  and the single-use guards of invitations.
\<close>

section \<open>Packet codec\<close>

definition packet_ok :: "u8 \<Rightarrow> packet \<Rightarrow> bool" where
  "packet_ok kind p \<longleftrightarrow> pk_kind p = kind \<and> pk_initiator_nonce p \<noteq> 0 \<and> (pk_responder_nonce p = 0 \<longleftrightarrow> kind = HELLO)"

definition packet_bytes :: "packet \<Rightarrow> bytes" where
  "packet_bytes p = packet_unsigned p @ to_be (pk_signature p)"

lemma length_session_magic [simp]: "length SESSION_MAGIC = 4"
  by (simp add: SESSION_MAGIC_def ascii_def)

lemma magic_nth [simp]: "(SESSION_MAGIC @ b # bs) ! 4 = b"
  using nth_append_length [of SESSION_MAGIC b bs] by simp

lemma split_array32: "32 \<le> length xs \<Longrightarrow> to_be (from_be (take 32 xs) :: array32) @ drop 32 xs = xs"
  using split_word [where 'a = 256, of xs] by simp

lemma whole_array64: "length xs = 64 \<Longrightarrow> to_be (from_be xs :: array64) = xs"
  by (simp add: to_be_from_be)

lemma hello_fields:
  assumes "length raw = 133"
  shows "raw = take 4 raw @ [raw ! 4] @ to_be (from_be (take 32 (drop 5 raw)) :: array32)
     @ to_be (from_be (take 32 (drop 37 raw)) :: array32) @ to_be (from_be (drop 69 raw) :: array64)"
proof -
  have 1: "to_be (from_be (take 32 (drop 5 raw)) :: array32) @ drop 37 raw = drop 5 raw"
    using split_array32 [of "drop 5 raw"] assms by simp
  have 2: "to_be (from_be (take 32 (drop 37 raw)) :: array32) @ drop 69 raw = drop 37 raw"
    using split_array32 [of "drop 37 raw"] assms by simp
  have 3: "to_be (from_be (drop 69 raw) :: array64) = drop 69 raw" using assms by (intro whole_array64) simp
  have "raw = take 4 raw @ [raw ! 4] @ drop 5 raw" using assms by (intro raw_frame_parts) simp
  then show ?thesis by (simp only: 3 2 1)
qed

lemma response_fields:
  assumes "length raw = 165"
  shows "raw = take 4 raw @ [raw ! 4] @ to_be (from_be (take 32 (drop 5 raw)) :: array32)
     @ to_be (from_be (take 32 (drop 37 raw)) :: array32) @ to_be (from_be (take 32 (drop 69 raw)) :: array32)
     @ to_be (from_be (drop 101 raw) :: array64)"
proof -
  have 1: "to_be (from_be (take 32 (drop 5 raw)) :: array32) @ drop 37 raw = drop 5 raw"
    using split_array32 [of "drop 5 raw"] assms by simp
  have 2: "to_be (from_be (take 32 (drop 37 raw)) :: array32) @ drop 69 raw = drop 37 raw"
    using split_array32 [of "drop 37 raw"] assms by simp
  have 3: "to_be (from_be (take 32 (drop 69 raw)) :: array32) @ drop 101 raw = drop 69 raw"
    using split_array32 [of "drop 69 raw"] assms by simp
  have 4: "to_be (from_be (drop 101 raw) :: array64) = drop 101 raw" using assms by (intro whole_array64) simp
  have "raw = take 4 raw @ [raw ! 4] @ drop 5 raw" using assms by (intro raw_frame_parts) simp
  then show ?thesis by (simp only: 4 3 2 1)
qed

lemma fresh_nonce_iff [simp]: "fresh_nonce n = Inr u \<longleftrightarrow> n \<noteq> 0"
  by (simp add: fresh_nonce_def)

interpretation packet_codec: frame_codec packet_bytes "\<lambda>raw. packet_decode raw kind" "packet_ok kind" for kind
proof
  fix p
  assume "packet_ok kind p"
  then show "packet_decode (packet_bytes p) kind = Inr p"
    by (auto simp: packet_decode_def packet_bytes_def packet_unsigned_def packet_ok_def from_be_to_be Let_def fresh_nonce_def)
next
  fix raw p
  assume d: "packet_decode raw kind = Inr p"
  show "packet_ok kind p \<and> packet_bytes p = raw"
  proof (cases "kind = HELLO")
    case True
    then have "length raw = 133" "take 4 raw = SESSION_MAGIC" "raw ! 4 = kind"
      and p: "p = \<lparr>pk_kind = kind, pk_pairing = from_be (take 32 (drop 5 raw)),
        pk_initiator_nonce = from_be (take 32 (drop 37 raw)), pk_responder_nonce = 0, pk_signature = from_be (drop 69 raw)\<rparr>"
      and "from_be (take 32 (drop 37 raw)) \<noteq> (0 :: array32)"
      using d by (simp_all add: packet_decode_def Let_def)
    then show ?thesis
      using hello_fields [of raw] True by (simp add: packet_ok_def packet_bytes_def packet_unsigned_def)
  next
    case False
    then have "length raw = 165" "take 4 raw = SESSION_MAGIC" "raw ! 4 = kind"
      and p: "p = \<lparr>pk_kind = kind, pk_pairing = from_be (take 32 (drop 5 raw)),
        pk_initiator_nonce = from_be (take 32 (drop 37 raw)), pk_responder_nonce = from_be (take 32 (drop 69 raw)),
        pk_signature = from_be (drop 101 raw)\<rparr>"
      and "from_be (take 32 (drop 37 raw)) \<noteq> (0 :: array32)" "from_be (take 32 (drop 69 raw)) \<noteq> (0 :: array32)"
      using d by (simp_all add: packet_decode_def Let_def)
    then show ?thesis
      using response_fields [of raw] False by (simp add: packet_ok_def packet_bytes_def packet_unsigned_def)
  qed
qed

section \<open>Exact outcomes\<close>

definition usable_key :: "crypto \<Rightarrow> array32 \<Rightarrow> bool" where
  "usable_key C k \<longleftrightarrow> key_point C k \<and> \<not> key_weak C k"

lemma session_checked_key_iff [simp]: "session_checked_key C b = Inr k \<longleftrightarrow> usable_key C b \<and> k = b"
  by (auto simp: session_checked_key_def usable_key_def)

definition pairing_ok :: "crypto \<Rightarrow> pairing \<Rightarrow> bool" where
  "pairing_ok C p \<longleftrightarrow> pr_initiator p \<noteq> pr_responder p \<and> usable_key C (pr_initiator p) \<and> usable_key C (pr_responder p)
     \<and> usable_key C (pr_initiator_transport p) \<and> usable_key C (pr_responder_transport p)"

lemma pairing_validate_iff [simp]: "pairing_validate C p = Inr u \<longleftrightarrow> pairing_ok C p"
  by (auto simp: pairing_validate_def pairing_ok_def)

lemma packet_verify_iff [simp]:
  "packet_verify C p k = Inr u \<longleftrightarrow> usable_key C k \<and> verify_strict C k (packet_transcript p) (pk_signature p)"
  by (auto simp: packet_verify_def)

text \<open>The session both sides build from a pairing, a role and a session identifier.\<close>

definition chat_of :: "crypto \<Rightarrow> pairing \<Rightarrow> role \<Rightarrow> u128 \<Rightarrow> u64 \<Rightarrow> chat_session" where
  "chat_of C p r sid now =
     (let context = \<lparr>vc_audience = peer_id_from_key C (pairing_local p r), vc_realm = pr_realm p, vc_room = pr_room p,
                     vc_epoch = pr_epoch p, vc_session = sid\<rparr> in
      \<lparr>cs_pairing = p, cs_peer = pairing_remote p r,
       cs_inbound = \<lparr>rw_context = context, rw_max_authors = 1, rw_last = bt_new\<rparr>,
       cs_outbound = context\<lparr>vc_audience := peer_id_from_key C (pairing_remote p r)\<rparr>, cs_next_sequence = 1,
       cs_last_now = now, cs_closed = False\<rparr>)"

lemma establish_iff [simp]:
  "establish C p r sid now = Inr cs \<longleftrightarrow>
   usable_key C (pairing_local p r) \<and> usable_key C (pairing_remote p r) \<and> cs = chat_of C p r sid now"
  by (auto simp: establish_def chat_of_def replay_new_def Let_def)

lemma packet_signed_eq:
  "packet_signed C p key = packet_bytes (p\<lparr>pk_signature := sign_bytes C key (packet_transcript p)\<rparr>)"
  by (simp add: packet_signed_def packet_bytes_def packet_unsigned_def)

lemma packet_transcript_signature [simp]: "packet_transcript (p\<lparr>pk_signature := g\<rparr>) = packet_transcript p"
  by (simp add: packet_transcript_def packet_unsigned_def)

lemma check_time_iff [simp]: "check_time pd now = Inr u \<longleftrightarrow> pd_started_at pd \<le> now \<and> now \<le> pd_deadline pd"
  by (auto simp: check_time_def)

lemma check_deadline_iff [simp]:
  "check_deadline p now dl = Inr d \<longleftrightarrow> now < dl \<and> now \<le> pr_expires_at p \<and> d = min dl (pr_expires_at p)"
  by (auto simp: check_deadline_def)

lemma check_local_iff [simp]:
  "check_local C p r key ol orem = Inr u \<longleftrightarrow> pairing_ok C p \<and> public_of C key = pairing_local p r
   \<and> (ol, orem) = (case r of Initiator \<Rightarrow> (pr_initiator_transport p, pr_responder_transport p)
                 | Responder \<Rightarrow> (pr_responder_transport p, pr_initiator_transport p))"
  by (auto simp: check_local_def Let_def split: role.splits)

definition hs_packet :: "crypto \<Rightarrow> pairing \<Rightarrow> u8 \<Rightarrow> array32 \<Rightarrow> array32 \<Rightarrow> array64 \<Rightarrow> packet" where
  "hs_packet C p kind ni nr g = \<lparr>pk_kind = kind, pk_pairing = pairing_digest C p, pk_initiator_nonce = ni,
     pk_responder_nonce = nr, pk_signature = g\<rparr>"

lemma hs_packet_fields [simp]:
  "pk_kind (hs_packet C p k ni nr g) = k" "pk_pairing (hs_packet C p k ni nr g) = pairing_digest C p"
  "pk_initiator_nonce (hs_packet C p k ni nr g) = ni" "pk_responder_nonce (hs_packet C p k ni nr g) = nr"
  "pk_signature (hs_packet C p k ni nr g) = g"
  "(hs_packet C p k ni nr g)\<lparr>pk_signature := g'\<rparr> = hs_packet C p k ni nr g'"
  "(hs_packet C p k ni nr g)\<lparr>pk_kind := k'\<rparr> = hs_packet C p k' ni nr g"
  "(hs_packet C p k ni nr g)\<lparr>pk_responder_nonce := nr'\<rparr> = hs_packet C p k ni nr' g"
  by (simp_all add: hs_packet_def)

text \<open>The bytes a peer signs; they do not depend on the signature field.\<close>

definition hs_message :: "crypto \<Rightarrow> pairing \<Rightarrow> u8 \<Rightarrow> array32 \<Rightarrow> array32 \<Rightarrow> bytes" where
  "hs_message C p kind ni nr = packet_transcript (hs_packet C p kind ni nr 0)"

lemma hs_transcript [simp]: "packet_transcript (hs_packet C p k ni nr g) = hs_message C p k ni nr"
  by (simp add: hs_message_def packet_transcript_def packet_unsigned_def)

text \<open>The session identifier depends on the pairing and the two nonces only.\<close>

definition hs_session :: "crypto \<Rightarrow> pairing \<Rightarrow> array32 \<Rightarrow> array32 \<Rightarrow> u128" where
  "hs_session C p ni nr = packet_session_id C (hs_packet C p CONFIRM ni nr 0)"

lemma hs_session_id [simp]: "packet_session_id C (hs_packet C p k ni nr g) = hs_session C p ni nr"
  by (simp add: hs_session_def packet_session_id_def)

lemma initiate_iff:
  "initiate C p key ol orem nonce now dl = Inr (pd, out) \<longleftrightarrow>
   pairing_ok C p \<and> public_of C key = pr_initiator p \<and> ol = pr_initiator_transport p \<and> orem = pr_responder_transport p
   \<and> now < dl \<and> now \<le> pr_expires_at p \<and> nonce \<noteq> 0
   \<and> pd = \<lparr>pd_pairing = p, pd_role = Initiator, pd_packet = hs_packet C p HELLO nonce 0 0, pd_started_at = now,
          pd_deadline = min dl (pr_expires_at p)\<rparr>
   \<and> out = packet_bytes (hs_packet C p HELLO nonce 0 (sign_bytes C key (hs_message C p HELLO nonce 0)))"
  by (auto simp: initiate_def Let_def pairing_local_def packet_signed_eq simp flip: hs_packet_def)

lemma packet_eqI:
  "pk_kind a = pk_kind b \<Longrightarrow> pk_pairing a = pk_pairing b \<Longrightarrow> pk_initiator_nonce a = pk_initiator_nonce b \<Longrightarrow>
   pk_responder_nonce a = pk_responder_nonce b \<Longrightarrow> pk_signature a = pk_signature b \<Longrightarrow> a = (b :: packet)"
  by (cases a; cases b) simp

text \<open>A decoded packet of the expected pairing, written with the fields that were checked.\<close>

lemma decode_packet_iff:
  "packet_decode raw kind = Inr pk \<and> pk_pairing pk = pairing_digest C p \<longleftrightarrow>
   (\<exists>ni nr g. pk = hs_packet C p kind ni nr g \<and> ni \<noteq> 0 \<and> (nr = 0 \<longleftrightarrow> kind = HELLO) \<and> raw = packet_bytes pk)"
proof
  assume "packet_decode raw kind = Inr pk \<and> pk_pairing pk = pairing_digest C p"
  then have "packet_ok kind pk" "raw = packet_bytes pk" "pk_pairing pk = pairing_digest C p"
    by (auto simp: packet_codec.dec_iff)
  moreover from this have "pk = hs_packet C p kind (pk_initiator_nonce pk) (pk_responder_nonce pk) (pk_signature pk)"
    by (intro packet_eqI) (simp_all add: packet_ok_def)
  ultimately show "\<exists>ni nr g. pk = hs_packet C p kind ni nr g \<and> ni \<noteq> 0 \<and> (nr = 0 \<longleftrightarrow> kind = HELLO) \<and> raw = packet_bytes pk"
    unfolding packet_ok_def by metis
next
  assume "\<exists>ni nr g. pk = hs_packet C p kind ni nr g \<and> ni \<noteq> 0 \<and> (nr = 0 \<longleftrightarrow> kind = HELLO) \<and> raw = packet_bytes pk"
  then show "packet_decode raw kind = Inr pk \<and> pk_pairing pk = pairing_digest C p"
    by (auto simp: packet_codec.dec_iff packet_ok_def)
qed

lemma ex_decode:
  "(\<exists>pk. (packet_decode raw kind = Inr pk \<and> pk_pairing pk = pairing_digest C p) \<and> P pk) \<longleftrightarrow>
   (\<exists>ni nr g. ni \<noteq> 0 \<and> (nr = 0 \<longleftrightarrow> kind = HELLO) \<and> raw = packet_bytes (hs_packet C p kind ni nr g)
      \<and> P (hs_packet C p kind ni nr g))"
  unfolding decode_packet_iff by blast

lemma ex_decode_nonce:
  "(\<exists>pk. (packet_decode raw kind = Inr pk \<and> pk_pairing pk = pairing_digest C p) \<and> pk_initiator_nonce pk = ni \<and> Q pk) \<longleftrightarrow>
   (\<exists>nr g. ni \<noteq> 0 \<and> (nr = 0 \<longleftrightarrow> kind = HELLO) \<and> raw = packet_bytes (hs_packet C p kind ni nr g)
      \<and> Q (hs_packet C p kind ni nr g))"
  unfolding ex_decode by auto

lemma ex_decode_nonces:
  "(\<exists>pk. (packet_decode raw kind = Inr pk \<and> pk_pairing pk = pairing_digest C p) \<and> pk_initiator_nonce pk = ni
      \<and> pk_responder_nonce pk = nr \<and> Q pk) \<longleftrightarrow>
   (\<exists>g. ni \<noteq> 0 \<and> (nr = 0 \<longleftrightarrow> kind = HELLO) \<and> raw = packet_bytes (hs_packet C p kind ni nr g)
      \<and> Q (hs_packet C p kind ni nr g))"
  unfolding ex_decode_nonce by auto

lemma respond_iff:
  "respond C p key ol orem hello nonce now dl = Inr (pd, out) \<longleftrightarrow>
   pairing_ok C p \<and> public_of C key = pr_responder p \<and> ol = pr_responder_transport p \<and> orem = pr_initiator_transport p
   \<and> now < dl \<and> now \<le> pr_expires_at p \<and> nonce \<noteq> 0
   \<and> (\<exists>ni g. ni \<noteq> 0 \<and> hello = packet_bytes (hs_packet C p HELLO ni 0 g)
        \<and> verify_strict C (pr_initiator p) (hs_message C p HELLO ni 0) g
        \<and> pd = \<lparr>pd_pairing = p, pd_role = Responder, pd_packet = hs_packet C p RESPONSE ni nonce g, pd_started_at = now,
               pd_deadline = min dl (pr_expires_at p)\<rparr>
        \<and> out = packet_bytes (hs_packet C p RESPONSE ni nonce (sign_bytes C key (hs_message C p RESPONSE ni nonce))))"
proof -
  have "respond C p key ol orem hello nonce now dl = Inr (pd, out) \<longleftrightarrow>
    (pairing_ok C p \<and> public_of C key = pr_responder p \<and> ol = pr_responder_transport p \<and> orem = pr_initiator_transport p
     \<and> now < dl \<and> now \<le> pr_expires_at p \<and> nonce \<noteq> 0)
    \<and> (\<exists>pk. (packet_decode hello HELLO = Inr pk \<and> pk_pairing pk = pairing_digest C p)
         \<and> verify_strict C (pr_initiator p) (packet_transcript pk) (pk_signature pk)
         \<and> pd = \<lparr>pd_pairing = p, pd_role = Responder, pd_packet = pk\<lparr>pk_kind := RESPONSE, pk_responder_nonce := nonce\<rparr>,
                pd_started_at = now, pd_deadline = min dl (pr_expires_at p)\<rparr>
         \<and> out = packet_signed C (pk\<lparr>pk_kind := RESPONSE, pk_responder_nonce := nonce\<rparr>) key)"
    by (auto simp: respond_def Let_def pairing_local_def pairing_ok_def)
  then show ?thesis unfolding ex_decode by (simp add: packet_signed_eq)
qed

lemma confirm_iff:
  assumes "pd = \<lparr>pd_pairing = p, pd_role = Initiator, pd_packet = hs_packet C p HELLO ni 0 0, pd_started_at = t0,
      pd_deadline = dl\<rparr>" and "pairing_ok C p"
  shows "confirm C pd raw key now = Inr (cs, out) \<longleftrightarrow>
    t0 \<le> now \<and> now \<le> dl \<and> public_of C key = pr_initiator p
    \<and> (\<exists>nr g. ni \<noteq> 0 \<and> nr \<noteq> 0 \<and> raw = packet_bytes (hs_packet C p RESPONSE ni nr g)
         \<and> verify_strict C (pr_responder p) (hs_message C p RESPONSE ni nr) g
         \<and> cs = chat_of C p Initiator (hs_session C p ni nr) now
         \<and> out = packet_bytes (hs_packet C p CONFIRM ni nr (sign_bytes C key (hs_message C p CONFIRM ni nr))))"
proof -
  have "confirm C pd raw key now = Inr (cs, out) \<longleftrightarrow>
    (t0 \<le> now \<and> now \<le> dl \<and> public_of C key = pr_initiator p)
    \<and> (\<exists>pk. (packet_decode raw RESPONSE = Inr pk \<and> pk_pairing pk = pairing_digest C p) \<and> pk_initiator_nonce pk = ni
         \<and> verify_strict C (pr_responder p) (packet_transcript pk) (pk_signature pk)
         \<and> cs = chat_of C p Initiator (packet_session_id C (pk\<lparr>pk_kind := CONFIRM\<rparr>)) now
         \<and> out = packet_signed C (pk\<lparr>pk_kind := CONFIRM\<rparr>) key)"
    using assms(2) by (auto simp: assms(1) confirm_def Let_def pairing_local_def pairing_remote_def pairing_ok_def)
  then show ?thesis unfolding ex_decode_nonce by (simp add: packet_signed_eq)
qed

lemma finish_iff:
  assumes "pd = \<lparr>pd_pairing = p, pd_role = Responder, pd_packet = hs_packet C p RESPONSE ni nr g0, pd_started_at = t0,
      pd_deadline = dl\<rparr>" and "pairing_ok C p"
  shows "finish C pd raw now = Inr cs \<longleftrightarrow>
    t0 \<le> now \<and> now \<le> dl
    \<and> (\<exists>g. ni \<noteq> 0 \<and> nr \<noteq> 0 \<and> raw = packet_bytes (hs_packet C p CONFIRM ni nr g)
         \<and> verify_strict C (pr_initiator p) (hs_message C p CONFIRM ni nr) g
         \<and> cs = chat_of C p Responder (hs_session C p ni nr) now)"
proof -
  have "finish C pd raw now = Inr cs \<longleftrightarrow>
    (t0 \<le> now \<and> now \<le> dl)
    \<and> (\<exists>pk. (packet_decode raw CONFIRM = Inr pk \<and> pk_pairing pk = pairing_digest C p)
         \<and> pk_initiator_nonce pk = ni \<and> pk_responder_nonce pk = nr
         \<and> verify_strict C (pr_initiator p) (packet_transcript pk) (pk_signature pk)
         \<and> cs = chat_of C p Responder (packet_session_id C pk) now)"
    using assms(2) by (auto simp: assms(1) finish_def Let_def pairing_local_def pairing_remote_def pairing_ok_def)
  then show ?thesis unfolding ex_decode_nonces by simp
qed

lemma hs_message_inject:
  "k \<noteq> HELLO \<Longrightarrow> hs_message C p k ni nr = hs_message C p' k' ni' nr' \<longleftrightarrow>
   k' = k \<and> pairing_digest C p' = pairing_digest C p \<and> ni' = ni \<and> nr' = nr"
  by (auto simp: hs_message_def packet_transcript_def packet_unsigned_def to_be_inject)

section \<open>Chat over an established pair\<close>

text \<open>
  A sender and a receiver that mirror each other: the sender's outbound context is the context the
  receiver checks, the sender signs with the key the receiver pinned, and the receiver has seen
  nothing the sender has yet to send.
\<close>

definition chat_link :: "crypto \<Rightarrow> array32 \<Rightarrow> chat_session \<Rightarrow> chat_session \<Rightarrow> u64 \<Rightarrow> bool" where
  "chat_link C key s r now \<longleftrightarrow>
     cs_pairing r = cs_pairing s \<and> \<not> cs_closed s \<and> \<not> cs_closed r \<and> cs_last_now s \<le> now \<and> cs_last_now r \<le> now
     \<and> cs_peer r = public_of C key \<and> \<not> key_weak C (cs_peer r)
     \<and> cs_outbound s = rw_context (cs_inbound r)
     \<and> vc_audience (rw_context (cs_inbound s)) = peer_id_from_key C (public_of C key)
     \<and> vc_realm (cs_outbound s) = pr_realm (cs_pairing s) \<and> vc_room (cs_outbound s) = pr_room (cs_pairing s)
     \<and> window_ok (cs_inbound r) \<and> rw_max_authors (cs_inbound r) = 1
     \<and> (\<forall>k. bt_get (rw_last (cs_inbound r)) k \<noteq> None \<longrightarrow> k = cs_peer r)
     \<and> (\<forall>q. bt_get (rw_last (cs_inbound r)) (cs_peer r) = Some q \<longrightarrow> q < cs_next_sequence s)"

text \<open>Prepare, sign for the outbound context until the pairing expires, encode and deliver, message by message.\<close>

fun chat_exchange ::
    "crypto \<Rightarrow> array32 \<Rightarrow> chat_session \<Rightarrow> chat_session \<Rightarrow> (bytes \<times> u64) list \<Rightarrow> verified_envelope list" where
  "chat_exchange C key s r [] = []"
| "chat_exchange C key s r ((body, now) # ms) =
     (case prepare_chat C s body now of
        (s', Inl _) \<Rightarrow> chat_exchange C key s' r ms
      | (s', Inr e) \<Rightarrow>
        (case bindR (sign_envelope_with_key C e (vc_audience (cs_outbound s')) (vc_epoch (cs_outbound s'))
                (vc_session (cs_outbound s')) (pr_expires_at (cs_pairing s')) key) signed_envelope_encode of
           Inl _ \<Rightarrow> chat_exchange C key s' r ms
         | Inr raw \<Rightarrow>
           (case chat_receive C r raw now of
              (r', Inl _) \<Rightarrow> chat_exchange C key s' r' ms
            | (r', Inr v) \<Rightarrow> v # chat_exchange C key s' r' ms)))"

definition chat_envelope :: "crypto \<Rightarrow> chat_session \<Rightarrow> bytes \<Rightarrow> envelope" where
  "chat_envelope C s body = \<lparr>en_kind = 1, en_author = vc_audience (rw_context (cs_inbound s)),
     en_realm = pr_realm (cs_pairing s), en_room = pr_room (cs_pairing s),
     en_event = chat_event_id C s (cs_next_sequence s), en_sequence = cs_next_sequence s, en_body = body\<rparr>"

lemma check_live_ok:
  "\<not> cs_closed cs \<Longrightarrow> cs_last_now cs \<le> now \<Longrightarrow> now \<le> pr_expires_at (cs_pairing cs) \<Longrightarrow>
   check_live cs now = (cs\<lparr>cs_last_now := now\<rparr>, Inr ())"
  by (auto simp: check_live_def)

lemma prepare_chat_ok:
  assumes "\<not> cs_closed s" and "cs_last_now s \<le> now" and "now \<le> pr_expires_at (cs_pairing s)"
    and "length body \<le> MAX_SIGNED_BODY_BYTES" and "checked_add (cs_next_sequence s) 1 = Some nxt"
  shows "prepare_chat C s body now = (s\<lparr>cs_last_now := now, cs_next_sequence := nxt\<rparr>, Inr (chat_envelope C s body))"
  using assms
  by (simp add: prepare_chat_def check_live_ok envelope_chat_def envelope_new_def chat_envelope_def chat_event_id_def Let_def)

lemma window_admits_fresh:
  assumes "window_ok w" and "rw_max_authors w = 1" and "\<forall>k. bt_get (rw_last w) k \<noteq> None \<longrightarrow> k = key"
    and "\<forall>q. bt_get (rw_last w) key = Some q \<longrightarrow> q < en_sequence (se_envelope s)"
    and "envelope_authentic C (rw_context w) s key now"
  shows "verify_and_accept C w s key now = Inr (accepted_window w s key, evidence_of w s key)"
proof -
  have "length (rw_last w) < 1" if "bt_get (rw_last w) key = None"
  proof -
    have "bt_get (rw_last w) k = None" for k using that assms(3) by (cases "k = key") auto
    then show ?thesis using assms(1) bt_empty_iff by (auto simp: window_ok_def)
  qed
  then show ?thesis using assms unfolding verify_and_accept_iff by (auto split: option.splits)
qed

lemma accepted_window_fresh:
  assumes "window_ok w" and "rw_max_authors w = 1" and "\<forall>k. bt_get (rw_last w) k \<noteq> None \<longrightarrow> k = key"
  shows "window_ok (accepted_window w s key) \<and> rw_max_authors (accepted_window w s key) = 1
    \<and> rw_context (accepted_window w s key) = rw_context w
    \<and> (\<forall>k. bt_get (rw_last (accepted_window w s key)) k \<noteq> None \<longrightarrow> k = key)
    \<and> bt_get (rw_last (accepted_window w s key)) key = Some (en_sequence (se_envelope s))"
proof -
  have ok: "bt_ok (rw_last w)" "length (rw_last w) \<le> 1" using assms by (simp_all add: window_ok_def)
  have "length (rw_last w) = 0" if "bt_get (rw_last w) key = None"
  proof -
    have "bt_get (rw_last w) k = None" for k using that assms(3) by (cases "k = key") auto
    then show ?thesis using ok(1) bt_empty_iff by auto
  qed
  then have "length (bt_insert key q (rw_last w)) \<le> 1" for q using ok by (simp add: btree.length_insert)
  then show ?thesis using assms ok by (simp add: accepted_window_def window_ok_def)
qed

lemma chat_step:
  assumes link: "chat_link C key s r now" and C: "sign_correct C"
    and now: "now \<le> pr_expires_at (cs_pairing s)" and body: "length body \<le> MAX_SIGNED_BODY_BYTES"
    and nxt: "checked_add (cs_next_sequence s) 1 = Some nxt"
  obtains r' where
    "chat_exchange C key s r ((body, now) # ms)
       = evidence_of (cs_inbound r) (signed_by C (chat_envelope C s body) (vc_audience (cs_outbound s))
            (vc_epoch (cs_outbound s)) (vc_session (cs_outbound s)) (pr_expires_at (cs_pairing s)) key) (cs_peer r)
         # chat_exchange C key (s\<lparr>cs_last_now := now, cs_next_sequence := nxt\<rparr>) r' ms"
    and "\<And>later. now \<le> later \<Longrightarrow> chat_link C key (s\<lparr>cs_last_now := now, cs_next_sequence := nxt\<rparr>) r' later"
proof -
  let ?e = "chat_envelope C s body" and ?o = "cs_outbound s" and ?x = "pr_expires_at (cs_pairing s)"
  let ?g = "signed_by C ?e (vc_audience ?o) (vc_epoch ?o) (vc_session ?o) ?x key"
  let ?r = "r\<lparr>cs_last_now := now, cs_inbound := accepted_window (cs_inbound r) ?g (cs_peer r)\<rparr>"
  note l = link [unfolded chat_link_def]
  have w: "window_ok (cs_inbound r)" "rw_max_authors (cs_inbound r) = 1"
    "\<forall>k. bt_get (rw_last (cs_inbound r)) k \<noteq> None \<longrightarrow> k = cs_peer r"
    using l by blast+
  have peer: "cs_peer r = public_of C key" "\<not> key_weak C (public_of C key)" using l by auto
  have size: "encoded_len ?e \<le> MAX_SIGNED_BYTES - SIGNED_OVERHEAD_BYTES"
    using body by (simp add: encoded_len_def chat_envelope_def)
  have author: "en_author ?e = peer_id_from_key C (public_of C key)" using l by (simp add: chat_envelope_def)
  have ok: "signed_envelope_ok ?g" using size body by (simp add: signed_envelope_ok_def envelope_ok_def chat_envelope_def)
  have sign: "sign_envelope_with_key C ?e (vc_audience ?o) (vc_epoch ?o) (vc_session ?o) ?x key = Inr ?g"
    and enc: "signed_envelope_encode ?g = Inr (signed_bytes ?g)"
    using sign_envelope_with_key_eq [OF size author] size by (simp_all add: signed_envelope_encode_iff)
  have ctx: "rw_context (cs_inbound r) = \<lparr>vc_audience = vc_audience ?o, vc_realm = en_realm ?e, vc_room = en_room ?e,
      vc_epoch = vc_epoch ?o, vc_session = vc_session ?o\<rparr>"
  proof -
    have "rw_context (cs_inbound r) = ?o" "en_realm ?e = vc_realm ?o" "en_room ?e = vc_room ?o"
      using l by (auto simp: chat_envelope_def)
    then show ?thesis by simp
  qed
  have "envelope_authentic C (rw_context (cs_inbound r)) ?g (cs_peer r) now"
    unfolding ctx peer(1) by (rule signed_by_authentic [OF C size author peer(2) now])
  moreover have "\<forall>q. bt_get (rw_last (cs_inbound r)) (cs_peer r) = Some q \<longrightarrow> q < en_sequence (se_envelope ?g)"
    using l by (simp add: chat_envelope_def)
  ultimately have acc: "verify_and_accept C (cs_inbound r) ?g (cs_peer r) now
      = Inr (accepted_window (cs_inbound r) ?g (cs_peer r), evidence_of (cs_inbound r) ?g (cs_peer r))"
    using window_admits_fresh [OF w] by blast
  have recv: "chat_receive C r (signed_bytes ?g) now = (?r, Inr (evidence_of (cs_inbound r) ?g (cs_peer r)))"
    using l now ok acc by (simp add: chat_receive_def check_live_ok signed_codec.dec_enc chat_envelope_def)
  have 1: "chat_exchange C key s r ((body, now) # ms) = evidence_of (cs_inbound r) ?g (cs_peer r)
      # chat_exchange C key (s\<lparr>cs_last_now := now, cs_next_sequence := nxt\<rparr>) ?r ms"
  proof -
    have "prepare_chat C s body now = (s\<lparr>cs_last_now := now, cs_next_sequence := nxt\<rparr>, Inr ?e)"
      using l now body nxt by (intro prepare_chat_ok) simp_all
    then show ?thesis by (simp add: sign enc recv)
  qed
  have "unat nxt = Suc (unat (cs_next_sequence s))" using nxt by (simp add: checked_add_one)
  then have lt: "cs_next_sequence s < nxt" by (simp add: word_less_nat_alt)
  have 2: "chat_link C key (s\<lparr>cs_last_now := now, cs_next_sequence := nxt\<rparr>) ?r later" if "now \<le> later" for later
  proof -
    define w' where "w' = accepted_window (cs_inbound r) ?g (cs_peer r)"
    have "en_sequence (se_envelope ?g) = cs_next_sequence s" by (simp add: chat_envelope_def)
    with accepted_window_fresh [OF w, of ?g, folded w'_def]
    have "window_ok w'" "rw_max_authors w' = 1" "rw_context w' = rw_context (cs_inbound r)"
      "\<forall>k. bt_get (rw_last w') k \<noteq> None \<longrightarrow> k = cs_peer r" "bt_get (rw_last w') (cs_peer r) = Some (cs_next_sequence s)"
      by simp_all
    then show ?thesis
      unfolding chat_link_def w'_def [symmetric] using l that lt by (auto intro: order_trans)
  qed
  show ?thesis by (rule that [OF 1 2])
qed

lemma chat_exchange_linked:
  assumes "sign_correct C" and "chat_link C key s r t"
    and "sorted_wrt (\<le>) (t # map snd ms)" and "\<forall>(body, now)\<in>set ms. length body \<le> MAX_SIGNED_BODY_BYTES
      \<and> now \<le> pr_expires_at (cs_pairing s)"
    and "unat (cs_next_sequence s) + length ms < 2 ^ 64"
  shows "map (\<lambda>v. (ve_signer_key v, en_body (ve_envelope v))) (chat_exchange C key s r ms)
    = map (\<lambda>(body, now). (public_of C key, body)) ms"
  using assms(2-)
proof (induction ms arbitrary: s r t)
  case Nil
  then show ?case by simp
next
  case (Cons m ms)
  obtain body now where m: "m = (body, now)" by (cases m)
  have link: "chat_link C key s r now"
    using Cons.prems(1,2) by (auto simp: chat_link_def m intro: order_trans)
  have peer: "cs_peer r = public_of C key" using link by (simp add: chat_link_def)
  obtain nxt where nxt: "checked_add (cs_next_sequence s) 1 = Some nxt"
    using Cons.prems(4) by (auto simp: checked_add_def)
  then have n: "unat nxt = Suc (unat (cs_next_sequence s))" by (simp add: checked_add_one)
  have b: "length body \<le> MAX_SIGNED_BODY_BYTES" "now \<le> pr_expires_at (cs_pairing s)"
    using Cons.prems(3) by (auto simp: m simp del: MAX_SIGNED_BODY_BYTES_def)
  obtain r' where r': "chat_exchange C key s r ((body, now) # ms)
       = evidence_of (cs_inbound r) (signed_by C (chat_envelope C s body) (vc_audience (cs_outbound s))
            (vc_epoch (cs_outbound s)) (vc_session (cs_outbound s)) (pr_expires_at (cs_pairing s)) key) (cs_peer r)
         # chat_exchange C key (s\<lparr>cs_last_now := now, cs_next_sequence := nxt\<rparr>) r' ms"
    "chat_link C key (s\<lparr>cs_last_now := now, cs_next_sequence := nxt\<rparr>) r' now"
    by (rule chat_step [OF link assms(1) b(2,1) nxt, of ms]) blast
  have "map (\<lambda>v. (ve_signer_key v, en_body (ve_envelope v)))
      (chat_exchange C key (s\<lparr>cs_last_now := now, cs_next_sequence := nxt\<rparr>) r' ms)
      = map (\<lambda>(body, now). (public_of C key, body)) ms"
    using Cons.prems(2-4) n by (intro Cons.IH [OF r'(2)]) (auto simp: m)
  then show ?case by (simp add: m r'(1) evidence_of_def chat_envelope_def peer del: chat_exchange.simps)
qed

section \<open>Properties\<close>

text \<open>
  C17. A completed handshake authenticates the peer and is fresh. The initiator accepts exactly
  a response, before its deadline, that carries this pairing and its own nonce with some nonzero
  responder nonce and the responder's signature over all three; the responder, having answered a hello
  signed by the initiator, accepts exactly a confirmation, before its deadline, that carries the
  initiator's signature over this pairing, the nonce of that hello and the responder's own fresh
  nonce. A response or a confirmation made for any other pairing digest or nonce is over different bytes. Each side then
  holds the session determined by the pairing and the two nonces.
\<close>

theorem handshake_authenticated:
  assumes "initiate C p ki oli ori ni t0 d0 = Inr (pdi, hello)"
    and "respond C p' kr olr orr hello' nr t1 d1 = Inr (pdr, out)"
  shows "(hs_message C p RESPONSE ni nr1 = hs_message C p1 k1 n1 m1 \<longleftrightarrow>
      k1 = RESPONSE \<and> pairing_digest C p1 = pairing_digest C p \<and> n1 = ni \<and> m1 = nr1)
    \<and> (confirm C pdi raw ki now = Inr (ci, conf) \<longleftrightarrow>
      t0 \<le> now \<and> now \<le> min d0 (pr_expires_at p)
      \<and> (\<exists>nr' g. nr' \<noteq> 0 \<and> raw = packet_bytes (hs_packet C p RESPONSE ni nr' g)
           \<and> verify_strict C (pr_responder p) (hs_message C p RESPONSE ni nr') g
           \<and> ci = chat_of C p Initiator (hs_session C p ni nr') now
           \<and> conf = packet_bytes (hs_packet C p CONFIRM ni nr' (sign_bytes C ki (hs_message C p CONFIRM ni nr')))))
    \<and> (\<exists>ni' g0. hello' = packet_bytes (hs_packet C p' HELLO ni' 0 g0) \<and> ni' \<noteq> 0
         \<and> verify_strict C (pr_initiator p') (hs_message C p' HELLO ni' 0) g0
         \<and> (finish C pdr raw now = Inr cr \<longleftrightarrow>
             t1 \<le> now \<and> now \<le> min d1 (pr_expires_at p')
             \<and> (\<exists>g. raw = packet_bytes (hs_packet C p' CONFIRM ni' nr g)
                  \<and> verify_strict C (pr_initiator p') (hs_message C p' CONFIRM ni' nr) g
                  \<and> cr = chat_of C p' Responder (hs_session C p' ni' nr) now))
         \<and> (hs_message C p' CONFIRM ni' nr = hs_message C p2 k2 n2 m2 \<longleftrightarrow>
             k2 = CONFIRM \<and> pairing_digest C p2 = pairing_digest C p' \<and> n2 = ni' \<and> m2 = nr))"
proof -
  have i: "pairing_ok C p" "public_of C ki = pr_initiator p" "ni \<noteq> 0"
    "pdi = \<lparr>pd_pairing = p, pd_role = Initiator, pd_packet = hs_packet C p HELLO ni 0 0, pd_started_at = t0,
            pd_deadline = min d0 (pr_expires_at p)\<rparr>"
    using assms(1) unfolding initiate_iff by blast+
  obtain ni' g0 where r: "pairing_ok C p'" "nr \<noteq> 0" "ni' \<noteq> 0" "hello' = packet_bytes (hs_packet C p' HELLO ni' 0 g0)"
    "verify_strict C (pr_initiator p') (hs_message C p' HELLO ni' 0) g0"
    "pdr = \<lparr>pd_pairing = p', pd_role = Responder, pd_packet = hs_packet C p' RESPONSE ni' nr g0, pd_started_at = t1,
            pd_deadline = min d1 (pr_expires_at p')\<rparr>"
    using assms(2) unfolding respond_iff by blast
  have "confirm C pdi raw ki now = Inr (ci, conf) \<longleftrightarrow>
      t0 \<le> now \<and> now \<le> min d0 (pr_expires_at p)
      \<and> (\<exists>nr' g. nr' \<noteq> 0 \<and> raw = packet_bytes (hs_packet C p RESPONSE ni nr' g)
           \<and> verify_strict C (pr_responder p) (hs_message C p RESPONSE ni nr') g
           \<and> ci = chat_of C p Initiator (hs_session C p ni nr') now
           \<and> conf = packet_bytes (hs_packet C p CONFIRM ni nr' (sign_bytes C ki (hs_message C p CONFIRM ni nr'))))"
    unfolding confirm_iff [OF i(4,1)] using i(2,3) by simp
  moreover have "finish C pdr raw now = Inr cr \<longleftrightarrow>
             t1 \<le> now \<and> now \<le> min d1 (pr_expires_at p')
             \<and> (\<exists>g. raw = packet_bytes (hs_packet C p' CONFIRM ni' nr g)
                  \<and> verify_strict C (pr_initiator p') (hs_message C p' CONFIRM ni' nr) g
                  \<and> cr = chat_of C p' Responder (hs_session C p' ni' nr) now)"
    unfolding finish_iff [OF r(6,1)] using r(2,3) by simp
  moreover have "hs_message C p' CONFIRM ni' nr = hs_message C p2 k2 n2 m2 \<longleftrightarrow>
             k2 = CONFIRM \<and> pairing_digest C p2 = pairing_digest C p' \<and> n2 = ni' \<and> m2 = nr"
    by (intro hs_message_inject) simp
  moreover have "hs_message C p RESPONSE ni nr1 = hs_message C p1 k1 n1 m1 \<longleftrightarrow>
      k1 = RESPONSE \<and> pairing_digest C p1 = pairing_digest C p \<and> n1 = ni \<and> m1 = nr1"
    by (intro hs_message_inject) simp
  ultimately show ?thesis using r(3-5) by blast
qed

definition ex_pairing :: pairing where
  "ex_pairing = \<lparr>pr_initiator = 2, pr_responder = 3, pr_initiator_transport = 4, pr_responder_transport = 5, pr_realm = 6,
     pr_room = 7, pr_epoch = 8, pr_expires_at = 100\<rparr>"

lemma ex_pairing_ok: "pairing_ok toy_crypto ex_pairing"
  by (simp add: pairing_ok_def ex_pairing_def usable_key_def toy_crypto_def)

lemma toy_public: "public_of toy_crypto k = k"
  by (simp add: toy_crypto_def)

lemma toy_verifies: "verify_strict toy_crypto k m (sign_bytes toy_crypto k m)"
  by (simp add: toy_crypto_def)

theorem handshake_authenticated_witness:
  "\<exists>pdi hello pdr out ci conf. initiate toy_crypto ex_pairing 2 4 5 11 0 50 = Inr (pdi, hello)
   \<and> respond toy_crypto ex_pairing 3 5 4 hello 12 0 50 = Inr (pdr, out)
   \<and> confirm toy_crypto pdi out 2 20 = Inr (ci, conf)"
proof -
  let ?g = "\<lambda>k ni nr. sign_bytes toy_crypto 2 (hs_message toy_crypto ex_pairing k ni nr)"
  obtain pdi where i: "initiate toy_crypto ex_pairing 2 4 5 11 0 50
      = Inr (pdi, packet_bytes (hs_packet toy_crypto ex_pairing HELLO 11 0 (?g HELLO 11 0)))"
    unfolding initiate_iff using ex_pairing_ok by (simp add: ex_pairing_def toy_public)
  have f: "public_of toy_crypto 3 = pr_responder ex_pairing" "5 = pr_responder_transport ex_pairing"
    "4 = pr_initiator_transport ex_pairing" "(0 :: u64) < 50" "0 \<le> pr_expires_at ex_pairing" "(12 :: array32) \<noteq> 0"
    "(11 :: array32) \<noteq> 0" "verify_strict toy_crypto (pr_initiator ex_pairing) m (sign_bytes toy_crypto 2 m)" for m
    using toy_verifies [of 2] by (simp_all add: ex_pairing_def toy_public)
  obtain pdr where r: "respond toy_crypto ex_pairing 3 5 4
      (packet_bytes (hs_packet toy_crypto ex_pairing HELLO 11 0 (?g HELLO 11 0))) 12 0 50
      = Inr (pdr, packet_bytes (hs_packet toy_crypto ex_pairing RESPONSE 11 12
              (sign_bytes toy_crypto 3 (hs_message toy_crypto ex_pairing RESPONSE 11 12))))"
    unfolding respond_iff using ex_pairing_ok f by blast
  have t: "(0 :: u64) \<le> 20" "(20 :: u64) \<le> min 50 (pr_expires_at ex_pairing)" "(12 :: array32) \<noteq> 0"
    by (simp_all add: ex_pairing_def)
  have v: "verify_strict toy_crypto (pr_responder ex_pairing) m (sign_bytes toy_crypto 3 m)" for m
    using toy_verifies [of 3] by (simp add: ex_pairing_def)
  have "confirm toy_crypto pdi (packet_bytes (hs_packet toy_crypto ex_pairing RESPONSE 11 12
              (sign_bytes toy_crypto 3 (hs_message toy_crypto ex_pairing RESPONSE 11 12)))) 2 20
      = Inr (chat_of toy_crypto ex_pairing Initiator (hs_session toy_crypto ex_pairing 11 12) 20,
             packet_bytes (hs_packet toy_crypto ex_pairing CONFIRM 11 12 (?g CONFIRM 11 12)))"
    by (rule iffD2 [OF conjunct1 [OF conjunct2 [OF handshake_authenticated [OF i r]]]]) (intro conjI t exI [of _ 12] exI [of _ "sign_bytes toy_crypto 3 (hs_message toy_crypto ex_pairing RESPONSE 11 12)"] refl v)
  with i r show ?thesis by blast
qed

text \<open>
  C18. Honest peers complete the handshake. Two peers that hold the same valid pairing and their own
  keys, see each other's pinned transport keys, use nonzero nonces and act within their deadlines and the
  pairing's lifetime exchange hello, response and confirmation without a refusal, and end in
  sessions of the same identifier, one for each role.
\<close>

theorem honest_handshake_completes:
  assumes "sign_correct C" and "pairing_ok C p"
    and "public_of C ki = pr_initiator p" and "public_of C kr = pr_responder p" and "ni \<noteq> 0" and "nr \<noteq> 0"
    and "t0 < d0" and "t0 \<le> t2" and "t2 \<le> d0" and "t2 \<le> pr_expires_at p"
    and "t1 < d1" and "t1 \<le> t3" and "t3 \<le> d1" and "t3 \<le> pr_expires_at p"
  shows "\<exists>pdi hello pdr response confirmation.
     initiate C p ki (pr_initiator_transport p) (pr_responder_transport p) ni t0 d0 = Inr (pdi, hello)
     \<and> respond C p kr (pr_responder_transport p) (pr_initiator_transport p) hello nr t1 d1 = Inr (pdr, response)
     \<and> confirm C pdi response ki t2
        = Inr (chat_of C p Initiator (hs_session C p ni nr) t2, confirmation)
     \<and> finish C pdr confirmation t3
        = Inr (chat_of C p Responder (hs_session C p ni nr) t3)"
proof -
  let ?h = "packet_bytes (hs_packet C p HELLO ni 0 (sign_bytes C ki (hs_message C p HELLO ni 0)))"
  let ?r = "packet_bytes (hs_packet C p RESPONSE ni nr (sign_bytes C kr (hs_message C p RESPONSE ni nr)))"
  let ?c = "packet_bytes (hs_packet C p CONFIRM ni nr (sign_bytes C ki (hs_message C p CONFIRM ni nr)))"
  let ?sid = "hs_session C p ni nr"
  let ?pdi = "\<lparr>pd_pairing = p, pd_role = Initiator, pd_packet = hs_packet C p HELLO ni 0 0, pd_started_at = t0,
            pd_deadline = min d0 (pr_expires_at p)\<rparr>"
  let ?pdr = "\<lparr>pd_pairing = p, pd_role = Responder,
            pd_packet = hs_packet C p RESPONSE ni nr (sign_bytes C ki (hs_message C p HELLO ni 0)), pd_started_at = t1,
            pd_deadline = min d1 (pr_expires_at p)\<rparr>"
  have exp: "t0 \<le> pr_expires_at p" "t1 \<le> pr_expires_at p" using assms by (auto intro: order_trans)
  have ver: "verify_strict C (pr_initiator p) m (sign_bytes C ki m)" "verify_strict C (pr_responder p) m (sign_bytes C kr m)" for m
    using sign_correctD [OF assms(1)] assms(3,4) by blast+
  have 1: "initiate C p ki (pr_initiator_transport p) (pr_responder_transport p) ni t0 d0 = Inr (?pdi, ?h)"
    unfolding initiate_iff using assms exp by simp
  have 2: "respond C p kr (pr_responder_transport p) (pr_initiator_transport p) ?h nr t1 d1 = Inr (?pdr, ?r)"
    unfolding respond_iff using assms exp ver(1) by blast
  have 3: "confirm C ?pdi ?r ki t2 = Inr (chat_of C p Initiator ?sid t2, ?c)"
    unfolding confirm_iff [OF refl assms(2)] using assms ver(2) by auto
  have 4: "finish C ?pdr ?c t3 = Inr (chat_of C p Responder ?sid t3)"
    unfolding finish_iff [OF refl assms(2)] using assms ver(1) by auto
  show ?thesis using 1 2 3 4 by blast
qed

theorem honest_handshake_completes_witness:
  "\<exists>pdi hello pdr response confirmation.
     initiate toy_crypto ex_pairing 2 4 5 11 0 50 = Inr (pdi, hello)
     \<and> respond toy_crypto ex_pairing 3 5 4 hello 12 1 50 = Inr (pdr, response)
     \<and> confirm toy_crypto pdi response 2 20
        = Inr (chat_of toy_crypto ex_pairing Initiator (hs_session toy_crypto ex_pairing 11 12) 20, confirmation)
     \<and> finish toy_crypto pdr confirmation 21
        = Inr (chat_of toy_crypto ex_pairing Responder (hs_session toy_crypto ex_pairing 11 12) 21)"
  using honest_handshake_completes [OF toy_sign_correct ex_pairing_ok, of 2 3 11 12 0 50 20 1 50 21]
  by (simp add: ex_pairing_def toy_public)

definition other_role :: "role \<Rightarrow> role" where
  "other_role r = (case r of Initiator \<Rightarrow> Responder | Responder \<Rightarrow> Initiator)"

lemma established_linked:
  assumes "pairing_ok C p" and "public_of C key = pairing_local p r" and "t0 \<le> t" and "t1 \<le> t"
  shows "chat_link C key (chat_of C p r sid t0) (chat_of C p (other_role r) sid t1) t"
  using assms
  by (cases r) (simp_all add: chat_link_def chat_of_def other_role_def pairing_local_def pairing_remote_def Let_def
      pairing_ok_def usable_key_def window_ok_def bt_new_def bt_ok_def bt_get_def)

text \<open>
  C19. An established pair delivers chat in order and completely. Let the two sessions of one
  handshake be given, in either direction, and let the sender prepare, sign and send messages of at most
  65341 bytes at non-decreasing times within the pairing's lifetime. The receiver accepts every one
  of them, in order, as evidence of the sender's full key and exactly the sent body.
\<close>

theorem chat_delivered_in_order:
  assumes "sign_correct C" and "pairing_ok C p" and "public_of C key = pairing_local p r"
    and "sorted_wrt (\<le>) (max t0 t1 # map snd ms)"
    and "\<forall>(body, now)\<in>set ms. length body \<le> 65341 \<and> now \<le> pr_expires_at p" and "length ms < 2 ^ 64 - 1"
  shows "map (\<lambda>v. (ve_signer_key v, en_body (ve_envelope v)))
      (chat_exchange C key (chat_of C p r sid t0) (chat_of C p (other_role r) sid t1) ms)
    = map (\<lambda>(body, now). (pairing_local p r, body)) ms"
proof -
  have link: "chat_link C key (chat_of C p r sid t0) (chat_of C p (other_role r) sid t1) (max t0 t1)"
    by (rule established_linked [OF assms(2,3)]) simp_all
  show ?thesis
    unfolding assms(3) [symmetric] using assms(4-)
    by (intro chat_exchange_linked [OF assms(1) link]) (auto simp: chat_of_def Let_def)
qed

theorem chat_delivered_in_order_witness:
  "map (\<lambda>v. (ve_signer_key v, en_body (ve_envelope v)))
     (chat_exchange toy_crypto 2 (chat_of toy_crypto ex_pairing Initiator 77 20) (chat_of toy_crypto ex_pairing Responder 77 21)
        [([1, 2], 30), ([3], 31)])
   = [(2, [1, 2]), (2, [3])]"
  using chat_delivered_in_order [OF toy_sign_correct ex_pairing_ok, of 2 Initiator 20 21 "[([1, 2], 30), ([3], 31)]" 77]
  by (simp add: ex_pairing_def toy_public pairing_local_def other_role_def)

section \<open>Invitations and spent nonces\<close>

definition invitation_ok :: "crypto \<Rightarrow> invitation \<Rightarrow> bool" where
  "invitation_ok C iv \<longleftrightarrow> ic_expires_at (iv_claims iv) \<noteq> 0 \<and> ic_nonce (iv_claims iv) \<noteq> 0
     \<and> ic_owner (iv_claims iv) \<noteq> ic_invitee (iv_claims iv)
     \<and> usable_key C (ic_owner (iv_claims iv)) \<and> usable_key C (ic_invitee (iv_claims iv))"

lemma invitation_key_iff [simp]: "invitation_key C b = Inr k \<longleftrightarrow> usable_key C b \<and> k = b"
  by (auto simp: invitation_key_def usable_key_def)

lemma validate_keys_iff [simp]:
  "validate_keys C a b = Inr u \<longleftrightarrow> a \<noteq> b \<and> usable_key C a \<and> usable_key C b"
  by (auto simp: validate_keys_def)

lemma length_invitation_magic [simp]: "length INVITATION_MAGIC = 4"
  by (simp add: INVITATION_MAGIC_def ascii_def)

lemma invitation_magic_nth [simp]: "(INVITATION_MAGIC @ b # bs) ! 4 = b"
  using nth_append_length [of INVITATION_MAGIC b bs] by simp

lemma split_u128: "16 \<le> length xs \<Longrightarrow> to_be (from_be (take 16 xs) :: u128) @ drop 16 xs = xs"
  using split_word [where 'a = 128, of xs] by simp

lemma split_u64: "8 \<le> length xs \<Longrightarrow> to_be (from_be (take 8 xs) :: u64) @ drop 8 xs = xs"
  using split_word [where 'a = 64, of xs] by simp

lemma invitation_fields:
  assumes "length raw = 213"
  shows "raw = take 4 raw @ [raw ! 4] @ to_be (from_be (take 32 (drop 5 raw)) :: array32)
     @ to_be (from_be (take 32 (drop 37 raw)) :: array32) @ to_be (from_be (take 16 (drop 69 raw)) :: u128)
     @ to_be (from_be (take 16 (drop 85 raw)) :: u128) @ to_be (from_be (take 8 (drop 101 raw)) :: u64)
     @ to_be (from_be (take 8 (drop 109 raw)) :: u64) @ to_be (from_be (take 32 (drop 117 raw)) :: array32)
     @ to_be (from_be (drop 149 raw) :: array64)"
proof -
  have 1: "to_be (from_be (take 32 (drop 5 raw)) :: array32) @ drop 37 raw = drop 5 raw"
    using split_array32 [of "drop 5 raw"] assms by simp
  have 2: "to_be (from_be (take 32 (drop 37 raw)) :: array32) @ drop 69 raw = drop 37 raw"
    using split_array32 [of "drop 37 raw"] assms by simp
  have 3: "to_be (from_be (take 16 (drop 69 raw)) :: u128) @ drop 85 raw = drop 69 raw"
    using split_u128 [of "drop 69 raw"] assms by simp
  have 4: "to_be (from_be (take 16 (drop 85 raw)) :: u128) @ drop 101 raw = drop 85 raw"
    using split_u128 [of "drop 85 raw"] assms by simp
  have 5: "to_be (from_be (take 8 (drop 101 raw)) :: u64) @ drop 109 raw = drop 101 raw"
    using split_u64 [of "drop 101 raw"] assms by simp
  have 6: "to_be (from_be (take 8 (drop 109 raw)) :: u64) @ drop 117 raw = drop 109 raw"
    using split_u64 [of "drop 109 raw"] assms by simp
  have 7: "to_be (from_be (take 32 (drop 117 raw)) :: array32) @ drop 149 raw = drop 117 raw"
    using split_array32 [of "drop 117 raw"] assms by simp
  have 8: "to_be (from_be (drop 149 raw) :: array64) = drop 149 raw" using assms by (intro whole_array64) simp
  have "raw = take 4 raw @ [raw ! 4] @ drop 5 raw" using assms by (intro raw_frame_parts) simp
  then show ?thesis by (simp only: 8 7 6 5 4 3 2 1)
qed

interpretation invitation_codec: frame_codec invitation_encode "invitation_decode C" "invitation_ok C" for C
proof
  fix iv
  assume "invitation_ok C iv"
  then show "invitation_decode C (invitation_encode iv) = Inr iv"
    by (simp add: invitation_decode_def invitation_encode_def invitation_unsigned_def invitation_ok_def from_be_to_be Let_def)
next
  fix raw iv
  assume "invitation_decode C raw = Inr iv"
  then have h: "length raw = 213" "take 4 raw = INVITATION_MAGIC" "raw ! 4 = 1"
    and n: "from_be (take 8 (drop 109 raw)) \<noteq> (0 :: u64)" "from_be (take 32 (drop 117 raw)) \<noteq> (0 :: array32)"
      "from_be (take 32 (drop 5 raw)) \<noteq> (from_be (take 32 (drop 37 raw)) :: array32)"
      "usable_key C (from_be (take 32 (drop 5 raw)))" "usable_key C (from_be (take 32 (drop 37 raw)))"
    and iv: "iv = \<lparr>iv_claims = \<lparr>ic_owner = from_be (take 32 (drop 5 raw)), ic_invitee = from_be (take 32 (drop 37 raw)),
                 ic_realm = from_be (take 16 (drop 69 raw)), ic_room = from_be (take 16 (drop 85 raw)),
                 ic_epoch = from_be (take 8 (drop 101 raw)), ic_expires_at = from_be (take 8 (drop 109 raw)),
                 ic_nonce = from_be (take 32 (drop 117 raw))\<rparr>, iv_signature = from_be (drop 149 raw)\<rparr>"
    by (simp_all add: invitation_decode_def Let_def)
  have "invitation_ok C iv" using n by (simp add: iv invitation_ok_def)
  moreover have "invitation_encode iv = raw"
    using invitation_fields [OF h(1)] h(2,3) unfolding iv by (simp add: invitation_encode_def invitation_unsigned_def)
  ultimately show "invitation_ok C iv \<and> invitation_encode iv = raw" by blast
qed

lemma verify_at_iff:
  "verify_at C iv owner now = Inr c \<longleftrightarrow>
   ic_owner (iv_claims iv) = owner \<and> usable_key C owner \<and> now < ic_expires_at (iv_claims iv) \<and> c = iv_claims iv
   \<and> verify_strict C owner (invitation_transcript (iv_claims iv)) (iv_signature iv)"
  by (auto simp: verify_at_def verify_for_def not_le)

lemma invitation_issue_iff:
  "invitation_issue C owner invitee realm room epoch expires nonce = Inr iv \<longleftrightarrow>
   public_of C owner \<noteq> invitee \<and> usable_key C (public_of C owner) \<and> usable_key C invitee \<and> expires \<noteq> 0 \<and> nonce \<noteq> 0
   \<and> iv_claims iv = \<lparr>ic_owner = public_of C owner, ic_invitee = invitee, ic_realm = realm, ic_room = room,
                     ic_epoch = epoch, ic_expires_at = expires, ic_nonce = nonce\<rparr>
   \<and> iv_signature iv = sign_bytes C owner (invitation_transcript (iv_claims iv))"
  by (cases iv) (auto simp: invitation_issue_def Let_def)

text \<open>
  Invitations mean what their owner signed. Decoding accepts exactly the 213-byte encodings of
  invitations with a lifetime, a nonce and two distinct usable keys. Verification at a time returns the
  claims exactly when the expected owner is the embedded one, its strict signature covers all of
  them and the time is before the expiry. What an owner issues survives encoding and verifies for that
  owner at exactly the times before its expiry.
\<close>

theorem invitation_exact:
  assumes "sign_correct C" and "invitation_issue C owner invitee realm room epoch expires nonce = Inr iv"
  shows "(invitation_decode C raw = Inr iv' \<longleftrightarrow> invitation_ok C iv' \<and> invitation_encode iv' = raw)
    \<and> (verify_at C iv' key now = Inr c \<longleftrightarrow>
        ic_owner (iv_claims iv') = key \<and> usable_key C key \<and> now < ic_expires_at (iv_claims iv') \<and> c = iv_claims iv'
        \<and> verify_strict C key (invitation_transcript (iv_claims iv')) (iv_signature iv'))
    \<and> invitation_decode C (invitation_encode iv) = Inr iv
    \<and> verify_at C iv (public_of C owner) now = (if now < expires then Inr (iv_claims iv) else Inl InvExpired)"
proof -
  note i = assms(2) [unfolded invitation_issue_iff]
  have ok: "invitation_ok C iv" using i by (simp add: invitation_ok_def)
  have v: "verify_strict C (public_of C owner) (invitation_transcript (iv_claims iv)) (iv_signature iv)"
    using i sign_correctD [OF assms(1) refl] by simp
  have "verify_for C iv (public_of C owner) = Inr (iv_claims iv)"
    using i v by (simp add: verify_for_def)
  then have "verify_at C iv (public_of C owner) now = (if now < expires then Inr (iv_claims iv) else Inl InvExpired)"
    using i by (auto simp: verify_at_def)
  then show ?thesis
    using invitation_codec.dec_iff invitation_codec.dec_enc [OF ok] verify_at_iff by blast
qed

theorem invitation_exact_witness:
  "\<exists>iv. invitation_issue toy_crypto 2 3 4 5 6 100 9 = Inr iv \<and> invitation_decode toy_crypto (invitation_encode iv) = Inr iv
    \<and> verify_at toy_crypto iv 2 99 = Inr (iv_claims iv)"
proof -
  obtain iv where iv: "invitation_issue toy_crypto 2 3 4 5 6 100 9 = Inr iv"
    by (simp add: invitation_issue_def Let_def toy_public usable_key_def toy_crypto_def validate_keys_def invitation_key_def)
  have "invitation_decode toy_crypto (invitation_encode iv) = Inr iv"
    "verify_at toy_crypto iv (public_of toy_crypto 2) 99 = (if (99 :: u64) < 100 then Inr (iv_claims iv) else Inl InvExpired)"
    using invitation_exact [OF toy_sign_correct iv, of "[]" iv 2 99 "iv_claims iv"] by blast+
  with iv show ?thesis by (simp add: toy_public)
qed

lemma consume_iff:
  "consume g n = Inr g' \<longleftrightarrow> n \<noteq> 0 \<and> bt_get (sn_spent g) n = None \<and> length (sn_spent g) < sn_capacity g
   \<and> g' = g\<lparr>sn_spent := bt_insert n () (sn_spent g)\<rparr>"
  by (cases "bt_get (sn_spent g) n") (auto simp: consume_def bt_contains_def)

interpretation spent: replay_guard consume "\<lambda>n. n" "\<lambda>_. ()" "\<lambda>g. bt_get (sn_spent g)" "\<lambda>g. bt_ok (sn_spent g)"
proof
  fix g g' n
  assume ok: "bt_ok (sn_spent g)" and "consume g n = Inr g'"
  then have g': "bt_get (sn_spent g) n = None" "g' = g\<lparr>sn_spent := bt_insert n () (sn_spent g)\<rparr>"
    by (auto simp: consume_iff)
  then show "bt_ok (sn_spent g')" "bt_get (sn_spent g') = (bt_get (sn_spent g))(n \<mapsto> ())"
    using ok by (auto simp: fun_eq_iff)
  show "r < ()" if "bt_get (sn_spent g) n = Some r" for r using that g'(1) by simp
qed

lemma consume_run:
  assumes "bt_ok (sn_spent g)" and "guard_run consume g ns = (g', acc)"
  shows "sn_capacity g' = sn_capacity g \<and> length (sn_spent g') = length (sn_spent g) + length acc
    \<and> (length (sn_spent g) \<le> sn_capacity g \<longrightarrow> length (sn_spent g') \<le> sn_capacity g) \<and> 0 \<notin> set acc
    \<and> (\<forall>n. spent_contains g' n \<longleftrightarrow> spent_contains g n \<or> n \<in> set acc)"
  using assms
proof (induction ns arbitrary: g acc)
  case Nil
  then show ?case by simp
next
  case (Cons n ns)
  show ?case
  proof (cases "consume g n")
    case (Inl e)
    then have "guard_run consume g ns = (g', acc)" using Cons.prems(2) by simp
    then show ?thesis by (rule Cons.IH [OF Cons.prems(1)])
  next
    case (Inr g1)
    then obtain acc1 where r: "guard_run consume g1 ns = (g', acc1)" "acc = n # acc1"
      using Cons.prems(2) by (auto split: prod.splits)
    have g1: "n \<noteq> 0" "bt_get (sn_spent g) n = None" "length (sn_spent g) < sn_capacity g"
      "g1 = g\<lparr>sn_spent := bt_insert n () (sn_spent g)\<rparr>"
      using Inr by (auto simp: consume_iff)
    have ok1: "bt_ok (sn_spent g1)" using g1(4) Cons.prems(1) by simp
    have c: "spent_contains g1 m \<longleftrightarrow> spent_contains g m \<or> m = n" for m
      using Cons.prems(1) g1 by (simp add: spent_contains_def bt_contains_def)
    show ?thesis
      using Cons.IH [OF ok1 r(1)] g1 c Cons.prems(1) by (auto simp: r(2) btree.length_insert)
  qed
qed

text \<open>
  C20. A nonce is spent at most once and the guard never grows beyond its capacity. Present any nonces
  to a new guard: those consumed are distinct, nonzero, at most the capacity many and exactly the ones
  the guard then contains, and the next one is consumed exactly when it is nonzero, new and room is left,
  with the refusal named by the first of these that fails.
\<close>

theorem nonces_spent_once:
  assumes "guard_run consume (spent_new capacity) ns = (g, acc)"
  shows "distinct acc \<and> 0 \<notin> set acc \<and> length acc \<le> capacity \<and> (\<forall>n. spent_contains g n \<longleftrightarrow> n \<in> set acc)
    \<and> (\<forall>n. consume g n =
          (if n = 0 then Inl SpendMalformed else if n \<in> set acc then Inl SpendAlreadySpent
           else if length acc = capacity then Inl SpendCapacity
           else Inr (g\<lparr>sn_spent := bt_insert n () (sn_spent g)\<rparr>)))"
proof -
  have new: "bt_ok (sn_spent (spent_new capacity))" "length (sn_spent (spent_new capacity)) = 0"
    "sn_capacity (spent_new capacity) = capacity" "\<not> spent_contains (spent_new capacity) n" for n
    by (simp_all add: spent_new_def bt_new_def bt_ok_def spent_contains_def bt_contains_def bt_get_def)
  have r: "sn_capacity g = capacity" "length (sn_spent g) = length acc" "length acc \<le> capacity" "0 \<notin> set acc"
    "\<forall>n. spent_contains g n \<longleftrightarrow> n \<in> set acc"
    using consume_run [OF new(1) assms] new by auto
  have "distinct acc" using spent.run_distinct [OF new(1), of ns] assms by simp
  moreover have "consume g n =
          (if n = 0 then Inl SpendMalformed else if n \<in> set acc then Inl SpendAlreadySpent
           else if length acc = capacity then Inl SpendCapacity
           else Inr (g\<lparr>sn_spent := bt_insert n () (sn_spent g)\<rparr>))" for n
    using r by (auto simp: consume_def spent_contains_def)
  ultimately show ?thesis using r by blast
qed

theorem nonces_spent_once_witness:
  "\<exists>g. guard_run consume (spent_new 1) [7, 7, 8] = (g, [7]) \<and> spent_contains g 7
   \<and> consume g 7 = Inl SpendAlreadySpent \<and> consume g 8 = Inl SpendCapacity"
proof -
  obtain g where run: "guard_run consume (spent_new 1) [7, 7, 8] = (g, [7])"
    by (simp add: consume_def spent_new_def bt_new_def bt_contains_def bt_get_def)
  show ?thesis using nonces_spent_once [OF run] run by (intro exI [of _ g]) simp
qed

end
