(* ===== verification/Platform_Safety.thy ===== *)
theory Platform_Safety
  imports Witness_Replay
begin

text \<open>
  The properties of the witness platform: exact codecs, encodings within their declared bounds,
  programs bound to the slots the manifest fixes or leaves open, the exact result of a run under a
  capability, and receipts that match exactly when the same run was made.
\<close>

section \<open>An example task\<close>

definition demo_task :: case_spec where
  "demo_task = demo_case\<lparr>ca_loading_work := 300\<rparr>"

definition demo_manifest :: task_manifest where
  "demo_manifest = \<lparr>tm_world = demo_spec, tm_slots = [\<lparr>ps_cell = 1, ps_fixed = None\<rparr>], tm_cases = [demo_task],
     tm_contract = \<lparr>wc_useful_floor = 1, wc_total_ceiling = 1000, wc_require_passed = True\<rparr>\<rparr>"

definition demo_valid :: "crypto \<Rightarrow> valid_manifest" where
  "demo_valid C = \<lparr>va_manifest = demo_manifest, va_world = demo_world, va_cases = [demo_task],
     va_hash = witness_digest C MANIFEST_DOMAIN (encode_manifest demo_manifest), va_encoded_len = length (encode_manifest demo_manifest)\<rparr>"

lemma demo_task_new: "case_new demo_world demo_task = Inr demo_task"
  by code_simp

lemma demo_manifest_length: "length (encode_manifest demo_manifest) = 168"
  by (simp add: encode_manifest_def demo_manifest_def demo_task_def demo_defs put_world_def w_list_def put_source_def put_depot_def
      put_beacon_def put_valve_def put_cell_def put_link_def put_point_def put_spark_def put_endpoint_def put_program_slot_def
      w_option_def put_case_def put_contract_def)

lemma demo_manifest_valid: "manifest_validate C demo_manifest = Inr (demo_valid C)"
proof -
  have "map cb_id (wd_cells demo_world) = [1]" "length (wd_cells demo_world) = 1" by (simp_all add: demo_defs)
  moreover have "checked_add (0 :: u64) 1000 = Some 1000" by (simp add: checked_add_def)
  moreover have "ca_fuel demo_task = 1000" "ca_loading_work demo_task = 300" by (simp_all add: demo_task_def demo_case_def)
  moreover have "tm_world demo_manifest = demo_spec" "tm_cases demo_manifest = [demo_task]" "map ps_cell (tm_slots demo_manifest) = [1]"
    "wc_total_ceiling (tm_contract demo_manifest) = 1000" "wc_useful_floor (tm_contract demo_manifest) = 1" by (simp_all add: demo_manifest_def)
  ultimately show ?thesis
    by (simp add: manifest_validate_def demo_world_new demo_task_new demo_manifest_length bound_defs demo_valid_def Let_def)
qed

lemma demo_manifest_typed: "manifest_typed demo_manifest"
  using demo_typed by (simp add: manifest_typed_def demo_manifest_def slot_ok_def) (simp add: demo_spec_def endpoint_ok_def)

lemma demo_assign: "manifest_assign (demo_valid C) [(1, demo_program)] = Inr demo_assignment"
  using demo_validates by (simp add: manifest_assign_def open_slots_def demo_valid_def demo_manifest_def)

lemma demo_pair_ok: "\<forall>p\<in>set [(1, demo_program)]. pair_ok p"
  using demo_typed by (simp add: pair_ok_def)

lemma demo_candidate_ok: "\<forall>ip\<in>set [(1, demo_program)]. program_ok (snd ip)"
  using demo_typed by simp

definition demo_cap :: "crypto \<Rightarrow> run_capability" where
  "demo_cap C = \<lparr>rc_manifest = va_hash (demo_valid C), rc_program = witness_digest C ASSIGNMENT_DOMAIN (encode_assignment demo_assignment),
     rc_max_total = 1000, rc_role = Prove\<rparr>"

lemma demo_runs:
  obtains w where "platform_run C (demo_valid C) demo_assignment ((demo_cap C)\<lparr>rc_role := role\<rparr>) = Inr w"
proof -
  have ok: "manifest_ok C (demo_valid C)" by (rule manifest_validate_ok [OF demo_manifest_valid demo_manifest_typed])
  have "assignment_ok (va_world (demo_valid C)) demo_assignment"
    by (rule manifest_assign_ok [OF ok demo_assign]) (use demo_pair_ok in simp)
  moreover have "fuel_total (demo_valid C) = 1000" by (simp add: fuel_total_def demo_valid_def demo_task_def demo_case_def)
  ultimately show ?thesis
    using run_observed_ok [OF ok, of demo_assignment "(demo_cap C)\<lparr>rc_role := role\<rparr>"] that by (auto simp: demo_cap_def)
qed

section \<open>Properties\<close>

text \<open>
  C28. The codecs of the witness platform are exact. Each decoder of programs, candidates, task
  manifests, results and claimed receipts accepts exactly the canonical encodings of well-formed
  values: decoding an encoding gives the value back, and whatever decodes is the encoding of its value.
\<close>

theorem witness_codecs_exact:
  "(decode_program raw = Inr p \<longleftrightarrow> program_ok p \<and> encode_program p = raw)
   \<and> (decode_candidate raw = Inr ps \<longleftrightarrow>
        length ps \<le> MAX_CELLS \<and> (\<forall>ip\<in>set ps. program_ok (snd ip)) \<and> sorted_wrt (<) (map fst ps) \<and> encode_candidate ps = raw)
   \<and> (decode_manifest raw = Inr m \<longleftrightarrow> manifest_codable m \<and> encode_manifest m = raw)
   \<and> (decode_output raw = Inr rs \<longleftrightarrow> length rs \<le> MAX_CASES \<and> encode_output rs = raw)
   \<and> (claimed_decode raw = Inr c \<longleftrightarrow> claimed_encode c = raw)"
  by (simp add: decode_program_iff decode_candidate_iff decode_manifest_iff decode_output_iff claimed_decode_iff pair_ok_def)

theorem witness_codecs_exact_witness:
  "decode_program (encode_program demo_program) = Inr demo_program
   \<and> decode_candidate (encode_candidate [(1, demo_program)]) = Inr [(1, demo_program)]"
  using witness_codecs_exact [of "encode_program demo_program" demo_program] demo_typed
    witness_codecs_exact [of "encode_candidate [(1, demo_program)]" _ "[(1, demo_program)]"] by auto

text \<open>
  Encodings stay within their declared bounds. A manifest of well-typed parts is never refused as
  too large; and for a valid manifest and a bound candidate, the manifest, the assignment and every
  state the machine passes through encode within their static byte bounds.
\<close>

theorem witness_encodings_bounded:
  assumes "manifest_typed m"
  shows "manifest_validate C m \<noteq> Inl METooLarge
    \<and> (\<forall>vm candidate a. manifest_validate C m = Inr vm \<and> manifest_assign vm candidate = Inr a \<and> (\<forall>ip\<in>set candidate. program_ok (snd ip))
        \<longrightarrow> length (encode_manifest m) \<le> MAX_MANIFEST_BYTES \<and> length (encode_assignment a) \<le> MAX_ASSIGNMENT_BYTES
          \<and> (\<forall>c\<in>set (tm_cases m). \<exists>frames r. vm_run (va_world vm) a c = Inr (frames, r)
              \<and> (\<forall>S\<in>insert (rr_final_state r) (fv_state ` set frames). length (encode_state S) \<le> MAX_STATE_BYTES)))"
proof (intro conjI allI impI)
  show "manifest_validate C m \<noteq> Inl METooLarge" by (rule never_too_large [OF assms])
next
  fix vm candidate a
  assume h: "manifest_validate C m = Inr vm \<and> manifest_assign vm candidate = Inr a \<and> (\<forall>ip\<in>set candidate. program_ok (snd ip))"
  note vm = manifest_validate_ok [OF conjunct1 [OF h] assms]
  have a: "assignment_ok (va_world vm) a" using manifest_assign_ok(1) [OF vm(1) conjunct1 [OF conjunct2 [OF h]]] h by (simp add: pair_ok_def)
  note W = manifest_okD [OF vm(1)]
  show "length (encode_manifest m) \<le> MAX_MANIFEST_BYTES"
    using size_manifest [OF manifest_codable_ok [OF vm(1)]] vm(2) by simp
  show "length (encode_assignment a) \<le> MAX_ASSIGNMENT_BYTES"
    unfolding encode_assignment_def by (rule size_candidate) (use assignment_pairs [OF W(1) a] in auto)
  show "\<forall>c\<in>set (tm_cases m). \<exists>frames r. vm_run (va_world vm) a c = Inr (frames, r)
      \<and> (\<forall>S\<in>insert (rr_final_state r) (fv_state ` set frames). length (encode_state S) \<le> MAX_STATE_BYTES)"
  proof
    fix c assume "c \<in> set (tm_cases m)"
    then have c: "case_ok (va_world vm) c" using W(3) vm by (auto simp: manifest_ok_def)
    obtain frames r where "vm_run (va_world vm) a c = Inr (frames, r)" "\<And>S. S \<in> insert (rr_final_state r) (fv_state ` set frames) \<Longrightarrow> \<exists>n. state_ok (va_world vm) n S"
      by (rule run_states [OF W(1) a c]) blast
    then show "\<exists>frames r. vm_run (va_world vm) a c = Inr (frames, r)
      \<and> (\<forall>S\<in>insert (rr_final_state r) (fv_state ` set frames). length (encode_state S) \<le> MAX_STATE_BYTES)"
      using size_state [OF W(1)] by blast
  qed
qed

theorem witness_encodings_bounded_witness:
  "manifest_validate toy_crypto demo_manifest = Inr (demo_valid toy_crypto) \<and> length (encode_assignment demo_assignment) \<le> MAX_ASSIGNMENT_BYTES"
  using witness_encodings_bounded [OF demo_manifest_typed, of toy_crypto, THEN conjunct2, rule_format,
      of "demo_valid toy_crypto" "[(1, demo_program)]" demo_assignment]
    demo_manifest_valid demo_assign demo_pair_ok by (simp add: pair_ok_def)

text \<open>
  The manifest decides which programs run. When a candidate is bound to a valid manifest, every
  cell of the world runs the program its slot fixes, and a cell with an open slot runs the program the
  candidate supplies for exactly that cell; a candidate that names other cells is refused.
\<close>

theorem fixed_programs_kept:
  assumes "manifest_validate C m = Inr vm" and "manifest_typed m" and "\<forall>ip\<in>set candidate. program_ok (snd ip)"
  shows "(map fst candidate \<noteq> map ps_cell (filter (\<lambda>s. ps_fixed s = None) (tm_slots m)) \<longrightarrow> manifest_assign vm candidate = Inl MECandidate)
    \<and> (\<forall>a. manifest_assign vm candidate = Inr a \<longrightarrow>
        as_cells a = map cb_id (ws_cells (tm_world m))
        \<and> list_all2 (\<lambda>cell p. \<exists>s\<in>set (tm_slots m). ps_cell s = cb_id cell
            \<and> (case ps_fixed s of Some q \<Rightarrow> p = q | None \<Rightarrow> (cb_id cell, p) \<in> set candidate))
          (ws_cells (tm_world m)) (as_programs a))"
proof -
  note vm = manifest_validate_ok [OF assms(1,2)]
  have "as_cells a = map cb_id (ws_cells (tm_world m)) \<and> list_all2 (bound_to vm candidate) (ws_cells (tm_world m)) (as_programs a)"
    if "manifest_assign vm candidate = Inr a" for a
    using manifest_assign_ok [OF vm(1) that] assms(3) manifest_okD(2) [OF vm(1)] vm(2) by (auto simp: pair_ok_def assignment_ok_def)
  then show ?thesis
    using vm(2) by (auto simp: manifest_assign_def open_slots_def bound_to_def [abs_def])
qed

theorem fixed_programs_kept_witness:
  "manifest_assign (demo_valid toy_crypto) [(1, demo_program)] = Inr demo_assignment \<and> as_cells demo_assignment = [1]
   \<and> manifest_assign (demo_valid toy_crypto) [] = Inl MECandidate"
  using fixed_programs_kept [OF demo_manifest_valid demo_manifest_typed, of "[(1, demo_program)]" toy_crypto] demo_assign demo_pair_ok
    fixed_programs_kept [OF demo_manifest_valid demo_manifest_typed, of "[]" toy_crypto]
  by (auto simp: pair_ok_def demo_manifest_def demo_spec_def)

text \<open>
  C26. A run under a capability is exact. It is refused for another manifest, another assignment or too
  small an allowance, in this order, and otherwise always succeeds: the results are those of running
  every case in order, with the digest of each final state, the useful quantity is the number of sparks delivered over all of them, and the
  total work is the sum of their ledgers and never more than the allowance.
\<close>

theorem platform_run_exact:
  assumes "manifest_validate C m = Inr vm" and "manifest_typed m"
    and "manifest_assign vm candidate = Inr a" and "\<forall>ip\<in>set candidate. program_ok (snd ip)"
  shows "(if rc_manifest cap \<noteq> va_hash vm then platform_run C vm a cap = Inl RefusedManifest
     else if rc_program cap \<noteq> witness_digest C ASSIGNMENT_DOMAIN (encode_assignment a) then platform_run C vm a cap = Inl RefusedProgram
     else if fuel_total vm > rc_max_total cap then platform_run C vm a cap = Inl RefusedAllowance
     else \<exists>w. platform_run C vm a cap = Inr w
        \<and> list_all2 (\<lambda>c r. \<exists>frames res. vm_run (va_world vm) a c = Inr (frames, res) \<and> cr_status r = rr_status res
            \<and> cr_ticks_completed r = rr_ticks_completed res \<and> cr_outcome r = rr_outcome res \<and> cr_ledger r = rr_ledger res
            \<and> cr_final_state r = witness_digest C STATE_DOMAIN (encode_state (rr_final_state res))
            \<and> unat (cr_useful r) = length (st_delivered (rr_final_state res))) (tm_cases m) (wr_cases w)
        \<and> unat (wr_useful w) = (\<Sum>r\<leftarrow>wr_cases w. unat (cr_useful r))
        \<and> unat (wr_total w) = (\<Sum>r\<leftarrow>wr_cases w. ledger_sum (cr_ledger r)) \<and> wr_total w \<le> rc_max_total cap)"
proof -
  note vm = manifest_validate_ok [OF assms(1,2)]
  have a: "assignment_ok (va_world vm) a" using manifest_assign_ok(1) [OF vm(1) assms(3)] assms(4) by (simp add: pair_ok_def)
  have refuse: "rc_manifest cap \<noteq> va_hash vm \<Longrightarrow> platform_run C vm a cap = Inl RefusedManifest"
    "rc_manifest cap = va_hash vm \<Longrightarrow> rc_program cap \<noteq> witness_digest C ASSIGNMENT_DOMAIN (encode_assignment a) \<Longrightarrow>
       platform_run C vm a cap = Inl RefusedProgram"
    "rc_manifest cap = va_hash vm \<Longrightarrow> rc_program cap = witness_digest C ASSIGNMENT_DOMAIN (encode_assignment a) \<Longrightarrow>
       fuel_total vm > rc_max_total cap \<Longrightarrow> platform_run C vm a cap = Inl RefusedAllowance"
    by (simp_all add: platform_run_def run_observed_def Let_def)
  have cases: "va_cases vm = tm_cases m" using vm by (simp add: manifest_ok_def)
  have go: "\<exists>w. platform_run C vm a cap = Inr w
        \<and> list_all2 (\<lambda>c r. \<exists>frames res. vm_run (va_world vm) a c = Inr (frames, res) \<and> cr_status r = rr_status res
            \<and> cr_ticks_completed r = rr_ticks_completed res \<and> cr_outcome r = rr_outcome res \<and> cr_ledger r = rr_ledger res
            \<and> cr_final_state r = witness_digest C STATE_DOMAIN (encode_state (rr_final_state res))
            \<and> unat (cr_useful r) = length (st_delivered (rr_final_state res))) (tm_cases m) (wr_cases w)
        \<and> unat (wr_useful w) = (\<Sum>r\<leftarrow>wr_cases w. unat (cr_useful r))
        \<and> unat (wr_total w) = (\<Sum>r\<leftarrow>wr_cases w. ledger_sum (cr_ledger r)) \<and> wr_total w \<le> rc_max_total cap"
    if cap: "rc_manifest cap = va_hash vm" "rc_program cap = witness_digest C ASSIGNMENT_DOMAIN (encode_assignment a)" "fuel_total vm \<le> rc_max_total cap"
  proof -
    obtain frames w where w: "platform_run C vm a cap = Inr w" "list_all2 (replays C (va_world vm) a) (va_cases vm) (wr_cases w)"
      "unat (wr_useful w) = (\<Sum>r\<leftarrow>wr_cases w. unat (cr_useful r))"
      "unat (wr_total w) = (\<Sum>r\<leftarrow>wr_cases w. ledger_sum (cr_ledger r))" "wr_total w \<le> fuel_total vm"
      by (rule run_observed_ok [OF vm(1) a cap])
    have "list_all2 (\<lambda>c r. \<exists>frames res. vm_run (va_world vm) a c = Inr (frames, res) \<and> cr_status r = rr_status res
            \<and> cr_ticks_completed r = rr_ticks_completed res \<and> cr_outcome r = rr_outcome res \<and> cr_ledger r = rr_ledger res
            \<and> cr_final_state r = witness_digest C STATE_DOMAIN (encode_state (rr_final_state res))
            \<and> unat (cr_useful r) = length (st_delivered (rr_final_state res))) (tm_cases m) (wr_cases w)"
      by (rule list_all2_mono [OF w(2) [unfolded cases]]) (unfold replays_def, blast)
    then show ?thesis using w order_trans [OF w(5) cap(3)] by blast
  qed
  show ?thesis using refuse go by (simp add: not_less)
qed

theorem platform_run_exact_witness:
  "platform_run toy_crypto (demo_valid toy_crypto) demo_assignment ((demo_cap toy_crypto)\<lparr>rc_max_total := 999\<rparr>) = Inl RefusedAllowance
   \<and> (\<exists>w. platform_run toy_crypto (demo_valid toy_crypto) demo_assignment (demo_cap toy_crypto) = Inr w \<and> wr_total w \<le> 1000)"
proof -
  have fuel: "fuel_total (demo_valid toy_crypto) = 1000" by (simp add: fuel_total_def demo_valid_def demo_task_def demo_case_def)
  note exact = platform_run_exact [OF demo_manifest_valid demo_manifest_typed demo_assign demo_candidate_ok]
  show ?thesis
    using exact [of "(demo_cap toy_crypto)\<lparr>rc_max_total := 999\<rparr>" toy_crypto] exact [of "demo_cap toy_crypto" toy_crypto]
    by (auto simp: demo_cap_def fuel)
qed

text \<open>
  C27. A receipt names its run. When a verifier replays a run and turns it into a receipt, a claim
  matches it exactly when the prover ran the same manifest with the same programs for the same
  challenge and subject key; the role of either side does not matter. The digests of the two manifests
  and of the two assignments are assumed not to collide.
\<close>

theorem receipt_names_run:
  assumes "manifest_validate C m = Inr vm" "manifest_typed m" "manifest_validate C m' = Inr vm'" "manifest_typed m'"
    and "manifest_assign vm candidate = Inr a" "\<forall>ip\<in>set candidate. program_ok (snd ip)"
    and "manifest_assign vm' candidate' = Inr a'" "\<forall>ip\<in>set candidate'. program_ok (snd ip)"
    and "platform_run C vm a cap = Inr w" "platform_run C vm' a' cap' = Inr w'"
    and "collision_free C (digest_input MANIFEST_DOMAIN ` {encode_manifest m, encode_manifest m'})"
    and "collision_free C (digest_input ASSIGNMENT_DOMAIN ` {encode_assignment a, encode_assignment a'})"
  shows "claimed_matches (claim_of (into_receipt C w' b')) (into_receipt C w b) \<longleftrightarrow> m' = m \<and> a' = a \<and> b' = b"
proof -
  note vm = manifest_validate_ok [OF assms(1,2)] and vm' = manifest_validate_ok [OF assms(3,4)]
  have a: "assignment_ok (va_world vm) a" using manifest_assign_ok(1) [OF vm(1) assms(5)] assms(6) by (simp add: pair_ok_def)
  have a': "assignment_ok (va_world vm') a'" using manifest_assign_ok(1) [OF vm'(1) assms(7)] assms(8) by (simp add: pair_ok_def)
  note w = run_returns_names [OF assms(9)] and w' = run_returns_names [OF assms(10)]
  have same: "m' = m \<and> a' = a" if "wr_manifest w' = wr_manifest w" "wr_program w' = wr_program w"
  proof
    have "digest_input MANIFEST_DOMAIN (encode_manifest m') = digest_input MANIFEST_DOMAIN (encode_manifest m)"
      by (rule collision_freeD [OF assms(11)]) (use that w w' vm vm' in \<open>simp_all add: manifest_ok_def witness_digest_def\<close>)
    then show m: "m' = m"
      using manifest_codec.enc_inject [OF manifest_codable_ok [OF vm'(1)] manifest_codable_ok [OF vm(1)]] vm vm'
      by (simp add: digest_input_inject)
    have "digest_input ASSIGNMENT_DOMAIN (encode_assignment a') = digest_input ASSIGNMENT_DOMAIN (encode_assignment a)"
      by (rule collision_freeD [OF assms(12)]) (use that w w' in \<open>simp_all add: witness_digest_def\<close>)
    then show "a' = a"
      using encode_assignment_inject [of "va_world vm" a' a] a a' manifest_okD(1) [OF vm(1)] assms(1,3) m by (simp add: digest_input_inject)
  qed
  have "into_receipt C w' b' = into_receipt C w b \<longleftrightarrow> m' = m \<and> a' = a \<and> b' = b"
  proof
    assume "into_receipt C w' b' = into_receipt C w b"
    then show "m' = m \<and> a' = a \<and> b' = b" using same by (cases b; cases b') (simp add: into_receipt_def)
  next
    assume eq: "m' = m \<and> a' = a \<and> b' = b"
    then have "w' = w\<lparr>wr_role := wr_role w'\<rparr>" using run_ignores_capability [of C vm a cap w cap' w'] assms(1,3,9,10) by simp
    then have "into_receipt C w' b' = into_receipt C (w\<lparr>wr_role := wr_role w'\<rparr>) b" using eq by simp
    then show "into_receipt C w' b' = into_receipt C w b" by (simp add: into_receipt_def run_output_hash_def run_output_def run_passed_def)
  qed
  then show ?thesis by (auto simp: matches_iff claim_of_inject)
qed

theorem receipt_names_run_witness:
  "\<exists>w w'. platform_run toy_crypto (demo_valid toy_crypto) demo_assignment (demo_cap toy_crypto) = Inr w
    \<and> platform_run toy_crypto (demo_valid toy_crypto) demo_assignment ((demo_cap toy_crypto)\<lparr>rc_role := Replay\<rparr>) = Inr w'
    \<and> claimed_matches (claim_of (into_receipt toy_crypto w \<lparr>rb_challenge_id = 1, rb_subject_key = 2\<rparr>))
        (into_receipt toy_crypto w' \<lparr>rb_challenge_id = 1, rb_subject_key = 2\<rparr>)
    \<and> \<not> claimed_matches (claim_of (into_receipt toy_crypto w \<lparr>rb_challenge_id = 1, rb_subject_key = 3\<rparr>))
        (into_receipt toy_crypto w' \<lparr>rb_challenge_id = 1, rb_subject_key = 2\<rparr>)"
proof -
  have prove: "(demo_cap toy_crypto)\<lparr>rc_role := Prove\<rparr> = demo_cap toy_crypto" by (simp add: demo_cap_def)
  obtain w where w: "platform_run toy_crypto (demo_valid toy_crypto) demo_assignment (demo_cap toy_crypto) = Inr w"
    by (rule demo_runs [of toy_crypto Prove, unfolded prove])
  obtain w' where w': "platform_run toy_crypto (demo_valid toy_crypto) demo_assignment ((demo_cap toy_crypto)\<lparr>rc_role := Replay\<rparr>) = Inr w'"
    by (rule demo_runs)
  have free: "collision_free toy_crypto (digest_input d ` {x, x})" for d x by (simp add: collision_free_def)
  note names = receipt_names_run [OF demo_manifest_valid demo_manifest_typed demo_manifest_valid demo_manifest_typed
      demo_assign demo_candidate_ok demo_assign demo_candidate_ok w' w free free]
  have "claimed_matches (claim_of (into_receipt toy_crypto w \<lparr>rb_challenge_id = 1, rb_subject_key = 2\<rparr>))
      (into_receipt toy_crypto w' \<lparr>rb_challenge_id = 1, rb_subject_key = 2\<rparr>)"
    by (subst names) simp
  moreover have "\<not> claimed_matches (claim_of (into_receipt toy_crypto w \<lparr>rb_challenge_id = 1, rb_subject_key = 3\<rparr>))
      (into_receipt toy_crypto w' \<lparr>rb_challenge_id = 1, rb_subject_key = 2\<rparr>)"
    by (subst names) simp
  ultimately show ?thesis using w w' by blast
qed

section \<open>Assignments whose cells are not ascending\<close>

text \<open>
  A world may list its cells in any order of their identifiers, and an assignment is encoded in the
  world's order. The bytes hashed for such an assignment are not a candidate that decodes, although the
  comment on \<open>encode_assignment\<close> says its pairs are in strictly ascending cell order.
\<close>

definition descending_spec :: world_spec where
  "descending_spec = demo_spec\<lparr>ws_cells :=
     [\<lparr>cb_id = 2, cb_position = pt 3 3, cb_heading = South, cb_mobile = True, cb_memory = [0, 0, 0, 0]\<rparr>,
      \<lparr>cb_id = 1, cb_position = pt 1 0, cb_heading = South, cb_mobile = True, cb_memory = [0, 0, 0, 0]\<rparr>]\<rparr>"

lemma assignment_encoding_unsorted:
  "(case world_new descending_spec of Inl _ \<Rightarrow> False
    | Inr W \<Rightarrow>
      (case assignment_validate W [(1, demo_program), (2, demo_program)] of Inl _ \<Rightarrow> False
       | Inr a \<Rightarrow> decode_candidate (encode_assignment a) = Inl (CEUnsorted FldCellId)))"
  by code_simp

end
