(* ===== verification/Botcaptcha_Codec.thy ===== *)
theory Botcaptcha_Codec
  imports Botcaptcha
begin

text \<open>
  The readers of challenges, responses and Hashcash responses invert their writers: decoding accepts
  exactly the canonical encodings of well-formed values.
\<close>

section \<open>Wide integers read in two halves\<close>

lemma be_nat_add: "be_nat (m + n) v = be_nat m (v div 256 ^ n) @ be_nat n v"
  by (induction n arbitrary: v) (simp_all add: div_mult2_eq)

lemma be_nat_mod: "be_nat n (v mod 256 ^ n) = be_nat n v"
  using be_nat_nat_be [of "be_nat n v"] by (simp add: nat_be_be_nat)

lemma unat_word_cat:
  assumes "LENGTH('c::len) = LENGTH('a::len) + LENGTH('b::len)"
  shows "unat (word_cat (a :: 'a word) (b :: 'b word) :: 'c word) = unat a * 2 ^ LENGTH('b) + unat b"
proof -
  have a: "unat a < 2 ^ LENGTH('a)" and b: "unat b < 2 ^ LENGTH('b)" by (rule unsigned_less)+
  have "(unat a + 1) * 2 ^ LENGTH('b) \<le> 2 ^ LENGTH('a) * 2 ^ LENGTH('b)" by (rule mult_right_mono) (use a in linarith, simp)
  then have "unat a * 2 ^ LENGTH('b) + 2 ^ LENGTH('b) \<le> 2 ^ LENGTH('c)" using assms by (simp add: power_add algebra_simps)
  then have lt: "unat a * 2 ^ LENGTH('b) + unat b < 2 ^ LENGTH('c)" using b by linarith
  have eq: "(word_cat a b :: 'c word) = word_of_nat (unat a * 2 ^ LENGTH('b) + unat b)"
    by (simp add: word_cat_eq push_bit_eq_mult mult.commute)
  show ?thesis unfolding eq by (rule trans [OF unat_of_nat]) (rule mod_less [OF lt])
qed

lemma to_be_cat:
  assumes "LENGTH('c::len) = LENGTH('a::len) + LENGTH('b::len)" "8 dvd LENGTH('a)" "8 dvd LENGTH('b)"
  shows "to_be (word_cat (a :: 'a word) (b :: 'b word) :: 'c word) = to_be a @ to_be b"
proof -
  from assms obtain m n where w: "LENGTH('a) = 8 * m" "LENGTH('b) = 8 * n" by blast
  have b: "unat b < 256 ^ n" using unsigned_less [of b, where 'a = nat] w by (simp add: power_mult)
  have "unat (word_cat a b :: 'c word) = unat a * 256 ^ n + unat b"
    using unat_word_cat [OF assms(1), of a b] w by (simp add: power_mult)
  then have "be_nat (m + n) (unat (word_cat a b :: 'c word)) = be_nat m (unat a) @ be_nat n (unat b)"
    using be_nat_mod [of n "unat a * 256 ^ n + unat b"] b by (simp add: be_nat_add)
  moreover have "LENGTH('c) div 8 = m + n" "LENGTH('a) div 8 = m" "LENGTH('b) div 8 = n" using assms(1) w by simp_all
  ultimately show ?thesis unfolding to_be_def by simp
qed

lemma halves_iff:
  assumes "LENGTH('c::len) = LENGTH('a::len) + LENGTH('b::len)" "8 dvd LENGTH('a)" "8 dvd LENGTH('b)"
  shows "(\<exists>(a :: 'a word) (b :: 'b word). bs = to_be a @ to_be b @ rest \<and> word_cat a b = (v :: 'c word)) \<longleftrightarrow> bs = to_be v @ rest"
proof
  assume "\<exists>(a :: 'a word) (b :: 'b word). bs = to_be a @ to_be b @ rest \<and> word_cat a b = v"
  then show "bs = to_be v @ rest" using to_be_cat [OF assms] by auto
next
  assume bs: "bs = to_be v @ rest"
  from assms obtain m n where w: "LENGTH('a) = 8 * m" "LENGTH('b) = 8 * n" by blast
  define a where "a = (from_be (take m (to_be v)) :: 'a word)"
  define b where "b = (from_be (drop m (to_be v)) :: 'b word)"
  have len: "length (to_be v) = m + n" using w assms(1) by simp
  have "to_be a = take m (to_be v)" "to_be b = drop m (to_be v)"
    unfolding a_def b_def by (rule to_be_from_be, use w len in simp)+
  then have "to_be v = to_be a @ to_be b" by simp
  moreover have "8 dvd LENGTH('c)" using assms by simp
  ultimately have "word_cat a b = v" using to_be_cat [OF assms, of a b] to_be_inject [of "word_cat a b" v] by simp
  then show "\<exists>(a :: 'a word) (b :: 'b word). bs = to_be a @ to_be b @ rest \<and> word_cat a b = v"
    using bs \<open>to_be v = to_be a @ to_be b\<close> by auto
qed

lemma read_u128_iff [wire_iffs]: "read_u128 bs = Inr (v, rest) \<longleftrightarrow> bs = to_be v @ rest"
  by (subst halves_iff [where 'a = 64 and 'b = 64, symmetric])
     (auto simp: read_u128_def wire_iffs word_cat_eq_push_bit_or)

lemma read_signature_iff [wire_iffs]: "read_signature bs = Inr (v, rest) \<longleftrightarrow> bs = to_be v @ rest"
  by (subst halves_iff [where 'a = 256 and 'b = 256, symmetric]) (auto simp: read_signature_def wire_iffs)

section \<open>Challenges\<close>

lemma rtry_iff [wire_iffs]: "rtry r bs = Inr (y, rest) \<longleftrightarrow> r = Inr y \<and> bs = rest"
  by (auto simp: rtry_def)

lemma get_algorithm_iff [wire_iffs]: "get_algorithm bs = Inr (a, rest) \<longleftrightarrow> bs = algorithm_tag a # rest"
  by (cases a; cases bs) (auto simp: get_algorithm_def algorithm_tag_def wire_iffs split: if_splits)

lemma get_purpose_iff [wire_iffs]: "get_purpose bs = Inr (p, rest) \<longleftrightarrow> bs = purpose_tag p # rest"
  by (cases p; cases bs) (auto simp: get_purpose_def purpose_tag_def wire_iffs split: if_splits)

text \<open>The requirement a challenge may carry: one of its own algorithm, within the difficulty bound.\<close>

definition requirement_fits :: "algorithm \<Rightarrow> requirement \<Rightarrow> bool" where
  "requirement_fits a r \<longleftrightarrow> (case r of ReqWitness _ \<Rightarrow> a = AlgWitness | ReqHashcash d \<Rightarrow> a = AlgHashcash \<and> difficulty_new d = Some d)"

lemma byte_widen:
  "(first :: u64) < 256 \<and> (ucast first :: u8) = d \<longleftrightarrow> first = ucast d"
proof
  assume a: "first < 256 \<and> (ucast first :: u8) = d"
  then have "unat first < 256" by (simp add: word_less_nat_alt)
  then have "unat (ucast (ucast first :: u8) :: u64) = unat first"
    by (simp add: unsigned_ucast_eq unsigned_take_bit_eq take_bit_nat_eq_self)
  then show "first = ucast d" using a by (simp add: word_unat_eq_iff)
next
  assume f: "first = ucast d"
  have "unat (ucast d :: u64) = unat d" using unat_u8_lt [of d] by (simp add: unsigned_ucast_eq take_bit_nat_eq_self)
  then have "first < 256" using unat_u8_lt [of d] f by (simp add: word_less_nat_alt)
  moreover have "(ucast first :: u8) = d" unfolding f by (rule bit_word_eqI) (auto simp: bit_simps)
  ultimately show "first < 256 \<and> (ucast first :: u8) = d" by simp
qed

lemma w_bool_inject [simp]: "w_bool a = w_bool b \<longleftrightarrow> a = b"
  by (simp add: w_bool_def)

lemma requirement_of_iff:
  "requirement_of a first second third = Inr r \<longleftrightarrow> requirement_fits a r \<and>
     to_be first @ to_be second @ w_bool third = put_requirement r"
proof (cases r)
  case (ReqWitness c)
  then show ?thesis
    by (cases a; cases c)
       (auto simp: requirement_of_def requirement_fits_def put_requirement_def w_bool_def to_be_inject split: option.splits if_splits)
next
  case (ReqHashcash d)
  have new: "difficulty_new b = Some d \<longleftrightarrow> b = d \<and> difficulty_new d = Some d" for b by (auto simp: difficulty_new_def)
  have "requirement_of AlgHashcash first second third = Inr (ReqHashcash d) \<longleftrightarrow>
      (first < 256 \<and> (ucast first :: u8) = d) \<and> difficulty_new d = Some d \<and> second = 0 \<and> \<not> third"
    using new [of "ucast first"] by (auto simp: requirement_of_def split: option.split)
  also have "\<dots> \<longleftrightarrow> difficulty_new d = Some d \<and> to_be first @ to_be second @ w_bool third = put_requirement (ReqHashcash d)"
    unfolding byte_widen by (auto simp: put_requirement_def to_be_inject)
  finally show ?thesis
    unfolding ReqHashcash by (cases a) (simp_all add: requirement_fits_def requirement_of_def)
qed

lemma get_requirement_iff [wire_iffs]:
  "get_requirement a bs = Inr (r, rest) \<longleftrightarrow> requirement_fits a r \<and> bs = put_requirement r @ rest"
proof -
  have "\<exists>first second third. put_requirement r = to_be (first :: u64) @ to_be (second :: u64) @ w_bool third"
    by (cases r) (auto simp: put_requirement_def)
  then obtain first second third where p: "put_requirement r = to_be (first :: u64) @ to_be (second :: u64) @ w_bool third" by blast
  have "get_requirement a bs = Inr (r, rest) \<longleftrightarrow>
      (\<exists>x y z. bs = to_be (x :: u64) @ to_be (y :: u64) @ w_bool z @ rest \<and> requirement_of a x y z = Inr r)"
    by (auto simp: get_requirement_def wire_iffs to_be_inject)
  also have "\<dots> \<longleftrightarrow> requirement_fits a r \<and> bs = put_requirement r @ rest"
    unfolding requirement_of_iff using p by (metis append.assoc)
  finally show ?thesis .
qed

definition challenge_ok :: "challenge \<Rightarrow> bool" where
  "challenge_ok c \<longleftrightarrow> ch_version c = BOT_VERSION \<and> requirement_fits (ch_algorithm c) (ch_requirement c)"

lemma get_challenge_iff: "get_challenge bs = Inr (c, rest) \<longleftrightarrow> challenge_ok c \<and> bs = challenge_encode c @ rest"
  by (cases c) (auto simp: get_challenge_def challenge_ok_def challenge_encode_def challenge_body_def wire_iffs BOT_VERSION_def)

lemma length_put_requirement [simp]: "length (put_requirement r) = 17"
  by (cases r) (simp_all add: put_requirement_def w_bool_def)

lemma challenge_decode_iff: "challenge_decode raw = Inr c \<longleftrightarrow> challenge_ok c \<and> challenge_encode c = raw"
proof -
  have "length (challenge_encode c) = CHALLENGE_BYTES" by (simp add: challenge_encode_def challenge_body_def CHALLENGE_BYTES_def)
  then show ?thesis by (auto simp: challenge_decode_def decode_within_iff get_challenge_iff)
qed

interpretation challenge_codec: frame_codec challenge_encode challenge_decode challenge_ok
  by unfold_locales (simp_all add: challenge_decode_iff)

section \<open>Responses\<close>

lemma get_profile_iff [wire_iffs]: "get_profile bs = Inr (p, rest) \<longleftrightarrow> bs = 1 # rest"
  by (cases p; cases bs) (auto simp: get_profile_def wire_iffs split: if_splits)

lemma get_nonce_iff [wire_iffs]: "get_nonce bs = Inr (n, rest) \<longleftrightarrow> bs = w_option to_be n @ rest"
  by (cases n; cases bs) (auto simp: get_nonce_def w_option_def wire_iffs split: if_splits)

lemma get_candidate_bytes_iff [wire_iffs]:
  "get_candidate_bytes bs = Inr (xs, rest) \<longleftrightarrow>
     length xs \<le> MAX_ASSIGNMENT_BYTES \<and> bs = to_be (word_of_nat (length xs) :: u16) @ xs @ rest"
proof
  assume "get_candidate_bytes bs = Inr (xs, rest)"
  then obtain n :: u16 where "unat n \<le> MAX_ASSIGNMENT_BYTES" "length xs = unat n" "bs = to_be n @ xs @ rest"
    by (auto simp: get_candidate_bytes_def wire_iffs rd_bytes_iff split: if_splits)
  then show "length xs \<le> MAX_ASSIGNMENT_BYTES \<and> bs = to_be (word_of_nat (length xs) :: u16) @ xs @ rest" by simp
next
  assume r: "length xs \<le> MAX_ASSIGNMENT_BYTES \<and> bs = to_be (word_of_nat (length xs) :: u16) @ xs @ rest"
  then have "unat (word_of_nat (length xs) :: u16) = length xs" by (simp add: unat_of_nat bound_defs)
  then show "get_candidate_bytes bs = Inr (xs, rest)"
    using r by (auto simp: get_candidate_bytes_def wire_iffs rd_bytes_iff intro!: exI [of _ "word_of_nat (length xs) :: u16"])
qed

definition response_ok :: "witness_response \<Rightarrow> bool" where
  "response_ok r \<longleftrightarrow> re_version r = BOT_VERSION \<and> length (re_candidate r) \<le> MAX_ASSIGNMENT_BYTES"

lemma length_claimed [simp]: "length (claimed_encode c) = RECEIPT_BYTES"
  by (simp add: claimed_encode_def receipt_encode_def RECEIPT_BYTES_def w_bool_def)

lemma get_response_iff: "get_response bs = Inr (r, rest) \<longleftrightarrow> response_ok r \<and> bs = response_encode r @ rest"
proof (cases r)
  case (fields version profile challenge_id challenge_hash subject manifest program out receipt work nonce candidate claimed signature)
  then show ?thesis
    by (cases work; cases profile)
       (auto simp: get_response_def response_ok_def response_encode_def response_body_def wire_iffs rd_bytes_iff BOT_VERSION_def
         claimed_decode_iff)
qed

lemma response_decode_iff: "response_decode raw = Inr r \<longleftrightarrow> response_ok r \<and> response_encode r = raw"
proof -
  have "length (w_option to_be (re_nonce r)) \<le> 9" by (simp add: w_option_def split: option.split)
  then have "length (response_encode r) \<le> MAX_RESPONSE_BYTES" if "response_ok r"
    using that by (simp add: response_encode_def response_body_def MAX_RESPONSE_BYTES_def RESPONSE_FIXED_BYTES_def response_ok_def)
  then show ?thesis by (auto simp: response_decode_def decode_within_iff get_response_iff)
qed

interpretation response_codec: frame_codec response_encode response_decode response_ok
  by unfold_locales (simp_all add: response_decode_iff)

section \<open>Hashcash responses\<close>

definition hashcash_ok :: "hashcash_response \<Rightarrow> bool" where
  "hashcash_ok r \<longleftrightarrow> hx_version r = BOT_VERSION"

lemma hashcash_decode_iff: "hashcash_decode raw = Inr r \<longleftrightarrow> hashcash_ok r \<and> hashcash_encode r = raw"
proof -
  have "get_hashcash bs = Inr (r, rest) \<longleftrightarrow> hashcash_ok r \<and> bs = hashcash_encode r @ rest" for bs rest
    by (cases r) (auto simp: get_hashcash_def hashcash_ok_def hashcash_encode_def hashcash_body_def wire_iffs BOT_VERSION_def)
  moreover have "length (hashcash_encode r) = HASHCASH_RESPONSE_BYTES"
    by (simp add: hashcash_encode_def hashcash_body_def HASHCASH_RESPONSE_BYTES_def)
  ultimately show ?thesis by (auto simp: hashcash_decode_def decode_within_iff)
qed

interpretation hashcash_codec: frame_codec hashcash_encode hashcash_decode hashcash_ok
  by unfold_locales (simp_all add: hashcash_decode_iff)

end
