(* ===== verification/Botcaptcha_Verifier.thy ===== *)
theory Botcaptcha_Verifier
  imports Botcaptcha
begin

text \<open>
  The verifier of \<open>vhalla-botcaptcha\<close> (\<open>admit.rs\<close>): every step from a challenge and a response to
  evidence that they were consumed once. A refusal still advances the verifier's clock, so an operation
  returns its verdict together with the next state.
\<close>

record verified_witness =
  vw_scope_key :: array32
  vw_response_hash :: array32
  vw_reward :: array32
  vw_receipt :: witness_receipt
  vw_purpose :: purpose
  vw_expires_at :: u64

record verified_hashcash =
  vq_scope_key :: array32
  vq_response_hash :: array32
  vq_reward :: array32
  vq_work :: array32
  vq_difficulty :: u8
  vq_purpose :: purpose
  vq_expires_at :: u64

record witness_verifier =
  wv_started_at :: u64
  wv_clock :: u64
  wv_allowance :: u64
  wv_window :: one_use_window

definition verifier_new :: "u64 \<Rightarrow> u64 \<Rightarrow> one_use_window \<Rightarrow> witness_verifier" where
  "verifier_new started_at allowance window =
     \<lparr>wv_started_at = started_at, wv_clock = started_at, wv_allowance = allowance, wv_window = window\<rparr>"

definition verifier_advance :: "witness_verifier \<Rightarrow> u64 \<Rightarrow> witness_verifier" where
  "verifier_advance V now = V\<lparr>wv_clock := max (wv_clock V) now\<rparr>"

definition set_allowance :: "witness_verifier \<Rightarrow> u64 \<Rightarrow> witness_verifier" where
  "set_allowance V allowance = V\<lparr>wv_allowance := allowance\<rparr>"

definition verifier_prune :: "witness_verifier \<Rightarrow> u64 \<Rightarrow> witness_verifier" where
  "verifier_prune V now = (let V = verifier_advance V now in V\<lparr>wv_window := window_prune (wv_window V) (wv_clock V)\<rparr>)"

definition witness_error_of :: "window_error \<Rightarrow> witness_error" where
  "witness_error_of e = (case e of WindowReplay \<Rightarrow> BReplay | WindowEquivocation \<Rightarrow> BEquivocation | WindowCapacity \<Rightarrow> BCapacity
     | WindowSubjectCapacity \<Rightarrow> BSubjectCapacity)"

definition reward :: "crypto \<Rightarrow> array32 \<Rightarrow> array32 \<Rightarrow> array32" where
  "reward C scope response = witness_digest C REWARD_DOMAIN (to_be scope @ to_be response)"

text \<open>The subject's key and signature, which both paths check the same way.\<close>

definition check_subject :: "crypto \<Rightarrow> array32 \<Rightarrow> bytes \<Rightarrow> array64 \<Rightarrow> witness_error + unit" where
  "check_subject C key transcript signature =
     (if \<not> key_point C key then Inl BSubjectSignature
      else if key_weak C key then Inl BWeakSubjectKey
      else if \<not> verify_strict C key transcript signature then Inl BSubjectSignature
      else Inr ())"

definition response_binds :: "crypto \<Rightarrow> challenge \<Rightarrow> witness_response \<Rightarrow> bool" where
  "response_binds C c r \<longleftrightarrow>
     re_challenge_id r = ch_id c \<and> re_challenge_hash r = challenge_hash C c \<and> re_subject_key r = ch_subject_key c
     \<and> re_manifest r = ch_manifest c \<and> cl_challenge_id (re_claimed r) = ch_id c \<and> cl_subject_key (re_claimed r) = ch_subject_key c
     \<and> cl_manifest (re_claimed r) = ch_manifest c"

definition response_claims :: "crypto \<Rightarrow> witness_response \<Rightarrow> bool" where
  "response_claims C r \<longleftrightarrow>
     re_program r = cl_program (re_claimed r) \<and> re_output r = cl_output (re_claimed r)
     \<and> mw_useful (re_work r) = cl_useful (re_claimed r) \<and> mw_total (re_work r) = cl_total (re_claimed r)
     \<and> re_receipt r = witness_digest C RECEIPT_DOMAIN (claimed_encode (re_claimed r))"

definition replay_response :: "crypto \<Rightarrow> u64 \<Rightarrow> verified_challenge \<Rightarrow> valid_manifest \<Rightarrow> witness_response \<Rightarrow> witness_error + witness_receipt" where
  "replay_response C allowance v vm r =
     bindR (map_err BCodec (decode_candidate (re_candidate r))) (\<lambda>candidate.
     bindR (map_err (\<lambda>_. BCandidate) (manifest_assign vm candidate)) (\<lambda>assignment.
     let program = witness_digest C ASSIGNMENT_DOMAIN (encode_assignment assignment) in
     if program \<noteq> cl_program (re_claimed r) then Inl BProgram
     else if fuel_total vm > allowance then Inl BAllowance
     else
     bindR (map_err (\<lambda>_. BRun) (platform_run C vm assignment (run_capability_for v program allowance Replay))) (\<lambda>run.
     let receipt = into_receipt C run (receipt_binding_for v) in
     if \<not> claimed_matches (re_claimed r) receipt \<or> claim_of receipt \<noteq> re_claimed r then Inl BReceipt
     else Inr receipt)))"

definition check_contract :: "work_contract \<Rightarrow> witness_receipt \<Rightarrow> witness_error + unit" where
  "check_contract contract receipt =
     (if wc_useful receipt < wc_useful_floor contract then Inl BFloor
      else if wc_total receipt > wc_total_ceiling contract then Inl BCeiling
      else if wc_require_passed contract \<and> \<not> wc_passed receipt then Inl BNotPassed
      else Inr ())"

definition judge_response ::
    "crypto \<Rightarrow> witness_verifier \<Rightarrow> challenge \<Rightarrow> valid_manifest \<Rightarrow> witness_response \<Rightarrow> challenge_context
     \<Rightarrow> witness_error + verified_witness \<times> one_use_window" where
  "judge_response C V c vm r expected =
     bindR (challenge_verify C c expected (wv_started_at V) (wv_clock V)) (\<lambda>v.
     bindR (ok_or BAlgorithm (challenge_contract c)) (\<lambda>contract.
     if va_hash vm \<noteq> ch_manifest c then Inl BManifest
     else
     bindR (check_subject C (ch_subject_key c) (response_transcript r) (re_signature r)) (\<lambda>_.
     let scope = vh_scope_key v; hash = response_hash C r in
     (case window_peek (wv_window V) scope hash of
        Some e \<Rightarrow> Inl (witness_error_of e)
      | None \<Rightarrow>
          if \<not> response_binds C c r then Inl BBinding
          else if \<not> response_claims C r then Inl BClaim
          else
          bindR (replay_response C (wv_allowance V) v vm r) (\<lambda>receipt.
          bindR (check_contract contract receipt) (\<lambda>_.
          bindR (map_err witness_error_of (window_consume (wv_window V) scope (ch_subject_key c) hash (ch_expires_at c))) (\<lambda>window.
            Inr (\<lparr>vw_scope_key = scope, vw_response_hash = hash, vw_reward = reward C scope hash, vw_receipt = receipt,
                   vw_purpose = ch_purpose c, vw_expires_at = ch_expires_at c\<rparr>, window))))))))"

definition verify_response ::
    "crypto \<Rightarrow> witness_verifier \<Rightarrow> challenge \<Rightarrow> valid_manifest \<Rightarrow> witness_response \<Rightarrow> challenge_context \<Rightarrow> u64
     \<Rightarrow> (witness_error + verified_witness) \<times> witness_verifier" where
  "verify_response C V c vm r expected now =
     (let V = verifier_advance V now in
     (case judge_response C V c vm r expected of
        Inl e \<Rightarrow> (Inl e, V)
      | Inr (w, window) \<Rightarrow> (Inr w, V\<lparr>wv_window := window\<rparr>)))"

definition verify_bytes ::
    "crypto \<Rightarrow> witness_verifier \<Rightarrow> bytes \<Rightarrow> valid_manifest \<Rightarrow> bytes \<Rightarrow> challenge_context \<Rightarrow> u64
     \<Rightarrow> (witness_error + verified_witness) \<times> witness_verifier" where
  "verify_bytes C V challenge vm response expected now =
     (case challenge_decode challenge of
        Inl e \<Rightarrow> (Inl (BCodec e), V)
      | Inr c \<Rightarrow>
          (case response_decode response of
             Inl e \<Rightarrow> (Inl (BCodec e), V)
           | Inr r \<Rightarrow> verify_response C V c vm r expected now))"

definition judge_hashcash ::
    "crypto \<Rightarrow> witness_verifier \<Rightarrow> challenge \<Rightarrow> hashcash_response \<Rightarrow> challenge_context
     \<Rightarrow> witness_error + verified_hashcash \<times> one_use_window" where
  "judge_hashcash C V c r expected =
     bindR (challenge_verify C c expected (wv_started_at V) (wv_clock V)) (\<lambda>v.
     bindR (ok_or BAlgorithm (challenge_difficulty c)) (\<lambda>difficulty.
     bindR (check_subject C (ch_subject_key c) (hashcash_transcript r) (hx_signature r)) (\<lambda>_.
     if hx_challenge_id r \<noteq> ch_id c \<or> hx_challenge_hash r \<noteq> challenge_hash C c \<or> hx_subject_key r \<noteq> ch_subject_key c then Inl BBinding
     else
     let scope = vh_scope_key v; hash = hashcash_hash C r in
     (case window_peek (wv_window V) scope hash of
        Some e \<Rightarrow> Inl (witness_error_of e)
      | None \<Rightarrow>
          let work = work_digest C (challenge_hash C c) (ch_subject_key c) (hx_nonce r) in
          if leading_zero_bits (to_be work) < unat difficulty then Inl BInsufficientWork
          else
          bindR (map_err witness_error_of (window_consume (wv_window V) scope (ch_subject_key c) hash (ch_expires_at c))) (\<lambda>window.
            Inr (\<lparr>vq_scope_key = scope, vq_response_hash = hash, vq_reward = reward C scope hash, vq_work = work,
                   vq_difficulty = difficulty, vq_purpose = ch_purpose c, vq_expires_at = ch_expires_at c\<rparr>, window))))))"

definition verify_hashcash ::
    "crypto \<Rightarrow> witness_verifier \<Rightarrow> challenge \<Rightarrow> hashcash_response \<Rightarrow> challenge_context \<Rightarrow> u64
     \<Rightarrow> (witness_error + verified_hashcash) \<times> witness_verifier" where
  "verify_hashcash C V c r expected now =
     (let V = verifier_advance V now in
     (case judge_hashcash C V c r expected of
        Inl e \<Rightarrow> (Inl e, V)
      | Inr (w, window) \<Rightarrow> (Inr w, V\<lparr>wv_window := window\<rparr>)))"

section \<open>Exact admission\<close>

lemma challenge_verify_iff:
  "challenge_verify C c expected started now = Inr v \<longleftrightarrow>
     key_point C (ch_issuer_key c) \<and> \<not> key_weak C (ch_issuer_key c)
     \<and> verify_strict C (ch_issuer_key c) (challenge_transcript c) (ch_signature c) \<and> context_of c = expected
     \<and> ch_issued_at c < ch_expires_at c \<and> ch_expires_at c - ch_issued_at c \<le> MAX_CHALLENGE_LIFETIME
     \<and> ch_issued_at c \<le> now \<and> now \<le> ch_expires_at c \<and> started \<le> ch_issued_at c
     \<and> v = \<lparr>vh_challenge = c, vh_scope_key = scope_key C c\<rparr>"
proof -
  have "ch_expires_at c - ch_issued_at c = 0 \<longleftrightarrow> ch_expires_at c = ch_issued_at c" by simp
  then show ?thesis
    by (auto simp: challenge_verify_def checked_sub_def not_less not_le dest: order_le_imp_less_or_eq intro: order_trans)
qed

lemma check_subject_iff:
  "check_subject C key t s = Inr () \<longleftrightarrow> key_point C key \<and> \<not> key_weak C key \<and> verify_strict C key t s"
  by (auto simp: check_subject_def)

lemma check_contract_iff:
  "check_contract contract receipt = Inr () \<longleftrightarrow> wc_useful_floor contract \<le> wc_useful receipt \<and> wc_total receipt \<le> wc_total_ceiling contract
     \<and> (wc_require_passed contract \<longrightarrow> wc_passed receipt)"
  by (auto simp: check_contract_def not_less)

lemma peek_None: "window_peek w scope hash = None \<longleftrightarrow> bt_get (ow_entries w) scope = None"
  by (auto simp: window_peek_def split: option.split)

lemma peek_case:
  "(case window_peek w scope hash of Some e \<Rightarrow> Inl (f e) | None \<Rightarrow> X) = Inr y \<longleftrightarrow> bt_get (ow_entries w) scope = None \<and> X = Inr y"
  by (auto simp: window_peek_def split: option.split)

lemma contract_Some: "challenge_contract c = Some contract \<longleftrightarrow> ch_requirement c = ReqWitness contract"
  by (auto simp: challenge_contract_def split: requirement.split)

lemma difficulty_Some: "challenge_difficulty c = Some d \<longleftrightarrow> ch_requirement c = ReqHashcash d"
  by (auto simp: challenge_difficulty_def split: requirement.split)

lemma verified_scope: "challenge_verify C c expected s n = Inr v \<Longrightarrow> vh_scope_key v = scope_key C c"
  by (simp add: challenge_verify_iff)

lemma consume_fresh: "window_consume w scope k h e = Inr w' \<Longrightarrow> bt_get (ow_entries w) scope = None"
  by (simp add: consume_eq_Inr)

lemma replay_response_iff:
  "replay_response C allowance v vm r = Inr receipt \<longleftrightarrow>
     (\<exists>candidate a run. decode_candidate (re_candidate r) = Inr candidate \<and> manifest_assign vm candidate = Inr a
        \<and> fuel_total vm \<le> allowance
        \<and> platform_run C vm a (run_capability_for v (witness_digest C ASSIGNMENT_DOMAIN (encode_assignment a)) allowance Replay) = Inr run
        \<and> receipt = into_receipt C run (receipt_binding_for v) \<and> re_claimed r = claim_of receipt)"
proof -
  have "wc_program (into_receipt C run b) = witness_digest C ASSIGNMENT_DOMAIN (encode_assignment a)"
    if "platform_run C vm a cap = Inr run" for run b a cap
    using run_returns_names [OF that] by (simp add: into_receipt_def)
  then show ?thesis
    by (fastforce simp: replay_response_def Let_def matches_iff claim_of_def not_less)
qed

lemma judge_response_iff:
  "judge_response C V c vm r expected = Inr (w, window) \<longleftrightarrow>
     (\<exists>v contract receipt. challenge_verify C c expected (wv_started_at V) (wv_clock V) = Inr v
        \<and> ch_requirement c = ReqWitness contract \<and> va_hash vm = ch_manifest c
        \<and> check_subject C (ch_subject_key c) (response_transcript r) (re_signature r) = Inr ()
        \<and> response_binds C c r \<and> response_claims C r
        \<and> replay_response C (wv_allowance V) v vm r = Inr receipt \<and> check_contract contract receipt = Inr ()
        \<and> window_consume (wv_window V) (scope_key C c) (ch_subject_key c) (response_hash C r) (ch_expires_at c) = Inr window
        \<and> w = \<lparr>vw_scope_key = scope_key C c, vw_response_hash = response_hash C r,
             vw_reward = reward C (scope_key C c) (response_hash C r), vw_receipt = receipt,
             vw_purpose = ch_purpose c, vw_expires_at = ch_expires_at c\<rparr>)"
  unfolding judge_response_def Let_def bindR_eq_Inr ok_or_eq_Inr map_err_eq_Inr contract_Some peek_case guard_eq_Inr
  by (auto simp: verified_scope dest: consume_fresh)

lemma judge_hashcash_iff:
  "judge_hashcash C V c r expected = Inr (w, window) \<longleftrightarrow>
     (\<exists>v difficulty. challenge_verify C c expected (wv_started_at V) (wv_clock V) = Inr v
        \<and> ch_requirement c = ReqHashcash difficulty
        \<and> check_subject C (ch_subject_key c) (hashcash_transcript r) (hx_signature r) = Inr ()
        \<and> hx_challenge_id r = ch_id c \<and> hx_challenge_hash r = challenge_hash C c \<and> hx_subject_key r = ch_subject_key c
        \<and> meets_target C c difficulty (hx_nonce r)
        \<and> window_consume (wv_window V) (scope_key C c) (ch_subject_key c) (hashcash_hash C r) (ch_expires_at c) = Inr window
        \<and> w = \<lparr>vq_scope_key = scope_key C c, vq_response_hash = hashcash_hash C r,
             vq_reward = reward C (scope_key C c) (hashcash_hash C r), vq_work = work_digest C (challenge_hash C c) (ch_subject_key c) (hx_nonce r),
             vq_difficulty = difficulty, vq_purpose = ch_purpose c, vq_expires_at = ch_expires_at c\<rparr>)"
  unfolding judge_hashcash_def Let_def bindR_eq_Inr ok_or_eq_Inr map_err_eq_Inr difficulty_Some peek_case guard_eq_Inr
  by (auto simp: verified_scope meets_target_def not_less dest: consume_fresh)

end
