(* ===== verification/Botcaptcha_Machine.thy ===== *)
theory Botcaptcha_Machine
  imports Botcaptcha_Codec Botcaptcha_Verifier
begin

text \<open>
  What the verifier of \<open>vhalla-botcaptcha\<close> guarantees over any sequence of its operations, what it
  says to an honest prover, and what a Hashcash target means.
\<close>

section \<open>Sequences of operations\<close>

datatype bot_op =
    OpBytes bytes valid_manifest bytes challenge_context u64
  | OpResponse challenge valid_manifest witness_response challenge_context u64
  | OpHashcash challenge hashcash_response challenge_context u64
  | OpPrune u64
  | OpAllow u64

text \<open>What an operation admitted: the scope and the response it consumed, until when, and when.\<close>

record admission =
  ad_scope :: array32
  ad_hash :: array32
  ad_expires :: u64
  ad_clock :: u64

definition witness_admission :: "(witness_error + verified_witness) \<times> witness_verifier \<Rightarrow> admission option" where
  "witness_admission res = (case res of
     (Inl _, _) \<Rightarrow> None
   | (Inr w, V) \<Rightarrow> Some \<lparr>ad_scope = vw_scope_key w, ad_hash = vw_response_hash w, ad_expires = vw_expires_at w, ad_clock = wv_clock V\<rparr>)"

definition hashcash_admission :: "(witness_error + verified_hashcash) \<times> witness_verifier \<Rightarrow> admission option" where
  "hashcash_admission res = (case res of
     (Inl _, _) \<Rightarrow> None
   | (Inr w, V) \<Rightarrow> Some \<lparr>ad_scope = vq_scope_key w, ad_hash = vq_response_hash w, ad_expires = vq_expires_at w, ad_clock = wv_clock V\<rparr>)"

fun bot_step :: "crypto \<Rightarrow> witness_verifier \<Rightarrow> bot_op \<Rightarrow> admission option \<times> witness_verifier" where
  "bot_step C V (OpBytes c vm r expected now) = (let res = verify_bytes C V c vm r expected now in (witness_admission res, snd res))"
| "bot_step C V (OpResponse c vm r expected now) = (let res = verify_response C V c vm r expected now in (witness_admission res, snd res))"
| "bot_step C V (OpHashcash c r expected now) = (let res = verify_hashcash C V c r expected now in (hashcash_admission res, snd res))"
| "bot_step C V (OpPrune now) = (None, verifier_prune V now)"
| "bot_step C V (OpAllow allowance) = (None, set_allowance V allowance)"

fun bot_run :: "crypto \<Rightarrow> witness_verifier \<Rightarrow> bot_op list \<Rightarrow> admission list \<times> witness_verifier" where
  "bot_run C V [] = ([], V)"
| "bot_run C V (p # ps) =
     (case bot_step C V p of (admitted, V1) \<Rightarrow>
     (case bot_run C V1 ps of (rest, V2) \<Rightarrow> ((case admitted of None \<Rightarrow> rest | Some a \<Rightarrow> a # rest), V2)))"

text \<open>An operation consumes exactly what it admits, prunes, or leaves the window alone.\<close>

definition consumes :: "witness_verifier \<Rightarrow> admission \<Rightarrow> witness_verifier \<Rightarrow> bool" where
  "consumes V a V' \<longleftrightarrow> ad_clock a = wv_clock V' \<and> wv_clock V' \<le> ad_expires a
     \<and> (\<exists>subject. window_consume (wv_window V) (ad_scope a) subject (ad_hash a) (ad_expires a) = Inr (wv_window V'))"

lemma response_step:
  assumes "verify_response C V c vm r expected now = res"
  shows "wv_clock V \<le> wv_clock (snd res) \<and>
    (case witness_admission res of None \<Rightarrow> wv_window (snd res) = wv_window V | Some a \<Rightarrow> consumes V a (snd res))"
proof (cases "judge_response C (verifier_advance V now) c vm r expected")
  case (Inl e)
  then show ?thesis using assms by (auto simp: verify_response_def Let_def witness_admission_def verifier_advance_def)
next
  case (Inr p)
  then obtain w window where j: "judge_response C (verifier_advance V now) c vm r expected = Inr (w, window)" by (cases p) auto
  then have "consumes V \<lparr>ad_scope = vw_scope_key w, ad_hash = vw_response_hash w, ad_expires = vw_expires_at w,
      ad_clock = max (wv_clock V) now\<rparr> (verifier_advance V now\<lparr>wv_window := window\<rparr>)"
    unfolding judge_response_iff by (auto simp: consumes_def verifier_advance_def challenge_verify_iff)
  then show ?thesis using assms j by (auto simp: verify_response_def Let_def witness_admission_def verifier_advance_def)
qed

lemma hashcash_step:
  assumes "verify_hashcash C V c r expected now = res"
  shows "wv_clock V \<le> wv_clock (snd res) \<and>
    (case hashcash_admission res of None \<Rightarrow> wv_window (snd res) = wv_window V | Some a \<Rightarrow> consumes V a (snd res))"
proof (cases "judge_hashcash C (verifier_advance V now) c r expected")
  case (Inl e)
  then show ?thesis using assms by (auto simp: verify_hashcash_def Let_def hashcash_admission_def verifier_advance_def)
next
  case (Inr p)
  then obtain w window where j: "judge_hashcash C (verifier_advance V now) c r expected = Inr (w, window)" by (cases p) auto
  then have "consumes V \<lparr>ad_scope = vq_scope_key w, ad_hash = vq_response_hash w, ad_expires = vq_expires_at w,
      ad_clock = max (wv_clock V) now\<rparr> (verifier_advance V now\<lparr>wv_window := window\<rparr>)"
    unfolding judge_hashcash_iff by (auto simp: consumes_def verifier_advance_def challenge_verify_iff)
  then show ?thesis using assms j by (auto simp: verify_hashcash_def Let_def hashcash_admission_def verifier_advance_def)
qed

lemma bot_step_cases:
  assumes "bot_step C V p = (admitted, V')"
  shows "wv_clock V \<le> wv_clock V' \<and>
    (case admitted of
       None \<Rightarrow> wv_window V' = wv_window V \<or> wv_window V' = window_prune (wv_window V) (wv_clock V')
     | Some a \<Rightarrow> consumes V a V')"
proof (cases p)
  case (OpBytes c vm r expected now)
  show ?thesis
  proof (cases "\<exists>x y. challenge_decode c = Inr x \<and> response_decode r = Inr y")
    case True
    then obtain x y where "challenge_decode c = Inr x" "response_decode r = Inr y" by blast
    then have "verify_bytes C V c vm r expected now = verify_response C V x vm y expected now" by (simp add: verify_bytes_def)
    then show ?thesis
      using assms OpBytes response_step [of C V x vm y expected now, OF refl] by (auto simp: Let_def split: option.splits)
  next
    case False
    then have "\<exists>e. verify_bytes C V c vm r expected now = (Inl e, V)" by (auto simp: verify_bytes_def split: sum.split)
    then show ?thesis using assms OpBytes by (auto simp: Let_def witness_admission_def)
  qed
next
  case (OpResponse c vm r expected now)
  then show ?thesis using assms response_step [of C V c vm r expected now, OF refl] by (auto simp: Let_def split: option.splits)
next
  case (OpHashcash c r expected now)
  then show ?thesis using assms hashcash_step [of C V c r expected now, OF refl] by (auto simp: Let_def split: option.splits)
next
  case (OpPrune now)
  then show ?thesis using assms by (auto simp: verifier_prune_def verifier_advance_def Let_def)
next
  case (OpAllow allowance)
  then show ?thesis using assms by (auto simp: set_allowance_def)
qed

text \<open>What was admitted is still recorded, or can no longer be presented.\<close>

definition remembers :: "witness_verifier \<Rightarrow> admission \<Rightarrow> bool" where
  "remembers V a \<longleftrightarrow> ad_expires a < wv_clock V
     \<or> (\<exists>e. bt_get (ow_entries (wv_window V)) (ad_scope a) = Some e \<and> ne_expires_at e = ad_expires a \<and> ne_response_hash e = ad_hash a)"

definition after_expiry :: "admission \<Rightarrow> admission \<Rightarrow> bool" where
  "after_expiry a b \<longleftrightarrow> (ad_scope a = ad_scope b \<longrightarrow> ad_expires a < ad_clock b \<and> ad_clock b \<le> ad_expires b)"

lemma bot_step_keeps:
  assumes "bot_step C V p = (admitted, V')" and "one_use_ok (wv_window V)" and "\<forall>a\<in>past. remembers V a"
  shows "one_use_ok (wv_window V') \<and> (\<forall>a\<in>past \<union> set_option admitted. remembers V' a) \<and> (\<forall>a\<in>past. \<forall>b\<in>set_option admitted. after_expiry a b)"
proof (cases admitted)
  case None
  then have c: "wv_clock V \<le> wv_clock V'"
    "wv_window V' = wv_window V \<or> wv_window V' = window_prune (wv_window V) (wv_clock V')" using bot_step_cases [OF assms(1)] by auto
  have "remembers V' a" if "remembers V a" for a
  proof -
    have "ad_expires a < wv_clock V'" if "ad_expires a < wv_clock V" using that c(1) by (rule less_le_trans)
    then show ?thesis
      using that c(2) prune_get [OF assms(2), of "wv_clock V'" "ad_scope a"] unfolding remembers_def by (auto simp: not_less)
  qed
  then show ?thesis using None assms(2,3) c(2) prune_ok [OF assms(2)] by auto
next
  case (Some b)
  then have c: "wv_clock V \<le> wv_clock V'" "consumes V b V'" using bot_step_cases [OF assms(1)] by auto
  then obtain subject where b: "ad_clock b = wv_clock V'" "wv_clock V' \<le> ad_expires b"
    "window_consume (wv_window V) (ad_scope b) subject (ad_hash b) (ad_expires b) = Inr (wv_window V')" by (auto simp: consumes_def)
  note fresh = consume_fresh [OF b(3)]
  have up: "ad_expires a < wv_clock V'" if "ad_expires a < wv_clock V" for a using that c(1) by (rule less_le_trans)
  have get: "bt_get (ow_entries (wv_window V')) k = (if k = ad_scope b
      then Some \<lparr>ne_response_hash = ad_hash b, ne_expires_at = ad_expires b, ne_subject_key = subject\<rparr> else bt_get (ow_entries (wv_window V)) k)" for k
    using b(3) assms(2) unfolding consume_eq_Inr one_use_ok_def by auto
  have "remembers V' a \<and> after_expiry a b" if "remembers V a" for a
    using that up [of a] fresh b unfolding remembers_def after_expiry_def get by auto
  moreover have "remembers V' b" by (simp add: remembers_def get)
  ultimately show ?thesis using Some assms(3) consume_ok [OF assms(2) b(3)] by auto
qed

lemma bot_run_keeps:
  assumes "one_use_ok (wv_window V)" and "\<forall>a\<in>past. remembers V a" and "bot_run C V ps = (adms, V')"
  shows "one_use_ok (wv_window V') \<and> (\<forall>a\<in>past \<union> set adms. remembers V' a) \<and> sorted_wrt after_expiry adms \<and> (\<forall>a\<in>past. \<forall>b\<in>set adms. after_expiry a b)"
  using assms
proof (induction ps arbitrary: V past adms)
  case (Cons p ps)
  obtain admitted V1 where s: "bot_step C V p = (admitted, V1)" by fastforce
  obtain rest V2 where r2: "bot_run C V1 ps = (rest, V2)" by fastforce
  then have r: "bot_run C V1 ps = (rest, V')" "adms = (case admitted of None \<Rightarrow> rest | Some a \<Rightarrow> a # rest)"
    using Cons.prems(3) s by simp_all
  note k = bot_step_keeps [OF s Cons.prems(1,2)]
  have IH: "one_use_ok (wv_window V') \<and> (\<forall>a\<in>(past \<union> set_option admitted) \<union> set rest. remembers V' a) \<and> sorted_wrt after_expiry rest
      \<and> (\<forall>a\<in>past \<union> set_option admitted. \<forall>b\<in>set rest. after_expiry a b)"
    by (rule Cons.IH [OF _ _ r(1)]) (use k in blast)+
  show ?case
  proof (cases admitted)
    case None
    then show ?thesis using IH r(2) by simp
  next
    case (Some b)
    then show ?thesis using IH k r(2) by simp
  qed
qed simp

section \<open>Replays never fail\<close>

lemma candidate_fits:
  assumes "manifest_ok C vm" and "manifest_assign vm candidate = Inr a"
  shows "length candidate \<le> 16" "sorted_wrt (<) (map fst candidate)"
proof -
  have o: "map fst candidate = open_slots vm" using assms(2) by (auto simp: manifest_assign_def split: if_splits)
  have s: "sorted_wrt (<) (map ps_cell (tm_slots (va_manifest vm)))" "length (tm_slots (va_manifest vm)) \<le> 16"
    using manifest_codable_ok [OF assms(1)] by (simp_all add: manifest_codable_def)
  show "sorted_wrt (<) (map fst candidate)"
    using s(1) unfolding o open_slots_def sorted_wrt_map by (rule sorted_wrt_filter)
  have "length candidate = length (open_slots vm)" using o by (metis length_map)
  also have "\<dots> \<le> length (tm_slots (va_manifest vm))" by (simp add: open_slots_def)
  finally show "length candidate \<le> 16" using s(2) by simp
qed

lemma replay_never_fails:
  assumes vm: "manifest_ok C vm" and m: "ch_manifest (vh_challenge v) = va_hash vm"
  shows "replay_response C allowance v vm r \<noteq> Inl BRun"
proof
  assume e: "replay_response C allowance v vm r = Inl BRun"
  then obtain candidate a where d: "decode_candidate (re_candidate r) = Inr candidate" "manifest_assign vm candidate = Inr a"
    and fuel: "fuel_total vm \<le> allowance"
    and bad: "\<exists>e. platform_run C vm a (run_capability_for v (witness_digest C ASSIGNMENT_DOMAIN (encode_assignment a)) allowance Replay) = Inl e"
    by (auto simp: replay_response_def Let_def bindR_eq_Inl map_err_def not_less split: sum.splits if_splits)
  have ok: "assignment_ok (va_world vm) a"
    using manifest_assign_ok(1) [OF vm d(2)] d(1) by (simp add: decode_candidate_iff)
  obtain run where "platform_run C vm a (run_capability_for v (witness_digest C ASSIGNMENT_DOMAIN (encode_assignment a)) allowance Replay) = Inr run"
    by (rule run_observed_ok [OF vm ok, of "run_capability_for v (witness_digest C ASSIGNMENT_DOMAIN (encode_assignment a)) allowance Replay"])
       (simp_all add: run_capability_for_def m fuel)
  then show False using bad by simp
qed

lemma check_errors:
  "check_subject C k t s \<noteq> Inl BRun" "check_contract contract receipt \<noteq> Inl BRun" "witness_error_of x \<noteq> BRun"
  "challenge_verify C c expected started now \<noteq> Inl BRun"
  by (auto simp: check_subject_def check_contract_def witness_error_of_def challenge_verify_def ok_or_def bindR_eq_Inl
      split: window_error.split if_splits option.splits)

lemma judge_never_fails:
  assumes "manifest_ok C vm"
  shows "judge_response C V c vm r expected \<noteq> Inl BRun"
proof
  assume e: "judge_response C V c vm r expected = Inl BRun"
  have m: "map_err witness_error_of x \<noteq> Inl BRun" for x :: "window_error + one_use_window" by (cases x) (simp_all add: check_errors)
  have ok: "ok_or BAlgorithm x \<noteq> Inl BRun" for x :: "work_contract option" by (cases x) simp_all
  obtain v where v: "challenge_verify C c expected (wv_started_at V) (wv_clock V) = Inr v"
    and rest: "va_hash vm = ch_manifest c" "replay_response C (wv_allowance V) v vm r = Inl BRun"
    using e unfolding judge_response_def Let_def
    by (auto simp: bindR_eq_Inl check_errors m ok split: if_splits option.splits)
  have "ch_manifest (vh_challenge v) = va_hash vm" using v rest(1) by (simp add: challenge_verify_iff)
  then show False using replay_never_fails [OF assms] rest(2) by blast
qed

end
