(* ===== verification/Botcaptcha_Safety.thy ===== *)
theory Botcaptcha_Safety
  imports Botcaptcha_Machine Platform_Safety
begin

text \<open>
  The properties of \<open>vhalla-botcaptcha\<close>: exact admission, one admission per challenge over any
  sequence of operations, honest provers of both modes are judged on their work alone, what a Hashcash
  target means, and exact codecs.
\<close>

section \<open>Honest provers\<close>

definition strict_key :: "crypto \<Rightarrow> array32 \<Rightarrow> bool" where
  "strict_key C k \<longleftrightarrow> key_point C k \<and> \<not> key_weak C k"

lemma issue_with_ok:
  assumes "issue_with C ik algorithm entropy t lifetime subject realm room purpose manifest req = Inr c" and "sign_correct C"
  shows "ch_issuer_key c = public_of C ik" "ch_subject_key c = subject" "ch_manifest c = manifest" "ch_requirement c = req"
    "ch_algorithm c = algorithm" "ch_version c = BOT_VERSION" "ch_issued_at c = t" "ch_purpose c = purpose"
    "ch_issued_at c < ch_expires_at c" "ch_expires_at c - ch_issued_at c \<le> MAX_CHALLENGE_LIFETIME"
    "verify_strict C (ch_issuer_key c) (challenge_transcript c) (ch_signature c)"
proof -
  define u where "u = \<lparr>ch_version = BOT_VERSION, ch_algorithm = algorithm, ch_id = entropy, ch_issuer_key = public_of C ik,
      ch_subject_key = subject, ch_realm = realm, ch_room = room, ch_purpose = purpose, ch_manifest = manifest,
      ch_issued_at = t, ch_expires_at = t + lifetime, ch_requirement = req, ch_signature = 0\<rparr>"
  from assms(1) have l: "lifetime \<noteq> 0" "lifetime \<le> MAX_CHALLENGE_LIFETIME" and add: "checked_add t lifetime = Some (t + lifetime)"
    and c: "c = u\<lparr>ch_signature := sign_bytes C ik (challenge_transcript u)\<rparr>"
    by (auto simp: issue_with_def not_less Let_def checked_add_def u_def split: if_splits)
  have "unat (t + lifetime) = unat t + unat lifetime" using add by (auto simp: checked_add_def unat_plus_noloss split: if_splits)
  then have lt: "t < t + lifetime" using l(1) by (simp add: word_less_nat_alt unat_gt_0)
  have "challenge_transcript c = challenge_transcript u" by (simp add: c challenge_transcript_def challenge_body_def)
  then show "verify_strict C (ch_issuer_key c) (challenge_transcript c) (ch_signature c)"
    using sign_correctD [OF assms(2)] by (simp add: c) (simp add: u_def)
  show "ch_issuer_key c = public_of C ik" "ch_subject_key c = subject" "ch_manifest c = manifest" "ch_requirement c = req"
    "ch_algorithm c = algorithm" "ch_version c = BOT_VERSION" "ch_issued_at c = t" "ch_purpose c = purpose"
    "ch_issued_at c < ch_expires_at c" "ch_expires_at c - ch_issued_at c \<le> MAX_CHALLENGE_LIFETIME"
    using l(2) lt by (simp_all add: c u_def)
qed

lemma issued_verifies:
  assumes "issue_with C ik algorithm entropy t lifetime subject realm room purpose manifest req = Inr c" and "sign_correct C"
    and "strict_key C (public_of C ik)" and "started \<le> t" "t \<le> now" "now \<le> ch_expires_at c"
  shows "challenge_verify C c (context_of c) started now = Inr \<lparr>vh_challenge = c, vh_scope_key = scope_key C c\<rparr>"
  using issue_with_ok [OF assms(1,2)] assms(3-6) by (simp add: challenge_verify_iff strict_key_def)

text \<open>What the prover of a bound candidate returns, and what the verifier makes of it.\<close>

lemma honest_response:
  assumes vm: "manifest_ok C vm" and a: "manifest_assign vm candidate = Inr a" and ps: "\<forall>ip\<in>set candidate. program_ok (snd ip)"
    and sign: "sign_correct C" and v: "vh_challenge v = c" "ch_manifest c = va_hash vm" "ch_algorithm c = AlgWitness" "ch_subject_key c = public_of C sk"
    and fuel: "fuel_total vm \<le> prover" "fuel_total vm \<le> allowance"
  obtains r run where "respond_witness C v vm candidate prover sk = Inr r" "response_ok r"
    "platform_run C vm a (run_capability_for v (witness_digest C ASSIGNMENT_DOMAIN (encode_assignment a)) prover Prove) = Inr run"
    "verify_strict C (ch_subject_key c) (response_transcript r) (re_signature r)"
    "response_binds C c r" "response_claims C r"
    "replay_response C allowance v vm r = Inr (into_receipt C run (receipt_binding_for v))"
proof -
  let ?program = "witness_digest C ASSIGNMENT_DOMAIN (encode_assignment a)"
  have ok: "assignment_ok (va_world vm) a" using manifest_assign_ok(1) [OF vm a] ps by (simp add: pair_ok_def)
  obtain run where run: "platform_run C vm a (run_capability_for v ?program prover Prove) = Inr run"
    by (rule run_observed_ok [OF vm ok, of "run_capability_for v ?program prover Prove"]) (simp_all add: run_capability_for_def v fuel)
  obtain run' where run': "platform_run C vm a (run_capability_for v ?program allowance Replay) = Inr run'"
    by (rule run_observed_ok [OF vm ok, of "run_capability_for v ?program allowance Replay"]) (simp_all add: run_capability_for_def v fuel)
  have "into_receipt C (run\<lparr>wr_role := x\<rparr>) b = into_receipt C run b" for x b
    by (simp add: into_receipt_def run_output_hash_def run_output_def run_passed_def)
  then have same: "into_receipt C run' b = into_receipt C run b" for b using run_ignores_capability [OF run run'] by metis
  define receipt where "receipt = into_receipt C run (receipt_binding_for v)"
  define u where "u = \<lparr>re_version = BOT_VERSION, re_profile = TransparentReceipt, re_challenge_id = ch_id c,
              re_challenge_hash = challenge_hash C c, re_subject_key = public_of C sk,
              re_manifest = wc_manifest receipt, re_program = wc_program receipt, re_output = wc_output receipt,
              re_receipt = receipt_hash C receipt, re_work = \<lparr>mw_useful = wc_useful receipt, mw_total = wc_total receipt\<rparr>,
              re_nonce = None, re_candidate = encode_candidate candidate, re_claimed = claim_of receipt, re_signature = 0\<rparr>"
  define r where "r = u\<lparr>re_signature := sign_bytes C sk (response_transcript u)\<rparr>"
  have fits: "length candidate \<le> MAX_CELLS" "sorted_wrt (<) (map fst candidate)" "\<forall>p\<in>set candidate. pair_ok p"
    using candidate_fits [OF vm a] ps by (simp_all add: pair_ok_def)
  have names: "wc_manifest receipt = ch_manifest c" "wc_program receipt = ?program" "wc_challenge_id receipt = ch_id c"
    "wc_subject_key receipt = ch_subject_key c"
    using run_returns_names [OF run] v by (simp_all add: receipt_def into_receipt_def receipt_binding_for_def)
  have "respond_witness C v vm candidate prover sk = Inr r"
    using a run v by (simp add: respond_witness_def Let_def r_def u_def receipt_def)
  moreover have "response_ok r" using size_candidate [OF fits(3,1)] by (simp add: response_ok_def r_def u_def)
  moreover have "response_transcript r = response_transcript u" by (simp add: r_def response_transcript_def response_body_def)
  then have "verify_strict C (ch_subject_key c) (response_transcript r) (re_signature r)"
    using sign_correctD [OF sign] v by (simp add: r_def)
  moreover have "response_binds C c r" using names v by (simp add: response_binds_def r_def u_def claim_of_def)
  moreover have "response_claims C r"
    by (simp add: response_claims_def r_def u_def claim_of_def receipt_hash_def claim_of_encode [unfolded claim_of_def])
  moreover have "replay_response C allowance v vm r = Inr receipt"
    unfolding replay_response_iff using fits a fuel(2) run' same
    by (auto simp: decode_candidate_iff r_def u_def receipt_def)
  ultimately show ?thesis using that run by (simp add: receipt_def)
qed

section \<open>Hashcash targets\<close>

lemma takeWhile_at_least: "k \<le> length (takeWhile P xs) \<longleftrightarrow> k \<le> length xs \<and> (\<forall>i<k. P (xs ! i))"
proof (induction xs arbitrary: k)
  case (Cons x xs)
  then show ?case by (cases k) (auto simp: All_less_Suc2)
qed auto

lemma byte_leading_zeros_iff: "k \<le> 8 \<Longrightarrow> k \<le> byte_leading_zeros b \<longleftrightarrow> unat b < 2 ^ (8 - k)"
proof -
  assume k: "k \<le> 8"
  have "k \<le> byte_leading_zeros b \<longleftrightarrow> (\<forall>i<k. \<not> bit b ([7, 6, 5, 4, 3, 2, 1, 0] ! i))"
    unfolding byte_leading_zeros_def takeWhile_at_least using k by simp
  also have "\<dots> \<longleftrightarrow> (\<forall>i<k. \<not> bit b (7 - i))"
  proof -
    have "[7, 6, 5, 4, 3, 2, 1, 0] ! i = (7 - i :: nat)" if "i < 8" for i
      using that by (simp add: less_Suc_eq numeral_eq_Suc) auto
    then show ?thesis using k by auto
  qed
  also have "\<dots> \<longleftrightarrow> take_bit (8 - k) b = b"
  proof
    assume z: "\<forall>i<k. \<not> bit b (7 - i)"
    show "take_bit (8 - k) b = b"
    proof (rule bit_word_eqI)
      fix n assume n: "n < LENGTH(8)"
      have "\<not> bit b n" if "8 - k \<le> n" using z [rule_format, of "7 - n"] that n k by simp
      then show "bit (take_bit (8 - k) b) n \<longleftrightarrow> bit b n" by (cases "8 - k \<le> n") (simp_all add: bit_take_bit_iff)
    qed
  next
    assume t: "take_bit (8 - k) b = b"
    show "\<forall>i<k. \<not> bit b (7 - i)"
    proof (intro allI impI notI)
      fix i assume i: "i < k" "bit b (7 - i)"
      then have "bit (take_bit (8 - k) b) (7 - i)" by (simp add: t)
      then show False using i k by (simp add: bit_take_bit_iff)
    qed
  qed
  also have "\<dots> \<longleftrightarrow> unat b < 2 ^ (8 - k)"
    by (simp add: word_unat_eq_iff unsigned_take_bit_eq take_bit_nat_eq_self_iff)
  finally show ?thesis .
qed

lemma leading_zero_bits_iff:
  "k \<le> 8 * length bs \<Longrightarrow> k \<le> leading_zero_bits bs \<longleftrightarrow> nat_be bs < 2 ^ (8 * length bs - k)"
proof (induction bs arbitrary: k)
  case (Cons b bs)
  have p: "nat_be bs < 2 ^ (8 * length bs)" using nat_be_bound [of bs] by (simp add: power_mult)
  have n: "nat_be (b # bs) = unat b * 2 ^ (8 * length bs) + nat_be bs" by (simp add: nat_be_Cons power_mult)
  show ?case
  proof (cases "k \<le> 8")
    case True
    have e: "(2::nat) ^ (8 * length (b # bs) - k) = 2 ^ (8 - k) * 2 ^ (8 * length bs)"
      using True by (simp add: power_add [symmetric])
    have "unat b * 2 ^ (8 * length bs) + nat_be bs < 2 ^ (8 - k) * 2 ^ (8 * length bs) \<longleftrightarrow> unat b < 2 ^ (8 - k)"
    proof
      assume "unat b * 2 ^ (8 * length bs) + nat_be bs < 2 ^ (8 - k) * 2 ^ (8 * length bs)"
      then have "unat b * 2 ^ (8 * length bs) < 2 ^ (8 - k) * 2 ^ (8 * length bs)" by linarith
      then show "unat b < 2 ^ (8 - k)" by simp
    next
      assume "unat b < 2 ^ (8 - k)"
      then have "(unat b + 1) * 2 ^ (8 * length bs) \<le> 2 ^ (8 - k) * 2 ^ (8 * length bs)" by (intro mult_right_mono) simp_all
      then show "unat b * 2 ^ (8 * length bs) + nat_be bs < 2 ^ (8 - k) * 2 ^ (8 * length bs)" using p by (simp add: algebra_simps)
    qed
    moreover have "k \<le> leading_zero_bits (b # bs) \<longleftrightarrow> unat b < 2 ^ (8 - k)"
      using True byte_leading_zeros_iff [of k b] by (cases "b = 0") simp_all
    ultimately show ?thesis by (simp only: n e)
  next
    case False
    show ?thesis
    proof (cases "b = 0")
      case True
      then have "nat_be (b # bs) = nat_be bs" using n by simp
      moreover have "8 * length (b # bs) - k = 8 * length bs - (k - 8)" using False by simp
      moreover have "k - 8 \<le> leading_zero_bits bs \<longleftrightarrow> nat_be bs < 2 ^ (8 * length bs - (k - 8))"
        by (rule Cons.IH) (use Cons.prems in simp)
      moreover have "k \<le> leading_zero_bits (b # bs) \<longleftrightarrow> k - 8 \<le> leading_zero_bits bs" using True by auto
      ultimately show ?thesis by (simp only:)
    next
      case nz: False
      have small: "(2::nat) ^ (8 * length (b # bs) - k) \<le> 2 ^ (8 * length bs)" using False by (intro power_increasing) simp_all
      have "0 < unat b" using nz by (simp add: unat_gt_0)
      then have "2 ^ (8 * length bs) \<le> unat b * 2 ^ (8 * length bs)" by simp
      then have "\<not> nat_be (b # bs) < 2 ^ (8 * length (b # bs) - k)" using small unfolding n by linarith
      moreover have "byte_leading_zeros b \<le> 8" unfolding byte_leading_zeros_def by (rule order_trans [OF length_takeWhile_le]) simp
      then have "\<not> k \<le> leading_zero_bits (b # bs)" using nz False by simp
      ultimately show ?thesis by blast
    qed
  qed
qed simp

lemma find_nonce_iff:
  "unat start + left < 2 ^ 64 \<Longrightarrow> find_nonce good start left = Some n \<longleftrightarrow>
     start \<le> n \<and> unat n < unat start + left \<and> good n \<and> (\<forall>k. start \<le> k \<and> k < n \<longrightarrow> \<not> good k)"
proof (induction left arbitrary: start)
  case 0
  then show ?case by (auto simp: word_le_nat_alt)
next
  case (Suc left)
  have "unat (start + 1) = unat start + unat (1 :: u64)" by (rule unat_plus_noloss) (use Suc.prems in simp)
  then have s: "unat (start + 1) = unat start + 1" by simp
  then have le: "start + 1 \<le> k \<longleftrightarrow> start < k" for k by (simp add: word_le_nat_alt word_less_nat_alt Suc_le_eq)
  show ?case
  proof (cases "good start")
    case True
    then show ?thesis using Suc.prems by (auto simp: le_less)
  next
    case False
    have "(\<forall>k. start < k \<and> k < n \<longrightarrow> \<not> good k) \<longleftrightarrow> (\<forall>k. start \<le> k \<and> k < n \<longrightarrow> \<not> good k)"
      using False by (auto simp: le_less)
    moreover have "start < n \<longleftrightarrow> start \<le> n \<and> start \<noteq> n" by auto
    ultimately show ?thesis using Suc False s le by auto
  qed
qed

section \<open>Admissible responses\<close>

text \<open>What admitting a response to a challenge for a manifest means, at the verifier's advanced clock.\<close>

definition challenge_live :: "crypto \<Rightarrow> witness_verifier \<Rightarrow> u64 \<Rightarrow> challenge \<Rightarrow> challenge_context \<Rightarrow> bool" where
  "challenge_live C V clock c expected \<longleftrightarrow>
     strict_key C (ch_issuer_key c) \<and> verify_strict C (ch_issuer_key c) (challenge_transcript c) (ch_signature c)
     \<and> context_of c = expected
     \<and> ch_issued_at c < ch_expires_at c \<and> ch_expires_at c - ch_issued_at c \<le> MAX_CHALLENGE_LIFETIME
     \<and> wv_started_at V \<le> ch_issued_at c \<and> ch_issued_at c \<le> clock \<and> clock \<le> ch_expires_at c"

definition scope_open :: "crypto \<Rightarrow> witness_verifier \<Rightarrow> challenge \<Rightarrow> bool" where
  "scope_open C V c \<longleftrightarrow> bt_get (ow_entries (wv_window V)) (scope_key C c) = None
     \<and> length (ow_entries (wv_window V)) < MAX_OPEN_CHALLENGES \<and> held_by (wv_window V) (ch_subject_key c) < MAX_OPEN_PER_SUBJECT"

definition work_proved :: "crypto \<Rightarrow> u64 \<Rightarrow> challenge \<Rightarrow> valid_manifest \<Rightarrow> witness_response \<Rightarrow> witness_run \<Rightarrow> bool" where
  "work_proved C allowance c vm r run \<longleftrightarrow> (\<exists>contract candidate a.
     ch_requirement c = ReqWitness contract
     \<and> decode_candidate (re_candidate r) = Inr candidate \<and> manifest_assign vm candidate = Inr a \<and> fuel_total vm \<le> allowance
     \<and> platform_run C vm a \<lparr>rc_manifest = va_hash vm, rc_program = witness_digest C ASSIGNMENT_DOMAIN (encode_assignment a),
          rc_max_total = allowance, rc_role = Replay\<rparr> = Inr run
     \<and> re_claimed r = claim_of (into_receipt C run \<lparr>rb_challenge_id = ch_id c, rb_subject_key = ch_subject_key c\<rparr>)
     \<and> wc_useful_floor contract \<le> wr_useful run \<and> wr_total run \<le> wc_total_ceiling contract
     \<and> (wc_require_passed contract \<longrightarrow> run_passed run))"

section \<open>Examples\<close>

definition demo_contract :: work_contract where
  "demo_contract = \<lparr>wc_useful_floor = 0, wc_total_ceiling = - 1, wc_require_passed = False\<rparr>"

definition demo_verifier :: witness_verifier where
  "demo_verifier = verifier_new 0 1000 window_new"

lemma demo_issue:
  obtains c where "issue_challenge toy_crypto 5 9 10 100 (public_of toy_crypto 7) 1 2 GameQualification (va_hash (demo_valid toy_crypto)) demo_contract = Inr c"
    "ch_expires_at c = 110" "ch_id c = 9"
  by (simp add: issue_challenge_def issue_with_def checked_add_def MAX_CHALLENGE_LIFETIME_def Let_def)

lemma demo_issue_hashcash:
  obtains c where "issue_hashcash toy_crypto 5 9 10 100 (public_of toy_crypto 7) 1 2 GameQualification 8 = Inr c" "ch_expires_at c = 110"
  by (simp add: issue_hashcash_def issue_with_def checked_add_def MAX_CHALLENGE_LIFETIME_def Let_def)

lemma demo_keys: "strict_key toy_crypto (public_of toy_crypto 5)" "strict_key toy_crypto (public_of toy_crypto 7)"
  by (simp_all add: strict_key_def toy_crypto_def)

lemma demo_open: "scope_open toy_crypto demo_verifier c" "one_use_ok (wv_window demo_verifier)"
  using window_new_ok
  by (simp_all add: scope_open_def demo_verifier_def verifier_new_def window_new_def held_by_def bt_new_def bt_get_def
      MAX_OPEN_CHALLENGES_def MAX_OPEN_PER_SUBJECT_def)

lemma demo_fuel: "fuel_total (demo_valid toy_crypto) \<le> 1000" "wv_allowance demo_verifier = 1000" "wv_started_at demo_verifier = 0"
    "wv_clock demo_verifier = 0"
  by (simp_all add: fuel_total_def demo_valid_def demo_task_def demo_case_def demo_verifier_def verifier_new_def)

section \<open>Properties\<close>

lemma honest_hashcash:
  assumes "sign_correct C" and v: "vh_challenge v = c" "ch_algorithm c = AlgHashcash" "ch_subject_key c = public_of C sk"
  obtains r where "respond_hashcash C v n sk = Inr r" "hashcash_ok r" "hx_nonce r = n" "hx_challenge_id r = ch_id c"
    "hx_challenge_hash r = challenge_hash C c" "hx_subject_key r = ch_subject_key c"
    "verify_strict C (ch_subject_key c) (hashcash_transcript r) (hx_signature r)"
proof -
  define u where "u = \<lparr>hx_version = BOT_VERSION, hx_challenge_id = ch_id c, hx_challenge_hash = challenge_hash C c,
      hx_subject_key = public_of C sk, hx_nonce = n, hx_signature = 0\<rparr>"
  define r where "r = u\<lparr>hx_signature := sign_bytes C sk (hashcash_transcript u)\<rparr>"
  have "hashcash_transcript r = hashcash_transcript u" by (simp add: r_def hashcash_transcript_def hashcash_body_def)
  then have "verify_strict C (ch_subject_key c) (hashcash_transcript r) (hx_signature r)"
    using sign_correctD [OF assms(1)] v(3) by (simp add: r_def)
  then show ?thesis using v by (intro that [of r]) (simp_all add: respond_hashcash_def Let_def r_def u_def hashcash_ok_def)
qed

text \<open>
  C29. Admission of a witness is exact. For a valid manifest, a response is admitted exactly when the
  challenge is live (signed by a usable issuer key for the expected context, within its bounded lifetime
  and not older than the verifier), the subject signed the response with a usable key, the response and
  its receipt name this challenge, replaying the candidate's programs on this manifest yields exactly the
  claimed receipt and meets the challenge's contract, and the scope is open. A replay itself never fails,
  and a refusal leaves the window as it was.
\<close>

theorem witness_admission_exact:
  assumes "manifest_validate C m = Inr vm" and "manifest_typed m"
  shows "(fst (verify_response C V c vm r expected now) = Inr w \<longleftrightarrow>
      challenge_live C V (max (wv_clock V) now) c expected \<and> scope_open C V c
      \<and> strict_key C (ch_subject_key c) \<and> verify_strict C (ch_subject_key c) (response_transcript r) (re_signature r)
      \<and> va_hash vm = ch_manifest c \<and> response_binds C c r \<and> response_claims C r
      \<and> (\<exists>run. work_proved C (wv_allowance V) c vm r run
          \<and> w = \<lparr>vw_scope_key = scope_key C c, vw_response_hash = response_hash C r,
               vw_reward = reward C (scope_key C c) (response_hash C r),
               vw_receipt = into_receipt C run \<lparr>rb_challenge_id = ch_id c, rb_subject_key = ch_subject_key c\<rparr>,
               vw_purpose = ch_purpose c, vw_expires_at = ch_expires_at c\<rparr>))
   \<and> fst (verify_response C V c vm r expected now) \<noteq> Inl BRun
   \<and> (\<forall>e. fst (verify_response C V c vm r expected now) = Inl e \<longrightarrow> wv_window (snd (verify_response C V c vm r expected now)) = wv_window V)"
proof (intro conjI)
  have eq: "wv_started_at (verifier_advance V now) = wv_started_at V" "wv_allowance (verifier_advance V now) = wv_allowance V"
    "wv_window (verifier_advance V now) = wv_window V" "wv_clock (verifier_advance V now) = max (wv_clock V) now"
    by (simp_all add: verifier_advance_def)
  have "fst (verify_response C V c vm r expected now) = Inr w \<longleftrightarrow> (\<exists>window. judge_response C (verifier_advance V now) c vm r expected = Inr (w, window))"
    by (auto simp: verify_response_def Let_def split: sum.splits)
  also have "\<dots> \<longleftrightarrow> challenge_live C V (max (wv_clock V) now) c expected \<and> scope_open C V c
      \<and> strict_key C (ch_subject_key c) \<and> verify_strict C (ch_subject_key c) (response_transcript r) (re_signature r)
      \<and> va_hash vm = ch_manifest c \<and> response_binds C c r \<and> response_claims C r
      \<and> (\<exists>run. work_proved C (wv_allowance V) c vm r run
          \<and> w = \<lparr>vw_scope_key = scope_key C c, vw_response_hash = response_hash C r,
               vw_reward = reward C (scope_key C c) (response_hash C r),
               vw_receipt = into_receipt C run \<lparr>rb_challenge_id = ch_id c, rb_subject_key = ch_subject_key c\<rparr>,
               vw_purpose = ch_purpose c, vw_expires_at = ch_expires_at c\<rparr>)"
    unfolding judge_response_iff challenge_verify_iff check_subject_iff check_contract_iff replay_response_iff consume_eq_Inr eq
      challenge_live_def scope_open_def work_proved_def strict_key_def
    by (auto simp: run_capability_for_def receipt_binding_for_def into_receipt_def)
  finally show "fst (verify_response C V c vm r expected now) = Inr w \<longleftrightarrow>
      challenge_live C V (max (wv_clock V) now) c expected \<and> scope_open C V c
      \<and> strict_key C (ch_subject_key c) \<and> verify_strict C (ch_subject_key c) (response_transcript r) (re_signature r)
      \<and> va_hash vm = ch_manifest c \<and> response_binds C c r \<and> response_claims C r
      \<and> (\<exists>run. work_proved C (wv_allowance V) c vm r run
          \<and> w = \<lparr>vw_scope_key = scope_key C c, vw_response_hash = response_hash C r,
               vw_reward = reward C (scope_key C c) (response_hash C r),
               vw_receipt = into_receipt C run \<lparr>rb_challenge_id = ch_id c, rb_subject_key = ch_subject_key c\<rparr>,
               vw_purpose = ch_purpose c, vw_expires_at = ch_expires_at c\<rparr>)" .
next
  have "judge_response C (verifier_advance V now) c vm r expected \<noteq> Inl BRun"
    by (rule judge_never_fails [OF manifest_validate_ok(1) [OF assms]])
  then show "fst (verify_response C V c vm r expected now) \<noteq> Inl BRun"
    by (auto simp: verify_response_def Let_def split: sum.splits)
  show "\<forall>e. fst (verify_response C V c vm r expected now) = Inl e \<longrightarrow> wv_window (snd (verify_response C V c vm r expected now)) = wv_window V"
    by (auto simp: verify_response_def Let_def verifier_advance_def split: sum.splits)
qed

theorem witness_admission_exact_witness:
  "\<exists>c r w. fst (verify_response toy_crypto demo_verifier c (demo_valid toy_crypto) r (context_of c) 20) = Inr w
     \<and> vw_purpose w = GameQualification"
proof -
  obtain c where c: "issue_challenge toy_crypto 5 9 10 100 (public_of toy_crypto 7) 1 2 GameQualification (va_hash (demo_valid toy_crypto)) demo_contract = Inr c"
    "ch_expires_at c = 110" by (rule demo_issue)
  note i = issue_with_ok [OF c(1) [unfolded issue_challenge_def] toy_sign_correct]
  define v where "v = \<lparr>vh_challenge = c, vh_scope_key = scope_key toy_crypto c\<rparr>"
  have v: "vh_challenge v = c" by (simp add: v_def)
  note vm = manifest_validate_ok(1) [OF demo_manifest_valid demo_manifest_typed, of toy_crypto]
  obtain r run where r: "verify_strict toy_crypto (ch_subject_key c) (response_transcript r) (re_signature r)"
    "response_binds toy_crypto c r" "response_claims toy_crypto r"
    "replay_response toy_crypto 1000 v (demo_valid toy_crypto) r = Inr (into_receipt toy_crypto run (receipt_binding_for v))"
    by (rule honest_response [OF vm demo_assign demo_candidate_ok toy_sign_correct v i(3,5,2) demo_fuel(1,1)])
  have live: "challenge_live toy_crypto demo_verifier 20 c (context_of c)"
    using i demo_keys by (simp add: challenge_live_def demo_fuel c(2))
  from r(4) obtain run' where "work_proved toy_crypto 1000 c (demo_valid toy_crypto) r run'"
    using i(4) v i(3) by (auto simp: replay_response_iff work_proved_def run_capability_for_def receipt_binding_for_def demo_contract_def)
  note proved = this
  define w where "w = \<lparr>vw_scope_key = scope_key toy_crypto c, vw_response_hash = response_hash toy_crypto r,
     vw_reward = reward toy_crypto (scope_key toy_crypto c) (response_hash toy_crypto r),
     vw_receipt = into_receipt toy_crypto run' \<lparr>rb_challenge_id = ch_id c, rb_subject_key = ch_subject_key c\<rparr>,
     vw_purpose = ch_purpose c, vw_expires_at = ch_expires_at c\<rparr>"
  have "fst (verify_response toy_crypto demo_verifier c (demo_valid toy_crypto) r (context_of c) 20) = Inr w"
    unfolding witness_admission_exact [OF demo_manifest_valid demo_manifest_typed, THEN conjunct1]
    using live proved demo_open(1) [of c] demo_keys(2) i(2,3) r(1-3) by (auto simp: demo_fuel w_def)
  then show ?thesis using i(8) by (intro exI [of _ c] exI [of _ r] exI [of _ w]) (simp add: w_def)
qed

text \<open>
  C30. A challenge is consumed at most once. Over any sequence of operations of a new verifier, whatever
  clock values they are given, no scope is admitted twice for the same expiry, and a scope is admitted
  again only through a challenge reissued under the same identifier whose time had not come before the
  first had expired. The window never holds more than 4096 entries nor more than 64 of one subject, and
  its counters are exact.
\<close>

theorem challenge_admitted_once:
  assumes "bot_run C (verifier_new started_at allowance window_new) ops = (adms, V)"
  shows "distinct (map (\<lambda>a. (ad_scope a, ad_expires a)) adms)
   \<and> sorted_wrt (\<lambda>a b. ad_scope a = ad_scope b \<longrightarrow> ad_expires a < ad_clock b \<and> ad_clock b \<le> ad_expires b) adms
   \<and> length (ow_entries (wv_window V)) \<le> 4096
   \<and> (\<forall>k. held_by (wv_window V) k \<le> 64 \<and> held_by (wv_window V) k = length (filter (\<lambda>e. ne_subject_key (snd e) = k) (ow_entries (wv_window V))))"
proof -
  have k: "one_use_ok (wv_window V)" "sorted_wrt after_expiry adms"
    using bot_run_keeps [of "verifier_new started_at allowance window_new" "{}" C ops adms V] assms
    by (simp_all add: verifier_new_def window_new_ok)
  have "distinct (map (\<lambda>a. (ad_scope a, ad_expires a)) xs)" if "sorted_wrt after_expiry xs" for xs
    using that
  proof (induction xs)
    case (Cons a xs)
    have "ad_expires a < ad_expires b" if "b \<in> set xs" "ad_scope a = ad_scope b" for b
      using Cons.prems that by (auto simp: after_expiry_def intro: less_le_trans)
    then have "(ad_scope a, ad_expires a) \<notin> (\<lambda>a. (ad_scope a, ad_expires a)) ` set xs" by force
    then show ?case using Cons by simp
  qed simp
  then show ?thesis
    using k held_by_ok [OF k(1)] by (simp add: after_expiry_def [abs_def] one_use_ok_def held_in_def MAX_OPEN_CHALLENGES_def MAX_OPEN_PER_SUBJECT_def)
qed

theorem challenge_admitted_once_witness:
  "length (ow_entries (wv_window (snd (bot_run toy_crypto (verifier_new 0 1000 window_new) [OpPrune 5, OpAllow 7])))) \<le> 4096"
  using challenge_admitted_once [of toy_crypto 0 1000 "[OpPrune 5, OpAllow 7]" "[]"
      "snd (bot_run toy_crypto (verifier_new 0 1000 window_new) [OpPrune 5, OpAllow 7])"] by simp

text \<open>
  An honest prover is judged on its work alone. If signatures made with a secret key verify, a
  challenge issued for a valid manifest and a usable subject key is answered by the subject for every
  candidate the manifest binds, and while the challenge is live, its scope open and the allowances
  sufficient, the verifier that decodes the two messages admits the answer exactly when the run's receipt
  meets the contract, and otherwise refuses it with the clause of the contract that fails.
\<close>

theorem honest_witness_judged:
  assumes "sign_correct C" and "manifest_validate C m = Inr vm" and "manifest_typed m"
    and "manifest_assign vm candidate = Inr a" and "\<forall>ip\<in>set candidate. program_ok (snd ip)"
    and "fuel_total vm \<le> prover" "fuel_total vm \<le> wv_allowance V"
    and "strict_key C (public_of C ik)" "strict_key C (public_of C sk)"
    and "issue_challenge C ik entropy t lifetime (public_of C sk) realm room purpose (va_hash vm) contract = Inr c"
    and "wv_started_at V \<le> t" "t \<le> max (wv_clock V) now" "max (wv_clock V) now \<le> ch_expires_at c" and "scope_open C V c"
  shows "\<exists>v r run. challenge_verify C c (context_of c) 0 t = Inr v \<and> respond_witness C v vm candidate prover sk = Inr r \<and> response_ok r
    \<and> platform_run C vm a (run_capability_for v (witness_digest C ASSIGNMENT_DOMAIN (encode_assignment a)) prover Prove) = Inr run
    \<and> fst (verify_bytes C V (challenge_encode c) vm (response_encode r) (context_of c) now) =
        (if wr_useful run < wc_useful_floor contract then Inl BFloor
         else if wr_total run > wc_total_ceiling contract then Inl BCeiling
         else if wc_require_passed contract \<and> \<not> run_passed run then Inl BNotPassed
         else Inr \<lparr>vw_scope_key = scope_key C c, vw_response_hash = response_hash C r,
           vw_reward = reward C (scope_key C c) (response_hash C r), vw_receipt = into_receipt C run (receipt_binding_for v),
           vw_purpose = purpose, vw_expires_at = ch_expires_at c\<rparr>)"
proof -
  have iss: "issue_with C ik AlgWitness entropy t lifetime (public_of C sk) realm room purpose (va_hash vm) (ReqWitness contract) = Inr c"
    using assms(10) by (simp add: issue_challenge_def)
  note c = issue_with_ok [OF iss assms(1)] and vm = manifest_validate_ok(1) [OF assms(2,3)]
  define v where "v = \<lparr>vh_challenge = c, vh_scope_key = scope_key C c\<rparr>"
  have verified: "challenge_verify C c (context_of c) 0 t = Inr v"
    using issued_verifies [OF iss assms(1,8), of 0 t] c(7,9) by (simp add: v_def)
  have live: "challenge_verify C c (context_of c) (wv_started_at V) (max (wv_clock V) now) = Inr v"
    using issued_verifies [OF iss assms(1,8)] assms(11-13) by (simp add: v_def)
  have vh: "vh_challenge v = c" "vh_scope_key v = scope_key C c" by (simp_all add: v_def)
  obtain r run where r: "respond_witness C v vm candidate prover sk = Inr r" "response_ok r"
    "platform_run C vm a (run_capability_for v (witness_digest C ASSIGNMENT_DOMAIN (encode_assignment a)) prover Prove) = Inr run"
    "verify_strict C (ch_subject_key c) (response_transcript r) (re_signature r)" "response_binds C c r" "response_claims C r"
    "replay_response C (wv_allowance V) v vm r = Inr (into_receipt C run (receipt_binding_for v))"
    by (rule honest_response [OF vm assms(4,5,1) vh(1) c(3,5,2) assms(6,7)])
  have dec: "challenge_decode (challenge_encode c) = Inr c" "response_decode (response_encode r) = Inr r"
    using c r(2) by (simp_all add: challenge_decode_iff challenge_ok_def requirement_fits_def response_decode_iff)
  have subject: "check_subject C (ch_subject_key c) (response_transcript r) (re_signature r) = Inr ()"
    using assms(9) c(2) r(4) by (simp add: check_subject_iff strict_key_def)
  obtain window where w: "window_consume (wv_window V) (scope_key C c) (ch_subject_key c) (response_hash C r) (ch_expires_at c) = Inr window"
    using assms(14) by (auto simp: scope_open_def consume_eq_Inr)
  have "window_peek (wv_window V) (scope_key C c) (response_hash C r) = None" using w by (simp add: peek_None consume_fresh)
  then have "judge_response C (verifier_advance V now) c vm r (context_of c) =
      bindR (check_contract contract (into_receipt C run (receipt_binding_for v))) (\<lambda>_.
        Inr (\<lparr>vw_scope_key = scope_key C c, vw_response_hash = response_hash C r,
           vw_reward = reward C (scope_key C c) (response_hash C r), vw_receipt = into_receipt C run (receipt_binding_for v),
           vw_purpose = purpose, vw_expires_at = ch_expires_at c\<rparr>, window))"
    using live subject r(5-7) w c by (simp add: judge_response_def verifier_advance_def challenge_contract_def vh Let_def)
  then have "fst (verify_response C V c vm r (context_of c) now) =
      bindR (check_contract contract (into_receipt C run (receipt_binding_for v))) (\<lambda>_.
        Inr \<lparr>vw_scope_key = scope_key C c, vw_response_hash = response_hash C r,
           vw_reward = reward C (scope_key C c) (response_hash C r), vw_receipt = into_receipt C run (receipt_binding_for v),
           vw_purpose = purpose, vw_expires_at = ch_expires_at c\<rparr>)"
    by (auto simp: verify_response_def Let_def check_contract_def)
  then show ?thesis
    using verified r(1-3) dec
    by (intro exI [of _ v] exI [of _ r] exI [of _ run]) (simp add: verify_bytes_def check_contract_def into_receipt_def)
qed

theorem honest_witness_judged_witness:
  "\<exists>c r w. fst (verify_bytes toy_crypto demo_verifier (challenge_encode c) (demo_valid toy_crypto) (response_encode r) (context_of c) 20) = Inr w"
proof -
  obtain c where c: "issue_challenge toy_crypto 5 9 10 100 (public_of toy_crypto 7) 1 2 GameQualification (va_hash (demo_valid toy_crypto)) demo_contract = Inr c"
    "ch_expires_at c = 110" by (rule demo_issue)
  obtain v r run where "fst (verify_bytes toy_crypto demo_verifier (challenge_encode c) (demo_valid toy_crypto) (response_encode r) (context_of c) 20)
     = (if wr_useful run < wc_useful_floor demo_contract then Inl BFloor
         else if wr_total run > wc_total_ceiling demo_contract then Inl BCeiling
         else if wc_require_passed demo_contract \<and> \<not> run_passed run then Inl BNotPassed
         else Inr \<lparr>vw_scope_key = scope_key toy_crypto c, vw_response_hash = response_hash toy_crypto r,
           vw_reward = reward toy_crypto (scope_key toy_crypto c) (response_hash toy_crypto r),
           vw_receipt = into_receipt toy_crypto run (receipt_binding_for v), vw_purpose = GameQualification, vw_expires_at = ch_expires_at c\<rparr>)"
    using honest_witness_judged [OF toy_sign_correct demo_manifest_valid demo_manifest_typed demo_assign demo_candidate_ok demo_fuel(1) _
        demo_keys c(1), of demo_verifier 20] demo_open(1) [of c] demo_fuel c(2) by auto
  moreover have "\<not> wr_total run > wc_total_ceiling demo_contract" "\<not> wr_useful run < wc_useful_floor demo_contract" "\<not> wc_require_passed demo_contract"
    by (simp_all add: demo_contract_def not_less)
  ultimately show ?thesis by auto
qed

text \<open>
  Hashcash means what its target says. Solving returns the least nonce below the budget whose work
  digest, read as a number, is below two to the power of 256 minus the target, and fails exactly when
  there is none; and if signatures made with a secret key verify, a solved challenge that is live and
  whose scope is open is admitted from its encodings, once.
\<close>

theorem hashcash_exact:
  assumes "sign_correct C" and "strict_key C (public_of C ik)" "strict_key C (public_of C sk)"
    and "difficulty_new bits = Some d"
    and "issue_hashcash C ik entropy t lifetime (public_of C sk) realm room purpose d = Inr c"
  shows "\<exists>v. challenge_verify C c (context_of c) 0 t = Inr v
    \<and> (\<forall>n. solve C v budget = Inr n \<longleftrightarrow>
        n < budget \<and> unat (work_digest C (challenge_hash C c) (public_of C sk) n) < 2 ^ (256 - unat d)
        \<and> (\<forall>k<n. \<not> unat (work_digest C (challenge_hash C c) (public_of C sk) k) < 2 ^ (256 - unat d)))
    \<and> (\<forall>n. solve C v budget = Inr n \<longrightarrow> (\<exists>r. respond_hashcash C v n sk = Inr r \<and> hashcash_decode (hashcash_encode r) = Inr r
        \<and> (\<forall>V now. wv_started_at V \<le> t \<and> t \<le> max (wv_clock V) now \<and> max (wv_clock V) now \<le> ch_expires_at c
               \<and> one_use_ok (wv_window V) \<and> scope_open C V c \<longrightarrow>
             (\<exists>w V'. verify_hashcash C V c r (context_of c) now = (Inr w, V') \<and> vq_difficulty w = d
               \<and> (\<forall>later. max (wv_clock V) now \<le> later \<and> later \<le> ch_expires_at c \<longrightarrow>
                    fst (verify_hashcash C V' c r (context_of c) later) = Inl BReplay)))))"
proof -
  have iss: "issue_with C ik AlgHashcash entropy t lifetime (public_of C sk) realm room purpose 0 (ReqHashcash d) = Inr c"
    using assms(5) by (simp add: issue_hashcash_def)
  note c = issue_with_ok [OF iss assms(1)]
  define v where "v = \<lparr>vh_challenge = c, vh_scope_key = scope_key C c\<rparr>"
  have verified: "challenge_verify C c (context_of c) 0 t = Inr v"
    using issued_verifies [OF iss assms(1,2), of 0 t] c(7,9) by (simp add: v_def)
  have d: "unat d \<le> 48" "challenge_difficulty c = Some d"
    using assms(4) c(4) by (auto simp: difficulty_new_def MAX_DIFFICULTY_def word_le_nat_alt challenge_difficulty_def split: if_splits)
  have target: "meets_target C c d n \<longleftrightarrow> unat (work_digest C (challenge_hash C c) (public_of C sk) n) < 2 ^ (256 - unat d)" for n
  proof -
    let ?w = "work_digest C (challenge_hash C c) (public_of C sk) n"
    have "nat_be (to_be ?w) = unat ?w" using unsigned_less [of ?w, where 'a = nat] by (simp add: to_be_def nat_be_be_nat)
    then show ?thesis using leading_zero_bits_iff [of "unat d" "to_be ?w"] d(1) c(2) by (simp add: meets_target_def)
  qed
  have "solve C v budget = Inr n \<longleftrightarrow> n < budget \<and> meets_target C c d n \<and> (\<forall>k<n. \<not> meets_target C c d k)" for n
    using find_nonce_iff [of 0 "unat budget" "meets_target C c d" n] unsigned_less [of budget, where 'a = nat] d(2)
    by (auto simp: solve_def v_def word_less_nat_alt)
  note solved = this [unfolded target]
  have admit: "\<exists>r. respond_hashcash C v n sk = Inr r \<and> hashcash_decode (hashcash_encode r) = Inr r
        \<and> (\<forall>V now. wv_started_at V \<le> t \<and> t \<le> max (wv_clock V) now \<and> max (wv_clock V) now \<le> ch_expires_at c
               \<and> one_use_ok (wv_window V) \<and> scope_open C V c \<longrightarrow>
             (\<exists>w V'. verify_hashcash C V c r (context_of c) now = (Inr w, V') \<and> vq_difficulty w = d
               \<and> (\<forall>later. max (wv_clock V) now \<le> later \<and> later \<le> ch_expires_at c \<longrightarrow>
                    fst (verify_hashcash C V' c r (context_of c) later) = Inl BReplay)))" if n: "meets_target C c d n" for n
  proof -
    obtain r where r: "respond_hashcash C v n sk = Inr r" "hashcash_ok r" "hx_nonce r = n" "hx_challenge_id r = ch_id c"
      "hx_challenge_hash r = challenge_hash C c" "hx_subject_key r = ch_subject_key c"
      "verify_strict C (ch_subject_key c) (hashcash_transcript r) (hx_signature r)"
      by (rule honest_hashcash [OF assms(1), of v c sk n]) (use c in \<open>simp_all add: v_def\<close>)
    have subject: "check_subject C (ch_subject_key c) (hashcash_transcript r) (hx_signature r) = Inr ()"
      using assms(3) c(2) r(7) by (simp add: check_subject_iff strict_key_def)
    have "\<exists>w V'. verify_hashcash C V c r (context_of c) now = (Inr w, V') \<and> vq_difficulty w = d
          \<and> (\<forall>later. max (wv_clock V) now \<le> later \<and> later \<le> ch_expires_at c \<longrightarrow>
               fst (verify_hashcash C V' c r (context_of c) later) = Inl BReplay)"
      if V: "wv_started_at V \<le> t" "t \<le> max (wv_clock V) now" "max (wv_clock V) now \<le> ch_expires_at c"
        "one_use_ok (wv_window V)" "scope_open C V c" for V now
    proof -
      have live: "challenge_verify C c (context_of c) (wv_started_at V) clock = Inr v" if "t \<le> clock" "clock \<le> ch_expires_at c" for clock
        using issued_verifies [OF iss assms(1,2) V(1) that] by (simp add: v_def)
      obtain window where w: "window_consume (wv_window V) (scope_key C c) (ch_subject_key c) (hashcash_hash C r) (ch_expires_at c) = Inr window"
        using V(5) by (auto simp: scope_open_def consume_eq_Inr)
      obtain admitted where j: "judge_hashcash C (verifier_advance V now) c r (context_of c) = Inr (admitted, window)" "vq_difficulty admitted = d"
        using live [OF V(2,3)] subject r(3-6) w n c(4) by (auto simp: judge_hashcash_iff verifier_advance_def)
      have held: "window_peek window (scope_key C c) (hashcash_hash C r) = Some WindowReplay"
        using w V(4) by (auto simp: consume_eq_Inr window_peek_def one_use_ok_def)
      have "fst (verify_hashcash C (verifier_advance V now\<lparr>wv_window := window\<rparr>) c r (context_of c) later) = Inl BReplay"
        if l: "max (wv_clock V) now \<le> later" "later \<le> ch_expires_at c" for later
      proof -
        have "max (max (wv_clock V) now) later = later" "t \<le> later" using l V(2) by (auto simp: max_def)
        then show ?thesis
          using live [of later] l(2) subject r(3-6) held d(2)
          by (simp add: verify_hashcash_def judge_hashcash_def verifier_advance_def v_def Let_def witness_error_of_def)
      qed
      then show ?thesis using j by (auto simp: verify_hashcash_def Let_def)
    qed
    then show ?thesis using r(1,2) by (auto simp: hashcash_decode_iff)
  qed
  show ?thesis using verified solved admit target by (intro exI [of _ v]) auto
qed

theorem hashcash_exact_witness:
  "\<exists>c v r w V'. solve toy_crypto v 5 = Inr 0 \<and> respond_hashcash toy_crypto v 0 7 = Inr r
     \<and> verify_hashcash toy_crypto demo_verifier c r (context_of c) 20 = (Inr w, V')
     \<and> fst (verify_hashcash toy_crypto V' c r (context_of c) 30) = Inl BReplay"
proof -
  obtain c where c: "issue_hashcash toy_crypto 5 9 10 100 (public_of toy_crypto 7) 1 2 GameQualification 8 = Inr c" "ch_expires_at c = 110"
    by (rule demo_issue_hashcash)
  have d: "difficulty_new 8 = Some 8" by (simp add: difficulty_new_def MAX_DIFFICULTY_def)
  have "unat (work_digest toy_crypto h k n) = 24 + 4 + 72" for h k n
    by (simp add: work_digest_def witness_digest_def digest_input_def WORK_DOMAIN_def ascii_def toy_crypto_def)
  note work = this
  from hashcash_exact [OF toy_sign_correct demo_keys d c(1), where budget = 5] show ?thesis
  proof (elim exE conjE, goal_cases)
    case (1 v)
    have "solve toy_crypto v 5 = Inr 0" by (rule 1(2) [rule_format, THEN iffD2]) (simp add: work)
    with 1(3) obtain r where r: "respond_hashcash toy_crypto v 0 7 = Inr r" and
      admitted: "\<forall>V now. wv_started_at V \<le> 10 \<and> 10 \<le> max (wv_clock V) now \<and> max (wv_clock V) now \<le> ch_expires_at c
         \<and> one_use_ok (wv_window V) \<and> scope_open toy_crypto V c \<longrightarrow>
         (\<exists>w V'. verify_hashcash toy_crypto V c r (context_of c) now = (Inr w, V') \<and> vq_difficulty w = 8
           \<and> (\<forall>later. max (wv_clock V) now \<le> later \<and> later \<le> ch_expires_at c \<longrightarrow>
                fst (verify_hashcash toy_crypto V' c r (context_of c) later) = Inl BReplay))" by meson
    obtain w V' where w: "verify_hashcash toy_crypto demo_verifier c r (context_of c) 20 = (Inr w, V')"
      "\<forall>later. max (wv_clock demo_verifier) 20 \<le> later \<and> later \<le> ch_expires_at c \<longrightarrow>
          fst (verify_hashcash toy_crypto V' c r (context_of c) later) = Inl BReplay"
      using admitted [rule_format, of demo_verifier 20] demo_open(1) [of c] demo_open(2) demo_fuel c(2) by auto
    have "fst (verify_hashcash toy_crypto V' c r (context_of c) 30) = Inl BReplay" by (rule w(2) [rule_format]) (simp add: demo_fuel c(2))
    then show ?case using \<open>solve toy_crypto v 5 = Inr 0\<close> r w(1) by blast
  qed
qed

text \<open>
  The codecs of challenges and responses are exact. Decoding accepts exactly the encodings of
  well-formed messages: version one, a requirement of the challenge's own algorithm, and candidate bytes
  within their bound.
\<close>

theorem botcaptcha_codecs_exact:
  "(challenge_decode raw = Inr c \<longleftrightarrow> ch_version c = 1
       \<and> (case ch_requirement c of ReqWitness _ \<Rightarrow> ch_algorithm c = AlgWitness | ReqHashcash d \<Rightarrow> ch_algorithm c = AlgHashcash \<and> 1 \<le> d \<and> d \<le> 48)
       \<and> challenge_encode c = raw)
   \<and> (response_decode raw = Inr r \<longleftrightarrow> re_version r = 1 \<and> length (re_candidate r) \<le> MAX_ASSIGNMENT_BYTES \<and> response_encode r = raw)
   \<and> (hashcash_decode raw = Inr h \<longleftrightarrow> hx_version h = 1 \<and> hashcash_encode h = raw)"
  by (auto simp: challenge_decode_iff response_decode_iff hashcash_decode_iff challenge_ok_def response_ok_def hashcash_ok_def
      requirement_fits_def BOT_VERSION_def difficulty_new_def MAX_DIFFICULTY_def split: requirement.splits if_splits)

section \<open>A reissued challenge\<close>

text \<open>
  The scope of a challenge does not name its time. When an issuer signs the same identifier again for a
  later time, the verifier that has pruned the first admission admits the scope a second time.
\<close>

lemma reissued_scope_open:
  assumes "one_use_ok w" and "bt_get (ow_entries w) (scope_key C c) = Some e" and "ne_expires_at e < now"
    and "ch_id c' = ch_id c" "ch_issuer_key c' = ch_issuer_key c" "ch_subject_key c' = ch_subject_key c"
  shows "scope_key C c' = scope_key C c \<and> bt_get (ow_entries (window_prune w now)) (scope_key C c') = None"
proof -
  have "scope_key C c' = scope_key C c" using assms(4-6) by (simp add: scope_key_def)
  moreover have "bt_get (ow_entries (window_prune w now)) (scope_key C c) \<noteq> Some x" for x
    using prune_get [OF assms(1), of now "scope_key C c"] assms(2,3) by auto
  ultimately show ?thesis by auto
qed

end
