(* ===== verification/Steel_Witness.thy ===== *)
theory Steel_Witness
  imports Effects_Safety Botcaptcha_Safety
begin

text \<open>
  The witness session of \<open>crates/vhalla-steel-thread\<close>: the envelope replay window pinned to the
  subject's key, one issued challenge with its manifest, and the witness verifier behind them. The
  theory composes the guarantees of the signed envelopes with those of the verifier: a session yields at
  most one piece of evidence, whatever frames it is fed, and an honest subject obtains it.
\<close>

definition KIND_WITNESS_RESPONSE :: u8 where [simp]: "KIND_WITNESS_RESPONSE = 3"

record witness_session =
  ws_replay :: replay_window
  ws_subject_key :: array32
  ws_challenge :: challenge
  ws_manifest :: valid_manifest
  ws_expected :: challenge_context
  ws_verifier :: witness_verifier

definition witness_session_new ::
    "crypto \<Rightarrow> verification_context \<Rightarrow> array32 \<Rightarrow> challenge \<Rightarrow> valid_manifest \<Rightarrow> u64 \<Rightarrow> u64 \<Rightarrow> steel_error + witness_session" where
  "witness_session_new C ctx key c vm allowance started_at =
     (if key_weak C key then Inl (SteelVerify VWeakKey)
      else if ch_subject_key c \<noteq> key then Inl (SteelWitness BContext)
      else bindR (map_err SteelVerify (replay_new ctx 1)) (\<lambda>w.
        Inr \<lparr>ws_replay = w, ws_subject_key = key, ws_challenge = c, ws_manifest = vm, ws_expected = context_of c,
             ws_verifier = verifier_new started_at allowance window_new\<rparr>))"

definition receive_witness ::
    "crypto \<Rightarrow> witness_session \<Rightarrow> bytes \<Rightarrow> u64 \<Rightarrow> (steel_error + verified_witness) \<times> witness_session" where
  "receive_witness C ws frame now =
     (case signed_envelope_decode frame of
        Inl e \<Rightarrow> (Inl (SteelSignedDecode e), ws)
      | Inr s \<Rightarrow>
     (case verify_and_accept C (ws_replay ws) s (ws_subject_key ws) now of
        Inl e \<Rightarrow> (Inl (SteelVerify e), ws)
      | Inr (w, v) \<Rightarrow>
        let ws = ws\<lparr>ws_replay := w\<rparr> in
        if en_kind (ve_envelope v) \<noteq> KIND_WITNESS_RESPONSE then (Inl (SteelDenied DeniedKind), ws)
        else
          (case verify_bytes C (ws_verifier ws) (challenge_encode (ws_challenge ws)) (ws_manifest ws)
                  (en_body (ve_envelope v)) (ws_expected ws) now of
             (res, V) \<Rightarrow> (map_err SteelWitness res, ws\<lparr>ws_verifier := V\<rparr>))))"

definition open_challenges :: "witness_session \<Rightarrow> nat" where
  "open_challenges ws = length (ow_entries (wv_window (ws_verifier ws)))"

text \<open>Any sequence of frames, each with the clock reading of its delivery.\<close>

fun witness_stream ::
    "crypto \<Rightarrow> witness_session \<Rightarrow> (bytes \<times> u64) list \<Rightarrow> (steel_error + verified_witness) list \<times> witness_session" where
  "witness_stream C ws [] = ([], ws)"
| "witness_stream C ws (d # ds) =
     (case receive_witness C ws (fst d) (snd d) of (res, ws1) \<Rightarrow>
     (case witness_stream C ws1 ds of (rest, ws2) \<Rightarrow> (res # rest, ws2)))"

section \<open>One frame\<close>

definition witness_session_ok :: "crypto \<Rightarrow> verification_context \<Rightarrow> challenge \<Rightarrow> valid_manifest \<Rightarrow> u64 \<Rightarrow> witness_session \<Rightarrow> bool" where
  "witness_session_ok C ctx c vm allowance ws \<longleftrightarrow>
     window_ok (ws_replay ws) \<and> rw_context (ws_replay ws) = ctx \<and> ws_subject_key ws = ch_subject_key c \<and> ws_challenge ws = c
     \<and> ws_manifest ws = vm \<and> ws_expected ws = context_of c \<and> wv_allowance (ws_verifier ws) = allowance
     \<and> one_use_ok (wv_window (ws_verifier ws))
     \<and> (\<forall>k. bt_get (ow_entries (wv_window (ws_verifier ws))) k \<noteq> None \<longrightarrow> k = scope_key C c)"

definition answered :: "crypto \<Rightarrow> witness_session \<Rightarrow> bool" where
  "answered C ws \<longleftrightarrow> bt_get (ow_entries (wv_window (ws_verifier ws))) (scope_key C (ws_challenge ws)) \<noteq> None"

definition pinned_last :: "witness_session \<Rightarrow> u64 option" where
  "pinned_last ws = bt_get (rw_last (ws_replay ws)) (ws_subject_key ws)"

text \<open>A frame is processed when its envelope passed the replay window, whatever came after.\<close>

definition processed :: "steel_error + 'a \<Rightarrow> bool" where
  "processed res = (case res of Inl (SteelSignedDecode _) \<Rightarrow> False | Inl (SteelVerify _) \<Rightarrow> False | _ \<Rightarrow> True)"

definition frame_sequence :: "bytes \<Rightarrow> u64" where
  "frame_sequence frame = (case signed_envelope_decode frame of Inl _ \<Rightarrow> 0 | Inr s \<Rightarrow> en_sequence (se_envelope s))"

definition subject_frame :: "crypto \<Rightarrow> verification_context \<Rightarrow> array32 \<Rightarrow> bytes \<times> u64 \<Rightarrow> bool" where
  "subject_frame C ctx key d = (case signed_envelope_decode (fst d) of
     Inl _ \<Rightarrow> False | Inr s \<Rightarrow> envelope_authentic C ctx s key (snd d))"

definition frame_answer :: "bytes \<Rightarrow> witness_response option" where
  "frame_answer frame = (case signed_envelope_decode frame of
     Inl _ \<Rightarrow> None
   | Inr s \<Rightarrow> if en_kind (se_envelope s) = KIND_WITNESS_RESPONSE
       then (case response_decode (en_body (se_envelope s)) of Inl _ \<Rightarrow> None | Inr r \<Rightarrow> Some r) else None)"

definition answer_justifies :: "crypto \<Rightarrow> challenge \<Rightarrow> valid_manifest \<Rightarrow> u64 \<Rightarrow> witness_response \<Rightarrow> verified_witness \<Rightarrow> bool" where
  "answer_justifies C c vm allowance r w \<longleftrightarrow>
     response_binds C c r \<and> response_claims C r \<and> verify_strict C (ch_subject_key c) (response_transcript r) (re_signature r)
     \<and> vw_scope_key w = scope_key C c \<and> vw_response_hash w = response_hash C r
     \<and> (\<exists>run. work_proved C allowance c vm r run
          \<and> vw_receipt w = into_receipt C run \<lparr>rb_challenge_id = ch_id c, rb_subject_key = ch_subject_key c\<rparr>)"

lemma bt_single:
  assumes "bt_ok m" and "\<forall>k'. bt_get m k' \<noteq> None \<longrightarrow> k' = k"
  shows "length m = (if bt_get m k = None then 0 else 1)"
proof (cases "bt_get m k")
  case None
  then have "\<forall>k'. bt_get m k' = None" using assms(2) by blast
  then show ?thesis using None bt_empty_iff [OF assms(1)] by simp
next
  case (Some x)
  then have "{k'. bt_get m k' \<noteq> None} = {k}" using assms(2) by blast
  then have "card {k'. bt_get m k' \<noteq> None} = 1" by (metis is_singletonI is_singleton_altdef)
  then show ?thesis using Some btree.length_entries [OF assms(1)] by simp
qed

lemma open_answered:
  assumes "witness_session_ok C ctx c vm a ws"
  shows "open_challenges ws = (if answered C ws then 1 else 0)"
proof -
  have "length (ow_entries (wv_window (ws_verifier ws)))
      = (if bt_get (ow_entries (wv_window (ws_verifier ws))) (scope_key C c) = None then 0 else 1)"
    by (rule bt_single) (use assms in \<open>unfold witness_session_ok_def one_use_ok_def, blast+\<close>)
  moreover have "ws_challenge ws = c" using assms unfolding witness_session_ok_def by blast
  ultimately show ?thesis by (simp add: open_challenges_def answered_def)
qed

lemma verify_bytes_step:
  assumes "verify_bytes C V cb vm rb expected now = (res, V')" and "one_use_ok (wv_window V)"
    and "challenge_decode cb = Inr c"
  shows "wv_allowance V' = wv_allowance V \<and> one_use_ok (wv_window V')
    \<and> (case res of
         Inl e \<Rightarrow> wv_window V' = wv_window V
       | Inr w \<Rightarrow> bt_get (ow_entries (wv_window V)) (scope_key C c) = None
           \<and> (\<forall>k. bt_get (ow_entries (wv_window V')) k \<noteq> None \<longleftrightarrow> k = scope_key C c \<or> bt_get (ow_entries (wv_window V)) k \<noteq> None)
           \<and> (\<exists>r. response_decode rb = Inr r \<and> answer_justifies C c vm (wv_allowance V) r w))"
proof (cases "response_decode rb")
  case (Inl e)
  then show ?thesis using assms by (auto simp: verify_bytes_def)
next
  case (Inr r)
  then have v: "verify_response C V c vm r expected now = (res, V')" using assms(1,3) by (simp add: verify_bytes_def)
  show ?thesis
  proof (cases "judge_response C (verifier_advance V now) c vm r expected")
    case (Inl e)
    then show ?thesis using v assms(2) by (auto simp: verify_response_def Let_def verifier_advance_def)
  next
    case (Inr p)
    then obtain w window where j: "judge_response C (verifier_advance V now) c vm r expected = Inr (w, window)" by (cases p) auto
    then have res: "res = Inr w" "V' = verifier_advance V now\<lparr>wv_window := window\<rparr>" using v by (auto simp: verify_response_def Let_def)
    have cons: "window_consume (wv_window V) (scope_key C c) (ch_subject_key c) (response_hash C r) (ch_expires_at c) = Inr window"
      using j by (auto simp: judge_response_iff verifier_advance_def)
    have "answer_justifies C c vm (wv_allowance V) r w"
      using j unfolding judge_response_iff check_subject_iff check_contract_iff replay_response_iff challenge_verify_iff
      by (auto simp: answer_justifies_def work_proved_def run_capability_for_def receipt_binding_for_def into_receipt_def verifier_advance_def)
    moreover have "\<forall>k. bt_get (ow_entries window) k \<noteq> None \<longleftrightarrow> k = scope_key C c \<or> bt_get (ow_entries (wv_window V)) k \<noteq> None"
      using cons assms(2) by (auto simp: consume_eq_Inr one_use_ok_def)
    ultimately show ?thesis
      using res \<open>response_decode rb = Inr r\<close> consume_ok [OF assms(2) cons] consume_fresh [OF cons]
      by (simp add: verifier_advance_def)
  qed
qed

lemma receive_witness_step:
  assumes ok: "witness_session_ok C ctx c vm a ws" and c: "challenge_ok c" and d: "receive_witness C ws frame now = (res, ws')"
  shows "witness_session_ok C ctx c vm a ws'
    \<and> (processed res \<longrightarrow> subject_frame C ctx (ch_subject_key c) (frame, now)
         \<and> (\<forall>q. pinned_last ws = Some q \<longrightarrow> q < frame_sequence frame) \<and> pinned_last ws' = Some (frame_sequence frame))
    \<and> (\<not> processed res \<longrightarrow> ws' = ws)
    \<and> (case res of
         Inl e \<Rightarrow> answered C ws' = answered C ws
       | Inr w \<Rightarrow> \<not> answered C ws \<and> answered C ws' \<and> (\<exists>r. frame_answer frame = Some r \<and> answer_justifies C c vm a r w))"
proof -
  have k: "ws_subject_key ws = ch_subject_key c" "ws_challenge ws = c" "ws_manifest ws = vm" "ws_expected ws = context_of c"
    "rw_context (ws_replay ws) = ctx" "window_ok (ws_replay ws)" "wv_allowance (ws_verifier ws) = a"
    "one_use_ok (wv_window (ws_verifier ws))"
    and only: "\<forall>k. bt_get (ow_entries (wv_window (ws_verifier ws))) k \<noteq> None \<longrightarrow> k = scope_key C c"
    using ok unfolding witness_session_ok_def by blast+
  show ?thesis
  proof (cases "signed_envelope_decode frame")
    case (Inl e)
    then show ?thesis using d ok by (auto simp: receive_witness_def processed_def)
  next
    case (Inr s)
    note dec = this
    show ?thesis
    proof (cases "verify_and_accept C (ws_replay ws) s (ch_subject_key c) now")
      case (Inl e)
      then show ?thesis using d dec ok k(1) by (auto simp: receive_witness_def processed_def)
    next
      case (Inr p)
      then obtain w v where acc: "verify_and_accept C (ws_replay ws) s (ch_subject_key c) now = Inr (w, v)" by (cases p) auto
      note a = this [unfolded verify_and_accept_iff k(5)]
      have w: "w = accepted_window (ws_replay ws) s (ch_subject_key c)" "ve_envelope v = se_envelope s"
        using a by (simp_all add: evidence_of_def)
      have w_ok: "window_ok w" by (rule window_ok_step [OF k(6), of C "(s, ch_subject_key c, now)"]) (simp add: window_admit_def acc)
      define ws1 where "ws1 = ws\<lparr>ws_replay := w\<rparr>"
      have top: "pinned_last ws1 = Some (frame_sequence frame)"
        using k(1,6) dec by (simp add: ws1_def pinned_last_def w accepted_window_def window_ok_def frame_sequence_def)
      have fresh: "\<forall>q. pinned_last ws = Some q \<longrightarrow> q < frame_sequence frame"
        using a dec k(1) by (auto simp: pinned_last_def frame_sequence_def split: option.splits)
      have auth: "subject_frame C ctx (ch_subject_key c) (frame, now)" using a dec by (simp add: subject_frame_def)
      have ok1: "witness_session_ok C ctx c vm a ws1"
        using k only w_ok by (simp add: witness_session_ok_def ws1_def w accepted_window_def)
      show ?thesis
      proof (cases "en_kind (se_envelope s) = KIND_WITNESS_RESPONSE")
        case False
        then have "res = Inl (SteelDenied DeniedKind)" "ws' = ws1"
          using d dec acc k(1) by (simp_all add: receive_witness_def ws1_def w(2))
        then show ?thesis using ok1 top fresh auth by (simp add: processed_def answered_def ws1_def)
      next
        case True
        obtain res1 V where v: "verify_bytes C (ws_verifier ws) (challenge_encode c) vm (en_body (se_envelope s)) (context_of c) now = (res1, V)"
          by fastforce
        have r: "res = map_err SteelWitness res1" "ws' = ws1\<lparr>ws_verifier := V\<rparr>"
          using d dec acc k True v by (simp_all add: receive_witness_def ws1_def w(2))
        have cd: "challenge_decode (challenge_encode c) = Inr c" using c by (simp add: challenge_decode_iff)
        note step = verify_bytes_step [OF v k(8) cd]
        have "frame_answer frame = Some x" if "response_decode (en_body (se_envelope s)) = Inr x" for x
          using dec True that by (simp add: frame_answer_def)
        then show ?thesis
          using step r ok1 top fresh auth only k(2,7)
          by (cases res1) (auto simp: processed_def answered_def ws1_def witness_session_ok_def pinned_last_def)
      qed
    qed
  qed
qed

section \<open>Sequences of frames\<close>

definition judged_frames :: "(bytes \<times> u64) list \<Rightarrow> (steel_error + verified_witness) list \<Rightarrow> ((bytes \<times> u64) \<times> (steel_error + verified_witness)) list" where
  "judged_frames ds outs = filter (\<lambda>x. processed (snd x)) (zip ds outs)"

lemma witness_stream_sound:
  assumes "witness_session_ok C ctx c vm a ws" and "challenge_ok c" and "witness_stream C ws ds = (outs, ws')"
  shows "witness_session_ok C ctx c vm a ws' \<and> length outs = length ds
    \<and> length (filter is_ok outs) + open_challenges ws = open_challenges ws'
    \<and> (\<forall>d w. (d, Inr w) \<in> set (zip ds outs) \<longrightarrow> (\<exists>r. frame_answer (fst d) = Some r \<and> answer_justifies C c vm a r w))
    \<and> (\<forall>x\<in>set (judged_frames ds outs). subject_frame C ctx (ch_subject_key c) (fst x)
         \<and> (\<forall>q. pinned_last ws = Some q \<longrightarrow> q < frame_sequence (fst (fst x))))
    \<and> sorted_wrt (<) (map (\<lambda>x. frame_sequence (fst (fst x))) (judged_frames ds outs))"
  using assms(1,3)
proof (induction ds arbitrary: ws outs)
  case Nil
  then show ?case by (simp add: judged_frames_def)
next
  case (Cons d ds)
  obtain res ws1 where s: "receive_witness C ws (fst d) (snd d) = (res, ws1)" by fastforce
  obtain rest where r: "witness_stream C ws1 ds = (rest, ws')" "outs = res # rest"
    using Cons.prems(2) s by (auto split: prod.splits)
  note step = receive_witness_step [OF Cons.prems(1) assms(2) s]
  then have ok1: "witness_session_ok C ctx c vm a ws1" by blast
  note IH = Cons.IH [OF ok1 r(1)]
  have n: "(if is_ok res then 1 else 0) + open_challenges ws = open_challenges ws1"
    using step by (cases res) (simp_all add: open_answered [OF Cons.prems(1)] open_answered [OF ok1])
  have head: "q < frame_sequence (fst d)" if "processed res" "pinned_last ws = Some q" for q using step that by blast
  have top: "pinned_last ws1 = (if processed res then Some (frame_sequence (fst d)) else pinned_last ws)" using step by auto
  have later: "q < frame_sequence (fst (fst x))" if "x \<in> set (judged_frames ds rest)" "pinned_last ws = Some q" for q x
    using that IH top head [OF _ that(2)] by (auto split: if_splits dest: order.strict_trans)
  have j: "judged_frames (d # ds) outs = (if processed res then (d, res) # judged_frames ds rest else judged_frames ds rest)"
    by (simp add: judged_frames_def r(2))
  have sound: "\<exists>r. frame_answer (fst d) = Some r \<and> answer_justifies C c vm a r w" if "res = Inr w" for w using step that by simp
  have auth: "subject_frame C ctx (ch_subject_key c) d" if "processed res" using step that by simp
  show ?case
  proof (intro conjI)
    show "length (filter is_ok outs) + open_challenges ws = open_challenges ws'" using IH n r(2) by (auto split: if_splits)
    show "\<forall>e w. (e, Inr w) \<in> set (zip (d # ds) outs) \<longrightarrow> (\<exists>r. frame_answer (fst e) = Some r \<and> answer_justifies C c vm a r w)"
      using IH sound r(2) by auto
    show "\<forall>x\<in>set (judged_frames (d # ds) outs). subject_frame C ctx (ch_subject_key c) (fst x)
         \<and> (\<forall>q. pinned_last ws = Some q \<longrightarrow> q < frame_sequence (fst (fst x)))"
      using IH later head auth unfolding j by auto
    show "sorted_wrt (<) (map (\<lambda>x. frame_sequence (fst (fst x))) (judged_frames (d # ds) outs))"
      using IH top unfolding j by auto
  qed (use IH r(2) in simp_all)
qed

lemma witness_session_new_ok:
  assumes "witness_session_new C ctx key c vm a t = Inr ws"
  shows "witness_session_ok C ctx c vm a ws \<and> open_challenges ws = 0 \<and> pinned_last ws = None \<and> key = ch_subject_key c
    \<and> \<not> key_weak C key \<and> ws_verifier ws = verifier_new t a window_new"
  using assms window_new_ok
  by (auto simp: witness_session_new_def witness_session_ok_def replay_new_def window_ok_def open_challenges_def pinned_last_def
      verifier_new_def window_new_def bt_new_def bt_ok_def bt_get_def split: if_splits)

lemma response_fits: "response_decode raw = Inr r \<Longrightarrow> length raw \<le> 32000"
proof -
  assume "response_decode raw = Inr r"
  then have "length raw \<le> MAX_RESPONSE_BYTES" by (auto simp: response_decode_def decode_within_def split: if_splits)
  moreover have "MAX_RESPONSE_BYTES \<le> 32000" by code_simp
  ultimately show ?thesis by simp
qed

lemma honest_frame:
  assumes ok: "witness_session_ok C ctx c vm a ws" and fresh: "\<forall>q. pinned_last ws = Some q \<longrightarrow> q < sq"
    and room: "pinned_last ws = None \<longrightarrow> length (rw_last (ws_replay ws)) < rw_max_authors (ws_replay ws)"
    and sk: "sign_correct C" "ch_subject_key c = public_of C sk" "\<not> key_weak C (public_of C sk)"
    and body: "length body \<le> 32000" and now: "now \<le> expires"
  shows "\<exists>e s raw. envelope_new KIND_WITNESS_RESPONSE (peer_id_from_seed C sk) (vc_realm ctx) (vc_room ctx) event sq body = Some e
     \<and> sign C e (vc_audience ctx) (vc_epoch ctx) (vc_session ctx) expires sk = Inr s
     \<and> signed_envelope_encode s = Inr raw \<and> frame_new raw = Inr raw
     \<and> fst (receive_witness C ws raw now)
         = map_err SteelWitness (fst (verify_bytes C (ws_verifier ws) (challenge_encode c) vm body (context_of c) now))"
proof -
  have k: "ws_subject_key ws = ch_subject_key c" "ws_challenge ws = c" "ws_manifest ws = vm" "ws_expected ws = context_of c"
    "rw_context (ws_replay ws) = ctx" using ok unfolding witness_session_ok_def by blast+
  define e where "e = \<lparr>en_kind = 3, en_author = peer_id_from_seed C sk, en_realm = vc_realm ctx, en_room = vc_room ctx,
     en_event = event, en_sequence = sq, en_body = body\<rparr>"
  define s where "s = signed_by C e (vc_audience ctx) (vc_epoch ctx) (vc_session ctx) expires sk"
  have e: "envelope_new KIND_WITNESS_RESPONSE (peer_id_from_seed C sk) (vc_realm ctx) (vc_room ctx) event sq body = Some e"
    using body by (simp add: envelope_new_def e_def)
  have len: "encoded_len e \<le> MAX_SIGNED_BYTES - SIGNED_OVERHEAD_BYTES" "encoded_len e = 78 + length body"
    using body by (simp_all add: encoded_len_def e_def)
  have sign: "sign C e (vc_audience ctx) (vc_epoch ctx) (vc_session ctx) expires sk = Inr s"
    using sign_envelope_with_key_eq [OF len(1), of C sk] by (simp add: sign_def s_def e_def peer_id_from_seed_def)
  have s_ok: "signed_envelope_ok s" using len body by (simp add: signed_envelope_ok_def s_def envelope_ok_def e_def)
  have raw: "signed_envelope_encode s = Inr (signed_bytes s)" using len(1) by (simp add: signed_envelope_encode_iff s_def)
  have dec: "signed_envelope_decode (signed_bytes s) = Inr s" by (rule signed_codec.dec_enc [OF s_ok])
  have "length (signed_bytes s) = 78 + length body + 117"
    using len(2) by (simp add: signed_bytes_def encode_unsigned_def length_envelope_encode s_def)
  then have frame: "frame_new (signed_bytes s) = Inr (signed_bytes s)" using body by (simp add: frame_new_def)
  have auth: "envelope_authentic C ctx s (public_of C sk) now"
    using signed_by_authentic [OF sk(1) len(1) _ sk(3) now, of "vc_audience ctx" "vc_epoch ctx" "vc_session ctx"]
    by (cases ctx) (simp add: s_def e_def peer_id_from_seed_def)
  have "verify_and_accept C (ws_replay ws) s (public_of C sk) now
      = Inr (accepted_window (ws_replay ws) s (public_of C sk), evidence_of (ws_replay ws) s (public_of C sk))"
    using auth fresh room k(1,5) sk(2)
    by (auto simp: verify_and_accept_iff pinned_last_def s_def e_def split: option.split)
  moreover have "se_envelope s = e" by (simp add: s_def)
  moreover obtain res V where v: "verify_bytes C (ws_verifier ws) (challenge_encode c) vm body (context_of c) now = (res, V)" by fastforce
  ultimately have "fst (receive_witness C ws (signed_bytes s) now) = map_err SteelWitness res"
    using dec k sk(2) by (simp add: receive_witness_def evidence_of_def e_def)
  then show ?thesis using e sign raw frame v by auto
qed

lemma honest_served:
  assumes "sign_correct C" and "manifest_validate C m = Inr vm" and "manifest_typed m"
    and "manifest_assign vm candidate = Inr a" and "\<forall>ip\<in>set candidate. program_ok (snd ip)"
    and "fuel_total vm \<le> prover" "fuel_total vm \<le> allowance"
    and "strict_key C (public_of C ik)" "strict_key C (public_of C sk)"
    and "issue_challenge C ik entropy t lifetime (public_of C sk) realm room purpose (va_hash vm) contract = Inr c"
    and "witness_session_new C ctx (public_of C sk) c vm allowance t0 = Inr ws"
    and "t0 \<le> t" "t \<le> now" "now \<le> ch_expires_at c" "now \<le> expires"
  shows "\<exists>v r run e s raw. challenge_verify C c (context_of c) 0 t = Inr v \<and> respond_witness C v vm candidate prover sk = Inr r
    \<and> platform_run C vm a (run_capability_for v (witness_digest C ASSIGNMENT_DOMAIN (encode_assignment a)) prover Prove) = Inr run
    \<and> envelope_new KIND_WITNESS_RESPONSE (peer_id_from_seed C sk) (vc_realm ctx) (vc_room ctx) event sq (response_encode r) = Some e
    \<and> sign C e (vc_audience ctx) (vc_epoch ctx) (vc_session ctx) expires sk = Inr s
    \<and> signed_envelope_encode s = Inr raw \<and> frame_new raw = Inr raw
    \<and> fst (receive_witness C ws raw now) =
        (if wr_useful run < wc_useful_floor contract then Inl (SteelWitness BFloor)
         else if wr_total run > wc_total_ceiling contract then Inl (SteelWitness BCeiling)
         else if wc_require_passed contract \<and> \<not> run_passed run then Inl (SteelWitness BNotPassed)
         else Inr \<lparr>vw_scope_key = scope_key C c, vw_response_hash = response_hash C r,
           vw_reward = reward C (scope_key C c) (response_hash C r), vw_receipt = into_receipt C run (receipt_binding_for v),
           vw_purpose = purpose, vw_expires_at = ch_expires_at c\<rparr>)"
proof -
  note new = witness_session_new_ok [OF assms(11)]
  then have V: "ws_verifier ws = verifier_new t0 allowance window_new" and ok: "witness_session_ok C ctx c vm allowance ws"
    and key: "public_of C sk = ch_subject_key c" by blast+
  have n: "max t0 now = now" using order_trans [OF assms(12,13)] by (simp add: max_def)
  have empty: "pinned_last ws = None \<longrightarrow> length (rw_last (ws_replay ws)) < rw_max_authors (ws_replay ws)"
    using assms(11) by (auto simp: witness_session_new_def replay_new_def bt_new_def split: if_splits)
  have dec: "response_decode (response_encode r) = Inr r" if "response_ok r" for r using that by (simp add: response_decode_iff)
  obtain v r run where r: "challenge_verify C c (context_of c) 0 t = Inr v" "respond_witness C v vm candidate prover sk = Inr r" "response_ok r"
    "platform_run C vm a (run_capability_for v (witness_digest C ASSIGNMENT_DOMAIN (encode_assignment a)) prover Prove) = Inr run"
    and judged: "fst (verify_bytes C (ws_verifier ws) (challenge_encode c) vm (response_encode r) (context_of c) now) =
        (if wr_useful run < wc_useful_floor contract then Inl BFloor
         else if wr_total run > wc_total_ceiling contract then Inl BCeiling
         else if wc_require_passed contract \<and> \<not> run_passed run then Inl BNotPassed
         else Inr \<lparr>vw_scope_key = scope_key C c, vw_response_hash = response_hash C r,
           vw_reward = reward C (scope_key C c) (response_hash C r), vw_receipt = into_receipt C run (receipt_binding_for v),
           vw_purpose = purpose, vw_expires_at = ch_expires_at c\<rparr>)"
    using honest_witness_judged [OF assms(1-6) _ assms(8-10), of "ws_verifier ws" now] assms(7,12-14) n
    by (auto simp: V verifier_new_def scope_open_def window_new_def bt_new_def bt_get_def held_by_def MAX_OPEN_CHALLENGES_def MAX_OPEN_PER_SUBJECT_def)
  have "\<not> key_weak C (public_of C sk)" using assms(9) by (simp add: strict_key_def)
  note frame = honest_frame [OF ok _ empty assms(1) key [symmetric] this response_fits [OF dec [OF r(3)]] assms(15), of sq event]
  then obtain e s raw where "envelope_new KIND_WITNESS_RESPONSE (peer_id_from_seed C sk) (vc_realm ctx) (vc_room ctx) event sq (response_encode r) = Some e"
    "sign C e (vc_audience ctx) (vc_epoch ctx) (vc_session ctx) expires sk = Inr s" "signed_envelope_encode s = Inr raw" "frame_new raw = Inr raw"
    "fst (receive_witness C ws raw now)
         = map_err SteelWitness (fst (verify_bytes C (ws_verifier ws) (challenge_encode c) vm (response_encode r) (context_of c) now))"
    using new by auto
  then show ?thesis using r judged by (intro exI [of _ v] exI [of _ r] exI [of _ run] exI [of _ e] exI [of _ s] exI [of _ raw]) simp
qed

section \<open>An example\<close>

definition demo_session_context :: verification_context where
  "demo_session_context = \<lparr>vc_audience = 1, vc_realm = 10, vc_room = 20, vc_epoch = 1, vc_session = 40\<rparr>"

lemma demo_session:
  assumes "ch_subject_key c = public_of toy_crypto 7"
  obtains ws where "witness_session_new toy_crypto demo_session_context (public_of toy_crypto 7) c (demo_valid toy_crypto) 1000 0 = Inr ws"
  using assms demo_keys(2) by (simp add: witness_session_new_def replay_new_def strict_key_def)

lemma demo_contract_met:
  "\<not> wr_useful run < wc_useful_floor demo_contract" "\<not> wr_total run > wc_total_ceiling demo_contract" "\<not> wc_require_passed demo_contract"
  by (simp_all add: demo_contract_def not_less)

lemma demo_issued:
  obtains c where "issue_challenge toy_crypto 5 9 10 100 (public_of toy_crypto 7) 1 2 GameQualification (va_hash (demo_valid toy_crypto)) demo_contract = Inr c"
    "ch_expires_at c = 110" "ch_subject_key c = public_of toy_crypto 7" "challenge_ok c"
proof -
  obtain c where c: "issue_challenge toy_crypto 5 9 10 100 (public_of toy_crypto 7) 1 2 GameQualification (va_hash (demo_valid toy_crypto)) demo_contract = Inr c"
    "ch_expires_at c = 110" by (rule demo_issue)
  then have "issue_with toy_crypto 5 AlgWitness 9 10 100 (public_of toy_crypto 7) 1 2 GameQualification (va_hash (demo_valid toy_crypto)) (ReqWitness demo_contract) = Inr c"
    by (simp add: issue_challenge_def)
  note k = issue_with_ok [OF this toy_sign_correct]
  have "challenge_ok c" "ch_subject_key c = public_of toy_crypto 7" using k by (simp_all add: challenge_ok_def requirement_fits_def)
  then show thesis using that c by blast
qed

section \<open>Properties\<close>

text \<open>
  C31. A witness session yields at most one piece of evidence, whatever frames it is fed at whatever clock
  readings. Its number of open challenges is the number of frames that yielded evidence and is never above
  one. The evidence comes from a frame whose body is a response that names the session's challenge,
  signed by the subject, and whose programs run to exactly the receipt it carries. Every frame that got past the
  replay window was signed by the subject's key for the session's context and not expired, and those
  frames have strictly increasing sequences, also when the verifier refused what they carried, so
  no frame is judged twice.
\<close>

theorem witness_session_single:
  assumes "witness_session_new C ctx key c vm allowance t = Inr ws" and "challenge_ok c"
    and "witness_stream C ws ds = (outs, ws')"
  shows "length outs = length ds \<and> length (filter is_ok outs) = open_challenges ws' \<and> open_challenges ws' \<le> 1
    \<and> (\<forall>d w. (d, Inr w) \<in> set (zip ds outs) \<longrightarrow> processed (Inr w :: steel_error + verified_witness)
          \<and> (\<exists>r. frame_answer (fst d) = Some r \<and> answer_justifies C c vm allowance r w))
    \<and> (\<forall>x\<in>set (judged_frames ds outs). subject_frame C ctx key (fst x))
    \<and> sorted_wrt (<) (map (\<lambda>x. frame_sequence (fst (fst x))) (judged_frames ds outs))"
proof -
  note new = witness_session_new_ok [OF assms(1)]
  then have ok: "witness_session_ok C ctx c vm allowance ws" by blast
  note sound = witness_stream_sound [OF ok assms(2,3)]
  then have ok': "witness_session_ok C ctx c vm allowance ws'" by blast
  have "open_challenges ws' \<le> 1" using open_answered [OF ok'] by (auto split: if_splits)
  then show ?thesis using sound new by (auto simp: processed_def)
qed

theorem witness_session_single_witness:
  "\<exists>c ws raw outs ws'. witness_session_new toy_crypto demo_session_context (public_of toy_crypto 7) c (demo_valid toy_crypto) 1000 0 = Inr ws
     \<and> witness_stream toy_crypto ws [(raw, 20), (raw, 30), ([], 40)] = (outs, ws')
     \<and> length (filter is_ok outs) = 1 \<and> open_challenges ws' = 1"
proof -
  obtain c where c: "issue_challenge toy_crypto 5 9 10 100 (public_of toy_crypto 7) 1 2 GameQualification (va_hash (demo_valid toy_crypto)) demo_contract = Inr c"
    "ch_expires_at c = 110" "ch_subject_key c = public_of toy_crypto 7" "challenge_ok c" by (rule demo_issued)
  obtain ws where ws: "witness_session_new toy_crypto demo_session_context (public_of toy_crypto 7) c (demo_valid toy_crypto) 1000 0 = Inr ws"
    using demo_session [OF c(3)] by blast
  obtain raw w where w: "fst (receive_witness toy_crypto ws raw 20) = Inr w"
    using honest_served [OF toy_sign_correct demo_manifest_valid demo_manifest_typed demo_assign demo_candidate_ok demo_fuel(1) demo_fuel(1)
        demo_keys c(1) ws, of 20 100 1 1] c(2) by (auto simp: demo_contract_met)
  obtain outs ws' where s: "witness_stream toy_crypto ws [(raw, 20), (raw, 30), ([], 40)] = (outs, ws')" by fastforce
  note single = witness_session_single [OF ws c(4) s]
  have "\<exists>rest. outs = Inr w # rest" using s w by (auto split: prod.splits)
  then have "length (filter is_ok outs) \<noteq> 0" by auto
  then have "length (filter is_ok outs) = 1" "open_challenges ws' = 1" using single by simp_all
  then show ?thesis using ws s by blast
qed

text \<open>
  C32. An honest subject obtains its evidence through a session. Let an honest issuer sign a challenge for a
  valid manifest, open a session for it, and let the subject run any candidate the manifest binds, put the
  response into an envelope of the session's context and sign it. The envelope, its signature and the frame
  are within all bounds, and while challenge and envelope are live the session answers the
  frame with evidence exactly when the run meets the contract, and otherwise with the clause that fails.
\<close>

theorem honest_subject_served:
  assumes "sign_correct C" and "manifest_validate C m = Inr vm" and "manifest_typed m"
    and "manifest_assign vm candidate = Inr a" and "\<forall>ip\<in>set candidate. program_ok (snd ip)"
    and "fuel_total vm \<le> prover" "fuel_total vm \<le> allowance"
    and "strict_key C (public_of C ik)" "strict_key C (public_of C sk)"
    and "issue_challenge C ik entropy t lifetime (public_of C sk) realm room purpose (va_hash vm) contract = Inr c"
    and "witness_session_new C ctx (public_of C sk) c vm allowance t0 = Inr ws"
    and "t0 \<le> t" "t \<le> now" "now \<le> ch_expires_at c" "now \<le> expires"
  shows "\<exists>v r run e s raw. challenge_verify C c (context_of c) 0 t = Inr v \<and> respond_witness C v vm candidate prover sk = Inr r
    \<and> platform_run C vm a (run_capability_for v (witness_digest C ASSIGNMENT_DOMAIN (encode_assignment a)) prover Prove) = Inr run
    \<and> envelope_new KIND_WITNESS_RESPONSE (peer_id_from_seed C sk) (vc_realm ctx) (vc_room ctx) event sq (response_encode r) = Some e
    \<and> sign C e (vc_audience ctx) (vc_epoch ctx) (vc_session ctx) expires sk = Inr s
    \<and> signed_envelope_encode s = Inr raw \<and> frame_new raw = Inr raw
    \<and> fst (receive_witness C ws raw now) =
        (if wr_useful run < wc_useful_floor contract then Inl (SteelWitness BFloor)
         else if wr_total run > wc_total_ceiling contract then Inl (SteelWitness BCeiling)
         else if wc_require_passed contract \<and> \<not> run_passed run then Inl (SteelWitness BNotPassed)
         else Inr \<lparr>vw_scope_key = scope_key C c, vw_response_hash = response_hash C r,
           vw_reward = reward C (scope_key C c) (response_hash C r), vw_receipt = into_receipt C run (receipt_binding_for v),
           vw_purpose = purpose, vw_expires_at = ch_expires_at c\<rparr>)"
  by (rule honest_served [OF assms])

theorem honest_subject_served_witness:
  "\<exists>c ws raw w. witness_session_new toy_crypto demo_session_context (public_of toy_crypto 7) c (demo_valid toy_crypto) 1000 0 = Inr ws
     \<and> frame_new raw = Inr raw \<and> fst (receive_witness toy_crypto ws raw 20) = Inr w"
proof -
  obtain c where c: "issue_challenge toy_crypto 5 9 10 100 (public_of toy_crypto 7) 1 2 GameQualification (va_hash (demo_valid toy_crypto)) demo_contract = Inr c"
    "ch_expires_at c = 110" "ch_subject_key c = public_of toy_crypto 7" "challenge_ok c" by (rule demo_issued)
  obtain ws where ws: "witness_session_new toy_crypto demo_session_context (public_of toy_crypto 7) c (demo_valid toy_crypto) 1000 0 = Inr ws"
    using demo_session [OF c(3)] by blast
  show ?thesis
    using honest_subject_served [OF toy_sign_correct demo_manifest_valid demo_manifest_typed demo_assign demo_candidate_ok demo_fuel(1) demo_fuel(1)
        demo_keys c(1) ws, of 20 100 1 1] c(2) ws by (fastforce simp: demo_contract_met)
qed

end
