(* ===== verification/Room_Wire.thy ===== *)
theory Room_Wire
  imports Crypto_Params Rust_Text "HOL-Library.List_Lexorder" "HOL-Library.Product_Lexorder"
begin

text \<open>
  \<open>crates/vhalla-rooms\<close>: the records of the shared room directory (\<open>model.rs\<close>) and their canonical signed
  frames (\<open>wire.rs\<close>). Digest newtypes are the 32-byte arrays they wrap, a slug and a description are their
  UTF-8 bytes, and the wrapper \<open>VerifiedRecord\<close> is the signed record that passed \<open>room_verify\<close>. \<open>Room_Codec\<close> proves them exact.
\<close>

definition MAX_ROOM_RECORD_BYTES :: nat where "MAX_ROOM_RECORD_BYTES = 2048"
definition MAX_SLUG_BYTES :: nat where "MAX_SLUG_BYTES = 48"
definition MAX_DESCRIPTION_BYTES :: nat where "MAX_DESCRIPTION_BYTES = 256"

datatype rooms_error = RmBounds | RmEncoding | RmKey | RmSignature | RmSigningKey

section \<open>Slugs and descriptions\<close>

fun double_dash :: "bytes \<Rightarrow> bool" where
  "double_dash (a # b # bs) = (a = 45 \<and> b = 45 \<or> double_dash (b # bs))"
| "double_dash _ = False"

definition slug_byte :: "u8 \<Rightarrow> bool" where
  "slug_byte b = (97 \<le> b \<and> b \<le> 122 \<or> 48 \<le> b \<and> b \<le> 57 \<or> b = 45)"

definition slug_new :: "bytes \<Rightarrow> rooms_error + bytes" where
  "slug_new s =
     (if s = [] \<or> length s > MAX_SLUG_BYTES then Inl RmBounds
      else if hd s = 45 \<or> last s = 45 \<or> double_dash s \<or> \<not> (\<forall>b\<in>set s. slug_byte b) then Inl RmEncoding
      else Inr s)"

definition description_new :: "bytes \<Rightarrow> rooms_error + bytes" where
  "description_new s =
     (if s = [] \<or> length s > MAX_DESCRIPTION_BYTES then Inl RmBounds
      else if \<exists>c\<in>set (str_chars s). is_control c then Inl RmEncoding
      else Inr s)"

section \<open>Records\<close>

record grant_create =
  gt_agent :: array32
  gt_agent_key :: array32
  gt_expires_at :: u64
  gt_maximum_charge :: u64
  gt_nonce :: array32

datatype create_action = GrantCreate grant_create | RevokeGrant array32

record room_control =
  kc_directory :: array32
  kc_realm :: u128
  kc_owner :: array32
  kc_social_control :: array32
  kc_controller_key :: array32
  kc_previous :: "array32 option"
  kc_sequence :: u64
  kc_action :: create_action

record creation_intent =
  ci_directory :: array32
  ci_realm :: u128
  ci_policy :: array32
  ci_initial_settings :: array32
  ci_owner :: array32
  ci_agent :: array32
  ci_owner_key :: array32
  ci_agent_key :: array32
  ci_social_control :: array32
  ci_room_control :: array32
  ci_grant :: array32
  ci_slug :: bytes
  ci_description :: bytes
  ci_slot :: u32
  ci_charge :: u64
  ci_expires_at :: u64
  ci_nonce :: array32

definition PUBLIC_ACTIVITY_VERSION :: u8 where "PUBLIC_ACTIVITY_VERSION = 1"

datatype update_action = Describe bytes | ArchiveRoom | SetPublicActivityPolicy array32 bool

record room_update =
  ru_directory :: array32
  ru_realm :: u128
  ru_genesis :: array32
  ru_previous :: array32
  ru_owner :: array32
  ru_social_control :: array32
  ru_controller_key :: array32
  ru_expires_at :: u64
  ru_nonce :: array32
  ru_action :: update_action

datatype room_body = BodyControl room_control | BodyCreate creation_intent | BodyUpdate room_update

record signed_room =
  sr_body :: room_body
  sr_signature :: array64
  sr_acknowledgement :: "array64 option"

section \<open>Canonical bytes\<close>

definition ROOM_MAGIC :: bytes where "ROOM_MAGIC = ascii ''VHRM'' @ [1]"
definition TAG_CONTROL :: u8 where [simp]: "TAG_CONTROL = 0"
definition TAG_CREATE :: u8 where [simp]: "TAG_CREATE = 1"
definition TAG_UPDATE :: u8 where [simp]: "TAG_UPDATE = 2"
definition TAG_PERMIT :: u8 where [simp]: "TAG_PERMIT = 3"
definition ROOM_RECORD_DOMAIN :: bytes where "ROOM_RECORD_DOMAIN = ascii ''vhalla/rooms/record-id/v1''"
definition ROOM_GENESIS_DOMAIN :: bytes where "ROOM_GENESIS_DOMAIN = ascii ''vhalla/rooms/genesis-id/v1''"
definition ROOM_PERMIT_DOMAIN :: bytes where "ROOM_PERMIT_DOMAIN = ascii ''vhalla/rooms/permit-id/v1''"
definition CONTROL_SIGN :: bytes where "CONTROL_SIGN = ascii ''vhalla/rooms/control-signature/v1''"
definition UPDATE_SIGN :: bytes where "UPDATE_SIGN = ascii ''vhalla/rooms/update-signature/v1''"
definition OWNER_SIGN :: bytes where "OWNER_SIGN = ascii ''vhalla/rooms/owner-permit-signature/v1''"
definition AGENT_SIGN :: bytes where "AGENT_SIGN = ascii ''vhalla/rooms/agent-proposal-signature/v1''"

definition put_description :: "bytes \<Rightarrow> bytes" where
  "put_description s = to_be (word_of_nat (length s) :: u16) @ s"

definition put_scope :: "array32 \<Rightarrow> u128 \<Rightarrow> bytes" where
  "put_scope directory realm = to_be directory @ to_be realm"

definition put_owner :: "array32 \<Rightarrow> array32 \<Rightarrow> array32 \<Rightarrow> bytes" where
  "put_owner owner basis key = to_be owner @ to_be basis @ to_be key"

definition put_previous :: "array32 option \<Rightarrow> bytes" where
  "put_previous p = (case p of None \<Rightarrow> [0] | Some x \<Rightarrow> [1] @ to_be x)"

definition put_create_action :: "create_action \<Rightarrow> bytes" where
  "put_create_action a = (case a of
     GrantCreate g \<Rightarrow> [0] @ to_be (gt_agent g) @ to_be (gt_agent_key g) @ to_be (gt_expires_at g)
       @ to_be (gt_maximum_charge g) @ to_be (gt_nonce g)
   | RevokeGrant grant \<Rightarrow> [1] @ to_be grant)"

definition put_update_action :: "update_action \<Rightarrow> bytes" where
  "put_update_action a = (case a of
     Describe s \<Rightarrow> [0] @ put_description s
   | ArchiveRoom \<Rightarrow> [1]
   | SetPublicActivityPolicy network enabled \<Rightarrow> [2, PUBLIC_ACTIVITY_VERSION] @ to_be network @ [if enabled then 1 else 0])"

definition control_bytes :: "room_control \<Rightarrow> bytes" where
  "control_bytes k = put_scope (kc_directory k) (kc_realm k) @ put_owner (kc_owner k) (kc_social_control k) (kc_controller_key k)
     @ put_previous (kc_previous k) @ to_be (kc_sequence k) @ put_create_action (kc_action k)"

definition intent_bytes :: "creation_intent \<Rightarrow> bytes" where
  "intent_bytes i = put_scope (ci_directory i) (ci_realm i) @ to_be (ci_policy i) @ to_be (ci_initial_settings i)
     @ put_owner (ci_owner i) (ci_social_control i) (ci_owner_key i) @ to_be (ci_agent i) @ to_be (ci_agent_key i)
     @ to_be (ci_room_control i) @ to_be (ci_grant i) @ [word_of_nat (length (ci_slug i))] @ ci_slug i
     @ put_description (ci_description i) @ to_be (ci_slot i) @ to_be (ci_charge i) @ to_be (ci_expires_at i) @ to_be (ci_nonce i)"

definition update_bytes :: "room_update \<Rightarrow> bytes" where
  "update_bytes u = put_scope (ru_directory u) (ru_realm u) @ to_be (ru_genesis u) @ to_be (ru_previous u)
     @ put_owner (ru_owner u) (ru_social_control u) (ru_controller_key u) @ to_be (ru_expires_at u) @ to_be (ru_nonce u)
     @ put_update_action (ru_action u)"

definition body_bytes :: "room_body \<Rightarrow> u8 \<times> bytes" where
  "body_bytes b = (case b of
     BodyCreate i \<Rightarrow> (TAG_CREATE, intent_bytes i)
   | BodyControl k \<Rightarrow> (TAG_CONTROL, control_bytes k)
   | BodyUpdate u \<Rightarrow> (TAG_UPDATE, update_bytes u))"

definition room_hash :: "crypto \<Rightarrow> bytes \<Rightarrow> u8 \<Rightarrow> bytes \<Rightarrow> array32" where
  "room_hash C domain tag payload =
     sha256 C (domain @ ROOM_MAGIC @ [tag] @ to_be (word_of_nat (length payload) :: u16) @ payload)"

definition room_record_id :: "crypto \<Rightarrow> room_body \<Rightarrow> array32" where
  "room_record_id C b = (case body_bytes b of (tag, payload) \<Rightarrow> room_hash C ROOM_RECORD_DOMAIN tag payload)"

definition room_permit_id :: "crypto \<Rightarrow> creation_intent \<Rightarrow> array32" where
  "room_permit_id C i = room_hash C ROOM_PERMIT_DOMAIN TAG_PERMIT (intent_bytes i)"

definition room_genesis_id :: "crypto \<Rightarrow> creation_intent \<Rightarrow> array32" where
  "room_genesis_id C i = room_hash C ROOM_GENESIS_DOMAIN TAG_CREATE (intent_bytes i)"

definition owner_transcript :: "crypto \<Rightarrow> creation_intent \<Rightarrow> bytes" where
  "owner_transcript C i = OWNER_SIGN @ to_be (room_permit_id C i)"

definition agent_transcript :: "crypto \<Rightarrow> creation_intent \<Rightarrow> bytes" where
  "agent_transcript C i = AGENT_SIGN @ to_be (room_genesis_id C i) @ to_be (room_permit_id C i)"

definition controller_transcript :: "crypto \<Rightarrow> room_body \<Rightarrow> bytes" where
  "controller_transcript C b =
     (case b of BodyUpdate _ \<Rightarrow> UPDATE_SIGN | _ \<Rightarrow> CONTROL_SIGN) @ to_be (room_record_id C b)"

section \<open>Structural checks and signatures\<close>

definition room_key :: "crypto \<Rightarrow> array32 \<Rightarrow> rooms_error + unit" where
  "room_key C k = (if \<not> key_point C k \<or> key_weak C k then Inl RmKey else Inr ())"

definition verify_room_signature :: "crypto \<Rightarrow> array32 \<Rightarrow> bytes \<Rightarrow> array64 \<Rightarrow> rooms_error + unit" where
  "verify_room_signature C key transcript signature =
     bindR (room_key C key) (\<lambda>_. if verify_strict C key transcript signature then Inr () else Inl RmSignature)"

definition check_control :: "crypto \<Rightarrow> room_control \<Rightarrow> rooms_error + unit" where
  "check_control C k =
     bindR (room_key C (kc_controller_key k)) (\<lambda>_.
     if (kc_sequence k = 0) \<noteq> (kc_previous k = None) then Inl RmEncoding
     else (case kc_action k of
       GrantCreate g \<Rightarrow>
         bindR (room_key C (gt_agent_key g)) (\<lambda>_.
         if gt_expires_at g = 0 \<or> gt_maximum_charge g = 0 \<or> gt_nonce g = 0 then Inl RmBounds else Inr ())
     | RevokeGrant _ \<Rightarrow> Inr ()))"

definition check_intent :: "crypto \<Rightarrow> creation_intent \<Rightarrow> rooms_error + unit" where
  "check_intent C i =
     bindR (room_key C (ci_owner_key i)) (\<lambda>_.
     bindR (room_key C (ci_agent_key i)) (\<lambda>_.
     if ci_slot i = 0 \<or> ci_charge i = 0 \<or> ci_expires_at i = 0 \<or> ci_nonce i = 0 then Inl RmBounds else Inr ()))"

definition check_update :: "crypto \<Rightarrow> room_update \<Rightarrow> rooms_error + unit" where
  "check_update C u =
     bindR (room_key C (ru_controller_key u)) (\<lambda>_.
     if ru_expires_at u = 0 \<or> ru_nonce u = 0 then Inl RmBounds
     else (case ru_action u of SetPublicActivityPolicy network _ \<Rightarrow> if network = 0 then Inl RmBounds else Inr () | _ \<Rightarrow> Inr ()))"

definition check_body :: "crypto \<Rightarrow> room_body \<Rightarrow> rooms_error + unit" where
  "check_body C b = (case b of BodyControl k \<Rightarrow> check_control C k | BodyCreate i \<Rightarrow> check_intent C i | BodyUpdate u \<Rightarrow> check_update C u)"

definition room_verify :: "crypto \<Rightarrow> signed_room \<Rightarrow> rooms_error + signed_room" where
  "room_verify C r = (case sr_body r of
     BodyCreate i \<Rightarrow>
       bindR (verify_room_signature C (ci_owner_key i) (owner_transcript C i) (sr_signature r)) (\<lambda>_.
       bindR (ok_or RmSignature (sr_acknowledgement r)) (\<lambda>secondary.
       bindR (verify_room_signature C (ci_agent_key i) (agent_transcript C i) secondary) (\<lambda>_. Inr r)))
   | BodyControl k \<Rightarrow>
       if sr_acknowledgement r \<noteq> None then Inl RmSignature
       else bindR (verify_room_signature C (kc_controller_key k) (controller_transcript C (sr_body r)) (sr_signature r)) (\<lambda>_. Inr r)
   | BodyUpdate u \<Rightarrow>
       if sr_acknowledgement r \<noteq> None then Inl RmSignature
       else bindR (verify_room_signature C (ru_controller_key u) (controller_transcript C (sr_body r)) (sr_signature r)) (\<lambda>_. Inr r))"

section \<open>Frames\<close>

record room_frame =
  fr_tag :: u8
  fr_payload :: bytes
  fr_primary :: array64
  fr_secondary :: "array64 option"

definition frame_bytes :: "u8 \<Rightarrow> bytes \<Rightarrow> array64 \<Rightarrow> array64 option \<Rightarrow> bytes" where
  "frame_bytes tag payload primary secondary =
     ROOM_MAGIC @ [tag] @ to_be (word_of_nat (length payload) :: u16) @ payload @ to_be primary
     @ (case secondary of None \<Rightarrow> [] | Some s \<Rightarrow> to_be s)"

definition split_frame :: "bytes \<Rightarrow> rooms_error + room_frame" where
  "split_frame raw =
     (if length raw > MAX_ROOM_RECORD_BYTES then Inl RmBounds
      else
        bindR (rd_take RmEncoding (length ROOM_MAGIC) raw) (\<lambda>(magic, bs).
        if magic \<noteq> ROOM_MAGIC then Inl RmEncoding
        else
        bindR (rd_word RmEncoding bs) (\<lambda>(tag :: u8, bs).
        if tag \<noteq> TAG_CONTROL \<and> tag \<noteq> TAG_CREATE \<and> tag \<noteq> TAG_UPDATE \<and> tag \<noteq> TAG_PERMIT then Inl RmEncoding
        else
        bindR (rd_word RmEncoding bs) (\<lambda>(len :: u16, bs).
        if unat len > MAX_ROOM_RECORD_BYTES - 8 - (if tag = TAG_CREATE then 128 else 64) then Inl RmBounds
        else
        bindR (rd_take RmEncoding (unat len) bs) (\<lambda>(payload, bs).
        bindR (rd_word RmEncoding bs) (\<lambda>(primary, bs).
        bindR (if tag = TAG_CREATE then bindR (rd_word RmEncoding bs) (\<lambda>(s, bs). Inr (Some s, bs)) else Inr (None, bs)) (\<lambda>(secondary, bs).
        if bs \<noteq> [] then Inl RmEncoding
        else Inr \<lparr>fr_tag = tag, fr_payload = payload, fr_primary = primary, fr_secondary = secondary\<rparr>)))))))"

definition rd_text :: "nat \<Rightarrow> nat \<Rightarrow> (bytes \<Rightarrow> rooms_error + bytes) \<Rightarrow> (rooms_error, bytes) reader" where
  "rd_text len limit new bs =
     (if len > limit then Inl RmBounds
      else bindR (rd_take RmEncoding len bs) (\<lambda>(s, bs).
        if utf8_chars s = None then Inl RmEncoding else bindR (new s) (\<lambda>s. Inr (s, bs))))"

definition rd_description :: "(rooms_error, bytes) reader" where
  "rd_description bs = bindR (rd_word RmEncoding bs) (\<lambda>(len :: u16, bs). rd_text (unat len) MAX_DESCRIPTION_BYTES description_new bs)"

definition rd_slug :: "(rooms_error, bytes) reader" where
  "rd_slug bs = bindR (rd_word RmEncoding bs) (\<lambda>(len :: u8, bs). rd_text (unat len) MAX_SLUG_BYTES slug_new bs)"

definition rd_previous :: "(rooms_error, array32 option) reader" where
  "rd_previous bs = bindR (rd_word RmEncoding bs) (\<lambda>(tag :: u8, bs).
     if tag = 0 then Inr (None, bs)
     else if tag = 1 then bindR (rd_word RmEncoding bs) (\<lambda>(p, bs). Inr (Some p, bs))
     else Inl RmEncoding)"

definition rd_create_action :: "(rooms_error, create_action) reader" where
  "rd_create_action bs = bindR (rd_word RmEncoding bs) (\<lambda>(tag :: u8, bs).
     if tag = 0 then
       bindR (rd_word RmEncoding bs) (\<lambda>(agent, bs).
       bindR (rd_word RmEncoding bs) (\<lambda>(agent_key, bs).
       bindR (rd_word RmEncoding bs) (\<lambda>(expires_at, bs).
       bindR (rd_word RmEncoding bs) (\<lambda>(maximum_charge, bs).
       bindR (rd_word RmEncoding bs) (\<lambda>(nonce, bs).
         Inr (GrantCreate \<lparr>gt_agent = agent, gt_agent_key = agent_key, gt_expires_at = expires_at,
                gt_maximum_charge = maximum_charge, gt_nonce = nonce\<rparr>, bs))))))
     else if tag = 1 then bindR (rd_word RmEncoding bs) (\<lambda>(grant, bs). Inr (RevokeGrant grant, bs))
     else Inl RmEncoding)"

definition read_control :: "(rooms_error, room_control) reader" where
  "read_control bs =
     bindR (rd_word RmEncoding bs) (\<lambda>(directory, bs).
     bindR (rd_word RmEncoding bs) (\<lambda>(realm, bs).
     bindR (rd_word RmEncoding bs) (\<lambda>(owner, bs).
     bindR (rd_word RmEncoding bs) (\<lambda>(social_control, bs).
     bindR (rd_word RmEncoding bs) (\<lambda>(controller_key, bs).
     bindR (rd_previous bs) (\<lambda>(previous, bs).
     bindR (rd_word RmEncoding bs) (\<lambda>(sequence, bs).
     bindR (rd_create_action bs) (\<lambda>(action, bs).
       Inr (\<lparr>kc_directory = directory, kc_realm = realm, kc_owner = owner, kc_social_control = social_control,
              kc_controller_key = controller_key, kc_previous = previous, kc_sequence = sequence, kc_action = action\<rparr>, bs)))))))))"

definition read_intent :: "(rooms_error, creation_intent) reader" where
  "read_intent bs =
     bindR (rd_word RmEncoding bs) (\<lambda>(directory, bs).
     bindR (rd_word RmEncoding bs) (\<lambda>(realm, bs).
     bindR (rd_word RmEncoding bs) (\<lambda>(policy, bs).
     bindR (rd_word RmEncoding bs) (\<lambda>(initial_settings, bs).
     bindR (rd_word RmEncoding bs) (\<lambda>(owner, bs).
     bindR (rd_word RmEncoding bs) (\<lambda>(social_control, bs).
     bindR (rd_word RmEncoding bs) (\<lambda>(owner_key, bs).
     bindR (rd_word RmEncoding bs) (\<lambda>(agent, bs).
     bindR (rd_word RmEncoding bs) (\<lambda>(agent_key, bs).
     bindR (rd_word RmEncoding bs) (\<lambda>(room_control, bs).
     bindR (rd_word RmEncoding bs) (\<lambda>(grant, bs).
     bindR (rd_slug bs) (\<lambda>(slug, bs).
     bindR (rd_description bs) (\<lambda>(description, bs).
     bindR (rd_word RmEncoding bs) (\<lambda>(slot, bs).
     bindR (rd_word RmEncoding bs) (\<lambda>(charge, bs).
     bindR (rd_word RmEncoding bs) (\<lambda>(expires_at, bs).
     bindR (rd_word RmEncoding bs) (\<lambda>(nonce, bs).
       Inr (\<lparr>ci_directory = directory, ci_realm = realm, ci_policy = policy, ci_initial_settings = initial_settings,
              ci_owner = owner, ci_agent = agent, ci_owner_key = owner_key, ci_agent_key = agent_key,
              ci_social_control = social_control, ci_room_control = room_control, ci_grant = grant, ci_slug = slug,
              ci_description = description, ci_slot = slot, ci_charge = charge, ci_expires_at = expires_at,
              ci_nonce = nonce\<rparr>, bs))))))))))))))))))"

definition rd_update_action :: "(rooms_error, update_action) reader" where
  "rd_update_action bs = bindR (rd_word RmEncoding bs) (\<lambda>(tag :: u8, bs).
     if tag = 0 then bindR (rd_description bs) (\<lambda>(s, bs). Inr (Describe s, bs))
     else if tag = 1 then Inr (ArchiveRoom, bs)
     else if tag = 2 then
       bindR (rd_word RmEncoding bs) (\<lambda>(version :: u8, bs).
       if version \<noteq> PUBLIC_ACTIVITY_VERSION then Inl RmEncoding
       else
       bindR (rd_word RmEncoding bs) (\<lambda>(network, bs).
       bindR (rd_word RmEncoding bs) (\<lambda>(enabled :: u8, bs).
       if enabled = 0 then Inr (SetPublicActivityPolicy network False, bs)
       else if enabled = 1 then Inr (SetPublicActivityPolicy network True, bs)
       else Inl RmEncoding)))
     else Inl RmEncoding)"

definition read_update :: "(rooms_error, room_update) reader" where
  "read_update bs =
     bindR (rd_word RmEncoding bs) (\<lambda>(directory, bs).
     bindR (rd_word RmEncoding bs) (\<lambda>(realm, bs).
     bindR (rd_word RmEncoding bs) (\<lambda>(genesis, bs).
     bindR (rd_word RmEncoding bs) (\<lambda>(previous, bs).
     bindR (rd_word RmEncoding bs) (\<lambda>(owner, bs).
     bindR (rd_word RmEncoding bs) (\<lambda>(social_control, bs).
     bindR (rd_word RmEncoding bs) (\<lambda>(controller_key, bs).
     bindR (rd_word RmEncoding bs) (\<lambda>(expires_at, bs).
     bindR (rd_word RmEncoding bs) (\<lambda>(nonce, bs).
     bindR (rd_update_action bs) (\<lambda>(action, bs).
       Inr (\<lparr>ru_directory = directory, ru_realm = realm, ru_genesis = genesis, ru_previous = previous, ru_owner = owner,
              ru_social_control = social_control, ru_controller_key = controller_key, ru_expires_at = expires_at,
              ru_nonce = nonce, ru_action = action\<rparr>, bs)))))))))))"

section \<open>Signed records\<close>

definition room_encode :: "signed_room \<Rightarrow> bytes" where
  "room_encode r = (case body_bytes (sr_body r) of (tag, payload) \<Rightarrow> frame_bytes tag payload (sr_signature r) (sr_acknowledgement r))"

definition room_decode :: "crypto \<Rightarrow> bytes \<Rightarrow> rooms_error + signed_room" where
  "room_decode C raw =
     bindR (split_frame raw) (\<lambda>f.
     bindR
       (if fr_tag f = TAG_CONTROL then bindR (read_control (fr_payload f)) (\<lambda>(k, bs). Inr (BodyControl k, bs))
        else if fr_tag f = TAG_CREATE then bindR (read_intent (fr_payload f)) (\<lambda>(i, bs). Inr (BodyCreate i, bs))
        else if fr_tag f = TAG_UPDATE then bindR (read_update (fr_payload f)) (\<lambda>(u, bs). Inr (BodyUpdate u, bs))
        else Inl RmEncoding) (\<lambda>(body, bs).
     if bs \<noteq> [] then Inl RmEncoding
     else bindR (check_body C body) (\<lambda>_.
       let r = \<lparr>sr_body = body, sr_signature = fr_primary f, sr_acknowledgement = fr_secondary f\<rparr> in
       if room_encode r \<noteq> raw then Inl RmEncoding else Inr r)))"

definition signed_room_id :: "crypto \<Rightarrow> signed_room \<Rightarrow> array32" where
  "signed_room_id C r = room_record_id C (sr_body r)"

definition signed_genesis_id :: "crypto \<Rightarrow> signed_room \<Rightarrow> array32 option" where
  "signed_genesis_id C r = (case sr_body r of BodyCreate i \<Rightarrow> Some (room_genesis_id C i) | _ \<Rightarrow> None)"

section \<open>Signing\<close>

record owner_permit =
  op_intent :: creation_intent
  op_signature :: array64

definition require_signer :: "crypto \<Rightarrow> array32 \<Rightarrow> array32 \<Rightarrow> rooms_error + unit" where
  "require_signer C secret expected = (if public_of C secret \<noteq> expected then Inl RmSigningKey else Inr ())"

definition permit_sign :: "crypto \<Rightarrow> creation_intent \<Rightarrow> array32 \<Rightarrow> rooms_error + owner_permit" where
  "permit_sign C i secret =
     bindR (check_intent C i) (\<lambda>_.
     bindR (require_signer C secret (ci_owner_key i)) (\<lambda>_.
       Inr \<lparr>op_intent = i, op_signature = sign_bytes C secret (owner_transcript C i)\<rparr>))"

definition permit_encode :: "owner_permit \<Rightarrow> bytes" where
  "permit_encode p = frame_bytes TAG_PERMIT (intent_bytes (op_intent p)) (op_signature p) None"

definition permit_decode :: "crypto \<Rightarrow> bytes \<Rightarrow> rooms_error + owner_permit" where
  "permit_decode C raw =
     bindR (split_frame raw) (\<lambda>f.
     if fr_tag f \<noteq> TAG_PERMIT then Inl RmEncoding
     else bindR (read_intent (fr_payload f)) (\<lambda>(i, bs).
     if bs \<noteq> [] then Inl RmEncoding
     else bindR (check_intent C i) (\<lambda>_.
       let p = \<lparr>op_intent = i, op_signature = fr_primary f\<rparr> in
       if permit_encode p \<noteq> raw then Inl RmEncoding else Inr p)))"

definition permit_verify :: "crypto \<Rightarrow> owner_permit \<Rightarrow> rooms_error + owner_permit" where
  "permit_verify C p =
     bindR (verify_room_signature C (ci_owner_key (op_intent p)) (owner_transcript C (op_intent p)) (op_signature p)) (\<lambda>_. Inr p)"

definition permit_propose :: "crypto \<Rightarrow> owner_permit \<Rightarrow> array32 \<Rightarrow> rooms_error + signed_room" where
  "permit_propose C p secret =
     bindR (require_signer C secret (ci_agent_key (op_intent p))) (\<lambda>_.
       Inr \<lparr>sr_body = BodyCreate (op_intent p), sr_signature = op_signature p,
            sr_acknowledgement = Some (sign_bytes C secret (agent_transcript C (op_intent p)))\<rparr>)"

definition proposal_decode :: "crypto \<Rightarrow> bytes \<Rightarrow> rooms_error + signed_room" where
  "proposal_decode C raw = bindR (room_decode C raw) (\<lambda>r. case sr_body r of BodyCreate _ \<Rightarrow> Inr r | _ \<Rightarrow> Inl RmEncoding)"

definition control_sign :: "crypto \<Rightarrow> room_control \<Rightarrow> array32 \<Rightarrow> rooms_error + signed_room" where
  "control_sign C k secret =
     bindR (check_control C k) (\<lambda>_.
     bindR (require_signer C secret (kc_controller_key k)) (\<lambda>_.
       Inr \<lparr>sr_body = BodyControl k, sr_signature = sign_bytes C secret (controller_transcript C (BodyControl k)),
            sr_acknowledgement = None\<rparr>))"

definition update_sign :: "crypto \<Rightarrow> room_update \<Rightarrow> array32 \<Rightarrow> rooms_error + signed_room" where
  "update_sign C u secret =
     bindR (check_update C u) (\<lambda>_.
     bindR (require_signer C secret (ru_controller_key u)) (\<lambda>_.
       Inr \<lparr>sr_body = BodyUpdate u, sr_signature = sign_bytes C secret (controller_transcript C (BodyUpdate u)),
            sr_acknowledgement = None\<rparr>))"

end
