(* ===== verification/Room_Codec.thy ===== *)
theory Room_Codec
  imports Room_Wire
begin

text \<open>
  The frames of room records are canonical: each field reader inverts its writer, \<open>room_decode\<close> accepts
  exactly the encodings of well-formed records, and signing gives records that decode and verify.
\<close>

named_theorems room_iffs \<open>when the readers of room records succeed\<close>

definition slug_ok :: "bytes \<Rightarrow> bool" where
  "slug_ok s \<longleftrightarrow> s \<noteq> [] \<and> length s \<le> MAX_SLUG_BYTES \<and> hd s \<noteq> 45 \<and> last s \<noteq> 45 \<and> \<not> double_dash s \<and> (\<forall>b\<in>set s. slug_byte b)"

definition description_ok :: "bytes \<Rightarrow> bool" where
  "description_ok s \<longleftrightarrow> s \<noteq> [] \<and> length s \<le> MAX_DESCRIPTION_BYTES \<and> utf8_chars s \<noteq> None \<and> (\<forall>c\<in>set (str_chars s). \<not> is_control c)"

lemma slug_new_iff: "slug_new s = Inr t \<longleftrightarrow> t = s \<and> slug_ok s"
  by (auto simp: slug_new_def slug_ok_def)

lemma description_new_iff: "utf8_chars s \<noteq> None \<Longrightarrow> description_new s = Inr t \<longleftrightarrow> t = s \<and> description_ok s"
  by (auto simp: description_new_def description_ok_def)

text \<open>Slugs are ASCII, so the reader's UTF-8 check never refuses one.\<close>

lemma ascii_utf8: "\<forall>b\<in>set s. b < 128 \<Longrightarrow> utf8_chars s = Some (map unat s)"
  by (induction s) auto

lemma slug_utf8: "slug_ok s \<Longrightarrow> utf8_chars s \<noteq> None"
proof -
  have "b < 128" if "slug_byte b" for b
    using that by (auto simp: slug_byte_def intro: le_less_trans)
  then show "slug_ok s \<Longrightarrow> utf8_chars s \<noteq> None" using ascii_utf8 [of s] by (auto simp: slug_ok_def)
qed

lemma rd_text_iff:
  "rd_text n limit new bs = Inr (s, rest) \<longleftrightarrow>
     n \<le> limit \<and> (\<exists>raw. length raw = n \<and> bs = raw @ rest \<and> utf8_chars raw \<noteq> None \<and> new raw = Inr s)"
  by (auto simp: rd_text_def rd_take_eq_Inr split: if_splits)

lemma len_u8: "n \<le> MAX_SLUG_BYTES \<Longrightarrow> unat (word_of_nat n :: u8) = n"
  by (simp add: MAX_SLUG_BYTES_def unat_of_nat)

lemma len_u16: "n \<le> 4096 \<Longrightarrow> unat (word_of_nat n :: u16) = n"
  by (simp add: unat_of_nat)

lemma put_u8_byte [simp]: "to_be (b :: u8) = [b]"
  by (simp add: to_be_def)

lemma word_len_eq:
  assumes "unat (word_of_nat n :: 'a::len word) = n"
  shows "unat (w :: 'a word) = n \<longleftrightarrow> w = word_of_nat n"
  using assms by (auto simp: word_unat_eq_iff)

lemma rd_slug_iff [room_iffs]:
  "rd_slug bs = Inr (s, rest) \<longleftrightarrow> slug_ok s \<and> bs = [word_of_nat (length s)] @ s @ rest"
proof -
  have "rd_slug bs = Inr (s, rest) \<longleftrightarrow> (\<exists>len :: u8. unat len = length s \<and> slug_ok s \<and> bs = to_be len @ s @ rest)"
    using slug_utf8 [of s]
    by (auto simp: rd_slug_def rd_word_eq_Inr rd_text_iff slug_new_iff slug_ok_def)
  also have "\<dots> \<longleftrightarrow> slug_ok s \<and> bs = [word_of_nat (length s)] @ s @ rest"
    using word_len_eq [OF len_u8 [of "length s"]] by (auto simp: slug_ok_def)
  finally show ?thesis .
qed

lemma rd_description_iff [room_iffs]:
  "rd_description bs = Inr (s, rest) \<longleftrightarrow> description_ok s \<and> bs = put_description s @ rest"
proof -
  have "rd_description bs = Inr (s, rest) \<longleftrightarrow> (\<exists>len :: u16. unat len = length s \<and> description_ok s \<and> bs = to_be len @ s @ rest)"
    by (fastforce simp: rd_description_def rd_word_eq_Inr rd_text_iff description_new_iff description_ok_def)
  also have "\<dots> \<longleftrightarrow> description_ok s \<and> bs = put_description s @ rest"
    using word_len_eq [OF len_u16 [of "length s"]] by (auto simp: description_ok_def put_description_def MAX_DESCRIPTION_BYTES_def)
  finally show ?thesis .
qed

lemma rd_tag [simp]: "rd_word e (b # bs) = Inr (b :: u8, bs)"
  by (simp add: rd_word_eq_Inr)

lemma rd_fields [simp]:
  "rd_word e (to_be (w :: array32) @ bs) = Inr (w, bs)" "rd_word e (to_be (x :: u64) @ bs) = Inr (x, bs)"
  by (simp_all add: rd_word_eq_Inr)

lemma rd_description_put [simp]: "description_ok s \<Longrightarrow> rd_description (put_description s @ bs) = Inr (s, bs)"
  by (simp add: rd_description_iff)

lemma rd_previous_iff [room_iffs]: "rd_previous bs = Inr (p, rest) \<longleftrightarrow> bs = put_previous p @ rest"
proof
  show "rd_previous bs = Inr (p, rest) \<Longrightarrow> bs = put_previous p @ rest"
    by (auto simp: rd_previous_def rd_word_eq_Inr put_previous_def split: if_splits)
  show "bs = put_previous p @ rest \<Longrightarrow> rd_previous bs = Inr (p, rest)"
    by (cases p) (simp_all add: rd_previous_def put_previous_def)
qed

lemma rd_create_action_iff [room_iffs]: "rd_create_action bs = Inr (a, rest) \<longleftrightarrow> bs = put_create_action a @ rest"
proof
  show "rd_create_action bs = Inr (a, rest) \<Longrightarrow> bs = put_create_action a @ rest"
    by (auto simp: rd_create_action_def rd_word_eq_Inr put_create_action_def split: if_splits)
  show "bs = put_create_action a @ rest \<Longrightarrow> rd_create_action bs = Inr (a, rest)"
    by (cases a) (simp_all add: rd_create_action_def put_create_action_def)
qed

definition update_action_ok :: "update_action \<Rightarrow> bool" where
  "update_action_ok a = (case a of Describe s \<Rightarrow> description_ok s | _ \<Rightarrow> True)"

lemma rd_update_action_iff [room_iffs]:
  "rd_update_action bs = Inr (a, rest) \<longleftrightarrow> update_action_ok a \<and> bs = put_update_action a @ rest"
proof
  show "rd_update_action bs = Inr (a, rest) \<Longrightarrow> update_action_ok a \<and> bs = put_update_action a @ rest"
    by (auto simp: rd_update_action_def rd_word_eq_Inr put_update_action_def update_action_ok_def room_iffs split: if_splits)
  show "update_action_ok a \<and> bs = put_update_action a @ rest \<Longrightarrow> rd_update_action bs = Inr (a, rest)"
    by (cases a) (simp_all add: rd_update_action_def put_update_action_def update_action_ok_def)
qed

lemma read_control_iff [room_iffs]: "read_control bs = Inr (k, rest) \<longleftrightarrow> bs = control_bytes k @ rest"
  by (cases k) (auto simp: read_control_def rd_word_eq_Inr room_iffs control_bytes_def put_scope_def put_owner_def)

lemma read_intent_iff [room_iffs]:
  "read_intent bs = Inr (i, rest) \<longleftrightarrow> slug_ok (ci_slug i) \<and> description_ok (ci_description i) \<and> bs = intent_bytes i @ rest"
  by (cases i) (auto simp: read_intent_def rd_word_eq_Inr room_iffs intent_bytes_def put_scope_def put_owner_def)

lemma read_update_iff [room_iffs]:
  "read_update bs = Inr (u, rest) \<longleftrightarrow> update_action_ok (ru_action u) \<and> bs = update_bytes u @ rest"
  by (cases u) (auto simp: read_update_def rd_word_eq_Inr room_iffs update_bytes_def put_scope_def put_owner_def)

section \<open>Frames and signed records\<close>

lemma length_slug_desc:
  "length (put_description s) = 2 + length s" "length (put_scope d r) = 48" "length (put_owner x y z) = 96"
  "length (put_previous p) \<le> 33" "length (put_create_action a) \<le> 113"
  "update_action_ok u \<Longrightarrow> length (put_update_action u) \<le> 259"
  by (auto simp: put_description_def put_scope_def put_owner_def put_previous_def put_create_action_def put_update_action_def
      update_action_ok_def description_ok_def MAX_DESCRIPTION_BYTES_def split: option.split create_action.split update_action.splits)

definition body_fits :: "room_body \<Rightarrow> bool" where
  "body_fits b = (case b of
     BodyControl _ \<Rightarrow> True
   | BodyCreate i \<Rightarrow> slug_ok (ci_slug i) \<and> description_ok (ci_description i)
   | BodyUpdate u \<Rightarrow> update_action_ok (ru_action u))"

text \<open>Every payload is far below the framing ceiling, so its length fits the two-byte field.\<close>

lemma payload_bound: "body_fits b \<Longrightarrow> length (snd (body_bytes b)) \<le> 1000"
proof (cases b)
  case (BodyControl k)
  then show ?thesis
    using length_slug_desc(4) [of "kc_previous k"] length_slug_desc(5) [of "kc_action k"]
    by (simp add: body_bytes_def control_bytes_def length_slug_desc(2,3))
next
  case (BodyCreate i)
  then show "body_fits b \<Longrightarrow> length (snd (body_bytes b)) \<le> 1000"
    by (simp add: body_bytes_def intent_bytes_def length_slug_desc body_fits_def slug_ok_def description_ok_def
        MAX_SLUG_BYTES_def MAX_DESCRIPTION_BYTES_def)
next
  case (BodyUpdate u)
  then show "body_fits b \<Longrightarrow> length (snd (body_bytes b)) \<le> 1000"
    using length_slug_desc(6) [of "ru_action u"] by (simp add: body_bytes_def update_bytes_def length_slug_desc(2,3) body_fits_def)
qed

lemma split_frame_iff:
  "split_frame raw = Inr f \<longleftrightarrow>
     fr_tag f \<in> {0, 1, 2, 3} \<and> length (fr_payload f) \<le> 2040 - (if fr_tag f = 1 then 128 else 64)
     \<and> (fr_secondary f \<noteq> None \<longleftrightarrow> fr_tag f = 1)
     \<and> raw = frame_bytes (fr_tag f) (fr_payload f) (fr_primary f) (fr_secondary f)"
proof
  assume "split_frame raw = Inr f"
  then show "fr_tag f \<in> {0, 1, 2, 3} \<and> length (fr_payload f) \<le> 2040 - (if fr_tag f = 1 then 128 else 64)
     \<and> (fr_secondary f \<noteq> None \<longleftrightarrow> fr_tag f = 1) \<and> raw = frame_bytes (fr_tag f) (fr_payload f) (fr_primary f) (fr_secondary f)"
    by (auto simp: split_frame_def rd_take_eq_Inr rd_word_eq_Inr frame_bytes_def MAX_ROOM_RECORD_BYTES_def split: if_splits)
next
  assume f: "fr_tag f \<in> {0, 1, 2, 3} \<and> length (fr_payload f) \<le> 2040 - (if fr_tag f = 1 then 128 else 64)
     \<and> (fr_secondary f \<noteq> None \<longleftrightarrow> fr_tag f = 1) \<and> raw = frame_bytes (fr_tag f) (fr_payload f) (fr_primary f) (fr_secondary f)"
  then have n: "unat (word_of_nat (length (fr_payload f)) :: u16) = length (fr_payload f)"
    by (intro len_u16) (auto split: if_splits)
  have w: "rd_word RmEncoding (to_be (x :: u16) @ bs) = Inr (x, bs)" "rd_word RmEncoding (to_be (y :: array64) @ bs) = Inr (y, bs)" for x y bs
    by (simp_all add: rd_word_eq_Inr)
  have w0: "rd_word RmEncoding (to_be (y :: array64)) = Inr (y, [])" for y using w(2) [of y "[]"] by simp
  have m: "length ROOM_MAGIC = 5" by (simp add: ROOM_MAGIC_def ascii_def)
  show "split_frame raw = Inr f"
    using f n m by (cases f; cases "fr_secondary f")
      (auto simp: split_frame_def frame_bytes_def MAX_ROOM_RECORD_BYTES_def w w0 split: if_splits)
qed

definition signed_room_ok :: "crypto \<Rightarrow> signed_room \<Rightarrow> bool" where
  "signed_room_ok C r \<longleftrightarrow> body_fits (sr_body r) \<and> check_body C (sr_body r) = Inr ()
     \<and> (sr_acknowledgement r \<noteq> None \<longleftrightarrow> (\<exists>i. sr_body r = BodyCreate i))"

lemma room_encode_frame:
  "room_encode r = frame_bytes (fst (body_bytes (sr_body r))) (snd (body_bytes (sr_body r))) (sr_signature r) (sr_acknowledgement r)"
  by (simp add: room_encode_def split: prod.split)

interpretation room_codec: frame_codec room_encode "room_decode C" "signed_room_ok C" for C
proof
  fix r
  assume ok: "signed_room_ok C r"
  have len: "length (snd (body_bytes (sr_body r))) \<le> 1000" by (rule payload_bound) (use ok in \<open>simp add: signed_room_ok_def\<close>)
  have "split_frame (room_encode r) = Inr \<lparr>fr_tag = fst (body_bytes (sr_body r)), fr_payload = snd (body_bytes (sr_body r)),
      fr_primary = sr_signature r, fr_secondary = sr_acknowledgement r\<rparr>"
    using ok len unfolding split_frame_iff room_encode_frame
    by (cases "sr_body r") (auto simp: body_bytes_def signed_room_ok_def)
  moreover have "read_control (control_bytes k) = Inr (k, [])" for k by (simp add: read_control_iff)
  moreover have "slug_ok (ci_slug i) \<Longrightarrow> description_ok (ci_description i) \<Longrightarrow> read_intent (intent_bytes i) = Inr (i, [])" for i
    by (simp add: read_intent_iff)
  moreover have "update_action_ok (ru_action u) \<Longrightarrow> read_update (update_bytes u) = Inr (u, [])" for u by (simp add: read_update_iff)
  ultimately show "room_decode C (room_encode r) = Inr r"
    using ok by (cases r; cases "sr_body r") (auto simp: room_decode_def signed_room_ok_def body_fits_def body_bytes_def Let_def)
next
  fix raw r
  assume d: "room_decode C raw = Inr r"
  then obtain f body where f: "split_frame raw = Inr f" "check_body C body = Inr ()" "body_fits body"
    "r = \<lparr>sr_body = body, sr_signature = fr_primary f, sr_acknowledgement = fr_secondary f\<rparr>" "room_encode r = raw"
    "(\<exists>i. body = BodyCreate i) \<longleftrightarrow> fr_tag f = 1"
    by (auto simp: room_decode_def Let_def room_iffs body_fits_def split: if_splits)
  then show "signed_room_ok C r \<and> room_encode r = raw" unfolding split_frame_iff by (auto simp: signed_room_ok_def)
qed

lemma room_decode_iff: "room_decode C raw = Inr r \<longleftrightarrow> signed_room_ok C r \<and> room_encode r = raw"
  by (rule room_codec.dec_iff)

definition permit_ok :: "crypto \<Rightarrow> owner_permit \<Rightarrow> bool" where
  "permit_ok C p \<longleftrightarrow> slug_ok (ci_slug (op_intent p)) \<and> description_ok (ci_description (op_intent p)) \<and> check_intent C (op_intent p) = Inr ()"

interpretation permit_codec: frame_codec permit_encode "permit_decode C" "permit_ok C" for C
proof
  fix p
  assume ok: "permit_ok C p"
  have "length (intent_bytes (op_intent p)) \<le> 1000"
    using payload_bound [of "BodyCreate (op_intent p)"] ok by (simp add: permit_ok_def body_fits_def body_bytes_def)
  then have "split_frame (permit_encode p) = Inr \<lparr>fr_tag = 3, fr_payload = intent_bytes (op_intent p), fr_primary = op_signature p, fr_secondary = None\<rparr>"
    unfolding split_frame_iff permit_encode_def by simp
  moreover have "read_intent (intent_bytes (op_intent p)) = Inr (op_intent p, [])" using ok by (simp add: read_intent_iff permit_ok_def)
  ultimately show "permit_decode C (permit_encode p) = Inr p" using ok by (cases p) (simp add: permit_decode_def permit_ok_def Let_def)
next
  fix raw p
  assume "permit_decode C raw = Inr p"
  then show "permit_ok C p \<and> permit_encode p = raw"
    by (auto simp: permit_decode_def Let_def room_iffs permit_ok_def)
qed

section \<open>Verification and signing\<close>

definition good_key :: "crypto \<Rightarrow> array32 \<Rightarrow> bool" where
  "good_key C k \<longleftrightarrow> key_point C k \<and> \<not> key_weak C k"

lemma room_key_iff: "room_key C k = Inr u \<longleftrightarrow> good_key C k"
  by (auto simp: room_key_def good_key_def)

lemma verify_room_signature_iff: "verify_room_signature C k t s = Inr u \<longleftrightarrow> good_key C k \<and> verify_strict C k t s"
  by (auto simp: verify_room_signature_def room_key_iff)

text \<open>Which signatures a verified record carries.\<close>

definition room_authentic :: "crypto \<Rightarrow> signed_room \<Rightarrow> bool" where
  "room_authentic C r = (case sr_body r of
     BodyCreate i \<Rightarrow> good_key C (ci_owner_key i) \<and> verify_strict C (ci_owner_key i) (owner_transcript C i) (sr_signature r)
       \<and> good_key C (ci_agent_key i)
       \<and> (\<exists>s. sr_acknowledgement r = Some s \<and> verify_strict C (ci_agent_key i) (agent_transcript C i) s)
   | BodyControl k \<Rightarrow> good_key C (kc_controller_key k) \<and> sr_acknowledgement r = None
       \<and> verify_strict C (kc_controller_key k) (controller_transcript C (sr_body r)) (sr_signature r)
   | BodyUpdate u \<Rightarrow> good_key C (ru_controller_key u) \<and> sr_acknowledgement r = None
       \<and> verify_strict C (ru_controller_key u) (controller_transcript C (sr_body r)) (sr_signature r))"

lemma room_verify_iff: "room_verify C r = Inr v \<longleftrightarrow> v = r \<and> room_authentic C r"
  by (cases "sr_body r") (auto simp: room_verify_def room_authentic_def verify_room_signature_iff)

lemma control_sign_ok:
  assumes "sign_correct C" and "control_sign C k secret = Inr r"
  shows "signed_room_ok C r \<and> room_authentic C r \<and> sr_body r = BodyControl k"
  using assms
  by (auto intro: sign_correctD simp: control_sign_def require_signer_def check_control_def room_key_iff signed_room_ok_def body_fits_def check_body_def
      room_authentic_def)

lemma update_sign_ok:
  assumes "sign_correct C" and "update_sign C u secret = Inr r" and "update_action_ok (ru_action u)"
  shows "signed_room_ok C r \<and> room_authentic C r \<and> sr_body r = BodyUpdate u"
  using assms
  by (auto intro: sign_correctD simp: update_sign_def require_signer_def check_update_def room_key_iff signed_room_ok_def body_fits_def check_body_def
      room_authentic_def)

lemma proposal_ok:
  assumes "sign_correct C" and "slug_ok (ci_slug i)" "description_ok (ci_description i)"
    and "permit_sign C i owner = Inr p" and "permit_propose C p agent = Inr r"
  shows "permit_ok C p \<and> permit_verify C p = Inr p \<and> signed_room_ok C r \<and> room_authentic C r \<and> sr_body r = BodyCreate i"
  using assms
  by (auto intro: sign_correctD simp: permit_sign_def permit_propose_def require_signer_def check_intent_def room_key_iff signed_room_ok_def body_fits_def
      check_body_def room_authentic_def permit_ok_def permit_verify_def verify_room_signature_iff)

end
