(* ===== verification/Room_Registry.thy ===== *)
theory Room_Registry
  imports Room_Wire BTree_Map
begin

text \<open>
  \<open>crates/vhalla-rooms\<close>: the agreed room-control ledger (\<open>authority.rs\<close>), the derivation of support awards
  (\<open>awards.rs\<close>) and the deterministic directory state (\<open>registry.rs\<close>). A method that mutates its receiver before it
  can still fail returns its verdict together with the state as it is left. The borrowed social
  view is the record \<open>control_view\<close> of what the two files read from it; every statement holds for all views.
\<close>

section \<open>The borrowed social view\<close>

record owner_status =
  os_head :: "array32 option"
  os_key :: "array32 option"
  os_frozen :: bool
  os_incomplete :: bool
  os_capacity_blocked :: bool

record agent_status =
  as_owner :: array32
  as_key :: array32
  as_retired :: bool
  as_active :: bool

datatype social_status = SocialCommitted | SocialProvisional | SocialPending | SocialRejected | SocialConflicted

text \<open>What \<open>assess_support\<close> distinguishes in a social record: an up-reaction of an owner to a post, an original post, anything else.\<close>

datatype social_content = UpReaction array32 array32 | OriginalPost array32 | OtherContent

record social_record =
  sl_id :: array32
  sl_content :: social_content

record control_view =
  cv_owners :: "(array32, owner_status) btree_map"
  cv_agents :: "(array32, agent_status) btree_map"
  cv_history_complete :: "array32 \<Rightarrow> bool"
  cv_status :: "array32 \<Rightarrow> social_status"
  cv_archive :: "array32 \<Rightarrow> social_record option"

section \<open>Authority\<close>

definition MAX_CONTROL_RECORDS :: nat where "MAX_CONTROL_RECORDS = 4096"

record open_grant =
  og_agent :: array32
  og_agent_key :: array32
  og_expires_at :: u64
  og_maximum_charge :: u64

record owner_chain =
  oc_head :: "array32 option"
  oc_sequence :: u64
  oc_history :: "signed_room list"
  oc_grants :: "(array32, open_grant) btree_map"

definition chain_default :: owner_chain where
  "chain_default = \<lparr>oc_head = None, oc_sequence = 0, oc_history = [], oc_grants = bt_new\<rparr>"

datatype denial =
    DenyScope | DenyKind | DenyUnknownOwner | DenyStaleSocialBasis | DenyControllerKey | DenyFrozen | DenyIncomplete
  | DenyCapacityBlocked | DenyIncompleteHistory | DenyStaleRoomBasis | DenyPrevious | DenySequence | DenyAgentAffiliation
  | DenyAgentKey | DenyRetiredAgent | DenyGrant | DenyGrantAgent | DenyExpired | DenyCharge | DenyCapacity

record room_authority =
  ra_directory :: array32
  ra_realm :: u128
  ra_chains :: "(array32, owner_chain) btree_map"
  ra_records :: nat

definition authority_new :: "array32 \<Rightarrow> u128 \<Rightarrow> room_authority" where
  "authority_new directory realm = \<lparr>ra_directory = directory, ra_realm = realm, ra_chains = bt_new, ra_records = 0\<rparr>"

definition authority_head :: "room_authority \<Rightarrow> array32 \<Rightarrow> array32 option" where
  "authority_head A owner = (case bt_get (ra_chains A) owner of None \<Rightarrow> None | Some ch \<Rightarrow> oc_head ch)"

definition authority_sequence :: "room_authority \<Rightarrow> array32 \<Rightarrow> u64" where
  "authority_sequence A owner = (case bt_get (ra_chains A) owner of None \<Rightarrow> 0 | Some ch \<Rightarrow> oc_sequence ch)"

definition check_owner_status :: "control_view \<Rightarrow> array32 \<Rightarrow> array32 \<Rightarrow> array32 \<Rightarrow> denial + unit" where
  "check_owner_status view owner basis key =
     bindR (ok_or DenyUnknownOwner (bt_get (cv_owners view) owner)) (\<lambda>status.
     if os_frozen status then Inl DenyFrozen
     else if os_incomplete status then Inl DenyIncomplete
     else if os_capacity_blocked status then Inl DenyCapacityBlocked
     else if \<not> cv_history_complete view owner then Inl DenyIncompleteHistory
     else if os_head status \<noteq> Some basis then Inl DenyStaleSocialBasis
     else if os_key status \<noteq> Some key then Inl DenyControllerKey
     else Inr ())"

definition check_agent_status :: "control_view \<Rightarrow> array32 \<Rightarrow> array32 \<Rightarrow> array32 \<Rightarrow> denial + unit" where
  "check_agent_status view owner agent key =
     bindR (ok_or DenyAgentAffiliation (bt_get (cv_agents view) agent)) (\<lambda>status.
     if as_owner status \<noteq> owner then Inl DenyAgentAffiliation
     else if as_key status \<noteq> key then Inl DenyAgentKey
     else if as_retired status then Inl DenyRetiredAgent
     else Inr ())"

text \<open>\<open>entry(owner).or_default()\<close> leaves an empty chain behind whatever the checks after it decide.\<close>

definition chain_entry :: "room_authority \<Rightarrow> array32 \<Rightarrow> room_authority \<times> owner_chain" where
  "chain_entry A owner =
     (case bt_get (ra_chains A) owner of
        Some ch \<Rightarrow> (A, ch)
      | None \<Rightarrow> (A\<lparr>ra_chains := bt_insert owner chain_default (ra_chains A)\<rparr>, chain_default))"

definition put_chain :: "array32 \<Rightarrow> owner_chain \<Rightarrow> room_authority \<Rightarrow> room_authority" where
  "put_chain owner ch A = A\<lparr>ra_chains := bt_insert owner ch (ra_chains A)\<rparr>"

definition apply_action :: "array32 \<Rightarrow> create_action \<Rightarrow> owner_chain \<Rightarrow> denial + owner_chain" where
  "apply_action rid action ch =
     (case action of
        GrantCreate g \<Rightarrow> Inr (ch\<lparr>oc_grants := bt_insert rid
          \<lparr>og_agent = gt_agent g, og_agent_key = gt_agent_key g, og_expires_at = gt_expires_at g,
           og_maximum_charge = gt_maximum_charge g\<rparr> (oc_grants ch)\<rparr>)
      | RevokeGrant grant \<Rightarrow>
          if bt_get (oc_grants ch) grant = None then Inl DenyGrant
          else Inr (ch\<lparr>oc_grants := bt_remove grant (oc_grants ch)\<rparr>))"

definition commit_control :: "crypto \<Rightarrow> room_authority \<Rightarrow> signed_room \<Rightarrow> (denial + unit) \<times> room_authority" where
  "commit_control C A r =
     (case sr_body r of
        BodyControl k \<Rightarrow>
          if kc_directory k \<noteq> ra_directory A \<or> kc_realm k \<noteq> ra_realm A then (Inl DenyScope, A)
          else if ra_records A \<ge> MAX_CONTROL_RECORDS then (Inl DenyCapacity, A)
          else
            (case chain_entry A (kc_owner k) of (A, ch) \<Rightarrow>
             if kc_previous k \<noteq> oc_head ch then (Inl DenyPrevious, A)
             else if kc_sequence k \<noteq> oc_sequence ch then (Inl DenySequence, A)
             else
               (case apply_action (signed_room_id C r) (kc_action k) ch of
                  Inl e \<Rightarrow> (Inl e, A)
                | Inr ch \<Rightarrow>
                    let ch = ch\<lparr>oc_head := Some (signed_room_id C r)\<rparr> in
                    (case checked_add (oc_sequence ch) 1 of
                       None \<Rightarrow> (Inl DenySequence, put_chain (kc_owner k) ch A)
                     | Some s \<Rightarrow>
                         (Inr (), (put_chain (kc_owner k) (ch\<lparr>oc_sequence := s, oc_history := oc_history ch @ [r]\<rparr>) A)
                                    \<lparr>ra_records := ra_records A + 1\<rparr>))))
      | _ \<Rightarrow> (Inl DenyKind, A))"

definition check_control_claims :: "room_authority \<Rightarrow> control_view \<Rightarrow> u64 \<Rightarrow> room_control \<Rightarrow> denial + unit" where
  "check_control_claims A view now k =
     (if kc_directory k \<noteq> ra_directory A \<or> kc_realm k \<noteq> ra_realm A then Inl DenyScope
      else bindR (check_owner_status view (kc_owner k) (kc_social_control k) (kc_controller_key k)) (\<lambda>_.
        (case kc_action k of
           GrantCreate g \<Rightarrow>
             bindR (check_agent_status view (kc_owner k) (gt_agent g) (gt_agent_key g)) (\<lambda>_.
             if gt_expires_at g \<le> now then Inl DenyExpired else Inr ())
         | RevokeGrant _ \<Rightarrow> Inr ())))"

definition authority_admit :: "crypto \<Rightarrow> room_authority \<Rightarrow> signed_room \<Rightarrow> control_view \<Rightarrow> u64 \<Rightarrow> (denial + unit) \<times> room_authority" where
  "authority_admit C A r view now =
     (case sr_body r of
        BodyControl k \<Rightarrow>
          (case check_control_claims A view now k of
             Inl e \<Rightarrow> (Inl e, A)
           | Inr _ \<Rightarrow> commit_control C A r)
      | _ \<Rightarrow> (Inl DenyKind, A))"

definition assess_creation :: "room_authority \<Rightarrow> creation_intent \<Rightarrow> control_view \<Rightarrow> u64 \<Rightarrow> denial + unit" where
  "assess_creation A i view now =
     (if ci_directory i \<noteq> ra_directory A \<or> ci_realm i \<noteq> ra_realm A then Inl DenyScope
      else
        bindR (check_owner_status view (ci_owner i) (ci_social_control i) (ci_owner_key i)) (\<lambda>_.
        bindR (check_agent_status view (ci_owner i) (ci_agent i) (ci_agent_key i)) (\<lambda>_.
        bindR (ok_or DenyStaleRoomBasis (bt_get (ra_chains A) (ci_owner i))) (\<lambda>ch.
        if oc_head ch \<noteq> Some (ci_room_control i) then Inl DenyStaleRoomBasis
        else
        bindR (ok_or DenyGrant (bt_get (oc_grants ch) (ci_grant i))) (\<lambda>g.
        if og_agent g \<noteq> ci_agent i \<or> og_agent_key g \<noteq> ci_agent_key i then Inl DenyGrantAgent
        else if og_expires_at g \<le> now \<or> ci_expires_at i \<le> now then Inl DenyExpired
        else if ci_charge i > og_maximum_charge g then Inl DenyCharge
        else Inr ())))))"

definition assess_update :: "room_authority \<Rightarrow> room_update \<Rightarrow> control_view \<Rightarrow> u64 \<Rightarrow> denial + unit" where
  "assess_update A u view now =
     (if ru_directory u \<noteq> ra_directory A \<or> ru_realm u \<noteq> ra_realm A then Inl DenyScope
      else
        bindR (check_owner_status view (ru_owner u) (ru_social_control u) (ru_controller_key u)) (\<lambda>_.
        if ru_expires_at u \<le> now then Inl DenyExpired else Inr ()))"

text \<open>The committed snapshot of everything an admission can depend on.\<close>

definition flag :: "nat \<Rightarrow> bool \<Rightarrow> u8" where
  "flag n b = (if b then 2 ^ n else 0)"

definition authority_transcript :: "room_authority \<Rightarrow> control_view \<Rightarrow> bytes" where
  "authority_transcript A view =
     ascii ''vhalla/rooms/control-snapshot/v1'' @ [0] @ to_be (ra_directory A) @ to_be (ra_realm A)
     @ to_be (word_of_nat (length (cv_owners view)) :: u32)
     @ concat (map (\<lambda>(owner, s). to_be owner @ to_be (case os_head s of None \<Rightarrow> 0 | Some h \<Rightarrow> h)
         @ to_be (case os_key s of None \<Rightarrow> 0 | Some k \<Rightarrow> k)
         @ [flag 0 (os_frozen s) + flag 1 (os_incomplete s) + flag 2 (os_capacity_blocked s)
            + flag 3 (\<not> cv_history_complete view owner)]) (cv_owners view))
     @ to_be (word_of_nat (length (cv_agents view)) :: u32)
     @ concat (map (\<lambda>(agent, s). to_be agent @ to_be (as_owner s) @ to_be (as_key s)
         @ [flag 0 (as_retired s) + flag 1 (as_active s)]) (cv_agents view))
     @ to_be (word_of_nat (length (ra_chains A)) :: u32)
     @ concat (map (\<lambda>(owner, ch). to_be owner @ to_be (case oc_head ch of None \<Rightarrow> 0 | Some h \<Rightarrow> h) @ to_be (oc_sequence ch)
         @ to_be (word_of_nat (length (oc_grants ch)) :: u32)
         @ concat (map (\<lambda>(grant, g). to_be grant @ to_be (og_agent g) @ to_be (og_agent_key g) @ to_be (og_expires_at g)
             @ to_be (og_maximum_charge g)) (oc_grants ch))) (ra_chains A))"

definition authority_snapshot :: "crypto \<Rightarrow> room_authority \<Rightarrow> control_view \<Rightarrow> array32" where
  "authority_snapshot C A view = sha256 C (authority_transcript A view)"

section \<open>Awards\<close>

datatype award_denial =
    AwardNotSupport | AwardNotCommitted | AwardUnknownPost | AwardNotPost | AwardPostNotCommitted | AwardSelfSupport
  | AwardIneligible | AwardEpoch

record support_award =
  aw_source_owner :: array32
  aw_beneficiary :: array32
  aw_activity_epoch :: u64
  aw_evidence_id :: array32

definition assess_support ::
    "social_record \<Rightarrow> control_view \<Rightarrow> (array32, unit) btree_map \<Rightarrow> u64 \<Rightarrow> u64 \<Rightarrow> u64 \<Rightarrow> award_denial + support_award" where
  "assess_support r view eligible epoch_seconds accepted_at now =
     (if epoch_seconds = 0 \<or> accepted_at > now then Inl AwardEpoch
      else if cv_status view (sl_id r) \<noteq> SocialCommitted then Inl AwardNotCommitted
      else (case sl_content r of
        UpReaction source post \<Rightarrow>
          bindR (ok_or AwardUnknownPost (cv_archive view post)) (\<lambda>p.
          (case sl_content p of
             OriginalPost beneficiary \<Rightarrow>
               if cv_status view post \<noteq> SocialCommitted then Inl AwardPostNotCommitted
               else if source = beneficiary then Inl AwardSelfSupport
               else if \<not> bt_contains eligible source then Inl AwardIneligible
               else Inr \<lparr>aw_source_owner = source, aw_beneficiary = beneficiary,
                         aw_activity_epoch = accepted_at div epoch_seconds, aw_evidence_id = sl_id r\<rparr>
           | _ \<Rightarrow> Inl AwardNotPost))
      | _ \<Rightarrow> Inl AwardNotSupport))"

section \<open>The directory\<close>

definition MAX_ROOMS :: nat where "MAX_ROOMS = 4096"
definition MAX_OWNERS :: nat where "MAX_OWNERS = 256"
definition MAX_SUPPORT :: nat where "MAX_SUPPORT = 8192"
definition MAX_ROTATIONS :: nat where "MAX_ROTATIONS = 64"
definition MAX_VALIDATORS :: nat where "MAX_VALIDATORS = 64"
definition MAX_REVISIONS :: nat where "MAX_REVISIONS = 256"
definition MAX_PAGE :: nat where "MAX_PAGE = 64"
definition MAX_TERMS :: nat where "MAX_TERMS = 8"
definition MAX_QUERY :: nat where "MAX_QUERY = 128"

datatype registry_error =
    RegBounds | RegAuthority denial | RegAward award_denial | RegWrongPolicy | RegTaken | RegSlot | RegCost
  | RegInsufficientCredit | RegRateLimit | RegMissing | RegOwnerMismatch | RegStaleRevision | RegArchived | RegCapacity
  | RegClock | RegCorrupt

record directory_policy =
  dp_base_cost :: u64
  dp_window_seconds :: u64
  dp_max_in_window :: u16
  dp_support_epoch_seconds :: u64
  dp_max_lifetime_rooms :: u32

definition policy_transcript :: "directory_policy \<Rightarrow> bytes" where
  "policy_transcript p = ascii ''vhalla/rooms/directory-policy/v1'' @ [0] @ to_be (dp_base_cost p) @ to_be (dp_window_seconds p)
     @ to_be (dp_max_in_window p) @ to_be (dp_support_epoch_seconds p) @ to_be (dp_max_lifetime_rooms p)"

definition directory_policy_id :: "crypto \<Rightarrow> directory_policy \<Rightarrow> array32" where
  "directory_policy_id C p = sha256 C (policy_transcript p)"

definition checked_mul :: "'a::len word \<Rightarrow> 'a word \<Rightarrow> 'a word option" where
  "checked_mul a b = (if unat a * unat b < 2 ^ LENGTH('a) then Some (a * b) else None)"

definition slot_cost :: "directory_policy \<Rightarrow> u32 \<Rightarrow> registry_error + u64" where
  "slot_cost p slot =
     (if slot = 0 \<or> slot > dp_max_lifetime_rooms p then Inl RegSlot
      else (case checked_mul (dp_base_cost p) (ucast slot) of
        None \<Rightarrow> Inl RegCost
      | Some v \<Rightarrow> ok_or RegCost (checked_mul v (ucast slot))))"

definition policy_validate :: "directory_policy \<Rightarrow> registry_error + unit" where
  "policy_validate p =
     (if dp_base_cost p = 0 \<or> dp_window_seconds p = 0 \<or> dp_max_in_window p = 0 \<or> unat (dp_max_in_window p) > MAX_ROOMS
         \<or> dp_support_epoch_seconds p = 0 \<or> dp_max_lifetime_rooms p = 0 \<or> unat (dp_max_lifetime_rooms p) > MAX_ROOMS
      then Inl RegBounds
      else bindR (slot_cost p (dp_max_lifetime_rooms p)) (\<lambda>_. Inr ()))"

record account =
  acc_earned :: u64
  acc_spent :: u64
  acc_lifetime_slots :: u32

definition account_default :: account where
  "account_default = \<lparr>acc_earned = 0, acc_spent = 0, acc_lifetime_slots = 0\<rparr>"

record room =
  rm_genesis :: array32
  rm_intent :: creation_intent
  rm_description :: bytes
  rm_head :: array32
  rm_created_at :: u64
  rm_archived :: bool
  rm_record :: signed_room
  rm_revisions :: "signed_room list"

datatype applied =
    AppliedControl | Created array32 | Existing array32 | Updated array32 | Awarded | DuplicateAward

record evidence =
  ev_award :: support_award
  ev_record :: social_record

record validator_member =
  vm_key :: array32
  vm_power :: u64

record registry =
  rg_directory :: array32
  rg_realm :: u128
  rg_policy :: directory_policy
  rg_authority :: room_authority
  rg_eligible :: "(array32, unit) btree_map"
  rg_support :: "(array32 \<times> array32 \<times> u64, unit) btree_map"
  rg_evidence :: "(array32, evidence) btree_map"
  rg_accounts :: "(array32, account) btree_map"
  rg_windows :: "(array32, u64 list) btree_map"
  rg_rooms :: "(bytes, room) btree_map"
  rg_by_genesis :: "(array32, bytes) btree_map"
  rg_schedule :: "(u64, validator_member list) btree_map"
  rg_last_time :: u64
  rg_revision :: u64

definition set_of :: "'k::linorder list \<Rightarrow> ('k, unit) btree_map" where
  "set_of xs = fold (\<lambda>x. bt_insert x ()) xs bt_new"

definition registry_new :: "array32 \<Rightarrow> u128 \<Rightarrow> directory_policy \<Rightarrow> array32 list \<Rightarrow> registry_error + registry" where
  "registry_new directory realm policy eligible =
     bindR (policy_validate policy) (\<lambda>_.
     if length eligible > MAX_OWNERS then Inl RegCapacity
     else Inr \<lparr>rg_directory = directory, rg_realm = realm, rg_policy = policy, rg_authority = authority_new directory realm,
            rg_eligible = set_of eligible, rg_support = bt_new, rg_evidence = bt_new, rg_accounts = bt_new, rg_windows = bt_new,
            rg_rooms = bt_new, rg_by_genesis = bt_new, rg_schedule = bt_new, rg_last_time = 0, rg_revision = 0\<rparr>)"

definition account_of :: "registry \<Rightarrow> array32 \<Rightarrow> account" where
  "account_of R owner = (case bt_get (rg_accounts R) owner of None \<Rightarrow> account_default | Some a \<Rightarrow> a)"

definition room_by_genesis :: "registry \<Rightarrow> array32 \<Rightarrow> room option" where
  "room_by_genesis R genesis = (case bt_get (rg_by_genesis R) genesis of None \<Rightarrow> None | Some slug \<Rightarrow> bt_get (rg_rooms R) slug)"

definition registry_quote :: "registry \<Rightarrow> array32 \<Rightarrow> registry_error + u32 \<times> u64" where
  "registry_quote R owner =
     bindR (ok_or RegSlot (checked_add (acc_lifetime_slots (account_of R owner)) 1)) (\<lambda>slot.
     bindR (slot_cost (rg_policy R) slot) (\<lambda>cost. Inr (slot, cost)))"

text \<open>The last step of every transition: the clock, then the checked revision counter.\<close>

definition bump_revision :: "'a \<Rightarrow> u64 \<Rightarrow> registry \<Rightarrow> (registry_error + 'a) \<times> registry" where
  "bump_revision x now R =
     (case checked_add (rg_revision R) 1 of
        None \<Rightarrow> (Inl RegCapacity, R\<lparr>rg_last_time := now\<rparr>)
      | Some v \<Rightarrow> (Inr x, R\<lparr>rg_last_time := now, rg_revision := v\<rparr>))"

definition expired :: "registry \<Rightarrow> u64 \<Rightarrow> u64 \<Rightarrow> bool" where
  "expired R now t \<longleftrightarrow> (if t \<le> now then now - t else 0) \<ge> dp_window_seconds (rg_policy R)"

definition create_checks :: "crypto \<Rightarrow> registry \<Rightarrow> array32 \<Rightarrow> creation_intent \<Rightarrow> control_view \<Rightarrow> u64 \<Rightarrow> registry_error + (u32 \<times> u64)" where
  "create_checks C R genesis i view now =
     (if ci_policy i \<noteq> directory_policy_id C (rg_policy R) then Inl RegWrongPolicy
      else
        bindR (map_err RegAuthority (assess_creation (rg_authority R) i view now)) (\<lambda>_.
        if bt_contains (rg_rooms R) (ci_slug i) then Inl RegTaken
        else if length (rg_rooms R) \<ge> MAX_ROOMS then Inl RegCapacity
        else if \<not> bt_contains (rg_accounts R) (ci_owner i) \<and> length (rg_accounts R) \<ge> MAX_OWNERS then Inl RegCapacity
        else
        bindR (ok_or RegSlot (checked_add (acc_lifetime_slots (account_of R (ci_owner i))) 1)) (\<lambda>slot.
        if ci_slot i \<noteq> slot then Inl RegSlot
        else
        bindR (slot_cost (rg_policy R) slot) (\<lambda>cost.
        if ci_charge i \<noteq> cost then Inl RegCost
        else
        bindR (ok_or RegCost (checked_add (acc_spent (account_of R (ci_owner i))) (ci_charge i))) (\<lambda>spent.
        if spent > acc_earned (account_of R (ci_owner i)) then Inl RegInsufficientCredit
        else Inr (slot, spent))))))"

definition fresh_room :: "crypto \<Rightarrow> signed_room \<Rightarrow> array32 \<Rightarrow> creation_intent \<Rightarrow> u64 \<Rightarrow> room" where
  "fresh_room C r genesis i now =
     \<lparr>rm_genesis = genesis, rm_intent = i, rm_description = ci_description i, rm_head = signed_room_id C r,
      rm_created_at = now, rm_archived = False, rm_record = r, rm_revisions = []\<rparr>"

definition registry_create :: "crypto \<Rightarrow> registry \<Rightarrow> signed_room \<Rightarrow> creation_intent \<Rightarrow> control_view \<Rightarrow> u64 \<Rightarrow> (registry_error + applied) \<times> registry" where
  "registry_create C R r i view now =
     (case signed_genesis_id C r of
        None \<Rightarrow> (Inl RegBounds, R)
      | Some genesis \<Rightarrow>
          if bt_contains (rg_by_genesis R) genesis then (Inr (Existing genesis), R)
          else
            (case create_checks C R genesis i view now of
               Inl e \<Rightarrow> (Inl e, R)
             | Inr (slot, spent) \<Rightarrow>
                 let window = (case bt_get (rg_windows R) (ci_owner i) of None \<Rightarrow> [] | Some w \<Rightarrow> w);
                     window = dropWhile (expired R now) window;
                     R = R\<lparr>rg_windows := bt_insert (ci_owner i) window (rg_windows R)\<rparr> in
                 if length window \<ge> unat (dp_max_in_window (rg_policy R)) then (Inl RegRateLimit, R)
                 else
                   (Inr (Created genesis),
                    R\<lparr>rg_windows := bt_insert (ci_owner i) (window @ [now]) (rg_windows R),
                      rg_rooms := bt_insert (ci_slug i) (fresh_room C r genesis i now) (rg_rooms R),
                      rg_by_genesis := bt_insert genesis (ci_slug i) (rg_by_genesis R),
                      rg_accounts := bt_insert (ci_owner i)
                        ((account_of R (ci_owner i))\<lparr>acc_spent := spent, acc_lifetime_slots := slot\<rparr>) (rg_accounts R)\<rparr>)))"

definition revise_room :: "crypto \<Rightarrow> signed_room \<Rightarrow> update_action \<Rightarrow> room \<Rightarrow> room" where
  "revise_room C r action room =
     (let room = (case action of
          Describe text \<Rightarrow> room\<lparr>rm_description := text\<rparr>
        | ArchiveRoom \<Rightarrow> room\<lparr>rm_archived := True\<rparr>
        | SetPublicActivityPolicy _ _ \<Rightarrow> room) in
      room\<lparr>rm_head := signed_room_id C r, rm_revisions := rm_revisions room @ [r]\<rparr>)"

definition registry_update :: "crypto \<Rightarrow> registry \<Rightarrow> signed_room \<Rightarrow> room_update \<Rightarrow> control_view \<Rightarrow> u64 \<Rightarrow> (registry_error + applied) \<times> registry" where
  "registry_update C R r u view now =
     (case bindR (map_err RegAuthority (assess_update (rg_authority R) u view now)) (\<lambda>_.
           bindR (ok_or RegMissing (bt_get (rg_by_genesis R) (ru_genesis u))) (\<lambda>slug.
           bindR (ok_or RegMissing (bt_get (rg_rooms R) slug)) (\<lambda>room.
           if rm_archived room then Inl RegArchived
           else if ci_owner (rm_intent room) \<noteq> ru_owner u then Inl RegOwnerMismatch
           else if rm_head room \<noteq> ru_previous u then Inl RegStaleRevision
           else if length (rm_revisions room) \<ge> MAX_REVISIONS then Inl RegCapacity
           else Inr (slug, room)))) of
        Inl e \<Rightarrow> (Inl e, R)
      | Inr (slug, room) \<Rightarrow>
          (Inr (Updated (signed_room_id C r)),
           R\<lparr>rg_rooms := bt_insert slug (revise_room C r (ru_action u) room) (rg_rooms R)\<rparr>))"

definition registry_apply :: "crypto \<Rightarrow> registry \<Rightarrow> signed_room \<Rightarrow> control_view \<Rightarrow> u64 \<Rightarrow> (registry_error + applied) \<times> registry" where
  "registry_apply C R r view now =
     (if now < rg_last_time R then (Inl RegClock, R)
      else
        (case (case sr_body r of
             BodyControl _ \<Rightarrow>
               (case authority_admit C (rg_authority R) r view now of
                  (res, A) \<Rightarrow> (map_err RegAuthority (bindR res (\<lambda>_. Inr AppliedControl)), R\<lparr>rg_authority := A\<rparr>))
           | BodyCreate i \<Rightarrow> registry_create C R r i view now
           | BodyUpdate u \<Rightarrow> registry_update C R r u view now) of
           (Inl e, R) \<Rightarrow> (Inl e, R)
         | (Inr x, R) \<Rightarrow> bump_revision x now R))"

definition registry_award :: "registry \<Rightarrow> social_record \<Rightarrow> control_view \<Rightarrow> u64 \<Rightarrow> (registry_error + applied) \<times> registry" where
  "registry_award R r view now =
     (if now < rg_last_time R then (Inl RegClock, R)
      else if bt_contains (rg_evidence R) (sl_id r) then (Inr DuplicateAward, R)
      else
        (case assess_support r view (rg_eligible R) (dp_support_epoch_seconds (rg_policy R)) now now of
           Inl e \<Rightarrow> (Inl (RegAward e), R)
         | Inr award \<Rightarrow>
             if length (rg_evidence R) \<ge> MAX_SUPPORT then (Inl RegCapacity, R)
             else
               let key = (aw_beneficiary award, aw_source_owner award, aw_activity_epoch award);
                   kept = R\<lparr>rg_evidence := bt_insert (sl_id r) \<lparr>ev_award = award, ev_record = r\<rparr> (rg_evidence R)\<rparr> in
               if bt_contains (rg_support R) key then (Inr DuplicateAward, kept)
               else if length (rg_support R) \<ge> MAX_SUPPORT then (Inl RegCapacity, R)
               else if \<not> bt_contains (rg_accounts R) (aw_beneficiary award) \<and> length (rg_accounts R) \<ge> MAX_OWNERS then (Inl RegCapacity, R)
               else
                 (case checked_add (acc_earned (account_of R (aw_beneficiary award))) 1 of
                    None \<Rightarrow> (Inl RegCost, R)
                  | Some earned \<Rightarrow>
                      bump_revision Awarded now
                        (kept\<lparr>rg_support := bt_insert key () (rg_support R),
                              rg_accounts := bt_insert (aw_beneficiary award)
                                ((account_of R (aw_beneficiary award))\<lparr>acc_earned := earned\<rparr>) (rg_accounts R)\<rparr>))))"

definition registry_set_eligible :: "registry \<Rightarrow> array32 list \<Rightarrow> u64 \<Rightarrow> (registry_error + unit) \<times> registry" where
  "registry_set_eligible R eligible now =
     (if now < rg_last_time R then (Inl RegClock, R)
      else if length eligible > MAX_OWNERS then (Inl RegCapacity, R)
      else bump_revision () now (R\<lparr>rg_eligible := set_of eligible\<rparr>))"

text \<open>The members of a proposed set, in the order given: positive power, distinct canonical keys, bounded total.\<close>

fun check_members :: "crypto \<Rightarrow> registry_error \<Rightarrow> registry_error \<Rightarrow> array32 list \<Rightarrow> u64 \<Rightarrow> validator_member list \<Rightarrow> registry_error + unit" where
  "check_members C bad over seen acc [] = Inr ()"
| "check_members C bad over seen acc (m # ms) =
     (if vm_power m = 0 \<or> vm_key m \<in> set seen \<or> \<not> key_point C (vm_key m) then Inl bad
      else
        (case checked_add acc (vm_power m) of
           None \<Rightarrow> Inl over
         | Some t \<Rightarrow> if t \<le> (- 1) div 3 then check_members C bad over (vm_key m # seen) t ms else Inl over))"

definition member_le :: "validator_member \<Rightarrow> validator_member \<Rightarrow> bool" where
  "member_le a b \<longleftrightarrow> vm_key a < vm_key b \<or> vm_key a = vm_key b \<and> vm_power a \<le> vm_power b"

fun insert_member :: "validator_member \<Rightarrow> validator_member list \<Rightarrow> validator_member list" where
  "insert_member m [] = [m]"
| "insert_member m (x # xs) = (if member_le m x then m # x # xs else x # insert_member m xs)"

definition sort_members :: "validator_member list \<Rightarrow> validator_member list" where
  "sort_members ms = foldr insert_member ms []"

definition registry_apply_rotation :: "crypto \<Rightarrow> registry \<Rightarrow> u64 \<Rightarrow> validator_member list \<Rightarrow> u64 \<Rightarrow> (registry_error + unit) \<times> registry" where
  "registry_apply_rotation C R start validators now =
     (if now < rg_last_time R then (Inl RegClock, R)
      else if (case bt_last (rg_schedule R) of None \<Rightarrow> False | Some (latest, _) \<Rightarrow> start \<le> latest) then (Inl RegBounds, R)
      else if validators = [] \<or> length validators > MAX_VALIDATORS \<or> length (rg_schedule R) \<ge> MAX_ROTATIONS then (Inl RegCapacity, R)
      else
        (case check_members C RegBounds RegCost [] 0 validators of
           Inl e \<Rightarrow> (Inl e, R)
         | Inr _ \<Rightarrow> bump_revision () now (R\<lparr>rg_schedule := bt_insert start (sort_members validators) (rg_schedule R)\<rparr>)))"

section \<open>Reading the directory\<close>

record public_activity_policy =
  pa_record :: array32
  pa_network :: array32
  pa_enabled :: bool

definition activity_of :: "crypto \<Rightarrow> signed_room \<Rightarrow> public_activity_policy option" where
  "activity_of C r = (case sr_body r of
     BodyUpdate u \<Rightarrow> (case ru_action u of
       SetPublicActivityPolicy network enabled \<Rightarrow> Some \<lparr>pa_record = signed_room_id C r, pa_network = network, pa_enabled = enabled\<rparr>
     | _ \<Rightarrow> None)
   | _ \<Rightarrow> None)"

fun find_map :: "('a \<Rightarrow> 'b option) \<Rightarrow> 'a list \<Rightarrow> 'b option" where
  "find_map f [] = None"
| "find_map f (x # xs) = (case f x of Some y \<Rightarrow> Some y | None \<Rightarrow> find_map f xs)"

definition room_activity_policy :: "crypto \<Rightarrow> room \<Rightarrow> public_activity_policy option" where
  "room_activity_policy C room = find_map (activity_of C) (rev (rm_revisions room))"

definition allows_public_activity :: "crypto \<Rightarrow> room \<Rightarrow> array32 \<Rightarrow> array32 \<Rightarrow> bool" where
  "allows_public_activity C room network policy \<longleftrightarrow> \<not> rm_archived room
     \<and> (case room_activity_policy C room of None \<Rightarrow> False
        | Some a \<Rightarrow> pa_enabled a \<and> pa_network a = network \<and> pa_record a = policy)"

definition lower_byte :: "u8 \<Rightarrow> u8" where
  "lower_byte b = (if 65 \<le> b \<and> b \<le> 90 then b + 32 else b)"

text \<open>\<open>windows(n)\<close> of a slice, compared with ASCII folding.\<close>

fun contains_at :: "bytes \<Rightarrow> bytes \<Rightarrow> bool" where
  "contains_at [] term = (term = [])"
| "contains_at (b # bs) term = (map lower_byte (take (length term) (b # bs)) = map lower_byte term \<or> contains_at bs term)"

definition text_contains :: "bytes \<Rightarrow> bytes \<Rightarrow> bool" where
  "text_contains text term \<longleftrightarrow> term \<noteq> [] \<and> contains_at text term"

text \<open>\<open>split_ascii_whitespace\<close>: space, tab, line feed, form feed and carriage return separate.\<close>

definition ascii_white :: "u8 \<Rightarrow> bool" where
  "ascii_white b \<longleftrightarrow> b = 32 \<or> b = 9 \<or> b = 10 \<or> b = 12 \<or> b = 13"

fun split_white :: "bytes \<Rightarrow> bytes \<Rightarrow> bytes list" where
  "split_white acc [] = (if acc = [] then [] else [acc])"
| "split_white acc (b # bs) =
     (if ascii_white b then (if acc = [] then split_white [] bs else acc # split_white [] bs) else split_white (acc @ [b]) bs)"

record room_search =
  se_rooms :: "room list"
  se_examined :: nat
  se_retained :: nat
  se_partial :: bool
  se_revision :: u64

definition room_matches :: "bytes list \<Rightarrow> room \<Rightarrow> bool" where
  "room_matches terms room \<longleftrightarrow> \<not> rm_archived room
     \<and> (\<forall>t\<in>set terms. text_contains (ci_slug (rm_intent room)) t \<or> text_contains (rm_description room) t)"

fun search_rooms :: "bytes list \<Rightarrow> nat \<Rightarrow> nat \<Rightarrow> room list \<Rightarrow> room_search \<Rightarrow> room_search" where
  "search_rooms terms limit budget [] s = s"
| "search_rooms terms limit budget (room # rooms) s =
     (if se_examined s = budget \<or> length (se_rooms s) = limit then s\<lparr>se_partial := True\<rparr>
      else search_rooms terms limit budget rooms
        (s\<lparr>se_examined := se_examined s + 1,
           se_rooms := (if room_matches terms room then se_rooms s @ [room] else se_rooms s)\<rparr>))"

definition registry_search :: "registry \<Rightarrow> bytes \<Rightarrow> nat \<Rightarrow> nat \<Rightarrow> registry_error + room_search" where
  "registry_search R query limit budget =
     (if length query > MAX_QUERY \<or> limit = 0 \<or> limit > MAX_PAGE \<or> budget > MAX_ROOMS then Inl RegBounds
      else
        let terms = split_white [] query in
        if length terms > MAX_TERMS \<or> (\<exists>c\<in>set (str_chars query). is_control c \<and> c \<noteq> 32) then Inl RegBounds
        else Inr (search_rooms terms limit budget (map snd (rg_rooms R))
          \<lparr>se_rooms = [], se_examined = 0, se_retained = length (rg_rooms R), se_partial = False, se_revision = rg_revision R\<rparr>))"

definition source_proof :: "crypto \<Rightarrow> registry \<Rightarrow> array32 \<Rightarrow> bytes option" where
  "source_proof C R rid =
     (let has = (\<lambda>r. if signed_room_id C r = rid then Some (room_encode r) else None) in
      case find_map has (concat (map (\<lambda>(_, ch). oc_history ch) (ra_chains (rg_authority R)))) of
        Some p \<Rightarrow> Some p
      | None \<Rightarrow> find_map has (concat (map (\<lambda>(_, room). rm_record room # rm_revisions room) (rg_rooms R))))"

text \<open>The persistence guard between two local snapshots of one directory.\<close>

definition starts_with :: "'a list \<Rightarrow> 'a list \<Rightarrow> bool" where
  "starts_with xs ys \<longleftrightarrow> take (length ys) xs = ys"

definition live_at :: "registry \<Rightarrow> u64 \<Rightarrow> bool" where
  "live_at R t \<longleftrightarrow> (if t \<le> rg_last_time R then rg_last_time R - t else 0) < dp_window_seconds (rg_policy R)"

definition award_key :: "evidence \<Rightarrow> array32 \<times> array32 \<times> u64" where
  "award_key e = (aw_beneficiary (ev_award e), aw_source_owner (ev_award e), aw_activity_epoch (ev_award e))"

definition same_revision_blocked :: "registry \<Rightarrow> registry \<Rightarrow> bool" where
  "same_revision_blocked R P \<longleftrightarrow>
     rg_last_time R \<noteq> rg_last_time P \<or> rg_eligible R \<noteq> rg_eligible P \<or> rg_support R \<noteq> rg_support P
     \<or> rg_accounts R \<noteq> rg_accounts P \<or> rg_windows R \<noteq> rg_windows P
     \<or> ra_records (rg_authority R) \<noteq> ra_records (rg_authority P) \<or> length (rg_rooms R) \<noteq> length (rg_rooms P)
     \<or> length (rg_evidence R) \<le> length (rg_evidence P)
     \<or> \<not> (\<forall>e\<in>set (rg_evidence R). bt_contains (rg_support P) (award_key (snd e)))"

definition is_extension_of :: "registry \<Rightarrow> registry \<Rightarrow> bool" where
  "is_extension_of R P \<longleftrightarrow>
     rg_directory R = rg_directory P \<and> rg_realm R = rg_realm P \<and> rg_policy R = rg_policy P
     \<and> rg_revision P \<le> rg_revision R \<and> rg_last_time P \<le> rg_last_time R
     \<and> (\<forall>k\<in>set (rg_support P). bt_contains (rg_support R) (fst k))
     \<and> (\<forall>k\<in>set (rg_schedule P). bt_get (rg_schedule R) (fst k) = Some (snd k))
     \<and> \<not> (rg_revision R = rg_revision P \<and> same_revision_blocked R P)
     \<and> (\<forall>k\<in>set (ra_chains (rg_authority P)).
          (case bt_get (ra_chains (rg_authority R)) (fst k) of None \<Rightarrow> False
           | Some ch \<Rightarrow> starts_with (oc_history ch) (oc_history (snd k))))
     \<and> (\<forall>k\<in>set (rg_rooms P).
          (case bt_get (rg_rooms R) (fst k) of None \<Rightarrow> False
           | Some room \<Rightarrow> rm_record room = rm_record (snd k) \<and> rm_created_at room = rm_created_at (snd k)
               \<and> starts_with (rm_revisions room) (rm_revisions (snd k))
               \<and> \<not> (rg_revision R = rg_revision P \<and> length (rm_revisions room) \<noteq> length (rm_revisions (snd k)))))
     \<and> (\<forall>k\<in>set (rg_evidence P). bt_get (rg_evidence R) (fst k) = Some (snd k))
     \<and> (\<forall>k\<in>set (rg_accounts P).
          (case bt_get (rg_accounts R) (fst k) of None \<Rightarrow> False
           | Some a \<Rightarrow> acc_earned (snd k) \<le> acc_earned a \<and> acc_spent (snd k) \<le> acc_spent a
               \<and> acc_lifetime_slots (snd k) \<le> acc_lifetime_slots a))
     \<and> (\<forall>k\<in>set (rg_windows P).
          starts_with (filter (live_at R) (case bt_get (rg_windows R) (fst k) of None \<Rightarrow> [] | Some w \<Rightarrow> w))
            (filter (live_at R) (snd k)))"

end
