(* ===== verification/Room_Invariant.thy ===== *)
theory Room_Invariant
  imports Room_Codec Room_Registry
begin

text \<open>
  The invariant of the room directory and its preservation by every operation. \<open>chains_ok\<close>: each
  control chain is the replay of the records it retains. \<open>rooms_ok\<close>: so is each room, and slugs and
  genesis identifiers correspond. \<open>credit_ok\<close>: credit earned is the number of support awards, credit spent the
  price of the rooms held. \<open>rate_ok\<close>: the creation windows remember every creation that still counts.
\<close>

section \<open>Sequences of operations\<close>

datatype registry_op =
    OpRecord signed_room control_view u64
  | OpAwardRecord social_record control_view u64
  | OpEligible "array32 list" u64
  | OpRotate u64 "validator_member list" u64

fun registry_step :: "crypto \<Rightarrow> registry \<Rightarrow> registry_op \<Rightarrow> registry" where
  "registry_step C R (OpRecord r view now) = snd (registry_apply C R r view now)"
| "registry_step C R (OpAwardRecord r view now) = snd (registry_award R r view now)"
| "registry_step C R (OpEligible eligible now) = snd (registry_set_eligible R eligible now)"
| "registry_step C R (OpRotate start validators now) = snd (registry_apply_rotation C R start validators now)"

definition registry_run :: "crypto \<Rightarrow> registry \<Rightarrow> registry_op list \<Rightarrow> registry" where
  "registry_run C R ops = foldl (registry_step C) R ops"

section \<open>Maps\<close>

lemma bt_insert_same:
  assumes "bt_ok m" and "bt_get m k = Some v"
  shows "bt_insert k v m = m"
  by (rule btree.map_eqI) (use assms in auto)

lemma bt_insert_twice: "bt_ok m \<Longrightarrow> bt_insert k v (bt_insert k w m) = bt_insert k v m"
  by (rule btree.map_eqI) auto

definition keys_where :: "('k::linorder, 'v) btree_map \<Rightarrow> ('k \<Rightarrow> 'v \<Rightarrow> bool) \<Rightarrow> 'k set" where
  "keys_where m P = {k. \<exists>v. bt_get m k = Some v \<and> P k v}"

lemma finite_keys_where: "bt_ok m \<Longrightarrow> finite (keys_where m P)"
  by (rule finite_subset [OF _ btree.finite_keys [of m]]) (auto simp: keys_where_def)

lemma keys_where_insert:
  "bt_ok m \<Longrightarrow> keys_where (bt_insert k v m) P = (if P k v then insert k (keys_where m P) else keys_where m P - {k})"
  by (auto simp: keys_where_def split: if_splits)

lemma card_keys_insert_new:
  assumes "bt_ok m" and "bt_get m k = None"
  shows "card (keys_where (bt_insert k v m) P) = (if P k v then Suc (card (keys_where m P)) else card (keys_where m P))"
proof -
  have "k \<notin> keys_where m P" using assms(2) by (simp add: keys_where_def)
  then show ?thesis using finite_keys_where [OF assms(1), of P] by (simp add: keys_where_insert [OF assms(1)])
qed

lemma keys_where_insert_old:
  assumes "bt_ok m" and "bt_get m k = Some w" and "P k v = P k w"
  shows "keys_where (bt_insert k v m) P = keys_where m P"
  using assms by (auto simp: keys_where_def split: if_splits)

lemma card_keys_le: "bt_ok m \<Longrightarrow> card (keys_where m P) \<le> length m"
  using btree.length_entries [of m] btree.finite_keys [of m] by (auto intro!: card_mono simp: keys_where_def)

section \<open>Control chains\<close>

fun replay_chain :: "crypto \<Rightarrow> room_authority \<Rightarrow> array32 \<Rightarrow> owner_chain \<Rightarrow> signed_room list \<Rightarrow> owner_chain option" where
  "replay_chain C A owner ch [] = Some ch"
| "replay_chain C A owner ch (r # rs) =
     (case sr_body r of
        BodyControl k \<Rightarrow>
          if kc_directory k \<noteq> ra_directory A \<or> kc_realm k \<noteq> ra_realm A \<or> kc_owner k \<noteq> owner
             \<or> kc_previous k \<noteq> oc_head ch \<or> kc_sequence k \<noteq> oc_sequence ch then None
          else
            (case apply_action (signed_room_id C r) (kc_action k) ch of
               Inl _ \<Rightarrow> None
             | Inr ch \<Rightarrow> replay_chain C A owner
                 (ch\<lparr>oc_head := Some (signed_room_id C r), oc_sequence := oc_sequence ch + 1, oc_history := oc_history ch @ [r]\<rparr>) rs)
      | _ \<Rightarrow> None)"

definition chains_ok :: "crypto \<Rightarrow> room_authority \<Rightarrow> bool" where
  "chains_ok C A \<longleftrightarrow> bt_ok (ra_chains A)
     \<and> (\<forall>owner ch. bt_get (ra_chains A) owner = Some ch \<longrightarrow>
          replay_chain C A owner chain_default (oc_history ch) = Some ch \<and> length (oc_history ch) \<le> ra_records A)
     \<and> ra_records A \<le> MAX_CONTROL_RECORDS
     \<and> ra_records A = sum_list (map (\<lambda>e. length (oc_history (snd e))) (ra_chains A))"

lemma replay_chain_append:
  "replay_chain C A owner ch (xs @ ys) =
     (case replay_chain C A owner ch xs of None \<Rightarrow> None | Some ch \<Rightarrow> replay_chain C A owner ch ys)"
  by (induction xs arbitrary: ch) (auto split: room_body.split sum.split)

lemma apply_action_fields:
  "apply_action rid a ch = Inr ch' \<Longrightarrow> oc_head ch' = oc_head ch \<and> oc_sequence ch' = oc_sequence ch \<and> oc_history ch' = oc_history ch
     \<and> (bt_ok (oc_grants ch) \<longrightarrow> bt_ok (oc_grants ch'))"
  by (auto simp: apply_action_def split: create_action.splits if_splits)

lemma replay_chain_fields:
  "replay_chain C A owner ch rs = Some ch' \<Longrightarrow>
     oc_history ch' = oc_history ch @ rs \<and> oc_sequence ch' = oc_sequence ch + word_of_nat (length rs)
     \<and> (bt_ok (oc_grants ch) \<longrightarrow> bt_ok (oc_grants ch'))
     \<and> oc_head ch' = (if rs = [] then oc_head ch else Some (signed_room_id C (last rs)))
     \<and> (\<forall>r\<in>set rs. \<exists>k. sr_body r = BodyControl k \<and> kc_owner k = owner \<and> kc_directory k = ra_directory A \<and> kc_realm k = ra_realm A)"
proof (induction rs arbitrary: ch)
  case (Cons r rs)
  then obtain k ch1 where r: "sr_body r = BodyControl k" "kc_owner k = owner" "kc_directory k = ra_directory A" "kc_realm k = ra_realm A"
    "apply_action (signed_room_id C r) (kc_action k) ch = Inr ch1"
    "replay_chain C A owner (ch1\<lparr>oc_head := Some (signed_room_id C r), oc_sequence := oc_sequence ch1 + 1,
        oc_history := oc_history ch1 @ [r]\<rparr>) rs = Some ch'"
    by (auto split: room_body.splits if_splits sum.splits)
  note IH = Cons.IH [OF r(6)] and f = apply_action_fields [OF r(5)]
  show ?case using IH f r(1-4) by (auto simp: add.assoc split: if_splits)
qed simp

definition chain_of :: "room_authority \<Rightarrow> array32 \<Rightarrow> owner_chain" where
  "chain_of A owner = (case bt_get (ra_chains A) owner of None \<Rightarrow> chain_default | Some ch \<Rightarrow> ch)"

lemma sum_bt_insert:
  "bt_ok m \<Longrightarrow> sum_list (map (\<lambda>e. f (snd e)) (bt_insert k v m)) + (case bt_get m k of None \<Rightarrow> 0 | Some w \<Rightarrow> f w)
     = sum_list (map (\<lambda>e. f (snd e)) m) + (f v :: nat)"
proof (induction m)
  case (Cons e m)
  have "bt_get m k = None" if "\<not> fst e < k"
  proof (rule ccontr)
    assume "bt_get m k \<noteq> None"
    then have "k \<in> fst ` set m" using btree.keys_get [of m k] Cons.prems by (simp add: bt_ok_Cons)
    then show False using Cons.prems that by (auto simp: bt_ok_Cons)
  qed
  then show ?case using Cons by (cases e) (auto simp: bt_get_def bt_ok_Cons split: option.splits)
qed (simp add: bt_get_def)

lemma replay_chain_cong:
  "ra_directory A' = ra_directory A \<Longrightarrow> ra_realm A' = ra_realm A \<Longrightarrow> replay_chain C A' owner ch rs = replay_chain C A owner ch rs"
  by (induction rs arbitrary: ch) (auto split: room_body.split sum.split)

lemma chain_of_ok:
  assumes "chains_ok C A"
  shows "replay_chain C A owner chain_default (oc_history (chain_of A owner)) = Some (chain_of A owner)"
    "length (oc_history (chain_of A owner)) \<le> ra_records A"
    "oc_sequence (chain_of A owner) = word_of_nat (length (oc_history (chain_of A owner)))"
proof -
  show 1: "replay_chain C A owner chain_default (oc_history (chain_of A owner)) = Some (chain_of A owner)"
    and "length (oc_history (chain_of A owner)) \<le> ra_records A"
    using assms by (auto simp: chain_of_def chains_ok_def chain_default_def split: option.split)
  show "oc_sequence (chain_of A owner) = word_of_nat (length (oc_history (chain_of A owner)))"
    using replay_chain_fields [OF 1] by (simp add: chain_default_def)
qed

lemma chain_entry_ok:
  assumes "chains_ok C A" and "chain_entry A owner = (A', ch)"
  shows "chains_ok C A' \<and> ch = chain_of A owner \<and> chain_of A' = chain_of A \<and> bt_get (ra_chains A') owner = Some ch
    \<and> ra_directory A' = ra_directory A \<and> ra_realm A' = ra_realm A \<and> ra_records A' = ra_records A
    \<and> (\<forall>o'. bt_get (ra_chains A) o' \<noteq> None \<longrightarrow> bt_get (ra_chains A') o' = bt_get (ra_chains A) o')"
proof (cases "bt_get (ra_chains A) owner")
  case None
  then have A': "A' = A\<lparr>ra_chains := bt_insert owner chain_default (ra_chains A)\<rparr>" "ch = chain_default" using assms(2) by (simp_all add: chain_entry_def)
  have ok: "bt_ok (ra_chains A)" using assms(1) by (simp add: chains_ok_def)
  have "sum_list (map (\<lambda>e. length (oc_history (snd e))) (bt_insert owner chain_default (ra_chains A)))
      = sum_list (map (\<lambda>e. length (oc_history (snd e))) (ra_chains A))"
    using sum_bt_insert [OF ok, of "\<lambda>ch. length (oc_history ch)" owner chain_default] None by (simp add: chain_default_def)
  then have "chains_ok C A'"
    using assms(1) ok replay_chain_cong [of A' A C] unfolding chains_ok_def A' by (auto simp: chain_default_def split: if_splits)
  then show ?thesis using None ok A' by (auto simp: chain_of_def fun_eq_iff)
next
  case (Some c)
  then show ?thesis using assms by (auto simp: chain_entry_def chain_of_def)
qed

lemma put_chain_ok:
  assumes "chains_ok C A" and k: "sr_body r = BodyControl k" "kc_directory k = ra_directory A" "kc_realm k = ra_realm A"
    "kc_previous k = oc_head (chain_of A (kc_owner k))" "kc_sequence k = oc_sequence (chain_of A (kc_owner k))"
    and a: "apply_action (signed_room_id C r) (kc_action k) (chain_of A (kc_owner k)) = Inr ch"
    and cap: "ra_records A < MAX_CONTROL_RECORDS"
    and A': "A' = (put_chain (kc_owner k) (ch\<lparr>oc_head := Some (signed_room_id C r), oc_sequence := oc_sequence ch + 1,
       oc_history := oc_history ch @ [r]\<rparr>) A)\<lparr>ra_records := ra_records A + 1\<rparr>"
  shows "chains_ok C A'"
proof -
  define o' where "o' = kc_owner k"
  define new where "new = ch\<lparr>oc_head := Some (signed_room_id C r), oc_sequence := oc_sequence ch + 1, oc_history := oc_history ch @ [r]\<rparr>"
  have A2: "ra_chains A' = bt_insert o' new (ra_chains A)" "ra_records A' = ra_records A + 1"
    "ra_directory A' = ra_directory A" "ra_realm A' = ra_realm A" by (simp_all add: A' put_chain_def new_def o'_def)
  have ok: "bt_ok (ra_chains A)" using assms(1) by (simp add: chains_ok_def)
  have h: "oc_history ch = oc_history (chain_of A o')" using apply_action_fields [OF a] by (simp add: o'_def)
  have "replay_chain C A o' chain_default (oc_history (chain_of A o') @ [r]) = Some new"
    unfolding replay_chain_append using chain_of_ok(1) [OF assms(1), of o'] k a by (simp add: o'_def new_def)
  then have replay: "replay_chain C A o' chain_default (oc_history new) = Some new" by (simp add: new_def h)
  have len: "length (oc_history new) \<le> ra_records A + 1" using chain_of_ok(2) [OF assms(1), of o'] by (simp add: new_def h)
  have "sum_list (map (\<lambda>e. length (oc_history (snd e))) (bt_insert o' new (ra_chains A)))
      = sum_list (map (\<lambda>e. length (oc_history (snd e))) (ra_chains A)) + 1"
    using sum_bt_insert [OF ok, of "\<lambda>ch. length (oc_history ch)" o' new] h
    by (auto simp: new_def chain_of_def chain_default_def split: option.splits)
  moreover have "replay_chain C A' = replay_chain C A"
    using replay_chain_cong [OF A2(3,4)] by (simp add: fun_eq_iff)
  ultimately show ?thesis
    using assms(1) cap ok replay len unfolding chains_ok_def A2 by (auto simp: le_Suc_eq split: if_splits)
qed

text \<open>A refused control record changes no chain, up to an empty entry.\<close>

lemma commit_control_step:
  assumes ok: "chains_ok C A" and c: "commit_control C A r = (res, A')"
  shows "chains_ok C A' \<and> ra_directory A' = ra_directory A \<and> ra_realm A' = ra_realm A
    \<and> (\<forall>owner. bt_get (ra_chains A) owner \<noteq> None \<longrightarrow> bt_get (ra_chains A') owner \<noteq> None)
    \<and> (case res of
         Inl e \<Rightarrow> chain_of A' = chain_of A \<and> ra_records A' = ra_records A
       | Inr _ \<Rightarrow> ra_records A' = ra_records A + 1
           \<and> (\<exists>k. sr_body r = BodyControl k \<and> kc_directory k = ra_directory A \<and> kc_realm k = ra_realm A
               \<and> kc_previous k = oc_head (chain_of A (kc_owner k))
               \<and> kc_sequence k = word_of_nat (length (oc_history (chain_of A (kc_owner k))))
               \<and> oc_history (chain_of A' (kc_owner k)) = oc_history (chain_of A (kc_owner k)) @ [r]
               \<and> (\<forall>owner. owner \<noteq> kc_owner k \<longrightarrow> chain_of A' owner = chain_of A owner)))"
proof (cases "\<exists>k. sr_body r = BodyControl k \<and> kc_directory k = ra_directory A \<and> kc_realm k = ra_realm A \<and> ra_records A < MAX_CONTROL_RECORDS")
  case False
  then have "A' = A \<and> (\<exists>e. res = Inl e)" using c by (auto simp: commit_control_def not_less split: room_body.splits if_splits)
  then show ?thesis using ok by auto
next
  case True
  then obtain k where k: "sr_body r = BodyControl k" "kc_directory k = ra_directory A" "kc_realm k = ra_realm A" "ra_records A < MAX_CONTROL_RECORDS"
    by blast
  obtain A1 ch where e: "chain_entry A (kc_owner k) = (A1, ch)" by fastforce
  note en = chain_entry_ok [OF ok e]
  show ?thesis
  proof (cases "kc_previous k = oc_head ch \<and> kc_sequence k = oc_sequence ch \<and> (\<exists>ch1. apply_action (signed_room_id C r) (kc_action k) ch = Inr ch1)")
    case False
    then have "A' = A1 \<and> (\<exists>e. res = Inl e)"
      using c k e by (auto simp: commit_control_def not_le split: if_splits sum.splits)
    then show ?thesis using en by auto
  next
    case True
    then obtain ch1 where t: "kc_previous k = oc_head ch" "kc_sequence k = oc_sequence ch" "apply_action (signed_room_id C r) (kc_action k) ch = Inr ch1"
      by blast
    note f = apply_action_fields [OF t(3)]
    have "length (oc_history (chain_of A (kc_owner k))) < 4096" using chain_of_ok(2) [OF ok] k(4) by (auto simp: MAX_CONTROL_RECORDS_def intro: le_less_trans)
    then have sq: "oc_sequence ch1 = word_of_nat (length (oc_history (chain_of A (kc_owner k))))" "unat (oc_sequence ch1) < 4096"
      using f chain_of_ok(3) [OF ok] en by (simp_all add: unat_of_nat)
    then have "checked_add (oc_sequence ch1) 1 = Some (oc_sequence ch1 + 1)" by (simp add: checked_add_def)
    then have res: "res = Inr ()" "A' = (put_chain (kc_owner k) (ch1\<lparr>oc_head := Some (signed_room_id C r), oc_sequence := oc_sequence ch1 + 1,
       oc_history := oc_history ch1 @ [r]\<rparr>) A1)\<lparr>ra_records := ra_records A1 + 1\<rparr>"
      using c k e t f by (simp_all add: commit_control_def not_le)
    have "chains_ok C A'"
      by (rule put_chain_ok [of C A1 r k]) (use k t en res in simp_all)
    moreover have "chain_of A' owner = (if owner = kc_owner k then ch1\<lparr>oc_head := Some (signed_room_id C r), oc_sequence := oc_sequence ch1 + 1,
       oc_history := oc_history ch1 @ [r]\<rparr> else chain_of A owner)" for owner
    proof -
      have "bt_ok (ra_chains A1)" using en by (simp add: chains_ok_def)
      then have "chain_of A' owner = (if owner = kc_owner k then ch1\<lparr>oc_head := Some (signed_room_id C r), oc_sequence := oc_sequence ch1 + 1,
         oc_history := oc_history ch1 @ [r]\<rparr> else chain_of A1 owner)"
        by (simp add: chain_of_def res(2) put_chain_def)
      then show ?thesis using en by simp
    qed
    moreover have "bt_get (ra_chains A') owner \<noteq> None" if "bt_get (ra_chains A) owner \<noteq> None" for owner
      using that en res(2) by (auto simp: put_chain_def chains_ok_def)
    ultimately show ?thesis using k t f en res sq chain_of_ok(3) [OF ok] by (auto simp: put_chain_def)
  qed
qed

lemma authority_admit_cases:
  assumes "authority_admit C A r view now = (res, A')"
  shows "A' = A \<and> (\<exists>e. res = Inl e) \<or> commit_control C A r = (res, A')"
proof (cases "sr_body r")
  case (BodyControl k)
  show ?thesis
  proof (cases "check_control_claims A view now k")
    case (Inl e)
    then have "(Inl e, A) = (res, A')" using assms BodyControl by (simp add: authority_admit_def)
    then show ?thesis by auto
  next
    case (Inr u)
    then show ?thesis using assms BodyControl by (simp add: authority_admit_def)
  qed
qed (use assms in \<open>auto simp: authority_admit_def\<close>)

section \<open>Rooms\<close>

fun replay_room :: "crypto \<Rightarrow> registry \<Rightarrow> room \<Rightarrow> signed_room list \<Rightarrow> room option" where
  "replay_room C R room [] = Some room"
| "replay_room C R room (r # rs) =
     (case sr_body r of
        BodyUpdate u \<Rightarrow>
          if rm_archived room \<or> ru_directory u \<noteq> rg_directory R \<or> ru_realm u \<noteq> rg_realm R \<or> ru_genesis u \<noteq> rm_genesis room
             \<or> ru_owner u \<noteq> ci_owner (rm_intent room) \<or> ru_previous u \<noteq> rm_head room then None
          else replay_room C R (revise_room C r (ru_action u) room) rs
      | _ \<Rightarrow> None)"

definition room_ok :: "crypto \<Rightarrow> registry \<Rightarrow> bytes \<Rightarrow> room \<Rightarrow> bool" where
  "room_ok C R slug room \<longleftrightarrow>
     sr_body (rm_record room) = BodyCreate (rm_intent room) \<and> ci_slug (rm_intent room) = slug
     \<and> ci_directory (rm_intent room) = rg_directory R \<and> ci_realm (rm_intent room) = rg_realm R
     \<and> rm_genesis room = room_genesis_id C (rm_intent room)
     \<and> bt_get (rg_by_genesis R) (rm_genesis room) = Some slug
     \<and> rm_created_at room \<le> rg_last_time R \<and> length (rm_revisions room) \<le> MAX_REVISIONS
     \<and> replay_room C R (fresh_room C (rm_record room) (rm_genesis room) (rm_intent room) (rm_created_at room)) (rm_revisions room) = Some room"

definition rooms_ok :: "crypto \<Rightarrow> registry \<Rightarrow> bool" where
  "rooms_ok C R \<longleftrightarrow> bt_ok (rg_rooms R) \<and> bt_ok (rg_by_genesis R) \<and> length (rg_rooms R) \<le> MAX_ROOMS
     \<and> (\<forall>slug room. bt_get (rg_rooms R) slug = Some room \<longrightarrow> room_ok C R slug room)
     \<and> (\<forall>g slug. bt_get (rg_by_genesis R) g = Some slug \<longrightarrow> (\<exists>room. bt_get (rg_rooms R) slug = Some room \<and> rm_genesis room = g))"

lemma replay_room_append:
  "replay_room C R room (xs @ ys) = (case replay_room C R room xs of None \<Rightarrow> None | Some room \<Rightarrow> replay_room C R room ys)"
  by (induction xs arbitrary: room) (auto split: room_body.split)

lemma replay_room_cong:
  "rg_directory R' = rg_directory R \<Longrightarrow> rg_realm R' = rg_realm R \<Longrightarrow> replay_room C R' = replay_room C R"
proof (intro ext)
  fix room rs
  assume "rg_directory R' = rg_directory R" "rg_realm R' = rg_realm R"
  then show "replay_room C R' room rs = replay_room C R room rs" by (induction rs arbitrary: room) (auto split: room_body.split)
qed

lemma revise_room_fields [simp]:
  "rm_genesis (revise_room C r a room) = rm_genesis room" "rm_intent (revise_room C r a room) = rm_intent room"
  "rm_created_at (revise_room C r a room) = rm_created_at room" "rm_record (revise_room C r a room) = rm_record room"
  "rm_head (revise_room C r a room) = signed_room_id C r" "rm_revisions (revise_room C r a room) = rm_revisions room @ [r]"
  by (simp_all add: revise_room_def split: update_action.split)

lemma fresh_room_fields [simp]:
  "rm_genesis (fresh_room C r g i t) = g" "rm_intent (fresh_room C r g i t) = i" "rm_created_at (fresh_room C r g i t) = t"
  "rm_record (fresh_room C r g i t) = r" "rm_revisions (fresh_room C r g i t) = []" "rm_archived (fresh_room C r g i t) = False"
  "rm_head (fresh_room C r g i t) = signed_room_id C r" "rm_description (fresh_room C r g i t) = ci_description i"
  by (simp_all add: fresh_room_def)

section \<open>Credit and rate\<close>

definition held_by_owner :: "array32 \<Rightarrow> bytes \<Rightarrow> room \<Rightarrow> bool" where
  "held_by_owner owner slug room \<longleftrightarrow> ci_owner (rm_intent room) = owner"

definition rooms_of :: "registry \<Rightarrow> array32 \<Rightarrow> bytes set" where
  "rooms_of R owner = keys_where (rg_rooms R) (held_by_owner owner)"

definition support_of :: "registry \<Rightarrow> array32 \<Rightarrow> (array32 \<times> array32 \<times> u64) set" where
  "support_of R owner = keys_where (rg_support R) (\<lambda>k _. fst k = owner)"

definition price :: "directory_policy \<Rightarrow> nat \<Rightarrow> nat" where
  "price p n = (\<Sum>k\<in>{1..n}. unat (dp_base_cost p) * k * k)"

definition credit_ok :: "registry \<Rightarrow> bool" where
  "credit_ok R \<longleftrightarrow> bt_ok (rg_accounts R) \<and> bt_ok (rg_support R) \<and> length (rg_accounts R) \<le> MAX_OWNERS
     \<and> length (rg_support R) \<le> MAX_SUPPORT
     \<and> (\<forall>owner. let a = account_of R owner in
          card (rooms_of R owner) = unat (acc_lifetime_slots a)
          \<and> unat (acc_spent a) = price (rg_policy R) (unat (acc_lifetime_slots a))
          \<and> unat (acc_earned a) = card (support_of R owner)
          \<and> acc_spent a \<le> acc_earned a)"

definition created_from :: "u64 \<Rightarrow> array32 \<Rightarrow> bytes \<Rightarrow> room \<Rightarrow> bool" where
  "created_from t owner slug room \<longleftrightarrow> ci_owner (rm_intent room) = owner \<and> t \<le> rm_created_at room"

definition created_between :: "u64 \<Rightarrow> nat \<Rightarrow> array32 \<Rightarrow> bytes \<Rightarrow> room \<Rightarrow> bool" where
  "created_between t seconds owner slug room \<longleftrightarrow>
     ci_owner (rm_intent room) = owner \<and> t \<le> rm_created_at room \<and> unat (rm_created_at room) < unat t + seconds"

definition window_of :: "registry \<Rightarrow> array32 \<Rightarrow> u64 list" where
  "window_of R owner = (case bt_get (rg_windows R) owner of None \<Rightarrow> [] | Some w \<Rightarrow> w)"

definition rate_ok :: "registry \<Rightarrow> bool" where
  "rate_ok R \<longleftrightarrow> bt_ok (rg_windows R)
     \<and> (\<forall>owner w. bt_get (rg_windows R) owner = Some w \<longrightarrow>
          w \<noteq> [] \<and> length w \<le> unat (dp_max_in_window (rg_policy R)) \<and> (\<forall>t\<in>set w. t \<le> rg_last_time R)
          \<and> bt_get (rg_accounts R) owner \<noteq> None)
     \<and> (\<forall>owner t. unat (rg_last_time R) < unat t + unat (dp_window_seconds (rg_policy R)) \<longrightarrow>
          card (keys_where (rg_rooms R) (created_from t owner)) = length (filter (\<lambda>x. t \<le> x) (window_of R owner)))
     \<and> (\<forall>owner t. card (keys_where (rg_rooms R) (created_between t (unat (dp_window_seconds (rg_policy R))) owner))
          \<le> unat (dp_max_in_window (rg_policy R)))"

section \<open>Evidence and the validator schedule\<close>

definition evidence_ok :: "registry \<Rightarrow> bool" where
  "evidence_ok R \<longleftrightarrow> bt_ok (rg_evidence R) \<and> length (rg_evidence R) \<le> MAX_SUPPORT
     \<and> (\<forall>i e. bt_get (rg_evidence R) i = Some e \<longrightarrow> sl_id (ev_record e) = i \<and> aw_evidence_id (ev_award e) = i
          \<and> aw_source_owner (ev_award e) \<noteq> aw_beneficiary (ev_award e)
          \<and> (\<exists>post. sl_content (ev_record e) = UpReaction (aw_source_owner (ev_award e)) post))
     \<and> (\<forall>k. bt_contains (rg_support R) k \<longleftrightarrow> (\<exists>i e. bt_get (rg_evidence R) i = Some e \<and> award_key e = k))"

definition validators_ok :: "crypto \<Rightarrow> validator_member list \<Rightarrow> bool" where
  "validators_ok C ms \<longleftrightarrow> ms \<noteq> [] \<and> length ms \<le> MAX_VALIDATORS \<and> sorted_wrt (<) (map vm_key ms)
     \<and> (\<forall>m\<in>set ms. vm_power m \<noteq> 0 \<and> key_point C (vm_key m))
     \<and> sum_list (map (\<lambda>m. unat (vm_power m)) ms) \<le> (2 ^ 64 - 1) div 3"

definition schedule_ok :: "crypto \<Rightarrow> registry \<Rightarrow> bool" where
  "schedule_ok C R \<longleftrightarrow> bt_ok (rg_schedule R) \<and> length (rg_schedule R) \<le> MAX_ROTATIONS
     \<and> (\<forall>h ms. bt_get (rg_schedule R) h = Some ms \<longrightarrow> validators_ok C ms)"

definition registry_ok :: "crypto \<Rightarrow> registry \<Rightarrow> bool" where
  "registry_ok C R \<longleftrightarrow> policy_validate (rg_policy R) = Inr ()
     \<and> ra_directory (rg_authority R) = rg_directory R \<and> ra_realm (rg_authority R) = rg_realm R
     \<and> bt_ok (rg_eligible R) \<and> length (rg_eligible R) \<le> MAX_OWNERS
     \<and> chains_ok C (rg_authority R) \<and> rooms_ok C R \<and> credit_ok R \<and> rate_ok R \<and> evidence_ok R \<and> schedule_ok C R"

section \<open>A new directory\<close>

lemma length_fold_set: "bt_ok m \<Longrightarrow> length (fold (\<lambda>x. bt_insert x ()) xs m) \<le> length m + length xs"
proof (induction xs arbitrary: m)
  case (Cons x xs)
  have "length (fold (\<lambda>x. bt_insert x ()) xs (bt_insert x () m)) \<le> length (bt_insert x () m) + length xs"
    by (rule Cons.IH) (use Cons.prems in simp)
  then show ?case using btree.length_insert [OF Cons.prems, of x "()"] by (auto split: if_splits)
qed simp

lemma set_of_ok: "bt_ok (set_of xs) \<and> length (set_of xs) \<le> length xs"
  using length_fold_set [of bt_new xs] bt_ok_fold_insert [of bt_new "\<lambda>x. x" "\<lambda>_. ()" xs] by (simp add: set_of_def bt_new_def bt_ok_def)

lemma keys_where_new [simp]: "keys_where bt_new P = {}"
  by (simp add: keys_where_def)

lemma price_0 [simp]: "price p 0 = 0"
  by (simp add: price_def)

lemma price_Suc: "price p (Suc n) = price p n + unat (dp_base_cost p) * Suc n * Suc n"
  by (simp add: price_def)

lemma registry_new_ok:
  assumes "registry_new d realm p eligible = Inr R"
  shows "registry_ok C R"
proof -
  have v: "policy_validate p = Inr ()" "length eligible \<le> MAX_OWNERS" and R: "R = \<lparr>rg_directory = d, rg_realm = realm, rg_policy = p,
      rg_authority = authority_new d realm, rg_eligible = set_of eligible, rg_support = bt_new, rg_evidence = bt_new, rg_accounts = bt_new,
      rg_windows = bt_new, rg_rooms = bt_new, rg_by_genesis = bt_new, rg_schedule = bt_new, rg_last_time = 0, rg_revision = 0\<rparr>"
    using assms by (auto simp: registry_new_def)
  have z: "length (bt_new :: ('k, 'v) btree_map) = 0" by (simp add: bt_new_def)
  have "credit_ok R" by (simp add: credit_ok_def R account_of_def account_default_def rooms_of_def support_of_def z Let_def)
  moreover have "rate_ok R" by (simp add: rate_ok_def R window_of_def)
  moreover have "chains_ok C (rg_authority R)"
    using z by (simp add: chains_ok_def R authority_new_def bt_new_def bt_get_def bt_ok_def)
  moreover have "rooms_ok C R" "evidence_ok R" "schedule_ok C R"
    by (simp_all add: rooms_ok_def evidence_ok_def schedule_ok_def R z bt_contains_def)
  ultimately show ?thesis
    using v set_of_ok [of eligible] by (simp add: registry_ok_def R authority_new_def)
qed

section \<open>The clock advances\<close>

lemma advance_ok:
  assumes ok: "registry_ok C R" and "rg_last_time R \<le> now"
  shows "registry_ok C (R\<lparr>rg_last_time := now, rg_revision := v\<rparr>)"
proof -
  let ?R = "R\<lparr>rg_last_time := now, rg_revision := v\<rparr>"
  have t: "unat (rg_last_time R) \<le> unat now" using assms(2) by (simp add: word_le_nat_alt)
  have "replay_room C ?R = replay_room C R" by (rule replay_room_cong) simp_all
  then have "room_ok C ?R slug room" if "room_ok C R slug room" for slug room
    using that assms(2) by (auto simp: room_ok_def)
  then have "rooms_ok C ?R" using ok by (simp add: registry_ok_def rooms_ok_def)
  moreover have "credit_ok ?R" using ok by (simp add: registry_ok_def credit_ok_def account_of_def rooms_of_def support_of_def)
  moreover have "rate_ok ?R"
    using ok t assms(2) unfolding registry_ok_def rate_ok_def by (auto simp: window_of_def dest: order_trans)
  moreover have "evidence_ok ?R" "schedule_ok C ?R" using ok by (simp_all add: registry_ok_def evidence_ok_def schedule_ok_def)
  ultimately show ?thesis using ok by (simp add: registry_ok_def)
qed

lemma bump_ok:
  assumes "registry_ok C R" and "rg_last_time R \<le> now" and "bump_revision x now R = (res, R')"
  shows "registry_ok C R' \<and> rg_last_time R' = now \<and> R' = R\<lparr>rg_last_time := now, rg_revision := rg_revision R'\<rparr>
    \<and> (rg_revision R \<noteq> - 1 \<longrightarrow> res = Inr x \<and> rg_revision R' = rg_revision R + 1) \<and> (rg_revision R = - 1 \<longrightarrow> rg_revision R' = - 1)"
proof (cases "checked_add (rg_revision R) 1")
  case None
  then have "rg_revision R = - 1" by (simp add: checked_add_one_None)
  moreover have e: "R\<lparr>rg_last_time := now, rg_revision := rg_revision R\<rparr> = R\<lparr>rg_last_time := now\<rparr>" by (cases R) simp
  moreover have "registry_ok C (R\<lparr>rg_last_time := now\<rparr>)" using advance_ok [OF assms(1,2), of "rg_revision R"] unfolding e .
  ultimately show ?thesis using None assms(3) by (auto simp: bump_revision_def)
next
  case (Some v)
  then have "rg_revision R \<noteq> - 1" "v = rg_revision R + 1" using checked_add_one_None [of "rg_revision R"] by (auto simp: checked_add_def split: if_splits)
  then show ?thesis using Some assms advance_ok [OF assms(1,2), of v] by (auto simp: bump_revision_def)
qed

section \<open>Creation\<close>

lemma checked_mul_iff: "checked_mul a b = Some c \<longleftrightarrow> unat a * unat b = unat (c :: 'a::len word)"
proof
  assume "checked_mul a b = Some c"
  then show "unat a * unat b = unat c" by (auto simp: checked_mul_def unat_times_noloss split: if_splits)
next
  assume c: "unat a * unat b = unat c"
  then have "unat a * unat b < 2 ^ LENGTH('a)" using unsigned_less [of c, where 'a = nat] by simp
  moreover from this have "unat (a * b) = unat c" using c by (simp add: unat_times_noloss)
  ultimately show "checked_mul a b = Some c" by (simp add: checked_mul_def word_unat_eq_iff)
qed

lemma unat_ucast_32 [simp]: "unat (ucast (s :: u32) :: u64) = unat s"
proof -
  have "unat s < 2 ^ 32" using unsigned_less [of s, where 'a = nat] by simp
  then show ?thesis by (simp add: unsigned_ucast_eq take_bit_nat_eq_self)
qed

lemma slot_cost_iff:
  "slot_cost p s = Inr c \<longleftrightarrow> s \<noteq> 0 \<and> s \<le> dp_max_lifetime_rooms p \<and> unat (dp_base_cost p) * unat s * unat s = unat c"
proof -
  have "(\<exists>v :: u64. unat (dp_base_cost p) * unat s = unat v \<and> unat v * unat s = unat c) \<longleftrightarrow> unat (dp_base_cost p) * unat s * unat s = unat c" if "s \<noteq> 0"
  proof
    assume e: "unat (dp_base_cost p) * unat s * unat s = unat c"
    have "0 < unat s" using that by (simp add: unat_gt_0)
    then have "unat (dp_base_cost p) * unat s \<le> unat c" unfolding e [symmetric] by simp
    then have "unat (dp_base_cost p) * unat s < 2 ^ 64" using unsigned_less [of c, where 'a = nat] by simp
    then have "unat (dp_base_cost p) * unat (ucast s :: u64) = unat (dp_base_cost p * ucast s)" by (simp add: unat_times_noloss)
    then show "\<exists>v :: u64. unat (dp_base_cost p) * unat s = unat v \<and> unat v * unat s = unat c"
      using e by (intro exI [of _ "dp_base_cost p * ucast s"]) simp
  qed auto
  moreover have "slot_cost p s = Inr c \<longleftrightarrow> s \<noteq> 0 \<and> s \<le> dp_max_lifetime_rooms p
      \<and> (\<exists>v. checked_mul (dp_base_cost p) (ucast s) = Some v \<and> checked_mul v (ucast s) = Some c)"
    by (auto simp: slot_cost_def not_less split: option.split)
  ultimately show ?thesis unfolding checked_mul_iff by auto
qed

definition created_state :: "crypto \<Rightarrow> registry \<Rightarrow> signed_room \<Rightarrow> creation_intent \<Rightarrow> u64 \<Rightarrow> u32 \<Rightarrow> u64 \<Rightarrow> registry" where
  "created_state C R r i now slot spent =
     R\<lparr>rg_windows := bt_insert (ci_owner i) (dropWhile (expired R now) (window_of R (ci_owner i)) @ [now]) (rg_windows R),
       rg_rooms := bt_insert (ci_slug i) (fresh_room C r (room_genesis_id C i) i now) (rg_rooms R),
       rg_by_genesis := bt_insert (room_genesis_id C i) (ci_slug i) (rg_by_genesis R),
       rg_accounts := bt_insert (ci_owner i) ((account_of R (ci_owner i))\<lparr>acc_spent := spent, acc_lifetime_slots := slot\<rparr>) (rg_accounts R)\<rparr>"

text \<open>When creation is allowed, besides the creation window.\<close>

definition may_create :: "crypto \<Rightarrow> registry \<Rightarrow> creation_intent \<Rightarrow> control_view \<Rightarrow> u64 \<Rightarrow> bool" where
  "may_create C R i view now \<longleftrightarrow>
     ci_policy i = directory_policy_id C (rg_policy R) \<and> assess_creation (rg_authority R) i view now = Inr ()
     \<and> bt_get (rg_rooms R) (ci_slug i) = None \<and> length (rg_rooms R) < MAX_ROOMS
     \<and> (bt_get (rg_accounts R) (ci_owner i) = None \<longrightarrow> length (rg_accounts R) < MAX_OWNERS)
     \<and> ci_slot i \<le> dp_max_lifetime_rooms (rg_policy R)
     \<and> unat (ci_slot i) = unat (acc_lifetime_slots (account_of R (ci_owner i))) + 1
     \<and> unat (ci_charge i) = unat (dp_base_cost (rg_policy R)) * unat (ci_slot i) * unat (ci_slot i)
     \<and> unat (acc_spent (account_of R (ci_owner i))) + unat (ci_charge i) \<le> unat (acc_earned (account_of R (ci_owner i)))"

lemma checked_add_nat: "checked_add a b = Some c \<longleftrightarrow> unat a + unat b = unat (c :: 'a::len word)"
proof
  assume "checked_add a b = Some c"
  then show "unat a + unat b = unat c" by (auto simp: checked_add_def unat_plus_noloss split: if_splits)
next
  assume c: "unat a + unat b = unat c"
  then have "unat a + unat b < 2 ^ LENGTH('a)" using unsigned_less [of c, where 'a = nat] by simp
  moreover from this have "unat (a + b) = unat c" using c by (simp add: unat_plus_noloss)
  ultimately show "checked_add a b = Some c" by (simp add: checked_add_def word_unat_eq_iff)
qed

lemma unat_one_32 [simp]: "unat (1 :: u32) = 1" "unat (1 :: u64) = 1"
  by simp_all

lemma create_checks_iff:
  "create_checks C R g i view now = Inr (slot, spent) \<longleftrightarrow>
     may_create C R i view now \<and> slot = ci_slot i \<and> unat spent = unat (acc_spent (account_of R (ci_owner i))) + unat (ci_charge i)"
  (is "?l \<longleftrightarrow> ?r")
proof
  assume ?l
  then show ?r
    by (auto simp: create_checks_def may_create_def bt_contains_def checked_add_nat slot_cost_iff not_le word_le_nat_alt not_less)
next
  assume r: ?r
  then have "ci_slot i \<noteq> 0" by (auto simp: may_create_def unat_eq_zero)
  moreover have "unat spent \<le> unat (acc_earned (account_of R (ci_owner i)))" using r unfolding may_create_def by linarith
  ultimately have "checked_add (acc_lifetime_slots (account_of R (ci_owner i))) 1 = Some slot"
    "checked_add (acc_spent (account_of R (ci_owner i))) (ci_charge i) = Some spent"
    "slot_cost (rg_policy R) slot = Inr (ci_charge i)" "\<not> acc_earned (account_of R (ci_owner i)) < spent"
    using r by (simp_all add: may_create_def checked_add_nat slot_cost_iff not_less word_le_nat_alt)
  then show ?l using r by (auto simp: create_checks_def may_create_def bt_contains_def not_le)
qed

lemma window_ok:
  assumes "rate_ok R"
  shows "length (window_of R owner) \<le> unat (dp_max_in_window (rg_policy R))" "\<forall>t\<in>set (window_of R owner). t \<le> rg_last_time R"
  using assms by (cases "bt_get (rg_windows R) owner"; simp add: rate_ok_def window_of_def)+

lemma drop_full:
  assumes "rate_ok R" and "length (dropWhile P (window_of R owner)) \<ge> unat (dp_max_in_window (rg_policy R))"
  shows "dropWhile P (window_of R owner) = window_of R owner"
proof -
  have "length (takeWhile P (window_of R owner)) + length (dropWhile P (window_of R owner)) = length (window_of R owner)"
    by (simp flip: length_append)
  then have "length (takeWhile P (window_of R owner)) = 0" using assms(2) window_ok(1) [OF assms(1), of owner] by linarith
  then have "takeWhile P (window_of R owner) = []" by simp
  then show ?thesis by (metis append_Nil takeWhile_dropWhile_id)
qed

lemma policy_window_positive: "policy_validate p = Inr () \<Longrightarrow> 0 < unat (dp_max_in_window p) \<and> 0 < unat (dp_window_seconds p)"
  by (auto simp: policy_validate_def unat_gt_0)

text \<open>Creation either happens as \<open>created_state\<close> says or leaves the directory exactly as it was.\<close>

lemma registry_create_cases:
  assumes ok: "registry_ok C R" and b: "sr_body r = BodyCreate i" and c: "registry_create C R r i view now = (res, R')"
  shows "(R' = R \<and> (\<exists>e. res = Inl e) \<and> bt_get (rg_by_genesis R) (room_genesis_id C i) = None
           \<and> \<not> (may_create C R i view now
               \<and> length (dropWhile (expired R now) (window_of R (ci_owner i))) < unat (dp_max_in_window (rg_policy R))))
    \<or> (R' = R \<and> res = Inr (Existing (room_genesis_id C i)) \<and> bt_get (rg_by_genesis R) (room_genesis_id C i) \<noteq> None)
    \<or> (bt_get (rg_by_genesis R) (room_genesis_id C i) = None \<and> res = Inr (Created (room_genesis_id C i)) \<and> may_create C R i view now
        \<and> length (dropWhile (expired R now) (window_of R (ci_owner i))) < unat (dp_max_in_window (rg_policy R))
        \<and> (\<exists>spent. unat spent = unat (acc_spent (account_of R (ci_owner i))) + unat (ci_charge i)
             \<and> R' = created_state C R r i now (ci_slot i) spent))"
proof (cases "bt_get (rg_by_genesis R) (room_genesis_id C i)")
  case (Some x)
  then show ?thesis using c b by (auto simp: registry_create_def signed_genesis_id_def bt_contains_def)
next
  case None
  let ?g = "room_genesis_id C i" and ?w = "dropWhile (expired R now) (window_of R (ci_owner i))"
  have g: "signed_genesis_id C r = Some ?g" "\<not> bt_contains (rg_by_genesis R) ?g" using b None by (simp_all add: signed_genesis_id_def bt_contains_def)
  show ?thesis
  proof (cases "create_checks C R ?g i view now")
    case (Inl e)
    have "\<not> may_create C R i view now"
    proof
      assume m: "may_create C R i view now"
      then have "unat (acc_spent (account_of R (ci_owner i))) + unat (ci_charge i) \<le> unat (acc_earned (account_of R (ci_owner i)))"
        unfolding may_create_def by blast
      also have "\<dots> < 2 ^ 64" using unsigned_less [of "acc_earned (account_of R (ci_owner i))", where 'a = nat] by simp
      finally have "unat (acc_spent (account_of R (ci_owner i))) + unat (ci_charge i) < 2 ^ 64" .
      then have "unat (acc_spent (account_of R (ci_owner i)) + ci_charge i) = unat (acc_spent (account_of R (ci_owner i))) + unat (ci_charge i)"
        by (simp add: unat_plus_noloss)
      then have "create_checks C R ?g i view now = Inr (ci_slot i, acc_spent (account_of R (ci_owner i)) + ci_charge i)"
        unfolding create_checks_iff using m by simp
      then show False using Inl by simp
    qed
    then show ?thesis using c g Inl None by (auto simp: registry_create_def)
  next
    case (Inr p)
    then obtain slot spent where cc: "create_checks C R ?g i view now = Inr (slot, spent)" by (cases p) auto
    note m = this [unfolded create_checks_iff]
    have bw: "bt_ok (rg_windows R)" and r_ok: "rate_ok R" and pos: "0 < unat (dp_max_in_window (rg_policy R))"
      using ok policy_window_positive by (auto simp: registry_ok_def rate_ok_def)
    have w: "(case bt_get (rg_windows R) (ci_owner i) of None \<Rightarrow> [] | Some w \<Rightarrow> w) = window_of R (ci_owner i)" by (simp add: window_of_def)
    show ?thesis
    proof (cases "unat (dp_max_in_window (rg_policy R)) \<le> length ?w")
      case True
      note full = drop_full [OF r_ok True]
      have "bt_get (rg_windows R) (ci_owner i) = Some ?w" using True pos full by (auto simp: window_of_def split: option.splits)
      then have "R\<lparr>rg_windows := bt_insert (ci_owner i) ?w (rg_windows R)\<rparr> = R" using bt_insert_same [OF bw] by simp
      then show ?thesis using c g cc True None w by (auto simp: registry_create_def Let_def)
    next
      case False
      then have "res = Inr (Created ?g) \<and> R' = created_state C R r i now slot spent"
        using c g cc w bw by (simp add: registry_create_def Let_def created_state_def bt_insert_twice account_of_def)
      then show ?thesis using m False None by auto
    qed
  qed
qed

lemma assess_creation_scope:
  "assess_creation A i view now = Inr () \<Longrightarrow> ci_directory i = ra_directory A \<and> ci_realm i = ra_realm A"
  by (auto simp: assess_creation_def split: if_splits)

lemma created_fields [simp]:
  "rg_directory (created_state C R r i now s p) = rg_directory R" "rg_realm (created_state C R r i now s p) = rg_realm R"
  "rg_policy (created_state C R r i now s p) = rg_policy R" "rg_authority (created_state C R r i now s p) = rg_authority R"
  "rg_eligible (created_state C R r i now s p) = rg_eligible R" "rg_support (created_state C R r i now s p) = rg_support R"
  "rg_evidence (created_state C R r i now s p) = rg_evidence R" "rg_schedule (created_state C R r i now s p) = rg_schedule R"
  "rg_last_time (created_state C R r i now s p) = rg_last_time R" "rg_revision (created_state C R r i now s p) = rg_revision R"
  by (simp_all add: created_state_def)

lemma created_rooms_ok:
  assumes ok: "registry_ok C R" and now: "rg_last_time R = now" and b: "sr_body r = BodyCreate i"
    and new: "bt_get (rg_by_genesis R) (room_genesis_id C i) = None" and m: "may_create C R i view now"
  shows "rooms_ok C (created_state C R r i now slot spent)"
proof -
  let ?R = "created_state C R r i now slot spent" and ?g = "room_genesis_id C i"
  have r_ok: "rooms_ok C R" and scope: "ci_directory i = rg_directory R" "ci_realm i = rg_realm R"
    using ok m assess_creation_scope by (auto simp: registry_ok_def may_create_def)
  have bt: "bt_ok (rg_rooms R)" "bt_ok (rg_by_genesis R)" "bt_get (rg_rooms R) (ci_slug i) = None" "length (rg_rooms R) < MAX_ROOMS"
    using r_ok m by (auto simp: rooms_ok_def may_create_def)
  have R: "rg_rooms ?R = bt_insert (ci_slug i) (fresh_room C r ?g i now) (rg_rooms R)" "rg_by_genesis ?R = bt_insert ?g (ci_slug i) (rg_by_genesis R)"
    by (simp_all add: created_state_def)
  have replay: "replay_room C ?R = replay_room C R" by (rule replay_room_cong) simp_all
  have fresh: "room_ok C ?R (ci_slug i) (fresh_room C r ?g i now)"
    using b scope now bt by (simp add: room_ok_def R)
  have old: "room_ok C ?R slug room" if "bt_get (rg_rooms R) slug = Some room" for slug room
  proof -
    have "room_ok C R slug room" using r_ok that by (simp add: rooms_ok_def)
    moreover from this have "rm_genesis room \<noteq> ?g" using new by (auto simp: room_ok_def)
    ultimately show ?thesis using bt by (auto simp: room_ok_def R replay)
  qed
  have "\<exists>room. bt_get (rg_rooms ?R) slug = Some room \<and> rm_genesis room = g" if "bt_get (rg_by_genesis ?R) g = Some slug" for g slug
  proof (cases "g = ?g")
    case True
    then show ?thesis using that bt by (simp add: R)
  next
    case False
    then have "bt_get (rg_by_genesis R) g = Some slug" using that bt by (simp add: R)
    then obtain room where "bt_get (rg_rooms R) slug = Some room" "rm_genesis room = g" using r_ok unfolding rooms_ok_def by blast
    moreover from this have "slug \<noteq> ci_slug i" using bt(3) by auto
    ultimately show ?thesis using bt by (simp add: R)
  qed
  moreover have "length (rg_rooms ?R) \<le> MAX_ROOMS" using bt by (simp add: R btree.length_insert)
  moreover have "room_ok C ?R slug room" if "bt_get (rg_rooms ?R) slug = Some room" for slug room
    using that fresh old [of slug room] bt(1) by (auto simp: R split: if_splits)
  ultimately show ?thesis unfolding rooms_ok_def using bt by (simp add: R)
qed

lemma created_credit_ok:
  assumes ok: "registry_ok C R" and m: "may_create C R i view now"
    and spent: "unat spent = unat (acc_spent (account_of R (ci_owner i))) + unat (ci_charge i)"
  shows "credit_ok (created_state C R r i now (ci_slot i) spent)"
proof -
  let ?R = "created_state C R r i now (ci_slot i) spent" and ?o = "ci_owner i" and ?a = "account_of R (ci_owner i)"
  have c: "credit_ok R" and bt: "bt_ok (rg_rooms R)" "bt_get (rg_rooms R) (ci_slug i) = None" "bt_ok (rg_accounts R)"
    using ok m by (auto simp: registry_ok_def rooms_ok_def may_create_def credit_ok_def)
  have rooms: "card (rooms_of ?R o') = (if o' = ?o then Suc (card (rooms_of R o')) else card (rooms_of R o'))" for o'
    unfolding rooms_of_def created_state_def using card_keys_insert_new [OF bt(1,2)] by (auto simp: held_by_owner_def)
  have acc: "account_of ?R o' = (if o' = ?o then ?a\<lparr>acc_spent := spent, acc_lifetime_slots := ci_slot i\<rparr> else account_of R o')" for o'
    using bt(3) by (simp add: account_of_def created_state_def)
  have slot: "unat (ci_slot i) = Suc (unat (acc_lifetime_slots ?a))"
    and charge: "unat (ci_charge i) = unat (dp_base_cost (rg_policy R)) * unat (ci_slot i) * unat (ci_slot i)"
    using m unfolding may_create_def by simp_all
  have le: "unat spent \<le> unat (acc_earned ?a)" using m unfolding may_create_def spent by blast
  have old: "card (rooms_of R o') = unat (acc_lifetime_slots (account_of R o'))"
    "unat (acc_spent (account_of R o')) = price (rg_policy R) (unat (acc_lifetime_slots (account_of R o')))"
    "unat (acc_earned (account_of R o')) = card (support_of R o')" "acc_spent (account_of R o') \<le> acc_earned (account_of R o')" for o'
    using c unfolding credit_ok_def Let_def by blast+
  have "unat spent = price (rg_policy R) (unat (ci_slot i))"
    using spent charge old(2) [of ?o] by (simp add: slot price_Suc)
  moreover have "spent \<le> acc_earned ?a" using le by (simp add: word_le_nat_alt)
  moreover have "support_of ?R = support_of R" by (simp add: support_of_def fun_eq_iff)
  moreover have "length (rg_accounts ?R) \<le> MAX_OWNERS"
    using c m bt(3) by (auto simp: created_state_def btree.length_insert credit_ok_def may_create_def)
  moreover have "bt_ok (rg_accounts ?R)" using bt(3) by (simp add: created_state_def)
  ultimately show ?thesis
    using c slot old unfolding credit_ok_def Let_def rooms acc by (auto simp: rooms acc)
qed

lemma not_expired_iff:
  assumes "unat now < unat t + unat (dp_window_seconds (rg_policy R))" and "t \<le> x" and "0 < unat (dp_window_seconds (rg_policy R))"
  shows "\<not> expired R now x"
proof (cases "x \<le> now")
  case True
  then have "unat (now - x) = unat now - unat x" by (simp add: unat_minus_noloss word_le_nat_alt)
  moreover have "unat t \<le> unat x" "unat x \<le> unat now" using assms(2) True by (simp_all add: word_le_nat_alt)
  ultimately show ?thesis using True assms(1) by (simp add: expired_def word_le_nat_alt)
next
  case False
  then show ?thesis using assms(3) by (simp add: expired_def word_le_nat_alt)
qed

lemma filter_dropWhile:
  assumes "\<And>x. x \<in> set xs \<Longrightarrow> Q x \<Longrightarrow> \<not> P x"
  shows "filter Q (dropWhile P xs) = filter Q xs"
  using assms by (induction xs) auto

lemma created_rate_ok:
  assumes ok: "registry_ok C R" and now: "rg_last_time R = now" and m: "may_create C R i view now"
    and room: "length (dropWhile (expired R now) (window_of R (ci_owner i))) < unat (dp_max_in_window (rg_policy R))"
  shows "rate_ok (created_state C R r i now slot spent)"
proof -
  let ?R = "created_state C R r i now slot spent" and ?o = "ci_owner i" and ?W = "unat (dp_window_seconds (rg_policy R))"
  let ?w = "dropWhile (expired R now) (window_of R ?o)"
  have c: "rate_ok R" and rooms: "rooms_ok C R" and pos: "0 < ?W" using ok policy_window_positive by (auto simp: registry_ok_def)
  have bt: "bt_ok (rg_rooms R)" "bt_get (rg_rooms R) (ci_slug i) = None" "bt_ok (rg_windows R)" "bt_ok (rg_accounts R)"
    using ok m by (auto simp: registry_ok_def rooms_ok_def may_create_def rate_ok_def credit_ok_def)
  have from_card: "card (keys_where (rg_rooms ?R) (created_from t o'))
      = (if o' = ?o \<and> t \<le> now then Suc (card (keys_where (rg_rooms R) (created_from t o'))) else card (keys_where (rg_rooms R) (created_from t o')))" for t o'
    using card_keys_insert_new [OF bt(1,2)] by (auto simp: created_state_def created_from_def)
  have between_card: "card (keys_where (rg_rooms ?R) (created_between t ?W o'))
      = (if o' = ?o \<and> t \<le> now \<and> unat now < unat t + ?W then Suc (card (keys_where (rg_rooms R) (created_between t ?W o')))
         else card (keys_where (rg_rooms R) (created_between t ?W o')))" for t o'
    using card_keys_insert_new [OF bt(1,2)] by (auto simp: created_state_def created_between_def)
  have win: "window_of ?R o' = (if o' = ?o then ?w @ [now] else window_of R o')" for o'
    using bt(3) by (simp add: window_of_def created_state_def)
  have old_from: "card (keys_where (rg_rooms R) (created_from t o')) = length (filter (\<lambda>x. t \<le> x) (window_of R o'))"
    if "unat now < unat t + ?W" for t o'
    using c now that unfolding rate_ok_def by blast
  have keep: "filter (\<lambda>x. t \<le> x) ?w = filter (\<lambda>x. t \<le> x) (window_of R ?o)" if "unat now < unat t + ?W" for t
    by (rule filter_dropWhile) (use not_expired_iff [OF that _ pos] in blast)
  have "card (keys_where (rg_rooms ?R) (created_from t o')) = length (filter (\<lambda>x. t \<le> x) (window_of ?R o'))"
    if "unat now < unat t + ?W" for t o'
    unfolding from_card win using old_from [OF that, of o'] keep [OF that] by auto
  moreover have "card (keys_where (rg_rooms ?R) (created_between t ?W o')) \<le> unat (dp_max_in_window (rg_policy R))" for t o'
  proof (cases "o' = ?o \<and> t \<le> now \<and> unat now < unat t + ?W")
    case False
    then show ?thesis using c by (auto simp: between_card rate_ok_def)
  next
    case True
    have "created_from t o' slug room" if "created_between t ?W o' slug room" for slug room
      using that by (simp add: created_between_def created_from_def)
    then have "keys_where (rg_rooms R) (created_between t ?W o') \<subseteq> keys_where (rg_rooms R) (created_from t o')"
      by (auto simp: keys_where_def)
    then have "card (keys_where (rg_rooms R) (created_between t ?W o')) \<le> card (keys_where (rg_rooms R) (created_from t o'))"
      by (rule card_mono [OF finite_keys_where [OF bt(1)]])
    also have "\<dots> = length (filter (\<lambda>x. t \<le> x) ?w)" using True old_from keep by simp
    also have "\<dots> \<le> length ?w" by simp
    finally show ?thesis using True room by (simp add: between_card)
  qed
  moreover have "w \<noteq> [] \<and> length w \<le> unat (dp_max_in_window (rg_policy R)) \<and> (\<forall>t\<in>set w. t \<le> now) \<and> bt_get (rg_accounts ?R) o' \<noteq> None"
    if w: "bt_get (rg_windows ?R) o' = Some w" for o' w
  proof (cases "o' = ?o")
    case True
    then have "w = ?w @ [now]" using w bt(3) by (simp add: created_state_def)
    moreover have "\<forall>t\<in>set ?w. t \<le> now" using window_ok(2) [OF c, of ?o] now set_dropWhileD by fastforce
    ultimately show ?thesis using room True bt(4) by (auto simp: created_state_def)
  next
    case False
    then have "bt_get (rg_windows R) o' = Some w" using w bt(3) by (simp add: created_state_def)
    then show ?thesis using c now bt(4) False unfolding rate_ok_def by (auto simp: created_state_def)
  qed
  moreover have "bt_ok (rg_windows ?R)" using bt(3) by (simp add: created_state_def)
  ultimately show ?thesis unfolding rate_ok_def using now by simp
qed

lemma created_ok:
  assumes "registry_ok C R" and "rg_last_time R = now" and "sr_body r = BodyCreate i"
    and "bt_get (rg_by_genesis R) (room_genesis_id C i) = None" and "may_create C R i view now"
    and "length (dropWhile (expired R now) (window_of R (ci_owner i))) < unat (dp_max_in_window (rg_policy R))"
    and "unat spent = unat (acc_spent (account_of R (ci_owner i))) + unat (ci_charge i)"
  shows "registry_ok C (created_state C R r i now (ci_slot i) spent)"
proof -
  have "evidence_ok (created_state C R r i now (ci_slot i) spent)" "schedule_ok C (created_state C R r i now (ci_slot i) spent)"
    using assms(1) by (simp_all add: registry_ok_def evidence_ok_def schedule_ok_def)
  then show ?thesis
    using assms(1) created_rooms_ok [OF assms(1-5)] created_credit_ok [OF assms(1,5,7)] created_rate_ok [OF assms(1,2,5,6)]
    by (simp add: registry_ok_def)
qed

end
