(* ===== verification/Room_Steps.thy ===== *)
theory Room_Steps
  imports Room_Invariant "HOL-Library.Multiset"
begin

text \<open>
  Preservation of the directory's invariant by revisions, awards, eligibility changes and validator
  rotations, and by every sequence of operations; what each operation leaves of the state before it.
\<close>

section \<open>Revisions\<close>

definition may_update :: "registry \<Rightarrow> room_update \<Rightarrow> control_view \<Rightarrow> u64 \<Rightarrow> bytes \<Rightarrow> room \<Rightarrow> bool" where
  "may_update R u view now slug room \<longleftrightarrow>
     assess_update (rg_authority R) u view now = Inr () \<and> bt_get (rg_by_genesis R) (ru_genesis u) = Some slug
     \<and> bt_get (rg_rooms R) slug = Some room \<and> \<not> rm_archived room \<and> ci_owner (rm_intent room) = ru_owner u
     \<and> rm_head room = ru_previous u \<and> length (rm_revisions room) < MAX_REVISIONS"

lemma registry_update_cases:
  "registry_update C R r u view now = (res, R') \<Longrightarrow>
     (R' = R \<and> (\<exists>e. res = Inl e) \<and> (\<forall>slug room. \<not> may_update R u view now slug room))
   \<or> (\<exists>slug room. may_update R u view now slug room \<and> res = Inr (Updated (signed_room_id C r))
        \<and> R' = R\<lparr>rg_rooms := bt_insert slug (revise_room C r (ru_action u) room) (rg_rooms R)\<rparr>)"
proof -
  let ?checks = "bindR (map_err RegAuthority (assess_update (rg_authority R) u view now)) (\<lambda>_.
           bindR (ok_or RegMissing (bt_get (rg_by_genesis R) (ru_genesis u))) (\<lambda>slug.
           bindR (ok_or RegMissing (bt_get (rg_rooms R) slug)) (\<lambda>room.
           if rm_archived room then Inl RegArchived
           else if ci_owner (rm_intent room) \<noteq> ru_owner u then Inl RegOwnerMismatch
           else if rm_head room \<noteq> ru_previous u then Inl RegStaleRevision
           else if length (rm_revisions room) \<ge> MAX_REVISIONS then Inl RegCapacity
           else Inr (slug, room))))"
  have c: "?checks = Inr (slug, room) \<longleftrightarrow> may_update R u view now slug room" for slug room
    by (auto simp: may_update_def not_le)
  assume a: "registry_update C R r u view now = (res, R')"
  show ?thesis
  proof (cases ?checks)
    case (Inl e)
    then have "\<not> may_update R u view now slug room" for slug room using c [of slug room] by simp
    moreover have "(Inl e, R) = (res, R')" using a Inl by (simp add: registry_update_def)
    ultimately show ?thesis by auto
  next
    case (Inr p)
    obtain slug room where p: "p = (slug, room)" by (cases p)
    then have "?checks = Inr (slug, room)" using Inr by simp
    then have "may_update R u view now slug room" unfolding c .
    moreover have "(Inr (Updated (signed_room_id C r)), R\<lparr>rg_rooms := bt_insert slug (revise_room C r (ru_action u) room) (rg_rooms R)\<rparr>) = (res, R')"
      using a Inr p by (simp add: registry_update_def)
    ultimately show ?thesis by auto
  qed
qed

lemma assess_update_scope:
  "assess_update A u view now = Inr () \<Longrightarrow> ru_directory u = ra_directory A \<and> ru_realm u = ra_realm A"
  by (auto simp: assess_update_def split: if_splits)

lemma update_ok:
  assumes ok: "registry_ok C R" and b: "sr_body r = BodyUpdate u" and m: "may_update R u view now slug room"
  shows "registry_ok C (R\<lparr>rg_rooms := bt_insert slug (revise_room C r (ru_action u) room) (rg_rooms R)\<rparr>)"
proof -
  let ?new = "revise_room C r (ru_action u) room"
  let ?R = "R\<lparr>rg_rooms := bt_insert slug ?new (rg_rooms R)\<rparr>"
  have rooms: "rooms_ok C R" and scope: "ru_directory u = rg_directory R" "ru_realm u = rg_realm R"
    using ok m assess_update_scope by (auto simp: registry_ok_def may_update_def)
  have bt: "bt_ok (rg_rooms R)" "bt_ok (rg_by_genesis R)" "bt_get (rg_rooms R) slug = Some room"
    using rooms m by (auto simp: rooms_ok_def may_update_def)
  have old: "room_ok C R slug room" using rooms bt(3) by (simp add: rooms_ok_def)
  have gen: "ru_genesis u = rm_genesis room" using rooms m bt(3) unfolding rooms_ok_def may_update_def by (metis option.inject)
  have replay: "replay_room C ?R = replay_room C R" by (rule replay_room_cong) simp_all
  have "room_ok C ?R slug ?new"
    using old m b scope gen by (auto simp: room_ok_def replay replay_room_append may_update_def)
  moreover have "room_ok C ?R s x" if "bt_get (rg_rooms R) s = Some x" for s x
  proof -
    have "room_ok C R s x" using rooms that by (simp add: rooms_ok_def)
    moreover have "room_ok C ?R s x = room_ok C R s x" by (simp add: room_ok_def replay)
    ultimately show ?thesis by simp
  qed
  ultimately have "room_ok C ?R s x" if "bt_get (rg_rooms ?R) s = Some x" for s x
    using that bt by (auto split: if_splits)
  moreover have "\<exists>x. bt_get (rg_rooms ?R) s = Some x \<and> rm_genesis x = g" if "bt_get (rg_by_genesis R) g = Some s" for g s
    using that bt rooms unfolding rooms_ok_def by (cases "s = slug") fastforce+
  moreover have "length (rg_rooms ?R) \<le> MAX_ROOMS" using bt rooms by (simp add: btree.length_insert rooms_ok_def)
  ultimately have "rooms_ok C ?R" using bt unfolding rooms_ok_def by simp
  moreover have same: "keys_where (rg_rooms ?R) P = keys_where (rg_rooms R) P" if "P slug ?new = P slug room" for P
    using keys_where_insert_old [OF bt(1,3)] that by simp
  have "credit_ok ?R"
  proof -
    have "rooms_of ?R = rooms_of R" unfolding rooms_of_def by (rule ext, rule same) (simp add: held_by_owner_def)
    then show ?thesis using ok by (simp add: registry_ok_def credit_ok_def account_of_def support_of_def)
  qed
  moreover have "rate_ok ?R"
  proof -
    have "keys_where (rg_rooms ?R) (created_from t o') = keys_where (rg_rooms R) (created_from t o')"
      "keys_where (rg_rooms ?R) (created_between t n o') = keys_where (rg_rooms R) (created_between t n o')" for t n o'
      by (rule same, simp add: created_from_def created_between_def)+
    then show ?thesis using ok by (simp add: registry_ok_def rate_ok_def window_of_def)
  qed
  moreover have "evidence_ok ?R" "schedule_ok C ?R" using ok by (simp_all add: registry_ok_def evidence_ok_def schedule_ok_def)
  ultimately show ?thesis using ok by (simp add: registry_ok_def)
qed

section \<open>Awards\<close>

lemma assess_support_iff:
  "assess_support r view eligible epoch t now = Inr a \<longleftrightarrow>
     epoch \<noteq> 0 \<and> t \<le> now \<and> cv_status view (sl_id r) = SocialCommitted
     \<and> (\<exists>source post p beneficiary. sl_content r = UpReaction source post \<and> cv_archive view post = Some p
          \<and> sl_content p = OriginalPost beneficiary \<and> cv_status view post = SocialCommitted \<and> source \<noteq> beneficiary
          \<and> bt_contains eligible source
          \<and> a = \<lparr>aw_source_owner = source, aw_beneficiary = beneficiary, aw_activity_epoch = t div epoch, aw_evidence_id = sl_id r\<rparr>)"
proof (cases "sl_content r")
  case (UpReaction source post)
  show ?thesis
  proof (cases "cv_archive view post")
    case None
    then show ?thesis using UpReaction by (auto simp: assess_support_def)
  next
    case (Some p)
    then show ?thesis using UpReaction by (cases "sl_content p") (auto simp: assess_support_def not_less)
  qed
qed (auto simp: assess_support_def)

definition with_evidence :: "registry \<Rightarrow> social_record \<Rightarrow> support_award \<Rightarrow> registry" where
  "with_evidence R r award = R\<lparr>rg_evidence := bt_insert (sl_id r) \<lparr>ev_award = award, ev_record = r\<rparr> (rg_evidence R)\<rparr>"

definition with_award :: "registry \<Rightarrow> social_record \<Rightarrow> support_award \<Rightarrow> registry" where
  "with_award R r award = (with_evidence R r award)\<lparr>
     rg_support := bt_insert (aw_beneficiary award, aw_source_owner award, aw_activity_epoch award) () (rg_support R),
     rg_accounts := bt_insert (aw_beneficiary award)
       ((account_of R (aw_beneficiary award))\<lparr>acc_earned := acc_earned (account_of R (aw_beneficiary award)) + 1\<rparr>) (rg_accounts R)\<rparr>"

definition award_triple :: "support_award \<Rightarrow> array32 \<times> array32 \<times> u64" where
  "award_triple a = (aw_beneficiary a, aw_source_owner a, aw_activity_epoch a)"

lemma support_bound:
  assumes "registry_ok C R"
  shows "unat (acc_earned (account_of R owner)) \<le> MAX_SUPPORT"
proof -
  have "credit_ok R" using assms by (simp add: registry_ok_def)
  then have "unat (acc_earned (account_of R owner)) = card (support_of R owner)" "bt_ok (rg_support R)" "length (rg_support R) \<le> MAX_SUPPORT"
    unfolding credit_ok_def Let_def by blast+
  then show ?thesis using card_keys_le [of "rg_support R"] by (auto simp: support_of_def intro: le_trans)
qed

lemma registry_award_cases:
  assumes ok: "registry_ok C R" and a: "registry_award R r view now = (res, R')"
  shows "(R' = R \<and> ((\<exists>e. res = Inl e) \<or> res = Inr DuplicateAward \<and> bt_get (rg_evidence R) (sl_id r) \<noteq> None))
    \<or> (rg_last_time R \<le> now \<and> bt_get (rg_evidence R) (sl_id r) = None \<and> length (rg_evidence R) < MAX_SUPPORT
       \<and> (\<exists>award. assess_support r view (rg_eligible R) (dp_support_epoch_seconds (rg_policy R)) now now = Inr award
           \<and> (bt_contains (rg_support R) (award_triple award) \<and> res = Inr DuplicateAward \<and> R' = with_evidence R r award
              \<or> \<not> bt_contains (rg_support R) (award_triple award) \<and> length (rg_support R) < MAX_SUPPORT
                \<and> (bt_get (rg_accounts R) (aw_beneficiary award) = None \<longrightarrow> length (rg_accounts R) < MAX_OWNERS)
                \<and> bump_revision Awarded now (with_award R r award) = (res, R'))))"
proof -
  have le: "unat (acc_earned (account_of R owner)) \<le> 8192" for owner using support_bound [OF ok, of owner] by (simp add: MAX_SUPPORT_def)
  have add: "checked_add (acc_earned (account_of R owner)) 1 = Some (acc_earned (account_of R owner) + 1)" for owner
    using le [of owner] by (simp add: checked_add_def)
  show ?thesis
    using a by (simp add: registry_award_def add with_award_def with_evidence_def award_triple_def bt_contains_def Let_def not_less not_le
        split: if_splits sum.splits) auto
qed

lemma ex_insert_new:
  assumes "bt_ok m" and "bt_get m k = None"
  shows "(\<exists>i e. bt_get (bt_insert k v m) i = Some e \<and> P e) \<longleftrightarrow> P v \<or> (\<exists>i e. bt_get m i = Some e \<and> P e)"
proof
  show "\<exists>i e. bt_get (bt_insert k v m) i = Some e \<and> P e \<Longrightarrow> P v \<or> (\<exists>i e. bt_get m i = Some e \<and> P e)"
    using assms(1) by (auto split: if_splits)
  assume "P v \<or> (\<exists>i e. bt_get m i = Some e \<and> P e)"
  then show "\<exists>i e. bt_get (bt_insert k v m) i = Some e \<and> P e"
  proof
    assume "P v"
    then show ?thesis using assms(1) by (intro exI [of _ k] exI [of _ v]) simp
  next
    assume "\<exists>i e. bt_get m i = Some e \<and> P e"
    then obtain i e where i: "bt_get m i = Some e" "P e" by blast
    then have "i \<noteq> k" using assms(2) by auto
    then show ?thesis using assms(1) i by (intro exI [of _ i] exI [of _ e]) simp
  qed
qed

text \<open>New evidence keeps the evidence in step with the support set that counts it.\<close>

lemma new_evidence_ok:
  assumes e: "evidence_ok R" and new: "bt_get (rg_evidence R) (sl_id r) = None" "length (rg_evidence R) < MAX_SUPPORT"
    and a: "aw_evidence_id award = sl_id r" "aw_source_owner award \<noteq> aw_beneficiary award"
      "\<exists>post. sl_content r = UpReaction (aw_source_owner award) post"
    and s: "\<And>k. bt_contains support k \<longleftrightarrow> k = award_triple award \<or> bt_contains (rg_support R) k"
  shows "evidence_ok (R\<lparr>rg_evidence := bt_insert (sl_id r) \<lparr>ev_award = award, ev_record = r\<rparr> (rg_evidence R), rg_support := support\<rparr>)"
proof -
  let ?ev = "bt_insert (sl_id r) \<lparr>ev_award = award, ev_record = r\<rparr> (rg_evidence R)"
  have bt: "bt_ok (rg_evidence R)" using e by (simp add: evidence_ok_def)
  have key: "award_key \<lparr>ev_award = award, ev_record = r\<rparr> = award_triple award" by (simp add: award_key_def award_triple_def)
  have "bt_contains support k \<longleftrightarrow> (\<exists>i e. bt_get ?ev i = Some e \<and> award_key e = k)" for k
  proof -
    have "bt_contains (rg_support R) k \<longleftrightarrow> (\<exists>i e. bt_get (rg_evidence R) i = Some e \<and> award_key e = k)" using e unfolding evidence_ok_def by blast
    then show ?thesis unfolding ex_insert_new [OF bt new(1)] s key by blast
  qed
  moreover have "sl_id (ev_record x) = i \<and> aw_evidence_id (ev_award x) = i \<and> aw_source_owner (ev_award x) \<noteq> aw_beneficiary (ev_award x)
      \<and> (\<exists>post. sl_content (ev_record x) = UpReaction (aw_source_owner (ev_award x)) post)" if "bt_get ?ev i = Some x" for i x
  proof (cases "i = sl_id r")
    case True
    then show ?thesis using that bt a by auto
  next
    case False
    then have "bt_get (rg_evidence R) i = Some x" using that bt by simp
    then show ?thesis using e unfolding evidence_ok_def by blast
  qed
  moreover have "length ?ev \<le> MAX_SUPPORT" using bt new by (simp add: btree.length_insert)
  ultimately show ?thesis using bt unfolding evidence_ok_def by simp
qed

lemma with_evidence_ok:
  assumes ok: "registry_ok C R" and new: "bt_get (rg_evidence R) (sl_id r) = None" "length (rg_evidence R) < MAX_SUPPORT"
    and s: "assess_support r view (rg_eligible R) epoch now now = Inr award" and dup: "bt_contains (rg_support R) (award_triple award)"
  shows "registry_ok C (with_evidence R r award)"
proof -
  let ?R = "with_evidence R r award"
  have e: "evidence_ok R" and bt: "bt_ok (rg_evidence R)" using ok by (simp_all add: registry_ok_def evidence_ok_def)
  have a: "aw_evidence_id award = sl_id r" "aw_source_owner award \<noteq> aw_beneficiary award" "\<exists>post. sl_content r = UpReaction (aw_source_owner award) post"
    using s by (auto simp: assess_support_iff)
  have "evidence_ok ?R" 
  proof -
    have eq: "R\<lparr>rg_evidence := bt_insert (sl_id r) \<lparr>ev_award = award, ev_record = r\<rparr> (rg_evidence R), rg_support := rg_support R\<rparr> = ?R"
      by (cases R) (simp add: with_evidence_def)
    have "bt_contains (rg_support R) k \<longleftrightarrow> k = award_triple award \<or> bt_contains (rg_support R) k" for k using dup by blast
    note n = new_evidence_ok [OF e new a this]
    show ?thesis using n unfolding eq .
  qed
  moreover have "rooms_ok C ?R"
  proof -
    have "replay_room C ?R = replay_room C R" by (rule replay_room_cong) (simp_all add: with_evidence_def)
    then have "room_ok C ?R = room_ok C R" by (simp add: room_ok_def with_evidence_def fun_eq_iff)
    then show ?thesis using ok by (simp add: registry_ok_def rooms_ok_def with_evidence_def)
  qed
  moreover have "credit_ok ?R" "rate_ok ?R" "schedule_ok C ?R"
    using ok by (simp_all add: registry_ok_def credit_ok_def rate_ok_def schedule_ok_def account_of_def rooms_of_def support_of_def window_of_def with_evidence_def)
  ultimately show ?thesis using ok by (simp add: registry_ok_def with_evidence_def)
qed

lemma with_award_ok:
  assumes ok: "registry_ok C R" and new: "bt_get (rg_evidence R) (sl_id r) = None" "length (rg_evidence R) < MAX_SUPPORT"
    and s: "assess_support r view (rg_eligible R) epoch now now = Inr award" and fresh: "\<not> bt_contains (rg_support R) (award_triple award)"
    and cap: "length (rg_support R) < MAX_SUPPORT"
    and room: "bt_get (rg_accounts R) (aw_beneficiary award) = None \<longrightarrow> length (rg_accounts R) < MAX_OWNERS"
  shows "registry_ok C (with_award R r award)"
proof -
  let ?R = "with_award R r award" and ?b = "aw_beneficiary award"
  have e: "evidence_ok R" and c: "credit_ok R" using ok by (simp_all add: registry_ok_def)
  have bt: "bt_ok (rg_support R)" "bt_ok (rg_accounts R)" "bt_get (rg_support R) (award_triple award) = None"
    using c fresh by (simp_all add: credit_ok_def bt_contains_def del: not_None_eq)
  have a: "aw_evidence_id award = sl_id r" "aw_source_owner award \<noteq> aw_beneficiary award" "\<exists>post. sl_content r = UpReaction (aw_source_owner award) post"
    using s by (auto simp: assess_support_iff)
  have R: "rg_support ?R = bt_insert (award_triple award) () (rg_support R)"
    "rg_accounts ?R = bt_insert ?b ((account_of R ?b)\<lparr>acc_earned := acc_earned (account_of R ?b) + 1\<rparr>) (rg_accounts R)"
    "rg_evidence ?R = bt_insert (sl_id r) \<lparr>ev_award = award, ev_record = r\<rparr> (rg_evidence R)"
    by (simp_all add: with_award_def with_evidence_def award_triple_def)
  have same: "rg_rooms ?R = rg_rooms R" "rg_by_genesis ?R = rg_by_genesis R" "rg_policy ?R = rg_policy R" "rg_windows ?R = rg_windows R"
    "rg_last_time ?R = rg_last_time R" "rg_directory ?R = rg_directory R" "rg_realm ?R = rg_realm R" "rg_schedule ?R = rg_schedule R"
    "rg_authority ?R = rg_authority R" "rg_eligible ?R = rg_eligible R"
    by (simp_all add: with_award_def with_evidence_def)
  have "evidence_ok ?R"
  proof -
    have "bt_contains (bt_insert (award_triple award) () (rg_support R)) k \<longleftrightarrow> k = award_triple award \<or> bt_contains (rg_support R) k" for k
      using bt(1) by (simp add: bt_contains_def)
    note n = new_evidence_ok [OF e new a this]
    show ?thesis using n R unfolding evidence_ok_def by simp
  qed
  moreover have "rooms_ok C ?R"
  proof -
    have "replay_room C ?R = replay_room C R" by (rule replay_room_cong) (simp_all add: same)
    then have "room_ok C ?R = room_ok C R" by (simp add: room_ok_def same fun_eq_iff)
    then show ?thesis using ok by (simp add: registry_ok_def rooms_ok_def same)
  qed
  moreover have "credit_ok ?R"
  proof -
    have sup: "card (support_of ?R o') = (if o' = ?b then Suc (card (support_of R o')) else card (support_of R o'))" for o'
      unfolding support_of_def R using card_keys_insert_new [OF bt(1,3)] by (auto simp: award_triple_def)
    have acc: "account_of ?R o' = (if o' = ?b then (account_of R ?b)\<lparr>acc_earned := acc_earned (account_of R ?b) + 1\<rparr> else account_of R o')" for o'
      using bt(2) by (simp add: account_of_def R)
    have rooms: "rooms_of ?R = rooms_of R" by (simp add: rooms_of_def same fun_eq_iff)
    have le: "unat (acc_earned (account_of R ?b)) \<le> 8192" using support_bound [OF ok, of ?b] by (simp add: MAX_SUPPORT_def)
    then have earned: "unat (acc_earned (account_of R ?b) + 1) = Suc (unat (acc_earned (account_of R ?b)))" by (simp add: unat_plus_noloss)
    have old: "card (rooms_of R o') = unat (acc_lifetime_slots (account_of R o'))"
      "unat (acc_spent (account_of R o')) = price (rg_policy R) (unat (acc_lifetime_slots (account_of R o')))"
      "unat (acc_earned (account_of R o')) = card (support_of R o')" "acc_spent (account_of R o') \<le> acc_earned (account_of R o')" for o'
      using c unfolding credit_ok_def Let_def by blast+
    have "acc_spent (account_of R ?b) \<le> acc_earned (account_of R ?b) + 1" using old(4) [of ?b] earned by (simp add: word_le_nat_alt)
    moreover have "length (rg_accounts ?R) \<le> MAX_OWNERS" "length (rg_support ?R) \<le> MAX_SUPPORT"
      using c room cap bt by (auto simp: R btree.length_insert credit_ok_def)
    moreover have "bt_ok (rg_accounts ?R)" "bt_ok (rg_support ?R)" using bt by (simp_all add: R)
    ultimately show ?thesis using old earned unfolding credit_ok_def Let_def rooms same sup acc by simp
  qed
  moreover have "rate_ok ?R"
  proof -
    have "bt_get (rg_accounts ?R) o' \<noteq> None" if "bt_get (rg_accounts R) o' \<noteq> None" for o' using that bt(2) by (simp add: R)
    then show ?thesis using ok unfolding registry_ok_def rate_ok_def by (simp add: same window_of_def)
  qed
  moreover have "schedule_ok C ?R" using ok by (simp add: registry_ok_def schedule_ok_def same)
  ultimately show ?thesis using ok by (simp add: registry_ok_def same)
qed

section \<open>Validator rotations\<close>

definition POWER_CAP :: nat where "POWER_CAP = (2 ^ 64 - 1) div 3"

lemma power_cap_word: "t \<le> 6148914691236517205 \<longleftrightarrow> unat (t :: u64) \<le> POWER_CAP"
  by (simp add: word_le_nat_alt POWER_CAP_def)

lemma check_members_iff:
  assumes "unat acc \<le> POWER_CAP"
  shows "check_members C bad over seen acc ms = Inr () \<longleftrightarrow>
     (\<forall>m\<in>set ms. vm_power m \<noteq> 0 \<and> key_point C (vm_key m)) \<and> distinct (map vm_key ms) \<and> set (map vm_key ms) \<inter> set seen = {}
     \<and> unat acc + sum_list (map (\<lambda>m. unat (vm_power m)) ms) \<le> POWER_CAP"
  using assms
proof (induction ms arbitrary: seen acc)
  case (Cons m ms)
  show ?case
  proof (cases "unat acc + unat (vm_power m) \<le> POWER_CAP")
    case True
    then have "unat acc + unat (vm_power m) < 2 ^ 64" by (simp add: POWER_CAP_def)
    then have t: "checked_add acc (vm_power m) = Some (acc + vm_power m)" "unat (acc + vm_power m) = unat acc + unat (vm_power m)"
      by (simp_all add: checked_add_def unat_plus_noloss)
    have "check_members C bad over seen acc (m # ms) = Inr () \<longleftrightarrow>
        vm_power m \<noteq> 0 \<and> vm_key m \<notin> set seen \<and> key_point C (vm_key m) \<and> check_members C bad over (vm_key m # seen) (acc + vm_power m) ms = Inr ()"
      using True by (auto simp: t power_cap_word)
    also have "\<dots> \<longleftrightarrow> vm_power m \<noteq> 0 \<and> vm_key m \<notin> set seen \<and> key_point C (vm_key m)
        \<and> (\<forall>m\<in>set ms. vm_power m \<noteq> 0 \<and> key_point C (vm_key m)) \<and> distinct (map vm_key ms)
        \<and> set (map vm_key ms) \<inter> set (vm_key m # seen) = {}
        \<and> unat acc + unat (vm_power m) + sum_list (map (\<lambda>m. unat (vm_power m)) ms) \<le> POWER_CAP"
      using Cons.IH [of "acc + vm_power m" "vm_key m # seen"] True t(2) by simp
    finally show ?thesis by auto
  next
    case False
    then have "check_members C bad over seen acc (m # ms) \<noteq> Inr ()"
      by (auto simp: checked_add_nat power_cap_word split: option.splits)
    then show ?thesis using False by auto
  qed
qed simp

lemma mset_insert_member: "mset (insert_member m xs) = add_mset m (mset xs)"
  by (induction xs) auto

lemma mset_sort_members: "mset (sort_members ms) = mset ms"
  by (induction ms) (simp_all add: sort_members_def mset_insert_member)

lemma set_insert_member: "set (insert_member m xs) = insert m (set xs)"
  by (induction xs) auto

lemma member_le_total: "\<not> member_le a b \<Longrightarrow> member_le b a"
  by (auto simp: member_le_def)

lemma member_le_trans: "member_le a b \<Longrightarrow> member_le b c \<Longrightarrow> member_le a c"
  by (auto simp: member_le_def)

lemma sorted_insert_member: "sorted_wrt member_le xs \<Longrightarrow> sorted_wrt member_le (insert_member m xs)"
proof (induction xs)
  case (Cons x xs)
  then show ?case using member_le_total [of m x] member_le_trans [of m x] by (auto simp: set_insert_member)
qed simp

lemma sorted_sort_members: "sorted_wrt member_le (sort_members ms)"
  by (induction ms) (simp_all add: sort_members_def sorted_insert_member)

lemma strict_keys: "sorted_wrt member_le xs \<Longrightarrow> distinct (map vm_key xs) \<Longrightarrow> sorted_wrt (<) (map vm_key xs)"
proof (induction xs)
  case (Cons x xs)
  have "vm_key x < vm_key y" if "y \<in> set xs" for y
  proof -
    have "member_le x y" "vm_key x \<noteq> vm_key y" using Cons.prems that by auto
    then show ?thesis by (auto simp: member_le_def)
  qed
  then show ?case using Cons by simp
qed simp

lemma sorted_members_ok:
  assumes "check_members C bad over [] 0 ms = Inr ()" and "ms \<noteq> []" "length ms \<le> MAX_VALIDATORS"
  shows "validators_ok C (sort_members ms)"
proof -
  have c: "\<forall>m\<in>set ms. vm_power m \<noteq> 0 \<and> key_point C (vm_key m)" "distinct (map vm_key ms)" "sum_list (map (\<lambda>m. unat (vm_power m)) ms) \<le> POWER_CAP"
    using assms(1) check_members_iff [of 0 C bad over "[]" ms] by (simp_all add: POWER_CAP_def)
  have m: "mset (sort_members ms) = mset ms" by (rule mset_sort_members)
  then have "set (sort_members ms) = set ms" "length (sort_members ms) = length ms" by (metis set_mset_mset, metis size_mset)
  moreover have "distinct (map vm_key (sort_members ms))"
    using c(2) m by (metis mset_eq_imp_distinct_iff mset_map)
  moreover have "sum_list (map (\<lambda>m. unat (vm_power m)) (sort_members ms)) = sum_list (map (\<lambda>m. unat (vm_power m)) ms)"
    using m by (metis mset_map sum_mset_sum_list)
  ultimately show ?thesis
    using c assms(2,3) strict_keys [OF sorted_sort_members] by (auto simp: validators_ok_def POWER_CAP_def)
qed

end
