(* ===== verification/Room_Runs.thy ===== *)
theory Room_Runs
  imports Room_Steps
begin

text \<open>
  Sequences of operations on the directory: each keeps the invariant and only adds to what was
  there (\<open>dir_grown\<close>), and one that leaves the revision alone changes nothing but retained evidence.
\<close>

section \<open>Growth\<close>

definition keeps :: "('k, 'v) btree_map \<Rightarrow> ('k, 'v) btree_map \<Rightarrow> bool" where
  "keeps m m' \<longleftrightarrow> (\<forall>k v. bt_get m k = Some v \<longrightarrow> bt_get m' k = Some v)"

definition chain_grown :: "owner_chain \<Rightarrow> owner_chain \<Rightarrow> bool" where
  "chain_grown p r \<longleftrightarrow> starts_with (oc_history r) (oc_history p)"

definition room_grown :: "room \<Rightarrow> room \<Rightarrow> bool" where
  "room_grown p r \<longleftrightarrow> rm_record r = rm_record p \<and> rm_created_at r = rm_created_at p \<and> starts_with (rm_revisions r) (rm_revisions p)"

definition account_grown :: "account \<Rightarrow> account \<Rightarrow> bool" where
  "account_grown p r \<longleftrightarrow> acc_earned p \<le> acc_earned r \<and> acc_spent p \<le> acc_spent r \<and> acc_lifetime_slots p \<le> acc_lifetime_slots r"

definition all_grown :: "('v \<Rightarrow> 'v \<Rightarrow> bool) \<Rightarrow> ('k, 'v) btree_map \<Rightarrow> ('k, 'v) btree_map \<Rightarrow> bool" where
  "all_grown P m m' \<longleftrightarrow> (\<forall>k v. bt_get m k = Some v \<longrightarrow> (\<exists>v'. bt_get m' k = Some v' \<and> P v v'))"

definition windows_grown :: "registry \<Rightarrow> registry \<Rightarrow> bool" where
  "windows_grown P R \<longleftrightarrow>
     (\<forall>owner. starts_with (filter (live_at R) (window_of R owner)) (filter (live_at R) (window_of P owner)))"

definition dir_grown :: "registry \<Rightarrow> registry \<Rightarrow> bool" where
  "dir_grown P R \<longleftrightarrow>
     rg_directory R = rg_directory P \<and> rg_realm R = rg_realm P \<and> rg_policy R = rg_policy P
     \<and> rg_revision P \<le> rg_revision R \<and> rg_last_time P \<le> rg_last_time R
     \<and> keeps (rg_support P) (rg_support R) \<and> keeps (rg_schedule P) (rg_schedule R) \<and> keeps (rg_evidence P) (rg_evidence R)
     \<and> all_grown chain_grown (ra_chains (rg_authority P)) (ra_chains (rg_authority R))
     \<and> all_grown room_grown (rg_rooms P) (rg_rooms R) \<and> all_grown account_grown (rg_accounts P) (rg_accounts R)
     \<and> windows_grown P R"

lemma starts_with_iff: "starts_with xs ys \<longleftrightarrow> (\<exists>zs. xs = ys @ zs)"
  by (auto simp: starts_with_def) (metis append_take_drop_id)

lemma starts_with_refl [simp]: "starts_with xs xs" and starts_with_append [simp]: "starts_with (xs @ ys) xs"
  by (simp_all add: starts_with_def)

lemma starts_with_trans: "starts_with xs ys \<Longrightarrow> starts_with ys zs \<Longrightarrow> starts_with xs zs"
  by (auto simp: starts_with_iff)

lemma keeps_refl [simp]: "keeps m m" and keeps_trans: "keeps l m \<Longrightarrow> keeps m n \<Longrightarrow> keeps l n"
  by (simp_all add: keeps_def)

lemma keeps_insert: "bt_ok m \<Longrightarrow> bt_get m k = None \<Longrightarrow> keeps m (bt_insert k v m)"
  by (auto simp: keeps_def)

lemma all_grown_refl: "(\<And>v. P v v) \<Longrightarrow> all_grown P m m"
  by (auto simp: all_grown_def)

lemma all_grown_trans: "(\<And>a b c. P a b \<Longrightarrow> P b c \<Longrightarrow> P a c) \<Longrightarrow> all_grown P l m \<Longrightarrow> all_grown P m n \<Longrightarrow> all_grown P l n"
  unfolding all_grown_def by blast

lemma all_grown_insert:
  "bt_ok m \<Longrightarrow> (\<And>v. P v v) \<Longrightarrow> (\<And>w. bt_get m k = Some w \<Longrightarrow> P w v) \<Longrightarrow> all_grown P m (bt_insert k v m)"
  by (auto simp: all_grown_def)

lemma element_grown [simp]: "chain_grown c c" "room_grown r r" "account_grown a a"
  by (simp_all add: chain_grown_def room_grown_def account_grown_def)

lemma element_grown_trans:
  "chain_grown a b \<Longrightarrow> chain_grown b c \<Longrightarrow> chain_grown a c"
  "room_grown p q \<Longrightarrow> room_grown q r \<Longrightarrow> room_grown p r"
  "account_grown x y \<Longrightarrow> account_grown y z \<Longrightarrow> account_grown x z"
  by (auto simp: chain_grown_def room_grown_def account_grown_def intro: starts_with_trans order_trans)

lemma live_at_mono: "rg_policy R = rg_policy P \<Longrightarrow> rg_last_time P \<le> rg_last_time R \<Longrightarrow> live_at R t \<Longrightarrow> live_at P t"
proof -
  assume a: "rg_policy R = rg_policy P" "rg_last_time P \<le> rg_last_time R" "live_at R t"
  show "live_at P t"
  proof (cases "t \<le> rg_last_time P")
    case True
    then have t: "t \<le> rg_last_time R" using a(2) by simp
    have "rg_last_time P - t \<le> rg_last_time R - t" using True t a(2) by (simp add: word_le_nat_alt unat_minus_noloss)
    then show ?thesis using a True t by (auto simp: live_at_def)
  next
    case False
    then show ?thesis using a by (auto simp: live_at_def word_gt_0 split: if_splits intro: le_less_trans)
  qed
qed

lemma windows_grown_trans:
  assumes "windows_grown P Q" and "windows_grown Q R" and "rg_policy R = rg_policy Q" and "rg_last_time Q \<le> rg_last_time R"
  shows "windows_grown P R"
proof -
  have f: "filter (live_at R) (filter (live_at Q) w) = filter (live_at R) w" for w
    using live_at_mono [OF assms(3,4)] by (induction w) auto
  have "starts_with (filter (live_at R) (window_of R owner)) (filter (live_at R) (window_of P owner))" for owner
  proof -
    obtain zs where "filter (live_at Q) (window_of Q owner) = filter (live_at Q) (window_of P owner) @ zs"
      using assms(1) unfolding windows_grown_def starts_with_iff by blast
    then have "filter (live_at R) (window_of Q owner) = filter (live_at R) (window_of P owner) @ filter (live_at R) zs"
      using f filter_append by metis
    then show ?thesis using assms(2) unfolding windows_grown_def by (metis starts_with_append starts_with_trans)
  qed
  then show ?thesis by (simp add: windows_grown_def)
qed

lemma directory_grown_refl: "dir_grown R R"
  by (simp add: dir_grown_def all_grown_refl windows_grown_def)

lemma directory_grown_trans: "dir_grown P Q \<Longrightarrow> dir_grown Q R \<Longrightarrow> dir_grown P R"
  unfolding dir_grown_def
  using windows_grown_trans [of P Q R] keeps_trans all_grown_trans [of chain_grown] all_grown_trans [of room_grown]
    all_grown_trans [of account_grown] element_grown_trans by (smt (verit) order_trans)

text \<open>The four ways in which a state grows.\<close>

lemma grown_advance: "rg_last_time R \<le> now \<Longrightarrow> rg_revision R \<le> v \<Longrightarrow> dir_grown R (R\<lparr>rg_last_time := now, rg_revision := v\<rparr>)"
  by (simp add: dir_grown_def all_grown_refl windows_grown_def window_of_def)

lemma grown_authority:
  "all_grown chain_grown (ra_chains (rg_authority R)) (ra_chains A) \<Longrightarrow> dir_grown R (R\<lparr>rg_authority := A\<rparr>)"
  by (simp add: dir_grown_def all_grown_refl windows_grown_def window_of_def)

lemma grown_rooms: "all_grown room_grown (rg_rooms R) rooms \<Longrightarrow> dir_grown R (R\<lparr>rg_rooms := rooms\<rparr>)"
  by (simp add: dir_grown_def all_grown_refl windows_grown_def window_of_def)

lemma grown_schedule: "keeps (rg_schedule R) s \<Longrightarrow> dir_grown R (R\<lparr>rg_schedule := s\<rparr>)"
  by (simp add: dir_grown_def all_grown_refl windows_grown_def window_of_def)

lemma grown_eligible: "dir_grown R (R\<lparr>rg_eligible := s\<rparr>)"
  by (simp add: dir_grown_def all_grown_refl windows_grown_def window_of_def)

section \<open>Single operations\<close>

text \<open>What an operation that leaves the revision alone may change: empty chains and retained evidence.\<close>

definition quiet :: "registry \<Rightarrow> registry \<Rightarrow> bool" where
  "quiet P R \<longleftrightarrow> R = P\<lparr>rg_authority := rg_authority R, rg_evidence := rg_evidence R\<rparr>
     \<and> ra_records (rg_authority R) = ra_records (rg_authority P)"

definition step_ok :: "crypto \<Rightarrow> registry \<Rightarrow> registry \<Rightarrow> bool" where
  "step_ok C R R' \<longleftrightarrow> registry_ok C R' \<and> dir_grown R R'
     \<and> (rg_revision R \<noteq> - 1 \<longrightarrow> rg_revision R' = rg_revision R + 1 \<or> quiet R R')"

lemma quiet_refl: "quiet R R"
  by (cases R) (simp add: quiet_def)

lemma quiet_trans: "quiet P Q \<Longrightarrow> quiet Q R \<Longrightarrow> quiet P R"
  by (cases P; cases Q; cases R) (simp add: quiet_def)

lemma quiet_revision: "quiet P R \<Longrightarrow> rg_revision R = rg_revision P"
  by (cases P; cases R) (simp add: quiet_def)

lemma step_ok_refl: "registry_ok C R \<Longrightarrow> step_ok C R R"
  by (simp add: step_ok_def directory_grown_refl quiet_refl)

lemma unat_max_64: "unat (- 1 :: u64) = 18446744073709551615"
  by (simp add: unsigned_minus_1_eq_mask mask_eq_exp_minus_1)

lemma word_le_Suc: "x \<noteq> - 1 \<Longrightarrow> x \<le> x + (1 :: u64)"
proof -
  assume "x \<noteq> - 1"
  then have "checked_add x 1 = Some (x + 1)" using checked_add_one_None [of x] by (auto simp: checked_add_def split: if_splits)
  then have "unat x + 1 = unat (x + 1)" unfolding checked_add_nat by simp
  then show ?thesis by (simp add: word_le_nat_alt)
qed

lemma bump_step:
  assumes "registry_ok C R1" and "dir_grown R R1" and "rg_last_time R1 = rg_last_time R" and "rg_revision R1 = rg_revision R"
    and "rg_last_time R \<le> now" and "bump_revision x now R1 = (res, R')"
  shows "step_ok C R R'"
proof -
  have b: "registry_ok C R'" "R' = R1\<lparr>rg_last_time := now, rg_revision := rg_revision R'\<rparr>"
    "rg_revision R1 \<noteq> - 1 \<longrightarrow> rg_revision R' = rg_revision R1 + 1" "rg_revision R1 = - 1 \<longrightarrow> rg_revision R' = - 1"
    using bump_ok [OF assms(1) _ assms(6)] assms(3,5) by simp_all
  have "rg_revision R1 \<le> rg_revision R'" using b(3,4) word_le_Suc [of "rg_revision R1"] by (cases "rg_revision R1 = - 1") auto
  then have "dir_grown R1 R'" using grown_advance [of R1 now "rg_revision R'"] assms(3,5) b(2) by simp
  then show ?thesis using b(1,3) assms(2,4) directory_grown_trans unfolding step_ok_def by metis
qed

lemma with_authority_ok:
  assumes "registry_ok C R" and "chains_ok C A" and "ra_directory A = ra_directory (rg_authority R)" and "ra_realm A = ra_realm (rg_authority R)"
  shows "registry_ok C (R\<lparr>rg_authority := A\<rparr>)"
proof -
  let ?R = "R\<lparr>rg_authority := A\<rparr>"
  have "replay_room C ?R = replay_room C R" by (rule replay_room_cong) simp_all
  then have "room_ok C ?R = room_ok C R" by (simp add: room_ok_def fun_eq_iff)
  then have "rooms_ok C ?R" using assms(1) by (simp add: registry_ok_def rooms_ok_def)
  then show ?thesis
    using assms by (simp add: registry_ok_def credit_ok_def rate_ok_def evidence_ok_def schedule_ok_def account_of_def rooms_of_def
        support_of_def window_of_def)
qed

lemma chains_grown:
  assumes ok: "chains_ok C A" and keep: "\<And>owner. bt_get (ra_chains A) owner \<noteq> None \<Longrightarrow> bt_get (ra_chains A') owner \<noteq> None"
    and h: "\<And>owner. starts_with (oc_history (chain_of A' owner)) (oc_history (chain_of A owner))"
  shows "all_grown chain_grown (ra_chains A) (ra_chains A')"
  unfolding all_grown_def
proof (intro allI impI)
  fix owner ch
  assume c: "bt_get (ra_chains A) owner = Some ch"
  then obtain ch' where c': "bt_get (ra_chains A') owner = Some ch'" using keep by fastforce
  have "starts_with (oc_history ch') (oc_history ch)" using h [of owner] c c' by (simp add: chain_of_def)
  then show "\<exists>ch'. bt_get (ra_chains A') owner = Some ch' \<and> chain_grown ch ch'" using c' by (simp add: chain_grown_def)
qed

lemma control_step:
  assumes ok: "registry_ok C R" and now: "rg_last_time R \<le> now" and b: "sr_body r = BodyControl k"
  shows "step_ok C R (snd (registry_apply C R r view now))"
proof -
  obtain res A where a: "authority_admit C (rg_authority R) r view now = (res, A)" by fastforce
  have chains: "chains_ok C (rg_authority R)" using ok by (simp add: registry_ok_def)
  have app: "registry_apply C R r view now =
     (case res of Inl e \<Rightarrow> (Inl (RegAuthority e), R\<lparr>rg_authority := A\<rparr>) | Inr _ \<Rightarrow> bump_revision AppliedControl now (R\<lparr>rg_authority := A\<rparr>))"
    using leD [OF now] a b by (cases res) (simp_all add: registry_apply_def)
  from authority_admit_cases [OF a] show ?thesis
  proof
    assume "A = rg_authority R \<and> (\<exists>e. res = Inl e)"
    then show ?thesis using app step_ok_refl [OF ok] by auto
  next
    assume c: "commit_control C (rg_authority R) r = (res, A)"
    note s = commit_control_step [OF chains c]
    have ok': "registry_ok C (R\<lparr>rg_authority := A\<rparr>)" using with_authority_ok [OF ok] s by simp
    have "starts_with (oc_history (chain_of A owner)) (oc_history (chain_of (rg_authority R) owner))" for owner
    proof (cases res)
      case (Inl e)
      then show ?thesis using s by simp
    next
      case (Inr u)
      then obtain k' :: room_control where "oc_history (chain_of A (kc_owner k')) = oc_history (chain_of (rg_authority R) (kc_owner k')) @ [r]"
        "\<forall>owner. owner \<noteq> kc_owner k' \<longrightarrow> chain_of A owner = chain_of (rg_authority R) owner" using s unfolding Inr sum.case by blast
      then show ?thesis by (cases "owner = kc_owner k'") simp_all
    qed
    then have g: "dir_grown R (R\<lparr>rg_authority := A\<rparr>)"
      using grown_authority chains_grown [OF chains, of A] s by blast
    show ?thesis
    proof (cases res)
      case (Inl e)
      then have "quiet R (R\<lparr>rg_authority := A\<rparr>)" using s by (cases R) (simp add: quiet_def)
      then show ?thesis using Inl app ok' g by (simp add: step_ok_def)
    next
      case (Inr u)
      obtain v R' where "bump_revision AppliedControl now (R\<lparr>rg_authority := A\<rparr>) = (v, R')" by fastforce
      then show ?thesis using bump_step [OF ok' g _ _ now] Inr app by simp
    qed
  qed
qed

lemma update_step:
  assumes ok: "registry_ok C R" and now: "rg_last_time R \<le> now" and b: "sr_body r = BodyUpdate u"
  shows "step_ok C R (snd (registry_apply C R r view now))"
proof -
  obtain res R1 where u: "registry_update C R r u view now = (res, R1)" by fastforce
  have app: "registry_apply C R r view now = (case res of Inl e \<Rightarrow> (Inl e, R1) | Inr x \<Rightarrow> bump_revision x now R1)"
    using leD [OF now] b u by (cases res) (simp_all add: registry_apply_def)
  from registry_update_cases [OF u] show ?thesis
  proof (elim disjE exE conjE)
    fix e assume "R1 = R" "res = Inl e"
    then show ?thesis using app step_ok_refl [OF ok] by simp
  next
    fix slug room
    assume m: "may_update R u view now slug room" and r: "res = Inr (Updated (signed_room_id C r))"
      and R1: "R1 = R\<lparr>rg_rooms := bt_insert slug (revise_room C r (ru_action u) room) (rg_rooms R)\<rparr>"
    have ok1: "registry_ok C R1" unfolding R1 by (rule update_ok [OF ok b m])
    have bt: "bt_ok (rg_rooms R)" "bt_get (rg_rooms R) slug = Some room" using ok m by (auto simp: registry_ok_def rooms_ok_def may_update_def)
    have g: "dir_grown R R1" unfolding R1
      by (rule grown_rooms, rule all_grown_insert) (use bt in \<open>auto simp: room_grown_def\<close>)
    obtain v R' where "bump_revision (Updated (signed_room_id C r)) now R1 = (v, R')" by fastforce
    then show ?thesis using bump_step [OF ok1 g _ _ now] r app by (simp add: R1)
  qed
qed

lemma clock_step: "now < rg_last_time R \<Longrightarrow> snd (registry_apply C R r view now) = R \<and> snd (registry_award R s view now) = R
    \<and> snd (registry_set_eligible R eligible now) = R \<and> snd (registry_apply_rotation C R start members now) = R"
  by (simp add: registry_apply_def registry_award_def registry_set_eligible_def registry_apply_rotation_def)

lemma may_create_advance [simp]: "may_create C (R\<lparr>rg_last_time := t, rg_revision := v\<rparr>) i view now = may_create C R i view now"
  by (simp add: may_create_def account_of_def)

lemma expired_advance [simp]: "expired (R\<lparr>rg_last_time := t, rg_revision := v\<rparr>) = expired R"
  by (simp add: expired_def fun_eq_iff)

lemma created_advance:
  "created_state C (R\<lparr>rg_last_time := t, rg_revision := v\<rparr>) r i now slot spent
     = (created_state C R r i now slot spent)\<lparr>rg_last_time := t, rg_revision := v\<rparr>"
  by (simp add: created_state_def window_of_def account_of_def)

lemma not_live_expired: "rg_last_time R = now \<Longrightarrow> live_at R t = (\<not> expired R now t)"
  by (cases "t \<le> now") (auto simp: live_at_def expired_def not_le)

lemma grown_created:
  assumes ok: "registry_ok C R" and now: "rg_last_time R = now" and m: "may_create C R i view now"
    and spent: "unat spent = unat (acc_spent (account_of R (ci_owner i))) + unat (ci_charge i)"
    and new: "bt_get (rg_by_genesis R) (room_genesis_id C i) = None"
  shows "dir_grown R (created_state C R r i now (ci_slot i) spent)"
proof -
  let ?R = "created_state C R r i now (ci_slot i) spent" and ?o = "ci_owner i"
  have bt: "bt_ok (rg_rooms R)" "bt_ok (rg_accounts R)" "bt_ok (rg_windows R)" "bt_get (rg_rooms R) (ci_slug i) = None"
    using ok m by (auto simp: registry_ok_def rooms_ok_def credit_ok_def rate_ok_def may_create_def)
  have "all_grown room_grown (rg_rooms R) (rg_rooms ?R)"
    using bt by (auto simp: created_state_def intro!: all_grown_insert)
  moreover have "all_grown account_grown (rg_accounts R) (rg_accounts ?R)"
  proof -
    have slot: "acc_lifetime_slots (account_of R ?o) \<le> ci_slot i" using m by (simp add: may_create_def word_le_nat_alt)
    have sp: "acc_spent (account_of R ?o) \<le> spent" using spent by (simp add: word_le_nat_alt)
    have g: "account_grown w ((account_of R ?o)\<lparr>acc_spent := spent, acc_lifetime_slots := ci_slot i\<rparr>)" if "bt_get (rg_accounts R) ?o = Some w" for w
      using that slot sp by (simp add: account_grown_def account_of_def)
    show ?thesis using bt g by (simp add: created_state_def all_grown_insert)
  qed
  moreover have "windows_grown R ?R"
  proof -
    have w: "window_of ?R owner = (if owner = ?o then dropWhile (expired R now) (window_of R ?o) @ [now] else window_of R owner)" for owner
      using bt(3) by (simp add: window_of_def created_state_def)
    have live: "live_at ?R = live_at R" by (simp add: live_at_def fun_eq_iff)
    have "filter (live_at R) (dropWhile (expired R now) (window_of R ?o)) = filter (live_at R) (window_of R ?o)"
      by (rule filter_dropWhile) (simp add: not_live_expired [OF now])
    then show ?thesis by (simp add: windows_grown_def w live)
  qed
  ultimately show ?thesis by (simp add: dir_grown_def all_grown_refl)
qed

lemma create_step:
  assumes ok: "registry_ok C R" and now: "rg_last_time R \<le> now" and b: "sr_body r = BodyCreate i"
  shows "step_ok C R (snd (registry_apply C R r view now))"
proof -
  obtain res R1 where c: "registry_create C R r i view now = (res, R1)" by fastforce
  have app: "registry_apply C R r view now = (case res of Inl e \<Rightarrow> (Inl e, R1) | Inr x \<Rightarrow> bump_revision x now R1)"
    using leD [OF now] b c by (cases res) (simp_all add: registry_apply_def)
  from registry_create_cases [OF ok b c] show ?thesis
  proof (elim disjE exE conjE)
    fix e assume "R1 = R" "res = Inl e"
    then show ?thesis using app step_ok_refl [OF ok] by simp
  next
    assume e: "R1 = R" "res = Inr (Existing (room_genesis_id C i))"
    obtain v R' where "bump_revision (Existing (room_genesis_id C i)) now R = (v, R')" by fastforce
    then show ?thesis using bump_step [OF ok directory_grown_refl _ _ now] e app by simp
  next
    fix spent
    assume new: "bt_get (rg_by_genesis R) (room_genesis_id C i) = None" and x: "res = Inr (Created (room_genesis_id C i))"
      and m: "may_create C R i view now" and room: "length (dropWhile (expired R now) (window_of R (ci_owner i))) < unat (dp_max_in_window (rg_policy R))"
      and spent: "unat spent = unat (acc_spent (account_of R (ci_owner i))) + unat (ci_charge i)"
      and R1: "R1 = created_state C R r i now (ci_slot i) spent"
    obtain v R' where bump: "bump_revision (Created (room_genesis_id C i)) now R1 = (v, R')" by fastforce
    define V where "V = rg_revision R'"
    have V: "R' = R1\<lparr>rg_last_time := now, rg_revision := V\<rparr>" "rg_revision R \<noteq> - 1 \<longrightarrow> V = rg_revision R + 1" "rg_revision R = - 1 \<longrightarrow> V = - 1"
      using bump checked_add_one_None [of "rg_revision R"] by (auto simp: bump_revision_def V_def R1 checked_add_def split: option.splits if_splits)
    define A where "A = R\<lparr>rg_last_time := now, rg_revision := V\<rparr>"
    have "rg_revision R \<le> V" using V(2,3) word_le_Suc [of "rg_revision R"] by (cases "rg_revision R = - 1") auto
    then have okA: "registry_ok C A" and gA: "dir_grown R A" unfolding A_def by (auto intro!: advance_ok grown_advance ok now)
    have t: "rg_last_time A = now" "may_create C A i view now" "bt_get (rg_by_genesis A) (room_genesis_id C i) = None"
      "length (dropWhile (expired A now) (window_of A (ci_owner i))) < unat (dp_max_in_window (rg_policy A))"
      "unat spent = unat (acc_spent (account_of A (ci_owner i))) + unat (ci_charge i)"
      using m new room spent by (simp_all add: A_def window_of_def account_of_def)
    have R': "R' = created_state C A r i now (ci_slot i) spent" by (simp add: V(1) R1 A_def created_advance)
    have "registry_ok C R'" unfolding R' by (rule created_ok [OF okA t(1) b t(3,2,4,5)])
    moreover have "dir_grown R R'" using directory_grown_trans [OF gA grown_created [OF okA t(1,2,5,3)]] by (simp add: R')
    ultimately show ?thesis using V x app bump by (simp add: step_ok_def)
  qed
qed

lemma apply_step:
  assumes "registry_ok C R"
  shows "step_ok C R (snd (registry_apply C R r view now))"
proof (cases "now < rg_last_time R")
  case True
  then show ?thesis using clock_step step_ok_refl [OF assms] by metis
next
  case False
  then show ?thesis using control_step create_step update_step assms by (cases "sr_body r") (auto simp: not_less)
qed

lemma award_step:
  assumes ok: "registry_ok C R"
  shows "step_ok C R (snd (registry_award R r view now))"
proof -
  obtain res R' where a: "registry_award R r view now = (res, R')" by fastforce
  have bt: "bt_ok (rg_evidence R)" "bt_ok (rg_support R)" "bt_ok (rg_accounts R)" "bt_ok (rg_windows R)"
    using ok by (simp_all add: registry_ok_def evidence_ok_def credit_ok_def rate_ok_def)
  from registry_award_cases [OF ok a] show ?thesis
  proof (elim disjE exE conjE)
    fix award
    assume now: "rg_last_time R \<le> now" and new: "bt_get (rg_evidence R) (sl_id r) = None" "length (rg_evidence R) < MAX_SUPPORT"
      and s: "assess_support r view (rg_eligible R) (dp_support_epoch_seconds (rg_policy R)) now now = Inr award"
      and dup: "bt_contains (rg_support R) (award_triple award)" and R': "R' = with_evidence R r award"
    have "dir_grown R R'"
      using bt new by (simp add: R' with_evidence_def dir_grown_def keeps_insert all_grown_refl windows_grown_def window_of_def)
    moreover have "quiet R R'" by (cases R) (simp add: R' with_evidence_def quiet_def)
    ultimately show ?thesis using with_evidence_ok [OF ok new s dup] R' a by (simp add: step_ok_def)
  next
    fix award
    assume now: "rg_last_time R \<le> now" and new: "bt_get (rg_evidence R) (sl_id r) = None" "length (rg_evidence R) < MAX_SUPPORT"
      and s: "assess_support r view (rg_eligible R) (dp_support_epoch_seconds (rg_policy R)) now now = Inr award"
      and fresh: "\<not> bt_contains (rg_support R) (award_triple award)" and cap: "length (rg_support R) < MAX_SUPPORT"
      and room: "bt_get (rg_accounts R) (aw_beneficiary award) = None \<longrightarrow> length (rg_accounts R) < MAX_OWNERS"
      and bump: "bump_revision Awarded now (with_award R r award) = (res, R')"
    have sup: "bt_get (rg_support R) (award_triple award) = None" using fresh by (cases "bt_get (rg_support R) (award_triple award)") (auto simp: bt_contains_def)
    have "unat (acc_earned (account_of R (aw_beneficiary award))) \<le> 8192" using support_bound [OF ok] by (simp add: MAX_SUPPORT_def)
    then have "acc_earned (account_of R (aw_beneficiary award)) \<noteq> - 1" using unat_max_64 by auto
    from word_le_Suc [OF this] have acc: "account_grown w ((account_of R (aw_beneficiary award))\<lparr>acc_earned := acc_earned (account_of R (aw_beneficiary award)) + 1\<rparr>)"
      if "bt_get (rg_accounts R) (aw_beneficiary award) = Some w" for w using that by (simp add: account_grown_def account_of_def)
    have "dir_grown R (with_award R r award)"
      using bt new sup acc unfolding award_triple_def
      by (simp add: with_award_def with_evidence_def dir_grown_def keeps_insert all_grown_refl all_grown_insert windows_grown_def window_of_def)
    then show ?thesis
      using bump_step [OF with_award_ok [OF ok new s fresh cap room] _ _ _ now bump] a by (simp add: with_award_def with_evidence_def)
  qed (use step_ok_refl [OF ok] a in auto)
qed

lemma eligible_step:
  assumes ok: "registry_ok C R"
  shows "step_ok C R (snd (registry_set_eligible R eligible now))"
proof (cases "now < rg_last_time R \<or> MAX_OWNERS < length eligible")
  case True
  then show ?thesis using step_ok_refl [OF ok] by (auto simp: registry_set_eligible_def)
next
  case False
  let ?R = "R\<lparr>rg_eligible := set_of eligible\<rparr>"
  have "replay_room C ?R = replay_room C R" by (rule replay_room_cong) simp_all
  then have "room_ok C ?R = room_ok C R" by (simp add: room_ok_def fun_eq_iff)
  then have "rooms_ok C ?R" using ok by (simp add: registry_ok_def rooms_ok_def)
  then have "registry_ok C ?R"
    using ok False set_of_ok [of eligible]
    by (simp add: registry_ok_def credit_ok_def rate_ok_def evidence_ok_def schedule_ok_def account_of_def rooms_of_def support_of_def window_of_def)
  moreover obtain res R' where "bump_revision () now ?R = (res, R')" by fastforce
  ultimately show ?thesis
    using bump_step [OF _ grown_eligible] False by (auto simp: registry_set_eligible_def not_less)
qed

lemma rotation_step:
  assumes ok: "registry_ok C R"
  shows "step_ok C R (snd (registry_apply_rotation C R start members now))"
proof (cases "\<not> now < rg_last_time R \<and> \<not> (case bt_last (rg_schedule R) of None \<Rightarrow> False | Some (latest, _) \<Rightarrow> start \<le> latest)
    \<and> \<not> (members = [] \<or> length members > MAX_VALIDATORS \<or> length (rg_schedule R) \<ge> MAX_ROTATIONS)
    \<and> check_members C RegBounds RegCost [] 0 members = Inr ()")
  case False
  then have "snd (registry_apply_rotation C R start members now) = R"
    by (cases "check_members C RegBounds RegCost [] 0 members") (auto simp: registry_apply_rotation_def)
  then show ?thesis using step_ok_refl [OF ok] by simp
next
  case True
  let ?R = "R\<lparr>rg_schedule := bt_insert start (sort_members members) (rg_schedule R)\<rparr>"
  have bt: "bt_ok (rg_schedule R)" using ok by (simp add: registry_ok_def schedule_ok_def)
  have new: "bt_get (rg_schedule R) start = None"
  proof (rule ccontr)
    assume n: "bt_get (rg_schedule R) start \<noteq> None"
    then have "rg_schedule R \<noteq> []" by (auto simp: bt_get_def)
    then obtain k v where l: "bt_last (rg_schedule R) = Some (k, v)" by (cases "bt_last (rg_schedule R)") (auto simp: bt_last_None)
    then show False using True n bt_last_greatest [OF bt l] by auto
  qed
  have m: "validators_ok C (sort_members members)" by (rule sorted_members_ok) (use True in \<open>auto simp: not_less\<close>)
  have "schedule_ok C ?R"
    using ok bt new m True by (auto simp: registry_ok_def schedule_ok_def btree.length_insert)
  moreover have "replay_room C ?R = replay_room C R" by (rule replay_room_cong) simp_all
  then have "room_ok C ?R = room_ok C R" by (simp add: room_ok_def fun_eq_iff)
  then have "rooms_ok C ?R" using ok by (simp add: registry_ok_def rooms_ok_def)
  ultimately have ok': "registry_ok C ?R"
    using ok by (simp add: registry_ok_def credit_ok_def rate_ok_def evidence_ok_def account_of_def rooms_of_def support_of_def window_of_def)
  obtain res R' where b: "bump_revision () now ?R = (res, R')" by fastforce
  have "snd (registry_apply_rotation C R start members now) = R'"
    using True b by (auto simp: registry_apply_rotation_def)
  then show ?thesis using bump_step [OF ok' grown_schedule [OF keeps_insert [OF bt new]] _ _ _ b] True by (simp add: not_less)
qed

lemma registry_step_ok: "registry_ok C R \<Longrightarrow> step_ok C R (registry_step C R op)"
  by (cases op) (simp_all add: apply_step award_step eligible_step rotation_step)

section \<open>Sequences\<close>

lemma registry_run_simps [simp]:
  "registry_run C R [] = R" "registry_run C R (op # ops) = registry_run C (registry_step C R op) ops"
  by (simp_all add: registry_run_def)

lemma registry_run_ok: "registry_ok C R \<Longrightarrow> registry_ok C (registry_run C R ops) \<and> dir_grown R (registry_run C R ops)"
proof (induction ops arbitrary: R)
  case Nil
  then show ?case by (simp add: directory_grown_refl)
next
  case (Cons op ops)
  then show ?case using registry_step_ok [OF Cons.prems, of op] directory_grown_trans unfolding step_ok_def by fastforce
qed

lemma registry_run_quiet:
  assumes "registry_ok C R" and "unat (rg_revision R) + length ops < 2 ^ 64" and "rg_revision (registry_run C R ops) = rg_revision R"
  shows "quiet R (registry_run C R ops)"
  using assms
proof (induction ops arbitrary: R)
  case Nil
  then show ?case by (simp add: quiet_refl)
next
  case (Cons op ops)
  let ?S = "registry_step C R op"
  have s: "step_ok C R ?S" by (rule registry_step_ok [OF Cons.prems(1)])
  have room: "unat (rg_revision R) + 1 < 2 ^ 64" using Cons.prems(2) by simp
  then have ne: "rg_revision R \<noteq> - 1" using unat_max_64 by auto
  have "quiet R ?S"
  proof (rule ccontr)
    assume "\<not> quiet R ?S"
    then have "rg_revision ?S = rg_revision R + 1" using s ne by (simp add: step_ok_def)
    moreover have "unat (rg_revision R + 1) = unat (rg_revision R) + 1" using room by (simp add: unat_plus_noloss)
    moreover have "rg_revision ?S \<le> rg_revision (registry_run C ?S ops)"
      using registry_run_ok [of C ?S ops] s by (simp add: step_ok_def dir_grown_def)
    ultimately show False using Cons.prems(3) by (simp add: word_le_nat_alt)
  qed
  then have q: "quiet R ?S" "rg_revision ?S = rg_revision R" using quiet_revision by auto
  have "quiet ?S (registry_run C ?S ops)" using Cons.IH [of ?S] s Cons.prems q(2) by (simp add: step_ok_def)
  then show ?case using quiet_trans [OF q(1)] by simp
qed

end
