(* ===== verification/Room_Trace.thy ===== *)
theory Room_Trace
  imports Room_Runs
begin

text \<open>
  What a directory owes to the operations that led to it: the persistence guard between two of its
  states, the records it retains, and the awards behind its credit.
\<close>

section \<open>The persistence guard\<close>

lemma all_entries: "bt_ok m \<Longrightarrow> (\<forall>e\<in>set m. P (fst e) (snd e)) \<longleftrightarrow> (\<forall>k v. bt_get m k = Some v \<longrightarrow> P k v)"
  using btree.entries_get [of m] by fastforce

lemma contains_unit: "bt_contains m k \<longleftrightarrow> bt_get m k = Some ()"
  by (cases "bt_get m k") (simp_all add: bt_contains_def)

lemma case_Some_iff: "(case x of None \<Rightarrow> False | Some w \<Rightarrow> Q w) \<longleftrightarrow> (\<exists>w. x = Some w \<and> Q w)"
  by (cases x) auto

lemma entries_grown:
  "bt_ok m \<Longrightarrow> (\<forall>e\<in>set m. (case bt_get n (fst e) of None \<Rightarrow> False | Some w \<Rightarrow> P (snd e) w)) \<longleftrightarrow> all_grown P m n"
  using all_entries [of m "\<lambda>k v. \<exists>w. bt_get n k = Some w \<and> P v w"] by (simp add: all_grown_def case_Some_iff)

lemma all_grown_also:
  "all_grown (\<lambda>p r. P p r \<and> \<not> (c \<and> \<not> Q p r)) m n \<longleftrightarrow>
     all_grown P m n \<and> (c \<longrightarrow> (\<forall>k p r. bt_get m k = Some p \<longrightarrow> bt_get n k = Some r \<longrightarrow> Q p r))"
  by (cases c) (fastforce simp: all_grown_def)+

lemma quiet_fields:
  "quiet P R \<Longrightarrow> rg_last_time R = rg_last_time P \<and> rg_eligible R = rg_eligible P \<and> rg_support R = rg_support P \<and> rg_accounts R = rg_accounts P
     \<and> rg_windows R = rg_windows P \<and> rg_rooms R = rg_rooms P \<and> ra_records (rg_authority R) = ra_records (rg_authority P)"
  by (cases P; cases R) (simp add: quiet_def)

lemma extension_iff:
  assumes P: "registry_ok C P"
  shows "is_extension_of R P \<longleftrightarrow> dir_grown P R
     \<and> (rg_revision R = rg_revision P \<longrightarrow> \<not> same_revision_blocked R P
        \<and> (\<forall>slug p r. bt_get (rg_rooms P) slug = Some p \<longrightarrow> bt_get (rg_rooms R) slug = Some r \<longrightarrow> length (rm_revisions r) = length (rm_revisions p)))"
proof -
  have bt: "bt_ok (rg_support P)" "bt_ok (rg_schedule P)" "bt_ok (rg_evidence P)" "bt_ok (ra_chains (rg_authority P))" "bt_ok (rg_rooms P)"
    "bt_ok (rg_accounts P)" "bt_ok (rg_windows P)"
    using P by (simp_all add: registry_ok_def credit_ok_def schedule_ok_def evidence_ok_def chains_ok_def rooms_ok_def rate_ok_def)
  have sup: "(\<forall>k\<in>set (rg_support P). bt_contains (rg_support R) (fst k)) \<longleftrightarrow> keeps (rg_support P) (rg_support R)"
    unfolding keeps_def contains_unit using all_entries [OF bt(1), of "\<lambda>k _. bt_get (rg_support R) k = Some ()"] by simp
  have sch: "(\<forall>k\<in>set (rg_schedule P). bt_get (rg_schedule R) (fst k) = Some (snd k)) \<longleftrightarrow> keeps (rg_schedule P) (rg_schedule R)"
    unfolding keeps_def by (rule all_entries [OF bt(2)])
  have ev: "(\<forall>k\<in>set (rg_evidence P). bt_get (rg_evidence R) (fst k) = Some (snd k)) \<longleftrightarrow> keeps (rg_evidence P) (rg_evidence R)"
    unfolding keeps_def by (rule all_entries [OF bt(3)])
  have ch: "(\<forall>k\<in>set (ra_chains (rg_authority P)). (case bt_get (ra_chains (rg_authority R)) (fst k) of None \<Rightarrow> False
           | Some ch \<Rightarrow> starts_with (oc_history ch) (oc_history (snd k)))) \<longleftrightarrow> all_grown chain_grown (ra_chains (rg_authority P)) (ra_chains (rg_authority R))"
    unfolding chain_grown_def by (rule entries_grown [OF bt(4)])
  have ac: "(\<forall>k\<in>set (rg_accounts P). (case bt_get (rg_accounts R) (fst k) of None \<Rightarrow> False
           | Some a \<Rightarrow> acc_earned (snd k) \<le> acc_earned a \<and> acc_spent (snd k) \<le> acc_spent a
               \<and> acc_lifetime_slots (snd k) \<le> acc_lifetime_slots a)) \<longleftrightarrow> all_grown account_grown (rg_accounts P) (rg_accounts R)"
    unfolding account_grown_def by (rule entries_grown [OF bt(6)])
  have ro: "(\<forall>k\<in>set (rg_rooms P). (case bt_get (rg_rooms R) (fst k) of None \<Rightarrow> False
           | Some room \<Rightarrow> rm_record room = rm_record (snd k) \<and> rm_created_at room = rm_created_at (snd k)
               \<and> starts_with (rm_revisions room) (rm_revisions (snd k))
               \<and> \<not> (rg_revision R = rg_revision P \<and> length (rm_revisions room) \<noteq> length (rm_revisions (snd k)))))
     \<longleftrightarrow> all_grown room_grown (rg_rooms P) (rg_rooms R) \<and> (rg_revision R = rg_revision P \<longrightarrow>
        (\<forall>slug p r. bt_get (rg_rooms P) slug = Some p \<longrightarrow> bt_get (rg_rooms R) slug = Some r \<longrightarrow> length (rm_revisions r) = length (rm_revisions p)))"
    using entries_grown [OF bt(5), of "\<lambda>p r. room_grown p r \<and> \<not> (rg_revision R = rg_revision P \<and> \<not> length (rm_revisions r) = length (rm_revisions p))" "rg_rooms R", unfolded all_grown_also]
    unfolding room_grown_def conj_assoc .
  have wi: "(\<forall>k\<in>set (rg_windows P). starts_with (filter (live_at R) (case bt_get (rg_windows R) (fst k) of None \<Rightarrow> [] | Some w \<Rightarrow> w))
            (filter (live_at R) (snd k))) \<longleftrightarrow> windows_grown P R"
  proof -
    have "windows_grown P R \<longleftrightarrow> (\<forall>k v. bt_get (rg_windows P) k = Some v \<longrightarrow> starts_with (filter (live_at R) (window_of R k)) (filter (live_at R) v))"
      unfolding windows_grown_def by (rule iff_allI) (simp add: window_of_def [of P] starts_with_def split: option.split)
    then show ?thesis
      using all_entries [OF bt(7), of "\<lambda>k v. starts_with (filter (live_at R) (window_of R k)) (filter (live_at R) v)"] by (simp add: window_of_def)
  qed
  show ?thesis
    unfolding is_extension_of_def sup sch ev ch ac ro wi dir_grown_def by blast
qed

lemma revision_bound: "registry_ok C R \<Longrightarrow> unat (rg_revision (registry_run C R ops)) \<le> unat (rg_revision R) + length ops"
proof (induction ops arbitrary: R)
  case (Cons op ops)
  let ?S = "registry_step C R op"
  have s: "step_ok C R ?S" by (rule registry_step_ok [OF Cons.prems])
  have "unat (rg_revision ?S) \<le> unat (rg_revision R) + 1"
  proof (cases "rg_revision R = - 1")
    case True
    then show ?thesis using unsigned_less [of "rg_revision ?S", where 'a = nat] by (simp add: unat_max_64)
  next
    case False
    then show ?thesis using s unat_plus_if' [of "rg_revision R" 1] quiet_revision [of R ?S] by (auto simp: step_ok_def split: if_splits)
  qed
  then show ?case using Cons.IH [of ?S] s by (simp add: step_ok_def)
qed simp

lemma run_extends:
  assumes ok: "registry_ok C P" and "unat (rg_revision P) + length ops < 2 ^ 64"
  shows "is_extension_of (registry_run C P ops) P \<longleftrightarrow>
     rg_revision (registry_run C P ops) \<noteq> rg_revision P \<or> length (rg_evidence (registry_run C P ops)) \<noteq> length (rg_evidence P)"
proof -
  let ?R = "registry_run C P ops"
  have R: "registry_ok C ?R" "dir_grown P ?R" using registry_run_ok [OF ok] by blast+
  have bt: "bt_ok (rg_evidence P)" "bt_ok (rg_evidence ?R)" using ok R(1) by (simp_all add: registry_ok_def evidence_ok_def)
  have le: "length (rg_evidence P) \<le> length (rg_evidence ?R)"
    unfolding btree.length_entries [OF bt(1)] btree.length_entries [OF bt(2)]
    by (rule card_mono [OF btree.finite_keys [OF bt(2)]]) (use R(2) in \<open>auto simp: dir_grown_def keeps_def\<close>)
  show ?thesis
  proof (cases "rg_revision ?R = rg_revision P")
    case False
    then show ?thesis using R(2) by (simp add: extension_iff [OF ok])
  next
    case True
    have q: "quiet P ?R" by (rule registry_run_quiet [OF ok assms(2) True])
    have f: "rg_last_time ?R = rg_last_time P" "rg_eligible ?R = rg_eligible P" "rg_support ?R = rg_support P" "rg_accounts ?R = rg_accounts P"
      "rg_windows ?R = rg_windows P" "rg_rooms ?R = rg_rooms P" "ra_records (rg_authority ?R) = ra_records (rg_authority P)"
      using quiet_fields [OF q] by simp_all
    have "bt_contains (rg_support P) (award_key (snd e))" if "e \<in> set (rg_evidence ?R)" for e
    proof -
      have "bt_get (rg_evidence ?R) (fst e) = Some (snd e)" using that btree.entries_get [OF bt(2)] by simp
      then have "bt_contains (rg_support ?R) (award_key (snd e))" using R(1) unfolding registry_ok_def evidence_ok_def by blast
      then show ?thesis by (simp add: f)
    qed
    then have "same_revision_blocked ?R P \<longleftrightarrow> length (rg_evidence ?R) \<le> length (rg_evidence P)"
      by (auto simp: same_revision_blocked_def f)
    then show ?thesis using True R(2) le by (auto simp: extension_iff [OF ok] f)
  qed
qed

section \<open>Where rooms, records and awards come from\<close>

lemma bump_keeps [simp]:
  "rg_rooms (snd (bump_revision x now R)) = rg_rooms R" "rg_authority (snd (bump_revision x now R)) = rg_authority R"
  "rg_support (snd (bump_revision x now R)) = rg_support R"
  by (simp_all add: bump_revision_def split: option.split)

definition open_window :: "registry \<Rightarrow> array32 \<Rightarrow> u64 \<Rightarrow> bool" where
  "open_window R owner now \<longleftrightarrow> length (dropWhile (expired R now) (window_of R owner)) < unat (dp_max_in_window (rg_policy R))"

definition creates :: "crypto \<Rightarrow> registry \<Rightarrow> registry_op \<Rightarrow> creation_intent \<Rightarrow> signed_room \<Rightarrow> u64 \<Rightarrow> bool" where
  "creates C R op i r now \<longleftrightarrow> (\<exists>view. op = OpRecord r view now \<and> sr_body r = BodyCreate i \<and> rg_last_time R \<le> now
     \<and> may_create C R i view now \<and> open_window R (ci_owner i) now \<and> bt_get (rg_by_genesis R) (room_genesis_id C i) = None)"

definition revises :: "registry \<Rightarrow> registry_op \<Rightarrow> bytes \<Rightarrow> room \<Rightarrow> signed_room \<Rightarrow> room_update \<Rightarrow> bool" where
  "revises R op slug room r u \<longleftrightarrow> (\<exists>view now. op = OpRecord r view now \<and> sr_body r = BodyUpdate u \<and> rg_last_time R \<le> now
     \<and> may_update R u view now slug room)"

lemma record_step_rooms:
  assumes ok: "registry_ok C R" and g: "bt_get (rg_rooms (snd (registry_apply C R r view now))) slug = Some room"
  shows "bt_get (rg_rooms R) slug = Some room
    \<or> (\<exists>i. creates C R (OpRecord r view now) i r now \<and> slug = ci_slug i \<and> room = fresh_room C r (room_genesis_id C i) i now)
    \<or> (\<exists>u old. revises R (OpRecord r view now) slug old r u \<and> room = revise_room C r (ru_action u) old)"
proof (cases "now < rg_last_time R")
  case True
  then show ?thesis using g clock_step by simp
next
  case False
  then have now: "rg_last_time R \<le> now" by simp
  have bt: "bt_ok (rg_rooms R)" using ok by (simp add: registry_ok_def rooms_ok_def)
  show ?thesis
  proof (cases "sr_body r")
    case (BodyControl k)
    obtain res A where a: "authority_admit C (rg_authority R) r view now = (res, A)" by fastforce
    have "rg_rooms (snd (registry_apply C R r view now)) = rg_rooms R"
      using False a BodyControl by (cases res) (simp_all add: registry_apply_def)
    then show ?thesis using g by simp
  next
    case (BodyCreate i)
    obtain res R1 where c: "registry_create C R r i view now = (res, R1)" by fastforce
    have "rg_rooms (snd (registry_apply C R r view now)) = rg_rooms R1"
      using False c BodyCreate by (cases res) (simp_all add: registry_apply_def)
    then have g1: "bt_get (rg_rooms R1) slug = Some room" using g by simp
    from registry_create_cases [OF ok BodyCreate c] show ?thesis
    proof (elim disjE exE conjE)
      fix spent
      assume x: "bt_get (rg_by_genesis R) (room_genesis_id C i) = None" "may_create C R i view now"
        "length (dropWhile (expired R now) (window_of R (ci_owner i))) < unat (dp_max_in_window (rg_policy R))"
        and R1: "R1 = created_state C R r i now (ci_slot i) spent"
      have cr: "creates C R (OpRecord r view now) i r now" using x now BodyCreate by (simp add: creates_def open_window_def)
      have "bt_get (rg_rooms R) slug = Some room \<or> slug = ci_slug i \<and> room = fresh_room C r (room_genesis_id C i) i now"
        using g1 bt by (auto simp: R1 created_state_def split: if_splits)
      then show ?thesis using cr by blast
    qed (use g1 in simp_all)
  next
    case (BodyUpdate u)
    obtain res R1 where c: "registry_update C R r u view now = (res, R1)" by fastforce
    have "rg_rooms (snd (registry_apply C R r view now)) = rg_rooms R1"
      using False c BodyUpdate by (cases res) (simp_all add: registry_apply_def)
    then have g1: "bt_get (rg_rooms R1) slug = Some room" using g by simp
    from registry_update_cases [OF c] show ?thesis
    proof (elim disjE exE conjE)
      fix s old
      assume m: "may_update R u view now s old" and R1: "R1 = R\<lparr>rg_rooms := bt_insert s (revise_room C r (ru_action u) old) (rg_rooms R)\<rparr>"
      have rv: "revises R (OpRecord r view now) s old r u" using m now BodyUpdate by (simp add: revises_def)
      have "bt_get (rg_rooms R) slug = Some room \<or> slug = s \<and> room = revise_room C r (ru_action u) old"
        using g1 bt by (auto simp: R1 split: if_splits)
      then show ?thesis using rv by blast
    qed (use g1 in simp)
  qed
qed

lemma step_rooms:
  assumes ok: "registry_ok C R" and g: "bt_get (rg_rooms (registry_step C R op)) slug = Some room"
  shows "bt_get (rg_rooms R) slug = Some room
    \<or> (\<exists>i r now. creates C R op i r now \<and> slug = ci_slug i \<and> room = fresh_room C r (room_genesis_id C i) i now)
    \<or> (\<exists>r u old. revises R op slug old r u \<and> room = revise_room C r (ru_action u) old)"
proof (cases op)
  case (OpRecord r view now)
  then show ?thesis using record_step_rooms [OF ok, of r view now slug room] g unfolding OpRecord registry_step.simps by blast
next
  case (OpAwardRecord r view now)
  obtain res R' where a: "registry_award R r view now = (res, R')" by fastforce
  have "rg_rooms R' = rg_rooms R"
    using registry_award_cases [OF ok a] bump_keeps(1) [of Awarded now] by (auto simp: with_award_def with_evidence_def dest!: arg_cong [of _ _ snd])
  then show ?thesis using g OpAwardRecord a by simp
next
  case (OpEligible e now)
  have "rg_rooms (registry_step C R op) = rg_rooms R"
    by (simp add: OpEligible registry_set_eligible_def)
  then show ?thesis using g by simp
next
  case (OpRotate start ms now)
  have "rg_rooms (registry_step C R op) = rg_rooms R"
    by (simp add: OpRotate registry_apply_rotation_def split: sum.split)
  then show ?thesis using g by simp
qed

lemma run_trace:
  assumes "registry_ok C R" and "\<And>S op. registry_ok C S \<Longrightarrow> Q (registry_step C S op) \<Longrightarrow> Q S \<or> G S op"
    and "Q (registry_run C R ops)"
  shows "Q R \<or> (\<exists>before op after. ops = before @ op # after \<and> G (registry_run C R before) op)"
  using assms(1,3)
proof (induction ops arbitrary: R)
  case (Cons op ops)
  have s: "registry_ok C (registry_step C R op)" using registry_step_ok [OF Cons.prems(1)] by (simp add: step_ok_def)
  consider "Q (registry_step C R op)" | before p after where "ops = before @ p # after" "G (registry_run C (registry_step C R op) before) p"
    using Cons.IH [OF s] Cons.prems(2) by auto
  then show ?case
  proof cases
    case 1
    then consider "Q R" | "G R op" using assms(2) [OF Cons.prems(1)] by blast
    then show ?thesis by cases (auto intro: exI [of _ "[]"])
  next
    case 2
    then have "op # ops = (op # before) @ p # after \<and> G (registry_run C R (op # before)) p" by simp
    then show ?thesis by blast
  qed
qed simp

text \<open>Every room was created by one operation, under the authority and credit of that moment.\<close>

lemma room_created_by:
  assumes new: "registry_new d realm policy eligible = Inr R0" and g: "bt_get (rg_rooms (registry_run C R0 ops)) slug = Some room"
  shows "\<exists>before op after. ops = before @ op # after
     \<and> creates C (registry_run C R0 before) op (rm_intent room) (rm_record room) (rm_created_at room)"
proof -
  let ?Q = "\<lambda>S. \<exists>x. bt_get (rg_rooms S) slug = Some x \<and> rm_intent x = rm_intent room \<and> rm_record x = rm_record room \<and> rm_created_at x = rm_created_at room"
  let ?G = "\<lambda>S op. creates C S op (rm_intent room) (rm_record room) (rm_created_at room)"
  have ok: "registry_ok C R0" by (rule registry_new_ok [OF new])
  have "?Q S \<or> ?G S op" if S: "registry_ok C S" and q: "?Q (registry_step C S op)" for S op
  proof -
    obtain x where x: "bt_get (rg_rooms (registry_step C S op)) slug = Some x" "rm_intent x = rm_intent room" "rm_record x = rm_record room"
      "rm_created_at x = rm_created_at room" using q by blast
    from step_rooms [OF S x(1)] show ?thesis
    proof (elim disjE exE conjE)
      fix r u old
      assume o: "revises S op slug old r u" "x = revise_room C r (ru_action u) old"
      then have "bt_get (rg_rooms S) slug = Some old" by (auto simp: revises_def may_update_def)
      then show ?thesis using x o(2) by auto
    qed (use x in auto)
  qed
  note t = run_trace [of C R0 ?Q ?G ops, OF ok this]
  have "rg_rooms R0 = bt_new" using new by (auto simp: registry_new_def)
  then show ?thesis using t g by auto
qed

lemma room_revised_by:
  assumes new: "registry_new d realm policy eligible = Inr R0" and g: "bt_get (rg_rooms (registry_run C R0 ops)) slug = Some room"
    and r: "r \<in> set (rm_revisions room)"
  shows "\<exists>before op after u old. ops = before @ op # after \<and> revises (registry_run C R0 before) op slug old r u"
proof -
  let ?Q = "\<lambda>S. \<exists>x. bt_get (rg_rooms S) slug = Some x \<and> r \<in> set (rm_revisions x)"
  let ?G = "\<lambda>S op. \<exists>u old. revises S op slug old r u"
  have ok: "registry_ok C R0" by (rule registry_new_ok [OF new])
  have "?Q S \<or> ?G S op" if S: "registry_ok C S" and q: "?Q (registry_step C S op)" for S op
  proof -
    obtain x where x: "bt_get (rg_rooms (registry_step C S op)) slug = Some x" "r \<in> set (rm_revisions x)" using q by blast
    from step_rooms [OF S x(1)] show ?thesis
    proof (elim disjE exE conjE)
      fix r' u old
      assume o: "revises S op slug old r' u" "x = revise_room C r' (ru_action u) old"
      then have "bt_get (rg_rooms S) slug = Some old" by (auto simp: revises_def may_update_def)
      then show ?thesis using x o by auto
    qed (use x in auto)
  qed
  note t = run_trace [of C R0 ?Q ?G ops, OF ok this]
  have "rg_rooms R0 = bt_new" using new by (auto simp: registry_new_def)
  then show ?thesis using t g r by auto
qed

definition controls :: "crypto \<Rightarrow> registry \<Rightarrow> registry_op \<Rightarrow> signed_room \<Rightarrow> array32 \<Rightarrow> bool" where
  "controls C R op r owner \<longleftrightarrow> (\<exists>view now k. op = OpRecord r view now \<and> sr_body r = BodyControl k \<and> kc_owner k = owner
     \<and> check_control_claims (rg_authority R) view now k = Inr ())"

lemma record_step_chains:
  assumes ok: "registry_ok C R" and h: "x \<in> set (oc_history (chain_of (rg_authority (snd (registry_apply C R r view now))) owner))"
  shows "x \<in> set (oc_history (chain_of (rg_authority R) owner)) \<or> x = r \<and> controls C R (OpRecord r view now) r owner"
proof (cases "now < rg_last_time R")
  case True
  then show ?thesis using h clock_step by simp
next
  case False
  then have now: "rg_last_time R \<le> now" by simp
  show ?thesis
  proof (cases "sr_body r")
    case (BodyControl k)
    obtain res A where a: "authority_admit C (rg_authority R) r view now = (res, A)" by fastforce
    have "rg_authority (snd (registry_apply C R r view now)) = A"
      using False a BodyControl by (cases res) (simp_all add: registry_apply_def)
    then have x: "x \<in> set (oc_history (chain_of A owner))" using h by simp
    show ?thesis
    proof (cases "check_control_claims (rg_authority R) view now k")
      case (Inl e)
      then have "(Inl e, rg_authority R) = (res, A)" using a BodyControl by (simp add: authority_admit_def)
      then show ?thesis using x by auto
    next
      case (Inr u)
      then have c: "commit_control C (rg_authority R) r = (res, A)" using a BodyControl by (simp add: authority_admit_def)
      have "chains_ok C (rg_authority R)" using ok by (simp add: registry_ok_def)
      note s = commit_control_step [OF this c]
      show ?thesis
      proof (cases res)
        case (Inl e)
        then have "chain_of A = chain_of (rg_authority R)" using s unfolding Inl sum.case by blast
        then show ?thesis using x by simp
      next
        case (Inr v)
        have "oc_history (chain_of A (kc_owner k)) = oc_history (chain_of (rg_authority R) (kc_owner k)) @ [r]
            \<and> (\<forall>owner. owner \<noteq> kc_owner k \<longrightarrow> chain_of A owner = chain_of (rg_authority R) owner)"
          using s BodyControl unfolding Inr sum.case by auto
        moreover have "controls C R (OpRecord r view now) r (kc_owner k)"
          using BodyControl \<open>check_control_claims (rg_authority R) view now k = Inr u\<close> by (simp add: controls_def)
        ultimately show ?thesis using x by (cases "owner = kc_owner k") auto
      qed
    qed
  next
    case (BodyCreate i)
    obtain res R1 where c: "registry_create C R r i view now = (res, R1)" by fastforce
    have "rg_authority (snd (registry_apply C R r view now)) = rg_authority R1"
      using False c BodyCreate by (cases res) (simp_all add: registry_apply_def)
    moreover have "rg_authority R1 = rg_authority R" using registry_create_cases [OF ok BodyCreate c] by auto
    ultimately show ?thesis using h by simp
  next
    case (BodyUpdate u)
    obtain res R1 where c: "registry_update C R r u view now = (res, R1)" by fastforce
    have "rg_authority (snd (registry_apply C R r view now)) = rg_authority R1"
      using False c BodyUpdate by (cases res) (simp_all add: registry_apply_def)
    moreover have "rg_authority R1 = rg_authority R" using registry_update_cases [OF c] by auto
    ultimately show ?thesis using h by simp
  qed
qed

lemma step_authority:
  assumes "registry_ok C R" and "\<nexists>r view now. op = OpRecord r view now"
  shows "rg_authority (registry_step C R op) = rg_authority R"
proof (cases op)
  case (OpAwardRecord r view now)
  obtain res R' where a: "registry_award R r view now = (res, R')" by fastforce
  have "rg_authority R' = rg_authority R"
    using registry_award_cases [OF assms(1) a] bump_keeps(2) [of Awarded now]
    by (auto simp: with_award_def with_evidence_def dest!: arg_cong [of _ _ snd])
  then show ?thesis using OpAwardRecord a by simp
next
  case (OpEligible e now)
  then show ?thesis by (simp add: registry_set_eligible_def)
next
  case (OpRotate start ms now)
  then show ?thesis by (simp add: registry_apply_rotation_def split: sum.split)
qed (use assms in auto)

lemma control_traced:
  assumes new: "registry_new d realm policy eligible = Inr R0"
    and h: "r \<in> set (oc_history (chain_of (rg_authority (registry_run C R0 ops)) owner))"
  shows "\<exists>before op after. ops = before @ op # after \<and> controls C (registry_run C R0 before) op r owner"
proof -
  let ?Q = "\<lambda>S. r \<in> set (oc_history (chain_of (rg_authority S) owner))"
  let ?G = "\<lambda>S op. controls C S op r owner"
  have ok: "registry_ok C R0" by (rule registry_new_ok [OF new])
  have "?Q S \<or> ?G S op" if S: "registry_ok C S" and q: "?Q (registry_step C S op)" for S op
  proof (cases "\<exists>r view now. op = OpRecord r view now")
    case True
    then obtain r' view now where op: "op = OpRecord r' view now" by blast
    show ?thesis using record_step_chains [OF S, of r r' view now owner] q op by auto
  next
    case False
    then show ?thesis using step_authority [OF S False] q by simp
  qed
  note t = run_trace [of C R0 ?Q ?G ops, OF ok this]
  have "chain_of (rg_authority R0) owner = chain_default" using new by (auto simp: registry_new_def authority_new_def chain_of_def)
  then show ?thesis using t h by (auto simp: chain_default_def)
qed

text \<open>An open grant is a grant record of its owner's chain.\<close>

lemma replay_grants:
  "replay_chain C A owner ch rs = Some ch' \<Longrightarrow> bt_ok (oc_grants ch) \<Longrightarrow> bt_get (oc_grants ch') i = Some og \<Longrightarrow>
     bt_get (oc_grants ch) i = Some og
     \<or> (\<exists>r\<in>set rs. \<exists>k g. sr_body r = BodyControl k \<and> kc_owner k = owner \<and> kc_action k = GrantCreate g \<and> signed_room_id C r = i
          \<and> og = \<lparr>og_agent = gt_agent g, og_agent_key = gt_agent_key g, og_expires_at = gt_expires_at g, og_maximum_charge = gt_maximum_charge g\<rparr>)"
proof (induction rs arbitrary: ch)
  case (Cons r rs)
  then obtain k ch1 where r: "sr_body r = BodyControl k" "kc_owner k = owner" and a: "apply_action (signed_room_id C r) (kc_action k) ch = Inr ch1"
    and rest: "replay_chain C A owner (ch1\<lparr>oc_head := Some (signed_room_id C r), oc_sequence := oc_sequence ch1 + 1,
        oc_history := oc_history ch1 @ [r]\<rparr>) rs = Some ch'"
    by (auto split: room_body.splits if_splits sum.splits)
  have ok1: "bt_ok (oc_grants ch1)" using apply_action_fields [OF a] Cons.prems(2) by simp
  have "bt_get (oc_grants ch) i = Some og \<or> (\<exists>g. kc_action k = GrantCreate g \<and> signed_room_id C r = i
      \<and> og = \<lparr>og_agent = gt_agent g, og_agent_key = gt_agent_key g, og_expires_at = gt_expires_at g, og_maximum_charge = gt_maximum_charge g\<rparr>)"
    if "bt_get (oc_grants ch1) i = Some og"
    using that a Cons.prems(2) by (auto simp: apply_action_def split: create_action.splits if_splits)
  then show ?case using Cons.IH [OF rest _ Cons.prems(3)] ok1 r by auto
qed simp

lemma open_grant_recorded:
  assumes ok: "chains_ok C A" and ch: "bt_get (ra_chains A) owner = Some ch" and g: "bt_get (oc_grants ch) i = Some og"
  shows "\<exists>r\<in>set (oc_history ch). \<exists>k g. sr_body r = BodyControl k \<and> kc_owner k = owner \<and> kc_action k = GrantCreate g \<and> signed_room_id C r = i
     \<and> og = \<lparr>og_agent = gt_agent g, og_agent_key = gt_agent_key g, og_expires_at = gt_expires_at g, og_maximum_charge = gt_maximum_charge g\<rparr>"
proof -
  have "replay_chain C A owner chain_default (oc_history ch) = Some ch" using ok ch by (simp add: chains_ok_def)
  from replay_grants [OF this _ g] show ?thesis by (auto simp: chain_default_def)
qed

text \<open>A counted award was derived by one operation from committed evidence.\<close>

lemma award_counted_by:
  assumes new: "registry_new d realm policy eligible = Inr R0" and s: "bt_contains (rg_support (registry_run C R0 ops)) t"
  shows "\<exists>before after r view now a. ops = before @ OpAwardRecord r view now # after
     \<and> assess_support r view (rg_eligible (registry_run C R0 before)) (dp_support_epoch_seconds policy) now now = Inr a \<and> award_triple a = t"
proof -
  let ?Q = "\<lambda>S. rg_policy S = policy \<longrightarrow> bt_contains (rg_support S) t"
  let ?G = "\<lambda>S op. \<exists>r view now a. op = OpAwardRecord r view now
     \<and> assess_support r view (rg_eligible S) (dp_support_epoch_seconds policy) now now = Inr a \<and> award_triple a = t"
  have ok: "registry_ok C R0" by (rule registry_new_ok [OF new])
  have pol: "rg_policy (registry_step C S op) = rg_policy S" if "registry_ok C S" for S op
    using registry_step_ok [OF that, of op] by (simp add: step_ok_def dir_grown_def)
  have "?Q S \<or> ?G S op" if S: "registry_ok C S" and q: "?Q (registry_step C S op)" for S op
  proof (cases "rg_policy S = policy")
    case True
    then have q: "bt_contains (rg_support (registry_step C S op)) t" using q pol [OF S] by simp
    show ?thesis
    proof (cases op)
      case (OpRecord r view now)
      obtain res A where a: "authority_admit C (rg_authority S) r view now = (res, A)" by fastforce
      have "rg_support (registry_step C S op) = rg_support S"
        using registry_create_cases [OF S, of r _ view now] registry_update_cases [of C S r _ view now] a
        by (cases "sr_body r"; cases res) (fastforce simp: OpRecord registry_apply_def split: prod.split sum.split)+
      then show ?thesis using q by simp
    next
      case (OpAwardRecord r view now)
      obtain res R' where a: "registry_award S r view now = (res, R')" by fastforce
      have bt: "bt_ok (rg_support S)" using S by (simp add: registry_ok_def credit_ok_def)
      from registry_award_cases [OF S a] show ?thesis
      proof (elim disjE exE conjE)
        fix award
        assume s: "assess_support r view (rg_eligible S) (dp_support_epoch_seconds (rg_policy S)) now now = Inr award"
          and "bump_revision Awarded now (with_award S r award) = (res, R')"
        then have "rg_support R' = bt_insert (award_triple award) () (rg_support S)"
          using bump_keeps(3) [of Awarded now "with_award S r award"] by (simp add: with_award_def award_triple_def)
        then have "t = award_triple award \<or> bt_contains (rg_support S) t"
          using q OpAwardRecord a bt by (auto simp: bt_contains_def split: if_splits)
        then show ?thesis using s True OpAwardRecord by auto
      qed (use q OpAwardRecord a in \<open>auto simp: with_evidence_def\<close>)
    next
      case (OpEligible e now)
      then show ?thesis using q by (simp add: registry_set_eligible_def split: if_splits)
    next
      case (OpRotate start ms now)
      then show ?thesis using q by (simp add: registry_apply_rotation_def split: sum.splits if_splits)
    qed
  qed simp
  note t = run_trace [of C R0 ?Q ?G ops, OF ok this]
  have "rg_policy R0 = policy" "rg_support R0 = bt_new" using new by (auto simp: registry_new_def)
  then have "\<not> ?Q R0" by (simp add: bt_contains_def)
  then show ?thesis using t s by blast
qed

end
