(* ===== verification/Room_Safety.thy ===== *)
theory Room_Safety
  imports Room_Trace
begin

text \<open>The properties of the room directory, and a small directory for their witnesses.\<close>

section \<open>A small directory\<close>

text \<open>Owner 7 earns a credit by a reaction of owner 9, grants it to agent 20, and the agent's proposal creates a room.\<close>

definition dir_view :: control_view where
  "dir_view =
     \<lparr>cv_owners = [(7, \<lparr>os_head = Some 70, os_key = Some 2, os_frozen = False, os_incomplete = False, os_capacity_blocked = False\<rparr>)],
      cv_agents = [(20, \<lparr>as_owner = 7, as_key = 3, as_retired = False, as_active = True\<rparr>)],
      cv_history_complete = (\<lambda>o'. o' = 7), cv_status = (\<lambda>i. if i = 50 \<or> i = 51 then SocialCommitted else SocialPending),
      cv_archive = (\<lambda>i. if i = 50 then Some \<lparr>sl_id = 50, sl_content = OriginalPost 7\<rparr> else None)\<rparr>"

definition dir_policy :: directory_policy where
  "dir_policy = \<lparr>dp_base_cost = 1, dp_window_seconds = 100, dp_max_in_window = 1, dp_support_epoch_seconds = 10, dp_max_lifetime_rooms = 4\<rparr>"

definition dir_registry :: registry where
  "dir_registry = (case registry_new 5 6 dir_policy [9] of Inr R \<Rightarrow> R)"

definition dir_grant_claims :: room_control where
  "dir_grant_claims =
     \<lparr>kc_directory = 5, kc_realm = 6, kc_owner = 7, kc_social_control = 70, kc_controller_key = 2, kc_previous = None, kc_sequence = 0,
      kc_action = GrantCreate \<lparr>gt_agent = 20, gt_agent_key = 3, gt_expires_at = 1000, gt_maximum_charge = 9, gt_nonce = 1\<rparr>\<rparr>"

definition dir_grant :: signed_room where
  "dir_grant = (case control_sign toy_crypto dir_grant_claims 2 of Inr r \<Rightarrow> r)"

definition dir_intent :: creation_intent where
  "dir_intent = \<lparr>ci_directory = 5, ci_realm = 6, ci_policy = directory_policy_id toy_crypto dir_policy, ci_initial_settings = 0, ci_owner = 7,
     ci_agent = 20, ci_owner_key = 2, ci_agent_key = 3, ci_social_control = 70, ci_room_control = signed_room_id toy_crypto dir_grant,
     ci_grant = signed_room_id toy_crypto dir_grant, ci_slug = [97], ci_description = [98], ci_slot = 1, ci_charge = 1, ci_expires_at = 900, ci_nonce = 4\<rparr>"

definition dir_create :: signed_room where
  "dir_create = (case bindR (permit_sign toy_crypto dir_intent 2) (\<lambda>p. permit_propose toy_crypto p 3) of Inr r \<Rightarrow> r)"

definition dir_update_claims :: room_update where
  "dir_update_claims =
     \<lparr>ru_directory = 5, ru_realm = 6, ru_genesis = room_genesis_id toy_crypto dir_intent, ru_previous = signed_room_id toy_crypto dir_create, ru_owner = 7,
      ru_social_control = 70, ru_controller_key = 2, ru_expires_at = 800, ru_nonce = 5, ru_action = Describe [99]\<rparr>"

definition dir_update :: signed_room where
  "dir_update = (case update_sign toy_crypto dir_update_claims 2 of Inr r \<Rightarrow> r)"

definition dir_award :: registry_op where
  "dir_award = OpAwardRecord \<lparr>sl_id = 51, sl_content = UpReaction 9 50\<rparr> dir_view 10"

definition dir_ops :: "registry_op list" where
  "dir_ops = [dir_award, OpRecord dir_grant dir_view 11, OpRecord dir_create dir_view 12, OpRecord dir_update dir_view 13]"

lemma dir_registry_new: "registry_new 5 6 dir_policy [9] = Inr dir_registry"
  by (simp add: dir_registry_def registry_new_def dir_policy_def policy_validate_def slot_cost_def checked_mul_def MAX_ROOMS_def MAX_OWNERS_def)

lemma dir_policy_id: "directory_policy_id toy_crypto dir_policy = 63"
  by (simp add: directory_policy_id_def policy_transcript_def toy_crypto_def ascii_def)

lemma dir_grant_body: "sr_body dir_grant = BodyControl
   \<lparr>kc_directory = 5, kc_realm = 6, kc_owner = 7, kc_social_control = 70, kc_controller_key = 2, kc_previous = None, kc_sequence = 0,
    kc_action = GrantCreate \<lparr>gt_agent = 20, gt_agent_key = 3, gt_expires_at = 1000, gt_maximum_charge = 9, gt_nonce = 1\<rparr>\<rparr>"
  by (simp add: dir_grant_def dir_grant_claims_def control_sign_def check_control_def room_key_def require_signer_def toy_crypto_def)

lemma dir_grant_id: "signed_room_id toy_crypto dir_grant = 299"
  by (simp add: signed_room_id_def room_record_id_def dir_grant_body body_bytes_def control_bytes_def put_scope_def put_owner_def put_previous_def
      put_create_action_def room_hash_def toy_crypto_def ROOM_RECORD_DOMAIN_def ROOM_MAGIC_def ascii_def)

lemma dir_create_body: "sr_body dir_create = BodyCreate dir_intent"
  by (simp add: dir_create_def permit_sign_def permit_propose_def check_intent_def dir_intent_def room_key_def require_signer_def toy_crypto_def)

lemma dir_genesis: "room_genesis_id toy_crypto dir_intent = 427"
  by (simp add: room_genesis_id_def dir_intent_def intent_bytes_def put_scope_def put_owner_def put_description_def room_hash_def toy_crypto_def
      ROOM_GENESIS_DOMAIN_def ROOM_MAGIC_def ascii_def)

lemma dir_create_id: "signed_room_id toy_crypto dir_create = 426"
  by (simp add: signed_room_id_def room_record_id_def dir_create_body body_bytes_def dir_intent_def intent_bytes_def put_scope_def put_owner_def
      put_description_def room_hash_def toy_crypto_def ROOM_RECORD_DOMAIN_def ROOM_MAGIC_def ascii_def)

lemma dir_update_body: "sr_body dir_update = BodyUpdate
   \<lparr>ru_directory = 5, ru_realm = 6, ru_genesis = 427, ru_previous = 426, ru_owner = 7,
    ru_social_control = 70, ru_controller_key = 2, ru_expires_at = 800, ru_nonce = 5, ru_action = Describe [99]\<rparr>"
  by (simp add: dir_update_def dir_update_claims_def update_sign_def check_update_def room_key_def require_signer_def dir_genesis dir_create_id) (simp add: toy_crypto_def)

lemma dir_update_id: "signed_room_id toy_crypto dir_update = 285"
  by (simp add: signed_room_id_def room_record_id_def dir_update_body body_bytes_def update_bytes_def put_scope_def put_owner_def
      put_update_action_def put_description_def room_hash_def toy_crypto_def ROOM_RECORD_DOMAIN_def ROOM_MAGIC_def ascii_def)

definition dir_state1 :: registry where
  "dir_state1 = dir_registry\<lparr>rg_support := [((7, 9, 1), ())],
     rg_evidence := [(51, \<lparr>ev_award = \<lparr>aw_source_owner = 9, aw_beneficiary = 7, aw_activity_epoch = 1, aw_evidence_id = 51\<rparr>,
                           ev_record = \<lparr>sl_id = 51, sl_content = UpReaction 9 50\<rparr>\<rparr>)],
     rg_accounts := [(7, \<lparr>acc_earned = 1, acc_spent = 0, acc_lifetime_slots = 0\<rparr>)], rg_last_time := 10, rg_revision := 1\<rparr>"

definition dir_state2 :: registry where
  "dir_state2 = dir_state1\<lparr>rg_authority := \<lparr>ra_directory = 5, ra_realm = 6, ra_chains = [(7, \<lparr>oc_head = Some 299, oc_sequence = 1,
       oc_history = [dir_grant], oc_grants = [(299, \<lparr>og_agent = 20, og_agent_key = 3, og_expires_at = 1000, og_maximum_charge = 9\<rparr>)]\<rparr>)],
       ra_records = 1\<rparr>, rg_last_time := 11, rg_revision := 2\<rparr>"

definition dir_room :: room where
  "dir_room = fresh_room toy_crypto dir_create 427 dir_intent 12"

definition dir_state3 :: registry where
  "dir_state3 = dir_state2\<lparr>rg_windows := [(7, [12])], rg_rooms := [([97], dir_room)], rg_by_genesis := [(427, [97])],
     rg_accounts := [(7, \<lparr>acc_earned = 1, acc_spent = 1, acc_lifetime_slots = 1\<rparr>)], rg_last_time := 12, rg_revision := 3\<rparr>"

definition dir_state4 :: registry where
  "dir_state4 = dir_state3\<lparr>rg_rooms := [([97], revise_room toy_crypto dir_update (Describe [99]) dir_room)], rg_last_time := 13, rg_revision := 4\<rparr>"

lemma dir_registry_eq: "dir_registry = \<lparr>rg_directory = 5, rg_realm = 6, rg_policy = dir_policy, rg_authority = authority_new 5 6,
    rg_eligible = [(9, ())], rg_support = [], rg_evidence = [], rg_accounts = [], rg_windows = [], rg_rooms = [], rg_by_genesis = [],
    rg_schedule = [], rg_last_time = 0, rg_revision = 0\<rparr>"
  using dir_registry_new by (auto simp: registry_new_def set_of_def bt_new_def)

named_theorems dir_eval \<open>evaluating the small directory\<close>
lemmas [dir_eval] = dir_registry_eq dir_policy_def dir_grant_body dir_grant_id dir_create_body dir_update_body dir_update_id dir_create_id dir_genesis
  dir_award_def dir_view_def MAX_SUPPORT_def MAX_OWNERS_def MAX_ROOMS_def MAX_REVISIONS_def MAX_CONTROL_RECORDS_def bt_contains_def bt_get_def bt_new_def
  checked_add_def bump_revision_def account_of_def account_default_def authority_new_def

lemma dir_step1: "registry_step toy_crypto dir_registry dir_award = dir_state1"
  by (simp add: dir_eval dir_state1_def registry_award_def assess_support_def word_div_def)

lemma dir_step2: "registry_step toy_crypto dir_state1 (OpRecord dir_grant dir_view 11) = dir_state2"
  by (simp add: dir_eval dir_state1_def dir_state2_def registry_apply_def authority_admit_def check_control_claims_def check_owner_status_def
      check_agent_status_def commit_control_def chain_entry_def chain_default_def apply_action_def put_chain_def)

lemma dir_step4: "registry_step toy_crypto dir_state3 (OpRecord dir_update dir_view 13) = dir_state4"
  by (simp add: dir_eval dir_state1_def dir_state2_def dir_state3_def dir_state4_def registry_apply_def registry_update_def assess_update_def check_owner_status_def
      dir_room_def dir_intent_def)

lemma dir_intent_eq: "dir_intent = \<lparr>ci_directory = 5, ci_realm = 6, ci_policy = 63, ci_initial_settings = 0, ci_owner = 7,
     ci_agent = 20, ci_owner_key = 2, ci_agent_key = 3, ci_social_control = 70, ci_room_control = 299,
     ci_grant = 299, ci_slug = [97], ci_description = [98], ci_slot = 1, ci_charge = 1, ci_expires_at = 900, ci_nonce = 4\<rparr>"
  by (simp add: dir_intent_def dir_policy_id dir_grant_id)

lemma dir_step3: "registry_step toy_crypto dir_state2 (OpRecord dir_create dir_view 12) = dir_state3"
  by (simp add: dir_eval dir_state1_def dir_state2_def dir_state3_def registry_apply_def registry_create_def create_checks_def signed_genesis_id_def
      assess_creation_def check_owner_status_def check_agent_status_def dir_room_def slot_cost_def checked_mul_def dir_policy_id [unfolded dir_policy_def]
      dir_intent_eq dir_genesis [unfolded dir_intent_eq])

lemma dir_run: "registry_run toy_crypto dir_registry dir_ops = dir_state4"
  by (simp only: dir_ops_def registry_run_simps dir_step1 dir_step2 dir_step3 dir_step4)

lemma dir_text_ok: "slug_ok [97]" "description_ok [98]" "description_ok [99]"
  by (simp_all add: slug_ok_def description_ok_def MAX_SLUG_BYTES_def MAX_DESCRIPTION_BYTES_def slug_byte_def str_chars_def utf8_chars.simps is_control_def)

lemma dir_signed: "control_sign toy_crypto dir_grant_claims 2 = Inr dir_grant" "update_sign toy_crypto dir_update_claims 2 = Inr dir_update"
  by (simp_all add: dir_grant_def dir_update_def control_sign_def check_control_def update_sign_def check_update_def room_key_def require_signer_def
      dir_grant_claims_def dir_update_claims_def) (simp_all add: toy_crypto_def)

lemma dir_create_signed: "\<exists>p. permit_sign toy_crypto dir_intent 2 = Inr p \<and> permit_propose toy_crypto p 3 = Inr dir_create"
proof -
  have "\<exists>p. permit_sign toy_crypto dir_intent 2 = Inr p \<and> op_intent p = dir_intent"
    by (simp add: permit_sign_def check_intent_def dir_intent_eq room_key_def require_signer_def) (simp add: toy_crypto_def)
  then obtain p where p: "permit_sign toy_crypto dir_intent 2 = Inr p" "op_intent p = dir_intent" by blast
  then have "\<exists>r. permit_propose toy_crypto p 3 = Inr r"
    by (simp add: permit_propose_def require_signer_def dir_intent_eq) (simp add: toy_crypto_def)
  then show ?thesis using p by (auto simp: dir_create_def)
qed

lemma dir_verified: "room_verify toy_crypto dir_grant = Inr dir_grant" "room_verify toy_crypto dir_create = Inr dir_create"
  "room_verify toy_crypto dir_update = Inr dir_update"
proof -
  show "room_verify toy_crypto dir_grant = Inr dir_grant"
    using control_sign_ok [OF toy_sign_correct dir_signed(1)] by (simp add: room_verify_iff)
  show "room_verify toy_crypto dir_update = Inr dir_update"
    using update_sign_ok [OF toy_sign_correct dir_signed(2)] dir_text_ok by (simp add: room_verify_iff dir_update_claims_def update_action_ok_def)
  show "room_verify toy_crypto dir_create = Inr dir_create"
    using dir_create_signed proposal_ok [OF toy_sign_correct, of dir_intent] dir_text_ok by (auto simp: room_verify_iff dir_intent_eq)
qed

section \<open>Credit and rate\<close>

text \<open>
  C34. Credit is conserved. Whatever records, awards, eligibility changes and rotations a directory applies, an
  owner's earned credit is the number of distinct support awards counted for it, its slots are the rooms it
  ever created, archived ones included, its spent credit is the sum of their prices, base * k * k for the k-th, and
  it never spends more than it earned.
\<close>

theorem credit_conserved:
  assumes "registry_new directory realm policy eligible = Inr R0"
  shows "let R = registry_run C R0 ops; a = account_of R owner; n = card (rooms_of R owner) in
    unat (acc_earned a) = card (support_of R owner) \<and> unat (acc_lifetime_slots a) = n
    \<and> unat (acc_spent a) = (\<Sum>k\<in>{1..n}. unat (dp_base_cost policy) * k * k) \<and> acc_spent a \<le> acc_earned a"
proof -
  have ok: "registry_ok C R0" by (rule registry_new_ok [OF assms])
  have "rg_policy R0 = policy" using assms by (auto simp: registry_new_def)
  then have "rg_policy (registry_run C R0 ops) = policy" "credit_ok (registry_run C R0 ops)"
    using registry_run_ok [OF ok, of ops] by (simp_all add: dir_grown_def registry_ok_def)
  then show ?thesis by (simp add: credit_ok_def Let_def price_def)
qed

lemma credit_conserved_witness:
  "let R = registry_run toy_crypto dir_registry dir_ops; a = account_of R 7 in
     a = \<lparr>acc_earned = 1, acc_spent = 1, acc_lifetime_slots = 1\<rparr> \<and> card (rooms_of R 7) = 1 \<and> card (support_of R 7) = 1"
  using credit_conserved [OF dir_registry_new, of toy_crypto dir_ops 7]
  by (simp add: dir_run Let_def dir_state4_def dir_state3_def account_of_def bt_get_def)

text \<open>
  C35. Creations are rate limited. In every state of a directory and for every span of one policy window, wherever
  it starts, an owner created at most max_in_window rooms in it: the creation windows forget
  only creations that can no longer count.
\<close>

theorem creation_rate_limited:
  assumes "registry_new directory realm policy eligible = Inr R0"
  shows "card {slug. \<exists>room. bt_get (rg_rooms (registry_run C R0 ops)) slug = Some room \<and> ci_owner (rm_intent room) = owner
    \<and> start \<le> rm_created_at room \<and> unat (rm_created_at room) < unat start + unat (dp_window_seconds policy)}
    \<le> unat (dp_max_in_window policy)"
proof -
  have ok: "registry_ok C R0" by (rule registry_new_ok [OF assms])
  have "rg_policy R0 = policy" using assms by (auto simp: registry_new_def)
  then have p: "rg_policy (registry_run C R0 ops) = policy" and "rate_ok (registry_run C R0 ops)"
    using registry_run_ok [OF ok, of ops] by (simp_all add: dir_grown_def registry_ok_def)
  then have "card (keys_where (rg_rooms (registry_run C R0 ops)) (created_between start (unat (dp_window_seconds policy)) owner)) \<le> unat (dp_max_in_window policy)"
    unfolding rate_ok_def p by blast
  then show ?thesis by (simp add: keys_where_def created_between_def)
qed

lemma creation_rate_limited_witness:
  "card {slug. \<exists>room. bt_get (rg_rooms (registry_run toy_crypto dir_registry dir_ops)) slug = Some room \<and> ci_owner (rm_intent room) = 7
     \<and> 12 \<le> rm_created_at room \<and> unat (rm_created_at room) < unat (12 :: u64) + unat (dp_window_seconds dir_policy)} \<le> 1
   \<and> bt_get (rg_rooms (registry_run toy_crypto dir_registry dir_ops)) [97] \<noteq> None"
  using creation_rate_limited [OF dir_registry_new, of toy_crypto dir_ops 7 12]
  by (simp add: dir_run dir_state4_def bt_get_def dir_policy_def)

section \<open>Creation\<close>

text \<open>
  C36. Room creation is exact. On a reachable directory a creation record that is not a retry succeeds
  exactly when the clock does not run backwards, the creation is allowed (the policy is the directory's, the owner, agent and grant are
  current, slug and capacity are free, slot and charge are the next ones and covered by credit) and the creation window is open. It
  then stores the room, charges the owner and remembers the creation; a refusal leaves the directory exactly as
  it was, and an exact retry only advances clock and revision.
\<close>

theorem room_creation_exact:
  assumes "registry_new directory realm policy eligible = Inr R0" and "R = registry_run C R0 ops"
    and "sr_body r = BodyCreate i" and "rg_revision R \<noteq> - 1"
  shows "if now < rg_last_time R then registry_apply C R r view now = (Inl RegClock, R)
    else if bt_get (rg_by_genesis R) (room_genesis_id C i) \<noteq> None
    then registry_apply C R r view now
       = (Inr (Existing (room_genesis_id C i)), R\<lparr>rg_last_time := now, rg_revision := rg_revision R + 1\<rparr>)
    else if may_create C R i view now \<and> open_window R (ci_owner i) now
    then registry_apply C R r view now = (Inr (Created (room_genesis_id C i)),
       (created_state C R r i now (ci_slot i) (acc_spent (account_of R (ci_owner i)) + ci_charge i))
         \<lparr>rg_last_time := now, rg_revision := rg_revision R + 1\<rparr>)
    else \<exists>e. registry_apply C R r view now = (Inl e, R)"
proof -
  have ok: "registry_ok C R" using registry_run_ok [OF registry_new_ok [OF assms(1)]] assms(2) by blast
  have bump: "bump_revision x now S = (Inr x, S\<lparr>rg_last_time := now, rg_revision := rg_revision R + 1\<rparr>)" if "rg_revision S = rg_revision R" for x :: applied and S
    using that assms(4) checked_add_one_None [of "rg_revision R"] by (auto simp: bump_revision_def checked_add_def split: option.splits if_splits)
  obtain res R1 where c: "registry_create C R r i view now = (res, R1)" by fastforce
  have app: "registry_apply C R r view now = (if now < rg_last_time R then (Inl RegClock, R) else
      (case res of Inl e \<Rightarrow> (Inl e, R1) | Inr x \<Rightarrow> bump_revision x now R1))"
    using c assms(3) by (cases res) (simp_all add: registry_apply_def)
  from registry_create_cases [OF ok assms(3) c] show ?thesis
  proof (elim disjE exE conjE)
    fix spent
    assume s: "unat spent = unat (acc_spent (account_of R (ci_owner i))) + unat (ci_charge i)"
      and rest: "R1 = created_state C R r i now (ci_slot i) spent" "res = Inr (Created (room_genesis_id C i))" "may_create C R i view now"
        "bt_get (rg_by_genesis R) (room_genesis_id C i) = None"
        "length (dropWhile (expired R now) (window_of R (ci_owner i))) < unat (dp_max_in_window (rg_policy R))"
    have "spent = acc_spent (account_of R (ci_owner i)) + ci_charge i"
      using s checked_add_nat [of "acc_spent (account_of R (ci_owner i))" "ci_charge i" spent] by (auto simp: checked_add_def split: if_splits)
    then show ?thesis using rest by (simp add: app open_window_def bump)
  qed (auto simp: app open_window_def bump)
qed

lemma room_creation_exact_witness:
  "registry_apply toy_crypto (registry_run toy_crypto dir_registry (take 2 dir_ops)) dir_create dir_view 12 = (Inr (Created 427), dir_state3)"
proof -
  have R: "registry_run toy_crypto dir_registry (take 2 dir_ops) = dir_state2"
    by (simp only: dir_ops_def take_Suc_Cons numeral_2_eq_2 take_0 registry_run_simps dir_step1 dir_step2)
  note t = room_creation_exact [OF dir_registry_new R [symmetric] dir_create_body, of 12 dir_view]
  have step: "snd (registry_apply toy_crypto dir_state2 dir_create dir_view 12) = dir_state3" using dir_step3 by simp
  have "may_create toy_crypto dir_state2 dir_intent dir_view 12 \<and> open_window dir_state2 7 12"
    by (simp add: dir_eval may_create_def open_window_def dir_state2_def dir_state1_def window_of_def assess_creation_def
        check_owner_status_def check_agent_status_def dir_intent_eq dir_policy_id [unfolded dir_policy_def])
  then show ?thesis using t step dir_genesis unfolding R
    by (simp add: dir_eval dir_state2_def dir_state1_def dir_intent_eq)
qed

section \<open>Evidence\<close>

text \<open>A grant of the ledger that covers a creation: a record of the same owner, signed by its controller.\<close>

definition grant_covers :: "crypto \<Rightarrow> room_authority \<Rightarrow> creation_intent \<Rightarrow> u64 \<Rightarrow> bool" where
  "grant_covers C A i t \<longleftrightarrow> (\<exists>r k g. r \<in> set (oc_history (chain_of A (ci_owner i))) \<and> signed_room_id C r = ci_grant i
     \<and> sr_body r = BodyControl k \<and> kc_owner k = ci_owner i
     \<and> verify_strict C (kc_controller_key k) (controller_transcript C (BodyControl k)) (sr_signature r)
     \<and> kc_action k = GrantCreate g \<and> gt_agent g = ci_agent i \<and> gt_agent_key g = ci_agent_key i
     \<and> t < gt_expires_at g \<and> ci_charge i \<le> gt_maximum_charge g)"

lemma assessed_grant_covers:
  assumes chains: "chains_ok C A" and a: "assess_creation A i view t = Inr ()"
    and v: "\<And>r. r \<in> set (oc_history (chain_of A (ci_owner i))) \<Longrightarrow> room_verify C r = Inr r"
  shows "grant_covers C A i t \<and> t < ci_expires_at i
     \<and> check_owner_status view (ci_owner i) (ci_social_control i) (ci_owner_key i) = Inr ()
     \<and> check_agent_status view (ci_owner i) (ci_agent i) (ci_agent_key i) = Inr ()"
proof -
  obtain ch og where c: "bt_get (ra_chains A) (ci_owner i) = Some ch" "bt_get (oc_grants ch) (ci_grant i) = Some og"
    and og: "og_agent og = ci_agent i" "og_agent_key og = ci_agent_key i" "t < og_expires_at og" "ci_charge i \<le> og_maximum_charge og"
    and rest: "t < ci_expires_at i" "check_owner_status view (ci_owner i) (ci_social_control i) (ci_owner_key i) = Inr ()"
      "check_agent_status view (ci_owner i) (ci_agent i) (ci_agent_key i) = Inr ()"
    using a by (auto simp: assess_creation_def not_le not_less split: if_splits)
  obtain r k g where r: "r \<in> set (oc_history ch)" "sr_body r = BodyControl k" "kc_owner k = ci_owner i" "kc_action k = GrantCreate g"
    "signed_room_id C r = ci_grant i"
    "og = \<lparr>og_agent = gt_agent g, og_agent_key = gt_agent_key g, og_expires_at = gt_expires_at g, og_maximum_charge = gt_maximum_charge g\<rparr>"
    using open_grant_recorded [OF chains c] by blast
  have h: "r \<in> set (oc_history (chain_of A (ci_owner i)))" using r(1) c(1) by (simp add: chain_of_def)
  from v [OF h] have "verify_strict C (kc_controller_key k) (controller_transcript C (BodyControl k)) (sr_signature r)"
    using r(2) by (simp add: room_verify_iff room_authentic_def)
  then have "grant_covers C A i t" unfolding grant_covers_def using h r og by (intro exI [of _ r] exI [of _ k] exI [of _ g]) simp
  then show ?thesis using rest by blast
qed

text \<open>
  C33. Every room rests on a grant its owner signed. If only verified records are delivered, every room of a
  directory carries the signatures of its owner over the permit and of its agent over the proposal, and it was
  created by one operation at which the owner and the agent were current and a grant covered it: an
  earlier control record of the same owner, signed by its controller, that named this agent and key, had
  not expired and allowed at least the charge.
\<close>

theorem room_rests_on_grant:
  assumes "registry_new directory realm policy eligible = Inr R0"
    and verified: "\<forall>r view now. OpRecord r view now \<in> set ops \<longrightarrow> room_verify C r = Inr r"
    and "bt_get (rg_rooms (registry_run C R0 ops)) slug = Some room" and i: "i = rm_intent room"
  shows "ci_slug i = slug \<and> verify_strict C (ci_owner_key i) (owner_transcript C i) (sr_signature (rm_record room))
    \<and> (\<exists>s. sr_acknowledgement (rm_record room) = Some s \<and> verify_strict C (ci_agent_key i) (agent_transcript C i) s)
    \<and> (\<exists>before view after. ops = before @ OpRecord (rm_record room) view (rm_created_at room) # after
         \<and> grant_covers C (rg_authority (registry_run C R0 before)) i (rm_created_at room) \<and> rm_created_at room < ci_expires_at i
         \<and> check_owner_status view (ci_owner i) (ci_social_control i) (ci_owner_key i) = Inr ()
         \<and> check_agent_status view (ci_owner i) (ci_agent i) (ci_agent_key i) = Inr ())"
proof -
  have ok: "registry_ok C (registry_run C R0 x)" for x using registry_run_ok [OF registry_new_ok [OF assms(1)]] by blast
  have slug: "ci_slug i = slug" using ok [of ops] assms(3) by (auto simp: registry_ok_def rooms_ok_def room_ok_def i)
  obtain before op after where ops: "ops = before @ op # after" and cr: "creates C (registry_run C R0 before) op i (rm_record room) (rm_created_at room)"
    using room_created_by [OF assms(1,3)] i by blast
  let ?A = "rg_authority (registry_run C R0 before)"
  obtain view where op: "op = OpRecord (rm_record room) view (rm_created_at room)" and b: "sr_body (rm_record room) = BodyCreate i"
    and a: "assess_creation ?A i view (rm_created_at room) = Inr ()" using cr by (auto simp: creates_def may_create_def)
  have "room_verify C r = Inr r" if h: "r \<in> set (oc_history (chain_of ?A (ci_owner i)))" for r
    using control_traced [OF assms(1) h] verified ops by (auto simp: controls_def)
  then have "grant_covers C ?A i (rm_created_at room) \<and> rm_created_at room < ci_expires_at i
     \<and> check_owner_status view (ci_owner i) (ci_social_control i) (ci_owner_key i) = Inr ()
     \<and> check_agent_status view (ci_owner i) (ci_agent i) (ci_agent_key i) = Inr ()"
    using assessed_grant_covers [OF _ a] ok [of before] unfolding registry_ok_def by blast
  then have "ops = before @ OpRecord (rm_record room) view (rm_created_at room) # after
         \<and> grant_covers C ?A i (rm_created_at room) \<and> rm_created_at room < ci_expires_at i
         \<and> check_owner_status view (ci_owner i) (ci_social_control i) (ci_owner_key i) = Inr ()
         \<and> check_agent_status view (ci_owner i) (ci_agent i) (ci_agent_key i) = Inr ()"
    using ops op by blast
  moreover have "room_verify C (rm_record room) = Inr (rm_record room)" using verified ops op by auto
  then have "verify_strict C (ci_owner_key i) (owner_transcript C i) (sr_signature (rm_record room))
      \<and> (\<exists>s. sr_acknowledgement (rm_record room) = Some s \<and> verify_strict C (ci_agent_key i) (agent_transcript C i) s)"
    using b by (simp add: room_verify_iff room_authentic_def)
  ultimately show ?thesis using slug by blast
qed

lemma room_rests_on_grant_witness:
  "\<exists>before view after. dir_ops = before @ OpRecord dir_create view 12 # after
     \<and> grant_covers toy_crypto (rg_authority (registry_run toy_crypto dir_registry before)) dir_intent 12"
proof -
  let ?room = "revise_room toy_crypto dir_update (Describe [99]) dir_room"
  have v: "\<forall>r view now. OpRecord r view now \<in> set dir_ops \<longrightarrow> room_verify toy_crypto r = Inr r"
    using dir_verified by (auto simp: dir_ops_def dir_award_def)
  have g: "bt_get (rg_rooms (registry_run toy_crypto dir_registry dir_ops)) [97] = Some ?room"
    by (simp add: dir_run dir_state4_def bt_get_def)
  have f: "rm_record ?room = dir_create" "rm_created_at ?room = 12" "rm_intent ?room = dir_intent" by (simp_all add: dir_room_def)
  show ?thesis
    using room_rests_on_grant [OF dir_registry_new v g refl] unfolding f by blast
qed

text \<open>
  C37. Credit rests on committed support. Every award a directory counts was derived by one operation from a committed
  up-reaction of an owner that was eligible at that moment, on a committed original post of another owner, in
  the epoch of the directory's own clock; and each beneficiary, source and epoch counts once.
\<close>

theorem credit_rests_on_support:
  assumes "registry_new directory realm policy eligible = Inr R0"
    and "bt_contains (rg_support (registry_run C R0 ops)) (beneficiary, source, epoch)"
  shows "\<exists>before after r view now post p. ops = before @ OpAwardRecord r view now # after
    \<and> sl_content r = UpReaction source post \<and> cv_status view (sl_id r) = SocialCommitted
    \<and> cv_archive view post = Some p \<and> sl_content p = OriginalPost beneficiary \<and> cv_status view post = SocialCommitted
    \<and> source \<noteq> beneficiary \<and> bt_contains (rg_eligible (registry_run C R0 before)) source
    \<and> epoch = now div dp_support_epoch_seconds policy"
proof -
  obtain before after r view now a where ops: "ops = before @ OpAwardRecord r view now # after"
    and s: "assess_support r view (rg_eligible (registry_run C R0 before)) (dp_support_epoch_seconds policy) now now = Inr a"
    and t: "award_triple a = (beneficiary, source, epoch)"
    using award_counted_by [OF assms] by blast
  from s [unfolded assess_support_iff] t show ?thesis
    by (intro exI [of _ before] exI [of _ after] exI [of _ r] exI [of _ view] exI [of _ now]) (auto simp: ops award_triple_def)
qed

lemma credit_rests_on_support_witness:
  "\<exists>before after r view now post. dir_ops = before @ OpAwardRecord r view now # after \<and> sl_content r = UpReaction 9 post
     \<and> bt_contains (rg_eligible (registry_run toy_crypto dir_registry before)) 9"
proof -
  have "bt_contains (rg_support (registry_run toy_crypto dir_registry dir_ops)) (7, 9, 1)"
    by (simp add: dir_run dir_state4_def dir_state3_def dir_state2_def dir_state1_def bt_contains_def bt_get_def)
  from credit_rests_on_support [OF dir_registry_new this] show ?thesis by blast
qed

section \<open>Persistence\<close>

text \<open>
  C38. A directory only extends, and its persistence guard says so. Between any two states of one directory, the later is accepted
  as an extension of the earlier exactly when something was recorded since: the revision advanced, or evidence for a support tuple that
  already counted was retained. Hence chains, rooms, revisions, evidence, rotations and accounts never shrink, and
  a creation that still counts is never forgotten. (The revision counter must not have reached its end.)
\<close>

theorem directory_only_extends:
  assumes "registry_new directory realm policy eligible = Inr R0" and "length earlier + length later < 2 ^ 64"
    and "P = registry_run C R0 earlier" and "R = registry_run C P later"
  shows "is_extension_of R P \<longleftrightarrow> rg_revision R \<noteq> rg_revision P \<or> length (rg_evidence R) \<noteq> length (rg_evidence P)"
proof -
  have ok: "registry_ok C R0" by (rule registry_new_ok [OF assms(1)])
  have "rg_revision R0 = 0" using assms(1) by (auto simp: registry_new_def)
  then have "unat (rg_revision P) \<le> length earlier" using revision_bound [OF ok, of earlier] assms(3) by simp
  then have "unat (rg_revision P) + length later < 2 ^ 64" using assms(2) by linarith
  moreover have "registry_ok C P" using registry_run_ok [OF ok] assms(3) by blast
  ultimately show ?thesis unfolding assms(4) by (intro run_extends)
qed

lemma directory_only_extends_witness: "is_extension_of dir_state4 dir_state2"
proof -
  have P: "dir_state2 = registry_run toy_crypto dir_registry (take 2 dir_ops)"
    by (simp only: dir_ops_def take_Suc_Cons numeral_2_eq_2 take_0 registry_run_simps dir_step1 dir_step2)
  have R: "dir_state4 = registry_run toy_crypto dir_state2 (drop 2 dir_ops)"
    by (simp only: dir_ops_def drop_Suc_Cons numeral_2_eq_2 drop_0 registry_run_simps dir_step3 dir_step4)
  show ?thesis
    using directory_only_extends [OF dir_registry_new _ P R] by (simp add: dir_ops_def dir_state4_def dir_state2_def)
qed

end
