(* ===== verification/Room_Snapshot.thy ===== *)
theory Room_Snapshot
  imports Room_Registry
begin

text \<open>
  \<open>Registry::snapshot\<close>, \<open>digest\<close> and \<open>restore\<close> (\<open>registry.rs\<close>): the canonical snapshot of a directory and the loops that
  rebuild it, with the bounded writer and reader. The encoding of a retained social record and its
  decoding with verification belong to the social crate; \<open>social_wire\<close> names the two functions.
\<close>

record social_wire =
  so_encode :: "social_record \<Rightarrow> bytes"
  so_open :: "bytes \<Rightarrow> social_record option" \<comment> \<open>\<open>SignedRecord::decode\<close> followed by \<open>verify\<close>\<close>

definition MAX_SOCIAL_RECORD_BYTES :: nat where "MAX_SOCIAL_RECORD_BYTES = 8192"
definition MAX_REGISTRY_SNAPSHOT_BYTES :: nat where "MAX_REGISTRY_SNAPSHOT_BYTES = 64 * 1024 * 1024"
definition MAX_CONTROL_OWNERS :: nat where "MAX_CONTROL_OWNERS = MAX_OWNERS"
definition SNAPSHOT_MAGIC :: bytes where "SNAPSHOT_MAGIC = ascii ''VRSN'' @ [0, 0, 0, 1]"
definition SNAPSHOT_MAGIC_PUBLIC_ACTIVITY :: bytes where "SNAPSHOT_MAGIC_PUBLIC_ACTIVITY = ascii ''VRSN'' @ [0, 0, 0, 2]"
definition SNAPSHOT_MAGIC_SCHEDULE :: bytes where "SNAPSHOT_MAGIC_SCHEDULE = ascii ''VRSN'' @ [0, 0, 0, 3]"

section \<open>Writing\<close>

definition put_count :: "nat \<Rightarrow> bytes" where
  "put_count n = to_be (word_of_nat n :: u32)"

definition put_bytes_len :: "bytes \<Rightarrow> bytes" where
  "put_bytes_len v = put_count (length v) @ v"

definition put_signed_room :: "signed_room \<Rightarrow> bytes" where
  "put_signed_room r = put_bytes_len (room_encode r)"

definition put_items :: "('a \<Rightarrow> bytes) \<Rightarrow> 'a list \<Rightarrow> bytes" where
  "put_items put xs = put_count (length xs) @ concat (map put xs)"

definition put_policy :: "directory_policy \<Rightarrow> bytes" where
  "put_policy p = to_be (dp_base_cost p) @ to_be (dp_window_seconds p) @ to_be (dp_max_in_window p)
     @ to_be (dp_support_epoch_seconds p) @ to_be (dp_max_lifetime_rooms p)"

definition put_history :: "array32 \<times> owner_chain \<Rightarrow> bytes" where
  "put_history e = to_be (fst e) @ put_items put_signed_room (oc_history (snd e))"

definition put_room :: "bytes \<times> room \<Rightarrow> bytes" where
  "put_room e = put_signed_room (rm_record (snd e)) @ to_be (rm_created_at (snd e)) @ put_items put_signed_room (rm_revisions (snd e))"

definition put_account :: "array32 \<times> account \<Rightarrow> bytes" where
  "put_account e = to_be (fst e) @ to_be (acc_earned (snd e)) @ to_be (acc_spent (snd e)) @ to_be (acc_lifetime_slots (snd e))"

definition put_window :: "array32 \<times> u64 list \<Rightarrow> bytes" where
  "put_window e = to_be (fst e) @ put_items to_be (snd e)"

definition put_evidence :: "social_wire \<Rightarrow> array32 \<times> evidence \<Rightarrow> bytes" where
  "put_evidence S e = to_be (aw_source_owner (ev_award (snd e))) @ to_be (aw_beneficiary (ev_award (snd e)))
     @ to_be (aw_activity_epoch (ev_award (snd e))) @ put_bytes_len (so_encode S (ev_record (snd e)))"

definition put_member :: "validator_member \<Rightarrow> bytes" where
  "put_member m = to_be (vm_key m) @ to_be (vm_power m)"

definition put_rotation :: "u64 \<times> validator_member list \<Rightarrow> bytes" where
  "put_rotation e = to_be (fst e) @ put_items put_member (snd e)"

definition snapshot_payload :: "social_wire \<Rightarrow> registry \<Rightarrow> bytes" where
  "snapshot_payload S R =
     to_be (rg_directory R) @ to_be (rg_realm R) @ put_policy (rg_policy R) @ to_be (rg_last_time R) @ to_be (rg_revision R)
     @ put_items (\<lambda>e. to_be (fst e)) (rg_eligible R) @ put_items put_history (ra_chains (rg_authority R))
     @ put_items put_room (rg_rooms R) @ put_items put_account (rg_accounts R) @ put_items put_window (rg_windows R)
     @ put_items (put_evidence S) (rg_evidence R) @ (if rg_schedule R = [] then [] else put_items put_rotation (rg_schedule R))"

definition snapshot_magic :: "crypto \<Rightarrow> registry \<Rightarrow> bytes" where
  "snapshot_magic C R =
     (if rg_schedule R \<noteq> [] then SNAPSHOT_MAGIC_SCHEDULE
      else if \<exists>e\<in>set (rg_rooms R). room_activity_policy C (snd e) \<noteq> None then SNAPSHOT_MAGIC_PUBLIC_ACTIVITY
      else SNAPSHOT_MAGIC)"

definition snapshot_checksum :: "crypto \<Rightarrow> bytes \<Rightarrow> array32" where
  "snapshot_checksum C payload = sha256 C (ascii ''vhalla/rooms/registry-snapshot/v1'' @ [0] @ payload)"

definition registry_snapshot :: "crypto \<Rightarrow> social_wire \<Rightarrow> registry \<Rightarrow> bytes" where
  "registry_snapshot C S R =
     snapshot_magic C R @ snapshot_payload S R @ to_be (snapshot_checksum C (snapshot_payload S R))"

definition registry_digest :: "crypto \<Rightarrow> social_wire \<Rightarrow> registry \<Rightarrow> array32" where
  "registry_digest C S R =
     (let s = registry_snapshot C S R in snapshot_checksum C (take (length s - 32 - length SNAPSHOT_MAGIC) (drop (length SNAPSHOT_MAGIC) s)))"

section \<open>Reading\<close>

definition rd_count :: "nat \<Rightarrow> (registry_error, nat) reader" where
  "rd_count bound bs = bindR (rd_word RegCorrupt bs) (\<lambda>(n :: u32, bs). if unat n > bound then Inl RegCorrupt else Inr (unat n, bs))"

text \<open>\<open>for _ in 0..count\<close> around a body that reads and mutates.\<close>

fun rd_loop :: "nat \<Rightarrow> ('s \<Rightarrow> (registry_error, 's) reader) \<Rightarrow> 's \<Rightarrow> (registry_error, 's) reader" where
  "rd_loop 0 body s bs = Inr (s, bs)"
| "rd_loop (Suc n) body s bs = bindR (body s bs) (\<lambda>(s, bs). rd_loop n body s bs)"

definition rd_items :: "nat \<Rightarrow> ('s \<Rightarrow> (registry_error, 's) reader) \<Rightarrow> 's \<Rightarrow> (registry_error, 's) reader" where
  "rd_items bound body s bs = bindR (rd_count bound bs) (\<lambda>(n, bs). rd_loop n body s bs)"

definition rd_list :: "nat \<Rightarrow> (registry_error, 'a) reader \<Rightarrow> (registry_error, 'a list) reader" where
  "rd_list bound rd bs = bindR (rd_count bound bs) (\<lambda>(n, bs). rd_many rd n bs)"

text \<open>\<open>record(MAX_RECORD_BYTES)?.verify()\<close>\<close>

definition rd_verified :: "crypto \<Rightarrow> (registry_error, signed_room) reader" where
  "rd_verified C bs =
     bindR (rd_word RegCorrupt bs) (\<lambda>(len :: u32, bs).
     if unat len > MAX_ROOM_RECORD_BYTES then Inl RegCorrupt
     else bindR (rd_take RegCorrupt (unat len) bs) (\<lambda>(raw, bs).
     bindR (map_err (\<lambda>_. RegCorrupt) (room_decode C raw)) (\<lambda>r.
     bindR (map_err (\<lambda>_. RegCorrupt) (room_verify C r)) (\<lambda>r. Inr (r, bs)))))"

definition rd_social :: "social_wire \<Rightarrow> (registry_error, social_record) reader" where
  "rd_social S bs =
     bindR (rd_word RegCorrupt bs) (\<lambda>(len :: u32, bs).
     if unat len > MAX_SOCIAL_RECORD_BYTES then Inl RegCorrupt
     else bindR (rd_take RegCorrupt (unat len) bs) (\<lambda>(raw, bs).
     bindR (ok_or RegCorrupt (so_open S raw)) (\<lambda>r. Inr (r, bs))))"

definition rd_policy :: "(registry_error, directory_policy) reader" where
  "rd_policy bs =
     bindR (rd_word RegCorrupt bs) (\<lambda>(base_cost, bs).
     bindR (rd_word RegCorrupt bs) (\<lambda>(window_seconds, bs).
     bindR (rd_word RegCorrupt bs) (\<lambda>(max_in_window, bs).
     bindR (rd_word RegCorrupt bs) (\<lambda>(support_epoch_seconds, bs).
     bindR (rd_word RegCorrupt bs) (\<lambda>(max_lifetime_rooms, bs).
       Inr (\<lparr>dp_base_cost = base_cost, dp_window_seconds = window_seconds, dp_max_in_window = max_in_window,
              dp_support_epoch_seconds = support_epoch_seconds, dp_max_lifetime_rooms = max_lifetime_rooms\<rparr>, bs))))))"

definition restore_record :: "crypto \<Rightarrow> array32 \<Rightarrow> room_authority \<Rightarrow> (registry_error, room_authority) reader" where
  "restore_record C owner A bs =
     bindR (rd_verified C bs) (\<lambda>(r, bs).
     (case sr_body r of
        BodyControl k \<Rightarrow>
          if kc_owner k \<noteq> owner then Inl RegCorrupt
          else (case commit_control C A r of (Inl _, _) \<Rightarrow> Inl RegCorrupt | (Inr _, A) \<Rightarrow> Inr (A, bs))
      | _ \<Rightarrow> Inl RegCorrupt))"

definition restore_chain :: "crypto \<Rightarrow> registry \<Rightarrow> (registry_error, registry) reader" where
  "restore_chain C R bs =
     bindR (rd_word RegCorrupt bs) (\<lambda>(owner, bs).
     bindR (rd_items MAX_CONTROL_RECORDS (restore_record C owner) (rg_authority R) bs) (\<lambda>(A, bs).
       Inr (R\<lparr>rg_authority := A\<rparr>, bs)))"

definition restore_revision :: "crypto \<Rightarrow> array32 \<Rightarrow> u128 \<Rightarrow> array32 \<Rightarrow> room \<Rightarrow> (registry_error, room) reader" where
  "restore_revision C directory realm genesis room bs =
     bindR (rd_verified C bs) (\<lambda>(r, bs).
     (case sr_body r of
        BodyUpdate u \<Rightarrow>
          if ru_genesis u \<noteq> genesis \<or> ru_previous u \<noteq> rm_head room \<or> ru_directory u \<noteq> directory \<or> ru_realm u \<noteq> realm then Inl RegCorrupt
          else Inr (revise_room C r (ru_action u) room, bs)
      | _ \<Rightarrow> Inl RegCorrupt))"

definition restore_room :: "crypto \<Rightarrow> array32 \<Rightarrow> u128 \<Rightarrow> registry \<Rightarrow> (registry_error, registry) reader" where
  "restore_room C directory realm R bs =
     bindR (rd_verified C bs) (\<lambda>(r, bs).
     bindR (ok_or RegCorrupt (signed_genesis_id C r)) (\<lambda>genesis.
     (case sr_body r of
        BodyCreate i \<Rightarrow>
          if ci_directory i \<noteq> directory \<or> ci_realm i \<noteq> realm then Inl RegCorrupt
          else
            bindR (rd_word RegCorrupt bs) (\<lambda>(created_at, bs).
            bindR (rd_items MAX_REVISIONS (restore_revision C directory realm genesis) (fresh_room C r genesis i created_at) bs) (\<lambda>(room, bs).
              Inr (R\<lparr>rg_by_genesis := bt_insert genesis (ci_slug i) (rg_by_genesis R),
                     rg_rooms := bt_insert (ci_slug i) room (rg_rooms R)\<rparr>, bs)))
      | _ \<Rightarrow> Inl RegCorrupt)))"

definition restore_account :: "registry \<Rightarrow> (registry_error, registry) reader" where
  "restore_account R bs =
     bindR (rd_word RegCorrupt bs) (\<lambda>(owner, bs).
     bindR (rd_word RegCorrupt bs) (\<lambda>(earned, bs).
     bindR (rd_word RegCorrupt bs) (\<lambda>(spent, bs).
     bindR (rd_word RegCorrupt bs) (\<lambda>(lifetime_slots, bs).
       Inr (R\<lparr>rg_accounts := bt_insert owner \<lparr>acc_earned = earned, acc_spent = spent, acc_lifetime_slots = lifetime_slots\<rparr>
              (rg_accounts R)\<rparr>, bs)))))"

definition restore_window :: "directory_policy \<Rightarrow> registry \<Rightarrow> (registry_error, registry) reader" where
  "restore_window p R bs =
     bindR (rd_word RegCorrupt bs) (\<lambda>(owner, bs).
     bindR (rd_list (unat (dp_max_in_window p)) (rd_word RegCorrupt) bs) (\<lambda>(times, bs).
       Inr (R\<lparr>rg_windows := bt_insert owner times (rg_windows R)\<rparr>, bs)))"

definition restore_evidence :: "social_wire \<Rightarrow> registry \<Rightarrow> (registry_error, registry) reader" where
  "restore_evidence S R bs =
     bindR (rd_word RegCorrupt bs) (\<lambda>(source_owner, bs).
     bindR (rd_word RegCorrupt bs) (\<lambda>(beneficiary, bs).
     bindR (rd_word RegCorrupt bs) (\<lambda>(activity_epoch, bs).
     bindR (rd_social S bs) (\<lambda>(r, bs).
       Inr (R\<lparr>rg_support := bt_insert (beneficiary, source_owner, activity_epoch) () (rg_support R),
              rg_evidence := bt_insert (sl_id r) \<lparr>ev_award = \<lparr>aw_source_owner = source_owner, aw_beneficiary = beneficiary,
                aw_activity_epoch = activity_epoch, aw_evidence_id = sl_id r\<rparr>, ev_record = r\<rparr> (rg_evidence R)\<rparr>, bs)))))"

definition rd_member :: "(registry_error, validator_member) reader" where
  "rd_member bs =
     bindR (rd_word RegCorrupt bs) (\<lambda>(key, bs).
     bindR (rd_word RegCorrupt bs) (\<lambda>(power, bs). Inr (\<lparr>vm_key = key, vm_power = power\<rparr>, bs)))"

fun members_ascend :: "validator_member list \<Rightarrow> bool" where
  "members_ascend (a # b # ms) = (member_le a b \<and> a \<noteq> b \<and> members_ascend (b # ms))"
| "members_ascend _ = True"

definition restore_rotation :: "crypto \<Rightarrow> u64 \<times> registry \<Rightarrow> (registry_error, u64 \<times> registry) reader" where
  "restore_rotation C s bs = (case s of (previous, R) \<Rightarrow>
     bindR (rd_word RegCorrupt bs) (\<lambda>(start, bs).
     bindR (rd_list MAX_VALIDATORS rd_member bs) (\<lambda>(ms, bs).
     if ms = [] \<or> start \<le> previous \<or> \<not> members_ascend ms \<or> bt_contains (rg_schedule R) start then Inl RegCorrupt
     else bindR (check_members C RegCorrupt RegCorrupt [] 0 ms) (\<lambda>_.
       Inr ((start, R\<lparr>rg_schedule := bt_insert start ms (rg_schedule R)\<rparr>), bs)))))"

definition restore_body :: "crypto \<Rightarrow> social_wire \<Rightarrow> bool \<Rightarrow> (registry_error, registry) reader" where
  "restore_body C S schedule_layout bs =
     bindR (rd_word RegCorrupt bs) (\<lambda>(directory, bs).
     bindR (rd_word RegCorrupt bs) (\<lambda>(realm, bs).
     bindR (rd_policy bs) (\<lambda>(p, bs).
     bindR (rd_word RegCorrupt bs) (\<lambda>(last_time, bs).
     bindR (rd_word RegCorrupt bs) (\<lambda>(revision, bs).
     bindR (policy_validate p) (\<lambda>_.
     bindR (rd_list MAX_OWNERS (rd_word RegCorrupt) bs) (\<lambda>(eligible, bs).
     bindR (registry_new directory realm p eligible) (\<lambda>R.
     bindR (rd_items MAX_CONTROL_OWNERS (restore_chain C) (R\<lparr>rg_last_time := last_time, rg_revision := revision\<rparr>) bs) (\<lambda>(R, bs).
     bindR (rd_items MAX_ROOMS (restore_room C directory realm) R bs) (\<lambda>(R, bs).
     bindR (rd_items MAX_OWNERS restore_account R bs) (\<lambda>(R, bs).
     bindR (rd_items MAX_OWNERS (restore_window p) R bs) (\<lambda>(R, bs).
     bindR (rd_items MAX_SUPPORT (restore_evidence S) R bs) (\<lambda>(R, bs).
     if schedule_layout
     then bindR (rd_items MAX_ROTATIONS (restore_rotation C) (0, R) bs) (\<lambda>((_, R), bs). Inr (R, bs))
     else Inr (R, bs))))))))))))))"

definition registry_restore :: "crypto \<Rightarrow> social_wire \<Rightarrow> bytes \<Rightarrow> registry_error + registry" where
  "registry_restore C S raw =
     (if length raw < length SNAPSHOT_MAGIC + 32 \<or> length raw > MAX_REGISTRY_SNAPSHOT_BYTES
         \<or> \<not> (take (length SNAPSHOT_MAGIC) raw = SNAPSHOT_MAGIC \<or> take (length SNAPSHOT_MAGIC) raw = SNAPSHOT_MAGIC_PUBLIC_ACTIVITY
               \<or> take (length SNAPSHOT_MAGIC) raw = SNAPSHOT_MAGIC_SCHEDULE) then Inl RegCorrupt
      else
        let magic = take (length SNAPSHOT_MAGIC) raw;
            body = take (length raw - 32 - length SNAPSHOT_MAGIC) (drop (length SNAPSHOT_MAGIC) raw) in
        if to_be (snapshot_checksum C body) \<noteq> drop (length raw - 32) raw then Inl RegCorrupt
        else bindR (restore_body C S (magic = SNAPSHOT_MAGIC_SCHEDULE) body) (\<lambda>(R, rest).
          if rest \<noteq> [] \<or> magic \<noteq> snapshot_magic C R then Inl RegCorrupt else Inr R))"

end
