(* ===== verification/Room_Restore.thy ===== *)
theory Room_Restore
  imports Room_Snapshot Room_Trace
begin

text \<open>
  Restoring the snapshot of a directory gives it back: each loop of \<open>restore_body\<close> rebuilds its part from
  what the corresponding part of \<open>snapshot_payload\<close> wrote, and the derived parts (the index by genesis, the
  support set, the replayed chains and rooms) agree by the invariant.
\<close>

section \<open>Loops\<close>

lemma rd_count_put: "n \<le> bound \<Longrightarrow> n < 2 ^ 32 \<Longrightarrow> rd_count bound (put_count n @ rest) = Inr (n, rest)"
  by (simp add: rd_count_def put_count_def rd_word_to_be unat_of_nat)

lemma rd_count_over: "bound < n \<Longrightarrow> n < 2 ^ 32 \<Longrightarrow> rd_count bound (put_count n @ rest) = Inl RegCorrupt"
  by (simp add: rd_count_def put_count_def rd_word_to_be unat_of_nat)

lemma rd_loop_put:
  assumes "\<And>ys x zs rest. xs = ys @ x # zs \<Longrightarrow> body (g ys) (put x @ rest) = Inr (g (ys @ [x]), rest)"
  shows "rd_loop (length xs) body (g []) (concat (map put xs) @ rest) = Inr (g xs, rest)"
proof -
  have "rd_loop (length zs) body (g ys) (concat (map put zs) @ rest) = Inr (g (ys @ zs), rest)" if "xs = ys @ zs" for ys zs
    using that
  proof (induction zs arbitrary: ys)
    case (Cons z zs)
    have "body (g ys) (put z @ concat (map put zs) @ rest) = Inr (g (ys @ [z]), concat (map put zs) @ rest)"
      using assms Cons.prems by blast
    then show ?case using Cons.IH [of "ys @ [z]"] Cons.prems by simp
  qed simp
  from this [of "[]" xs] show ?thesis by simp
qed

lemma rd_items_put:
  assumes "length xs \<le> bound" and "bound < 2 ^ 32"
    and "\<And>ys x zs rest. xs = ys @ x # zs \<Longrightarrow> body (g ys) (put x @ rest) = Inr (g (ys @ [x]), rest)"
  shows "rd_items bound body (g []) (put_items put xs @ rest) = Inr (g xs, rest)"
  using rd_loop_put [of xs body g put rest, OF assms(3)] rd_count_put [OF assms(1)] assms(1,2) by (simp add: rd_items_def put_items_def)

lemma rd_items_over:
  "bound < length xs \<Longrightarrow> length xs < 2 ^ 32 \<Longrightarrow> rd_items bound body s (put_items put xs @ rest) = Inl RegCorrupt"
  by (simp add: rd_items_def put_items_def rd_count_over)

lemma rd_list_put:
  assumes "length xs \<le> bound" and "bound < 2 ^ 32" and "\<And>x rest. x \<in> set xs \<Longrightarrow> rd (put x @ rest) = Inr (x, rest)"
  shows "rd_list bound rd (put_items put xs @ rest) = Inr (xs, rest)"
proof -
  have "rd_many rd (length xs) (concat (map put xs) @ rest) = Inr (xs, rest)"
    using assms(3) by (induction xs) simp_all
  then show ?thesis using rd_count_put [OF assms(1)] assms(1,2) by (simp add: rd_list_def put_items_def)
qed

section \<open>Maps read in order\<close>

lemma bt_insert_last: "bt_ok (ys @ [(k, w)]) \<Longrightarrow> bt_insert k v ys = ys @ [(k, v)]"
  by (induction ys) (auto simp: bt_ok_def ascending_iff)

lemma bt_ok_front: "bt_ok (ys @ zs) \<Longrightarrow> bt_ok ys"
  by (simp add: bt_ok_def ascending_iff sorted_wrt_append)

lemma bt_ok_step: "bt_ok (ys @ (k, v) # zs) \<Longrightarrow> bt_insert k v ys = ys @ [(k, v)]"
  using bt_insert_last [of ys k v v] bt_ok_front [of "ys @ [(k, v)]" zs] by simp

lemma set_of_entries: "bt_ok m \<Longrightarrow> set_of (map fst m) = m"
proof -
  assume ok: "bt_ok m"
  have "fold (\<lambda>x. bt_insert x ()) (map fst zs) ys = ys @ zs" if "m = ys @ zs" for ys zs
    using that
  proof (induction zs arbitrary: ys)
    case (Cons z zs)
    obtain k where z: "z = (k, ())" by (cases z) simp
    have "bt_insert k () ys = ys @ [(k, ())]" using ok Cons.prems z bt_ok_step [of ys k "()" zs] by simp
    then show ?case using Cons.IH [of "ys @ [(k, ())]"] Cons.prems z by simp
  qed simp
  from this [of "[]" m] show ?thesis by (simp add: set_of_def bt_new_def)
qed

section \<open>Records\<close>

definition record_fine :: "crypto \<Rightarrow> signed_room \<Rightarrow> bool" where
  "record_fine C r \<longleftrightarrow> room_decode C (room_encode r) = Inr r \<and> room_verify C r = Inr r"

lemma encoded_length: "record_fine C r \<Longrightarrow> length (room_encode r) \<le> MAX_ROOM_RECORD_BYTES"
  by (auto simp: record_fine_def room_decode_def split_frame_def not_less split: if_splits)

lemma rd_verified_put: "record_fine C r \<Longrightarrow> rd_verified C (put_signed_room r @ rest) = Inr (r, rest)"
proof -
  assume r: "record_fine C r"
  then have "length (room_encode r) \<le> 2048" using encoded_length by (simp add: MAX_ROOM_RECORD_BYTES_def)
  then have "unat (word_of_nat (length (room_encode r)) :: u32) = length (room_encode r)" by (simp add: unat_of_nat)
  then show ?thesis
    using r encoded_length [OF r]
    by (simp add: rd_verified_def put_signed_room_def put_bytes_len_def put_count_def rd_word_to_be record_fine_def)
qed

section \<open>Control chains\<close>

lemma chain_entry_put: "bt_ok (ra_chains A) \<Longrightarrow> \<exists>A1. chain_entry A owner = (A1, chain_of A owner) \<and> ra_records A1 = ra_records A
    \<and> (\<forall>ch. put_chain owner ch A1 = put_chain owner ch A)"
  by (cases "bt_get (ra_chains A) owner") (auto simp: chain_entry_def chain_of_def put_chain_def bt_insert_twice)

lemma commit_replay:
  assumes bt: "bt_ok (ra_chains A)" and replay: "replay_chain C A owner (chain_of A owner) (r # rs) = Some ch'"
    and records: "ra_records A < MAX_CONTROL_RECORDS" and s: "unat (oc_sequence (chain_of A owner)) < 4096"
  shows "\<exists>ch1 k. commit_control C A r = (Inr (), A\<lparr>ra_chains := bt_insert owner ch1 (ra_chains A), ra_records := ra_records A + 1\<rparr>)
    \<and> replay_chain C A owner ch1 rs = Some ch' \<and> oc_sequence ch1 = oc_sequence (chain_of A owner) + 1 \<and> sr_body r = BodyControl k \<and> kc_owner k = owner"
proof -
  obtain k ch2 where k: "sr_body r = BodyControl k" "kc_owner k = owner" "kc_directory k = ra_directory A" "kc_realm k = ra_realm A"
    "kc_previous k = oc_head (chain_of A owner)" "kc_sequence k = oc_sequence (chain_of A owner)"
    "apply_action (signed_room_id C r) (kc_action k) (chain_of A owner) = Inr ch2"
    "replay_chain C A owner (ch2\<lparr>oc_head := Some (signed_room_id C r), oc_sequence := oc_sequence ch2 + 1, oc_history := oc_history ch2 @ [r]\<rparr>) rs = Some ch'"
    using replay by (auto split: room_body.splits if_splits sum.splits)
  obtain A1 where e: "chain_entry A owner = (A1, chain_of A owner)" "ra_records A1 = ra_records A" "\<forall>ch. put_chain owner ch A1 = put_chain owner ch A"
    using chain_entry_put [OF bt] by blast
  have f: "oc_sequence ch2 = oc_sequence (chain_of A owner)" using apply_action_fields [OF k(7)] by simp
  have "checked_add (oc_sequence (chain_of A owner)) 1 = Some (oc_sequence (chain_of A owner) + 1)" using s by (simp add: checked_add_def)
  then have "commit_control C A r = (Inr (), (put_chain owner (ch2\<lparr>oc_head := Some (signed_room_id C r), oc_sequence := oc_sequence ch2 + 1,
      oc_history := oc_history ch2 @ [r]\<rparr>) A)\<lparr>ra_records := ra_records A + 1\<rparr>)"
    using k e f records by (simp add: commit_control_def)
  then show ?thesis using k(1,2,8) f unfolding put_chain_def
    by (intro exI [of _ "ch2\<lparr>oc_head := Some (signed_room_id C r), oc_sequence := oc_sequence ch2 + 1, oc_history := oc_history ch2 @ [r]\<rparr>"] exI [of _ k]) simp
qed

lemma restore_records_put:
  assumes "bt_ok (ra_chains A)" and "replay_chain C A owner (chain_of A owner) hs = Some ch'" and "\<forall>r\<in>set hs. record_fine C r"
    and "ra_records A + length hs \<le> MAX_CONTROL_RECORDS" and "unat (oc_sequence (chain_of A owner)) + length hs \<le> 4096"
  shows "rd_loop (length hs) (restore_record C owner) A (concat (map put_signed_room hs) @ rest)
    = Inr (if hs = [] then A else A\<lparr>ra_chains := bt_insert owner ch' (ra_chains A), ra_records := ra_records A + length hs\<rparr>, rest)"
  using assms
proof (induction hs arbitrary: A)
  case (Cons r hs)
  obtain ch1 k where c: "commit_control C A r = (Inr (), A\<lparr>ra_chains := bt_insert owner ch1 (ra_chains A), ra_records := ra_records A + 1\<rparr>)"
    and re: "replay_chain C A owner ch1 hs = Some ch'" and sq: "oc_sequence ch1 = oc_sequence (chain_of A owner) + 1"
    and k: "sr_body r = BodyControl k" "kc_owner k = owner"
    using commit_replay [OF Cons.prems(1,2)] Cons.prems(4,5) by auto
  let ?A = "A\<lparr>ra_chains := bt_insert owner ch1 (ra_chains A), ra_records := ra_records A + 1\<rparr>"
  have ch: "chain_of ?A owner = ch1" using Cons.prems(1) by (simp add: chain_of_def)
  have "unat (oc_sequence ch1) = unat (oc_sequence (chain_of A owner)) + 1"
    using Cons.prems(5) unfolding sq by (simp add: unat_plus_noloss)
  then have "rd_loop (length hs) (restore_record C owner) ?A (concat (map put_signed_room hs) @ rest)
    = Inr (if hs = [] then ?A else ?A\<lparr>ra_chains := bt_insert owner ch' (ra_chains ?A), ra_records := ra_records ?A + length hs\<rparr>, rest)"
    using Cons.prems re ch replay_chain_cong [of ?A A C] by (intro Cons.IH) simp_all
  moreover have "restore_record C owner A (put_signed_room r @ concat (map put_signed_room hs) @ rest) = Inr (?A, concat (map put_signed_room hs) @ rest)"
    using Cons.prems(3) k c by (simp add: restore_record_def rd_verified_put)
  moreover have "hs = [] \<Longrightarrow> ch1 = ch'" using re by simp
  ultimately show ?case using Cons.prems(1) by (simp add: bt_insert_twice)
qed simp

definition with_history :: "(array32, owner_chain) btree_map \<Rightarrow> (array32, owner_chain) btree_map" where
  "with_history m = filter (\<lambda>e. oc_history (snd e) \<noteq> []) m"

definition history_count :: "(array32, owner_chain) btree_map \<Rightarrow> nat" where
  "history_count m = sum_list (map (\<lambda>e. length (oc_history (snd e))) m)"

definition drop_empty :: "room_authority \<Rightarrow> room_authority" where
  "drop_empty A = A\<lparr>ra_chains := with_history (ra_chains A)\<rparr>"

lemma restore_chains_put:
  assumes ok: "chains_ok C A" and fine: "\<And>owner r. r \<in> set (oc_history (chain_of A owner)) \<Longrightarrow> record_fine C r"
    and few: "length (ra_chains A) \<le> MAX_CONTROL_OWNERS" and R: "rg_authority R = authority_new (ra_directory A) (ra_realm A)"
  shows "rd_items MAX_CONTROL_OWNERS (restore_chain C) R (put_items put_history (ra_chains A) @ rest) = Inr (R\<lparr>rg_authority := drop_empty A\<rparr>, rest)"
proof -
  let ?auth = "\<lambda>ys. \<lparr>ra_directory = ra_directory A, ra_realm = ra_realm A, ra_chains = with_history ys, ra_records = history_count ys\<rparr>"
  let ?g = "\<lambda>ys. R\<lparr>rg_authority := ?auth ys\<rparr>"
  have bt: "bt_ok (ra_chains A)" using ok by (simp add: chains_ok_def)
  have step: "restore_chain C (?g ys) (put_history x @ rest) = Inr (?g (ys @ [x]), rest)" if split: "ra_chains A = ys @ x # zs" for ys x zs rest
  proof -
    obtain owner ch where x: "x = (owner, ch)" by (cases x)
    have get: "bt_get (ra_chains A) owner = Some ch" using split x btree.entries_get [OF bt] by simp
    then have ch: "chain_of A owner = ch" by (simp add: chain_of_def)
    have replay: "replay_chain C A owner chain_default (oc_history ch) = Some ch" using ok get by (simp add: chains_ok_def)
    have total: "history_count ys + length (oc_history ch) \<le> MAX_CONTROL_RECORDS"
      using ok split x by (simp add: chains_ok_def history_count_def)
    have btf: "bt_ok (with_history ys)" using bt split bt_ok_front bt_ok_filter unfolding with_history_def by metis
    have ins: "bt_insert owner ch (with_history ys) = with_history ys @ [(owner, ch)]" if "oc_history ch \<noteq> []"
    proof -
      have "bt_ok (with_history (ys @ [x]))" unfolding with_history_def
        by (rule bt_ok_filter, rule bt_ok_front [of _ zs]) (use bt split in simp)
      then show ?thesis using that x bt_insert_last by (simp add: with_history_def)
    qed
    have "bt_get ys owner = None"
    proof (rule ccontr)
      assume "bt_get ys owner \<noteq> None"
      then have "owner \<in> fst ` set ys" using bt split bt_ok_front btree.keys_get [of ys owner] by metis
      moreover have "distinct (map fst (ra_chains A))" using bt ascending_distinct by (simp add: bt_ok_def)
      ultimately show False using split x by auto
    qed
    then have "bt_get (with_history ys) owner = None"
      using bt split bt_ok_front bt_get_filter [of ys "\<lambda>e. oc_history (snd e) \<noteq> []" owner] unfolding with_history_def by (metis not_Some_eq)
    then have c0: "chain_of (?auth ys) owner = chain_default" by (simp add: chain_of_def)
    have cong: "replay_chain C (?auth ys) = replay_chain C A" using replay_chain_cong [of "?auth ys" A C] by (simp add: fun_eq_iff)
    have len: "length (oc_history ch) \<le> MAX_CONTROL_RECORDS" using total by simp
    have "rd_loop (length (oc_history ch)) (restore_record C owner) (?auth ys) (concat (map put_signed_room (oc_history ch)) @ rest)
      = Inr (if oc_history ch = [] then ?auth ys else (?auth ys)\<lparr>ra_chains := bt_insert owner ch (with_history ys), ra_records := history_count ys + length (oc_history ch)\<rparr>, rest)"
      using restore_records_put [of "?auth ys" C owner "oc_history ch" ch rest] btf replay c0 cong total len fine [of _ owner] ch
      by (simp add: chain_default_def MAX_CONTROL_RECORDS_def)
    moreover have "(if oc_history ch = [] then ?auth ys else (?auth ys)\<lparr>ra_chains := bt_insert owner ch (with_history ys), ra_records := history_count ys + length (oc_history ch)\<rparr>)
      = ?auth (ys @ [x])" using ins x by (simp add: with_history_def history_count_def)
    ultimately have "rd_items MAX_CONTROL_RECORDS (restore_record C owner) (?auth ys) (put_items put_signed_room (oc_history ch) @ rest) = Inr (?auth (ys @ [x]), rest)"
      using len rd_count_put [OF len] by (simp add: rd_items_def put_items_def MAX_CONTROL_RECORDS_def)
    then show ?thesis by (simp add: restore_chain_def put_history_def x rd_word_to_be)
  qed
  have "?g [] = R" using R by (cases R) (simp add: with_history_def history_count_def authority_new_def bt_new_def)
  moreover have "?auth (ra_chains A) = drop_empty A" using ok by (cases A) (simp add: drop_empty_def chains_ok_def history_count_def)
  moreover have "rd_items MAX_CONTROL_OWNERS (restore_chain C) (?g []) (put_items put_history (ra_chains A) @ rest) = Inr (?g (ra_chains A), rest)"
    by (rule rd_items_put [where g = ?g, OF few]) (simp add: MAX_CONTROL_OWNERS_def MAX_OWNERS_def, rule step)
  ultimately show ?thesis by simp
qed

section \<open>Rooms\<close>

lemma restore_revisions_put:
  assumes "replay_room C R room rs = Some room'" and "\<forall>r\<in>set rs. record_fine C r" and "ci_owner (rm_intent room) = owner"
  shows "rd_loop (length rs) (restore_revision C (rg_directory R) (rg_realm R) (rm_genesis room)) room (concat (map put_signed_room rs) @ rest) = Inr (room', rest)"
  using assms
proof (induction rs arbitrary: room)
  case (Cons r rs)
  obtain u where u: "sr_body r = BodyUpdate u" "ru_directory u = rg_directory R" "ru_realm u = rg_realm R" "ru_genesis u = rm_genesis room"
    "ru_previous u = rm_head room" "replay_room C R (revise_room C r (ru_action u) room) rs = Some room'"
    using Cons.prems(1) by (auto split: room_body.splits if_splits)
  then show ?case using Cons.IH [OF u(6)] Cons.prems(2,3) by (simp add: restore_revision_def rd_verified_put)
qed simp

definition room_records :: "room \<Rightarrow> signed_room set" where
  "room_records room = insert (rm_record room) (set (rm_revisions room))"

definition genesis_index :: "(bytes, room) btree_map \<Rightarrow> (array32, bytes) btree_map" where
  "genesis_index m = fold (\<lambda>e. bt_insert (rm_genesis (snd e)) (fst e)) m bt_new"

lemma restore_room_put:
  assumes ok: "room_ok C R slug room" and fine: "\<forall>r\<in>room_records room. record_fine C r"
  shows "restore_room C (rg_directory R) (rg_realm R) S (put_room (slug, room) @ rest)
    = Inr (S\<lparr>rg_by_genesis := bt_insert (rm_genesis room) slug (rg_by_genesis S), rg_rooms := bt_insert slug room (rg_rooms S)\<rparr>, rest)"
proof -
  let ?i = "rm_intent room" and ?r = "rm_record room"
  let ?fresh = "fresh_room C ?r (rm_genesis room) ?i (rm_created_at room)"
  have f: "sr_body ?r = BodyCreate ?i" "ci_slug ?i = slug" "ci_directory ?i = rg_directory R" "ci_realm ?i = rg_realm R"
    "rm_genesis room = room_genesis_id C ?i" "length (rm_revisions room) \<le> MAX_REVISIONS" "replay_room C R ?fresh (rm_revisions room) = Some room"
    using ok unfolding room_ok_def by blast+
  have "rd_loop (length (rm_revisions room)) (restore_revision C (rg_directory R) (rg_realm R) (rm_genesis room)) ?fresh
      (concat (map put_signed_room (rm_revisions room)) @ rest) = Inr (room, rest)"
    using restore_revisions_put [OF f(7), of "ci_owner ?i" rest] fine by (simp add: room_records_def)
  then have "rd_items MAX_REVISIONS (restore_revision C (rg_directory R) (rg_realm R) (rm_genesis room)) ?fresh
      (put_items put_signed_room (rm_revisions room) @ rest) = Inr (room, rest)"
    using rd_count_put [OF f(6)] f(6) by (simp add: rd_items_def put_items_def MAX_REVISIONS_def)
  then show ?thesis
    using f(1-5) fine by (simp add: restore_room_def put_room_def rd_verified_put room_records_def signed_genesis_id_def rd_word_to_be)
qed

lemma genesis_index_ok:
  assumes "rooms_ok C R"
  shows "genesis_index (rg_rooms R) = rg_by_genesis R"
proof (rule btree.map_eqI)
  have bt: "bt_ok (rg_rooms R)" "bt_ok (rg_by_genesis R)" using assms by (simp_all add: rooms_ok_def)
  show "bt_ok (rg_by_genesis R)" by (rule bt(2))
  show "bt_ok (genesis_index (rg_rooms R))" unfolding genesis_index_def by (rule bt_ok_fold_insert) simp
  have room: "bt_get (rg_by_genesis R) (rm_genesis (snd e)) = Some (fst e)" if "e \<in> set (rg_rooms R)" for e
  proof -
    have "bt_get (rg_rooms R) (fst e) = Some (snd e)" using that btree.entries_get [OF bt(1)] by simp
    then show ?thesis using assms unfolding rooms_ok_def room_ok_def by blast
  qed
  have dist: "distinct (map (\<lambda>e. rm_genesis (snd e)) (rg_rooms R))"
  proof -
    have "distinct (map fst (rg_rooms R))" using bt(1) ascending_distinct by (simp add: bt_ok_def)
    moreover have "inj_on (\<lambda>e. rm_genesis (snd e)) (set (rg_rooms R))"
    proof (rule inj_onI)
      fix a b assume a: "a \<in> set (rg_rooms R)" and b: "b \<in> set (rg_rooms R)" and e: "rm_genesis (snd a) = rm_genesis (snd b)"
      have "fst a = fst b" using room [OF a] room [OF b] e by simp
      moreover have "bt_get (rg_rooms R) (fst a) = Some (snd a)" "bt_get (rg_rooms R) (fst b) = Some (snd b)"
        using a b btree.entries_get [OF bt(1)] by simp_all
      ultimately show "a = b" by (simp add: prod_eq_iff)
    qed
    ultimately show ?thesis by (simp add: distinct_map)
  qed
  show "bt_get (genesis_index (rg_rooms R)) g = bt_get (rg_by_genesis R) g" for g
  proof (cases "g \<in> (\<lambda>e. rm_genesis (snd e)) ` set (rg_rooms R)")
    case True
    then obtain e where e: "e \<in> set (rg_rooms R)" "g = rm_genesis (snd e)" by blast
    then show ?thesis
      using room bt_get_fold_insert [of bt_new "\<lambda>e. rm_genesis (snd e)" "rg_rooms R" e fst] dist by (simp add: genesis_index_def)
  next
    case False
    have "bt_get (rg_by_genesis R) g = None"
    proof (rule ccontr)
      assume "bt_get (rg_by_genesis R) g \<noteq> None"
      then obtain slug room where "bt_get (rg_rooms R) slug = Some room" "rm_genesis room = g" using assms unfolding rooms_ok_def by blast
      then have "(slug, room) \<in> set (rg_rooms R)" using btree.entries_get [OF bt(1)] by simp
      then show False using False \<open>rm_genesis room = g\<close> by force
    qed
    then show ?thesis using False bt_get_fold_insert_other [of bt_new g "\<lambda>e. rm_genesis (snd e)" "rg_rooms R" fst] by (simp add: genesis_index_def)
  qed
qed

lemma restore_rooms_put:
  assumes ok: "rooms_ok C R" and fine: "\<And>slug room. bt_get (rg_rooms R) slug = Some room \<Longrightarrow> \<forall>r\<in>room_records room. record_fine C r"
    and S: "rg_rooms S = bt_new" "rg_by_genesis S = bt_new"
  shows "rd_items MAX_ROOMS (restore_room C (rg_directory R) (rg_realm R)) S (put_items put_room (rg_rooms R) @ rest)
    = Inr (S\<lparr>rg_rooms := rg_rooms R, rg_by_genesis := rg_by_genesis R\<rparr>, rest)"
proof -
  let ?g = "\<lambda>ys. S\<lparr>rg_rooms := ys, rg_by_genesis := genesis_index ys\<rparr>"
  have bt: "bt_ok (rg_rooms R)" and len: "length (rg_rooms R) \<le> MAX_ROOMS" using ok by (simp_all add: rooms_ok_def)
  have step: "restore_room C (rg_directory R) (rg_realm R) (?g ys) (put_room x @ rest) = Inr (?g (ys @ [x]), rest)"
    if split: "rg_rooms R = ys @ x # zs" for ys x zs rest
  proof -
    obtain slug room where x: "x = (slug, room)" by (cases x)
    have get: "bt_get (rg_rooms R) slug = Some room" using split x btree.entries_get [OF bt] by simp
    then have room: "room_ok C R slug room" using ok by (simp add: rooms_ok_def)
    have "bt_insert slug room ys = ys @ [(slug, room)]" using bt split x bt_ok_step by metis
    then show ?thesis using restore_room_put [OF room fine [OF get], of "?g ys" rest] x by (simp add: genesis_index_def)
  qed
  have "?g [] = S" using S by (cases S) (simp add: genesis_index_def bt_new_def)
  moreover have "rd_items MAX_ROOMS (restore_room C (rg_directory R) (rg_realm R)) (?g []) (put_items put_room (rg_rooms R) @ rest) = Inr (?g (rg_rooms R), rest)"
    by (rule rd_items_put [where g = ?g, OF len]) (simp add: MAX_ROOMS_def, rule step)
  ultimately show ?thesis by (simp add: genesis_index_ok [OF ok])
qed

section \<open>Accounts, windows and evidence\<close>

lemma restore_accounts_put:
  assumes bt: "bt_ok m" and len: "length m \<le> MAX_OWNERS" and S: "rg_accounts S = bt_new"
  shows "rd_items MAX_OWNERS restore_account S (put_items put_account m @ rest) = Inr (S\<lparr>rg_accounts := m\<rparr>, rest)"
proof -
  let ?g = "\<lambda>ys. S\<lparr>rg_accounts := ys\<rparr>"
  have step: "restore_account (?g ys) (put_account x @ rest) = Inr (?g (ys @ [x]), rest)" if split: "m = ys @ x # zs" for ys x zs rest
  proof -
    obtain owner a where x: "x = (owner, a)" by (cases x)
    have "bt_insert owner a ys = ys @ [(owner, a)]" using bt split x bt_ok_step by metis
    then show ?thesis by (cases a) (simp add: restore_account_def put_account_def x rd_word_to_be)
  qed
  have "?g [] = S" using S by (cases S) (simp add: bt_new_def)
  moreover have "rd_items MAX_OWNERS restore_account (?g []) (put_items put_account m @ rest) = Inr (?g m, rest)"
    by (rule rd_items_put [where g = ?g, OF len]) (simp add: MAX_OWNERS_def, rule step)
  ultimately show ?thesis by simp
qed

lemma restore_windows_put:
  assumes bt: "bt_ok m" and len: "length m \<le> MAX_OWNERS" and w: "\<And>owner w. bt_get m owner = Some w \<Longrightarrow> length w \<le> unat (dp_max_in_window p)"
    and S: "rg_windows S = bt_new"
  shows "rd_items MAX_OWNERS (restore_window p) S (put_items put_window m @ rest) = Inr (S\<lparr>rg_windows := m\<rparr>, rest)"
proof -
  let ?g = "\<lambda>ys. S\<lparr>rg_windows := ys\<rparr>"
  have small: "unat (dp_max_in_window p) < 2 ^ 32" using unsigned_less [of "dp_max_in_window p", where 'a = nat] by simp
  have step: "restore_window p (?g ys) (put_window x @ rest) = Inr (?g (ys @ [x]), rest)" if split: "m = ys @ x # zs" for ys x zs rest
  proof -
    obtain owner a where x: "x = (owner, a)" by (cases x)
    have i: "bt_insert owner a ys = ys @ [(owner, a)]" using bt split x bt_ok_step by metis
    have "bt_get m owner = Some a" using split x btree.entries_get [OF bt] by simp
    then have "rd_list (unat (dp_max_in_window p)) (rd_word RegCorrupt) (put_items to_be a @ rest) = Inr (a, rest)"
      using rd_list_put [OF w small] by (simp add: rd_word_to_be)
    then show ?thesis using i by (simp add: restore_window_def put_window_def x rd_word_to_be)
  qed
  have "?g [] = S" using S by (cases S) (simp add: bt_new_def)
  moreover have "rd_items MAX_OWNERS (restore_window p) (?g []) (put_items put_window m @ rest) = Inr (?g m, rest)"
    by (rule rd_items_put [where g = ?g, OF len]) (simp add: MAX_OWNERS_def, rule step)
  ultimately show ?thesis by simp
qed

definition social_fine :: "social_wire \<Rightarrow> social_record \<Rightarrow> bool" where
  "social_fine S r \<longleftrightarrow> so_open S (so_encode S r) = Some r \<and> length (so_encode S r) \<le> MAX_SOCIAL_RECORD_BYTES"

lemma rd_social_put: "social_fine S r \<Longrightarrow> rd_social S (put_bytes_len (so_encode S r) @ rest) = Inr (r, rest)"
proof -
  assume r: "social_fine S r"
  then have "unat (word_of_nat (length (so_encode S r)) :: u32) = length (so_encode S r)"
    by (simp add: social_fine_def MAX_SOCIAL_RECORD_BYTES_def unat_of_nat)
  then show ?thesis using r by (simp add: rd_social_def put_bytes_len_def put_count_def rd_word_to_be social_fine_def)
qed

definition support_index :: "(array32, evidence) btree_map \<Rightarrow> (array32 \<times> array32 \<times> u64, unit) btree_map" where
  "support_index m = fold (\<lambda>e. bt_insert (award_key (snd e)) ()) m bt_new"

lemma get_fold_units:
  "bt_ok s \<Longrightarrow> bt_get (fold (\<lambda>e. bt_insert (f e) ()) xs s) k \<noteq> None \<longleftrightarrow> bt_get s k \<noteq> None \<or> k \<in> f ` set xs"
  by (induction xs arbitrary: s) auto

lemma support_index_ok:
  assumes "evidence_ok R" and s: "bt_ok (rg_support R)"
  shows "support_index (rg_evidence R) = rg_support R"
proof (rule btree.map_eqI)
  have bt: "bt_ok (rg_evidence R)" using assms(1) by (simp add: evidence_ok_def)
  show "bt_ok (support_index (rg_evidence R))" unfolding support_index_def by (rule bt_ok_fold_insert) simp
  show "bt_ok (rg_support R)" by (rule s)
  show "bt_get (support_index (rg_evidence R)) k = bt_get (rg_support R) k" for k
  proof -
    have "bt_get (support_index (rg_evidence R)) k \<noteq> None \<longleftrightarrow> k \<in> (\<lambda>e. award_key (snd e)) ` set (rg_evidence R)"
      using get_fold_units [of bt_new "\<lambda>e. award_key (snd e)" "rg_evidence R" k] by (simp add: support_index_def)
    also have "\<dots> \<longleftrightarrow> (\<exists>i e. bt_get (rg_evidence R) i = Some e \<and> award_key e = k)"
      using btree.entries_get [OF bt] by force
    also have "\<dots> \<longleftrightarrow> bt_get (rg_support R) k \<noteq> None" using assms(1) unfolding evidence_ok_def bt_contains_def by blast
    finally show ?thesis by (cases "bt_get (support_index (rg_evidence R)) k"; cases "bt_get (rg_support R) k") auto
  qed
qed

lemma restore_evidence_put:
  assumes ok: "evidence_ok R" "bt_ok (rg_support R)" and fine: "\<And>i e. bt_get (rg_evidence R) i = Some e \<Longrightarrow> social_fine W (ev_record e)"
    and S: "rg_evidence S = bt_new" "rg_support S = bt_new"
  shows "rd_items MAX_SUPPORT (restore_evidence W) S (put_items (put_evidence W) (rg_evidence R) @ rest)
    = Inr (S\<lparr>rg_evidence := rg_evidence R, rg_support := rg_support R\<rparr>, rest)"
proof -
  let ?g = "\<lambda>ys. S\<lparr>rg_evidence := ys, rg_support := support_index ys\<rparr>"
  have bt: "bt_ok (rg_evidence R)" and len: "length (rg_evidence R) \<le> MAX_SUPPORT" using ok(1) by (simp_all add: evidence_ok_def)
  have step: "restore_evidence W (?g ys) (put_evidence W x @ rest) = Inr (?g (ys @ [x]), rest)"
    if split: "rg_evidence R = ys @ x # zs" for ys x zs rest
  proof -
    obtain i e where x: "x = (i, e)" by (cases x)
    have get: "bt_get (rg_evidence R) i = Some e" using split x btree.entries_get [OF bt] by simp
    then have e: "sl_id (ev_record e) = i" "aw_evidence_id (ev_award e) = i" using ok(1) unfolding evidence_ok_def by blast+
    obtain source beneficiary epoch r where c: "e = \<lparr>ev_award = \<lparr>aw_source_owner = source, aw_beneficiary = beneficiary,
        aw_activity_epoch = epoch, aw_evidence_id = sl_id r\<rparr>, ev_record = r\<rparr>" "sl_id r = i"
      using e by (cases e; cases "ev_award e") auto
    have i: "bt_insert i e ys = ys @ [(i, e)]" using bt split x bt_ok_step by metis
    show ?thesis
      using i c rd_social_put [OF fine [OF get]]
      by (simp add: restore_evidence_def put_evidence_def x rd_word_to_be support_index_def award_key_def)
  qed
  have "?g [] = S" using S by (cases S) (simp add: support_index_def bt_new_def)
  moreover have "rd_items MAX_SUPPORT (restore_evidence W) (?g []) (put_items (put_evidence W) (rg_evidence R) @ rest) = Inr (?g (rg_evidence R), rest)"
    by (rule rd_items_put [where g = ?g, OF len]) (simp add: MAX_SUPPORT_def, rule step)
  ultimately show ?thesis by (simp add: support_index_ok [OF ok])
qed

section \<open>The validator schedule\<close>

lemma members_ascend_iff: "sorted_wrt (<) (map vm_key ms) \<Longrightarrow> members_ascend ms"
  by (induction ms rule: members_ascend.induct) (auto simp: member_le_def)

lemma validators_restore:
  assumes "validators_ok C ms"
  shows "members_ascend ms \<and> check_members C RegCorrupt RegCorrupt [] 0 ms = Inr () \<and> ms \<noteq> [] \<and> length ms \<le> MAX_VALIDATORS"
proof -
  have v: "sorted_wrt (<) (map vm_key ms)" "\<forall>m\<in>set ms. vm_power m \<noteq> 0 \<and> key_point C (vm_key m)"
    "sum_list (map (\<lambda>m. unat (vm_power m)) ms) \<le> POWER_CAP" "ms \<noteq> []" "length ms \<le> MAX_VALIDATORS"
    using assms by (simp_all add: validators_ok_def POWER_CAP_def)
  moreover have "distinct (map vm_key ms)" using v(1) strict_sorted_iff by blast
  ultimately show ?thesis
    using members_ascend_iff check_members_iff [of 0 C RegCorrupt RegCorrupt "[]" ms] by (simp add: POWER_CAP_def)
qed

lemma rd_members_put:
  "length ms \<le> MAX_VALIDATORS \<Longrightarrow> rd_list MAX_VALIDATORS rd_member (put_items put_member ms @ rest) = Inr (ms, rest)"
  by (rule rd_list_put) (simp_all add: MAX_VALIDATORS_def rd_member_def put_member_def rd_word_to_be)

lemma restore_schedule_put:
  assumes ok: "schedule_ok C R" and S: "rg_schedule S = bt_new" and start: "\<not> bt_contains (rg_schedule R) 0" and ne: "rg_schedule R \<noteq> []"
  shows "\<exists>last. rd_items MAX_ROTATIONS (restore_rotation C) (0, S) (put_items put_rotation (rg_schedule R) @ rest)
    = Inr ((last, S\<lparr>rg_schedule := rg_schedule R\<rparr>), rest)"
proof -
  let ?last = "\<lambda>ys. if ys = [] then 0 else fst (last ys)" and ?m = "rg_schedule R"
  let ?g = "\<lambda>ys. (?last ys, S\<lparr>rg_schedule := ys\<rparr>)"
  have bt: "bt_ok ?m" and len: "length ?m \<le> MAX_ROTATIONS" using ok by (simp_all add: schedule_ok_def)
  have step: "restore_rotation C (?g ys) (put_rotation x @ rest) = Inr (?g (ys @ [x]), rest)" if split: "?m = ys @ x # zs" for ys x zs rest
  proof -
    obtain h ms where x: "x = (h, ms)" by (cases x)
    have get: "bt_get ?m h = Some ms" using split x btree.entries_get [OF bt] by simp
    then have v: "validators_ok C ms" using ok by (simp add: schedule_ok_def)
    have i: "bt_insert h ms ys = ys @ [(h, ms)]" using bt split x bt_ok_step by metis
    have less: "k < h" if "k \<in> fst ` set ys" for k
      using bt split x that by (auto simp: bt_ok_def ascending_iff sorted_wrt_append)
    have "h \<noteq> 0" using start get by (auto simp: bt_contains_def)
    then have "?last ys < h" using less [of "fst (last ys)"] by (simp add: word_gt_0)
    moreover have "\<not> bt_contains ys h"
    proof
      assume "bt_contains ys h"
      then have "h \<in> fst ` set ys" using btree.keys_get [of ys h] bt split bt_ok_front unfolding bt_contains_def by metis
      then show False using less by blast
    qed
    ultimately show ?thesis
      using validators_restore [OF v] i by (simp add: restore_rotation_def put_rotation_def x rd_word_to_be rd_members_put not_le)
  qed
  have "?g [] = (0, S)" using S by (cases S) (simp add: bt_new_def)
  moreover have "rd_items MAX_ROTATIONS (restore_rotation C) (?g []) (put_items put_rotation ?m @ rest) = Inr (?g ?m, rest)"
    by (rule rd_items_put [where g = ?g, OF len]) (simp add: MAX_ROTATIONS_def, rule step)
  ultimately show ?thesis by auto
qed

lemma restore_schedule_zero:
  assumes ok: "schedule_ok C R" and start: "bt_contains (rg_schedule R) 0"
  shows "rd_items MAX_ROTATIONS (restore_rotation C) (0, S) (put_items put_rotation (rg_schedule R) @ rest) = Inl RegCorrupt"
proof -
  have bt: "bt_ok (rg_schedule R)" and len: "length (rg_schedule R) \<le> MAX_ROTATIONS" using ok by (simp_all add: schedule_ok_def)
  have mem: "0 \<in> fst ` set (rg_schedule R)" using start btree.keys_get [OF bt, of 0] by (simp add: bt_contains_def)
  then obtain x xs where c: "rg_schedule R = x # xs" by (cases "rg_schedule R") auto
  have "fst x = 0" using mem bt unfolding c by (auto simp: bt_ok_Cons word_gt_0)
  moreover have "validators_ok C (snd x)" using ok btree.entries_get [OF bt, of "fst x" "snd x"] c by (simp add: schedule_ok_def)
  ultimately have "restore_rotation C (0, S) (put_rotation x @ concat (map put_rotation xs) @ rest) = Inl RegCorrupt"
    using validators_restore by (simp add: restore_rotation_def put_rotation_def rd_word_to_be rd_members_put)
  then show ?thesis using len rd_count_put [OF len] by (simp add: rd_items_def put_items_def c MAX_ROTATIONS_def)
qed

section \<open>The whole snapshot\<close>

text \<open>What the retained records must satisfy: they came in as verified canonical frames.\<close>

definition records_fine :: "crypto \<Rightarrow> social_wire \<Rightarrow> registry \<Rightarrow> bool" where
  "records_fine C W R \<longleftrightarrow>
     (\<forall>owner r. r \<in> set (oc_history (chain_of (rg_authority R) owner)) \<longrightarrow> record_fine C r)
     \<and> (\<forall>slug room r. bt_get (rg_rooms R) slug = Some room \<longrightarrow> r \<in> room_records room \<longrightarrow> record_fine C r)
     \<and> (\<forall>i e. bt_get (rg_evidence R) i = Some e \<longrightarrow> social_fine W (ev_record e))"

lemma rd_policy_put: "rd_policy (put_policy p @ rest) = Inr (p, rest)"
  by (cases p) (simp add: rd_policy_def put_policy_def rd_word_to_be)

lemma windows_few: "rate_ok R \<Longrightarrow> credit_ok R \<Longrightarrow> length (rg_windows R) \<le> MAX_OWNERS"
proof -
  assume r: "rate_ok R" and c: "credit_ok R"
  have bt: "bt_ok (rg_windows R)" "bt_ok (rg_accounts R)" "length (rg_accounts R) \<le> MAX_OWNERS" using r c by (simp_all add: rate_ok_def credit_ok_def)
  have "length (rg_windows R) \<le> length (rg_accounts R)"
    unfolding btree.length_entries [OF bt(1)] btree.length_entries [OF bt(2)]
    by (rule card_mono [OF btree.finite_keys [OF bt(2)]]) (use r in \<open>auto simp: rate_ok_def\<close>)
  then show ?thesis using bt(3) by simp
qed

definition blank_registry :: "registry \<Rightarrow> registry" where
  "blank_registry R = \<lparr>rg_directory = rg_directory R, rg_realm = rg_realm R, rg_policy = rg_policy R,
     rg_authority = authority_new (rg_directory R) (rg_realm R), rg_eligible = rg_eligible R, rg_support = bt_new, rg_evidence = bt_new,
     rg_accounts = bt_new, rg_windows = bt_new, rg_rooms = bt_new, rg_by_genesis = bt_new, rg_schedule = bt_new,
     rg_last_time = rg_last_time R, rg_revision = rg_revision R\<rparr>"

lemma restore_head:
  assumes "registry_ok C R"
  shows "restore_body C W layout (to_be (rg_directory R) @ to_be (rg_realm R) @ put_policy (rg_policy R) @ to_be (rg_last_time R) @ to_be (rg_revision R)
      @ put_items (\<lambda>e. to_be (fst e)) (rg_eligible R) @ rest)
    = bindR (rd_items MAX_CONTROL_OWNERS (restore_chain C) (blank_registry R) rest) (\<lambda>(S, bs).
      bindR (rd_items MAX_ROOMS (restore_room C (rg_directory R) (rg_realm R)) S bs) (\<lambda>(S, bs).
      bindR (rd_items MAX_OWNERS restore_account S bs) (\<lambda>(S, bs).
      bindR (rd_items MAX_OWNERS (restore_window (rg_policy R)) S bs) (\<lambda>(S, bs).
      bindR (rd_items MAX_SUPPORT (restore_evidence W) S bs) (\<lambda>(S, bs).
      if layout then bindR (rd_items MAX_ROTATIONS (restore_rotation C) (0, S) bs) (\<lambda>((_, S), bs). Inr (S, bs)) else Inr (S, bs))))))"
proof -
  have e: "bt_ok (rg_eligible R)" "length (rg_eligible R) \<le> MAX_OWNERS" "policy_validate (rg_policy R) = Inr ()" using assms by (simp_all add: registry_ok_def)
  have "put_items (\<lambda>e. to_be (fst e)) (rg_eligible R) = put_items to_be (map fst (rg_eligible R))" by (simp add: put_items_def comp_def)
  then have l: "rd_list MAX_OWNERS (rd_word RegCorrupt) (put_items (\<lambda>e. to_be (fst e)) (rg_eligible R) @ rest) = Inr (map fst (rg_eligible R), rest)"
    using rd_list_put [of "map fst (rg_eligible R)" MAX_OWNERS "rd_word RegCorrupt" to_be rest] e(2) by (simp add: MAX_OWNERS_def rd_word_to_be)
  have n: "registry_new (rg_directory R) (rg_realm R) (rg_policy R) (map fst (rg_eligible R)) = Inr ((blank_registry R)\<lparr>rg_last_time := 0, rg_revision := 0\<rparr>)"
    using e set_of_entries [OF e(1)] by (simp add: registry_new_def blank_registry_def)
  have "(blank_registry R)\<lparr>rg_last_time := rg_last_time R, rg_revision := rg_revision R\<rparr> = blank_registry R" by (simp add: blank_registry_def)
  then show ?thesis using e(3) l n by (simp add: restore_body_def rd_word_to_be rd_policy_put)
qed

lemma restore_body_put:
  assumes ok: "registry_ok C R" and fine: "records_fine C W R" and few: "length (ra_chains (rg_authority R)) \<le> MAX_CONTROL_OWNERS"
  shows "restore_body C W (rg_schedule R \<noteq> []) (snapshot_payload W R)
    = (if bt_contains (rg_schedule R) 0 then Inl RegCorrupt else Inr (R\<lparr>rg_authority := drop_empty (rg_authority R)\<rparr>, []))"
proof -
  let ?A = "rg_authority R"
  have o: "chains_ok C ?A" "rooms_ok C R" "credit_ok R" "rate_ok R" "evidence_ok R" "schedule_ok C R" "ra_directory ?A = rg_directory R" "ra_realm ?A = rg_realm R"
    using ok by (simp_all add: registry_ok_def)
  have bt: "bt_ok (rg_accounts R)" "length (rg_accounts R) \<le> MAX_OWNERS" "bt_ok (rg_support R)" "bt_ok (rg_windows R)"
    using o by (simp_all add: credit_ok_def rate_ok_def)
  have w: "length w \<le> unat (dp_max_in_window (rg_policy R))" if "bt_get (rg_windows R) owner = Some w" for owner w
    using o(4) that by (simp add: rate_ok_def)
  let ?B = "blank_registry R"
  let ?S1 = "?B\<lparr>rg_authority := drop_empty ?A\<rparr>"
  let ?S2 = "?S1\<lparr>rg_rooms := rg_rooms R, rg_by_genesis := rg_by_genesis R\<rparr>"
  let ?S3 = "?S2\<lparr>rg_accounts := rg_accounts R\<rparr>"
  let ?S4 = "?S3\<lparr>rg_windows := rg_windows R\<rparr>"
  let ?S5 = "?S4\<lparr>rg_evidence := rg_evidence R, rg_support := rg_support R\<rparr>"
  let ?tail = "if rg_schedule R = [] then [] else put_items put_rotation (rg_schedule R)"
  have s1: "rd_items MAX_CONTROL_OWNERS (restore_chain C) ?B (put_items put_history (ra_chains ?A) @ rest) = Inr (?S1, rest)" for rest
    by (rule restore_chains_put [OF o(1) _ few]) (use fine o(7,8) in \<open>auto simp: records_fine_def blank_registry_def\<close>)
  have s2: "rd_items MAX_ROOMS (restore_room C (rg_directory R) (rg_realm R)) ?S1 (put_items put_room (rg_rooms R) @ rest) = Inr (?S2, rest)" for rest
    by (rule restore_rooms_put [OF o(2)]) (use fine in \<open>auto simp: records_fine_def blank_registry_def\<close>)
  have s3: "rd_items MAX_OWNERS restore_account ?S2 (put_items put_account (rg_accounts R) @ rest) = Inr (?S3, rest)" for rest
    by (rule restore_accounts_put [OF bt(1,2)]) (simp add: blank_registry_def)
  have s4: "rd_items MAX_OWNERS (restore_window (rg_policy R)) ?S3 (put_items put_window (rg_windows R) @ rest) = Inr (?S4, rest)" for rest
    by (rule restore_windows_put [OF bt(4) windows_few [OF o(4,3)] w]) (simp_all add: blank_registry_def)
  have s5: "rd_items MAX_SUPPORT (restore_evidence W) ?S4 (put_items (put_evidence W) (rg_evidence R) @ rest) = Inr (?S5, rest)" for rest
    by (rule restore_evidence_put [OF o(5) bt(3)]) (use fine in \<open>auto simp: records_fine_def blank_registry_def\<close>)
  have body: "restore_body C W (rg_schedule R \<noteq> []) (snapshot_payload W R)
    = (if rg_schedule R \<noteq> [] then bindR (rd_items MAX_ROTATIONS (restore_rotation C) (0, ?S5) ?tail) (\<lambda>((_, S), bs). Inr (S, bs)) else Inr (?S5, ?tail))"
    unfolding snapshot_payload_def restore_head [OF ok] s1 by (simp add: s2 s3 s4 s5)
  show ?thesis
  proof (cases "rg_schedule R = []")
    case True
    then have "?S5 = R\<lparr>rg_authority := drop_empty ?A\<rparr>" by (cases R) (simp add: blank_registry_def bt_new_def)
    moreover have "\<not> bt_contains (rg_schedule R) 0" using True by (simp add: bt_contains_def bt_get_def)
    ultimately show ?thesis unfolding body by (simp add: True)
  next
    case ne: False
    then have body': "restore_body C W True (snapshot_payload W R) = bindR (rd_items MAX_ROTATIONS (restore_rotation C) (0, ?S5)
        (put_items put_rotation (rg_schedule R))) (\<lambda>((_, S), bs). Inr (S, bs))" using body by simp
    show ?thesis
    proof (cases "bt_contains (rg_schedule R) 0")
      case True
      then show ?thesis using ne restore_schedule_zero [OF o(6) True, of ?S5 "[]"] by (simp add: body')
    next
      case False
      have "rg_schedule ?S5 = bt_new" by (simp add: blank_registry_def)
      then obtain last where "rd_items MAX_ROTATIONS (restore_rotation C) (0, ?S5) (put_items put_rotation (rg_schedule R) @ [])
          = Inr ((last, ?S5\<lparr>rg_schedule := rg_schedule R\<rparr>), [])" using restore_schedule_put [OF o(6) _ False ne] by blast
      moreover have "?S5\<lparr>rg_schedule := rg_schedule R\<rparr> = R\<lparr>rg_authority := drop_empty ?A\<rparr>" by (cases R) (simp add: blank_registry_def)
      ultimately show ?thesis using ne False by (simp add: body')
    qed
  qed
qed

lemma restore_body_crowded:
  assumes "registry_ok C R" and "MAX_CONTROL_OWNERS < length (ra_chains (rg_authority R))" and "length (ra_chains (rg_authority R)) < 2 ^ 32"
  shows "restore_body C W layout (snapshot_payload W R) = Inl RegCorrupt"
  unfolding snapshot_payload_def restore_head [OF assms(1)] rd_items_over [OF assms(2,3)] by simp

lemma snapshot_parts:
  "length (registry_snapshot C W R) = 8 + length (snapshot_payload W R) + 32" "take 8 (registry_snapshot C W R) = snapshot_magic C R"
  "take (length (snapshot_payload W R)) (drop 8 (registry_snapshot C W R)) = snapshot_payload W R"
  "drop (8 + length (snapshot_payload W R)) (registry_snapshot C W R) = to_be (snapshot_checksum C (snapshot_payload W R))"
proof -
  have m: "length (snapshot_magic C R) = 8"
    by (simp add: snapshot_magic_def SNAPSHOT_MAGIC_def SNAPSHOT_MAGIC_PUBLIC_ACTIVITY_def SNAPSHOT_MAGIC_SCHEDULE_def ascii_def)
  then show "length (registry_snapshot C W R) = 8 + length (snapshot_payload W R) + 32" "take 8 (registry_snapshot C W R) = snapshot_magic C R"
    "take (length (snapshot_payload W R)) (drop 8 (registry_snapshot C W R)) = snapshot_payload W R"
    "drop (8 + length (snapshot_payload W R)) (registry_snapshot C W R) = to_be (snapshot_checksum C (snapshot_payload W R))"
    by (simp_all add: registry_snapshot_def)
qed

lemma restore_snapshot_iff:
  assumes ok: "registry_ok C R" and fine: "records_fine C W R" and size: "length (ra_chains (rg_authority R)) < 2 ^ 32"
  shows "registry_restore C W (registry_snapshot C W R) =
    (if MAX_CONTROL_OWNERS < length (ra_chains (rg_authority R)) \<or> MAX_REGISTRY_SNAPSHOT_BYTES < length (registry_snapshot C W R)
       \<or> bt_contains (rg_schedule R) 0 then Inl RegCorrupt
     else Inr (R\<lparr>rg_authority := drop_empty (rg_authority R)\<rparr>))"
proof -
  let ?s = "registry_snapshot C W R" and ?p = "snapshot_payload W R"
  have m8: "length SNAPSHOT_MAGIC = 8" by (simp add: SNAPSHOT_MAGIC_def ascii_def)
  have magics: "snapshot_magic C R = SNAPSHOT_MAGIC \<or> snapshot_magic C R = SNAPSHOT_MAGIC_PUBLIC_ACTIVITY \<or> snapshot_magic C R = SNAPSHOT_MAGIC_SCHEDULE"
    and layout: "(snapshot_magic C R = SNAPSHOT_MAGIC_SCHEDULE) = (rg_schedule R \<noteq> [])"
    by (simp_all add: snapshot_magic_def SNAPSHOT_MAGIC_def SNAPSHOT_MAGIC_PUBLIC_ACTIVITY_def SNAPSHOT_MAGIC_SCHEDULE_def)
  have same: "snapshot_magic C (R\<lparr>rg_authority := drop_empty (rg_authority R)\<rparr>) = snapshot_magic C R" by (simp add: snapshot_magic_def)
  have "registry_restore C W ?s = (if MAX_REGISTRY_SNAPSHOT_BYTES < length ?s then Inl RegCorrupt
      else bindR (restore_body C W (rg_schedule R \<noteq> []) ?p) (\<lambda>(S, rest). if rest \<noteq> [] \<or> snapshot_magic C R \<noteq> snapshot_magic C S then Inl RegCorrupt else Inr S))"
    using magics snapshot_parts [where C = C and W = W and R = R] by (simp add: registry_restore_def m8 layout Let_def)
  then show ?thesis
    using restore_body_put [OF ok fine] restore_body_crowded [OF ok _ size] same by (cases "MAX_CONTROL_OWNERS < length (ra_chains (rg_authority R))") auto
qed

end
