(* ===== verification/Room_Snapshot_Safety.thy ===== *)
theory Room_Snapshot_Safety
  imports Room_Restore Room_Safety
begin

text \<open>
  What a snapshot preserves: the exact condition under which \<open>restore\<close> accepts the snapshot of a directory and gives
  the directory back, for every directory that verified records produce; and a directory it refuses.
\<close>

section \<open>Retained records were delivered\<close>

lemma bump_evidence [simp]: "rg_evidence (snd (bump_revision x now R)) = rg_evidence R"
  by (simp add: bump_revision_def split: option.split)

lemma evidence_traced:
  assumes new: "registry_new d realm policy eligible = Inr R0" and g: "bt_get (rg_evidence (registry_run C R0 ops)) i = Some e"
  shows "\<exists>view now. OpAwardRecord (ev_record e) view now \<in> set ops"
proof -
  let ?Q = "\<lambda>S. bt_get (rg_evidence S) i = Some e"
  let ?G = "\<lambda>S op. \<exists>view now. op = OpAwardRecord (ev_record e) view now"
  have ok: "registry_ok C R0" by (rule registry_new_ok [OF new])
  have "?Q S \<or> ?G S op" if S: "registry_ok C S" and q: "?Q (registry_step C S op)" for S op
  proof (cases op)
    case (OpRecord r view now)
    obtain res A where a: "authority_admit C (rg_authority S) r view now = (res, A)" by fastforce
    have "rg_evidence (registry_step C S op) = rg_evidence S"
      using registry_create_cases [OF S, of r _ view now] registry_update_cases [of C S r _ view now] a
      by (cases "sr_body r"; cases res) (fastforce simp: OpRecord registry_apply_def bump_revision_def created_state_def split: prod.split sum.split option.split)+
    then show ?thesis using q by simp
  next
    case (OpAwardRecord r view now)
    obtain res R' where a: "registry_award S r view now = (res, R')" by fastforce
    have bt: "bt_ok (rg_evidence S)" using S by (simp add: registry_ok_def evidence_ok_def)
    have "bt_get (rg_evidence R') i = Some e \<Longrightarrow> bt_get (rg_evidence S) i = Some e \<or> ev_record e = r"
      using registry_award_cases [OF S a] bt
      by (auto simp: with_evidence_def with_award_def bump_revision_def split: option.splits if_splits)
    then show ?thesis using q OpAwardRecord a by auto
  next
    case (OpEligible x now)
    then show ?thesis using q by (simp add: registry_set_eligible_def split: if_splits)
  next
    case (OpRotate start ms now)
    then show ?thesis using q by (simp add: registry_apply_rotation_def split: sum.splits if_splits)
  qed
  note t = run_trace [of C R0 ?Q ?G ops, OF ok this]
  have "\<not> ?Q R0" using new by (auto simp: registry_new_def)
  then show ?thesis using t g by (metis in_set_conv_decomp)
qed

lemma run_records_fine:
  assumes new: "registry_new d realm policy eligible = Inr R0"
    and records: "\<And>r view now. OpRecord r view now \<in> set ops \<Longrightarrow> record_fine C r"
    and awards: "\<And>r view now. OpAwardRecord r view now \<in> set ops \<Longrightarrow> social_fine W r"
  shows "records_fine C W (registry_run C R0 ops)"
proof -
  let ?R = "registry_run C R0 ops"
  have "record_fine C r" if h: "r \<in> set (oc_history (chain_of (rg_authority ?R) owner))" for owner r
    using control_traced [OF new h] unfolding controls_def by (metis records in_set_conv_decomp)
  moreover have "record_fine C (rm_record room)" if h: "bt_get (rg_rooms ?R) slug = Some room" for slug room
    using room_created_by [OF new h] unfolding creates_def by (metis records in_set_conv_decomp)
  moreover have "record_fine C r" if h: "bt_get (rg_rooms ?R) slug = Some room" "r \<in> set (rm_revisions room)" for slug room r
    using room_revised_by [OF new h] unfolding revises_def by (metis records in_set_conv_decomp)
  moreover have "social_fine W (ev_record e)" if h: "bt_get (rg_evidence ?R) i = Some e" for i e
    using evidence_traced [OF new h] awards by blast
  ultimately show ?thesis unfolding records_fine_def room_records_def by blast
qed

section \<open>How many chains a directory holds\<close>

lemma length_bt_insert: "length (bt_insert k v m) \<le> Suc (length m)"
  by (induction m) auto

lemma commit_control_length: "length (ra_chains (snd (commit_control C A r))) \<le> length (ra_chains A) + 2"
proof -
  have e: "length (ra_chains (fst (chain_entry A owner))) \<le> Suc (length (ra_chains A))" for owner
    using length_bt_insert [of owner chain_default "ra_chains A"] by (simp add: chain_entry_def split: option.split)
  have "length (ra_chains (put_chain owner ch (fst (chain_entry A owner)))) \<le> length (ra_chains A) + 2" for owner ch
    using e [of owner] length_bt_insert [of owner ch "ra_chains (fst (chain_entry A owner))"] by (simp add: put_chain_def)
  moreover have "length (ra_chains (fst (chain_entry A owner))) \<le> length (ra_chains A) + 2" for owner using e [of owner] by linarith
  ultimately show ?thesis
    by (fastforce simp: commit_control_def Let_def split: room_body.split prod.split sum.split option.split dest: arg_cong [of _ _ fst])
qed

lemma step_length:
  assumes S: "registry_ok C S"
  shows "length (ra_chains (rg_authority (registry_step C S op))) \<le> length (ra_chains (rg_authority S)) + 2"
proof (cases "\<exists>r view now. op = OpRecord r view now")
  case False
  then show ?thesis using step_authority [OF S False] by simp
next
  case True
  then obtain r view now where op: "op = OpRecord r view now" by blast
  show ?thesis
  proof (cases "\<exists>k. sr_body r = BodyControl k")
    case True
    then have "length (ra_chains (snd (authority_admit C (rg_authority S) r view now))) \<le> length (ra_chains (rg_authority S)) + 2"
      using commit_control_length [of C "rg_authority S" r] by (auto simp: authority_admit_def split: sum.split)
    moreover obtain res A where a: "authority_admit C (rg_authority S) r view now = (res, A)" by fastforce
    ultimately show ?thesis using True by (cases res) (auto simp: op registry_apply_def)
  next
    case False
    have "rg_authority (registry_step C S op) = rg_authority S"
      using registry_create_cases [OF S, of r _ view now] registry_update_cases [of C S r _ view now] False
      by (cases "sr_body r") (fastforce simp: op registry_apply_def bump_revision_def created_state_def split: prod.split sum.split option.split)+
    then show ?thesis by simp
  qed
qed

lemma run_length:
  assumes "registry_ok C S"
  shows "length (ra_chains (rg_authority (registry_run C S ops))) \<le> length (ra_chains (rg_authority S)) + 2 * length ops"
  using assms
proof (induction ops arbitrary: S)
  case (Cons op ops)
  have "registry_ok C (registry_step C S op)" using registry_step_ok [OF Cons.prems] by (simp add: step_ok_def)
  then show ?case using Cons.IH step_length [OF Cons.prems, of op] by fastforce
qed simp

section \<open>Restoring a snapshot\<close>

text \<open>
  C39. A snapshot restores the directory. If every delivered record was verified and canonical (the social crate
  reopening what it encoded), then restoring the snapshot of any directory succeeds exactly when it retains
  at most 256 owner chains, takes at most 64 MiB and schedules no rotation at height 0; what it gives
  back is the same directory less the chains that hold no record, and any other outcome is Corrupt.
\<close>

theorem snapshot_restores:
  assumes "registry_new directory realm policy eligible = Inr R0" and "length ops < 2 ^ 31"
    and "\<forall>r view now. OpRecord r view now \<in> set ops \<longrightarrow> room_decode C (room_encode r) = Inr r \<and> room_verify C r = Inr r"
    and "\<forall>r view now. OpAwardRecord r view now \<in> set ops \<longrightarrow>
      so_open W (so_encode W r) = Some r \<and> length (so_encode W r) \<le> MAX_SOCIAL_RECORD_BYTES"
    and R: "R = registry_run C R0 ops"
  shows "registry_restore C W (registry_snapshot C W R) =
    (if 256 < length (ra_chains (rg_authority R)) \<or> 64 * 1024 * 1024 < length (registry_snapshot C W R) \<or> bt_contains (rg_schedule R) 0
     then Inl RegCorrupt
     else Inr (R\<lparr>rg_authority := (rg_authority R)\<lparr>ra_chains := filter (\<lambda>e. oc_history (snd e) \<noteq> []) (ra_chains (rg_authority R))\<rparr>\<rparr>))"
proof -
  have ok: "registry_ok C R0" by (rule registry_new_ok [OF assms(1)])
  have "ra_chains (rg_authority R0) = []" using assms(1) by (auto simp: registry_new_def authority_new_def bt_new_def)
  then have "length (ra_chains (rg_authority R)) < 2 ^ 32" using run_length [OF ok, of ops] assms(2) R by simp
  moreover have "records_fine C W R" unfolding R
    by (rule run_records_fine [OF assms(1)]; unfold record_fine_def social_fine_def) (use assms(3,4) in blast)+
  moreover have "registry_ok C R" using registry_run_ok [OF ok] R by blast
  ultimately show ?thesis
    by (simp add: restore_snapshot_iff MAX_CONTROL_OWNERS_def MAX_OWNERS_def MAX_REGISTRY_SNAPSHOT_BYTES_def drop_empty_def with_history_def)
qed

definition dir_wire :: social_wire where
  "dir_wire = \<lparr>so_encode = (\<lambda>_. [51]), so_open = (\<lambda>raw. if raw = [51] then Some \<lparr>sl_id = 51, sl_content = UpReaction 9 50\<rparr> else None)\<rparr>"

lemma dir_fine: "record_fine toy_crypto dir_grant" "record_fine toy_crypto dir_create" "record_fine toy_crypto dir_update"
proof -
  show "record_fine toy_crypto dir_grant"
    using control_sign_ok [OF toy_sign_correct dir_signed(1)] dir_verified(1) by (simp add: record_fine_def room_decode_iff)
  show "record_fine toy_crypto dir_update"
    using update_sign_ok [OF toy_sign_correct dir_signed(2)] dir_text_ok dir_verified(3)
    by (simp add: record_fine_def room_decode_iff dir_update_claims_def update_action_ok_def)
  show "record_fine toy_crypto dir_create"
    using dir_create_signed proposal_ok [OF toy_sign_correct, of dir_intent] dir_text_ok dir_verified(2)
    by (auto simp: record_fine_def room_decode_iff dir_intent_eq)
qed

lemma dir_snapshot_small: "length (registry_snapshot toy_crypto dir_wire dir_state4) \<le> 67108864"
proof -
  have "length (room_encode dir_grant) \<le> 2048" "length (room_encode dir_create) \<le> 2048" "length (room_encode dir_update) \<le> 2048"
    using dir_fine [THEN encoded_length] by (simp_all add: MAX_ROOM_RECORD_BYTES_def)
  then show ?thesis
    by (simp add: registry_snapshot_def snapshot_magic_def SNAPSHOT_MAGIC_def SNAPSHOT_MAGIC_PUBLIC_ACTIVITY_def ascii_def snapshot_payload_def
        dir_state4_def dir_state3_def dir_state2_def dir_state1_def dir_registry_eq put_items_def put_policy_def put_history_def put_room_def
        put_account_def put_window_def put_evidence_def put_signed_room_def put_bytes_len_def put_count_def dir_room_def dir_wire_def)
qed

lemma snapshot_restores_witness:
  "registry_restore toy_crypto dir_wire (registry_snapshot toy_crypto dir_wire dir_state4) = Inr dir_state4"
proof -
  have d: "\<forall>r view now. OpRecord r view now \<in> set dir_ops \<longrightarrow>
      room_decode toy_crypto (room_encode r) = Inr r \<and> room_verify toy_crypto r = Inr r"
    using dir_fine by (auto simp: dir_ops_def dir_award_def record_fine_def)
  have a: "\<forall>r view now. OpAwardRecord r view now \<in> set dir_ops \<longrightarrow>
      so_open dir_wire (so_encode dir_wire r) = Some r \<and> length (so_encode dir_wire r) \<le> MAX_SOCIAL_RECORD_BYTES"
    by (auto simp: dir_ops_def dir_award_def dir_wire_def MAX_SOCIAL_RECORD_BYTES_def)
  have "length dir_ops < 2 ^ 31" by (simp add: dir_ops_def)
  note t = snapshot_restores [OF dir_registry_new this d a dir_run [symmetric]]
  have f: "rg_schedule dir_state4 = []" "rg_authority dir_state4 = rg_authority dir_state2"
    by (simp_all add: dir_state4_def dir_state3_def dir_state2_def dir_state1_def dir_registry_eq)
  have c: "length (ra_chains (rg_authority dir_state2)) = 1" "filter (\<lambda>e. oc_history (snd e) \<noteq> []) (ra_chains (rg_authority dir_state2)) = ra_chains (rg_authority dir_state2)"
    by (simp_all add: dir_state2_def)
  have "dir_state4\<lparr>rg_authority := (rg_authority dir_state2)\<lparr>ra_chains := ra_chains (rg_authority dir_state2)\<rparr>\<rparr> = dir_state4"
    by (simp add: f(2) [symmetric])
  then show ?thesis using t dir_snapshot_small by (simp add: f c bt_contains_def bt_get_def)
qed

section \<open>A directory that cannot be restored\<close>

text \<open>Owners 0, 1, 2, ... each record the same first grant.\<close>

definition crowd_view :: "array32 \<Rightarrow> control_view" where
  "crowd_view owner =
     \<lparr>cv_owners = [(owner, \<lparr>os_head = Some 70, os_key = Some 2, os_frozen = False, os_incomplete = False, os_capacity_blocked = False\<rparr>)],
      cv_agents = [(20, \<lparr>as_owner = owner, as_key = 3, as_retired = False, as_active = True\<rparr>)],
      cv_history_complete = (\<lambda>_. True), cv_status = (\<lambda>_. SocialPending), cv_archive = (\<lambda>_. None)\<rparr>"

definition crowd_claims :: "array32 \<Rightarrow> room_control" where
  "crowd_claims owner = dir_grant_claims\<lparr>kc_owner := owner\<rparr>"

definition crowd_grant :: "array32 \<Rightarrow> signed_room" where
  "crowd_grant owner = (case control_sign toy_crypto (crowd_claims owner) 2 of Inr r \<Rightarrow> r)"

definition crowd_ops :: "nat \<Rightarrow> registry_op list" where
  "crowd_ops n = map (\<lambda>i. OpRecord (crowd_grant (word_of_nat i)) (crowd_view (word_of_nat i)) 0) [0..<n]"

definition crowd_chain :: "array32 \<Rightarrow> owner_chain" where
  "crowd_chain owner = \<lparr>oc_head = Some (signed_room_id toy_crypto (crowd_grant owner)), oc_sequence = 1, oc_history = [crowd_grant owner],
     oc_grants = [(signed_room_id toy_crypto (crowd_grant owner), \<lparr>og_agent = 20, og_agent_key = 3, og_expires_at = 1000, og_maximum_charge = 9\<rparr>)]\<rparr>"

definition crowd_state :: "nat \<Rightarrow> registry" where
  "crowd_state n = dir_registry\<lparr>rg_authority := \<lparr>ra_directory = 5, ra_realm = 6,
       ra_chains = map (\<lambda>i. (word_of_nat i, crowd_chain (word_of_nat i))) [0..<n], ra_records = n\<rparr>, rg_revision := word_of_nat n\<rparr>"

lemma crowd_signed: "control_sign toy_crypto (crowd_claims owner) 2 = Inr (crowd_grant owner)"
  by (simp add: crowd_grant_def control_sign_def check_control_def room_key_def require_signer_def crowd_claims_def dir_grant_claims_def) (simp add: toy_crypto_def)

lemma crowd_fine: "record_fine toy_crypto (crowd_grant owner) \<and> sr_body (crowd_grant owner) = BodyControl (crowd_claims owner)"
  using control_sign_ok [OF toy_sign_correct crowd_signed] by (simp add: record_fine_def room_decode_iff room_verify_iff)

lemma word_of_nat_less_256: "i < n \<Longrightarrow> n < 4096 \<Longrightarrow> (word_of_nat i :: array32) < word_of_nat n"
  by (simp add: word_less_nat_alt unat_of_nat)

lemma bt_insert_above:
  assumes "\<And>x. x \<in> fst ` set m \<Longrightarrow> x < k"
  shows "bt_insert k v m = m @ [(k, v)]" "bt_insert k v (m @ [(k, w)]) = m @ [(k, v)]"
  using assms by (induction m) (auto simp: not_less_iff_gr_or_eq)

lemma crowd_step:
  assumes n: "n < 4096"
  shows "registry_step toy_crypto (crowd_state n) (OpRecord (crowd_grant (word_of_nat n)) (crowd_view (word_of_nat n)) 0) = crowd_state (Suc n)"
proof -
  let ?o = "word_of_nat n :: array32"
  let ?m = "map (\<lambda>i. (word_of_nat i :: array32, crowd_chain (word_of_nat i))) [0..<n]"
  have above: "x < ?o" if "x \<in> fst ` set ?m" for x using that word_of_nat_less_256 [OF _ n] by auto
  have none: "bt_get ?m ?o = None"
    using above by (auto simp: bt_get_def map_of_eq_None_iff)
  have ins: "bt_insert ?o v (bt_insert ?o w ?m) = ?m @ [(?o, v)]" for v w
    by (simp only: bt_insert_above [OF above])
  have lt: "unat (word_of_nat n :: u64) + unat (1 :: u64) < 2 ^ LENGTH(64)" using n by (simp add: unat_of_nat)
  have suc: "word_of_nat n + 1 = (word_of_nat (Suc n) :: u64)" by (simp only: of_nat_Suc add.commute)
  have rev: "checked_add (word_of_nat n :: u64) 1 = Some (word_of_nat (Suc n))" by (simp only: checked_add_def lt if_True suc)
  have body: "sr_body (crowd_grant ?o) = BodyControl (crowd_claims ?o)" using crowd_fine by blast
  have claims: "check_control_claims (rg_authority (crowd_state n)) (crowd_view ?o) 0 (crowd_claims ?o) = Inr ()"
    by (simp add: check_control_claims_def check_owner_status_def check_agent_status_def crowd_view_def crowd_claims_def dir_grant_claims_def
        crowd_state_def bt_get_def)
  have commit: "commit_control toy_crypto (rg_authority (crowd_state n)) (crowd_grant ?o) = (Inr (), rg_authority (crowd_state (Suc n)))"
    using n none ins by (simp add: commit_control_def body chain_entry_def chain_default_def apply_action_def put_chain_def crowd_state_def
        crowd_claims_def dir_grant_claims_def MAX_CONTROL_RECORDS_def checked_add_def crowd_chain_def bt_new_def)
  have "registry_apply toy_crypto (crowd_state n) (crowd_grant ?o) (crowd_view ?o) 0 = (Inr AppliedControl, crowd_state (Suc n))"
    using claims commit rev
    by (simp add: registry_apply_def authority_admit_def body bump_revision_def) (simp add: crowd_state_def dir_registry_eq)
  then show ?thesis by simp
qed

lemma registry_run_append: "registry_run C R (xs @ ys) = registry_run C (registry_run C R xs) ys"
  by (induction xs arbitrary: R) auto

lemma crowd_run: "n \<le> 4096 \<Longrightarrow> registry_run toy_crypto dir_registry (crowd_ops n) = crowd_state n"
proof (induction n)
  case 0
  then show ?case by (simp add: crowd_ops_def crowd_state_def dir_registry_eq authority_new_def bt_new_def)
next
  case (Suc n)
  then show ?case using crowd_step [of n] by (simp add: crowd_ops_def registry_run_append)
qed

text \<open>
  C40. A directory can outgrow its own snapshots. Admission bounds the control records but not the owners they
  come from: 257 owners that each record one verified grant are all accepted, and the snapshot of the directory they leave
  is refused as Corrupt by the restore of the same code.
\<close>

theorem crowded_directory_refused:
  "let R = registry_run toy_crypto dir_registry (crowd_ops 257) in
     list_all (\<lambda>op. case op of OpRecord r _ _ \<Rightarrow> room_verify toy_crypto r = Inr r | _ \<Rightarrow> False) (crowd_ops 257)
     \<and> unat (rg_revision R) = 257 \<and> registry_restore toy_crypto W (registry_snapshot toy_crypto W R) = Inl RegCorrupt"
proof -
  have run: "registry_run toy_crypto dir_registry (crowd_ops 257) = crowd_state 257" by (simp add: crowd_run)
  have "record_fine toy_crypto r" if "OpRecord r view now \<in> set (crowd_ops 257)" for r view now
    using that crowd_fine by (auto simp: crowd_ops_def)
  then have "records_fine toy_crypto W (crowd_state 257)"
    using run_records_fine [OF dir_registry_new, of "crowd_ops 257" toy_crypto W] unfolding run by (auto simp: crowd_ops_def)
  moreover have "registry_ok toy_crypto (crowd_state 257)"
    using registry_run_ok [OF registry_new_ok [OF dir_registry_new], of toy_crypto "crowd_ops 257"] unfolding run by blast
  moreover have "length (ra_chains (rg_authority (crowd_state 257))) = 257" by (simp add: crowd_state_def)
  ultimately have "registry_restore toy_crypto W (registry_snapshot toy_crypto W (crowd_state 257)) = Inl RegCorrupt"
    by (simp add: restore_snapshot_iff MAX_CONTROL_OWNERS_def MAX_OWNERS_def)
  moreover have "list_all (\<lambda>op. case op of OpRecord r _ _ \<Rightarrow> room_verify toy_crypto r = Inr r | _ \<Rightarrow> False) (crowd_ops 257)"
    using crowd_fine by (simp add: crowd_ops_def list_all_iff record_fine_def)
  ultimately show ?thesis by (simp add: run Let_def) (simp add: crowd_state_def)
qed

end
