(* ===== verification/Spec2Isabelle.thy ===== *)
theory Spec2Isabelle
  imports Direct_Safety Sync_Safety Ledger_Safety Relay_Safety Claims Session_Safety
    Platform_Safety Steel_Witness Room_Safety Room_Snapshot_Safety
begin

text \<open>
  Verification of the protocol core of Valhalla. The repository is a Rust workspace of small
  crates: a deterministic core that decodes, verifies and admits signed data, and adapters around it
  (sockets, files, browsers, consensus, terminals). This development translates the core, crate by
  crate, and proves what makes each part correct and what holds where the parts meet.

  \<^bold>\<open>How the parts interact.\<close> Every crate is one pattern with variations. Bytes arrive and a strict
  decoder accepts exactly the canonical encodings; a decoded record is \<open>unsigned\<close> or \<open>signed\<close>, and only
  a signature check under a strict key turns it into a \<open>verified\<close> one; a bounded state (a replica, a
  window, a ledger, a receiver) then admits the verified record or refuses it with a named error and
  stays as it was. Public rooms (\<open>vhalla-direct-room\<close>) exchange their records by snapshots
  (\<open>vhalla-direct-sync\<close>); private rooms hand opaque items to a relay (\<open>vhalla-private-relay\<close>); two paired
  peers authenticate each other and chat (\<open>vhalla-session\<close>); a signed envelope (\<open>vhalla-wire\<close>,
  \<open>vhalla-crypto\<close>) carries an event of a realm (\<open>vhalla-ledger\<close>) or a request that the local policy
  (\<open>vhalla-policy\<close>) may authorize on a host (\<open>vhalla-host\<close>); the witness machine (\<open>vhalla-witness\<close>)
  runs small programs whose receipt answers a challenge (\<open>vhalla-botcaptcha\<close>); and a shared directory of rooms
  (\<open>vhalla-rooms\<close>) admits control records, creations and revisions in an agreed order.

  \<^bold>\<open>The prelude and the interfaces.\<close>
  \<^item> \<open>Rust_Prelude\<close>: machine integers as words, \<open>Result\<close> as a sum type with early return, fallible loops
    over lists, checked arithmetic. \<open>Rust_Text\<close>: UTF-8 and control characters. \<open>Fault_State\<close>: fallible code that mutates what it borrows; the
    state as it is left is returned also with an error.
  \<^item> \<open>Byte_Codec\<close>: big-endian integers, fixed arrays, readers over a remaining slice. Its locale
    \<open>prefix_codec\<close> is a field codec (the reader inverts the writer and consumes exactly what was
    written) and \<open>frame_codec\<close> a whole-frame codec (decoding accepts exactly the encodings of
    well-formed values); a prefix codec followed by the end of input is a frame codec. Every codec of
    the model interprets one of the two.
  \<^item> \<open>BTree_Map\<close>: \<open>alloc::collections::BTreeMap\<close> as its key-ordered sequence of entries; the locale
    \<open>ordered_map\<close> states lookup, insertion and removal laws.
  \<^item> \<open>Crypto_Params\<close>: Ed25519 and SHA-256 are code outside the repository, so they are a parameter, a
    record of functions that the definitions take. \<open>sign_correct\<close> says that a signature made with a key verifies
    under its public key. Unforgeability is never assumed: authenticity properties conclude that the
    signature over exactly those bytes verified. \<open>collision_free\<close> says that the listed transcripts do not
    collide; it is a hypothesis about finitely many byte strings, and properties that need it name
    them. A concrete instance makes every witness computable.
  \<^item> \<open>Replay_Guard\<close>: the contract of the replay guards (an admission raises the rank of its scope and changes
    no other), interpreted by the envelope window, the claim window and the spent nonces; its history
    lemma gives \<open>admitted at most once\<close> over any sequence of deliveries.

  \<^bold>\<open>Public rooms\<close>, \<open>crates/vhalla-direct-room\<close>.
  \<^item> \<open>Direct_Records\<close> (\<open>records.rs\<close>, \<open>codec.rs\<close>, \<open>lib.rs\<close>): genesis, policy and event claims, structural checks,
    canonical encodings and the type-state chain of the \<open>record!\<close> macro. The locale \<open>signed_record\<close> is
    that macro: its three interpretations are the three record kinds.
  \<^item> \<open>Direct_State\<close> (\<open>state.rs\<close>): \<open>PolicyState\<close>, \<open>PreparedPolicy\<close>, \<open>SealProof\<close>, \<open>AuthorChain\<close>, \<open>AnchorReconciliation\<close>.
    Prepared values stay valid or are refused by their base state, which is why prepare and commit are
    separate operations; the locale \<open>chain_pages\<close> is the paged walk both reconciliations share.
  \<^item> \<open>Direct_History\<close> (\<open>history.rs\<close>): what a closed policy demands of a candidate history, and the verifier.
  \<^item> \<open>Direct_Machine\<close>: one rule per public method, over every interleaving, with the reachable-state
    invariant; \<open>Direct_Examples\<close>: a small room; \<open>Direct_Safety\<close>: the properties.

  \<^bold>\<open>Snapshots\<close>, \<open>crates/vhalla-direct-sync\<close>.
  \<^item> \<open>Direct_Sync\<close> (\<open>lib.rs\<close>): checkpoints, the rolling digest, \<open>SourceAccumulator\<close> and \<open>Receiver\<close> with wrapping and
    checked \<open>u64\<close> counters.
  \<^item> \<open>Sync_Rolling\<close>: the rolling digest as a function of the list of frames, the abstract log.
    \<open>Sync_Machine\<close>: the receiver as a step relation with a ghost log. \<open>Sync_Safety\<close>: the properties.

  \<^bold>\<open>Event history\<close>, \<open>crates/vhalla-ledger\<close>. \<open>Ledger\<close> (\<open>lib.rs\<close>): append, the parent walk, state roots,
  checkpoints, snapshot and restore. \<open>Ledger_Log\<close>: the refinement to an append-only list.
  \<open>Ledger_Snapshot\<close>: the two read loops of \<open>restore\<close>. \<open>Ledger_Safety\<close>: the properties.

  \<^bold>\<open>Relay items\<close>, \<open>crates/vhalla-private-relay\<close>. \<open>Relay\<close> (\<open>lib.rs\<close>, \<open>codec.rs\<close>): opaque items,
  receipts, page requests, mailbox pages with the truncation at the byte cap. \<open>Relay_Safety\<close>: the properties. The
  identifiers and outbox kinds of \<open>crates/vhalla-private-kernel\<close> that items carry are in \<open>Relay\<close> too.

  \<^bold>\<open>Envelopes and effects.\<close> \<open>Wire\<close> (\<open>vhalla-core\<close>, \<open>vhalla-wire\<close>): the bounded parser boundary and the unsigned
  envelope. \<open>Signed_Envelope\<close> (\<open>vhalla-crypto/src/lib.rs\<close>): signing, context verification, the replay
  window. \<open>Effects\<close> (\<open>vhalla-policy\<close>, \<open>vhalla-host\<close>, \<open>vhalla-transport\<close>, \<open>vhalla-steel-thread\<close>): grants, execution
  with checked epochs, the bounded relay queue and the joined session. \<open>Effects_Safety\<close>: the properties.
  \<open>Claims\<close> (\<open>vhalla-crypto/src/claims.rs\<close>): typed claims with an equivocation check, with their property.

  \<^bold>\<open>Paired sessions\<close>, \<open>crates/vhalla-session\<close>. \<open>Session\<close> (\<open>lib.rs\<close>, \<open>invitation.rs\<close>, \<open>spent_nonce.rs\<close>): pairing, the three handshake packets,
  the live session, invitations and spent nonces. \<open>Session_Safety\<close>: the properties.

  \<^bold>\<open>The witness platform\<close>, \<open>crates/vhalla-witness\<close>.
  \<^item> \<open>Witness_Model\<close> (\<open>bounds.rs\<close>, \<open>model.rs\<close>, \<open>world.rs\<close>): bounds, programs, worlds, cases and assignments with
    their validation; \<open>Witness_World\<close>: what validation establishes.
  \<^item> \<open>Witness_Ledger\<close> (\<open>ledger.rs\<close>): the work meter. \<open>Witness_VM\<close> (\<open>vm.rs\<close>): the tick machine over an explicit
    store; an index that would panic is an error of its own, so that its absence is a theorem.
  \<^item> \<open>Witness_Invariant\<close>, \<open>Witness_Steps\<close>, \<open>Witness_Machine\<close>, \<open>Witness_Run\<close>: the invariant, its preservation
    by every operation, by every phase of a tick, and by whole runs. \<open>Witness_Safety\<close>: the properties.
  \<^item> \<open>Witness_Codec\<close> (\<open>codec.rs\<close>), \<open>Witness_Platform\<close> (\<open>hash.rs\<close>, \<open>manifest.rs\<close>, \<open>platform.rs\<close>): encodings,
    digests, the manifest, the binding of candidates, the run capability and receipts. \<open>Witness_Wire\<close> and
    \<open>Witness_Replay\<close> hold the proofs, \<open>Platform_Safety\<close>: the properties.

  \<^bold>\<open>Challenges\<close>, \<open>crates/vhalla-botcaptcha\<close>. \<open>One_Use_Window\<close> (\<open>window.rs\<close>): which scope was consumed by
  which response until when. \<open>Botcaptcha\<close> (\<open>challenge.rs\<close>, \<open>response.rs\<close>, \<open>hashcash.rs\<close>, \<open>lib.rs\<close>): challenges, responses, the search for a
  nonce. \<open>Botcaptcha_Verifier\<close> (\<open>admit.rs\<close>): every step from a response to an admission, with the
  replay of the witness programs. \<open>Botcaptcha_Codec\<close>: exact codecs. \<open>Botcaptcha_Machine\<close>: sequences of
  verifier operations. \<open>Botcaptcha_Safety\<close>: the properties. \<open>Steel_Witness\<close> (\<open>vhalla-steel-thread\<close>): the session
  in which challenges and responses travel as signed envelopes, with its properties.

  \<^bold>\<open>The room directory\<close>, \<open>crates/vhalla-rooms\<close>.
  \<^item> \<open>Room_Wire\<close> (\<open>model.rs\<close>, \<open>wire.rs\<close>): control, creation and update records, owner permits and agent proposals,
    their frames and signatures. \<open>Room_Codec\<close>: exact codecs, and what a verified record establishes.
  \<^item> \<open>Room_Registry\<close> (\<open>authority.rs\<close>, \<open>awards.rs\<close>, \<open>registry.rs\<close>): the control ledger, the support awards and the
    directory with its operations. The borrowed social view is a record of the values these files read from
    it, and every statement holds for all views.
  \<^item> \<open>Room_Invariant\<close>, \<open>Room_Steps\<close>, \<open>Room_Runs\<close>: the invariant of the directory (chains and rooms are replays of the
    records they retain, credit earned and spent, creation windows, evidence, validator schedule), its
    preservation by every operation and every sequence of operations, and what a sequence only adds to.
  \<^item> \<open>Room_Trace\<close>: which operation a room, a control record, a revision or an award comes from, and the
    persistence guard. \<open>Room_Safety\<close>: the properties.
  \<^item> \<open>Room_Snapshot\<close>: snapshot, digest and restore of the directory; how the social crate encodes a retained record is
    the parameter \<open>social_wire\<close>. \<open>Room_Restore\<close>: every loop of restore against what the snapshot wrote, with the exact
    outcome. \<open>Room_Snapshot_Safety\<close>: the round trip, and a directory its own restore refuses.

  \<^bold>\<open>What the groups of lemmas show.\<close> For every codec: exactness in both directions, hence canonical
  frames, over the field codecs it is built from. For every admission: the exact condition of success
  and the error of every refusal, in the order of the code's checks, and that a refusal leaves the state
  alone. For every state: an invariant that every operation keeps, then statements over all
  reachable states or all sequences of operations. For the abstract logs (\<open>vhalla-ledger\<close>,
  \<open>vhalla-direct-sync\<close>): a refinement, from which append-only behaviour and agreement of two replicas follow.

  \<^bold>\<open>Bounds, loops and termination.\<close> All definitions are total and executable; there is no artificial fuel.
  A walk over parents recurses on the number of stored events, the relay queue on its length at the
  call, the nonce search on its budget. A witness run recurses on the ticks of its case (at most 128),
  and its fuel is the code's own meter (at most 2000000): a run that exhausts it stops short, which a property states
  exactly. Machine integers keep their width: counters use the code's checked, saturating or wrapping
  operation, and a bound from a state invariant is proved where the code relies on it.
  A \<open>usize\<close> is a natural number: lengths are bounded by the code's own caps below any platform's range.

  \<^bold>\<open>Conventions.\<close> Getters, newtype wrappers and derived traits are the record fields, the wrapped values and
  HOL equality. Move-only tokens are values: what a caller could do with a token is a
  rule of the step relations. Entropy, clocks and keys are arguments. Observers are the list of values they see.

  \<^bold>\<open>Not modelled.\<close>
  \<^item> Cryptography and the MLS kernel (\<open>vhalla-private-kernel\<close> drives OpenMLS): code outside the repository.
  \<^item> Adapters: sockets, files, locks, browsers, PostgreSQL, consensus engine and terminal (the \<open>-native\<close>,
    \<open>-store\<close>, \<open>-node\<close>, \<open>-tui\<close>, \<open>-browser-\<close> crates, \<open>vhalla-identity\<close>, \<open>vhalla-custody\<close>, \<open>vhalla-cli\<close>): their effects are
    system calls whose order and crash behaviour need models of the platform.
  \<^item> \<open>vhalla-private-protocol\<close>, \<open>vhalla-social\<close>, \<open>vhalla-room-activity\<close>, \<open>vhalla-discovery\<close>, \<open>vhalla-attention\<close>,
    \<open>vhalla-retrieval\<close>, the consensus adapter and the public route crates: deterministic code of the same kind,
    not translated.
  \<^item> Test vectors, the TLA+ and Lean harnesses under \<open>verify\<close>, prototypes, documentation, deployment and vendored packages.
\<close>

end
